(* ===== verification/Prelude.thy ===== *)
theory Prelude
  imports Main "HOL-Library.Word"
begin

text \<open>
  Shared vocabulary of the development: the C integer types as machine words, the
  \<open>for\<close> loop and the searching \<open>for\<close> loop as functions with their
  invariant rules, and the lemmas on words, bits and lists that the components share.
  A C array that is only ever indexed is a function from indices; each component proves
  that the indices it uses stay inside the declared bound.
\<close>

unbundle bit_operations_syntax

type_synonym u8 = "8 word"
type_synonym u16 = "16 word"
type_synonym u32 = "32 word"
type_synonym u64 = "64 word"

named_theorems mm_simps \<open>memory-management definitions to unfold\<close>
named_theorems layout_simps \<open>constants of the C sources\<close>

section \<open>Loops\<close>

text \<open>\<open>for (i = a; i < b; i++) s = f(i, s);\<close>\<close>

definition for_loop :: "nat \<Rightarrow> nat \<Rightarrow> (nat \<Rightarrow> 's \<Rightarrow> 's) \<Rightarrow> 's \<Rightarrow> 's" where
  "for_loop a b f s = fold f [a..<b] s"

lemma for_loop_empty [simp]: "b \<le> a \<Longrightarrow> for_loop a b f s = s"
  by (simp add: for_loop_def)

lemma for_loop_Suc: "a \<le> b \<Longrightarrow> for_loop a (Suc b) f s = f b (for_loop a b f s)"
  by (simp add: for_loop_def)

lemma for_loop_rec: "a < b \<Longrightarrow> for_loop a b f s = for_loop (Suc a) b f (f a s)"
  by (simp add: for_loop_def upt_conv_Cons)

lemma for_loop_invariant:
  assumes "a \<le> b" and "P a s"
    and "\<And>i s. a \<le> i \<Longrightarrow> i < b \<Longrightarrow> P i s \<Longrightarrow> P (Suc i) (f i s)"
  shows "P b (for_loop a b f s)"
  using assms
proof (induction b rule: dec_induct)
  case base
  then show ?case by simp
next
  case (step n)
  then show ?case by (simp add: for_loop_Suc)
qed

text \<open>A loop whose body only ever keeps a predicate.\<close>

lemma for_loop_keeps:
  assumes "P s" and "\<And>i s. a \<le> i \<Longrightarrow> i < b \<Longrightarrow> P s \<Longrightarrow> P (f i s)"
  shows "P (for_loop a b f s)"
proof (cases "a \<le> b")
  case True
  then show ?thesis
    using for_loop_invariant [of a b "\<lambda>_. P" s f] assms by blast
next
  case False
  with assms show ?thesis by simp
qed

lemma for_loop_cong:
  assumes "\<And>i s. a \<le> i \<Longrightarrow> i < b \<Longrightarrow> f i s = g i s"
  shows "for_loop a b f s = for_loop a b g s"
  unfolding for_loop_def by (rule fold_cong) (auto simp: assms)

text \<open>\<open>for (i = a; i < b; i++) if (P(i)) return i;\<close>: the first index, if any.\<close>

function first_from :: "(nat \<Rightarrow> bool) \<Rightarrow> nat \<Rightarrow> nat \<Rightarrow> nat option" where
  "first_from P a b = (if a < b then (if P a then Some a else first_from P (Suc a) b) else None)"
  by pat_completeness auto
termination
  by (relation "measure (\<lambda>(P, a, b). b - a)") auto

declare first_from.simps [simp del]

lemma from_split:
  "(\<forall>i::nat. a \<le> i \<and> i < b \<longrightarrow> Q i) \<longleftrightarrow> (a < b \<longrightarrow> Q a) \<and> (\<forall>i. Suc a \<le> i \<and> i < b \<longrightarrow> Q i)"
  by (metis Suc_le_eq le_less)

lemma first_from_None: "first_from P a b = None \<longleftrightarrow> (\<forall>i. a \<le> i \<and> i < b \<longrightarrow> \<not> P i)"
proof (induction P a b rule: first_from.induct)
  case (1 P a b)
  show ?case
  proof (cases "a < b \<and> \<not> P a")
    case True
    then have "first_from P a b = first_from P (Suc a) b"
      by (simp add: first_from.simps [of P a b])
    with True 1 show ?thesis by (simp add: from_split [of a b])
  next
    case False
    then show ?thesis by (auto simp: first_from.simps [of P a b])
  qed
qed

lemma first_from_SomeD:
  "first_from P a b = Some i \<Longrightarrow> a \<le> i \<and> i < b \<and> P i \<and> (\<forall>j. a \<le> j \<and> j < i \<longrightarrow> \<not> P j)"
proof (induction P a b rule: first_from.induct)
  case (1 P a b)
  show ?case
  proof (cases "a < b \<and> \<not> P a")
    case True
    then have "first_from P a b = first_from P (Suc a) b"
      by (simp add: first_from.simps [of P a b])
    with True 1 show ?thesis by (simp add: from_split [of a i])
  next
    case False
    with "1.prems" show ?thesis by (auto simp: first_from.simps [of P a b] split: if_splits)
  qed
qed

lemma first_from_Some:
  "first_from P a b = Some i \<longleftrightarrow> a \<le> i \<and> i < b \<and> P i \<and> (\<forall>j. a \<le> j \<and> j < i \<longrightarrow> \<not> P j)"
proof
  assume r: "a \<le> i \<and> i < b \<and> P i \<and> (\<forall>j. a \<le> j \<and> j < i \<longrightarrow> \<not> P j)"
  then have "first_from P a b \<noteq> None" by (auto simp: first_from_None)
  then obtain k where k: "first_from P a b = Some k" by blast
  from first_from_SomeD [OF k] r have "k = i" by (meson linorder_neqE_nat)
  with k show "first_from P a b = Some i" by simp
qed (rule first_from_SomeD)

lemma first_from_Least:
  assumes "\<exists>i. a \<le> i \<and> i < b \<and> P i"
  shows "first_from P a b = Some (LEAST i. a \<le> i \<and> P i)"
proof -
  obtain k where k: "a \<le> k" "k < b" "P k" using assms by blast
  define l where "l = (LEAST i. a \<le> i \<and> P i)"
  have "a \<le> l \<and> P l"
    using LeastI [of "\<lambda>i. a \<le> i \<and> P i" k] k unfolding l_def by blast
  moreover have "l \<le> k"
    using Least_le [of "\<lambda>i. a \<le> i \<and> P i" k] k unfolding l_def by blast
  moreover have "\<not> (a \<le> j \<and> P j)" if "j < l" for j
    using that unfolding l_def by (rule not_less_Least)
  ultimately have "first_from P a b = Some l"
    using k unfolding first_from_Some by auto
  then show ?thesis by (simp add: l_def)
qed

lemma first_from_cong:
  assumes "\<And>i. a \<le> i \<Longrightarrow> i < b \<Longrightarrow> P i = Q i"
  shows "first_from P a b = first_from Q a b"
proof (cases "first_from Q a b")
  case None
  with assms have "first_from P a b = None" by (simp add: first_from_None)
  with None show ?thesis by simp
next
  case (Some i)
  with assms have "first_from P a b = Some i" by (simp add: first_from_Some)
  with Some show ?thesis by simp
qed

lemma first_from_skip:
  assumes "a \<le> c" and "\<And>j. a \<le> j \<Longrightarrow> j < c \<Longrightarrow> \<not> P j"
  shows "first_from P a b = first_from P c b"
  using assms
proof (induction c rule: dec_induct)
  case base
  then show ?case by simp
next
  case (step n)
  then have "first_from P a b = first_from P n b" by simp
  also have "\<dots> = first_from P (Suc n) b"
    using step by (cases "n < b") (simp_all add: first_from.simps [of P n b] first_from.simps [of P "Suc n" b])
  finally show ?case .
qed

section \<open>Words\<close>

lemma unat_of_nat_small: "n < 2 ^ LENGTH('a) \<Longrightarrow> unat (of_nat n :: 'a::len word) = n"
  by (simp add: unat_of_nat take_bit_nat_eq_self)

lemma u32_lt [simp]: "unat (x :: u32) < 4294967296"
  using unsigned_less [of x] by simp

lemma unat_add_no_wrap:
  fixes a b :: "'a::len word"
  shows "unat a + unat b < 2 ^ LENGTH('a) \<Longrightarrow> unat (a + b) = unat a + unat b"
  by (simp add: unat_word_ariths)

lemma unat_sub_no_wrap:
  fixes a b :: "'a::len word"
  shows "unat b \<le> unat a \<Longrightarrow> unat (a - b) = unat a - unat b"
  by (simp add: unat_sub_if_size)

lemma unat_mult_no_wrap:
  fixes a b :: "'a::len word"
  shows "unat a * unat b < 2 ^ LENGTH('a) \<Longrightarrow> unat (a * b) = unat a * unat b"
  by (simp add: unat_word_ariths)

lemma bit_test_iff: "(drop_bit n (w :: 'a::len word) AND 1 \<noteq> 0) \<longleftrightarrow> bit w n"
  by (simp add: bit_iff_odd_drop_bit and_one_eq odd_iff_mod_2_eq_one)

lemma bit_mask_iff: "(w AND push_bit n 1 \<noteq> (0 :: 'a::len word)) \<longleftrightarrow> bit w n"
proof
  assume "w AND push_bit n 1 \<noteq> 0"
  then show "bit w n"
    by (rule contrapos_np) (rule bit_word_eqI, auto simp: bit_simps)
next
  assume b: "bit w n"
  then have "bit (w AND push_bit n 1) n"
    by (auto simp: bit_simps dest: bit_imp_le_length)
  then show "w AND push_bit n 1 \<noteq> 0" by force
qed

lemma word_full_iff: "(w :: 'a::len word) = - 1 \<longleftrightarrow> (\<forall>n < LENGTH('a). bit w n)"
  by (auto simp: bit_eq_iff)

lemma bit_set_mask: "bit (w OR push_bit m 1 :: 'a::len word) n \<longleftrightarrow> bit w n \<or> (n = m \<and> n < LENGTH('a))"
  by (auto simp: bit_simps)

lemma bit_clear_mask: "bit (w AND NOT (push_bit m 1) :: 'a::len word) n \<longleftrightarrow> bit w n \<and> n \<noteq> m"
  by (auto simp: bit_simps bit_imp_le_length)

lemma word_all_ones_iff: "(w :: u32) = 0xFFFFFFFF \<longleftrightarrow> (\<forall>n < 32. bit w n)"
proof -
  have "(0xFFFFFFFF :: u32) = - 1" by simp
  then have "w = 0xFFFFFFFF \<longleftrightarrow> w = - 1" by (simp only:)
  also have "\<dots> \<longleftrightarrow> (\<forall>n < LENGTH(32). bit w n)" by (rule word_full_iff)
  finally show ?thesis by simp
qed

section \<open>Arithmetic on indices\<close>

lemma div_mod_eqI: "(a::nat) div k = b div k \<Longrightarrow> a mod k = b mod k \<Longrightarrow> a = b"
  by (metis div_mult_mod_eq)

lemma div_mod_eq_iff: "(a::nat) = b \<longleftrightarrow> a div k = b div k \<and> a mod k = b mod k"
  using div_mod_eqI by blast

end
