(* ===== verification/Mm_Pmm.thy ===== *)
theory Mm_Pmm
  imports Prelude
begin

text \<open>
  The physical page-frame allocator, \<^verbatim>\<open>kernel/mm/pmm.c\<close>: one bit per 4 KiB frame in an
  array of 32768 words, set when the frame is used. The theory gives the allocator its
  abstract state, the set of free frames, shows that the two-level search finds the least
  free frame, that the used-frame counter agrees with the bitmap, and that allocation and
  release are removal of the minimum and insertion. The locale of frame allocators states
  what the paging code relies on.
\<close>

section \<open>State and operations\<close>

definition PAGE_SIZE :: u32 where [layout_simps]: "PAGE_SIZE = 4096"

definition FRAMES_MAX :: nat where [layout_simps]: "FRAMES_MAX = 1024 * 1024"

definition BITMAP_SIZE :: nat where [layout_simps]: "BITMAP_SIZE = FRAMES_MAX div 32"

record pmm =
  bitmap :: "nat \<Rightarrow> u32"
  total_frames :: u32
  used_frames :: u32

text \<open>The zero-initialised statics the kernel is loaded with.\<close>

definition pmm_bss :: pmm where
  "pmm_bss = \<lparr>bitmap = \<lambda>_. 0, total_frames = 0, used_frames = 0\<rparr>"

definition bitmap_set :: "nat \<Rightarrow> pmm \<Rightarrow> pmm" where
  "bitmap_set frame s =
     s\<lparr>bitmap := (bitmap s)(frame div 32 := bitmap s (frame div 32) OR push_bit (frame mod 32) 1)\<rparr>"

definition bitmap_clear :: "nat \<Rightarrow> pmm \<Rightarrow> pmm" where
  "bitmap_clear frame s =
     s\<lparr>bitmap := (bitmap s)(frame div 32 := bitmap s (frame div 32) AND NOT (push_bit (frame mod 32) 1))\<rparr>"

definition bitmap_test :: "pmm \<Rightarrow> nat \<Rightarrow> bool" where
  "bitmap_test s frame \<longleftrightarrow> drop_bit (frame mod 32) (bitmap s (frame div 32)) AND 1 \<noteq> 0"

text \<open>
  The two-level search. The outer loop skips a word whose bits are all set, the inner one
  returns at the first clear bit; \<open>None\<close> is the source's \<open>(size_t)-1\<close>.
\<close>

function bitmap_first_free_from :: "pmm \<Rightarrow> nat \<Rightarrow> nat option" where
  "bitmap_first_free_from s i =
     (if i < BITMAP_SIZE
      then if bitmap s i = 0xFFFFFFFF then bitmap_first_free_from s (Suc i)
           else case first_from (\<lambda>b. \<not> (bitmap s i AND push_bit b 1 \<noteq> 0)) 0 32 of
                  Some b \<Rightarrow> Some (i * 32 + b)
                | None \<Rightarrow> bitmap_first_free_from s (Suc i)
      else None)"
  by pat_completeness auto
termination
  by (relation "measure (\<lambda>(s, i). BITMAP_SIZE - i)") auto

declare bitmap_first_free_from.simps [simp del]

definition bitmap_first_free :: "pmm \<Rightarrow> nat option" where
  "bitmap_first_free s = bitmap_first_free_from s 0"

definition pmm_init :: "u32 \<Rightarrow> u32 \<Rightarrow> pmm \<Rightarrow> pmm" where
  "pmm_init mem_kb kernel_end s =
     (let total = (mem_kb * 1024) div PAGE_SIZE;
          s = s\<lparr>total_frames := total, used_frames := 0\<rparr>;
          s = for_loop 0 BITMAP_SIZE (\<lambda>i s. s\<lparr>bitmap := (bitmap s)(i := 0xFFFFFFFF)\<rparr>) s;
          first_free = (kernel_end + PAGE_SIZE - 1) div PAGE_SIZE;
          s = for_loop (unat first_free) (unat total) bitmap_clear s;
          s = for_loop 0 256 bitmap_set s;
          s = s\<lparr>used_frames := 0\<rparr>
      in for_loop 0 (unat total)
           (\<lambda>i s. if bitmap_test s i then s\<lparr>used_frames := used_frames s + 1\<rparr> else s) s)"

text \<open>A null pointer is the address 0.\<close>

definition pmm_alloc :: "pmm \<Rightarrow> u32 \<times> pmm" where
  "pmm_alloc s =
     (case bitmap_first_free s of
        None \<Rightarrow> (0, s)
      | Some frame \<Rightarrow>
          (let s = bitmap_set frame s;
               s = s\<lparr>used_frames := used_frames s + 1\<rparr>
           in (of_nat frame * PAGE_SIZE, s)))"

definition pmm_free :: "u32 \<Rightarrow> pmm \<Rightarrow> pmm" where
  "pmm_free addr s =
     (let frame = unat (addr div PAGE_SIZE)
      in if bitmap_test s frame
         then (bitmap_clear frame s)\<lparr>used_frames := used_frames s - 1\<rparr>
         else s)"

definition pmm_free_frames :: "pmm \<Rightarrow> u32" where
  "pmm_free_frames s = total_frames s - used_frames s"

section \<open>The bitmap as a set of frames\<close>

text \<open>The frames whose bit is clear, among those the bitmap has a bit for.\<close>

definition free_set :: "pmm \<Rightarrow> nat set" where
  "free_set s = {f. f < FRAMES_MAX \<and> \<not> bitmap_test s f}"

text \<open>
  The counter agrees with the bitmap; no frame of the first MiB and none beyond the
  machine's memory is free.
\<close>

definition pmm_inv :: "pmm \<Rightarrow> bool" where
  "pmm_inv s \<longleftrightarrow>
     unat (total_frames s) \<le> FRAMES_MAX \<and>
     free_set s \<subseteq> {256 ..< unat (total_frames s)} \<and>
     unat (used_frames s) + card (free_set s) = unat (total_frames s)"

lemma bitmap_test_bit: "bitmap_test s f \<longleftrightarrow> bit (bitmap s (f div 32)) (f mod 32)"
  unfolding bitmap_test_def by (rule bit_test_iff)

lemma bitmap_test_set [simp]: "bitmap_test (bitmap_set f s) g \<longleftrightarrow> g = f \<or> bitmap_test s g"
  by (auto simp: bitmap_test_bit bitmap_set_def bit_set_mask simp del: push_bit_of_1 dest: div_mod_eqI)

lemma bitmap_test_clear [simp]: "bitmap_test (bitmap_clear f s) g \<longleftrightarrow> g \<noteq> f \<and> bitmap_test s g"
  by (auto simp: bitmap_test_bit bitmap_clear_def bit_clear_mask simp del: push_bit_of_1 dest: div_mod_eqI)

lemma bitmap_test_counter [simp]:
  "bitmap_test (s\<lparr>used_frames := u\<rparr>) f = bitmap_test s f"
  "bitmap_test (s\<lparr>total_frames := t\<rparr>) f = bitmap_test s f"
  by (simp_all add: bitmap_test_bit)

lemma bitmap_ops_frame [simp]:
  "total_frames (bitmap_set f s) = total_frames s" "used_frames (bitmap_set f s) = used_frames s"
  "total_frames (bitmap_clear f s) = total_frames s" "used_frames (bitmap_clear f s) = used_frames s"
  by (simp_all add: bitmap_set_def bitmap_clear_def)

lemma finite_free_set [simp]: "finite (free_set s)"
  by (rule finite_subset [of _ "{..< FRAMES_MAX}"]) (auto simp: free_set_def)

lemma free_set_set: "free_set (bitmap_set f s) = free_set s - {f}"
  by (auto simp: free_set_def)

lemma free_set_clear: "f < FRAMES_MAX \<Longrightarrow> free_set (bitmap_clear f s) = insert f (free_set s)"
  by (auto simp: free_set_def)

lemma free_set_counter [simp]:
  "free_set (s\<lparr>used_frames := u\<rparr>) = free_set s"
  "free_set (s\<lparr>total_frames := t\<rparr>) = free_set s"
  by (simp_all add: free_set_def)

section \<open>The two-level search\<close>

lemma full_word_iff: "bitmap s i = 0xFFFFFFFF \<longleftrightarrow> (\<forall>b < 32. bitmap_test s (i * 32 + b))"
  by (simp add: word_all_ones_iff bitmap_test_bit)

lemma bitmap_first_free_from_eq:
  "i \<le> BITMAP_SIZE \<Longrightarrow>
   bitmap_first_free_from s i = first_from (\<lambda>f. \<not> bitmap_test s f) (i * 32) FRAMES_MAX"
proof (induction s i rule: bitmap_first_free_from.induct)
  case (1 s i)
  let ?P = "\<lambda>f. \<not> bitmap_test s f"
  have N: "FRAMES_MAX = BITMAP_SIZE * 32" by (simp add: layout_simps)
  show ?case
  proof (cases "i < BITMAP_SIZE")
    case False
    then have "bitmap_first_free_from s i = None"
      by (simp add: bitmap_first_free_from.simps [of s i])
    with False "1.prems" N show ?thesis by (simp add: first_from.simps [of ?P])
  next
    case inside: True
    let ?inner = "first_from (\<lambda>b. \<not> (bitmap s i AND push_bit b 1 \<noteq> 0)) 0 32"
    have inner: "?inner = first_from (\<lambda>b. ?P (i * 32 + b)) 0 32"
      by (rule first_from_cong) (simp only: bit_mask_iff, simp add: bitmap_test_bit)
    show ?thesis
    proof (cases "bitmap s i = 0xFFFFFFFF")
      case full: True
      have "first_from ?P (i * 32) FRAMES_MAX = first_from ?P (Suc i * 32) FRAMES_MAX"
      proof (rule first_from_skip)
        fix j assume "i * 32 \<le> j" "j < Suc i * 32"
        then have "bitmap_test s (i * 32 + (j - i * 32))"
          using full [unfolded full_word_iff, rule_format, of "j - i * 32"] by simp
        with \<open>i * 32 \<le> j\<close> show "\<not> ?P j" by simp
      qed simp
      with "1.IH"(1) inside full show ?thesis
        by (simp add: bitmap_first_free_from.simps [of s i])
    next
      case not_full: False
      then have "?inner \<noteq> None" unfolding inner first_from_None full_word_iff by auto
      then obtain b where b: "?inner = Some b" by blast
      then have "b < 32" "?P (i * 32 + b)" and before: "\<And>j. j < b \<Longrightarrow> \<not> ?P (i * 32 + j)"
        unfolding inner first_from_Some by auto
      moreover have "\<not> ?P j" if "i * 32 \<le> j" "j < i * 32 + b" for j
        using before [of "j - i * 32"] that by simp
      moreover have "i * 32 + b < FRAMES_MAX" using \<open>b < 32\<close> inside N by simp
      ultimately have "first_from ?P (i * 32) FRAMES_MAX = Some (i * 32 + b)"
        unfolding first_from_Some by auto
      with b inside not_full show ?thesis
        by (simp add: bitmap_first_free_from.simps [of s i])
    qed
  qed
qed

lemma bitmap_first_free_eq: "bitmap_first_free s = first_from (\<lambda>f. \<not> bitmap_test s f) 0 FRAMES_MAX"
  unfolding bitmap_first_free_def by (simp add: bitmap_first_free_from_eq)

lemma bitmap_first_free_Min:
  "bitmap_first_free s = (if free_set s = {} then None else Some (Min (free_set s)))"
proof (cases "free_set s = {}")
  case True
  then have "bitmap_first_free s = None"
    unfolding bitmap_first_free_eq first_from_None by (auto simp: free_set_def)
  with True show ?thesis by simp
next
  case False
  define m where "m = Min (free_set s)"
  have "m \<in> free_set s" unfolding m_def using False by (rule Min_in [OF finite_free_set])
  then have m: "m < FRAMES_MAX" "\<not> bitmap_test s m" by (simp_all add: free_set_def)
  have "bitmap_test s j" if "j < m" for j
  proof (rule ccontr)
    assume "\<not> bitmap_test s j"
    with that m have "j \<in> free_set s" by (simp add: free_set_def)
    then have "m \<le> j" unfolding m_def by (rule Min_le [OF finite_free_set])
    with that show False by simp
  qed
  with m have "bitmap_first_free s = Some m"
    unfolding bitmap_first_free_eq first_from_Some by simp
  with False show ?thesis by (simp add: m_def)
qed

section \<open>Allocation and release\<close>

lemma frame_lt: "f < FRAMES_MAX \<Longrightarrow> unat (of_nat f :: u32) = f"
  by (rule unat_of_nat_small) (simp add: layout_simps)

lemma unat_page: "f < FRAMES_MAX \<Longrightarrow> unat (of_nat f * PAGE_SIZE) = f * 4096"
  by (subst unat_mult_no_wrap) (simp_all add: frame_lt, simp_all add: layout_simps frame_lt)

lemma page_frame: "f < FRAMES_MAX \<Longrightarrow> unat (of_nat f * PAGE_SIZE div PAGE_SIZE) = f"
  by (simp add: unat_div unat_page) (simp add: layout_simps)

lemma addr_frame_lt: "unat (a div PAGE_SIZE) < FRAMES_MAX"
  by (simp add: unat_div layout_simps less_mult_imp_div_less)

lemma counter_no_wrap: "pmm_inv s \<Longrightarrow> unat (used_frames s) \<le> FRAMES_MAX"
  by (auto simp: pmm_inv_def)

lemma pmm_alloc_none: "free_set s = {} \<Longrightarrow> pmm_alloc s = (0, s)"
  by (simp add: pmm_alloc_def bitmap_first_free_Min)

lemma pmm_alloc_some:
  assumes "free_set s \<noteq> {}"
  shows "pmm_alloc s = (of_nat (Min (free_set s)) * PAGE_SIZE,
           (bitmap_set (Min (free_set s)) s)\<lparr>used_frames := used_frames s + 1\<rparr>)"
  using assms by (simp add: pmm_alloc_def bitmap_first_free_Min)

lemma pmm_inv_take:
  assumes inv: "pmm_inv s" and f: "f \<in> free_set s"
  shows "pmm_inv ((bitmap_set f s)\<lparr>used_frames := used_frames s + 1\<rparr>)"
proof -
  have c: "card (free_set s) > 0" using f by (auto simp: card_gt_0_iff)
  with inv have "unat (used_frames s) < FRAMES_MAX" by (auto simp: pmm_inv_def)
  then have "unat (used_frames s + 1) = unat (used_frames s) + 1"
    by (intro trans [OF unat_add_no_wrap]) (simp_all add: layout_simps)
  with inv f c show ?thesis by (auto simp: pmm_inv_def free_set_set)
qed

lemma pmm_inv_give:
  assumes inv: "pmm_inv s" and f: "f \<notin> free_set s" "256 \<le> f" "f < unat (total_frames s)"
  shows "pmm_inv ((bitmap_clear f s)\<lparr>used_frames := used_frames s - 1\<rparr>)"
proof -
  have F: "f < FRAMES_MAX" using inv f by (auto simp: pmm_inv_def)
  have "insert f (free_set s) \<subseteq> {..< unat (total_frames s)}" using inv f by (auto simp: pmm_inv_def)
  from card_mono [OF _ this] f have "Suc (card (free_set s)) \<le> unat (total_frames s)" by simp
  with inv have "1 \<le> unat (used_frames s)" by (simp add: pmm_inv_def)
  then have "unat (used_frames s - 1) = unat (used_frames s) - 1"
    by (subst unat_sub_no_wrap) simp_all
  with inv f F \<open>1 \<le> unat (used_frames s)\<close> show ?thesis
    by (auto simp: pmm_inv_def free_set_clear)
qed

text \<open>The addresses of the free frames and of the frames the allocator may ever hand out.\<close>

definition page_of :: "nat \<Rightarrow> u32" where
  "page_of f = of_nat f * PAGE_SIZE"

definition free_pages :: "pmm \<Rightarrow> u32 set" where
  "free_pages s = page_of ` free_set s"

definition managed_pages :: "pmm \<Rightarrow> u32 set" where
  "managed_pages s = page_of ` {256 ..< unat (total_frames s)}"

lemma page_of_inj: "f < FRAMES_MAX \<Longrightarrow> g < FRAMES_MAX \<Longrightarrow> page_of f = page_of g \<Longrightarrow> f = g"
  unfolding page_of_def by (metis page_frame)

lemma page_of_frame [simp]: "f < FRAMES_MAX \<Longrightarrow> unat (page_of f div PAGE_SIZE) = f"
  unfolding page_of_def by (rule page_frame)

lemma page_of_nonzero: "0 < f \<Longrightarrow> f < FRAMES_MAX \<Longrightarrow> page_of f \<noteq> 0"
  using page_of_inj [of f 0] by (auto simp: page_of_def layout_simps)

lemma page_of_aligned: "f < FRAMES_MAX \<Longrightarrow> unat (page_of f) mod 4096 = 0"
  by (simp add: page_of_def unat_page)

text \<open>\<open>pmm_alloc\<close> and \<open>pmm_free\<close> on the abstract state.\<close>

lemma pmm_alloc_abs:
  assumes inv: "pmm_inv s"
  shows "if free_set s = {} then pmm_alloc s = (0, s)
         else fst (pmm_alloc s) = page_of (Min (free_set s)) \<and>
              free_set (snd (pmm_alloc s)) = free_set s - {Min (free_set s)} \<and>
              total_frames (snd (pmm_alloc s)) = total_frames s \<and> pmm_inv (snd (pmm_alloc s))"
proof (cases "free_set s = {}")
  case True
  then show ?thesis by (simp add: pmm_alloc_none)
next
  case False
  then have "Min (free_set s) \<in> free_set s" by simp
  from pmm_inv_take [OF inv this] False show ?thesis
    by (simp add: pmm_alloc_some page_of_def free_set_set)
qed

lemma pmm_free_abs:
  assumes inv: "pmm_inv s" and a: "unat (addr div PAGE_SIZE) \<in> {256 ..< unat (total_frames s)}"
  shows "free_set (pmm_free addr s) = insert (unat (addr div PAGE_SIZE)) (free_set s)"
    and "total_frames (pmm_free addr s) = total_frames s" and "pmm_inv (pmm_free addr s)"
proof -
  let ?f = "unat (addr div PAGE_SIZE)"
  have F: "?f < FRAMES_MAX" by (rule addr_frame_lt)
  have t: "bitmap_test s ?f \<longleftrightarrow> ?f \<notin> free_set s" using F by (simp add: free_set_def)
  show "free_set (pmm_free addr s) = insert ?f (free_set s)"
    using F t by (auto simp: pmm_free_def free_set_clear)
  show "total_frames (pmm_free addr s) = total_frames s" by (simp add: pmm_free_def Let_def)
  show "pmm_inv (pmm_free addr s)"
    using inv t a pmm_inv_give [OF inv, of ?f] by (auto simp: pmm_free_def)
qed

section \<open>Initialisation\<close>

lemma fill_loop:
  "for_loop 0 n (\<lambda>i s. s\<lparr>bitmap := (bitmap s)(i := w)\<rparr>) s
   = s\<lparr>bitmap := \<lambda>i. if i < n then w else bitmap s i\<rparr>"
  by (induction n) (auto simp: for_loop_Suc fun_eq_iff less_Suc_eq)

lemma clear_loop:
  "a \<le> b \<Longrightarrow> bitmap_test (for_loop a b bitmap_clear s) f \<longleftrightarrow> bitmap_test s f \<and> \<not> (a \<le> f \<and> f < b)"
  by (induction b rule: dec_induct) (auto simp: for_loop_Suc less_Suc_eq)

lemma set_loop: "bitmap_test (for_loop 0 n bitmap_set s) f \<longleftrightarrow> bitmap_test s f \<or> f < n"
  by (induction n) (auto simp: for_loop_Suc less_Suc_eq)

lemma mark_loops_frame [simp]:
  "total_frames (for_loop a b bitmap_clear s) = total_frames s"
  "total_frames (for_loop a b bitmap_set s) = total_frames s"
  by (rule for_loop_keeps; simp)+

lemma count_loop:
  assumes "n \<le> FRAMES_MAX" and "used_frames s = 0"
  shows "for_loop 0 n (\<lambda>i s. if bitmap_test s i then s\<lparr>used_frames := used_frames s + 1\<rparr> else s) s
         = s\<lparr>used_frames := of_nat (card {f. f < n \<and> bitmap_test s f})\<rparr>"
  using assms(1)
proof (induction n)
  case 0
  with assms show ?case by simp
next
  case (Suc n)
  have "{f. f < Suc n \<and> bitmap_test s f}
        = (if bitmap_test s n then insert n {f. f < n \<and> bitmap_test s f} else {f. f < n \<and> bitmap_test s f})"
    by (auto simp: less_Suc_eq)
  with Suc show ?case by (simp add: for_loop_Suc add.commute)
qed

text \<open>
  The frames \<open>pmm_init\<close> leaves free: from the end of the kernel image, rounded up, to the
  end of memory, without the first MiB. Both sums wrap as the 32-bit code does.
\<close>

definition init_total :: "u32 \<Rightarrow> nat" where
  "init_total mem_kb = unat ((mem_kb * 1024) div PAGE_SIZE)"

definition init_first :: "u32 \<Rightarrow> nat" where
  "init_first kernel_end = unat ((kernel_end + PAGE_SIZE - 1) div PAGE_SIZE)"

lemma init_total_le: "init_total k \<le> FRAMES_MAX"
  unfolding init_total_def by (rule less_imp_le [OF addr_frame_lt])

lemma pmm_init_abs:
  "free_set (pmm_init mem_kb kernel_end s) = {max 256 (init_first kernel_end) ..< init_total mem_kb}"
  "unat (total_frames (pmm_init mem_kb kernel_end s)) = init_total mem_kb"
  "pmm_inv (pmm_init mem_kb kernel_end s)"
proof -
  let ?T = "init_total mem_kb" and ?F = "init_first kernel_end"
  define s1 where "s1 = s\<lparr>total_frames := (mem_kb * 1024) div PAGE_SIZE, used_frames := 0\<rparr>"
  define s2 where "s2 = for_loop 0 BITMAP_SIZE (\<lambda>i s. s\<lparr>bitmap := (bitmap s)(i := 0xFFFFFFFF)\<rparr>) s1"
  define s3 where "s3 = for_loop ?F ?T bitmap_clear s2"
  define s4 where "s4 = (for_loop 0 256 bitmap_set s3)\<lparr>used_frames := 0\<rparr>"
  define c where "c = card {f. f < ?T \<and> bitmap_test s4 f}"
  have T: "?T \<le> FRAMES_MAX" by (rule init_total_le)
  have "bitmap_test s2 f" if "f < FRAMES_MAX" for f
  proof -
    have "f div 32 < BITMAP_SIZE" using that by (simp add: layout_simps less_mult_imp_div_less)
    then have "bitmap s2 (f div 32) = 0xFFFFFFFF" by (simp add: s2_def fill_loop)
    then show ?thesis by (auto simp: bitmap_test_bit word_all_ones_iff)
  qed
  then have s3: "bitmap_test s3 f \<longleftrightarrow> \<not> (?F \<le> f \<and> f < ?T)" if "f < FRAMES_MAX" for f
    using that by (cases "?F \<le> ?T") (auto simp: s3_def clear_loop)
  have s4: "bitmap_test s4 f \<longleftrightarrow> \<not> (max 256 ?F \<le> f \<and> f < ?T)" if "f < FRAMES_MAX" for f
    using s3 [OF that] by (auto simp: s4_def set_loop)
  have free4: "free_set s4 = {max 256 ?F ..< ?T}" using s4 T by (auto simp: free_set_def)
  have res: "pmm_init mem_kb kernel_end s = s4\<lparr>used_frames := of_nat c\<rparr>"
    unfolding pmm_init_def Let_def init_total_def [symmetric] init_first_def [symmetric] c_def
    using count_loop [OF T, of s4] by (simp add: s4_def s3_def s2_def s1_def)
  show "free_set (pmm_init mem_kb kernel_end s) = {max 256 ?F ..< ?T}"
    by (simp add: res free4)
  have tot: "unat (total_frames s4) = ?T"
    by (simp add: s4_def s3_def s2_def s1_def fill_loop init_total_def)
  then show "unat (total_frames (pmm_init mem_kb kernel_end s)) = ?T" by (simp add: res)
  have "{f. f < ?T \<and> bitmap_test s4 f} = {..< ?T} - free_set s4"
    using T by (auto simp: free_set_def)
  moreover have "free_set s4 \<subseteq> {..< ?T}" using free4 by auto
  ultimately have c: "c = ?T - card (free_set s4)"
    unfolding c_def by (simp add: card_Diff_subset)
  have le: "card (free_set s4) \<le> ?T" using free4 by simp
  have "c < 2 ^ 32" using c T by (simp add: layout_simps)
  then have "unat (of_nat c :: u32) = c" by (intro unat_of_nat_small) simp
  with c le T tot free4 show "pmm_inv (pmm_init mem_kb kernel_end s)"
    by (auto simp: res pmm_inv_def)
qed

section \<open>The contract of a frame allocator\<close>

text \<open>
  What \<^verbatim>\<open>paging.c\<close> relies on: \<open>alloc\<close> returns null only when nothing is available, and
  otherwise a page-aligned non-null address that was available and no longer is; \<open>release\<close>
  makes an address of the managed range available again.
\<close>

locale frame_allocator =
  fixes alloc :: "'s \<Rightarrow> u32 \<times> 's" and release :: "u32 \<Rightarrow> 's \<Rightarrow> 's"
    and avail :: "'s \<Rightarrow> u32 set" and managed :: "'s \<Rightarrow> u32 set" and ok :: "'s \<Rightarrow> bool"
  assumes alloc_empty: "ok s \<Longrightarrow> avail s = {} \<Longrightarrow> alloc s = (0, s)"
    and alloc_takes: "ok s \<Longrightarrow> avail s \<noteq> {} \<Longrightarrow>
      fst (alloc s) \<in> avail s \<and> avail (snd (alloc s)) = avail s - {fst (alloc s)}"
    and alloc_ok: "ok s \<Longrightarrow> ok (snd (alloc s)) \<and> managed (snd (alloc s)) = managed s"
    and release_gives: "ok s \<Longrightarrow> p \<in> managed s \<Longrightarrow>
      avail (release p s) = insert p (avail s) \<and> managed (release p s) = managed s \<and> ok (release p s)"
    and avail_managed: "ok s \<Longrightarrow> avail s \<subseteq> managed s"
    and managed_page: "ok s \<Longrightarrow> p \<in> managed s \<Longrightarrow> p \<noteq> 0 \<and> unat p mod 4096 = 0"
begin

lemma alloc_null_iff: "ok s \<Longrightarrow> fst (alloc s) = 0 \<longleftrightarrow> avail s = {}"
  using alloc_empty [of s] alloc_takes [of s] avail_managed [of s] managed_page [of s "fst (alloc s)"]
  by (cases "avail s = {}") auto

lemma alloc_page: "ok s \<Longrightarrow> fst (alloc s) \<noteq> 0 \<Longrightarrow>
    fst (alloc s) \<in> managed s \<and> fst (alloc s) \<in> avail s \<and> fst (alloc s) \<notin> avail (snd (alloc s))"
  using alloc_null_iff [of s] alloc_takes [of s] avail_managed [of s] by auto

lemma release_alloc:
  assumes "ok s" and "fst (alloc s) \<noteq> 0"
  shows "avail (release (fst (alloc s)) (snd (alloc s))) = avail s"
proof -
  have "avail (snd (alloc s)) = avail s - {fst (alloc s)}" "fst (alloc s) \<in> avail s"
    using assms alloc_takes alloc_null_iff by blast+
  moreover have "fst (alloc s) \<in> managed (snd (alloc s))" using assms alloc_page alloc_ok by simp
  ultimately show ?thesis using release_gives [of "snd (alloc s)"] alloc_ok assms by auto
qed

end

text \<open>Several allocations in a row, with nothing released in between.\<close>

fun alloc_many :: "('s \<Rightarrow> u32 \<times> 's) \<Rightarrow> nat \<Rightarrow> 's \<Rightarrow> u32 list \<times> 's" where
  "alloc_many a 0 s = ([], s)"
| "alloc_many a (Suc n) s =
     (let (p, s') = a s; (ps, s'') = alloc_many a n s' in (p # ps, s''))"

context frame_allocator
begin

lemma alloc_many_spec:
  "ok s \<Longrightarrow> finite (avail s) \<Longrightarrow> n \<le> card (avail s) \<Longrightarrow>
   ok (snd (alloc_many alloc n s)) \<and> distinct (fst (alloc_many alloc n s)) \<and>
   length (fst (alloc_many alloc n s)) = n \<and>
   set (fst (alloc_many alloc n s)) \<subseteq> avail s \<and>
   avail (snd (alloc_many alloc n s)) = avail s - set (fst (alloc_many alloc n s))"
proof (induction n arbitrary: s)
  case 0
  then show ?case by simp
next
  case (Suc n)
  obtain p s' where a: "alloc s = (p, s')" by fastforce
  obtain ps s'' where m: "alloc_many alloc n s' = (ps, s'')" by fastforce
  have "avail s \<noteq> {}" using Suc.prems by auto
  with Suc.prems a have p: "p \<in> avail s" "avail s' = avail s - {p}" "ok s'"
    using alloc_takes [of s] alloc_ok [of s] by auto
  with Suc.prems have "n \<le> card (avail s')" "finite (avail s')" by (auto simp: card_Diff_singleton)
  with Suc.IH [of s'] p m show ?case by (auto simp: a)
qed

end

lemma free_pages_image:
  assumes "pmm_inv s"
  shows "free_pages s \<subseteq> managed_pages s" "finite (free_pages s)" "card (free_pages s) = card (free_set s)"
proof -
  have "inj_on page_of (free_set s)"
    by (rule inj_onI) (auto simp: free_set_def dest: page_of_inj)
  then show "card (free_pages s) = card (free_set s)" unfolding free_pages_def by (rule card_image)
  show "free_pages s \<subseteq> managed_pages s" "finite (free_pages s)"
    using assms by (auto simp: free_pages_def managed_pages_def pmm_inv_def)
qed

interpretation pmm: frame_allocator pmm_alloc pmm_free free_pages managed_pages pmm_inv
proof (unfold_locales, goal_cases)
  case (1 s)
  then show ?case by (simp add: free_pages_def pmm_alloc_none)
next
  case (2 s)
  have ne: "free_set s \<noteq> {}" using 2 by (auto simp: free_pages_def)
  then have m: "Min (free_set s) \<in> free_set s" by simp
  have inj: "inj_on page_of (free_set s)"
    by (rule inj_onI) (auto simp: free_set_def dest: page_of_inj)
  have "page_of ` (free_set s - {Min (free_set s)}) = page_of ` free_set s - {page_of (Min (free_set s))}"
    using inj_on_image_set_diff [OF inj, of "free_set s" "{Min (free_set s)}"] m by simp
  with pmm_alloc_abs [OF 2(1)] ne m show ?case by (simp add: free_pages_def)
next
  case (3 s)
  with pmm_alloc_abs [OF 3] show ?case by (auto simp: managed_pages_def split: if_splits)
next
  case (4 s p)
  then obtain f where f: "p = page_of f" "256 \<le> f" "f < unat (total_frames s)"
    by (auto simp: managed_pages_def)
  moreover have "f < FRAMES_MAX" using 4 f by (auto simp: pmm_inv_def)
  ultimately show ?case
    using pmm_free_abs [OF 4(1), of p] by (simp add: free_pages_def managed_pages_def)
next
  case (5 s)
  then show ?case by (rule free_pages_image)
next
  case (6 s p)
  then obtain f where "p = page_of f" "256 \<le> f" "f < FRAMES_MAX"
    by (auto simp: managed_pages_def pmm_inv_def)
  then show ?case by (simp add: page_of_nonzero page_of_aligned)
qed

section \<open>The running allocator\<close>

text \<open>
  Every state of the allocator after boot: initialised once, then any sequence of
  allocations and of releases of frames the allocator manages.
\<close>

inductive pmm_reach :: "u32 \<Rightarrow> u32 \<Rightarrow> pmm \<Rightarrow> bool" for mem_kb kernel_end where
  boot: "pmm_reach mem_kb kernel_end (pmm_init mem_kb kernel_end pmm_bss)"
| alloc: "pmm_reach mem_kb kernel_end s \<Longrightarrow> pmm_reach mem_kb kernel_end (snd (pmm_alloc s))"
| free: "pmm_reach mem_kb kernel_end s \<Longrightarrow> addr \<in> managed_pages s \<Longrightarrow>
    pmm_reach mem_kb kernel_end (pmm_free addr s)"

lemma pmm_reach_inv: "pmm_reach kb ke s \<Longrightarrow> pmm_inv s \<and> unat (total_frames s) = init_total kb"
proof (induction rule: pmm_reach.induct)
  case boot
  then show ?case by (simp add: pmm_init_abs)
next
  case (alloc s)
  with pmm_alloc_abs [of s] show ?case by (auto split: if_splits)
next
  case (free s addr)
  then have "unat (addr div PAGE_SIZE) \<in> {256 ..< unat (total_frames s)}"
    by (auto simp: managed_pages_def pmm_inv_def)
  with free pmm_free_abs [of s addr] show ?case by simp
qed

lemma pmm_reach_step_addr:
  "pmm_reach kb ke s \<Longrightarrow> fst (pmm_alloc s) \<noteq> 0 \<Longrightarrow> fst (pmm_alloc s) \<in> managed_pages (snd (pmm_alloc s))"
  using pmm.alloc_page [of s] pmm.alloc_ok [of s] pmm_reach_inv by auto

lemma free_frames_count: "pmm_inv s \<Longrightarrow> pmm_free_frames s = of_nat (card (free_set s))"
proof -
  assume "pmm_inv s"
  then have "unat (used_frames s) + card (free_set s) = unat (total_frames s)" by (simp add: pmm_inv_def)
  from arg_cong [OF this, of "of_nat :: nat \<Rightarrow> u32"]
  have "used_frames s + of_nat (card (free_set s)) = total_frames s" by simp
  then show ?thesis unfolding pmm_free_frames_def by (metis add_diff_cancel_left')
qed

section \<open>Properties\<close>

text \<open>
  The two-level search of the bitmap, which skips full words, finds exactly the least
  frame whose bit is clear, and reports failure only when no frame of the bitmap is free.
\<close>

theorem pmm_search_least:
  "bitmap_first_free s = (if free_set s = {} then None else Some (Min (free_set s)))"
  by (rule bitmap_first_free_Min)

text \<open>
  After \<open>pmm_init\<close>, whatever the bitmap held before, exactly the frames from the rounded
  end of the kernel image (and not below 1 MiB) to the end of memory are free, and
  \<open>pmm_free_frames\<close> counts them.
\<close>

theorem pmm_init_frees_ram:
  "free_set (pmm_init mem_kb kernel_end s) = {max 256 (init_first kernel_end) ..< init_total mem_kb}
   \<and> pmm_free_frames (pmm_init mem_kb kernel_end s)
     = of_nat (init_total mem_kb - max 256 (init_first kernel_end))"
  using free_frames_count [OF pmm_init_abs(3), of mem_kb kernel_end s] by (simp add: pmm_init_abs(1))

text \<open>
  C18. In every state reached after boot by allocations and by releases of managed frames, the
  free-frame count the allocator reports is the number of clear bits, and no free frame lies
  in the first MiB or beyond the end of memory: the allocator never hands out reserved or
  absent memory.
\<close>

theorem pmm_reachable_consistent:
  assumes "pmm_reach kb ke s"
  shows "pmm_free_frames s = of_nat (card (free_set s)) \<and> free_set s \<subseteq> {256 ..< init_total kb}"
  using pmm_reach_inv [OF assms] free_frames_count [of s] by (auto simp: pmm_inv_def)

theorem pmm_reachable_consistent_witness:
  "let s = snd (pmm_alloc (pmm_init 32768 0x200000 pmm_bss))
   in pmm_free_frames s = of_nat (card (free_set s)) \<and> free_set s \<subseteq> {256 ..< init_total 32768}"
  unfolding Let_def
  by (rule pmm_reachable_consistent) (rule pmm_reach.alloc [OF pmm_reach.boot])

text \<open>
  Allocations with nothing released in between return pairwise different, non-null,
  page-aligned frames that were free before, and leave exactly the others free; as many
  succeed as there are free frames.
\<close>

theorem pmm_alloc_many_distinct:
  assumes "pmm_inv s" and "n \<le> card (free_set s)"
  shows "distinct (fst (alloc_many pmm_alloc n s)) \<and> length (fst (alloc_many pmm_alloc n s)) = n \<and>
    (\<forall>p \<in> set (fst (alloc_many pmm_alloc n s)). p \<in> free_pages s \<and> p \<noteq> 0 \<and> unat p mod 4096 = 0) \<and>
    free_pages (snd (alloc_many pmm_alloc n s)) = free_pages s - set (fst (alloc_many pmm_alloc n s))"
  using pmm.alloc_many_spec [OF assms(1), of n] free_pages_image [OF assms(1)] assms
    pmm.managed_page [OF assms(1)] by auto

theorem pmm_alloc_many_distinct_witness:
  "let s = pmm_init 32768 0x200000 pmm_bss
   in distinct (fst (alloc_many pmm_alloc 7000 s)) \<and> length (fst (alloc_many pmm_alloc 7000 s)) = 7000"
proof -
  have "card (free_set (pmm_init 32768 0x200000 pmm_bss)) = 7680"
    by (simp add: pmm_init_abs(1) init_total_def init_first_def layout_simps)
  moreover have "pmm_inv (pmm_init 32768 0x200000 pmm_bss)" by (rule pmm_init_abs)
  ultimately show ?thesis using pmm_alloc_many_distinct [where n = 7000] by (simp add: Let_def)
qed

text \<open>
  The comment on the bitmap promises 4 GiB of memory. The size in KiB is multiplied by 1024
  in 32 bits, so a machine that reports 4 GiB gets no frame at all.
\<close>

lemma pmm_four_gib_wraps: "free_set (pmm_init 0x400000 kernel_end s) = {}"
  by (simp add: pmm_init_abs(1) init_total_def layout_simps)

text \<open>
  Releasing an address beyond the end of memory is not rejected: the frame becomes free, and
  the next allocations can return it.
\<close>

lemma pmm_free_absent_frame:
  "pmm_inv s \<Longrightarrow> f < FRAMES_MAX \<Longrightarrow> unat (total_frames s) \<le> f \<Longrightarrow> f \<in> free_set (pmm_free (page_of f) s)"
  by (auto simp: pmm_free_def pmm_inv_def free_set_clear) (auto simp: free_set_def)

end
