(* ===== verification/Mem_Bytes.thy ===== *)
theory Mem_Bytes
  imports Prelude
begin

text \<open>
  Byte-addressed memory of a 32-bit little-endian machine: loads and stores of 32-bit words
  and the facts that separate them. The kernel heap keeps its block headers in it, and the
  paging code its directories and tables.
\<close>

type_synonym mem = "u32 \<Rightarrow> u8"

definition load32 :: "mem \<Rightarrow> u32 \<Rightarrow> u32" where
  "load32 m a = ucast (m a) OR push_bit 8 (ucast (m (a + 1))) OR
                push_bit 16 (ucast (m (a + 2))) OR push_bit 24 (ucast (m (a + 3)))"

definition store32 :: "mem \<Rightarrow> u32 \<Rightarrow> u32 \<Rightarrow> mem" where
  "store32 m a v = m(a := ucast v, a + 1 := ucast (drop_bit 8 v),
                     a + 2 := ucast (drop_bit 16 v), a + 3 := ucast (drop_bit 24 v))"

lemma split_word_bytes:
  "(ucast (ucast v :: u8) :: u32) OR push_bit 8 (ucast (ucast (drop_bit 8 v) :: u8)) OR
   push_bit 16 (ucast (ucast (drop_bit 16 v) :: u8)) OR push_bit 24 (ucast (ucast (drop_bit 24 v) :: u8))
   = (v :: u32)"
proof (rule bit_word_eqI)
  fix n assume "n < LENGTH(32)"
  then show "bit ((ucast (ucast v :: u8) :: u32) OR push_bit 8 (ucast (ucast (drop_bit 8 v) :: u8)) OR
      push_bit 16 (ucast (ucast (drop_bit 16 v) :: u8)) OR push_bit 24 (ucast (ucast (drop_bit 24 v) :: u8))) n
      = bit v n"
    by (cases "n < 8"; cases "n < 16"; cases "n < 24") (auto simp: bit_simps)
qed

lemma load_store_same [simp]: "load32 (store32 m a v) a = v"
  using split_word_bytes [of v] by (simp add: load32_def store32_def)

text \<open>Two words that do not overlap, in either order and whatever wraps.\<close>

definition apart :: "u32 \<Rightarrow> u32 \<Rightarrow> bool" where
  "apart a b \<longleftrightarrow> 4 \<le> unat (b - a) \<and> 4 \<le> unat (a - b)"

lemma apart_bytes:
  assumes "apart a b" and "i \<in> {0, 1, 2, 3}" and "j \<in> {0, 1, 2, 3}"
  shows "a + i \<noteq> b + j"
proof
  assume eq: "a + i = b + j"
  then have "b - a = i - j" "a - b = j - i" by (simp_all add: algebra_simps)
  with assms show False by (auto simp: apart_def)
qed

lemma load32_cong:
  "(\<And>j. j \<in> {0, 1, 2, 3} \<Longrightarrow> m (a + j) = m' (a + j)) \<Longrightarrow> load32 m a = load32 m' a"
  by (metis (no_types, lifting) add.right_neutral insertCI load32_def)

lemma store32_other: "(\<And>i. i \<in> {0, 1, 2, 3} \<Longrightarrow> a + i \<noteq> x) \<Longrightarrow> store32 m a v x = m x"
  by (metis (no_types, lifting) add.right_neutral fun_upd_other insertCI store32_def)

lemma load_store_other [simp]:
  assumes "apart a b"
  shows "load32 (store32 m a v) b = load32 m b"
  by (intro load32_cong store32_other apart_bytes [OF assms])

lemma apart_sym: "apart a b \<longleftrightarrow> apart b a"
  by (auto simp: apart_def)

lemma unat_word_diff: "unat a < unat b \<Longrightarrow> unat (a - b :: u32) = 2 ^ 32 + unat a - unat b"
  using unsigned_less [of b] by (simp add: unat_sub_if_size word_size)

lemma apart_nat:
  assumes "unat a + 4 \<le> unat b" and "unat b + 4 \<le> 2 ^ 32"
  shows "apart a b" "apart b a"
proof -
  have "unat (b - a) = unat b - unat a" using assms by (intro unat_sub_no_wrap) simp
  moreover have "unat (a - b) = 2 ^ 32 + unat a - unat b"
    using assms by (intro unat_word_diff) simp
  ultimately show "apart a b" "apart b a" using assms by (auto simp: apart_def)
qed

text \<open>A store touches only its four bytes, a load reads only its four bytes.\<close>

lemma unat_add_small: "unat a + 4 \<le> 2 ^ 32 \<Longrightarrow> j \<in> {0, 1, 2, 3} \<Longrightarrow> unat (a + j :: u32) = unat a + unat j"
  by (rule unat_add_no_wrap) auto

lemma store32_outside:
  assumes "unat a + 4 \<le> 2 ^ 32" and "unat x < unat a \<or> unat a + 4 \<le> unat x"
  shows "store32 m a v x = m x"
proof (rule store32_other)
  fix i :: u32 assume i: "i \<in> {0, 1, 2, 3}"
  with unat_add_small [OF assms(1) i] assms(2) show "a + i \<noteq> x" by auto
qed

lemma load32_inside:
  assumes "unat a + 4 \<le> 2 ^ 32" and "\<And>x. unat a \<le> unat x \<Longrightarrow> unat x < unat a + 4 \<Longrightarrow> m x = m' x"
  shows "load32 m a = load32 m' a"
proof (rule load32_cong)
  fix j :: u32 assume j: "j \<in> {0, 1, 2, 3}"
  with unat_add_small [OF assms(1) j] show "m (a + j) = m' (a + j)" by (intro assms(2)) auto
qed

end
