(* ===== verification/Mm_Heap.thy ===== *)
theory Mm_Heap
  imports Mem_Bytes
begin

text \<open>
  The kernel heap, \<^verbatim>\<open>kernel/mm/heap.c\<close>: a doubly linked list of blocks, each prefixed by a
  20-byte header that lives in the heap region itself. The model works on raw bytes, as the
  code does: a header field is a 32-bit word at an address, and a pointer is a 32-bit word.
  The abstraction is the list of the blocks in address order, each with its size and its free
  flag; allocation is first fit with a split, release coalesces with both neighbours.
\<close>

section \<open>Headers\<close>

definition HEAP_MAGIC :: u32 where "HEAP_MAGIC = 0x57AC4B05"

definition ALIGN8 :: "u32 \<Rightarrow> u32" where "ALIGN8 x = (x + 7) AND NOT 7"

text \<open>\<open>sizeof(block_header_t)\<close> on the 32-bit target, and the field offsets.\<close>

definition HDR :: u32 where "HDR = 20"

definition hdr_magic :: "mem \<Rightarrow> u32 \<Rightarrow> u32" where "hdr_magic m b = load32 m b"
definition hdr_size :: "mem \<Rightarrow> u32 \<Rightarrow> u32" where "hdr_size m b = load32 m (b + 4)"
definition hdr_free :: "mem \<Rightarrow> u32 \<Rightarrow> u32" where "hdr_free m b = load32 m (b + 8)"
definition hdr_next :: "mem \<Rightarrow> u32 \<Rightarrow> u32" where "hdr_next m b = load32 m (b + 12)"
definition hdr_prev :: "mem \<Rightarrow> u32 \<Rightarrow> u32" where "hdr_prev m b = load32 m (b + 16)"

definition set_magic :: "u32 \<Rightarrow> u32 \<Rightarrow> mem \<Rightarrow> mem" where "set_magic b v m = store32 m b v"
definition set_size :: "u32 \<Rightarrow> u32 \<Rightarrow> mem \<Rightarrow> mem" where "set_size b v m = store32 m (b + 4) v"
definition set_free :: "u32 \<Rightarrow> u32 \<Rightarrow> mem \<Rightarrow> mem" where "set_free b v m = store32 m (b + 8) v"
definition set_next :: "u32 \<Rightarrow> u32 \<Rightarrow> mem \<Rightarrow> mem" where "set_next b v m = store32 m (b + 12) v"
definition set_prev :: "u32 \<Rightarrow> u32 \<Rightarrow> mem \<Rightarrow> mem" where "set_prev b v m = store32 m (b + 16) v"

record kheap =
  mem :: mem
  heap_head :: u32

section \<open>Operations\<close>

definition heap_init :: "u32 \<Rightarrow> u32 \<Rightarrow> kheap \<Rightarrow> kheap" where
  "heap_init start sz h =
     (let m = set_magic start HEAP_MAGIC (mem h);
          m = set_size start (sz - HDR) m;
          m = set_free start 1 m;
          m = set_next start 0 m;
          m = set_prev start 0 m
      in h\<lparr>mem := m, heap_head := start\<rparr>)"

definition split_block :: "u32 \<Rightarrow> u32 \<Rightarrow> mem \<Rightarrow> mem" where
  "split_block b needed m =
     (let leftover = hdr_size m b - needed - HDR
      in if leftover \<le> HDR + 8 then m
         else
           (let nb = b + HDR + needed;
                m = set_magic nb HEAP_MAGIC m;
                m = set_size nb leftover m;
                m = set_free nb 1 m;
                m = set_next nb (hdr_next m b) m;
                m = set_prev nb b m;
                m = (if hdr_next m b \<noteq> 0 then set_prev (hdr_next m b) nb m else m);
                m = set_next b nb m
            in set_size b needed m))"

text \<open>
  The loops follow pointers found in memory, so nothing but the state of the heap makes them
  end: not returning is the value \<open>None\<close>.
\<close>

partial_function (option) merge_next :: "u32 \<Rightarrow> mem \<Rightarrow> mem option" where
  "merge_next b m =
     (if hdr_next m b \<noteq> 0 \<and> hdr_free m (hdr_next m b) \<noteq> 0
      then
        (let m = set_size b (hdr_size m b + (HDR + hdr_size m (hdr_next m b))) m;
             m = set_next b (hdr_next m (hdr_next m b)) m;
             m = (if hdr_next m b \<noteq> 0 then set_prev (hdr_next m b) b m else m)
         in merge_next b m)
      else Some m)"

definition merge_prev :: "u32 \<Rightarrow> mem \<Rightarrow> mem" where
  "merge_prev b m =
     (if hdr_prev m b \<noteq> 0 \<and> hdr_free m (hdr_prev m b) \<noteq> 0
      then
        (let p = hdr_prev m b;
             m = set_size p (hdr_size m p + (HDR + hdr_size m b)) m;
             m = set_next p (hdr_next m b) m
         in if hdr_next m b \<noteq> 0 then set_prev (hdr_next m b) (hdr_prev m b) m else m)
      else m)"

definition merge_free :: "u32 \<Rightarrow> mem \<Rightarrow> mem option" where
  "merge_free b m = map_option (merge_prev b) (merge_next b m)"

partial_function (option) kmalloc_from :: "u32 \<Rightarrow> u32 \<Rightarrow> mem \<Rightarrow> (u32 \<times> mem) option" where
  "kmalloc_from sz b m =
     (if b = 0 then Some (0, m)
      else if hdr_free m b \<noteq> 0 \<and> sz \<le> hdr_size m b
      then
        (let m = split_block b sz m;
             m = set_free b 0 m;
             m = set_magic b HEAP_MAGIC m
         in Some (b + HDR, m))
      else kmalloc_from sz (hdr_next m b) m)"

definition kmalloc :: "u32 \<Rightarrow> kheap \<Rightarrow> (u32 \<times> kheap) option" where
  "kmalloc sz h =
     (if sz = 0 then Some (0, h)
      else map_option (\<lambda>(p, m). (p, h\<lparr>mem := m\<rparr>)) (kmalloc_from (ALIGN8 sz) (heap_head h) (mem h)))"

definition kcalloc :: "u32 \<Rightarrow> u32 \<Rightarrow> kheap \<Rightarrow> (u32 \<times> kheap) option" where
  "kcalloc count sz h =
     (let total = count * sz
      in map_option
           (\<lambda>(ptr, h).
              if ptr \<noteq> 0
              then (ptr, h\<lparr>mem := for_loop 0 (unat total) (\<lambda>i m. m(ptr + of_nat i := 0)) (mem h)\<rparr>)
              else (ptr, h))
           (kmalloc total h))"

definition kfree :: "u32 \<Rightarrow> kheap \<Rightarrow> kheap option" where
  "kfree ptr h =
     (if ptr = 0 then Some h
      else
        (let b = ptr - HDR
         in if hdr_magic (mem h) b \<noteq> HEAP_MAGIC \<or> hdr_free (mem h) b \<noteq> 0 then Some h
            else map_option (\<lambda>m. h\<lparr>mem := m\<rparr>) (merge_free b (set_free b 1 (mem h)))))"

section \<open>The list of blocks\<close>

text \<open>A block: the bytes after its header, and whether it is free.\<close>

type_synonym block = "u32 \<times> bool"

definition hdr_is :: "mem \<Rightarrow> u32 \<Rightarrow> block \<Rightarrow> u32 \<Rightarrow> u32 \<Rightarrow> bool" where
  "hdr_is m b blk nx p \<longleftrightarrow>
     hdr_magic m b = HEAP_MAGIC \<and> hdr_size m b = fst blk \<and>
     hdr_free m b = (if snd blk then 1 else 0) \<and> hdr_next m b = nx \<and> hdr_prev m b = p"

text \<open>The bytes a list of blocks covers, in the machine's arithmetic and exactly.\<close>

definition span :: "block list \<Rightarrow> u32" where
  "span bs = sum_list (map (\<lambda>(sz, fr). HDR + sz) bs)"

definition nspan :: "block list \<Rightarrow> nat" where
  "nspan bs = sum_list (map (\<lambda>(sz, fr). 20 + unat sz) bs)"

text \<open>
  The blocks \<open>bs\<close> lie back to back from \<open>b\<close>; the first points back to \<open>p\<close>, the last on to
  \<open>nx\<close>, and the others to their neighbours.
\<close>

fun seg :: "mem \<Rightarrow> u32 \<Rightarrow> u32 \<Rightarrow> block list \<Rightarrow> u32 \<Rightarrow> bool" where
  "seg m p b [] nx = True"
| "seg m p b (blk # bs) nx =
     (hdr_is m b blk (if bs = [] then nx else b + (HDR + fst blk)) p \<and> seg m b (b + (HDR + fst blk)) bs nx)"

text \<open>The address of the last block of a list, or \<open>p\<close> when there is none.\<close>

definition last_addr :: "u32 \<Rightarrow> u32 \<Rightarrow> block list \<Rightarrow> u32" where
  "last_addr p b bs = (if bs = [] then p else b + span (butlast bs))"

definition heap_rep :: "kheap \<Rightarrow> block list \<Rightarrow> bool" where
  "heap_rep h bs \<longleftrightarrow>
     bs \<noteq> [] \<and> heap_head h \<noteq> 0 \<and> unat (heap_head h) + nspan bs < 2 ^ 32 \<and> seg (mem h) 0 (heap_head h) bs 0"

lemma span_simps [simp]:
  "span [] = 0" "span (blk # bs) = HDR + fst blk + span bs" "span (xs @ ys) = span xs + span ys"
  by (simp_all add: span_def split: prod.splits)

lemma nspan_simps [simp]:
  "nspan [] = 0" "nspan (blk # bs) = 20 + unat (fst blk) + nspan bs" "nspan (xs @ ys) = nspan xs + nspan ys"
  by (simp_all add: nspan_def split: prod.splits)

lemma unat_HDR [simp]: "unat HDR = 20"
  by (simp add: HDR_def)

lemma unat_span: "unat b + nspan bs < 2 ^ 32 \<Longrightarrow> unat (b + span bs) = unat b + nspan bs"
proof (induction bs arbitrary: b)
  case Nil
  then show ?case by simp
next
  case (Cons blk bs)
  have "unat (HDR + fst blk) = 20 + unat (fst blk)"
    using Cons.prems by (subst unat_add_no_wrap) simp_all
  then have "unat (b + (HDR + fst blk)) = unat b + (20 + unat (fst blk))"
    using Cons.prems by (subst unat_add_no_wrap) simp_all
  with Cons.IH [of "b + (HDR + fst blk)"] Cons.prems show ?case by (simp add: add.assoc)
qed

lemma last_addr_simps [simp]:
  "last_addr p b [] = p"
  "last_addr p b (xs @ [x]) = b + span xs"
  "last_addr p b (x # xs) = last_addr b (b + (HDR + fst x)) xs"
  by (auto simp: last_addr_def)

lemma seg_append:
  "seg m p b (xs @ ys) nx \<longleftrightarrow>
     seg m p b xs (if ys = [] then nx else b + span xs) \<and> seg m (last_addr p b xs) (b + span xs) ys nx"
proof (induction xs arbitrary: p b)
  case Nil
  then show ?case by simp
next
  case (Cons x xs)
  then show ?case by (cases "xs = []"; cases "ys = []") (auto simp: add.assoc)
qed

section \<open>Reading a header after writing one\<close>

lemmas hdr_defs = hdr_magic_def hdr_size_def hdr_free_def hdr_next_def hdr_prev_def
lemmas set_defs = set_magic_def set_size_def set_free_def set_next_def set_prev_def

lemma field_apart:
  "apart b (b + 4)" "apart b (b + 8)" "apart b (b + 12)" "apart b (b + 16)"
  "apart (b + 4) b" "apart (b + 8) b" "apart (b + 12) b" "apart (b + 16) b"
  "apart (b + 4) (b + 8)" "apart (b + 4) (b + 12)" "apart (b + 4) (b + 16)"
  "apart (b + 8) (b + 4)" "apart (b + 8) (b + 12)" "apart (b + 8) (b + 16)"
  "apart (b + 12) (b + 4)" "apart (b + 12) (b + 8)" "apart (b + 12) (b + 16)"
  "apart (b + 16) (b + 4)" "apart (b + 16) (b + 8)" "apart (b + 16) (b + 12)"
  by (simp_all add: apart_def)

lemma hdr_set_same [simp]:
  "hdr_magic (set_magic b v m) b = v" "hdr_size (set_magic b v m) b = hdr_size m b"
  "hdr_free (set_magic b v m) b = hdr_free m b" "hdr_next (set_magic b v m) b = hdr_next m b"
  "hdr_prev (set_magic b v m) b = hdr_prev m b"
  "hdr_magic (set_size b v m) b = hdr_magic m b" "hdr_size (set_size b v m) b = v"
  "hdr_free (set_size b v m) b = hdr_free m b" "hdr_next (set_size b v m) b = hdr_next m b"
  "hdr_prev (set_size b v m) b = hdr_prev m b"
  "hdr_magic (set_free b v m) b = hdr_magic m b" "hdr_size (set_free b v m) b = hdr_size m b"
  "hdr_free (set_free b v m) b = v" "hdr_next (set_free b v m) b = hdr_next m b"
  "hdr_prev (set_free b v m) b = hdr_prev m b"
  "hdr_magic (set_next b v m) b = hdr_magic m b" "hdr_size (set_next b v m) b = hdr_size m b"
  "hdr_free (set_next b v m) b = hdr_free m b" "hdr_next (set_next b v m) b = v"
  "hdr_prev (set_next b v m) b = hdr_prev m b"
  "hdr_magic (set_prev b v m) b = hdr_magic m b" "hdr_size (set_prev b v m) b = hdr_size m b"
  "hdr_free (set_prev b v m) b = hdr_free m b" "hdr_next (set_prev b v m) b = hdr_next m b"
  "hdr_prev (set_prev b v m) b = v"
  by (simp_all add: hdr_defs set_defs field_apart)

text \<open>Two memories that agree but on the header at \<open>c\<close>.\<close>

definition off_hdr :: "u32 \<Rightarrow> u32 \<Rightarrow> bool" where
  "off_hdr c x \<longleftrightarrow> unat x < unat c \<or> unat c + 20 \<le> unat x"

lemma unat_field:
  "unat (c :: u32) + 20 \<le> 2 ^ 32 \<Longrightarrow> unat (c + 4) = unat c + 4 \<and> unat (c + 8) = unat c + 8 \<and>
   unat (c + 12) = unat c + 12 \<and> unat (c + 16) = unat c + 16"
  by (intro conjI; subst unat_add_no_wrap; simp)

lemma set_off_hdr [simp]:
  assumes "unat c + 20 \<le> 2 ^ 32" and "off_hdr c x"
  shows "set_magic c v m x = m x" "set_size c v m x = m x" "set_free c v m x = m x"
    "set_next c v m x = m x" "set_prev c v m x = m x"
  using assms unat_field [OF assms(1)] unfolding set_defs off_hdr_def
  by (auto intro!: store32_outside)

lemma hdr_cong:
  assumes "unat b + 20 \<le> 2 ^ 32" and "\<And>x. unat b \<le> unat x \<Longrightarrow> unat x < unat b + 20 \<Longrightarrow> m x = m' x"
  shows "hdr_magic m b = hdr_magic m' b" "hdr_size m b = hdr_size m' b" "hdr_free m b = hdr_free m' b"
    "hdr_next m b = hdr_next m' b" "hdr_prev m b = hdr_prev m' b"
  using unat_field [OF assms(1)] assms unfolding hdr_defs
  by (auto intro!: load32_inside)

definition hdr_sep :: "u32 \<Rightarrow> u32 \<Rightarrow> bool" where
  "hdr_sep b c \<longleftrightarrow> unat b + 20 \<le> 2 ^ 32 \<and> unat c + 20 \<le> 2 ^ 32 \<and>
     (unat b + 20 \<le> unat c \<or> unat c + 20 \<le> unat b)"

lemma hdr_sepD:
  "hdr_sep b c \<Longrightarrow> unat b + 20 \<le> 2 ^ 32" "hdr_sep b c \<Longrightarrow> unat c + 20 \<le> 2 ^ 32"
  "hdr_sep b c \<Longrightarrow> unat c \<le> unat x \<Longrightarrow> unat x < unat c + 20 \<Longrightarrow> off_hdr b x"
  by (auto simp: hdr_sep_def off_hdr_def)

lemma hdr_set_other [simp]:
  assumes sep: "hdr_sep b c"
  shows "hdr_magic (set_magic b v m) c = hdr_magic m c" "hdr_size (set_magic b v m) c = hdr_size m c"
    "hdr_free (set_magic b v m) c = hdr_free m c" "hdr_next (set_magic b v m) c = hdr_next m c"
    "hdr_prev (set_magic b v m) c = hdr_prev m c"
    "hdr_magic (set_size b v m) c = hdr_magic m c" "hdr_size (set_size b v m) c = hdr_size m c"
    "hdr_free (set_size b v m) c = hdr_free m c" "hdr_next (set_size b v m) c = hdr_next m c"
    "hdr_prev (set_size b v m) c = hdr_prev m c"
    "hdr_magic (set_free b v m) c = hdr_magic m c" "hdr_size (set_free b v m) c = hdr_size m c"
    "hdr_free (set_free b v m) c = hdr_free m c" "hdr_next (set_free b v m) c = hdr_next m c"
    "hdr_prev (set_free b v m) c = hdr_prev m c"
    "hdr_magic (set_next b v m) c = hdr_magic m c" "hdr_size (set_next b v m) c = hdr_size m c"
    "hdr_free (set_next b v m) c = hdr_free m c" "hdr_next (set_next b v m) c = hdr_next m c"
    "hdr_prev (set_next b v m) c = hdr_prev m c"
    "hdr_magic (set_prev b v m) c = hdr_magic m c" "hdr_size (set_prev b v m) c = hdr_size m c"
    "hdr_free (set_prev b v m) c = hdr_free m c" "hdr_next (set_prev b v m) c = hdr_next m c"
    "hdr_prev (set_prev b v m) c = hdr_prev m c"
  using hdr_sepD [OF sep] by (auto intro!: hdr_cong)

lemma hdr_is_cong:
  assumes "unat b + 20 \<le> 2 ^ 32" and "\<And>x. unat b \<le> unat x \<Longrightarrow> unat x < unat b + 20 \<Longrightarrow> m x = m' x"
  shows "hdr_is m b blk nx p = hdr_is m' b blk nx p"
  using hdr_cong [OF assms] by (simp add: hdr_is_def)

lemma unat_next:
  "unat b + (20 + unat sz) < 2 ^ 32 \<Longrightarrow> unat (b + (HDR + sz)) = unat b + (20 + unat sz)"
  using unat_span [of b "[(sz, True)]"] by simp

lemma nspan_pos: "bs \<noteq> [] \<Longrightarrow> 20 \<le> nspan bs"
  by (cases bs) auto

lemma seg_cong:
  assumes "unat b + nspan bs \<le> 2 ^ 32"
    and "\<And>x. unat b \<le> unat x \<Longrightarrow> unat x < unat b + nspan bs \<Longrightarrow> m x = m' x"
  shows "seg m p b bs nx = seg m' p b bs nx"
  using assms
proof (induction bs arbitrary: p b)
  case Nil
  then show ?case by simp
next
  case (Cons blk bs)
  have h: "hdr_is m b blk q p = hdr_is m' b blk q p" for q
    using Cons.prems by (intro hdr_is_cong) auto
  show ?case
  proof (cases "bs = []")
    case True
    with h show ?thesis by simp
  next
    case False
    have u: "unat (b + (HDR + fst blk)) = unat b + (20 + unat (fst blk))"
      using Cons.prems nspan_pos [OF False] by (intro unat_next) simp
    have "seg m b (b + (HDR + fst blk)) bs nx = seg m' b (b + (HDR + fst blk)) bs nx"
      by (rule Cons.IH) (use Cons.prems u in auto)
    with h show ?thesis by simp
  qed
qed

lemma seg_set_prev:
  assumes "seg m p b bs nx" and "bs \<noteq> []" and "unat b + nspan bs \<le> 2 ^ 32"
  shows "seg (set_prev b q m) q b bs nx"
proof (cases bs)
  case (Cons y ys)
  have "seg (set_prev b q m) b (b + (HDR + fst y)) ys nx = seg m b (b + (HDR + fst y)) ys nx"
  proof (cases "ys = []")
    case False
    then have "unat (b + (HDR + fst y)) = unat b + (20 + unat (fst y))"
      using assms(3) Cons nspan_pos [OF False] by (intro unat_next) simp
    with assms(3) Cons show ?thesis by (intro seg_cong) (auto simp: off_hdr_def)
  qed simp
  with assms(1) Cons show ?thesis by (simp add: hdr_is_def)
qed (use assms(2) in simp)

section \<open>Replacing blocks in the middle of the list\<close>

lemma seg_replace:
  assumes rep: "seg m p s (xs @ mid @ ys) nx" and ne: "mid \<noteq> []" "mid' \<noteq> []"
    and sp: "span mid' = span mid" and fit: "unat s + nspan (xs @ mid @ ys) \<le> 2 ^ 32"
    and b: "b = s + span xs" and c: "c = b + span mid"
    and before: "\<And>x. unat x < unat b \<Longrightarrow> m' x = m x"
    and middle: "seg m' (last_addr p s xs) b mid' (if ys = [] then nx else c)"
    and after: "ys \<noteq> [] \<Longrightarrow> seg m' (last_addr (last_addr p s xs) b mid') c ys nx"
  shows "seg m' p s (xs @ mid' @ ys) nx"
proof -
  have "unat b = unat s + nspan xs"
    unfolding b using fit nspan_pos [OF ne(1)] by (intro unat_span) simp
  then have "seg m' p s xs b = seg m p s xs b"
    using fit before by (intro seg_cong) auto
  then have "seg m' p s xs b" using rep ne unfolding seg_append b by simp
  moreover have "seg m' (last_addr p s xs) b (mid' @ ys) nx"
    using middle after sp unfolding seg_append c by (cases "ys = []") auto
  ultimately show ?thesis using ne unfolding seg_append [of m' p s xs] b by simp
qed

text \<open>The tail after a change of its first back pointer, with everything else before it.\<close>

lemma seg_tail:
  assumes "seg m b' c ys nx" and "ys \<noteq> []" and "unat c + nspan ys \<le> 2 ^ 32"
    and "\<And>x. unat c \<le> unat x \<Longrightarrow> m' x = set_prev c q m x"
  shows "seg m' q c ys nx"
proof -
  have "seg m' q c ys nx = seg (set_prev c q m) q c ys nx"
    using assms(3,4) by (intro seg_cong) auto
  with seg_set_prev [OF assms(1,2,3)] show ?thesis by simp
qed

text \<open>Where the pieces lie.\<close>

lemma mid_addrs:
  assumes fit: "unat s + nspan (xs @ blk # ys) \<le> 2 ^ 32" and b: "b = s + span xs"
  shows "unat b = unat s + nspan xs" "unat b + 20 \<le> 2 ^ 32"
    "ys \<noteq> [] \<Longrightarrow> unat (b + (HDR + fst blk)) = unat b + (20 + unat (fst blk))"
    "ys \<noteq> [] \<Longrightarrow> unat (b + (HDR + fst blk)) + nspan ys \<le> 2 ^ 32"
    "s \<noteq> 0 \<Longrightarrow> b \<noteq> 0"
proof -
  show u: "unat b = unat s + nspan xs" unfolding b using fit by (intro unat_span) simp
  show "unat b + 20 \<le> 2 ^ 32" using u fit by simp
  show c: "unat (b + (HDR + fst blk)) = unat b + (20 + unat (fst blk))" if "ys \<noteq> []"
    using u fit nspan_pos [OF that] by (intro unat_next) simp
  show "unat (b + (HDR + fst blk)) + nspan ys \<le> 2 ^ 32" if "ys \<noteq> []"
    using c [OF that] u fit by simp
  show "b \<noteq> 0" if "s \<noteq> 0"
  proof
    assume "b = 0"
    with u have "unat s = 0" by simp
    with that show False by (simp add: unat_0_iff)
  qed
qed

text \<open>
  The step both loops of \<open>merge_free\<close> take: the block after \<open>b\<close> is absorbed into \<open>b\<close>.
\<close>

definition absorb :: "u32 \<Rightarrow> mem \<Rightarrow> mem" where
  "absorb b m =
     (let m = set_size b (hdr_size m b + (HDR + hdr_size m (hdr_next m b))) m;
          m = set_next b (hdr_next m (hdr_next m b)) m
      in if hdr_next m b \<noteq> 0 then set_prev (hdr_next m b) b m else m)"

lemma absorb_rep:
  assumes rep: "seg m 0 s (xs @ (sz, fr) # (sz2, fr2) # ys) 0" and s0: "s \<noteq> 0"
    and fit: "unat s + nspan (xs @ (sz, fr) # (sz2, fr2) # ys) \<le> 2 ^ 32" and b: "b = s + span xs"
  shows "seg (absorb b m) 0 s (xs @ (sz + (HDR + sz2), fr) # ys) 0"
    and "off_hdr b x \<Longrightarrow> (ys \<noteq> [] \<longrightarrow> off_hdr (b + (HDR + sz) + (HDR + sz2)) x) \<Longrightarrow> absorb b m x = m x"
proof -
  define c where "c = b + (HDR + sz)"
  define d where "d = c + (HDR + sz2)"
  have fit1: "unat s + nspan (xs @ (sz, fr) # ((sz2, fr2) # ys)) \<le> 2 ^ 32" using fit by simp
  note B = mid_addrs [OF fit1 b, simplified, folded c_def]
  have fit2: "unat s + nspan ((xs @ [(sz, fr)]) @ (sz2, fr2) # ys) \<le> 2 ^ 32" using fit by simp
  have cs: "c = s + span (xs @ [(sz, fr)])" by (simp add: c_def b add.assoc)
  note C = mid_addrs [OF fit2 cs, simplified, folded d_def]
  have seps: "hdr_sep b c" using B C by (simp add: hdr_sep_def)
  have hb: "hdr_is m b (sz, fr) c (last_addr 0 s xs)"
    and hc: "hdr_is m c (sz2, fr2) (if ys = [] then 0 else d) b" and tail: "ys \<noteq> [] \<Longrightarrow> seg m c d ys 0"
    using rep unfolding seg_append b [symmetric] by (simp_all add: c_def d_def split: if_splits)
  have nx: "hdr_next m b = c" "hdr_size m b = sz" "hdr_size m c = sz2"
    "hdr_next m c = (if ys = [] then 0 else d)"
    using hb hc by (simp_all add: hdr_is_def)
  have d0: "d \<noteq> 0" if "ys \<noteq> []" using C(3) [OF that] by (metis add_is_0 unsigned_0 numeral_neq_zero)
  define m1 where "m1 = set_next b (if ys = [] then 0 else d) (set_size b (sz + (HDR + sz2)) m)"
  have eq: "absorb b m = (if ys = [] then m1 else set_prev d b m1)"
    using d0 by (simp add: absorb_def Let_def nx seps m1_def)
  have bd: "hdr_sep b d" "hdr_sep d b" if "ys \<noteq> []"
    using B C(3,4) [OF that] nspan_pos [OF that] by (auto simp: hdr_sep_def)
  have m1b: "m1 x = m x" if "off_hdr b x" for x using that B(2) by (simp add: m1_def)
  have dfit: "unat d + 20 \<le> 2 ^ 32" if "ys \<noteq> []" using bd [OF that] by (simp add: hdr_sep_def)
  show off: "absorb b m x = m x"
    if "off_hdr b x" "ys \<noteq> [] \<longrightarrow> off_hdr (b + (HDR + sz) + (HDR + sz2)) x" for x
    using that dfit unfolding eq c_def [symmetric] d_def [symmetric] by (auto simp: m1b)
  have "seg (absorb b m) 0 s (xs @ [(sz + (HDR + sz2), fr)] @ ys) 0"
  proof (rule seg_replace [where mid = "[(sz, fr), (sz2, fr2)]" and b = b and c = d and m = m])
    show "seg m 0 s (xs @ [(sz, fr), (sz2, fr2)] @ ys) 0" using rep by simp
    show "unat s + nspan (xs @ [(sz, fr), (sz2, fr2)] @ ys) \<le> 2 ^ 32" using fit by simp
    show "absorb b m x = m x" if "unat x < unat b" for x
      by (rule off) (use that B C in \<open>auto simp: off_hdr_def c_def [symmetric] d_def [symmetric]\<close>)
    show "seg (absorb b m) (last_addr 0 s xs) b [(sz + (HDR + sz2), fr)] (if ys = [] then 0 else d)"
      using hb bd by (auto simp: eq m1_def hdr_is_def)
    show "seg (absorb b m) (last_addr (last_addr 0 s xs) b [(sz + (HDR + sz2), fr)]) d ys 0" if "ys \<noteq> []"
    proof -
      have "seg (absorb b m) b d ys 0"
      proof (rule seg_tail [OF tail [OF that] that])
        show "unat d + nspan ys \<le> 2 ^ 32" using C(4) [OF that] by simp
      next
        fix x :: u32 assume x: "unat d \<le> unat x"
        have "off_hdr b y" if "unat d \<le> unat y" for y
          using that bd(1) [OF \<open>ys \<noteq> []\<close>] B(1) C(1) C(3) [OF \<open>ys \<noteq> []\<close>] by (auto simp: off_hdr_def)
        with m1b have "\<And>y. unat d \<le> unat y \<Longrightarrow> m1 y = m y" by blast
        then show "absorb b m x = set_prev d b m x"
          using that x by (simp add: eq set_prev_def store32_def)
      qed
      then show ?thesis by (simp add: last_addr_def)
    qed
  qed (use b in \<open>auto simp: c_def d_def ac_simps\<close>)
  then show "seg (absorb b m) 0 s (xs @ (sz + (HDR + sz2), fr) # ys) 0" by simp
qed

section \<open>The bytes in use\<close>

text \<open>The payload addresses of the allocated blocks of a list that starts at \<open>a\<close>.\<close>

fun used_bytes :: "nat \<Rightarrow> block list \<Rightarrow> nat set" where
  "used_bytes a [] = {}"
| "used_bytes a (blk # bs) =
     (if snd blk then {} else {a + 20 ..< a + 20 + unat (fst blk)})
     \<union> used_bytes (a + (20 + unat (fst blk))) bs"

definition keeps :: "u32 \<Rightarrow> block list \<Rightarrow> mem \<Rightarrow> mem \<Rightarrow> bool" where
  "keeps s bs m m' \<longleftrightarrow> (\<forall>x. unat x \<in> used_bytes (unat s) bs \<longrightarrow> m' x = m x)"

lemma used_bytes_append: "used_bytes a (xs @ ys) = used_bytes a xs \<union> used_bytes (a + nspan xs) ys"
  by (induction xs arbitrary: a) (auto simp: add.assoc)

lemma used_bytes_range: "x \<in> used_bytes a bs \<Longrightarrow> a + 20 \<le> x \<and> x < a + nspan bs"
  by (induction bs arbitrary: a) (auto split: if_splits, fastforce+)

lemma used_off_boundary:
  "x \<in> used_bytes a (xs @ ys) \<Longrightarrow> x < a + nspan xs \<or> a + nspan xs + 20 \<le> x"
  by (auto simp: used_bytes_append dest!: used_bytes_range)

lemma used_off_hdr:
  assumes "unat x \<in> used_bytes (unat s) (xs @ ys)" and "unat b = unat s + nspan xs"
  shows "off_hdr b x"
  using used_off_boundary [OF assms(1)] assms(2) by (simp add: off_hdr_def)

lemma keeps_refl [simp]: "keeps s bs m m"
  by (simp add: keeps_def)

lemma keeps_trans: "keeps s bs m m' \<Longrightarrow> keeps s bs m' m'' \<Longrightarrow> keeps s bs m m''"
  by (simp add: keeps_def)

section \<open>Coalescing\<close>

fun coalesce :: "block \<Rightarrow> block list \<Rightarrow> block list" where
  "coalesce blk [] = [blk]"
| "coalesce blk (nxt # ys) =
     (if snd nxt then coalesce (fst blk + (HDR + fst nxt), snd blk) ys else blk # nxt # ys)"

definition free_blk :: "block list \<Rightarrow> u32 \<Rightarrow> block list \<Rightarrow> block list" where
  "free_blk xs sz ys =
     (let cs = coalesce (sz, True) ys
      in if xs \<noteq> [] \<and> snd (last xs)
         then butlast xs @ (fst (last xs) + (HDR + fst (hd cs)), True) # tl cs
         else xs @ cs)"

lemma unat_absorb_size:
  "unat (s :: u32) + nspan (xs @ (sz, fr) # (sz2, fr2) # ys) \<le> 2 ^ 32 \<Longrightarrow>
   unat (sz + (HDR + sz2)) = unat sz + (20 + unat sz2)"
  by (subst unat_add_no_wrap; subst unat_add_no_wrap; simp)

lemma absorb_fit:
  assumes "unat (s :: u32) + nspan (xs @ (sz, fr) # (sz2, fr2) # ys) \<le> 2 ^ 32"
  shows "unat s + nspan (xs @ (sz + (HDR + sz2), fr) # ys) = unat s + nspan (xs @ (sz, fr) # (sz2, fr2) # ys)"
    "used_bytes (unat s) (xs @ (sz + (HDR + sz2), True) # ys) = used_bytes (unat s) (xs @ (sz, True) # (sz2, True) # ys)"
  using unat_absorb_size [OF assms] by (simp_all add: used_bytes_append add.assoc)

lemma merge_next_rec:
  "merge_next b m =
     (if hdr_next m b \<noteq> 0 \<and> hdr_free m (hdr_next m b) \<noteq> 0 then merge_next b (absorb b m) else Some m)"
  by (subst merge_next.simps) (simp add: absorb_def Let_def)

lemma absorb_keeps:
  assumes rep: "seg m 0 s (xs @ (sz, True) # (sz2, True) # ys) 0" and s0: "s \<noteq> 0"
    and fit: "unat s + nspan (xs @ (sz, True) # (sz2, True) # ys) \<le> 2 ^ 32" and b: "b = s + span xs"
  shows "keeps s (xs @ (sz, True) # (sz2, True) # ys) m (absorb b m)"
  unfolding keeps_def
proof (intro allI impI)
  fix x :: u32 assume u: "unat x \<in> used_bytes (unat s) (xs @ (sz, True) # (sz2, True) # ys)"
  have "unat b = unat s + nspan xs" unfolding b using fit by (intro unat_span) simp
  with u have "off_hdr b x" by (rule used_off_hdr)
  moreover have "off_hdr (b + (HDR + sz) + (HDR + sz2)) x" if ne: "ys \<noteq> []"
  proof -
    define ws where "ws = xs @ [(sz, True), (sz2, True)]"
    have "unat (s + span ws) = unat s + nspan ws"
      using fit nspan_pos [OF ne] by (intro unat_span) (simp add: ws_def)
    moreover have "b + (HDR + sz) + (HDR + sz2) = s + span ws" by (simp add: ws_def b ac_simps)
    moreover have "unat x \<in> used_bytes (unat s) (ws @ ys)" using u by (simp add: ws_def)
    ultimately show ?thesis using used_off_hdr by metis
  qed
  ultimately show "absorb b m x = m x" using absorb_rep(2) [OF rep s0 fit b] by blast
qed

lemma hdr_at:
  assumes "seg m 0 s (xs @ blk # ys) 0" and "b = s + span xs"
  shows "hdr_is m b blk (if ys = [] then 0 else b + (HDR + fst blk)) (last_addr 0 s xs)"
  using assms unfolding seg_append by (simp split: if_splits)

lemma hdr_at_next:
  assumes "seg m 0 s (xs @ blk # nxt # ys) 0" and "b = s + span xs"
  shows "hdr_is m (b + (HDR + fst blk)) nxt
           (if ys = [] then 0 else b + (HDR + fst blk) + (HDR + fst nxt)) b"
  using assms unfolding seg_append by (simp split: if_splits)

lemma merge_next_rep:
  assumes "seg m 0 s (xs @ (sz, True) # ys) 0" and "s \<noteq> 0"
    and "unat s + nspan (xs @ (sz, True) # ys) \<le> 2 ^ 32" and "b = s + span xs"
  shows "\<exists>m'. merge_next b m = Some m' \<and> seg m' 0 s (xs @ coalesce (sz, True) ys) 0 \<and>
    unat s + nspan (xs @ coalesce (sz, True) ys) = unat s + nspan (xs @ (sz, True) # ys) \<and>
    used_bytes (unat s) (xs @ coalesce (sz, True) ys) = used_bytes (unat s) (xs @ (sz, True) # ys) \<and>
    keeps s (xs @ (sz, True) # ys) m m'"
  using assms
proof (induction ys arbitrary: sz m)
  case Nil
  with hdr_at [OF Nil(1,4)] show ?case by (subst merge_next_rec) (simp add: hdr_is_def)
next
  case (Cons nxt ys)
  obtain sz2 fr2 where nxt: "nxt = (sz2, fr2)" by fastforce
  note rep = Cons.prems(1) [unfolded nxt] and fit = Cons.prems(3) [unfolded nxt] and b = Cons.prems(4)
  let ?c = "b + (HDR + sz)"
  have h: "hdr_next m b = ?c" "hdr_free m ?c = (if fr2 then 1 else 0)"
    using hdr_at [OF rep b] hdr_at_next [OF rep b] by (simp_all add: hdr_is_def)
  have "unat ?c = unat b + (20 + unat sz)" using mid_addrs(3) [OF fit b] by simp
  then have c0: "?c \<noteq> 0" by (metis add_is_0 unsigned_0 numeral_neq_zero)
  show ?case
  proof (cases fr2)
    case False
    with h Cons.prems nxt show ?thesis by (subst merge_next_rec) simp
  next
    case True
    let ?sz = "sz + (HDR + sz2)"
    have step: "merge_next b m = merge_next b (absorb b m)"
      using h c0 True by (subst merge_next_rec) simp
    note rep' = absorb_rep(1) [OF rep Cons.prems(2) fit b]
    note fit' = absorb_fit(1) [OF fit]
    have "unat s + nspan (xs @ (?sz, True) # ys) \<le> 2 ^ 32" using fit' fit by simp
    from Cons.IH [OF rep' Cons.prems(2) this b] obtain m' where m':
      "merge_next b (absorb b m) = Some m'" "seg m' 0 s (xs @ coalesce (?sz, True) ys) 0"
      "unat s + nspan (xs @ coalesce (?sz, True) ys) = unat s + nspan (xs @ (?sz, True) # ys)"
      "used_bytes (unat s) (xs @ coalesce (?sz, True) ys) = used_bytes (unat s) (xs @ (?sz, True) # ys)"
      "keeps s (xs @ (?sz, True) # ys) (absorb b m) m'" by blast
    note used = absorb_fit(2) [OF fit]
    have "keeps s (xs @ (sz, True) # (sz2, True) # ys) m (absorb b m)"
      using rep fit b Cons.prems(2) True by (intro absorb_keeps) simp_all
    moreover have "keeps s (xs @ (sz, True) # (sz2, True) # ys) (absorb b m) m'"
      using m'(5) unfolding keeps_def used .
    ultimately have "keeps s (xs @ (sz, True) # (sz2, True) # ys) m m'" by (rule keeps_trans)
    with step m' used fit' nxt True show ?thesis by simp
  qed
qed

section \<open>Release\<close>

lemma seg_update_hdr:
  assumes rep: "seg m 0 s (xs @ (sz, fr) # ys) 0" and fit: "unat s + nspan (xs @ (sz, fr) # ys) \<le> 2 ^ 32"
    and b: "b = s + span xs" and off: "\<And>x. off_hdr b x \<Longrightarrow> m' x = m x"
    and hdr: "hdr_is m' b (sz, f) (if ys = [] then 0 else b + (HDR + sz)) (last_addr 0 s xs)"
  shows "seg m' 0 s (xs @ (sz, f) # ys) 0"
proof -
  let ?c = "b + (HDR + sz)"
  note B = mid_addrs [OF fit b, simplified]
  have "seg m' 0 s (xs @ [(sz, f)] @ ys) 0"
  proof (rule seg_replace [where mid = "[(sz, fr)]" and b = b and c = ?c and m = m])
    show "seg m' (last_addr (last_addr 0 s xs) b [(sz, f)]) ?c ys 0" if "ys \<noteq> []"
    proof -
      have "seg m b ?c ys 0" using rep unfolding seg_append b by simp
      moreover have "seg m b ?c ys 0 = seg m' b ?c ys 0"
        using B(3,4) [OF that] by (intro seg_cong off [symmetric]) (auto simp: off_hdr_def)
      ultimately show ?thesis by (simp add: last_addr_def)
    qed
    show "m' x = m x" if "unat x < unat b" for x by (rule off) (use that in \<open>simp add: off_hdr_def\<close>)
  qed (use rep fit b hdr in simp_all)
  then show ?thesis by simp
qed

lemma coalesce_Cons: "\<exists>sz' zs. coalesce blk ys = (sz', snd blk) # zs"
  by (induction blk ys rule: coalesce.induct) auto

lemma merge_prev_absorb:
  assumes rep: "seg m 0 s (ws @ (szp, True) # (sz, True) # ys) 0" and s0: "s \<noteq> 0"
    and fit: "unat s + nspan (ws @ (szp, True) # (sz, True) # ys) \<le> 2 ^ 32" and p: "p = s + span ws"
  shows "merge_prev (p + (HDR + szp)) m = absorb p m"
proof -
  let ?b = "p + (HDR + szp)"
  note P = mid_addrs [OF fit p, simplified]
  have "unat ?b + 20 \<le> 2 ^ 32" using P(4) by simp
  then have sep: "hdr_sep p ?b" "hdr_sep ?b p" using P by (auto simp: hdr_sep_def)
  have hp: "hdr_next m p = ?b" "hdr_free m p = 1" and hb: "hdr_prev m ?b = p"
    using hdr_at [OF rep p] hdr_at_next [OF rep p] by (simp_all add: hdr_is_def)
  have p0: "p \<noteq> 0" using P(5) s0 by simp
  show ?thesis using sep p0 by (simp add: merge_prev_def absorb_def Let_def hp hb)
qed

lemma merge_prev_rep:
  assumes rep: "seg m 0 s (xs @ (sz, True) # ys) 0" and s0: "s \<noteq> 0"
    and fit: "unat s + nspan (xs @ (sz, True) # ys) \<le> 2 ^ 32" and b: "b = s + span xs"
  shows "let bs = (if xs \<noteq> [] \<and> snd (last xs) then butlast xs @ (fst (last xs) + (HDR + sz), True) # ys
                   else xs @ (sz, True) # ys)
         in seg (merge_prev b m) 0 s bs 0 \<and> unat s + nspan bs = unat s + nspan (xs @ (sz, True) # ys) \<and>
            used_bytes (unat s) bs = used_bytes (unat s) (xs @ (sz, True) # ys) \<and>
            keeps s (xs @ (sz, True) # ys) m (merge_prev b m)"
proof (cases "xs = []")
  case True
  with hdr_at [OF rep b] rep show ?thesis by (simp add: hdr_is_def merge_prev_def)
next
  case False
  then obtain ws szp frp where xs: "xs = ws @ [(szp, frp)]" by (metis rev_exhaust surj_pair)
  define p where "p = s + span ws"
  have rep': "seg m 0 s (ws @ (szp, frp) # (sz, True) # ys) 0"
    and fit': "unat s + nspan (ws @ (szp, frp) # (sz, True) # ys) \<le> 2 ^ 32"
    using rep fit by (simp_all add: xs)
  have bp: "b = p + (HDR + szp)" by (simp add: b xs p_def add.assoc)
  have hb: "hdr_prev m b = p" "hdr_free m p = (if frp then 1 else 0)"
    using hdr_at [OF rep b] hdr_at [OF rep' p_def] by (simp_all add: hdr_is_def xs p_def)
  show ?thesis
  proof (cases frp)
    case False
    with rep hb show ?thesis by (simp add: merge_prev_def xs)
  next
    case True
    have "merge_prev b m = absorb p m" unfolding bp
      using rep' s0 fit' p_def True by (intro merge_prev_absorb) simp_all
    moreover have "seg (absorb p m) 0 s (ws @ (szp + (HDR + sz), True) # ys) 0"
      using absorb_rep(1) [OF rep' s0 fit' p_def] True by simp
    moreover have "keeps s (ws @ (szp, True) # (sz, True) # ys) m (absorb p m)"
      using rep' s0 fit' p_def True by (intro absorb_keeps) simp_all
    ultimately show ?thesis
      using absorb_fit [OF fit'] True by (simp add: xs)
  qed
qed

text \<open>
  What \<open>kfree\<close> does to a heap whose allocated block of size \<open>sz\<close> starts after \<open>xs\<close>: the list
  is rewritten by \<open>free_blk\<close>, and no byte of the blocks that stay allocated changes.
\<close>

lemma kfree_rep:
  assumes rep: "heap_rep h (xs @ (sz, False) # ys)" and b: "b = heap_head h + span xs"
  shows "\<exists>h'. kfree (b + HDR) h = Some h' \<and> heap_rep h' (free_blk xs sz ys) \<and>
    heap_head h' = heap_head h \<and> nspan (free_blk xs sz ys) = nspan (xs @ (sz, False) # ys) \<and>
    used_bytes (unat (heap_head h)) (free_blk xs sz ys) = used_bytes (unat (heap_head h)) (xs @ (sz, True) # ys) \<and>
    keeps (heap_head h) (xs @ (sz, True) # ys) (mem h) (mem h')"
proof -
  let ?s = "heap_head h"
  let ?m1 = "set_free b 1 (mem h)"
  have s0: "?s \<noteq> 0" and fit: "unat ?s + nspan (xs @ (sz, False) # ys) \<le> 2 ^ 32"
    and fit0: "unat ?s + nspan (xs @ (sz, False) # ys) < 2 ^ 32" and seg0: "seg (mem h) 0 ?s (xs @ (sz, False) # ys) 0" using rep by (simp_all add: heap_rep_def)
  note B = mid_addrs [OF fit b]
  have hb: "hdr_is (mem h) b (sz, False) (if ys = [] then 0 else b + (HDR + sz)) (last_addr 0 ?s xs)"
    using hdr_at [OF seg0 b] by (simp split: if_splits)
  have off1: "?m1 x = mem h x" if "off_hdr b x" for x using B(2) that by simp
  have seg1: "seg ?m1 0 ?s (xs @ (sz, True) # ys) 0"
    by (rule seg_update_hdr [OF seg0 fit b off1]) (use hb in \<open>simp_all add: hdr_is_def\<close>)
  have fit1: "unat ?s + nspan (xs @ (sz, True) # ys) \<le> 2 ^ 32" using fit by simp
  from merge_next_rep [OF seg1 s0 fit1 b] obtain m2 where m2:
    "merge_next b ?m1 = Some m2" "seg m2 0 ?s (xs @ coalesce (sz, True) ys) 0"
    "unat ?s + nspan (xs @ coalesce (sz, True) ys) = unat ?s + nspan (xs @ (sz, True) # ys)"
    "used_bytes (unat ?s) (xs @ coalesce (sz, True) ys) = used_bytes (unat ?s) (xs @ (sz, True) # ys)"
    "keeps ?s (xs @ (sz, True) # ys) ?m1 m2" by blast
  obtain sz' zs where cs: "coalesce (sz, True) ys = (sz', True) # zs"
    using coalesce_Cons [of "(sz, True)" ys] by auto
  have seg2: "seg m2 0 ?s (xs @ (sz', True) # zs) 0" using m2(2) cs by simp
  have fit2: "unat ?s + nspan (xs @ (sz', True) # zs) \<le> 2 ^ 32" using m2(3) fit1 cs by simp
  note p3 = merge_prev_rep [OF seg2 s0 fit2 b]
  have fb: "(if xs \<noteq> [] \<and> snd (last xs) then butlast xs @ (fst (last xs) + (HDR + sz'), True) # zs
             else xs @ (sz', True) # zs) = free_blk xs sz ys"
    by (simp add: free_blk_def Let_def cs)
  define h' where "h' = h\<lparr>mem := merge_prev b m2\<rparr>"
  have bh: "b + HDR - HDR = b" by simp
  have "unat (b + HDR) = unat b + 20"
    using B(1) rep by (subst unat_add_no_wrap) (simp_all add: heap_rep_def)
  then have "b + HDR \<noteq> 0" by (metis add_is_0 unsigned_0 numeral_neq_zero)
  then have res: "kfree (b + HDR) h = Some h'"
    using hb m2(1) by (simp add: kfree_def Let_def bh hdr_is_def merge_free_def h'_def)
  have k1: "keeps ?s (xs @ (sz, True) # ys) (mem h) ?m1"
    unfolding keeps_def using used_off_hdr [of _ ?s xs "(sz, True) # ys" b] B(1) off1 by blast
  have k3: "keeps ?s (xs @ (sz, True) # ys) m2 (merge_prev b m2)"
    using p3 m2(4) cs unfolding Let_def fb keeps_def by metis
  show ?thesis
    using res p3 m2 cs keeps_trans [OF keeps_trans [OF k1 m2(5)] k3] s0 fit0 unfolding Let_def fb
    by (intro exI [of _ h']) (auto simp: h'_def heap_rep_def)
qed

section \<open>Allocation\<close>

text \<open>What is left of a free block of size \<open>sz\<close> from which \<open>need\<close> bytes are taken.\<close>

definition carve :: "u32 \<Rightarrow> u32 \<Rightarrow> block list" where
  "carve sz need =
     (if sz - need - HDR \<le> HDR + 8 then [(sz, False)] else [(need, False), (sz - need - HDR, True)])"

text \<open>The body of the loop once a block is chosen.\<close>

definition take_block :: "u32 \<Rightarrow> u32 \<Rightarrow> mem \<Rightarrow> mem" where
  "take_block need b m = set_magic b HEAP_MAGIC (set_free b 0 (split_block b need m))"

lemma take_whole:
  assumes rep: "seg m 0 s (xs @ (sz, True) # ys) 0"
    and fit: "unat s + nspan (xs @ (sz, True) # ys) \<le> 2 ^ 32" and b: "b = s + span xs"
    and small: "sz - need - HDR \<le> HDR + 8"
  shows "seg (take_block need b m) 0 s (xs @ (sz, False) # ys) 0"
    and "off_hdr b x \<Longrightarrow> take_block need b m x = m x"
proof -
  have hb: "hdr_is m b (sz, True) (if ys = [] then 0 else b + (HDR + sz)) (last_addr 0 s xs)"
    using hdr_at [OF rep b] by (simp split: if_splits)
  then have eq: "take_block need b m = set_magic b HEAP_MAGIC (set_free b 0 m)"
    using small by (simp add: take_block_def split_block_def Let_def hdr_is_def)
  show off: "take_block need b m x = m x" if "off_hdr b x" for x
    using that mid_addrs(2) [OF fit b] by (simp add: eq)
  show "seg (take_block need b m) 0 s (xs @ (sz, False) # ys) 0"
    by (rule seg_update_hdr [OF rep fit b off]) (use hb in \<open>simp_all add: hdr_is_def eq\<close>)
qed

lemma take_split:
  assumes rep: "seg m 0 s (xs @ (sz, True) # ys) 0" and s0: "s \<noteq> 0"
    and fit: "unat s + nspan (xs @ (sz, True) # ys) \<le> 2 ^ 32" and b: "b = s + span xs"
    and room: "unat need + 20 \<le> unat sz" and big: "\<not> sz - need - HDR \<le> HDR + 8"
  shows "seg (take_block need b m) 0 s (xs @ (need, False) # (sz - need - HDR, True) # ys) 0"
    and "unat x < unat b \<or> unat b + (20 + unat sz) \<le> unat x \<Longrightarrow> (ys \<noteq> [] \<longrightarrow> off_hdr (b + (HDR + sz)) x) \<Longrightarrow>
      take_block need b m x = m x"
proof -
  define left where "left = sz - need - HDR"
  define nb where "nb = b + (HDR + need)"
  define c where "c = b + (HDR + sz)"
  note B = mid_addrs [OF fit b, simplified, folded c_def]
  have left: "unat left = unat sz - unat need - 20" "28 < unat left"
  proof -
    have "unat (sz - need) = unat sz - unat need" using room by (intro unat_sub_no_wrap) simp
    then show "unat left = unat sz - unat need - 20"
      unfolding left_def using room by (subst unat_sub_no_wrap) simp_all
    show "28 < unat left" using big by (simp add: left_def HDR_def word_le_nat_alt)
  qed
  have end_b: "unat b + (20 + unat sz) \<le> 2 ^ 32" using B(1) fit by simp
  have nb: "unat nb = unat b + (20 + unat need)"
    unfolding nb_def using end_b left room by (intro unat_next) simp
  have cn: "c = nb + (HDR + left)" by (simp add: c_def nb_def left_def algebra_simps)
  have bn: "hdr_sep b nb" "hdr_sep nb b" using B(2) nb end_b left by (auto simp: hdr_sep_def)
  have bc: "hdr_sep b c" "hdr_sep c b" "hdr_sep nb c" "hdr_sep c nb" "c \<noteq> 0" if "ys \<noteq> []"
  proof -
    have "unat c + 20 \<le> 2 ^ 32" using B(3,4) [OF that] nspan_pos [OF that] by simp
    then show "hdr_sep b c" "hdr_sep c b" "hdr_sep nb c" "hdr_sep c nb"
      using B(2,3) nb left that by (auto simp: hdr_sep_def)
    show "c \<noteq> 0" using B(3) [OF that] by (metis add_is_0 unsigned_0 numeral_neq_zero)
  qed
  let ?nx = "if ys = [] then 0 else c"
  have hb: "hdr_is m b (sz, True) ?nx (last_addr 0 s xs)"
    using hdr_at [OF rep b] by (simp add: c_def split: if_splits)
  define m1 where "m1 = set_prev nb b (set_next nb ?nx (set_free nb 1 (set_size nb left (set_magic nb HEAP_MAGIC m))))"
  define m2 where "m2 = (if ys = [] then m1 else set_prev c nb m1)"
  have eq: "take_block need b m
            = set_magic b HEAP_MAGIC (set_free b 0 (set_size b need (set_next b nb m2)))"
    using big hb bn bc unfolding m2_def m1_def left_def
    by (simp add: take_block_def split_block_def Let_def hdr_is_def nb_def add.assoc)
  have m1: "m1 x = m x" if "off_hdr nb x" for x
    using that bn(1) by (simp add: m1_def hdr_sep_def)
  have off2: "m2 x = m x" if "off_hdr nb x" "ys \<noteq> [] \<longrightarrow> off_hdr c x" for x
    using that m1 bc(1) by (auto simp: m2_def hdr_sep_def)
  have off: "take_block need b m x = m2 x" if "off_hdr b x" for x
    using that B(2) by (simp add: eq)
  show "take_block need b m x = m x"
    if "unat x < unat b \<or> unat b + (20 + unat sz) \<le> unat x" "ys \<noteq> [] \<longrightarrow> off_hdr (b + (HDR + sz)) x" for x
  proof -
    have "off_hdr b x" "off_hdr nb x" using that(1) nb left by (auto simp: off_hdr_def)
    with off off2 that(2) show ?thesis by (simp add: c_def)
  qed
  have "seg (take_block need b m) 0 s (xs @ [(need, False), (left, True)] @ ys) 0"
  proof (rule seg_replace [where mid = "[(sz, True)]" and b = b and c = c and m = m])
    show "take_block need b m x = m x" if "unat x < unat b" for x
    proof -
      have "off_hdr b x" "off_hdr nb x" "ys \<noteq> [] \<longrightarrow> off_hdr c x"
        using that nb B(3) by (auto simp: off_hdr_def)
      with off off2 show ?thesis by simp
    qed
    have "hdr_is (take_block need b m) b (need, False) nb (last_addr 0 s xs)"
      using hb bn bc by (auto simp: eq m2_def m1_def hdr_is_def)
    moreover have "hdr_is (take_block need b m) nb (left, True) ?nx b"
      using bn bc by (auto simp: eq m2_def m1_def hdr_is_def)
    ultimately show "seg (take_block need b m) (last_addr 0 s xs) b [(need, False), (left, True)] ?nx"
      by (simp add: nb_def)
    show "seg (take_block need b m) (last_addr (last_addr 0 s xs) b [(need, False), (left, True)]) c ys 0"
      if ne: "ys \<noteq> []"
    proof -
      have "seg m b c ys 0" using rep unfolding seg_append b by (simp add: c_def b)
      then have "seg (take_block need b m) nb c ys 0"
      proof (rule seg_tail [OF _ ne])
        show "unat c + nspan ys \<le> 2 ^ 32" using B(4) [OF ne] by simp
        fix x :: u32 assume x: "unat c \<le> unat x"
        have "off_hdr b y" "off_hdr nb y" if "unat c \<le> unat y" for y
          using that nb left B(3) [OF ne] by (auto simp: off_hdr_def)
        then have "\<And>y. unat c \<le> unat y \<Longrightarrow> m1 y = m y" "off_hdr b x" using m1 x by blast+
        then show "take_block need b m x = set_prev c nb m x"
          using ne x off by (simp add: m2_def set_prev_def store32_def)
      qed
      then show ?thesis by (simp add: last_addr_def nb_def)
    qed
  qed (use rep fit b in \<open>auto simp: c_def left_def algebra_simps\<close>)
  then show "seg (take_block need b m) 0 s (xs @ (need, False) # (sz - need - HDR, True) # ys) 0"
    by (simp add: left_def)
qed

text \<open>A block the first-fit loop would choose.\<close>

definition fits :: "u32 \<Rightarrow> block \<Rightarrow> bool" where
  "fits need blk \<longleftrightarrow> snd blk \<and> need \<le> fst blk"

lemma kmalloc_from_rec:
  "kmalloc_from need b m =
     (if b = 0 then Some (0, m)
      else if hdr_free m b \<noteq> 0 \<and> need \<le> hdr_size m b then Some (b + HDR, take_block need b m)
      else kmalloc_from need (hdr_next m b) m)"
  by (subst kmalloc_from.simps) (simp add: take_block_def Let_def)

lemma kmalloc_from_skip:
  assumes "seg m p b xs nx" and "xs \<noteq> []" and "b \<noteq> 0" and "unat b + nspan xs \<le> 2 ^ 32"
    and "\<forall>blk \<in> set xs. \<not> fits need blk"
  shows "kmalloc_from need b m = kmalloc_from need nx m"
  using assms
proof (induction xs arbitrary: p b)
  case Nil
  then show ?case by simp
next
  case (Cons x xs)
  let ?c = "b + (HDR + fst x)"
  have h: "hdr_is m b x (if xs = [] then nx else ?c) p" using Cons.prems(1) by simp
  have step: "kmalloc_from need b m = kmalloc_from need (if xs = [] then nx else ?c) m"
    using h Cons.prems(3,5) by (subst kmalloc_from_rec) (auto simp: hdr_is_def fits_def)
  show ?case
  proof (cases "xs = []")
    case True
    with step show ?thesis by simp
  next
    case False
    have c: "unat ?c = unat b + (20 + unat (fst x))"
      using Cons.prems(4) nspan_pos [OF False] by (intro unat_next) simp
    then have "?c \<noteq> 0" by (metis add_is_0 unsigned_0 numeral_neq_zero)
    with Cons.IH [of b ?c] Cons.prems False c step show ?thesis by simp
  qed
qed

lemma align8_nat:
  assumes "unat n + 7 < 2 ^ 32"
  shows "unat (ALIGN8 n) = 8 * ((unat n + 7) div 8)"
proof -
  let ?x = "n + 7"
  have x: "unat ?x = unat n + 7" using assms by (subst unat_add_no_wrap) simp_all
  have t7: "?x AND 7 = take_bit 3 ?x" by (simp add: take_bit_eq_mask mask_numeral)
  then have "unat (?x AND 7) = take_bit 3 (unat ?x)" by (simp only: unsigned_take_bit_eq)
  then have r: "unat (?x AND 7) = unat ?x mod 8" by (simp only: take_bit_eq_mod) simp
  have "y AND NOT (mask 3) = push_bit 3 (drop_bit 3 y)" for y :: u32
    by (rule bit_word_eqI) (auto simp only: bit_simps o_apply not_less le_add_diff_inverse)
  then have "?x AND NOT 7 = push_bit 3 (drop_bit 3 ?x)" by (simp add: mask_numeral)
  also have "\<dots> = ?x - (?x AND 7)"
    using bits_ident [of 3 ?x] t7 by (simp add: algebra_simps)
  finally have "?x AND NOT 7 = ?x - (?x AND 7)" .
  then have "unat (?x AND NOT 7) = unat ?x - unat ?x mod 8" using r by (simp add: unat_sub_no_wrap)
  then show ?thesis unfolding ALIGN8_def x by (simp add: minus_mod_eq_mult_div)
qed

lemma align8_bounds:
  assumes "unat n + 7 < 2 ^ 32"
  shows "unat n \<le> unat (ALIGN8 n)" "unat (ALIGN8 n) < unat n + 8" "unat (ALIGN8 n) mod 8 = 0"
proof -
  have "8 * ((unat n + 7) div 8) + (unat n + 7) mod 8 = unat n + 7" "(unat n + 7) mod 8 < 8" by simp_all
  then show "unat n \<le> unat (ALIGN8 n)" "unat (ALIGN8 n) < unat n + 8" "unat (ALIGN8 n) mod 8 = 0"
    unfolding align8_nat [OF assms] by linarith+ simp
qed

lemma kmalloc_none:
  assumes rep: "heap_rep h bs" and "\<forall>blk \<in> set bs. \<not> fits (ALIGN8 n) blk"
  shows "kmalloc n h = Some (0, h)"
proof (cases "n = 0")
  case False
  have "kmalloc_from (ALIGN8 n) (heap_head h) (mem h) = kmalloc_from (ALIGN8 n) 0 (mem h)"
    using rep assms(2) by (intro kmalloc_from_skip [of _ 0 _ bs]) (simp_all add: heap_rep_def)
  with False show ?thesis by (simp add: kmalloc_def kmalloc_from_rec [of _ 0])
qed (simp add: kmalloc_def)

lemma kmalloc_take:
  assumes rep: "heap_rep h (xs @ (sz, True) # ys)" and n: "n \<noteq> 0"
    and first: "\<forall>blk \<in> set xs. \<not> fits (ALIGN8 n) blk" and fit: "fits (ALIGN8 n) (sz, True)"
    and b: "b = heap_head h + span xs"
  shows "kmalloc n h = Some (b + HDR, h\<lparr>mem := take_block (ALIGN8 n) b (mem h)\<rparr>)"
proof -
  let ?s = "heap_head h" and ?m = "mem h" and ?need = "ALIGN8 n"
  have s0: "?s \<noteq> 0" and f: "unat ?s + nspan (xs @ (sz, True) # ys) \<le> 2 ^ 32"
    and seg0: "seg ?m 0 ?s (xs @ (sz, True) # ys) 0" using rep by (simp_all add: heap_rep_def)
  have b0: "b \<noteq> 0" using mid_addrs(5) [OF f b s0] .
  have "kmalloc_from ?need ?s ?m = kmalloc_from ?need b ?m"
  proof (cases "xs = []")
    case False
    have "seg ?m 0 ?s xs b" using seg0 unfolding seg_append b by simp
    with False s0 f first show ?thesis by (intro kmalloc_from_skip) auto
  qed (simp add: b)
  also have "\<dots> = Some (b + HDR, take_block ?need b ?m)"
    using hdr_at [OF seg0 b] fit b0 by (subst kmalloc_from_rec) (simp add: hdr_is_def fits_def)
  finally show ?thesis using n by (simp add: kmalloc_def)
qed

lemma used_carve:
  assumes "unat need + 20 \<le> unat sz"
  shows "nspan (carve sz need) = 20 + unat sz" "span (carve sz need) = HDR + sz"
    "used_bytes a (carve sz need) = {a + 20 ..< a + 20 + (if sz - need - HDR \<le> HDR + 8 then unat sz else unat need)}"
proof -
  have "unat (sz - need) = unat sz - unat need" using assms by (intro unat_sub_no_wrap) simp
  then have "unat (sz - need - HDR) = unat sz - unat need - 20"
    using assms by (subst unat_sub_no_wrap) simp_all
  with assms show "nspan (carve sz need) = 20 + unat sz" "span (carve sz need) = HDR + sz"
    "used_bytes a (carve sz need) = {a + 20 ..< a + 20 + (if sz - need - HDR \<le> HDR + 8 then unat sz else unat need)}"
    by (auto simp: carve_def algebra_simps)
qed

text \<open>
  Allocation from a block with room for another header besides the request: the list is
  rewritten by \<open>carve\<close> and no byte of the blocks already allocated changes.
\<close>

lemma kmalloc_rep:
  assumes rep: "heap_rep h (xs @ (sz, True) # ys)" and n: "n \<noteq> 0"
    and first: "\<forall>blk \<in> set xs. \<not> fits (ALIGN8 n) blk" and room: "unat (ALIGN8 n) + 20 \<le> unat sz"
  shows "\<exists>h'. kmalloc n h = Some (heap_head h + span xs + HDR, h') \<and>
    heap_rep h' (xs @ carve sz (ALIGN8 n) @ ys) \<and> heap_head h' = heap_head h \<and>
    keeps (heap_head h) (xs @ (sz, True) # ys) (mem h) (mem h')"
proof -
  let ?s = "heap_head h" and ?m = "mem h" and ?need = "ALIGN8 n"
  define b where "b = ?s + span xs"
  have s0: "?s \<noteq> 0" and f: "unat ?s + nspan (xs @ (sz, True) # ys) \<le> 2 ^ 32"
    and f0: "unat ?s + nspan (xs @ (sz, True) # ys) < 2 ^ 32"
    and seg0: "seg ?m 0 ?s (xs @ (sz, True) # ys) 0" using rep by (simp_all add: heap_rep_def)
  have "fits ?need (sz, True)" using room by (simp add: fits_def word_le_nat_alt)
  note res = kmalloc_take [OF rep n first this b_def]
  define h' where "h' = h\<lparr>mem := take_block ?need b ?m\<rparr>"
  note B = mid_addrs [OF f b_def]
  have offs: "off_hdr b x" "ys \<noteq> [] \<longrightarrow> off_hdr (b + (HDR + sz)) x"
    "unat x < unat b \<or> unat b + (20 + unat sz) \<le> unat x"
    if u: "unat x \<in> used_bytes (unat ?s) (xs @ (sz, True) # ys)" for x
  proof -
    show "off_hdr b x" using u B(1) by (rule used_off_hdr)
    have "unat x \<in> used_bytes (unat ?s) ((xs @ [(sz, True)]) @ ys)" using u by simp
    from used_off_hdr [OF this, of "b + (HDR + sz)"] B(1,3)
    show "ys \<noteq> [] \<longrightarrow> off_hdr (b + (HDR + sz)) x" by simp
    show "unat x < unat b \<or> unat b + (20 + unat sz) \<le> unat x"
      using u B(1) by (auto simp: used_bytes_append dest!: used_bytes_range)
  qed
  have "seg (mem h') 0 ?s (xs @ carve sz ?need @ ys) 0 \<and> keeps ?s (xs @ (sz, True) # ys) ?m (mem h')"
  proof (cases "sz - ?need - HDR \<le> HDR + 8")
    case True
    with take_whole [OF seg0 f b_def True] offs show ?thesis by (simp add: h'_def carve_def keeps_def)
  next
    case False
    with take_split [OF seg0 s0 f b_def room False] offs show ?thesis by (simp add: h'_def carve_def keeps_def)
  qed
  moreover have "nspan (xs @ carve sz ?need @ ys) = nspan (xs @ (sz, True) # ys)"
    using used_carve(1) [OF room] by simp
  moreover have "kmalloc n h = Some (?s + span xs + HDR, h')" using res by (simp add: h'_def b_def)
  moreover have "heap_head h' = ?s" "xs @ carve sz ?need @ ys \<noteq> []" by (simp_all add: h'_def carve_def)
  ultimately show ?thesis using s0 f0 by (intro exI [of _ h']) (simp only: heap_rep_def, simp)
qed

section \<open>First fit over the list of blocks\<close>

text \<open>
  The abstract allocator: the offset of the first block that fits, with what is left of it,
  and no two neighbouring blocks both free.
\<close>

fun alloc_list :: "u32 \<Rightarrow> block list \<Rightarrow> (u32 \<times> block list) option" where
  "alloc_list need [] = None"
| "alloc_list need (blk # bs) =
     (if fits need blk then Some (0, carve (fst blk) need @ bs)
      else map_option (\<lambda>(off, bs'). (HDR + fst blk + off, blk # bs')) (alloc_list need bs))"

fun no_adj :: "block list \<Rightarrow> bool" where
  "no_adj (x # y # zs) \<longleftrightarrow> \<not> (snd x \<and> snd y) \<and> no_adj (y # zs)"
| "no_adj _ \<longleftrightarrow> True"

text \<open>The block the request is served from, the first that fits, has room for one more header.\<close>

definition roomy :: "u32 \<Rightarrow> block list \<Rightarrow> bool" where
  "roomy need bs \<longleftrightarrow> (case find (fits need) bs of None \<Rightarrow> True | Some blk \<Rightarrow> unat need + 20 \<le> unat (fst blk))"

lemma find_first: "\<forall>blk \<in> set xs. \<not> P blk \<Longrightarrow> P x \<Longrightarrow> find P (xs @ x # ys) = Some x"
  by (induction xs) auto

lemma roomy_first:
  assumes "\<forall>blk \<in> set xs. \<not> fits need blk" "fits need (sz, True)"
  shows "roomy need (xs @ (sz, True) # ys) \<longleftrightarrow> unat need + 20 \<le> unat sz"
  by (simp add: roomy_def find_first [OF assms])

lemma alloc_list_None: "alloc_list need bs = None \<longleftrightarrow> (\<forall>blk \<in> set bs. \<not> fits need blk)"
  by (induction bs) auto

lemma alloc_list_Some:
  "alloc_list need bs = Some (off, bs') \<Longrightarrow>
   \<exists>xs sz ys. bs = xs @ (sz, True) # ys \<and> off = span xs \<and> bs' = xs @ carve sz need @ ys \<and>
     (\<forall>blk \<in> set xs. \<not> fits need blk) \<and> fits need (sz, True)"
proof (induction bs arbitrary: off bs')
  case (Cons blk bs)
  show ?case
  proof (cases "fits need blk")
    case True
    then have "blk = (fst blk, True)" by (cases blk) (simp add: fits_def)
    with True Cons.prems show ?thesis
      by (intro exI [of _ "[]"] exI [of _ "fst blk"] exI [of _ bs]) simp
  next
    case False
    with Cons.prems obtain off1 bs1 where 1: "alloc_list need bs = Some (off1, bs1)"
      "off = HDR + fst blk + off1" "bs' = blk # bs1" by auto
    from Cons.IH [OF 1(1)] obtain xs sz ys where "bs = xs @ (sz, True) # ys" "off1 = span xs"
      "bs1 = xs @ carve sz need @ ys" "\<forall>blk \<in> set xs. \<not> fits need blk" "fits need (sz, True)" by blast
    with False 1 show ?thesis
      by (intro exI [of _ "blk # xs"] exI [of _ sz] exI [of _ ys]) simp
  qed
qed simp

lemma no_adj_Cons: "no_adj (x # ys) \<longleftrightarrow> no_adj ys \<and> \<not> (ys \<noteq> [] \<and> snd x \<and> snd (hd ys))"
  by (cases ys) auto

lemma no_adj_append:
  "no_adj (xs @ ys) \<longleftrightarrow>
     no_adj xs \<and> no_adj ys \<and> \<not> (xs \<noteq> [] \<and> ys \<noteq> [] \<and> snd (last xs) \<and> snd (hd ys))"
  by (induction xs) (auto simp: no_adj_Cons)

lemma no_adj_carve: "no_adj (xs @ (sz, True) # ys) \<Longrightarrow> no_adj (xs @ carve sz need @ ys)"
  by (auto simp: carve_def no_adj_append no_adj_Cons)

lemma coalesce_no_adj: "no_adj ys \<Longrightarrow> no_adj (coalesce (sz, True) ys)"
proof (induction "(sz, True)" ys arbitrary: sz rule: coalesce.induct)
  case (2 nxt ys)
  then show ?case by (cases "snd nxt") (auto simp: no_adj_Cons)
qed simp

lemma no_adj_free_blk: "no_adj (xs @ (sz, False) # ys) \<Longrightarrow> no_adj (free_blk xs sz ys)"
proof -
  assume na: "no_adj (xs @ (sz, False) # ys)"
  then have x: "no_adj xs" and y: "no_adj ys" by (auto simp: no_adj_append no_adj_Cons)
  obtain sz' zs where cs: "coalesce (sz, True) ys = (sz', True) # zs"
    using coalesce_Cons [of "(sz, True)" ys] by auto
  have n: "no_adj ((sz', True) # zs)" using coalesce_no_adj [OF y, of sz] cs by simp
  show ?thesis
  proof (cases xs rule: rev_cases)
    case Nil
    then show ?thesis using n by (simp add: free_blk_def Let_def cs)
  next
    case (snoc ws w)
    then show ?thesis using n x by (auto simp: free_blk_def Let_def cs no_adj_append no_adj_Cons)
  qed
qed

text \<open>Releasing what was just carved out gives the list back.\<close>

lemma free_carved:
  assumes "no_adj (xs @ (sz, True) # ys)"
  shows "free_blk xs sz ys = xs @ (sz, True) # ys"
    and "free_blk xs need ((sz - need - HDR, True) # ys) = xs @ (sz, True) # ys"
proof -
  have "coalesce (sz, True) ys = (sz, True) # ys" "\<not> (xs \<noteq> [] \<and> snd (last xs))"
    using assms by (cases ys; auto simp: no_adj_append no_adj_Cons)+
  then show "free_blk xs sz ys = xs @ (sz, True) # ys"
    "free_blk xs need ((sz - need - HDR, True) # ys) = xs @ (sz, True) # ys"
    by (auto simp: free_blk_def)
qed

lemma heap_init_rep:
  assumes "start \<noteq> 0" and "20 \<le> unat sz" and "unat start + unat sz < 2 ^ 32"
  shows "heap_rep (heap_init start sz h) [(sz - HDR, True)]" "heap_head (heap_init start sz h) = start"
proof -
  have "unat (sz - HDR) = unat sz - 20" using assms(2) by (simp add: unat_sub_no_wrap)
  then have "unat start + nspan [(sz - HDR, True)] < 2 ^ 32" using assms by simp
  then show "heap_rep (heap_init start sz h) [(sz - HDR, True)]"
    using assms(1) by (simp add: heap_rep_def heap_init_def Let_def hdr_is_def)
qed (simp add: heap_init_def Let_def)

text \<open>Everything \<open>kmalloc\<close> does to a heap with no tight block, in one statement.\<close>

lemma kmalloc_alloc_list:
  assumes rep: "heap_rep h bs" and n: "n \<noteq> 0" and room: "roomy (ALIGN8 n) bs"
  shows "case alloc_list (ALIGN8 n) bs of
       None \<Rightarrow> kmalloc n h = Some (0, h)
     | Some (off, bs') \<Rightarrow> \<exists>h'. kmalloc n h = Some (heap_head h + off + HDR, h') \<and> heap_rep h' bs' \<and>
         heap_head h' = heap_head h \<and> keeps (heap_head h) bs (mem h) (mem h')"
proof (cases "alloc_list (ALIGN8 n) bs")
  case None
  then have "kmalloc n h = Some (0, h)" by (intro kmalloc_none [OF rep]) (simp only: alloc_list_None)
  with None show ?thesis by simp
next
  case (Some r)
  obtain off bs' where r: "r = (off, bs')" by fastforce
  from alloc_list_Some [OF Some [unfolded r]] obtain xs sz ys where
    1: "bs = xs @ (sz, True) # ys" "off = span xs" "bs' = xs @ carve sz (ALIGN8 n) @ ys"
      "\<forall>blk \<in> set xs. \<not> fits (ALIGN8 n) blk" "fits (ALIGN8 n) (sz, True)" by blast
  have "unat (ALIGN8 n) + 20 \<le> unat sz" using room roomy_first [OF 1(4,5), of ys] by (simp add: 1(1))
  from kmalloc_rep [OF rep [unfolded 1] n 1(4) this] Some r 1 show ?thesis by simp
qed

text \<open>The bytes handed out by a successful request.\<close>

lemma unat_mid:
  assumes "heap_rep h (xs @ blk # ys)"
  shows "unat (heap_head h + span xs + HDR) = unat (heap_head h) + nspan xs + 20"
proof -
  have "unat (heap_head h + span xs) = unat (heap_head h) + nspan xs"
    using assms by (intro unat_span) (simp add: heap_rep_def)
  then show ?thesis using assms by (subst unat_add_no_wrap) (simp_all add: heap_rep_def)
qed

lemma alloc_list_bytes:
  assumes rep: "heap_rep h bs" and room: "roomy (ALIGN8 n) bs" and n: "unat n + 7 < 2 ^ 32"
    and some: "alloc_list (ALIGN8 n) bs = Some (off, bs')" and p: "p = unat (heap_head h + off + HDR)"
  shows "{p ..< p + unat n} \<inter> used_bytes (unat (heap_head h)) bs = {}"
    "{p ..< p + unat n} \<union> used_bytes (unat (heap_head h)) bs \<subseteq> used_bytes (unat (heap_head h)) bs'"
    "nspan bs' = nspan bs" "no_adj bs \<Longrightarrow> no_adj bs'"
proof -
  let ?s = "unat (heap_head h)" and ?need = "ALIGN8 n"
  from alloc_list_Some [OF some] obtain xs sz ys where
    1: "bs = xs @ (sz, True) # ys" "off = span xs" "bs' = xs @ carve sz ?need @ ys"
      "\<forall>blk \<in> set xs. \<not> fits ?need blk" "fits ?need (sz, True)" by blast
  have rm: "unat ?need + 20 \<le> unat sz" using room roomy_first [OF 1(4,5), of ys] by (simp add: 1(1))
  have pp: "p = ?s + nspan xs + 20" using unat_mid [OF rep [unfolded 1]] by (simp add: p 1)
  have n8: "unat n \<le> unat ?need" by (rule align8_bounds [OF n])
  show "{p ..< p + unat n} \<inter> used_bytes ?s bs = {}"
    using rm n8 by (auto simp: pp 1 used_bytes_append dest!: used_bytes_range)
  show "{p ..< p + unat n} \<union> used_bytes ?s bs \<subseteq> used_bytes ?s bs'"
    using rm n8 by (auto simp: pp 1 used_bytes_append used_carve [OF rm] add.assoc)
  show "nspan bs' = nspan bs" by (simp add: 1 used_carve [OF rm])
  show "no_adj bs \<Longrightarrow> no_adj bs'" by (simp add: 1 no_adj_carve)
qed

section \<open>Runs of the heap\<close>

text \<open>The pointers handed out for the allocated blocks of a list that starts at \<open>b\<close>.\<close>

fun live_ptrs :: "u32 \<Rightarrow> block list \<Rightarrow> u32 set" where
  "live_ptrs b [] = {}"
| "live_ptrs b (blk # bs) = (if snd blk then {} else {b + HDR}) \<union> live_ptrs (b + (HDR + fst blk)) bs"

lemma live_ptrs_append: "live_ptrs b (xs @ ys) = live_ptrs b xs \<union> live_ptrs (b + span xs) ys"
  by (induction xs arbitrary: b) (auto simp: add.assoc)

lemma live_ptrs_range:
  "p \<in> live_ptrs b bs \<Longrightarrow> unat b + nspan bs < 2 ^ 32 \<Longrightarrow> unat b + 20 \<le> unat p \<and> unat p \<le> unat b + nspan bs"
proof (induction bs arbitrary: b)
  case (Cons blk bs)
  have "unat (b + HDR) = unat b + 20" using Cons.prems(2) by (subst unat_add_no_wrap) simp_all
  moreover have "unat (b + (HDR + fst blk)) = unat b + (20 + unat (fst blk))"
    using Cons.prems(2) by (intro unat_next) simp
  ultimately show ?case using Cons by (fastforce split: if_splits)
qed simp

lemma live_ptrs_split:
  "p \<in> live_ptrs b bs \<Longrightarrow> \<exists>xs sz ys. bs = xs @ (sz, False) # ys \<and> p = b + span xs + HDR"
proof (induction bs arbitrary: b)
  case (Cons blk bs)
  show ?case
  proof (cases "\<not> snd blk \<and> p = b + HDR")
    case True
    then show ?thesis by (intro exI [of _ "[]"] exI [of _ "fst blk"] exI [of _ bs]) (cases blk, simp)
  next
    case False
    with Cons.prems have "p \<in> live_ptrs (b + (HDR + fst blk)) bs" by (auto split: if_splits)
    from Cons.IH [OF this] obtain xs sz ys where
      "bs = xs @ (sz, False) # ys" "p = b + (HDR + fst blk) + span xs + HDR" by blast
    then show ?thesis by (intro exI [of _ "blk # xs"] exI [of _ sz] exI [of _ ys]) (simp add: add.assoc)
  qed
qed simp

lemma live_ptrs_coalesce: "live_ptrs b (coalesce (sz, True) ys) = live_ptrs b ((sz, True) # ys)"
  by (induction "(sz, True)" ys arbitrary: sz rule: coalesce.induct) (auto simp: add.assoc)

lemma live_ptrs_free_blk:
  assumes fit: "unat b + nspan (xs @ (sz, False) # ys) < 2 ^ 32"
  shows "live_ptrs b (free_blk xs sz ys) = live_ptrs b (xs @ (sz, False) # ys) - {b + span xs + HDR}"
proof -
  let ?b = "b + span xs"
  obtain sz' zs where cs: "coalesce (sz, True) ys = (sz', True) # zs"
    using coalesce_Cons [of "(sz, True)" ys] by auto
  have cp: "live_ptrs c (coalesce (sz, True) ys) = live_ptrs (c + (HDR + sz)) ys" for c
    by (simp add: live_ptrs_coalesce)
  have "live_ptrs b (free_blk xs sz ys) = live_ptrs b xs \<union> live_ptrs (?b + (HDR + sz)) ys"
  proof (cases xs rule: rev_cases)
    case Nil
    then show ?thesis using cp by (simp add: free_blk_def Let_def)
  next
    case (snoc ws w)
    have "live_ptrs (b + span ws + (HDR + fst w)) ((sz', True) # zs) = live_ptrs (?b + (HDR + sz)) ys"
      using cp [of ?b] cs by (simp add: snoc add.assoc)
    then show ?thesis using snoc cp [of ?b]
      by (auto simp: free_blk_def Let_def cs live_ptrs_append add.assoc)
  qed
  moreover have ub: "unat ?b = unat b + nspan xs" using fit by (intro unat_span) simp
  moreover have "unat (?b + HDR) = unat ?b + 20" using fit ub by (subst unat_add_no_wrap) simp_all
  moreover have "unat (?b + (HDR + sz)) = unat ?b + (20 + unat sz)" using fit ub by (intro unat_next) simp
  ultimately have "?b + HDR \<notin> live_ptrs b xs" "?b + HDR \<notin> live_ptrs (?b + (HDR + sz)) ys"
    using live_ptrs_range [of "?b + HDR" b xs] live_ptrs_range [of "?b + HDR" "?b + (HDR + sz)" ys] fit
    by fastforce+
  with \<open>live_ptrs b (free_blk xs sz ys) = _\<close> show ?thesis by (auto simp: live_ptrs_append)
qed

text \<open>
  A run starts with \<open>heap_init\<close> and calls \<open>kmalloc\<close> and \<open>kfree\<close>; it carries the pointers
  that are allocated. It ends before a request that is served from a block with no room for a
  second header: \<open>kmalloc_tight\<close> shows what that one does.
\<close>

inductive heap_reach :: "u32 \<Rightarrow> u32 \<Rightarrow> kheap \<Rightarrow> u32 set \<Rightarrow> bool" for start sz where
  boot: "heap_reach start sz (heap_init start sz h) {}"
| alloc: "heap_reach start sz h L \<Longrightarrow> \<forall>bs. heap_rep h bs \<longrightarrow> roomy (ALIGN8 n) bs \<Longrightarrow>
    kmalloc n h = Some (p, h') \<Longrightarrow> heap_reach start sz h' (if p = 0 then L else insert p L)"
| free: "heap_reach start sz h L \<Longrightarrow> p \<in> L \<Longrightarrow> kfree p h = Some h' \<Longrightarrow> heap_reach start sz h' (L - {p})"

text \<open>The memory determines the list of blocks.\<close>

lemma seg_unique:
  "seg m p b xs 0 \<Longrightarrow> seg m q b ys 0 \<Longrightarrow> xs \<noteq> [] \<Longrightarrow> ys \<noteq> [] \<Longrightarrow> unat b + nspan xs < 2 ^ 32 \<Longrightarrow>
   unat b + nspan ys < 2 ^ 32 \<Longrightarrow> xs = ys"
proof (induction xs arbitrary: p q b ys)
  case (Cons x xs)
  obtain y zs where ys: "ys = y # zs" using Cons.prems(4) by (cases ys) auto
  have "fst x = fst y" "snd x = snd y"
    using Cons.prems(1,2) by (auto simp: ys hdr_is_def split: if_splits)
  then have xy: "x = y" by (simp add: prod_eq_iff)
  let ?c = "b + (HDR + fst y)"
  have c: "?c \<noteq> 0" using Cons.prems(6) unat_next [of b "fst y"] by (auto simp: ys)
  then have e: "xs = [] \<longleftrightarrow> zs = []" using Cons.prems(1,2) by (auto simp: ys xy hdr_is_def split: if_splits)
  show ?case
  proof (cases "zs = []")
    case False
    have u: "unat ?c = unat b + (20 + unat (fst y))" using Cons.prems(6) by (intro unat_next) (simp add: ys)
    have "xs = zs"
      by (rule Cons.IH [of b ?c b]) (use Cons.prems e False u in \<open>simp_all add: ys xy\<close>)
    with xy ys show ?thesis by simp
  qed (use e xy ys in simp)
qed simp

lemma heap_rep_unique: "heap_rep h bs \<Longrightarrow> heap_rep h bs' \<Longrightarrow> bs' = bs"
  using seg_unique by (fastforce simp: heap_rep_def)

definition heap_ok :: "u32 \<Rightarrow> u32 \<Rightarrow> kheap \<Rightarrow> u32 set \<Rightarrow> block list \<Rightarrow> bool" where
  "heap_ok start sz h L bs \<longleftrightarrow>
     heap_rep h bs \<and> heap_head h = start \<and> no_adj bs \<and> nspan bs = unat sz \<and> L = live_ptrs start bs"

lemma heap_ok_kmalloc:
  assumes ok: "heap_ok start sz h L bs" and room: "roomy (ALIGN8 n) bs"
  shows "\<exists>p h' bs'. kmalloc n h = Some (p, h') \<and> heap_ok start sz h' (if p = 0 then L else insert p L) bs'"
proof (cases "n = 0 \<or> alloc_list (ALIGN8 n) bs = None")
  case True
  moreover have "kmalloc n h = Some (0, h)" if "n \<noteq> 0" "alloc_list (ALIGN8 n) bs = None"
    using kmalloc_alloc_list [of h bs n] ok room that by (simp add: heap_ok_def)
  ultimately have "kmalloc n h = Some (0, h)" by (cases "n = 0") (simp_all add: kmalloc_def)
  with ok show ?thesis by auto
next
  case False
  then obtain off bs' where some: "alloc_list (ALIGN8 n) bs = Some (off, bs')" by auto
  from kmalloc_alloc_list [of h bs n] some False ok room obtain h' where
    h': "kmalloc n h = Some (start + off + HDR, h')" "heap_rep h' bs'" "heap_head h' = start"
    by (auto simp: heap_ok_def)
  from alloc_list_Some [OF some] obtain xs sz' ys where
    1: "bs = xs @ (sz', True) # ys" "off = span xs" "bs' = xs @ carve sz' (ALIGN8 n) @ ys"
      "\<forall>blk \<in> set xs. \<not> fits (ALIGN8 n) blk" "fits (ALIGN8 n) (sz', True)" by blast
  have rm: "unat (ALIGN8 n) + 20 \<le> unat sz'" using room roomy_first [OF 1(4,5), of ys] by (simp add: 1(1))
  have "unat (start + off + HDR) = unat start + nspan xs + 20"
    using unat_mid [of h xs "(sz', True)" ys] ok 1 by (simp add: heap_ok_def)
  then have p0: "start + off + HDR \<noteq> 0" by (metis add_is_0 unsigned_0 numeral_neq_zero)
  have "live_ptrs (start + span xs) (carve sz' (ALIGN8 n) @ ys) = insert (start + off + HDR) (live_ptrs (start + span xs + (HDR + sz')) ys)"
    by (simp add: carve_def 1 algebra_simps)
  then have "live_ptrs start bs' = insert (start + off + HDR) (live_ptrs start bs)"
    by (simp add: 1 live_ptrs_append)
  moreover have "nspan bs' = nspan bs" "no_adj bs'"
    using ok by (simp_all add: 1 used_carve [OF rm] heap_ok_def no_adj_carve)
  ultimately show ?thesis using h' ok p0 by (auto simp: heap_ok_def)
qed

lemma heap_ok_kfree:
  assumes ok: "heap_ok start sz h L bs" and p: "p \<in> L"
  shows "\<exists>h' bs'. kfree p h = Some h' \<and> heap_ok start sz h' (L - {p}) bs'"
proof -
  from live_ptrs_split [of p start bs] ok p obtain xs sz' ys where
    1: "bs = xs @ (sz', False) # ys" "p = start + span xs + HDR" by (auto simp: heap_ok_def)
  have rep: "heap_rep h (xs @ (sz', False) # ys)" and hd: "heap_head h = start"
    and na: "no_adj (xs @ (sz', False) # ys)" and L: "L = live_ptrs start (xs @ (sz', False) # ys)"
    and span: "nspan (xs @ (sz', False) # ys) = unat sz"
    using ok 1 by (simp_all add: heap_ok_def)
  have "unat start + nspan (xs @ (sz', False) # ys) < 2 ^ 32" using rep hd by (simp add: heap_rep_def)
  from kfree_rep [OF rep refl] no_adj_free_blk [OF na] live_ptrs_free_blk [OF this] hd L span 1
  show ?thesis by (auto simp: heap_ok_def)
qed

lemma heap_reach_ok:
  assumes "heap_reach start sz h L" and "start \<noteq> 0" and "20 \<le> unat sz" and "unat start + unat sz < 2 ^ 32"
  shows "\<exists>bs. heap_ok start sz h L bs"
  using assms(1)
proof (induction rule: heap_reach.induct)
  case (boot h)
  have "unat (sz - HDR) = unat sz - 20" using assms(3) by (simp add: unat_sub_no_wrap)
  with heap_init_rep [OF assms(2-4), of h] assms(3) show ?case
    by (intro exI [of _ "[(sz - HDR, True)]"]) (simp add: heap_ok_def)
next
  case (alloc h L n p h')
  then obtain bs where "heap_ok start sz h L bs" by blast
  with heap_ok_kmalloc [OF this, of n] alloc show ?case by (fastforce simp: heap_ok_def)
next
  case (free h L p h')
  then obtain bs where "heap_ok start sz h L bs" by blast
  with heap_ok_kfree [OF this free(2)] free show ?case by auto
qed

section \<open>What goes wrong outside those bounds\<close>

text \<open>
  A request served from a block that fits it but leaves no room for a header. The leftover wraps
  below zero, the split is taken, and a header is written right behind the bytes handed out, over
  the next block's: it says that what follows is free and almost 4 GiB long.
\<close>

lemma tight_wraps:
  assumes "need \<le> sz" and "unat sz < unat need + 20"
  shows "unat (sz - need - HDR) = 2 ^ 32 + unat sz - unat need - 20" "\<not> sz - need - HDR \<le> HDR + 8"
proof -
  have u: "unat (sz - need) = unat sz - unat need" using assms(1) by (intro unat_sub_no_wrap) (simp add: word_le_nat_alt)
  have le: "unat need \<le> unat sz" using assms(1) by (simp add: word_le_nat_alt)
  have "unat (sz - need - HDR) = 2 ^ 32 + unat (sz - need) - unat HDR"
    by (rule unat_word_diff) (use u assms(2) in simp)
  then show w: "unat (sz - need - HDR) = 2 ^ 32 + unat sz - unat need - 20" using u le by simp
  then show "\<not> sz - need - HDR \<le> HDR + 8" using le by (simp add: word_le_nat_alt HDR_def)
qed

lemma kmalloc_tight:
  assumes rep: "heap_rep h (xs @ (sz, True) # ys)" and n: "n \<noteq> 0"
    and first: "\<forall>blk \<in> set xs. \<not> fits (ALIGN8 n) blk" and fit: "fits (ALIGN8 n) (sz, True)"
    and tight: "unat sz < unat (ALIGN8 n) + 20" and p: "p = heap_head h + span xs + HDR" and q: "q = p + ALIGN8 n"
    and top: "unat p + unat (ALIGN8 n) + 20 \<le> 2 ^ 32"
  shows "\<exists>h'. kmalloc n h = Some (p, h') \<and> hdr_free (mem h') q = 1 \<and>
    unat (hdr_size (mem h') q) = 2 ^ 32 + unat sz - unat (ALIGN8 n) - 20"
proof -
  let ?m = "mem h" and ?need = "ALIGN8 n"
  define b where "b = heap_head h + span xs"
  define c where "c = b + (HDR + sz)"
  define left where "left = sz - ?need - HDR"
  have seg0: "seg ?m 0 (heap_head h) (xs @ (sz, True) # ys) 0"
    and f: "unat (heap_head h) + nspan (xs @ (sz, True) # ys) \<le> 2 ^ 32"
    using rep by (simp_all add: heap_rep_def)
  note B = mid_addrs [OF f b_def, simplified, folded c_def]
  have sz: "?need \<le> sz" using fit by (simp add: fits_def)
  note t = tight_wraps [OF sz tight, folded left_def]
  have up: "unat p = unat b + 20" using unat_mid [OF rep] B(1) by (simp add: p)
  have qb: "q = b + (HDR + ?need)" by (simp add: q p b_def)
  have uq: "unat q = unat b + 20 + unat ?need" using top up by (simp add: q unat_add_no_wrap)
  have bq: "hdr_sep b q" "hdr_sep q b" using B(2) uq top up by (auto simp: hdr_sep_def)
  let ?nx = "if ys = [] then 0 else c"
  have hb: "hdr_next ?m b = ?nx" "hdr_size ?m b = sz"
    using hdr_at [OF seg0 b_def] by (simp_all add: hdr_is_def c_def split: if_splits)
  define m1 where "m1 = set_prev q b (set_next q ?nx (set_free q 1 (set_size q left (set_magic q HEAP_MAGIC ?m))))"
  have m1: "hdr_free m1 q = 1" "hdr_size m1 q = left" "hdr_next m1 b = ?nx" using bq hb by (simp_all add: m1_def)
  define m2 where "m2 = (if hdr_next m1 b \<noteq> 0 then set_prev (hdr_next m1 b) q m1 else m1)"
  have m2: "hdr_free m2 q = 1 \<and> hdr_size m2 q = left"
  proof (cases "ys = []")
    case True
    then show ?thesis using m1 by (simp add: m2_def)
  next
    case False
    have c: "unat c = unat b + (20 + unat sz)" "unat c + 20 \<le> 2 ^ 32" using B(3,4) [OF False] nspan_pos [OF False] by simp_all
    have qc: "unat q \<le> unat c" using uq c(1) sz by (simp add: word_le_nat_alt)
    have u: "unat (c + 16) = unat c + 16" "unat (q + 4) = unat q + 4" "unat (q + 8) = unat q + 8"
      using unat_field [OF c(2)] unat_field [of q] uq top up by simp_all
    have "apart (c + 16) (q + 8)" "apart (c + 16) (q + 4)"
      by (rule apart_nat(2), use u qc c(2) in simp, use u c(2) in simp)+
    then have "hdr_free (set_prev c q m1) q = hdr_free m1 q" "hdr_size (set_prev c q m1) q = hdr_size m1 q"
      by (simp_all add: hdr_free_def hdr_size_def set_prev_def)
    moreover have "c \<noteq> 0" using c(1) by (metis add_is_0 unsigned_0 numeral_neq_zero)
    ultimately show ?thesis using m1 False by (simp add: m2_def)
  qed
  have "split_block b ?need ?m = set_size b ?need (set_next b q m2)"
    using t(2) bq hb unfolding split_block_def
    by (simp add: Let_def m1_def m2_def left_def qb add.assoc)
  then have e: "take_block ?need b ?m = set_magic b HEAP_MAGIC (set_free b 0 (set_size b ?need (set_next b q m2)))"
    by (simp add: take_block_def)
  have "hdr_free (take_block ?need b ?m) q = 1" "hdr_size (take_block ?need b ?m) q = left"
    using m2 bq by (simp_all add: e)
  with kmalloc_take [OF rep n first fit b_def] t(1) show ?thesis by (simp add: p b_def)
qed

text \<open>For an exact fit the header that is overwritten is that of the next block, which may be in use.\<close>

lemma kmalloc_exact_fit_frees_neighbour:
  assumes rep: "heap_rep h (xs @ (sz, True) # (sz2, False) # ys)" and n: "n \<noteq> 0"
    and first: "\<forall>blk \<in> set xs. \<not> fits (ALIGN8 n) blk" and exact: "ALIGN8 n = sz"
    and c: "c = heap_head h + span xs + (HDR + sz)"
  shows "\<exists>h'. kmalloc n h = Some (heap_head h + span xs + HDR, h') \<and>
    hdr_free (mem h') c = 1 \<and> unat (hdr_size (mem h') c) = 2 ^ 32 - 20"
proof -
  have "unat (heap_head h + span xs + HDR) + unat (ALIGN8 n) + 20 \<le> 2 ^ 32"
    using unat_mid [OF rep] rep exact by (simp add: heap_rep_def)
  from kmalloc_tight [OF rep n first _ _ refl refl this] exact show ?thesis by (simp add: fits_def c add.assoc)
qed

text \<open>A request in the last seven bytes of the range wraps to size 0 and succeeds.\<close>

lemma align8_wraps: "ALIGN8 0xFFFFFFFF = 0"
  by (simp add: ALIGN8_def)

section \<open>Properties\<close>

text \<open>
  C1. What a request of \<open>n\<close> bytes, from 1 to 8 less than 4 GiB, does on any well-formed heap, in three cases. If no block fits, it returns
  NULL and leaves the heap untouched. If the first block that fits has room for another header,
  the \<open>n\<close> bytes from the pointer returned were in use by nobody, are now in use together with all
  those that were, the heap is well formed again and covers the same region, and not one byte of
  the blocks already allocated has changed. If the first block that fits has no such room, the
  request is served too, but the bytes right behind it are now the header of a free block of
  nearly 4 GiB: the heap is broken. In particular the search loop always returns.
\<close>

theorem kmalloc_fresh_memory:
  assumes "heap_rep h bs" and "n \<noteq> 0" and "unat n + 7 < 2 ^ 32"
  shows "\<exists>p h' bs'. kmalloc n h = Some (p, h') \<and>
    (case find (fits (ALIGN8 n)) bs of
       None \<Rightarrow> p = 0 \<and> h' = h
     | Some (sz, _) \<Rightarrow> p \<noteq> 0 \<and>
         (if unat (ALIGN8 n) + 20 \<le> unat sz
          then heap_rep h' bs' \<and> heap_head h' = heap_head h \<and> nspan bs' = nspan bs \<and>
            {unat p ..< unat p + unat n} \<inter> used_bytes (unat (heap_head h)) bs = {} \<and>
            {unat p ..< unat p + unat n} \<union> used_bytes (unat (heap_head h)) bs \<subseteq> used_bytes (unat (heap_head h)) bs' \<and>
            (\<forall>x. unat x \<in> used_bytes (unat (heap_head h)) bs \<longrightarrow> mem h' x = mem h x)
          else unat p + unat (ALIGN8 n) + 20 \<le> 2 ^ 32 \<longrightarrow>
            hdr_free (mem h') (p + ALIGN8 n) = 1 \<and> 2 ^ 32 - 20 \<le> unat (hdr_size (mem h') (p + ALIGN8 n))))"
proof (cases "alloc_list (ALIGN8 n) bs")
  case None
  then have "\<forall>blk \<in> set bs. \<not> fits (ALIGN8 n) blk" by (simp only: alloc_list_None)
  moreover from this have "find (fits (ALIGN8 n)) bs = None" by (simp add: find_None_iff)
  ultimately show ?thesis using kmalloc_none [OF assms(1)] by simp
next
  case (Some r)
  obtain off bs' where r: "r = (off, bs')" by fastforce
  from alloc_list_Some [OF Some [unfolded r]] obtain xs sz ys where
    1: "bs = xs @ (sz, True) # ys" "off = span xs" "\<forall>blk \<in> set xs. \<not> fits (ALIGN8 n) blk" "fits (ALIGN8 n) (sz, True)" by blast
  have find: "find (fits (ALIGN8 n)) bs = Some (sz, True)" unfolding 1(1) by (rule find_first [OF 1(3,4)])
  have p0: "heap_head h + off + HDR \<noteq> 0"
    using unat_mid [OF assms(1) [unfolded 1(1)]] by (metis 1(2) add_is_0 unsigned_0 numeral_neq_zero)
  show ?thesis
  proof (cases "unat (ALIGN8 n) + 20 \<le> unat sz")
    case True
    then have room: "roomy (ALIGN8 n) bs" by (simp add: roomy_def find)
    from kmalloc_alloc_list [OF assms(1,2) room] Some r obtain h' where
      h': "kmalloc n h = Some (heap_head h + off + HDR, h')" "heap_rep h' bs'" "heap_head h' = heap_head h"
        "keeps (heap_head h) bs (mem h) (mem h')" by auto
    note b = alloc_list_bytes [OF assms(1) room assms(3) Some [unfolded r] refl]
    from h' b(1-3) p0 True show ?thesis
      by (intro exI [of _ "heap_head h + off + HDR"] exI [of _ h'] exI [of _ bs']) (simp add: keeps_def find)
  next
    case False
    let ?p = "heap_head h + off + HDR"
    obtain h' where h': "kmalloc n h = Some (?p, h')" using kmalloc_take [OF assms(1) [unfolded 1(1)] assms(2) 1(3,4) refl] 1(2) by auto
    have le: "unat (ALIGN8 n) \<le> unat sz" using 1(4) by (simp add: fits_def word_le_nat_alt)
    have "hdr_free (mem h') (?p + ALIGN8 n) = 1 \<and> 2 ^ 32 - 20 \<le> unat (hdr_size (mem h') (?p + ALIGN8 n))"
      if top: "unat ?p + unat (ALIGN8 n) + 20 \<le> 2 ^ 32"
      using kmalloc_tight [OF assms(1) [unfolded 1(1)] assms(2) 1(3,4) _ _ refl top] False h' 1(2) le by auto
    with h' p0 False show ?thesis by (intro exI [of _ ?p] exI [of _ h']) (simp add: find)
  qed
qed

lemma kmalloc_fresh_memory_witness:
  "\<exists>p h'. kmalloc 16 (heap_init 4096 4096 \<lparr>mem = \<lambda>_. 0, heap_head = 0\<rparr>) = Some (p, h') \<and> p \<noteq> 0"
proof -
  have rep: "heap_rep (heap_init 4096 4096 \<lparr>mem = \<lambda>_. 0, heap_head = 0\<rparr>) [(4076, True)]"
    using heap_init_rep(1) [of 4096 4096] by (simp add: HDR_def)
  have "ALIGN8 16 = 16" by (simp add: ALIGN8_def)
  then have "find (fits (ALIGN8 16)) [(4076, True)] = Some (4076, True)" by (simp add: fits_def)
  with kmalloc_fresh_memory [OF rep, of 16] show ?thesis by (auto simp: ALIGN8_def)
qed

text \<open>
  C16. Release undoes allocation. On a well-formed heap with no two free neighbours, if the first block that
  fits the request has room for another header besides, then freeing the pointer the request
  returned gives back the very same list of blocks, sizes and flags, with every byte of the blocks
  allocated before unchanged: the coalescing reverses the split exactly.
\<close>

theorem kfree_undoes_kmalloc:
  assumes "heap_rep h bs" and "no_adj bs" and "n \<noteq> 0" and "roomy (ALIGN8 n) bs"
    and "\<exists>blk \<in> set bs. fits (ALIGN8 n) blk"
  shows "\<exists>p h1 h2. kmalloc n h = Some (p, h1) \<and> kfree p h1 = Some h2 \<and> heap_rep h2 bs \<and>
    heap_head h2 = heap_head h \<and>
    (\<forall>x. unat x \<in> used_bytes (unat (heap_head h)) bs \<longrightarrow> mem h2 x = mem h x)"
proof -
  have "alloc_list (ALIGN8 n) bs \<noteq> None" using assms(5) by (simp add: alloc_list_None)
  then obtain off bs' where some: "alloc_list (ALIGN8 n) bs = Some (off, bs')" by auto
  from kmalloc_alloc_list [OF assms(1,3,4)] some obtain h1 where
    h1: "kmalloc n h = Some (heap_head h + off + HDR, h1)" "heap_rep h1 bs'" "heap_head h1 = heap_head h"
      "keeps (heap_head h) bs (mem h) (mem h1)" by auto
  from alloc_list_Some [OF some] obtain xs sz ys where
    1: "bs = xs @ (sz, True) # ys" "off = span xs" "bs' = xs @ carve sz (ALIGN8 n) @ ys"
      "\<forall>blk \<in> set xs. \<not> fits (ALIGN8 n) blk" "fits (ALIGN8 n) (sz, True)" by blast
  have rm: "unat (ALIGN8 n) + 20 \<le> unat sz" using assms(4) roomy_first [OF 1(4,5), of ys] by (simp add: 1(1))
  obtain sz' zs where cz: "carve sz (ALIGN8 n) @ ys = (sz', False) # zs"
    and fb: "free_blk xs sz' zs = bs"
    using free_carved [OF assms(2) [unfolded 1]] 1 by (fastforce simp: carve_def split: if_splits)
  from h1(2) 1 cz have rep1: "heap_rep h1 (xs @ (sz', False) # zs)" by simp
  from kfree_rep [OF rep1 refl] fb h1(3) obtain h2 where h2:
    "kfree (heap_head h + span xs + HDR) h1 = Some h2" "heap_rep h2 bs" "heap_head h2 = heap_head h"
    "used_bytes (unat (heap_head h)) bs = used_bytes (unat (heap_head h)) (xs @ (sz', True) # zs)"
    "keeps (heap_head h) (xs @ (sz', True) # zs) (mem h1) (mem h2)" by auto
  with h1 1 show ?thesis by (fastforce simp: keeps_def)
qed

lemma kfree_undoes_kmalloc_witness:
  "\<exists>p h1 h2. kmalloc 16 (heap_init 4096 4096 \<lparr>mem = \<lambda>_. 0, heap_head = 0\<rparr>) = Some (p, h1) \<and>
     kfree p h1 = Some h2 \<and> heap_rep h2 [(4076, True)]"
proof -
  have rep: "heap_rep (heap_init 4096 4096 \<lparr>mem = \<lambda>_. 0, heap_head = 0\<rparr>) [(4076, True)]"
    using heap_init_rep(1) [of 4096 4096] by (simp add: HDR_def)
  have "ALIGN8 16 = 16" by (simp add: ALIGN8_def)
  then have "roomy (ALIGN8 16) [(4076, True)]" "fits (ALIGN8 16) (4076, True)"
    by (simp_all add: roomy_def fits_def)
  with kfree_undoes_kmalloc [OF rep, of 16] show ?thesis by auto
qed

text \<open>
  C17. The heap stays whole until a request is served too tightly. Every heap reached from \<open>heap_init\<close> by releases
  of allocated pointers and by requests whose first fitting block, if any, has room for another
  header is a list of blocks that tiles the region given to \<open>heap_init\<close>, with no two free
  neighbours, whose allocated blocks are exactly the pointers handed out and not yet released.
  Releases return on it, and so does every request, the tight ones included, which end such a run.
\<close>

theorem heap_reachable_tiled:
  assumes "heap_reach start sz h L" and "start \<noteq> 0" and "20 \<le> unat sz" and "unat start + unat sz < 2 ^ 32"
  shows "\<exists>bs. heap_rep h bs \<and> heap_head h = start \<and> no_adj bs \<and> nspan bs = unat sz \<and>
    L = live_ptrs start bs \<and> (\<forall>n. kmalloc n h \<noteq> None) \<and> (\<forall>p \<in> L. kfree p h \<noteq> None)"
proof -
  obtain bs where ok: "heap_ok start sz h L bs" using heap_reach_ok [OF assms] by blast
  moreover have "kmalloc n h \<noteq> None" for n
  proof (cases "n = 0 \<or> alloc_list (ALIGN8 n) bs = None")
    case True
    then show ?thesis using kmalloc_none [of h bs n] ok by (auto simp: kmalloc_def heap_ok_def alloc_list_None)
  next
    case False
    then obtain off bs' where "alloc_list (ALIGN8 n) bs = Some (off, bs')" by auto
    from alloc_list_Some [OF this] obtain xs sz' ys where
      1: "bs = xs @ (sz', True) # ys" "\<forall>blk \<in> set xs. \<not> fits (ALIGN8 n) blk" "fits (ALIGN8 n) (sz', True)" by blast
    have "heap_rep h (xs @ (sz', True) # ys)" using ok 1(1) by (simp add: heap_ok_def)
    from kmalloc_take [OF this _ 1(2,3) refl] False show ?thesis by simp
  qed
  moreover have "kfree p h \<noteq> None" if "p \<in> L" for p
    using heap_ok_kfree [OF ok that] by auto
  ultimately show ?thesis unfolding heap_ok_def by blast
qed

text \<open>Two requests, and the first of them released.\<close>

lemma heap_reachable_tiled_witness:
  "\<exists>p q h bs. p \<noteq> 0 \<and> q \<noteq> 0 \<and> p \<noteq> q \<and> heap_reach 4096 4096 h {q} \<and> heap_rep h bs \<and> no_adj bs \<and> nspan bs = 4096 \<and> live_ptrs 4096 bs = {q}"
proof -
  let ?h0 = "heap_init 4096 4096 \<lparr>mem = \<lambda>_. 0, heap_head = 0\<rparr>"
  have rep0: "heap_rep ?h0 [(4076, True)]" "heap_head ?h0 = 4096" using heap_init_rep [of 4096 4096] by (simp_all add: HDR_def)
  have a: "ALIGN8 16 = 16" "ALIGN8 24 = 24" by (simp_all add: ALIGN8_def)
  have r0: "heap_reach 4096 4096 ?h0 {}" by (rule heap_reach.boot)
  have ok0: "heap_ok 4096 4096 ?h0 {} [(4076, True)]" using rep0 by (simp add: heap_ok_def)
  have "roomy (ALIGN8 16) [(4076, True)]" by (simp add: roomy_def a fits_def)
  from kmalloc_alloc_list [OF rep0(1) _ this] obtain h1 where
    k1: "kmalloc 16 ?h0 = Some (4116, h1)" "heap_rep h1 [(16, False), (4040, True)]" "heap_head h1 = 4096"
    by (auto simp: a fits_def carve_def HDR_def rep0(2))
  have "roomy (ALIGN8 24) [(16, False), (4040, True)]" by (simp add: roomy_def a fits_def)
  from kmalloc_alloc_list [OF k1(2) _ this] obtain h2 where
    k2: "kmalloc 24 h1 = Some (4152, h2)" "heap_rep h2 [(16, False), (24, False), (3996, True)]" "heap_head h2 = 4096"
    by (auto simp: a fits_def carve_def HDR_def k1(3))
  have r1: "heap_reach 4096 4096 h1 {4116}"
    using heap_reach.alloc [OF r0 _ k1(1)] heap_rep_unique [OF rep0(1)] \<open>roomy (ALIGN8 16) _\<close> by fastforce
  have r2: "heap_reach 4096 4096 h2 {4152, 4116}"
    using heap_reach.alloc [OF r1 _ k2(1)] heap_rep_unique [OF k1(2)] \<open>roomy (ALIGN8 24) _\<close> by fastforce
  obtain h where k: "kfree 4116 h2 = Some h" using heap_reachable_tiled [OF r2] by auto
  have r3: "heap_reach 4096 4096 h {4152}" using heap_reach.free [OF r2 _ k] by (simp add: insert_Diff_if)
  from heap_reachable_tiled [OF r3] obtain bs where "heap_rep h bs" "no_adj bs" "nspan bs = 4096" "{4152} = live_ptrs 4096 bs" by auto
  with r3 show ?thesis by (intro exI [of _ 4116] exI [of _ 4152] exI [of _ h] exI [of _ bs]) simp
qed

end
