(* ===== verification/Mm_Paging.thy ===== *)
theory Mm_Paging
  imports Mm_Pmm Mem_Bytes
begin

text \<open>
  Two-level paging, \<^verbatim>\<open>kernel/mm/paging.c\<close>. Directories and tables are pages of 1024 32-bit
  entries in the byte memory of \<^verbatim>\<open>Mem_Bytes\<close>; frames for new ones come from the frame allocator
  of \<^verbatim>\<open>Mm_Pmm\<close>. The addresses the linker gives the static tables are a parameter, as are the
  values the control registers hold; the pages invalidated in the TLB are recorded in order. Tables are
  read and written at their physical addresses, also when paging is on; the code then reaches
  only those in the pages that are mapped to themselves.
\<close>

section \<open>Constants and state\<close>

definition PAGES_PER_TABLE :: nat where "PAGES_PER_TABLE = 1024"
definition TABLES_PER_DIR :: nat where "TABLES_PER_DIR = 1024"
definition PAGE_PRESENT :: u32 where "PAGE_PRESENT = 1"
definition PAGE_WRITE :: u32 where "PAGE_WRITE = 2"
definition PAGE_USER :: u32 where "PAGE_USER = 4"
definition KERNEL_VIRT_BASE :: u32 where "KERNEL_VIRT_BASE = 0xC0000000"

lemmas paging_consts = PAGES_PER_TABLE_def TABLES_PER_DIR_def PAGE_PRESENT_def PAGE_WRITE_def
  PAGE_USER_def KERNEL_VIRT_BASE_def

text \<open>Where the loaded kernel keeps its static, page-aligned tables.\<close>

record paging_image =
  kernel_dir :: u32
  table0 :: u32
  table1 :: u32
  high_table0 :: u32
  high_table1 :: u32

record paging =
  pmem :: mem
  frames :: pmm
  cr3 :: u32
  paging_on :: bool
  invalidated :: "u32 list"

definition get_entry :: "mem \<Rightarrow> u32 \<Rightarrow> nat \<Rightarrow> u32" where
  "get_entry m t i = load32 m (t + 4 * of_nat i)"

definition set_entry :: "u32 \<Rightarrow> nat \<Rightarrow> u32 \<Rightarrow> mem \<Rightarrow> mem" where
  "set_entry t i v m = store32 m (t + 4 * of_nat i) v"

text \<open>The idioms \<^verbatim>\<open>e & ~0xFFFu\<close> and \<^verbatim>\<open>v & 0xFFF\<close>: the frame an entry names, and the offset in a page.\<close>

definition frame_of :: "u32 \<Rightarrow> u32" where "frame_of e = e AND NOT 0xFFF"
definition page_off :: "u32 \<Rightarrow> u32" where "page_off v = v AND 0xFFF"

section \<open>Operations\<close>

definition paging_invalidate :: "u32 \<Rightarrow> paging \<Rightarrow> paging" where
  "paging_invalidate virt s = s\<lparr>invalidated := invalidated s @ [virt]\<rparr>"

definition paging_init :: "paging_image \<Rightarrow> paging \<Rightarrow> paging" where
  "paging_init k s =
     (let m = for_loop 0 PAGES_PER_TABLE
                (\<lambda>i m. set_entry (high_table1 k) i 0 (set_entry (high_table0 k) i 0
                         (set_entry (table1 k) i 0 (set_entry (table0 k) i 0 m)))) (pmem s);
          m = for_loop 0 TABLES_PER_DIR (\<lambda>i. set_entry (kernel_dir k) i 0) m;
          m = for_loop 0 PAGES_PER_TABLE
                (\<lambda>i. set_entry (table0 k) i ((of_nat i * PAGE_SIZE) OR PAGE_PRESENT OR PAGE_WRITE)) m;
          m = for_loop 0 PAGES_PER_TABLE
                (\<lambda>i. set_entry (table1 k) i ((0x400000 + of_nat i * PAGE_SIZE) OR PAGE_PRESENT OR PAGE_WRITE)) m;
          m = for_loop 0 PAGES_PER_TABLE
                (\<lambda>i m. set_entry (high_table1 k) i ((0x400000 + of_nat i * PAGE_SIZE) OR PAGE_PRESENT OR PAGE_WRITE)
                         (set_entry (high_table0 k) i ((of_nat i * PAGE_SIZE) OR PAGE_PRESENT OR PAGE_WRITE) m)) m;
          m = set_entry (kernel_dir k) 0 (table0 k OR PAGE_PRESENT OR PAGE_WRITE) m;
          m = set_entry (kernel_dir k) 1 (table1 k OR PAGE_PRESENT OR PAGE_WRITE) m;
          kb = unat (drop_bit 22 KERNEL_VIRT_BASE);
          m = set_entry (kernel_dir k) kb (high_table0 k OR PAGE_PRESENT OR PAGE_WRITE) m;
          m = set_entry (kernel_dir k) (kb + 1) (high_table1 k OR PAGE_PRESENT OR PAGE_WRITE) m
      in s\<lparr>pmem := m, cr3 := kernel_dir k, paging_on := True\<rparr>)"

definition paging_kernel_directory :: "paging_image \<Rightarrow> u32" where
  "paging_kernel_directory k = kernel_dir k"

definition paging_switch_directory :: "u32 \<Rightarrow> paging \<Rightarrow> paging" where
  "paging_switch_directory dir s = s\<lparr>cr3 := dir\<rparr>"

definition alloc_table :: "paging \<Rightarrow> u32 \<times> paging" where
  "alloc_table s =
     (case pmm_alloc (frames s) of (t, f) \<Rightarrow>
        (let s = s\<lparr>frames := f\<rparr>
         in if t = 0 then (0, s)
            else (t, s\<lparr>pmem := for_loop 0 PAGES_PER_TABLE (\<lambda>i. set_entry t i 0) (pmem s)\<rparr>)))"

definition paging_create_directory :: "paging_image \<Rightarrow> paging \<Rightarrow> u32 \<times> paging" where
  "paging_create_directory k s =
     (case pmm_alloc (frames s) of (dir, f) \<Rightarrow>
        (let s = s\<lparr>frames := f\<rparr>
         in if dir = 0 then (0, s)
            else
              (let kb = unat (drop_bit 22 KERNEL_VIRT_BASE);
                   m = for_loop 0 kb (\<lambda>i. set_entry dir i 0) (pmem s);
                   m = for_loop kb TABLES_PER_DIR (\<lambda>i m. set_entry dir i (get_entry m (kernel_dir k) i) m) m
               in (dir, s\<lparr>pmem := m\<rparr>))))"

definition paging_destroy_directory :: "paging_image \<Rightarrow> u32 \<Rightarrow> paging \<Rightarrow> paging" where
  "paging_destroy_directory k dir s =
     (if dir = 0 \<or> dir = kernel_dir k then s
      else
        (let m = pmem s;
             f = for_loop 0 (unat (drop_bit 22 KERNEL_VIRT_BASE))
                   (\<lambda>i f.
                      if get_entry m dir i AND PAGE_PRESENT = 0 then f
                      else
                        (let tbl = frame_of (get_entry m dir i);
                             f = for_loop 0 PAGES_PER_TABLE
                                   (\<lambda>j f. if get_entry m tbl j AND PAGE_PRESENT \<noteq> 0
                                          then pmm_free (frame_of (get_entry m tbl j)) f else f) f
                         in pmm_free tbl f)) (frames s)
         in s\<lparr>frames := pmm_free dir f\<rparr>))"

definition dir_idx :: "u32 \<Rightarrow> nat" where "dir_idx virt = unat (drop_bit 22 virt)"
definition table_idx :: "u32 \<Rightarrow> nat" where "table_idx virt = unat (drop_bit 12 virt AND 0x3FF)"

definition paging_map_page :: "u32 \<Rightarrow> u32 \<Rightarrow> u32 \<Rightarrow> u32 \<Rightarrow> paging \<Rightarrow> paging" where
  "paging_map_page dir virt phys_addr flags s =
     (let put = (\<lambda>tbl s. paging_invalidate virt
            (s\<lparr>pmem := set_entry tbl (table_idx virt)
                  (frame_of phys_addr OR (flags OR PAGE_PRESENT)) (pmem s)\<rparr>))
      in if get_entry (pmem s) dir (dir_idx virt) AND PAGE_PRESENT \<noteq> 0
         then put (frame_of (get_entry (pmem s) dir (dir_idx virt))) s
         else
           (case alloc_table s of (tbl, s) \<Rightarrow>
              if tbl = 0 then s
              else put tbl (s\<lparr>pmem := set_entry dir (dir_idx virt)
                     (tbl OR PAGE_PRESENT OR PAGE_WRITE OR (flags AND PAGE_USER)) (pmem s)\<rparr>)))"

definition paging_unmap_page :: "u32 \<Rightarrow> u32 \<Rightarrow> paging \<Rightarrow> paging" where
  "paging_unmap_page dir virt s =
     (if get_entry (pmem s) dir (dir_idx virt) AND PAGE_PRESENT = 0 then s
      else
        (let tbl = frame_of (get_entry (pmem s) dir (dir_idx virt))
         in paging_invalidate virt (s\<lparr>pmem := set_entry tbl (table_idx virt) 0 (pmem s)\<rparr>)))"

definition paging_virt_to_phys :: "mem \<Rightarrow> u32 \<Rightarrow> u32 \<Rightarrow> u32" where
  "paging_virt_to_phys m dir virt =
     (if get_entry m dir (dir_idx virt) AND PAGE_PRESENT = 0 then 0
      else
        (let tbl = frame_of (get_entry m dir (dir_idx virt))
         in if get_entry m tbl (table_idx virt) AND PAGE_PRESENT = 0 then 0
            else frame_of (get_entry m tbl (table_idx virt)) OR page_off virt))"

section \<open>Entries of pages\<close>

definition page_aligned :: "u32 \<Rightarrow> bool" where "page_aligned t \<longleftrightarrow> page_off t = 0"

lemma page_off_take_bit: "page_off v = take_bit 12 v"
  by (simp add: page_off_def take_bit_eq_mask mask_numeral)

lemma unat_page_off: "unat (page_off v) = unat v mod 4096"
proof -
  have "unat (page_off v) = take_bit 12 (unat v)" unfolding page_off_take_bit by (rule unsigned_take_bit_eq)
  then show ?thesis unfolding take_bit_eq_mod by simp
qed

lemma page_aligned_nat: "page_aligned t \<longleftrightarrow> unat t mod 4096 = 0"
  unfolding page_aligned_def unat_page_off [symmetric] by (simp add: unat_0_iff)

lemma page_fits: "page_aligned t \<Longrightarrow> unat t + 4096 \<le> 2 ^ 32"
proof -
  assume "page_aligned t"
  then obtain q where q: "unat t = 4096 * q" unfolding page_aligned_nat by (metis mod_0_imp_dvd dvdE)
  moreover have "unat t < 2 ^ 32" by simp
  ultimately have "q < 2 ^ 20" by simp
  with q show ?thesis by simp
qed

lemma frame_of_bit: "bit (frame_of e) n \<longleftrightarrow> bit e n \<and> 12 \<le> n"
proof -
  have "frame_of e = e AND NOT (mask 12)" by (simp add: frame_of_def mask_numeral)
  then show ?thesis by (auto simp only: bit_simps not_less dest: bit_imp_possible_bit)
qed

lemma page_off_bit: "bit (page_off e) n \<longleftrightarrow> bit e n \<and> n < 12"
  by (auto simp: page_off_take_bit bit_simps)

lemma frame_plus_off: "frame_of e OR page_off e = e"
  by (rule bit_word_eqI) (auto simp: bit_simps frame_of_bit page_off_bit)

lemma frame_off_sum: "page_aligned a \<Longrightarrow> a OR page_off v = a + page_off v"
proof -
  assume "page_aligned a"
  then have "\<not> (bit a n \<and> n < 12)" for n
    unfolding page_aligned_def using page_off_bit [of a n] by simp
  then have "a AND page_off v = 0" by (intro bit_word_eqI) (auto simp: bit_simps page_off_bit)
  then show ?thesis by (rule disjunctive_add_eq_or [symmetric])
qed

lemma page_aligned_frame_of [simp]: "page_aligned (frame_of e)"
  unfolding page_aligned_def by (rule bit_word_eqI) (auto simp: frame_of_bit page_off_bit)

lemma frame_of_aligned: "page_aligned t \<Longrightarrow> frame_of t = t"
  using frame_plus_off [of t] by (simp add: page_aligned_def)

lemma frame_of_or: "frame_of (a OR b) = frame_of a OR frame_of b"
  by (rule bit_word_eqI) (auto simp: bit_simps frame_of_bit)

lemma frame_of_and: "frame_of (a AND b) = frame_of a AND frame_of b"
  by (rule bit_word_eqI) (auto simp: bit_simps frame_of_bit)

lemma entry_nat:
  assumes "page_aligned t" and "i < 1024"
  shows "unat (t + 4 * of_nat i) = unat t + 4 * i"
proof -
  have "unat (4 * of_nat i :: u32) = 4 * i"
    using assms(2) by (simp add: unat_word_ariths unat_of_nat_small)
  then show ?thesis using page_fits [OF assms(1)] assms(2) by (subst unat_add_no_wrap) simp_all
qed

lemma entry_apart:
  assumes "page_aligned t" "page_aligned t'" "i < 1024" "j < 1024" and "\<not> (t = t' \<and> i = j)"
  shows "apart (t + 4 * of_nat i) (t' + 4 * of_nat j)"
proof -
  obtain q q' where q: "unat t = 4096 * q" "unat t' = 4096 * q'"
    using assms(1,2) unfolding page_aligned_nat by (metis mod_0_imp_dvd dvdE)
  have "q = q' \<Longrightarrow> t = t'" using q by (metis word_unat_eq_iff)
  then have "4096 * q + 4 * i + 4 \<le> 4096 * q' + 4 * j \<or> 4096 * q' + 4 * j + 4 \<le> 4096 * q + 4 * i"
    using assms(3-5) by (cases q q' rule: linorder_cases) auto
  with q show ?thesis
    using entry_nat [OF assms(1,3)] entry_nat [OF assms(2,4)] page_fits [OF assms(1)] page_fits [OF assms(2)] assms(3,4)
    by (auto intro: apart_nat)
qed

lemma get_set_entry:
  "page_aligned t \<Longrightarrow> page_aligned t' \<Longrightarrow> i < 1024 \<Longrightarrow> j < 1024 \<Longrightarrow>
   get_entry (set_entry t i v m) t' j = (if t = t' \<and> i = j then v else get_entry m t' j)"
  using entry_apart [of t t' i j] by (auto simp: get_entry_def set_entry_def)

text \<open>A loop whose body writes entry \<open>i\<close> of each table of \<open>T\<close>.\<close>

lemma entry_loop:
  assumes "b \<le> 1024" and "j < 1024" and "page_aligned t"
    and body: "\<And>i m t' j'. i < 1024 \<Longrightarrow> j' < 1024 \<Longrightarrow> page_aligned t' \<Longrightarrow>
      get_entry (g i m) t' j' = (if t' \<in> T \<and> j' = i then F t' i else get_entry m t' j')"
  shows "get_entry (for_loop a b g m) t j = (if t \<in> T \<and> a \<le> j \<and> j < b then F t j else get_entry m t j)"
proof (cases "a \<le> b")
  case True
  then show ?thesis
    using \<open>b \<le> 1024\<close>
  proof (induction b rule: dec_induct)
    case base
    then show ?case by auto
  next
    case (step n)
    then have "n < 1024" by simp
    from body [OF this assms(2,3)] step show ?case by (auto simp: for_loop_Suc less_Suc_eq)
  qed
qed auto

lemma page_fill_loop:
  assumes "b \<le> 1024" and "j < 1024" and "page_aligned t" and "page_aligned t'"
  shows "get_entry (for_loop a b (\<lambda>i. set_entry t' i (f i)) m) t j =
    (if t = t' \<and> a \<le> j \<and> j < b then f j else get_entry m t j)"
  by (subst entry_loop [where T = "{t'}" and F = "\<lambda>_. f", OF assms(1-3)])
     (use assms(4) in \<open>auto simp: get_set_entry\<close>)

section \<open>Address spaces\<close>

text \<open>
  A directory whose present entries name different tables, none of them the directory itself
  and none of them a free frame.
\<close>

definition present :: "u32 \<Rightarrow> bool" where "present e \<longleftrightarrow> e AND PAGE_PRESENT \<noteq> 0"

definition table_of :: "mem \<Rightarrow> u32 \<Rightarrow> nat \<Rightarrow> u32" where
  "table_of m dir i = frame_of (get_entry m dir i)"

definition dir_ok :: "paging \<Rightarrow> u32 \<Rightarrow> bool" where
  "dir_ok s dir \<longleftrightarrow>
     pmm_inv (frames s) \<and> page_aligned dir \<and> dir \<notin> free_pages (frames s) \<and>
     (\<forall>i < 1024. present (get_entry (pmem s) dir i) \<longrightarrow>
        table_of (pmem s) dir i \<noteq> dir \<and> table_of (pmem s) dir i \<notin> free_pages (frames s) \<and>
        (\<forall>j < 1024. present (get_entry (pmem s) dir j) \<longrightarrow>
           table_of (pmem s) dir i = table_of (pmem s) dir j \<longrightarrow> i = j))"

lemma present_or [simp]: "present (a OR PAGE_PRESENT)" "present (PAGE_PRESENT OR a)"
  "present (a OR (PAGE_PRESENT OR b))" "present (a OR (b OR PAGE_PRESENT))" "\<not> present 0"
proof -
  have "present e \<longleftrightarrow> bit e 0" for e
    using bit_mask_iff [of e 0] by (simp add: present_def PAGE_PRESENT_def)
  then show "present (a OR PAGE_PRESENT)" "present (PAGE_PRESENT OR a)"
    "present (a OR (PAGE_PRESENT OR b))" "present (a OR (b OR PAGE_PRESENT))" "\<not> present 0"
    by (simp_all add: PAGE_PRESENT_def bit_simps)
qed

lemma virt_to_phys_alt:
  "paging_virt_to_phys m dir v =
     (if present (get_entry m dir (dir_idx v)) \<and> present (get_entry m (table_of m dir (dir_idx v)) (table_idx v))
      then frame_of (get_entry m (table_of m dir (dir_idx v)) (table_idx v)) + page_off v else 0)"
  using frame_off_sum by (auto simp: paging_virt_to_phys_def Let_def table_of_def present_def)

lemma dir_idx_nat: "dir_idx v = unat v div 4194304"
proof -
  have "dir_idx v = drop_bit 22 (unat v)" unfolding dir_idx_def by (rule unat_drop_bit_eq)
  then show ?thesis by (simp add: drop_bit_eq_div)
qed

lemma table_idx_nat: "table_idx v = (unat v div 4096) mod 1024"
proof -
  have "drop_bit 12 v AND 0x3FF = take_bit 10 (drop_bit 12 v)" by (simp add: take_bit_eq_mask mask_numeral)
  then have "table_idx v = take_bit 10 (drop_bit 12 (unat v))"
    unfolding table_idx_def by (simp only: unsigned_take_bit_eq unat_drop_bit_eq)
  then show ?thesis by (simp add: take_bit_eq_mod drop_bit_eq_div)
qed

lemma idx_lt [simp]: "dir_idx v < 1024" "table_idx v < 1024"
proof -
  have "unat v < 1024 * 4194304" by simp
  then show "dir_idx v < 1024" unfolding dir_idx_nat by (simp add: less_mult_imp_div_less)
  show "table_idx v < 1024" by (simp add: table_idx_nat)
qed

lemma same_page: "drop_bit 12 v = drop_bit 12 w \<longleftrightarrow> dir_idx v = dir_idx w \<and> table_idx v = table_idx w"
proof -
  have "drop_bit 12 v = drop_bit 12 w \<longleftrightarrow> unat v div 4096 = unat w div 4096"
    unfolding word_unat_eq_iff unat_drop_bit_eq by (simp add: drop_bit_eq_div)
  also have "\<dots> \<longleftrightarrow> (unat v div 4096) div 1024 = (unat w div 4096) div 1024 \<and>
      (unat v div 4096) mod 1024 = (unat w div 4096) mod 1024"
    by (rule div_mod_eq_iff)
  finally show ?thesis by (simp add: dir_idx_nat table_idx_nat div_mult2_eq [symmetric])
qed

text \<open>Writing one entry of a table the directory names changes one translation.\<close>

lemma set_table_entry:
  assumes ok: "dir_ok s dir" and pres: "present (get_entry (pmem s) dir d)" and d: "d < 1024" "i < 1024"
    and m': "m' = set_entry (table_of (pmem s) dir d) i e (pmem s)"
  shows "j < 1024 \<Longrightarrow> get_entry m' dir j = get_entry (pmem s) dir j"
    and "paging_virt_to_phys m' dir v =
      (if dir_idx v = d \<and> table_idx v = i then (if present e then frame_of e + page_off v else 0)
       else paging_virt_to_phys (pmem s) dir v)"
    and "dir_ok (s\<lparr>pmem := m'\<rparr>) dir"
proof -
  let ?t = "table_of (pmem s) dir d"
  have al: "page_aligned ?t" "page_aligned dir" "?t \<noteq> dir"
    using ok pres d by (auto simp: dir_ok_def table_of_def)
  show dir: "get_entry m' dir j = get_entry (pmem s) dir j" if "j < 1024" for j
    using al d that by (simp add: m' get_set_entry)
  then have tab: "table_of m' dir j = table_of (pmem s) dir j" if "j < 1024" for j
    using that by (simp add: table_of_def)
  have other: "table_of (pmem s) dir j \<noteq> ?t" if "j < 1024" "j \<noteq> d" "present (get_entry (pmem s) dir j)" for j
    using ok pres d that by (auto simp: dir_ok_def)
  have ent: "get_entry m' (table_of (pmem s) dir j) k
      = (if j = d \<and> k = i then e else get_entry (pmem s) (table_of (pmem s) dir j) k)"
    if "j < 1024" "k < 1024" "present (get_entry (pmem s) dir j)" for j k
    using al d that other [of j] by (auto simp: m' get_set_entry table_of_def)
  show "paging_virt_to_phys m' dir v =
      (if dir_idx v = d \<and> table_idx v = i then (if present e then frame_of e + page_off v else 0)
       else paging_virt_to_phys (pmem s) dir v)"
    using pres ent [of "dir_idx v" "table_idx v"]
    by (cases "present (get_entry (pmem s) dir (dir_idx v))") (auto simp: virt_to_phys_alt dir tab)
  show "dir_ok (s\<lparr>pmem := m'\<rparr>) dir" using ok by (simp add: dir_ok_def dir tab)
qed

text \<open>Taking a frame for a new table and hanging it, zeroed, into the directory.\<close>

lemma alloc_table_spec:
  assumes inv: "pmm_inv (frames s)"
  shows "if free_pages (frames s) = {} then alloc_table s = (0, s)
    else \<exists>t f. t \<in> free_pages (frames s) \<and> page_aligned t \<and> t \<noteq> 0 \<and> pmm_inv f \<and>
      free_pages f = free_pages (frames s) - {t} \<and>
      alloc_table s = (t, s\<lparr>frames := f, pmem := for_loop 0 1024 (\<lambda>i. set_entry t i 0) (pmem s)\<rparr>)"
proof (cases "free_pages (frames s) = {}")
  case True
  with pmm.alloc_empty [OF inv] show ?thesis by (simp add: alloc_table_def)
next
  case False
  obtain t f where a: "pmm_alloc (frames s) = (t, f)" by fastforce
  have t: "t \<in> free_pages (frames s)" "free_pages f = free_pages (frames s) - {t}" "pmm_inv f"
    using pmm.alloc_takes [OF inv False] pmm.alloc_ok [OF inv] a by auto
  moreover have "t \<noteq> 0" "page_aligned t"
    using pmm.managed_page [OF inv, of t] pmm.avail_managed [OF inv] t(1) by (auto simp: page_aligned_nat)
  moreover have "alloc_table s = (t, s\<lparr>frames := f, pmem := for_loop 0 1024 (\<lambda>i. set_entry t i 0) (pmem s)\<rparr>)"
    using a \<open>t \<noteq> 0\<close> by (simp add: alloc_table_def PAGES_PER_TABLE_def)
  ultimately show ?thesis using False by auto
qed

lemma hang_table:
  assumes ok: "dir_ok s dir" and absent: "\<not> present (get_entry (pmem s) dir d)" and d: "d < 1024"
    and t: "t \<in> free_pages (frames s)" "page_aligned t" and f: "pmm_inv f" "free_pages f = free_pages (frames s) - {t}"
    and e: "present e" "frame_of e = t"
    and m': "m' = set_entry dir d e (for_loop 0 1024 (\<lambda>i. set_entry t i 0) (pmem s))"
  shows "present (get_entry m' dir d)" "table_of m' dir d = t"
    and "paging_virt_to_phys m' dir v = paging_virt_to_phys (pmem s) dir v"
    and "dir_ok (s\<lparr>frames := f, pmem := m'\<rparr>) dir"
proof -
  have al: "page_aligned dir" "t \<noteq> dir" using ok t by (auto simp: dir_ok_def)
  have ent: "get_entry m' a j = (if a = dir \<and> j = d then e else if a = t then 0 else get_entry (pmem s) a j)"
    if "page_aligned a" "j < 1024" for a j
    using al t(2) d that by (auto simp: m' get_set_entry page_fill_loop)
  show p: "present (get_entry m' dir d)" and tt: "table_of m' dir d = t"
    using e al d by (simp_all add: ent table_of_def)
  have tab: "get_entry m' dir j = get_entry (pmem s) dir j" "table_of m' dir j = table_of (pmem s) dir j"
    if "j < 1024" "j \<noteq> d" for j
    using al that by (simp_all add: ent table_of_def)
  have other: "table_of (pmem s) dir j \<noteq> t" "table_of (pmem s) dir j \<noteq> dir"
    if "j < 1024" "present (get_entry (pmem s) dir j)" for j
    using ok t that by (auto simp: dir_ok_def)
  have keep: "get_entry m' (table_of (pmem s) dir j) i = get_entry (pmem s) (table_of (pmem s) dir j) i"
    if "j < 1024" "i < 1024" "present (get_entry (pmem s) dir j)" for i j
    using other [OF that(1,3)] that(2) by (simp add: ent table_of_def)
  show "paging_virt_to_phys m' dir v = paging_virt_to_phys (pmem s) dir v"
  proof (cases "dir_idx v = d")
    case True
    then show ?thesis using absent tt t al by (simp add: virt_to_phys_alt ent)
  next
    case False
    then show ?thesis using tab [of "dir_idx v"] keep [of "dir_idx v" "table_idx v"]
      by (cases "present (get_entry (pmem s) dir (dir_idx v))") (auto simp: virt_to_phys_alt)
  qed
  show "dir_ok (s\<lparr>frames := f, pmem := m'\<rparr>) dir" unfolding dir_ok_def
  proof (intro conjI allI impI)
    fix i assume i: "i < 1024" and pi: "present (get_entry (pmem (s\<lparr>frames := f, pmem := m'\<rparr>)) dir i)"
    let ?ti = "table_of (pmem (s\<lparr>frames := f, pmem := m'\<rparr>)) dir i"
    have old: "i \<noteq> d \<Longrightarrow> present (get_entry (pmem s) dir i)" using pi tab(1) [OF i] by simp
    show "?ti \<noteq> dir"
      using tt al other(2) [OF i] old tab(2) [OF i] by (cases "i = d") auto
    show "?ti \<notin> free_pages (frames (s\<lparr>frames := f, pmem := m'\<rparr>))"
      using tt ok i old tab(2) [OF i] by (cases "i = d") (auto simp: f(2) dir_ok_def)
    fix j assume j: "j < 1024" and pj: "present (get_entry (pmem (s\<lparr>frames := f, pmem := m'\<rparr>)) dir j)"
      and eq: "?ti = table_of (pmem (s\<lparr>frames := f, pmem := m'\<rparr>)) dir j"
    have oldj: "j \<noteq> d \<Longrightarrow> present (get_entry (pmem s) dir j)" using pj tab(1) [OF j] by simp
    show "i = j"
    proof (cases "i = d \<or> j = d")
      case True
      then show ?thesis using eq tt tab(2) [OF i] tab(2) [OF j] other(1) [OF i] other(1) [OF j] old oldj
        by (cases "i = d"; cases "j = d") auto
    next
      case False
      then show ?thesis using eq tab(2) i j old oldj ok by (auto simp: dir_ok_def)
    qed
  qed (use ok f in \<open>auto simp: dir_ok_def\<close>)
qed

lemma dir_ok_invalidate [simp]: "dir_ok (paging_invalidate v s) dir = dir_ok s dir"
  "pmem (paging_invalidate v s) = pmem s" "frames (paging_invalidate v s) = frames s"
  by (simp_all add: paging_invalidate_def dir_ok_def)

lemma frame_of_flags: "frame_of flags = 0 \<Longrightarrow> frame_of (frame_of p OR (flags OR PAGE_PRESENT)) = frame_of p"
proof -
  have "frame_of PAGE_PRESENT = 0" by (simp add: frame_of_def PAGE_PRESENT_def)
  then show "frame_of flags = 0 \<Longrightarrow> frame_of (frame_of p OR (flags OR PAGE_PRESENT)) = frame_of p"
    by (simp add: frame_of_or frame_of_aligned)
qed

lemma dir_entry:
  assumes "page_aligned t"
  shows "present (t OR PAGE_PRESENT OR PAGE_WRITE OR (flags AND PAGE_USER))"
    "frame_of (t OR PAGE_PRESENT OR PAGE_WRITE OR (flags AND PAGE_USER)) = t"
    "present (t OR PAGE_PRESENT OR PAGE_WRITE)" "frame_of (t OR PAGE_PRESENT OR PAGE_WRITE) = t"
proof -
  have "frame_of PAGE_USER = 0" "frame_of PAGE_PRESENT = 0" "frame_of PAGE_WRITE = 0"
    by (simp_all add: frame_of_def PAGE_USER_def PAGE_PRESENT_def PAGE_WRITE_def)
  moreover from this(1) have "frame_of (flags AND PAGE_USER) = 0" by (simp add: frame_of_and)
  ultimately show "frame_of (t OR PAGE_PRESENT OR PAGE_WRITE OR (flags AND PAGE_USER)) = t"
    "frame_of (t OR PAGE_PRESENT OR PAGE_WRITE) = t"
    using assms by (simp_all add: frame_of_or frame_of_aligned)
qed (simp_all add: or.assoc)

lemma map_page_spec:
  assumes ok: "dir_ok s dir" and fl: "frame_of flags = 0"
    and room: "present (get_entry (pmem s) dir (dir_idx virt)) \<or> free_pages (frames s) \<noteq> {}"
  shows "let s' = paging_map_page dir virt phys_addr flags s
    in dir_ok s' dir \<and> (\<forall>v. paging_virt_to_phys (pmem s') dir v =
         (if drop_bit 12 v = drop_bit 12 virt then frame_of phys_addr + page_off v
          else paging_virt_to_phys (pmem s) dir v))"
proof -
  let ?d = "dir_idx virt"
  define e where "e = frame_of phys_addr OR (flags OR PAGE_PRESENT)"
  have pe: "present e" "frame_of e = frame_of phys_addr"
    using frame_of_flags [OF fl] unfolding e_def by (simp_all add: or.assoc)
  have wr: "let m' = set_entry (table_of (pmem s1) dir ?d) (table_idx virt) e (pmem s1)
      in dir_ok (s1\<lparr>pmem := m'\<rparr>) dir \<and> (\<forall>v. paging_virt_to_phys m' dir v =
         (if drop_bit 12 v = drop_bit 12 virt then frame_of phys_addr + page_off v
          else paging_virt_to_phys (pmem s1) dir v))"
    if "dir_ok s1 dir" "present (get_entry (pmem s1) dir ?d)" for s1
    using set_table_entry [OF that idx_lt(1) idx_lt(2) [of virt] refl] pe by (simp add: Let_def same_page)
  show ?thesis
  proof (cases "present (get_entry (pmem s) dir ?d)")
    case True
    with wr [OF ok True] show ?thesis
      by (simp add: paging_map_page_def present_def e_def table_of_def Let_def)
  next
    case False
    have inv: "pmm_inv (frames s)" using ok by (simp add: dir_ok_def)
    from False room alloc_table_spec [OF inv] obtain t f where t: "t \<in> free_pages (frames s)" "page_aligned t"
      "t \<noteq> 0" "pmm_inv f" "free_pages f = free_pages (frames s) - {t}"
      "alloc_table s = (t, s\<lparr>frames := f, pmem := for_loop 0 1024 (\<lambda>i. set_entry t i 0) (pmem s)\<rparr>)"
      by auto
    define m1 where "m1 = set_entry dir ?d (t OR PAGE_PRESENT OR PAGE_WRITE OR (flags AND PAGE_USER))
      (for_loop 0 1024 (\<lambda>i. set_entry t i 0) (pmem s))"
    define s1 where "s1 = s\<lparr>frames := f, pmem := m1\<rparr>"
    note h = hang_table [OF ok False idx_lt(1) t(1,2,4,5) dir_entry(1,2) [OF t(2)] m1_def]
    have "paging_map_page dir virt phys_addr flags s = paging_invalidate virt
        (s1\<lparr>pmem := set_entry (table_of (pmem s1) dir ?d) (table_idx virt) e (pmem s1)\<rparr>)"
      using False t(3,6) h(2) by (simp add: paging_map_page_def present_def e_def Let_def s1_def m1_def)
    with wr [of s1] h show ?thesis by (simp add: s1_def Let_def)
  qed
qed

section \<open>The kernel's own address space\<close>

definition image_ok :: "paging_image \<Rightarrow> bool" where
  "image_ok k \<longleftrightarrow>
     (\<forall>t \<in> {kernel_dir k, table0 k, table1 k, high_table0 k, high_table1 k}. page_aligned t) \<and>
     distinct [kernel_dir k, table0 k, table1 k, high_table0 k, high_table1 k]"

definition rw :: "u32 \<Rightarrow> u32" where "rw a = a OR PAGE_PRESENT OR PAGE_WRITE"

definition low_pte :: "nat \<Rightarrow> u32" where "low_pte i = rw (of_nat i * PAGE_SIZE)"
definition high_pte :: "nat \<Rightarrow> u32" where "high_pte i = rw (0x400000 + of_nat i * PAGE_SIZE)"

lemma init_kb: "unat (drop_bit 22 KERNEL_VIRT_BASE) = 768"
  by (simp add: KERNEL_VIRT_BASE_def)

lemma init_entries:
  assumes k: "image_ok k" and j: "j < 1024"
  shows "get_entry (pmem (paging_init k s)) (table0 k) j = low_pte j"
    "get_entry (pmem (paging_init k s)) (high_table0 k) j = low_pte j"
    "get_entry (pmem (paging_init k s)) (table1 k) j = high_pte j"
    "get_entry (pmem (paging_init k s)) (high_table1 k) j = high_pte j"
    "get_entry (pmem (paging_init k s)) (kernel_dir k) j =
       (if j = 0 then rw (table0 k) else if j = 1 then rw (table1 k)
        else if j = 768 then rw (high_table0 k) else if j = 769 then rw (high_table1 k) else 0)"
proof -
  let ?D = "kernel_dir k" and ?T = "table0 k" and ?U = "table1 k" and ?H = "high_table0 k" and ?I = "high_table1 k"
  note al = k [unfolded image_ok_def, simplified]
  have ne: "?U \<noteq> ?T" "?H \<noteq> ?T" "?I \<noteq> ?T" "?H \<noteq> ?U" "?I \<noteq> ?U" "?I \<noteq> ?H" "?T \<noteq> ?D" "?U \<noteq> ?D" "?H \<noteq> ?D" "?I \<noteq> ?D"
    using al by metis+
  define m1 where "m1 = for_loop 0 1024 (\<lambda>i m. set_entry ?I i 0 (set_entry ?H i 0
      (set_entry ?U i 0 (set_entry ?T i 0 m)))) (pmem s)"
  define m2 where "m2 = for_loop 0 1024 (\<lambda>i. set_entry ?D i 0) m1"
  define m3 where "m3 = for_loop 0 1024 (\<lambda>i. set_entry ?T i (low_pte i)) m2"
  define m4 where "m4 = for_loop 0 1024 (\<lambda>i. set_entry ?U i (high_pte i)) m3"
  define m5 where "m5 = for_loop 0 1024 (\<lambda>i m. set_entry ?I i (high_pte i) (set_entry ?H i (low_pte i) m)) m4"
  have m: "pmem (paging_init k s) = set_entry ?D 769 (rw ?I) (set_entry ?D 768 (rw ?H)
      (set_entry ?D 1 (rw ?U) (set_entry ?D 0 (rw ?T) m5)))"
    by (simp add: paging_init_def Let_def init_kb PAGES_PER_TABLE_def TABLES_PER_DIR_def rw_def low_pte_def
        high_pte_def m1_def m2_def m3_def m4_def m5_def)
  have e5: "get_entry m5 t j = (if t \<in> {?H, ?I} then (if t = ?H then low_pte j else high_pte j) else get_entry m4 t j)"
    if "page_aligned t" for t
    unfolding m5_def using al j that
    by (subst entry_loop [where T = "{?H, ?I}" and F = "\<lambda>t i. if t = ?H then low_pte i else high_pte i"])
       (auto simp: get_set_entry)
  have e: "get_entry m5 t j = (if t = ?H \<or> t = ?T then low_pte j else if t = ?I \<or> t = ?U then high_pte j else 0)"
    if "t \<in> {?D, ?T, ?U, ?H, ?I}" for t
    using that al j by (auto simp: e5 m4_def m3_def m2_def page_fill_loop)
  show "get_entry (pmem (paging_init k s)) ?T j = low_pte j"
    "get_entry (pmem (paging_init k s)) ?H j = low_pte j"
    "get_entry (pmem (paging_init k s)) ?U j = high_pte j"
    "get_entry (pmem (paging_init k s)) ?I j = high_pte j"
    "get_entry (pmem (paging_init k s)) ?D j =
       (if j = 0 then rw ?T else if j = 1 then rw ?U else if j = 768 then rw ?H else if j = 769 then rw ?I else 0)"
    using al ne j by (simp_all add: m get_set_entry e)
qed

lemma rw_entry: "page_aligned t \<Longrightarrow> present (rw t)" "page_aligned t \<Longrightarrow> frame_of (rw t) = t"
  using dir_entry(3,4) [of t] by (simp_all add: rw_def)

lemma pte_frames:
  assumes "i < 1024"
  shows "present (low_pte i)" "frame_of (low_pte i) = of_nat i * PAGE_SIZE"
    "present (high_pte i)" "frame_of (high_pte i) = 0x400000 + of_nat i * PAGE_SIZE"
proof -
  have n: "unat (of_nat i * PAGE_SIZE) = i * 4096"
    using assms by (subst unat_mult_no_wrap) (simp_all add: unat_of_nat_small PAGE_SIZE_def)
  then have "unat (0x400000 + of_nat i * PAGE_SIZE) = 4194304 + i * 4096"
    using assms by (subst unat_add_no_wrap) simp_all
  then have "page_aligned (of_nat i * PAGE_SIZE)" "page_aligned (0x400000 + of_nat i * PAGE_SIZE)"
    using n by (simp_all add: page_aligned_nat mod_add_eq [symmetric, of 4194304])
  then show "present (low_pte i)" "frame_of (low_pte i) = of_nat i * PAGE_SIZE"
    "present (high_pte i)" "frame_of (high_pte i) = 0x400000 + of_nat i * PAGE_SIZE"
    by (simp_all add: low_pte_def high_pte_def rw_entry)
qed

lemma virt_split: "v = 0x400000 * of_nat (dir_idx v) + of_nat (table_idx v) * PAGE_SIZE + page_off v"
proof -
  have "unat v = 4194304 * dir_idx v + table_idx v * 4096 + unat (page_off v)"
  proof -
    have "unat v div 4194304 = unat v div 4096 div 1024" using div_mult2_eq [of "unat v" 4096 1024] by simp
    then show ?thesis
      using div_mult_mod_eq [of "unat v" 4096] div_mult_mod_eq [of "unat v div 4096" 1024]
      unfolding dir_idx_nat table_idx_nat unat_page_off by linarith
  qed
  from arg_cong [OF this, of "of_nat :: nat \<Rightarrow> u32"] show ?thesis
    by (simp add: PAGE_SIZE_def)
qed

lemma paging_init_translate:
  assumes k: "image_ok k"
  shows "paging_virt_to_phys (pmem (paging_init k s)) (kernel_dir k) v =
    (if dir_idx v \<le> 1 then v else if dir_idx v \<in> {768, 769} then v - KERNEL_VIRT_BASE else 0)"
proof -
  note al = k [unfolded image_ok_def, simplified]
  note E = init_entries [OF k]
  define x where "x = of_nat (table_idx v) * PAGE_SIZE + page_off v"
  have v: "v - 0x400000 * of_nat (dir_idx v) = x"
    unfolding x_def by (rule iffD2 [OF diff_eq_eq trans [OF trans [OF virt_split add.assoc] add.commute]])
  have "paging_virt_to_phys (pmem (paging_init k s)) (kernel_dir k) v =
    (if dir_idx v = 0 \<or> dir_idx v = 768 then x else if dir_idx v = 1 \<or> dir_idx v = 769 then 0x400000 + x else 0)"
    using al by (auto simp: virt_to_phys_alt table_of_def E rw_entry pte_frames x_def add.assoc)
  then show ?thesis using v by (auto simp: KERNEL_VIRT_BASE_def le_Suc_eq algebra_simps)
qed

lemma copy_loop:
  assumes "page_aligned t" "page_aligned t'" "t \<noteq> t'" and "a \<le> b" "b \<le> 1024"
  shows "\<forall>u j. page_aligned u \<longrightarrow> j < 1024 \<longrightarrow>
    get_entry (for_loop a b (\<lambda>i m. set_entry t i (get_entry m t' i) m) m) u j =
      (if u = t \<and> a \<le> j \<and> j < b then get_entry m t' j else get_entry m u j)"
  using assms(4,5)
proof (induction b rule: dec_induct)
  case base
  then show ?case by auto
next
  case (step n)
  with assms(1-3) show ?case by (auto simp: for_loop_Suc get_set_entry less_Suc_eq)
qed

lemma create_entries:
  assumes "pmm_inv (frames s)" and "free_pages (frames s) \<noteq> {}" and "page_aligned (kernel_dir k)"
    and "kernel_dir k \<notin> free_pages (frames s)"
  shows "\<exists>dir s'. paging_create_directory k s = (dir, s') \<and> dir \<in> free_pages (frames s) \<and> dir \<noteq> 0 \<and>
    page_aligned dir \<and> pmm_inv (frames s') \<and> free_pages (frames s') = free_pages (frames s) - {dir} \<and>
    managed_pages (frames s') = managed_pages (frames s) \<and>
    (\<forall>u j. page_aligned u \<longrightarrow> j < 1024 \<longrightarrow> get_entry (pmem s') u j =
       (if u = dir then if j < 768 then 0 else get_entry (pmem s) (kernel_dir k) j else get_entry (pmem s) u j))"
proof -
  obtain dir f where a: "pmm_alloc (frames s) = (dir, f)" by fastforce
  have d: "dir \<in> free_pages (frames s)" "free_pages f = free_pages (frames s) - {dir}" "pmm_inv f"
    "managed_pages f = managed_pages (frames s)"
    using pmm.alloc_takes [OF assms(1,2)] pmm.alloc_ok [OF assms(1)] a by auto
  then have z: "dir \<noteq> 0" "page_aligned dir" "dir \<noteq> kernel_dir k"
    using pmm.managed_page [OF assms(1), of dir] pmm.avail_managed [OF assms(1)] assms(4)
    by (auto simp: page_aligned_nat)
  define m1 where "m1 = for_loop 0 768 (\<lambda>i. set_entry dir i 0) (pmem s)"
  define m2 where "m2 = for_loop 768 1024 (\<lambda>i m. set_entry dir i (get_entry m (kernel_dir k) i) m) m1"
  have c: "paging_create_directory k s = (dir, s\<lparr>frames := f, pmem := m2\<rparr>)"
    using a z by (simp add: paging_create_directory_def Let_def init_kb TABLES_PER_DIR_def m1_def m2_def)
  have "get_entry m2 u j = (if u = dir then if j < 768 then 0 else get_entry (pmem s) (kernel_dir k) j else get_entry (pmem s) u j)"
    if "page_aligned u" "j < 1024" for u j
    using copy_loop [OF z(2) assms(3) z(3), of 768 1024 m1] that z assms(3) by (auto simp: m2_def m1_def page_fill_loop)
  with c d z show ?thesis by auto
qed

section \<open>Properties\<close>

text \<open>
  C4. Mapping a page makes exactly that page translate to the frame asked for, offset by
  offset, and leaves the translation of every other page of the address space as it was,
  whether the page table was there already or had to be taken from the frame allocator; the
  directory stays well formed.
\<close>

theorem paging_map_translates:
  assumes "dir_ok s dir" and "frame_of flags = 0"
    and "present (get_entry (pmem s) dir (dir_idx virt)) \<or> free_pages (frames s) \<noteq> {}"
  shows "let s' = paging_map_page dir virt phys_addr flags s
    in dir_ok s' dir \<and> (\<forall>v. paging_virt_to_phys (pmem s') dir v =
         (if drop_bit 12 v = drop_bit 12 virt then frame_of phys_addr + page_off v
          else paging_virt_to_phys (pmem s) dir v))"
  by (rule map_page_spec [OF assms])

lemma empty_dir_ok:
  assumes "pmm_inv f" and "page_aligned dir" and "dir \<notin> free_pages f"
  shows "dir_ok \<lparr>pmem = \<lambda>_. 0, frames = f, cr3 = 0, paging_on = False, invalidated = []\<rparr> dir"
  using assms by (simp add: dir_ok_def get_entry_def load32_def)

lemma small_pmm_free_pages: "free_pages (pmm_init 32768 0x200000 pmm_bss) = page_of ` {512 ..< 8192}"
  by (simp add: free_pages_def pmm_init_abs(1) init_total_def init_first_def layout_simps)

lemma paging_map_translates_witness:
  "let s = \<lparr>pmem = \<lambda>_. 0, frames = pmm_init 32768 0x200000 pmm_bss, cr3 = 0, paging_on = False, invalidated = []\<rparr>;
       s' = paging_map_page 0x1000 0x40001000 0x300000 6 s
   in paging_virt_to_phys (pmem s') 0x1000 0x40001234 = 0x300234"
proof -
  have "page_of f \<noteq> 0x1000" if "f \<in> {512 ..< 8192}" for f
    using page_of_inj [of f 1] that by (auto simp: page_of_def layout_simps)
  then have n: "0x1000 \<notin> free_pages (pmm_init 32768 0x200000 pmm_bss)" by (auto simp: small_pmm_free_pages)
  have "frame_of 6 = 0" "frame_of 0x300000 + page_off 0x40001234 = 0x300234" by (simp_all add: frame_of_def page_off_def)
  with paging_map_translates [OF empty_dir_ok [OF pmm_init_abs(3) _ n], of 6 "0x40001000" "0x300000"]
  show ?thesis by (simp add: page_aligned_def page_off_def Let_def small_pmm_free_pages)
qed

text \<open>
  Unmapping a page makes it, and it alone, untranslatable: the lookup answers 0 on the page
  and as before on every other one. The frame it was mapped to is not released.
\<close>

theorem paging_unmap_translates:
  assumes "dir_ok s dir"
  shows "let s' = paging_unmap_page dir virt s
    in dir_ok s' dir \<and> frames s' = frames s \<and> (\<forall>v. paging_virt_to_phys (pmem s') dir v =
         (if drop_bit 12 v = drop_bit 12 virt then 0 else paging_virt_to_phys (pmem s) dir v))"
proof (cases "present (get_entry (pmem s) dir (dir_idx virt))")
  case True
  with set_table_entry [OF assms True idx_lt(1) idx_lt(2) [of virt] refl, of 0] show ?thesis
    by (simp add: paging_unmap_page_def present_def table_of_def Let_def same_page)
next
  case False
  with assms show ?thesis
    by (simp add: paging_unmap_page_def virt_to_phys_alt same_page) (simp add: present_def)
qed

lemma paging_unmap_translates_witness:
  "let s = \<lparr>pmem = \<lambda>_. 0, frames = pmm_init 0 0 pmm_bss, cr3 = 0, paging_on = False, invalidated = []\<rparr>
   in paging_virt_to_phys (pmem (paging_unmap_page 0x1000 0x40001000 s)) 0x1000 0x40001234 = 0"
proof -
  have i: "pmm_inv (pmm_init 0 0 pmm_bss)" "free_pages (pmm_init 0 0 pmm_bss) = {}"
    by (simp_all add: pmm_init_abs free_pages_def init_total_def layout_simps)
  have "dir_ok \<lparr>pmem = \<lambda>_. 0, frames = pmm_init 0 0 pmm_bss, cr3 = 0, paging_on = False, invalidated = []\<rparr> 0x1000"
    using i by (intro empty_dir_ok) (simp_all add: page_aligned_def page_off_def)
  note r = paging_unmap_translates [OF this, of "0x40001000", unfolded Let_def]
  have "drop_bit 12 (0x40001234 :: u32) = drop_bit 12 0x40001000" by simp
  with r show ?thesis unfolding Let_def by presburger
qed

text \<open>
  After \<open>paging_init\<close> the first 8 MiB translate to themselves, the 8 MiB from the kernel's
  virtual base translate to the same physical memory, nothing else translates, the processor's
  directory register holds the kernel directory and paging is on.
\<close>

theorem paging_init_identity_map:
  assumes "image_ok k"
  shows "paging_virt_to_phys (pmem (paging_init k s)) (kernel_dir k) v =
      (if v < 0x800000 then v
       else if KERNEL_VIRT_BASE \<le> v \<and> v < KERNEL_VIRT_BASE + 0x800000 then v - KERNEL_VIRT_BASE else 0) \<and>
    cr3 (paging_init k s) = kernel_dir k \<and> paging_on (paging_init k s)"
proof -
  have lt: "dir_idx v < n \<longleftrightarrow> unat v < n * 4194304" for n
    unfolding dir_idx_nat by (rule div_less_iff_less_mult) simp
  have "dir_idx v \<le> 1 \<longleftrightarrow> dir_idx v < 2" "dir_idx v \<in> {768, 769} \<longleftrightarrow> \<not> dir_idx v < 768 \<and> dir_idx v < 770"
    by auto
  then have "dir_idx v \<le> 1 \<longleftrightarrow> v < 0x800000"
    and "dir_idx v \<in> {768, 769} \<longleftrightarrow> KERNEL_VIRT_BASE \<le> v \<and> v < KERNEL_VIRT_BASE + 0x800000"
    unfolding lt by (simp_all add: KERNEL_VIRT_BASE_def word_less_nat_alt word_le_nat_alt not_less)
  then show ?thesis
    using paging_init_translate [OF assms, of s v] by (simp add: paging_init_def Let_def)
qed

lemma paging_init_identity_map_witness:
  "let k = \<lparr>kernel_dir = 0x10000, table0 = 0x11000, table1 = 0x12000, high_table0 = 0x13000, high_table1 = 0x14000\<rparr>;
       s = paging_init k \<lparr>pmem = \<lambda>_. 0xFF, frames = pmm_bss, cr3 = 0, paging_on = False, invalidated = []\<rparr>
   in paging_virt_to_phys (pmem s) (kernel_dir k) 0xC0123456 = 0x123456"
proof -
  let ?k = "\<lparr>kernel_dir = 0x10000, table0 = 0x11000, table1 = 0x12000, high_table0 = 0x13000, high_table1 = 0x14000\<rparr>"
  have "image_ok ?k" by (simp add: image_ok_def page_aligned_def page_off_def)
  note r = paging_init_identity_map [OF this,
    of "\<lparr>pmem = \<lambda>_. 0xFF, frames = pmm_bss, cr3 = 0, paging_on = False, invalidated = []\<rparr>" "0xC0123456"]
  show ?thesis unfolding Let_def by (subst conjunct1 [OF r]) (simp add: KERNEL_VIRT_BASE_def)
qed

text \<open>
  A fresh address space has nothing mapped below the kernel's virtual base and shares the
  kernel's translations above it; no entry of another page changed; and destroying it at once
  gives the one frame it took back, so that the free frames are those before.
\<close>

theorem paging_create_destroy:
  assumes "pmm_inv (frames s)" and "free_pages (frames s) \<noteq> {}" and "dir_ok s (kernel_dir k)"
  shows "\<exists>dir s'. paging_create_directory k s = (dir, s') \<and> dir \<noteq> 0 \<and> dir \<in> free_pages (frames s) \<and>
    (\<forall>v. dir_idx v < 768 \<longrightarrow> paging_virt_to_phys (pmem s') dir v = 0) \<and>
    (\<forall>v. 768 \<le> dir_idx v \<longrightarrow> paging_virt_to_phys (pmem s') dir v = paging_virt_to_phys (pmem s) (kernel_dir k) v) \<and>
    (\<forall>u j. page_aligned u \<longrightarrow> u \<noteq> dir \<longrightarrow> j < 1024 \<longrightarrow> get_entry (pmem s') u j = get_entry (pmem s) u j) \<and>
    free_pages (frames (paging_destroy_directory k dir s')) = free_pages (frames s)"
proof -
  let ?K = "kernel_dir k"
  have K: "page_aligned ?K" "?K \<notin> free_pages (frames s)" using assms(3) by (simp_all add: dir_ok_def)
  from create_entries [OF assms(1,2) K] obtain dir s' where c:
    "paging_create_directory k s = (dir, s')" "dir \<in> free_pages (frames s)" "dir \<noteq> 0" "page_aligned dir"
    "pmm_inv (frames s')" "free_pages (frames s') = free_pages (frames s) - {dir}"
    "managed_pages (frames s') = managed_pages (frames s)"
    and e: "\<And>u j. page_aligned u \<Longrightarrow> j < 1024 \<Longrightarrow> get_entry (pmem s') u j =
       (if u = dir then if j < 768 then 0 else get_entry (pmem s) ?K j else get_entry (pmem s) u j)"
    by blast
  have nd: "present (get_entry (pmem s) ?K j) \<Longrightarrow> table_of (pmem s) ?K j \<noteq> dir" if "j < 1024" for j
    using assms(3) c(2) that by (auto simp: dir_ok_def)
  have "paging_virt_to_phys (pmem s') dir v = 0" if "dir_idx v < 768" for v
    using that by (simp add: virt_to_phys_alt e c(4))
  moreover have "paging_virt_to_phys (pmem s') dir v = paging_virt_to_phys (pmem s) ?K v"
    if "768 \<le> dir_idx v" for v
  proof (cases "present (get_entry (pmem s) ?K (dir_idx v))")
    case True
    with that nd [of "dir_idx v"] show ?thesis by (simp add: virt_to_phys_alt e c(4) table_of_def)
  qed (use that in \<open>simp add: virt_to_phys_alt e c(4)\<close>)
  moreover have "free_pages (frames (paging_destroy_directory k dir s')) = free_pages (frames s)"
  proof -
    have "dir \<noteq> ?K" using c(2) K by auto
    have "for_loop 0 768 (\<lambda>i f. if get_entry (pmem s') dir i AND PAGE_PRESENT = 0 then f else g i f) f = f" for g and f :: pmm
      by (rule for_loop_keeps [where P = "\<lambda>f'. f' = f"]) (simp_all add: e c(4))
    with c(3) \<open>dir \<noteq> ?K\<close> have "frames (paging_destroy_directory k dir s') = pmm_free dir (frames s')"
      by (simp add: paging_destroy_directory_def Let_def init_kb)
    moreover have "dir \<in> managed_pages (frames s')"
      using c(2,7) pmm.avail_managed [OF assms(1)] by auto
    ultimately show ?thesis using pmm.release_gives [OF c(5)] c(2,6) by auto
  qed
  ultimately show ?thesis using c e by (intro exI [of _ dir] exI [of _ s']) auto
qed

lemma paging_create_destroy_witness:
  "let k = \<lparr>kernel_dir = 0x10000, table0 = 0x11000, table1 = 0x12000, high_table0 = 0x13000, high_table1 = 0x14000\<rparr>;
       s = \<lparr>pmem = \<lambda>_. 0, frames = pmm_init 32768 0x200000 pmm_bss, cr3 = 0, paging_on = False, invalidated = []\<rparr>
   in \<exists>dir s'. paging_create_directory k s = (dir, s') \<and> dir \<noteq> 0 \<and>
        free_pages (frames (paging_destroy_directory k dir s')) = free_pages (frames s)"
proof -
  let ?k = "\<lparr>kernel_dir = 0x10000, table0 = 0x11000, table1 = 0x12000, high_table0 = 0x13000, high_table1 = 0x14000\<rparr>"
  have "page_of f \<noteq> 0x10000" if "f \<in> {512 ..< 8192}" for f
    using page_of_inj [of f 16] that by (auto simp: page_of_def layout_simps)
  then have n: "kernel_dir ?k \<notin> free_pages (pmm_init 32768 0x200000 pmm_bss)" by (auto simp: small_pmm_free_pages)
  have "page_aligned (kernel_dir ?k)" by (simp add: page_aligned_def page_off_def)
  note ok = empty_dir_ok [OF pmm_init_abs(3) this n]
  show ?thesis unfolding Let_def
    using paging_create_destroy [OF _ _ ok] by (auto simp: pmm_init_abs(3) small_pmm_free_pages)
qed

end
