(* ===== verification/Fifo.thy ===== *)
theory Fifo
  imports Prelude
begin

text \<open>
  The contract of a first-in first-out queue kept in program state: what it holds is a list,
  insertion appends when there is room for the element, removal takes the head. The run queue of
  the scheduler and the ring buffer of the keyboard driver both provide it. An insertion that
  may fail to return is an option.
\<close>

fun deq_many :: "('s \<Rightarrow> 'a option \<times> 's) \<Rightarrow> nat \<Rightarrow> 's \<Rightarrow> 'a option list \<times> 's" where
  "deq_many d 0 s = ([], s)"
| "deq_many d (Suc n) s = (let (x, s') = d s; (xs, s'') = deq_many d n s' in (x # xs, s''))"

fun enq_many :: "('a \<Rightarrow> 's \<Rightarrow> 's option) \<Rightarrow> 'a list \<Rightarrow> 's \<Rightarrow> 's option" where
  "enq_many e [] s = Some s"
| "enq_many e (x # xs) s = Option.bind (e x s) (enq_many e xs)"

locale fifo =
  fixes enq :: "'a \<Rightarrow> 's \<Rightarrow> 's option" and deq :: "'s \<Rightarrow> 'a option \<times> 's"
    and items :: "'s \<Rightarrow> 'a list" and fits :: "'a list \<Rightarrow> 'a \<Rightarrow> bool" and ok :: "'s \<Rightarrow> bool"
  assumes enq_appends: "ok s \<Longrightarrow> fits (items s) x \<Longrightarrow> \<exists>s'. enq x s = Some s' \<and> ok s' \<and> items s' = items s @ [x]"
    and deq_empty: "ok s \<Longrightarrow> items s = [] \<Longrightarrow> deq s = (None, s)"
    and deq_head: "ok s \<Longrightarrow> items s = x # xs \<Longrightarrow> fst (deq s) = Some x \<and> ok (snd (deq s)) \<and> items (snd (deq s)) = xs"
begin

lemma deq_many_spec:
  "ok s \<Longrightarrow> n \<le> length (items s) \<Longrightarrow>
   fst (deq_many deq n s) = map Some (take n (items s)) \<and>
   ok (snd (deq_many deq n s)) \<and> items (snd (deq_many deq n s)) = drop n (items s)"
proof (induction n arbitrary: s)
  case 0
  then show ?case by simp
next
  case (Suc n)
  then obtain x xs where q: "items s = x # xs" by (cases "items s") auto
  obtain y s' where d: "deq s = (y, s')" by fastforce
  with deq_head [OF Suc.prems(1) q] have "y = Some x" "ok s'" "items s' = xs" by auto
  with Suc.IH [of s'] Suc.prems(2) q d show ?case by (simp add: split_beta)
qed

text \<open>Any number of insertions that fit, and what they leave.\<close>

lemma enq_many_spec:
  "ok s \<Longrightarrow> (\<And>ys y zs. xs = ys @ y # zs \<Longrightarrow> fits (items s @ ys) y) \<Longrightarrow>
   \<exists>s'. enq_many enq xs s = Some s' \<and> ok s' \<and> items s' = items s @ xs"
proof (induction xs arbitrary: s)
  case Nil
  then show ?case by simp
next
  case (Cons x xs)
  have "fits (items s) x" using Cons.prems(2) [of "[]" x xs] by simp
  with enq_appends [OF Cons.prems(1)] obtain s' where s': "enq x s = Some s'" "ok s'" "items s' = items s @ [x]"
    by blast
  have "fits (items s' @ ys) y" if "xs = ys @ y # zs" for ys y zs
    using Cons.prems(2) [of "x # ys" y zs] that s'(3) by simp
  from Cons.IH [OF s'(2) this] s' show ?case by auto
qed

text \<open>First in, first out: an empty queue gives back what was put in, in order.\<close>

lemma fifo_roundtrip:
  assumes "ok s" and "items s = []" and "\<And>ys y zs. xs = ys @ y # zs \<Longrightarrow> fits ys y"
  shows "\<exists>s'. enq_many enq xs s = Some s' \<and> fst (deq_many deq (length xs) s') = map Some xs \<and>
    items (snd (deq_many deq (length xs) s')) = []"
proof -
  from enq_many_spec [OF assms(1), of xs] assms(2,3) obtain s' where
    "enq_many enq xs s = Some s'" "ok s'" "items s' = xs" by auto
  with deq_many_spec [of s' "length xs"] show ?thesis by auto
qed

end

end
