(* ===== verification/Proc_Sched.thy ===== *)
theory Proc_Sched
  imports Mm_Heap Fifo "HOL-Library.Monad_Syntax"
begin

text \<open>
  The process manager, \<^verbatim>\<open>kernel/proc/process.c\<close>, with the register transfer of \<^verbatim>\<open>switch.asm\<close>. The
  process table is a function from slot numbers; a \<^verbatim>\<open>process_t *\<close> is the slot it points to, a null
  pointer \<open>None\<close>. The run queue is threaded through the table by the \<open>next\<close> fields (\<open>next_p\<close> here), so walking
  it is a pointer loop, and not returning is \<open>None\<close>. Stacks come from the heap of \<^verbatim>\<open>Mm_Heap\<close>.
\<close>

section \<open>State\<close>

definition MAX_PROCS :: nat where "MAX_PROCS = 64"
definition PROC_NAME_LEN :: nat where "PROC_NAME_LEN = 32"
definition KERNEL_STACK_SZ :: u32 where "KERNEL_STACK_SZ = 8192"

datatype proc_state = PROC_RUNNING | PROC_READY | PROC_BLOCKED | PROC_SLEEPING | PROC_ZOMBIE

record cpu_state =
  edi :: u32
  esi :: u32
  ebp :: u32
  ebx :: u32
  edx :: u32
  ecx :: u32
  eax :: u32
  eip :: u32
  eflags :: u32
  esp :: u32

record process =
  pid :: u32
  name :: string
  state :: proc_state
  cpu :: cpu_state
  page_dir :: u32
  kstack :: u32
  kstack_top :: u32
  wake_tick :: u32
  exit_code :: u32
  parent :: "nat option"
  next_p :: "nat option"

text \<open>
  The file's variables, with what the operations reach outside it: the heap, the directory
  register, and the registers the processor holds when \<open>switch_context\<close> is called.
\<close>

record procs =
  proc_table :: "nat \<Rightarrow> process"
  next_pid :: u32
  current :: nat
  run_queue :: "nat option"
  tick_counter :: u32
  kheap_of :: kheap
  active_dir :: u32
  regs :: cpu_state

text \<open>The addresses the linker gives the code and data a new process refers to.\<close>

record proc_image =
  idle_task :: u32
  proc_exit_addr :: u32
  kernel_directory :: u32

definition upd :: "nat \<Rightarrow> (process \<Rightarrow> process) \<Rightarrow> procs \<Rightarrow> procs" where
  "upd p f s = s\<lparr>proc_table := (proc_table s)(p := f (proc_table s p))\<rparr>"

section \<open>Helpers\<close>

fun kstrcpy_n :: "string \<Rightarrow> nat \<Rightarrow> string" where
  "kstrcpy_n [] room = []"
| "kstrcpy_n (c # src) room = (if 1 < room \<and> c \<noteq> CHR 0x00 then c # kstrcpy_n src (room - 1) else [])"

partial_function (option) queue_tail :: "(nat \<Rightarrow> process) \<Rightarrow> nat \<Rightarrow> nat option" where
  "queue_tail tab t = (case next_p (tab t) of None \<Rightarrow> Some t | Some t' \<Rightarrow> queue_tail tab t')"

definition enqueue :: "nat \<Rightarrow> procs \<Rightarrow> procs option" where
  "enqueue p s =
     (let s = upd p (next_p_update (\<lambda>_. None)) s
      in case run_queue s of
           None \<Rightarrow> Some (s\<lparr>run_queue := Some p\<rparr>)
         | Some h \<Rightarrow> do {
             t \<leftarrow> queue_tail (proc_table s) h;
             Some (upd t (next_p_update (\<lambda>_. Some p)) s)
           })"

definition dequeue :: "procs \<Rightarrow> nat option \<times> procs" where
  "dequeue s =
     (case run_queue s of
        None \<Rightarrow> (None, s)
      | Some p \<Rightarrow>
          (let s = s\<lparr>run_queue := next_p (proc_table s p)\<rparr>
           in (Some p, upd p (next_p_update (\<lambda>_. None)) s)))"

definition alloc_proc :: "procs \<Rightarrow> nat option" where
  "alloc_proc s = first_from (\<lambda>i. state (proc_table s i) = PROC_ZOMBIE \<and> pid (proc_table s i) = 0) 0 MAX_PROCS"

section \<open>Initialisation and creation\<close>

definition proc_init :: "proc_image \<Rightarrow> procs \<Rightarrow> procs option" where
  "proc_init k s =
     (let s = for_loop 0 MAX_PROCS
                (\<lambda>i. upd i (\<lambda>p. p\<lparr>pid := 0, state := PROC_ZOMBIE, next_p := None\<rparr>)) s;
          s = upd 0 (pid_update (\<lambda>_. next_pid s)) (s\<lparr>next_pid := next_pid s + 1\<rparr>);
          s = upd 0 (\<lambda>p. p\<lparr>state := PROC_READY, page_dir := kernel_directory k, parent := None,
                          name := kstrcpy_n ''idle'' PROC_NAME_LEN\<rparr>) s
      in do {
        (stk, h) \<leftarrow> kmalloc KERNEL_STACK_SZ (kheap_of s);
        let s = upd 0 (\<lambda>p. p\<lparr>kstack := stk, kstack_top := stk + KERNEL_STACK_SZ\<rparr>) (s\<lparr>kheap_of := h\<rparr>);
        let s = upd 0 (\<lambda>p. p\<lparr>cpu := (cpu p)\<lparr>eip := idle_task k, esp := kstack_top p - 4, eflags := 0x202\<rparr>\<rparr>) s;
        Some (s\<lparr>current := 0\<rparr>)
      })"

definition proc_create_kernel :: "proc_image \<Rightarrow> string \<Rightarrow> u32 \<Rightarrow> procs \<Rightarrow> (nat option \<times> procs) option" where
  "proc_create_kernel k nm func s =
     (case alloc_proc s of
        None \<Rightarrow> Some (None, s)
      | Some p \<Rightarrow>
          (let s = upd p (pid_update (\<lambda>_. next_pid s)) (s\<lparr>next_pid := next_pid s + 1\<rparr>);
               s = upd p (\<lambda>x. x\<lparr>state := PROC_READY, parent := Some (current s), exit_code := 0,
                               name := kstrcpy_n nm PROC_NAME_LEN, page_dir := kernel_directory k\<rparr>) s
           in do {
             (stk, h) \<leftarrow> kmalloc KERNEL_STACK_SZ (kheap_of s);
             let top = stk + KERNEL_STACK_SZ;
             let h = h\<lparr>mem := store32 (mem h) (top - 4) (proc_exit_addr k)\<rparr>;
             let h = h\<lparr>mem := store32 (mem h) (top - 8) 0\<rparr>;
             let s = upd p (\<lambda>x. x\<lparr>kstack := stk, kstack_top := top,
                       cpu := (cpu x)\<lparr>eip := func, esp := top - 8, eflags := 0x202\<rparr>\<rparr>) (s\<lparr>kheap_of := h\<rparr>);
             s \<leftarrow> enqueue p s;
             Some (Some p, s)
           }))"

section \<open>Scheduling\<close>

text \<open>
  \<^verbatim>\<open>switch.asm\<close>: the callee-saved registers, flags, stack pointer and return address go to the
  outgoing block and come from the incoming one; the scratch registers are not transferred.
\<close>

definition switch_context :: "nat \<Rightarrow> nat \<Rightarrow> procs \<Rightarrow> procs" where
  "switch_context old new s =
     (let r = regs s;
          s = upd old (\<lambda>p. p\<lparr>cpu := (cpu p)\<lparr>edi := edi r, esi := esi r, ebp := ebp r, ebx := ebx r,
                                          eip := eip r, eflags := eflags r, esp := esp r\<rparr>\<rparr>) s;
          c = cpu (proc_table s new)
      in s\<lparr>regs := r\<lparr>edi := edi c, esi := esi c, ebp := ebp c, ebx := ebx c,
                     eip := eip c, eflags := eflags c, esp := esp c\<rparr>\<rparr>)"

definition wake_one :: "u64 \<Rightarrow> nat \<Rightarrow> procs \<Rightarrow> procs option" where
  "wake_one now i s =
     (let p = proc_table s i
      in if state p = PROC_SLEEPING \<and> pid p \<noteq> 0 \<and> ucast (wake_tick p) \<le> now
         then enqueue i (upd i (state_update (\<lambda>_. PROC_READY)) s)
         else Some s)"

definition schedule :: "u64 \<Rightarrow> procs \<Rightarrow> procs option" where
  "schedule now s = do {
     s \<leftarrow> for_loop 0 MAX_PROCS (\<lambda>i so. Option.bind so (wake_one now i)) (Some s);
     let prev = current s;
     let (nx, s) = dequeue s;
     let nx = (case nx of None \<Rightarrow> 0 | Some n \<Rightarrow> n);
     (if nx = prev then Some s
      else do {
        s \<leftarrow> (if state (proc_table s prev) = PROC_RUNNING
              then enqueue prev (upd prev (state_update (\<lambda>_. PROC_READY)) s)
              else Some s);
        let s = upd nx (state_update (\<lambda>_. PROC_RUNNING)) s;
        let s = s\<lparr>current := nx\<rparr>;
        let s = s\<lparr>active_dir := page_dir (proc_table s nx)\<rparr>;
        Some (switch_context prev nx s)
      })
   }"

definition proc_yield :: "u64 \<Rightarrow> procs \<Rightarrow> procs option" where
  "proc_yield now s = schedule now s"

definition proc_block :: "u64 \<Rightarrow> procs \<Rightarrow> procs option" where
  "proc_block now s = schedule now (upd (current s) (state_update (\<lambda>_. PROC_BLOCKED)) s)"

definition proc_unblock :: "nat option \<Rightarrow> procs \<Rightarrow> procs option" where
  "proc_unblock p s =
     (case p of
        None \<Rightarrow> Some s
      | Some p \<Rightarrow>
          if state (proc_table s p) = PROC_BLOCKED
          then enqueue p (upd p (state_update (\<lambda>_. PROC_READY)) s) else Some s)"

text \<open>The time is read twice: for the end of the sleep, and when the scheduler looks who is due.\<close>

definition proc_sleep :: "u64 \<Rightarrow> u64 \<Rightarrow> u32 \<Rightarrow> procs \<Rightarrow> procs option" where
  "proc_sleep start now ms s =
     schedule now (upd (current s) (\<lambda>p. p\<lparr>wake_tick := ucast (start + ucast (ms div 10)), state := PROC_SLEEPING\<rparr>) s)"

text \<open>Up to the point where the exited process is no longer run.\<close>

definition proc_exit :: "u64 \<Rightarrow> u32 \<Rightarrow> procs \<Rightarrow> procs option" where
  "proc_exit now code s =
     schedule now (upd (current s) (\<lambda>p. p\<lparr>exit_code := code, state := PROC_ZOMBIE\<rparr>) s)"

definition proc_current :: "procs \<Rightarrow> nat" where
  "proc_current s = current s"

definition proc_get :: "u32 \<Rightarrow> procs \<Rightarrow> nat option" where
  "proc_get n s = first_from (\<lambda>i. pid (proc_table s i) = n \<and> state (proc_table s i) \<noteq> PROC_ZOMBIE) 0 MAX_PROCS"

definition proc_tick :: "u64 \<Rightarrow> procs \<Rightarrow> procs option" where
  "proc_tick now s =
     (let s = s\<lparr>tick_counter := tick_counter s + 1\<rparr>
      in if 2 \<le> tick_counter s then schedule now (s\<lparr>tick_counter := 0\<rparr>) else Some s)"

definition state_name :: "proc_state \<Rightarrow> string" where
  "state_name st =
     (case st of
        PROC_RUNNING \<Rightarrow> ''RUNNING''
      | PROC_READY \<Rightarrow> ''READY  ''
      | PROC_BLOCKED \<Rightarrow> ''BLOCKED''
      | PROC_SLEEPING \<Rightarrow> ''SLEEP  ''
      | PROC_ZOMBIE \<Rightarrow> ''ZOMBIE '')"

section \<open>The run queue as a list\<close>

fun chain :: "(nat \<Rightarrow> process) \<Rightarrow> nat option \<Rightarrow> nat list \<Rightarrow> bool" where
  "chain tab h [] \<longleftrightarrow> h = None"
| "chain tab h (p # q) \<longleftrightarrow> h = Some p \<and> chain tab (next_p (tab p)) q"

fun walk :: "nat \<Rightarrow> (nat \<Rightarrow> process) \<Rightarrow> nat option \<Rightarrow> nat list" where
  "walk (Suc n) tab (Some p) = p # walk n tab (next_p (tab p))"
| "walk _ tab _ = []"

definition run_list :: "procs \<Rightarrow> nat list" where
  "run_list s = walk MAX_PROCS (proc_table s) (run_queue s)"

definition queue_ok :: "procs \<Rightarrow> bool" where
  "queue_ok s \<longleftrightarrow> chain (proc_table s) (run_queue s) (run_list s) \<and> distinct (run_list s) \<and>
     (\<forall>p \<in> set (run_list s). p < MAX_PROCS)"

lemma walk_chain: "chain tab h q \<Longrightarrow> length q \<le> n \<Longrightarrow> walk n tab h = q"
proof (induction q arbitrary: h n)
  case Nil
  then show ?case by (cases n) auto
next
  case (Cons p q)
  then show ?case by (cases n) auto
qed

lemma small_length: "distinct q \<Longrightarrow> \<forall>p \<in> set q. p < MAX_PROCS \<Longrightarrow> length q \<le> MAX_PROCS"
proof -
  assume q: "distinct q" "\<forall>p \<in> set q. p < MAX_PROCS"
  then have "set q \<subseteq> {..<MAX_PROCS}" by auto
  then have "card (set q) \<le> MAX_PROCS" using card_mono [of "{..<MAX_PROCS}"] by fastforce
  with q show ?thesis by (simp add: distinct_card)
qed

lemma run_listI:
  assumes "chain (proc_table s) (run_queue s) q" and "distinct q" and "\<forall>p \<in> set q. p < MAX_PROCS"
  shows "run_list s = q" "queue_ok s"
proof -
  show "run_list s = q"
    unfolding run_list_def using assms(1) small_length [OF assms(2,3)] by (rule walk_chain)
  with assms show "queue_ok s" by (simp add: queue_ok_def)
qed

lemma chain_cong: "(\<And>p. p \<in> set q \<Longrightarrow> next_p (tab p) = next_p (tab' p)) \<Longrightarrow> chain tab h q = chain tab' h q"
  by (induction q arbitrary: h) auto

lemma chain_upd [simp]: "p \<notin> set q \<Longrightarrow> chain (tab(p := x)) h q = chain tab h q"
  by (rule chain_cong) auto

lemma queue_tail_last: "chain tab (Some h) q \<Longrightarrow> queue_tail tab h = Some (last q)"
proof (induction q arbitrary: h)
  case (Cons p q)
  show ?case
  proof (cases q)
    case Nil
    with Cons.prems show ?thesis by (subst queue_tail.simps) simp
  next
    case (Cons t q')
    with Cons.prems Cons.IH [of t] show ?thesis by (subst queue_tail.simps) auto
  qed
qed simp

lemma chain_snoc:
  "chain tab h (q @ [t]) \<Longrightarrow> distinct (q @ [t]) \<Longrightarrow> p \<notin> set (q @ [t]) \<Longrightarrow> next_p (tab p) = None \<Longrightarrow>
   chain (tab(t := (tab t)\<lparr>next_p := Some p\<rparr>)) h (q @ [t, p])"
  by (induction q arbitrary: h) auto

text \<open>Everything but the queue's own threading.\<close>

definition core :: "procs \<Rightarrow> procs" where
  "core s = s\<lparr>run_queue := None, proc_table := \<lambda>x. (proc_table s x)\<lparr>next_p := None\<rparr>\<rparr>"

lemma core_eqD:
  assumes "core s' = core s"
  shows "state (proc_table s' x) = state (proc_table s x)" "pid (proc_table s' x) = pid (proc_table s x)"
    "cpu (proc_table s' x) = cpu (proc_table s x)" "wake_tick (proc_table s' x) = wake_tick (proc_table s x)"
    "page_dir (proc_table s' x) = page_dir (proc_table s x)" "name (proc_table s' x) = name (proc_table s x)"
    "exit_code (proc_table s' x) = exit_code (proc_table s x)"
    "current s' = current s" "regs s' = regs s" "active_dir s' = active_dir s" "tick_counter s' = tick_counter s"
    "next_pid s' = next_pid s"
proof -
  have t: "(proc_table s' x)\<lparr>next_p := None\<rparr> = (proc_table s x)\<lparr>next_p := None\<rparr>"
    using fun_cong [OF arg_cong [OF assms, of proc_table], of x] by (simp add: core_def)
  show "state (proc_table s' x) = state (proc_table s x)" "pid (proc_table s' x) = pid (proc_table s x)"
    "cpu (proc_table s' x) = cpu (proc_table s x)" "wake_tick (proc_table s' x) = wake_tick (proc_table s x)"
    "page_dir (proc_table s' x) = page_dir (proc_table s x)" "name (proc_table s' x) = name (proc_table s x)"
    "exit_code (proc_table s' x) = exit_code (proc_table s x)"
    using arg_cong [OF t, of state] arg_cong [OF t, of pid] arg_cong [OF t, of cpu] arg_cong [OF t, of wake_tick]
      arg_cong [OF t, of page_dir] arg_cong [OF t, of name] arg_cong [OF t, of exit_code] by simp_all
  show "current s' = current s" "regs s' = regs s" "active_dir s' = active_dir s" "tick_counter s' = tick_counter s"
    "next_pid s' = next_pid s"
    using arg_cong [OF assms, of current] arg_cong [OF assms, of regs] arg_cong [OF assms, of active_dir]
      arg_cong [OF assms, of tick_counter] arg_cong [OF assms, of next_pid] by (simp_all add: core_def)
qed

lemma core_upd_next [simp]: "core (upd p (next_p_update f) s) = core s"
  by (auto simp: core_def upd_def fun_eq_iff intro!: procs.equality)

lemma core_run_queue [simp]: "core (s\<lparr>run_queue := q\<rparr>) = core s"
  by (simp add: core_def)

lemma enqueue_spec:
  assumes ok: "queue_ok s" and p: "p < MAX_PROCS" "p \<notin> set (run_list s)"
  shows "\<exists>s'. enqueue p s = Some s' \<and> queue_ok s' \<and> run_list s' = run_list s @ [p] \<and> core s' = core s"
proof -
  let ?s1 = "upd p (next_p_update (\<lambda>_. None)) s" and ?q = "run_list s"
  have c: "chain (proc_table s) (run_queue s) ?q" and d: "distinct ?q" "\<forall>x \<in> set ?q. x < MAX_PROCS"
    using ok by (simp_all add: queue_ok_def)
  have rq: "run_queue ?s1 = run_queue s" by (simp add: upd_def)
  have c1: "chain (proc_table ?s1) (run_queue s) ?q" and n1: "next_p (proc_table ?s1 p) = None"
    using c p(2) by (simp_all add: upd_def)
  show ?thesis
  proof (cases "?q" rule: rev_cases)
    case Nil
    then have e: "enqueue p s = Some (?s1\<lparr>run_queue := Some p\<rparr>)"
      using c rq by (simp add: enqueue_def Let_def)
    have "chain (proc_table (?s1\<lparr>run_queue := Some p\<rparr>)) (run_queue (?s1\<lparr>run_queue := Some p\<rparr>)) [p]"
      using n1 by simp
    from run_listI [OF this] p e Nil show ?thesis by simp
  next
    case (snoc q t)
    obtain h where h: "run_queue s = Some h" using c snoc by (cases q) auto
    define s2 where "s2 = upd t (next_p_update (\<lambda>_. Some p)) ?s1"
    have "queue_tail (proc_table ?s1) h = Some t" using queue_tail_last [of "proc_table ?s1" h ?q] c1 h snoc by simp
    then have e: "enqueue p s = Some s2" using h rq by (simp add: enqueue_def Let_def s2_def)
    have "chain (proc_table s2) (run_queue s2) (q @ [t, p])"
      using chain_snoc [of "proc_table ?s1" "run_queue s" q t p] c1 n1 d p snoc by (simp add: s2_def upd_def)
    from run_listI [OF this] d p snoc e show ?thesis by (simp add: s2_def)
  qed
qed

lemma dequeue_spec:
  assumes ok: "queue_ok s"
  shows "run_list s = [] \<Longrightarrow> dequeue s = (None, s)"
    and "run_list s = p # q \<Longrightarrow> \<exists>s'. dequeue s = (Some p, s') \<and> queue_ok s' \<and> run_list s' = q \<and> core s' = core s"
proof -
  have c: "chain (proc_table s) (run_queue s) (run_list s)" and d: "distinct (run_list s)" "\<forall>x \<in> set (run_list s). x < MAX_PROCS"
    using ok by (simp_all add: queue_ok_def)
  show "dequeue s = (None, s)" if "run_list s = []" using c that by (simp add: dequeue_def)
  assume q: "run_list s = p # q"
  define s' where "s' = upd p (next_p_update (\<lambda>_. None)) (s\<lparr>run_queue := next_p (proc_table s p)\<rparr>)"
  have "dequeue s = (Some p, s')" using c q by (simp add: dequeue_def s'_def)
  moreover have "chain (proc_table s') (run_queue s') q"
    using c d q by (simp add: s'_def upd_def)
  moreover have "core s' = core s" by (simp add: s'_def)
  ultimately show "\<exists>s'. dequeue s = (Some p, s') \<and> queue_ok s' \<and> run_list s' = q \<and> core s' = core s"
    using run_listI [of s' q] d q by auto
qed

interpretation rq: fifo enqueue dequeue run_list "\<lambda>q p. p < MAX_PROCS \<and> p \<notin> set q" queue_ok
proof (unfold_locales, goal_cases)
  case (1 s x)
  then show ?case using enqueue_spec [of s x] by blast
next
  case (2 s)
  then show ?case by (rule dequeue_spec)
next
  case (3 s x xs)
  then show ?case using dequeue_spec(2) [of s x xs] by auto
qed

section \<open>One pass of the scheduler\<close>

definition sched_ok :: "procs \<Rightarrow> bool" where
  "sched_ok s \<longleftrightarrow> queue_ok s \<and> current s < MAX_PROCS \<and>
     (\<forall>p \<in> set (run_list s). state (proc_table s p) = PROC_READY)"

definition due :: "u64 \<Rightarrow> procs \<Rightarrow> nat \<Rightarrow> bool" where
  "due now s i \<longleftrightarrow> i < MAX_PROCS \<and> state (proc_table s i) = PROC_SLEEPING \<and>
     pid (proc_table s i) \<noteq> 0 \<and> ucast (wake_tick (proc_table s i)) \<le> now"

text \<open>The state field, and everything but the state fields and the queue.\<close>

definition state_of :: "procs \<Rightarrow> nat \<Rightarrow> proc_state" where
  "state_of s i = state (proc_table s i)"

definition rest :: "procs \<Rightarrow> procs" where
  "rest s = (core s)\<lparr>proc_table := \<lambda>x. (proc_table s x)\<lparr>next_p := None, state := PROC_READY\<rparr>\<rparr>"

lemma rest_core: "core s' = core s \<Longrightarrow> rest s' = rest s \<and> state_of s' = state_of s"
proof -
  assume c: "core s' = core s"
  have "(proc_table s' x)\<lparr>next_p := None\<rparr> = (proc_table s x)\<lparr>next_p := None\<rparr>" for x
    using fun_cong [OF arg_cong [OF c, of proc_table], of x] by (simp add: core_def)
  then have "(proc_table s' x)\<lparr>next_p := None, state := PROC_READY\<rparr> = (proc_table s x)\<lparr>next_p := None, state := PROC_READY\<rparr>" for x
    by (metis)
  with c core_eqD(1) [OF c] show "rest s' = rest s \<and> state_of s' = state_of s"
    by (auto simp: rest_def state_of_def)
qed

lemma rest_eqD:
  assumes "rest s' = rest s"
  shows "pid (proc_table s' x) = pid (proc_table s x)" "cpu (proc_table s' x) = cpu (proc_table s x)"
    "wake_tick (proc_table s' x) = wake_tick (proc_table s x)" "page_dir (proc_table s' x) = page_dir (proc_table s x)"
    "current s' = current s" "regs s' = regs s" "active_dir s' = active_dir s"
proof -
  have t: "(proc_table s' x)\<lparr>next_p := None, state := PROC_READY\<rparr> = (proc_table s x)\<lparr>next_p := None, state := PROC_READY\<rparr>"
    using fun_cong [OF arg_cong [OF assms, of proc_table], of x] by (simp add: rest_def)
  show "pid (proc_table s' x) = pid (proc_table s x)" "cpu (proc_table s' x) = cpu (proc_table s x)"
    "wake_tick (proc_table s' x) = wake_tick (proc_table s x)" "page_dir (proc_table s' x) = page_dir (proc_table s x)"
    using arg_cong [OF t, of pid] arg_cong [OF t, of cpu] arg_cong [OF t, of wake_tick] arg_cong [OF t, of page_dir]
    by simp_all
  show "current s' = current s" "regs s' = regs s" "active_dir s' = active_dir s"
    using arg_cong [OF assms, of current] arg_cong [OF assms, of regs] arg_cong [OF assms, of active_dir]
    by (simp_all add: rest_def core_def)
qed

lemma upd_state:
  "rest (upd p (state_update f) s) = rest s"
  "state_of (upd p (state_update (\<lambda>_. st)) s) = (state_of s)(p := st)"
  by (auto simp: rest_def core_def upd_def state_of_def fun_eq_iff intro!: procs.equality)

lemma upd_queue:
  assumes "\<And>x. next_p (f x) = next_p x"
  shows "run_list (upd p f s) = run_list s" "queue_ok (upd p f s) = queue_ok s"
proof -
  have n: "next_p (proc_table (upd p f s) x) = next_p (proc_table s x)" for x
    using assms by (simp add: upd_def)
  have w: "walk k (proc_table (upd p f s)) h = walk k (proc_table s) h" for k h
    by (induction k "proc_table s" h rule: walk.induct) (simp_all add: n)
  then show "run_list (upd p f s) = run_list s" by (simp add: run_list_def upd_def)
  then show "queue_ok (upd p f s) = queue_ok s"
    using chain_cong [of "run_list s" "proc_table (upd p f s)" "proc_table s" "run_queue s"] n
    by (simp add: queue_ok_def upd_def)
qed

text \<open>Making a process that is not READY ready: the common step of waking, unblocking and yielding.\<close>

lemma make_ready:
  assumes ok: "sched_ok s" and p: "p < MAX_PROCS" "state_of s p \<noteq> PROC_READY"
  shows "\<exists>s'. enqueue p (upd p (state_update (\<lambda>_. PROC_READY)) s) = Some s' \<and> sched_ok s' \<and>
    run_list s' = run_list s @ [p] \<and> rest s' = rest s \<and> state_of s' = (state_of s)(p := PROC_READY)"
proof -
  let ?s1 = "upd p (state_update (\<lambda>_. PROC_READY)) s"
  have q: "queue_ok ?s1" "run_list ?s1 = run_list s" using ok by (simp_all add: upd_queue sched_ok_def)
  have "p \<notin> set (run_list ?s1)" using ok p q by (auto simp: sched_ok_def state_of_def)
  from enqueue_spec [OF q(1) p(1) this] obtain s' where s': "enqueue p ?s1 = Some s'" "queue_ok s'"
    "run_list s' = run_list s @ [p]" "core s' = core ?s1" unfolding q by blast
  from rest_core [OF s'(4)] have r: "rest s' = rest s" "state_of s' = (state_of s)(p := PROC_READY)"
    by (simp_all add: upd_state)
  then have "sched_ok s'" using ok s' rest_eqD(5) [OF r(1)]
    by (auto simp: sched_ok_def state_of_def [symmetric])
  with s' r show ?thesis by blast
qed

lemma wake_one_spec:
  assumes "sched_ok s" and "i < MAX_PROCS"
  shows "\<exists>s'. wake_one now i s = Some s' \<and> sched_ok s' \<and> rest s' = rest s \<and>
    run_list s' = run_list s @ (if due now s i then [i] else []) \<and>
    state_of s' = (if due now s i then (state_of s)(i := PROC_READY) else state_of s)"
proof (cases "due now s i")
  case True
  then have "state_of s i \<noteq> PROC_READY" by (simp add: due_def state_of_def)
  with make_ready [OF assms this] True show ?thesis by (auto simp: wake_one_def due_def Let_def)
next
  case False
  with assms show ?thesis by (auto simp: wake_one_def due_def Let_def)
qed

lemma wake_loop_spec:
  assumes ok: "sched_ok s" and n: "n \<le> MAX_PROCS"
  shows "\<exists>s'. for_loop 0 n (\<lambda>i so. Option.bind so (wake_one now i)) (Some s) = Some s' \<and> sched_ok s' \<and>
    rest s' = rest s \<and> run_list s' = run_list s @ filter (due now s) [0..<n] \<and>
    state_of s' = (\<lambda>i. if i < n \<and> due now s i then PROC_READY else state_of s i)"
  using n
proof (induction n)
  case 0
  with ok show ?case by auto
next
  case (Suc n)
  then obtain s1 where s1: "for_loop 0 n (\<lambda>i so. Option.bind so (wake_one now i)) (Some s) = Some s1"
    "sched_ok s1" "rest s1 = rest s" "run_list s1 = run_list s @ filter (due now s) [0..<n]"
    "state_of s1 = (\<lambda>i. if i < n \<and> due now s i then PROC_READY else state_of s i)" by auto
  have "state_of s1 n = state_of s n" using s1(5) by simp
  then have d: "due now s1 n = due now s n"
    using rest_eqD(1,3) [OF s1(3)] by (simp add: due_def state_of_def)
  from wake_one_spec [OF s1(2), of n now] Suc.prems obtain s2 where s2: "wake_one now n s1 = Some s2"
    "sched_ok s2" "rest s2 = rest s1" "run_list s2 = run_list s1 @ (if due now s n then [n] else [])"
    "state_of s2 = (if due now s n then (state_of s1)(n := PROC_READY) else state_of s1)" unfolding d by auto
  with s1 show ?case by (intro exI [of _ s2]) (auto simp: for_loop_Suc fun_eq_iff less_Suc_eq)
qed

text \<open>
  What one pass decides: the queue with the sleepers that are due appended in table order, the
  state each process has then, and the process chosen.
\<close>

definition ready_q :: "u64 \<Rightarrow> procs \<Rightarrow> nat list" where
  "ready_q now s = run_list s @ filter (due now s) [0..<MAX_PROCS]"

definition woken :: "u64 \<Rightarrow> procs \<Rightarrow> nat \<Rightarrow> proc_state" where
  "woken now s i = (if due now s i then PROC_READY else state_of s i)"

definition chosen :: "u64 \<Rightarrow> procs \<Rightarrow> nat" where
  "chosen now s = (case ready_q now s of [] \<Rightarrow> 0 | p # _ \<Rightarrow> p)"

text \<open>The registers \<open>switch_context\<close> transfers.\<close>

definition saved_regs :: "cpu_state \<Rightarrow> u32 list" where
  "saved_regs c = [edi c, esi c, ebp c, ebx c, eip c, eflags c, esp c]"

lemma switch_context_spec:
  assumes "old \<noteq> new"
  shows "saved_regs (cpu (proc_table (switch_context old new s) old)) = saved_regs (regs s)"
    "saved_regs (regs (switch_context old new s)) = saved_regs (cpu (proc_table s new))"
    "p \<noteq> old \<Longrightarrow> cpu (proc_table (switch_context old new s) p) = cpu (proc_table s p)"
    "state_of (switch_context old new s) = state_of s" "run_list (switch_context old new s) = run_list s"
    "queue_ok (switch_context old new s) = queue_ok s" "current (switch_context old new s) = current s"
    "active_dir (switch_context old new s) = active_dir s"
proof -
  define f where "f = (\<lambda>p. p\<lparr>cpu := (cpu p)\<lparr>edi := edi (regs s), esi := esi (regs s), ebp := ebp (regs s),
    ebx := ebx (regs s), eip := eip (regs s), eflags := eflags (regs s), esp := esp (regs s)\<rparr>\<rparr> :: process)"
  have "\<exists>r. switch_context old new s = (upd old f s)\<lparr>regs := r\<rparr>"
    unfolding switch_context_def Let_def f_def by blast
  then obtain r where r: "switch_context old new s = (upd old f s)\<lparr>regs := r\<rparr>" ..
  have q: "run_list (upd old f s) = run_list s" "queue_ok (upd old f s) = queue_ok s"
    by (rule upd_queue; simp add: f_def)+
  have e: "run_list (x\<lparr>regs := r\<rparr>) = run_list x" "queue_ok (x\<lparr>regs := r\<rparr>) = queue_ok x" for x
    by (simp_all add: run_list_def queue_ok_def)
  show "run_list (switch_context old new s) = run_list s" "queue_ok (switch_context old new s) = queue_ok s"
    unfolding r e q by (rule refl)+
  show "p \<noteq> old \<Longrightarrow> cpu (proc_table (switch_context old new s) p) = cpu (proc_table s p)"
    "state_of (switch_context old new s) = state_of s"
    "current (switch_context old new s) = current s" "active_dir (switch_context old new s) = active_dir s"
    unfolding r by (auto simp: upd_def f_def state_of_def)
  show "saved_regs (cpu (proc_table (switch_context old new s) old)) = saved_regs (regs s)"
    "saved_regs (regs (switch_context old new s)) = saved_regs (cpu (proc_table s new))"
    using assms by (simp_all add: switch_context_def Let_def upd_def saved_regs_def)
qed

lemma schedule_spec:
  assumes ok: "sched_ok s"
  shows "\<exists>s'. schedule now s = Some s' \<and> sched_ok s' \<and> current s' = chosen now s \<and>
    run_list s' = tl (ready_q now s) @
      (if chosen now s \<noteq> current s \<and> woken now s (current s) = PROC_RUNNING then [current s] else []) \<and>
    state_of s' = (if chosen now s = current s then woken now s
      else ((woken now s)(current s := if woken now s (current s) = PROC_RUNNING then PROC_READY
              else woken now s (current s)))(chosen now s := PROC_RUNNING)) \<and>
    (chosen now s \<noteq> current s \<longrightarrow>
       saved_regs (cpu (proc_table s' (current s))) = saved_regs (regs s) \<and>
       saved_regs (regs s') = saved_regs (cpu (proc_table s (chosen now s))) \<and>
       active_dir s' = page_dir (proc_table s (chosen now s)))"
proof -
  let ?c = "current s"
  from wake_loop_spec [OF ok order_refl, of now] obtain s1 where
    s1: "for_loop 0 MAX_PROCS (\<lambda>i so. Option.bind so (wake_one now i)) (Some s) = Some s1" "sched_ok s1"
      "rest s1 = rest s" "run_list s1 = ready_q now s" "state_of s1 = woken now s"
    by (fastforce simp: ready_q_def woken_def fun_eq_iff due_def)
  note r1 = rest_eqD [OF s1(3)]
  have c: "?c < MAX_PROCS" using ok by (simp add: sched_ok_def)
  have "\<exists>nx s2. dequeue s1 = (nx, s2) \<and> (case nx of None \<Rightarrow> 0 | Some n \<Rightarrow> n) = chosen now s \<and>
    queue_ok s2 \<and> run_list s2 = tl (ready_q now s) \<and> core s2 = core s1"
    using dequeue_spec [of s1] s1(2) by (cases "ready_q now s") (auto simp: s1(4) chosen_def sched_ok_def)
  then obtain nx s2 where s2: "dequeue s1 = (nx, s2)" "(case nx of None \<Rightarrow> 0 | Some n \<Rightarrow> n) = chosen now s"
    "queue_ok s2" "run_list s2 = tl (ready_q now s)" "core s2 = core s1" by blast
  note r2 = core_eqD [OF s2(5)] and st2 = rest_core [OF s2(5), THEN conjunct2]
  have rdy: "\<forall>p \<in> set (ready_q now s). woken now s p = PROC_READY"
    using s1(2) by (simp add: sched_ok_def s1(4) state_of_def [symmetric] s1(5))
  have ch: "chosen now s < MAX_PROCS" "chosen now s \<notin> set (tl (ready_q now s))"
    using s1(2) by (cases "ready_q now s"; simp add: chosen_def sched_ok_def queue_ok_def s1(4) MAX_PROCS_def)+
  have ok2: "sched_ok s2"
  proof -
    have "set (tl (ready_q now s)) \<subseteq> set (ready_q now s)" by (cases "ready_q now s") auto
    with rdy c s2 show ?thesis
      by (auto simp: sched_ok_def state_of_def [symmetric] st2 s1(5) r2 r1)
  qed
  have sch: "schedule now s = (if chosen now s = ?c then Some s2 else do {
        s3 \<leftarrow> (if state_of s2 ?c = PROC_RUNNING then enqueue ?c (upd ?c (state_update (\<lambda>_. PROC_READY)) s2) else Some s2);
        let s4 = upd (chosen now s) (state_update (\<lambda>_. PROC_RUNNING)) s3;
        let s5 = s4\<lparr>current := chosen now s\<rparr>;
        let s6 = s5\<lparr>active_dir := page_dir (proc_table s5 (chosen now s))\<rparr>;
        Some (switch_context ?c (chosen now s) s6) })"
    by (simp add: schedule_def s1(1) s2(1,2) r1 state_of_def Let_def)
  show ?thesis
  proof (cases "chosen now s = ?c")
    case True
    with sch s2 ok2 st2 s1(5) r2 r1 show ?thesis by simp
  next
    case False
    let ?run = "woken now s ?c = PROC_RUNNING"
    have "\<exists>s3. (if state_of s2 ?c = PROC_RUNNING then enqueue ?c (upd ?c (state_update (\<lambda>_. PROC_READY)) s2) else Some s2)
        = Some s3 \<and> sched_ok s3 \<and> run_list s3 = tl (ready_q now s) @ (if ?run then [?c] else []) \<and> rest s3 = rest s2 \<and>
        state_of s3 = (woken now s)(?c := if ?run then PROC_READY else woken now s ?c)"
      using make_ready [OF ok2 c] s2(4) ok2 by (auto simp: st2 s1(5))
    then obtain s3 where s3: "(if state_of s2 ?c = PROC_RUNNING then enqueue ?c (upd ?c (state_update (\<lambda>_. PROC_READY)) s2)
        else Some s2) = Some s3" "sched_ok s3" "run_list s3 = tl (ready_q now s) @ (if ?run then [?c] else [])"
      "rest s3 = rest s2" "state_of s3 = (woken now s)(?c := if ?run then PROC_READY else woken now s ?c)" by blast
    note r3 = rest_eqD [OF s3(4)]
    define s6 where "s6 = (upd (chosen now s) (state_update (\<lambda>_. PROC_RUNNING)) s3)\<lparr>current := chosen now s,
        active_dir := page_dir (proc_table s3 (chosen now s))\<rparr>"
    have res: "schedule now s = Some (switch_context ?c (chosen now s) s6)"
      unfolding sch s3(1) using False by (simp add: s6_def Let_def upd_def)
    have e: "run_list (x\<lparr>current := a, active_dir := b\<rparr>) = run_list x" "queue_ok (x\<lparr>current := a, active_dir := b\<rparr>) = queue_ok x"
      for x a b by (simp_all add: run_list_def queue_ok_def)
    have q6: "run_list s6 = run_list s3" "queue_ok s6"
      using s3(2) by (simp_all add: s6_def e upd_queue sched_ok_def)
    have st6: "state_of s6 = (state_of s3)(chosen now s := PROC_RUNNING)"
      by (simp add: s6_def fun_eq_iff state_of_def upd_def)
    note W = switch_context_spec [OF False [symmetric], where s = s6]
    have c6: "current s6 = chosen now s" by (simp add: s6_def)
    have "sched_ok (switch_context ?c (chosen now s) s6)"
      using s3(2) ch False by (auto simp: sched_ok_def W q6 state_of_def [symmetric] st6 s3(3) c6)
    moreover have "regs s6 = regs s" "cpu (proc_table s6 (chosen now s)) = cpu (proc_table s (chosen now s))"
      "active_dir s6 = page_dir (proc_table s (chosen now s))" "current s6 = chosen now s"
      using r1 r2 r3 by (simp_all add: s6_def upd_def)
    ultimately show ?thesis using res False by (simp add: W q6 s3 st6)
  qed
qed

section \<open>Creation and the other operations\<close>

lemma queue_fields:
  "run_list (s\<lparr>kheap_of := h\<rparr>) = run_list s" "queue_ok (s\<lparr>kheap_of := h\<rparr>) = queue_ok s"
  "run_list (s\<lparr>next_pid := n\<rparr>) = run_list s" "queue_ok (s\<lparr>next_pid := n\<rparr>) = queue_ok s"
  "run_list (s\<lparr>tick_counter := c\<rparr>) = run_list s" "queue_ok (s\<lparr>tick_counter := c\<rparr>) = queue_ok s"
  "run_list (s\<lparr>current := p\<rparr>) = run_list s" "queue_ok (s\<lparr>current := p\<rparr>) = queue_ok s"
  by (simp_all add: run_list_def queue_ok_def)

lemma alloc_proc_Some:
  "alloc_proc s = Some p \<Longrightarrow> p < MAX_PROCS \<and> state_of s p = PROC_ZOMBIE \<and> pid (proc_table s p) = 0"
  unfolding alloc_proc_def state_of_def by (drule first_from_SomeD) simp

lemma create_spec:
  assumes ok: "sched_ok s" and free: "alloc_proc s = Some p"
    and heap: "kmalloc KERNEL_STACK_SZ (kheap_of s) = Some (stk, h)"
  shows "\<exists>s'. proc_create_kernel k nm func s = Some (Some p, s') \<and> sched_ok s' \<and>
    run_list s' = run_list s @ [p] \<and> current s' = current s \<and> next_pid s' = next_pid s + 1 \<and>
    pid (proc_table s' p) = next_pid s \<and> state_of s' = (state_of s)(p := PROC_READY) \<and>
    eip (cpu (proc_table s' p)) = func"
proof -
  note a = alloc_proc_Some [OF free]
  define h' where "h' = (let h = h\<lparr>mem := store32 (mem h) (stk + KERNEL_STACK_SZ - 4) (proc_exit_addr k)\<rparr>
    in h\<lparr>mem := store32 (mem h) (stk + KERNEL_STACK_SZ - 8) 0\<rparr>)"
  define f where "f = (\<lambda>x. x\<lparr>pid := next_pid s, state := PROC_READY, parent := Some (current s), exit_code := 0,
    name := kstrcpy_n nm PROC_NAME_LEN, page_dir := kernel_directory k, kstack := stk,
    kstack_top := stk + KERNEL_STACK_SZ,
    cpu := (cpu x)\<lparr>eip := func, esp := stk + KERNEL_STACK_SZ - 8, eflags := 0x202\<rparr>\<rparr> :: process)"
  define s1 where "s1 = upd p f (s\<lparr>next_pid := next_pid s + 1, kheap_of := h'\<rparr>)"
  have e: "proc_create_kernel k nm func s = Option.bind (enqueue p s1) (\<lambda>s. Some (Some p, s))"
    using free heap by (simp add: proc_create_kernel_def Let_def upd_def s1_def f_def h'_def)
  have q: "run_list s1 = run_list s" "queue_ok s1" and st: "state_of s1 = (state_of s)(p := PROC_READY)"
    using ok unfolding s1_def sched_ok_def
    by (simp_all add: upd_queue queue_fields f_def) (simp add: fun_eq_iff state_of_def upd_def)
  have "p \<notin> set (run_list s1)" using ok a q by (auto simp: sched_ok_def state_of_def)
  from enqueue_spec [OF q(2) conjunct1 [OF a] this] obtain s2 where s2:
    "enqueue p s1 = Some s2" "queue_ok s2" "run_list s2 = run_list s @ [p]" "core s2 = core s1" unfolding q by blast
  note c = core_eqD [OF s2(4)]
  have sp: "state_of s2 = (state_of s)(p := PROC_READY)" using rest_core [OF s2(4)] st by simp
  have f1: "current s1 = current s" "next_pid s1 = next_pid s + 1" "pid (proc_table s1 p) = next_pid s"
    "eip (cpu (proc_table s1 p)) = func" by (simp_all add: s1_def upd_def f_def)
  have "sched_ok s2" using ok s2(2,3) c(8) f1(1)
    by (auto simp: sched_ok_def state_of_def [symmetric] sp)
  with e s2(1,3) c sp f1 show ?thesis by auto
qed

lemma init_spec:
  assumes "run_queue s = None" and "kmalloc KERNEL_STACK_SZ (kheap_of s) = Some (stk, h)"
  shows "\<exists>s'. proc_init k s = Some s' \<and> sched_ok s' \<and> run_list s' = [] \<and> current s' = 0 \<and>
    pid (proc_table s' 0) = next_pid s \<and> state_of s' = (\<lambda>i. if i = 0 then PROC_READY else if i < MAX_PROCS then PROC_ZOMBIE else state_of s i)"
proof -
  define g where "g = (\<lambda>i. upd i (\<lambda>p. p\<lparr>pid := 0, state := PROC_ZOMBIE, next_p := None\<rparr>))"
  define s1 where "s1 = for_loop 0 MAX_PROCS g s"
  have 1: "run_queue s1 = None \<and> kheap_of s1 = kheap_of s \<and> next_pid s1 = next_pid s"
    unfolding s1_def by (rule for_loop_keeps) (use assms in \<open>auto simp: g_def upd_def\<close>)
  have 2: "state_of s1 = (\<lambda>i. if i < MAX_PROCS then PROC_ZOMBIE else state_of s i)"
    unfolding s1_def
    by (rule for_loop_invariant [where P = "\<lambda>n s1. state_of s1 = (\<lambda>i. if i < n then PROC_ZOMBIE else state_of s i)"])
       (auto simp: g_def upd_def state_of_def fun_eq_iff less_Suc_eq)
  have b: "\<exists>s'. proc_init k s = Some s' \<and> run_queue s' = None \<and> current s' = 0 \<and> pid (proc_table s' 0) = next_pid s \<and>
      state_of s' = (state_of s1)(0 := PROC_READY)"
    using assms(2) 1 unfolding proc_init_def g_def [symmetric] s1_def [symmetric]
    by (simp add: Let_def upd_def fun_eq_iff state_of_def)
  then obtain s' where s': "proc_init k s = Some s'" "run_queue s' = None" "current s' = 0"
    "pid (proc_table s' 0) = next_pid s" "state_of s' = (state_of s1)(0 := PROC_READY)" by blast
  have "chain (proc_table s') (run_queue s') []" using s'(2) by simp
  from run_listI [OF this] s' 2 show ?thesis by (auto simp: sched_ok_def MAX_PROCS_def)
qed

lemma sched_ok_upd:
  assumes "sched_ok s" and "\<And>x. next_p (f x) = next_p x" and "p \<notin> set (run_list s)"
  shows "sched_ok (upd p f s)" "run_list (upd p f s) = run_list s"
  using assms(1,3) unfolding sched_ok_def upd_queue [OF assms(2)] by (auto simp: upd_def)

lemma unblock_spec:
  assumes ok: "sched_ok s" and p: "p < MAX_PROCS"
  shows "\<exists>s'. proc_unblock (Some p) s = Some s' \<and> sched_ok s' \<and> rest s' = rest s \<and>
    run_list s' = run_list s @ (if state_of s p = PROC_BLOCKED then [p] else []) \<and>
    state_of s' = (if state_of s p = PROC_BLOCKED then (state_of s)(p := PROC_READY) else state_of s)"
proof (cases "state_of s p = PROC_BLOCKED")
  case True
  with make_ready [OF ok p] show ?thesis by (auto simp: proc_unblock_def state_of_def)
next
  case False
  with ok show ?thesis by (auto simp: proc_unblock_def state_of_def)
qed

section \<open>No ready process is lost\<close>

text \<open>
  Slot 0 is the fallback and need not be queued; every other process is queued exactly when it is
  READY, and the one on the processor is RUNNING.
\<close>

definition steady :: "procs \<Rightarrow> bool" where
  "steady s \<longleftrightarrow> sched_ok s \<and> (current s \<noteq> 0 \<longrightarrow> state_of s (current s) = PROC_RUNNING) \<and>
     (\<forall>i. 0 < i \<and> i < MAX_PROCS \<and> state_of s i = PROC_READY \<longrightarrow> i \<in> set (run_list s))"



text \<open>Yields by whatever process is running, at the given tick counts.\<close>

fun yields :: "u64 list \<Rightarrow> procs \<Rightarrow> procs option" where
  "yields [] s = Some s"
| "yields (t # ts) s = Option.bind (proc_yield t s) (yields ts)"

lemma yields_current:
  assumes "sched_ok s" and "run_list s = q @ p # q'" and "length ts = Suc (length q)"
  shows "\<exists>s'. yields ts s = Some s' \<and> sched_ok s' \<and> current s' = p"
  using assms
proof (induction q arbitrary: s q' ts)
  case Nil
  then obtain t where ts: "ts = [t]" by (cases ts) auto
  have "chosen t s = p" using Nil.prems(2) by (simp add: chosen_def ready_q_def)
  with schedule_spec [OF Nil.prems(1), of t] ts show ?case by (auto simp: proc_yield_def)
next
  case (Cons x q)
  then obtain t ts' where ts: "ts = t # ts'" "length ts' = Suc (length q)" by (cases ts) auto
  from schedule_spec [OF Cons.prems(1), of t] Cons.prems(2) obtain s1 q1 where
    s1: "schedule t s = Some s1" "sched_ok s1" "run_list s1 = q @ p # q1" by (fastforce simp: ready_q_def)
  from Cons.IH [OF s1(2,3) ts(2)] s1(1) ts(1) show ?case by (auto simp: proc_yield_def)
qed

text \<open>
  Every state of the process manager after \<open>proc_init\<close>. A process that blocks, sleeps or exits is
  not itself queued, which a RUNNING one never is.
\<close>

inductive proc_reach :: "proc_image \<Rightarrow> procs \<Rightarrow> bool" for k where
  boot: "run_queue s0 = None \<Longrightarrow> proc_init k s0 = Some s \<Longrightarrow> proc_reach k s"
| create: "proc_reach k s \<Longrightarrow> proc_create_kernel k nm func s = Some (r, s') \<Longrightarrow> proc_reach k s'"
| yield: "proc_reach k s \<Longrightarrow> proc_yield now s = Some s' \<Longrightarrow> proc_reach k s'"
| block: "proc_reach k s \<Longrightarrow> current s \<notin> set (run_list s) \<Longrightarrow> proc_block now s = Some s' \<Longrightarrow> proc_reach k s'"
| unblock: "proc_reach k s \<Longrightarrow> p < MAX_PROCS \<Longrightarrow> proc_unblock (Some p) s = Some s' \<Longrightarrow> proc_reach k s'"
| sleep: "proc_reach k s \<Longrightarrow> current s \<notin> set (run_list s) \<Longrightarrow> proc_sleep start now ms s = Some s' \<Longrightarrow> proc_reach k s'"
| exit: "proc_reach k s \<Longrightarrow> current s \<notin> set (run_list s) \<Longrightarrow> proc_exit now code s = Some s' \<Longrightarrow> proc_reach k s'"
| tick: "proc_reach k s \<Longrightarrow> proc_tick now s = Some s' \<Longrightarrow> proc_reach k s'"

lemma kmalloc_stack:
  "Option.bind (kmalloc KERNEL_STACK_SZ h) F = Some r \<Longrightarrow> \<exists>stk h'. kmalloc KERNEL_STACK_SZ h = Some (stk, h')"
  by (cases "kmalloc KERNEL_STACK_SZ h") auto

lemma sched_ok_current_upd:
  assumes "sched_ok s" and "current s \<notin> set (run_list s)" and "\<And>x. next_p (f x) = next_p x"
  shows "sched_ok (upd (current s) f s)"
  using assms by (intro sched_ok_upd)

lemma sched_ok_tick: "sched_ok (s\<lparr>tick_counter := c\<rparr>) = sched_ok s"
  by (simp add: sched_ok_def queue_fields)

lemma proc_reach_ok: "proc_reach k s \<Longrightarrow> sched_ok s"
proof (induction rule: proc_reach.induct)
  case (boot s0 s)
  have "\<exists>stk h. kmalloc KERNEL_STACK_SZ (kheap_of s0) = Some (stk, h)"
  proof (rule ccontr)
    assume n: "\<not> ?thesis"
    have "kheap_of (for_loop 0 MAX_PROCS (\<lambda>i. upd i (\<lambda>p. p\<lparr>pid := 0, state := PROC_ZOMBIE, next_p := None\<rparr>)) s0) = kheap_of s0"
      by (rule for_loop_keeps) (auto simp: upd_def)
    with n boot(2) show False
      by (cases "kmalloc KERNEL_STACK_SZ (kheap_of s0)") (auto simp: proc_init_def Let_def upd_def)
  qed
  then obtain stk h where "kmalloc KERNEL_STACK_SZ (kheap_of s0) = Some (stk, h)" by blast
  from init_spec [OF boot(1) this, of k] boot(2) show ?case by auto
next
  case (create s nm func r s')
  show ?case
  proof (cases "alloc_proc s")
    case None
    with create show ?thesis by (auto simp: proc_create_kernel_def)
  next
    case (Some p)
    have "\<exists>stk h. kmalloc KERNEL_STACK_SZ (kheap_of s) = Some (stk, h)"
      using create(2) Some by (cases "kmalloc KERNEL_STACK_SZ (kheap_of s)") (auto simp: proc_create_kernel_def Let_def upd_def)
    then obtain stk h where "kmalloc KERNEL_STACK_SZ (kheap_of s) = Some (stk, h)" by blast
    from create_spec [OF create(3) Some this, of k nm func] create(2) show ?thesis by auto
  qed
next
  case (yield s now s')
  with schedule_spec [of s now] show ?case by (auto simp: proc_yield_def)
next
  case (block s now s')
  with schedule_spec [OF sched_ok_current_upd [OF block(4,2)], of "state_update (\<lambda>_. PROC_BLOCKED)" now]
  show ?case by (auto simp: proc_block_def)
next
  case (unblock s p s')
  with unblock_spec [OF unblock(4,2)] show ?case by auto
next
  case (sleep s start now ms s')
  with schedule_spec [OF sched_ok_current_upd [OF sleep(4,2)],
    of "\<lambda>p. p\<lparr>wake_tick := ucast (start + ucast (ms div 10)), state := PROC_SLEEPING\<rparr>" now]
  show ?case by (auto simp: proc_sleep_def)
next
  case (exit s now code s')
  with schedule_spec [OF sched_ok_current_upd [OF exit(4,2)],
    of "\<lambda>p. p\<lparr>exit_code := code, state := PROC_ZOMBIE\<rparr>" now]
  show ?case by (auto simp: proc_exit_def)
next
  case (tick s now s')
  then have "sched_ok (s\<lparr>tick_counter := 0\<rparr>)" by (simp add: sched_ok_tick)
  with tick schedule_spec [OF this, of now] show ?case
    by (auto simp: proc_tick_def Let_def sched_ok_tick split: if_splits)
qed

section \<open>Two corners of the process life cycle\<close>

text \<open>
  A sleep that ends at once while nothing else is ready: the process puts itself on the queue,
  takes itself off again and goes on running, marked READY and queued nowhere. The next pass
  does not put it back, since it is not RUNNING, so it is lost.
\<close>

lemma short_sleep_leaves_queue:
  assumes ok: "sched_ok s" and q: "run_list s = []" and pid: "pid (proc_table s (current s)) \<noteq> 0"
    and ms: "ms div 10 = 0" and now: "now = ucast (ucast now :: u32)"
    and others: "\<And>i. i \<noteq> current s \<Longrightarrow> \<not> due now s i"
  shows "\<exists>s'. proc_sleep now now ms s = Some s' \<and> current s' = current s \<and> run_list s' = [] \<and>
    state_of s' (current s) = PROC_READY"
proof -
  let ?c = "current s"
  define s1 where "s1 = upd ?c (\<lambda>p. p\<lparr>wake_tick := ucast (now + ucast (ms div 10)), state := PROC_SLEEPING\<rparr>) s"
  have ok1: "sched_ok s1" "run_list s1 = []"
    using sched_ok_upd [OF ok, of "\<lambda>p. p\<lparr>wake_tick := ucast (now + ucast (ms div 10)), state := PROC_SLEEPING\<rparr>" ?c] q
    by (simp_all add: s1_def)
  have c: "?c < MAX_PROCS" "current s1 = ?c" using ok by (simp_all add: sched_ok_def s1_def upd_def)
  have d: "due now s1 i \<longleftrightarrow> i = ?c" for i
    using others [of i] pid c now ms by (cases "i = ?c") (auto simp: due_def s1_def upd_def)
  have r: "ready_q now s1 = [?c]"
  proof -
    have "filter (\<lambda>i. i = a) [0..<n] = (if a < n then [a] else [])" for a n :: nat
      by (induction n) (auto simp: less_Suc_eq)
    moreover have "due now s1 = (\<lambda>i. i = ?c)" using d by blast
    ultimately show ?thesis using c(1) by (simp add: ready_q_def ok1)
  qed
  then have "chosen now s1 = ?c" by (simp add: chosen_def)
  with schedule_spec [OF ok1(1), of now] r c(2) d show ?thesis
    by (auto simp: proc_sleep_def s1_def [symmetric] woken_def)
qed

text \<open>
  A slot is reused only when it is a ZOMBIE of pid 0: once every slot has held a process, exited
  or not, no process can be created any more.
\<close>

lemma no_slot_reused:
  assumes "\<forall>i < MAX_PROCS. pid (proc_table s i) \<noteq> 0 \<or> state (proc_table s i) \<noteq> PROC_ZOMBIE"
  shows "proc_create_kernel k nm func s = Some (None, s)"
proof -
  have "alloc_proc s = None" using assms by (auto simp: alloc_proc_def first_from_None)
  then show ?thesis by (simp add: proc_create_kernel_def)
qed

section \<open>A small process table\<close>

definition zero_cpu :: cpu_state where
  "zero_cpu = \<lparr>edi = 0, esi = 0, ebp = 0, ebx = 0, edx = 0, ecx = 0, eax = 0, eip = 0, eflags = 0, esp = 0\<rparr>"

definition demo_proc :: "u32 \<Rightarrow> proc_state \<Rightarrow> nat option \<Rightarrow> process" where
  "demo_proc n st nx = \<lparr>pid = n, name = [], state = st, cpu = zero_cpu, page_dir = 0, kstack = 0, kstack_top = 0,
     wake_tick = 0, exit_code = 0, parent = None, next_p = nx\<rparr>"

definition demo_procs :: procs where
  "demo_procs = \<lparr>proc_table = (\<lambda>i. demo_proc 0 PROC_ZOMBIE None)
       (1 := demo_proc 1 PROC_RUNNING None, 2 := demo_proc 2 PROC_READY (Some 3), 3 := demo_proc 3 PROC_READY None),
     next_pid = 4, current = 1, run_queue = Some 2, tick_counter = 0,
     kheap_of = \<lparr>mem = \<lambda>_. 0, heap_head = 0\<rparr>, active_dir = 0, regs = zero_cpu\<rparr>"

lemma demo_procs_ok: "run_list demo_procs = [2, 3]" "sched_ok demo_procs" "steady demo_procs"
  "state_of demo_procs (current demo_procs) = PROC_RUNNING"
proof -
  have c: "chain (proc_table demo_procs) (run_queue demo_procs) [2, 3]" by (simp add: demo_procs_def demo_proc_def)
  show r: "run_list demo_procs = [2, 3]" by (rule run_listI [OF c]) (simp_all add: MAX_PROCS_def)
  have "queue_ok demo_procs" by (rule run_listI [OF c]) (simp_all add: MAX_PROCS_def)
  then show ok: "sched_ok demo_procs"
    by (simp add: sched_ok_def r) (simp add: demo_procs_def demo_proc_def MAX_PROCS_def)
  show s: "state_of demo_procs (current demo_procs) = PROC_RUNNING"
    by (simp add: demo_procs_def demo_proc_def state_of_def)
  have "i \<in> {2, 3}" if "state_of demo_procs i = PROC_READY" for i
    using that by (simp add: demo_procs_def demo_proc_def state_of_def split: if_splits)
  with ok s show "steady demo_procs" by (simp add: steady_def r)
qed

lemma demo_boot: "\<exists>s. proc_reach k s"
proof -
  let ?s = "demo_procs\<lparr>run_queue := None\<rparr>"
  have "kmalloc KERNEL_STACK_SZ (kheap_of ?s) = Some (0, kheap_of ?s)"
    by (simp add: demo_procs_def kmalloc_def KERNEL_STACK_SZ_def kmalloc_from.simps)
  from init_spec [OF _ this, of k] obtain s where "proc_init k ?s = Some s" by auto
  then show ?thesis using proc_reach.boot [of ?s k s] by auto
qed

section \<open>Properties\<close>

text \<open>
  One pass of the scheduler, called by a running process that gives up the processor. It
  always returns. Sleepers whose tick has come are appended to the run queue in table order; the
  head of the queue, or slot 0 when it is empty, becomes the current process and is marked
  RUNNING; the process that was running goes to the tail if it still could run; its registers
  are saved in its own block, the processor gets those the chosen process saved, and the chosen
  process's address space is installed. No other process changes state.
\<close>

theorem proc_yield_dispatches:
  assumes "sched_ok s"
  shows "\<exists>s'. proc_yield now s = Some s' \<and> sched_ok s' \<and> current s' = chosen now s \<and>
    run_list s' = tl (ready_q now s) @
      (if chosen now s \<noteq> current s \<and> woken now s (current s) = PROC_RUNNING then [current s] else []) \<and>
    state_of s' = (if chosen now s = current s then woken now s
      else ((woken now s)(current s := if woken now s (current s) = PROC_RUNNING then PROC_READY
              else woken now s (current s)))(chosen now s := PROC_RUNNING)) \<and>
    (chosen now s \<noteq> current s \<longrightarrow>
       saved_regs (cpu (proc_table s' (current s))) = saved_regs (regs s) \<and>
       saved_regs (regs s') = saved_regs (cpu (proc_table s (chosen now s))) \<and>
       active_dir s' = page_dir (proc_table s (chosen now s)))"
  unfolding proc_yield_def by (rule schedule_spec [OF assms])

lemma proc_yield_dispatches_witness:
  "\<exists>s'. proc_yield 7 demo_procs = Some s' \<and> current s' = 2 \<and> run_list s' = [3, 1] \<and> state_of s' 2 = PROC_RUNNING"
proof -
  have "due 7 demo_procs = (\<lambda>_. False)"
    by (auto simp: fun_eq_iff due_def demo_procs_def demo_proc_def)
  then have "ready_q 7 demo_procs = [2, 3]" "woken 7 demo_procs 1 = PROC_RUNNING" "current demo_procs = 1"
    by (simp_all add: ready_q_def demo_procs_ok(1) woken_def fun_eq_iff) (simp_all add: state_of_def demo_procs_def demo_proc_def)
  with proc_yield_dispatches [OF demo_procs_ok(2), of 7] show ?thesis by (auto simp: chosen_def)
qed

text \<open>
  C9. Round robin is fair. The process at position \<open>k\<close> of the run queue is the current one
  after exactly \<open>k + 1\<close> yields, whoever yields, whenever they do, and however many sleepers wake
  in between.
\<close>

theorem round_robin_fair:
  assumes "sched_ok s" and "k < length (run_list s)" and "length ts = Suc k"
  shows "\<exists>s'. yields ts s = Some s' \<and> current s' = run_list s ! k"
  using yields_current [OF assms(1), of "take k (run_list s)" "run_list s ! k" "drop (Suc k) (run_list s)" ts] assms
  by (auto simp: id_take_nth_drop [symmetric])

lemma round_robin_fair_witness: "\<exists>s'. yields [5, 9] demo_procs = Some s' \<and> current s' = 3"
  using round_robin_fair [OF demo_procs_ok(2), of 1 "[5, 9]"] by (simp add: demo_procs_ok(1))

text \<open>
  C19. In every state the process manager reaches, the pointer-linked run queue is a finite list
  of different slots of the table, all of them READY, and each operation of a process returns:
  no walk of the queue runs round in circles or leaves the table.
\<close>

theorem proc_reachable_queue:
  assumes "proc_reach k s"
  shows "chain (proc_table s) (run_queue s) (run_list s) \<and> distinct (run_list s) \<and>
    (\<forall>p \<in> set (run_list s). p < MAX_PROCS \<and> state (proc_table s p) = PROC_READY) \<and>
    (\<forall>now. proc_yield now s \<noteq> None \<and> proc_tick now s \<noteq> None) \<and>
    (\<forall>p < MAX_PROCS. proc_unblock (Some p) s \<noteq> None) \<and>
    (current s \<notin> set (run_list s) \<longrightarrow>
       (\<forall>start now ms code. proc_block now s \<noteq> None \<and> proc_sleep start now ms s \<noteq> None \<and> proc_exit now code s \<noteq> None))"
proof -
  have ok: "sched_ok s" by (rule proc_reach_ok [OF assms])
  have sch: "schedule now s1 \<noteq> None" if "sched_ok s1" for now s1
    using schedule_spec [OF that, of now] by auto
  have "proc_tick now s \<noteq> None" for now
    using sch [of "s\<lparr>tick_counter := 0\<rparr>" now] ok by (simp add: proc_tick_def Let_def sched_ok_tick)
  moreover have "proc_unblock (Some p) s \<noteq> None" if "p < MAX_PROCS" for p
    using unblock_spec [OF ok that] by auto
  moreover have "proc_block now s \<noteq> None \<and> proc_sleep start now ms s \<noteq> None \<and> proc_exit now code s \<noteq> None"
    if nq: "current s \<notin> set (run_list s)" for start now ms code
    unfolding proc_block_def proc_sleep_def proc_exit_def
    by (intro conjI sch; rule sched_ok_current_upd [OF ok nq]; simp)
  ultimately show ?thesis
    using ok sch [OF ok] by (simp add: sched_ok_def queue_ok_def proc_yield_def)
qed

lemma proc_reachable_queue_witness:
  "\<exists>s. proc_reach \<lparr>idle_task = 1, proc_exit_addr = 2, kernel_directory = 3\<rparr> s \<and> distinct (run_list s)"
  using demo_boot [of "\<lparr>idle_task = 1, proc_exit_addr = 2, kernel_directory = 3\<rparr>"] proc_reachable_queue by blast



end
