(* ===== verification/Lib_CString.thy ===== *)
theory Lib_CString
  imports Prelude
begin

text \<open>
  C strings as byte buffers, and the bounded copy and the comparison the kernel files each carry
  under a name of their own (\<^verbatim>\<open>bscpy\<close>, \<^verbatim>\<open>vstrcpy\<close>, \<^verbatim>\<open>ustrcpy\<close>, \<^verbatim>\<open>bcmp\<close>, \<^verbatim>\<open>vstrcmp\<close>, ...). A buffer is the
  list of its bytes; reading at its end reads the terminator a string in it must have.
\<close>

definition ch :: "u8 list \<Rightarrow> nat \<Rightarrow> u8" where
  "ch s i = (if i < length s then s ! i else 0)"

text \<open>The bytes of a string literal, without its terminator.\<close>

definition lit :: "string \<Rightarrow> u8 list" where
  "lit s = map (\<lambda>c. of_nat (of_char c)) s"

text \<open>The string a buffer holds: its bytes before the first NUL.\<close>

definition cstr :: "u8 list \<Rightarrow> u8 list" where
  "cstr s = takeWhile (\<lambda>c. c \<noteq> 0) s"

text \<open>\<^verbatim>\<open>while(s[n])n++;\<close>\<close>

function str_len_from :: "u8 list \<Rightarrow> nat \<Rightarrow> nat" where
  "str_len_from s n = (if ch s n \<noteq> 0 then str_len_from s (Suc n) else n)"
  by pat_completeness auto
termination
  by (relation "measure (\<lambda>(s, n). length s - n)") (auto simp: ch_def split: if_splits)

declare str_len_from.simps [simp del]

definition str_len :: "u8 list \<Rightarrow> nat" where "str_len s = str_len_from s 0"

text \<open>\<^verbatim>\<open>while(i<max-1&&s[i]){d[i]=s[i];i++;}d[i]='\0';\<close>\<close>

function str_copy_from :: "nat \<Rightarrow> nat \<Rightarrow> u8 list \<Rightarrow> u8 list \<Rightarrow> u8 list" where
  "str_copy_from i mx s d =
     (if i < mx - 1 \<and> ch s i \<noteq> 0 then str_copy_from (Suc i) mx s (d[i := ch s i]) else d[i := 0])"
  by pat_completeness auto
termination
  by (relation "measure (\<lambda>(i, mx, s, d). mx - i)") auto

declare str_copy_from.simps [simp del]

definition str_copy :: "u8 list \<Rightarrow> u8 list \<Rightarrow> nat \<Rightarrow> u8 list" where
  "str_copy d s mx = str_copy_from 0 mx s d"

text \<open>\<^verbatim>\<open>while(*a&&*a==*b){a++;b++;}return(unsigned char)*a-(unsigned char)*b;\<close>\<close>

function str_cmp_from :: "u8 list \<Rightarrow> u8 list \<Rightarrow> nat \<Rightarrow> int" where
  "str_cmp_from a b i =
     (if ch a i \<noteq> 0 \<and> ch a i = ch b i then str_cmp_from a b (Suc i) else uint (ch a i) - uint (ch b i))"
  by pat_completeness auto
termination
  by (relation "measure (\<lambda>(a, b, i). length a - i)") (auto simp: ch_def split: if_splits)

declare str_cmp_from.simps [simp del]

definition str_cmp :: "u8 list \<Rightarrow> u8 list \<Rightarrow> int" where
  "str_cmp a b = str_cmp_from a b 0"

text \<open>\<^verbatim>\<open>while(*a&&*a==*b){a++;b++;}return *a=='\0'&&*b=='\0';\<close>\<close>

function str_eq_from :: "u8 list \<Rightarrow> u8 list \<Rightarrow> nat \<Rightarrow> bool" where
  "str_eq_from a b i =
     (if ch a i \<noteq> 0 \<and> ch a i = ch b i then str_eq_from a b (Suc i) else ch a i = 0 \<and> ch b i = 0)"
  by pat_completeness auto
termination
  by (relation "measure (\<lambda>(a, b, i). length a - i)") (auto simp: ch_def split: if_splits)

declare str_eq_from.simps [simp del]

definition str_eq :: "u8 list \<Rightarrow> u8 list \<Rightarrow> bool" where
  "str_eq a b = str_eq_from a b 0"

section \<open>What they compute\<close>

lemma cstr_simps [simp]: "cstr [] = []" "cstr (c # s) = (if c = 0 then [] else c # cstr s)"
  by (simp_all add: cstr_def)

lemma cstr_no_nul: "0 \<notin> set (cstr s)"
  by (induction s) auto

lemma cstr_id: "0 \<notin> set s \<Longrightarrow> cstr s = s"
  by (induction s) auto

lemma cstr_append_nul: "0 \<notin> set s \<Longrightarrow> cstr (s @ 0 # t) = s"
  by (induction s) auto

lemma cstr_le: "length (cstr s) \<le> length s"
  by (simp add: cstr_def length_takeWhile_le)

lemma cstr_take: "cstr (take n s) = take n (cstr s)"
  by (induction s arbitrary: n) (auto simp: take_Cons split: nat.splits)

lemma ch_Suc [simp]: "ch (c # s) (Suc i) = ch s i"
  by (simp add: ch_def)

lemma ch_0 [simp]: "ch (c # s) 0 = c" "ch [] i = 0"
  by (simp_all add: ch_def)

lemma str_len_eq: "str_len s = length (cstr s)"
proof -
  have "str_len_from s n = n + length (cstr (drop n s))" for n
  proof (induction s n rule: str_len_from.induct)
    case (1 s n)
    show ?case
    proof (cases "n < length s")
      case True
      then have "drop n s = s ! n # drop (Suc n) s" by (simp add: Cons_nth_drop_Suc)
      with 1 True show ?thesis by (subst str_len_from.simps) (simp add: ch_def)
    next
      case False
      then show ?thesis by (subst str_len_from.simps) (simp add: ch_def)
    qed
  qed
  then show ?thesis by (simp add: str_len_def)
qed

lemma str_copy_from_eq:
  assumes "i \<le> mx - 1" and "mx \<le> length d" and "0 < mx"
  shows "str_copy_from i mx s d =
    take i d @ take (mx - 1 - i) (cstr (drop i s)) @ 0 # drop (Suc (i + length (take (mx - 1 - i) (cstr (drop i s))))) d"
  using assms
proof (induction i mx s d rule: str_copy_from.induct)
  case (1 i mx s d)
  show ?case
  proof (cases "i < mx - 1 \<and> ch s i \<noteq> 0")
    case True
    then have s: "i < length s" "drop i s = s ! i # drop (Suc i) s" "s ! i \<noteq> 0"
      by (auto simp: ch_def Cons_nth_drop_Suc split: if_splits)
    have il: "i < length d" using True 1(3) by linarith
    have "str_copy_from i mx s d = str_copy_from (Suc i) mx s (d[i := s ! i])"
      using True s by (subst str_copy_from.simps) (simp add: ch_def)
    also have "\<dots> = take (Suc i) (d[i := s ! i]) @ take (mx - 1 - Suc i) (cstr (drop (Suc i) s)) @
        0 # drop (Suc (Suc i + length (take (mx - 1 - Suc i) (cstr (drop (Suc i) s))))) (d[i := s ! i])"
      using 1(1) [OF True] 1(2-4) True s by (simp add: ch_def)
    finally have e: "str_copy_from i mx s d = take (Suc i) (d[i := s ! i]) @ take (mx - 1 - Suc i) (cstr (drop (Suc i) s)) @
        0 # drop (Suc (Suc i + length (take (mx - 1 - Suc i) (cstr (drop (Suc i) s))))) (d[i := s ! i])" .
    have "take (Suc i) (d[i := s ! i]) = take i d @ [s ! i]"
      using il by (simp add: take_Suc_conv_app_nth)
    moreover have "mx - 1 - i = Suc (mx - 1 - Suc i)" using True by linarith
    ultimately show ?thesis using s e by simp
  next
    case False
    then have "take (mx - 1 - i) (cstr (drop i s)) = []"
      by (cases "i < length s") (auto simp: ch_def Cons_nth_drop_Suc [symmetric])
    moreover have "str_copy_from i mx s d = d[i := 0]"
      using False by (subst str_copy_from.simps) (simp only: if_False)
    moreover have "i < length d" using 1(2-4) by linarith
    ultimately show ?thesis by (simp only: upd_conv_take_nth_drop) simp
  qed
qed

text \<open>The copy: the string, cut to fit, then the terminator, then what the buffer held.\<close>

lemma str_copy_eq:
  assumes "0 < mx" and "mx \<le> length d"
  shows "str_copy d s mx = take (mx - 1) (cstr s) @ 0 # drop (Suc (length (take (mx - 1) (cstr s)))) d"
  using str_copy_from_eq [of 0 mx d s] assms by (simp add: str_copy_def)

lemma str_copy_props:
  assumes "0 < mx" and "mx \<le> length d"
  shows "length (str_copy d s mx) = length d" "cstr (str_copy d s mx) = take (mx - 1) (cstr s)"
proof -
  have "length (take (mx - 1) (cstr s)) < length d" using assms by simp
  then show "length (str_copy d s mx) = length d" using assms by (simp add: str_copy_eq)
  have "0 \<notin> set (take (mx - 1) (cstr s))" using cstr_no_nul by (metis in_set_takeD)
  then show "cstr (str_copy d s mx) = take (mx - 1) (cstr s)"
    using assms by (simp add: str_copy_eq cstr_append_nul)
qed

lemma str_cmp_eq: "str_cmp a b = 0 \<longleftrightarrow> cstr a = cstr b"
proof -
  have "str_cmp_from a b i = 0 \<longleftrightarrow> cstr (drop i a) = cstr (drop i b)" for i
  proof (induction a b i rule: str_cmp_from.induct)
    case (1 a b i)
    have d: "drop i x = (if i < length x then x ! i # drop (Suc i) x else [])" for x :: "u8 list"
      by (simp add: Cons_nth_drop_Suc)
    show ?case
    proof (cases "ch a i \<noteq> 0 \<and> ch a i = ch b i")
      case True
      with 1 show ?thesis
        by (subst str_cmp_from.simps, subst (1 2) d) (auto simp: ch_def split: if_splits)
    next
      case False
      then have "str_cmp_from a b i = 0 \<longleftrightarrow> ch a i = ch b i"
        by (subst str_cmp_from.simps) (auto simp: word_uint_eq_iff)
      also have "\<dots> \<longleftrightarrow> cstr (drop i a) = cstr (drop i b)"
        using False by (subst (1 2) d) (auto simp: ch_def split: if_splits)
      finally show ?thesis .
    qed
  qed
  from this [of 0] show ?thesis by (simp add: str_cmp_def)
qed

lemma str_eq_iff: "str_eq a b \<longleftrightarrow> cstr a = cstr b"
proof -
  have "str_eq_from a b i \<longleftrightarrow> str_cmp_from a b i = 0" for i
  proof (induction a b i rule: str_eq_from.induct)
    case (1 a b i)
    then show ?case
      by (subst str_eq_from.simps, subst str_cmp_from.simps) (auto simp: word_uint_eq_iff)
  qed
  then show ?thesis using str_cmp_eq [of a b] by (simp add: str_eq_def str_cmp_def)
qed

end
