(* ===== verification/Le_Bytes.thy ===== *)
theory Le_Bytes
  imports Mem_Bytes Lib_CString
begin

text \<open>
  16- and 32-bit numbers as the bytes a little-endian machine stores, and back: the disk
  structures, the packet headers and the boot archive are read and written through them.
\<close>

section \<open>Numbers\<close>

definition le16 :: "u16 \<Rightarrow> u8 list" where
  "le16 v = [ucast v, ucast (drop_bit 8 v)]"

definition le32 :: "u32 \<Rightarrow> u8 list" where
  "le32 v = [ucast v, ucast (drop_bit 8 v), ucast (drop_bit 16 v), ucast (drop_bit 24 v)]"

definition de16 :: "u8 list \<Rightarrow> u16" where
  "de16 bs = ucast (ch bs 0) OR push_bit 8 (ucast (ch bs 1))"

definition de32 :: "u8 list \<Rightarrow> u32" where
  "de32 bs = ucast (ch bs 0) OR push_bit 8 (ucast (ch bs 1)) OR
     push_bit 16 (ucast (ch bs 2)) OR push_bit 24 (ucast (ch bs 3))"

lemma le_length [simp]: "length (le16 v) = 2" "length (le32 w) = 4"
  by (simp_all add: le16_def le32_def)

lemma de32_le32 [simp]: "de32 (le32 v @ r) = v" "de32 (le32 v) = v"
  using split_word_bytes [of v] by (simp_all add: de32_def le32_def ch_def)

lemma split_half_bytes: "(ucast (ucast v :: u8) :: u16) OR push_bit 8 (ucast (ucast (drop_bit 8 v) :: u8)) = (v :: u16)"
proof (rule bit_word_eqI)
  fix n assume "n < LENGTH(16)"
  then show "bit ((ucast (ucast v :: u8) :: u16) OR push_bit 8 (ucast (ucast (drop_bit 8 v) :: u8))) n = bit v n"
    by (cases "n < 8") (auto simp: bit_simps)
qed

lemma de16_le16 [simp]: "de16 (le16 v @ r) = v" "de16 (le16 v) = v"
  using split_half_bytes [of v] by (simp_all add: de16_def le16_def ch_def)

lemma le32_de32: "length bs = 4 \<Longrightarrow> le32 (de32 bs) = bs"
proof -
  assume "length bs = 4"
  then obtain a b c d where bs: "bs = [a, b, c, d]" by (auto simp: length_Suc_conv numeral_eq_Suc)
  define w :: u32 where "w = ucast a OR push_bit 8 (ucast b) OR push_bit 16 (ucast c) OR push_bit 24 (ucast d)"
  have "(ucast w :: u8) = a" "(ucast (drop_bit 8 w) :: u8) = b" "(ucast (drop_bit 16 w) :: u8) = c"
    "(ucast (drop_bit 24 w) :: u8) = d"
    unfolding w_def by (rule bit_word_eqI; auto simp: bit_simps dest: bit_imp_le_length)+
  then show ?thesis by (simp add: bs le32_def de32_def ch_def w_def)
qed

lemma le16_de16: "length bs = 2 \<Longrightarrow> le16 (de16 bs) = bs"
proof -
  assume "length bs = 2"
  then obtain a b where bs: "bs = [a, b]" by (auto simp: length_Suc_conv numeral_eq_Suc)
  define w :: u16 where "w = ucast a OR push_bit 8 (ucast b)"
  have "(ucast w :: u8) = a" "(ucast (drop_bit 8 w) :: u8) = b"
    unfolding w_def by (rule bit_word_eqI; auto simp: bit_simps dest: bit_imp_le_length)+
  then show ?thesis by (simp add: bs le16_def de16_def ch_def w_def)
qed

text \<open>Arrays of 32-bit words.\<close>

fun le32s :: "u32 list \<Rightarrow> u8 list" where
  "le32s [] = []"
| "le32s (v # vs) = le32 v @ le32s vs"

fun de32s :: "nat \<Rightarrow> u8 list \<Rightarrow> u32 list" where
  "de32s 0 bs = []"
| "de32s (Suc n) bs = de32 bs # de32s n (drop 4 bs)"

lemma le32s_length [simp]: "length (le32s vs) = 4 * length vs"
  by (induction vs) auto

lemma de32s_le32s: "n = length vs \<Longrightarrow> de32s n (le32s vs @ r) = vs"
  by (induction vs arbitrary: n) auto

lemma de32s_length [simp]: "length (de32s n bs) = n"
  by (induction n arbitrary: bs) auto

lemma de32_take: "4 \<le> n \<Longrightarrow> de32 (take n bs) = de32 bs"
  by (auto simp: de32_def ch_def)

lemma le32s_de32s: "length bs = 4 * n \<Longrightarrow> le32s (de32s n bs) = bs"
proof (induction n arbitrary: bs)
  case 0
  then show ?case by simp
next
  case (Suc n)
  have "le32 (de32 bs) = take 4 bs"
    using le32_de32 [of "take 4 bs"] Suc.prems by (simp add: de32_take)
  with Suc show ?case by simp
qed

end
