(* ===== verification/Fs_Layout.thy ===== *)
theory Fs_Layout
  imports Le_Bytes
begin

text \<open>
  The structures StackFS keeps on the disk (\<^verbatim>\<open>kernel/fs/stackfs.h\<close>), packed and little-endian: the
  superblock, the 120-byte inode and the 60-byte directory entry, each as a record with its
  encoding to bytes and back. The kernel casts between the two; the round trips are proved here.
\<close>

section \<open>Constants\<close>

definition STACKFS_MAGIC :: u32 where "STACKFS_MAGIC = 0x57AC4B05"
definition STACKFS_VERSION :: u32 where "STACKFS_VERSION = 1"
definition STACKFS_SECTOR_SIZE :: nat where "STACKFS_SECTOR_SIZE = 512"
definition STACKFS_BLOCK_SIZE :: nat where "STACKFS_BLOCK_SIZE = 4096"
definition STACKFS_NAME_MAX :: nat where "STACKFS_NAME_MAX = 56"
definition STACKFS_MAX_INODES :: nat where "STACKFS_MAX_INODES = 128"
definition STACKFS_DIRECT_PTRS :: nat where "STACKFS_DIRECT_PTRS = 12"
definition STACKFS_SB_SECTOR :: nat where "STACKFS_SB_SECTOR = 0"
definition STACKFS_INODE_START :: nat where "STACKFS_INODE_START = 1"
definition STACKFS_INODE_SECS :: nat where "STACKFS_INODE_SECS = 30"
definition STACKFS_BITMAP_START :: nat where "STACKFS_BITMAP_START = 31"
definition STACKFS_BITMAP_SECS :: nat where "STACKFS_BITMAP_SECS = 32"
definition STACKFS_DATA_START :: nat where "STACKFS_DATA_START = 63"
definition SFS_TYPE_FREE :: u8 where "SFS_TYPE_FREE = 0"
definition SFS_TYPE_FILE :: u8 where "SFS_TYPE_FILE = 1"
definition SFS_TYPE_DIR :: u8 where "SFS_TYPE_DIR = 2"

lemmas sfs_consts = STACKFS_SECTOR_SIZE_def STACKFS_BLOCK_SIZE_def STACKFS_NAME_MAX_def STACKFS_MAX_INODES_def
  STACKFS_DIRECT_PTRS_def STACKFS_SB_SECTOR_def STACKFS_INODE_START_def STACKFS_INODE_SECS_def
  STACKFS_BITMAP_START_def STACKFS_BITMAP_SECS_def STACKFS_DATA_START_def

section \<open>Structures\<close>

record super =
  s_magic :: u32
  s_version :: u32
  total_blocks :: u32
  free_blocks :: u32
  total_inodes :: u32
  free_inodes :: u32
  root_inode :: u32
  s_created :: u32
  s_label :: "u8 list"
  s_pad :: "u8 list"

record inode =
  i_type :: u8
  i_pad :: u8
  i_perm :: u16
  i_size :: u32
  i_created :: u32
  i_modified :: u32
  i_blocks :: "u32 list"
  i_name :: "u8 list"

record sfs_dirent =
  d_inode :: u32
  d_name :: "u8 list"

text \<open>Array members have the length their declaration gives them.\<close>

definition super_wf :: "super \<Rightarrow> bool" where
  "super_wf s \<longleftrightarrow> length (s_label s) = 32 \<and> length (s_pad s) = 452"

definition inode_wf :: "inode \<Rightarrow> bool" where
  "inode_wf i \<longleftrightarrow> length (i_blocks i) = STACKFS_DIRECT_PTRS \<and> length (i_name i) = STACKFS_NAME_MAX"

definition enc_super :: "super \<Rightarrow> u8 list" where
  "enc_super s = le32 (s_magic s) @ le32 (s_version s) @ le32 (total_blocks s) @ le32 (free_blocks s) @
     le32 (total_inodes s) @ le32 (free_inodes s) @ le32 (root_inode s) @ le32 (s_created s) @ s_label s @ s_pad s"

definition dec_super :: "u8 list \<Rightarrow> super" where
  "dec_super bs = \<lparr>s_magic = de32 bs, s_version = de32 (drop 4 bs), total_blocks = de32 (drop 8 bs),
     free_blocks = de32 (drop 12 bs), total_inodes = de32 (drop 16 bs), free_inodes = de32 (drop 20 bs),
     root_inode = de32 (drop 24 bs), s_created = de32 (drop 28 bs), s_label = take 32 (drop 32 bs),
     s_pad = take 452 (drop 64 bs)\<rparr>"

definition enc_inode :: "inode \<Rightarrow> u8 list" where
  "enc_inode i = [i_type i, i_pad i] @ le16 (i_perm i) @ le32 (i_size i) @ le32 (i_created i) @ le32 (i_modified i) @
     le32s (i_blocks i) @ i_name i"

definition dec_inode :: "u8 list \<Rightarrow> inode" where
  "dec_inode bs = \<lparr>i_type = ch bs 0, i_pad = ch bs 1, i_perm = de16 (drop 2 bs), i_size = de32 (drop 4 bs),
     i_created = de32 (drop 8 bs), i_modified = de32 (drop 12 bs), i_blocks = de32s 12 (drop 16 bs),
     i_name = take 56 (drop 64 bs)\<rparr>"

definition enc_dirent :: "sfs_dirent \<Rightarrow> u8 list" where
  "enc_dirent e = le32 (d_inode e) @ d_name e"

definition dec_dirent :: "u8 list \<Rightarrow> sfs_dirent" where
  "dec_dirent bs = \<lparr>d_inode = de32 bs, d_name = take 56 (drop 4 bs)\<rparr>"

lemma enc_super_length: "super_wf s \<Longrightarrow> length (enc_super s) = 516"
  by (simp add: enc_super_def super_wf_def)

lemma dec_enc_super: "super_wf s \<Longrightarrow> dec_super (enc_super s) = s"
  by (simp add: dec_super_def enc_super_def super_wf_def)

lemma enc_inode_length: "inode_wf i \<Longrightarrow> length (enc_inode i) = 120"
  by (simp add: enc_inode_def inode_wf_def sfs_consts)

lemma dec_enc_inode: "inode_wf i \<Longrightarrow> dec_inode (enc_inode i) = i"
  by (simp add: dec_inode_def enc_inode_def inode_wf_def sfs_consts de32s_le32s)

lemma dec_enc_dirent: "length (d_name e) = 56 \<Longrightarrow> dec_dirent (enc_dirent e) = e"
  by (simp add: dec_dirent_def enc_dirent_def)

lemma dec_inode_wf: "length bs = 120 \<Longrightarrow> inode_wf (dec_inode bs)"
  by (simp add: dec_inode_def inode_wf_def sfs_consts)

lemma dec_super_wf: "length bs = 516 \<Longrightarrow> super_wf (dec_super bs)"
  by (simp add: dec_super_def super_wf_def)

text \<open>The inode table as one array of bytes.\<close>

definition enc_inodes :: "inode list \<Rightarrow> u8 list" where
  "enc_inodes is = concat (map enc_inode is)"

fun dec_inodes :: "nat \<Rightarrow> u8 list \<Rightarrow> inode list" where
  "dec_inodes 0 bs = []"
| "dec_inodes (Suc n) bs = dec_inode (take 120 bs) # dec_inodes n (drop 120 bs)"

lemma enc_inodes_length: "\<forall>i \<in> set is. inode_wf i \<Longrightarrow> length (enc_inodes is) = 120 * length is"
  by (induction "is") (auto simp: enc_inodes_def enc_inode_length)

lemma dec_enc_inodes: "\<forall>i \<in> set is. inode_wf i \<Longrightarrow> n = length is \<Longrightarrow> dec_inodes n (enc_inodes is) = is"
  by (induction "is" arbitrary: n) (auto simp: enc_inodes_def enc_inode_length dec_enc_inode)

section \<open>Pieces of a byte array\<close>

text \<open>\<open>for (i = 0; i < length bs; i++) d[off + i] = bs[i];\<close>\<close>

definition put_bytes :: "u8 list \<Rightarrow> nat \<Rightarrow> u8 list \<Rightarrow> u8 list" where
  "put_bytes d off bs = take off d @ bs @ drop (off + length bs) d"

lemma put_bytes_length: "off + length bs \<le> length d \<Longrightarrow> length (put_bytes d off bs) = length d"
  by (simp add: put_bytes_def)

lemma put_bytes_nth:
  "off + length bs \<le> length d \<Longrightarrow> i < length d \<Longrightarrow>
   put_bytes d off bs ! i = (if off \<le> i \<and> i < off + length bs then bs ! (i - off) else d ! i)"
  by (auto simp: put_bytes_def nth_append)

end
