(* ===== verification/Fs_Disk.thy ===== *)
theory Fs_Disk
  imports Fs_Layout
begin

text \<open>
  The disk as the file system sees it through \<^verbatim>\<open>ata_read\<close> and \<^verbatim>\<open>ata_write\<close> with a count of one: an
  array of 512-byte sectors, some of which the drive may fail to transfer. A failed read leaves
  the caller's buffer as it was; a failed write leaves the medium, and is reported as a success, as
  \<^verbatim>\<open>ata_write\<close> does for a single sector (\<open>ata_provides_disk\<close>).
\<close>

record disk =
  disk_present :: bool
  disk_sectors :: u32
  media :: "u32 \<Rightarrow> u8 list"
  bad :: "u32 \<Rightarrow> bool"

definition disk_read :: "disk \<Rightarrow> u32 \<Rightarrow> u8 list option" where
  "disk_read d lba = (if disk_present d \<and> \<not> bad d lba then Some (media d lba) else None)"

definition disk_write :: "u32 \<Rightarrow> u8 list \<Rightarrow> disk \<Rightarrow> bool \<times> disk" where
  "disk_write lba bs d =
     (if \<not> disk_present d then (False, d)
      else (True, if bad d lba then d else d\<lparr>media := (media d)(lba := bs)\<rparr>))"

text \<open>Every sector of the medium has its 512 bytes.\<close>

definition disk_wf :: "disk \<Rightarrow> bool" where
  "disk_wf d \<longleftrightarrow> (\<forall>lba. length (media d lba) = 512)"

definition healthy :: "disk \<Rightarrow> bool" where
  "healthy d \<longleftrightarrow> disk_present d \<and> (\<forall>lba < disk_sectors d. \<not> bad d lba)"

lemma disk_read_write:
  "disk_read (snd (disk_write lba bs d)) x =
     (if x = lba \<and> disk_present d \<and> \<not> bad d lba then Some bs else disk_read d x)"
  by (auto simp: disk_read_def disk_write_def)

lemma disk_write_frame [simp]:
  "disk_present (snd (disk_write lba bs d)) = disk_present d"
  "disk_sectors (snd (disk_write lba bs d)) = disk_sectors d"
  "bad (snd (disk_write lba bs d)) = bad d"
  by (simp_all add: disk_write_def)

lemma disk_wf_write: "disk_wf d \<Longrightarrow> length bs = 512 \<Longrightarrow> disk_wf (snd (disk_write lba bs d))"
  by (auto simp: disk_wf_def disk_write_def)

lemma healthy_write [simp]: "healthy (snd (disk_write lba bs d)) = healthy d"
  by (simp add: healthy_def)

end
