(* ===== verification/Fs_Vnode.thy ===== *)
theory Fs_Vnode
  imports Lib_CString
begin

text \<open>
  The node the file systems hand to the VFS (\<^verbatim>\<open>kernel/fs/vfs.h\<close>). The table of operations a node
  points to is one of those the kernel defines; the owner, permission and time fields are set to
  zero and read by nobody, so they are left out.
\<close>

definition VFS_FILE :: u32 where "VFS_FILE = 1"
definition VFS_DIR :: u32 where "VFS_DIR = 2"
definition VFS_NAME_MAX :: nat where "VFS_NAME_MAX = 128"
definition VFS_PATH_MAX :: nat where "VFS_PATH_MAX = 512"

datatype vfs_ops = Ops_stackfs | Ops_initrd_file | Ops_initrd_dir

record vnode =
  v_name :: "u8 list"
  v_flags :: u32
  v_inode :: u32
  v_size :: u32
  v_ops :: vfs_ops

record dirent =
  de_name :: "u8 list"
  de_inode :: u32

end
