(* ===== verification/Fs_StackFS.thy ===== *)
theory Fs_StackFS
  imports Fs_Disk Fs_Vnode
begin

text \<open>
  StackFS, \<^verbatim>\<open>kernel/fs/stackfs.c\<close>: the superblock, the inode table and the block bitmap are kept in
  memory, with a dirty flag each, and written back by \<open>stackfs_sync\<close>; file and directory data
  are blocks of eight sectors. The three block buffers are part of the state, as the code has
  them. Console messages are left out; whether \<^verbatim>\<open>kmalloc\<close> finds room for a node is an argument.
\<close>

section \<open>State\<close>

definition BITMAP_BYTES :: nat where "BITMAP_BYTES = STACKFS_BITMAP_SECS * 512"

record sfs =
  sb :: super
  inodes :: "inode list"
  bmap :: "u8 list"
  mounted :: bool
  sb_dirty :: bool
  inodes_dirty :: bool
  bitmap_dirty :: bool
  buf_rw :: "u8 list"
  buf_dir :: "u8 list"
  buf_find :: "u8 list"
  dsk :: disk

definition read_sector :: "sfs \<Rightarrow> nat \<Rightarrow> u8 list option" where
  "read_sector s lba = disk_read (dsk s) (of_nat lba)"

definition write_sector :: "nat \<Rightarrow> u8 list \<Rightarrow> sfs \<Rightarrow> sfs" where
  "write_sector lba bs s = s\<lparr>dsk := snd (disk_write (of_nat lba) bs (dsk s))\<rparr>"

section \<open>Metadata\<close>

text \<open>\<open>junk\<close> is what the uninitialised sector buffer on the stack holds.\<close>

definition load_inodes :: "u8 list \<Rightarrow> sfs \<Rightarrow> sfs" where
  "load_inodes junk s =
     (let total = STACKFS_MAX_INODES * 120;
          (dst, tmp, dn) =
            for_loop 0 STACKFS_INODE_SECS
              (\<lambda>i (dst, tmp, dn).
                 if dn < total then
                   (let tmp = (case read_sector s (STACKFS_INODE_START + i) of Some x \<Rightarrow> x | None \<Rightarrow> tmp);
                        n = (if total < dn + 512 then total - dn else 512)
                    in (put_bytes dst dn (take n tmp), tmp, dn + n))
                 else (dst, tmp, dn))
              (enc_inodes (inodes s), junk, 0)
      in s\<lparr>inodes := dec_inodes STACKFS_MAX_INODES dst\<rparr>)"

definition save_inodes_disk :: "sfs \<Rightarrow> sfs" where
  "save_inodes_disk s =
     (let src = enc_inodes (inodes s); total = STACKFS_MAX_INODES * 120;
          (dn, s) =
            for_loop 0 STACKFS_INODE_SECS
              (\<lambda>i (dn, s).
                 if dn < total then
                   (let n = (if total < dn + 512 then total - dn else 512);
                        tmp = put_bytes (replicate 512 0) 0 (take n (drop dn src))
                    in (dn + n, write_sector (STACKFS_INODE_START + i) tmp s))
                 else (dn, s))
              (0, s)
      in s\<lparr>inodes_dirty := False\<rparr>)"

definition save_sb_disk :: "sfs \<Rightarrow> sfs" where
  "save_sb_disk s = (write_sector STACKFS_SB_SECTOR (take 512 (enc_super (sb s))) s)\<lparr>sb_dirty := False\<rparr>"

definition load_bitmap :: "sfs \<Rightarrow> sfs" where
  "load_bitmap s =
     for_loop 0 STACKFS_BITMAP_SECS
       (\<lambda>i s. case read_sector s (STACKFS_BITMAP_START + i) of
                 Some x \<Rightarrow> s\<lparr>bmap := put_bytes (bmap s) (i * 512) x\<rparr>
               | None \<Rightarrow> s) s"

definition save_bitmap_disk :: "sfs \<Rightarrow> sfs" where
  "save_bitmap_disk s =
     (for_loop 0 STACKFS_BITMAP_SECS
        (\<lambda>i s. write_sector (STACKFS_BITMAP_START + i) (take 512 (drop (i * 512) (bmap s))) s) s)
     \<lparr>bitmap_dirty := False\<rparr>"

definition stackfs_sync :: "sfs \<Rightarrow> sfs" where
  "stackfs_sync s =
     (let s = (if inodes_dirty s then save_inodes_disk s else s);
          s = (if bitmap_dirty s then save_bitmap_disk s else s)
      in if sb_dirty s then save_sb_disk s else s)"

section \<open>Blocks and inodes\<close>

definition bitmap_alloc :: "sfs \<Rightarrow> nat option \<times> sfs" where
  "bitmap_alloc s =
     (case first_from (\<lambda>i. bmap s ! (i div 8) AND push_bit (i mod 8) 1 = 0) 0 (nat (sint (total_blocks (sb s)))) of
        None \<Rightarrow> (None, s)
      | Some i \<Rightarrow>
          (Some i, s\<lparr>bmap := (bmap s)[i div 8 := bmap s ! (i div 8) OR push_bit (i mod 8) 1],
                     sb := (sb s)\<lparr>free_blocks := free_blocks (sb s) - 1\<rparr>,
                     bitmap_dirty := True, sb_dirty := True\<rparr>))"

definition bitmap_free_blk :: "u32 \<Rightarrow> sfs \<Rightarrow> sfs" where
  "bitmap_free_blk b s =
     (if sint b < 0 then s
      else
        (let i = unat b
         in s\<lparr>bmap := (bmap s)[i div 8 := bmap s ! (i div 8) AND NOT (push_bit (i mod 8) 1)],
              sb := (sb s)\<lparr>free_blocks := free_blocks (sb s) + 1\<rparr>, bitmap_dirty := True, sb_dirty := True\<rparr>))"

definition blk_lba :: "u32 \<Rightarrow> u32" where
  "blk_lba b = of_nat STACKFS_DATA_START + b * of_nat (STACKFS_BLOCK_SIZE div STACKFS_SECTOR_SIZE)"

definition read_block :: "sfs \<Rightarrow> u32 \<Rightarrow> u8 list \<Rightarrow> bool \<times> u8 list" where
  "read_block s b buf =
     for_loop 0 (STACKFS_BLOCK_SIZE div STACKFS_SECTOR_SIZE)
       (\<lambda>i (good, p).
          if \<not> good then (False, p)
          else (case disk_read (dsk s) (blk_lba b + of_nat i) of
                  None \<Rightarrow> (False, p)
                | Some x \<Rightarrow> (True, put_bytes p (i * 512) x)))
       (True, buf)"

definition write_block :: "u32 \<Rightarrow> u8 list \<Rightarrow> sfs \<Rightarrow> bool \<times> sfs" where
  "write_block b buf s =
     for_loop 0 (STACKFS_BLOCK_SIZE div STACKFS_SECTOR_SIZE)
       (\<lambda>i (good, s).
          if \<not> good then (False, s)
          else (case disk_write (blk_lba b + of_nat i) (take 512 (drop (i * 512) buf)) (dsk s) of
                  (r, d) \<Rightarrow> (r, s\<lparr>dsk := d\<rparr>)))
       (True, s)"

definition alloc_inode :: "sfs \<Rightarrow> nat option \<times> sfs" where
  "alloc_inode s =
     (case first_from (\<lambda>i. i_type (inodes s ! i) = SFS_TYPE_FREE) 1 STACKFS_MAX_INODES of
        None \<Rightarrow> (None, s)
      | Some i \<Rightarrow>
          (Some i, s\<lparr>sb := (sb s)\<lparr>free_inodes := free_inodes (sb s) - 1\<rparr>, sb_dirty := True, inodes_dirty := True\<rparr>))"

definition upd_inode :: "nat \<Rightarrow> (inode \<Rightarrow> inode) \<Rightarrow> sfs \<Rightarrow> sfs" where
  "upd_inode i f s = s\<lparr>inodes := (inodes s)[i := f (inodes s ! i)]\<rparr>"

definition zero_inode :: inode where
  "zero_inode = \<lparr>i_type = 0, i_pad = 0, i_perm = 0, i_size = 0, i_created = 0, i_modified = 0,
     i_blocks = replicate 12 0, i_name = replicate 56 0\<rparr>"

section \<open>Format and mount\<close>

definition stackfs_format :: "u8 list option \<Rightarrow> sfs \<Rightarrow> bool \<times> sfs" where
  "stackfs_format lbl s =
     (if \<not> disk_present (dsk s) then (False, s)
      else
        (let spb = of_nat (STACKFS_BLOCK_SIZE div STACKFS_SECTOR_SIZE);
             total = (disk_sectors (dsk s) - of_nat STACKFS_DATA_START) div spb;
             s = s\<lparr>sb := \<lparr>s_magic = STACKFS_MAGIC, s_version = STACKFS_VERSION, total_blocks = total, free_blocks = total,
                          total_inodes = of_nat STACKFS_MAX_INODES, free_inodes = of_nat (STACKFS_MAX_INODES - 1),
                          root_inode = 1, s_created = 0,
                          s_label = str_copy (replicate 32 0)
                            (case lbl of Some l \<Rightarrow> l | None \<Rightarrow> [83, 116, 97, 99, 107, 70, 83]) 32,
                          s_pad = replicate 452 0\<rparr>\<rparr>;
             s = s\<lparr>inodes := replicate STACKFS_MAX_INODES zero_inode\<rparr>;
             s = s\<lparr>bmap := replicate BITMAP_BYTES 0\<rparr>;
             s = upd_inode 1 (\<lambda>i. i\<lparr>i_type := SFS_TYPE_DIR, i_perm := 0x1ED,
                                    i_name := str_copy (i_name i) [47] STACKFS_NAME_MAX\<rparr>) s;
             s = s\<lparr>sb_dirty := True, inodes_dirty := True, bitmap_dirty := True\<rparr>
         in (True, stackfs_sync s)))"

definition stackfs_detect :: "sfs \<Rightarrow> bool" where
  "stackfs_detect s \<longleftrightarrow>
     disk_present (dsk s) \<and>
     (case read_sector s STACKFS_SB_SECTOR of None \<Rightarrow> False | Some x \<Rightarrow> s_magic (dec_super x) = STACKFS_MAGIC)"

text \<open>The first 512 of the superblock's 516 bytes are read into the one in memory.\<close>

definition stackfs_mount :: "bool \<Rightarrow> u8 list \<Rightarrow> sfs \<Rightarrow> vnode option \<times> sfs" where
  "stackfs_mount room junk s =
     (if \<not> disk_present (dsk s) then (None, s)
      else case read_sector s STACKFS_SB_SECTOR of
        None \<Rightarrow> (None, s)
      | Some x \<Rightarrow>
          (let s = s\<lparr>sb := dec_super (put_bytes (enc_super (sb s)) 0 x)\<rparr>
           in if s_magic (sb s) \<noteq> STACKFS_MAGIC then (None, s)
              else
                (let s = load_inodes junk s;
                     s = load_bitmap s;
                     s = s\<lparr>sb_dirty := False, inodes_dirty := False, bitmap_dirty := False\<rparr>;
                     s = s\<lparr>mounted := True\<rparr>
                 in if \<not> room then (None, s)
                    else (Some \<lparr>v_name = str_copy (replicate VFS_NAME_MAX 0) [47] VFS_NAME_MAX, v_flags = VFS_DIR,
                                v_inode = root_inode (sb s), v_size = 0, v_ops = Ops_stackfs\<rparr>, s))))"

section \<open>Files\<close>

text \<open>
  The inode number of a node is read as a C \<open>int\<close>. A result of -1 is the word with all bits set,
  as the \<open>int32_t\<close> the code returns.
\<close>

definition valid_ino :: "u32 \<Rightarrow> bool" where
  "valid_ino n \<longleftrightarrow> \<not> (sint n \<le> 0 \<or> int STACKFS_MAX_INODES \<le> sint n)"

text \<open>The bytes of one pass of the transfer loops: block index, offset in the block, count.\<close>

definition blk_index :: "u32 \<Rightarrow> u32 \<Rightarrow> nat" where
  "blk_index offset dn = unat ((offset + dn) div of_nat STACKFS_BLOCK_SIZE)"

definition blk_off :: "u32 \<Rightarrow> u32 \<Rightarrow> nat" where
  "blk_off offset dn = unat ((offset + dn) mod of_nat STACKFS_BLOCK_SIZE)"

definition blk_count :: "u32 \<Rightarrow> u32 \<Rightarrow> u32 \<Rightarrow> u32" where
  "blk_count offset sz dn =
     (let tc = of_nat STACKFS_BLOCK_SIZE - of_nat (blk_off offset dn) in if sz - dn < tc then sz - dn else tc)"

lemma blk_count_nat:
  assumes "dn < sz"
  shows "unat (blk_count offset sz dn) = min (4096 - blk_off offset dn) (unat sz - unat dn)"
    "0 < unat (blk_count offset sz dn)" "unat (dn + blk_count offset sz dn) = unat dn + unat (blk_count offset sz dn)"
    "unat dn + unat (blk_count offset sz dn) \<le> unat sz"
proof -
  have o: "blk_off offset dn < 4096" by (simp add: blk_off_def sfs_consts unat_mod)
  have t: "unat (4096 - of_nat (blk_off offset dn) :: u32) = 4096 - blk_off offset dn"
    using o by (simp add: unat_sub_no_wrap unat_of_nat_small)
  have l: "unat dn < unat sz" "unat (sz - dn) = unat sz - unat dn"
    using assms by (simp_all add: word_less_nat_alt unat_sub_no_wrap)
  show u: "unat (blk_count offset sz dn) = min (4096 - blk_off offset dn) (unat sz - unat dn)"
    using t l by (simp add: blk_count_def Let_def sfs_consts word_less_nat_alt)
  show "0 < unat (blk_count offset sz dn)" and le: "unat dn + unat (blk_count offset sz dn) \<le> unat sz"
    using u o l by auto
  have "unat sz < 2 ^ LENGTH(32)" by (rule unsigned_less)
  with le have "unat dn + unat (blk_count offset sz dn) < 2 ^ LENGTH(32)" by (rule le_less_trans)
  then show "unat (dn + blk_count offset sz dn) = unat dn + unat (blk_count offset sz dn)"
    by (rule unat_add_no_wrap)
qed

lemma blk_count_measure: "dn < sz \<Longrightarrow> unat sz - unat (dn + blk_count offset sz dn) < unat sz - unat dn"
  using blk_count_nat(2-4) [of dn sz offset] by linarith

function bfs_read_loop :: "inode \<Rightarrow> u32 \<Rightarrow> u32 \<Rightarrow> u32 \<Rightarrow> u8 list \<Rightarrow> sfs \<Rightarrow> u32 \<times> u8 list \<times> sfs" where
  "bfs_read_loop inp offset sz dn buf s =
     (if dn < sz then
        (let bi = blk_index offset dn; bo = blk_off offset dn; tc = blk_count offset sz dn
         in if STACKFS_DIRECT_PTRS \<le> bi \<or> i_blocks inp ! bi = 0 then (dn, buf, s)
            else (case read_block s (i_blocks inp ! bi) (buf_rw s) of
              (good, b) \<Rightarrow>
                (let s = s\<lparr>buf_rw := b\<rparr>
                 in if \<not> good then (dn, buf, s)
                    else bfs_read_loop inp offset sz (dn + tc)
                           (put_bytes buf (unat dn) (take (unat tc) (drop bo b))) s)))
      else (dn, buf, s))"
  by pat_completeness auto
termination
proof (relation "measure (\<lambda>(inp, offset, sz, dn, buf, s). unat sz - unat dn)", goal_cases)
  case (2 inp offset sz dn buf s)
  with blk_count_measure [of dn sz offset] show ?case by simp
qed simp

declare bfs_read_loop.simps [simp del]

definition bfs_read :: "vnode \<Rightarrow> u32 \<Rightarrow> u32 \<Rightarrow> u8 list \<Rightarrow> sfs \<Rightarrow> u32 \<times> u8 list \<times> sfs" where
  "bfs_read node offset sz buf s =
     (let ino = v_inode node
      in if \<not> valid_ino ino then (- 1, buf, s)
         else
           (let inp = inodes s ! unat ino
            in if i_type inp \<noteq> SFS_TYPE_FILE then (- 1, buf, s)
               else if i_size inp \<le> offset then (0, buf, s)
               else
                 (let sz = (if i_size inp < offset + sz then i_size inp - offset else sz)
                  in bfs_read_loop inp offset sz 0 buf s)))"

function bfs_write_loop :: "nat \<Rightarrow> u32 \<Rightarrow> u32 \<Rightarrow> u32 \<Rightarrow> u8 list \<Rightarrow> sfs \<Rightarrow> u32 \<times> sfs" where
  "bfs_write_loop ino offset sz dn buf s =
     (if dn < sz then
        (let bi = blk_index offset dn; bo = blk_off offset dn; tw = blk_count offset sz dn
         in if STACKFS_DIRECT_PTRS \<le> bi then (dn, s)
            else
              (let (go, s) =
                 (if i_blocks (inodes s ! ino) ! bi = 0
                  then (case bitmap_alloc s of
                          (None, s) \<Rightarrow> (False, s)
                        | (Some nb, s) \<Rightarrow>
                            (True, (upd_inode ino (\<lambda>i. i\<lparr>i_blocks := (i_blocks i)[bi := of_nat nb]\<rparr>) s)
                                     \<lparr>buf_rw := replicate STACKFS_BLOCK_SIZE 0\<rparr>))
                  else (True, s\<lparr>buf_rw := snd (read_block s (i_blocks (inodes s ! ino) ! bi) (buf_rw s))\<rparr>))
               in if \<not> go then (dn, s)
                  else
                    (let s = s\<lparr>buf_rw := put_bytes (buf_rw s) bo (take (unat tw) (drop (unat dn) buf))\<rparr>
                     in case write_block (i_blocks (inodes s ! ino) ! bi) (buf_rw s) s of
                          (good, s) \<Rightarrow> if \<not> good then (dn, s) else bfs_write_loop ino offset sz (dn + tw) buf s)))
      else (dn, s))"
  by pat_completeness auto
termination
proof (relation "measure (\<lambda>(ino, offset, sz, dn, buf, s). unat sz - unat dn)", goal_cases)
  case (2 ino offset sz dn buf s)
  with blk_count_measure [of dn sz offset] show ?case by simp
qed simp

declare bfs_write_loop.simps [simp del]

definition bfs_write :: "vnode \<Rightarrow> u32 \<Rightarrow> u32 \<Rightarrow> u8 list \<Rightarrow> sfs \<Rightarrow> u32 \<times> vnode \<times> sfs" where
  "bfs_write node offset sz buf s =
     (let ino = v_inode node
      in if \<not> valid_ino ino then (- 1, node, s)
         else if i_type (inodes s ! unat ino) \<noteq> SFS_TYPE_FILE then (- 1, node, s)
         else
           (let i = unat ino;
                (dn, s) = bfs_write_loop i offset sz 0 buf s;
                s = (if i_size (inodes s ! i) < offset + dn
                     then (upd_inode i (\<lambda>x. x\<lparr>i_size := offset + dn\<rparr>) s)\<lparr>inodes_dirty := True\<rparr> else s);
                node = node\<lparr>v_size := i_size (inodes s ! i)\<rparr>;
                s = stackfs_sync s
            in (dn, node, s)))"

section \<open>Directories\<close>

text \<open>Entries per block, and the two fields of entry \<open>i\<close> of a block, as the cast pointer reads them.\<close>

definition epb :: nat where "epb = STACKFS_BLOCK_SIZE div 60"

definition de_ino :: "u8 list \<Rightarrow> nat \<Rightarrow> u32" where "de_ino buf i = de32 (drop (60 * i) buf)"
definition de_nm :: "u8 list \<Rightarrow> nat \<Rightarrow> u8 list" where "de_nm buf i = drop (60 * i + 4) buf"

definition bfs_readdir :: "vnode \<Rightarrow> u32 \<Rightarrow> sfs \<Rightarrow> dirent option \<times> sfs" where
  "bfs_readdir node idx s =
     (let ino = v_inode node
      in if \<not> valid_ino ino then (None, s)
         else
           (let inp = inodes s ! unat ino
            in if i_type inp \<noteq> SFS_TYPE_DIR then (None, s)
               else
                 (let bi = unat idx div epb; bo = unat idx mod epb
                  in if STACKFS_DIRECT_PTRS \<le> bi \<or> i_blocks inp ! bi = 0 then (None, s)
                     else
                       (let s = s\<lparr>buf_dir := snd (read_block s (i_blocks inp ! bi) (buf_dir s))\<rparr>;
                            b = buf_dir s
                        in if de_ino b bo = 0 \<or> ch (de_nm b bo) 0 = 0 then (None, s)
                           else (Some \<lparr>de_name = str_copy (replicate VFS_NAME_MAX 0) (de_nm b bo) VFS_NAME_MAX,
                                       de_inode = de_ino b bo\<rparr>, s)))))"

text \<open>The outer loop of \<^verbatim>\<open>bfs_finddir\<close>, from block \<open>b\<close> on: the inode number of the match.\<close>

function finddir_loop :: "inode \<Rightarrow> u8 list \<Rightarrow> nat \<Rightarrow> sfs \<Rightarrow> u32 option \<times> sfs" where
  "finddir_loop inp nm b s =
     (if b < STACKFS_DIRECT_PTRS \<and> i_blocks inp ! b \<noteq> 0 then
        (let s = s\<lparr>buf_find := snd (read_block s (i_blocks inp ! b) (buf_find s))\<rparr>; e = buf_find s
         in case first_from (\<lambda>i. \<not> (de_ino e i = 0 \<or> ch (de_nm e i) 0 = 0) \<and> str_cmp (de_nm e i) nm = 0) 0 epb of
              Some i \<Rightarrow> (Some (de_ino e i), s)
            | None \<Rightarrow> finddir_loop inp nm (Suc b) s)
      else (None, s))"
  by pat_completeness auto
termination
  by (relation "measure (\<lambda>(inp, nm, b, s). STACKFS_DIRECT_PTRS - b)") auto

declare finddir_loop.simps [simp del]

definition bfs_finddir :: "bool \<Rightarrow> vnode \<Rightarrow> u8 list \<Rightarrow> sfs \<Rightarrow> vnode option \<times> sfs" where
  "bfs_finddir room node nm s =
     (let ino = v_inode node
      in if \<not> valid_ino ino then (None, s)
         else
           (let inp = inodes s ! unat ino
            in if i_type inp \<noteq> SFS_TYPE_DIR then (None, s)
               else case finddir_loop inp nm 0 s of
                 (None, s) \<Rightarrow> (None, s)
               | (Some ci, s) \<Rightarrow>
                   if \<not> valid_ino ci \<or> \<not> room then (None, s)
                   else
                     (let c = inodes s ! unat ci
                      in (Some \<lparr>v_name = str_copy (replicate VFS_NAME_MAX 0) (i_name c) VFS_NAME_MAX,
                               v_flags = (if i_type c = SFS_TYPE_DIR then VFS_DIR else VFS_FILE),
                               v_inode = ci, v_size = i_size c, v_ops = Ops_stackfs\<rparr>, s))))"

function dir_add_loop :: "nat \<Rightarrow> u32 \<Rightarrow> u8 list \<Rightarrow> nat \<Rightarrow> sfs \<Rightarrow> bool \<times> sfs" where
  "dir_add_loop di child nm b s =
     (if b < STACKFS_DIRECT_PTRS then
        (let (go, s) =
           (if i_blocks (inodes s ! di) ! b = 0
            then (case bitmap_alloc s of
                    (None, s) \<Rightarrow> (False, s)
                  | (Some nb, s) \<Rightarrow>
                      (True, (upd_inode di (\<lambda>i. i\<lparr>i_blocks := (i_blocks i)[b := of_nat nb]\<rparr>) s)
                               \<lparr>inodes_dirty := True, buf_rw := replicate STACKFS_BLOCK_SIZE 0\<rparr>))
            else (True, s\<lparr>buf_rw := snd (read_block s (i_blocks (inodes s ! di) ! b) (buf_rw s))\<rparr>))
         in if \<not> go then (False, s)
            else case first_from (\<lambda>i. de_ino (buf_rw s) i = 0) 0 epb of
              Some i \<Rightarrow>
                (let e = put_bytes (buf_rw s) (60 * i) (le32 child);
                     e = put_bytes e (60 * i + 4) (str_copy (take 56 (drop (60 * i + 4) e)) nm STACKFS_NAME_MAX);
                     s = s\<lparr>buf_rw := e\<rparr>
                 in (True, snd (write_block (i_blocks (inodes s ! di) ! b) (buf_rw s) s)))
            | None \<Rightarrow> dir_add_loop di child nm (Suc b) s)
      else (False, s))"
  by pat_completeness auto
termination
  by (relation "measure (\<lambda>(di, child, nm, b, s). STACKFS_DIRECT_PTRS - b)") auto

declare dir_add_loop.simps [simp del]

definition dir_add_entry :: "nat \<Rightarrow> nat \<Rightarrow> u8 list \<Rightarrow> sfs \<Rightarrow> bool \<times> sfs" where
  "dir_add_entry di child nm s = dir_add_loop di (of_nat child) nm 0 s"

text \<open>What \<^verbatim>\<open>bfs_create\<close> and \<^verbatim>\<open>bfs_mkdir\<close> do, but for the type and the permissions; \<open>False\<close> is -1.\<close>

definition bfs_new :: "u8 \<Rightarrow> u16 \<Rightarrow> vnode \<Rightarrow> u8 list \<Rightarrow> sfs \<Rightarrow> bool \<times> sfs" where
  "bfs_new ty perm dir nm s =
     (case alloc_inode s of
        (None, s) \<Rightarrow> (False, s)
      | (Some ni, s) \<Rightarrow>
          (let s = (upd_inode ni (\<lambda>i. i\<lparr>i_type := ty, i_perm := perm, i_size := 0,
                                        i_name := str_copy (i_name i) nm STACKFS_NAME_MAX\<rparr>) s)\<lparr>inodes_dirty := True\<rparr>;
               s = snd (dir_add_entry (unat (v_inode dir)) ni nm s)
           in (True, stackfs_sync s)))"

definition bfs_create :: "vnode \<Rightarrow> u8 list \<Rightarrow> u32 \<Rightarrow> sfs \<Rightarrow> bool \<times> sfs" where
  "bfs_create dir nm flags s = bfs_new SFS_TYPE_FILE 0x1A4 dir nm s"

definition bfs_mkdir :: "vnode \<Rightarrow> u8 list \<Rightarrow> sfs \<Rightarrow> bool \<times> sfs" where
  "bfs_mkdir dir nm s = bfs_new SFS_TYPE_DIR 0x1ED dir nm s"

definition free_inode_blocks :: "nat \<Rightarrow> sfs \<Rightarrow> sfs" where
  "free_inode_blocks ci s =
     for_loop 0 STACKFS_DIRECT_PTRS
       (\<lambda>p s. if i_blocks (inodes s ! ci) ! p \<noteq> 0 then bitmap_free_blk (i_blocks (inodes s ! ci) ! p) s else s) s"

function unlink_loop :: "nat \<Rightarrow> u8 list \<Rightarrow> nat \<Rightarrow> sfs \<Rightarrow> bool \<times> sfs" where
  "unlink_loop di nm b s =
     (if b < STACKFS_DIRECT_PTRS \<and> i_blocks (inodes s ! di) ! b \<noteq> 0 then
        (let s = s\<lparr>buf_rw := snd (read_block s (i_blocks (inodes s ! di) ! b) (buf_rw s))\<rparr>; e = buf_rw s
         in case first_from (\<lambda>i. de_ino e i \<noteq> 0 \<and> str_cmp (de_nm e i) nm = 0) 0 epb of
              Some i \<Rightarrow>
                (let ci = unat (de_ino e i);
                     s = free_inode_blocks ci s;
                     s = upd_inode ci (\<lambda>_. zero_inode) s;
                     s = s\<lparr>sb := (sb s)\<lparr>free_inodes := free_inodes (sb s) + 1\<rparr>, sb_dirty := True, inodes_dirty := True\<rparr>;
                     s = s\<lparr>buf_rw := put_bytes (put_bytes (buf_rw s) (60 * i) (le32 0)) (60 * i + 4) [0]\<rparr>;
                     s = snd (write_block (i_blocks (inodes s ! di) ! b) (buf_rw s) s)
                 in (True, stackfs_sync s))
            | None \<Rightarrow> unlink_loop di nm (Suc b) s)
      else (False, s))"
  by pat_completeness auto
termination
  by (relation "measure (\<lambda>(di, nm, b, s). STACKFS_DIRECT_PTRS - b)") auto

declare unlink_loop.simps [simp del]

definition bfs_unlink :: "vnode \<Rightarrow> u8 list \<Rightarrow> sfs \<Rightarrow> bool \<times> sfs" where
  "bfs_unlink dir nm s = unlink_loop (unat (v_inode dir)) nm 0 s"

end
