(* ===== verification/Fs_Persist.thy ===== *)
theory Fs_Persist
  imports Fs_StackFS
begin

text \<open>
  StackFS's metadata survives a reboot: what \<open>stackfs_sync\<close> leaves on a healthy disk is what
  \<open>stackfs_mount\<close> reads back, and a formatted disk mounts as an empty root directory.
\<close>

section \<open>Shape of the state\<close>

definition mem_wf :: "sfs \<Rightarrow> bool" where
  "mem_wf s \<longleftrightarrow> super_wf (sb s) \<and> length (inodes s) = STACKFS_MAX_INODES \<and> (\<forall>i \<in> set (inodes s). inode_wf i) \<and>
     length (bmap s) = BITMAP_BYTES"

definition disk_ok :: "disk \<Rightarrow> bool" where
  "disk_ok d \<longleftrightarrow> disk_wf d \<and> healthy d \<and> 63 \<le> unat (disk_sectors d)"

lemma meta_sector_ok: "disk_ok d \<Longrightarrow> n < 63 \<Longrightarrow> disk_present d \<and> \<not> bad d (of_nat n)"
proof -
  assume d: "disk_ok d" and n: "n < 63"
  have "unat (of_nat n :: u32) = n" using n by (simp add: unat_of_nat_small)
  then have "of_nat n < disk_sectors d" using d n by (simp add: disk_ok_def word_less_nat_alt)
  with d show ?thesis by (simp add: disk_ok_def healthy_def)
qed

lemma small_lba: "m < 2 ^ 32 \<Longrightarrow> n < 2 ^ 32 \<Longrightarrow> (of_nat m :: u32) = of_nat n \<longleftrightarrow> m = n"
proof -
  assume "m < 2 ^ 32" "n < 2 ^ 32"
  then have "unat (of_nat m :: u32) = m" "unat (of_nat n :: u32) = n" by (simp_all add: unat_of_nat_small)
  then show ?thesis by metis
qed

text \<open>Slices of an array of bytes, sector by sector.\<close>

definition sector_of :: "u8 list \<Rightarrow> nat \<Rightarrow> u8 list" where
  "sector_of bs i = take 512 (drop (512 * i) bs)"

lemma put_sectors:
  assumes "length src = length dst" and "512 * n \<le> length dst"
  shows "for_loop 0 n (\<lambda>i d. put_bytes d (512 * i) (sector_of src i)) dst = take (512 * n) src @ drop (512 * n) dst"
  using assms(2)
proof (induction n)
  case (Suc n)
  then have l: "length (sector_of src n) = 512" using assms(1) by (simp add: sector_of_def)
  have t: "take (512 * n) src @ sector_of src n = take (512 * Suc n) src"
    using take_add [of "512 * n" 512 src] by (simp add: sector_of_def add.commute)
  have "length (take (512 * n) src) = 512 * n" using Suc assms by simp
  with Suc l t show ?case by (simp add: for_loop_Suc put_bytes_def add.commute)
qed simp

section \<open>Writing sectors\<close>

lemma write_sector_frame [simp]:
  "sb (write_sector n bs s) = sb s" "inodes (write_sector n bs s) = inodes s" "bmap (write_sector n bs s) = bmap s"
  "sb_dirty (write_sector n bs s) = sb_dirty s" "inodes_dirty (write_sector n bs s) = inodes_dirty s"
  "bitmap_dirty (write_sector n bs s) = bitmap_dirty s" "mounted (write_sector n bs s) = mounted s"
  by (simp_all add: write_sector_def)

lemma write_sector_media:
  assumes "disk_ok (dsk s)" and "n < 63" and "length bs = 512"
  shows "disk_ok (dsk (write_sector n bs s))"
    "media (dsk (write_sector n bs s)) = (media (dsk s))(of_nat n := bs)"
proof -
  note m = meta_sector_ok [OF assms(1,2)]
  show "media (dsk (write_sector n bs s)) = (media (dsk s))(of_nat n := bs)"
    using m by (simp add: write_sector_def disk_write_def)
  show "disk_ok (dsk (write_sector n bs s))"
    using assms(1,3) by (simp add: write_sector_def disk_ok_def disk_wf_write)
qed

lemma write_run:
  assumes "disk_ok (dsk s)" and "base + n \<le> 63" and "\<And>i. i < n \<Longrightarrow> length (f i) = 512"
  shows "let s' = for_loop 0 n (\<lambda>i. write_sector (base + i) (f i)) s
    in disk_ok (dsk s') \<and> sb s' = sb s \<and> inodes s' = inodes s \<and> bmap s' = bmap s \<and> sb_dirty s' = sb_dirty s \<and>
       inodes_dirty s' = inodes_dirty s \<and> bitmap_dirty s' = bitmap_dirty s \<and> mounted s' = mounted s \<and>
       (\<forall>m < 63. media (dsk s') (of_nat m) = (if base \<le> m \<and> m < base + n then f (m - base) else media (dsk s) (of_nat m)))"
  using assms(2,3)
proof (induction n)
  case 0
  then show ?case using assms(1) by auto
next
  case (Suc n)
  define s1 where "s1 = for_loop 0 n (\<lambda>i. write_sector (base + i) (f i)) s"
  have IH: "disk_ok (dsk s1)" "sb s1 = sb s \<and> inodes s1 = inodes s \<and> bmap s1 = bmap s \<and> sb_dirty s1 = sb_dirty s \<and>
      inodes_dirty s1 = inodes_dirty s \<and> bitmap_dirty s1 = bitmap_dirty s \<and> mounted s1 = mounted s"
    "\<And>m. m < 63 \<Longrightarrow> media (dsk s1) (of_nat m) = (if base \<le> m \<and> m < base + n then f (m - base) else media (dsk s) (of_nat m))"
    using Suc by (simp_all add: s1_def Let_def)
  have b: "base + n < 63" "length (f n) = 512" using Suc.prems by simp_all
  note W = write_sector_media [OF IH(1) b]
  have e: "for_loop 0 (Suc n) (\<lambda>i. write_sector (base + i) (f i)) s = write_sector (base + n) (f n) s1"
    by (simp add: for_loop_Suc s1_def)
  have "media (dsk (write_sector (base + n) (f n) s1)) (of_nat m)
      = (if base \<le> m \<and> m < base + Suc n then f (m - base) else media (dsk s) (of_nat m))" if "m < 63" for m
    using IH(3) [OF that] small_lba [of m "base + n"] b(1) that by (auto simp: W(2) simp del: of_nat_add)
  with W(1) IH(2) show ?case unfolding e Let_def write_sector_frame by blast
qed

section \<open>What is on the disk\<close>

definition sb_saved :: "sfs \<Rightarrow> bool" where
  "sb_saved s \<longleftrightarrow> media (dsk s) 0 = take 512 (enc_super (sb s))"

definition inodes_saved :: "sfs \<Rightarrow> bool" where
  "inodes_saved s \<longleftrightarrow> (\<forall>i < 30. media (dsk s) (of_nat (1 + i)) = sector_of (enc_inodes (inodes s)) i)"

definition bmap_saved :: "sfs \<Rightarrow> bool" where
  "bmap_saved s \<longleftrightarrow> (\<forall>i < 32. media (dsk s) (of_nat (31 + i)) = sector_of (bmap s) i)"

text \<open>What is not marked dirty is on the disk.\<close>

definition coherent :: "sfs \<Rightarrow> bool" where
  "coherent s \<longleftrightarrow> (sb_dirty s \<or> sb_saved s) \<and> (inodes_dirty s \<or> inodes_saved s) \<and> (bitmap_dirty s \<or> bmap_saved s)"

lemma save_inodes_run:
  assumes "mem_wf s"
  shows "save_inodes_disk s = (for_loop 0 30 (\<lambda>i. write_sector (1 + i) (sector_of (enc_inodes (inodes s)) i)) s)\<lparr>inodes_dirty := False\<rparr>"
proof -
  let ?src = "enc_inodes (inodes s)"
  have l: "length ?src = 15360" using assms by (simp add: mem_wf_def enc_inodes_length sfs_consts)
  define body where "body = (\<lambda>i (dn, s). if dn < STACKFS_MAX_INODES * 120 then
      (let n = (if STACKFS_MAX_INODES * 120 < dn + 512 then STACKFS_MAX_INODES * 120 - dn else 512);
           tmp = put_bytes (replicate 512 0) 0 (take n (drop dn ?src))
       in (dn + n, write_sector (STACKFS_INODE_START + i) tmp s)) else (dn, s))"
  have "for_loop 0 n body (0, s) = (512 * n, for_loop 0 n (\<lambda>i. write_sector (1 + i) (sector_of ?src i)) s)"
    if "n \<le> 30" for n
    using that
  proof (induction n)
    case (Suc n)
    then have "512 * n + 512 \<le> 15360" by simp
    with Suc l show ?case
      by (simp add: for_loop_Suc body_def sfs_consts sector_of_def put_bytes_def)
  qed simp
  from this [of 30] show ?thesis
    by (simp add: save_inodes_disk_def body_def [symmetric] sfs_consts(8) Let_def)
qed

lemma save_inodes_spec:
  assumes wf: "mem_wf s" and d: "disk_ok (dsk s)"
  shows "let s' = save_inodes_disk s in disk_ok (dsk s') \<and> sb s' = sb s \<and> inodes s' = inodes s \<and> bmap s' = bmap s \<and>
    sb_dirty s' = sb_dirty s \<and> \<not> inodes_dirty s' \<and> bitmap_dirty s' = bitmap_dirty s \<and> mounted s' = mounted s \<and>
    inodes_saved s' \<and> (\<forall>m < 63. \<not> (1 \<le> m \<and> m < 31) \<longrightarrow> media (dsk s') (of_nat m) = media (dsk s) (of_nat m))"
proof -
  have l: "length (enc_inodes (inodes s)) = 15360" using wf by (simp add: mem_wf_def enc_inodes_length sfs_consts)
  have "length (sector_of (enc_inodes (inodes s)) i) = 512" if "i < 30" for i
    using l that by (simp add: sector_of_def)
  note r = write_run [OF d, of 1 30 "sector_of (enc_inodes (inodes s))", simplified Let_def, OF _ this]
  define s1 where "s1 = for_loop 0 30 (\<lambda>i. write_sector (1 + i) (sector_of (enc_inodes (inodes s)) i)) s"
  have e: "save_inodes_disk s = s1\<lparr>inodes_dirty := False\<rparr>"
    unfolding s1_def by (rule save_inodes_run [OF wf])
  have R: "disk_ok (dsk s1)" "sb s1 = sb s" "inodes s1 = inodes s" "bmap s1 = bmap s" "sb_dirty s1 = sb_dirty s"
    "bitmap_dirty s1 = bitmap_dirty s" "mounted s1 = mounted s"
    "\<And>m. m < 63 \<Longrightarrow> media (dsk s1) (of_nat m) =
       (if 1 \<le> m \<and> m < 31 then sector_of (enc_inodes (inodes s)) (m - 1) else media (dsk s) (of_nat m))"
    using r unfolding s1_def by simp_all
  have "media (dsk s1) (of_nat (1 + i)) = sector_of (enc_inodes (inodes s)) i" if "i < 30" for i
    using R(8) [of "1 + i"] that by simp
  then have "inodes_saved (s1\<lparr>inodes_dirty := False\<rparr>)" using R(3) by (simp add: inodes_saved_def)
  with R show ?thesis unfolding e Let_def by simp
qed

lemma save_bitmap_spec:
  assumes wf: "mem_wf s" and d: "disk_ok (dsk s)"
  shows "let s' = save_bitmap_disk s in disk_ok (dsk s') \<and> sb s' = sb s \<and> inodes s' = inodes s \<and> bmap s' = bmap s \<and>
    sb_dirty s' = sb_dirty s \<and> inodes_dirty s' = inodes_dirty s \<and> \<not> bitmap_dirty s' \<and> mounted s' = mounted s \<and>
    bmap_saved s' \<and> (\<forall>m < 63. \<not> 31 \<le> m \<longrightarrow> media (dsk s') (of_nat m) = media (dsk s) (of_nat m))"
proof -
  have "length (sector_of (bmap s) i) = 512" if "i < 32" for i
    using wf that by (simp add: sector_of_def mem_wf_def BITMAP_BYTES_def sfs_consts)
  note r = write_run [OF d, of 31 32 "sector_of (bmap s)", simplified Let_def, OF _ this]
  define s1 where "s1 = for_loop 0 32 (\<lambda>i. write_sector (31 + i) (sector_of (bmap s) i)) s"
  have "save_bitmap_disk s = (for_loop 0 32 (\<lambda>i t. write_sector (31 + i) (take 512 (drop (i * 512) (bmap t))) t) s)\<lparr>bitmap_dirty := False\<rparr>"
    by (simp add: save_bitmap_disk_def sfs_consts)
  moreover have "for_loop 0 n (\<lambda>i t. write_sector (31 + i) (take 512 (drop (i * 512) (bmap t))) t) s
      = for_loop 0 n (\<lambda>i. write_sector (31 + i) (sector_of (bmap s) i)) s \<and>
      bmap (for_loop 0 n (\<lambda>i. write_sector (31 + i) (sector_of (bmap s) i)) s) = bmap s" for n
    by (induction n) (simp_all add: for_loop_Suc sector_of_def mult.commute)
  ultimately have e: "save_bitmap_disk s = s1\<lparr>bitmap_dirty := False\<rparr>" by (simp add: s1_def)
  have R: "disk_ok (dsk s1)" "sb s1 = sb s" "inodes s1 = inodes s" "bmap s1 = bmap s" "sb_dirty s1 = sb_dirty s"
    "inodes_dirty s1 = inodes_dirty s" "mounted s1 = mounted s"
    "\<And>m. m < 63 \<Longrightarrow> media (dsk s1) (of_nat m) = (if 31 \<le> m then sector_of (bmap s) (m - 31) else media (dsk s) (of_nat m))"
    using r unfolding s1_def by simp_all
  have "media (dsk s1) (of_nat (31 + i)) = sector_of (bmap s) i" if "i < 32" for i
    using R(8) [of "31 + i"] that by simp
  then have "bmap_saved (s1\<lparr>bitmap_dirty := False\<rparr>)" using R(4) by (simp add: bmap_saved_def)
  with R show ?thesis unfolding e Let_def by simp
qed

lemma save_sb_spec:
  assumes wf: "mem_wf s" and d: "disk_ok (dsk s)"
  shows "let s' = save_sb_disk s in disk_ok (dsk s') \<and> sb s' = sb s \<and> inodes s' = inodes s \<and> bmap s' = bmap s \<and>
    \<not> sb_dirty s' \<and> inodes_dirty s' = inodes_dirty s \<and> bitmap_dirty s' = bitmap_dirty s \<and> mounted s' = mounted s \<and>
    sb_saved s' \<and> (\<forall>m < 63. 0 < m \<longrightarrow> media (dsk s') (of_nat m) = media (dsk s) (of_nat m))"
proof -
  have l: "length (take 512 (enc_super (sb s))) = 512" using wf by (simp add: mem_wf_def enc_super_length)
  note W = write_sector_media [OF d _ l, of 0]
  have "(of_nat m :: u32) \<noteq> 0" if "m < 63" "0 < m" for m using small_lba [of m 0] that by simp
  with W show ?thesis by (simp add: save_sb_disk_def sfs_consts Let_def sb_saved_def)
qed

lemma saved_cong:
  assumes "\<And>m. lo \<le> m \<Longrightarrow> m < hi \<Longrightarrow> media (dsk s') (of_nat m) = media (dsk s) (of_nat m)"
  shows "sb s' = sb s \<Longrightarrow> lo = 0 \<Longrightarrow> hi = 1 \<Longrightarrow> sb_saved s' = sb_saved s"
    "inodes s' = inodes s \<Longrightarrow> lo = 1 \<Longrightarrow> hi = 31 \<Longrightarrow> inodes_saved s' = inodes_saved s"
    "bmap s' = bmap s \<Longrightarrow> lo = 31 \<Longrightarrow> hi = 63 \<Longrightarrow> bmap_saved s' = bmap_saved s"
proof -
  show "sb_saved s' = sb_saved s" if "sb s' = sb s" "lo = 0" "hi = 1"
    using assms [of 0] that by (simp add: sb_saved_def)
  show "inodes_saved s' = inodes_saved s" if "inodes s' = inodes s" "lo = 1" "hi = 31"
    unfolding inodes_saved_def that(1) using assms that(2,3) by (auto simp del: of_nat_add of_nat_Suc)
  show "bmap_saved s' = bmap_saved s" if "bmap s' = bmap s" "lo = 31" "hi = 63"
    unfolding bmap_saved_def that(1) using assms that(2,3) by (auto simp del: of_nat_add of_nat_Suc)
qed

lemma sync_spec:
  assumes wf: "mem_wf s" and d: "disk_ok (dsk s)" and co: "coherent s"
  shows "let s' = stackfs_sync s in disk_ok (dsk s') \<and> sb s' = sb s \<and> inodes s' = inodes s \<and> bmap s' = bmap s \<and>
    \<not> sb_dirty s' \<and> \<not> inodes_dirty s' \<and> \<not> bitmap_dirty s' \<and> mounted s' = mounted s \<and>
    sb_saved s' \<and> inodes_saved s' \<and> bmap_saved s'"
proof -
  define s1 where "s1 = (if inodes_dirty s then save_inodes_disk s else s)"
  have 1: "disk_ok (dsk s1)" "sb s1 = sb s" "inodes s1 = inodes s" "bmap s1 = bmap s" "sb_dirty s1 = sb_dirty s"
    "\<not> inodes_dirty s1" "bitmap_dirty s1 = bitmap_dirty s" "mounted s1 = mounted s" "inodes_saved s1"
    "\<And>m. m < 63 \<Longrightarrow> \<not> (1 \<le> m \<and> m < 31) \<Longrightarrow> media (dsk s1) (of_nat m) = media (dsk s) (of_nat m)"
    by (cases "inodes_dirty s"; use save_inodes_spec [OF wf d] d co in \<open>simp add: s1_def Let_def coherent_def\<close>)+
  have wf1: "mem_wf s1" using wf 1 by (simp add: mem_wf_def)
  define s2 where "s2 = (if bitmap_dirty s1 then save_bitmap_disk s1 else s1)"
  have b1: "bitmap_dirty s1 \<or> bmap_saved s1"
    using co saved_cong(3) [of 31 63 s1 s] 1 by (auto simp: coherent_def)
  have 2: "disk_ok (dsk s2)" "sb s2 = sb s" "inodes s2 = inodes s" "bmap s2 = bmap s" "sb_dirty s2 = sb_dirty s"
    "\<not> inodes_dirty s2" "\<not> bitmap_dirty s2" "mounted s2 = mounted s" "bmap_saved s2"
    "\<And>m. m < 63 \<Longrightarrow> \<not> 31 \<le> m \<Longrightarrow> media (dsk s2) (of_nat m) = media (dsk s1) (of_nat m)"
    by (cases "bitmap_dirty s1"; use save_bitmap_spec [OF wf1 1(1)] 1 b1 in \<open>simp add: s2_def Let_def\<close>)+
  have wf2: "mem_wf s2" using wf 2 by (simp add: mem_wf_def)
  have i2: "inodes_saved s2" using saved_cong(2) [of 1 31 s2 s1] 1 2 by auto
  have sb2: "sb_dirty s2 \<or> sb_saved s2"
  proof -
    have "media (dsk s2) 0 = media (dsk s) 0" using 1(10) [of 0] 2(10) [of 0] by simp
    then have "sb_saved s2 = sb_saved s" using 2(2) by (simp add: sb_saved_def)
    with co 2(5) show ?thesis by (simp add: coherent_def)
  qed
  define s3 where "s3 = (if sb_dirty s2 then save_sb_disk s2 else s2)"
  have 3: "disk_ok (dsk s3)" "sb s3 = sb s" "inodes s3 = inodes s" "bmap s3 = bmap s" "\<not> sb_dirty s3"
    "\<not> inodes_dirty s3" "\<not> bitmap_dirty s3" "mounted s3 = mounted s" "sb_saved s3"
    "\<And>m. m < 63 \<Longrightarrow> 0 < m \<Longrightarrow> media (dsk s3) (of_nat m) = media (dsk s2) (of_nat m)"
    by (cases "sb_dirty s2"; use save_sb_spec [OF wf2 2(1)] 2 sb2 in \<open>simp add: s3_def Let_def\<close>)+
  have "inodes_saved s3" "bmap_saved s3"
    using saved_cong(2) [of 1 31 s3 s2] saved_cong(3) [of 31 63 s3 s2] 2 3 i2 by auto
  moreover have "stackfs_sync s = s3" by (simp add: stackfs_sync_def s1_def s2_def s3_def Let_def)
  ultimately show ?thesis using 3 by (simp add: Let_def)
qed

section \<open>Reading it back\<close>

lemma read_meta: "disk_ok (dsk s) \<Longrightarrow> n < 63 \<Longrightarrow> read_sector s n = Some (media (dsk s) (of_nat n))"
  using meta_sector_ok [of "dsk s" n] by (simp add: read_sector_def disk_read_def)

lemma load_inodes_spec:
  assumes wf0: "mem_wf s0" and d: "disk_ok (dsk s0)" and wf: "\<forall>i \<in> set is. inode_wf i" "length is = STACKFS_MAX_INODES"
    and saved: "\<forall>i < 30. media (dsk s0) (of_nat (1 + i)) = sector_of (enc_inodes is) i"
  shows "load_inodes junk s0 = s0\<lparr>inodes := is\<rparr>"
proof -
  let ?dst = "enc_inodes (inodes s0)" and ?src = "enc_inodes is"
  have l: "length ?dst = 15360" "length ?src = 15360"
    using wf0 wf by (simp_all add: mem_wf_def enc_inodes_length sfs_consts)
  define body where "body = (\<lambda>i (dst, tmp, dn). if dn < STACKFS_MAX_INODES * 120 then
      (let tmp = (case read_sector s0 (STACKFS_INODE_START + i) of Some x \<Rightarrow> x | None \<Rightarrow> tmp);
           n = (if STACKFS_MAX_INODES * 120 < dn + 512 then STACKFS_MAX_INODES * 120 - dn else 512)
       in (put_bytes dst dn (take n tmp), tmp, dn + n)) else (dst, tmp, dn))"
  have "\<exists>tmp. for_loop 0 n body (?dst, junk, 0) = (for_loop 0 n (\<lambda>i d. put_bytes d (512 * i) (sector_of ?src i)) ?dst, tmp, 512 * n)"
    if "n \<le> 30" for n
    using that
  proof (induction n)
    case (Suc n)
    then have n: "512 * n + 512 \<le> 15360" "n < 30" by simp_all
    have "read_sector s0 (1 + n) = Some (sector_of ?src n)"
      using read_meta [OF d, of "1 + n"] saved n by simp
    moreover have "take 512 (sector_of ?src n) = sector_of ?src n" by (simp add: sector_of_def)
    ultimately show ?case using Suc n by (auto simp: for_loop_Suc body_def sfs_consts Let_def)
  qed simp
  then obtain tmp where t: "for_loop 0 30 body (?dst, junk, 0)
      = (for_loop 0 30 (\<lambda>i d. put_bytes d (512 * i) (sector_of ?src i)) ?dst, tmp, 512 * 30)" by blast
  have "for_loop 0 30 (\<lambda>i d. put_bytes d (512 * i) (sector_of ?src i)) ?dst = ?src"
    using put_sectors [of ?src ?dst 30] l by simp
  moreover have "load_inodes junk s0 = s0\<lparr>inodes := dec_inodes STACKFS_MAX_INODES (fst (for_loop 0 30 body (?dst, junk, 0)))\<rparr>"
    by (simp add: load_inodes_def body_def [symmetric] sfs_consts(8) Let_def split_beta)
  ultimately show ?thesis using t wf by (simp add: dec_enc_inodes)
qed

lemma load_bitmap_spec:
  assumes wf0: "mem_wf s0" and d: "disk_ok (dsk s0)" and l: "length bm = BITMAP_BYTES"
    and saved: "\<forall>i < 32. media (dsk s0) (of_nat (31 + i)) = sector_of bm i"
  shows "load_bitmap s0 = s0\<lparr>bmap := bm\<rparr>"
proof -
  have "for_loop 0 n (\<lambda>i s. case read_sector s (STACKFS_BITMAP_START + i) of
            Some x \<Rightarrow> s\<lparr>bmap := put_bytes (bmap s) (i * 512) x\<rparr> | None \<Rightarrow> s) s0
      = s0\<lparr>bmap := for_loop 0 n (\<lambda>i d. put_bytes d (512 * i) (sector_of bm i)) (bmap s0)\<rparr>"
    if "n \<le> 32" for n
    using that
  proof (induction n)
    case (Suc n)
    have "read_sector (s0\<lparr>bmap := b\<rparr>) (31 + n) = Some (sector_of bm n)" for b
      using read_meta [of "s0\<lparr>bmap := b\<rparr>" "31 + n"] d saved Suc.prems by simp
    with Suc show ?case by (simp add: for_loop_Suc sfs_consts mult.commute)
  qed simp
  from this [of 32] show ?thesis
    using put_sectors [of bm "bmap s0" 32] wf0 l
    by (simp add: load_bitmap_def sfs_consts(10) mem_wf_def BITMAP_BYTES_def)
qed

lemma read_super:
  assumes "super_wf b0" "super_wf b" and "drop 448 (s_pad b0) = drop 448 (s_pad b)"
  shows "dec_super (put_bytes (enc_super b0) 0 (take 512 (enc_super b))) = b"
proof -
  have "drop 512 (enc_super x) = drop 448 (s_pad x)" if "super_wf x" for x
    using that by (simp add: enc_super_def super_wf_def)
  then have "put_bytes (enc_super b0) 0 (take 512 (enc_super b)) = take 512 (enc_super b) @ drop 512 (enc_super b)"
    using assms by (simp add: put_bytes_def enc_super_length)
  then show ?thesis using assms(2) by (simp add: dec_enc_super)
qed

lemma mount_spec:
  assumes wf0: "mem_wf s0" and d: "disk_ok (dsk s0)" and wf: "mem_wf s" and eq: "dsk s0 = dsk s"
    and saved: "sb_saved s" "inodes_saved s" "bmap_saved s"
    and magic: "s_magic (sb s) = STACKFS_MAGIC" and pad: "drop 448 (s_pad (sb s0)) = drop 448 (s_pad (sb s))"
  shows "\<exists>node s'. stackfs_mount True junk s0 = (Some node, s') \<and> v_inode node = root_inode (sb s) \<and>
    v_flags node = VFS_DIR \<and> sb s' = sb s \<and> inodes s' = inodes s \<and> bmap s' = bmap s \<and> dsk s' = dsk s \<and>
    \<not> sb_dirty s' \<and> \<not> inodes_dirty s' \<and> \<not> bitmap_dirty s' \<and> mounted s' \<and> buf_rw s' = buf_rw s0 \<and>
    buf_dir s' = buf_dir s0 \<and> buf_find s' = buf_find s0"
proof -
  have p: "disk_present (dsk s0)" using d by (simp add: disk_ok_def healthy_def)
  have r: "read_sector s0 0 = Some (take 512 (enc_super (sb s)))"
    using read_meta [OF d, of 0] saved(1) by (simp add: sb_saved_def eq)
  define s1 where "s1 = s0\<lparr>sb := sb s\<rparr>"
  have rs: "dec_super (put_bytes (enc_super (sb s0)) 0 (take 512 (enc_super (sb s)))) = sb s"
    using read_super [OF _ _ pad] wf0 wf by (simp add: mem_wf_def)
  have w1: "mem_wf s1" "disk_ok (dsk s1)" "dsk s1 = dsk s" using wf0 wf d eq by (simp_all add: mem_wf_def s1_def)
  have li: "load_inodes junk s1 = s1\<lparr>inodes := inodes s\<rparr>"
    using saved(2) wf by (intro load_inodes_spec [OF w1(1,2)]) (simp_all add: inodes_saved_def mem_wf_def w1(3))
  have w2: "mem_wf (s1\<lparr>inodes := inodes s\<rparr>)" "disk_ok (dsk (s1\<lparr>inodes := inodes s\<rparr>))"
    using w1 wf by (simp_all add: mem_wf_def)
  have lb: "load_bitmap (s1\<lparr>inodes := inodes s\<rparr>) = s1\<lparr>inodes := inodes s, bmap := bmap s\<rparr>"
    using saved(3) wf by (subst load_bitmap_spec [OF w2, of "bmap s"]) (simp_all add: bmap_saved_def mem_wf_def w1(3))
  show ?thesis
    using p r magic by (simp add: stackfs_mount_def sfs_consts(6) Let_def rs s1_def [symmetric] li lb)
      (simp add: s1_def eq)
qed

section \<open>A formatted disk\<close>

definition fresh_root :: inode where
  "fresh_root = zero_inode\<lparr>i_type := SFS_TYPE_DIR, i_perm := 0x1ED, i_name := 47 # replicate 55 0\<rparr>"

lemma format_spec:
  assumes d: "disk_ok (dsk s)"
  shows "\<exists>s'. stackfs_format lbl s = (True, s') \<and> disk_ok (dsk s') \<and> mem_wf s' \<and> sb_saved s' \<and> inodes_saved s' \<and>
    bmap_saved s' \<and> s_magic (sb s') = STACKFS_MAGIC \<and> root_inode (sb s') = 1 \<and>
    total_blocks (sb s') = (disk_sectors (dsk s) - 63) div 8 \<and> free_blocks (sb s') = total_blocks (sb s') \<and>
    inodes s' = (replicate STACKFS_MAX_INODES zero_inode)[1 := fresh_root] \<and> bmap s' = replicate BITMAP_BYTES 0 \<and>
    s_pad (sb s') = replicate 452 0 \<and>
    (\<exists>s1. s' = stackfs_sync s1 \<and> mem_wf s1 \<and> dsk s1 = dsk s \<and> buf_rw s1 = buf_rw s \<and> buf_dir s1 = buf_dir s \<and> buf_find s1 = buf_find s)"
proof -
  define lab where "lab = str_copy (replicate 32 0) (case lbl of Some l \<Rightarrow> l | None \<Rightarrow> [83, 116, 97, 99, 107, 70, 83]) 32"
  define b where "b = \<lparr>s_magic = STACKFS_MAGIC, s_version = STACKFS_VERSION,
     total_blocks = (disk_sectors (dsk s) - of_nat STACKFS_DATA_START) div of_nat (STACKFS_BLOCK_SIZE div STACKFS_SECTOR_SIZE),
     free_blocks = (disk_sectors (dsk s) - of_nat STACKFS_DATA_START) div of_nat (STACKFS_BLOCK_SIZE div STACKFS_SECTOR_SIZE),
     total_inodes = of_nat STACKFS_MAX_INODES, free_inodes = of_nat (STACKFS_MAX_INODES - 1), root_inode = 1, s_created = 0,
     s_label = lab, s_pad = replicate 452 0\<rparr>"
  define s1 where "s1 = s\<lparr>sb := b, bmap := replicate BITMAP_BYTES 0,
     inodes := (replicate STACKFS_MAX_INODES zero_inode)[1 := fresh_root], sb_dirty := True, inodes_dirty := True, bitmap_dirty := True\<rparr>"
  have "str_copy (replicate 56 0) [47] 56 = 47 # replicate 55 0"
    by (subst str_copy_eq) (simp_all add: drop_replicate Cons_replicate_eq)
  then have fr: "zero_inode\<lparr>i_type := SFS_TYPE_DIR, i_perm := 0x1ED, i_name := str_copy (i_name zero_inode) [47] STACKFS_NAME_MAX\<rparr> = fresh_root"
    by (simp add: fresh_root_def zero_inode_def sfs_consts)
  have e: "stackfs_format lbl s = (True, stackfs_sync s1)"
    using d fr by (simp add: stackfs_format_def Let_def disk_ok_def healthy_def upd_inode_def s1_def b_def lab_def sfs_consts(4))
  have "length lab = 32" unfolding lab_def by (subst str_copy_props(1)) simp_all
  then have "super_wf b" by (simp add: b_def super_wf_def)
  moreover have "inode_wf i" if "i \<in> set ((replicate STACKFS_MAX_INODES zero_inode)[1 := fresh_root])" for i
    using set_update_subset_insert [of "replicate STACKFS_MAX_INODES zero_inode" 1 fresh_root] that
    by (auto simp: inode_wf_def fresh_root_def zero_inode_def sfs_consts split: if_splits)
  ultimately have wf: "mem_wf s1" by (simp add: mem_wf_def s1_def)
  have c: "coherent s1" "disk_ok (dsk s1)" using d by (simp_all add: coherent_def s1_def)
  have "mem_wf (stackfs_sync s1)" using wf sync_spec [OF wf c(2,1)] by (simp add: Let_def mem_wf_def)
  then show ?thesis using sync_spec [OF wf c(2,1)] unfolding e Let_def
    by (intro exI [of _ "stackfs_sync s1"] conjI exI [of _ s1]) (use wf in \<open>simp_all add: s1_def b_def sfs_consts\<close>)
qed

section \<open>Properties\<close>

text \<open>
  C23. Metadata survives a reboot. Whatever StackFS holds in memory, with every part that is not
  marked dirty already on the disk, after \<open>stackfs_sync\<close> a mount of that disk from any other
  memory (the sector buffer on the stack included) gives back the superblock, every inode and the
  whole block bitmap exactly, with nothing dirty, and hands out the root directory.
\<close>

theorem sync_then_mount_restores:
  assumes "mem_wf s" and "disk_ok (dsk s)" and "coherent s" and "s_magic (sb s) = STACKFS_MAGIC"
    and "mem_wf s0" and "dsk s0 = dsk (stackfs_sync s)" and "drop 448 (s_pad (sb s0)) = drop 448 (s_pad (sb s))"
  shows "\<exists>node s'. stackfs_mount True junk s0 = (Some node, s') \<and> v_inode node = root_inode (sb s) \<and>
    v_flags node = VFS_DIR \<and> sb s' = sb s \<and> inodes s' = inodes s \<and> bmap s' = bmap s \<and> mounted s' \<and>
    \<not> sb_dirty s' \<and> \<not> inodes_dirty s' \<and> \<not> bitmap_dirty s'"
proof -
  let ?s1 = "stackfs_sync s"
  have S: "disk_ok (dsk ?s1)" "sb ?s1 = sb s" "inodes ?s1 = inodes s" "bmap ?s1 = bmap s"
    "sb_saved ?s1" "inodes_saved ?s1" "bmap_saved ?s1"
    using sync_spec [OF assms(1-3)] by (simp_all add: Let_def)
  have wf1: "mem_wf ?s1" using assms(1) S by (simp add: mem_wf_def)
  have d0: "disk_ok (dsk s0)" using S assms(6) by simp
  show ?thesis
    using mount_spec [OF assms(5) d0 wf1 assms(6) S(5-7), of junk] assms(4,7) S by auto
qed

definition demo_disk :: disk where
  "demo_disk = \<lparr>disk_present = True, disk_sectors = 131072, media = \<lambda>_. replicate 512 0, bad = \<lambda>_. False\<rparr>"

definition demo_fs :: sfs where
  "demo_fs = \<lparr>sb = \<lparr>s_magic = STACKFS_MAGIC, s_version = 1, total_blocks = 16376, free_blocks = 16376, total_inodes = 128,
       free_inodes = 127, root_inode = 1, s_created = 0, s_label = replicate 32 0, s_pad = replicate 452 0\<rparr>,
     inodes = replicate STACKFS_MAX_INODES zero_inode, bmap = replicate BITMAP_BYTES 0, mounted = False,
     sb_dirty = True, inodes_dirty = True, bitmap_dirty = True, buf_rw = replicate 4096 0, buf_dir = replicate 4096 0,
     buf_find = replicate 4096 0, dsk = demo_disk\<rparr>"

lemma demo_fs_ok: "disk_ok demo_disk" "mem_wf demo_fs" "coherent demo_fs" "dsk demo_fs = demo_disk"
  by (simp_all add: demo_disk_def disk_ok_def disk_wf_def healthy_def demo_fs_def mem_wf_def super_wf_def
      inode_wf_def zero_inode_def sfs_consts coherent_def)

lemma sync_then_mount_restores_witness:
  "\<exists>node s'. stackfs_mount True [] (demo_fs\<lparr>dsk := dsk (stackfs_sync demo_fs)\<rparr>) = (Some node, s') \<and> v_inode node = 1 \<and> sb s' = sb demo_fs"
proof -
  have "mem_wf (demo_fs\<lparr>dsk := dsk (stackfs_sync demo_fs)\<rparr>)" using demo_fs_ok(2) by (simp add: mem_wf_def)
  from sync_then_mount_restores [OF demo_fs_ok(2) _ demo_fs_ok(3) _ this, of "[]"] demo_fs_ok(1,4)
  show ?thesis by (auto simp: demo_fs_def)
qed

text \<open>
  Formatting a disk with a transferable metadata area succeeds whatever the medium and the
  memory held, and mounting it afterwards, from any memory, is a file system with the magic
  number \<open>stackfs_detect\<close> looks for, inode 1 the root directory and every other inode free, and
  all of the \<open>(sectors - 63) / 8\<close> data blocks free.
\<close>

theorem format_then_mount:
  assumes "disk_ok (dsk s)" and "mem_wf s0" and "dsk s0 = dsk (snd (stackfs_format lbl s))"
    and "drop 448 (s_pad (sb s0)) = replicate 4 0"
  shows "fst (stackfs_format lbl s) \<and> stackfs_detect s0 \<and>
    (\<exists>node s'. stackfs_mount True junk s0 = (Some node, s') \<and> v_inode node = 1 \<and>
       inodes s' = (replicate STACKFS_MAX_INODES zero_inode)[1 := fresh_root] \<and> bmap s' = replicate BITMAP_BYTES 0 \<and>
       total_blocks (sb s') = (disk_sectors (dsk s) - 63) div 8 \<and> free_blocks (sb s') = total_blocks (sb s'))"
proof -
  from format_spec [OF assms(1), of lbl] obtain s1 where s1: "stackfs_format lbl s = (True, s1)" "disk_ok (dsk s1)"
    "mem_wf s1" "sb_saved s1" "inodes_saved s1" "bmap_saved s1" "s_magic (sb s1) = STACKFS_MAGIC" "root_inode (sb s1) = 1"
    "total_blocks (sb s1) = (disk_sectors (dsk s) - 63) div 8" "free_blocks (sb s1) = total_blocks (sb s1)"
    "inodes s1 = (replicate STACKFS_MAX_INODES zero_inode)[1 := fresh_root]" "bmap s1 = replicate BITMAP_BYTES 0"
    "s_pad (sb s1) = replicate 452 0" by blast
  have eq: "dsk s0 = dsk s1" using assms(3) s1(1) by simp
  have d0: "disk_ok (dsk s0)" using s1(2) eq by simp
  have "drop 448 (replicate 452 (0 :: u8)) = replicate 4 0" by (simp add: drop_replicate)
  then have pad: "drop 448 (s_pad (sb s0)) = drop 448 (s_pad (sb s1))" using assms(4) s1(13) by simp
  have "s_magic (dec_super (take 512 (enc_super (sb s1)))) = s_magic (sb s1)"
    by (simp add: dec_super_def enc_super_def de32_take)
  then have "stackfs_detect s0"
    using d0 s1(4,7) read_meta [OF d0, of 0]
    by (simp add: stackfs_detect_def sfs_consts sb_saved_def eq disk_ok_def healthy_def)
  with mount_spec [OF assms(2) d0 s1(3) eq s1(4-7) pad, of junk] s1 show ?thesis by auto
qed

lemma format_then_mount_witness:
  "\<exists>node s'. stackfs_mount True [] (demo_fs\<lparr>dsk := dsk (snd (stackfs_format None demo_fs))\<rparr>) = (Some node, s') \<and>
     total_blocks (sb s') = 16376"
proof -
  have "mem_wf (demo_fs\<lparr>dsk := dsk (snd (stackfs_format None demo_fs))\<rparr>)" using demo_fs_ok(2) by (simp add: mem_wf_def)
  moreover have "drop 448 (s_pad (sb demo_fs)) = replicate 4 0" by (simp add: demo_fs_def drop_replicate)
  moreover have "disk_ok (dsk demo_fs)" using demo_fs_ok by simp
  ultimately show ?thesis
    using format_then_mount [of demo_fs "demo_fs\<lparr>dsk := dsk (snd (stackfs_format None demo_fs))\<rparr>" None "[]"]
    by (auto simp: demo_fs_def demo_disk_def)
qed

end
