(* ===== verification/Fs_Blocks.thy ===== *)
theory Fs_Blocks
  imports Fs_Persist
begin

text \<open>
  The data area of StackFS: a block as 4096 bytes, what reading and writing one does to the
  others, the bitmap as a set of blocks, and the ownership invariant: every block an inode points
  to lies on the disk, is marked in the bitmap, and is pointed to from one place only.
\<close>

section \<open>Blocks\<close>

definition blk :: "disk \<Rightarrow> u32 \<Rightarrow> u8 list" where
  "blk d b = concat (map (\<lambda>i. media d (blk_lba b + of_nat i)) [0..<8])"

text \<open>The data area fits on the disk and its bits in the bitmap.\<close>

definition geometry :: "sfs \<Rightarrow> bool" where
  "geometry s \<longleftrightarrow> disk_ok (dsk s) \<and> unat (total_blocks (sb s)) \<le> 131072 \<and>
     63 + 8 * unat (total_blocks (sb s)) \<le> unat (disk_sectors (dsk s))"

definition total :: "sfs \<Rightarrow> nat" where "total s = unat (total_blocks (sb s))"

lemma geometry_total: "geometry s \<Longrightarrow> total s \<le> 131072" "geometry s \<Longrightarrow> 63 + 8 * total s \<le> unat (disk_sectors (dsk s))"
  by (simp_all add: geometry_def total_def)

lemma lba_nat:
  assumes "unat b < 131072" and "i < 8"
  shows "unat (blk_lba b + of_nat i) = 63 + 8 * unat b + i"
proof -
  have m: "unat (b * 8) = unat b * 8" using assms by (subst unat_mult_no_wrap) simp_all
  have "unat (blk_lba b) = 63 + 8 * unat b"
    unfolding blk_lba_def using assms m by (subst unat_add_no_wrap) (simp_all add: sfs_consts)
  then show ?thesis using assms by (subst unat_add_no_wrap) (simp_all add: unat_of_nat_small)
qed

lemma blk_sector_ok:
  assumes "geometry s" and "unat b < total s" and "i < 8"
  shows "disk_present (dsk s)" "\<not> bad (dsk s) (blk_lba b + of_nat i)"
proof -
  have "unat b < 131072" using assms(2) geometry_total(1) [OF assms(1)] by simp
  then have "unat (blk_lba b + of_nat i) = 63 + 8 * unat b + i" using assms(3) by (rule lba_nat)
  then have "blk_lba b + of_nat i < disk_sectors (dsk s)"
    using geometry_total(2) [OF assms(1)] assms(2,3) by (simp add: word_less_nat_alt)
  then show "disk_present (dsk s)" "\<not> bad (dsk s) (blk_lba b + of_nat i)"
    using assms(1) by (simp_all add: geometry_def disk_ok_def healthy_def)
qed

lemma blk_length: "disk_wf d \<Longrightarrow> length (blk d b) = 4096"
proof -
  assume "disk_wf d"
  then have "length (concat (map (\<lambda>i. media d (blk_lba b + of_nat i)) [0..<n])) = 512 * n" for n
    by (induction n) (simp_all add: disk_wf_def)
  then show ?thesis by (simp add: blk_def)
qed

lemma concat_take_sectors:
  assumes "disk_wf d"
  shows "length (concat (map (\<lambda>i. media d (blk_lba b + of_nat i)) [0..<n])) = 512 * n"
  using assms by (induction n) (simp_all add: disk_wf_def)

lemma read_block_spec:
  assumes g: "geometry s" and b: "unat b < total s" and l: "length buf = 4096"
  shows "read_block s b buf = (True, blk (dsk s) b)"
proof -
  let ?sec = "\<lambda>i. media (dsk s) (blk_lba b + of_nat i)"
  have wf: "disk_wf (dsk s)" using g by (simp add: geometry_def disk_ok_def)
  define body where "body = (\<lambda>i (good, p). if \<not> good then (False, p) else (case disk_read (dsk s) (blk_lba b + of_nat i) of
      None \<Rightarrow> (False, p) | Some x \<Rightarrow> (True, put_bytes p (i * 512) x)))"
  have "for_loop 0 n body (True, buf) = (True, concat (map ?sec [0..<n]) @ drop (512 * n) buf)" if "n \<le> 8" for n
    using that
  proof (induction n)
    case (Suc n)
    have "disk_read (dsk s) (blk_lba b + of_nat n) = Some (?sec n)"
      using blk_sector_ok [OF g b, of n] Suc.prems by (simp add: disk_read_def)
    moreover have "length (?sec n) = 512" using wf by (simp add: disk_wf_def)
    ultimately show ?case
      using Suc concat_take_sectors [OF wf, of b n] l
      by (simp add: for_loop_Suc body_def put_bytes_def add.commute mult.commute)
  qed simp
  from this [of 8] l show ?thesis by (simp add: read_block_def body_def [symmetric] sfs_consts(1,2) blk_def)
qed

lemma write_block_spec:
  assumes g: "geometry s" and b: "unat b < total s" and l: "length buf = 4096"
  shows "\<exists>d. write_block b buf s = (True, s\<lparr>dsk := d\<rparr>) \<and> disk_wf d \<and> disk_present d = disk_present (dsk s) \<and>
    disk_sectors d = disk_sectors (dsk s) \<and> bad d = bad (dsk s) \<and> blk d b = buf \<and>
    (\<forall>x. \<not> (\<exists>i < 8. x = blk_lba b + of_nat i) \<longrightarrow> media d x = media (dsk s) x)"
proof -
  let ?cut = "\<lambda>i. take 512 (drop (i * 512) buf)"
  have wf: "disk_wf (dsk s)" using g by (simp add: geometry_def disk_ok_def)
  have b1: "unat b < 131072" using b geometry_total(1) [OF g] by simp
  have inj: "blk_lba b + of_nat i = blk_lba b + of_nat j \<longleftrightarrow> i = j" if "i < 8" "j < 8" for i j
    using small_lba [of i j] that by simp
  define body where "body = (\<lambda>i (good, s). if \<not> good then (False, s) else (case disk_write (blk_lba b + of_nat i) (?cut i) (dsk s) of
      (r, d) \<Rightarrow> (r, (s :: sfs)\<lparr>dsk := d\<rparr>)))"
  have "\<exists>d. for_loop 0 n body (True, s) = (True, s\<lparr>dsk := d\<rparr>) \<and> disk_wf d \<and> disk_present d = disk_present (dsk s) \<and>
      disk_sectors d = disk_sectors (dsk s) \<and> bad d = bad (dsk s) \<and>
      (\<forall>i < n. media d (blk_lba b + of_nat i) = ?cut i) \<and>
      (\<forall>x. \<not> (\<exists>i < n. x = blk_lba b + of_nat i) \<longrightarrow> media d x = media (dsk s) x)" if "n \<le> 8" for n
    using that
  proof (induction n)
    case 0
    then show ?case using wf by (intro exI [of _ "dsk s"]) simp
  next
    case (Suc n)
    then obtain d where d: "for_loop 0 n body (True, s) = (True, s\<lparr>dsk := d\<rparr>)" "disk_wf d"
      "disk_present d = disk_present (dsk s)" "disk_sectors d = disk_sectors (dsk s)" "bad d = bad (dsk s)"
      "\<forall>i < n. media d (blk_lba b + of_nat i) = ?cut i"
      "\<forall>x. \<not> (\<exists>i < n. x = blk_lba b + of_nat i) \<longrightarrow> media d x = media (dsk s) x" by auto
    define d' where "d' = d\<lparr>media := (media d)(blk_lba b + of_nat n := ?cut n)\<rparr>"
    have w: "disk_write (blk_lba b + of_nat n) (?cut n) d = (True, d')"
      using blk_sector_ok [OF g b, of n] Suc.prems d(3,5) by (simp add: disk_write_def d'_def)
    have "length (?cut n) = 512" using l Suc.prems by simp
    then have "disk_wf d'" using d(2) by (simp add: disk_wf_def d'_def)
    moreover have "media d' (blk_lba b + of_nat i) = ?cut i" if "i < Suc n" for i
      using that d(6) inj [of i n] Suc.prems by (cases "i = n") (auto simp: d'_def)
    ultimately show ?case using d w by (intro exI [of _ d']) (auto simp: for_loop_Suc body_def d'_def less_Suc_eq)
  qed
  from this [of 8] obtain d where d: "for_loop 0 8 body (True, s) = (True, s\<lparr>dsk := d\<rparr>)" "disk_wf d"
    "disk_present d = disk_present (dsk s)" "disk_sectors d = disk_sectors (dsk s)" "bad d = bad (dsk s)"
    "\<forall>i < 8. media d (blk_lba b + of_nat i) = ?cut i"
    "\<forall>x. \<not> (\<exists>i < 8. x = blk_lba b + of_nat i) \<longrightarrow> media d x = media (dsk s) x" by auto
  have "concat (map (\<lambda>i. media d (blk_lba b + of_nat i)) [0..<n]) = take (512 * n) buf" if "n \<le> 8" for n
    using that
  proof (induction n)
    case (Suc n)
    then show ?case using d(6) take_add [of "512 * n" 512 buf] by (simp add: mult.commute add.commute)
  qed simp
  from this [of 8] l have "blk d b = buf" by (simp add: blk_def)
  with d show ?thesis by (auto simp: write_block_def body_def [symmetric] sfs_consts(1,2))
qed

text \<open>Other blocks, and the metadata area, are elsewhere.\<close>

lemma blk_frame:
  assumes "unat c < 131072" and "\<And>x. 63 + 8 * unat c \<le> unat x \<Longrightarrow> unat x < 63 + 8 * unat c + 8 \<Longrightarrow> media d' x = media d x"
  shows "blk d' c = blk d c"
proof -
  have "media d' (blk_lba c + of_nat i) = media d (blk_lba c + of_nat i)" if "i < 8" for i
    using lba_nat [OF assms(1) that] that by (intro assms(2)) simp_all
  then have "map (\<lambda>i. media d' (blk_lba c + of_nat i)) [0..<8] = map (\<lambda>i. media d (blk_lba c + of_nat i)) [0..<8]"
    by simp
  then show ?thesis unfolding blk_def by (rule arg_cong)
qed

lemma write_block_frame:
  assumes g: "geometry s" and b: "unat b < total s" and l: "length buf = 4096"
  shows "\<exists>d. write_block b buf s = (True, s\<lparr>dsk := d\<rparr>) \<and> geometry (s\<lparr>dsk := d\<rparr>) \<and> blk d b = buf \<and>
    (\<forall>c. unat c < total s \<longrightarrow> c \<noteq> b \<longrightarrow> blk d c = blk (dsk s) c) \<and>
    (\<forall>m < 63. media d (of_nat m) = media (dsk s) (of_nat m))"
proof -
  from write_block_spec [OF assms] obtain d where d: "write_block b buf s = (True, s\<lparr>dsk := d\<rparr>)" "disk_wf d"
    "disk_present d = disk_present (dsk s)" "disk_sectors d = disk_sectors (dsk s)" "bad d = bad (dsk s)" "blk d b = buf"
    "\<And>x. \<not> (\<exists>i < 8. x = blk_lba b + of_nat i) \<Longrightarrow> media d x = media (dsk s) x" by blast
  have b1: "unat b < 131072" using b geometry_total(1) [OF g] by simp
  have out: "media d x = media (dsk s) x" if "\<not> (63 + 8 * unat b \<le> unat x \<and> unat x < 63 + 8 * unat b + 8)" for x
    by (rule d(7)) (use lba_nat [OF b1] that in force)
  have "geometry (s\<lparr>dsk := d\<rparr>)" using g d(2-5) by (simp add: geometry_def disk_ok_def healthy_def)
  moreover have "blk d c = blk (dsk s) c" if "unat c < total s" "c \<noteq> b" for c
  proof (rule blk_frame)
    show "unat c < 131072" using that(1) geometry_total(1) [OF g] by simp
    have "unat c \<noteq> unat b" using that(2) by (simp add: word_unat_eq_iff)
    then show "media d x = media (dsk s) x" if "63 + 8 * unat c \<le> unat x" "unat x < 63 + 8 * unat c + 8" for x
      using that by (intro out) auto
  qed
  moreover have "media d (of_nat m) = media (dsk s) (of_nat m)" if "m < 63" for m
    by (rule out) (use that in \<open>simp add: unat_of_nat_small\<close>)
  ultimately show ?thesis using d(1,6) by blast
qed

end
