(* ===== verification/Fs_Files.thy ===== *)
theory Fs_Files
  imports Fs_Blocks
begin

text \<open>
  Allocation of blocks and the contents of files: the ownership invariant under
  \<open>bitmap_alloc\<close>, what \<open>bfs_write\<close> leaves in the blocks of its file and of the others, and what
  \<open>bfs_read\<close> reads back.
\<close>

section \<open>Signed readings\<close>

lemma sint_small: "unat (x :: u32) < 2 ^ 31 \<Longrightarrow> sint x = int (unat x)"
proof -
  assume x: "unat x < 2 ^ 31"
  have u: "uint x = int (unat x)" by (rule uint_nat)
  have x': "unat x < 2147483648" using x by simp
  have b: "- 2147483648 \<le> uint x" "uint x < 2147483648" using u x' by linarith+
  have "sint x = signed_take_bit 31 (uint x)" using sint_uint [of x] by simp
  also have "\<dots> = uint x" using b by (intro signed_take_bit_int_eq_self) simp_all
  finally show ?thesis using u by (rule trans)
qed

lemma valid_ino_iff: "valid_ino n \<longleftrightarrow> 0 < unat n \<and> unat n < 128"
proof
  assume "valid_ino n"
  then have s: "0 < sint n" "sint n < 128" by (simp_all add: valid_ino_def sfs_consts)
  have "uint n = take_bit LENGTH(32) (sint n)" by (rule uint_sint)
  with s have "uint n = sint n" by (simp add: take_bit_eq_mod)
  moreover have "uint n = int (unat n)" by (rule uint_nat)
  ultimately show "0 < unat n \<and> unat n < 128" using s by linarith
next
  assume n: "0 < unat n \<and> unat n < 128"
  then have s: "sint n = int (unat n)" by (intro sint_small) simp
  have "0 < sint n" "sint n < 128" unfolding s using n by linarith+
  then show "valid_ino n" by (simp add: valid_ino_def sfs_consts)
qed

section \<open>The bitmap as a set of blocks\<close>

definition marked :: "sfs \<Rightarrow> nat \<Rightarrow> bool" where
  "marked s b \<longleftrightarrow> bit (bmap s ! (b div 8)) (b mod 8)"

definition free_blks :: "sfs \<Rightarrow> nat set" where
  "free_blks s = {b. b < total s \<and> \<not> marked s b}"

definition ptr :: "sfs \<Rightarrow> nat \<Rightarrow> nat \<Rightarrow> u32" where
  "ptr s i p = i_blocks (inodes s ! i) ! p"

definition own :: "sfs \<Rightarrow> bool" where
  "own s \<longleftrightarrow> mem_wf s \<and> geometry s \<and>
     length (buf_rw s) = 4096 \<and> length (buf_dir s) = 4096 \<and> length (buf_find s) = 4096 \<and>
     (\<forall>i < 128. \<forall>p < 12. ptr s i p \<noteq> 0 \<longrightarrow> unat (ptr s i p) < total s \<and> marked s (unat (ptr s i p))) \<and>
     (\<forall>i < 128. \<forall>p < 12. \<forall>j < 128. \<forall>q < 12. ptr s i p \<noteq> 0 \<and> ptr s i p = ptr s j q \<longrightarrow> i = j \<and> p = q) \<and>
     unat (free_blocks (sb s)) = card (free_blks s)"

lemma ownD:
  assumes "own s"
  shows "mem_wf s" "geometry s" "length (buf_rw s) = 4096" "length (buf_dir s) = 4096" "length (buf_find s) = 4096"
    "unat (free_blocks (sb s)) = card (free_blks s)" "length (bmap s) = 16384" "length (inodes s) = 128" "total s \<le> 131072"
    "i < 128 \<Longrightarrow> p < 12 \<Longrightarrow> ptr s i p \<noteq> 0 \<Longrightarrow> unat (ptr s i p) < total s \<and> marked s (unat (ptr s i p))"
    "i < 128 \<Longrightarrow> p < 12 \<Longrightarrow> j < 128 \<Longrightarrow> q < 12 \<Longrightarrow> ptr s i p \<noteq> 0 \<Longrightarrow> ptr s i p = ptr s j q \<Longrightarrow> i = j \<and> p = q"
    "i < 128 \<Longrightarrow> length (i_blocks (inodes s ! i)) = 12"
proof -
  show "mem_wf s" "geometry s" "length (buf_rw s) = 4096" "length (buf_dir s) = 4096" "length (buf_find s) = 4096"
    "unat (free_blocks (sb s)) = card (free_blks s)" using assms by (simp_all add: own_def)
  then show "length (bmap s) = 16384" "length (inodes s) = 128" "total s \<le> 131072"
    by (simp_all add: mem_wf_def BITMAP_BYTES_def sfs_consts geometry_total)
  show "i < 128 \<Longrightarrow> p < 12 \<Longrightarrow> ptr s i p \<noteq> 0 \<Longrightarrow> unat (ptr s i p) < total s \<and> marked s (unat (ptr s i p))"
    "i < 128 \<Longrightarrow> p < 12 \<Longrightarrow> j < 128 \<Longrightarrow> q < 12 \<Longrightarrow> ptr s i p \<noteq> 0 \<Longrightarrow> ptr s i p = ptr s j q \<Longrightarrow> i = j \<and> p = q"
    using assms unfolding own_def by blast+
  show "length (i_blocks (inodes s ! i)) = 12" if "i < 128"
    using \<open>mem_wf s\<close> that by (simp add: mem_wf_def sfs_consts inode_wf_def)
qed

lemma free_blks_finite [simp]: "finite (free_blks s)"
  by (simp add: free_blks_def)

lemma marked_update:
  assumes "length (bmap s) = 16384" and "b < 131072" and "c < 131072"
  shows "marked (s\<lparr>bmap := (bmap s)[b div 8 := bmap s ! (b div 8) OR push_bit (b mod 8) 1]\<rparr>) c \<longleftrightarrow> marked s c \<or> c = b"
    "marked (s\<lparr>bmap := (bmap s)[b div 8 := bmap s ! (b div 8) AND NOT (push_bit (b mod 8) 1)]\<rparr>) c \<longleftrightarrow> marked s c \<and> c \<noteq> b"
proof -
  have l: "b div 8 < length (bmap s)" "c div 8 < length (bmap s)" using assms by simp_all
  have m: "c mod 8 < 8" by simp
  show "marked (s\<lparr>bmap := (bmap s)[b div 8 := bmap s ! (b div 8) OR push_bit (b mod 8) 1]\<rparr>) c \<longleftrightarrow> marked s c \<or> c = b"
    using l m by (auto simp: marked_def nth_list_update bit_set_mask simp del: push_bit_of_1 dest: div_mod_eqI)
  show "marked (s\<lparr>bmap := (bmap s)[b div 8 := bmap s ! (b div 8) AND NOT (push_bit (b mod 8) 1)]\<rparr>) c \<longleftrightarrow> marked s c \<and> c \<noteq> b"
    using l m by (auto simp: marked_def nth_list_update bit_clear_mask simp del: push_bit_of_1 dest: div_mod_eqI)
qed

lemma marked_cong: "bmap s' = bmap s \<Longrightarrow> marked s' b = marked s b"
  by (simp add: marked_def)

lemma sint_total: "geometry s \<Longrightarrow> nat (sint (total_blocks (sb s))) = total s"
  by (simp add: geometry_def total_def sint_small)

lemma bitmap_alloc_search:
  assumes "geometry s"
  shows "first_from (\<lambda>i. bmap s ! (i div 8) AND push_bit (i mod 8) 1 = 0) 0 (nat (sint (total_blocks (sb s)))) =
    (if free_blks s = {} then None else Some (Min (free_blks s)))"
proof -
  have c: "(bmap s ! (i div 8) AND push_bit (i mod 8) 1 = 0) \<longleftrightarrow> \<not> marked s i" for i
    using bit_mask_iff [of "bmap s ! (i div 8)" "i mod 8"] unfolding marked_def by blast
  have "first_from (\<lambda>i. \<not> marked s i) 0 (total s) = (if free_blks s = {} then None else Some (Min (free_blks s)))"
  proof (cases "free_blks s = {}")
    case True
    then show ?thesis by (auto simp: first_from_None free_blks_def)
  next
    case False
    define m where "m = Min (free_blks s)"
    have m: "m \<in> free_blks s" using False by (simp add: m_def)
    have "\<not> j < m" if "j \<in> free_blks s" for j using that by (simp add: m_def not_less)
    with m have "first_from (\<lambda>i. \<not> marked s i) 0 (total s) = Some m"
      unfolding first_from_Some free_blks_def by (metis (mono_tags, lifting) less_trans mem_Collect_eq zero_le)
    with False show ?thesis by (simp add: m_def)
  qed
  then show ?thesis unfolding c sint_total [OF assms] .
qed

text \<open>Taking a block: the least free one, and nothing but the bitmap and the counter changes.\<close>

lemma bitmap_alloc_spec:
  assumes "own s"
  shows "if free_blks s = {} then bitmap_alloc s = (None, s)
    else \<exists>b s'. bitmap_alloc s = (Some b, s') \<and> b < total s \<and> \<not> marked s b \<and>
      (\<forall>c < 131072. marked s' c \<longleftrightarrow> marked s c \<or> c = b) \<and> free_blks s' = free_blks s - {b} \<and>
      inodes s' = inodes s \<and> dsk s' = dsk s \<and> buf_rw s' = buf_rw s \<and> buf_dir s' = buf_dir s \<and> buf_find s' = buf_find s \<and>
      total s' = total s \<and> mem_wf s' \<and> geometry s' \<and> bitmap_dirty s' \<and> sb_dirty s' \<and>
      unat (free_blocks (sb s')) = card (free_blks s') \<and> mounted s' = mounted s \<and> inodes_dirty s' = inodes_dirty s \<and>
      s_magic (sb s') = s_magic (sb s)"
proof (cases "free_blks s = {}")
  case True
  with bitmap_alloc_search [OF ownD(2) [OF assms]] show ?thesis by (simp add: bitmap_alloc_def)
next
  case False
  define b where "b = Min (free_blks s)"
  have bf: "b \<in> free_blks s" using False by (simp add: b_def)
  define s' where "s' = s\<lparr>bmap := (bmap s)[b div 8 := bmap s ! (b div 8) OR push_bit (b mod 8) 1],
    sb := (sb s)\<lparr>free_blocks := free_blocks (sb s) - 1\<rparr>, bitmap_dirty := True, sb_dirty := True\<rparr>"
  have e: "bitmap_alloc s = (Some b, s')"
    using bitmap_alloc_search [OF ownD(2) [OF assms]] False by (simp add: bitmap_alloc_def s'_def b_def [symmetric])
  have b: "b < total s" "\<not> marked s b" "b < 131072" using bf ownD(9) [OF assms] by (auto simp: free_blks_def)
  have mk: "marked s' c \<longleftrightarrow> marked s c \<or> c = b" if "c < 131072" for c
  proof -
    have "marked s' c = marked (s\<lparr>bmap := (bmap s)[b div 8 := bmap s ! (b div 8) OR push_bit (b mod 8) 1]\<rparr>) c"
      by (simp add: s'_def marked_def)
    then show ?thesis using marked_update(1) [OF ownD(7) [OF assms] b(3) that] by simp
  qed
  have t: "total s' = total s" by (simp add: s'_def total_def)
  have fr: "free_blks s' = free_blks s - {b}"
    unfolding free_blks_def t using mk ownD(9) [OF assms] by auto
  have "1 \<le> card (free_blks s)" using False by (simp add: Suc_le_eq card_gt_0_iff)
  then have "unat (free_blocks (sb s')) = card (free_blks s')"
    using ownD(6) [OF assms] bf unfolding fr by (simp add: s'_def unat_sub_no_wrap card_Diff_singleton)
  moreover have "mem_wf s'" "geometry s'"
    using ownD(1,2) [OF assms] by (simp_all add: mem_wf_def geometry_def s'_def super_wf_def)
  ultimately show ?thesis using e b mk fr t False by (auto simp: s'_def)
qed

section \<open>Pointing an inode at a block\<close>

text \<open>Two states whose ownership facts are the same.\<close>

lemma own_cong:
  assumes "own s" and "bmap s' = bmap s" and "inodes s' = inodes s" and "sb s' = sb s" and "geometry s'"
    and "length (buf_rw s') = 4096" and "length (buf_dir s') = 4096" and "length (buf_find s') = 4096"
  shows "own s'"
proof -
  have e: "free_blks s' = free_blks s" "total s' = total s" "marked s' = marked s" "ptr s' = ptr s"
    using assms(2-4) by (auto simp: free_blks_def total_def marked_def ptr_def fun_eq_iff)
  show ?thesis
    using assms(1) assms(5-8) unfolding own_def mem_wf_def e assms(2-4) by blast
qed

definition rest_of :: "inode \<Rightarrow> inode" where
  "rest_of i = i\<lparr>i_blocks := []\<rparr>"

definition set_ptr :: "nat \<Rightarrow> nat \<Rightarrow> u32 \<Rightarrow> sfs \<Rightarrow> sfs" where
  "set_ptr i p v s = upd_inode i (\<lambda>x. x\<lparr>i_blocks := (i_blocks x)[p := v]\<rparr>) s"

lemma set_ptr_frame [simp]:
  "bmap (set_ptr i p v s) = bmap s" "sb (set_ptr i p v s) = sb s" "dsk (set_ptr i p v s) = dsk s"
  "buf_rw (set_ptr i p v s) = buf_rw s" "buf_dir (set_ptr i p v s) = buf_dir s" "buf_find (set_ptr i p v s) = buf_find s"
  "length (inodes (set_ptr i p v s)) = length (inodes s)"
  by (simp_all add: set_ptr_def upd_inode_def)

lemma set_ptr_ptr:
  assumes "mem_wf s" and "i < 128" and "p < 12" and "j < 128" and "q < 12"
  shows "ptr (set_ptr i p v s) j q = (if j = i \<and> q = p then v else ptr s j q)"
proof -
  have "length (i_blocks (inodes s ! i)) = 12" "length (inodes s) = 128"
    using assms by (simp_all add: mem_wf_def sfs_consts inode_wf_def)
  with assms(2-5) show ?thesis by (auto simp: set_ptr_def upd_inode_def ptr_def nth_list_update)
qed

lemma set_ptr_wf: "mem_wf s \<Longrightarrow> mem_wf (set_ptr i p v s)"
proof -
  assume wf: "mem_wf s"
  have "inode_wf x" if "x \<in> set (inodes (set_ptr i p v s))" for x
  proof (cases "i < length (inodes s)")
    case True
    then have "inode_wf (inodes s ! i)" using wf by (simp add: mem_wf_def)
    moreover have "x \<in> set (inodes s) \<or> x = (inodes s ! i)\<lparr>i_blocks := (i_blocks (inodes s ! i))[p := v]\<rparr>"
      using that subsetD [OF set_update_subset_insert, of x "inodes s" i] unfolding set_ptr_def upd_inode_def
      by (simp, blast)
    ultimately show ?thesis using wf by (auto simp: mem_wf_def inode_wf_def)
  next
    case False
    with that wf show ?thesis by (simp add: set_ptr_def upd_inode_def mem_wf_def list_update_beyond not_less)
  qed
  with wf show ?thesis by (simp add: mem_wf_def)
qed

lemma set_ptr_rest:
  "rest_of (inodes (set_ptr i p v s) ! j) = rest_of (inodes s ! j)"
  "j \<noteq> i \<Longrightarrow> inodes (set_ptr i p v s) ! j = inodes s ! j"
proof -
  show "rest_of (inodes (set_ptr i p v s) ! j) = rest_of (inodes s ! j)"
    by (cases "i < length (inodes s)"; cases "j = i") (simp_all add: set_ptr_def upd_inode_def rest_of_def list_update_beyond not_less)
  show "j \<noteq> i \<Longrightarrow> inodes (set_ptr i p v s) ! j = inodes s ! j"
    by (simp add: set_ptr_def upd_inode_def)
qed

text \<open>
  What the write and the directory loops do first for block \<open>p\<close> of inode \<open>i\<close>: take a zeroed block
  if there is none yet, else read it into the buffer.
\<close>

definition ensure_block :: "nat \<Rightarrow> nat \<Rightarrow> sfs \<Rightarrow> bool \<times> sfs" where
  "ensure_block i p s =
     (if ptr s i p = 0
      then (case bitmap_alloc s of
              (None, s) \<Rightarrow> (False, s)
            | (Some nb, s) \<Rightarrow> (True, (set_ptr i p (of_nat nb) s)\<lparr>buf_rw := replicate STACKFS_BLOCK_SIZE 0\<rparr>))
      else (True, s\<lparr>buf_rw := snd (read_block s (ptr s i p) (buf_rw s))\<rparr>))"

lemma geometry_cong: "dsk s' = dsk s \<Longrightarrow> total_blocks (sb s') = total_blocks (sb s) \<Longrightarrow> geometry s' = geometry s"
  by (simp add: geometry_def)

lemma ensure_block_spec:
  assumes o: "own s" and i: "i < 128" and p: "p < 12"
  shows "if ptr s i p = 0 \<and> free_blks s = {} then ensure_block i p s = (False, s)
    else \<exists>s1. ensure_block i p s = (True, s1) \<and> own s1 \<and> dsk s1 = dsk s \<and> total s1 = total s \<and>
      s_magic (sb s1) = s_magic (sb s) \<and>
      buf_rw s1 = (if ptr s i p = 0 then replicate 4096 0 else blk (dsk s) (ptr s i p)) \<and>
      (\<forall>j < 128. \<forall>q < 12. \<not> (j = i \<and> q = p) \<longrightarrow> ptr s1 j q = ptr s j q) \<and>
      (\<forall>j. rest_of (inodes s1 ! j) = rest_of (inodes s ! j)) \<and> (\<forall>j. j \<noteq> i \<longrightarrow> inodes s1 ! j = inodes s ! j) \<and>
      (ptr s i p \<noteq> 0 \<longrightarrow> ptr s1 i p = ptr s i p) \<and> unat (ptr s1 i p) < total s \<and>
      (marked s 0 \<longrightarrow> marked s1 0 \<and> ptr s1 i p \<noteq> 0) \<and> buf_dir s1 = buf_dir s \<and> buf_find s1 = buf_find s"
proof (cases "ptr s i p = 0")
  case False
  have u: "unat (ptr s i p) < total s" using ownD(10) [OF o i p False] by simp
  have r: "read_block s (ptr s i p) (buf_rw s) = (True, blk (dsk s) (ptr s i p))"
    by (rule read_block_spec [OF ownD(2) [OF o] u ownD(3) [OF o]])
  define s1 where "s1 = s\<lparr>buf_rw := blk (dsk s) (ptr s i p)\<rparr>"
  have l: "length (blk (dsk s) (ptr s i p)) = 4096"
    using ownD(2) [OF o] by (intro blk_length) (simp add: geometry_def disk_ok_def)
  have "own s1"
    by (rule own_cong [OF o]) (use l ownD(2,4,5) [OF o] in \<open>simp_all add: s1_def geometry_def\<close>)
  moreover have "ensure_block i p s = (True, s1)" using False by (simp add: ensure_block_def r s1_def)
  ultimately show ?thesis using False u by (auto simp: s1_def ptr_def total_def marked_def)
next
  case True
  show ?thesis
  proof (cases "free_blks s = {}")
    case empty: True
    with True bitmap_alloc_spec [OF o] show ?thesis by (simp add: ensure_block_def)
  next
    case False
    with bitmap_alloc_spec [OF o] obtain b s2 where s2: "bitmap_alloc s = (Some b, s2)" "b < total s" "\<not> marked s b"
      "\<And>c. c < 131072 \<Longrightarrow> marked s2 c \<longleftrightarrow> marked s c \<or> c = b" "free_blks s2 = free_blks s - {b}"
      "inodes s2 = inodes s" "dsk s2 = dsk s" "buf_rw s2 = buf_rw s" "buf_dir s2 = buf_dir s" "buf_find s2 = buf_find s"
      "total s2 = total s" "mem_wf s2" "geometry s2" "unat (free_blocks (sb s2)) = card (free_blks s2)"
      "s_magic (sb s2) = s_magic (sb s)" by auto
    define s1 where "s1 = (set_ptr i p (of_nat b) s2)\<lparr>buf_rw := replicate STACKFS_BLOCK_SIZE 0\<rparr>"
    have e: "ensure_block i p s = (True, s1)" using True s2(1) by (simp add: ensure_block_def s1_def)
    have b: "unat (of_nat b :: u32) = b" "b < 131072"
      using s2(2) ownD(9) [OF o] by (simp_all add: unat_of_nat_small)
    have m: "marked s1 c = marked s2 c" "total s1 = total s" "free_blks s1 = free_blks s2" for c
      using s2(11) by (auto simp: s1_def marked_def total_def free_blks_def)
    have pt: "ptr s1 j q = (if j = i \<and> q = p then of_nat b else ptr s j q)" if "j < 128" "q < 12" for j q
      using set_ptr_ptr [OF s2(12) i p that, of "of_nat b"] s2(6) by (simp add: s1_def ptr_def)
    have wf1: "mem_wf s1" using set_ptr_wf [OF s2(12), of i p "of_nat b"] by (simp add: s1_def mem_wf_def)
    have own_s: "unat (ptr s j q) < total s \<and> marked s (unat (ptr s j q)) \<and> unat (ptr s j q) \<noteq> b"
      if "j < 128" "q < 12" "ptr s j q \<noteq> 0" for j q
      using ownD(10) [OF o that] s2(3) by auto
    have "own s1" unfolding own_def
    proof (intro conjI allI impI)
      show "geometry s1" using s2(13) by (simp add: s1_def geometry_def)
      show "unat (free_blocks (sb s1)) = card (free_blks s1)" using s2(14) m(3) by (simp add: s1_def)
    next
      fix j q assume j: "j < 128" and q: "(q :: nat) < 12" and nz: "ptr s1 j q \<noteq> 0"
      show "unat (ptr s1 j q) < total s1"
        using own_s [OF j q] nz s2(2) b by (auto simp: pt [OF j q] m)
      show "marked s1 (unat (ptr s1 j q))"
        using own_s [OF j q] nz s2(2,4) b ownD(9) [OF o] by (auto simp: pt [OF j q] m)
    next
      fix j q k r assume j: "j < 128" "(q :: nat) < 12" and k: "k < 128" "(r :: nat) < 12"
        and eq: "ptr s1 j q \<noteq> 0 \<and> ptr s1 j q = ptr s1 k r"
      have ne: "ptr s x y \<noteq> of_nat b" if "x < 128" "y < 12" "ptr s x y \<noteq> 0" for x y
        using own_s [OF that] b(1) by auto
      show "j = k" "q = r"
        using eq ne [OF j] ne [OF k] ownD(11) [OF o j k]
        by (auto simp: pt [OF j] pt [OF k] split: if_splits)
    qed (use wf1 s2(8,9,10) ownD(3,4,5) [OF o] in \<open>simp_all add: s1_def sfs_consts\<close>)
    moreover have "marked s 0 \<longrightarrow> marked s1 0 \<and> ptr s1 i p \<noteq> 0"
      using s2(3,4) pt [OF i p] b by (auto simp: m)
    moreover have "dsk s1 = dsk s" "s_magic (sb s1) = s_magic (sb s)" "buf_rw s1 = replicate 4096 0"
      "buf_dir s1 = buf_dir s" "buf_find s1 = buf_find s" "\<And>j. rest_of (inodes s1 ! j) = rest_of (inodes s ! j)"
      "\<And>j. j \<noteq> i \<Longrightarrow> inodes s1 ! j = inodes s ! j"
      using s2 set_ptr_rest [where i = i and p = p and v = "of_nat b" and s = s2] by (simp_all add: s1_def sfs_consts)
    moreover have "unat (ptr s1 i p) < total s" using pt [OF i p] b s2(2) by simp
    ultimately show ?thesis using e True False m(2) pt by simp
  qed
qed

section \<open>The bytes of a file\<close>

text \<open>The byte at position \<open>k\<close> of inode \<open>i\<close>, if a block holds it.\<close>

definition fbyte :: "sfs \<Rightarrow> nat \<Rightarrow> nat \<Rightarrow> u8 option" where
  "fbyte s i k =
     (if k < 49152 \<and> ptr s i (k div 4096) \<noteq> 0 then Some (blk (dsk s) (ptr s i (k div 4096)) ! (k mod 4096)) else None)"

text \<open>Replacing part of the block just ensured.\<close>

lemma write_step:
  assumes o: "own s" and m0: "marked s 0" and i: "i < 128" and p: "p < 12" and room: "bo + length chunk \<le> 4096"
    and can: "ptr s i p \<noteq> 0 \<or> free_blks s \<noteq> {}"
  shows "\<exists>s1 s2. ensure_block i p s = (True, s1) \<and>
    write_block (ptr s1 i p) (put_bytes (buf_rw s1) bo chunk) (s1\<lparr>buf_rw := put_bytes (buf_rw s1) bo chunk\<rparr>) = (True, s2) \<and>
    own s2 \<and> marked s2 0 \<and> total s2 = total s \<and> s_magic (sb s2) = s_magic (sb s) \<and>
    (\<forall>j. rest_of (inodes s2 ! j) = rest_of (inodes s ! j)) \<and> (\<forall>j. j \<noteq> i \<longrightarrow> inodes s2 ! j = inodes s ! j) \<and>
    (\<forall>j < 128. \<forall>k. fbyte s2 j k = (if j = i \<and> k div 4096 = p
       then Some (put_bytes (if ptr s i p = 0 then replicate 4096 0 else blk (dsk s) (ptr s i p)) bo chunk ! (k mod 4096))
       else fbyte s j k)) \<and>
    (\<forall>m < 63. media (dsk s2) (of_nat m) = media (dsk s) (of_nat m))"
proof -
  from ensure_block_spec [OF o i p] can obtain s1 where s1: "ensure_block i p s = (True, s1)" "own s1" "dsk s1 = dsk s"
    "total s1 = total s" "s_magic (sb s1) = s_magic (sb s)"
    "buf_rw s1 = (if ptr s i p = 0 then replicate 4096 0 else blk (dsk s) (ptr s i p))"
    "\<And>j q. j < 128 \<Longrightarrow> q < 12 \<Longrightarrow> \<not> (j = i \<and> q = p) \<Longrightarrow> ptr s1 j q = ptr s j q"
    "\<And>j. rest_of (inodes s1 ! j) = rest_of (inodes s ! j)" "\<And>j. j \<noteq> i \<Longrightarrow> inodes s1 ! j = inodes s ! j"
    "marked s1 0" "ptr s1 i p \<noteq> 0" "unat (ptr s1 i p) < total s" using m0 by (auto split: if_splits)
  let ?b = "put_bytes (buf_rw s1) bo chunk" and ?v = "ptr s1 i p"
  have l: "length ?b = 4096" using room ownD(3) [OF s1(2)] by (simp add: put_bytes_length)
  define t where "t = s1\<lparr>buf_rw := ?b\<rparr>"
  have g: "geometry t" "total t = total s" using ownD(2) [OF s1(2)] s1(4) by (simp_all add: t_def geometry_def total_def)
  have vt: "unat ?v < total t" using s1(12) g(2) by simp
  from write_block_frame [OF g(1) vt l] obtain d where d: "write_block ?v ?b t = (True, t\<lparr>dsk := d\<rparr>)"
    "geometry (t\<lparr>dsk := d\<rparr>)" "blk d ?v = ?b" "\<And>c. unat c < total t \<Longrightarrow> c \<noteq> ?v \<Longrightarrow> blk d c = blk (dsk t) c"
    "\<And>m. m < 63 \<Longrightarrow> media d (of_nat m) = media (dsk t) (of_nat m)" by blast
  define s2 where "s2 = t\<lparr>dsk := d\<rparr>"
  have own2: "own s2"
    by (rule own_cong [OF s1(2)]) (use d(2) l ownD(4,5) [OF s1(2)] in \<open>simp_all add: s2_def t_def\<close>)
  have pt: "ptr s2 j q = ptr s1 j q" "marked s2 = marked s1" "total s2 = total s1" for j q
    by (simp_all add: s2_def t_def ptr_def marked_def total_def fun_eq_iff)
  have fb: "fbyte s2 j k = (if j = i \<and> k div 4096 = p then Some (?b ! (k mod 4096)) else fbyte s j k)" if j: "j < 128" for j k
  proof (cases "k < 49152")
    case True
    then have q: "k div 4096 < 12" by (simp add: div_less_iff_less_mult)
    show ?thesis
    proof (cases "j = i \<and> k div 4096 = p")
      case True
      with \<open>k < 49152\<close> s1(11) d(3) show ?thesis by (simp add: fbyte_def pt) (simp add: s2_def)
    next
      case False
      have e: "ptr s1 j (k div 4096) = ptr s j (k div 4096)" by (rule s1(7) [OF j q False])
      have "blk d (ptr s j (k div 4096)) = blk (dsk s) (ptr s j (k div 4096))" if nz: "ptr s j (k div 4096) \<noteq> 0"
      proof -
        have "ptr s1 j (k div 4096) \<noteq> ?v"
          using ownD(11) [OF s1(2) j q i p] nz False e by auto
        moreover have "unat (ptr s j (k div 4096)) < total s" using ownD(10) [OF o j q nz] by simp
        ultimately show ?thesis using d(4) e s1(3) g(2) by (simp add: t_def)
      qed
      then have "fbyte s2 j k = fbyte s j k"
        by (cases "ptr s j (k div 4096) = 0") (simp_all add: fbyte_def pt e, simp add: s2_def)
      with False show ?thesis by auto
    qed
  next
    case False
    with p show ?thesis by (auto simp: fbyte_def div_less_iff_less_mult [symmetric])
  qed
  have "media (dsk s2) (of_nat m) = media (dsk s) (of_nat m)" if "m < 63" for m
    using d(5) [OF that] s1(3) by (simp add: s2_def t_def)
  moreover have "inodes s2 = inodes s1" "sb s2 = sb s1" by (simp_all add: s2_def t_def)
  moreover have "write_block ?v ?b (s1\<lparr>buf_rw := ?b\<rparr>) = (True, s2)" using d(1) by (simp add: s2_def t_def)
  ultimately show ?thesis
    using s1(1,4,5,8,9,10) own2 fb pt(2,3) by (intro exI [of _ s1] exI [of _ s2]) (simp add: s1(6))
qed

lemma bfs_write_loop_rec:
  "bfs_write_loop ino offset sz dn buf s =
     (if dn < sz \<and> blk_index offset dn < 12 then
        (case ensure_block ino (blk_index offset dn) s of (go, s1) \<Rightarrow>
           if \<not> go then (dn, s1)
           else (let b = put_bytes (buf_rw s1) (blk_off offset dn) (take (unat (blk_count offset sz dn)) (drop (unat dn) buf))
                 in case write_block (ptr s1 ino (blk_index offset dn)) b (s1\<lparr>buf_rw := b\<rparr>) of (good, s2) \<Rightarrow>
                      if \<not> good then (dn, s2) else bfs_write_loop ino offset sz (dn + blk_count offset sz dn) buf s2))
      else (dn, s))"
proof (cases "dn < sz \<and> blk_index offset dn < 12")
  case False
  then show ?thesis by (subst bfs_write_loop.simps) (auto simp: Let_def sfs_consts(5) not_less)
next
  case True
  show ?thesis
  proof (cases "ptr s ino (blk_index offset dn) = 0")
    case z: True
    obtain r s1 where a: "bitmap_alloc s = (r, s1)" by fastforce
    with True z show ?thesis
      by (subst bfs_write_loop.simps, cases r)
         (simp_all add: Let_def ensure_block_def set_ptr_def ptr_def sfs_consts(5) not_le)
  next
    case False
    with True show ?thesis
      by (subst bfs_write_loop.simps) (simp add: Let_def ensure_block_def ptr_def sfs_consts(5) not_le)
  qed
qed

text \<open>
  The contents after a transfer into positions \<open>lo\<close> up to \<open>hi\<close> of one inode: those bytes are the
  ones given, every other byte of that inode is as before or the zero of a fresh block, and no
  byte of another inode changes.
\<close>

definition grown :: "sfs \<Rightarrow> sfs \<Rightarrow> nat \<Rightarrow> nat \<Rightarrow> nat \<Rightarrow> (nat \<Rightarrow> u8) \<Rightarrow> bool" where
  "grown s s' i lo hi f \<longleftrightarrow>
     (\<forall>j < 128. j \<noteq> i \<longrightarrow> (\<forall>k. fbyte s' j k = fbyte s j k)) \<and>
     (\<forall>k. lo \<le> k \<and> k < hi \<longrightarrow> fbyte s' i k = Some (f k)) \<and>
     (\<forall>k. \<not> (lo \<le> k \<and> k < hi) \<longrightarrow> fbyte s' i k = fbyte s i k \<or> (fbyte s i k = None \<and> fbyte s' i k = Some 0))"

lemma grown_empty: "(\<And>j k. j < 128 \<Longrightarrow> fbyte s' j k = fbyte s j k) \<Longrightarrow> i < 128 \<Longrightarrow> grown s s' i a a f"
  by (auto simp: grown_def)

lemma grown_trans:
  assumes "grown s s1 i lo mid f" and "grown s1 s2 i mid hi f" and "lo \<le> mid" and "mid \<le> hi"
  shows "grown s s2 i lo hi f"
  unfolding grown_def
proof (intro conjI allI impI)
  fix j k assume "j < 128" "j \<noteq> i"
  with assms(1,2) show "fbyte s2 j k = fbyte s j k" by (simp add: grown_def)
next
  fix k assume k: "lo \<le> k \<and> k < hi"
  show "fbyte s2 i k = Some (f k)"
  proof (cases "mid \<le> k")
    case True
    with k assms(2) show ?thesis by (simp add: grown_def)
  next
    case False
    then have "fbyte s1 i k = Some (f k)" using k assms(1) by (simp add: grown_def)
    moreover have "fbyte s2 i k = fbyte s1 i k \<or> (fbyte s1 i k = None \<and> fbyte s2 i k = Some 0)"
      using False assms(2) by (simp add: grown_def)
    ultimately show ?thesis by simp
  qed
next
  fix k assume k: "\<not> (lo \<le> k \<and> k < hi)"
  have n: "\<not> (lo \<le> k \<and> k < mid)" "\<not> (mid \<le> k \<and> k < hi)" using k assms(3,4) by linarith+
  have "fbyte s1 i k = fbyte s i k \<or> (fbyte s i k = None \<and> fbyte s1 i k = Some 0)"
    using n(1) assms(1) unfolding grown_def by blast
  moreover have "fbyte s2 i k = fbyte s1 i k \<or> (fbyte s1 i k = None \<and> fbyte s2 i k = Some 0)"
    using n(2) assms(2) unfolding grown_def by blast
  ultimately show "fbyte s2 i k = fbyte s i k \<or> (fbyte s i k = None \<and> fbyte s2 i k = Some 0)"
    by auto
qed

lemma blk_pos:
  assumes "unat offset + unat dn < 2 ^ 32"
  shows "blk_index offset dn = (unat offset + unat dn) div 4096" "blk_off offset dn = (unat offset + unat dn) mod 4096"
proof -
  have "unat (offset + dn) = unat offset + unat dn" using assms by (intro unat_add_no_wrap) simp
  then show "blk_index offset dn = (unat offset + unat dn) div 4096" "blk_off offset dn = (unat offset + unat dn) mod 4096"
    by (simp_all add: blk_index_def blk_off_def sfs_consts unat_div unat_mod)
qed

lemma step_grown:
  assumes fb: "\<And>j k. j < 128 \<Longrightarrow> fbyte s2 j k = (if j = i \<and> k div 4096 = p
       then Some (put_bytes (if ptr s i p = 0 then replicate 4096 0 else blk (dsk s) (ptr s i p)) bo (take n (drop d buf)) ! (k mod 4096))
       else fbyte s j k)"
    and wf: "disk_wf (dsk s)" and i: "i < 128" and p: "p < 12" and pos: "off + d = 4096 * p + bo" and n: "bo + n \<le> 4096"
    and l: "d + n \<le> length buf"
  shows "grown s s2 i (off + d) (off + d + n) (\<lambda>k. buf ! (k - off))"
proof -
  define base where "base = (if ptr s i p = 0 then replicate 4096 0 else blk (dsk s) (ptr s i p))"
  have lb: "length base = 4096" using blk_length [OF wf] by (simp add: base_def)
  have lc: "length (take n (drop d buf)) = n" using l by simp
  have val: "fbyte s2 i k = Some (if off + d \<le> k \<and> k < off + d + n then buf ! (k - off) else base ! (k mod 4096))"
    if k: "k div 4096 = p" for k
  proof -
    have kd: "k = 4096 * p + k mod 4096" "k mod 4096 < 4096" using k by auto
    have "put_bytes base bo (take n (drop d buf)) ! (k mod 4096)
        = (if bo \<le> k mod 4096 \<and> k mod 4096 < bo + n then take n (drop d buf) ! (k mod 4096 - bo) else base ! (k mod 4096))"
      using lb lc n kd(2) by (subst put_bytes_nth) simp_all
    moreover have "bo \<le> k mod 4096 \<and> k mod 4096 < bo + n \<longleftrightarrow> off + d \<le> k \<and> k < off + d + n"
      using kd pos by linarith
    moreover have "take n (drop d buf) ! (k mod 4096 - bo) = buf ! (k - off)" if "off + d \<le> k" "k < off + d + n"
    proof -
      have "k mod 4096 - bo < n" "d + (k mod 4096 - bo) = k - off" using that kd pos by linarith+
      with l show ?thesis by simp
    qed
    ultimately show ?thesis using fb [OF i, of k] k by (simp add: base_def)
  qed
  have inp: "k div 4096 = p" if "off + d \<le> k" "k < off + d + n" for k
  proof (rule div_nat_eqI)
    show "4096 * p \<le> k" "k < 4096 * Suc p" using that pos n by simp_all
  qed
  show ?thesis unfolding grown_def
  proof (intro conjI allI impI)
    fix k assume k: "\<not> (off + d \<le> k \<and> k < off + d + n)"
    show "fbyte s2 i k = fbyte s i k \<or> (fbyte s i k = None \<and> fbyte s2 i k = Some 0)"
    proof (cases "k div 4096 = p")
      case True
      have "k < 49152" using True p by (simp add: div_less_iff_less_mult [symmetric])
      with val [OF True] k True show ?thesis by (simp add: fbyte_def base_def)
    qed (use fb [OF i, of k] in simp)
  qed (use fb inp val in auto)
qed

lemma bfs_write_loop_spec:
  assumes "own s" and "marked s 0" and i: "i < 128" and fit: "unat offset + unat sz < 2 ^ 32"
    and "dn \<le> sz" and l: "unat sz \<le> length buf"
  shows "\<exists>dn' s'. bfs_write_loop i offset sz dn buf s = (dn', s') \<and> own s' \<and> marked s' 0 \<and> s_magic (sb s') = s_magic (sb s) \<and>
    dn \<le> dn' \<and> dn' \<le> sz \<and> (\<forall>j. rest_of (inodes s' ! j) = rest_of (inodes s ! j)) \<and>
    (\<forall>j. j \<noteq> i \<longrightarrow> inodes s' ! j = inodes s ! j) \<and>
    grown s s' i (unat offset + unat dn) (unat offset + unat dn') (\<lambda>k. buf ! (k - unat offset)) \<and>
    (dn' < sz \<longrightarrow> free_blks s' = {} \<or> 49152 \<le> unat offset + unat dn') \<and>
    (\<forall>m < 63. media (dsk s') (of_nat m) = media (dsk s) (of_nat m))"
  using assms(1,2,5)
proof (induction "unat sz - unat dn" arbitrary: dn s rule: less_induct)
  case less
  note o = less.prems(1)
  let ?p = "blk_index offset dn" and ?bo = "blk_off offset dn" and ?n = "blk_count offset sz dn"
  have dle: "unat dn \<le> unat sz" using less.prems(3) by (simp add: word_le_nat_alt)
  have pos: "?p = (unat offset + unat dn) div 4096" "?bo = (unat offset + unat dn) mod 4096"
    using fit dle by (simp_all add: blk_pos)
  have stop: ?case if "bfs_write_loop i offset sz dn buf s = (dn, s)"
    "dn < sz \<longrightarrow> free_blks s = {} \<or> 49152 \<le> unat offset + unat dn"
    using that less.prems i by (intro exI [of _ dn] exI [of _ s]) (auto intro: grown_empty)
  show ?case
  proof (cases "dn < sz \<and> ?p < 12")
    case False
    then have "dn < sz \<longrightarrow> 49152 \<le> unat offset + unat dn" unfolding pos by (auto simp: not_less less_eq_div_iff_mult_less_eq)
    with False show ?thesis by (intro stop) (subst bfs_write_loop_rec, auto)
  next
    case True
    note cnt = blk_count_nat [of dn sz offset, OF conjunct1 [OF True]]
    show ?thesis
    proof (cases "ptr s i ?p \<noteq> 0 \<or> free_blks s \<noteq> {}")
      case False
      then have "ensure_block i ?p s = (False, s)" using ensure_block_spec [OF o i, of ?p] True by simp
      with False True show ?thesis by (intro stop) (subst bfs_write_loop_rec, auto)
    next
      case can: True
      let ?c = "take (unat ?n) (drop (unat dn) buf)"
      have nb: "?bo + unat ?n \<le> 4096" using cnt(1) mod_less_divisor [of 4096 "unat offset + unat dn"] unfolding pos(2) by linarith
      then have room: "?bo + length ?c \<le> 4096" using min.cobounded1 [of "length (drop (unat dn) buf)" "unat ?n"] by simp
      from write_step [OF o less.prems(2) i conjunct2 [OF True] room can] obtain s1 s2 where S:
        "ensure_block i ?p s = (True, s1)"
        "write_block (ptr s1 i ?p) (put_bytes (buf_rw s1) ?bo ?c) (s1\<lparr>buf_rw := put_bytes (buf_rw s1) ?bo ?c\<rparr>) = (True, s2)"
        "own s2" "marked s2 0" "s_magic (sb s2) = s_magic (sb s)"
        "\<And>j. rest_of (inodes s2 ! j) = rest_of (inodes s ! j)" "\<And>j. j \<noteq> i \<Longrightarrow> inodes s2 ! j = inodes s ! j"
        "\<And>j k. j < 128 \<Longrightarrow> fbyte s2 j k = (if j = i \<and> k div 4096 = ?p
           then Some (put_bytes (if ptr s i ?p = 0 then replicate 4096 0 else blk (dsk s) (ptr s i ?p)) ?bo ?c ! (k mod 4096))
           else fbyte s j k)"
        "\<And>m. m < 63 \<Longrightarrow> media (dsk s2) (of_nat m) = media (dsk s) (of_nat m)" by blast
      have eq: "bfs_write_loop i offset sz dn buf s = bfs_write_loop i offset sz (dn + ?n) buf s2"
        using True S(1,2) by (subst bfs_write_loop_rec) (simp add: Let_def)
      have lt: "unat sz - unat (dn + ?n) < unat sz - unat dn" using cnt by linarith
      have le: "dn + ?n \<le> sz" "dn \<le> dn + ?n" using cnt by (simp_all add: word_le_nat_alt)
      from less.hyps [OF lt S(3,4) le(1)] obtain dn' s' where R: "bfs_write_loop i offset sz (dn + ?n) buf s2 = (dn', s')"
        "own s'" "marked s' 0" "s_magic (sb s') = s_magic (sb s2)" "dn + ?n \<le> dn'" "dn' \<le> sz"
        "\<And>j. rest_of (inodes s' ! j) = rest_of (inodes s2 ! j)" "\<And>j. j \<noteq> i \<Longrightarrow> inodes s' ! j = inodes s2 ! j"
        "grown s2 s' i (unat offset + unat (dn + ?n)) (unat offset + unat dn') (\<lambda>k. buf ! (k - unat offset))"
        "dn' < sz \<longrightarrow> free_blks s' = {} \<or> 49152 \<le> unat offset + unat dn'"
        "\<And>m. m < 63 \<Longrightarrow> media (dsk s') (of_nat m) = media (dsk s2) (of_nat m)" by blast
      have wf: "disk_wf (dsk s)" using ownD(2) [OF o] by (simp add: geometry_def disk_ok_def)
      have "grown s s2 i (unat offset + unat dn) (unat offset + unat dn + unat ?n) (\<lambda>k. buf ! (k - unat offset))"
      proof (rule step_grown [OF S(8) wf i conjunct2 [OF True] _ nb])
        show "unat offset + unat dn = 4096 * ?p + ?bo" unfolding pos by simp
        show "unat dn + unat ?n \<le> length buf" using cnt(4) l by simp
      qed
      then have "grown s s' i (unat offset + unat dn) (unat offset + unat dn') (\<lambda>k. buf ! (k - unat offset))"
        using R(5,9) cnt(3) by (elim grown_trans) (simp_all add: word_le_nat_alt add.assoc)
      then show ?thesis using eq R S le(2) by (intro exI [of _ dn'] exI [of _ s']) auto
    qed
  qed
qed

section \<open>Writing metadata leaves the data alone\<close>

definition low_change :: "sfs \<Rightarrow> sfs \<Rightarrow> bool" where
  "low_change s s' \<longleftrightarrow> sb s' = sb s \<and> inodes s' = inodes s \<and> bmap s' = bmap s \<and> buf_rw s' = buf_rw s \<and>
     buf_dir s' = buf_dir s \<and> buf_find s' = buf_find s \<and> disk_sectors (dsk s') = disk_sectors (dsk s) \<and>
     (disk_ok (dsk s) \<longrightarrow> disk_ok (dsk s')) \<and> (\<forall>x. 63 \<le> unat x \<longrightarrow> media (dsk s') x = media (dsk s) x)"

lemma low_change_refl [simp]: "low_change s s"
  by (simp add: low_change_def)

lemma low_change_trans: "low_change s s1 \<Longrightarrow> low_change s1 s2 \<Longrightarrow> low_change s s2"
  by (simp add: low_change_def)

lemma write_sector_low:
  assumes "low_change s t" and "n < 63" and "length bs = 512"
  shows "low_change s (write_sector n bs t)"
proof -
  have "unat (of_nat n :: u32) = n" using assms(2) by (simp add: unat_of_nat_small)
  then have "x \<noteq> of_nat n" if "63 \<le> unat x" for x :: u32 using that assms(2) by auto
  then have "media (dsk (write_sector n bs t)) x = media (dsk t) x" if "63 \<le> unat x" for x
    using that by (auto simp: write_sector_def disk_write_def)
  moreover have "disk_ok (dsk t) \<Longrightarrow> disk_ok (dsk (write_sector n bs t))"
    using write_sector_media(1) [of t n bs] assms(2,3) by blast
  ultimately show ?thesis using assms(1) by (simp add: low_change_def) (simp add: write_sector_def)
qed

lemma low_change_flags [simp]:
  "low_change s (t\<lparr>inodes_dirty := b\<rparr>) = low_change s t" "low_change s (t\<lparr>bitmap_dirty := b\<rparr>) = low_change s t"
  "low_change s (t\<lparr>sb_dirty := b\<rparr>) = low_change s t"
  by (simp_all add: low_change_def)

lemma sync_low: "mem_wf s \<Longrightarrow> low_change s (stackfs_sync s)"
proof -
  assume wf: "mem_wf s"
  have src: "length (enc_inodes (inodes s)) = 15360" using wf by (simp add: mem_wf_def enc_inodes_length sfs_consts)
  have 1: "low_change s (save_inodes_disk s)"
    unfolding save_inodes_run [OF wf] low_change_flags
    by (rule for_loop_keeps) (use src in \<open>auto intro!: write_sector_low simp: sector_of_def\<close>)
  define s1 where "s1 = (if inodes_dirty s then save_inodes_disk s else s)"
  have l1: "low_change s s1" using 1 by (simp add: s1_def)
  have 2: "low_change s (save_bitmap_disk s1)"
    unfolding save_bitmap_disk_def low_change_flags
  proof (rule for_loop_keeps)
    show "low_change s (write_sector (STACKFS_BITMAP_START + i) (take 512 (drop (i * 512) (bmap t))) t)"
      if "i < STACKFS_BITMAP_SECS" "low_change s t" for i t
    proof (rule write_sector_low [OF that(2)])
      have "bmap t = bmap s" using that(2) by (simp add: low_change_def)
      then show "length (take 512 (drop (i * 512) (bmap t))) = 512" "STACKFS_BITMAP_START + i < 63"
        using wf that(1) by (simp_all add: mem_wf_def BITMAP_BYTES_def sfs_consts)
    qed
  qed (rule l1)
  define s2 where "s2 = (if bitmap_dirty s1 then save_bitmap_disk s1 else s1)"
  have l2: "low_change s s2" using l1 2 by (simp add: s2_def)
  then have "super_wf (sb s2)" using wf by (simp add: low_change_def mem_wf_def)
  then have "low_change s (save_sb_disk s2)"
    unfolding save_sb_disk_def low_change_flags
    using l2 by (intro write_sector_low) (simp_all add: enc_super_length sfs_consts)
  with l2 show ?thesis by (simp add: stackfs_sync_def Let_def s1_def [symmetric] s2_def [symmetric])
qed

lemma low_change_own:
  assumes "own s" and "low_change s s'"
  shows "own s'" "j < 128 \<Longrightarrow> fbyte s' j k = fbyte s j k" "marked s' b = marked s b"
proof -
  have g: "geometry s'" using ownD(2) [OF assms(1)] assms(2) by (simp add: geometry_def low_change_def)
  show "own s'"
    by (rule own_cong [OF assms(1)]) (use assms(2) g ownD(3,4,5) [OF assms(1)] in \<open>simp_all add: low_change_def\<close>)
  show "marked s' b = marked s b" using assms(2) by (simp add: marked_def low_change_def)
  show "fbyte s' j k = fbyte s j k" if j: "j < 128"
  proof (cases "k < 49152 \<and> ptr s j (k div 4096) \<noteq> 0")
    case True
    then have "k div 4096 < 12" by (simp add: div_less_iff_less_mult)
    from ownD(10) [OF assms(1) j this] True have u: "unat (ptr s j (k div 4096)) < 131072"
      using ownD(9) [OF assms(1)] by auto
    have "blk (dsk s') (ptr s j (k div 4096)) = blk (dsk s) (ptr s j (k div 4096))"
      by (rule blk_frame [OF u]) (use assms(2) in \<open>simp add: low_change_def\<close>)
    moreover have "ptr s' = ptr s" using assms(2) by (auto simp: ptr_def low_change_def fun_eq_iff)
    ultimately show ?thesis by (simp add: fbyte_def)
  next
    case False
    moreover have "ptr s' = ptr s" using assms(2) by (auto simp: ptr_def low_change_def fun_eq_iff)
    ultimately show ?thesis by (auto simp: fbyte_def)
  qed
qed

section \<open>Reading\<close>

lemma bfs_read_loop_spec:
  assumes "own s" and i: "i < 128" and fit: "unat offset + unat sz < 2 ^ 32" and "dn \<le> sz" and "unat sz \<le> length buf"
    and "\<And>k. unat offset + unat dn \<le> k \<Longrightarrow> k < unat offset + unat sz \<Longrightarrow> fbyte s i k = Some (f k)"
  shows "\<exists>buf' b. bfs_read_loop (inodes s ! i) offset sz dn buf s = (sz, buf', s\<lparr>buf_rw := b\<rparr>) \<and> length buf' = length buf \<and>
    (\<forall>m < length buf. buf' ! m = (if unat dn \<le> m \<and> m < unat sz then f (unat offset + m) else buf ! m)) \<and> length b = 4096"
  using assms(1,4-6)
proof (induction "unat sz - unat dn" arbitrary: dn buf s rule: less_induct)
  case less
  note o = less.prems(1)
  let ?p = "blk_index offset dn" and ?bo = "blk_off offset dn" and ?n = "blk_count offset sz dn"
  have dle: "unat dn \<le> unat sz" using less.prems(2) by (simp add: word_le_nat_alt)
  have pos: "?p = (unat offset + unat dn) div 4096" "?bo = (unat offset + unat dn) mod 4096"
    using fit dle by (simp_all add: blk_pos)
  show ?case
  proof (cases "dn < sz")
    case False
    then have "dn = sz" using less.prems(2) by simp
    then show ?thesis
      by (subst bfs_read_loop.simps) (rule exI [of _ buf], rule exI [of _ "buf_rw s"], auto simp: ownD(3) [OF o])
  next
    case True
    note cnt = blk_count_nat [of dn sz offset, OF True]
    have lt0: "unat dn < unat sz" using True by (simp add: word_less_nat_alt)
    then have first: "fbyte s i (unat offset + unat dn) = Some (f (unat offset + unat dn))" by (intro less.prems(4)) simp_all
    then have p: "?p < 12" "ptr s i ?p \<noteq> 0"
      by (auto simp: fbyte_def pos div_less_iff_less_mult split: if_splits)
    have u: "unat (ptr s i ?p) < total s" using ownD(10) [OF o i p] by simp
    let ?B = "blk (dsk s) (ptr s i ?p)"
    have wf: "disk_wf (dsk s)" using ownD(2) [OF o] by (simp add: geometry_def disk_ok_def)
    have lB: "length ?B = 4096" by (rule blk_length [OF wf])
    have rb: "read_block s (ptr s i ?p) (buf_rw s) = (True, ?B)"
      by (rule read_block_spec [OF ownD(2) [OF o] u ownD(3) [OF o]])
    define s1 where "s1 = s\<lparr>buf_rw := ?B\<rparr>"
    define buf1 where "buf1 = put_bytes buf (unat dn) (take (unat ?n) (drop ?bo ?B))"
    have nb: "?bo + unat ?n \<le> 4096" using cnt(1) mod_less_divisor [of 4096 "unat offset + unat dn"] unfolding pos(2) by linarith
    have lc: "length (take (unat ?n) (drop ?bo ?B)) = unat ?n" using lB nb by simp
    have o1: "own s1" by (rule own_cong [OF o]) (use lB ownD(2,4,5) [OF o] in \<open>simp_all add: s1_def geometry_def\<close>)
    have l1: "length buf1 = length buf" unfolding buf1_def using lc cnt(4) less.prems(3) by (intro put_bytes_length) simp
    have fb1: "fbyte s1 i k = fbyte s i k" for k by (simp add: fbyte_def ptr_def s1_def)
    have eq: "bfs_read_loop (inodes s ! i) offset sz dn buf s = bfs_read_loop (inodes s1 ! i) offset sz (dn + ?n) buf1 s1"
      using True p rb by (subst bfs_read_loop.simps) (simp add: Let_def ptr_def sfs_consts(5) not_le s1_def buf1_def)
    have b1: "buf1 ! m = (if unat dn \<le> m \<and> m < unat dn + unat ?n then f (unat offset + m) else buf ! m)" if "m < length buf" for m
    proof -
      have A: "buf1 ! m = (if unat dn \<le> m \<and> m < unat dn + unat ?n then take (unat ?n) (drop ?bo ?B) ! (m - unat dn) else buf ! m)"
        unfolding buf1_def using lc cnt(4) less.prems(3) that by (subst put_bytes_nth) simp_all
      have B: "take (unat ?n) (drop ?bo ?B) ! (m - unat dn) = f (unat offset + m)"
        if m: "unat dn \<le> m" "m < unat dn + unat ?n"
      proof -
        have "(unat offset + m) div 4096 = ?p"
        proof (rule div_nat_eqI)
          show "4096 * ?p \<le> unat offset + m" "unat offset + m < 4096 * Suc ?p"
            using m nb unfolding pos by (simp_all add: minus_mod_eq_mult_div [symmetric])
        qed
        moreover have "(unat offset + m) mod 4096 = ?bo + (m - unat dn)"
          using div_mult_mod_eq [of "unat offset + m" 4096] div_mult_mod_eq [of "unat offset + unat dn" 4096]
            \<open>(unat offset + m) div 4096 = ?p\<close> m unfolding pos by linarith
        moreover have "fbyte s i (unat offset + m) = Some (f (unat offset + m))"
          using m cnt(4) by (intro less.prems(4)) linarith+
        ultimately have "?B ! (?bo + (m - unat dn)) = f (unat offset + m)"
          by (auto simp: fbyte_def split: if_splits)
        moreover have "m - unat dn < unat ?n" using m by linarith
        ultimately show ?thesis using lB nb by simp
      qed
      show ?thesis
      proof (cases "unat dn \<le> m \<and> m < unat dn + unat ?n")
        case True
        then show ?thesis unfolding A using B by presburger
      next
        case False
        then show ?thesis unfolding A by presburger
      qed
    qed
    have lt: "unat sz - unat (dn + ?n) < unat sz - unat dn" using cnt by linarith
    have le: "dn + ?n \<le> sz" using cnt by (simp add: word_le_nat_alt)
    have l1': "unat sz \<le> length buf1" using l1 less.prems(3) by simp
    have "fbyte s1 i k = Some (f k)" if "unat offset + unat (dn + ?n) \<le> k" "k < unat offset + unat sz" for k
      unfolding fb1 using that cnt(3) by (intro less.prems(4)) simp_all
    from less.hyps [OF lt o1 le l1' this] obtain buf' b where R:
      "bfs_read_loop (inodes s1 ! i) offset sz (dn + ?n) buf1 s1 = (sz, buf', s1\<lparr>buf_rw := b\<rparr>)" "length buf' = length buf1"
      "\<And>m. m < length buf1 \<Longrightarrow> buf' ! m = (if unat (dn + ?n) \<le> m \<and> m < unat sz then f (unat offset + m) else buf1 ! m)"
      "length b = 4096" by blast
    have "buf' ! m = (if unat dn \<le> m \<and> m < unat sz then f (unat offset + m) else buf ! m)" if "m < length buf" for m
      using R(3) [of m] b1 [OF that] that l1 cnt(3,4) by auto
    with R l1 eq show ?thesis by (intro exI [of _ buf'] exI [of _ b]) (simp add: s1_def)
  qed
qed

end
