(* ===== verification/Fs_Rw.thy ===== *)
theory Fs_Rw
  imports Fs_Files
begin

text \<open>
  \<open>bfs_write\<close> and \<open>bfs_read\<close> as a whole: what a write stores is what a read returns, other files
  keep their bytes, the ownership invariant holds again, and appended bytes outlive a reboot.
\<close>

section \<open>A write, whole\<close>

lemma upd_size_own:
  fixes v :: u32
  assumes "own s" and "i < 128"
  defines "s' \<equiv> (upd_inode i (\<lambda>x. x\<lparr>i_size := v\<rparr>) s)\<lparr>inodes_dirty := True\<rparr>"
  shows "own s'" "fbyte s' j k = fbyte s j k" "marked s' b = marked s b" "free_blks s' = free_blks s"
    "inodes s' ! i = (inodes s ! i)\<lparr>i_size := v\<rparr>" "j \<noteq> i \<Longrightarrow> inodes s' ! j = inodes s ! j"
proof -
  have l: "length (inodes s) = 128" by (rule ownD(8) [OF assms(1)])
  have p: "ptr s' x q = ptr s x q" for x q
    using l assms(2) by (cases "x = i") (simp_all add: s'_def ptr_def upd_inode_def)
  then have pp: "ptr s' = ptr s" by (simp add: fun_eq_iff)
  show "fbyte s' j k = fbyte s j k" unfolding fbyte_def pp by (simp add: s'_def upd_inode_def)
  show m: "marked s' b = marked s b" for b by (simp add: marked_def s'_def upd_inode_def)
  have t: "total s' = total s" by (simp add: total_def s'_def upd_inode_def)
  show f: "free_blks s' = free_blks s" by (simp add: free_blks_def m t)
  show "inodes s' ! i = (inodes s ! i)\<lparr>i_size := v\<rparr>" "j \<noteq> i \<Longrightarrow> inodes s' ! j = inodes s ! j"
    using l assms(2) by (simp_all add: s'_def upd_inode_def)
  have "inode_wf x" if "x \<in> set (inodes s')" for x
  proof -
    have "inode_wf (inodes s ! i)" using ownD(1) [OF assms(1)] l assms(2) by (simp add: mem_wf_def)
    then have "inode_wf ((inodes s ! i)\<lparr>i_size := v\<rparr>)" by (simp add: inode_wf_def)
    moreover have "x \<in> insert ((inodes s ! i)\<lparr>i_size := v\<rparr>) (set (inodes s))"
      using that set_update_subset_insert by (fastforce simp: s'_def upd_inode_def)
    ultimately show ?thesis using ownD(1) [OF assms(1)] by (auto simp: mem_wf_def)
  qed
  then have w: "mem_wf s'" using ownD(1) [OF assms(1)] by (simp add: mem_wf_def s'_def upd_inode_def)
  have o: "geometry s' = geometry s" "buf_rw s' = buf_rw s" "buf_dir s' = buf_dir s" "buf_find s' = buf_find s"
    "sb s' = sb s" by (simp_all add: s'_def upd_inode_def geometry_def)
  show "own s'" using assms(1) w unfolding own_def pp m t f o by blast
qed

lemma rest_of_simps: "rest_of a = rest_of b \<Longrightarrow> i_size a = i_size b \<and> i_type a = i_type b \<and> i_name a = i_name b"
  by (cases a, cases b) (simp add: rest_of_def)

text \<open>The size the inode has afterwards, and the facts the properties below share.\<close>

definition new_size :: "u32 \<Rightarrow> u32 \<Rightarrow> u32 \<Rightarrow> u32" where
  "new_size old offset n = (if old < offset + n then offset + n else old)"

lemma bfs_write_spec:
  assumes o: "own s" and m0: "marked s 0" and v: "valid_ino (v_inode node)"
    and ty: "i_type (inodes s ! unat (v_inode node)) = SFS_TYPE_FILE"
    and fit: "unat offset + unat sz < 2 ^ 32" and l: "unat sz \<le> length buf"
  shows "\<exists>n node' s1 s2 s3. bfs_write_loop (unat (v_inode node)) offset sz 0 buf s = (n, s1) \<and>
    s2 = (if i_size (inodes s1 ! unat (v_inode node)) < offset + n
          then (upd_inode (unat (v_inode node)) (\<lambda>x. x\<lparr>i_size := offset + n\<rparr>) s1)\<lparr>inodes_dirty := True\<rparr> else s1) \<and>
    s3 = stackfs_sync s2 \<and> bfs_write node offset sz buf s = (n, node', s3) \<and> low_change s2 s3 \<and>
    node' = node\<lparr>v_size := new_size (i_size (inodes s ! unat (v_inode node))) offset n\<rparr> \<and>
    n \<le> sz \<and> (n < sz \<longrightarrow> free_blks s3 = {} \<or> 49152 \<le> unat offset + unat n) \<and>
    own s2 \<and> own s3 \<and> marked s3 0 \<and> s_magic (sb s3) = s_magic (sb s) \<and>
    i_size (inodes s3 ! unat (v_inode node)) = new_size (i_size (inodes s ! unat (v_inode node))) offset n \<and>
    i_type (inodes s3 ! unat (v_inode node)) = SFS_TYPE_FILE \<and>
    (\<forall>j. j \<noteq> unat (v_inode node) \<longrightarrow> inodes s3 ! j = inodes s ! j) \<and>
    grown s s3 (unat (v_inode node)) (unat offset) (unat offset + unat n) (\<lambda>k. buf ! (k - unat offset)) \<and>
    (\<forall>m < 63. media (dsk s2) (of_nat m) = media (dsk s) (of_nat m))"
proof -
  define i where "i = unat (v_inode node)"
  have i: "i < 128" using v by (simp add: valid_ino_iff i_def)
  from bfs_write_loop_spec [OF o m0 i fit _ l, of 0] obtain n s1 where R: "bfs_write_loop i offset sz 0 buf s = (n, s1)"
    "own s1" "marked s1 0" "s_magic (sb s1) = s_magic (sb s)" "n \<le> sz"
    "\<And>j. rest_of (inodes s1 ! j) = rest_of (inodes s ! j)" "\<And>j. j \<noteq> i \<Longrightarrow> inodes s1 ! j = inodes s ! j"
    "grown s s1 i (unat offset) (unat offset + unat n) (\<lambda>k. buf ! (k - unat offset))"
    "n < sz \<longrightarrow> free_blks s1 = {} \<or> 49152 \<le> unat offset + unat n"
    "\<And>m. m < 63 \<Longrightarrow> media (dsk s1) (of_nat m) = media (dsk s) (of_nat m)" by auto
  have sz1: "i_size (inodes s1 ! i) = i_size (inodes s ! i)" "i_type (inodes s1 ! i) = SFS_TYPE_FILE"
    using rest_of_simps [OF R(6) [of i]] ty by (simp_all add: i_def)
  define s2 where "s2 = (if i_size (inodes s1 ! i) < offset + n
      then (upd_inode i (\<lambda>x. x\<lparr>i_size := offset + n\<rparr>) s1)\<lparr>inodes_dirty := True\<rparr> else s1)"
  note U = upd_size_own [OF R(2) i, where v = "offset + n"]
  have s2: "own s2" "marked s2 0" "\<And>j k. fbyte s2 j k = fbyte s1 j k" "free_blks s2 = free_blks s1"
    "\<And>j. j \<noteq> i \<Longrightarrow> inodes s2 ! j = inodes s1 ! j" "sb s2 = sb s1" "dsk s2 = dsk s1"
    using U R(2,3) by (simp_all add: s2_def upd_inode_def)
  have z2: "i_size (inodes s2 ! i) = new_size (i_size (inodes s ! i)) offset n" "i_type (inodes s2 ! i) = SFS_TYPE_FILE"
    using U(5) sz1 by (auto simp: s2_def new_size_def)
  define s3 where "s3 = stackfs_sync s2"
  have lc: "low_change s2 s3" unfolding s3_def by (rule sync_low [OF ownD(1) [OF s2(1)]])
  have s3: "inodes s3 = inodes s2" "sb s3 = sb s2" "bmap s3 = bmap s2" using lc by (simp_all add: low_change_def)
  note O = low_change_own [OF s2(1) lc]
  have fr: "free_blks s3 = free_blks s2" unfolding free_blks_def O(3) by (simp add: total_def s3)
  have gr: "grown s s3 i (unat offset) (unat offset + unat n) (\<lambda>k. buf ! (k - unat offset))"
    using R(8) O(2) s2(3) i unfolding grown_def by simp
  have e: "bfs_write node offset sz buf s =
      (n, node\<lparr>v_size := new_size (i_size (inodes s ! i)) offset n\<rparr>, s3)"
    using v ty R(1) z2(1) by (simp add: bfs_write_def Let_def i_def [symmetric] s2_def [symmetric] s3_def)
  show ?thesis unfolding i_def [symmetric]
    using e lc R(1,4,5,9,10) s2 z2 O(1,3) fr gr R(7) s3
    by (intro exI [of _ n] exI [of _ "node\<lparr>v_size := new_size (i_size (inodes s ! i)) offset n\<rparr>"]
        exI [of _ s1] exI [of _ s2] exI [of _ s3]) (simp add: s2_def [symmetric] s3_def [symmetric])
qed
section \<open>Reading back\<close>

lemma new_size_ge:
  assumes "unat offset + unat n < 2 ^ 32"
  shows "unat offset + unat n \<le> unat (new_size old offset n)" "unat old \<le> unat (new_size old offset n)"
proof -
  have "unat (offset + n) = unat offset + unat n" using assms by (intro unat_add_no_wrap) simp
  then show "unat offset + unat n \<le> unat (new_size old offset n)" "unat old \<le> unat (new_size old offset n)"
    by (auto simp: new_size_def word_less_nat_alt)
qed

lemma bfs_read_spec:
  assumes o: "own s" and v: "valid_ino (v_inode node)"
    and ty: "i_type (inodes s ! unat (v_inode node)) = SFS_TYPE_FILE"
    and fit: "unat offset + unat sz \<le> unat (i_size (inodes s ! unat (v_inode node)))" and l: "unat sz \<le> length out"
    and data: "\<And>k. unat offset \<le> k \<Longrightarrow> k < unat offset + unat sz \<Longrightarrow> fbyte s (unat (v_inode node)) k = Some (f k)"
  shows "\<exists>out' b. bfs_read node offset sz out s = (sz, out', s\<lparr>buf_rw := b\<rparr>) \<and> length b = 4096 \<and>
    take (unat sz) out' = map f [unat offset..<unat offset + unat sz] \<and> drop (unat sz) out' = drop (unat sz) out"
proof -
  define i where "i = unat (v_inode node)"
  have i: "i < 128" using v by (simp add: valid_ino_iff i_def)
  have "unat (i_size (inodes s ! i)) < 2 ^ 32" using unsigned_less [of "i_size (inodes s ! i)"] by simp
  then have f32: "unat offset + unat sz < 2 ^ 32" using fit unfolding i_def by (rule le_less_trans [rotated])
  then have sum: "unat (offset + sz) = unat offset + unat sz" by (intro unat_add_no_wrap) simp
  show ?thesis
  proof (cases "i_size (inodes s ! i) \<le> offset")
    case True
    then have "unat sz = 0" using fit by (simp add: word_le_nat_alt i_def)
    then have "sz = 0" by (simp add: unat_eq_0)
    moreover have "bfs_read node offset sz out s = (0, out, s\<lparr>buf_rw := buf_rw s\<rparr>)"
      using v ty True by (simp add: bfs_read_def Let_def i_def [symmetric])
    ultimately show ?thesis using ownD(3) [OF o] by (intro exI [of _ out] exI [of _ "buf_rw s"]) simp
  next
    case False
    have e: "bfs_read node offset sz out s = bfs_read_loop (inodes s ! i) offset sz 0 out s"
      using v ty False fit sum by (simp add: bfs_read_def Let_def i_def [symmetric] word_less_nat_alt)
    have d: "fbyte s i k = Some (f k)" if "unat offset + unat (0 :: u32) \<le> k" "k < unat offset + unat sz" for k
      using data that by (simp add: i_def)
    from bfs_read_loop_spec [OF o i f32 word_zero_le l d] obtain out' b where R:
      "bfs_read_loop (inodes s ! i) offset sz 0 out s = (sz, out', s\<lparr>buf_rw := b\<rparr>)" "length out' = length out" "length b = 4096"
      "\<And>m. m < length out \<Longrightarrow> out' ! m = (if m < unat sz then f (unat offset + m) else out ! m)" by auto
    have "take (unat sz) out' = map f [unat offset..<unat offset + unat sz]"
      using R(2,4) l by (intro nth_equalityI) simp_all
    moreover have "drop (unat sz) out' = drop (unat sz) out"
      using R(2,4) by (intro nth_equalityI) simp_all
    ultimately show ?thesis using e R(1,3) by (intro exI [of _ out'] exI [of _ b]) simp
  qed
qed

text \<open>
  C20. A file gives back what was written. On a consistent file system with block 0 in use, writing
  to any position of a file stores a prefix of the bytes given - all of them unless the disk is
  full or the twelve direct blocks are - and reading any part of what was stored afterwards
  returns exactly those bytes and touches nothing else of the reader's buffer.
\<close>

theorem write_then_read:
  assumes "own s" and "marked s 0" and "valid_ino (v_inode node)"
    and "i_type (inodes s ! unat (v_inode node)) = SFS_TYPE_FILE"
    and "unat offset + unat sz < 2 ^ 32" and "unat sz \<le> length buf"
    and "bfs_write node offset sz buf s = (n, node', s')"
    and "offset \<le> pos" and "unat pos + unat r \<le> unat offset + unat n" and "unat r \<le> length out"
  shows "n \<le> sz \<and> (n < sz \<longrightarrow> free_blks s' = {} \<or> 49152 \<le> unat offset + unat n) \<and> own s' \<and>
    (\<exists>out' s''. bfs_read node' pos r out s' = (r, out', s'') \<and>
       take (unat r) out' = take (unat r) (drop (unat pos - unat offset) buf) \<and> drop (unat r) out' = drop (unat r) out)"
proof -
  let ?i = "unat (v_inode node)"
  from bfs_write_spec [OF assms(1-6)] assms(7) have W: "v_inode node' = v_inode node" "n \<le> sz"
    "n < sz \<longrightarrow> free_blks s' = {} \<or> 49152 \<le> unat offset + unat n" "own s'"
    "i_size (inodes s' ! ?i) = new_size (i_size (inodes s ! ?i)) offset n" "i_type (inodes s' ! ?i) = SFS_TYPE_FILE"
    "grown s s' ?i (unat offset) (unat offset + unat n) (\<lambda>k. buf ! (k - unat offset))" by auto
  have n: "unat n \<le> unat sz" using W(2) by (simp add: word_le_nat_alt)
  have p: "unat offset \<le> unat pos" using assms(8) by (simp add: word_le_nat_alt)
  have fin: "unat pos + unat r \<le> unat (i_size (inodes s' ! ?i))"
    using new_size_ge(1) [of offset n] assms(5,9) n unfolding W(5) by (meson add_left_mono le_less_trans le_trans)
  have data: "fbyte s' ?i k = Some (buf ! (k - unat offset))" if "unat pos \<le> k" "k < unat pos + unat r" for k
    using W(7) that p assms(9) unfolding grown_def by simp
  from bfs_read_spec [of s' node' pos r out "\<lambda>k. buf ! (k - unat offset)"] obtain out' b where
    "bfs_read node' pos r out s' = (r, out', s'\<lparr>buf_rw := b\<rparr>)"
    "take (unat r) out' = map (\<lambda>k. buf ! (k - unat offset)) [unat pos..<unat pos + unat r]"
    "drop (unat r) out' = drop (unat r) out"
    using W(1,4,6) fin data assms(3,10) by auto
  moreover have "map (\<lambda>k. buf ! (k - unat offset)) [unat pos..<unat pos + unat r] = take (unat r) (drop (unat pos - unat offset) buf)"
    using p assms(6,9) n by (intro nth_equalityI) (simp_all add: nth_append)
  ultimately show ?thesis using W(2,3,4) by auto
qed

lemma single_block_write:
  assumes "own s" and "marked s 0" and "i < 128" and "0 < sz" and "unat offset mod 4096 + unat sz \<le> 4096"
    and "unat offset + unat sz \<le> 49152" and "unat sz \<le> length buf"
    and "ptr s i (unat offset div 4096) \<noteq> 0 \<or> free_blks s \<noteq> {}"
  shows "\<exists>s2. bfs_write_loop i offset sz 0 buf s = (sz, s2)"
proof -
  have pos: "blk_index offset 0 = unat offset div 4096" "blk_off offset 0 = unat offset mod 4096"
    using blk_pos [of offset 0] unsigned_less [of offset] by simp_all
  have z: "0 < unat sz" using assms(4) by (simp add: word_less_nat_alt)
  have p: "unat offset div 4096 < 12" using assms(6) z by (simp add: div_less_iff_less_mult)
  have c: "blk_count offset sz 0 = sz"
    using blk_count_nat(1) [OF assms(4), of offset] pos(2) assms(5) by (simp add: word_unat_eq_iff)
  have "unat offset mod 4096 + length (take (unat sz) buf) \<le> 4096" using assms(5,7) by simp
  from write_step [OF assms(1-3) p this assms(8)] obtain s1 s2 where
    "ensure_block i (unat offset div 4096) s = (True, s1)"
    "write_block (ptr s1 i (unat offset div 4096)) (put_bytes (buf_rw s1) (unat offset mod 4096) (take (unat sz) buf))
       (s1\<lparr>buf_rw := put_bytes (buf_rw s1) (unat offset mod 4096) (take (unat sz) buf)\<rparr>) = (True, s2)" by blast
  then have "bfs_write_loop i offset sz 0 buf s = bfs_write_loop i offset sz sz buf s2"
    using assms(4) p by (subst bfs_write_loop_rec) (simp add: pos c Let_def)
  then show ?thesis by (subst (asm) (2) bfs_write_loop_rec) simp
qed

text \<open>A file system of 64 MiB with block 0 taken, the root, and an empty file as inode 2.\<close>

definition demo_inodes :: "inode list" where
  "demo_inodes = (replicate STACKFS_MAX_INODES zero_inode)[1 := fresh_root,
     2 := zero_inode\<lparr>i_type := SFS_TYPE_FILE, i_perm := 0x1A4, i_name := 97 # replicate 55 0\<rparr>]"

definition demo_rw :: sfs where
  "demo_rw = demo_fs\<lparr>inodes := demo_inodes, bmap := 1 # replicate 16383 0, sb := (sb demo_fs)\<lparr>free_blocks := 16375\<rparr>\<rparr>"

definition node_of :: "u32 \<Rightarrow> vnode" where
  "node_of n = \<lparr>v_name = replicate VFS_NAME_MAX 0, v_flags = VFS_FILE, v_inode = n, v_size = 0, v_ops = Ops_stackfs\<rparr>"

lemma demo_marked: "b < 131072 \<Longrightarrow> marked demo_rw b \<longleftrightarrow> b = 0"
proof -
  assume b: "b < 131072"
  show "marked demo_rw b \<longleftrightarrow> b = 0"
  proof (cases "b div 8 = 0")
    case True
    then have "b < 8" by simp
    then show ?thesis by (auto simp: marked_def demo_rw_def bit_1_iff)
  next
    case False
    then obtain m where m: "b div 8 = Suc m" by (cases "b div 8") auto
    moreover have "b div 8 < 16384" using b by (simp add: div_less_iff_less_mult)
    then have "m < 16383" unfolding m by simp
    ultimately have "bmap demo_rw ! (b div 8) = 0" by (simp add: demo_rw_def)
    then show ?thesis using False by (auto simp: marked_def)
  qed
qed

lemma demo_inodes_at: "i < 128 \<Longrightarrow> i_blocks (demo_inodes ! i) = replicate 12 0"
  by (simp add: demo_inodes_def nth_list_update sfs_consts fresh_root_def zero_inode_def)

lemma demo_rw_own: "own demo_rw" "marked demo_rw 0" "free_blks demo_rw \<noteq> {}" "ptr demo_rw i p = 0 \<or> \<not> (i < 128 \<and> p < 12)"
proof -
  have p: "ptr demo_rw i p = 0" if "i < 128" "p < 12" for i p
    using demo_inodes_at [OF that(1)] that(2) by (simp add: ptr_def demo_rw_def)
  then show "ptr demo_rw i p = 0 \<or> \<not> (i < 128 \<and> p < 12)" by blast
  have t: "total demo_rw = 16376" by (simp add: total_def demo_rw_def demo_fs_def)
  have f: "free_blks demo_rw = {1..<16376}" using demo_marked by (auto simp: free_blks_def t)
  then show "free_blks demo_rw \<noteq> {}" by simp
  show "marked demo_rw 0" using demo_marked [of 0] by simp
  have g: "geometry demo_rw" using demo_fs_ok(1) t by (simp add: geometry_def demo_rw_def demo_fs_def demo_disk_def)
  have "inode_wf (demo_inodes ! i)" if "i < 128" for i
    using that by (simp add: demo_inodes_def nth_list_update inode_wf_def zero_inode_def fresh_root_def sfs_consts)
  moreover have "length demo_inodes = 128" by (simp add: demo_inodes_def sfs_consts)
  ultimately have "inode_wf x" if "x \<in> set demo_inodes" for x
    using that by (auto simp: in_set_conv_nth)
  then have w: "mem_wf demo_rw"
    using demo_fs_ok(2) by (simp add: mem_wf_def demo_rw_def demo_inodes_def super_wf_def BITMAP_BYTES_def sfs_consts)
  show "own demo_rw" unfolding own_def using w g p f by (simp add: demo_rw_def demo_fs_def)
qed

lemma demo_node: "v_inode (node_of 2) = 2" "valid_ino (2 :: u32)" "i_type (inodes demo_rw ! 2) = SFS_TYPE_FILE"
  by (simp_all add: node_of_def valid_ino_iff demo_rw_def demo_inodes_def sfs_consts)

lemma write_then_read_witness:
  "\<exists>node' s' out' s''. bfs_write (node_of 2) 4095 1 [7] demo_rw = (1, node', s') \<and>
     bfs_read node' 4095 1 [0, 0] s' = (1, out', s'') \<and> take 1 out' = [7] \<and> drop 1 out' = [0]"
proof -
  note D = demo_rw_own(1,2)
  have v: "valid_ino (v_inode (node_of 2))" "i_type (inodes demo_rw ! unat (v_inode (node_of 2))) = SFS_TYPE_FILE"
    using demo_node by simp_all
  obtain n node' s' where W: "bfs_write (node_of 2) 4095 1 [7] demo_rw = (n, node', s')" by (metis prod_cases3)
  from single_block_write [OF D, of 2 1 4095 "[7]"] demo_rw_own(3)
  have "fst (bfs_write_loop 2 4095 1 0 [7] demo_rw) = 1" by auto
  with bfs_write_spec [OF D v, of 4095 1 "[7]"] W have n: "n = 1" by (auto simp: demo_node(1))
  from write_then_read [OF D v _ _ W, of 4095 1 "[0, 0]"] n W show ?thesis by auto
qed

section \<open>Other files\<close>

text \<open>What a read delivers depends only on the inode and on the bytes its blocks hold.\<close>

lemma same_block:
  assumes "own s" and "own t" and "\<And>k. fbyte t i k = fbyte s i k" and "inodes t ! i = inodes s ! i"
    and "p < 12" and "ptr s i p \<noteq> 0"
  shows "blk (dsk t) (ptr s i p) = blk (dsk s) (ptr s i p)"
proof (rule nth_equalityI)
  have wf: "disk_wf (dsk s)" "disk_wf (dsk t)"
    using ownD(2) [OF assms(1)] ownD(2) [OF assms(2)] by (simp_all add: geometry_def disk_ok_def)
  then show "length (blk (dsk t) (ptr s i p)) = length (blk (dsk s) (ptr s i p))" by (simp add: blk_length)
  fix m assume "m < length (blk (dsk t) (ptr s i p))"
  then have m: "m < 4096" using wf by (simp add: blk_length)
  have k: "4096 * p + m < 49152" "(4096 * p + m) div 4096 = p" "(4096 * p + m) mod 4096 = m" using m assms(5) by simp_all
  have "ptr t i p = ptr s i p" using assms(4) by (simp add: ptr_def)
  with assms(3) [of "4096 * p + m"] assms(6) k show "blk (dsk t) (ptr s i p) ! m = blk (dsk s) (ptr s i p) ! m"
    by (simp add: fbyte_def)
qed

lemma own_buf:
  assumes "own s" and "length b = 4096"
  shows "own (s\<lparr>buf_rw := b\<rparr>)"
  by (rule own_cong [OF assms(1)]) (use assms(2) ownD(2,4,5) [OF assms(1)] in \<open>simp_all add: geometry_def\<close>)

lemma fbyte_buf [simp]: "fbyte (s\<lparr>buf_rw := b\<rparr>) i k = fbyte s i k"
  by (simp add: fbyte_def ptr_def)

lemma bfs_read_loop_cong:
  assumes "own s" and "own t" and i: "i < 128" and "\<And>k. fbyte t i k = fbyte s i k" and "inodes t ! i = inodes s ! i"
  shows "fst (bfs_read_loop (inodes s ! i) offset sz dn out t) = fst (bfs_read_loop (inodes s ! i) offset sz dn out s) \<and>
    fst (snd (bfs_read_loop (inodes s ! i) offset sz dn out t)) = fst (snd (bfs_read_loop (inodes s ! i) offset sz dn out s))"
  using assms(1,2,4,5)
proof (induction "unat sz - unat dn" arbitrary: dn out s t rule: less_induct)
  case less
  let ?p = "blk_index offset dn"
  show ?case
  proof (cases "dn < sz \<and> ?p < 12 \<and> ptr s i ?p \<noteq> 0")
    case False
    then show ?thesis
      by (subst (1 2 3 4) bfs_read_loop.simps) (auto simp: Let_def ptr_def sfs_consts(5) not_le)
  next
    case True
    then have p: "?p < 12" "ptr s i ?p \<noteq> 0" by simp_all
    let ?B = "blk (dsk s) (ptr s i ?p)"
    have u: "unat (ptr s i ?p) < total s" using ownD(10) [OF less.prems(1) i p] by simp
    have pt: "ptr t i ?p = ptr s i ?p" using less.prems(4) by (simp add: ptr_def)
    then have ut: "unat (ptr s i ?p) < total t" using ownD(10) [OF less.prems(2) i p(1)] p(2) by simp
    have r: "read_block s (ptr s i ?p) (buf_rw s) = (True, ?B)" "read_block t (ptr s i ?p) (buf_rw t) = (True, ?B)"
      using read_block_spec [OF ownD(2) [OF less.prems(1)] u ownD(3) [OF less.prems(1)]]
        read_block_spec [OF ownD(2) [OF less.prems(2)] ut ownD(3) [OF less.prems(2)]]
        same_block [OF less.prems p] by simp_all
    have lB: "length ?B = 4096" using ownD(2) [OF less.prems(1)] by (intro blk_length) (simp add: geometry_def disk_ok_def)
    define c where "c = blk_count offset sz dn"
    define out1 where "out1 = put_bytes out (unat dn) (take (unat c) (drop (blk_off offset dn) ?B))"
    have step: "bfs_read_loop (inodes s ! i) offset sz dn out x = bfs_read_loop (inodes s ! i) offset sz (dn + c) out1 (x\<lparr>buf_rw := ?B\<rparr>)"
      if "read_block x (ptr s i ?p) (buf_rw x) = (True, ?B)" for x
      using True that by (subst bfs_read_loop.simps) (simp add: Let_def ptr_def sfs_consts(5) not_le c_def out1_def)
    have "unat sz - unat (dn + c) < unat sz - unat dn" using True blk_count_measure unfolding c_def by blast
    note IH = less.hyps [OF this, of "s\<lparr>buf_rw := ?B\<rparr>" "t\<lparr>buf_rw := ?B\<rparr>" out1]
    show ?thesis unfolding step [OF r(1)] step [OF r(2)]
      using IH less.prems lB by (simp add: own_buf)
  qed
qed

text \<open>
  C22. Files do not share bytes. A write to one file, however it ends, leaves every read of any
  other file as it was: the same count and the same bytes, for every position and size.
\<close>

theorem write_leaves_other_files:
  assumes "own s" and "marked s 0" and "valid_ino (v_inode node)"
    and "i_type (inodes s ! unat (v_inode node)) = SFS_TYPE_FILE"
    and "unat offset + unat sz < 2 ^ 32" and "unat sz \<le> length buf"
    and "bfs_write node offset sz buf s = (n, node', s')" and "v_inode other \<noteq> v_inode node"
  shows "fst (bfs_read other pos r out s') = fst (bfs_read other pos r out s) \<and>
    fst (snd (bfs_read other pos r out s')) = fst (snd (bfs_read other pos r out s))"
proof (cases "valid_ino (v_inode other)")
  case False
  then show ?thesis by (simp add: bfs_read_def Let_def)
next
  case True
  let ?j = "unat (v_inode other)"
  have j: "?j < 128" "?j \<noteq> unat (v_inode node)" using True assms(8) by (simp_all add: valid_ino_iff word_unat_eq_iff)
  from bfs_write_spec [OF assms(1-6)] assms(7) have W: "own s'" "inodes s' ! ?j = inodes s ! ?j"
    "grown s s' (unat (v_inode node)) (unat offset) (unat offset + unat n) (\<lambda>k. buf ! (k - unat offset))"
    using j(2) by auto
  have "fbyte s' ?j k = fbyte s ?j k" for k using W(3) j by (simp add: grown_def)
  note bfs_read_loop_cong [OF assms(1) W(1) j(1) this W(2)]
  then show ?thesis using True by (simp add: bfs_read_def Let_def W(2))
qed

lemma write_leaves_other_files_witness:
  "fst (bfs_read (node_of 3) 0 5 [] (snd (snd (bfs_write (node_of 2) 0 1 [7] demo_rw)))) =
   fst (bfs_read (node_of 3) 0 5 [] demo_rw)"
proof -
  obtain n node' s' where W: "bfs_write (node_of 2) 0 1 [7] demo_rw = (n, node', s')" by (metis prod_cases3)
  have "v_inode (node_of 3) \<noteq> v_inode (node_of 2)" by (simp add: node_of_def)
  from write_leaves_other_files [OF demo_rw_own(1,2) _ _ _ _ W this] W show ?thesis by (simp add: demo_node)
qed

section \<open>After a reboot\<close>

definition alloc_marks :: "sfs \<Rightarrow> sfs \<Rightarrow> bool" where
  "alloc_marks s s' \<longleftrightarrow> ((bitmap_dirty s' \<and> sb_dirty s') \<or>
     (bmap s' = bmap s \<and> sb s' = sb s \<and> bitmap_dirty s' = bitmap_dirty s \<and> sb_dirty s' = sb_dirty s)) \<and>
     (inodes_dirty s \<longrightarrow> inodes_dirty s') \<and> root_inode (sb s') = root_inode (sb s)"

lemma alloc_marks_trans: "alloc_marks s s1 \<Longrightarrow> alloc_marks s1 s2 \<Longrightarrow> alloc_marks s s2"
  by (auto simp: alloc_marks_def)

lemma ensure_block_marks: "ensure_block i p s = (go, s1) \<Longrightarrow> alloc_marks s s1"
  by (auto simp: ensure_block_def bitmap_alloc_def alloc_marks_def set_ptr_def upd_inode_def split: option.splits if_splits prod.splits)

lemma write_block_only_disk: "\<exists>r d. write_block b buf s = (r, s\<lparr>dsk := d\<rparr>)"
  unfolding write_block_def
  by (rule for_loop_keeps) (auto intro: exI [of _ "dsk s"] split: prod.splits)

lemma write_block_marks: "write_block b buf (s\<lparr>buf_rw := x\<rparr>) = (r, s2) \<Longrightarrow> alloc_marks s s2"
  using write_block_only_disk [of b buf "s\<lparr>buf_rw := x\<rparr>"] by (auto simp: alloc_marks_def)

lemma write_loop_marks: "bfs_write_loop i offset sz dn buf s = (n, s') \<Longrightarrow> alloc_marks s s'"
proof (induction "unat sz - unat dn" arbitrary: dn s rule: less_induct)
  case less
  have refl: "alloc_marks s s" by (simp add: alloc_marks_def)
  show ?case
  proof (cases "dn < sz \<and> blk_index offset dn < 12")
    case False
    with less.prems refl show ?thesis by (subst (asm) bfs_write_loop_rec) auto
  next
    case True
    obtain go s1 where e: "ensure_block i (blk_index offset dn) s = (go, s1)" by fastforce
    define b where "b = put_bytes (buf_rw s1) (blk_off offset dn) (take (unat (blk_count offset sz dn)) (drop (unat dn) buf))"
    obtain good s2 where w: "write_block (ptr s1 i (blk_index offset dn)) b (s1\<lparr>buf_rw := b\<rparr>) = (good, s2)" by fastforce
    note m = ensure_block_marks [OF e] alloc_marks_trans [OF ensure_block_marks [OF e] write_block_marks [OF w]]
    have "unat sz - unat (dn + blk_count offset sz dn) < unat sz - unat dn" using True blk_count_measure by blast
    note IH = less.hyps [OF this, of s2]
    show ?thesis
      using less.prems True m IH by (subst (asm) bfs_write_loop_rec)
        (auto simp: e w Let_def b_def [symmetric] split: if_splits intro: alloc_marks_trans)
  qed
qed

lemma mount_own:
  assumes "own s" and "dsk t = dsk s" and "sb t = sb s" and "inodes t = inodes s" and "bmap t = bmap s"
    and "length (buf_rw t) = 4096" and "length (buf_dir t) = 4096" and "length (buf_find t) = 4096"
  shows "own t" "fbyte t i k = fbyte s i k"
proof -
  have "geometry t" using ownD(2) [OF assms(1)] assms(2,3) by (simp add: geometry_def)
  then show "own t" using assms by (intro own_cong [OF assms(1)]) simp_all
  show "fbyte t i k = fbyte s i k" using assms(2,4) by (simp add: fbyte_def ptr_def)
qed

text \<open>A write that made its file longer has saved all the metadata.\<close>

lemma append_saved:
  assumes "own s" and "marked s 0" and "coherent s" and "s_magic (sb s) = STACKFS_MAGIC"
    and "valid_ino (v_inode node)" and "i_type (inodes s ! unat (v_inode node)) = SFS_TYPE_FILE"
    and "unat offset + unat sz < 2 ^ 32" and "unat sz \<le> length buf"
    and "bfs_write node offset sz buf s = (n, node', s')"
    and "unat (i_size (inodes s ! unat (v_inode node))) < unat offset + unat n"
  shows "own s' \<and> i_type (inodes s' ! unat (v_inode node)) = SFS_TYPE_FILE \<and> s_magic (sb s') = STACKFS_MAGIC \<and> n \<le> sz \<and>
    unat offset + unat n \<le> unat (i_size (inodes s' ! unat (v_inode node))) \<and>
    grown s s' (unat (v_inode node)) (unat offset) (unat offset + unat n) (\<lambda>k. buf ! (k - unat offset)) \<and>
    disk_ok (dsk s') \<and> sb_saved s' \<and> inodes_saved s' \<and> bmap_saved s' \<and> root_inode (sb s') = root_inode (sb s)"
proof -
  let ?i = "unat (v_inode node)"
  from bfs_write_spec [OF assms(1,2,5-8)] assms(9) obtain s1 s2 where
    L: "bfs_write_loop ?i offset sz 0 buf s = (n, s1)"
    "s2 = (if i_size (inodes s1 ! ?i) < offset + n then (upd_inode ?i (\<lambda>x. x\<lparr>i_size := offset + n\<rparr>) s1)\<lparr>inodes_dirty := True\<rparr> else s1)"
    "s' = stackfs_sync s2" "own s2" "\<And>m. m < 63 \<Longrightarrow> media (dsk s2) (of_nat m) = media (dsk s) (of_nat m)"
    and W: "own s'" "i_type (inodes s' ! ?i) = SFS_TYPE_FILE" "s_magic (sb s') = s_magic (sb s)" "n \<le> sz"
    "i_size (inodes s' ! ?i) = new_size (i_size (inodes s ! ?i)) offset n"
    "grown s s' ?i (unat offset) (unat offset + unat n) (\<lambda>k. buf ! (k - unat offset))" by auto
  have n: "unat offset + unat n < 2 ^ 32" using W(4) assms(7) by (simp add: word_le_nat_alt)
  then have sum: "unat (offset + n) = unat offset + unat n" by (intro unat_add_no_wrap) simp
  have i: "?i < 128" using assms(5) by (simp add: valid_ino_iff)
  from bfs_write_loop_spec [OF assms(1,2) i assms(7) word_zero_le assms(8)] L(1)
  have "rest_of (inodes s1 ! ?i) = rest_of (inodes s ! ?i)" by auto
  then have "i_size (inodes s1 ! ?i) = i_size (inodes s ! ?i)" using rest_of_simps by blast
  then have s2: "s2 = (upd_inode ?i (\<lambda>x. x\<lparr>i_size := offset + n\<rparr>) s1)\<lparr>inodes_dirty := True\<rparr>"
    using L(2) assms(10) sum by (simp add: word_less_nat_alt)
  have mk: "alloc_marks s s2" using write_loop_marks [OF L(1)] by (simp add: s2 alloc_marks_def upd_inode_def)
  then have "coherent s2"
    using assms(3) L(5) [of 0] saved_cong(3) [of 31 63 s2 s] L(5)
    by (auto simp: s2 coherent_def alloc_marks_def sb_saved_def)
  moreover have d2: "disk_ok (dsk s2)" using ownD(2) [OF L(4)] by (simp add: geometry_def)
  ultimately have S: "disk_ok (dsk s')" "sb_saved s'" "inodes_saved s'" "bmap_saved s'" "root_inode (sb s') = root_inode (sb s)"
    using sync_spec [OF ownD(1) [OF L(4)]] mk unfolding L(3) by (simp_all add: Let_def alloc_marks_def)
  show ?thesis
    using W(1-4,6) S assms(4) new_size_ge(1) [OF n, of "i_size (inodes s ! ?i)"] unfolding W(5) by simp
qed

text \<open>
  C6. Appended bytes outlive a reboot. Once a write has made a file longer, whatever it stored can
  be read back after the machine is restarted: mounting the disk from any other memory succeeds,
  and reading any part of what was stored delivers exactly those bytes.
\<close>

theorem append_survives_reboot:
  assumes "own s" and "marked s 0" and "coherent s" and "s_magic (sb s) = STACKFS_MAGIC"
    and "valid_ino (v_inode node)" and "i_type (inodes s ! unat (v_inode node)) = SFS_TYPE_FILE"
    and "unat offset + unat sz < 2 ^ 32" and "unat sz \<le> length buf"
    and "bfs_write node offset sz buf s = (n, node', s')"
    and "unat (i_size (inodes s ! unat (v_inode node))) < unat offset + unat n"
    and "mem_wf s0" and "dsk s0 = dsk s'" and "drop 448 (s_pad (sb s0)) = drop 448 (s_pad (sb s'))"
    and "length (buf_rw s0) = 4096" and "length (buf_dir s0) = 4096" and "length (buf_find s0) = 4096"
    and "offset \<le> pos" and "unat pos + unat r \<le> unat offset + unat n" and "unat r \<le> length out"
  shows "\<exists>root t out' t'. stackfs_mount True junk s0 = (Some root, t) \<and> bfs_read node pos r out t = (r, out', t') \<and>
    take (unat r) out' = take (unat r) (drop (unat pos - unat offset) buf)"
proof -
  let ?i = "unat (v_inode node)"
  from append_saved [OF assms(1-10)] have W: "own s'" "i_type (inodes s' ! ?i) = SFS_TYPE_FILE"
    "s_magic (sb s') = STACKFS_MAGIC" "n \<le> sz" "unat offset + unat n \<le> unat (i_size (inodes s' ! ?i))"
    "grown s s' ?i (unat offset) (unat offset + unat n) (\<lambda>k. buf ! (k - unat offset))"
    and S: "disk_ok (dsk s')" "sb_saved s'" "inodes_saved s'" "bmap_saved s'" by auto
  have "disk_ok (dsk s0)" using S(1) assms(12) by simp
  from mount_spec [OF assms(11) this ownD(1) [OF W(1)] assms(12) S(2-4) W(3) assms(13), of junk] obtain root t where
    T: "stackfs_mount True junk s0 = (Some root, t)" "dsk t = dsk s'" "sb t = sb s'" "inodes t = inodes s'" "bmap t = bmap s'"
    "buf_rw t = buf_rw s0" "buf_dir t = buf_dir s0" "buf_find t = buf_find s0" by blast
  have O: "own t" "\<And>i k. fbyte t i k = fbyte s' i k" using mount_own [OF W(1) T(2-5)] T(6-8) assms(14-16) by simp_all
  have p: "unat offset \<le> unat pos" using assms(17) by (simp add: word_le_nat_alt)
  have data: "fbyte t ?i k = Some (buf ! (k - unat offset))" if "unat pos \<le> k" "k < unat pos + unat r" for k
    using W(6) that p assms(18) unfolding grown_def O(2) by simp
  have "unat pos + unat r \<le> unat (i_size (inodes t ! ?i))"
    using W(5) assms(18) unfolding T(4) by simp
  from bfs_read_spec [OF O(1) assms(5) _ this assms(19) data] W(2) T(4) obtain out' b where
    "bfs_read node pos r out t = (r, out', t\<lparr>buf_rw := b\<rparr>)"
    "take (unat r) out' = map (\<lambda>k. buf ! (k - unat offset)) [unat pos..<unat pos + unat r]" by auto
  moreover have "unat r \<le> length buf - (unat pos - unat offset)"
    using p assms(8,18) W(4) by (simp add: word_le_nat_alt)
  then have "map (\<lambda>k. buf ! (k - unat offset)) [unat pos..<unat pos + unat r] = take (unat r) (drop (unat pos - unat offset) buf)"
    using p by (intro nth_equalityI) (simp_all add: nth_append)
  ultimately show ?thesis using T(1) by auto
qed

lemma append_survives_reboot_witness:
  "\<exists>node' s' root t out' t'. bfs_write (node_of 2) 0 1 [7] demo_rw = (1, node', s') \<and>
     stackfs_mount True [] (demo_fs\<lparr>sb := sb s', dsk := dsk s'\<rparr>) = (Some root, t) \<and>
     bfs_read (node_of 2) 0 1 [0] t = (1, out', t') \<and> take 1 out' = [7]"
proof -
  note D = demo_rw_own(1,2)
  have v: "valid_ino (v_inode (node_of 2))" "i_type (inodes demo_rw ! unat (v_inode (node_of 2))) = SFS_TYPE_FILE"
    using demo_node by simp_all
  obtain n node' s' where W: "bfs_write (node_of 2) 0 1 [7] demo_rw = (n, node', s')" by (metis prod_cases3)
  from single_block_write [OF D, of 2 1 0 "[7]"] demo_rw_own(3)
  have "fst (bfs_write_loop 2 0 1 0 [7] demo_rw) = 1" by auto
  with bfs_write_spec [OF D v, of 0 1 "[7]"] W have n: "n = 1" "own s'" by (auto simp: demo_node(1))
  have c: "coherent demo_rw" "s_magic (sb demo_rw) = STACKFS_MAGIC"
    by (simp_all add: coherent_def demo_rw_def demo_fs_def)
  have z: "unat (i_size (inodes demo_rw ! unat (v_inode (node_of 2)))) < unat (0 :: u32) + unat n"
    by (simp add: n demo_node(1) demo_rw_def demo_inodes_def sfs_consts zero_inode_def)
  define s0 where "s0 = demo_fs\<lparr>sb := sb s', dsk := dsk s'\<rparr>"
  have "super_wf (sb s')" using ownD(1) [OF n(2)] by (simp add: mem_wf_def)
  then have "mem_wf s0" using demo_fs_ok(2) by (simp add: mem_wf_def s0_def)
  from append_survives_reboot [OF D c v _ _ W z this, of 0 1 "[0]" "[]"] n W show ?thesis
    by (auto simp: s0_def demo_fs_def)
qed

end
