(* ===== verification/Fs_Dirs.thy ===== *)
theory Fs_Dirs
  imports Fs_Rw
begin

text \<open>
  Directories of StackFS: the entries of a directory as an association list of names and inode
  numbers, what \<open>bfs_finddir\<close> looks up in it, and what \<open>bfs_create\<close>, \<open>bfs_mkdir\<close> and \<open>bfs_unlink\<close>
  make of it.
\<close>

section \<open>Entries of a block\<close>

text \<open>A slot is free when its inode number is 0; else it holds a name and a number.\<close>

definition slot :: "u8 list \<Rightarrow> nat \<Rightarrow> (u8 list \<times> u32) list" where
  "slot e i = (if de_ino e i = 0 then [] else [(cstr (de_nm e i), de_ino e i)])"

definition slots :: "u8 list \<Rightarrow> nat \<Rightarrow> nat \<Rightarrow> (u8 list \<times> u32) list" where
  "slots e a b = concat (map (slot e) [a..<b])"

definition named :: "u8 list \<Rightarrow> bool" where
  "named e \<longleftrightarrow> (\<forall>i < 68. de_ino e i \<noteq> 0 \<longrightarrow> 0 \<in> set (take 56 (de_nm e i)))"

lemma epb_eq: "epb = 68"
  by (simp add: epb_def sfs_consts)

lemma slots_split: "a \<le> i \<Longrightarrow> i < b \<Longrightarrow> slots e a b = slots e a i @ slot e i @ slots e (Suc i) b"
proof -
  assume i: "a \<le> i" "i < b"
  then have "[a..<b] = [a..<i] @ [i..<b]" using upt_add_eq_append [of a i "b - i"] by simp
  with i show ?thesis by (simp add: slots_def upt_conv_Cons)
qed

lemma slots_cong: "(\<And>i. a \<le> i \<Longrightarrow> i < b \<Longrightarrow> slot e i = slot e' i) \<Longrightarrow> slots e a b = slots e' a b"
  unfolding slots_def by (rule arg_cong [where f = concat], rule map_cong) auto

lemma slots_find:
  assumes "nm \<noteq> []" and nm: "cstr x = nm"
  shows "map_of (slots e a b) nm =
    (case first_from (\<lambda>i. \<not> (de_ino e i = 0 \<or> ch (de_nm e i) 0 = 0) \<and> str_cmp (de_nm e i) x = 0) a b of
       Some i \<Rightarrow> Some (de_ino e i) | None \<Rightarrow> None)"
proof (induction "b - a" arbitrary: a)
  case 0
  then show ?case by (subst first_from.simps) (simp add: slots_def)
next
  case (Suc n)
  then have l: "a < b" by simp
  have h: "ch (de_nm e a) 0 = 0 \<longleftrightarrow> cstr (de_nm e a) = []" by (cases "de_nm e a") simp_all
  have s: "slots e a b = slot e a @ slots e (Suc a) b" using slots_split [of a a b e] l by (simp add: slots_def)
  have "n = b - Suc a" using Suc.hyps(2) by simp
  note Suc.hyps(1) [OF this]
  with assms show ?case
    by (subst first_from.simps) (auto simp: s l slot_def str_cmp_eq h)
qed

text \<open>Writing an entry into slot \<open>i\<close>.\<close>

definition put_ent :: "u8 list \<Rightarrow> nat \<Rightarrow> u32 \<Rightarrow> u8 list \<Rightarrow> u8 list" where
  "put_ent e i c nm = (let e = put_bytes e (60 * i) (le32 c)
     in put_bytes e (60 * i + 4) (str_copy (take 56 (drop (60 * i + 4) e)) nm STACKFS_NAME_MAX))"

definition ent_bytes :: "u8 list \<Rightarrow> nat \<Rightarrow> u32 \<Rightarrow> u8 list \<Rightarrow> u8 list" where
  "ent_bytes e i c nm = le32 c @ str_copy (take 56 (drop (60 * i + 4) e)) nm 56"

lemma put_ent_eq:
  assumes "length e = 4096" and "i < 68"
  shows "put_ent e i c nm = put_bytes e (60 * i) (ent_bytes e i c nm)" "length (ent_bytes e i c nm) = 60"
proof -
  have l: "length (le32 c) = 4" by simp
  have d: "drop (60 * i + 4) (put_bytes e (60 * i) (le32 c)) = drop (60 * i + 4) e"
    using assms l by (simp add: put_bytes_def)
  have "length (take 56 (drop (60 * i + 4) e)) = 56" using assms by simp
  then have n: "length (str_copy (take 56 (drop (60 * i + 4) e)) nm 56) = 56" by (simp add: str_copy_props)
  then show "length (ent_bytes e i c nm) = 60" by (simp add: ent_bytes_def)
  have "put_bytes (put_bytes e (60 * i) (le32 c)) (60 * i + 4) x = put_bytes e (60 * i) (le32 c @ x)" for x
    using assms l by (simp add: put_bytes_def ac_simps)
  then show "put_ent e i c nm = put_bytes e (60 * i) (ent_bytes e i c nm)"
    by (simp add: put_ent_def Let_def d ent_bytes_def sfs_consts(3))
qed

lemma put_ent_spec:
  assumes "length e = 4096" and "i < 68" and c: "c \<noteq> 0" and "named e"
  shows "length (put_ent e i c nm) = 4096" "slot (put_ent e i c nm) i = [(take 55 (cstr nm), c)]"
    "j < 68 \<Longrightarrow> j \<noteq> i \<Longrightarrow> slot (put_ent e i c nm) j = slot e j" "named (put_ent e i c nm)"
proof -
  let ?e = "put_ent e i c nm"
  note P = put_ent_eq [OF assms(1,2), of c nm]
  show l: "length ?e = 4096" using P assms(1,2) by (simp add: put_bytes_length)
  have l56: "length (take 56 (drop (60 * i + 4) e)) = 56" using assms(1,2) by simp
  have at_i: "drop (60 * i) ?e = le32 c @ str_copy (take 56 (drop (60 * i + 4) e)) nm 56 @ drop (60 * i + 60) e"
    using assms(1,2) P by (simp add: put_bytes_def) (simp add: ent_bytes_def)
  then have "drop (60 * i + 4) ?e = drop 4 (le32 c @ str_copy (take 56 (drop (60 * i + 4) e)) nm 56 @ drop (60 * i + 60) e)"
    by (metis add.commute drop_drop)
  then have nm_i: "de_nm ?e i = str_copy (take 56 (drop (60 * i + 4) e)) nm 56 @ drop (60 * i + 60) e"
    by (simp add: de_nm_def)
  have sc: "str_copy (take 56 (drop (60 * i + 4) e)) nm 56 =
      take 55 (cstr nm) @ 0 # drop (Suc (length (take 55 (cstr nm)))) (take 56 (drop (60 * i + 4) e))"
    using l56 by (subst str_copy_eq) simp_all
  have nz: "0 \<notin> set (take 55 (cstr nm))" using cstr_no_nul by (metis in_set_takeD)
  have ino_i: "de_ino ?e i = c" by (simp add: de_ino_def at_i)
  have "cstr (de_nm ?e i) = take 55 (cstr nm)" unfolding nm_i sc using nz by (simp add: cstr_append_nul)
  then show "slot ?e i = [(take 55 (cstr nm), c)]" using c ino_i by (simp add: slot_def)
  have other: "take 60 (drop (60 * j) ?e) = take 60 (drop (60 * j) e)" if j: "j < 68" "j \<noteq> i" for j
  proof (rule nth_equalityI)
    show "length (take 60 (drop (60 * j) ?e)) = length (take 60 (drop (60 * j) e))" using l assms(1) by simp
    fix m assume "m < length (take 60 (drop (60 * j) ?e))"
    then have m: "m < 60" by simp
    then have n: "\<not> (60 * i \<le> 60 * j + m \<and> 60 * j + m < 60 * i + 60)" using j(2) by linarith
    have "?e ! (60 * j + m) = e ! (60 * j + m)"
      using m j(1) assms(1,2) P(2) unfolding P(1) by (subst put_bytes_nth) (use n in \<open>auto\<close>)
    then show "take 60 (drop (60 * j) ?e) ! m = take 60 (drop (60 * j) e) ! m"
      using m j(1) assms(1) l by simp
  qed
  have ino: "de_ino ?e j = de_ino e j" and pre: "take 56 (de_nm ?e j) = take 56 (de_nm e j)" if j: "j < 68" "j \<noteq> i" for j
  proof -
    show "de_ino ?e j = de_ino e j"
      using arg_cong [OF other [OF j], of de32] by (simp add: de_ino_def de32_take)
    show "take 56 (de_nm ?e j) = take 56 (de_nm e j)"
      using arg_cong [OF other [OF j], of "drop 4"] by (simp add: de_nm_def drop_take add.commute)
  qed
  have cut: "cstr x = cstr (take 56 x)" if "0 \<in> set (take 56 x)" for x :: "u8 list"
    using takeWhile_append1 [of 0 "take 56 x" "\<lambda>c. c \<noteq> 0" "drop 56 x"] that by (simp add: cstr_def)
  show "slot ?e j = slot e j" if j: "j < 68" "j \<noteq> i"
  proof (cases "de_ino e j = 0")
    case False
    then have "0 \<in> set (take 56 (de_nm e j))" using assms(4) j(1) by (simp add: named_def)
    then show ?thesis using cut [of "de_nm e j"] cut [of "de_nm ?e j"] ino [OF j] pre [OF j] by (simp add: slot_def)
  qed (simp add: slot_def ino [OF j])
  show "named ?e" unfolding named_def
  proof (intro allI impI)
    fix j assume j: "j < 68" "de_ino ?e j \<noteq> 0"
    show "0 \<in> set (take 56 (de_nm ?e j))"
    proof (cases "j = i")
      case True
      have "length (str_copy (take 56 (drop (60 * i + 4) e)) nm 56) = 56" using l56 by (simp add: str_copy_props)
      then have "take 56 (de_nm ?e i) = str_copy (take 56 (drop (60 * i + 4) e)) nm 56" by (simp add: nm_i)
      then show ?thesis unfolding True by (simp only: sc) simp
    next
      case False
      with j ino pre assms(4) show ?thesis by (simp add: named_def)
    qed
  qed
qed
section \<open>Entries of a directory\<close>

text \<open>Block \<open>p\<close> of inode \<open>d\<close>, if there is one, and the entries from block \<open>b\<close> on.\<close>

definition iblk :: "sfs \<Rightarrow> nat \<Rightarrow> nat \<Rightarrow> u8 list option" where
  "iblk s d p = (if ptr s d p = 0 then None else Some (blk (dsk s) (ptr s d p)))"

function dir_live :: "(nat \<Rightarrow> u8 list option) \<Rightarrow> nat \<Rightarrow> (u8 list \<times> u32) list" where
  "dir_live B b = (if b < 12 then (case B b of None \<Rightarrow> [] | Some e \<Rightarrow> slots e 0 68 @ dir_live B (Suc b)) else [])"
  by pat_completeness auto
termination
  by (relation "measure (\<lambda>(B, b). 12 - b)") auto

declare dir_live.simps [simp del]

definition live :: "sfs \<Rightarrow> nat \<Rightarrow> (u8 list \<times> u32) list" where
  "live s d = dir_live (iblk s d) 0"

definition names_ok :: "sfs \<Rightarrow> nat \<Rightarrow> bool" where
  "names_ok s d \<longleftrightarrow> (\<forall>p < 12. \<forall>e. iblk s d p = Some e \<longrightarrow> named e)"

lemma dir_live_cong: "(\<And>p. b \<le> p \<Longrightarrow> p < 12 \<Longrightarrow> B p = C p) \<Longrightarrow> dir_live B b = dir_live C b"
proof (induction B b rule: dir_live.induct)
  case (1 B b)
  show ?case
  proof (cases "b < 12")
    case True
    then have "B b = C b" using 1(2) by simp
    with 1 True show ?thesis by (subst (1 2) dir_live.simps) (auto split: option.splits)
  qed (simp add: dir_live.simps)
qed

lemma iblk_fbyte:
  assumes "own s" and "own t" and "p < 12" and "\<And>k. k div 4096 = p \<Longrightarrow> fbyte t i k = fbyte s i k"
  shows "iblk t i p = iblk s i p"
proof -
  have wf: "disk_wf (dsk s)" "disk_wf (dsk t)"
    using ownD(2) [OF assms(1)] ownD(2) [OF assms(2)] by (simp_all add: geometry_def disk_ok_def)
  have e: "map_option (\<lambda>b. b ! m) (iblk t i p) = map_option (\<lambda>b. b ! m) (iblk s i p)" if "m < 4096" for m
    using assms(4) [of "4096 * p + m"] that assms(3) by (auto simp: fbyte_def iblk_def split: if_splits)
  show ?thesis
  proof (cases "iblk s i p")
    case None
    with e [of 0] show ?thesis by simp
  next
    case (Some x)
    with e [of 0] obtain y where y: "iblk t i p = Some y" by auto
    have "length x = 4096" "length y = 4096" using Some y wf by (auto simp: iblk_def blk_length split: if_splits)
    then have "y = x" using e Some y by (intro nth_equalityI) simp_all
    with Some y show ?thesis by simp
  qed
qed

lemma live_cong:
  assumes "own s" and "own t" and "\<And>k. fbyte t i k = fbyte s i k"
  shows "live t i = live s i" "names_ok t i = names_ok s i"
  using iblk_fbyte [OF assms(1,2) _ assms(3)] by (auto simp: live_def names_ok_def intro: dir_live_cong)

lemma iblk_of_fbyte:
  assumes "own t" and "p < 12" and "length c = 4096" and "\<And>k. k div 4096 = p \<Longrightarrow> fbyte t i k = Some (c ! (k mod 4096))"
  shows "iblk t i p = Some c"
proof -
  have wf: "disk_wf (dsk t)" using ownD(2) [OF assms(1)] by (simp add: geometry_def disk_ok_def)
  have e: "map_option (\<lambda>b. b ! m) (iblk t i p) = Some (c ! m)" if "m < 4096" for m
    using assms(4) [of "4096 * p + m"] that assms(2) by (auto simp: fbyte_def iblk_def split: if_splits)
  obtain y where y: "iblk t i p = Some y" using e [of 0] by (cases "iblk t i p") auto
  have "length y = 4096" using y wf by (auto simp: iblk_def blk_length split: if_splits)
  then have "y = c" using e y assms(3) by (intro nth_equalityI) simp_all
  with y show ?thesis by simp
qed

text \<open>\<open>bfs_finddir\<close> looks the name up in that list.\<close>

lemma finddir_loop_spec:
  assumes "own s" and d: "d < 128" and nm: "cstr nm \<noteq> []"
  shows "\<exists>b'. finddir_loop (inodes s ! d) nm b s = (map_of (dir_live (iblk s d) b) (cstr nm), s\<lparr>buf_find := b'\<rparr>) \<and> length b' = 4096"
  using assms(1)
proof (induction "12 - b" arbitrary: b s)
  case 0
  have "finddir_loop (inodes s ! d) nm b s = (None, s)" using 0(1) by (subst finddir_loop.simps) (simp add: sfs_consts(5))
  moreover have "dir_live (iblk s d) b = []" using 0(1) by (simp add: dir_live.simps)
  ultimately show ?case using ownD(5) [OF 0(2)] by (intro exI [of _ "buf_find s"]) simp
next
  case (Suc n)
  show ?case
  proof (cases "ptr s d b = 0")
    case True
    then have "finddir_loop (inodes s ! d) nm b s = (None, s)" by (subst finddir_loop.simps) (simp add: ptr_def)
    moreover have "dir_live (iblk s d) b = []" using True by (subst dir_live.simps) (simp add: iblk_def)
    ultimately show ?thesis using ownD(5) [OF Suc.prems] by (intro exI [of _ "buf_find s"]) simp
  next
    case False
    have b: "b < 12" using Suc.hyps(2) by simp
    let ?e = "blk (dsk s) (ptr s d b)"
    have u: "unat (ptr s d b) < total s" using ownD(10) [OF Suc.prems d b False] by simp
    have l: "length ?e = 4096" using ownD(2) [OF Suc.prems] by (intro blk_length) (simp add: geometry_def disk_ok_def)
    have r: "read_block s (ptr s d b) (buf_find s) = (True, ?e)"
      by (rule read_block_spec [OF ownD(2) [OF Suc.prems] u ownD(5) [OF Suc.prems]])
    define s1 where "s1 = s\<lparr>buf_find := ?e\<rparr>"
    have o1: "own s1"
      by (rule own_cong [OF Suc.prems]) (use l ownD(2,3,4) [OF Suc.prems] in \<open>simp_all add: s1_def geometry_def\<close>)
    have same: "inodes s1 = inodes s" "iblk s1 d = iblk s d" by (simp_all add: s1_def iblk_def ptr_def fun_eq_iff)
    have "n = 12 - Suc b" using Suc.hyps(2) by simp
    from Suc.hyps(1) [OF this o1] obtain b' where IH:
      "finddir_loop (inodes s ! d) nm (Suc b) s1 = (map_of (dir_live (iblk s d) (Suc b)) (cstr nm), s1\<lparr>buf_find := b'\<rparr>)" "length b' = 4096"
      unfolding same by blast
    have live: "dir_live (iblk s d) b = slots ?e 0 68 @ dir_live (iblk s d) (Suc b)"
      using b False by (subst dir_live.simps) (simp add: iblk_def)
    have eq: "finddir_loop (inodes s ! d) nm b s =
        (case first_from (\<lambda>i. \<not> (de_ino ?e i = 0 \<or> ch (de_nm ?e i) 0 = 0) \<and> str_cmp (de_nm ?e i) nm = 0) 0 68 of
           Some i \<Rightarrow> (Some (de_ino ?e i), s1) | None \<Rightarrow> finddir_loop (inodes s ! d) nm (Suc b) s1)"
      using b False by (subst finddir_loop.simps) (simp add: sfs_consts(5) ptr_def [symmetric] r Let_def s1_def epb_eq split: option.split)
    show ?thesis
      using slots_find [OF nm refl, of ?e 0 68] IH l unfolding eq live
      by (auto simp: s1_def map_add_def split: option.splits)
  qed
qed

section \<open>Adding an entry\<close>

text \<open>A directory's blocks come first and hold terminated names.\<close>

definition dir_ok :: "sfs \<Rightarrow> nat \<Rightarrow> bool" where
  "dir_ok s d \<longleftrightarrow> names_ok s d \<and> (\<forall>p q. p < q \<and> q < 12 \<and> iblk s d p = None \<longrightarrow> iblk s d q = None)"

text \<open>What changing one directory leaves alone.\<close>

definition dir_step :: "sfs \<Rightarrow> sfs \<Rightarrow> nat \<Rightarrow> bool" where
  "dir_step s s' d \<longleftrightarrow> own s' \<and> marked s' 0 \<and> s_magic (sb s') = s_magic (sb s) \<and>
     (\<forall>j. rest_of (inodes s' ! j) = rest_of (inodes s ! j)) \<and> (\<forall>j. j \<noteq> d \<longrightarrow> inodes s' ! j = inodes s ! j) \<and>
     (\<forall>j < 128. j \<noteq> d \<longrightarrow> (\<forall>k. fbyte s' j k = fbyte s j k)) \<and>
     (\<forall>m < 63. media (dsk s') (of_nat m) = media (dsk s) (of_nat m)) \<and> alloc_marks s s'"

lemma dir_step_trans: "dir_step s s1 d \<Longrightarrow> dir_step s1 s2 d \<Longrightarrow> dir_step s s2 d"
  unfolding dir_step_def using alloc_marks_trans [of s s1 s2] by simp

lemma flag_simps [simp]:
  "own (s\<lparr>inodes_dirty := x\<rparr>) = own s" "fbyte (s\<lparr>inodes_dirty := x\<rparr>) i k = fbyte s i k"
  "marked (s\<lparr>inodes_dirty := x\<rparr>) b = marked s b" "free_blks (s\<lparr>inodes_dirty := x\<rparr>) = free_blks s"
  "ptr (s\<lparr>inodes_dirty := x\<rparr>) i p = ptr s i p" "total (s\<lparr>inodes_dirty := x\<rparr>) = total s"
  "iblk (s\<lparr>inodes_dirty := x\<rparr>) i p = iblk s i p"
proof -
  show m: "marked (s\<lparr>inodes_dirty := x\<rparr>) b = marked s b" "ptr (s\<lparr>inodes_dirty := x\<rparr>) i p = ptr s i p"
    "total (s\<lparr>inodes_dirty := x\<rparr>) = total s" for b i p by (simp_all add: marked_def ptr_def total_def)
  then show f: "free_blks (s\<lparr>inodes_dirty := x\<rparr>) = free_blks s" "fbyte (s\<lparr>inodes_dirty := x\<rparr>) i k = fbyte s i k"
    "iblk (s\<lparr>inodes_dirty := x\<rparr>) i p = iblk s i p" for i k p by (simp_all add: free_blks_def fbyte_def iblk_def)
  have "mem_wf (s\<lparr>inodes_dirty := x\<rparr>) = mem_wf s" "geometry (s\<lparr>inodes_dirty := x\<rparr>) = geometry s"
    by (simp_all add: mem_wf_def geometry_def)
  then show "own (s\<lparr>inodes_dirty := x\<rparr>) = own s" unfolding own_def m f by simp
qed

definition flagged :: "sfs \<Rightarrow> nat \<Rightarrow> nat \<Rightarrow> sfs" where
  "flagged s d b = (if ptr s d b = 0 then s\<lparr>inodes_dirty := True\<rparr> else s)"

lemma inodes_flag_swap: "s\<lparr>inodes_dirty := x, inodes := y\<rparr> = s\<lparr>inodes := y, inodes_dirty := x\<rparr>"
  by simp

lemma dir_add_loop_rec:
  assumes "own s"
  shows "dir_add_loop d child nm b s =
    (if b < 12 then
       (if ptr s d b = 0 \<and> free_blks s = {} then (False, s)
        else (case ensure_block d b (flagged s d b) of (go, s1) \<Rightarrow>
          (case first_from (\<lambda>i. de_ino (buf_rw s1) i = 0) 0 68 of
             Some i \<Rightarrow> (True, snd (write_block (ptr s1 d b) (put_ent (buf_rw s1) i child nm) (s1\<lparr>buf_rw := put_ent (buf_rw s1) i child nm\<rparr>)))
           | None \<Rightarrow> dir_add_loop d child nm (Suc b) s1)))
     else (False, s))"
proof (cases "b < 12")
  case False
  then show ?thesis by (subst dir_add_loop.simps) (simp add: sfs_consts(5))
next
  case b: True
  show ?thesis
  proof (cases "ptr s d b = 0")
    case z: True
    show ?thesis
    proof (cases "free_blks s = {}")
      case True
      then have "bitmap_alloc s = (None, s)" using bitmap_alloc_spec [OF assms] by simp
      with z b True show ?thesis
        by (subst dir_add_loop.simps) (simp add: ptr_def sfs_consts(5))
    next
      case False
      with bitmap_alloc_spec [OF assms] obtain nb s1 where a: "bitmap_alloc s = (Some nb, s1)" by auto
      then have "bitmap_alloc (s\<lparr>inodes_dirty := True\<rparr>) = (Some nb, s1\<lparr>inodes_dirty := True\<rparr>)"
        by (auto simp: bitmap_alloc_def split: option.splits)
      with z b a False show ?thesis
        by (subst dir_add_loop.simps)
          (simp add: ensure_block_def flagged_def sfs_consts(5) ptr_def put_ent_def Let_def set_ptr_def upd_inode_def epb_eq inodes_flag_swap
            split: option.split)
    qed
  next
    case False
    with b show ?thesis
      by (subst dir_add_loop.simps)
        (simp add: ensure_block_def flagged_def sfs_consts(5) ptr_def put_ent_def Let_def epb_eq split: option.split)
  qed
qed

lemma flagged_simps [simp]:
  "own (flagged s d b) = own s" "fbyte (flagged s d b) i k = fbyte s i k" "marked (flagged s d b) c = marked s c"
  "free_blks (flagged s d b) = free_blks s" "ptr (flagged s d b) i p = ptr s i p" "inodes (flagged s d b) = inodes s"
  "sb (flagged s d b) = sb s" "dsk (flagged s d b) = dsk s" "total (flagged s d b) = total s"
  by (simp_all add: flagged_def)

lemma flagged_marks: "alloc_marks s (flagged s d b)"
  by (simp add: flagged_def alloc_marks_def)

definition base_blk :: "sfs \<Rightarrow> nat \<Rightarrow> nat \<Rightarrow> u8 list" where
  "base_blk s d b = (if ptr s d b = 0 then replicate 4096 0 else blk (dsk s) (ptr s d b))"

lemma base_blk_length: "own s \<Longrightarrow> length (base_blk s d b) = 4096"
  using ownD(2) [of s] by (auto simp: base_blk_def geometry_def disk_ok_def intro: blk_length)

lemma add_here:
  assumes o: "own s" and m0: "marked s 0" and d: "d < 128" and b: "b < 12" and c: "child \<noteq> 0"
    and can: "ptr s d b \<noteq> 0 \<or> free_blks s \<noteq> {}" and i: "first_from (\<lambda>i. de_ino (base_blk s d b) i = 0) 0 68 = Some i"
  shows "\<exists>s'. dir_add_loop d child nm b s = (True, s') \<and> dir_step s s' d \<and>
    iblk s' d b = Some (put_ent (base_blk s d b) i child nm) \<and> (\<forall>p < 12. p \<noteq> b \<longrightarrow> iblk s' d p = iblk s d p)"
proof -
  let ?e = "base_blk s d b"
  have l: "length ?e = 4096" by (rule base_blk_length [OF o])
  have i68: "i < 68" using i by (simp add: first_from_Some)
  note P = put_ent_eq [OF l i68, of child nm]
  have o': "own (flagged s d b)" "marked (flagged s d b) 0" using o m0 by simp_all
  have room: "60 * i + length (ent_bytes ?e i child nm) \<le> 4096" using P(2) i68 by simp
  have can': "ptr (flagged s d b) d b \<noteq> 0 \<or> free_blks (flagged s d b) \<noteq> {}" using can by simp
  from write_step [OF o' d b room can'] obtain s1 s2 where W: "ensure_block d b (flagged s d b) = (True, s1)"
    "write_block (ptr s1 d b) (put_bytes (buf_rw s1) (60 * i) (ent_bytes ?e i child nm))
       (s1\<lparr>buf_rw := put_bytes (buf_rw s1) (60 * i) (ent_bytes ?e i child nm)\<rparr>) = (True, s2)"
    "own s2" "marked s2 0" "s_magic (sb s2) = s_magic (sb s)" "\<And>j. rest_of (inodes s2 ! j) = rest_of (inodes s ! j)"
    "\<And>j. j \<noteq> d \<Longrightarrow> inodes s2 ! j = inodes s ! j"
    "\<And>j k. j < 128 \<Longrightarrow> fbyte s2 j k = (if j = d \<and> k div 4096 = b
       then Some (put_bytes ?e (60 * i) (ent_bytes ?e i child nm) ! (k mod 4096)) else fbyte s j k)"
    "\<And>m. m < 63 \<Longrightarrow> media (dsk s2) (of_nat m) = media (dsk s) (of_nat m)" by (auto simp: base_blk_def)
  have buf: "buf_rw s1 = ?e"
    using ensure_block_spec [OF o'(1) d b] W(1) can by (simp add: base_blk_def split: if_splits)
  have e: "dir_add_loop d child nm b s = (True, s2)"
    using b can i W(1,2) P by (subst dir_add_loop_rec [OF o]) (simp add: buf)
  have "alloc_marks s s2"
    using alloc_marks_trans [OF alloc_marks_trans [OF flagged_marks ensure_block_marks [OF W(1)]] write_block_marks [OF W(2)]] .
  then have st: "dir_step s s2 d" using W(3-9) by (simp add: dir_step_def)
  have "iblk s2 d b = Some (put_ent ?e i child nm)"
    by (rule iblk_of_fbyte [OF W(3) b]) (use W(8) [OF d] P l i68 in \<open>simp_all add: put_bytes_length\<close>)
  moreover have "iblk s2 d p = iblk s d p" if "p < 12" "p \<noteq> b" for p
    by (rule iblk_fbyte [OF o W(3) that(1)]) (use W(8) [OF d] that in simp)
  ultimately show ?thesis using e st by blast
qed

lemma slots_put:
  assumes "length e = 4096" and "named e" and "c \<noteq> 0" and "first_from (\<lambda>i. de_ino e i = 0) 0 68 = Some i"
  shows "\<exists>xs ys. slots e 0 68 = xs @ ys \<and> slots (put_ent e i c nm) 0 68 = xs @ (take 55 (cstr nm), c) # ys"
proof -
  have i: "i < 68" "de_ino e i = 0" using assms(4) by (simp_all add: first_from_Some)
  note S = put_ent_spec [OF assms(1) i(1) assms(3,2), where nm = nm]
  have "slots (put_ent e i c nm) 0 i = slots e 0 i" "slots (put_ent e i c nm) (Suc i) 68 = slots e (Suc i) 68"
    by (rule slots_cong, use S(3) i in simp)+
  then have "slots (put_ent e i c nm) 0 68 = slots e 0 i @ (take 55 (cstr nm), c) # slots e (Suc i) 68"
    using slots_split [of 0 i 68 "put_ent e i c nm"] i S(2) by simp
  moreover have "slots e 0 68 = slots e 0 i @ slots e (Suc i) 68"
    using slots_split [of 0 i 68 e] i by (simp add: slot_def)
  ultimately show ?thesis by blast
qed

lemma named_fresh: "named (replicate 4096 0)" "slots (replicate 4096 0) 0 68 = []"
  "first_from (\<lambda>i. de_ino (replicate 4096 0) i = 0) 0 68 = Some 0"
proof -
  have z: "de_ino (replicate 4096 0) i = 0" for i by (auto simp: de_ino_def de32_def ch_def)
  show "named (replicate 4096 0)" by (simp add: named_def z)
  show "slots (replicate 4096 0) 0 68 = []" by (simp add: slots_def slot_def z)
  show "first_from (\<lambda>i. de_ino (replicate 4096 0) i = 0) 0 68 = Some 0" by (simp add: first_from_Some z)
qed

lemma dir_live_none: "b < 12 \<Longrightarrow> B b = None \<Longrightarrow> dir_live B b = []"
  by (subst dir_live.simps) simp

lemma dir_live_some: "b < 12 \<Longrightarrow> B b = Some e \<Longrightarrow> dir_live B b = slots e 0 68 @ dir_live B (Suc b)"
  by (subst dir_live.simps) simp

text \<open>
  The whole loop: the entry goes into the first free slot of a block of the directory, or of a
  block added for it; or the directory is full, or it needs a block and the disk has none.
\<close>

definition added :: "sfs \<Rightarrow> sfs \<Rightarrow> nat \<Rightarrow> nat \<Rightarrow> u8 list \<Rightarrow> u32 \<Rightarrow> bool" where
  "added s s' d b nm child \<longleftrightarrow>
     (\<exists>xs ys. dir_live (iblk s d) b = xs @ ys \<and> dir_live (iblk s' d) b = xs @ (take 55 (cstr nm), child) # ys)"

lemma add_here_live:
  assumes o: "own s" and m0: "marked s 0" and d: "d < 128" and b: "b < 12" and c: "child \<noteq> 0" and ok: "dir_ok s d"
    and can: "ptr s d b \<noteq> 0 \<or> free_blks s \<noteq> {}" and i: "first_from (\<lambda>i. de_ino (base_blk s d b) i = 0) 0 68 = Some i"
    and pre: "\<forall>p < b. iblk s d p \<noteq> None"
  shows "\<exists>s'. dir_add_loop d child nm b s = (True, s') \<and> dir_step s s' d \<and> dir_ok s' d \<and> added s s' d b nm child \<and>
    (\<forall>p < b. iblk s' d p = iblk s d p)"
proof -
  let ?e = "base_blk s d b"
  have l: "length ?e = 4096" by (rule base_blk_length [OF o])
  have nm: "named ?e" using ok b named_fresh(1) by (auto simp: base_blk_def dir_ok_def names_ok_def iblk_def)
  have i68: "i < 68" using i by (simp add: first_from_Some)
  from add_here [OF o m0 d b c can i] obtain s' where s': "dir_add_loop d child nm b s = (True, s')" "dir_step s s' d"
    "iblk s' d b = Some (put_ent ?e i child nm)" "\<And>p. p < 12 \<Longrightarrow> p \<noteq> b \<Longrightarrow> iblk s' d p = iblk s d p" by blast
  have "names_ok s' d" unfolding names_ok_def
    using s'(3,4) ok put_ent_spec(4) [OF l i68 c nm] by (metis dir_ok_def names_ok_def option.inject)
  moreover have "iblk s' d q = None" if "p < q" "q < 12" "iblk s' d p = None" for p q
  proof -
    have "p \<noteq> b" using that s'(3) by auto
    then have "iblk s d p = None" using that s'(4) by simp
    then have "iblk s d q = None" "\<not> p < b" using that ok pre by (auto simp: dir_ok_def)
    with \<open>p \<noteq> b\<close> that s'(4) show ?thesis by simp
  qed
  ultimately have ok': "dir_ok s' d" unfolding dir_ok_def by blast
  from slots_put [OF l nm c i] obtain xs ys where sl: "slots ?e 0 68 = xs @ ys"
    "slots (put_ent ?e i child nm) 0 68 = xs @ (take 55 (cstr nm), child) # ys" by blast
  have later: "dir_live (iblk s' d) (Suc b) = dir_live (iblk s d) (Suc b)" by (rule dir_live_cong) (use s'(4) in simp)
  have new: "dir_live (iblk s' d) b = xs @ (take 55 (cstr nm), child) # ys @ dir_live (iblk s d) (Suc b)"
    using dir_live_some [where B = "iblk s' d", OF b s'(3)] sl(2) later by simp
  have old: "dir_live (iblk s d) b = xs @ ys @ dir_live (iblk s d) (Suc b)"
  proof (cases "ptr s d b = 0")
    case True
    then have "iblk s d b = None" by (simp add: iblk_def)
    moreover from this have "Suc b < 12 \<Longrightarrow> iblk s d (Suc b) = None" using ok lessI [of b] unfolding dir_ok_def by blast
    then have "dir_live (iblk s d) (Suc b) = []"
      by (cases "Suc b < 12") (simp add: dir_live_none, subst dir_live.simps, simp)
    moreover have "xs @ ys = []" using sl(1) named_fresh(2) True by (simp add: base_blk_def)
    ultimately show ?thesis using dir_live_none [OF b] by simp
  next
    case False
    then have "iblk s d b = Some ?e" by (simp add: iblk_def base_blk_def)
    from dir_live_some [where B = "iblk s d", OF b this] sl(1) show ?thesis by simp
  qed
  have "added s s' d b nm child" unfolding added_def
    by (rule exI [of _ xs], rule exI [of _ "ys @ dir_live (iblk s d) (Suc b)"]) (simp add: new old)
  then show ?thesis using s'(1,2,4) ok' b by (intro exI [of _ s']) simp
qed

lemma read_step:
  assumes o: "own s" and m0: "marked s 0" and d: "d < 128" and b: "b < 12" and p: "ptr s d b \<noteq> 0"
  shows "\<exists>s1. ensure_block d b (flagged s d b) = (True, s1) \<and> buf_rw s1 = base_blk s d b \<and> dir_step s s1 d \<and>
    (\<forall>p. iblk s1 d p = iblk s d p) \<and> free_blks s1 = free_blks s \<and> inodes s1 = inodes s"
proof -
  have u: "unat (ptr s d b) < total s" using ownD(10) [OF o d b p] by simp
  have r: "read_block s (ptr s d b) (buf_rw s) = (True, blk (dsk s) (ptr s d b))"
    by (rule read_block_spec [OF ownD(2) [OF o] u ownD(3) [OF o]])
  have l: "length (blk (dsk s) (ptr s d b)) = 4096" using base_blk_length [OF o, of d b] p by (simp add: base_blk_def)
  have e: "ensure_block d b (flagged s d b) = (True, s\<lparr>buf_rw := blk (dsk s) (ptr s d b)\<rparr>)"
    using p by (simp add: flagged_def ensure_block_def r)
  have "dir_step s (s\<lparr>buf_rw := blk (dsk s) (ptr s d b)\<rparr>) d"
    using own_buf [OF o l] m0 by (simp add: dir_step_def marked_def alloc_marks_def)
  moreover have "iblk (s\<lparr>buf_rw := x\<rparr>) d q = iblk s d q" "free_blks (s\<lparr>buf_rw := x\<rparr>) = free_blks s" for x q
    by (simp_all add: iblk_def ptr_def free_blks_def total_def marked_def)
  ultimately show ?thesis using e p by (intro exI [of _ "s\<lparr>buf_rw := blk (dsk s) (ptr s d b)\<rparr>"]) (simp add: base_blk_def)
qed

lemma dir_add_loop_spec:
  assumes "own s" and "marked s 0" and d: "d < 128" and "dir_ok s d" and c: "child \<noteq> 0" and "\<forall>p < b. p < 12 \<longrightarrow> iblk s d p \<noteq> None"
  shows "\<exists>r s'. dir_add_loop d child nm b s = (r, s') \<and> dir_step s s' d \<and> dir_ok s' d \<and>
    (\<forall>p < b. p < 12 \<longrightarrow> iblk s' d p = iblk s d p) \<and>
    (if r then added s s' d b nm child
     else (\<forall>p < 12. iblk s' d p = iblk s d p) \<and> (free_blks s = {} \<or> (\<forall>p < 12. iblk s d p \<noteq> None)))"
  using assms(1,2,4,6)
proof (induction "12 - b" arbitrary: b s)
  case 0
  then have b: "\<not> b < 12" by simp
  have "dir_step s s d" using 0(2,3) by (simp add: dir_step_def alloc_marks_def)
  moreover have "dir_add_loop d child nm b s = (False, s)" using b by (subst dir_add_loop_rec [OF 0(2)]) simp
  ultimately show ?case using 0 b by (intro exI [of _ False] exI [of _ s]) auto
next
  case (Suc n)
  note o = Suc.prems(1)
  have b: "b < 12" using Suc.hyps(2) by simp
  have pre: "\<forall>p < b. iblk s d p \<noteq> None" using Suc.prems(4) b by auto
  show ?case
  proof (cases "ptr s d b = 0 \<and> free_blks s = {}")
    case True
    then have "dir_add_loop d child nm b s = (False, s)" using b by (subst dir_add_loop_rec [OF o]) simp
    moreover have "dir_step s s d" using Suc.prems(1,2) by (simp add: dir_step_def alloc_marks_def)
    ultimately show ?thesis using Suc.prems(3) True by (intro exI [of _ False] exI [of _ s]) simp
  next
    case False
    then have can: "ptr s d b \<noteq> 0 \<or> free_blks s \<noteq> {}" by blast
    show ?thesis
    proof (cases "first_from (\<lambda>i. de_ino (base_blk s d b) i = 0) 0 68")
      case (Some i)
      from add_here_live [OF o Suc.prems(2) d b c Suc.prems(3) can Some pre] obtain s' where
        "dir_add_loop d child nm b s = (True, s')" "dir_step s s' d" "dir_ok s' d" "added s s' d b nm child"
        "\<forall>p < b. iblk s' d p = iblk s d p" by blast
      then show ?thesis by (intro exI [of _ True] exI [of _ s']) simp
    next
      case None
      have nz: "ptr s d b \<noteq> 0"
      proof
        assume "ptr s d b = 0"
        then have "base_blk s d b = replicate 4096 0" unfolding base_blk_def by (rule if_P)
        with None named_fresh(3) show False by (simp only: option.distinct)
      qed
      from read_step [OF o Suc.prems(2) d b nz] obtain s1 where s1: "ensure_block d b (flagged s d b) = (True, s1)"
        "buf_rw s1 = base_blk s d b" "dir_step s s1 d" "iblk s1 d = iblk s d" "free_blks s1 = free_blks s" "inodes s1 = inodes s"
        by (auto simp: fun_eq_iff)
      have e: "dir_add_loop d child nm b s = dir_add_loop d child nm (Suc b) s1"
        using b nz None by (subst dir_add_loop_rec [OF o]) (simp add: s1(1,2))
      have o1: "own s1" "marked s1 0" "dir_ok s1 d" "\<forall>p < Suc b. p < 12 \<longrightarrow> iblk s1 d p \<noteq> None"
      proof -
        show "own s1" "marked s1 0" using s1(3) by (simp_all add: dir_step_def)
        show "dir_ok s1 d" using Suc.prems(3) unfolding dir_ok_def names_ok_def s1(4) .
        have "iblk s d b \<noteq> None" using nz by (simp add: iblk_def)
        with pre show "\<forall>p < Suc b. p < 12 \<longrightarrow> iblk s1 d p \<noteq> None" unfolding s1(4) less_Suc_eq by blast
      qed
      have "n = 12 - Suc b" using Suc.hyps(2) by simp
      from Suc.hyps(1) [OF this o1] obtain r s' where R: "dir_add_loop d child nm (Suc b) s1 = (r, s')" "dir_step s1 s' d"
        "dir_ok s' d" "\<And>p. p < Suc b \<Longrightarrow> p < 12 \<Longrightarrow> iblk s' d p = iblk s1 d p" "if r then added s1 s' d (Suc b) nm child
          else (\<forall>p < 12. iblk s' d p = iblk s1 d p) \<and> (free_blks s1 = {} \<or> (\<forall>p < 12. iblk s1 d p \<noteq> None))" by blast
      have "added s s' d b nm child" if r: "r"
      proof -
        have B: "iblk s d b = Some (base_blk s d b)" using nz by (simp add: iblk_def base_blk_def)
        then have B': "iblk s' d b = Some (base_blk s d b)" using R(4) [of b] b s1(4) by simp
        from R(5) r obtain xs ys where "dir_live (iblk s d) (Suc b) = xs @ ys"
          "dir_live (iblk s' d) (Suc b) = xs @ (take 55 (cstr nm), child) # ys" by (auto simp: added_def s1(4))
        then show ?thesis unfolding added_def
          using dir_live_some [where B = "iblk s d", OF b B] dir_live_some [where B = "iblk s' d", OF b B']
          by (intro exI [of _ "slots (base_blk s d b) 0 68 @ xs"] exI [of _ ys]) simp
      qed
      moreover have "\<forall>p < b. p < 12 \<longrightarrow> iblk s' d p = iblk s d p" using R(4) s1(4) by simp
      ultimately show ?thesis using e R(1,3,5) s1(4,5) dir_step_trans [OF s1(3) R(2)]
        by (intro exI [of _ r] exI [of _ s']) (simp split: if_splits)
    qed
  qed
qed

text \<open>It takes one block at most, and sets one pointer.\<close>

lemma dir_add_loop_free:
  assumes "own s" and "marked s 0" and d: "d < 128" and "dir_add_loop d child nm b s = (r, s')"
  shows "card (free_blks s) \<le> Suc (card (free_blks s')) \<and> (\<exists>q. \<forall>p < 12. p \<noteq> q \<longrightarrow> ptr s' d p = ptr s d p)"
  using assms(1,2,4)
proof (induction "12 - b" arbitrary: b s)
  case 0
  then show ?case by (subst (asm) dir_add_loop_rec [OF 0(2)]) simp
next
  case (Suc n)
  note o = Suc.prems(1)
  have b: "b < 12" using Suc.hyps(2) by simp
  have wr: "free_blks (snd (write_block p x (t\<lparr>buf_rw := y\<rparr>))) = free_blks t" "ptr (snd (write_block p x (t\<lparr>buf_rw := y\<rparr>))) = ptr t" for p x y t
    using write_block_only_disk [of p x "t\<lparr>buf_rw := y\<rparr>"] by (auto simp: free_blks_def total_def marked_def ptr_def fun_eq_iff)
  show ?case
  proof (cases "ptr s d b = 0")
    case nz: False
    from read_step [OF o Suc.prems(2) d b nz] obtain s1 where s1: "ensure_block d b (flagged s d b) = (True, s1)"
      "dir_step s s1 d" "free_blks s1 = free_blks s" "inodes s1 = inodes s" by blast
    have p1: "ptr s1 = ptr s" using s1(4) by (simp add: ptr_def fun_eq_iff)
    have o1: "own s1" "marked s1 0" using s1(2) by (simp_all add: dir_step_def)
    show ?thesis
    proof (cases "first_from (\<lambda>i. de_ino (buf_rw s1) i = 0) 0 68")
      case None
      then have "dir_add_loop d child nm (Suc b) s1 = (r, s')"
        using Suc.prems(3) b nz by (subst (asm) dir_add_loop_rec [OF o]) (simp add: s1(1))
      from Suc.hyps(1) [OF _ o1 this] Suc.hyps(2) show ?thesis by (simp add: s1(3) p1)
    next
      case (Some i)
      then have "s' = snd (write_block (ptr s1 d b) (put_ent (buf_rw s1) i child nm) (s1\<lparr>buf_rw := put_ent (buf_rw s1) i child nm\<rparr>))"
        using Suc.prems(3) b nz by (subst (asm) dir_add_loop_rec [OF o]) (simp add: s1(1))
      then show ?thesis by (simp add: wr s1(3) p1)
    qed
  next
    case z: True
    show ?thesis
    proof (cases "free_blks s = {}")
      case True
      then show ?thesis using Suc.prems(3) b z by (subst (asm) dir_add_loop_rec [OF o]) simp
    next
      case False
      then have ne: "free_blks (flagged s d b) \<noteq> {}" "own (flagged s d b)" using o by simp_all
      with bitmap_alloc_spec [of "flagged s d b"] obtain nb s2 where s2: "bitmap_alloc (flagged s d b) = (Some nb, s2)"
        "free_blks s2 = free_blks s - {nb}" "mem_wf s2" "inodes s2 = inodes s" by auto
      define s1 where "s1 = (set_ptr d b (of_nat nb) s2)\<lparr>buf_rw := replicate 4096 0\<rparr>"
      have e: "ensure_block d b (flagged s d b) = (True, s1)" using z s2(1) by (simp add: ensure_block_def s1_def sfs_consts)
      have "free_blks s1 = free_blks s - {nb}"
        using s2(2) by (simp add: s1_def set_ptr_def upd_inode_def free_blks_def total_def marked_def)
      then have "card (free_blks s) \<le> Suc (card (free_blks s1))" by (simp add: card_Diff_singleton_if) arith
      moreover have "ptr s1 d p = ptr s d p" if "p < 12" "p \<noteq> b" for p
        using set_ptr_ptr [OF s2(3) d b d that(1), of "of_nat nb"] that(2) s2(4) by (simp add: s1_def ptr_def)
      moreover have "buf_rw s1 = replicate 4096 0" by (simp add: s1_def)
      then have "s' = snd (write_block (ptr s1 d b) (put_ent (buf_rw s1) 0 child nm) (s1\<lparr>buf_rw := put_ent (buf_rw s1) 0 child nm\<rparr>))"
        using Suc.prems(3) b z False named_fresh(3) by (subst (asm) dir_add_loop_rec [OF o]) (simp add: e)
      ultimately show ?thesis by (intro conjI exI [of _ b]) (simp_all add: wr)
    qed
  qed
qed

section \<open>The file system as a whole\<close>

definition fs_ok :: "sfs \<Rightarrow> bool" where
  "fs_ok s \<longleftrightarrow> own s \<and> marked s 0 \<and>
     (\<forall>i < 128. i_type (inodes s ! i) = SFS_TYPE_FREE \<longrightarrow> (\<forall>k. fbyte s i k = None)) \<and>
     (\<forall>d < 128. i_type (inodes s ! d) = SFS_TYPE_DIR \<longrightarrow> dir_ok s d)"

text \<open>Changes of inodes and of the superblock that leave the blocks and their owners alone.\<close>

definition meta_step :: "sfs \<Rightarrow> sfs \<Rightarrow> bool" where
  "meta_step s s' \<longleftrightarrow> bmap s' = bmap s \<and> dsk s' = dsk s \<and> buf_rw s' = buf_rw s \<and> buf_dir s' = buf_dir s \<and> buf_find s' = buf_find s \<and>
     total_blocks (sb s') = total_blocks (sb s) \<and> free_blocks (sb s') = free_blocks (sb s) \<and> s_magic (sb s') = s_magic (sb s) \<and>
     root_inode (sb s') = root_inode (sb s) \<and>
     mem_wf s' \<and> (\<forall>i < 128. i_blocks (inodes s' ! i) = i_blocks (inodes s ! i))"

lemma meta_step_own:
  assumes "own s" and "meta_step s s'"
  shows "own s'" "i < 128 \<Longrightarrow> iblk s' i p = iblk s i p" "i < 128 \<Longrightarrow> fbyte s' i k = fbyte s i k" "marked s' b = marked s b"
    "free_blks s' = free_blks s"
proof -
  have p: "ptr s' i q = ptr s i q" if "i < 128" for i q using assms(2) that by (simp add: meta_step_def ptr_def)
  show m: "marked s' b = marked s b" for b using assms(2) by (simp add: meta_step_def marked_def)
  have t: "total s' = total s" using assms(2) by (simp add: meta_step_def total_def)
  show f: "free_blks s' = free_blks s" by (simp add: free_blks_def m t)
  show "iblk s' i p = iblk s i p" "fbyte s' i k = fbyte s i k" if "i < 128"
    using p [OF that] assms(2) by (simp_all add: iblk_def fbyte_def meta_step_def)
  have "mem_wf s'" "geometry s'" "length (buf_rw s') = 4096" "length (buf_dir s') = 4096" "length (buf_find s') = 4096"
    "unat (free_blocks (sb s')) = card (free_blks s')"
    using assms(2) ownD(2-6) [OF assms(1)] by (simp_all add: meta_step_def geometry_def f)
  then show "own s'" unfolding own_def
    using ownD(10,11) [OF assms(1)] p m t by auto
qed

lemma upd_inode_meta:
  assumes "own s" and "i < 128" and "\<And>x. i_blocks (f x) = i_blocks x" and "inode_wf (f (inodes s ! i))"
  shows "meta_step s (upd_inode i f s)"
proof -
  have l: "length (inodes s) = 128" by (rule ownD(8) [OF assms(1)])
  have w: "mem_wf s" by (rule ownD(1) [OF assms(1)])
  have "set (inodes (upd_inode i f s)) \<subseteq> insert (f (inodes s ! i)) (set (inodes s))"
    unfolding upd_inode_def using set_update_subset_insert by fastforce
  then have "\<forall>x \<in> set (inodes (upd_inode i f s)). inode_wf x" using w assms(4) by (auto simp: mem_wf_def)
  then have "mem_wf (upd_inode i f s)" using w by (simp add: mem_wf_def) (simp add: upd_inode_def)
  then show ?thesis using l assms(2,3) by (auto simp: meta_step_def upd_inode_def nth_list_update)
qed

lemma meta_step_trans: "meta_step s s1 \<Longrightarrow> meta_step s1 s2 \<Longrightarrow> meta_step s s2"
  by (simp add: meta_step_def)

lemma alloc_inode_spec:
  assumes "own s"
  shows "(alloc_inode s = (None, s) \<and> (\<forall>i. 1 \<le> i \<and> i < 128 \<longrightarrow> i_type (inodes s ! i) \<noteq> SFS_TYPE_FREE)) \<or>
    (\<exists>ni s1. alloc_inode s = (Some ni, s1) \<and> 1 \<le> ni \<and> ni < 128 \<and> i_type (inodes s ! ni) = SFS_TYPE_FREE \<and>
       meta_step s s1 \<and> inodes s1 = inodes s \<and> sb_dirty s1 \<and> inodes_dirty s1 \<and> bitmap_dirty s1 = bitmap_dirty s)"
proof (cases "first_from (\<lambda>i. i_type (inodes s ! i) = SFS_TYPE_FREE) 1 128")
  case None
  then have "alloc_inode s = (None, s)" by (simp add: alloc_inode_def sfs_consts(4))
  moreover have "\<forall>i. 1 \<le> i \<and> i < 128 \<longrightarrow> i_type (inodes s ! i) \<noteq> SFS_TYPE_FREE" using None by (simp add: first_from_None)
  ultimately show ?thesis by blast
next
  case (Some ni)
  then have "1 \<le> ni" "ni < 128" "i_type (inodes s ! ni) = SFS_TYPE_FREE" by (simp_all add: first_from_Some)
  moreover define s1 where "s1 = s\<lparr>sb := (sb s)\<lparr>free_inodes := free_inodes (sb s) - 1\<rparr>, sb_dirty := True, inodes_dirty := True\<rparr>"
  have "alloc_inode s = (Some ni, s1)" using Some by (simp add: alloc_inode_def sfs_consts(4) s1_def)
  moreover have "meta_step s s1" using ownD(1) [OF assms] by (simp add: meta_step_def s1_def mem_wf_def super_wf_def)
  ultimately show ?thesis by (simp add: s1_def)
qed

definition born :: "u8 \<Rightarrow> u16 \<Rightarrow> u8 list \<Rightarrow> inode \<Rightarrow> inode" where
  "born ty perm nm i = i\<lparr>i_type := ty, i_perm := perm, i_size := 0, i_name := str_copy (i_name i) nm STACKFS_NAME_MAX\<rparr>"

text \<open>Who has the fresh inode, and what every other one keeps.\<close>

definition created :: "sfs \<Rightarrow> sfs \<Rightarrow> nat \<Rightarrow> nat \<Rightarrow> u8 \<Rightarrow> u16 \<Rightarrow> u8 list \<Rightarrow> bool" where
  "created s s' d ni ty perm nm \<longleftrightarrow>
     i_type (inodes s ! ni) = SFS_TYPE_FREE \<and> i_type (inodes s' ! ni) = ty \<and> i_perm (inodes s' ! ni) = perm \<and>
     i_size (inodes s' ! ni) = 0 \<and> cstr (i_name (inodes s' ! ni)) = take 55 (cstr nm) \<and> (\<forall>k. fbyte s' ni k = None) \<and>
     (\<forall>j < 128. j \<noteq> ni \<longrightarrow> rest_of (inodes s' ! j) = rest_of (inodes s ! j)) \<and>
     (\<forall>j < 128. j \<noteq> d \<longrightarrow> (\<forall>k. fbyte s' j k = fbyte s j k))"

lemma born_wf: "inode_wf i \<Longrightarrow> inode_wf (born ty perm nm i)" "inode_wf i \<Longrightarrow> cstr (i_name (born ty perm nm i)) = take 55 (cstr nm)"
proof -
  assume "inode_wf i"
  then have l: "length (i_name i) = 56" by (simp add: inode_wf_def sfs_consts)
  from str_copy_props [of 56 "i_name i" nm] l \<open>inode_wf i\<close>
  show "inode_wf (born ty perm nm i)" "cstr (i_name (born ty perm nm i)) = take 55 (cstr nm)"
    by (simp_all add: born_def inode_wf_def sfs_consts(3))
qed

lemma dir_ok_cong: "(\<And>p. p < 12 \<Longrightarrow> iblk t d p = iblk s d p) \<Longrightarrow> dir_ok t d = dir_ok s d"
proof -
  assume e: "\<And>p. p < 12 \<Longrightarrow> iblk t d p = iblk s d p"
  have "p < 12 \<longrightarrow> (\<forall>x. iblk t d p = Some x \<longrightarrow> named x) \<longleftrightarrow> p < 12 \<longrightarrow> (\<forall>x. iblk s d p = Some x \<longrightarrow> named x)" for p
    using e [of p] by simp
  then have n: "names_ok t d = names_ok s d" unfolding names_ok_def by simp
  have "(p < q \<and> q < 12 \<and> iblk t d p = None \<longrightarrow> iblk t d q = None) \<longleftrightarrow>
      (p < q \<and> q < 12 \<and> iblk s d p = None \<longrightarrow> iblk s d q = None)" for p q
    using e [of p] e [of q] by (cases "p < q \<and> q < 12") auto
  then show ?thesis unfolding dir_ok_def n by simp
qed

lemma dir_ok_empty: "(\<And>k. fbyte s d k = None) \<Longrightarrow> dir_ok s d" "(\<And>k. fbyte s d k = None) \<Longrightarrow> live s d = []"
proof -
  assume f: "\<And>k. fbyte s d k = None"
  have n: "iblk s d p = None" if "p < 12" for p
    using f [of "4096 * p"] that by (simp add: fbyte_def iblk_def split: if_splits)
  then show "dir_ok s d" by (auto simp: dir_ok_def names_ok_def)
  show "live s d = []" using n [of 0] by (simp add: live_def dir_live_none)
qed

text \<open>The fresh inode before it is entered in the directory.\<close>

lemma new_inode:
  fixes perm :: u16 and nm :: "u8 list"
  assumes o: "own s" and a: "alloc_inode s = (Some ni, s0)" and ty: "ty \<noteq> SFS_TYPE_FREE"
  defines "s1 \<equiv> (upd_inode ni (born ty perm nm) s0)\<lparr>inodes_dirty := True\<rparr>"
  shows "1 \<le> ni \<and> ni < 128 \<and> i_type (inodes s ! ni) = SFS_TYPE_FREE \<and> meta_step s s1 \<and> inodes s1 ! ni = born ty perm nm (inodes s ! ni) \<and>
    (\<forall>j. j \<noteq> ni \<longrightarrow> inodes s1 ! j = inodes s ! j) \<and> sb_dirty s1 \<and> inodes_dirty s1 \<and> bitmap_dirty s1 = bitmap_dirty s \<and>
    cstr (i_name (inodes s1 ! ni)) = take 55 (cstr nm)"
proof -
  from alloc_inode_spec [OF o] a have A: "1 \<le> ni" "ni < 128" "i_type (inodes s ! ni) = SFS_TYPE_FREE" "meta_step s s0"
    "inodes s0 = inodes s" "sb_dirty s0" "inodes_dirty s0" "bitmap_dirty s0 = bitmap_dirty s" by auto
  have l: "length (inodes s) = 128" by (rule ownD(8) [OF o])
  have w: "inode_wf (inodes s ! ni)" using ownD(1) [OF o] l A(2) by (simp add: mem_wf_def)
  have o0: "own s0" by (rule meta_step_own(1) [OF o A(4)])
  have "meta_step s0 (upd_inode ni (born ty perm nm) s0)"
    using born_wf(1) [OF w] A(2,5) by (intro upd_inode_meta [OF o0]) (simp_all add: born_def)
  moreover have "mem_wf (u\<lparr>inodes_dirty := True\<rparr>) = mem_wf u" for u by (simp add: mem_wf_def)
  ultimately have "meta_step s0 s1" by (simp add: meta_step_def s1_def)
  with A(4) have "meta_step s s1" by (rule meta_step_trans)
  then show ?thesis using A l born_wf(2) [OF w] by (simp add: s1_def upd_inode_def)
qed

lemma rest_of_perm: "rest_of a = rest_of b \<Longrightarrow> i_perm a = i_perm b"
  by (cases a, cases b) (simp add: rest_of_def)

lemma bfs_new_spec:
  assumes ok: "fs_ok s" and v: "valid_ino (v_inode dir)" and dt: "i_type (inodes s ! unat (v_inode dir)) = SFS_TYPE_DIR"
    and a: "alloc_inode s = (Some ni, s0)" and ty: "ty = SFS_TYPE_FILE \<or> ty = SFS_TYPE_DIR" and d_def: "d = unat (v_inode dir)"
  shows "\<exists>s2 s'. bfs_new ty perm dir nm s = (True, s') \<and> s' = stackfs_sync s2 \<and> low_change s2 s' \<and> inodes_dirty s2 \<and>
    (coherent s \<longrightarrow> coherent s2) \<and> own s2 \<and> own s' \<and> s_magic (sb s') = s_magic (sb s) \<and>
    root_inode (sb s') = root_inode (sb s) \<and> card (free_blks s) \<le> Suc (card (free_blks s')) \<and>
    (\<exists>q. \<forall>p < 12. p \<noteq> q \<longrightarrow> ptr s' d p = ptr s d p) \<and>
    fs_ok s' \<and> 1 \<le> ni \<and> ni < 128 \<and> ni \<noteq> d \<and> created s s' d ni ty perm nm \<and>
    (added s s' d 0 nm (of_nat ni) \<or> (live s' d = live s d \<and> (free_blks s = {} \<or> (\<forall>p < 12. iblk s d p \<noteq> None))))"
proof -
  have o: "own s" and m0: "marked s 0" and fr: "\<And>i k. i < 128 \<Longrightarrow> i_type (inodes s ! i) = SFS_TYPE_FREE \<Longrightarrow> fbyte s i k = None"
    and dirs: "\<And>e. e < 128 \<Longrightarrow> i_type (inodes s ! e) = SFS_TYPE_DIR \<Longrightarrow> dir_ok s e" using ok by (simp_all add: fs_ok_def)
  have d: "d < 128" using v by (simp add: valid_ino_iff d_def)
  define s1 where "s1 = (upd_inode ni (born ty perm nm) s0)\<lparr>inodes_dirty := True\<rparr>"
  have tn: "ty \<noteq> SFS_TYPE_FREE" "SFS_TYPE_DIR \<noteq> SFS_TYPE_FREE"
    using ty by (auto simp: SFS_TYPE_FREE_def SFS_TYPE_FILE_def SFS_TYPE_DIR_def)
  have N: "1 \<le> ni" "ni < 128" "i_type (inodes s ! ni) = SFS_TYPE_FREE" "meta_step s s1" "inodes s1 ! ni = born ty perm nm (inodes s ! ni)"
    "\<And>j. j \<noteq> ni \<Longrightarrow> inodes s1 ! j = inodes s ! j" "sb_dirty s1" "inodes_dirty s1" "bitmap_dirty s1 = bitmap_dirty s"
    "cstr (i_name (inodes s1 ! ni)) = take 55 (cstr nm)"
    using new_inode [OF o a tn(1), of perm nm] unfolding s1_def [symmetric] by blast+
  have nd: "ni \<noteq> d" using N(3) dt tn(2) by (auto simp: d_def)
  note M = meta_step_own [OF o N(4)]
  have c: "(of_nat ni :: u32) \<noteq> 0" using N(1,2) small_lba [of ni 0] by simp
  have "dir_ok s1 d" using dir_ok_cong [of s1 d s] M(2) d dirs [OF d] dt by (simp add: d_def)
  moreover have "marked s1 0" using M(4) m0 by simp
  ultimately obtain r s2 where R: "dir_add_loop d (of_nat ni) nm 0 s1 = (r, s2)" "dir_step s1 s2 d" "dir_ok s2 d"
    "if r then added s1 s2 d 0 nm (of_nat ni)
     else (\<forall>p < 12. iblk s2 d p = iblk s1 d p) \<and> (free_blks s1 = {} \<or> (\<forall>p < 12. iblk s1 d p \<noteq> None))"
    using dir_add_loop_spec [OF M(1) _ d _ c, of 0 nm] by auto
  have D: "own s2" "marked s2 0" "\<And>j. rest_of (inodes s2 ! j) = rest_of (inodes s1 ! j)"
    "\<And>j k. j < 128 \<Longrightarrow> j \<noteq> d \<Longrightarrow> fbyte s2 j k = fbyte s1 j k" "alloc_marks s1 s2"
    "\<And>m. m < 63 \<Longrightarrow> media (dsk s2) (of_nat m) = media (dsk s1) (of_nat m)" using R(2) by (simp_all add: dir_step_def)
  define s' where "s' = stackfs_sync s2"
  have lc: "low_change s2 s'" unfolding s'_def by (rule sync_low [OF ownD(1) [OF D(1)]])
  note L = low_change_own [OF D(1) lc]
  have ieq: "inodes s' = inodes s2" using lc by (simp add: low_change_def)
  have e: "bfs_new ty perm dir nm s = (True, s')"
    using a R(1) by (simp add: bfs_new_def dir_add_entry_def born_def [abs_def] s1_def s'_def d_def [symmetric] Let_def)
  have f': "fbyte s' j k = fbyte s j k" if "j < 128" "j \<noteq> d" for j k using L(2) D(4) M(3) that by simp
  have ni_empty: "fbyte s' ni k = None" for k using f' [OF N(2) nd] fr [OF N(2,3)] by simp
  have rest: "rest_of (inodes s' ! j) = rest_of (inodes s ! j)" if "j \<noteq> ni" for j using D(3) N(6) that by (simp add: ieq)
  have rn: "rest_of (inodes s' ! ni) = rest_of (born ty perm nm (inodes s ! ni))" using D(3) [of ni] N(5) by (simp add: ieq)
  have tyn: "i_type (inodes s' ! ni) = ty" using rest_of_simps [OF rn] by (simp add: born_def)
  have tys: "i_type (inodes s' ! j) = i_type (inodes s ! j)" if "j \<noteq> ni" for j using rest_of_simps [OF rest [OF that]] by simp
  have "cstr (i_name (inodes s' ! ni)) = take 55 (cstr nm)" using rest_of_simps [OF rn] N(5,10) by simp
  then have cr: "created s s' d ni ty perm nm"
    using N(3) rest_of_simps [OF rn] rest_of_perm [OF rn] ni_empty rest f' by (simp add: created_def born_def)
  have ib: "iblk s' i p = iblk s2 i p" if "i < 128" "p < 12" for i p
    by (rule iblk_fbyte [OF D(1) L(1) that(2)]) (rule L(2) [OF that(1)])
  have lv: "dir_live (iblk s' d) 0 = dir_live (iblk s2 d) 0" "dir_live (iblk s1 d) 0 = dir_live (iblk s d) 0"
    using ib [OF d] M(2) [OF d] by (auto intro: dir_live_cong)
  have "fs_ok s'" unfolding fs_ok_def
  proof (intro conjI allI impI)
    fix i k assume i: "i < 128" "i_type (inodes s' ! i) = SFS_TYPE_FREE"
    then have n: "i \<noteq> ni" using tyn tn(1) by auto
    then have "i \<noteq> d" using tys [OF n] i dt tn(2) by (auto simp: d_def)
    then show "fbyte s' i k = None" using f' [OF i(1)] fr [OF i(1)] i(2) tys [OF n] by simp
  next
    fix e assume e: "e < 128" "i_type (inodes s' ! e) = SFS_TYPE_DIR"
    show "dir_ok s' e"
    proof (cases "e = ni \<or> e = d")
      case True
      then show ?thesis using dir_ok_empty(1) [of s' ni] ni_empty R(3) dir_ok_cong [of s' d s2] ib [OF d] by auto
    next
      case False
      then have "dir_ok s e" using e dirs tys by simp
      moreover have "iblk s' e p = iblk s e p" if "p < 12" for p
        by (rule iblk_fbyte [OF o L(1) that]) (use f' [OF e(1)] False in simp)
      ultimately show ?thesis using dir_ok_cong [of s' e s] by simp
    qed
  qed (use L(1,3) D(2) in simp_all)
  moreover have "added s s' d 0 nm (of_nat ni) \<or> (live s' d = live s d \<and> (free_blks s = {} \<or> (\<forall>p < 12. iblk s d p \<noteq> None)))"
  proof (cases r)
    case True
    then show ?thesis using R(4) by (auto simp: added_def lv)
  next
    case False
    then have "dir_live (iblk s2 d) 0 = dir_live (iblk s1 d) 0" using R(4) by (intro dir_live_cong) simp
    then show ?thesis using R(4) False lv M(2) [OF d] M(5) by (simp add: live_def)
  qed
  moreover have "s_magic (sb s') = s_magic (sb s)" "root_inode (sb s') = root_inode (sb s)"
    using lc R(2) N(4) by (simp_all add: low_change_def dir_step_def meta_step_def alloc_marks_def)
  moreover have "card (free_blks s) \<le> Suc (card (free_blks s'))" "\<exists>q. \<forall>p < 12. p \<noteq> q \<longrightarrow> ptr s' d p = ptr s d p"
  proof -
    note F = dir_add_loop_free [OF M(1) \<open>marked s1 0\<close> d R(1)]
    from F show "card (free_blks s) \<le> Suc (card (free_blks s'))"
      using M(5) L(3) lc by (simp add: free_blks_def total_def low_change_def)
    from F obtain q where "\<forall>p < 12. p \<noteq> q \<longrightarrow> ptr s2 d p = ptr s1 d p" by blast
    then show "\<exists>q. \<forall>p < 12. p \<noteq> q \<longrightarrow> ptr s' d p = ptr s d p"
      using N(4) d by (intro exI [of _ q]) (simp add: ptr_def ieq meta_step_def)
  qed
  moreover have "inodes_dirty s2" using D(5) N(8) by (simp add: alloc_marks_def)
  moreover have "coherent s2" if c: "coherent s"
  proof -
    have dk: "media (dsk s2) (of_nat m) = media (dsk s) (of_nat m)" if "m < 63" for m
      using D(6) [OF that] N(4) by (simp add: meta_step_def)
    have b: "bmap s1 = bmap s" using N(4) by (simp add: meta_step_def)
    have "bitmap_dirty s2 \<or> bmap_saved s2"
      using D(5) c b N(9) saved_cong(3) [of 31 63 s2 s] dk by (auto simp: alloc_marks_def coherent_def)
    moreover have "sb_dirty s2" using D(5) N(7) by (auto simp: alloc_marks_def)
    ultimately show ?thesis using \<open>inodes_dirty s2\<close> by (simp add: coherent_def)
  qed
  ultimately show ?thesis using e lc L(1) D(1) N(1,2) nd cr by (intro exI [of _ s2] exI [of _ s']) (simp add: s'_def)
qed

end
