(* ===== verification/Fs_Create.thy ===== *)
theory Fs_Create
  imports Fs_Dirs
begin

text \<open>
  Creating and looking up: what \<open>bfs_finddir\<close> finds after \<open>bfs_create\<close> and \<open>bfs_mkdir\<close>, also after a
  reboot, and the entry that is lost when it would go into block 0.
\<close>

text \<open>The inode number the code finds under a name.\<close>

definition found :: "sfs \<Rightarrow> vnode \<Rightarrow> u8 list \<Rightarrow> u32 option" where
  "found s dir x = map_option v_inode (fst (bfs_finddir True dir x s))"

definition is_dir :: "sfs \<Rightarrow> vnode \<Rightarrow> bool" where
  "is_dir s v \<longleftrightarrow> valid_ino (v_inode v) \<and> i_type (inodes s ! unat (v_inode v)) = SFS_TYPE_DIR"

definition checked :: "u32 option \<Rightarrow> u32 option" where
  "checked r = (case r of Some ci \<Rightarrow> if valid_ino ci then Some ci else None | None \<Rightarrow> None)"

lemma found_eq:
  assumes "own s" and "is_dir s dir" and "cstr x \<noteq> []"
  shows "found s dir x = checked (map_of (live s (unat (v_inode dir))) (cstr x))"
proof -
  have d: "unat (v_inode dir) < 128" using assms(2) by (simp add: is_dir_def valid_ino_iff)
  from finddir_loop_spec [OF assms(1) d assms(3), of 0] obtain b' where
    "finddir_loop (inodes s ! unat (v_inode dir)) x 0 s = (map_of (live s (unat (v_inode dir))) (cstr x), s\<lparr>buf_find := b'\<rparr>)"
    by (auto simp: live_def)
  then show ?thesis
    using assms(2) by (auto simp: found_def bfs_finddir_def Let_def is_dir_def checked_def split: option.split)
qed

lemma finddir_node:
  assumes "own s" and "is_dir s dir" and "cstr x \<noteq> []" and "fst (bfs_finddir True dir x s) = Some n"
  shows "v_flags n = (if i_type (inodes s ! unat (v_inode n)) = SFS_TYPE_DIR then VFS_DIR else VFS_FILE)"
    "v_size n = i_size (inodes s ! unat (v_inode n))" "cstr (v_name n) = take 127 (cstr (i_name (inodes s ! unat (v_inode n))))"
proof -
  have d: "unat (v_inode dir) < 128" using assms(2) by (simp add: is_dir_def valid_ino_iff)
  from finddir_loop_spec [OF assms(1) d assms(3), of 0] obtain r b' where
    "finddir_loop (inodes s ! unat (v_inode dir)) x 0 s = (r, s\<lparr>buf_find := b'\<rparr>)" by auto
  then show "v_flags n = (if i_type (inodes s ! unat (v_inode n)) = SFS_TYPE_DIR then VFS_DIR else VFS_FILE)"
    "v_size n = i_size (inodes s ! unat (v_inode n))" "cstr (v_name n) = take 127 (cstr (i_name (inodes s ! unat (v_inode n))))"
    using assms(2,4) str_copy_props(2) [of 128 "replicate 128 0"]
    by (auto simp: bfs_finddir_def Let_def is_dir_def VFS_NAME_MAX_def split: option.splits if_splits)
qed

lemma map_of_insert:
  assumes "k \<notin> fst ` set (xs @ ys)"
  shows "map_of (xs @ (k, v) # ys) m = (if m = k then Some v else map_of (xs @ ys) m)"
proof -
  have "map_of xs k = None" using assms by (auto simp: map_of_eq_None_iff)
  then show ?thesis by (simp add: map_add_def split: option.split)
qed

lemma new_found:
  assumes "own s" and "own s'" and "is_dir s dir" and "is_dir s' dir" and "added s s' (unat (v_inode dir)) 0 nm (of_nat ni)"
    and "length (cstr nm) \<le> 55" and "cstr nm \<notin> fst ` set (live s (unat (v_inode dir)))" and "1 \<le> ni" and "ni < 128" and "cstr x \<noteq> []"
  shows "found s' dir x = (if cstr x = cstr nm then Some (of_nat ni) else found s dir x)"
proof -
  from assms(5,6) obtain xs ys where l: "live s (unat (v_inode dir)) = xs @ ys"
    "live s' (unat (v_inode dir)) = xs @ (cstr nm, of_nat ni) # ys" by (auto simp: added_def live_def)
  have v: "valid_ino (of_nat ni)" using assms(8,9) by (simp add: valid_ino_iff unat_of_nat_small)
  have "map_of (live s' (unat (v_inode dir))) (cstr x) =
      (if cstr x = cstr nm then Some (of_nat ni) else map_of (live s (unat (v_inode dir))) (cstr x))"
    using assms(7) unfolding l by (intro map_of_insert) simp
  then show ?thesis using v found_eq [OF assms(1,3,10)] found_eq [OF assms(2,4,10)] by (simp add: checked_def)
qed

lemma alloc_inode_some:
  assumes "own s" and "\<exists>i. 1 \<le> i \<and> i < 128 \<and> i_type (inodes s ! i) = SFS_TYPE_FREE"
  obtains ni s0 where "alloc_inode s = (Some ni, s0)"
  using alloc_inode_spec [OF assms(1)] assms(2) by blast

lemma created_is_dir:
  assumes "is_dir s dir" and "created s s' (unat (v_inode dir)) ni ty perm nm" and "ni \<noteq> unat (v_inode dir)"
  shows "is_dir s' dir"
proof -
  have "unat (v_inode dir) < 128" using assms(1) by (simp add: is_dir_def valid_ino_iff)
  then have "rest_of (inodes s' ! unat (v_inode dir)) = rest_of (inodes s ! unat (v_inode dir))"
    using assms(2,3) by (auto simp: created_def)
  then show ?thesis using assms(1) rest_of_simps unfolding is_dir_def by metis
qed

text \<open>
  C21. What is created is found, where there is room for it. In a consistent file system, so with block 0
  in use, with a free inode besides inode 0, a free block, and one of the directory's twelve block pointers
  unused, and for a name of 1 to 55 characters that the directory does not have, \<open>bfs_create\<close>
  succeeds, takes a free inode and makes it an empty file with the name
  given, and from then on \<open>bfs_finddir\<close> finds that inode under that name and under every other name
  what it found before; no other inode changes and no byte outside the directory. (Without that room
  the code reports success all the same; the first entry after a format goes to block 0 and is not
  found: lemma \<open>first_entry_lost\<close>.)
\<close>

theorem create_then_find:
  assumes "fs_ok s" and "is_dir s dir" and "cstr nm \<noteq> []" and "length (cstr nm) \<le> 55"
    and "cstr nm \<notin> fst ` set (live s (unat (v_inode dir)))"
    and "\<exists>i. 1 \<le> i \<and> i < 128 \<and> i_type (inodes s ! i) = SFS_TYPE_FREE"
    and "free_blks s \<noteq> {}" and "\<exists>p < 12. iblk s (unat (v_inode dir)) p = None"
  shows "\<exists>ni s'. bfs_create dir nm flags s = (True, s') \<and> fs_ok s' \<and> valid_ino (of_nat ni) \<and>
    created s s' (unat (v_inode dir)) ni SFS_TYPE_FILE 0x1A4 nm \<and>
    (\<forall>x. cstr x \<noteq> [] \<longrightarrow> found s' dir x = (if cstr x = cstr nm then Some (of_nat ni) else found s dir x))"
proof -
  let ?d = "unat (v_inode dir)"
  have o: "own s" using assms(1) by (simp add: fs_ok_def)
  have d: "valid_ino (v_inode dir)" "i_type (inodes s ! ?d) = SFS_TYPE_DIR" using assms(2) by (simp_all add: is_dir_def)
  obtain ni s0 where a: "alloc_inode s = (Some ni, s0)" by (rule alloc_inode_some [OF o assms(6)])
  from bfs_new_spec [OF assms(1) d a disjI1 [OF refl] refl, of "0x1A4" nm] obtain s' where N:
    "bfs_new SFS_TYPE_FILE 0x1A4 dir nm s = (True, s')" "own s'" "fs_ok s'" "1 \<le> ni" "ni < 128" "ni \<noteq> ?d"
    "created s s' ?d ni SFS_TYPE_FILE 0x1A4 nm"
    "added s s' ?d 0 nm (of_nat ni) \<or> free_blks s = {} \<or> (\<forall>p < 12. iblk s ?d p \<noteq> None)" by auto
  then have ad: "added s s' ?d 0 nm (of_nat ni)" using assms(7,8) by blast
  note F = new_found [OF o N(2) assms(2) created_is_dir [OF assms(2) N(7,6)] ad assms(4,5) N(4,5)]
  moreover have "valid_ino (of_nat ni)" using N(4,5) by (simp add: valid_ino_iff unat_of_nat_small)
  ultimately show ?thesis using N(1,3,7) unfolding bfs_create_def by blast
qed
lemma demo_types: "i < 128 \<Longrightarrow> i_type (inodes demo_rw ! i) = (if i = 1 then SFS_TYPE_DIR else if i = 2 then SFS_TYPE_FILE else SFS_TYPE_FREE)"
  by (simp add: demo_rw_def demo_inodes_def sfs_consts nth_list_update zero_inode_def fresh_root_def SFS_TYPE_FREE_def)

lemma demo_empty: "i < 128 \<Longrightarrow> fbyte demo_rw i k = None" "i < 128 \<Longrightarrow> live demo_rw i = []"
proof -
  show f: "fbyte demo_rw i k = None" if "i < 128" for k
    using demo_rw_own(4) [of i "k div 4096"] that by (auto simp: fbyte_def div_less_iff_less_mult)
  show "live demo_rw i = []" if "i < 128" by (rule dir_ok_empty(2)) (rule f [OF that])
qed

lemma demo_fs_whole: "fs_ok demo_rw" "is_dir demo_rw (node_of 1)" "\<exists>i. 1 \<le> i \<and> i < 128 \<and> i_type (inodes demo_rw ! i) = SFS_TYPE_FREE"
  "\<exists>p < 12. iblk demo_rw 1 p = None"
proof -
  show "fs_ok demo_rw" using demo_rw_own(1,2) demo_empty(1) dir_ok_empty(1) by (simp add: fs_ok_def)
  show "is_dir demo_rw (node_of 1)" by (simp add: is_dir_def node_of_def valid_ino_iff demo_types)
  show "\<exists>i. 1 \<le> i \<and> i < 128 \<and> i_type (inodes demo_rw ! i) = SFS_TYPE_FREE"
    by (rule exI [of _ 3]) (simp add: demo_types)
  have "ptr demo_rw 1 0 = 0" using demo_rw_own(4) [of 1 0] by simp
  then show "\<exists>p < 12. iblk demo_rw 1 p = None" by (intro exI [of _ 0]) (simp add: iblk_def)
qed

lemma create_then_find_witness:
  "\<exists>ni s'. bfs_create (node_of 1) [98] 0 demo_rw = (True, s') \<and> found s' (node_of 1) [98, 0] = Some (of_nat ni) \<and>
     found s' (node_of 1) [99] = found demo_rw (node_of 1) [99]"
proof -
  have d: "unat (v_inode (node_of 1)) = 1" by (simp add: node_of_def)
  have l: "cstr [98] \<notin> fst ` set (live demo_rw (unat (v_inode (node_of 1))))" using demo_empty(2) [of 1] by (simp add: d)
  have n: "cstr [98] \<noteq> []" "length (cstr [98]) \<le> 55" by simp_all
  from create_then_find [OF demo_fs_whole(1,2) n l demo_fs_whole(3) demo_rw_own(3), of 0] demo_fs_whole(4) show ?thesis
    by (force simp: d)
qed

text \<open>
  A directory outlives a reboot. After \<open>bfs_mkdir\<close> in a consistent file system whose memory
  and disk agree, mounting the disk from any other memory finds the new directory under its name,
  and it is an empty directory.
\<close>

theorem mkdir_survives_reboot:
  assumes "fs_ok s" and "coherent s" and "s_magic (sb s) = STACKFS_MAGIC" and "is_dir s dir" and "cstr nm \<noteq> []"
    and "length (cstr nm) \<le> 55" and "cstr nm \<notin> fst ` set (live s (unat (v_inode dir)))"
    and "\<exists>i. 1 \<le> i \<and> i < 128 \<and> i_type (inodes s ! i) = SFS_TYPE_FREE"
    and "free_blks s \<noteq> {}" and "\<exists>p < 12. iblk s (unat (v_inode dir)) p = None"
    and "mem_wf s0" and "dsk s0 = dsk (snd (bfs_mkdir dir nm s))"
    and "drop 448 (s_pad (sb s0)) = drop 448 (s_pad (sb (snd (bfs_mkdir dir nm s))))"
    and "length (buf_rw s0) = 4096" and "length (buf_dir s0) = 4096" and "length (buf_find s0) = 4096"
  shows "\<exists>root t new. stackfs_mount True junk s0 = (Some root, t) \<and> fst (bfs_finddir True dir nm t) = Some new \<and>
    v_flags new = VFS_DIR \<and> is_dir t new \<and> (\<forall>x. cstr x \<noteq> [] \<longrightarrow> found t new x = None)"
proof -
  let ?d = "unat (v_inode dir)"
  have o: "own s" using assms(1) by (simp add: fs_ok_def)
  have d: "valid_ino (v_inode dir)" "i_type (inodes s ! ?d) = SFS_TYPE_DIR" using assms(4) by (simp_all add: is_dir_def)
  obtain ni s1 where a: "alloc_inode s = (Some ni, s1)" by (rule alloc_inode_some [OF o assms(8)])
  from bfs_new_spec [OF assms(1) d a disjI2 [OF refl] refl, of "0x1ED" nm] obtain s2 s' where N:
    "bfs_new SFS_TYPE_DIR 0x1ED dir nm s = (True, s')" "s' = stackfs_sync s2" "coherent s \<longrightarrow> coherent s2" "own s2" "own s'"
    "s_magic (sb s') = s_magic (sb s)" "1 \<le> ni" "ni < 128" "ni \<noteq> ?d" "created s s' ?d ni SFS_TYPE_DIR 0x1ED nm"
    "added s s' ?d 0 nm (of_nat ni) \<or> free_blks s = {} \<or> (\<forall>p < 12. iblk s ?d p \<noteq> None)" by auto
  have ad: "added s s' ?d 0 nm (of_nat ni)" using N(11) assms(9,10) by blast
  have s0: "snd (bfs_mkdir dir nm s) = s'" using N(1) by (simp add: bfs_mkdir_def)
  have S: "disk_ok (dsk s')" "sb_saved s'" "inodes_saved s'" "bmap_saved s'"
    using sync_spec [OF ownD(1) [OF N(4)]] N(3) assms(2) ownD(2) [OF N(4)] unfolding N(2) by (simp_all add: Let_def geometry_def)
  have m: "s_magic (sb s') = STACKFS_MAGIC" using N(6) assms(3) by simp
  have "disk_ok (dsk s0)" using S(1) assms(12) s0 by simp
  from mount_spec [OF assms(11) this ownD(1) [OF N(5)] _ S(2-4) m, of junk] assms(12,13) s0 obtain root t where
    T: "stackfs_mount True junk s0 = (Some root, t)" "dsk t = dsk s'" "sb t = sb s'" "inodes t = inodes s'" "bmap t = bmap s'"
    "buf_rw t = buf_rw s0" "buf_dir t = buf_dir s0" "buf_find t = buf_find s0" by auto
  have O: "own t" "\<And>i k. fbyte t i k = fbyte s' i k" using mount_own [OF N(5) T(2-5)] T(6-8) assms(14-16) by simp_all
  have dd: "is_dir s' dir" by (rule created_is_dir [OF assms(4) N(10,9)])
  then have dt: "is_dir t dir" by (simp add: is_dir_def T(4))
  have F: "found t dir nm = Some (of_nat ni)"
    using new_found [OF o N(5) assms(4) dd ad assms(6,7) N(7,8) assms(5)] found_eq [OF N(5) dd assms(5)] found_eq [OF O(1) dt assms(5)]
      live_cong(1) [OF N(5) O] by simp
  have u: "unat (of_nat ni :: u32) = ni" using N(8) by (simp add: unat_of_nat_small)
  have ty: "i_type (inodes t ! ni) = SFS_TYPE_DIR" and e: "\<And>k. fbyte t ni k = None"
    using N(10) by (simp_all add: created_def T(4) O(2))
  from F obtain new where new: "fst (bfs_finddir True dir nm t) = Some new" "v_inode new = of_nat ni"
    unfolding found_def by auto
  have fl: "v_flags new = VFS_DIR" using finddir_node [OF O(1) dt assms(5) new(1)] ty u by (simp add: new(2))
  have isd: "is_dir t new" using N(7,8) ty u by (simp add: is_dir_def new(2) valid_ino_iff)
  have "found t new x = None" if "cstr x \<noteq> []" for x
    using found_eq [OF O(1) isd that] dir_ok_empty(2) [of t ni] e by (simp add: new(2) u checked_def)
  with T(1) new(1) fl isd show ?thesis by blast
qed

lemma mkdir_survives_reboot_witness:
  "\<exists>root t new s0. dsk s0 = dsk (snd (bfs_mkdir (node_of 1) [98] demo_rw)) \<and> inodes s0 = inodes demo_fs \<and>
     stackfs_mount True [] s0 = (Some root, t) \<and> fst (bfs_finddir True (node_of 1) [98] t) = Some new \<and> v_flags new = VFS_DIR"
proof -
  let ?s' = "snd (bfs_mkdir (node_of 1) [98] demo_rw)"
  have d: "unat (v_inode (node_of 1)) = 1" by (simp add: node_of_def)
  have l: "cstr [98] \<notin> fst ` set (live demo_rw (unat (v_inode (node_of 1))))" using demo_empty(2) [of 1] by (simp add: d)
  have n: "cstr [98] \<noteq> []" "length (cstr [98]) \<le> 55" by simp_all
  have c: "coherent demo_rw" "s_magic (sb demo_rw) = STACKFS_MAGIC"
    by (simp_all add: coherent_def demo_rw_def demo_fs_def)
  obtain ni s1 where a: "alloc_inode demo_rw = (Some ni, s1)" by (rule alloc_inode_some [OF demo_rw_own(1) demo_fs_whole(3)])
  have v: "valid_ino (v_inode (node_of 1))" "i_type (inodes demo_rw ! unat (v_inode (node_of 1))) = SFS_TYPE_DIR"
    using demo_fs_whole(2) by (simp_all add: is_dir_def)
  from bfs_new_spec [OF demo_fs_whole(1) v a disjI2 [OF refl] refl, of "0x1ED" "[98]"] have "own ?s'"
    by (auto simp: bfs_mkdir_def)
  then have "super_wf (sb ?s')" using ownD(1) by (simp add: mem_wf_def)
  then have wf: "mem_wf (demo_fs\<lparr>sb := sb ?s', dsk := dsk ?s'\<rparr>)" using demo_fs_ok(2) by (simp add: mem_wf_def)
  have p: "\<exists>p < 12. iblk demo_rw (unat (v_inode (node_of 1))) p = None" using demo_fs_whole(4) by (simp add: d)
  from mkdir_survives_reboot [OF demo_fs_whole(1) c demo_fs_whole(2) n l demo_fs_whole(3) demo_rw_own(3) p wf, of "[]"]
  obtain root t new where "stackfs_mount True [] (demo_fs\<lparr>sb := sb ?s', dsk := dsk ?s'\<rparr>) = (Some root, t)"
    "fst (bfs_finddir True (node_of 1) [98] t) = Some new" "v_flags new = VFS_DIR" by (auto simp: demo_fs_def)
  then show ?thesis
    by (intro exI [of _ root] exI [of _ t] exI [of _ new] exI [of _ "demo_fs\<lparr>sb := sb ?s', dsk := dsk ?s'\<rparr>"]) simp
qed

section \<open>Block 0\<close>

lemma ensure_block_zero:
  assumes o: "own s" and m: "\<not> marked s 0" and t: "0 < total s" and d: "d < 128" and p: "p < 12" and z: "ptr s d p = 0"
  shows "\<exists>s1. ensure_block d p s = (True, s1) \<and> own s1 \<and> marked s1 0 \<and> buf_rw s1 = replicate 4096 0 \<and> total s1 = total s \<and>
    (\<forall>i < 128. \<forall>q < 12. ptr s1 i q = ptr s i q) \<and> (\<forall>j. rest_of (inodes s1 ! j) = rest_of (inodes s ! j)) \<and>
    free_blks s1 = free_blks s - {0} \<and> bitmap_dirty s1 \<and> sb_dirty s1 \<and> inodes_dirty s1 = inodes_dirty s \<and>
    s_magic (sb s1) = s_magic (sb s) \<and> root_inode (sb s1) = root_inode (sb s)"
proof -
  have z0: "0 \<in> free_blks s" using m t by (simp add: free_blks_def)
  have ne: "free_blks s \<noteq> {}" using z0 by blast
  with bitmap_alloc_spec [OF o] obtain b s2 where s2: "bitmap_alloc s = (Some b, s2)" "inodes s2 = inodes s" "mem_wf s2"
    "\<And>c. c < 131072 \<Longrightarrow> marked s2 c \<longleftrightarrow> marked s c \<or> c = b" "free_blks s2 = free_blks s - {b}" "bitmap_dirty s2" "sb_dirty s2"
    "inodes_dirty s2 = inodes_dirty s" "s_magic (sb s2) = s_magic (sb s)" by auto
  have "Min (free_blks s) = 0" using z0 by (intro Min_eqI) simp_all
  then have "b = 0" using bitmap_alloc_search [OF ownD(2) [OF o]] s2(1) ne by (simp add: bitmap_alloc_def)
  then have e: "ensure_block d p s = (True, (set_ptr d p 0 s2)\<lparr>buf_rw := replicate STACKFS_BLOCK_SIZE 0\<rparr>)"
    using z s2(1) by (simp add: ensure_block_def)
  define s1 where "s1 = (set_ptr d p 0 s2)\<lparr>buf_rw := replicate STACKFS_BLOCK_SIZE 0\<rparr>"
  have e1: "ensure_block d p s = (True, s1)" using e by (simp add: s1_def)
  have S: "own s1" "total s1 = total s" "buf_rw s1 = replicate 4096 0" "\<forall>j. rest_of (inodes s1 ! j) = rest_of (inodes s ! j)"
    using ensure_block_spec [OF o d p] ne z unfolding e1 by (simp_all split: if_splits)
  have "ptr s1 i q = ptr s i q" if "i < 128" "q < 12" for i q
    using set_ptr_ptr [OF s2(3) d p that, of 0] s2(2) z by (auto simp: s1_def ptr_def split: if_splits)
  moreover have "marked s1 0" using s2(4) [of 0] \<open>b = 0\<close> by (simp add: s1_def marked_def)
  moreover have "root_inode (sb s1) = root_inode (sb s)" using ensure_block_marks [OF e1] by (simp add: alloc_marks_def)
  moreover have "free_blks s1 = free_blks s - {0}" using s2(5) \<open>b = 0\<close>
    by (simp add: s1_def set_ptr_def upd_inode_def free_blks_def total_def marked_def)
  moreover have "bitmap_dirty s1" "sb_dirty s1" "inodes_dirty s1 = inodes_dirty s" "s_magic (sb s1) = s_magic (sb s)"
    using s2(6-9) by (simp_all add: s1_def set_ptr_def upd_inode_def)
  ultimately show ?thesis using e1 S by (intro exI [of _ s1]) simp
qed

text \<open>A new file or directory whose entry would go into block 0, and what is left of it.\<close>

lemma first_new_lost:
  assumes "own s" and "is_dir s dir" and "\<not> marked s 0" and "0 < total s" and "\<forall>p < 12. ptr s (unat (v_inode dir)) p = 0"
    and "\<exists>i. 1 \<le> i \<and> i < 128 \<and> i_type (inodes s ! i) = SFS_TYPE_FREE" and ty: "ty = SFS_TYPE_FILE \<or> ty = SFS_TYPE_DIR"
  obtains ni s' where "bfs_new ty perm dir nm s = (True, s')" "own s'" "marked s' 0" "disk_ok (dsk s')" "sb_saved s'" "inodes_saved s'" "bmap_saved s'"
    "s_magic (sb s') = s_magic (sb s)" "root_inode (sb s') = root_inode (sb s)" "\<forall>i < 128. \<forall>q < 12. ptr s' i q = ptr s i q"
    "free_blks s' = free_blks s - {0}" "1 \<le> ni" "ni < 128" "i_type (inodes s ! ni) = SFS_TYPE_FREE" "i_type (inodes s' ! ni) = ty"
    "\<forall>j. j \<noteq> ni \<longrightarrow> rest_of (inodes s' ! j) = rest_of (inodes s ! j)"
proof -
  define d where "d = unat (v_inode dir)"
  note o = assms(1)
  have d: "d < 128" and dt: "i_type (inodes s ! d) = SFS_TYPE_DIR" using assms(2) by (simp_all add: is_dir_def valid_ino_iff d_def)
  obtain ni s0 where a: "alloc_inode s = (Some ni, s0)" by (rule alloc_inode_some [OF o assms(6)])
  have tn: "ty \<noteq> SFS_TYPE_FREE" "SFS_TYPE_DIR \<noteq> SFS_TYPE_FREE"
    using ty by (auto simp: SFS_TYPE_FREE_def SFS_TYPE_FILE_def SFS_TYPE_DIR_def)
  define s1 where "s1 = (upd_inode ni (born ty perm nm) s0)\<lparr>inodes_dirty := True\<rparr>"
  have N: "1 \<le> ni" "ni < 128" "i_type (inodes s ! ni) = SFS_TYPE_FREE" "meta_step s s1" "inodes s1 ! ni = born ty perm nm (inodes s ! ni)"
    "\<And>j. j \<noteq> ni \<Longrightarrow> inodes s1 ! j = inodes s ! j" "inodes_dirty s1"
    using new_inode [OF o a tn(1), of perm nm] unfolding s1_def [symmetric] by blast+
  note M = meta_step_own [OF o N(4)]
  have t1: "total s1 = total s" using N(4) by (simp add: meta_step_def total_def)
  have p1: "ptr s1 i p = ptr s i p" if "i < 128" for i p using N(4) that by (simp add: meta_step_def ptr_def)
  let ?f = "flagged s1 d 0"
  have fl: "own ?f" "\<not> marked ?f 0" "0 < total ?f" "ptr ?f d 0 = 0" "inodes_dirty ?f"
    using M(1,4) assms(3-5) t1 p1 [OF d] N(7) by (simp_all add: d_def flagged_def)
  from ensure_block_zero [OF fl(1-3) d _ fl(4)] obtain s2 where s2: "ensure_block d 0 ?f = (True, s2)" "own s2" "marked s2 0"
    "buf_rw s2 = replicate 4096 0" "total s2 = total s" "\<And>i q. i < 128 \<Longrightarrow> q < 12 \<Longrightarrow> ptr s2 i q = ptr s i q"
    "\<And>j. rest_of (inodes s2 ! j) = rest_of (inodes s1 ! j)" "free_blks s2 = free_blks s - {0}" "bitmap_dirty s2" "sb_dirty s2" "inodes_dirty s2"
    "s_magic (sb s2) = s_magic (sb s)" "root_inode (sb s2) = root_inode (sb s)"
    using t1 p1 M(5) N(4) fl(5) by (auto simp: meta_step_def flagged_def)
  let ?e = "put_ent (buf_rw s2) 0 (of_nat ni) nm"
  have le: "length ?e = 4096" using put_ent_eq [of "replicate 4096 0" 0 "of_nat ni" nm] by (simp add: s2(4) put_bytes_length)
  obtain r dk where w: "write_block 0 ?e (s2\<lparr>buf_rw := ?e\<rparr>) = (r, s2\<lparr>buf_rw := ?e, dsk := dk\<rparr>)" "geometry (s2\<lparr>buf_rw := ?e, dsk := dk\<rparr>)"
    using write_block_frame [of "s2\<lparr>buf_rw := ?e\<rparr>" 0 ?e] ownD(2) [OF own_buf [OF s2(2) le]] le s2(5) assms(4)
    by (auto simp: total_def)
  define s3 where "s3 = s2\<lparr>buf_rw := ?e, dsk := dk\<rparr>"
  have o3: "own s3"
    by (rule own_cong [OF s2(2)]) (use w(2) le ownD(4,5) [OF s2(2)] in \<open>simp_all add: s3_def\<close>)
  have "0 \<in> free_blks s1" using M(4) t1 assms(3,4) by (simp add: free_blks_def)
  moreover have "ptr s d 0 = 0" using assms(5) by (simp add: d_def)
  ultimately have "dir_add_loop d (of_nat ni) nm 0 s1 = (True, s3)"
    using named_fresh(3) s2(4) s2(6) [OF d, of 0] by (subst dir_add_loop_rec [OF M(1)]) (auto simp: s2(1) p1 [OF d] w [unfolded s2(4)] s3_def)
  then have e: "bfs_new ty perm dir nm s = (True, stackfs_sync s3)"
    using a by (simp add: bfs_new_def dir_add_entry_def born_def [abs_def] s1_def d_def Let_def)
  have lc: "low_change s3 (stackfs_sync s3)" by (rule sync_low [OF ownD(1) [OF o3]])
  note L = low_change_own [OF o3 lc]
  have eq: "inodes (stackfs_sync s3) = inodes s2" "sb (stackfs_sync s3) = sb s2" using lc by (simp_all add: low_change_def s3_def)
  have "coherent s3" using s2(9-11) by (simp add: s3_def coherent_def)
  then have S: "disk_ok (dsk (stackfs_sync s3))" "sb_saved (stackfs_sync s3)" "inodes_saved (stackfs_sync s3)" "bmap_saved (stackfs_sync s3)"
    using sync_spec [OF ownD(1) [OF o3]] ownD(2) [OF o3] by (simp_all add: Let_def geometry_def)
  have mk: "marked (stackfs_sync s3) b = marked s2 b" for b using L(3) [of b] marked_cong [of s3 s2 b] by (simp add: s3_def)
  have fb: "free_blks (stackfs_sync s3) = free_blks s - {0}" using s2(8) by (simp add: free_blks_def mk total_def eq)
  have tyn: "i_type (inodes s2 ! ni) = ty" using rest_of_simps [OF s2(7) [of ni]] N(5) by (simp add: born_def)
  have rest: "\<forall>j. j \<noteq> ni \<longrightarrow> rest_of (inodes (stackfs_sync s3) ! j) = rest_of (inodes s ! j)" using s2(7) N(6) by (simp add: eq)
  have ptrs: "\<forall>i < 128. \<forall>q < 12. ptr (stackfs_sync s3) i q = ptr s i q" using s2(6) by (simp add: ptr_def eq)
  show thesis
    using that [OF e L(1) _ S _ _ ptrs fb N(1-3) _ rest] s2(3,12,13) tyn mk by (simp add: eq)
qed

text \<open>
  The first entry of a fresh disk is lost. \<open>bitmap_alloc\<close> gives out block 0 first, and a block
  pointer of 0 means \<open>no block\<close>: in a consistent file system whose block 0 is still free, creating an
  entry in an empty directory reports success and takes an inode and the block, but afterwards the
  directory is empty as before and no name is found in it.
\<close>

theorem first_entry_lost:
  assumes "own s" and "is_dir s dir" and "\<not> marked s 0" and "0 < total s" and "\<forall>p < 12. ptr s (unat (v_inode dir)) p = 0"
    and "\<exists>i. 1 \<le> i \<and> i < 128 \<and> i_type (inodes s ! i) = SFS_TYPE_FREE" and "cstr x \<noteq> []"
  shows "fst (bfs_create dir nm flags s) \<and> found (snd (bfs_create dir nm flags s)) dir x = None \<and>
    marked (snd (bfs_create dir nm flags s)) 0"
proof -
  let ?d = "unat (v_inode dir)"
  have d: "?d < 128" "i_type (inodes s ! ?d) = SFS_TYPE_DIR" using assms(2) by (simp_all add: is_dir_def valid_ino_iff)
  obtain ni s' where N: "bfs_new SFS_TYPE_FILE 0x1A4 dir nm s = (True, s')" "own s'" "marked s' 0" "\<forall>i < 128. \<forall>q < 12. ptr s' i q = ptr s i q"
    "i_type (inodes s ! ni) = SFS_TYPE_FREE" "\<forall>j. j \<noteq> ni \<longrightarrow> rest_of (inodes s' ! j) = rest_of (inodes s ! j)"
    by (rule first_new_lost [OF assms(1-6), of SFS_TYPE_FILE "0x1A4" nm]) simp_all
  have "?d \<noteq> ni" using N(5) d(2) by (auto simp: SFS_TYPE_FREE_def SFS_TYPE_DIR_def)
  then have "rest_of (inodes s' ! ?d) = rest_of (inodes s ! ?d)" using N(6) by blast
  then have "is_dir s' dir" using assms(2) rest_of_simps unfolding is_dir_def by metis
  moreover have "ptr s' ?d 0 = 0" using N(4) assms(5) d(1) by simp
  then have "live s' ?d = []" by (simp add: live_def dir_live_none iblk_def)
  ultimately have "found s' dir x = None" using found_eq [OF N(2) _ assms(7)] by (simp add: checked_def)
  with N(1,3) show ?thesis by (simp add: bfs_create_def)
qed

lemma first_entry_lost_witness:
  "fst (bfs_create (node_of 1) [98] 0 (demo_rw\<lparr>bmap := replicate 16384 0, sb := sb demo_fs\<rparr>)) \<and>
   found (snd (bfs_create (node_of 1) [98] 0 (demo_rw\<lparr>bmap := replicate 16384 0, sb := sb demo_fs\<rparr>))) (node_of 1) [98] = None"
proof -
  let ?s = "demo_rw\<lparr>bmap := replicate 16384 0, sb := sb demo_fs\<rparr>"
  have p: "ptr ?s i q = 0" if "i < 128" "q < 12" for i q
    using demo_rw_own(4) [of i q] that by (simp add: ptr_def)
  have t: "total ?s = 16376" by (simp add: total_def demo_fs_def)
  have m: "\<not> marked ?s b" if "b < 131072" for b
    using that by (simp add: marked_def div_less_iff_less_mult)
  have f: "free_blks ?s = {..<16376}" using m by (auto simp: free_blks_def t)
  have w: "mem_wf ?s" using ownD(1) [OF demo_rw_own(1)] demo_fs_ok(2) by (simp add: mem_wf_def BITMAP_BYTES_def sfs_consts)
  have g: "geometry ?s" using ownD(2) [OF demo_rw_own(1)] t by (simp add: geometry_def total_def demo_rw_def demo_fs_def)
  have o: "own ?s" unfolding own_def using w g f p ownD(3-5) [OF demo_rw_own(1)] by (simp add: demo_fs_def)
  have v: "is_dir ?s (node_of 1)" using demo_fs_whole(2) by (simp add: is_dir_def)
  have d: "unat (v_inode (node_of 1)) = 1" by (simp add: node_of_def)
  have z: "\<forall>q < 12. ptr ?s (unat (v_inode (node_of 1))) q = 0" using p [of 1] by (simp add: d)
  have i: "\<exists>i. 1 \<le> i \<and> i < 128 \<and> i_type (inodes ?s ! i) = SFS_TYPE_FREE" using demo_fs_whole(3) by simp
  have t0: "0 < total ?s" using t by simp
  show ?thesis using first_entry_lost [OF o v m t0 z i, of "[98]" "[98]" 0] by simp
qed

end
