(* ===== verification/Fs_Initrd.thy ===== *)
theory Fs_Initrd
  imports Fs_Vnode
begin

text \<open>
  The read-only file system built at boot, \<^verbatim>\<open>kernel/fs/initrd.c\<close>: the pools of nodes and directories,
  whose pointers are the indices of their elements, the operations of its files and directories,
  and the tree \<^verbatim>\<open>initrd_init\<close> builds. Using a NULL node or an index outside an array gives an error.
\<close>

datatype initrd_error = Null_node | Out_of_bounds

datatype fs_data = No_data | File_data "u8 list" | Dir_data nat

record initrd_node = vnode +
  fs_data :: fs_data

record dir_data =
  children :: "nat option list"
  count :: nat

definition NODE_POOL_SIZE :: nat where "NODE_POOL_SIZE = 64"
definition MAX_CHILDREN :: nat where "MAX_CHILDREN = 16"

record initrd =
  node_pool :: "initrd_node list"
  node_pool_idx :: nat
  dir_data_pool :: "dir_data list"
  dir_data_idx :: nat
  inode_counter :: u32

definition content_hostname :: "u8 list" where
  "content_hostname = lit ''stackos'' @ [10]"

definition content_motd :: "u8 list" where
  "content_motd = lit ''Welcome to StackOS!'' @ [10] @ lit ''A hand-crafted OS built from scratch.'' @ [10] @
     lit ''Type '' @ [39] @ lit ''help'' @ [39] @ lit '' in the shell for available commands.'' @ [10]"

text \<open>The dash of the source is the three bytes of U+2014.\<close>

definition content_readme :: "u8 list" where
  "content_readme = lit ''StackOS v0.2.0-alpha'' @ [10] @ lit ''========================'' @ [10] @
     lit ''This is the initrd root filesystem.'' @ [10, 10] @ lit ''Directories:'' @ [10] @
     lit ''  /etc   '' @ [0xE2, 0x80, 0x94] @ lit '' system configuration'' @ [10] @
     lit ''  /bin   '' @ [0xE2, 0x80, 0x94] @ lit '' user programs (coming soon)'' @ [10, 10] @
     lit ''Built with love and assembly.'' @ [10]"

section \<open>Pools\<close>

definition zero_node :: initrd_node where
  "zero_node = \<lparr>v_name = replicate VFS_NAME_MAX 0, v_flags = 0, v_inode = 0, v_size = 0, v_ops = Ops_initrd_file,
     fs_data = No_data\<rparr>"

definition alloc_node :: "initrd \<Rightarrow> nat option \<times> initrd" where
  "alloc_node s =
     (if NODE_POOL_SIZE \<le> node_pool_idx s then (None, s)
      else (let n = node_pool_idx s
            in (Some n, s\<lparr>node_pool_idx := n + 1, node_pool := (node_pool s)[n := zero_node]\<rparr>)))"

definition alloc_dir_data :: "initrd \<Rightarrow> nat option \<times> initrd" where
  "alloc_dir_data s =
     (if 16 \<le> dir_data_idx s then (None, s)
      else (let d = dir_data_idx s
            in (Some d, s\<lparr>dir_data_idx := d + 1,
                  dir_data_pool := (dir_data_pool s)[d := \<lparr>children = replicate MAX_CHILDREN None, count = 0\<rparr>]\<rparr>)))"

section \<open>Operations\<close>

definition initrd_read :: "initrd_node \<Rightarrow> u32 \<Rightarrow> u32 \<Rightarrow> u8 list \<Rightarrow> u32 \<times> u8 list" where
  "initrd_read node offset sz buf =
     (case fs_data node of
        File_data data \<Rightarrow>
          if v_size node \<le> offset then (0, buf)
          else (let avail = v_size node - offset; sz = (if avail < sz then avail else sz)
                in (sz, for_loop 0 (unat sz) (\<lambda>i buf. buf[i := data ! unat (offset + of_nat i)]) buf))
      | _ \<Rightarrow> (0, buf))"

definition initrd_write :: "initrd_node \<Rightarrow> u32 \<Rightarrow> u32 \<Rightarrow> u8 list \<Rightarrow> u32" where
  "initrd_write node offset sz buf = - 1"

definition initrd_readdir :: "initrd \<Rightarrow> initrd_node \<Rightarrow> u32 \<Rightarrow> initrd_error + dirent option" where
  "initrd_readdir s node idx =
     (case fs_data node of
        Dir_data d \<Rightarrow>
          (let dd = dir_data_pool s ! d
           in if int (count dd) \<le> sint idx then Inr None
              else if sint idx < 0 then Inl Out_of_bounds
              else (case children dd ! unat idx of
                      None \<Rightarrow> Inl Null_node
                    | Some c \<Rightarrow>
                        Inr (Some \<lparr>de_name = str_copy (replicate VFS_NAME_MAX 0) (v_name (node_pool s ! c)) VFS_NAME_MAX,
                                   de_inode = v_inode (node_pool s ! c)\<rparr>)))
      | _ \<Rightarrow> Inr None)"

definition child_named :: "initrd \<Rightarrow> dir_data \<Rightarrow> u8 list \<Rightarrow> nat \<Rightarrow> bool" where
  "child_named s dd name i \<longleftrightarrow> (case children dd ! i of Some c \<Rightarrow> str_eq (v_name (node_pool s ! c)) name | None \<Rightarrow> False)"

definition initrd_finddir :: "initrd \<Rightarrow> initrd_node \<Rightarrow> u8 list \<Rightarrow> nat option" where
  "initrd_finddir s node name =
     (case fs_data node of
        Dir_data d \<Rightarrow>
          (let dd = dir_data_pool s ! d
           in Option.bind (first_from (child_named s dd name) 0 (count dd)) (\<lambda>i. children dd ! i))
      | _ \<Rightarrow> None)"

section \<open>Building the tree\<close>

definition make_file :: "u8 list \<Rightarrow> u8 list \<Rightarrow> u32 \<Rightarrow> initrd \<Rightarrow> nat option \<times> initrd" where
  "make_file name data sz s =
     (case alloc_node s of
        (None, s) \<Rightarrow> (None, s)
      | (Some n, s) \<Rightarrow>
          (Some n, s\<lparr>node_pool := (node_pool s)[n := (node_pool s ! n)
             \<lparr>v_name := str_copy (v_name (node_pool s ! n)) name VFS_NAME_MAX, v_flags := VFS_FILE, v_inode := inode_counter s,
              v_size := sz, v_ops := Ops_initrd_file, fs_data := File_data data\<rparr>],
             inode_counter := inode_counter s + 1\<rparr>))"

definition make_dir :: "u8 list \<Rightarrow> initrd \<Rightarrow> nat option \<times> initrd" where
  "make_dir name s =
     (let (n, s) = alloc_node s; (d, s) = alloc_dir_data s
      in case (n, d) of
        (Some n, Some d) \<Rightarrow>
          (Some n, s\<lparr>node_pool := (node_pool s)[n := (node_pool s ! n)
             \<lparr>v_name := str_copy (v_name (node_pool s ! n)) name VFS_NAME_MAX, v_flags := VFS_DIR, v_inode := inode_counter s,
              v_size := 0, v_ops := Ops_initrd_dir, fs_data := Dir_data d\<rparr>],
             inode_counter := inode_counter s + 1\<rparr>)
      | _ \<Rightarrow> (None, s))"

definition dir_add :: "nat option \<Rightarrow> nat option \<Rightarrow> initrd \<Rightarrow> initrd_error + initrd" where
  "dir_add dir child s =
     (case dir of
        None \<Rightarrow> Inl Null_node
      | Some n \<Rightarrow>
          (case fs_data (node_pool s ! n) of
             Dir_data d \<Rightarrow>
               (let dd = dir_data_pool s ! d
                in if MAX_CHILDREN \<le> count dd then Inr s
                   else Inr (s\<lparr>dir_data_pool := (dir_data_pool s)[d :=
                     dd\<lparr>children := (children dd)[count dd := child], count := count dd + 1\<rparr>]\<rparr>))
           | _ \<Rightarrow> Inr s))"

definition and_then :: "initrd_error + initrd \<Rightarrow> (initrd \<Rightarrow> initrd_error + 'b) \<Rightarrow> initrd_error + 'b" where
  "and_then r f = (case r of Inl e \<Rightarrow> Inl e | Inr s \<Rightarrow> f s)"

text \<open>The tree; the mount at \<^verbatim>\<open>/\<close> is done by the caller in \<^verbatim>\<open>Fs_Vfs\<close>, with the root node returned here.\<close>

definition initrd_build :: "initrd \<Rightarrow> initrd_error + (nat option \<times> initrd)" where
  "initrd_build s =
     (let (root, s) = make_dir (lit ''/'') s;
          (etc, s) = make_dir (lit ''etc'') s;
          (hostname, s) = make_file (lit ''hostname'') content_hostname (of_nat (length content_hostname)) s;
          (motd, s) = make_file (lit ''motd'') content_motd (of_nat (length content_motd)) s
      in and_then (dir_add etc hostname s) (\<lambda>s. and_then (dir_add etc motd s) (\<lambda>s. and_then (dir_add root etc s) (\<lambda>s.
         (let (bin, s) = make_dir (lit ''bin'') s
          in and_then (dir_add root bin s) (\<lambda>s.
             (let (readme, s) = make_file (lit ''README'') content_readme (of_nat (length content_readme)) s
              in and_then (dir_add root readme s) (\<lambda>s. Inr (root, s)))))))))"

text \<open>The static data as the loader leaves it.\<close>

definition initrd_static :: initrd where
  "initrd_static = \<lparr>node_pool = replicate NODE_POOL_SIZE zero_node, node_pool_idx = 0,
     dir_data_pool = replicate 16 \<lparr>children = replicate MAX_CHILDREN None, count = 0\<rparr>, dir_data_idx = 0, inode_counter = 1\<rparr>"

section \<open>The tree that is built\<close>

definition padded :: "string \<Rightarrow> u8 list" where
  "padded name = str_copy (replicate VFS_NAME_MAX 0) (lit name) VFS_NAME_MAX"

definition dir_node :: "string \<Rightarrow> u32 \<Rightarrow> nat \<Rightarrow> initrd_node" where
  "dir_node name ino d = \<lparr>v_name = padded name, v_flags = VFS_DIR, v_inode = ino, v_size = 0, v_ops = Ops_initrd_dir, fs_data = Dir_data d\<rparr>"

definition file_node :: "string \<Rightarrow> u32 \<Rightarrow> u8 list \<Rightarrow> initrd_node" where
  "file_node name ino c =
     \<lparr>v_name = padded name, v_flags = VFS_FILE, v_inode = ino, v_size = of_nat (length c), v_ops = Ops_initrd_file, fs_data = File_data c\<rparr>"

definition dir_of :: "nat list \<Rightarrow> dir_data" where
  "dir_of cs = \<lparr>children = map Some cs @ replicate (MAX_CHILDREN - length cs) None, count = length cs\<rparr>"

definition initrd_ready :: initrd where
  "initrd_ready =
     \<lparr>node_pool = [dir_node ''/'' 1 0, dir_node ''etc'' 2 1, file_node ''hostname'' 3 content_hostname,
        file_node ''motd'' 4 content_motd, dir_node ''bin'' 5 2, file_node ''README'' 6 content_readme] @ replicate 58 zero_node,
      node_pool_idx = 6,
      dir_data_pool = [dir_of [1, 4, 5], dir_of [2, 3], dir_of []] @ replicate 13 (dir_of []),
      dir_data_idx = 3, inode_counter = 7\<rparr>"

lemma replicate_peel: "0 < n \<Longrightarrow> replicate n x = x # replicate (n - 1) x"
  by (cases n) simp_all

lemma initrd_built: "initrd_build initrd_static = Inr (Some 0, initrd_ready)"
  by (simp add: initrd_build_def initrd_static_def make_dir_def make_file_def alloc_node_def alloc_dir_data_def dir_add_def
      and_then_def NODE_POOL_SIZE_def MAX_CHILDREN_def zero_node_def initrd_ready_def dir_node_def file_node_def dir_of_def
      padded_def Let_def replicate_peel)

lemma initrd_read_spec:
  assumes "fs_data node = File_data data" and "length data = unat (v_size node)" and "offset < v_size node"
    and "n \<le> v_size node - offset" and "unat n \<le> length buf"
  shows "initrd_read node offset n buf = (n, take (unat n) (drop (unat offset) data) @ drop (unat n) buf)"
proof -
  have w: "unat (offset + of_nat i) = unat offset + i" if "i < unat n" for i
  proof -
    have "unat n \<le> unat (v_size node) - unat offset"
      using assms(3,4) by (simp add: word_le_nat_alt word_less_nat_alt unat_sub_no_wrap)
    moreover have "unat offset < unat (v_size node)" using assms(3) by (simp add: word_less_nat_alt)
    ultimately have "unat offset + i < 4294967296" using that u32_lt [of "v_size node"] by linarith
    then show ?thesis using that by (subst unat_add_no_wrap) (simp_all add: unat_of_nat_small)
  qed
  have sz: "unat offset + unat n \<le> length data"
    using assms(2-4) by (simp add: word_le_nat_alt word_less_nat_alt unat_sub_no_wrap)
  define f where "f = (\<lambda>i buf. buf[i := data ! unat (offset + of_nat i)])"
  have "m \<le> unat n \<Longrightarrow> for_loop 0 m f buf = take m (drop (unat offset) data) @ drop m buf" for m
  proof (induction m)
    case 0
    then show ?case by simp
  next
    case (Suc m)
    then have "for_loop 0 (Suc m) f buf = f m (take m (drop (unat offset) data) @ drop m buf)"
      by (simp add: for_loop_Suc)
    also have "\<dots> = take (Suc m) (drop (unat offset) data) @ drop (Suc m) buf"
      using Suc.prems sz assms(5) w [of m]
      by (simp add: f_def list_update_append take_Suc_conv_app_nth del: take_Suc_Cons)
        (simp add: Cons_nth_drop_Suc [of m buf, symmetric])
    finally show ?case .
  qed
  moreover have "\<not> v_size node \<le> offset" "\<not> v_size node - offset < n" using assms(3,4) by (simp_all add: not_le not_less)
  ultimately show ?thesis using assms(1) by (simp add: initrd_read_def f_def Let_def)
qed

end
