(* ===== verification/Fs_Vfs.thy ===== *)
theory Fs_Vfs
  imports Fs_Persist Fs_Initrd
begin

text \<open>
  The virtual file system, \<^verbatim>\<open>kernel/fs/vfs.c\<close>, over the two file systems of the kernel. A node pointer
  is an element of the initrd's static pool or a block of the kernel heap; the heap is the map of
  its live nodes, and using a pointer to a freed node is an error (\<open>None\<close>). Whether an allocation
  succeeds is an arbitrary function of the allocations and frees before it. A dispatch through
  \<^verbatim>\<open>ops\<close> selects the operations of the file system the node belongs to.
\<close>

datatype nref = Pool nat | Kmem nat

definition MAX_MOUNTS :: nat where "MAX_MOUNTS = 16"

record mount_entry =
  m_path :: "u8 list"
  m_node :: nref
  m_used :: bool

record vfs =
  mounts :: "mount_entry list"
  fs_root :: "nref option"
  knodes :: "nat \<Rightarrow> vnode option"
  knext :: nat
  kgrant :: "nat \<Rightarrow> nat \<Rightarrow> bool"
  kfreed :: "nref list"
  ird :: initrd
  sfs_st :: sfs
  vout :: "u8 list"

section \<open>Nodes\<close>

definition node_at :: "vfs \<Rightarrow> nref \<Rightarrow> vnode option" where
  "node_at k r = (case r of Pool i \<Rightarrow> Some (vnode.truncate (node_pool (ird k) ! i)) | Kmem a \<Rightarrow> knodes k a)"

definition room :: "vfs \<Rightarrow> bool" where
  "room k = kgrant k (knext k) (length (kfreed k))"

text \<open>A node the file system made, stored in the block it was given.\<close>

definition new_node :: "vnode option \<times> sfs \<Rightarrow> vfs \<Rightarrow> nref option \<times> vfs" where
  "new_node r k =
     (case r of
        (None, s) \<Rightarrow> (None, k\<lparr>sfs_st := s\<rparr>)
      | (Some v, s) \<Rightarrow> (Some (Kmem (knext k)), k\<lparr>sfs_st := s, knodes := (knodes k)(knext k \<mapsto> v), knext := knext k + 1\<rparr>))"

text \<open>\<^verbatim>\<open>kfree\<close> of a node; it does nothing to memory that is not the heap's.\<close>

definition kfree_node :: "nref \<Rightarrow> vfs \<Rightarrow> vfs" where
  "kfree_node r k =
     k\<lparr>kfreed := r # kfreed k, knodes := (case r of Pool _ \<Rightarrow> knodes k | Kmem a \<Rightarrow> (knodes k)(a := None))\<rparr>"

definition vprint :: "u8 list \<Rightarrow> vfs \<Rightarrow> vfs" where
  "vprint m k = k\<lparr>vout := vout k @ m\<rparr>"

section \<open>Mounts\<close>

definition vfs_init :: "vfs \<Rightarrow> vfs" where
  "vfs_init k =
     vprint (lit ''[vfs] initialised'' @ [10])
       (for_loop 0 MAX_MOUNTS (\<lambda>i k. k\<lparr>mounts := (mounts k)[i := (mounts k ! i)\<lparr>m_used := False\<rparr>]\<rparr>) k)"

definition vfs_mount :: "u8 list \<Rightarrow> nref \<Rightarrow> vfs \<Rightarrow> bool \<times> vfs" where
  "vfs_mount path node k =
     (case first_from (\<lambda>i. \<not> m_used (mounts k ! i)) 0 MAX_MOUNTS of
        Some i \<Rightarrow>
          (let m = mounts k ! i;
               k = k\<lparr>mounts := (mounts k)[i := m\<lparr>m_path := str_copy (m_path m) path VFS_PATH_MAX, m_node := node, m_used := True\<rparr>]\<rparr>;
               k = (if str_cmp path (lit ''/'') = 0 then k\<lparr>fs_root := Some node\<rparr> else k)
           in (True, vprint (lit ''[vfs] mounted '' @ [39] @ (case node_at k node of Some v \<Rightarrow> cstr (v_name v) | None \<Rightarrow> []) @ [39] @
                 lit '' at '' @ cstr path @ [10]) k))
      | None \<Rightarrow> (False, k))"

definition vfs_root :: "vfs \<Rightarrow> nref option" where "vfs_root k = fs_root k"

definition vfs_node_is_mount_root :: "nref option \<Rightarrow> vfs \<Rightarrow> bool" where
  "vfs_node_is_mount_root node k =
     (case node of None \<Rightarrow> False
      | Some r \<Rightarrow> first_from (\<lambda>i. m_used (mounts k ! i) \<and> m_node (mounts k ! i) = r) 0 MAX_MOUNTS \<noteq> None)"

definition mount_lookup :: "u8 list \<Rightarrow> vfs \<Rightarrow> nref option" where
  "mount_lookup path k =
     map_option (\<lambda>i. m_node (mounts k ! i))
       (first_from (\<lambda>i. m_used (mounts k ! i) \<and> str_cmp (m_path (mounts k ! i)) path = 0) 0 MAX_MOUNTS)"

section \<open>Dispatch\<close>

definition vfs_finddir :: "nref option \<Rightarrow> u8 list \<Rightarrow> vfs \<Rightarrow> (nref option \<times> vfs) option" where
  "vfs_finddir n nm k =
     (case n of
        None \<Rightarrow> Some (None, k)
      | Some r \<Rightarrow>
          Option.bind (node_at k r) (\<lambda>v.
            if v_ops v = Ops_initrd_file then Some (None, k)
            else if v_flags v AND VFS_DIR = 0 then Some (None, k)
            else Some (case r of
              Pool i \<Rightarrow> (map_option Pool (initrd_finddir (ird k) (node_pool (ird k) ! i) nm), k)
            | Kmem _ \<Rightarrow> new_node (bfs_finddir (room k) v nm (sfs_st k)) k)))"

text \<open>The result is the count or -1, the buffer after the read, and the state.\<close>

definition vfs_read :: "nref option \<Rightarrow> u32 \<Rightarrow> u32 \<Rightarrow> u8 list \<Rightarrow> vfs \<Rightarrow> (u32 \<times> u8 list \<times> vfs) option" where
  "vfs_read n off sz buf k =
     (case n of
        None \<Rightarrow> Some (- 1, buf, k)
      | Some r \<Rightarrow>
          Option.bind (node_at k r) (\<lambda>v.
            case v_ops v of
              Ops_initrd_dir \<Rightarrow> Some (- 1, buf, k)
            | Ops_initrd_file \<Rightarrow>
                (case r of Pool i \<Rightarrow> (let (c, b) = initrd_read (node_pool (ird k) ! i) off sz buf in Some (c, b, k)) | Kmem _ \<Rightarrow> None)
            | Ops_stackfs \<Rightarrow> (let (c, b, s) = bfs_read v off sz buf (sfs_st k) in Some (c, b, k\<lparr>sfs_st := s\<rparr>))))"

definition vfs_write :: "nref option \<Rightarrow> u32 \<Rightarrow> u32 \<Rightarrow> u8 list \<Rightarrow> vfs \<Rightarrow> (u32 \<times> vfs) option" where
  "vfs_write n off sz buf k =
     (case n of
        None \<Rightarrow> Some (- 1, k)
      | Some r \<Rightarrow>
          Option.bind (node_at k r) (\<lambda>v.
            case v_ops v of
              Ops_initrd_dir \<Rightarrow> Some (- 1, k)
            | Ops_initrd_file \<Rightarrow> (case r of Pool i \<Rightarrow> Some (initrd_write (node_pool (ird k) ! i) off sz buf, k) | Kmem _ \<Rightarrow> None)
            | Ops_stackfs \<Rightarrow>
                (case r of
                   Kmem a \<Rightarrow> (let (c, v, s) = bfs_write v off sz buf (sfs_st k)
                     in Some (c, k\<lparr>sfs_st := s, knodes := (knodes k)(a \<mapsto> v)\<rparr>))
                 | Pool _ \<Rightarrow> None)))"

text \<open>No file system of the kernel has a \<^verbatim>\<open>close\<close> operation.\<close>

definition vfs_close :: "nref option \<Rightarrow> vfs \<Rightarrow> vfs" where "vfs_close n k = k"

definition vfs_readdir :: "nref option \<Rightarrow> u32 \<Rightarrow> vfs \<Rightarrow> (dirent option \<times> vfs) option" where
  "vfs_readdir n idx k =
     (case n of
        None \<Rightarrow> Some (None, k)
      | Some r \<Rightarrow>
          Option.bind (node_at k r) (\<lambda>v.
            if v_ops v = Ops_initrd_file then Some (None, k)
            else if v_flags v AND VFS_DIR = 0 then Some (None, k)
            else (case r of
              Pool i \<Rightarrow> (case initrd_readdir (ird k) (node_pool (ird k) ! i) idx of Inl _ \<Rightarrow> None | Inr d \<Rightarrow> Some (d, k))
            | Kmem _ \<Rightarrow> (let (d, s) = bfs_readdir v idx (sfs_st k) in Some (d, k\<lparr>sfs_st := s\<rparr>)))))"

section \<open>Opening a path\<close>

text \<open>The bytes of the component at \<open>p\<close>.\<close>

definition component_at :: "u8 list \<Rightarrow> nat \<Rightarrow> u8 list" where
  "component_at norm p = takeWhile (\<lambda>c. c \<noteq> 0 \<and> c \<noteq> 0x2F) (drop p norm)"

text \<open>\<^verbatim>\<open>walked\<close> with a slash where it is not just the root, then the component.\<close>

definition extend_walked :: "u8 list \<Rightarrow> u8 list \<Rightarrow> u8 list" where
  "extend_walked walked component =
     (let wl = str_len walked;
          (walked, wl) = (if 1 < wl then (walked[wl := 0x2F, wl + 1 := 0], wl + 1) else (walked, wl))
      in take wl walked @ str_copy (drop wl walked) component (VFS_PATH_MAX - wl))"

definition free_unless :: "bool \<Rightarrow> nref \<Rightarrow> vfs \<Rightarrow> vfs" where
  "free_unless is_mount r k = (if is_mount then k else kfree_node r k)"

lemma component_progress: "ch norm p \<noteq> 0 \<Longrightarrow> p < length norm"
  by (auto simp: ch_def split: if_splits)

function vfs_walk :: "u8 list \<Rightarrow> nat \<Rightarrow> u8 list \<Rightarrow> nref option \<Rightarrow> bool \<Rightarrow> vfs \<Rightarrow> (nref option \<times> vfs) option" where
  "vfs_walk norm p walked cur is_mount k =
     (if ch norm p = 0 then Some (cur, k)
      else case cur of
        None \<Rightarrow> Some (None, k)
      | Some r \<Rightarrow>
          (let component = component_at norm p; len = length component
           in if len = 0 then vfs_walk norm (p + 1) walked cur is_mount k
              else if VFS_NAME_MAX \<le> len then Some (None, free_unless is_mount r k)
              else
                (let p' = p + len; p' = (if ch norm p' = 0x2F then p' + 1 else p');
                     walked = extend_walked walked component
                 in case mount_lookup walked k of
                      Some mp \<Rightarrow> vfs_walk norm p' walked (Some mp) True (free_unless is_mount r k)
                    | None \<Rightarrow>
                        (case node_at k r of
                           None \<Rightarrow> None
                         | Some v \<Rightarrow>
                             if v_flags v AND VFS_DIR = 0 then Some (None, free_unless is_mount r k)
                             else (case vfs_finddir cur component k of
                                 None \<Rightarrow> None
                               | Some (child, k) \<Rightarrow> vfs_walk norm p' walked child False (free_unless is_mount r k))))))"
  by pat_completeness auto
termination
  by (relation "measure (\<lambda>(norm, p, walked, cur, is_mount, k). length norm - p)")
    (use component_progress in \<open>auto simp: diff_less_mono2 length_greater_0_conv\<close>)

declare vfs_walk.simps [simp del]

definition vfs_open :: "u8 list \<Rightarrow> vfs \<Rightarrow> (nref option \<times> vfs) option" where
  "vfs_open path k =
     (case fs_root k of
        None \<Rightarrow> Some (None, k)
      | Some root \<Rightarrow>
          (let norm = str_copy (replicate VFS_PATH_MAX 0) path VFS_PATH_MAX;
               nl = str_len norm;
               norm = (if 1 < nl \<and> ch norm (nl - 1) = 0x2F then norm[nl - 1 := 0] else norm)
           in if ch norm 0 = 0x2F \<and> ch norm 1 = 0 then Some (Some root, k)
              else case mount_lookup norm k of
                Some m \<Rightarrow> Some (Some m, k)
              | None \<Rightarrow>
                  vfs_walk norm (if ch norm 0 = 0x2F then 1 else 0) ([0x2F, 0] @ replicate (VFS_PATH_MAX - 2) 0)
                    (Some root) True k))"

text \<open>\<^verbatim>\<open>initrd_init\<close>: the tree is built and its root mounted; \<open>None\<close> where the build uses a NULL node.\<close>

definition initrd_init :: "vfs \<Rightarrow> vfs option" where
  "initrd_init k =
     (case initrd_build (ird k) of
        Inr (Some root, s) \<Rightarrow> Some (snd (vfs_mount (lit ''/'') (Pool root) (k\<lparr>ird := s\<rparr>)))
      | _ \<Rightarrow> None)"

section \<open>Paths as lists of names\<close>

text \<open>The names in a path, and the mount at a path given as a string.\<close>

function names :: "u8 list \<Rightarrow> u8 list list" where
  "names [] = []"
| "names (c # cs) =
     (if c = 0x2F then names cs else (c # takeWhile (\<lambda>c. c \<noteq> 0x2F) cs) # names (dropWhile (\<lambda>c. c \<noteq> 0x2F) cs))"
  by pat_completeness auto
termination
  by (relation "measure length") (auto simp: le_imp_less_Suc length_dropWhile_le)

definition mount_at :: "u8 list \<Rightarrow> vfs \<Rightarrow> nref option" where
  "mount_at path k =
     map_option (\<lambda>i. m_node (mounts k ! i))
       (first_from (\<lambda>i. m_used (mounts k ! i) \<and> cstr (m_path (mounts k ! i)) = path) 0 MAX_MOUNTS)"

definition extend_path :: "u8 list \<Rightarrow> u8 list \<Rightarrow> u8 list" where
  "extend_path w c = take (VFS_PATH_MAX - 1) ((if 1 < length w then w @ [0x2F] else w) @ c)"

text \<open>
  What \<^verbatim>\<open>vfs_open\<close> promises: starting from a node, each name leads to the file system mounted there,
  or else to the entry of that name; a node on the way that is not a mount root is released.
\<close>

fun walk_names :: "u8 list list \<Rightarrow> u8 list \<Rightarrow> nref option \<Rightarrow> bool \<Rightarrow> vfs \<Rightarrow> (nref option \<times> vfs) option" where
  "walk_names [] w cur is_mount k = Some (cur, k)"
| "walk_names (c # cs) w None is_mount k = Some (None, k)"
| "walk_names (c # cs) w (Some r) is_mount k =
     (if VFS_NAME_MAX \<le> length c then Some (None, free_unless is_mount r k)
      else (case mount_at (extend_path w c) k of
              Some mp \<Rightarrow> walk_names cs (extend_path w c) (Some mp) True (free_unless is_mount r k)
            | None \<Rightarrow>
                (case node_at k r of
                   None \<Rightarrow> None
                 | Some v \<Rightarrow>
                     if v_flags v AND VFS_DIR = 0 then Some (None, free_unless is_mount r k)
                     else Option.bind (vfs_finddir (Some r) c k)
                       (\<lambda>(child, k). walk_names cs (extend_path w c) child False (free_unless is_mount r k)))))"

lemma mount_lookup_eq: "mount_lookup b k = mount_at (cstr b) k"
  by (simp add: mount_lookup_def mount_at_def str_cmp_eq)

lemma extend_walked_spec:
  assumes len: "length walked = VFS_PATH_MAX" and w: "cstr walked = w" "1 \<le> length w" "length w + 2 \<le> VFS_PATH_MAX"
    and c: "0 \<notin> set c"
  shows "length (extend_walked walked c) = VFS_PATH_MAX" "cstr (extend_walked walked c) = extend_path w c"
proof -
  define wl where "wl = (if 1 < length w then length w + 1 else length w)"
  define b where "b = (if 1 < length w then walked[length w := 0x2F, length w + 1 := 0] else walked)"
  have n: "str_len walked = length w" by (simp add: str_len_eq w)
  have e: "extend_walked walked c = take wl b @ str_copy (drop wl b) c (VFS_PATH_MAX - wl)"
    by (simp add: extend_walked_def n Let_def b_def wl_def)
  have lb: "length b = VFS_PATH_MAX" "wl < VFS_PATH_MAX" using len w by (auto simp: b_def wl_def)
  have tw: "take (length w) walked = w"
    using w(1) by (metis cstr_def length_takeWhile_le takeWhile_eq_take)
  have t: "take wl b = (if 1 < length w then w @ [0x2F] else w)"
  proof (cases "1 < length w")
    case True
    then have b1: "b = walked[length w := 0x2F, length w + 1 := 0]" "wl = Suc (length w)" by (simp_all add: b_def wl_def)
    have "take (length w) b = w" "b ! length w = 0x2F" using tw len w(3) by (simp_all add: b1)
    with True lb w(3) show ?thesis by (simp add: b1(2) take_Suc_conv_app_nth)
  next
    case False
    with tw show ?thesis by (simp add: b_def wl_def)
  qed
  have nz: "0 \<notin> set (take wl b)" using w(1) cstr_no_nul [of walked] by (simp add: t)
  have s: "length (str_copy (drop wl b) c (VFS_PATH_MAX - wl)) = VFS_PATH_MAX - wl"
    "cstr (str_copy (drop wl b) c (VFS_PATH_MAX - wl)) = take (VFS_PATH_MAX - wl - 1) c"
    using str_copy_props [of "VFS_PATH_MAX - wl" "drop wl b" c] lb c by (simp_all add: cstr_id)
  show "length (extend_walked walked c) = VFS_PATH_MAX" using s lb by (simp add: e)
  have "cstr (xs @ ys) = xs @ cstr ys" if "0 \<notin> set xs" for xs ys :: "u8 list"
    using that by (induction xs) auto
  then have "cstr (extend_walked walked c) = take wl b @ take (VFS_PATH_MAX - wl - 1) c" using nz s by (simp add: e)
  also have "\<dots> = extend_path w c" unfolding extend_path_def t using w(2,3) by (auto simp: wl_def)
  finally show "cstr (extend_walked walked c) = extend_path w c" .
qed

lemma ch_cstr: "p \<le> length (cstr s) \<Longrightarrow> ch s p = (if p < length (cstr s) then cstr s ! p else 0)"
proof (induction s arbitrary: p)
  case Nil
  then show ?case by simp
next
  case (Cons c s)
  then show ?case by (cases p) (auto split: if_splits)
qed

lemma component_cstr:
  "p \<le> length (cstr s) \<Longrightarrow> component_at s p = takeWhile (\<lambda>c. c \<noteq> 0x2F) (drop p (cstr s))"
proof (induction s arbitrary: p)
  case Nil
  then show ?case by (simp add: component_at_def)
next
  case (Cons c s)
  have z: "component_at s 0 = takeWhile (\<lambda>c. c \<noteq> 0x2F) (cstr s)" using Cons.IH [of 0] by simp
  show ?case
  proof (cases p)
    case 0
    with z show ?thesis by (auto simp: component_at_def)
  next
    case (Suc q)
    then have "c \<noteq> 0" "q \<le> length (cstr s)" using Cons.prems by (auto split: if_splits)
    with Suc Cons.IH [of q] show ?thesis by (simp add: component_at_def)
  qed
qed

lemma names_step:
  assumes "p < length P"
  shows "P ! p = 0x2F \<Longrightarrow> names (drop p P) = names (drop (Suc p) P)"
    and "P ! p \<noteq> 0x2F \<Longrightarrow> names (drop p P) =
      takeWhile (\<lambda>c. c \<noteq> 0x2F) (drop p P) # names (drop (p + length (takeWhile (\<lambda>c. c \<noteq> 0x2F) (drop p P))) P)"
proof -
  have d: "drop p P = P ! p # drop (Suc p) P" using assms by (simp add: Cons_nth_drop_Suc)
  show "P ! p = 0x2F \<Longrightarrow> names (drop p P) = names (drop (Suc p) P)" by (subst d) simp
  assume "P ! p \<noteq> 0x2F"
  then show "names (drop p P) =
      takeWhile (\<lambda>c. c \<noteq> 0x2F) (drop p P) # names (drop (p + length (takeWhile (\<lambda>c. c \<noteq> 0x2F) (drop p P))) P)"
    by (simp add: d dropWhile_eq_drop add.commute)
qed

text \<open>After a component, at most one slash is stepped over, which does not change the names.\<close>

lemma names_skip_slash:
  "q \<le> length P \<Longrightarrow> names (drop (if q < length P \<and> P ! q = 0x2F then q + 1 else q) P) = names (drop q P)"
  using names_step(1) [of q P] by auto

lemma vfs_walk_names:
  assumes "length norm = VFS_PATH_MAX" and "length (cstr norm) < VFS_PATH_MAX" and "p \<le> length (cstr norm)"
    and "length walked = VFS_PATH_MAX" and "1 \<le> length (cstr walked)" and "p < length (cstr norm) \<longrightarrow> length (cstr walked) \<le> max 1 p"
  shows "vfs_walk norm p walked cur is_mount k = walk_names (names (drop p (cstr norm))) (cstr walked) cur is_mount k"
  using assms(3-6)
proof (induction "length norm - p" arbitrary: p walked cur is_mount k rule: less_induct)
  case less
  define P where "P = cstr norm"
  have chp: "ch norm q = (if q < length P then P ! q else 0)" if "q \<le> length P" for q
    using that by (simp add: P_def ch_cstr)
  have nz: "q < length P \<Longrightarrow> P ! q \<noteq> 0" for q using cstr_no_nul [of norm] nth_mem unfolding P_def by metis
  have lP: "length P < VFS_PATH_MAX" "p \<le> length P" using assms(2) less.prems by (simp_all add: P_def)
  show ?case
  proof (cases "p = length P")
    case True
    then show ?thesis using chp [of p] by (subst vfs_walk.simps) (simp add: P_def)
  next
    case False
    then have p: "p < length P" using lP by simp
    have c: "component_at norm p = takeWhile (\<lambda>c. c \<noteq> 0x2F) (drop p P)" using component_cstr lP by (simp add: P_def)
    show ?thesis
    proof (cases cur)
      case None
      have "walk_names cs w None m k = Some (None, k)" for cs w m by (cases cs) simp_all
      with None chp [of p] p nz [of p] show ?thesis by (subst vfs_walk.simps) simp
    next
      case (Some r)
      show ?thesis
      proof (cases "P ! p = 0x2F")
        case True
        have "drop p P = P ! p # drop (Suc p) P" using p by (simp add: Cons_nth_drop_Suc)
        then have "component_at norm p = []" using True by (simp add: c)
        then have "vfs_walk norm p walked cur is_mount k = vfs_walk norm (p + 1) walked cur is_mount k"
          using p chp [of p] nz [of p] Some by (subst vfs_walk.simps) simp
        also have "\<dots> = walk_names (names (drop (p + 1) P)) (cstr walked) cur is_mount k"
          using p lP assms(1) less.prems unfolding P_def by (intro less.hyps) auto
        finally show ?thesis using names_step(1) [OF p True] by (simp add: P_def)
      next
        case ns: False
        define C where "C = takeWhile (\<lambda>c. c \<noteq> 0x2F) (drop p P)"
        define q where "q = p + length C"
        define p' where "p' = (if ch norm q = 0x2F then q + 1 else q)"
        have dp: "drop p P = P ! p # drop (Suc p) P" using p by (simp add: Cons_nth_drop_Suc)
        have Cp: "0 < length C" using ns by (simp add: C_def dp)
        have Cz: "0 \<notin> set C" using cstr_no_nul [of norm] unfolding C_def P_def
          by (meson in_set_dropD set_takeWhileD)
        have q: "q \<le> length P" using length_takeWhile_le [of "\<lambda>c. c \<noteq> 0x2F" "drop p P"] p by (simp add: C_def q_def)
        have qs: "q < length P \<Longrightarrow> P ! q = 0x2F"
          using nth_length_takeWhile [of "\<lambda>c. c \<noteq> 0x2F" "drop p P"] p by (simp add: C_def q_def)
        have p': "p' = (if q < length P \<and> P ! q = 0x2F then q + 1 else q)" "p' \<le> length P" "p < p'"
          using chp [OF q] q Cp by (auto simp: p'_def q_def)
        have nm: "names (drop p P) = C # names (drop p' P)"
          using names_step(2) [OF p ns] names_skip_slash [OF q] by (simp add: p'(1) C_def q_def)
        define w where "w = cstr walked"
        have w: "1 \<le> length w" "length w \<le> max 1 p" using less.prems p by (simp_all add: w_def P_def)
        have ext: "length (extend_walked walked C) = VFS_PATH_MAX" "cstr (extend_walked walked C) = extend_path w C"
          using extend_walked_spec [OF less.prems(2), of w C] w Cz p lP by (auto simp: w_def VFS_PATH_MAX_def)
        have inv: "1 \<le> length (extend_path w C)" "p' < length P \<longrightarrow> length (extend_path w C) \<le> max 1 p'"
          using w p'(1) q qs Cp by (auto simp: extend_path_def q_def VFS_PATH_MAX_def)
        have R: "vfs_walk norm p' (extend_walked walked C) cur' m' k' = walk_names (names (drop p' P)) (extend_path w C) cur' m' k'"
          for cur' m' k'
          using less.hyps [of p' "extend_walked walked C" cur' m' k'] p' p lP assms(1) ext inv by (simp add: P_def)
        have Rs: "ch norm q = 0x2F \<Longrightarrow> vfs_walk norm (Suc q) (extend_walked walked C) cur' m' k' =
            walk_names (names (drop p' P)) (extend_path w C) cur' m' k'"
          "ch norm q \<noteq> 0x2F \<Longrightarrow> vfs_walk norm q (extend_walked walked C) cur' m' k' =
            walk_names (names (drop p' P)) (extend_path w C) cur' m' k'" for cur' m' k'
          using R [of cur' m' k'] by (simp_all add: p'_def)
        have "vfs_walk norm p walked (Some r) is_mount k = walk_names (C # names (drop p' P)) w (Some r) is_mount k"
          using p chp [of p] nz [of p] Cp c
          by (subst vfs_walk.simps) (simp add: Let_def mount_lookup_eq ext Rs flip: C_def q_def split: option.split)
        then show ?thesis using Some nm by (simp add: w_def P_def)
      qed
    qed
  qed
qed

definition strip_slash :: "u8 list \<Rightarrow> u8 list" where
  "strip_slash P = (if 1 < length P \<and> last P = 0x2F then butlast P else P)"

lemma vfs_open_eq:
  "vfs_open path k =
     (case fs_root k of
        None \<Rightarrow> Some (None, k)
      | Some root \<Rightarrow>
          (let P = strip_slash (take (VFS_PATH_MAX - 1) (cstr path))
           in if P = [0x2F] then Some (Some root, k)
              else case mount_at P k of
                Some m \<Rightarrow> Some (Some m, k)
              | None \<Rightarrow> walk_names (names P) [0x2F] (Some root) True k))"
proof (cases "fs_root k")
  case None
  then show ?thesis by (simp add: vfs_open_def)
next
  case (Some root)
  define b where "b = str_copy (replicate VFS_PATH_MAX 0) path VFS_PATH_MAX"
  define Q where "Q = take (VFS_PATH_MAX - 1) (cstr path)"
  have b: "length b = VFS_PATH_MAX" "cstr b = Q"
    using str_copy_props [of VFS_PATH_MAX "replicate VFS_PATH_MAX 0" path] by (simp_all add: b_def Q_def VFS_PATH_MAX_def)
  have nl: "str_len b = length Q" by (simp add: str_len_eq b)
  define norm where "norm = (if 1 < length Q \<and> ch b (length Q - 1) = 0x2F then b[length Q - 1 := 0] else b)"
  define P where "P = strip_slash Q"
  have lQ: "length Q < VFS_PATH_MAX" by (simp add: Q_def VFS_PATH_MAX_def)
  have bQ: "b = Q @ drop (length Q) b" using b(2) unfolding cstr_def by (metis append_take_drop_id takeWhile_eq_take)
  have chl: "0 < length Q \<Longrightarrow> ch b (length Q - 1) = last Q"
    using ch_cstr [of "length Q - 1" b] by (simp add: b last_conv_nth)
  have norm_if: "norm = (if 1 < length Q \<and> last Q = 0x2F then b[length Q - 1 := 0] else b)"
    using chl by (cases "0 < length Q") (simp_all add: norm_def)
  have norm: "length norm = VFS_PATH_MAX" "cstr norm = P"
  proof -
    show "length norm = VFS_PATH_MAX" using b by (simp add: norm_def)
    show "cstr norm = P"
    proof (cases "1 < length Q \<and> last Q = 0x2F")
      case True
      then have "butlast Q @ [last Q] = Q" by (cases Q) auto
      then have "b = butlast Q @ last Q # drop (length Q) b" using bQ by (metis append.assoc append_Cons append_Nil)
      then have "b[length Q - 1 := 0] = butlast Q @ 0 # drop (length Q) b"
        by (metis length_butlast list_update_length)
      moreover have "0 \<notin> set (butlast Q)" using cstr_no_nul [of b] b by (metis in_set_butlastD)
      ultimately show ?thesis using True
        by (simp add: norm_if P_def strip_slash_def cstr_append_nul)
    next
      case False
      then show ?thesis by (simp only: norm_if P_def strip_slash_def if_False b)
    qed
  qed
  have lP: "length P < VFS_PATH_MAX" using lQ by (auto simp: P_def strip_slash_def)
  have c0: "ch norm 0 = (if P = [] then 0 else hd P)" using ch_cstr [of 0 norm] by (auto simp: norm hd_conv_nth)
  have root: "ch norm 0 = 0x2F \<and> ch norm 1 = 0 \<longleftrightarrow> P = [0x2F]"
  proof (cases P)
    case Nil
    then show ?thesis using c0 by simp
  next
    case (Cons x xs)
    then have "ch norm 1 = (if xs = [] then 0 else hd xs)"
      using ch_cstr [of 1 norm] by (auto simp: norm hd_conv_nth)
    moreover have "xs \<noteq> [] \<Longrightarrow> hd xs \<noteq> 0" using cstr_no_nul [of norm] norm Cons by (cases xs) auto
    ultimately show ?thesis using c0 Cons by auto
  qed
  have walk: "vfs_walk norm (if ch norm 0 = 0x2F then 1 else 0) ([0x2F, 0] @ replicate (VFS_PATH_MAX - 2) 0) (Some root) True k =
    walk_names (names P) [0x2F] (Some root) True k"
  proof -
    define p :: nat where "p = (if ch norm 0 = 0x2F then 1 else 0)"
    have "p \<le> length P" using c0 by (auto simp: p_def Suc_le_eq split: if_splits)
    moreover have "names (drop p P) = names P" using c0 by (cases P) (auto simp: p_def)
    ultimately show ?thesis
      using vfs_walk_names [OF norm(1), of p "[0x2F, 0] @ replicate (VFS_PATH_MAX - 2) 0" "Some root" True k] lP
      by (simp add: norm p_def [symmetric] VFS_PATH_MAX_def)
  qed
  have "vfs_open path k = (if P = [0x2F] then Some (Some root, k) else case mount_at P k of Some m \<Rightarrow> Some (Some m, k)
      | None \<Rightarrow> walk_names (names P) [0x2F] (Some root) True k)"
    unfolding vfs_open_def Some option.case Let_def b_def [symmetric] nl norm_def [symmetric]
    by (simp only: root mount_lookup_eq norm walk)
  then show ?thesis by (simp only: Some option.case Let_def Q_def [symmetric] P_def)
qed

text \<open>
  C26. Opening a path resolves its list of names. Only the first 511 bytes count, a trailing slash
  and repeated slashes do not; the root and a path that is a mount point give the node mounted
  there itself, and any other path is followed name by name from the root, crossing mount points.
\<close>

theorem vfs_open_resolves:
  "vfs_open path k =
     (case fs_root k of
        None \<Rightarrow> Some (None, k)
      | Some root \<Rightarrow>
          (let P = strip_slash (take (VFS_PATH_MAX - 1) (cstr path))
           in if P = [0x2F] then Some (Some root, k)
              else case mount_at P k of
                Some m \<Rightarrow> Some (Some m, k)
              | None \<Rightarrow> walk_names (names P) [0x2F] (Some root) True k))"
  by (rule vfs_open_eq)

section \<open>Ownership of nodes\<close>

text \<open>The nodes nobody may free: the mount roots and the root of the tree.\<close>

definition permanent :: "vfs \<Rightarrow> nref \<Rightarrow> bool" where
  "permanent k r \<longleftrightarrow> fs_root k = Some r \<or> (\<exists>i < MAX_MOUNTS. m_used (mounts k ! i) \<and> m_node (mounts k ! i) = r)"

definition vfs_ok :: "vfs \<Rightarrow> bool" where
  "vfs_ok k \<longleftrightarrow> (\<forall>a \<ge> knext k. knodes k a = None) \<and>
     (\<forall>r. permanent k r \<longrightarrow> (case r of Kmem a \<Rightarrow> a < knext k \<and> knodes k a \<noteq> None | Pool _ \<Rightarrow> True))"

text \<open>
  During a walk that started in \<open>k0\<close>: what was there is untouched, at most the current node is new,
  and only new nodes and initrd nodes were given to \<^verbatim>\<open>kfree\<close>.
\<close>

definition new_live :: "vfs \<Rightarrow> vfs \<Rightarrow> nat set" where
  "new_live k0 k = {a. knext k0 \<le> a \<and> knodes k a \<noteq> None}"

definition walk_inv :: "vfs \<Rightarrow> nref option \<Rightarrow> bool \<Rightarrow> vfs \<Rightarrow> bool" where
  "walk_inv k0 cur is_mount k \<longleftrightarrow>
     mounts k = mounts k0 \<and> fs_root k = fs_root k0 \<and> ird k = ird k0 \<and> knext k0 \<le> knext k \<and>
     (\<forall>a < knext k0. knodes k a = knodes k0 a) \<and> (\<forall>a \<ge> knext k. knodes k a = None) \<and>
     new_live k0 k = (case cur of Some (Kmem a) \<Rightarrow> if is_mount then {} else {a} | _ \<Rightarrow> {}) \<and>
     (is_mount \<longrightarrow> (\<exists>r. cur = Some r \<and> permanent k0 r)) \<and>
     (\<exists>fs. kfreed k = fs @ kfreed k0 \<and> (\<forall>x \<in> set fs. case x of Kmem a \<Rightarrow> knext k0 \<le> a | Pool _ \<Rightarrow> True))"

lemma walk_inv_start: "vfs_ok k \<Longrightarrow> permanent k r \<Longrightarrow> walk_inv k (Some r) True k"
  by (auto simp: walk_inv_def vfs_ok_def new_live_def split: nref.split)

lemma walk_inv_live:
  assumes "vfs_ok k0" and "walk_inv k0 (Some r) m k"
  shows "node_at k r \<noteq> None"
proof (cases r)
  case (Kmem a)
  show ?thesis
  proof (cases m)
    case True
    then have "permanent k0 r" using assms(2) by (simp add: walk_inv_def)
    then have "a < knext k0" "knodes k0 a \<noteq> None" using assms(1) Kmem by (auto simp: vfs_ok_def)
    then show ?thesis using assms(2) Kmem by (simp add: walk_inv_def node_at_def)
  next
    case False
    then have "a \<in> new_live k0 k" using assms(2) Kmem by (simp add: walk_inv_def)
    then show ?thesis using Kmem by (simp add: new_live_def node_at_def)
  qed
qed (simp add: node_at_def)

lemma walk_inv_release:
  assumes "walk_inv k0 (Some r) m k"
  shows "walk_inv k0 None False (free_unless m r k)"
proof (cases m)
  case True
  with assms show ?thesis by (auto simp: walk_inv_def free_unless_def split: nref.splits)
next
  case False
  then have n: "new_live k0 k = (case r of Kmem a \<Rightarrow> {a} | Pool _ \<Rightarrow> {})"
    using assms by (auto simp: walk_inv_def split: nref.splits)
  obtain fs where fs: "kfreed k = fs @ kfreed k0" "\<forall>x \<in> set fs. case x of Kmem a \<Rightarrow> knext k0 \<le> a | Pool _ \<Rightarrow> True"
    using assms by (auto simp: walk_inv_def)
  have "case r of Kmem a \<Rightarrow> knext k0 \<le> a | Pool _ \<Rightarrow> True" using n by (auto simp: new_live_def split: nref.splits)
  then have "\<exists>fs'. r # kfreed k = fs' @ kfreed k0 \<and> (\<forall>x \<in> set fs'. case x of Kmem a \<Rightarrow> knext k0 \<le> a | Pool _ \<Rightarrow> True)"
    using fs by (intro exI [of _ "r # fs"]) auto
  moreover have "new_live k0 (free_unless m r k) = {}"
    using n False by (auto simp: new_live_def free_unless_def kfree_node_def split: nref.splits if_splits)
  ultimately show ?thesis
    using assms False n by (auto simp: walk_inv_def free_unless_def kfree_node_def new_live_def split: nref.splits)
qed

lemma mount_at_permanent: "mount_at w k = Some r \<Longrightarrow> permanent k r"
  by (auto simp: mount_at_def permanent_def first_from_Some)

lemma walk_inv_mount:
  assumes "walk_inv k0 None False k" and "mount_at w k = Some r"
  shows "walk_inv k0 (Some r) True k"
proof -
  have "permanent k0 r" using mount_at_permanent [OF assms(2)] assms(1) by (simp add: walk_inv_def permanent_def)
  then show ?thesis using assms(1) by (auto simp: walk_inv_def split: nref.split)
qed

text \<open>The child of a node is a pool node, or one made just now.\<close>

lemma finddir_cases:
  assumes "vfs_finddir (Some r) c k = Some (child, k')"
  obtains (pool) "k' = k" "child = None \<or> (\<exists>i. child = Some (Pool i))"
    | (none) s where "k' = k\<lparr>sfs_st := s\<rparr>" "child = None"
    | (made) s v where "k' = k\<lparr>sfs_st := s, knodes := (knodes k)(knext k \<mapsto> v), knext := knext k + 1\<rparr>" "child = Some (Kmem (knext k))"
proof -
  from assms consider "child = None" "k' = k"
    | i where "child = map_option Pool (initrd_finddir (ird k) (node_pool (ird k) ! i) c)" "k' = k"
    | v where "(child, k') = new_node (bfs_finddir (room k) v c (sfs_st k)) k"
  proof -
    from assms obtain v where v: "node_at k r = Some v" by (cases "node_at k r") (auto simp: vfs_finddir_def)
    show thesis
    proof (cases "v_ops v = Ops_initrd_file \<or> v_flags v AND VFS_DIR = 0")
      case True
      with assms v that(1) show thesis by (auto simp: vfs_finddir_def split: if_splits)
    next
      case False
      with assms v have e: "(case r of Pool i \<Rightarrow> (map_option Pool (initrd_finddir (ird k) (node_pool (ird k) ! i) c), k)
          | Kmem _ \<Rightarrow> new_node (bfs_finddir (room k) v c (sfs_st k)) k) = (child, k')"
        by (simp add: vfs_finddir_def)
      show thesis
      proof (cases r)
        case (Pool i)
        with e have "child = map_option Pool (initrd_finddir (ird k) (node_pool (ird k) ! i) c)" "k' = k" by auto
        then show thesis by (rule that(2))
      next
        case (Kmem a)
        with e have "(child, k') = new_node (bfs_finddir (room k) v c (sfs_st k)) k" by simp
        then show thesis by (rule that(3))
      qed
    qed
  qed
  then show thesis
  proof cases
    case 1
    then show thesis by (intro pool) auto
  next
    case (2 i)
    then show thesis by (intro pool) auto
  next
    case (3 v)
    obtain x s where x: "bfs_finddir (room k) v c (sfs_st k) = (x, s)" by fastforce
    show thesis
    proof (cases x)
      case None
      with x 3 show thesis by (intro none [of s]) (simp_all add: new_node_def)
    next
      case (Some y)
      with x 3 show thesis by (intro made [where s = s and v = y]) (simp_all add: new_node_def)
    qed
  qed
qed

lemma free_unless_fields [simp]:
  "mounts (free_unless m r k) = mounts k" "fs_root (free_unless m r k) = fs_root k"
  by (simp_all add: free_unless_def kfree_node_def)

lemma walk_inv_child:
  assumes "walk_inv k0 (Some r) m k" and "vfs_finddir (Some r) c k = Some (child, k')" and ok: "vfs_ok k0"
  shows "walk_inv k0 child False (free_unless m r k')"
  using assms(2)
proof (cases rule: finddir_cases)
  case pool
  with walk_inv_release [OF assms(1)] show ?thesis by (auto simp: walk_inv_def)
next
  case (none s)
  have "free_unless m r k' = (free_unless m r k)\<lparr>sfs_st := s\<rparr>"
    using none by (cases r) (simp_all add: free_unless_def kfree_node_def)
  with walk_inv_release [OF assms(1)] none show ?thesis by (simp add: walk_inv_def new_live_def)
next
  case (made s v)
  have r: "r \<noteq> Kmem (knext k)"
  proof
    assume "r = Kmem (knext k)"
    moreover have "knodes k (knext k) = None" using assms(1) by (simp add: walk_inv_def)
    ultimately have "\<not> m" using walk_inv_live [OF ok assms(1)] by (simp add: node_at_def)
    with \<open>r = _\<close> assms(1) have "knext k \<in> new_live k0 k" by (simp add: walk_inv_def)
    with \<open>knodes k (knext k) = None\<close> show False by (simp add: new_live_def)
  qed
  have e: "free_unless m r k' =
      (free_unless m r k)\<lparr>sfs_st := s, knodes := (knodes (free_unless m r k))(knext k \<mapsto> v), knext := knext k + 1\<rparr>"
    using made r by (auto simp: free_unless_def kfree_node_def fun_upd_twist split: nref.split)
  define k1 where "k1 = free_unless m r k"
  have i: "walk_inv k0 None False k1" "knext k1 = knext k"
    using walk_inv_release [OF assms(1)] by (simp_all add: k1_def free_unless_def kfree_node_def)
  have "new_live k0 (k1\<lparr>sfs_st := s, knodes := (knodes k1)(knext k \<mapsto> v), knext := knext k + 1\<rparr>) = {knext k}"
    using i by (auto simp: walk_inv_def new_live_def split: if_splits)
  then show ?thesis using i made(2) unfolding e k1_def [symmetric] by (auto simp: walk_inv_def)
qed

lemma walk_names_inv:
  assumes "vfs_ok k0"
  shows "walk_inv k0 cur m k \<Longrightarrow> \<exists>r k' m'. walk_names cs w cur m k = Some (r, k') \<and> walk_inv k0 r m' k'"
proof (induction cs w cur m k rule: walk_names.induct)
  case (1 w cur m k)
  then show ?case by auto
next
  case (2 c cs w m k)
  then show ?case by auto
next
  case (3 c cs w r m k)
  note rel = walk_inv_release [OF "3.prems"]
  obtain v where v: "node_at k r = Some v" using walk_inv_live [OF assms "3.prems"] by auto
  show ?case
  proof (cases "VFS_NAME_MAX \<le> length c")
    case True
    with rel show ?thesis by auto
  next
    case short: False
    show ?thesis
    proof (cases "mount_at (extend_path w c) k")
      case (Some mp)
      have "mount_at (extend_path w c) (free_unless m r k) = Some mp" using Some by (simp add: mount_at_def)
      from walk_inv_mount [OF rel this] "3.IH"(2) [OF short Some] short Some show ?thesis by simp
    next
      case None
      show ?thesis
      proof (cases "v_flags v AND VFS_DIR = 0")
        case True
        with short None v rel show ?thesis by auto
      next
        case dir: False
        obtain child k' where f: "vfs_finddir (Some r) c k = Some (child, k')"
        proof -
          have "vfs_finddir (Some r) c k \<noteq> None" using v dir by (simp add: vfs_finddir_def)
          then show thesis using that by (cases "vfs_finddir (Some r) c k") auto
        qed
        from walk_inv_child [OF "3.prems" f assms] "3.IH"(1) [OF short None v dir f refl] short None v dir f
        show ?thesis by simp
      qed
    qed
  qed
qed

text \<open>How a path is opened, and the invariant of the walk at its end.\<close>

lemma vfs_open_cases:
  fixes path
  defines "P \<equiv> strip_slash (take (VFS_PATH_MAX - 1) (cstr path))"
  obtains (none) "fs_root k = None" "vfs_open path k = Some (None, k)"
    | (root) root where "fs_root k = Some root" "P = [0x2F]" "vfs_open path k = Some (Some root, k)"
    | (mount) m where "mount_at P k = Some m" "vfs_open path k = Some (Some m, k)"
    | (walk) root where "fs_root k = Some root" "P \<noteq> [0x2F]" "mount_at P k = None"
        "vfs_open path k = walk_names (names P) [0x2F] (Some root) True k"
proof (cases "fs_root k")
  case None
  then show thesis by (intro none) (simp_all add: vfs_open_eq)
next
  case (Some root)
  have "vfs_open path k = (if P = [0x2F] then Some (Some root, k) else case mount_at P k of Some m \<Rightarrow> Some (Some m, k)
      | None \<Rightarrow> walk_names (names P) [0x2F] (Some root) True k)"
    by (simp only: vfs_open_eq Some option.case Let_def P_def)
  with Some that(2-4) show thesis by (cases "P = [0x2F]"; cases "mount_at P k") auto
qed

lemma vfs_open_inv:
  assumes "vfs_ok k"
  shows "\<exists>r k' m. vfs_open path k = Some (r, k') \<and> walk_inv k r m k'"
proof (cases rule: vfs_open_cases [of k path])
  case none
  have "walk_inv k None False k" using assms by (auto simp: walk_inv_def vfs_ok_def new_live_def)
  with none show ?thesis by blast
next
  case (root r)
  then have "walk_inv k (Some r) True k" by (intro walk_inv_start [OF assms]) (simp add: permanent_def)
  with root show ?thesis by blast
next
  case (mount m)
  with walk_inv_start [OF assms mount_at_permanent] show ?thesis by blast
next
  case (walk r)
  then have "walk_inv k (Some r) True k" by (intro walk_inv_start [OF assms]) (simp add: permanent_def)
  from walk_names_inv [OF assms this] walk(4) show ?thesis by metis
qed

text \<open>
  C11. The ownership rules of \<^verbatim>\<open>vfs_open\<close>. When the mount roots are live, opening any path touches no
  node that existed before, releases every node it made on the way except the one it returns, so
  nothing leaks, gives \<^verbatim>\<open>kfree\<close> no older heap node, and never uses a released node; a heap node it
  returns is live, and is either a mount root or new and so the caller's to free.
\<close>

theorem vfs_open_ownership:
  assumes "vfs_ok k"
  shows "\<exists>r k'. vfs_open path k = Some (r, k') \<and>
    (\<forall>a < knext k. knodes k' a = knodes k a) \<and>
    (\<forall>a \<ge> knext k. knodes k' a \<noteq> None \<longrightarrow> r = Some (Kmem a)) \<and>
    (\<exists>fs. kfreed k' = fs @ kfreed k \<and> (\<forall>a. Kmem a \<in> set fs \<longrightarrow> knext k \<le> a)) \<and>
    (\<forall>a. r = Some (Kmem a) \<longrightarrow> knodes k' a \<noteq> None \<and> (permanent k (Kmem a) \<or> knext k \<le> a))"
proof -
  have fin: "\<exists>r k'. x = Some (r, k') \<and> (\<forall>a < knext k. knodes k' a = knodes k a) \<and>
    (\<forall>a \<ge> knext k. knodes k' a \<noteq> None \<longrightarrow> r = Some (Kmem a)) \<and>
    (\<exists>fs. kfreed k' = fs @ kfreed k \<and> (\<forall>a. Kmem a \<in> set fs \<longrightarrow> knext k \<le> a)) \<and>
    (\<forall>a. r = Some (Kmem a) \<longrightarrow> knodes k' a \<noteq> None \<and> (permanent k (Kmem a) \<or> knext k \<le> a))"
    if "x = Some (r, k')" "walk_inv k r m k'" for x r k' m
  proof -
    have "\<forall>a. r = Some (Kmem a) \<longrightarrow> knodes k' a \<noteq> None \<and> (permanent k (Kmem a) \<or> knext k \<le> a)"
    proof (intro allI impI)
      fix a
      assume a: "r = Some (Kmem a)"
      have "knodes k' a \<noteq> None" using walk_inv_live [OF assms, of "Kmem a" m k'] that(2) a by (simp add: node_at_def)
      moreover have "permanent k (Kmem a) \<or> knext k \<le> a"
        using that(2) a by (cases m) (auto simp: walk_inv_def new_live_def)
      ultimately show "knodes k' a \<noteq> None \<and> (permanent k (Kmem a) \<or> knext k \<le> a)" ..
    qed
    moreover have "\<forall>a \<ge> knext k. knodes k' a \<noteq> None \<longrightarrow> r = Some (Kmem a)"
    proof (intro allI impI)
      fix a
      assume "knext k \<le> a" "knodes k' a \<noteq> None"
      then have "a \<in> new_live k k'" by (simp add: new_live_def)
      with that(2) show "r = Some (Kmem a)" by (auto simp: walk_inv_def split: option.splits nref.splits if_splits)
    qed
    moreover have "\<forall>a < knext k. knodes k' a = knodes k a" using that(2) by (simp add: walk_inv_def)
    moreover have "\<exists>fs. kfreed k' = fs @ kfreed k \<and> (\<forall>a. Kmem a \<in> set fs \<longrightarrow> knext k \<le> a)"
      using that(2) by (fastforce simp: walk_inv_def split: nref.splits)
    ultimately show ?thesis using that(1) by blast
  qed
  from vfs_open_inv [OF assms, of path] obtain r k' m where "vfs_open path k = Some (r, k')" "walk_inv k r m k'" by blast
  then show ?thesis by (rule fin)
qed

section \<open>The tree after booting\<close>

definition no_mount :: mount_entry where
  "no_mount = \<lparr>m_path = replicate VFS_PATH_MAX 0, m_node = Pool 0, m_used = False\<rparr>"

definition vfs_boot :: "sfs \<Rightarrow> (nat \<Rightarrow> nat \<Rightarrow> bool) \<Rightarrow> vfs" where
  "vfs_boot s g = \<lparr>mounts = replicate MAX_MOUNTS no_mount, fs_root = None, knodes = Map.empty, knext = 0, kgrant = g,
     kfreed = [], ird = initrd_static, sfs_st = s, vout = []\<rparr>"

definition vfs_ready :: "sfs \<Rightarrow> (nat \<Rightarrow> nat \<Rightarrow> bool) \<Rightarrow> vfs" where
  "vfs_ready s g = the (initrd_init (vfs_init (vfs_boot s g)))"

lemma vfs_init_boot: "vfs_init (vfs_boot s g) = vprint (lit ''[vfs] initialised'' @ [10]) (vfs_boot s g)"
proof -
  define f where "f = (\<lambda>i (k :: vfs). k\<lparr>mounts := (mounts k)[i := (mounts k ! i)\<lparr>m_used := False\<rparr>]\<rparr>)"
  have "(\<lambda>k. k = vfs_boot s g) (for_loop 0 MAX_MOUNTS f (vfs_boot s g))"
  proof (rule for_loop_keeps)
    fix i k
    assume "i < MAX_MOUNTS" "k = vfs_boot s g"
    moreover have "no_mount\<lparr>m_used := False\<rparr> = no_mount" by (simp add: no_mount_def)
    ultimately show "f i k = vfs_boot s g" by (simp add: f_def vfs_boot_def list_update_same_conv)
  qed simp
  then show ?thesis by (simp add: vfs_init_def f_def)
qed

definition root_mount :: mount_entry where
  "root_mount = no_mount\<lparr>m_path := str_copy (replicate VFS_PATH_MAX 0) (lit ''/'') VFS_PATH_MAX, m_node := Pool 0, m_used := True\<rparr>"

lemma vfs_ready_state:
  "initrd_init (vfs_init (vfs_boot s g)) = Some (vfs_ready s g) \<and> fs_root (vfs_ready s g) = Some (Pool 0) \<and>
   ird (vfs_ready s g) = initrd_ready \<and> mounts (vfs_ready s g) = (replicate MAX_MOUNTS no_mount)[0 := root_mount] \<and>
   knodes (vfs_ready s g) = Map.empty \<and> knext (vfs_ready s g) = 0 \<and> sfs_st (vfs_ready s g) = s \<and> kgrant (vfs_ready s g) = g"
proof -
  define b where "b = (vprint (lit ''[vfs] initialised'' @ [10]) (vfs_boot s g))\<lparr>ird := initrd_ready\<rparr>"
  have free: "first_from (\<lambda>i. \<not> m_used (mounts b ! i)) 0 MAX_MOUNTS = Some 0"
    by (subst first_from.simps) (simp add: b_def vprint_def vfs_boot_def MAX_MOUNTS_def no_mount_def)
  have i: "initrd_init (vfs_init (vfs_boot s g)) = Some (snd (vfs_mount (lit ''/'') (Pool 0) b))"
    unfolding initrd_init_def vfs_init_boot by (simp add: vprint_def vfs_boot_def initrd_built b_def)
  then have r: "vfs_ready s g = snd (vfs_mount (lit ''/'') (Pool 0) b)" by (simp add: vfs_ready_def)
  have m: "mounts b = replicate MAX_MOUNTS no_mount" "knodes b = Map.empty" "knext b = 0" "sfs_st b = s" "kgrant b = g" "ird b = initrd_ready"
    by (simp_all add: b_def vprint_def vfs_boot_def)
  have "m_path no_mount = replicate VFS_PATH_MAX 0" by (simp add: no_mount_def)
  with i free m show ?thesis
    by (simp add: r vfs_mount_def Let_def vprint_def str_cmp_eq root_mount_def MAX_MOUNTS_def)
qed

lemma vfs_ready_mounts: "mount_at P (vfs_ready s g) = (if P = lit ''/'' then Some (Pool 0) else None)"
proof -
  have m: "mounts (vfs_ready s g) = (replicate MAX_MOUNTS no_mount)[0 := root_mount]" using vfs_ready_state by blast
  have c: "cstr (m_path root_mount) = lit ''/''"
    using str_copy_props(2) [of VFS_PATH_MAX "replicate VFS_PATH_MAX 0" "lit ''/''"]
    by (simp add: root_mount_def VFS_PATH_MAX_def lit_def)
  show ?thesis
  proof (cases "P = lit ''/''")
    case True
    then have "first_from (\<lambda>i. m_used (mounts (vfs_ready s g) ! i) \<and> cstr (m_path (mounts (vfs_ready s g) ! i)) = P) 0 MAX_MOUNTS = Some 0"
      using c by (subst first_from.simps) (simp add: m MAX_MOUNTS_def root_mount_def)
    with True show ?thesis by (simp add: mount_at_def m MAX_MOUNTS_def root_mount_def)
  next
    case False
    then have "first_from (\<lambda>i. m_used (mounts (vfs_ready s g) ! i) \<and> cstr (m_path (mounts (vfs_ready s g) ! i)) = P) 0 MAX_MOUNTS = None"
      using c by (auto simp: first_from_None m nth_list_update no_mount_def)
    with False show ?thesis by (simp add: mount_at_def)
  qed
qed

lemma vfs_ready_ok: "vfs_ok (vfs_ready s g)"
  using vfs_ready_state [of s g]
  by (auto simp: vfs_ok_def permanent_def nth_list_update no_mount_def root_mount_def split: nref.split if_splits)

lemma padded_name: "length (lit n) < 128 \<Longrightarrow> 0 \<notin> set (lit n) \<Longrightarrow> cstr (padded n) = lit n"
  using str_copy_props(2) [of VFS_NAME_MAX "replicate VFS_NAME_MAX 0" "lit n"]
  by (simp add: padded_def VFS_NAME_MAX_def cstr_id)

text \<open>The names of the tree, and what is found under each.\<close>

lemma pool_ready:
  "node_pool initrd_ready ! 0 = dir_node ''/'' 1 0" "node_pool initrd_ready ! 1 = dir_node ''etc'' 2 1"
  "node_pool initrd_ready ! 2 = file_node ''hostname'' 3 content_hostname"
  "node_pool initrd_ready ! 3 = file_node ''motd'' 4 content_motd"
  "node_pool initrd_ready ! 4 = dir_node ''bin'' 5 2" "node_pool initrd_ready ! 5 = file_node ''README'' 6 content_readme"
  by (simp_all add: initrd_ready_def)

lemma dirs_ready:
  "dir_data_pool initrd_ready ! 0 = dir_of [1, 4, 5]" "dir_data_pool initrd_ready ! Suc 0 = dir_of [2, 3]"
  "dir_data_pool initrd_ready ! 2 = dir_of []"
  by (simp_all add: initrd_ready_def)

lemma node_names:
  "cstr (v_name (dir_node ''etc'' i d)) = lit ''etc''" "cstr (v_name (dir_node ''bin'' i d)) = lit ''bin''"
  "cstr (v_name (file_node ''hostname'' i c)) = lit ''hostname''" "cstr (v_name (file_node ''motd'' i c)) = lit ''motd''"
  "cstr (v_name (file_node ''README'' i c)) = lit ''README''"
  by (simp_all add: dir_node_def file_node_def padded_name lit_def)

lemma ready_finddir:
  "initrd_finddir initrd_ready (dir_node ''/'' 1 0) c =
     (if lit ''etc'' = cstr c then Some 1 else if lit ''bin'' = cstr c then Some 4 else if lit ''README'' = cstr c then Some 5 else None)"
  "initrd_finddir initrd_ready (dir_node ''etc'' 2 1) c =
     (if lit ''hostname'' = cstr c then Some 2 else if lit ''motd'' = cstr c then Some 3 else None)"
proof -
  have f: "fs_data (dir_node n i d) = Dir_data d" for n i d by (simp add: dir_node_def)
  have s: "first_from P a (Suc b) = (if a < Suc b then if P a then Some a else first_from P (Suc a) (Suc b) else None)" for P a b
    by (rule first_from.simps)
  note facts = initrd_finddir_def f dirs_ready dir_of_def child_named_def str_eq_iff pool_ready pool_ready(2) [unfolded One_nat_def]
    pool_ready(4) [unfolded numeral_3_eq_3] node_names MAX_CHILDREN_def s numeral_3_eq_3
  show "initrd_finddir initrd_ready (dir_node ''/'' 1 0) c =
     (if lit ''etc'' = cstr c then Some 1 else if lit ''bin'' = cstr c then Some 4 else if lit ''README'' = cstr c then Some 5 else None)"
    by (cases "lit ''etc'' = cstr c"; cases "lit ''bin'' = cstr c"; cases "lit ''README'' = cstr c") (simp_all add: facts)
  show "initrd_finddir initrd_ready (dir_node ''etc'' 2 1) c =
     (if lit ''hostname'' = cstr c then Some 2 else if lit ''motd'' = cstr c then Some 3 else None)"
    by (cases "lit ''hostname'' = cstr c"; cases "lit ''motd'' = cstr c") (simp_all add: facts)
qed

definition cat :: "u8 list \<Rightarrow> vfs \<Rightarrow> u8 list option" where
  "cat path k =
     (case vfs_open path k of
        Some (Some r, k) \<Rightarrow>
          (case node_at k r of
             None \<Rightarrow> None
           | Some v \<Rightarrow> map_option (fst \<circ> snd) (vfs_read (Some r) 0 (v_size v) (replicate (unat (v_size v)) 0) k))
      | _ \<Rightarrow> None)"

lemma cat_pool_file:
  assumes "vfs_open path k = Some (Some (Pool i), k')" and "node_pool (ird k') ! i = file_node n ino c" and "0 < length c" "length c < 2 ^ 32"
  shows "cat path k = Some c"
proof -
  have u: "unat (of_nat (length c) :: u32) = length c" using assms(4) by (simp add: unat_of_nat_small)
  then have "(0 :: u32) < of_nat (length c)" using assms(3) by (metis word_gt_0 unat_0 less_irrefl)
  then have "initrd_read (file_node n ino c) 0 (of_nat (length c)) (replicate (length c) 0) = (of_nat (length c), c)"
    using u by (subst initrd_read_spec [where data = c]) (simp_all add: file_node_def)
  then show ?thesis
    using assms(1,2) u by (simp add: cat_def node_at_def vfs_read_def vnode.truncate_def file_node_def)
qed

lemma mount_at_free [simp]: "mount_at w (free_unless m r k) = mount_at w k" "ird (free_unless m r k) = ird k"
  by (simp_all add: mount_at_def free_unless_def kfree_node_def)

text \<open>One step of a walk through the initrd.\<close>

lemma walk_pool_dir:
  assumes "node_pool (ird k) ! i = dir_node n ino d" and "mount_at (extend_path w c) k = None" and "length c < 128"
  shows "walk_names (c # cs) w (Some (Pool i)) m k =
    walk_names cs (extend_path w c) (map_option Pool (initrd_finddir (ird k) (dir_node n ino d) c)) False (free_unless m (Pool i) k)"
proof -
  have "node_at k (Pool i) = Some (vnode.truncate (dir_node n ino d))" using assms(1) by (simp add: node_at_def)
  moreover have "v_flags (vnode.truncate (dir_node n ino d)) = VFS_DIR" "v_ops (vnode.truncate (dir_node n ino d)) = Ops_initrd_dir"
    by (simp_all add: dir_node_def vnode.truncate_def)
  moreover have "VFS_DIR AND VFS_DIR \<noteq> 0" by (simp add: VFS_DIR_def)
  ultimately show ?thesis using assms by (simp add: vfs_finddir_def VFS_NAME_MAX_def)
qed

lemma walk_pool_file:
  assumes "node_pool (ird k) ! i = file_node n ino d" and "mount_at (extend_path w c) k = None" and "length c < 128"
  shows "walk_names (c # cs) w (Some (Pool i)) m k = Some (None, free_unless m (Pool i) k)"
  using assms by (simp add: node_at_def file_node_def vnode.truncate_def VFS_NAME_MAX_def VFS_FILE_def VFS_DIR_def)

lemma boot_opens:
  "\<exists>k'. vfs_open (lit ''/etc/hostname'') (vfs_ready s g) = Some (Some (Pool 2), k') \<and> ird k' = initrd_ready"
  "\<exists>k'. vfs_open (lit ''/etc//motd/'') (vfs_ready s g) = Some (Some (Pool 3), k') \<and> ird k' = initrd_ready"
  "\<exists>k'. vfs_open (lit ''README'') (vfs_ready s g) = Some (Some (Pool 5), k') \<and> ird k' = initrd_ready"
  "\<exists>k'. vfs_open (lit ''/etc/passwd'') (vfs_ready s g) = Some (None, k')"
  "\<exists>k'. vfs_open (lit ''/README/etc'') (vfs_ready s g) = Some (None, k')"
proof -
  define k where "k = vfs_ready s g"
  have k: "fs_root k = Some (Pool 0)" "ird k = initrd_ready" using vfs_ready_state [of s g] by (simp_all add: k_def)
  have m: "mount_at P k = (if P = [0x2F] then Some (Pool 0) else None)" for P
    by (simp add: k_def vfs_ready_mounts lit_def)
  note walk = vfs_open_eq k m strip_slash_def VFS_PATH_MAX_def extend_path_def walk_pool_dir walk_pool_file pool_ready
    pool_ready(2) [unfolded One_nat_def] ready_finddir ready_finddir(2) [unfolded One_nat_def]
  show "\<exists>k'. vfs_open (lit ''/etc/hostname'') (vfs_ready s g) = Some (Some (Pool 2), k') \<and> ird k' = initrd_ready"
    "\<exists>k'. vfs_open (lit ''/etc//motd/'') (vfs_ready s g) = Some (Some (Pool 3), k') \<and> ird k' = initrd_ready"
    "\<exists>k'. vfs_open (lit ''README'') (vfs_ready s g) = Some (Some (Pool 5), k') \<and> ird k' = initrd_ready"
    "\<exists>k'. vfs_open (lit ''/etc/passwd'') (vfs_ready s g) = Some (None, k')"
    "\<exists>k'. vfs_open (lit ''/README/etc'') (vfs_ready s g) = Some (None, k')"
    unfolding k_def [symmetric] by (simp_all add: walk lit_def Let_def del: walk_names.simps(3))
qed

text \<open>
  What a freshly booted kernel serves: the three files of the initrd, with exactly the contents the
  source gives them, under absolute and relative paths and with superfluous slashes; a name that
  is not in the tree, and a path that goes through a file, open to nothing.
\<close>

theorem boot_files:
  "cat (lit ''/etc/hostname'') (vfs_ready s g) = Some content_hostname \<and>
   cat (lit ''/etc//motd/'') (vfs_ready s g) = Some content_motd \<and>
   cat (lit ''README'') (vfs_ready s g) = Some content_readme \<and>
   cat (lit ''/etc/passwd'') (vfs_ready s g) = None \<and>
   cat (lit ''/README/etc'') (vfs_ready s g) = None"
proof -
  define k where "k = vfs_ready s g"
  note o = boot_opens [of s g, folded k_def]
  have l: "length content_hostname = 8" "length content_motd = 107" "length content_readme = 202"
    by (simp_all add: content_hostname_def content_motd_def content_readme_def lit_def)
  have "cat (lit ''/etc/hostname'') k = Some content_hostname"
    using o(1) cat_pool_file pool_ready(3) l(1) by fastforce
  moreover have "cat (lit ''/etc//motd/'') k = Some content_motd"
    using o(2) cat_pool_file pool_ready(4) l(2) by fastforce
  moreover have "cat (lit ''README'') k = Some content_readme"
    using o(3) cat_pool_file pool_ready(6) l(3) by fastforce
  moreover have "cat (lit ''/etc/passwd'') k = None" "cat (lit ''/README/etc'') k = None"
    using o(4,5) by (auto simp: cat_def)
  ultimately show ?thesis by (simp add: k_def)
qed

text \<open>The ownership theorem on the booted kernel: the walk to \<^verbatim>\<open>/etc/hostname\<close> leaves no heap node.\<close>

lemma vfs_open_ownership_witness:
  "\<exists>k'. vfs_open (lit ''/etc/hostname'') (vfs_ready demo_fs (\<lambda>_ _. True)) = Some (Some (Pool 2), k') \<and> knodes k' = Map.empty"
proof -
  define k where "k = vfs_ready demo_fs (\<lambda>_ _. True)"
  obtain k1 where k1: "vfs_open (lit ''/etc/hostname'') k = Some (Some (Pool 2), k1)" using boot_opens(1) k_def by blast
  have "knext k = 0" using vfs_ready_state by (simp add: k_def)
  then obtain r k' where o: "vfs_open (lit ''/etc/hostname'') k = Some (r, k')" "\<And>a. knodes k' a \<noteq> None \<Longrightarrow> r = Some (Kmem a)"
    using vfs_open_ownership [OF vfs_ready_ok, of "lit ''/etc/hostname''" demo_fs "\<lambda>_ _. True"] unfolding k_def by auto
  with k1 have "knodes k1 a = None" for a by (cases "knodes k1 a") auto
  then have "knodes k1 = Map.empty" by (rule ext)
  with k1 show ?thesis by (simp add: k_def)
qed

end
