(* ===== verification/Lib_Kprintf.thy ===== *)
theory Lib_Kprintf
  imports Lib_CString
begin

text \<open>
  The formatted output of \<^verbatim>\<open>kernel/kprintf.c\<close>, as the sequence of bytes handed to \<^verbatim>\<open>terminal_putchar\<close>.
  The variadic arguments are a list; an argument that is missing or not of the type its directive
  reads, and a format that ends in the middle of a directive (the loop then steps over the
  terminator), have no defined output and give \<open>None\<close>.
\<close>

datatype karg = KInt u32 | KStr "u8 list option"

definition digit_char :: "bool \<Rightarrow> u32 \<Rightarrow> u8" where
  "digit_char upper v = lit (if upper then ''0123456789ABCDEF'' else ''0123456789abcdef'') ! unat v"

lemma u32_div_less: "n \<noteq> 0 \<Longrightarrow> 2 \<le> base \<Longrightarrow> unat (n div base) < unat (n :: u32)"
  by (simp add: unat_div word_le_nat_alt unat_gt_0)

text \<open>The digits in the order they are stored in \<^verbatim>\<open>buf\<close>, the lowest first (\<open>base\<close> is at least 2 here).\<close>

function digits_rev :: "u32 \<Rightarrow> u32 \<Rightarrow> bool \<Rightarrow> u8 list" where
  "digits_rev n base upper =
     (if n \<noteq> 0 \<and> 2 \<le> base then digit_char upper (n mod base) # digits_rev (n div base) base upper else [])"
  by pat_completeness auto

termination
  by (relation "measure (\<lambda>(n, base, upper). unat n)") (simp_all add: u32_div_less)

declare digits_rev.simps [simp del]

definition print_uint :: "u32 \<Rightarrow> u32 \<Rightarrow> bool \<Rightarrow> u8 list" where
  "print_uint n base upper =
     (if base < 2 \<or> 16 < base then [] else if n = 0 then lit ''0'' else rev (digits_rev n base upper))"

definition print_int :: "u32 \<Rightarrow> u8 list" where
  "print_int n = (if sint n < 0 then lit ''-'' @ print_uint (- n) 10 False else print_uint n 10 False)"

fun kprintf :: "u8 list \<Rightarrow> karg list \<Rightarrow> u8 list option" where
  "kprintf [] args = Some []"
| "kprintf [c] args = (if c \<noteq> 0x25 then Some [c] else None)"
| "kprintf (c # d # fmt) args =
     (if c \<noteq> 0x25 then map_option ((#) c) (kprintf (d # fmt) args)
      else if d = 0x63 then
        (case args of KInt v # args \<Rightarrow> map_option ((#) (ucast v)) (kprintf fmt args) | _ \<Rightarrow> None)
      else if d = 0x73 then
        (case args of KStr s # args \<Rightarrow>
           map_option ((@) (case s of Some s \<Rightarrow> cstr s | None \<Rightarrow> lit ''(null)'')) (kprintf fmt args) | _ \<Rightarrow> None)
      else if d = 0x64 then
        (case args of KInt v # args \<Rightarrow> map_option ((@) (print_int v)) (kprintf fmt args) | _ \<Rightarrow> None)
      else if d = 0x75 then
        (case args of KInt v # args \<Rightarrow> map_option ((@) (print_uint v 10 False)) (kprintf fmt args) | _ \<Rightarrow> None)
      else if d = 0x78 then
        (case args of KInt v # args \<Rightarrow> map_option ((@) (print_uint v 16 False)) (kprintf fmt args) | _ \<Rightarrow> None)
      else if d = 0x58 then
        (case args of KInt v # args \<Rightarrow> map_option ((@) (print_uint v 16 True)) (kprintf fmt args) | _ \<Rightarrow> None)
      else if d = 0x70 then
        (case args of KInt v # args \<Rightarrow> map_option ((@) (lit ''0x'' @ print_uint v 16 False)) (kprintf fmt args) | _ \<Rightarrow> None)
      else if d = 0x25 then map_option ((#) 0x25) (kprintf fmt args)
      else map_option ((@) [0x25, d]) (kprintf fmt args))"

definition kputs :: "u8 list \<Rightarrow> u8 list" where "kputs s = cstr s"

section \<open>Numbers\<close>

text \<open>The value of a digit of either case, of a numeral, and of a numeral with an optional sign.\<close>

definition digit_val :: "u8 \<Rightarrow> nat" where
  "digit_val c = (if 97 \<le> c then unat c - 87 else if 65 \<le> c then unat c - 55 else unat c - 48)"

definition numeral_val :: "nat \<Rightarrow> u8 list \<Rightarrow> nat" where
  "numeral_val base ds = foldl (\<lambda>v d. v * base + digit_val d) 0 ds"

definition signed_val :: "u8 list \<Rightarrow> int" where
  "signed_val s = (case s of c # ds \<Rightarrow> if c = 0x2D then - int (numeral_val 10 ds) else int (numeral_val 10 s) | [] \<Rightarrow> 0)"

lemma digit_val_char: "v < 16 \<Longrightarrow> digit_val (digit_char upper v) = unat v"
proof -
  assume "v < 16"
  then have "unat v < 16" by (simp add: word_less_nat_alt)
  then have "unat v \<in> set [0..<16]" by simp
  moreover have "\<forall>k \<in> set [0..<16]. digit_val (lit (if upper then ''0123456789ABCDEF'' else ''0123456789abcdef'') ! k) = k"
    by (cases upper) (simp_all add: lit_def digit_val_def upt_rec)
  ultimately show ?thesis by (auto simp: digit_char_def)
qed

lemma digits_rev_spec:
  assumes "2 \<le> base" "base \<le> 16"
  shows "numeral_val (unat base) (rev (digits_rev n base upper)) = unat n \<and> unat n < unat base ^ length (digits_rev n base upper) \<and>
    (n \<noteq> 0 \<longrightarrow> unat base ^ (length (digits_rev n base upper) - 1) \<le> unat n \<and> digit_val (last (digits_rev n base upper)) \<noteq> 0)"
proof (induction "unat n" arbitrary: n rule: less_induct)
  case less
  show ?case
  proof (cases "n = 0")
    case True
    then show ?thesis by (subst (1 2 3) digits_rev.simps) (simp add: numeral_val_def)
  next
    case False
    have b: "2 \<le> unat base" using assms by (simp add: word_le_nat_alt)
    define q where "q = n div base"
    have q: "unat q = unat n div unat base" by (simp add: q_def unat_div)
    have "n mod base < 16" using assms by (metis b less_le_trans not_numeral_le_zero unat_0 word_mod_less_divisor word_neq_0_conv)
    then have d: "digit_val (digit_char upper (n mod base)) = unat n mod unat base"
      by (simp add: digit_val_char unat_mod)
    note ih = less [OF u32_div_less [OF False assms(1)], folded q_def]
    have e: "digits_rev n base upper = digit_char upper (n mod base) # digits_rev q base upper"
      using False assms by (subst digits_rev.simps) (simp add: q_def)
    define L where "L = length (digits_rev q base upper)"
    have v: "numeral_val (unat base) (rev (digits_rev q base upper)) = unat q" and u: "unat q < unat base ^ L"
      and l: "q \<noteq> 0 \<longrightarrow> unat base ^ (L - 1) \<le> unat q"
      and nz: "q \<noteq> 0 \<longrightarrow> digit_val (last (digits_rev q base upper)) \<noteq> 0" using ih by (simp_all add: L_def)
    have "numeral_val (unat base) (rev (digits_rev n base upper)) = unat q * unat base + unat n mod unat base"
      using v by (simp add: e d numeral_val_def)
    then have "numeral_val (unat base) (rev (digits_rev n base upper)) = unat n" by (simp add: q)
    moreover have "unat n < unat base ^ Suc L"
      using u b by (simp add: q div_less_iff_less_mult mult.commute)
    moreover have "unat base ^ L \<le> unat n"
    proof (cases "q = 0")
      case True
      then have "L = 0" by (simp add: L_def digits_rev.simps [of 0])
      with False show ?thesis by (simp add: unat_gt_0 Suc_le_eq)
    next
      case qn: False
      then have "L = Suc (L - 1)" using u by (cases L) (auto simp: unat_eq_zero)
      then have "unat base ^ L = unat base * unat base ^ (L - 1)" by (metis power_Suc)
      also have "\<dots> \<le> unat base * unat q" using l qn by simp
      also have "\<dots> \<le> unat n" by (simp add: q)
      finally show ?thesis .
    qed
    moreover have "digit_val (last (digits_rev n base upper)) \<noteq> 0"
    proof (cases "q = 0")
      case True
      then have "unat n div unat base = 0" using q by simp
      then have "unat n mod unat base = unat n" by (metis add.left_neutral div_mult_mod_eq mult_zero_left)
      then show ?thesis using True d False by (simp add: e digits_rev.simps [of 0] unat_eq_zero)
    next
      case qn: False
      then have "digits_rev q base upper \<noteq> []" using v by (auto simp: numeral_val_def unat_eq_zero)
      with nz qn show ?thesis by (simp add: e)
    qed
    ultimately show ?thesis by (simp add: e L_def)
  qed
qed

text \<open>
  Printing a number is the inverse of reading it: in every base from 2 to 16 and either case the
  digits denote the number, without a leading zero, and they always fit the 32-byte buffer they
  are built in.
\<close>

theorem print_uint_denotes:
  assumes "2 \<le> base" and "base \<le> 16"
  shows "numeral_val (unat base) (print_uint n base upper) = unat n \<and>
    length (digits_rev n base upper) \<le> 32 \<and>
    (n \<noteq> 0 \<longrightarrow> digit_val (hd (print_uint n base upper)) \<noteq> 0)"
proof (cases "n = 0")
  case True
  with assms show ?thesis
    by (simp add: print_uint_def lit_def numeral_val_def digit_val_def digits_rev.simps [of 0] linorder_not_less [symmetric])
next
  case False
  have b: "2 \<le> unat base" using assms by (simp add: word_le_nat_alt)
  define ds where "ds = digits_rev n base upper"
  have s: "numeral_val (unat base) (rev ds) = unat n" "unat base ^ (length ds - 1) \<le> unat n"
    using digits_rev_spec [OF assms, of n upper] False by (simp_all add: ds_def)
  have "2 ^ (length ds - 1) \<le> unat base ^ (length ds - 1)" using b by (rule power_mono) simp
  also have "\<dots> < 2 ^ 32" using s(2) by (rule order_le_less_trans) simp
  finally have "length ds - 1 < 32" by (rule power_less_imp_less_exp [rotated]) simp
  moreover have "digit_val (hd (rev ds)) \<noteq> 0"
    using digits_rev_spec [OF assms, of n upper] False by (simp add: ds_def hd_rev)
  ultimately show ?thesis using False s(1) assms by (simp add: print_uint_def ds_def linorder_not_less [symmetric])
qed

lemma print_uint_denotes_witness:
  "numeral_val (unat (16 :: u32)) (print_uint 0xCAFE 16 True) = 0xCAFE \<and> length (digits_rev 0xCAFE 16 True) \<le> 32"
  using print_uint_denotes [of 16 "0xCAFE" True] by simp

lemma wrap_mod: "2147483648 \<le> x \<Longrightarrow> x < 4294967296 \<Longrightarrow> (x + 2147483648) mod 4294967296 = x - (2147483648 :: int)"
  using mod_add_self2 [of "x - 2147483648" "4294967296 :: int"] by (simp add: add.commute)

lemma sint_cases: "sint (n :: u32) = (if uint n < 2 ^ 31 then uint n else uint n - 2 ^ 32)"
proof -
  have "sint n = (uint n + 2 ^ 31) mod 2 ^ 32 - 2 ^ 31"
    by (simp add: sint_uint signed_take_bit_eq_take_bit_shift take_bit_eq_mod)
  moreover have "0 \<le> uint n" "uint n < 2 ^ 32" using unsigned_less [of n, where 'a = int] by simp_all
  ultimately show ?thesis using wrap_mod [of "uint n"] by (cases "uint n < 2 ^ 31") simp_all
qed

lemma uint_minus_negative: "sint n < 0 \<Longrightarrow> uint (- n :: u32) = - sint n"
proof -
  assume s: "sint n < 0"
  have b: "0 \<le> uint n" "uint n < 2 ^ 32" using unsigned_less [of n, where 'a = int] by simp_all
  have "uint (- n) = (- uint n) mod 2 ^ 32" by (simp add: uint_word_ariths)
  with s b show ?thesis by (simp add: sint_cases zmod_zminus1_eq_if split: if_splits)
qed

lemma print_uint_first: "c \<in> set (print_uint n 10 False) \<Longrightarrow> c \<noteq> 0x2D"
proof -
  assume "c \<in> set (print_uint n 10 False)"
  then have "c \<in> set (lit ''0'') \<or> c \<in> set (digits_rev n 10 False)" by (auto simp: print_uint_def split: if_splits)
  moreover have "d \<noteq> 0x2D" if "d \<in> set (digits_rev n 10 False)" for d
    using that
  proof (induction n "10 :: u32" False rule: digits_rev.induct)
    case (1 n)
    have "n mod 10 < 10" by (rule word_mod_less_divisor) simp
    then have "unat (n mod 10) < 10" by (simp add: word_less_nat_alt)
    then have "unat (n mod 10) \<in> set [0..<10]" by simp
    moreover have "\<forall>k \<in> set [0..<10]. lit ''0123456789abcdef'' ! k \<noteq> 0x2D" by (simp add: lit_def upt_rec)
    ultimately have "digit_char False (n mod 10) \<noteq> 0x2D" unfolding digit_char_def by (simp only: if_False) blast
    with 1 show ?case by (subst (asm) (2) digits_rev.simps) (auto split: if_splits)
  qed
  ultimately show ?thesis by (auto simp: lit_def)
qed

text \<open>
  \<^verbatim>\<open>%d\<close> prints every 32-bit integer in decimal, the most negative one included (whose negation
  wraps to itself and is then printed as an unsigned number).
\<close>

theorem kprintf_signed_denotes:
  "\<exists>out. kprintf (lit ''%d'') [KInt n] = Some out \<and> signed_val out = sint n"
proof -
  have o: "kprintf (lit ''%d'') [KInt n] = Some (print_int n)" by (simp add: lit_def)
  have p: "numeral_val 10 (print_uint m 10 False) = unat m" for m
    using print_uint_denotes [of 10 m False] by simp
  have ne: "print_uint m 10 False \<noteq> []" for m
    using digits_rev.simps [of m 10 False] by (auto simp: print_uint_def lit_def)
  show ?thesis
  proof (cases "sint n < 0")
    case True
    then have "signed_val (print_int n) = - int (unat (- n))"
      using p by (simp add: print_int_def signed_val_def lit_def)
    also have "\<dots> = sint n" using True by (simp add: uint_minus_negative)
    finally show ?thesis using o by blast
  next
    case False
    obtain c ds where c: "print_uint n 10 False = c # ds" using ne [of n] by (cases "print_uint n 10 False") auto
    then have "c \<noteq> 0x2D" using print_uint_first [of c n] by simp
    then have "signed_val (print_int n) = int (unat n)" using False p [of n] c by (simp add: print_int_def signed_val_def)
    also have "\<dots> = sint n" using False unsigned_less [of n, where 'a = int] by (simp add: sint_cases split: if_splits)
    finally show ?thesis using o by blast
  qed
qed

section \<open>Formats the kernel uses\<close>

text \<open>Widths and flags are not directives: the shell's clock and MAC address print their format.\<close>

lemma width_not_supported: "kprintf (lit ''%02u'') (KInt n # args) = Some (lit ''%02u'')"
  by (simp add: lit_def)

text \<open>
  The format of \<^verbatim>\<open>proc_list\<close>: the two padded directives consume nothing, so \<^verbatim>\<open>%s\<close> is given the
  process id as its pointer.
\<close>

lemma proc_list_reads_pid_as_string:
  "kprintf (lit ''%-4u %-16s %s  0x%x'') [KInt pid, KStr nm, KStr st, KInt sp] = None"
  by (simp add: lit_def)

lemma format_ends_in_percent: "kprintf (lit ''100%'') args = None"
  by (simp add: lit_def)

end
