(* ===== verification/Usr_Accounts.thy ===== *)
theory Usr_Accounts
  imports Fs_Vfs Lib_Kprintf "HOL-Library.Monad_Syntax"
begin

text \<open>
  The user accounts, \<^verbatim>\<open>kernel/user.c\<close>: the table, its text form in \<^verbatim>\<open>/disk/etc/passwd\<close>, and the
  session. The buffer the text is built in and the pointer that scans it are the lists of the
  bytes written and still to be read. \<open>None\<close> is the use of a released node.
\<close>

definition USER_MAX :: nat where "USER_MAX = 16"
definition USER_NAME_MAX :: nat where "USER_NAME_MAX = 16"
definition USER_PASS_MAX :: nat where "USER_PASS_MAX = 32"
definition PRIV_USER :: u8 where "PRIV_USER = 1"
definition PRIV_ROOT :: u8 where "PRIV_ROOT = 2"

record user =
  u_name :: "u8 list"
  u_pass :: "u8 list"
  u_priv :: u8
  u_active :: bool

record accounts =
  users :: "user list"
  user_count :: nat
  current_user :: "nat option"
  afs :: vfs

definition say :: "u8 list \<Rightarrow> karg list \<Rightarrow> vfs \<Rightarrow> vfs" where
  "say fmt args k = (case kprintf fmt args of Some out \<Rightarrow> vprint out k | None \<Rightarrow> k)"

section \<open>Saving\<close>

text \<open>One line of the file, and the text of the table.\<close>

definition user_line :: "user \<Rightarrow> u8 list" where
  "user_line u = cstr (u_name u) @ [0x3A] @ cstr (u_pass u) @ [0x3A] @ [0x30 + u_priv u, 0x0A]"

definition users_text :: "user list \<Rightarrow> nat \<Rightarrow> u8 list" where
  "users_text us n = for_loop 0 n (\<lambda>i buf. if u_active (us ! i) then buf @ user_line (us ! i) else buf) []"

text \<open>Whether the operations of a node have \<^verbatim>\<open>mkdir\<close> and \<^verbatim>\<open>create\<close>, and the calls through them.\<close>

definition has_make :: "nref option \<Rightarrow> vfs \<Rightarrow> bool option" where
  "has_make n k = (case n of None \<Rightarrow> Some False | Some r \<Rightarrow> map_option (\<lambda>v. v_ops v = Ops_stackfs) (node_at k r))"

definition op_mkdir :: "nref option \<Rightarrow> u8 list \<Rightarrow> vfs \<Rightarrow> vfs option" where
  "op_mkdir n nm k =
     do { r \<leftarrow> n; v \<leftarrow> node_at k r; Some (k\<lparr>sfs_st := snd (bfs_mkdir v nm (sfs_st k))\<rparr>) }"

definition op_create :: "nref option \<Rightarrow> u8 list \<Rightarrow> vfs \<Rightarrow> vfs option" where
  "op_create n nm k =
     do { r \<leftarrow> n; v \<leftarrow> node_at k r; Some (k\<lparr>sfs_st := snd (bfs_create v nm 0 (sfs_st k))\<rparr>) }"

text \<open>The directory \<^verbatim>\<open>/disk/etc\<close>, made if need be, and \<^verbatim>\<open>passwd\<close> in it; the flag tells of a silent return.\<close>

definition open_etc :: "vfs \<Rightarrow> (nref option \<times> vfs) option" where
  "open_etc k =
     do { (etc, k) \<leftarrow> vfs_open (lit ''/disk/etc'') k;
          if etc \<noteq> None then Some (etc, k)
          else do { (disk, k) \<leftarrow> vfs_open (lit ''/disk'') k;
                    able \<leftarrow> has_make disk k;
                    if \<not> able then Some (None, k)
                    else do { k \<leftarrow> op_mkdir disk (lit ''etc'') k; vfs_open (lit ''/disk/etc'') k } } }"

definition open_passwd :: "nref option \<Rightarrow> vfs \<Rightarrow> (bool \<times> nref option \<times> vfs) option" where
  "open_passwd etc k =
     do { (f, k) \<leftarrow> vfs_finddir etc (lit ''passwd'') k;
          if f \<noteq> None then Some (True, f, k)
          else do { able \<leftarrow> has_make etc k;
                    if \<not> able then Some (False, None, k)
                    else do { k \<leftarrow> op_create etc (lit ''passwd'') k;
                              (etc, k) \<leftarrow> vfs_open (lit ''/disk/etc'') k;
                              if etc = None then Some (False, None, k)
                              else do { (f, k) \<leftarrow> vfs_finddir etc (lit ''passwd'') k; Some (True, f, k) } } } }"

definition users_save :: "accounts \<Rightarrow> accounts option" where
  "users_save s =
     (let buf = users_text (users s) (user_count s); pos = length buf
      in if pos = 0 then Some s
         else do { (etc, k) \<leftarrow> open_etc (afs s);
                   if etc = None then Some (s\<lparr>afs := k\<rparr>)
                   else do { (go, f, k) \<leftarrow> open_passwd etc k;
                             if \<not> go then Some (s\<lparr>afs := k\<rparr>)
                             else if f = None then Some (s\<lparr>afs := say (lit ''[user] ERROR: cannot create passwd'' @ [10]) [] k\<rparr>)
                             else do { (wr, k) \<leftarrow> vfs_write f 0 (of_nat pos) buf k;
                                       let k = kfree_node (the f) k;
                                       Some (s\<lparr>afs := (if 0 < sint wr
                                         then say (lit ''[user] saved %d user(s) to disk'' @ [10]) [KInt (of_nat (user_count s))] k
                                         else say (lit ''[user] ERROR: passwd write failed'' @ [10]) [] k)\<rparr>) } } })"

section \<open>Loading\<close>

text \<open>\<^verbatim>\<open>while(*p&&*p!=':'&&*p!='\n'&&ni<max-1)name[ni++]=*p++;\<close> with \<open>n\<close> places left\<close>

fun take_field :: "nat \<Rightarrow> u8 list \<Rightarrow> u8 list \<times> u8 list" where
  "take_field n [] = ([], [])"
| "take_field 0 p = ([], p)"
| "take_field (Suc n) (c # p) =
     (if c \<noteq> 0x3A \<and> c \<noteq> 0x0A then (let (f, q) = take_field n p in (c # f, q)) else ([], c # p))"

text \<open>\<^verbatim>\<open>while(*p&&*p!='\n')p++;if(*p)p++;\<close>\<close>

fun skip_line :: "u8 list \<Rightarrow> u8 list" where
  "skip_line [] = []"
| "skip_line (c # p) = (if c = 0x0A then p else skip_line p)"

lemma skip_line_le: "length (skip_line p) \<le> length p"
  by (induction p) auto

lemma take_field_le: "length (snd (take_field n p)) \<le> length p"
  by (induction n p rule: take_field.induct) (auto simp: split_beta)

text \<open>The parts of a line: name, password, privilege, and what follows; or the rest to go on with.\<close>

definition scan_line :: "u8 list \<Rightarrow> u8 list + (u8 list \<times> u8 list \<times> u8 \<times> u8 list)" where
  "scan_line p =
     (let (nm, p) = take_field (USER_NAME_MAX - 1) p
      in case p of
        [] \<Rightarrow> Inl []
      | c # p1 \<Rightarrow>
          if c \<noteq> 0x3A then Inl (skip_line p)
          else (let (pass, p) = take_field (USER_PASS_MAX - 1) p1
            in case p of
              [] \<Rightarrow> Inl []
            | c # p2 \<Rightarrow>
                if c \<noteq> 0x3A then Inl (skip_line p)
                else (let priv = (case p2 of d # _ \<Rightarrow> if 0x30 \<le> d \<and> d \<le> 0x39 then d - 0x30 else 0 | [] \<Rightarrow> 0);
                          p = skip_line p2
                      in if nm = [] then Inl p else Inr (nm, pass, priv, p))))"

lemma skip_line_less: "p \<noteq> [] \<Longrightarrow> length (skip_line p) < length p"
  by (cases p) (auto simp: skip_line_le less_Suc_eq_le)

lemma scan_line_shorter:
  "p \<noteq> [] \<Longrightarrow> scan_line p = Inl q \<Longrightarrow> length q < length p"
  "scan_line p = Inr (nm, pass, priv, q) \<Longrightarrow> length q < length p"
proof -
  obtain f1 p1 where 1: "take_field (USER_NAME_MAX - Suc 0) p = (f1, p1)" by fastforce
  with take_field_le [of "USER_NAME_MAX - Suc 0" p] have l1: "length p1 \<le> length p" by simp
  have "(p \<noteq> [] \<longrightarrow> scan_line p = Inl q \<longrightarrow> length q < length p) \<and>
      (scan_line p = Inr (nm, pass, priv, q) \<longrightarrow> length q < length p)"
  proof (cases p1)
    case Nil
    then show ?thesis by (auto simp: scan_line_def 1)
  next
    case (Cons c r)
    obtain f2 p2 where 2: "take_field (USER_PASS_MAX - Suc 0) r = (f2, p2)" by fastforce
    with take_field_le [of "USER_PASS_MAX - Suc 0" r] have l2: "length p2 \<le> length r" by simp
    have "length (skip_line p1) < length p" "length (skip_line p2) < length p" "length (skip_line (tl p2)) < length p" "p \<noteq> []"
      using skip_line_le [of r] skip_line_le [of p2] skip_line_le [of "tl p2"] l1 l2 Cons by auto
    then show ?thesis by (cases p2) (auto simp: scan_line_def 1 2 Let_def Cons split: if_splits)
  qed
  then show "p \<noteq> [] \<Longrightarrow> scan_line p = Inl q \<Longrightarrow> length q < length p"
    "scan_line p = Inr (nm, pass, priv, q) \<Longrightarrow> length q < length p" by blast+
qed

function parse_users :: "u8 list \<Rightarrow> user list \<Rightarrow> nat \<Rightarrow> user list \<times> nat" where
  "parse_users p us n =
     (if p \<noteq> [] \<and> n < USER_MAX then
        (case scan_line p of
           Inl p \<Rightarrow> parse_users p us n
         | Inr (nm, pass, priv, p) \<Rightarrow>
             parse_users p (us[n := (us ! n)\<lparr>u_name := str_copy (u_name (us ! n)) nm USER_NAME_MAX,
               u_pass := str_copy (u_pass (us ! n)) pass USER_PASS_MAX, u_priv := priv, u_active := True\<rparr>]) (n + 1))
      else (us, n))"
  by pat_completeness auto
termination
  by (relation "measure (\<lambda>(p, us, n). length p)") (auto dest: scan_line_shorter)

declare parse_users.simps [simp del]

text \<open>
  \<^verbatim>\<open>users_load\<close>: the number of accounts read, 0 when there is nothing to read. The bytes are those of
  the file up to the first NUL.
\<close>

definition users_load :: "accounts \<Rightarrow> (nat \<times> accounts) option" where
  "users_load s =
     do { (f, k) \<leftarrow> vfs_open (lit ''/disk/etc/passwd'') (afs s);
          case f of
            None \<Rightarrow> Some (0, s\<lparr>afs := say (lit ''[user] no passwd file'' @ [10]) [] k\<rparr>)
          | Some r \<Rightarrow>
              do { v \<leftarrow> node_at k r;
                   if v_size v = 0 \<or> v_size v + 1 = 0 \<or> \<not> room k then Some (0, s\<lparr>afs := kfree_node r k\<rparr>)
                   else do { (nr, buf, k) \<leftarrow> vfs_read f 0 (v_size v) (replicate (unat (v_size v) + 1) 0) k;
                             let k = kfree_node r k;
                             if sint nr \<le> 0 then Some (0, s\<lparr>afs := k\<rparr>)
                             else (let (us, n) = parse_users (cstr (take (unat nr) buf)) (users s) 0
                               in Some (n, s\<lparr>users := us, user_count := n,
                                    afs := say (lit ''[user] loaded %d user(s) from disk'' @ [10]) [KInt (of_nat n)] k\<rparr>)) } } }"

section \<open>Accounts and the session\<close>

definition set_user :: "nat \<Rightarrow> u8 list \<Rightarrow> u8 list \<Rightarrow> u8 \<Rightarrow> accounts \<Rightarrow> accounts" where
  "set_user i nm pass priv s =
     s\<lparr>users := (users s)[i := (users s ! i)\<lparr>u_name := str_copy (u_name (users s ! i)) nm USER_NAME_MAX,
        u_pass := str_copy (u_pass (users s ! i)) pass USER_PASS_MAX, u_priv := priv, u_active := True\<rparr>]\<rparr>"

definition user_init :: "accounts \<Rightarrow> accounts option" where
  "user_init s =
     do { (n, s) \<leftarrow> users_load (s\<lparr>user_count := 0, current_user := None\<rparr>);
          if 0 < n then Some s
          else (let s = set_user 0 (lit ''root'') (lit ''admin'') PRIV_ROOT s;
                    s = set_user 1 (lit ''stack'') (lit ''stack'') PRIV_USER s
                in Some (s\<lparr>user_count := 2, afs := say (lit ''[user] default accounts created'' @ [10]) [] (afs s)\<rparr>)) }"

text \<open>The first active account of a name; \<open>False\<close> is the code's -1.\<close>

definition find_user :: "u8 list \<Rightarrow> accounts \<Rightarrow> nat option" where
  "find_user nm s = first_from (\<lambda>i. u_active (users s ! i) \<and> str_eq (u_name (users s ! i)) nm) 0 (user_count s)"

definition user_add :: "u8 list \<Rightarrow> u8 list \<Rightarrow> u8 \<Rightarrow> accounts \<Rightarrow> (bool \<times> accounts) option" where
  "user_add nm pass priv s =
     (if USER_MAX \<le> user_count s then Some (False, s)
      else (let s = set_user (user_count s) nm pass priv s; s = s\<lparr>user_count := user_count s + 1\<rparr>
            in map_option (Pair True) (users_save s)))"

definition user_del :: "u8 list \<Rightarrow> accounts \<Rightarrow> (bool \<times> accounts) option" where
  "user_del nm s =
     (case find_user nm s of
        Some i \<Rightarrow> map_option (Pair True) (users_save (s\<lparr>users := (users s)[i := (users s ! i)\<lparr>u_active := False\<rparr>]\<rparr>))
      | None \<Rightarrow> Some (False, s))"

definition user_chpass :: "u8 list \<Rightarrow> u8 list \<Rightarrow> accounts \<Rightarrow> (bool \<times> accounts) option" where
  "user_chpass nm newpass s =
     (case find_user nm s of
        Some i \<Rightarrow> map_option (Pair True) (users_save (s\<lparr>users := (users s)
          [i := (users s ! i)\<lparr>u_pass := str_copy (u_pass (users s ! i)) newpass USER_PASS_MAX\<rparr>]\<rparr>))
      | None \<Rightarrow> Some (False, s))"

definition user_login :: "u8 list \<Rightarrow> u8 list \<Rightarrow> accounts \<Rightarrow> bool \<times> accounts" where
  "user_login nm pass s =
     (case first_from (\<lambda>i. u_active (users s ! i) \<and> str_eq (u_name (users s ! i)) nm \<and> str_eq (u_pass (users s ! i)) pass)
             0 (user_count s) of
        Some i \<Rightarrow> (True, s\<lparr>current_user := Some i\<rparr>)
      | None \<Rightarrow> (False, s))"

definition user_logout :: "accounts \<Rightarrow> accounts" where "user_logout s = s\<lparr>current_user := None\<rparr>"

definition user_current :: "accounts \<Rightarrow> user option" where
  "user_current s = map_option (\<lambda>i. users s ! i) (current_user s)"

definition user_is_root :: "accounts \<Rightarrow> bool" where
  "user_is_root s = (case current_user s of None \<Rightarrow> False | Some i \<Rightarrow> PRIV_ROOT \<le> u_priv (users s ! i))"

definition user_level :: "user \<Rightarrow> u8 list" where
  "user_level u = (if u_priv u = PRIV_ROOT then lit ''root (admin)'' else if u_priv u = PRIV_USER then lit ''user'' else lit ''guest'')"

text \<open>The text of \<^verbatim>\<open>user_list\<close>, without its colours.\<close>

definition user_list :: "accounts \<Rightarrow> accounts" where
  "user_list s =
     s\<lparr>afs := for_loop 0 (user_count s)
        (\<lambda>i k. if u_active (users s ! i)
               then say (lit ''%-10s %s'' @ [10]) [KStr (Some (u_name (users s ! i))), KStr (Some (user_level (users s ! i)))] k
               else k)
        (vprint (lit ''NAME       LEVEL'' @ [10]) (afs s))\<rparr>"

section \<open>The file is the table\<close>

text \<open>An account whose line can be read back, and what of it is in the line.\<close>

definition storable :: "user \<Rightarrow> bool" where
  "storable u \<longleftrightarrow> cstr (u_name u) \<noteq> [] \<and> length (cstr (u_name u)) \<le> 15 \<and> length (cstr (u_pass u)) \<le> 31 \<and>
     0x3A \<notin> set (cstr (u_name u)) \<and> 0x0A \<notin> set (cstr (u_name u)) \<and>
     0x3A \<notin> set (cstr (u_pass u)) \<and> 0x0A \<notin> set (cstr (u_pass u)) \<and> u_priv u \<le> 9"

definition credentials :: "user \<Rightarrow> u8 list \<times> u8 list \<times> u8" where
  "credentials u = (cstr (u_name u), cstr (u_pass u), u_priv u)"

lemma take_field_prefix:
  "length xs \<le> n \<Longrightarrow> 0x3A \<notin> set xs \<Longrightarrow> 0x0A \<notin> set xs \<Longrightarrow> take_field n (xs @ 0x3A # p) = (xs, 0x3A # p)"
proof (induction xs arbitrary: n)
  case Nil
  then show ?case by (cases n) simp_all
next
  case (Cons x xs)
  then obtain m where "n = Suc m" by (cases n) auto
  with Cons show ?case by simp
qed

lemma scan_user_line:
  assumes "storable u"
  shows "scan_line (user_line u @ p) = Inr (cstr (u_name u), cstr (u_pass u), u_priv u, p)"
proof -
  have d: "0x30 \<le> 0x30 + u_priv u" "0x30 + u_priv u \<le> 0x39" "0x30 + u_priv u \<noteq> 0x0A"
  proof -
    have v: "unat (u_priv u) \<le> 9" using assms by (simp add: storable_def word_le_nat_alt)
    then have "unat (0x30 + u_priv u) = 48 + unat (u_priv u)" by (subst unat_add_no_wrap) simp_all
    with v show "0x30 \<le> 0x30 + u_priv u" "0x30 + u_priv u \<le> 0x39" "0x30 + u_priv u \<noteq> 0x0A"
      by (auto simp: word_le_nat_alt word_unat_eq_iff)
  qed
  have 1: "take_field (USER_NAME_MAX - Suc 0) (user_line u @ p) = (cstr (u_name u), 0x3A # cstr (u_pass u) @ [0x3A, 0x30 + u_priv u, 0x0A] @ p)"
    using assms take_field_prefix [of "cstr (u_name u)" 15] by (simp add: user_line_def storable_def USER_NAME_MAX_def)
  have 2: "take_field (USER_PASS_MAX - Suc 0) (cstr (u_pass u) @ [0x3A, 0x30 + u_priv u, 0x0A] @ p) =
      (cstr (u_pass u), [0x3A, 0x30 + u_priv u, 0x0A] @ p)"
    using assms take_field_prefix [of "cstr (u_pass u)" 31] by (simp add: storable_def USER_PASS_MAX_def)
  show ?thesis using assms d by (simp add: scan_line_def 1 [simplified] 2 [simplified] storable_def)
qed

definition table_ok :: "user list \<Rightarrow> bool" where
  "table_ok us \<longleftrightarrow> length us = USER_MAX \<and> (\<forall>u \<in> set us. length (u_name u) = USER_NAME_MAX \<and> length (u_pass u) = USER_PASS_MAX)"

lemma users_text_eq: "n \<le> length us \<Longrightarrow> users_text us n = concat (map user_line (filter u_active (take n us)))"
  unfolding users_text_def
proof (induction n)
  case 0
  then show ?case by simp
next
  case (Suc n)
  then show ?case by (simp add: for_loop_Suc take_Suc_conv_app_nth)
qed

lemma parse_user_line:
  assumes "storable u" and "n < USER_MAX"
  shows "parse_users (user_line u @ p) us n =
    parse_users p (us[n := (us ! n)\<lparr>u_name := str_copy (u_name (us ! n)) (cstr (u_name u)) USER_NAME_MAX,
      u_pass := str_copy (u_pass (us ! n)) (cstr (u_pass u)) USER_PASS_MAX, u_priv := u_priv u, u_active := True\<rparr>]) (n + 1)"
proof -
  have "user_line u @ p \<noteq> []" by (simp add: user_line_def)
  with assms show ?thesis by (subst parse_users.simps) (simp add: scan_user_line)
qed

lemma parse_lines:
  assumes "table_ok T" and "\<forall>u \<in> set L. storable u" and "m + length L \<le> USER_MAX"
  shows "\<exists>T'. parse_users (concat (map user_line L)) T m = (T', m + length L) \<and> take m T' = take m T \<and> table_ok T' \<and>
    map credentials (take (length L) (drop m T')) = map credentials L \<and> (\<forall>u \<in> set (take (length L) (drop m T')). u_active u)"
  using assms
proof (induction L arbitrary: T m)
  case Nil
  then show ?case by (subst parse_users.simps) simp
next
  case (Cons u L)
  then have m: "m < USER_MAX" "m < length T" "storable u" by (simp_all add: table_ok_def)
  define v where "v = (T ! m)\<lparr>u_name := str_copy (u_name (T ! m)) (cstr (u_name u)) USER_NAME_MAX,
      u_pass := str_copy (u_pass (T ! m)) (cstr (u_pass u)) USER_PASS_MAX, u_priv := u_priv u, u_active := True\<rparr>"
  have Tm: "length (u_name (T ! m)) = USER_NAME_MAX" "length (u_pass (T ! m)) = USER_PASS_MAX"
    using Cons.prems(1) m(2) by (simp_all add: table_ok_def)
  have cv: "credentials v = credentials u" "u_active v" "length (u_name v) = USER_NAME_MAX" "length (u_pass v) = USER_PASS_MAX"
    using m(3) Tm str_copy_props [of USER_NAME_MAX "u_name (T ! m)" "cstr (u_name u)"]
      str_copy_props [of USER_PASS_MAX "u_pass (T ! m)" "cstr (u_pass u)"] cstr_no_nul
    by (simp_all add: v_def credentials_def storable_def USER_NAME_MAX_def USER_PASS_MAX_def cstr_id)
  have "table_ok (T[m := v])" using Cons.prems(1) cv by (auto simp: table_ok_def dest: set_update_subset_insert [THEN subsetD])
  with Cons.IH [of "T[m := v]" "m + 1"] Cons.prems obtain T' where
    T': "parse_users (concat (map user_line L)) (T[m := v]) (m + 1) = (T', m + 1 + length L)" "take (m + 1) T' = take (m + 1) (T[m := v])"
    "table_ok T'" "map credentials (take (length L) (drop (m + 1) T')) = map credentials L"
    "\<forall>u \<in> set (take (length L) (drop (m + 1) T')). u_active u" by auto
  have "parse_users (concat (map user_line (u # L))) T m = (T', m + length (u # L))"
    using parse_user_line [OF m(3,1), of "concat (map user_line L)" T] T'(1) by (simp add: v_def)
  moreover have "take m T' = take m T"
    using arg_cong [OF T'(2), of "take m"] by (simp add: min_def)
  moreover have "drop m T' = v # drop (m + 1) T'"
  proof -
    have lt: "m < length T'" using T'(3) m(1) by (simp add: table_ok_def)
    have "T' ! m = take (m + 1) T' ! m" by simp
    also have "\<dots> = v" using T'(2) m(2) by simp
    finally show ?thesis using lt by (simp add: Cons_nth_drop_Suc [symmetric])
  qed
  ultimately show ?case using T' cv by auto
qed

text \<open>
  C27. The password file holds the accounts that can be stored: reading the text \<^verbatim>\<open>users_save\<close> writes back into any table
  gives the active accounts, in order, with their names, passwords and privileges, provided each has
  a name of 1 to 15 and a password of up to 31 characters, none of them a colon or a newline, and a
  level of one digit. (With a colon they come back changed: lemma \<open>colon_in_password\<close>.)
\<close>

theorem passwd_roundtrip:
  assumes "\<forall>u \<in> set (take n us). u_active u \<longrightarrow> storable u" and "n \<le> length us" and "n \<le> USER_MAX" and "table_ok T"
  shows "\<exists>T'. parse_users (users_text us n) T 0 = (T', length (filter u_active (take n us))) \<and>
    map credentials (take (length (filter u_active (take n us))) T') = map credentials (filter u_active (take n us)) \<and>
    (\<forall>u \<in> set (take (length (filter u_active (take n us))) T'). u_active u)"
proof -
  define L where "L = filter u_active (take n us)"
  have "length L \<le> length (take n us)" unfolding L_def by (rule length_filter_le)
  also have "\<dots> \<le> USER_MAX" using assms(2,3) by simp
  finally have l: "0 + length L \<le> USER_MAX" by simp
  have "\<forall>u \<in> set L. storable u" using assms(1) by (auto simp: L_def)
  from parse_lines [OF assms(4) this l] assms(2) show ?thesis by (auto simp: users_text_eq L_def)
qed

definition blank_user :: user where
  "blank_user = \<lparr>u_name = replicate USER_NAME_MAX 0, u_pass = replicate USER_PASS_MAX 0, u_priv = 0, u_active = False\<rparr>"

definition mk_user :: "string \<Rightarrow> string \<Rightarrow> u8 \<Rightarrow> user" where
  "mk_user nm pass priv = \<lparr>u_name = str_copy (replicate USER_NAME_MAX 0) (lit nm) USER_NAME_MAX,
     u_pass = str_copy (replicate USER_PASS_MAX 0) (lit pass) USER_PASS_MAX, u_priv = priv, u_active = True\<rparr>"

definition demo_users :: "user list" where
  "demo_users = [mk_user ''root'' ''admin'' 2, mk_user ''stack'' ''stack'' 1, mk_user ''old'' ''gone'' 1\<lparr>u_active := False\<rparr>, mk_user ''ann'' '''' 0]"

lemma mk_user_fields:
  assumes "length (lit nm) \<le> 15" "0 \<notin> set (lit nm)" "length (lit pass) \<le> 31" "0 \<notin> set (lit pass)"
  shows "cstr (u_name (mk_user nm pass priv)) = lit nm" "cstr (u_pass (mk_user nm pass priv)) = lit pass"
    "u_priv (mk_user nm pass priv) = priv" "u_active (mk_user nm pass priv)"
  using assms str_copy_props(2) [of USER_NAME_MAX "replicate USER_NAME_MAX 0" "lit nm"]
    str_copy_props(2) [of USER_PASS_MAX "replicate USER_PASS_MAX 0" "lit pass"]
  by (simp_all add: mk_user_def USER_NAME_MAX_def USER_PASS_MAX_def cstr_id)

lemma blank_table_ok: "table_ok (replicate USER_MAX blank_user)"
  by (simp add: table_ok_def blank_user_def)

lemma passwd_roundtrip_witness:
  "\<exists>T'. parse_users (users_text demo_users 4) (replicate USER_MAX blank_user) 0 = (T', 3) \<and>
     map credentials (take 3 T') = [(lit ''root'', lit ''admin'', 2), (lit ''stack'', lit ''stack'', 1), (lit ''ann'', [], 0)]"
proof -
  have f: "cstr (u_name (mk_user ''root'' ''admin'' p)) = lit ''root''" "cstr (u_pass (mk_user ''root'' ''admin'' p)) = lit ''admin''"
    "cstr (u_name (mk_user ''stack'' ''stack'' p)) = lit ''stack''" "cstr (u_pass (mk_user ''stack'' ''stack'' p)) = lit ''stack''"
    "cstr (u_name (mk_user ''ann'' '''' p)) = lit ''ann''" "cstr (u_pass (mk_user ''ann'' '''' p)) = []"
    "u_priv (mk_user a b p) = p" "u_active (mk_user a b p)" for a b p
    by (simp_all add: mk_user_fields lit_def mk_user_def [of a b p])
  have fl: "filter u_active (take 4 demo_users) = [mk_user ''root'' ''admin'' 2, mk_user ''stack'' ''stack'' 1, mk_user ''ann'' '''' 0]"
    by (simp add: demo_users_def f)
  have "\<forall>u \<in> set (take 4 demo_users). u_active u \<longrightarrow> storable u"
    by (simp add: demo_users_def f storable_def lit_def)
  moreover have "4 \<le> length demo_users" "4 \<le> USER_MAX" by (simp_all add: demo_users_def USER_MAX_def)
  ultimately obtain T' where "parse_users (users_text demo_users 4) (replicate USER_MAX blank_user) 0 = (T', length (filter u_active (take 4 demo_users)))"
    "map credentials (take (length (filter u_active (take 4 demo_users))) T') = map credentials (filter u_active (take 4 demo_users))"
    using passwd_roundtrip [OF _ _ _ blank_table_ok, of 4 demo_users] by blast
  moreover have "length (filter u_active (take 4 demo_users)) = 3" unfolding fl by simp
  ultimately show ?thesis by (intro exI [of _ T']) (simp add: fl credentials_def f numeral_3_eq_3)
qed

text \<open>
  A colon in a password moves the privilege: an ordinary account created with the password \<^verbatim>\<open>x:2\<close> is
  loaded, at the next boot, as a root account with the password \<^verbatim>\<open>x\<close>.
\<close>

lemma colon_in_password:
  "\<exists>T'. parse_users (users_text [mk_user ''bob'' ''x:2'' PRIV_USER] 1) (replicate USER_MAX blank_user) 0 = (T', 1) \<and>
     credentials (T' ! 0) = (lit ''bob'', lit ''x'', PRIV_ROOT)"
proof -
  have f: "cstr (u_name (mk_user ''bob'' ''x:2'' p)) = lit ''bob''" "cstr (u_pass (mk_user ''bob'' ''x:2'' p)) = lit ''x:2''"
    "u_priv (mk_user a b p) = p" "u_active (mk_user a b p)" for a b p
    by (simp_all add: mk_user_fields lit_def mk_user_def [of a b p])
  define v where "v = mk_user ''bob'' ''x'' 2"
  have v: "storable v" "credentials v = (lit ''bob'', lit ''x'', 2)"
    by (simp_all add: v_def storable_def credentials_def mk_user_fields lit_def)
  have "users_text [mk_user ''bob'' ''x:2'' PRIV_USER] 1 = lit ''bob:x:2:1'' @ [10]"
    by (simp add: users_text_eq f user_line_def lit_def PRIV_USER_def)
  moreover have "scan_line (lit ''bob:x:2:1'' @ [10]) = Inr (lit ''bob'', lit ''x'', 2, [])"
    by code_simp
  ultimately have "parse_users (users_text [mk_user ''bob'' ''x:2'' PRIV_USER] 1) (replicate USER_MAX blank_user) 0 =
      ((replicate USER_MAX blank_user)[0 := blank_user\<lparr>u_name := str_copy (u_name blank_user) (lit ''bob'') USER_NAME_MAX,
        u_pass := str_copy (u_pass blank_user) (lit ''x'') USER_PASS_MAX, u_priv := 2, u_active := True\<rparr>], 1)"
    by (subst parse_users.simps, simp add: USER_MAX_def lit_def)
      (subst parse_users.simps, simp)
  then show ?thesis
    using mk_user_fields [of "''bob''" "''x''" 2]
    by (simp add: credentials_def mk_user_def blank_user_def USER_MAX_def PRIV_ROOT_def lit_def)
qed

section \<open>Logging in\<close>

definition matches :: "u8 list \<Rightarrow> u8 list \<Rightarrow> user \<Rightarrow> bool" where
  "matches nm pass u \<longleftrightarrow> u_active u \<and> cstr (u_name u) = cstr nm \<and> cstr (u_pass u) = cstr pass"

text \<open>
  Logging in succeeds exactly when some active account has that name and password. The session
  is then the first such account's, with root rights exactly if its privilege is at least 2; a
  failed attempt changes nothing, the session before it included, and never grants rights.
\<close>

theorem user_login_spec:
  "(fst (user_login nm pass s) \<longleftrightarrow> (\<exists>i. i < user_count s \<and> matches nm pass (users s ! i))) \<and>
   snd (user_login nm pass s) = (case first_from (\<lambda>i. matches nm pass (users s ! i)) 0 (user_count s) of
     None \<Rightarrow> s | Some i \<Rightarrow> s\<lparr>current_user := Some i\<rparr>) \<and>
   user_is_root (snd (user_login nm pass s)) = (case first_from (\<lambda>i. matches nm pass (users s ! i)) 0 (user_count s) of
     None \<Rightarrow> user_is_root s | Some i \<Rightarrow> 2 \<le> u_priv (users s ! i))"
proof -
  have e: "(\<lambda>i. u_active (users s ! i) \<and> str_eq (u_name (users s ! i)) nm \<and> str_eq (u_pass (users s ! i)) pass) =
      (\<lambda>i. matches nm pass (users s ! i))"
    by (auto simp: matches_def str_eq_iff)
  show ?thesis
  proof (cases "first_from (\<lambda>i. matches nm pass (users s ! i)) 0 (user_count s)")
    case None
    then have "user_login nm pass s = (False, s)" by (simp add: user_login_def e)
    moreover have "\<not> (\<exists>i. i < user_count s \<and> matches nm pass (users s ! i))" using None by (auto simp: first_from_None)
    ultimately show ?thesis using None by simp
  next
    case (Some i)
    then have l: "user_login nm pass s = (True, s\<lparr>current_user := Some i\<rparr>)" by (simp add: user_login_def e)
    have "i < user_count s" "matches nm pass (users s ! i)" using first_from_SomeD [OF Some] by auto
    then have "\<exists>i. i < user_count s \<and> matches nm pass (users s ! i)" by blast
    with Some show ?thesis by (simp add: l user_is_root_def PRIV_ROOT_def)
  qed
qed

text \<open>The level column of \<^verbatim>\<open>user_list\<close> shows the name: the width in \<^verbatim>\<open>%-10s\<close> makes it plain text.\<close>

lemma user_list_shows_no_level:
  "kprintf (lit ''%-10s %s'' @ [10]) [KStr (Some nm), KStr (Some lvl)] = Some (lit ''%-10s '' @ cstr nm @ [10])"
  by (simp add: lit_def)

end
