(* ===== verification/Hw_Io.thy ===== *)
theory Hw_Io
  imports Prelude
begin

text \<open>
  Port and memory-mapped I/O (\<^verbatim>\<open>arch/x86/io.h\<close>). The machine behind the ports is a parameter: a
  device answers a read from the whole history of accesses, the read itself included, so any
  deterministic device is one. What the kernel did is the history, newest access first. Messages
  for the serial line are collected as text; the line itself is in \<^verbatim>\<open>Drv_Timer\<close>. A store to memory
  that a card reads by itself is an access too, so that a device sees it in order with the others.
\<close>

text \<open>What the network card shares with its driver: bytes of a send buffer and members of a descriptor.\<close>

datatype shared =
    Tx_byte nat nat | Tx_addr nat | Tx_length nat | Tx_cmd nat | Tx_status nat
  | Rx_addr nat | Rx_status nat

datatype access =
    Inb u16 | Inw u16 | Inl u16
  | Outb u16 u8 | Outw u16 u16 | Outl u16 u32
  | Mrd u32 | Mwr u32 u32
  | Store shared u64

type_synonym device = "access list \<Rightarrow> u32"

record io =
  trace :: "access list"
  slog :: string

definition access :: "access \<Rightarrow> 'a io_scheme \<Rightarrow> 'a io_scheme" where
  "access a s = s\<lparr>trace := a # trace s\<rparr>"

definition outb :: "u16 \<Rightarrow> u8 \<Rightarrow> 'a io_scheme \<Rightarrow> 'a io_scheme" where
  "outb port val s = access (Outb port val) s"

definition outw :: "u16 \<Rightarrow> u16 \<Rightarrow> 'a io_scheme \<Rightarrow> 'a io_scheme" where
  "outw port val s = access (Outw port val) s"

definition outl :: "u16 \<Rightarrow> u32 \<Rightarrow> 'a io_scheme \<Rightarrow> 'a io_scheme" where
  "outl port val s = access (Outl port val) s"

definition inb :: "device \<Rightarrow> u16 \<Rightarrow> 'a io_scheme \<Rightarrow> u8 \<times> 'a io_scheme" where
  "inb dev port s = (let s = access (Inb port) s in (ucast (dev (trace s)), s))"

definition inw :: "device \<Rightarrow> u16 \<Rightarrow> 'a io_scheme \<Rightarrow> u16 \<times> 'a io_scheme" where
  "inw dev port s = (let s = access (Inw port) s in (ucast (dev (trace s)), s))"

definition inl :: "device \<Rightarrow> u16 \<Rightarrow> 'a io_scheme \<Rightarrow> u32 \<times> 'a io_scheme" where
  "inl dev port s = (let s = access (Inl port) s in (dev (trace s), s))"

text \<open>Registers of a memory-mapped device.\<close>

definition mrd :: "device \<Rightarrow> u32 \<Rightarrow> 'a io_scheme \<Rightarrow> u32 \<times> 'a io_scheme" where
  "mrd dev a s = (let s = access (Mrd a) s in (dev (trace s), s))"

definition mwr :: "u32 \<Rightarrow> u32 \<Rightarrow> 'a io_scheme \<Rightarrow> 'a io_scheme" where
  "mwr a v s = access (Mwr a v) s"

definition serial_write :: "string \<Rightarrow> 'a io_scheme \<Rightarrow> 'a io_scheme" where
  "serial_write msg s = s\<lparr>slog := slog s @ msg\<rparr>"

lemma io_fields [simp]:
  "trace (access a s) = a # trace s" "slog (access a s) = slog s" "io.more (access a s) = io.more s"
  "trace (serial_write m s) = trace s" "slog (serial_write m s) = slog s @ m" "io.more (serial_write m s) = io.more s"
  by (simp_all add: access_def serial_write_def)

lemmas port_defs = outb_def outw_def outl_def inb_def inw_def inl_def mrd_def mwr_def Let_def

text \<open>Polling at most \<open>n\<close> times: whether the body stopped the loop, and the state then.\<close>

fun poll :: "nat \<Rightarrow> ('s \<Rightarrow> bool \<times> 's) \<Rightarrow> 's \<Rightarrow> bool \<times> 's" where
  "poll 0 ready s = (False, s)"
| "poll (Suc n) ready s = (case ready s of (True, s) \<Rightarrow> (True, s) | (False, s) \<Rightarrow> poll n ready s)"

section \<open>Numbers as text\<close>

definition hexdig :: "bool \<Rightarrow> u8 \<Rightarrow> char" where
  "hexdig upper v = (if upper then ''0123456789ABCDEF'' else ''0123456789abcdef'') ! unat v"

text \<open>\<^verbatim>\<open>pci_serial_hex8\<close>, \<^verbatim>\<open>sn_hex8\<close> and \<^verbatim>\<open>e_hex8\<close>, which differ in the case of the letters.\<close>

definition hex8 :: "bool \<Rightarrow> u8 \<Rightarrow> string" where
  "hex8 upper v = [hexdig upper (drop_bit 4 v), hexdig upper (v AND 0xF)]"

definition decdig :: "u8 \<Rightarrow> char" where
  "decdig v = char_of (48 + unat v)"

text \<open>Characters of the messages beyond ASCII, as the bytes of the sources.\<close>

definition em_dash :: string where "em_dash = [CHR 0xE2, CHR 0x80, CHR 0x94]"
definition arrow_right :: string where "arrow_right = [CHR 0xE2, CHR 0x86, CHR 0x92]"
definition arrow_left :: string where "arrow_left = [CHR 0xE2, CHR 0x86, CHR 0x90]"

text \<open>\<^verbatim>\<open>pci_serial_dec\<close> and \<^verbatim>\<open>sn_u8\<close>.\<close>

definition dec8 :: "u8 \<Rightarrow> string" where
  "dec8 v = (if 100 \<le> v then [decdig (v div 100)] else []) @ (if 10 \<le> v then [decdig (v div 10 mod 10)] else []) @
     [decdig (v mod 10)]"

end
