(* ===== verification/Drv_Pci.thy ===== *)
theory Drv_Pci
  imports Hw_Io
begin

text \<open>
  PCI configuration space and the scan of bus 0, \<^verbatim>\<open>kernel/drivers/pci/pci.c\<close>. A bus is a device that
  answers a read of the data port, right after an address was written, with the configuration
  word at that address.
\<close>

definition PCI_ADDR :: u16 where "PCI_ADDR = 0xCF8"
definition PCI_DATA :: u16 where "PCI_DATA = 0xCFC"
definition PCI_VENDOR_ID :: u8 where "PCI_VENDOR_ID = 0x00"
definition PCI_COMMAND :: u8 where "PCI_COMMAND = 0x04"
definition PCI_SUBCLASS :: u8 where "PCI_SUBCLASS = 0x0A"
definition PCI_CLASS_CODE :: u8 where "PCI_CLASS_CODE = 0x0B"
definition PCI_BAR0 :: u8 where "PCI_BAR0 = 0x10"
definition PCI_INTERRUPT_LINE :: u8 where "PCI_INTERRUPT_LINE = 0x3C"
definition PCI_CMD_IO :: u16 where "PCI_CMD_IO = 1"
definition PCI_CMD_MEM :: u16 where "PCI_CMD_MEM = 2"
definition PCI_CMD_BUSMASTER :: u16 where "PCI_CMD_BUSMASTER = 4"

record pci_device =
  p_bus :: u8
  p_slot :: u8
  p_func :: u8
  vendor_id :: u16
  device_id :: u16
  class_code :: u8
  sub_class :: u8
  irq :: u8
  bar :: "u32 list"
  bar_is_mmio :: "bool list"

section \<open>Configuration space\<close>

definition pci_addr :: "u8 \<Rightarrow> u8 \<Rightarrow> u8 \<Rightarrow> u8 \<Rightarrow> u32" where
  "pci_addr bus slot func off =
     push_bit 31 1 OR push_bit 16 (ucast bus) OR push_bit 11 (ucast slot) OR push_bit 8 (ucast func) OR (ucast off AND 0xFC)"

definition pci_read32 :: "device \<Rightarrow> u8 \<Rightarrow> u8 \<Rightarrow> u8 \<Rightarrow> u8 \<Rightarrow> 'a io_scheme \<Rightarrow> u32 \<times> 'a io_scheme" where
  "pci_read32 dev bus slot func off s =
     (let s = outl PCI_ADDR (pci_addr bus slot func off) s in inl dev PCI_DATA s)"

definition pci_read16 :: "device \<Rightarrow> u8 \<Rightarrow> u8 \<Rightarrow> u8 \<Rightarrow> u8 \<Rightarrow> 'a io_scheme \<Rightarrow> u16 \<times> 'a io_scheme" where
  "pci_read16 dev bus slot func off s =
     (let s = outl PCI_ADDR (pci_addr bus slot func off) s; (v, s) = inl dev PCI_DATA s
      in (ucast (drop_bit (unat ((off AND 2) * 8)) v AND 0xFFFF), s))"

definition pci_read8 :: "device \<Rightarrow> u8 \<Rightarrow> u8 \<Rightarrow> u8 \<Rightarrow> u8 \<Rightarrow> 'a io_scheme \<Rightarrow> u8 \<times> 'a io_scheme" where
  "pci_read8 dev bus slot func off s =
     (let s = outl PCI_ADDR (pci_addr bus slot func off) s; (v, s) = inl dev PCI_DATA s
      in (ucast (drop_bit (unat ((off AND 3) * 8)) v AND 0xFF), s))"

definition pci_write32 :: "u8 \<Rightarrow> u8 \<Rightarrow> u8 \<Rightarrow> u8 \<Rightarrow> u32 \<Rightarrow> 'a io_scheme \<Rightarrow> 'a io_scheme" where
  "pci_write32 bus slot func off val s = outl PCI_DATA val (outl PCI_ADDR (pci_addr bus slot func off) s)"

definition pci_write16 :: "device \<Rightarrow> u8 \<Rightarrow> u8 \<Rightarrow> u8 \<Rightarrow> u8 \<Rightarrow> u16 \<Rightarrow> 'a io_scheme \<Rightarrow> 'a io_scheme" where
  "pci_write16 dev bus slot func off val s =
     (let s = outl PCI_ADDR (pci_addr bus slot func off) s; (old, s) = inl dev PCI_DATA s;
          shift = unat ((off AND 2) * 8);
          old = (old AND NOT (push_bit shift 0xFFFF)) OR push_bit shift (ucast val)
      in outl PCI_DATA old s)"

section \<open>Finding and enabling a device\<close>

text \<open>One base address register: its base, and whether it is in memory space.\<close>

definition decode_bar :: "u32 \<Rightarrow> u32 \<times> bool" where
  "decode_bar b = (if b = 0 then (0, False) else if b AND 1 \<noteq> 0 then (b AND 0xFFFFFFFC, False) else (b AND 0xFFFFFFF0, True))"

definition decode_bars :: "device \<Rightarrow> u8 \<Rightarrow> u8 \<Rightarrow> u8 \<Rightarrow> pci_device \<Rightarrow> 'a io_scheme \<Rightarrow> pci_device \<times> 'a io_scheme" where
  "decode_bars dev bus slot func d s =
     for_loop 0 6
       (\<lambda>i (d, s). case pci_read32 dev bus slot func (PCI_BAR0 + of_nat i * 4) s of
          (b, s) \<Rightarrow> (d\<lparr>bar := (bar d)[i := fst (decode_bar b)], bar_is_mmio := (bar_is_mmio d)[i := snd (decode_bar b)]\<rparr>, s))
       (d, s)"

text \<open>The scan from slot \<open>slot\<close> on; \<open>d\<close> is the caller's structure.\<close>

function pci_scan :: "device \<Rightarrow> u16 \<Rightarrow> u16 \<Rightarrow> nat \<Rightarrow> pci_device \<Rightarrow> 'a io_scheme \<Rightarrow> pci_device option \<times> 'a io_scheme" where
  "pci_scan dev vendor device slot d s =
     (if slot < 32 then
        (let sl = of_nat slot; (id, s) = pci_read32 dev 0 sl 0 PCI_VENDOR_ID s;
             vid = ucast (id AND 0xFFFF); did = ucast (drop_bit 16 id)
         in if vid = 0xFFFF then pci_scan dev vendor device (Suc slot) d s
            else if vid = vendor \<and> did = device then
              (let (cls, s) = pci_read8 dev 0 sl 0 PCI_CLASS_CODE s; (sub, s) = pci_read8 dev 0 sl 0 PCI_SUBCLASS s;
                   (irqv, s) = pci_read8 dev 0 sl 0 PCI_INTERRUPT_LINE s;
                   d = d\<lparr>p_bus := 0, p_slot := sl, p_func := 0, vendor_id := vid, device_id := did,
                         class_code := cls, sub_class := sub, irq := irqv\<rparr>;
                   (d, s) = decode_bars dev 0 sl 0 d s
               in (Some d, s))
            else pci_scan dev vendor device (Suc slot) d s)
      else (None, s))"
  by pat_completeness auto
termination
  by (relation "measure (\<lambda>(dev, vendor, device, slot, d, s). 32 - slot)") auto

declare pci_scan.simps [simp del]

definition pci_find_device :: "device \<Rightarrow> u16 \<Rightarrow> u16 \<Rightarrow> pci_device \<Rightarrow> 'a io_scheme \<Rightarrow> pci_device option \<times> 'a io_scheme" where
  "pci_find_device dev vendor device d s = pci_scan dev vendor device 0 d s"

definition pci_enable_device :: "device \<Rightarrow> pci_device \<Rightarrow> 'a io_scheme \<Rightarrow> 'a io_scheme" where
  "pci_enable_device dev d s =
     (let (cmd, s) = pci_read16 dev (p_bus d) (p_slot d) (p_func d) PCI_COMMAND s;
          cmd = cmd OR (PCI_CMD_BUSMASTER OR PCI_CMD_MEM OR PCI_CMD_IO)
      in pci_write16 dev (p_bus d) (p_slot d) (p_func d) PCI_COMMAND cmd s)"

definition pci_init :: "device \<Rightarrow> 'a io_scheme \<Rightarrow> 'a io_scheme" where
  "pci_init dev s =
     (let s = serial_write ''[pci] scanning bus 0\<newline>'' s;
          s = for_loop 0 32
            (\<lambda>slot s.
               (let sl = of_nat slot; (id, s) = pci_read32 dev 0 sl 0 PCI_VENDOR_ID s; vid = ucast (id AND 0xFFFF) :: u16
                in if vid = 0xFFFF then s
                   else
                     (let did = ucast (drop_bit 16 id) :: u16;
                          (cls, s) = pci_read8 dev 0 sl 0 PCI_CLASS_CODE s; (sub, s) = pci_read8 dev 0 sl 0 PCI_SUBCLASS s;
                          (irqv, s) = pci_read8 dev 0 sl 0 PCI_INTERRUPT_LINE s;
                          hex16 = (\<lambda>v :: u16. hex8 True (ucast (drop_bit 8 v)) @ hex8 True (ucast (v AND 0xFF)))
                      in serial_write (''[pci] slot '' @ dec8 sl @ ''  '' @ hex16 vid @ '':'' @ hex16 did @ ''  cls='' @
                           hex8 True cls @ '':'' @ hex8 True sub @ ''  irq='' @ dec8 irqv @ ''\<newline>'') s)))
            s
      in serial_write ''[pci] done\<newline>'' s)"

section \<open>What the scan finds\<close>

text \<open>A bus by its configuration words: what mechanism 1 promises of a read right after an address.\<close>

definition config_bus :: "device \<Rightarrow> (u32 \<Rightarrow> u32) \<Rightarrow> bool" where
  "config_bus dev cfg \<longleftrightarrow> (\<forall>a t. dev (Inl PCI_DATA # Outl PCI_ADDR a # t) = cfg a)"

definition cfg8 :: "(u32 \<Rightarrow> u32) \<Rightarrow> nat \<Rightarrow> u8 \<Rightarrow> u8" where
  "cfg8 cfg slot off = ucast (drop_bit (unat ((off AND 3) * 8)) (cfg (pci_addr 0 (of_nat slot) 0 off)) AND 0xFF)"

definition slot_has :: "(u32 \<Rightarrow> u32) \<Rightarrow> u16 \<Rightarrow> u16 \<Rightarrow> nat \<Rightarrow> bool" where
  "slot_has cfg vendor device slot \<longleftrightarrow>
     (let id = cfg (pci_addr 0 (of_nat slot) 0 PCI_VENDOR_ID)
      in ucast id = vendor \<and> vendor \<noteq> 0xFFFF \<and> ucast (drop_bit 16 id) = device)"

text \<open>The device in a slot, read off the configuration words.\<close>

definition device_in :: "(u32 \<Rightarrow> u32) \<Rightarrow> u16 \<Rightarrow> u16 \<Rightarrow> nat \<Rightarrow> pci_device" where
  "device_in cfg vendor device slot =
     (let b = (\<lambda>i. decode_bar (cfg (pci_addr 0 (of_nat slot) 0 (PCI_BAR0 + of_nat i * 4))))
      in \<lparr>p_bus = 0, p_slot = of_nat slot, p_func = 0, vendor_id = vendor, device_id = device,
          class_code = cfg8 cfg slot PCI_CLASS_CODE, sub_class = cfg8 cfg slot PCI_SUBCLASS,
          irq = cfg8 cfg slot PCI_INTERRUPT_LINE,
          bar = map (fst \<circ> b) [0..<6], bar_is_mmio = map (snd \<circ> b) [0..<6]\<rparr>)"

lemma pci_read32_bus [simp]:
  "config_bus dev cfg \<Longrightarrow> fst (pci_read32 dev b sl f off s) = cfg (pci_addr b sl f off)"
  by (simp add: pci_read32_def port_defs config_bus_def)

lemma pci_read16_bus [simp]:
  "config_bus dev cfg \<Longrightarrow>
   fst (pci_read16 dev b sl f off s) = ucast (drop_bit (unat ((off AND 2) * 8)) (cfg (pci_addr b sl f off)) AND 0xFFFF)"
  by (simp add: pci_read16_def port_defs config_bus_def split_beta)

lemma pci_read8_bus [simp]:
  "config_bus dev cfg \<Longrightarrow> fst (pci_read8 dev 0 (of_nat sl) 0 off s) = cfg8 cfg sl off"
  by (simp add: pci_read8_def port_defs config_bus_def cfg8_def split_beta)

lemma decode_bars_bus:
  assumes bus: "config_bus dev cfg" and len: "length (bar d) = 6" "length (bar_is_mmio d) = 6"
  shows "fst (decode_bars dev b sl f d s) =
    (let r = \<lambda>i. decode_bar (cfg (pci_addr b sl f (PCI_BAR0 + of_nat i * 4)))
     in d\<lparr>bar := map (fst \<circ> r) [0..<6], bar_is_mmio := map (snd \<circ> r) [0..<6]\<rparr>)"
proof -
  obtain a0 a1 a2 a3 a4 a5 where a: "bar d = [a0, a1, a2, a3, a4, a5]"
    using len(1) by (auto simp: length_Suc_conv eval_nat_numeral)
  obtain b0 b1 b2 b3 b4 b5 where b: "bar_is_mmio d = [b0, b1, b2, b3, b4, b5]"
    using len(2) by (auto simp: length_Suc_conv eval_nat_numeral)
  show ?thesis
    using a b bus by (simp add: decode_bars_def for_loop_def upt_rec split_beta Let_def)
qed

lemma low_mask16: "ucast (w AND 0xFFFF :: u32) = (ucast w :: u16)"
proof -
  have m: "(0xFFFF :: u32) = mask 16" by (simp add: mask_eq_exp_minus_1)
  show ?thesis unfolding m by (rule bit_word_eqI) (auto simp: bit_simps)
qed

lemma pci_scan_bus:
  assumes bus: "config_bus dev cfg" and len: "length (bar d) = 6" "length (bar_is_mmio d) = 6"
  shows "fst (pci_scan dev vendor device slot d s) =
    map_option (device_in cfg vendor device) (first_from (slot_has cfg vendor device) slot 32)"
proof (induction "32 - slot" arbitrary: slot s rule: less_induct)
  case less
  define id where "id = cfg (pci_addr 0 (of_nat slot) 0 PCI_VENDOR_ID)"
  obtain s1 where r: "pci_read32 dev 0 (of_nat slot) 0 PCI_VENDOR_ID s = (id, s1)"
    using pci_read32_bus [OF bus] unfolding id_def by (metis prod.collapse)
  show ?case
  proof (cases "slot < 32")
    case True
    show ?thesis
    proof (cases "slot_has cfg vendor device slot")
      case True
      with \<open>slot < 32\<close> r bus len show ?thesis
        by (subst pci_scan.simps, subst first_from.simps)
          (auto simp: slot_has_def device_in_def low_mask16 decode_bars_bus split_beta Let_def simp flip: id_def)
    next
      case False
      have "fst (pci_scan dev vendor device slot d s) = fst (pci_scan dev vendor device (Suc slot) d s1)"
        using False \<open>slot < 32\<close> r
        by (subst pci_scan.simps) (auto simp: slot_has_def low_mask16 Let_def simp flip: id_def)
      also have "\<dots> = map_option (device_in cfg vendor device) (first_from (slot_has cfg vendor device) (Suc slot) 32)"
        using \<open>slot < 32\<close> by (intro less) simp
      also have "\<dots> = map_option (device_in cfg vendor device) (first_from (slot_has cfg vendor device) slot 32)"
        using False \<open>slot < 32\<close> by (subst (2) first_from.simps) simp
      finally show ?thesis .
    qed
  next
    case False
    then show ?thesis by (subst pci_scan.simps, subst first_from.simps) simp
  qed
qed

text \<open>
  C24. On any bus that answers configuration reads, \<^verbatim>\<open>pci_find_device\<close> returns the device in the first
  slot of bus 0 whose identification matches, with its class, interrupt line and base addresses
  read off the configuration space, and reports failure exactly when no slot matches; nothing
  matches the vendor \<^verbatim>\<open>0xFFFF\<close> of an empty slot.
\<close>

theorem pci_find_device_first:
  assumes "config_bus dev cfg" and "length (bar d) = 6" and "length (bar_is_mmio d) = 6"
  shows "fst (pci_find_device dev vendor device d s) =
    map_option (device_in cfg vendor device) (first_from (slot_has cfg vendor device) 0 32)"
  using pci_scan_bus [OF assms] by (simp add: pci_find_device_def)

text \<open>A bus with an Intel 82540EM in slot 3 and nothing else.\<close>

definition demo_cfg :: "u32 \<Rightarrow> u32" where
  "demo_cfg a = (if a = 0x80001800 then 0x100E8086 else if a = 0x80001808 then 0x02000003
     else if a = 0x80001810 then 0xFEBC0000 else if a = 0x80001814 then 0xC001 else if a = 0x8000183C then 0x10B
     else if a = 0x80001804 then 0x02300103 else 0xFFFFFFFF)"

definition demo_bus :: device where
  "demo_bus t = (case t of Inl _ # Outl _ a # _ \<Rightarrow> demo_cfg a | _ \<Rightarrow> 0)"

definition blank_device :: pci_device where
  "blank_device = \<lparr>p_bus = 0, p_slot = 0, p_func = 0, vendor_id = 0, device_id = 0, class_code = 0, sub_class = 0,
     irq = 0, bar = replicate 6 0, bar_is_mmio = replicate 6 False\<rparr>"

lemma demo_bus_config: "config_bus demo_bus demo_cfg"
  by (simp add: config_bus_def demo_bus_def)

lemma pci_find_device_first_witness:
  "fst (pci_find_device demo_bus 0x8086 0x100E blank_device \<lparr>trace = [], slog = []\<rparr>) =
     Some \<lparr>p_bus = 0, p_slot = 3, p_func = 0, vendor_id = 0x8086, device_id = 0x100E, class_code = 2, sub_class = 0,
       irq = 11, bar = [0xFEBC0000, 0xC000, 0xFFFFFFFC, 0xFFFFFFFC, 0xFFFFFFFC, 0xFFFFFFFC],
       bar_is_mmio = [True, False, False, False, False, False]\<rparr>"
proof -
  have "\<not> slot_has demo_cfg 0x8086 0x100E 0" "\<not> slot_has demo_cfg 0x8086 0x100E 1" "\<not> slot_has demo_cfg 0x8086 0x100E 2"
    "slot_has demo_cfg 0x8086 0x100E 3"
    by (simp_all add: slot_has_def pci_addr_def PCI_VENDOR_ID_def demo_cfg_def)
  then have "first_from (slot_has demo_cfg 0x8086 0x100E) 0 32 = Some 3"
    by (auto simp: first_from_Some less_Suc_eq numeral_3_eq_3 numeral_2_eq_2)
  moreover have "device_in demo_cfg 0x8086 0x100E 3 = \<lparr>p_bus = 0, p_slot = 3, p_func = 0, vendor_id = 0x8086,
      device_id = 0x100E, class_code = 2, sub_class = 0, irq = 11,
      bar = [0xFEBC0000, 0xC000, 0xFFFFFFFC, 0xFFFFFFFC, 0xFFFFFFFC, 0xFFFFFFFC],
      bar_is_mmio = [True, False, False, False, False, False]\<rparr>"
    by (simp add: device_in_def cfg8_def pci_addr_def demo_cfg_def decode_bar_def PCI_CLASS_CODE_def PCI_SUBCLASS_def
        PCI_INTERRUPT_LINE_def PCI_BAR0_def upt_rec)
  ultimately show ?thesis
    using pci_find_device_first [OF demo_bus_config, where d = blank_device and s = "\<lparr>trace = [], slog = []\<rparr>"
      and vendor = "0x8086" and device = "0x100E"] by (simp add: blank_device_def)
qed

section \<open>Enabling\<close>

lemma command_word:
  "(old AND - 65536) OR ucast (ucast (old AND 0xFFFF) OR (7 :: u16)) = (old :: u32) OR 7"
proof -
  have m: "(- 65536 :: u32) = NOT (mask 16)" "(0xFFFF :: u32) = mask 16" "(7 :: u16) = mask 3" "(7 :: u32) = mask 3" by (simp_all add: mask_eq_exp_minus_1)
  show ?thesis unfolding m by (rule bit_word_eqI) (auto simp: bit_simps)
qed

text \<open>
  Enabling a device reads its command word and writes it back with decoding of I/O and memory
  space and bus mastering switched on. The sixteen status bits above the command are written
  back as they were read, and those are cleared by writing ones: enabling acknowledges every
  pending error of the device.
\<close>

theorem pci_enable_device_writes:
  assumes "config_bus dev cfg"
  shows "let a = pci_addr (p_bus d) (p_slot d) (p_func d) PCI_COMMAND
    in trace (pci_enable_device dev d s) =
      [Outl PCI_DATA (cfg a OR 7), Inl PCI_DATA, Outl PCI_ADDR a, Inl PCI_DATA, Outl PCI_ADDR a] @ trace s"
proof -
  have e: "(PCI_CMD_BUSMASTER OR PCI_CMD_MEM OR PCI_CMD_IO) = 7"
    by (simp add: PCI_CMD_BUSMASTER_def PCI_CMD_MEM_def PCI_CMD_IO_def)
  show ?thesis
    using assms by (simp add: pci_enable_device_def e pci_read16_def pci_write16_def port_defs config_bus_def split_beta
        PCI_COMMAND_def command_word)
qed

lemma pci_enable_device_writes_witness:
  "trace (pci_enable_device demo_bus (blank_device\<lparr>p_slot := 3\<rparr>) \<lparr>trace = [], slog = []\<rparr>) ! 0 = Outl PCI_DATA 0x02300107"
  using pci_enable_device_writes [OF demo_bus_config, of "blank_device\<lparr>p_slot := 3\<rparr>" "\<lparr>trace = [], slog = []\<rparr>"]
  by (simp add: blank_device_def pci_addr_def PCI_COMMAND_def demo_cfg_def)

end
