(* ===== verification/Drv_Keyboard.thy ===== *)
theory Drv_Keyboard
  imports Hw_Io Fifo Lib_CString
begin

text \<open>
  The PS/2 keyboard driver, \<^verbatim>\<open>kernel/drivers/keyboard.c\<close>: the scancode decoder run by interrupt 1 and
  the ring buffer between it and the readers. The flags that are only ever 0 or 1 are booleans.
  The ring provides the queue contract of \<^verbatim>\<open>Fifo\<close>.
\<close>

definition KB_DATA :: u16 where "KB_DATA = 0x60"
definition KB_CMD :: u16 where "KB_CMD = 0x64"
definition KB_BUF :: u32 where "KB_BUF = 512"

text \<open>The key maps; \<^verbatim>\<open>no_key n\<close> is a run of zeros.\<close>

definition no_key :: "nat \<Rightarrow> u8 list" where "no_key n = replicate n 0"

definition normal_map :: "u8 list" where
  "normal_map = no_key 2 @ lit ''1234567890-='' @ [8, 9] @ lit ''qwertyuiop[]'' @ [10] @ no_key 1 @
     lit ''asdfghjkl;'' @ [39, 96] @ no_key 1 @ [92] @ lit ''zxcvbnm,./'' @ no_key 1 @ lit ''*'' @ no_key 1 @
     lit '' '' @ no_key 13 @ lit ''789-456+1230.'' @ no_key 44"

definition shifted_map :: "u8 list" where
  "shifted_map = no_key 2 @ lit ''!@#$%^&*()_+'' @ [8, 9] @ lit ''QWERTYUIOP{}'' @ [10] @ no_key 1 @
     lit ''ASDFGHJKL:'' @ [34, 126] @ no_key 1 @ lit ''|'' @ lit ''ZXCVBNM<>?'' @ no_key 1 @
     lit ''*'' @ no_key 1 @ lit '' '' @ no_key 70"

record kbd = io +
  buf :: "nat \<Rightarrow> u8"
  rp :: u32
  wp :: u32
  shift :: bool
  ctrl :: bool
  alt :: bool
  caps :: bool
  num :: bool
  scroll :: bool
  extended :: bool

section \<open>The ring\<close>

definition push :: "u8 \<Rightarrow> 'a kbd_scheme \<Rightarrow> 'a kbd_scheme" where
  "push c s =
     (let nxt = (wp s + 1) mod KB_BUF
      in if nxt \<noteq> rp s then s\<lparr>buf := (buf s)(unat (wp s) := c), wp := nxt\<rparr> else s)"

definition keyboard_poll :: "'a kbd_scheme \<Rightarrow> u8 \<times> 'a kbd_scheme" where
  "keyboard_poll s =
     (if rp s = wp s then (0, s)
      else (let c = buf s (unat (rp s)) in (c, s\<lparr>rp := (rp s + 1) mod KB_BUF\<rparr>)))"

text \<open>
  \<^verbatim>\<open>keyboard_getchar\<close> polls and halts until an interrupt; \<open>irqs\<close> are the interrupts that end the
  halts, and \<open>None\<close> is a reader still waiting when they run out.
\<close>

fun keyboard_getchar :: "('a kbd_scheme \<Rightarrow> 'a kbd_scheme) list \<Rightarrow> 'a kbd_scheme \<Rightarrow> (u8 \<times> 'a kbd_scheme) option" where
  "keyboard_getchar irqs s =
     (case keyboard_poll s of (c, s) \<Rightarrow>
        if c \<noteq> 0 then Some (c, s) else (case irqs of [] \<Rightarrow> None | h # irqs \<Rightarrow> keyboard_getchar irqs (h s)))"

section \<open>The interrupt handler\<close>

text \<open>\<^verbatim>\<open>timeout = 100000; while ((inb(KB_CMD) & 0x02) && --timeout);\<close>\<close>

definition kb_ready :: "device \<Rightarrow> 'a kbd_scheme \<Rightarrow> bool \<times> 'a kbd_scheme" where
  "kb_ready dev s = (let (st, s) = inb dev KB_CMD s in (st AND 0x02 = 0, s))"

definition kb_wait :: "device \<Rightarrow> 'a kbd_scheme \<Rightarrow> bool \<times> 'a kbd_scheme" where
  "kb_wait dev s = poll 100000 (kb_ready dev) s"

definition bit0 :: "bool \<Rightarrow> u8" where "bit0 b = (if b then 1 else 0)"

definition update_leds :: "device \<Rightarrow> 'a kbd_scheme \<Rightarrow> 'a kbd_scheme" where
  "update_leds dev s =
     (case kb_wait dev s of (ok, s) \<Rightarrow>
        if \<not> ok then s
        else (case kb_wait dev (outb KB_DATA 0xED s) of (ok, s) \<Rightarrow>
          if \<not> ok then s
          else outb KB_DATA (bit0 (scroll s) OR push_bit 1 (bit0 (num s)) OR push_bit 2 (bit0 (caps s))) s))"

definition is_letter :: "u8 \<Rightarrow> bool" where
  "is_letter c \<longleftrightarrow> (97 \<le> c \<and> c \<le> 122) \<or> (65 \<le> c \<and> c \<le> 90)"

definition kb_release :: "u8 \<Rightarrow> 'a kbd_scheme \<Rightarrow> 'a kbd_scheme" where
  "kb_release r s =
     (let s = (if r = 0x2A \<or> r = 0x36 then s\<lparr>shift := False\<rparr> else s);
          s = (if r = 0x1D then s\<lparr>ctrl := False\<rparr> else s)
      in (if r = 0x38 then s\<lparr>alt := False\<rparr> else s))"

text \<open>The character of a pressed key, 0 for none.\<close>

definition kb_char :: "'a kbd_scheme \<Rightarrow> u8 \<Rightarrow> u8" where
  "kb_char s sc =
     (let c = (if shift s then shifted_map else normal_map) ! unat sc
      in if c = 0 then 0
         else if caps s \<and> is_letter c then
           (if shift s then (if 65 \<le> c \<and> c \<le> 90 then c + 32 else c) else (if 97 \<le> c \<and> c \<le> 122 then c - 32 else c))
         else c)"

definition kb_press :: "device \<Rightarrow> u8 \<Rightarrow> 'a kbd_scheme \<Rightarrow> 'a kbd_scheme" where
  "kb_press dev sc s =
     (if sc = 0x2A \<or> sc = 0x36 then s\<lparr>shift := True\<rparr>
      else if sc = 0x1D then s\<lparr>ctrl := True\<rparr>
      else if sc = 0x38 then s\<lparr>alt := True\<rparr>
      else if sc = 0x3A then update_leds dev (s\<lparr>caps := \<not> caps s\<rparr>)
      else if sc = 0x45 then update_leds dev (s\<lparr>num := \<not> num s\<rparr>)
      else if sc = 0x46 then update_leds dev (s\<lparr>scroll := \<not> scroll s\<rparr>)
      else if ctrl s \<and> sc = 0x2E then push 0x03 s
      else if ctrl s \<and> sc = 0x26 then push 0x0C s
      else if 128 \<le> sc then s
      else (let c = kb_char s sc in if c = 0 then s else push c s))"

text \<open>The handler after the scancode was read.\<close>

definition kb_code :: "device \<Rightarrow> u8 \<Rightarrow> 'a kbd_scheme \<Rightarrow> 'a kbd_scheme" where
  "kb_code dev sc s =
     (if sc = 0xE0 then s\<lparr>extended := True\<rparr>
      else if extended s then
        (let s = s\<lparr>extended := False\<rparr> in if sc AND 0x80 \<noteq> 0 then s else push sc (push 0xE0 s))
      else if sc AND 0x80 \<noteq> 0 then kb_release (sc AND 0x7F) s
      else kb_press dev sc s)"

definition kb_irq :: "device \<Rightarrow> 'a kbd_scheme \<Rightarrow> 'a kbd_scheme" where
  "kb_irq dev s = (let (sc, s) = inb dev KB_DATA s in kb_code dev sc s)"

definition keyboard_init :: "'a kbd_scheme \<Rightarrow> 'a kbd_scheme" where
  "keyboard_init s = s\<lparr>caps := False, num := False, scroll := False\<rparr>"

definition keyboard_ctrl :: "'a kbd_scheme \<Rightarrow> bool" where "keyboard_ctrl s = ctrl s"
definition keyboard_shift :: "'a kbd_scheme \<Rightarrow> bool" where "keyboard_shift s = shift s"
definition keyboard_alt :: "'a kbd_scheme \<Rightarrow> bool" where "keyboard_alt s = alt s"
definition keyboard_caps :: "'a kbd_scheme \<Rightarrow> bool" where "keyboard_caps s = caps s"

lemma key_maps_length: "length normal_map = 128" "length shifted_map = 128"
  by (simp_all add: normal_map_def shifted_map_def lit_def no_key_def)

section \<open>The ring is a queue\<close>

definition ring_ok :: "'a kbd_scheme \<Rightarrow> bool" where
  "ring_ok s \<longleftrightarrow> rp s < KB_BUF \<and> wp s < KB_BUF"

definition ring_count :: "'a kbd_scheme \<Rightarrow> nat" where
  "ring_count s = (unat (wp s) + 512 - unat (rp s)) mod 512"

definition ring_items :: "'a kbd_scheme \<Rightarrow> u8 list" where
  "ring_items s = map (\<lambda>i. buf s ((unat (rp s) + i) mod 512)) [0..<ring_count s]"

definition kb_put :: "u8 \<Rightarrow> 'a kbd_scheme \<Rightarrow> 'a kbd_scheme option" where
  "kb_put c s = Some (push c s)"

definition kb_take :: "'a kbd_scheme \<Rightarrow> u8 option \<times> 'a kbd_scheme" where
  "kb_take s = (if rp s = wp s then (None, s) else (case keyboard_poll s of (c, s) \<Rightarrow> (Some c, s)))"

lemma ring_next: "x < KB_BUF \<Longrightarrow> unat ((x + 1) mod KB_BUF) = (unat x + 1) mod 512 \<and> (x + 1) mod KB_BUF < KB_BUF"
proof -
  assume x: "x < KB_BUF"
  then have "unat x < 512" by (simp add: KB_BUF_def word_less_nat_alt)
  then have "unat (x + 1) = unat x + 1" by (simp add: unat_add_no_wrap)
  then show ?thesis by (simp add: KB_BUF_def unat_mod word_less_nat_alt)
qed

lemma ring_bounds: "ring_ok s \<Longrightarrow> unat (rp s) < 512 \<and> unat (wp s) < 512"
  by (simp add: ring_ok_def KB_BUF_def word_less_nat_alt)

lemma ring_empty_iff: "ring_ok s \<Longrightarrow> rp s = wp s \<longleftrightarrow> ring_count s = 0"
proof -
  assume "ring_ok s"
  from ring_bounds [OF this] have "ring_count s = 0 \<longleftrightarrow> unat (wp s) = unat (rp s)"
    by (auto simp: ring_count_def mod_if)
  then show ?thesis by (auto simp: word_unat_eq_iff)
qed

lemma ring_full_iff: "ring_ok s \<Longrightarrow> (wp s + 1) mod KB_BUF = rp s \<longleftrightarrow> ring_count s = 511"
proof -
  assume ok: "ring_ok s"
  then have "unat ((wp s + 1) mod KB_BUF) = (unat (wp s) + 1) mod 512" using ring_next by (simp add: ring_ok_def)
  moreover from ring_bounds [OF ok] have "(unat (wp s) + 1) mod 512 = unat (rp s) \<longleftrightarrow> ring_count s = 511"
    by (auto simp: ring_count_def mod_if)
  ultimately show ?thesis by (simp add: word_unat_eq_iff)
qed

lemma ring_count_less: "ring_count s < 512"
  by (simp add: ring_count_def)

lemma push_items:
  assumes ok: "ring_ok s"
  shows "ring_ok (push c s)"
    and "ring_items (push c s) = (if length (ring_items s) < 511 then ring_items s @ [c] else ring_items s)"
proof -
  note b = ring_bounds [OF ok]
  have n: "unat ((wp s + 1) mod KB_BUF) = (unat (wp s) + 1) mod 512" "(wp s + 1) mod KB_BUF < KB_BUF"
    using ok ring_next by (simp_all add: ring_ok_def)
  show "ring_ok (push c s)" using ok n by (simp add: push_def ring_ok_def Let_def)
  show "ring_items (push c s) = (if length (ring_items s) < 511 then ring_items s @ [c] else ring_items s)"
  proof (cases "ring_count s = 511")
    case True
    then show ?thesis using ring_full_iff [OF ok] by (simp add: push_def ring_items_def)
  next
    case False
    then have lt: "ring_count s < 511" using ring_count_less [of s] by simp
    define s' where "s' = push c s"
    have s': "s' = s\<lparr>buf := (buf s)(unat (wp s) := c), wp := (wp s + 1) mod KB_BUF\<rparr>"
      using False ring_full_iff [OF ok] by (simp add: s'_def push_def)
    have cnt: "ring_count s' = Suc (ring_count s)"
      using b lt n by (auto simp: ring_count_def s' mod_if split: if_splits)
    have last: "(unat (rp s) + ring_count s) mod 512 = unat (wp s)"
      using b by (auto simp: ring_count_def mod_if)
    have other: "(unat (rp s) + i) mod 512 \<noteq> unat (wp s)" if "i < ring_count s" for i
      using b lt that by (auto simp: ring_count_def mod_if split: if_splits)
    have "ring_items s' = ring_items s @ [c]"
      using last other cnt by (simp add: ring_items_def s')
    with lt show ?thesis by (simp add: s'_def ring_items_def)
  qed
qed

lemma take_items:
  assumes ok: "ring_ok s" and q: "ring_items s = x # xs"
  shows "fst (kb_take s) = Some x \<and> ring_ok (snd (kb_take s)) \<and> ring_items (snd (kb_take s)) = xs"
proof -
  note b = ring_bounds [OF ok]
  obtain m where m: "ring_count s = Suc m" using q by (cases "ring_count s") (auto simp: ring_items_def)
  then have ne: "rp s \<noteq> wp s" using ring_empty_iff [OF ok] by simp
  have n: "unat ((rp s + 1) mod KB_BUF) = (unat (rp s) + 1) mod 512" "(rp s + 1) mod KB_BUF < KB_BUF"
    using ok ring_next by (simp_all add: ring_ok_def)
  define s' where "s' = s\<lparr>rp := (rp s + 1) mod KB_BUF\<rparr>"
  have t: "kb_take s = (Some (buf s (unat (rp s))), s')" using ne by (simp add: kb_take_def keyboard_poll_def s'_def)
  have cnt: "ring_count s' = m"
    using b m n by (auto simp: ring_count_def s'_def mod_if split: if_splits)
  have "(unat (rp s') + i) mod 512 = (unat (rp s) + Suc i) mod 512" for i
    using n by (simp add: s'_def mod_simps)
  then have "ring_items s' = map (\<lambda>i. buf s ((unat (rp s) + Suc i) mod 512)) [0..<m]"
    using cnt by (simp add: ring_items_def s'_def)
  moreover have "ring_items s = buf s (unat (rp s)) # map (\<lambda>i. buf s ((unat (rp s) + Suc i) mod 512)) [0..<m]"
    using b m by (simp add: ring_items_def upt_conv_Cons map_Suc_upt [symmetric] comp_def del: upt_Suc)
  moreover have "ring_ok s'" using ok n by (simp add: ring_ok_def s'_def)
  ultimately show ?thesis using t q by simp
qed

interpretation kq: fifo kb_put kb_take ring_items "\<lambda>q c. length q < 511" ring_ok
proof (unfold_locales, goal_cases)
  case (1 s x)
  then show ?case using push_items [of s x] by (auto simp: kb_put_def)
next
  case (2 s)
  then have "rp s = wp s" using ring_empty_iff by (auto simp: ring_items_def)
  then show ?case by (simp add: kb_take_def)
next
  case (3 s x xs)
  then show ?case by (rule take_items)
qed

lemma poll_items:
  assumes "ring_ok k" and "ring_items k = c # cs"
  shows "\<exists>k'. keyboard_poll k = (c, k') \<and> ring_ok k' \<and> ring_items k' = cs"
proof -
  have "ring_count k \<noteq> 0" using assms(2) by (cases "ring_count k") (auto simp: ring_items_def)
  then have "rp k \<noteq> wp k" using ring_empty_iff [OF assms(1)] by simp
  then show ?thesis using take_items [OF assms] by (auto simp: kb_take_def split: prod.splits)
qed

lemma poll_empty:
  assumes "ring_ok k" and "ring_items k = []"
  shows "keyboard_poll k = (0, k)"
  using assms ring_empty_iff [OF assms(1)] by (simp add: keyboard_poll_def ring_items_def)

section \<open>Typing\<close>

text \<open>The key that yields a character without shift, or with it, and the codes the keyboard sends for it.\<close>

definition key_of :: "u8 list \<Rightarrow> u8 \<Rightarrow> nat option" where
  "key_of m c = (if c = 0 then None else first_from (\<lambda>i. m ! i = c) 0 128)"

definition tap :: "nat \<Rightarrow> u8 list" where
  "tap k = [of_nat k, of_nat k OR 0x80]"

definition strokes :: "u8 \<Rightarrow> u8 list" where
  "strokes c = (case key_of normal_map c of Some k \<Rightarrow> tap k
     | None \<Rightarrow> (case key_of shifted_map c of Some k \<Rightarrow> [0x2A] @ tap k @ [0xAA] | None \<Rightarrow> []))"

definition typable :: "u8 \<Rightarrow> bool" where
  "typable c \<longleftrightarrow> key_of normal_map c \<noteq> None \<or> key_of shifted_map c \<noteq> None"

definition no_modifier :: "'a kbd_scheme \<Rightarrow> bool" where
  "no_modifier s \<longleftrightarrow> \<not> shift s \<and> \<not> ctrl s \<and> \<not> alt s \<and> \<not> caps s \<and> \<not> extended s"

lemma modifier_keys_silent:
  "m \<in> {normal_map, shifted_map} \<Longrightarrow> k \<in> {0x2A, 0x36, 0x1D, 0x38, 0x3A, 0x45, 0x46, 0x60} \<Longrightarrow> m ! k = 0"
  by (auto simp: normal_map_def shifted_map_def lit_def no_key_def nth_append)

lemma key_of_facts:
  assumes "key_of m c = Some k" and "m \<in> {normal_map, shifted_map}"
  shows "k < 128" "m ! k = c" "c \<noteq> 0" "k \<notin> {0x2A, 0x36, 0x1D, 0x38, 0x3A, 0x45, 0x46, 0x60}"
proof -
  show k: "k < 128" "m ! k = c" "c \<noteq> 0"
    using assms(1) by (auto simp: key_of_def first_from_Some split: if_splits)
  with modifier_keys_silent [OF assms(2)] show "k \<notin> {0x2A, 0x36, 0x1D, 0x38, 0x3A, 0x45, 0x46, 0x60}" by metis
qed

lemma set_bit_below_mask: "(w OR push_bit n 1) AND mask n = (w AND mask n :: 'a::len word)"
  by (rule bit_word_eqI) (auto simp: bit_simps)

lemma code_bits:
  assumes "k < 128"
  shows "unat (of_nat k :: u8) = k" "(of_nat k :: u8) AND 0x80 = 0" "(of_nat k OR 0x80 :: u8) AND 0x80 \<noteq> 0"
    "(of_nat k OR 0x80 :: u8) AND 0x7F = of_nat k" "\<not> 128 \<le> (of_nat k :: u8)"
proof -
  have m: "(0x80 :: u8) = push_bit 7 1" "(0x7F :: u8) = mask 7" by (simp_all add: mask_eq_exp_minus_1)
  show u: "unat (of_nat k :: u8) = k" using assms by (simp add: unat_of_nat_small)
  have "\<not> bit k 7" using assms by (simp add: bit_iff_odd)
  then have b: "\<not> bit (of_nat k :: u8) 7" by (simp add: bit_of_nat_iff)
  show "(of_nat k :: u8) AND 0x80 = 0" using b unfolding m(1) by (metis bit_mask_iff)
  show "(of_nat k OR 0x80 :: u8) AND 0x80 \<noteq> 0" unfolding m(1) by (simp add: bit_mask_iff bit_set_mask)
  have "(of_nat k OR 0x80 :: u8) AND mask 7 = of_nat k AND mask 7"
    unfolding m(1) by (rule set_bit_below_mask)
  also have "\<dots> = of_nat k" using assms u
    by (simp add: word_unat_eq_iff flip: take_bit_eq_mask) (simp add: unsigned_take_bit_eq take_bit_nat_eq_self)
  finally show "(of_nat k OR 0x80 :: u8) AND 0x7F = of_nat k" unfolding m(2) .
  show "\<not> 128 \<le> (of_nat k :: u8)" using u assms by (simp add: word_le_nat_alt)
qed

lemma code_ne: "k < 128 \<Longrightarrow> k \<noteq> unat v \<Longrightarrow> of_nat k \<noteq> (v :: u8)"
  using code_bits(1) by metis


lemma kb_press_char:
  assumes "key_of m c = Some k" and "m = (if shift s then shifted_map else normal_map)"
    and "\<not> ctrl s" "\<not> caps s" "\<not> extended s"
  shows "kb_code dev (of_nat k) s = push c s"
proof -
  note k = key_of_facts [OF assms(1)]
  have "m \<in> {normal_map, shifted_map}" using assms(2) by simp
  note k = k [OF this]
  have ne: "of_nat k \<noteq> (v :: u8)" if "unat v \<in> {0x2A, 0x36, 0x1D, 0x38, 0x3A, 0x45, 0x46, 0x60, 0xE0}" for v
    using code_ne [of k v] k(1,4) that by auto
  have "kb_char s (of_nat k) = c" using assms k by (simp add: kb_char_def code_bits)
  with k(3) assms(3-5) ne show ?thesis
    by (simp add: kb_code_def kb_press_def code_bits [OF k(1)])
qed

lemma kb_release_char:
  assumes "key_of m c = Some k" and "m \<in> {normal_map, shifted_map}" and "\<not> extended s"
  shows "kb_code dev (of_nat k OR 0x80) s = s"
proof -
  note k = key_of_facts [OF assms(1,2)]
  have ne: "of_nat k \<noteq> (v :: u8)" if "unat v \<in> {0x2A, 0x36, 0x1D, 0x38, 0x60}" for v
    using code_ne [of k v] k(1,4) that by auto
  have "of_nat k OR 0x80 \<noteq> (0xE0 :: u8)"
  proof
    assume "of_nat k OR 0x80 = (0xE0 :: u8)"
    then have "(of_nat k OR 0x80) AND 0x7F = (0xE0 AND 0x7F :: u8)" by (simp only:)
    then have "of_nat k = (0x60 :: u8)" unfolding code_bits(4) [OF k(1)] by simp
    with ne [of "0x60"] show False by simp
  qed
  with ne assms(3) show ?thesis
    by (simp add: kb_code_def kb_release_def code_bits [OF k(1)])
qed

lemma push_fields [simp]:
  "shift (push c s) = shift s" "ctrl (push c s) = ctrl s" "alt (push c s) = alt s" "caps (push c s) = caps s"
  "extended (push c s) = extended s" "no_modifier (push c s) = no_modifier s"
  by (simp_all add: push_def Let_def no_modifier_def)

lemma strokes_push:
  assumes "no_modifier s" and "typable c"
  shows "fold (kb_code dev) (strokes c) s = push c s"
proof (cases "key_of normal_map c")
  case (Some k)
  with assms(1) show ?thesis
    using kb_press_char [OF Some, of s dev] kb_release_char [OF Some, of "push c s" dev]
    by (simp add: strokes_def tap_def no_modifier_def)
next
  case None
  then obtain k where k: "key_of shifted_map c = Some k" using assms(2) by (auto simp: typable_def)
  define s1 where "s1 = s\<lparr>shift := True\<rparr>"
  have d: "kb_code dev 0x2A s = s1" using assms(1) by (simp add: kb_code_def kb_press_def no_modifier_def s1_def)
  have p: "kb_code dev (of_nat k) s1 = push c s1" "kb_code dev (of_nat k OR 0x80) (push c s1) = push c s1"
    using kb_press_char [OF k, of s1 dev] kb_release_char [OF k, of "push c s1" dev] assms(1)
    by (simp_all add: s1_def no_modifier_def)
  have "kb_code dev 0xAA (push c s1) = (push c s1)\<lparr>shift := False\<rparr>"
    using assms(1) by (simp add: kb_code_def kb_release_def no_modifier_def s1_def)
  also have "\<dots> = push c s" using assms(1) by (simp add: push_def Let_def s1_def no_modifier_def)
  finally show ?thesis using None k d p by (simp add: strokes_def tap_def)
qed

lemma typing_enqueues:
  "no_modifier s \<Longrightarrow> \<forall>c \<in> set cs. typable c \<Longrightarrow>
   enq_many kb_put cs s = Some (fold (kb_code dev) (concat (map strokes cs)) s)"
  by (induction cs arbitrary: s) (simp_all add: kb_put_def strokes_push)

fun polls :: "nat \<Rightarrow> 'a kbd_scheme \<Rightarrow> u8 list \<times> 'a kbd_scheme" where
  "polls 0 s = ([], s)"
| "polls (Suc n) s = (let (c, s) = keyboard_poll s; (cs, s) = polls n s in (c # cs, s))"

lemma polls_take:
  "fst (deq_many kb_take n s) = map Some xs \<Longrightarrow> polls n s = (xs, snd (deq_many kb_take n s))"
proof (induction n arbitrary: s xs)
  case 0
  then show ?case by simp
next
  case (Suc n)
  obtain y s1 where d: "kb_take s = (y, s1)" by fastforce
  obtain x zs where "xs = x # zs" "y = Some x" "fst (deq_many kb_take n s1) = map Some zs"
    using Suc.prems d by (cases xs) (auto simp: split_beta)
  moreover from d this have "keyboard_poll s = (x, s1)"
    by (cases "keyboard_poll s") (simp add: kb_take_def split: if_splits)
  ultimately show ?case using Suc.IH [of s1 zs] d by (simp add: split_beta)
qed

text \<open>
  C25. What is typed is what is read: the scancodes of any text of up to 511 characters the layout
  has (with the shift key where the character needs it), handled from a state with an empty ring,
  no modifier held and the lock off, are polled back as exactly that text, and the ring is empty
  again.
\<close>

theorem typed_text_is_read:
  assumes "ring_ok s" and "ring_items s = []" and "no_modifier s"
    and "\<forall>c \<in> set cs. typable c" and "length cs \<le> 511"
  shows "fst (polls (length cs) (fold (kb_code dev) (concat (map strokes cs)) s)) = cs \<and>
    ring_items (snd (polls (length cs) (fold (kb_code dev) (concat (map strokes cs)) s))) = []"
proof -
  define t where "t = fold (kb_code dev) (concat (map strokes cs)) s"
  have "length ys < 511" if "cs = ys @ y # zs" for ys y zs using that assms(5) by simp
  with kq.fifo_roundtrip [OF assms(1,2), of cs] typing_enqueues [OF assms(3,4), of dev]
  have "fst (deq_many kb_take (length cs) t) = map Some cs" "ring_items (snd (deq_many kb_take (length cs) t)) = []"
    by (auto simp: t_def)
  with polls_take [of "length cs" t cs] show ?thesis by (simp add: t_def)
qed

definition kb_start :: kbd where
  "kb_start = \<lparr>trace = [], slog = [], buf = (\<lambda>_. 0), rp = 0, wp = 0, shift = False, ctrl = False, alt = False,
     caps = False, num = False, scroll = False, extended = False\<rparr>"

lemma typableI: "m ! k = c \<Longrightarrow> k < 128 \<Longrightarrow> c \<noteq> 0 \<Longrightarrow> m = normal_map \<or> m = shifted_map \<Longrightarrow> typable c"
  by (auto simp: typable_def key_of_def first_from_None)

lemma typed_text_is_read_witness:
  "fst (polls (length [0x48, 0x69, 0x21 :: u8]) (fold (kb_code (\<lambda>_. 0)) (concat (map strokes [0x48, 0x69, 0x21])) kb_start)) = [0x48, 0x69, 0x21]"
proof -
  have "typable 0x48" by (rule typableI [of shifted_map "0x23"])
      (simp_all add: shifted_map_def lit_def no_key_def nth_append)
  moreover have "typable 0x69" by (rule typableI [of normal_map "0x17"])
      (simp_all add: normal_map_def lit_def no_key_def nth_append)
  moreover have "typable 0x21" by (rule typableI [of shifted_map 2])
      (simp_all add: shifted_map_def lit_def no_key_def nth_append)
  ultimately have "\<forall>c \<in> set [0x48, 0x69, 0x21]. typable c" by simp
  moreover have "ring_ok kb_start" "ring_items kb_start = []" "no_modifier kb_start"
    by (simp_all add: kb_start_def ring_ok_def ring_items_def ring_count_def no_modifier_def KB_BUF_def)
  ultimately show ?thesis using typed_text_is_read [of kb_start "[0x48, 0x69, 0x21]" "\<lambda>_. 0"]
    by (simp only: list.size)
qed

text \<open>An extended key sends two bytes; when only one fits, the reader gets the marker without its key.\<close>

lemma extended_key_torn:
  assumes "ring_ok s" and "length (ring_items s) = 510" and "extended s" and "sc \<noteq> 0xE0" and "sc AND 0x80 = 0"
  shows "ring_items (kb_code dev sc s) = ring_items s @ [0xE0]"
proof -
  define s1 where "s1 = s\<lparr>extended := False\<rparr>"
  have "ring_items s1 = ring_items s" "ring_ok s1"
    using assms(1) by (simp_all add: s1_def ring_items_def ring_count_def ring_ok_def)
  then show ?thesis
    using assms push_items [of s1 "0xE0"] push_items [of "push 0xE0 s1" sc]
    by (simp add: kb_code_def s1_def)
qed

end
