(* ===== verification/Net_Wire.thy ===== *)
theory Net_Wire
  imports Le_Bytes
begin

text \<open>
  The wire formats of \<^verbatim>\<open>kernel/net/net.h\<close> and \<^verbatim>\<open>kernel/net/net.c\<close>: byte order, the Internet
  checksum, and the headers as the bytes the packed structures lay down on a little-endian
  machine. A received packet is the memory from a pointer on, as a function from offsets, since
  the code follows lengths it reads from the packet itself.
\<close>

section \<open>Byte order\<close>

definition htons :: "u16 \<Rightarrow> u16" where
  "htons x = drop_bit 8 x OR push_bit 8 x"

definition ntohs :: "u16 \<Rightarrow> u16" where "ntohs x = htons x"

definition htonl :: "u32 \<Rightarrow> u32" where
  "htonl x = drop_bit 24 (x AND 0xFF000000) OR drop_bit 8 (x AND 0x00FF0000) OR
     push_bit 8 (x AND 0x0000FF00) OR push_bit 24 (x AND 0x000000FF)"

definition ntohl :: "u32 \<Rightarrow> u32" where "ntohl x = htonl x"

definition IP4 :: "u8 \<Rightarrow> u8 \<Rightarrow> u8 \<Rightarrow> u8 \<Rightarrow> u32" where
  "IP4 a b c d = push_bit 24 (ucast a) OR push_bit 16 (ucast b) OR push_bit 8 (ucast c) OR ucast d"

definition IP4_BCAST :: u32 where "IP4_BCAST = IP4 255 255 255 255"
definition IP4_ZERO :: u32 where "IP4_ZERO = IP4 0 0 0 0"

lemma htons_htons [simp]: "htons (htons x) = x"
proof (rule bit_word_eqI)
  fix n assume "n < LENGTH(16)"
  then show "bit (htons (htons x)) n = bit x n" by (cases "n < 8") (auto simp: htons_def bit_simps)
qed

lemma IP4_bits: "bit (IP4 a b c d) n \<longleftrightarrow>
  (if n < 8 then bit d n else if n < 16 then bit c (n - 8) else if n < 24 then bit b (n - 16) else n < 32 \<and> bit a (n - 24))"
  by (auto simp: IP4_def bit_simps dest: bit_imp_le_length)

lemma htonl_bits: "bit (htonl x) n \<longleftrightarrow>
  (if n < 8 then bit x (n + 24) else if n < 16 then bit x (n + 8) else if n < 24 then bit x (n - 8) else n < 32 \<and> bit x (n - 24))"
proof -
  have m: "(0xFF000000 :: u32) = push_bit 24 (mask 8)" "(0x00FF0000 :: u32) = push_bit 16 (mask 8)"
    "(0x0000FF00 :: u32) = push_bit 8 (mask 8)" "(0x000000FF :: u32) = mask 8"
    by (simp_all add: mask_eq_exp_minus_1)
  show ?thesis unfolding htonl_def m
    by (auto simp: bit_simps add.commute dest: bit_imp_le_length)
qed

lemma htonl_IP4: "htonl (IP4 a b c d) = IP4 d c b a"
  by (rule bit_word_eqI) (auto simp: htonl_bits IP4_bits)

lemma IP4_bytes: "x = IP4 (ucast (drop_bit 24 x)) (ucast (drop_bit 16 x)) (ucast (drop_bit 8 x)) (ucast x)"
  by (rule bit_word_eqI) (auto simp: IP4_bits bit_simps)

lemma IP4_ucast [simp]: "ucast (drop_bit 24 (IP4 a b c d)) = a" "ucast (drop_bit 16 (IP4 a b c d)) = b"
  "ucast (drop_bit 8 (IP4 a b c d)) = c" "ucast (IP4 a b c d) = d"
  by (rule bit_word_eqI, auto simp: IP4_bits bit_simps)+

text \<open>The four bytes written for an address, and the address read from four bytes.\<close>

definition put_addr :: "u32 \<Rightarrow> u8 list" where
  "put_addr s = map (\<lambda>i. ucast (drop_bit ((3 - i) * 8) s)) [0..<4]"

type_synonym packet = "nat \<Rightarrow> u8"

definition get_addr :: "packet \<Rightarrow> nat \<Rightarrow> u32" where
  "get_addr p k = IP4 (p k) (p (k + 1)) (p (k + 2)) (p (k + 3))"

definition get16 :: "packet \<Rightarrow> nat \<Rightarrow> u16" where
  "get16 p k = ucast (p k) OR push_bit 8 (ucast (p (k + 1)))"

definition get32 :: "packet \<Rightarrow> nat \<Rightarrow> u32" where
  "get32 p k = ucast (p k) OR push_bit 8 (ucast (p (k + 1))) OR push_bit 16 (ucast (p (k + 2))) OR push_bit 24 (ucast (p (k + 3)))"

section \<open>Checksum\<close>

text \<open>Adding up 16-bit words as the machine reads them, an odd byte last, and folding the carries.\<close>

fun sum16 :: "u32 \<Rightarrow> u8 list \<Rightarrow> u32" where
  "sum16 s [] = s"
| "sum16 s [a] = s + ucast a"
| "sum16 s (a # b # r) = sum16 (s + (ucast a OR push_bit 8 (ucast b))) r"

lemma carry_nat: "unat ((s AND 0xFFFF) + drop_bit 16 s :: u32) = unat s mod 65536 + unat s div 65536"
proof -
  have m: "s AND 0xFFFF = take_bit 16 s" by (simp add: take_bit_eq_mask mask_eq_exp_minus_1)
  have 1: "unat (s AND 0xFFFF) = unat s mod 65536" unfolding m by (simp add: take_bit_eq_mod unat_mod)
  have 2: "unat (drop_bit 16 s) = unat s div 65536" by (simp add: drop_bit_eq_div unat_div)
  have "unat s div 65536 < 65536" by (simp add: div_less_iff_less_mult)
  moreover have "unat s mod 65536 < 65536" by simp
  ultimately have "unat s mod 65536 + unat s div 65536 < 2 ^ 32" by simp
  then show ?thesis using 1 2 by (subst unat_add_no_wrap) simp_all
qed

lemma carry_less: "drop_bit 16 s \<noteq> 0 \<Longrightarrow> unat ((s AND 0xFFFF) + drop_bit 16 s :: u32) < unat s"
proof -
  assume "drop_bit 16 s \<noteq> 0"
  then have "unat (drop_bit 16 s) \<noteq> 0" by (simp add: unat_eq_0)
  moreover have "unat (drop_bit 16 s) = unat s div 65536" by (simp add: drop_bit_eq_div unat_div)
  ultimately have "0 < unat s div 65536" by linarith
  then show ?thesis unfolding carry_nat using div_mult_mod_eq [of "unat s" 65536] by linarith
qed

function fold16 :: "u32 \<Rightarrow> u32" where
  "fold16 s = (if drop_bit 16 s \<noteq> 0 then fold16 ((s AND 0xFFFF) + drop_bit 16 s) else s)"
  by pat_completeness auto
termination
proof (relation "measure unat", goal_cases)
  case (2 s)
  then show ?case using carry_less by simp
qed simp

declare fold16.simps [simp del]

definition net_checksum :: "u8 list \<Rightarrow> u16" where
  "net_checksum data = ucast (NOT (fold16 (sum16 0 data)))"

section \<open>What the checksum means\<close>

lemma u8_lt: "unat (a :: u8) < 256"
  using unsigned_less [of a] by simp

lemma u16_lt: "unat (a :: u16) < 65536"
  using unsigned_less [of a] by simp

lemma ucast_u8 [simp]: "unat (ucast (a :: u8) :: u32) = unat a"
  using u8_lt [of a] by (simp add: unsigned_ucast_eq take_bit_nat_eq_self)

text \<open>The sum in the natural numbers, and the folded sum as a residue modulo 65535.\<close>

fun wsum :: "u8 list \<Rightarrow> nat" where
  "wsum [] = 0"
| "wsum [a] = unat a"
| "wsum (a # b # r) = unat a + 256 * unat b + wsum r"

lemma wsum_le: "wsum d \<le> 65535 * Suc (length d)"
proof (induction d rule: wsum.induct)
  case (2 a)
  then show ?case using u8_lt [of a] by simp
next
  case (3 a b r)
  with u8_lt [of a] u8_lt [of b] show ?case by simp
qed simp

lemma le16_nat: "unat (ucast (a :: u8) OR push_bit 8 (ucast (b :: u8)) :: u32) = unat a + 256 * unat b"
proof -
  have disj: "\<not> bit (ucast a :: u32) n \<or> \<not> bit (push_bit 8 (ucast b) :: u32) n" for n
    using bit_imp_le_length [of a n] by (auto simp: bit_simps)
  have "(ucast a OR push_bit 8 (ucast b) :: u32) = ucast a + push_bit 8 (ucast b)"
    by (rule disjunctive_add_eq_or [symmetric]) (rule bit_word_eqI, use disj in \<open>simp add: bit_and_iff\<close>)
  moreover have "unat (push_bit 8 (ucast b) :: u32) = 256 * unat b"
    using u8_lt [of b] by (simp add: push_bit_eq_mult unat_mult_no_wrap)
  ultimately show ?thesis using u8_lt [of a] u8_lt [of b] by (simp add: unat_add_no_wrap)
qed

lemma sum16_nat: "unat s + wsum d < 2 ^ 32 \<Longrightarrow> unat (sum16 s d) = unat s + wsum d"
proof (induction s d rule: sum16.induct)
  case (2 s a)
  then show ?case by (simp add: unat_add_no_wrap)
next
  case (3 s a b r)
  have "unat (s + (ucast a OR push_bit 8 (ucast b))) = unat s + (unat a + 256 * unat b)"
    using 3(2) le16_nat [of a b] by (subst unat_add_no_wrap) simp_all
  with 3 show ?case by simp
qed simp

lemma fold16_nat: "unat (fold16 s) = (if s = 0 then 0 else (unat s - 1) mod 65535 + 1)"
proof (induction s rule: fold16.induct)
  case (1 s)
  have c: "drop_bit 16 s \<noteq> 0 \<longleftrightarrow> 65536 \<le> unat s"
  proof -
    have "drop_bit 16 s = 0 \<longleftrightarrow> unat s div 65536 = 0"
      by (simp add: drop_bit_eq_div unat_div flip: unat_eq_0)
    also have "\<dots> \<longleftrightarrow> unat s < 65536" by (simp add: div_eq_0_iff)
    finally show ?thesis by linarith
  qed
  show ?case
  proof (cases "drop_bit 16 s \<noteq> 0")
    case True
    let ?t = "(s AND 0xFFFF) + drop_bit 16 s"
    have t: "unat ?t = unat s mod 65536 + unat s div 65536" by (rule carry_nat)
    have g: "65536 \<le> unat s" using True c by simp
    then have "0 < unat s div 65536" by (simp add: div_greater_zero_iff)
    then have z: "?t \<noteq> 0" "s \<noteq> 0" using t g by (metis add_is_0 neq0_conv unsigned_0, auto)
    have "unat s = unat ?t + 65535 * (unat s div 65536)" unfolding t using div_mult_mod_eq [of "unat s" 65536] by simp
    moreover have "0 < unat ?t" using z(1) by (simp add: unat_gt_0)
    ultimately have "unat s - 1 = (unat ?t - 1) + 65535 * (unat s div 65536)" by linarith
    then have "(unat s - 1) mod 65535 = (unat ?t - 1) mod 65535" by simp
    moreover have "fold16 s = fold16 ?t" using True by (subst fold16.simps) simp
    ultimately show ?thesis using 1 [OF True] z by simp
  next
    case False
    then have l: "unat s < 65536" using c by simp
    show ?thesis
    proof (cases "s = 0")
      case True
      then show ?thesis by (subst fold16.simps) simp
    next
      case False
      then have "0 < unat s" by (simp add: unat_gt_0)
      then have "(unat s - 1) mod 65535 + 1 = unat s" using l by simp
      moreover have "fold16 s = s" using \<open>\<not> drop_bit 16 s \<noteq> 0\<close> by (subst fold16.simps) simp
      ultimately show ?thesis using False by simp
    qed
  qed
qed

text \<open>The checksum of a packet in nat, and the check: with its checksum stored at an even offset it sums to 0.\<close>

definition csum_nat :: "nat \<Rightarrow> nat" where
  "csum_nat n = (if n = 0 then 65535 else 65534 - (n - 1) mod 65535)"

lemma net_checksum_nat:
  assumes "length d \<le> 65535"
  shows "unat (net_checksum d) = csum_nat (wsum d)"
proof -
  have b: "wsum d < 2 ^ 32" using wsum_le [of d] assms by simp
  then have s: "unat (sum16 0 d) = wsum d" by (simp add: sum16_nat)
  define f where "f = fold16 (sum16 0 d)"
  have f: "unat f = (if wsum d = 0 then 0 else (wsum d - 1) mod 65535 + 1)"
    using fold16_nat [of "sum16 0 d"] s by (simp add: f_def unat_eq_0 [symmetric])
  have l: "unat f \<le> 65535" unfolding f using mod_less_divisor [of 65535 "wsum d - 1"] by (auto simp: Suc_le_eq)
  have "ucast (NOT f) = (NOT (ucast f) :: u16)" by (rule bit_word_eqI) (auto simp: bit_simps)
  moreover have "unat (NOT (ucast f) :: u16) = 65535 - unat (ucast f :: u16)"
  proof -
    have "(NOT w :: u16) = 0xFFFF - w" for w by (simp add: not_eq_complement)
    then show ?thesis using u16_lt [of "ucast f"] by (simp add: unat_sub_no_wrap)
  qed
  moreover have "unat (ucast f :: u16) = unat f" using l by (simp add: unsigned_ucast_eq take_bit_nat_eq_self)
  ultimately show ?thesis using f by (simp add: net_checksum_def f_def [symmetric] csum_nat_def)
qed

lemma wsum_put:
  assumes "even (length a)"
  shows "wsum (a @ le16 c @ b) = wsum (a @ [0, 0] @ b) + unat c"
  using assms
proof (induction a rule: wsum.induct)
  case 1
  have "unat (ucast c :: u8) + 256 * unat (ucast (drop_bit 8 c) :: u8) = unat c"
  proof -
    have "unat (ucast c :: u8) = unat c mod 256" by (simp add: unsigned_ucast_eq take_bit_eq_mod)
    moreover have "unat (drop_bit 8 c) = unat c div 256" by (simp add: drop_bit_eq_div unat_div)
    moreover have "unat c div 256 < 256" using u16_lt [of c] by (simp add: div_less_iff_less_mult)
    ultimately show ?thesis by (simp add: unsigned_ucast_eq take_bit_eq_mod)
  qed
  then show ?case by (simp add: le16_def)
qed simp_all

lemma checksum_verifies:
  assumes "even (length a)" and "length a + 2 + length b \<le> 65535"
  shows "net_checksum (a @ le16 (net_checksum (a @ [0, 0] @ b)) @ b) = 0"
proof -
  let ?d = "a @ [0, 0] @ b" and ?e = "a @ le16 (net_checksum (a @ [0, 0] @ b)) @ b"
  have l: "length ?d \<le> 65535" "length ?e \<le> 65535" using assms(2) by simp_all
  have "wsum ?e = wsum ?d + csum_nat (wsum ?d)" unfolding wsum_put [OF assms(1)] net_checksum_nat [OF l(1)] ..
  moreover have "csum_nat (n + csum_nat n) = 0" for n
  proof (cases "n = 0")
    case True
    then show ?thesis by (simp add: csum_nat_def)
  next
    case False
    define q where "q = (n - 1) div 65535"
    have n: "n - 1 = 65535 * q + (n - 1) mod 65535" unfolding q_def by simp
    have r: "(n - 1) mod 65535 < 65535" by simp
    have "n + csum_nat n - 1 = 65535 * q + 65534" using False n r by (simp add: csum_nat_def)
    then have "(n + csum_nat n - 1) mod 65535 = 65534" by simp
    then show ?thesis using False by (simp add: csum_nat_def)
  qed
  ultimately have "unat (net_checksum ?e) = 0" using net_checksum_nat [OF l(2)] by simp
  then show ?thesis by (simp add: unat_eq_0)
qed

end
