(* ===== verification/Drv_E1000.thy ===== *)
theory Drv_E1000
  imports Drv_Pci
begin

text \<open>
  The network card driver, \<^verbatim>\<open>kernel/drivers/net/e1000.c\<close>. Its registers are a memory-mapped device;
  the descriptor rings and packet buffers are the driver's own memory, into which the card writes
  too: what it has written since the last look is the parameter \<open>nic\<close>, a function on the state,
  and while a batch of received frames is being handled it writes nothing. Mapping the register
  pages and installing the interrupt handler are recorded as events.
\<close>

definition E1000_VENDOR :: u16 where "E1000_VENDOR = 0x8086"
definition E1000_DEVICE :: u16 where "E1000_DEVICE = 0x100E"
definition E1000_CTRL :: u32 where "E1000_CTRL = 0x0000"
definition E1000_STATUS :: u32 where "E1000_STATUS = 0x0008"
definition E1000_EERD :: u32 where "E1000_EERD = 0x0014"
definition E1000_ICR :: u32 where "E1000_ICR = 0x00C0"
definition E1000_IMS :: u32 where "E1000_IMS = 0x00D0"
definition E1000_RCTL :: u32 where "E1000_RCTL = 0x0100"
definition E1000_TCTL :: u32 where "E1000_TCTL = 0x0400"
definition E1000_TIPG :: u32 where "E1000_TIPG = 0x0410"
definition E1000_RDBAL :: u32 where "E1000_RDBAL = 0x2800"
definition E1000_RDBAH :: u32 where "E1000_RDBAH = 0x2804"
definition E1000_RDLEN :: u32 where "E1000_RDLEN = 0x2808"
definition E1000_RDH :: u32 where "E1000_RDH = 0x2810"
definition E1000_RDT :: u32 where "E1000_RDT = 0x2818"
definition E1000_TDBAL :: u32 where "E1000_TDBAL = 0x3800"
definition E1000_TDBAH :: u32 where "E1000_TDBAH = 0x3804"
definition E1000_TDLEN :: u32 where "E1000_TDLEN = 0x3808"
definition E1000_TDH :: u32 where "E1000_TDH = 0x3810"
definition E1000_TDT :: u32 where "E1000_TDT = 0x3818"
definition E1000_MTA :: u32 where "E1000_MTA = 0x5200"
definition E1000_RAL0 :: u32 where "E1000_RAL0 = 0x5400"
definition E1000_RAH0 :: u32 where "E1000_RAH0 = 0x5404"
definition CTRL_RST :: u32 where "CTRL_RST = push_bit 26 1"
definition CTRL_SLU :: u32 where "CTRL_SLU = push_bit 6 1"
definition CTRL_ASDE :: u32 where "CTRL_ASDE = push_bit 5 1"
definition RCTL_EN :: u32 where "RCTL_EN = push_bit 1 1"
definition RCTL_BAM :: u32 where "RCTL_BAM = push_bit 15 1"
definition RCTL_BSIZE_2048 :: u32 where "RCTL_BSIZE_2048 = push_bit 16 0"
definition RCTL_SECRC :: u32 where "RCTL_SECRC = push_bit 26 1"
definition TCTL_EN :: u32 where "TCTL_EN = push_bit 1 1"
definition TCTL_PSP :: u32 where "TCTL_PSP = push_bit 3 1"
definition TDESC_CMD_EOP :: u8 where "TDESC_CMD_EOP = 1"
definition TDESC_CMD_IFCS :: u8 where "TDESC_CMD_IFCS = 2"
definition TDESC_CMD_RS :: u8 where "TDESC_CMD_RS = 8"
definition TDESC_STA_DD :: u8 where "TDESC_STA_DD = 1"
definition RDESC_STA_DD :: u8 where "RDESC_STA_DD = 1"
definition ICR_LSC :: u32 where "ICR_LSC = push_bit 2 1"
definition ICR_RXDMT0 :: u32 where "ICR_RXDMT0 = push_bit 4 1"
definition ICR_RXT0 :: u32 where "ICR_RXT0 = push_bit 7 1"
definition RX_DESC_COUNT :: nat where "RX_DESC_COUNT = 16"
definition TX_DESC_COUNT :: nat where "TX_DESC_COUNT = 8"
definition RX_BUF_SIZE :: nat where "RX_BUF_SIZE = 2048"
definition ETH_FRAME_MAX :: nat where "ETH_FRAME_MAX = 1518"

record tx_desc =
  tx_addr :: u64
  tx_length :: u16
  tx_cmd :: u8
  tx_status :: u8

record rx_desc =
  rx_addr :: u64
  rx_length :: u16
  rx_status :: u8

record e1000 = io +
  mmio_base :: u32
  nic_mac :: "u8 list"
  rx_cb :: bool
  e1000_ready :: bool
  tx_ring :: "tx_desc list"
  rx_ring :: "rx_desc list"
  tx_buf :: "nat \<Rightarrow> nat \<Rightarrow> u8"
  rx_buf :: "nat \<Rightarrow> nat \<Rightarrow> u8"
  tx_tail :: nat
  rx_tail :: nat
  pages_mapped :: "(u32 \<times> u32 \<times> u32) list"
  irq_handlers :: "u8 list"

section \<open>Text\<close>

definition e_hex8 :: "u8 \<Rightarrow> string" where "e_hex8 v = hex8 False v"

definition e_hex32 :: "u32 \<Rightarrow> string" where
  "e_hex32 v = ''0x'' @ concat (map (\<lambda>i. e_hex8 (ucast (drop_bit i v AND 0xF))) [28, 24, 20, 16, 12, 8, 4, 0])"

text \<open>An address as six bytes with colons, as three loops of the sources print it.\<close>

definition mac_text :: "u8 list \<Rightarrow> string" where
  "mac_text m = concat (map (\<lambda>i. hex8 False (m ! i) @ (if i < 5 then '':'' else [])) [0..<6])"

section \<open>Registers\<close>

definition e_wr :: "u32 \<Rightarrow> u32 \<Rightarrow> 'a e1000_scheme \<Rightarrow> 'a e1000_scheme" where
  "e_wr reg val s = mwr (mmio_base s + reg) val s"

definition e_rd :: "device \<Rightarrow> u32 \<Rightarrow> 'a e1000_scheme \<Rightarrow> u32 \<times> 'a e1000_scheme" where
  "e_rd dev reg s = mrd dev (mmio_base s + reg) s"

text \<open>\<^verbatim>\<open>do { v = e_rd(EERD); } while (!(v & 16) && --t);\<close> the value read last\<close>

fun eeprom_poll :: "device \<Rightarrow> nat \<Rightarrow> 'a e1000_scheme \<Rightarrow> u32 \<times> 'a e1000_scheme" where
  "eeprom_poll dev t s =
     (let (v, s) = e_rd dev E1000_EERD s
      in if v AND push_bit 4 1 = 0 \<and> 1 < t then eeprom_poll dev (t - 1) s else (v, s))"

declare eeprom_poll.simps [simp del]

definition eeprom_read :: "device \<Rightarrow> u8 \<Rightarrow> 'a e1000_scheme \<Rightarrow> u16 \<times> 'a e1000_scheme" where
  "eeprom_read dev a s =
     (let (v, s) = eeprom_poll dev 100000 (e_wr E1000_EERD (1 OR push_bit 8 (ucast a)) s) in (ucast (drop_bit 16 v), s))"

definition read_mac :: "device \<Rightarrow> 'a e1000_scheme \<Rightarrow> 'a e1000_scheme" where
  "read_mac dev s =
     (let (w0, s) = eeprom_read dev 0 s; (w1, s) = eeprom_read dev 1 s; (w2, s) = eeprom_read dev 2 s
      in s\<lparr>nic_mac := [ucast (w0 AND 0xFF), ucast (drop_bit 8 w0), ucast (w1 AND 0xFF), ucast (drop_bit 8 w1),
                       ucast (w2 AND 0xFF), ucast (drop_bit 8 w2)]\<rparr>)"

section \<open>Memory shared with the card\<close>

text \<open>Stores to the rings and to the send buffers; the card may look at any time.\<close>

definition put_byte :: "nat \<Rightarrow> nat \<Rightarrow> u8 \<Rightarrow> 'a e1000_scheme \<Rightarrow> 'a e1000_scheme" where
  "put_byte t i v s = access (Store (Tx_byte t i) (ucast v)) (s\<lparr>tx_buf := (tx_buf s)(t := (tx_buf s t)(i := v))\<rparr>)"

definition put_tx :: "nat \<Rightarrow> (nat \<Rightarrow> shared) \<Rightarrow> (tx_desc \<Rightarrow> tx_desc) \<Rightarrow> u64 \<Rightarrow> 'a e1000_scheme \<Rightarrow> 'a e1000_scheme" where
  "put_tx t cell f v s = access (Store (cell t) v) (s\<lparr>tx_ring := (tx_ring s)[t := f (tx_ring s ! t)]\<rparr>)"

definition put_rx :: "nat \<Rightarrow> (nat \<Rightarrow> shared) \<Rightarrow> (rx_desc \<Rightarrow> rx_desc) \<Rightarrow> u64 \<Rightarrow> 'a e1000_scheme \<Rightarrow> 'a e1000_scheme" where
  "put_rx t cell f v s = access (Store (cell t) v) (s\<lparr>rx_ring := (rx_ring s)[t := f (rx_ring s ! t)]\<rparr>)"

section \<open>Setting up the rings\<close>

text \<open>The addresses of the rings and buffers are those the heap gave.\<close>

definition init_tx :: "u32 \<Rightarrow> u32 \<Rightarrow> 'a e1000_scheme \<Rightarrow> 'a e1000_scheme" where
  "init_tx ring bufs s =
     (let s = for_loop 0 TX_DESC_COUNT
            (\<lambda>i s. let a = ucast (bufs + of_nat (i * ETH_FRAME_MAX)); s = put_tx i Tx_addr (\<lambda>d. d\<lparr>tx_addr := a\<rparr>) a s
                   in put_tx i Tx_status (\<lambda>d. d\<lparr>tx_status := TDESC_STA_DD\<rparr>) (ucast TDESC_STA_DD) s) s;
          s = e_wr E1000_TDBAL ring s;
          s = e_wr E1000_TDBAH 0 s;
          s = e_wr E1000_TDLEN (of_nat (TX_DESC_COUNT * 16)) s;
          s = e_wr E1000_TDH 0 s;
          s = e_wr E1000_TDT 0 s;
          s = s\<lparr>tx_tail := 0\<rparr>;
          s = e_wr E1000_TCTL (TCTL_EN OR TCTL_PSP OR push_bit 4 0x0F OR push_bit 12 0x040) s
      in e_wr E1000_TIPG 0x0060200A s)"

definition init_rx :: "u32 \<Rightarrow> u32 \<Rightarrow> 'a e1000_scheme \<Rightarrow> 'a e1000_scheme" where
  "init_rx ring bufs s =
     (let s = for_loop 0 RX_DESC_COUNT
            (\<lambda>i s. let a = ucast (bufs + of_nat (i * RX_BUF_SIZE)); s = put_rx i Rx_addr (\<lambda>d. d\<lparr>rx_addr := a\<rparr>) a s
                   in put_rx i Rx_status (\<lambda>d. d\<lparr>rx_status := 0\<rparr>) 0 s) s;
          s = e_wr E1000_RDBAL ring s;
          s = e_wr E1000_RDBAH 0 s;
          s = e_wr E1000_RDLEN (of_nat (RX_DESC_COUNT * 16)) s;
          s = e_wr E1000_RDH 0 s;
          s = e_wr E1000_RDT (of_nat (RX_DESC_COUNT - 1)) s;
          s = s\<lparr>rx_tail := 0\<rparr>;
          m = (\<lambda>i. ucast (nic_mac s ! i) :: u32);
          ral = m 0 OR push_bit 8 (m 1) OR push_bit 16 (m 2) OR push_bit 24 (m 3);
          rah = m 4 OR push_bit 8 (m 5) OR push_bit 31 1;
          s = e_wr E1000_RAL0 ral s;
          s = e_wr E1000_RAH0 rah s;
          s = for_loop 0 128 (\<lambda>i. e_wr (E1000_MTA + of_nat i * 4) 0) s
      in e_wr E1000_RCTL (RCTL_EN OR RCTL_BAM OR RCTL_BSIZE_2048 OR RCTL_SECRC) s)"

section \<open>Receiving\<close>

text \<open>The bytes from the start of a receive buffer on; past its end they are the next buffer's.\<close>

definition rx_bytes :: "'a e1000_scheme \<Rightarrow> nat \<Rightarrow> nat \<Rightarrow> u8" where
  "rx_bytes s i k = rx_buf s (i + k div RX_BUF_SIZE) (k mod RX_BUF_SIZE)"

type_synonym 's rx_callback = "(nat \<Rightarrow> u8) \<Rightarrow> u16 \<Rightarrow> 's \<Rightarrow> 's"

text \<open>One pass of the receive loop for the descriptor at the tail.\<close>

definition rx_one :: "'a e1000_scheme rx_callback \<Rightarrow> 'a e1000_scheme \<Rightarrow> 'a e1000_scheme" where
  "rx_one cb s =
     (let len = rx_length (rx_ring s ! rx_tail s);
          s = (if 0 < len \<and> rx_cb s then cb (rx_bytes s (rx_tail s)) len s else s);
          s = put_rx (rx_tail s) Rx_status (\<lambda>d. d\<lparr>rx_status := 0\<rparr>) 0 s;
          s = e_wr E1000_RDT (of_nat (rx_tail s)) s
      in s\<lparr>rx_tail := (rx_tail s + 1) mod RX_DESC_COUNT\<rparr>)"

text \<open>
  The loop, for at most \<open>n\<close> passes. The handler runs it with the size of the ring: after that many
  every descriptor has been cleared.
\<close>

fun rx_loop :: "'a e1000_scheme rx_callback \<Rightarrow> nat \<Rightarrow> 'a e1000_scheme \<Rightarrow> 'a e1000_scheme" where
  "rx_loop cb 0 s = s"
| "rx_loop cb (Suc n) s =
     (if rx_status (rx_ring s ! rx_tail s) AND RDESC_STA_DD \<noteq> 0 then rx_loop cb n (rx_one cb s) else s)"

definition e1000_handle_irq ::
    "device \<Rightarrow> 'a e1000_scheme rx_callback \<Rightarrow> 'a e1000_scheme \<Rightarrow> 'a e1000_scheme" where
  "e1000_handle_irq dev cb s =
     (let (icr, s) = e_rd dev E1000_ICR s;
          s = (if icr AND ICR_LSC \<noteq> 0
               then (let (st, s) = e_rd dev E1000_STATUS s
                     in serial_write (if st AND 2 \<noteq> 0 then ''[e1000] link UP\<newline>'' else ''[e1000] link DOWN\<newline>'') s)
               else s)
      in if icr AND (ICR_RXT0 OR ICR_RXDMT0) \<noteq> 0 then rx_loop cb RX_DESC_COUNT s else s)"

section \<open>Sending\<close>

text \<open>The wait for the descriptor: the card may write back between two looks.\<close>

definition tx_done :: "('a e1000_scheme \<Rightarrow> 'a e1000_scheme) \<Rightarrow> 'a e1000_scheme \<Rightarrow> bool \<times> 'a e1000_scheme" where
  "tx_done nic s = (let s = nic s in (tx_status (tx_ring s ! tx_tail s) AND TDESC_STA_DD \<noteq> 0, s))"

text \<open>The result is whether the frame was queued: the code's 0, or -1.\<close>

definition e1000_send ::
    "('a e1000_scheme \<Rightarrow> 'a e1000_scheme) \<Rightarrow> (nat \<Rightarrow> u8) \<Rightarrow> u16 \<Rightarrow> 'a e1000_scheme \<Rightarrow> bool \<times> 'a e1000_scheme" where
  "e1000_send nic data len s =
     (if \<not> e1000_ready s \<or> ETH_FRAME_MAX < unat len then (False, s)
      else case poll 100000 (tx_done nic) s of
        (False, s) \<Rightarrow> (False, serial_write ''[e1000] TX timeout\<newline>'' s)
      | (True, s) \<Rightarrow>
          (let t = tx_tail s;
               s = for_loop 0 (unat len) (\<lambda>i. put_byte t i (data i)) s;
               s = put_tx t Tx_length (\<lambda>d. d\<lparr>tx_length := len\<rparr>) (ucast len) s;
               cmd = TDESC_CMD_EOP OR TDESC_CMD_IFCS OR TDESC_CMD_RS;
               s = put_tx t Tx_cmd (\<lambda>d. d\<lparr>tx_cmd := cmd\<rparr>) (ucast cmd) s;
               s = put_tx t Tx_status (\<lambda>d. d\<lparr>tx_status := 0\<rparr>) 0 s;
               s = s\<lparr>tx_tail := (t + 1) mod TX_DESC_COUNT\<rparr>
           in (True, e_wr E1000_TDT (of_nat (tx_tail s)) s)))"

definition e1000_register_rx :: "'a e1000_scheme \<Rightarrow> 'a e1000_scheme" where
  "e1000_register_rx s = s\<lparr>rx_cb := True\<rparr>"

definition e1000_get_mac :: "'a e1000_scheme \<Rightarrow> u8 list" where "e1000_get_mac s = map (\<lambda>i. nic_mac s ! i) [0..<6]"

definition e1000_status :: "'a e1000_scheme \<Rightarrow> 'a e1000_scheme" where
  "e1000_status s = serial_write ''\<newline>'' (serial_write (mac_text (nic_mac s)) (serial_write ''[e1000] MAC: '' s))"

section \<open>Initialisation\<close>

text \<open>
  What the heap answers to the four allocations, 0 for NULL. The rings come from \<^verbatim>\<open>kcalloc\<close> and are
  zero; the packet buffers are not. \<open>False\<close> is the code's -1.
\<close>

record e1000_memory =
  tx_ring_at :: u32
  rx_ring_at :: u32
  tx_buf_at :: u32
  rx_buf_at :: u32

definition zero_tx :: tx_desc where "zero_tx = \<lparr>tx_addr = 0, tx_length = 0, tx_cmd = 0, tx_status = 0\<rparr>"
definition zero_rx :: rx_desc where "zero_rx = \<lparr>rx_addr = 0, rx_length = 0, rx_status = 0\<rparr>"

definition reset_done :: "device \<Rightarrow> 'a e1000_scheme \<Rightarrow> bool \<times> 'a e1000_scheme" where
  "reset_done dev s = (let (v, s) = e_rd dev E1000_CTRL s in (v AND CTRL_RST = 0, s))"

text \<open>From the mapping of the registers on, with BAR0 decoded.\<close>

definition e1000_start :: "device \<Rightarrow> e1000_memory \<Rightarrow> u8 \<Rightarrow> u32 \<Rightarrow> 'a e1000_scheme \<Rightarrow> bool \<times> 'a e1000_scheme" where
  "e1000_start dev mem line mmio_low s =
     (let s = s\<lparr>mmio_base := mmio_low\<rparr>;
          s = serial_write (''[e1000] MMIO mapped at '' @ e_hex32 mmio_low @ ''\<newline>'') s;
          s = for_loop 0 32 (\<lambda>i s. let a = mmio_low + of_nat i * 4096 in s\<lparr>pages_mapped := (a, a, 0x3) # pages_mapped s\<rparr>) s;
          s = serial_write ''[e1000] MMIO pages mapped\<newline>'' s;
          (v, s) = e_rd dev E1000_CTRL s;
          s = e_wr E1000_CTRL (v OR CTRL_RST) s
      in case poll 100000 (reset_done dev) s of
        (False, s) \<Rightarrow> (False, serial_write ''[e1000] reset timeout\<newline>'' s)
      | (True, s) \<Rightarrow>
          (let s = serial_write ''[e1000] reset OK\<newline>'' s;
               (v, s) = e_rd dev E1000_CTRL s;
               s = e_wr E1000_CTRL (v OR CTRL_SLU OR CTRL_ASDE) s
           in if tx_ring_at mem = 0 \<or> rx_ring_at mem = 0 \<or> tx_buf_at mem = 0 \<or> rx_buf_at mem = 0
              then (False, serial_write ''[e1000] out of memory\<newline>'' s)
              else
                (let s = s\<lparr>tx_ring := replicate TX_DESC_COUNT zero_tx, rx_ring := replicate RX_DESC_COUNT zero_rx\<rparr>;
                     s = read_mac dev s;
                     s = serial_write (''[e1000] MAC: '' @ mac_text (nic_mac s) @ ''\<newline>'') s;
                     s = init_tx (tx_ring_at mem) (tx_buf_at mem) s;
                     s = init_rx (rx_ring_at mem) (rx_buf_at mem) s;
                     s = e_wr E1000_IMS (ICR_RXT0 OR ICR_RXDMT0 OR ICR_LSC) s;
                     s = s\<lparr>irq_handlers := line # irq_handlers s, e1000_ready := True\<rparr>
                 in (True, serial_write ''[e1000] ready\<newline>'' s))))"

definition e1000_init :: "device \<Rightarrow> e1000_memory \<Rightarrow> pci_device \<Rightarrow> 'a e1000_scheme \<Rightarrow> bool \<times> 'a e1000_scheme" where
  "e1000_init dev mem d s =
     (case pci_find_device dev E1000_VENDOR E1000_DEVICE d s of
        (None, s) \<Rightarrow> (False, serial_write ''[e1000] not found\<newline>'' s)
      | (Some d, s) \<Rightarrow>
          (let s = serial_write (''[e1000] PCI slot='' @ e_hex8 (p_slot d) @ '' IRQ='' @ e_hex8 (irq d) @ ''\<newline>'') s;
               s = pci_enable_device dev d s;
               (bar0_raw, s) = pci_read32 dev (p_bus d) (p_slot d) (p_func d) 0x10 s;
               bar0_type = bar0_raw AND 0x6;
               mmio_low = bar0_raw AND 0xFFFFFFF0;
               (mmio_high, s) = (if bar0_type = 0x4 then pci_read32 dev (p_bus d) (p_slot d) (p_func d) 0x14 s else (0, s));
               s = serial_write (''[e1000] BAR0 raw='' @ e_hex32 bar0_raw @ '' type='' @ e_hex8 (ucast bar0_type) @
                     '' MMIO_low='' @ e_hex32 mmio_low @ '' MMIO_high='' @ e_hex32 mmio_high @ ''\<newline>'') s
           in if mmio_high \<noteq> 0
              then (False, serial_write (''[e1000] MMIO above 4GB '' @ em_dash @ '' cannot map in 32-bit mode\<newline>'') s)
              else if mmio_low = 0
              then (False, serial_write (''[e1000] BAR0 is zero '' @ em_dash @ '' BIOS did not assign MMIO\<newline>'') s)
              else e1000_start dev mem (irq d) mmio_low s))"

section \<open>What sending and receiving do\<close>

lemma e_wr_fields [simp]:
  "tx_ring (e_wr r v s) = tx_ring s" "rx_ring (e_wr r v s) = rx_ring s" "tx_buf (e_wr r v s) = tx_buf s"
  "rx_buf (e_wr r v s) = rx_buf s" "tx_tail (e_wr r v s) = tx_tail s" "rx_tail (e_wr r v s) = rx_tail s"
  "rx_cb (e_wr r v s) = rx_cb s" "e1000_ready (e_wr r v s) = e1000_ready s" "mmio_base (e_wr r v s) = mmio_base s"
  "nic_mac (e_wr r v s) = nic_mac s" "e1000.more (e_wr r v s) = e1000.more s"
  "trace (e_wr r v s) = Mwr (mmio_base s + r) v # trace s" "slog (e_wr r v s) = slog s"
  by (simp_all add: e_wr_def mwr_def access_def)

lemma put_fields [simp]:
  "rx_tail (put_rx t c g v s) = rx_tail s" "rx_cb (put_rx t c g v s) = rx_cb s" "rx_buf (put_rx t c g v s) = rx_buf s"
  "rx_ring (put_rx t c g v s) = (rx_ring s)[t := g (rx_ring s ! t)]" "e1000.more (put_rx t c g v s) = e1000.more s"
  "mmio_base (put_rx t c g v s) = mmio_base s"
  by (simp_all add: put_rx_def access_def)

text \<open>What the card finds in a cell of the shared memory, from the history of the stores.\<close>

fun last_store :: "shared \<Rightarrow> access list \<Rightarrow> u64 option" where
  "last_store c [] = None"
| "last_store c (Store c' v # tr) = (if c' = c then Some v else last_store c tr)"
| "last_store c (_ # tr) = last_store c tr"

text \<open>The accesses that touch the send descriptor \<open>t\<close> or its buffer, and nothing else.\<close>

fun in_slot :: "nat \<Rightarrow> access \<Rightarrow> bool" where
  "in_slot t (Store (Tx_byte t' i) v) = (t' = t)"
| "in_slot t (Store (Tx_length t') v) = (t' = t)"
| "in_slot t (Store (Tx_cmd t') v) = (t' = t)"
| "in_slot t (Store (Tx_status t') v) = (t' = t)"
| "in_slot t _ = False"

definition byte_stores :: "nat \<Rightarrow> (nat \<Rightarrow> u8) \<Rightarrow> nat \<Rightarrow> access list" where
  "byte_stores t data n = rev (map (\<lambda>i. Store (Tx_byte t i) (ucast (data i))) [0..<n])"

lemma byte_stores_Suc: "byte_stores t data (Suc n) = Store (Tx_byte t n) (ucast (data n)) # byte_stores t data n"
  by (simp add: byte_stores_def)

lemma byte_stores_spec:
  "i < n \<Longrightarrow> last_store (Tx_byte t i) (byte_stores t data n @ tr) = Some (ucast (data i))"
  "a \<in> set (byte_stores t data n) \<Longrightarrow> in_slot t a"
  by (induction n) (auto simp: byte_stores_Suc less_Suc_eq, auto simp: byte_stores_def)

lemma copy_to_tx:
  "for_loop 0 n (\<lambda>i. put_byte t i (data i)) s =
   s\<lparr>tx_buf := (tx_buf s)(t := (\<lambda>i. if i < n then data i else tx_buf s t i)), trace := byte_stores t data n @ trace s\<rparr>"
proof (induction n)
  case 0
  then show ?case by (simp add: byte_stores_def)
next
  case (Suc n)
  have "(\<lambda>i. if i < n then data i else tx_buf s t i)(n := data n) = (\<lambda>i. if i < Suc n then data i else tx_buf s t i)"
    by (auto simp: less_Suc_eq)
  with Suc show ?case by (simp add: for_loop_Suc put_byte_def access_def byte_stores_Suc fun_upd_def cong: if_cong)
qed

text \<open>What a frame that is sent leaves behind.\<close>

lemma e1000_send_queued:
  fixes data :: "nat \<Rightarrow> u8"
  assumes "e1000_ready s" and "unat len \<le> ETH_FRAME_MAX" and "poll 100000 (tx_done nic) s = (True, s1)"
    and "tx_tail s1 = t" and "t < length (tx_ring s1)"
  defines "stores \<equiv> Store (Tx_status t) 0 # Store (Tx_cmd t) 11 # Store (Tx_length t) (ucast len) # byte_stores t data (unat len)"
  shows "e1000_send nic data len s = (True, s1
    \<lparr>tx_buf := (tx_buf s1)(t := (\<lambda>i. if i < unat len then data i else tx_buf s1 t i)),
     tx_ring := (tx_ring s1)[t := (tx_ring s1 ! t)\<lparr>tx_length := len, tx_cmd := 11, tx_status := 0\<rparr>],
     tx_tail := (t + 1) mod 8, trace := Mwr (mmio_base s1 + 0x3818) (of_nat ((t + 1) mod 8)) # stores @ trace s1\<rparr>)"
  using assms(1-3,5) unfolding stores_def assms(4) [symmetric]
  by (simp add: e1000_send_def copy_to_tx Let_def not_less TDESC_CMD_EOP_def TDESC_CMD_IFCS_def TDESC_CMD_RS_def
      TX_DESC_COUNT_def E1000_TDT_def put_tx_def access_def e_wr_def mwr_def)

text \<open>
  C28. Sending a frame queues exactly it. When the card hands the descriptor at the tail back within
  the 100000 looks the driver takes, the frame's bytes are in that descriptor's buffer, the
  descriptor has the frame's length and is given to the card (its done bit is clear), the tail is
  one further, and all else in the driver's state is as the card left it. The new tail is announced
  in the tail register once, and last: before it there are only stores to that descriptor and its
  buffer, and at that point the card finds the frame, its length and the command in memory.
\<close>

theorem e1000_send_queues:
  assumes "e1000_ready s" and "unat len \<le> ETH_FRAME_MAX" and "poll 100000 (tx_done nic) s = (True, s1)"
    and "tx_tail s1 = t" and "t < length (tx_ring s1)"
  shows "\<exists>stores tr. e1000_send nic data len s = (True, s1
      \<lparr>tx_buf := (tx_buf s1)(t := (\<lambda>i. if i < unat len then data i else tx_buf s1 t i)),
       tx_ring := (tx_ring s1)[t := (tx_ring s1 ! t)\<lparr>tx_length := len, tx_cmd := 11, tx_status := 0\<rparr>],
       tx_tail := (t + 1) mod 8, trace := Mwr (mmio_base s1 + 0x3818) (of_nat ((t + 1) mod 8)) # tr\<rparr>) \<and>
    tr = stores @ trace s1 \<and> list_all (in_slot t) stores \<and>
    (\<forall>i < unat len. last_store (Tx_byte t i) tr = Some (ucast (data i))) \<and>
    last_store (Tx_length t) tr = Some (ucast len) \<and> last_store (Tx_cmd t) tr = Some 11 \<and> last_store (Tx_status t) tr = Some 0"
  using e1000_send_queued [OF assms, where data = data] byte_stores_spec [where t = t and data = data and n = "unat len"]
  by (intro exI [of _ "Store (Tx_status t) 0 # Store (Tx_cmd t) 11 # Store (Tx_length t) (ucast len) # byte_stores t data (unat len)"] exI)
    (auto simp: list_all_iff)

text \<open>A card that is ready from the start.\<close>

definition demo_e1000 :: e1000 where
  "demo_e1000 = \<lparr>trace = [], slog = [], mmio_base = 0xFEBC0000, nic_mac = [0x52, 0x54, 0, 0x12, 0x34, 0x56], rx_cb = True,
     e1000_ready = True, tx_ring = replicate 8 (zero_tx\<lparr>tx_status := 1\<rparr>), rx_ring = replicate 16 zero_rx,
     tx_buf = (\<lambda>_ _. 0), rx_buf = (\<lambda>_ _. 0), tx_tail = 7, rx_tail = 0, pages_mapped = [], irq_handlers = []\<rparr>"

lemma poll_at_once: "ready s = (True, s1) \<Longrightarrow> 0 < n \<Longrightarrow> poll n ready s = (True, s1)"
  by (cases n) simp_all

lemma e1000_send_queues_witness:
  "\<exists>s'. e1000_send id (\<lambda>i. of_nat i) 64 demo_e1000 = (True, s') \<and> tx_buf s' 7 63 = 63 \<and> tx_buf s' 7 64 = 0 \<and> tx_tail s' = 0"
proof -
  have "poll 100000 (tx_done id) demo_e1000 = (True, demo_e1000)"
    by (rule poll_at_once) (simp_all add: tx_done_def demo_e1000_def zero_tx_def TDESC_STA_DD_def)
  from e1000_send_queues [OF _ _ this, of 64 7 "\<lambda>i. of_nat i"] show ?thesis
    by (auto simp: demo_e1000_def ETH_FRAME_MAX_def)
qed

text \<open>A callback that only records the frames it is given.\<close>

definition log_frame :: "(nat \<Rightarrow> u8) \<Rightarrow> u16 \<Rightarrow> u8 list list e1000_scheme \<Rightarrow> u8 list list e1000_scheme" where
  "log_frame f len s = e1000.more_update (\<lambda>m. m @ [map f [0..<unat len]]) s"

text \<open>Whether the \<open>i\<close>-th descriptor from the tail holds a frame, and the frames of the first \<open>n\<close>.\<close>

definition rx_slot :: "'a e1000_scheme \<Rightarrow> nat \<Rightarrow> nat" where
  "rx_slot s i = (rx_tail s + i) mod RX_DESC_COUNT"

definition rx_full :: "'a e1000_scheme \<Rightarrow> nat \<Rightarrow> bool" where
  "rx_full s i \<longleftrightarrow> rx_status (rx_ring s ! rx_slot s i) AND RDESC_STA_DD \<noteq> 0"

definition rx_frames :: "'a e1000_scheme \<Rightarrow> nat list \<Rightarrow> u8 list list" where
  "rx_frames s is =
     concat (map (\<lambda>i. let l = rx_length (rx_ring s ! rx_slot s i)
                      in if 0 < l then [map (rx_bytes s (rx_slot s i)) [0..<unat l]] else []) is)"

lemma rx_one_log:
  assumes "rx_cb s" and "rx_tail s < RX_DESC_COUNT"
  shows "e1000.more (rx_one log_frame s) = e1000.more s @ rx_frames s [0]"
    "rx_ring (rx_one log_frame s) = (rx_ring s)[rx_tail s := (rx_ring s ! rx_tail s)\<lparr>rx_status := 0\<rparr>]"
    "rx_tail (rx_one log_frame s) = rx_slot s 1" "rx_cb (rx_one log_frame s)" "rx_buf (rx_one log_frame s) = rx_buf s"
  using assms by (simp_all add: rx_one_def log_frame_def rx_frames_def rx_slot_def Let_def)

lemma rx_loop_log:
  assumes "length (rx_ring s) = 16" and "rx_tail s < 16" and "rx_cb s" and "n \<le> m" and "m \<le> 16"
    and "\<forall>i<n. rx_full s i" and "n < m \<longrightarrow> \<not> rx_full s n"
  shows "e1000.more (rx_loop log_frame m s) = e1000.more s @ rx_frames s [0..<n] \<and>
    rx_tail (rx_loop log_frame m s) = rx_slot s n \<and>
    (\<forall>i<16. rx_status (rx_ring (rx_loop log_frame m s) ! rx_slot s i) = (if i < n then 0 else rx_status (rx_ring s ! rx_slot s i)))"
  using assms
proof (induction m arbitrary: n s)
  case 0
  then show ?case by (simp add: rx_frames_def rx_slot_def RX_DESC_COUNT_def)
next
  case (Suc m)
  have t16: "rx_tail s < RX_DESC_COUNT" using Suc.prems(2) by (simp add: RX_DESC_COUNT_def)
  have s0: "rx_slot s 0 = rx_tail s" using t16 by (simp add: rx_slot_def)
  show ?case
  proof (cases n)
    case 0
    then have "rx_loop log_frame (Suc m) s = s" using Suc.prems(7) s0 by (simp add: rx_full_def)
    with 0 s0 show ?thesis by (simp add: rx_frames_def)
  next
    case (Suc k)
    define s1 where "s1 = rx_one log_frame s"
    note one = rx_one_log [OF Suc.prems(3) t16, folded s1_def]
    have l: "rx_loop log_frame (Suc m) s = rx_loop log_frame m s1"
      using Suc.prems(6) Suc s0 by (auto simp: rx_full_def s1_def)
    have sl: "rx_slot s1 i = rx_slot s (Suc i)" for i by (simp add: rx_slot_def one mod_simps)
    have ne: "rx_slot s (Suc i) \<noteq> rx_tail s" if "i < 15" for i
      using Suc.prems(2) that by (auto simp: rx_slot_def RX_DESC_COUNT_def mod_if)
    have ring: "rx_ring s1 ! rx_slot s (Suc i) = rx_ring s ! rx_slot s (Suc i)" if "i < 15" for i
      using ne [OF that] by (simp add: one)
    have k: "k \<le> m" "m \<le> 15" "k < 16" using Suc.prems(4,5) Suc by simp_all
    have full: "rx_full s1 i = rx_full s (Suc i)" if "i < 15" for i using ring [OF that] by (simp add: rx_full_def sl)
    have b: "rx_bytes s1 i = rx_bytes s i" for i by (simp add: rx_bytes_def one fun_eq_iff)
    have tail: "rx_frames s1 [0..<k] = rx_frames s [Suc 0..<Suc k]"
    proof -
      have "rx_frames s1 [0..<k] = concat (map (\<lambda>i. let l = rx_length (rx_ring s ! rx_slot s (Suc i))
          in if 0 < l then [map (rx_bytes s (rx_slot s (Suc i))) [0..<unat l]] else []) [0..<k])"
        unfolding rx_frames_def
        by (rule arg_cong [where f = concat], rule map_cong) (use k in \<open>simp_all add: ring sl b Let_def\<close>)
      also have "\<dots> = rx_frames s [Suc 0..<Suc k]"
        unfolding rx_frames_def map_Suc_upt [symmetric] map_map comp_def by (rule refl)
      finally show ?thesis .
    qed
    have IH: "e1000.more (rx_loop log_frame m s1) = e1000.more s1 @ rx_frames s1 [0..<k] \<and> rx_tail (rx_loop log_frame m s1) = rx_slot s1 k \<and>
      (\<forall>i<16. rx_status (rx_ring (rx_loop log_frame m s1) ! rx_slot s1 i) = (if i < k then 0 else rx_status (rx_ring s1 ! rx_slot s1 i)))"
    proof (rule Suc.IH)
      show "rx_tail s1 < 16" by (simp add: one rx_slot_def RX_DESC_COUNT_def)
      show "\<forall>i<k. rx_full s1 i" using Suc.prems(6) Suc k full by auto
      show "k < m \<longrightarrow> \<not> rx_full s1 k" using Suc.prems(7) Suc k full by auto
    qed (use Suc.prems one k in simp_all)
    have "rx_status (rx_ring (rx_loop log_frame m s1) ! rx_slot s i) = (if i < n then 0 else rx_status (rx_ring s ! rx_slot s i))"
      if "i < 16" for i
    proof (cases i)
      case 0
      have last: "rx_slot s1 15 = rx_tail s" unfolding sl using Suc.prems(2) by (simp add: rx_slot_def RX_DESC_COUNT_def)
      have "rx_status (rx_ring s1 ! rx_tail s) = 0" using Suc.prems(1,2) by (simp add: one)
      moreover have "rx_status (rx_ring (rx_loop log_frame m s1) ! rx_slot s1 15) = (if 15 < k then 0 else rx_status (rx_ring s1 ! rx_slot s1 15))"
        using IH by simp
      ultimately show ?thesis using 0 s0 last Suc by simp
    next
      case (Suc j)
      have "rx_status (rx_ring (rx_loop log_frame m s1) ! rx_slot s1 j) = (if j < k then 0 else rx_status (rx_ring s1 ! rx_slot s1 j))"
        using IH that Suc by auto
      then show ?thesis using Suc \<open>n = Suc k\<close> that ring [of j] by (simp add: sl)
    qed
    moreover have "rx_frames s [0..<n] = rx_frames s [0] @ rx_frames s [Suc 0..<Suc k]"
      using Suc by (simp add: rx_frames_def upt_rec [of 0 "Suc k"] del: upt_Suc)
    ultimately show ?thesis using IH l one tail Suc sl [of k] by simp
  qed
qed

text \<open>
  Received frames are delivered in the order of the ring, each exactly once. When the first \<open>n\<close>
  descriptors from the tail hold frames and the next one does not, an interrupt for received
  frames hands exactly those frames (the ones that are not empty) to the callback, in order, frees
  their descriptors and no other, and moves the tail past them, wrapping round the ring.
\<close>

theorem e1000_receives_in_order:
  assumes "length (rx_ring s) = 16" and "rx_tail s < 16" and "rx_cb s" and "n \<le> 16"
    and "\<forall>i<n. rx_full s i" and "n < 16 \<longrightarrow> \<not> rx_full s n"
    and "dev (Mrd (mmio_base s + 0xC0) # trace s) AND 0x90 \<noteq> 0"
  shows "e1000.more (e1000_handle_irq dev log_frame s) = e1000.more s @ rx_frames s [0..<n] \<and>
    rx_tail (e1000_handle_irq dev log_frame s) = (rx_tail s + n) mod 16 \<and>
    (\<forall>i<16. rx_status (rx_ring (e1000_handle_irq dev log_frame s) ! ((rx_tail s + i) mod 16)) =
      (if i < n then 0 else rx_status (rx_ring s ! ((rx_tail s + i) mod 16))))"
proof -
  define icr where "icr = dev (Mrd (mmio_base s + 0xC0) # trace s)"
  obtain s1 where h: "e1000_handle_irq dev log_frame s = rx_loop log_frame 16 s1"
    and same: "rx_ring s1 = rx_ring s" "rx_tail s1 = rx_tail s" "rx_cb s1 = rx_cb s" "rx_buf s1 = rx_buf s"
      "e1000.more s1 = e1000.more s"
  proof -
    define s0 where "s0 = access (Mrd (mmio_base s + 0xC0)) s"
    define s1 where "s1 = (if icr AND ICR_LSC \<noteq> 0
               then (let (st, s) = e_rd dev E1000_STATUS s0
                     in serial_write (if st AND 2 \<noteq> 0 then ''[e1000] link UP\<newline>'' else ''[e1000] link DOWN\<newline>'') s)
               else s0)"
    have rd: "e_rd dev E1000_ICR s = (icr, s0)" by (simp add: e_rd_def mrd_def E1000_ICR_def s0_def icr_def access_def)
    have "(ICR_RXT0 OR ICR_RXDMT0) = 0x90" by (simp add: ICR_RXT0_def ICR_RXDMT0_def)
    then have "e1000_handle_irq dev log_frame s = rx_loop log_frame 16 s1"
      using assms(7) rd unfolding e1000_handle_irq_def by (simp add: s1_def RX_DESC_COUNT_def icr_def)
    moreover have "rx_ring s1 = rx_ring s" "rx_tail s1 = rx_tail s" "rx_cb s1 = rx_cb s" "rx_buf s1 = rx_buf s"
      "e1000.more s1 = e1000.more s"
      by (simp_all add: s1_def s0_def e_rd_def mrd_def access_def serial_write_def split_beta Let_def)
    ultimately show thesis by (rule that)
  qed
  have e: "rx_slot s1 = rx_slot s" "rx_full s1 = rx_full s" "rx_bytes s1 = rx_bytes s"
    by (auto simp: fun_eq_iff rx_slot_def rx_full_def rx_bytes_def same)
  then have "rx_frames s1 js = rx_frames s js" for js by (simp only: rx_frames_def same)
  then show ?thesis
    using rx_loop_log [of s1 n 16] assms(1-6) same e unfolding h by (simp add: rx_slot_def RX_DESC_COUNT_def)
qed

text \<open>Two frames waiting across the end of the ring, the second descriptor empty.\<close>

lemma e1000_receives_in_order_witness:
  "\<exists>s :: u8 list list e1000_scheme. e1000.more (e1000_handle_irq (\<lambda>_. 0x80) log_frame s) = [[7, 7, 7], [9]] \<and>
     rx_tail (e1000_handle_irq (\<lambda>_. 0x80) log_frame s) = 2"
proof -
  define s :: "u8 list list e1000_scheme" where "s = e1000.extend
    (demo_e1000\<lparr>rx_ring := (replicate 16 zero_rx)[15 := zero_rx\<lparr>rx_status := 1, rx_length := 3\<rparr>, 0 := zero_rx\<lparr>rx_status := 1\<rparr>,
      1 := zero_rx\<lparr>rx_status := 1, rx_length := 1\<rparr>], rx_tail := 15, rx_buf := (\<lambda>b _. if b = 15 then 7 else 9)\<rparr>) []"
  have f: "rx_full s 0" "rx_full s 1" "rx_full s 2" "\<not> rx_full s 3"
    by (simp_all add: rx_full_def rx_slot_def s_def e1000.extend_def demo_e1000_def RX_DESC_COUNT_def RDESC_STA_DD_def zero_rx_def)
  then have "\<forall>i<3. rx_full s i" by (auto simp: less_Suc_eq numeral_3_eq_3 numeral_2_eq_2)
  moreover have "rx_frames s [0..<3] = [[7, 7, 7], [9]]"
    by (simp add: rx_frames_def rx_slot_def s_def e1000.extend_def demo_e1000_def RX_DESC_COUNT_def zero_rx_def upt_rec
        rx_bytes_def RX_BUF_SIZE_def)
  moreover have "length (rx_ring s) = 16" "rx_tail s = 15" "rx_cb s" "e1000.more s = []"
    by (simp_all add: s_def e1000.extend_def demo_e1000_def)
  ultimately show ?thesis
    using e1000_receives_in_order [of s 3 "\<lambda>_. 0x80"] f(4) by (intro exI [of _ s]) simp
qed

end
