(* ===== verification/Net_Stack.thy ===== *)
theory Net_Stack
  imports Net_Wire Drv_E1000 "HOL-Library.Monad_Syntax"
begin

text \<open>
  The network stack, \<^verbatim>\<open>kernel/net/net.c\<close>: ARP, IPv4, ICMP, UDP and the DHCP client, over the card
  driver. The static frame buffers are written from the start before each use, so a packet that is
  sent is the list of its bytes. The only callback the kernel registers is the DHCP client's. As in
  the driver, \<open>nic\<close> is what the card has written to memory since the last look.
\<close>

definition ETHERTYPE_ARP :: u16 where "ETHERTYPE_ARP = 0x0806"
definition ETHERTYPE_IP :: u16 where "ETHERTYPE_IP = 0x0800"
definition IP_PROTO_ICMP :: u8 where "IP_PROTO_ICMP = 1"
definition IP_PROTO_UDP :: u8 where "IP_PROTO_UDP = 17"
definition ICMP_ECHO_REQUEST :: u8 where "ICMP_ECHO_REQUEST = 8"
definition ICMP_ECHO_REPLY :: u8 where "ICMP_ECHO_REPLY = 0"
definition ARP_CACHE :: nat where "ARP_CACHE = 16"
definition UDP_MAX_BINDS :: nat where "UDP_MAX_BINDS = 16"
definition DHCP_MAGIC :: u32 where "DHCP_MAGIC = 0x63825363"
definition DHCP_OP_REQUEST :: u8 where "DHCP_OP_REQUEST = 1"
definition DHCP_OP_REPLY :: u8 where "DHCP_OP_REPLY = 2"
definition DHCP_PORT_SERVER :: u16 where "DHCP_PORT_SERVER = 67"
definition DHCP_PORT_CLIENT :: u16 where "DHCP_PORT_CLIENT = 68"
definition DHCP_DISCOVER :: u8 where "DHCP_DISCOVER = 1"
definition DHCP_OFFER :: u8 where "DHCP_OFFER = 2"
definition DHCP_REQUEST :: u8 where "DHCP_REQUEST = 3"
definition DHCP_ACK :: u8 where "DHCP_ACK = 5"
definition DHCP_NAK :: u8 where "DHCP_NAK = 6"
definition dhcp_pkt_size :: nat where "dhcp_pkt_size = 552"
definition dhcp_options_at :: nat where "dhcp_options_at = 240"

datatype udp_cb = No_cb | Dhcp_cb

record arp_entry =
  ae_ip :: u32
  ae_mac :: "u8 list"
  ae_valid :: bool

record net = e1000 +
  net_ip :: u32
  net_gw :: u32
  net_mask :: u32
  net_dns :: u32
  our_mac :: "u8 list"
  arp_cache :: "arp_entry list"
  ip_id :: u16
  udp_binds :: "(u16 \<times> udp_cb) list"
  log_rx :: bool
  dhcp_got_offer :: bool
  dhcp_got_ack :: bool
  dhcp_offered :: u32
  dhcp_server :: u32
  dhcp_gw :: u32
  dhcp_mask :: u32
  dhcp_dns :: u32
  dhcp_xid :: u32

section \<open>Text\<close>

definition sn_u8 :: "u8 \<Rightarrow> string" where "sn_u8 v = dec8 v"

definition sn_ip :: "u32 \<Rightarrow> string" where
  "sn_ip ip = sn_u8 (ucast (drop_bit 24 ip)) @ ''.'' @ sn_u8 (ucast (drop_bit 16 ip)) @ ''.'' @
     sn_u8 (ucast (drop_bit 8 ip)) @ ''.'' @ sn_u8 (ucast ip)"

definition sn_hex8 :: "u8 \<Rightarrow> string" where "sn_hex8 v = hex8 False v"

definition sn_hex16 :: "u16 \<Rightarrow> string" where
  "sn_hex16 v = sn_hex8 (ucast (drop_bit 8 v)) @ sn_hex8 (ucast (v AND 0xFF))"

definition sn_hex32 :: "u32 \<Rightarrow> string" where
  "sn_hex32 v = sn_hex8 (ucast (drop_bit 24 v)) @ sn_hex8 (ucast (drop_bit 16 v)) @ sn_hex8 (ucast (drop_bit 8 v)) @ sn_hex8 (ucast v)"

function dec32_digits :: "u32 \<Rightarrow> string \<Rightarrow> string" where
  "dec32_digits v s = (if v \<noteq> 0 then dec32_digits (v div 10) (char_of (48 + unat (v mod 10)) # s) else s)"
  by pat_completeness auto
termination
  by (relation "measure (\<lambda>(v, s). unat v)") (simp_all add: unat_div word_le_nat_alt unat_gt_0)

declare dec32_digits.simps [simp del]

definition sn_dec32 :: "u32 \<Rightarrow> string" where
  "sn_dec32 v = (if v = 0 then ''0'' else dec32_digits v [])"

section \<open>ARP cache\<close>

definition arp_set :: "nat \<Rightarrow> u32 \<Rightarrow> u8 list \<Rightarrow> net \<Rightarrow> net" where
  "arp_set i ip mac s = s\<lparr>arp_cache := (arp_cache s)[i := \<lparr>ae_ip = ip, ae_mac = mac, ae_valid = True\<rparr>]\<rparr>"

definition arp_is :: "net \<Rightarrow> u32 \<Rightarrow> nat \<Rightarrow> bool" where
  "arp_is s ip i \<longleftrightarrow> ae_valid (arp_cache s ! i) \<and> ae_ip (arp_cache s ! i) = ip"

definition arp_add :: "u32 \<Rightarrow> u8 list \<Rightarrow> net \<Rightarrow> net" where
  "arp_add ip mac s =
     (case first_from (arp_is s ip) 0 ARP_CACHE of
        Some i \<Rightarrow> s\<lparr>arp_cache := (arp_cache s)[i := (arp_cache s ! i)\<lparr>ae_mac := mac\<rparr>]\<rparr>
      | None \<Rightarrow>
          (case first_from (\<lambda>i. \<not> ae_valid (arp_cache s ! i)) 0 ARP_CACHE of
             Some i \<Rightarrow> arp_set i ip mac s
           | None \<Rightarrow> arp_set 0 ip mac s))"

definition arp_lookup :: "u32 \<Rightarrow> net \<Rightarrow> u8 list option" where
  "arp_lookup ip s = map_option (\<lambda>i. ae_mac (arp_cache s ! i)) (first_from (arp_is s ip) 0 ARP_CACHE)"

section \<open>Sending\<close>

definition udp_checksum :: "u32 \<Rightarrow> u32 \<Rightarrow> u8 list \<Rightarrow> u16" where
  "udp_checksum src dst seg =
     (let b = (\<lambda>v :: u32. [ucast (drop_bit 24 v), ucast (drop_bit 16 v), ucast (drop_bit 8 v), ucast v :: u8]);
          len = of_nat (length seg) :: u16;
          pseudo = b src @ b dst @ [0, IP_PROTO_UDP] @ [ucast (drop_bit 8 len), ucast len]
      in ucast (NOT (fold16 (sum16 (sum16 0 pseudo) seg))))"

definition ETH_BCAST :: "u8 list" where "ETH_BCAST = replicate 6 0xFF"

definition eth_frame :: "u8 list \<Rightarrow> u8 list \<Rightarrow> u16 \<Rightarrow> u8 list \<Rightarrow> u8 list" where
  "eth_frame dst src et payload = map (\<lambda>i. dst ! i) [0..<6] @ map (\<lambda>i. src ! i) [0..<6] @ le16 (htons et) @ payload"

definition eth_send_raw :: "(net \<Rightarrow> net) \<Rightarrow> u8 list \<Rightarrow> u16 \<Rightarrow> u8 list \<Rightarrow> net \<Rightarrow> net" where
  "eth_send_raw nic dst_mac et payload s =
     (if ETH_FRAME_MAX < 14 + length payload then s
      else (let f = eth_frame dst_mac (our_mac s) et payload;
                (ok, s) = e1000_send nic (\<lambda>i. f ! i) (of_nat (14 + length payload)) s
            in if ok then s else serial_write (''[eth] SEND FAILED ret='' @ sn_hex8 0xFF @ ''\<newline>'') s))"

text \<open>An ARP packet of the type the code sends.\<close>

definition arp_bytes :: "u16 \<Rightarrow> u8 list \<Rightarrow> u8 list \<Rightarrow> u8 list \<Rightarrow> u8 list \<Rightarrow> u8 list" where
  "arp_bytes oper sha spa tha tpa =
     le16 (htons 1) @ le16 (htons ETHERTYPE_IP) @ [6, 4] @ le16 (htons oper) @ sha @ spa @ tha @ tpa"

definition mac6 :: "u8 list \<Rightarrow> u8 list" where "mac6 m = map (\<lambda>i. m ! i) [0..<6]"

definition arp_send_request :: "(net \<Rightarrow> net) \<Rightarrow> u32 \<Rightarrow> net \<Rightarrow> net" where
  "arp_send_request nic target s =
     eth_send_raw nic ETH_BCAST ETHERTYPE_ARP
       (arp_bytes 1 (mac6 (our_mac s)) (put_addr (htonl (net_ip s))) (replicate 6 0) (put_addr (htonl target))) s"

text \<open>The header of an IPv4 packet without its checksum, and with it.\<close>

definition ip4_header :: "u16 \<Rightarrow> u16 \<Rightarrow> u8 \<Rightarrow> u16 \<Rightarrow> u32 \<Rightarrow> u32 \<Rightarrow> u8 list" where
  "ip4_header tot ident proto csum src dst =
     [0x45, 0] @ le16 (htons tot) @ le16 (htons ident) @ le16 0 @ [64, proto] @ le16 csum @ put_addr (htonl src) @ put_addr (htonl dst)"

definition ip4_packet :: "u16 \<Rightarrow> u8 \<Rightarrow> u32 \<Rightarrow> u32 \<Rightarrow> u8 list \<Rightarrow> u8 list" where
  "ip4_packet ident proto src dst payload =
     (let total = of_nat (20 + length payload);
          csum = net_checksum (ip4_header total ident proto 0 src dst)
      in ip4_header total ident proto csum src dst @ payload)"

text \<open>
  A payload of 65516 bytes or more, whose total wraps, would overrun the packet buffer, and one of
  more than 1510 that of \<^verbatim>\<open>raw_udp_send\<close>; nothing in the kernel sends one.
\<close>

definition raw_ip4_send :: "(net \<Rightarrow> net) \<Rightarrow> u32 \<Rightarrow> u32 \<Rightarrow> u8 \<Rightarrow> u8 list \<Rightarrow> net \<Rightarrow> net" where
  "raw_ip4_send nic src dst proto payload s =
     (let total = of_nat (20 + length payload) :: u16
      in if ETH_FRAME_MAX < unat total then s
         else
           (let pkt = ip4_packet (ip_id s) proto src dst payload;
                s = s\<lparr>ip_id := ip_id s + 1\<rparr>
            in if dst = IP4_BCAST then eth_send_raw nic ETH_BCAST ETHERTYPE_IP pkt s
               else if net_ip s \<noteq> 0 \<and> net_mask s \<noteq> 0 \<and> dst = (net_ip s OR NOT (net_mask s))
               then eth_send_raw nic ETH_BCAST ETHERTYPE_IP pkt s
               else
                 (let nxt = (if net_ip s \<noteq> 0 \<and> dst AND net_mask s \<noteq> net_ip s AND net_mask s then net_gw s else dst)
                  in case arp_lookup nxt s of
                    None \<Rightarrow> serial_write (''[net] ARP miss '' @ sn_ip nxt @ ''\<newline>'') (arp_send_request nic nxt s)
                  | Some dm \<Rightarrow> eth_send_raw nic dm ETHERTYPE_IP pkt s)))"

definition ip4_send :: "(net \<Rightarrow> net) \<Rightarrow> u32 \<Rightarrow> u8 \<Rightarrow> u8 list \<Rightarrow> net \<Rightarrow> net" where
  "ip4_send nic dst proto payload s = raw_ip4_send nic (net_ip s) dst proto payload s"

definition icmp_send_ping :: "(net \<Rightarrow> net) \<Rightarrow> u32 \<Rightarrow> u16 \<Rightarrow> u16 \<Rightarrow> net \<Rightarrow> net" where
  "icmp_send_ping nic dst ident sq s =
     (let buf = (\<lambda>c. [ICMP_ECHO_REQUEST, 0] @ le16 c @ le16 (htons ident) @ le16 (htons sq) @ map of_nat [0..<32])
      in serial_write (''[icmp] ping '' @ arrow_right @ '' '' @ sn_ip dst @ ''\<newline>'')
           (ip4_send nic dst IP_PROTO_ICMP (buf (net_checksum (buf 0))) s))"

definition raw_udp_send :: "(net \<Rightarrow> net) \<Rightarrow> u32 \<Rightarrow> u32 \<Rightarrow> u16 \<Rightarrow> u16 \<Rightarrow> u8 list \<Rightarrow> net \<Rightarrow> net" where
  "raw_udp_send nic src_ip dst_ip dst_port src_port data s =
     (let ulen = of_nat (8 + length data) :: u16;
          buf = (\<lambda>c. le16 (htons src_port) @ le16 (htons dst_port) @ le16 (htons ulen) @ le16 c @ data)
      in raw_ip4_send nic src_ip dst_ip IP_PROTO_UDP (buf (udp_checksum src_ip dst_ip (buf 0))) s)"

definition udp_send :: "(net \<Rightarrow> net) \<Rightarrow> u32 \<Rightarrow> u16 \<Rightarrow> u16 \<Rightarrow> u8 list \<Rightarrow> net \<Rightarrow> net" where
  "udp_send nic dst dp sp data s = raw_udp_send nic (net_ip s) dst dp sp data s"

definition udp_register_port :: "u16 \<Rightarrow> udp_cb \<Rightarrow> net \<Rightarrow> net" where
  "udp_register_port port cb s =
     (case first_from (\<lambda>i. fst (udp_binds s ! i) = port) 0 (length (udp_binds s)) of
        Some i \<Rightarrow> s\<lparr>udp_binds := (udp_binds s)[i := (port, cb)]\<rparr>
      | None \<Rightarrow> if UDP_MAX_BINDS \<le> length (udp_binds s) then s else s\<lparr>udp_binds := udp_binds s @ [(port, cb)]\<rparr>)"

section \<open>The DHCP client\<close>

text \<open>
  The options, from offset \<open>i\<close> on, with the message type found so far. A message type option of
  length 0 reads the byte after it, also past the end.
\<close>

definition set_option :: "packet \<Rightarrow> nat \<Rightarrow> u8 \<Rightarrow> u8 \<Rightarrow> net \<Rightarrow> net" where
  "set_option opts i tag l s =
     (if tag = 53 then serial_write (''[dhcp] opt53 msgtype='' @ sn_hex8 (opts i) @ ''\<newline>'') s
      else if tag = 1 \<and> l = 4 then s\<lparr>dhcp_mask := get_addr opts i\<rparr>
      else if tag = 3 \<and> 4 \<le> l then s\<lparr>dhcp_gw := get_addr opts i\<rparr>
      else if tag = 6 \<and> 4 \<le> l then s\<lparr>dhcp_dns := get_addr opts i\<rparr>
      else if tag = 54 \<and> l = 4 then s\<lparr>dhcp_server := get_addr opts i\<rparr>
      else s)"

function dhcp_parse_opts :: "packet \<Rightarrow> nat \<Rightarrow> nat \<Rightarrow> u8 \<Rightarrow> net \<Rightarrow> u8 \<times> net" where
  "dhcp_parse_opts opts len i msg s =
     (if i < len then
        (let tag = opts i; i = i + 1
         in if tag = 255 then (msg, s)
            else if tag = 0 then dhcp_parse_opts opts len i msg s
            else if len \<le> i then (msg, s)
            else (let l = opts i; i = i + 1
                  in if len < i + unat l then (msg, s)
                     else dhcp_parse_opts opts len (i + unat l) (if tag = 53 then opts i else msg) (set_option opts i tag l s)))
      else (msg, s))"
  by pat_completeness auto
termination
  by (relation "measure (\<lambda>(opts, len, i, msg, s). len - i)") auto

declare dhcp_parse_opts.simps [simp del]

definition dhcp_rx :: "u32 \<Rightarrow> u16 \<Rightarrow> packet \<Rightarrow> u16 \<Rightarrow> net \<Rightarrow> net" where
  "dhcp_rx src sport data len s =
     (let s = serial_write (''[dhcp] rx len='' @ sn_dec32 (ucast len) @ ''\<newline>'') s
      in if unat len < dhcp_pkt_size
         then serial_write (''[dhcp] rx too short, need='' @ sn_dec32 (of_nat dhcp_pkt_size) @ ''\<newline>'') s
         else
           (let op = data 0; xid = ntohl (get32 data 4); magic = ntohl (get32 data 236); yiaddr = ntohl (get32 data 16);
                s = serial_write (''[dhcp] op='' @ sn_hex8 op @ '' xid='' @ sn_hex32 xid @ '' our='' @ sn_hex32 (dhcp_xid s) @
                      '' magic='' @ sn_hex32 magic @ '' yiaddr='' @ sn_ip yiaddr @ ''\<newline>'') s
            in if op \<noteq> DHCP_OP_REPLY then serial_write ''[dhcp] not a reply\<newline>'' s
               else if xid \<noteq> dhcp_xid s then serial_write ''[dhcp] xid mismatch\<newline>'' s
               else if magic \<noteq> DHCP_MAGIC then serial_write ''[dhcp] bad magic\<newline>'' s
               else
                 (let (msg, s) = dhcp_parse_opts (\<lambda>i. data (dhcp_options_at + i)) (unat len - dhcp_options_at) 0 0 s
                  in if msg = DHCP_OFFER \<and> \<not> dhcp_got_offer s
                     then serial_write (''[dhcp] OFFER '' @ arrow_right @ '' '' @ sn_ip yiaddr @ ''\<newline>'')
                            (s\<lparr>dhcp_offered := yiaddr, dhcp_got_offer := True\<rparr>)
                     else if msg = DHCP_ACK \<and> dhcp_got_offer s
                     then serial_write (''[dhcp] ACK '' @ arrow_right @ '' '' @ sn_ip yiaddr @ ''\<newline>'')
                            (s\<lparr>dhcp_offered := yiaddr, dhcp_got_ack := True\<rparr>)
                     else if msg = DHCP_NAK
                     then (serial_write ''[dhcp] NAK\<newline>'' s)\<lparr>dhcp_got_offer := False, dhcp_offered := 0, dhcp_server := 0\<rparr>
                     else s)))"

text \<open>The options of a message to the server, and the message.\<close>

definition be32 :: "u32 \<Rightarrow> u8 list" where
  "be32 v = [ucast (drop_bit 24 v), ucast (drop_bit 16 v), ucast (drop_bit 8 v), ucast v]"

definition dhcp_options :: "u8 \<Rightarrow> u32 \<Rightarrow> u32 \<Rightarrow> u8 list \<Rightarrow> u8 list" where
  "dhcp_options msg_type req_ip srv_ip mac =
     [53, 1, msg_type, 61, 7, 1] @ mac6 mac @
     (if msg_type = DHCP_REQUEST then [50, 4] @ be32 req_ip @ [54, 4] @ be32 srv_ip else []) @
     [55, 4, 1, 3, 6, 15, 255]"

definition dhcp_message :: "u8 \<Rightarrow> u32 \<Rightarrow> u32 \<Rightarrow> u8 list \<Rightarrow> u32 \<Rightarrow> u8 list" where
  "dhcp_message msg_type req_ip srv_ip mac xid =
     (let opts = dhcp_options msg_type req_ip srv_ip mac
      in [DHCP_OP_REQUEST, 1, 6, 0] @ le32 (htonl xid) @ le16 0 @ le16 (htons 0x8000) @ replicate 16 0 @
         mac6 mac @ replicate 10 0 @ replicate 192 0 @ le32 (htonl DHCP_MAGIC) @ opts @ replicate (312 - length opts) 0)"

definition dhcp_send_pkt :: "(net \<Rightarrow> net) \<Rightarrow> u8 \<Rightarrow> u32 \<Rightarrow> u32 \<Rightarrow> net \<Rightarrow> net" where
  "dhcp_send_pkt nic msg_type req_ip srv_ip s =
     (let pkt = dhcp_message msg_type req_ip srv_ip (our_mac s) (dhcp_xid s);
          s = serial_write (''[dhcp] sending type='' @ sn_hex8 msg_type @ '' size='' @ sn_dec32 (of_nat dhcp_pkt_size) @ ''\<newline>'') s
      in raw_udp_send nic IP4_ZERO IP4_BCAST DHCP_PORT_SERVER DHCP_PORT_CLIENT pkt s)"

section \<open>Receiving\<close>

definition arp_handle :: "(net \<Rightarrow> net) \<Rightarrow> packet \<Rightarrow> u16 \<Rightarrow> net \<Rightarrow> net" where
  "arp_handle nic p len s =
     (if len < 28 then s
      else if ntohs (get16 p 0) \<noteq> 1 \<or> ntohs (get16 p 2) \<noteq> ETHERTYPE_IP then s
      else
        (let sha = map p [8..<14]; s = arp_add (get_addr p 14) sha s
         in if ntohs (get16 p 6) \<noteq> 1 \<or> net_ip s = 0 then s
            else if get_addr p 24 \<noteq> net_ip s then s
            else eth_send_raw nic sha ETHERTYPE_ARP
                   (arp_bytes 2 (mac6 (our_mac s)) (put_addr (htonl (net_ip s))) sha (map p [14..<18])) s))"

definition icmp_handle :: "(net \<Rightarrow> net) \<Rightarrow> u32 \<Rightarrow> packet \<Rightarrow> u16 \<Rightarrow> net \<Rightarrow> net" where
  "icmp_handle nic src p len s =
     (if len < 8 then s
      else if p 0 = ICMP_ECHO_REQUEST then
        (if 512 < len then s
         else (let r = (\<lambda>c. [ICMP_ECHO_REPLY, p 1] @ le16 c @ map p [4..<unat len])
               in ip4_send nic src IP_PROTO_ICMP (r (net_checksum (r 0))) s))
      else if p 0 = ICMP_ECHO_REPLY then
        serial_write (''[icmp] pong '' @ arrow_left @ '' '' @ sn_ip src @ '' seq='' @ sn_u8 (ucast (ntohs (get16 p 6))) @ ''\<newline>'') s
      else s)"

text \<open>Calling the callbacks bound to a port.\<close>

definition udp_deliver :: "u16 \<Rightarrow> u32 \<Rightarrow> u16 \<Rightarrow> packet \<Rightarrow> u16 \<Rightarrow> net \<Rightarrow> net" where
  "udp_deliver dp src sp data dlen s =
     for_loop 0 (length (udp_binds s))
       (\<lambda>i s. if udp_binds s ! i = (dp, Dhcp_cb) then dhcp_rx src sp data dlen s else s) s"

definition udp_handle :: "u32 \<Rightarrow> packet \<Rightarrow> u16 \<Rightarrow> net \<Rightarrow> net" where
  "udp_handle src p len s =
     (if len < 8 then s
      else (let dp = ntohs (get16 p 2); sp = ntohs (get16 p 0); dlen = ntohs (get16 p 4) - 8;
                s = serial_write (''[udp] rx dst='' @ sn_hex16 dp @ '' src='' @ sn_hex16 sp @ '' from='' @ sn_ip src @
                      '' len='' @ sn_dec32 (ucast dlen) @ ''\<newline>'') s
            in udp_deliver dp src sp (\<lambda>i. p (8 + i)) dlen s))"

definition ip4_handle :: "(net \<Rightarrow> net) \<Rightarrow> packet \<Rightarrow> u16 \<Rightarrow> net \<Rightarrow> net" where
  "ip4_handle nic p len s =
     (if len < 20 then s
      else if drop_bit 4 (p 0) \<noteq> 4 then s
      else
        (let src = get_addr p 12; ihl = (p 0 AND 0xF) * 4; tot = ntohs (get16 p 2)
         in if tot < ucast ihl \<or> ihl < 20 then s
            else if p 9 = IP_PROTO_ICMP then icmp_handle nic src (\<lambda>i. p (unat ihl + i)) (tot - ucast ihl) s
            else if p 9 = IP_PROTO_UDP then udp_handle src (\<lambda>i. p (unat ihl + i)) (tot - ucast ihl) s
            else s))"

definition eth_rx :: "(net \<Rightarrow> net) \<Rightarrow> packet \<Rightarrow> u16 \<Rightarrow> net \<Rightarrow> net" where
  "eth_rx nic f len s =
     (if len < 14 then s
      else
        (let et = ntohs (get16 f 12);
             s = (if log_rx s
                  then serial_write (''[eth] rx et='' @ sn_hex16 et @ '' len='' @ sn_dec32 (ucast len) @ '' src='' @
                         mac_text (map f [6..<12]) @ ''\<newline>'') s
                  else s);
             p = (\<lambda>i. f (14 + i)); pl = len - 14
         in if et = ETHERTYPE_ARP then arp_handle nic p pl s
            else if et = ETHERTYPE_IP then ip4_handle nic p pl s
            else s))"

section \<open>Getting an address\<close>

text \<open>
  One look at the card, and the wait for the next tick, \<^verbatim>\<open>while(timer_ticks()-t<1);\<close> which ends if the
  timer's interrupts come (\<open>ticks\<close>) and never otherwise.
\<close>

definition wait_tick :: "bool \<Rightarrow> 's \<Rightarrow> 's option" where
  "wait_tick ticks s = (if ticks then Some s else None)"

definition net_look :: "bool \<Rightarrow> device \<Rightarrow> (net \<Rightarrow> net) \<Rightarrow> net \<Rightarrow> net option" where
  "net_look ticks dev nic s = wait_tick ticks (e1000_handle_irq dev (eth_rx nic) (nic s))"

text \<open>\<^verbatim>\<open>for(int i=0;i<n&&!stop;i++) body\<close>\<close>

fun loop_until :: "nat \<Rightarrow> ('s \<Rightarrow> bool) \<Rightarrow> ('s \<Rightarrow> 's option) \<Rightarrow> 's \<Rightarrow> 's option" where
  "loop_until 0 stop body s = Some s"
| "loop_until (Suc n) stop body s = (if stop s then Some s else do { s \<leftarrow> body s; loop_until n stop body s })"

definition dhcp_attempt :: "bool \<Rightarrow> device \<Rightarrow> (net \<Rightarrow> net) \<Rightarrow> nat \<Rightarrow> net \<Rightarrow> net option" where
  "dhcp_attempt ticks dev nic a s =
     (let s = serial_write (''[dhcp] DISCOVER attempt '' @ sn_u8 (of_nat (a + 1)) @ ''\<newline>'') s;
          s = dhcp_send_pkt nic DHCP_DISCOVER 0 0 s
      in do { s \<leftarrow> loop_until 500 dhcp_got_offer (net_look ticks dev nic) s;
              Some (if \<not> dhcp_got_offer s then serial_write ''[dhcp] no offer after 5s\<newline>'' s else s) })"

definition dhcp_start :: "net \<Rightarrow> net" where
  "dhcp_start s =
     (let s = serial_write (''[dhcp] === starting DHCP ===\<newline>[dhcp] our MAC: '' @ mac_text (our_mac s) @ ''\<newline>[dhcp] xid='' @
                sn_hex32 (dhcp_xid s) @ ''\<newline>[dhcp] dhcp_pkt_t size='' @ sn_dec32 (of_nat dhcp_pkt_size) @ ''\<newline>'') s;
          s = s\<lparr>dhcp_got_offer := False, dhcp_got_ack := False, dhcp_offered := 0, dhcp_server := 0, dhcp_gw := 0,
                dhcp_mask := 0, dhcp_dns := 0\<rparr>;
          s = udp_register_port DHCP_PORT_CLIENT Dhcp_cb s
      in (serial_write ''[dhcp] registered port 68\<newline>'' s)\<lparr>log_rx := True\<rparr>)"

text \<open>The configuration taken over after the acknowledgement.\<close>

definition dhcp_configure :: "net \<Rightarrow> net" where
  "dhcp_configure s =
     (let s = s\<lparr>net_ip := dhcp_offered s\<rparr>;
          s = (if dhcp_mask s \<noteq> 0 then s\<lparr>net_mask := dhcp_mask s\<rparr> else s);
          s = (if dhcp_gw s \<noteq> 0 then s\<lparr>net_gw := dhcp_gw s\<rparr> else s)
      in if dhcp_dns s \<noteq> 0 then s\<lparr>net_dns := dhcp_dns s\<rparr> else s)"

definition dhcp_request :: "bool \<Rightarrow> device \<Rightarrow> (net \<Rightarrow> net) \<Rightarrow> net \<Rightarrow> (bool \<times> net) option" where
  "dhcp_request ticks dev nic s =
     do { (a, s) \<leftarrow> loop_until 3 (\<lambda>(a, s). dhcp_got_offer s)
                    (\<lambda>(a, s). do { s \<leftarrow> dhcp_attempt ticks dev nic a s; Some (a + 1, s) }) (0, dhcp_start s);
          let s = s\<lparr>log_rx := False\<rparr>;
          if \<not> dhcp_got_offer s
          then Some (False, serial_write (''[dhcp] FAILED '' @ em_dash @ '' no OFFER received\<newline>'' @
                 ''[dhcp] check: VirtualBox promiscuous=AllowAll? bridged adapter selected?\<newline>'') s)
          else
            do { let s = dhcp_send_pkt nic DHCP_REQUEST (dhcp_offered s) (dhcp_server s) s;
                 s \<leftarrow> loop_until 500 dhcp_got_ack (net_look ticks dev nic) (s\<lparr>log_rx := True\<rparr>);
                 let s = s\<lparr>log_rx := False\<rparr>;
                 if \<not> dhcp_got_ack s then Some (False, serial_write ''[dhcp] no ACK\<newline>'' s)
                 else
                   (let s = dhcp_configure s; s = arp_send_request nic (net_ip s) s
                    in Some (True, serial_write (''[dhcp] SUCCESS\<newline>  IP  : '' @ sn_ip (net_ip s) @ ''\<newline>  GW  : '' @ sn_ip (net_gw s) @
                         ''\<newline>  Mask: '' @ sn_ip (net_mask s) @ ''\<newline>  DNS : '' @ sn_ip (net_dns s) @ ''\<newline>'') s)) } }"

text \<open>All the card writes to are its rings and buffers.\<close>

definition card_writes :: "(net \<Rightarrow> net) \<Rightarrow> bool" where
  "card_writes nic \<longleftrightarrow> (\<forall>s. \<exists>a b c d. nic s = s\<lparr>tx_ring := a, rx_ring := b, tx_buf := c, rx_buf := d\<rparr>)"

lemma offer_poll:
  assumes "card_writes nic"
  shows "dhcp_got_offer (snd (poll n (tx_done nic) s)) = dhcp_got_offer s"
proof (induction n arbitrary: s)
  case (Suc n)
  obtain a b c d where "nic s = s\<lparr>tx_ring := a, rx_ring := b, tx_buf := c, rx_buf := d\<rparr>" using assms unfolding card_writes_def by blast
  then have "dhcp_got_offer (nic s) = dhcp_got_offer s" by simp
  moreover obtain r t where "tx_done nic s = (r, t)" "t = nic s" unfolding tx_done_def Let_def by blast
  ultimately show ?case using Suc [of t] by (cases r) simp_all
qed simp

lemma offer_send:
  assumes "card_writes nic"
  shows "dhcp_got_offer (eth_send_raw nic dm et payload s) = dhcp_got_offer s"
proof -
  obtain r t where p: "poll 100000 (tx_done nic) s = (r, t)" by fastforce
  with offer_poll [OF assms, of 100000 s] have t: "dhcp_got_offer t = dhcp_got_offer s" by simp
  show ?thesis
    using p t by (cases r) (simp_all add: eth_send_raw_def Let_def e1000_send_def copy_to_tx put_tx_def access_def e_wr_def mwr_def serial_write_def)
qed

lemma send_pkt_offer:
  assumes "card_writes nic"
  shows "dhcp_got_offer (dhcp_send_pkt nic mt rq sv s) = dhcp_got_offer s"
  by (simp add: dhcp_send_pkt_def raw_udp_send_def raw_ip4_send_def arp_send_request_def Let_def offer_send [OF assms] serial_write_def split: option.split)

text \<open>The request waits at least once; it ends exactly when the timer's interrupts come.\<close>

lemma loop_until_ends: "(\<And>s. body s \<noteq> None) \<Longrightarrow> loop_until n stop body s \<noteq> None"
proof (induction n arbitrary: s)
  case (Suc n)
  obtain t where "body s = Some t" using Suc.prems [of s] by auto
  with Suc show ?case by simp
qed simp

lemma dhcp_request_ends:
  assumes "card_writes nic"
  shows "dhcp_request ticks dev nic s \<noteq> None \<longleftrightarrow> ticks"
proof (cases ticks)
  case True
  have l: "loop_until n stop (net_look True dev nic) s \<noteq> None" for n stop s
    by (rule loop_until_ends) (simp add: net_look_def wait_tick_def)
  have a: "\<exists>t. dhcp_attempt True dev nic a s = Some t" for a s
  proof -
    obtain t where "loop_until 500 dhcp_got_offer (net_look True dev nic)
      (dhcp_send_pkt nic DHCP_DISCOVER 0 0 (serial_write (''[dhcp] DISCOVER attempt '' @ sn_u8 (of_nat (a + 1)) @ ''\<newline>'') s)) = Some t" using l by fastforce
    then show ?thesis unfolding dhcp_attempt_def Let_def by simp
  qed
  have "loop_until 3 (\<lambda>(a, s). dhcp_got_offer s) (\<lambda>(a, s). do { s \<leftarrow> dhcp_attempt True dev nic a s; Some (a + 1, s) }) (0, dhcp_start s) \<noteq> None"
  proof (rule loop_until_ends)
    fix x :: "nat \<times> net"
    obtain t where "dhcp_attempt True dev nic (fst x) (snd x) = Some t" using a by blast
    then show "(case x of (a, s) \<Rightarrow> do { s \<leftarrow> dhcp_attempt True dev nic a s; Some (a + 1, s) }) \<noteq> None" by (simp add: split_beta)
  qed
  then obtain b t where t: "loop_until 3 (\<lambda>(a, s). dhcp_got_offer s) (\<lambda>(a, s). do { s \<leftarrow> dhcp_attempt True dev nic a s; Some (a + 1, s) })
    (0, dhcp_start s) = Some (b, t)" by auto
  let ?t = "(dhcp_send_pkt nic DHCP_REQUEST (dhcp_offered t) (dhcp_server t) (t\<lparr>log_rx := False\<rparr>))\<lparr>log_rx := True\<rparr>"
  obtain u where u: "loop_until 500 dhcp_got_ack (net_look True dev nic) ?t = Some u" using l by fastforce
  have "dhcp_request True dev nic s \<noteq> None" unfolding dhcp_request_def t using u by (auto simp: Let_def)
  with True show ?thesis by simp
next
  case False
  have "loop_until 500 dhcp_got_offer (net_look False dev nic) t = None" if "\<not> dhcp_got_offer t" for t
    using that by (simp add: numeral_eq_Suc net_look_def wait_tick_def)
  moreover have "\<not> dhcp_got_offer (dhcp_send_pkt nic mt rq sv (serial_write msg (dhcp_start s)))" for mt rq sv msg
    by (simp add: send_pkt_offer [OF assms] dhcp_start_def Let_def udp_register_port_def serial_write_def split: option.split)
  ultimately have "dhcp_attempt False dev nic 0 (dhcp_start s) = None" by (simp add: dhcp_attempt_def)
  moreover have "\<not> dhcp_got_offer (dhcp_start s)"
    by (simp add: dhcp_start_def Let_def udp_register_port_def serial_write_def split: option.split)
  ultimately have "dhcp_request False dev nic s = None" by (simp add: dhcp_request_def numeral_3_eq_3)
  with False show ?thesis by simp
qed

definition net_print_info :: "net \<Rightarrow> net" where
  "net_print_info s =
     serial_write (''[net] MAC : '' @ mac_text (e1000_get_mac s) @ ''\<newline>[net] IP  : '' @ sn_ip (net_ip s) @ ''\<newline>[net] GW  : '' @
       sn_ip (net_gw s) @ ''\<newline>[net] Mask: '' @ sn_ip (net_mask s) @ ''\<newline>[net] DNS : '' @ sn_ip (net_dns s) @ ''\<newline>'') s"

definition net_init :: "net \<Rightarrow> net" where
  "net_init s =
     (let s = for_loop 0 ARP_CACHE (\<lambda>i s. s\<lparr>arp_cache := (arp_cache s)[i := (arp_cache s ! i)\<lparr>ae_valid := False\<rparr>]\<rparr>) s;
          s = s\<lparr>udp_binds := [], net_ip := 0, log_rx := False\<rparr>;
          s = s\<lparr>our_mac := e1000_get_mac s\<rparr>;
          s = e1000_register_rx s
      in serial_write ''[net] stack ready\<newline>'' s)"

end
