(* ===== verification/Net_Props.thy ===== *)
theory Net_Props
  imports Net_Stack
begin

text \<open>
  What the network stack computes: the ARP cache as a map, the packets as a receiver reads them, the
  echo reply, and the DHCP client's reading of a server's message.
\<close>

section \<open>The ARP cache is a map\<close>

definition arp_ok :: "net \<Rightarrow> bool" where
  "arp_ok s \<longleftrightarrow> length (arp_cache s) = ARP_CACHE \<and>
     (\<forall>i < ARP_CACHE. \<forall>j < ARP_CACHE. ae_valid (arp_cache s ! i) \<and> ae_valid (arp_cache s ! j) \<and>
        ae_ip (arp_cache s ! i) = ae_ip (arp_cache s ! j) \<longrightarrow> i = j)"

definition arp_map :: "net \<Rightarrow> u32 \<Rightarrow> u8 list option" where "arp_map s ip = arp_lookup ip s"

definition arp_full :: "net \<Rightarrow> bool" where "arp_full s \<longleftrightarrow> (\<forall>i < ARP_CACHE. ae_valid (arp_cache s ! i))"

lemma arp_unique:
  "arp_ok s \<Longrightarrow> arp_is s ip i \<Longrightarrow> arp_is s ip j \<Longrightarrow> i < ARP_CACHE \<Longrightarrow> j < ARP_CACHE \<Longrightarrow> i = j"
  by (simp add: arp_ok_def arp_is_def)

lemma arp_map_Some: "arp_ok s \<Longrightarrow> arp_map s ip = Some m \<longleftrightarrow> (\<exists>i < ARP_CACHE. arp_is s ip i \<and> ae_mac (arp_cache s ! i) = m)"
proof -
  assume ok: "arp_ok s"
  show ?thesis
  proof
    assume "arp_map s ip = Some m"
    then show "\<exists>i < ARP_CACHE. arp_is s ip i \<and> ae_mac (arp_cache s ! i) = m"
      by (auto simp: arp_map_def arp_lookup_def first_from_Some)
  next
    assume "\<exists>i < ARP_CACHE. arp_is s ip i \<and> ae_mac (arp_cache s ! i) = m"
    then obtain i where i: "i < ARP_CACHE" "arp_is s ip i" "ae_mac (arp_cache s ! i) = m" by blast
    have "\<not> arp_is s ip j" if "j < i" for j using arp_unique [OF ok i(2), of j] i(1) that by auto
    then have "first_from (arp_is s ip) 0 ARP_CACHE = Some i" using i by (simp add: first_from_Some)
    with i show "arp_map s ip = Some m" by (simp add: arp_map_def arp_lookup_def)
  qed
qed

lemma arp_map_None: "arp_map s ip = None \<longleftrightarrow> (\<forall>i < ARP_CACHE. \<not> arp_is s ip i)"
  by (simp add: arp_map_def arp_lookup_def first_from_None)

text \<open>Every branch of \<^verbatim>\<open>arp_add\<close> writes a whole entry, over the one for the address if there is one.\<close>

lemma arp_set_map:
  assumes ok: "arp_ok s" and i: "i < ARP_CACHE" and only: "\<And>j. j < ARP_CACHE \<Longrightarrow> arp_is s ip j \<Longrightarrow> j = i"
  shows "arp_ok (arp_set i ip m s)"
    and "arp_map (arp_set i ip m s) x = (if x = ip then Some m else if arp_is s x i then None else arp_map s x)"
proof -
  define s' where "s' = arp_set i ip m s"
  have len: "length (arp_cache s) = ARP_CACHE" using ok by (simp add: arp_ok_def)
  have is': "arp_is s' y j = (if j = i then y = ip else arp_is s y j)" if "j < ARP_CACHE" for y j
    using that len by (auto simp: s'_def arp_set_def arp_is_def nth_list_update)
  have mac: "ae_mac (arp_cache s' ! j) = (if j = i then m else ae_mac (arp_cache s ! j))" if "j < ARP_CACHE" for j
    using that len by (auto simp: s'_def arp_set_def nth_list_update)
  have only': "j = i" if "arp_is s' ip j" "j < ARP_CACHE" for j
    using that is' [OF that(2), of ip] only [OF that(2)] by (cases "j = i") simp_all
  have uniq: "j = k" if a: "arp_is s' y j" "arp_is s' y k" "j < ARP_CACHE" "k < ARP_CACHE" for y j k
  proof (cases "y = ip")
    case True
    then show ?thesis using only' [of j] only' [of k] a by simp
  next
    case False
    then have "j \<noteq> i" "k \<noteq> i" using is' [OF a(3), of y] is' [OF a(4), of y] a(1,2) by auto
    then have "arp_is s y j" "arp_is s y k" using is' [OF a(3), of y] is' [OF a(4), of y] a(1,2) by simp_all
    then show ?thesis using arp_unique [OF ok] a(3,4) by blast
  qed
  have ok': "arp_ok s'"
    unfolding arp_ok_def
  proof (intro conjI allI impI)
    show "length (arp_cache s') = ARP_CACHE" by (simp add: s'_def arp_set_def len)
    fix j k
    assume "j < ARP_CACHE" "k < ARP_CACHE"
      "ae_valid (arp_cache s' ! j) \<and> ae_valid (arp_cache s' ! k) \<and> ae_ip (arp_cache s' ! j) = ae_ip (arp_cache s' ! k)"
    then show "j = k" using uniq [of "ae_ip (arp_cache s' ! j)" j k] by (simp add: arp_is_def)
  qed
  then show "arp_ok (arp_set i ip m s)" by (simp add: s'_def)
  have "arp_map s' x = (if x = ip then Some m else if arp_is s x i then None else arp_map s x)"
  proof (cases "x = ip")
    case True
    have "\<exists>j < ARP_CACHE. arp_is s' x j \<and> ae_mac (arp_cache s' ! j) = m"
      using i is' [OF i] mac [OF i] True by auto
    with True show ?thesis by (simp add: arp_map_Some [OF ok'])
  next
    case False
    show ?thesis
    proof (cases "arp_is s x i")
      case True
      have "\<not> arp_is s' x j" if j: "j < ARP_CACHE" for j
        using is' [OF j, of x] False arp_unique [OF ok True _ i j] by (cases "j = i") auto
      then have "arp_map s' x = None" by (simp add: arp_map_None)
      with False True show ?thesis by simp
    next
      case nx: False
      have e: "arp_is s' x j = arp_is s x j" "arp_is s x j \<Longrightarrow> ae_mac (arp_cache s' ! j) = ae_mac (arp_cache s ! j)"
        if "j < ARP_CACHE" for j
        using is' [OF that] mac [OF that] False nx by auto
      have "(\<exists>j < ARP_CACHE. arp_is s' x j \<and> ae_mac (arp_cache s' ! j) = c) \<longleftrightarrow>
          (\<exists>j < ARP_CACHE. arp_is s x j \<and> ae_mac (arp_cache s ! j) = c)" for c
        using e by metis
      then have "arp_map s' x = Some c \<longleftrightarrow> arp_map s x = Some c" for c
        by (simp add: arp_map_Some [OF ok'] arp_map_Some [OF ok])
      then have "arp_map s' x = arp_map s x" by (metis option.exhaust)
      with False nx show ?thesis by simp
    qed
  qed
  then show "arp_map (arp_set i ip m s) x = (if x = ip then Some m else if arp_is s x i then None else arp_map s x)"
    by (simp add: s'_def)
qed

text \<open>
  The ARP cache is a map from addresses to hardware addresses: \<^verbatim>\<open>arp_add\<close> sets one entry and keeps
  the others; only when all sixteen are taken and the address is new is another lost, the one in
  the first slot.
\<close>

theorem arp_add_map:
  assumes "arp_ok s"
  shows "arp_ok (arp_add ip m s) \<and>
    arp_map (arp_add ip m s) =
      (if arp_map s ip = None \<and> arp_full s then (arp_map s)(ae_ip (arp_cache s ! 0) := None) else arp_map s)(ip \<mapsto> m)"
proof (cases "first_from (arp_is s ip) 0 ARP_CACHE")
  case (Some i)
  then have i: "i < ARP_CACHE" "arp_is s ip i" by (auto simp: first_from_Some)
  have "(arp_cache s ! i)\<lparr>ae_mac := m\<rparr> = \<lparr>ae_ip = ip, ae_mac = m, ae_valid = True\<rparr>"
    using i(2) by (cases "arp_cache s ! i") (simp add: arp_is_def)
  then have e: "arp_add ip m s = arp_set i ip m s" using Some by (simp add: arp_add_def arp_set_def)
  have only: "j = i" if "j < ARP_CACHE" "arp_is s ip j" for j using arp_unique [OF assms that(2) i(2) that(1) i(1)] .
  have st: "arp_ok (arp_set i ip m s)"
    "arp_map (arp_set i ip m s) x = (if x = ip then Some m else if arp_is s x i then None else arp_map s x)" for x
    using arp_set_map [OF assms i(1) only, where m = m] by simp_all
  have "arp_map s ip \<noteq> None" using i by (auto simp: arp_map_None)
  moreover have "arp_map (arp_set i ip m s) x = ((arp_map s)(ip \<mapsto> m)) x" for x
    using st(2) [of x] i(2) by (auto simp: arp_is_def)
  ultimately show ?thesis using st(1) by (auto simp: e)
next
  case None
  then have absent: "arp_map s ip = None" "\<And>j. j < ARP_CACHE \<Longrightarrow> \<not> arp_is s ip j"
    by (simp_all add: arp_map_def arp_lookup_def first_from_None)
  show ?thesis
  proof (cases "first_from (\<lambda>i. \<not> ae_valid (arp_cache s ! i)) 0 ARP_CACHE")
    case (Some i)
    then have i: "i < ARP_CACHE" "\<not> ae_valid (arp_cache s ! i)" by (auto simp: first_from_Some)
    have e: "arp_add ip m s = arp_set i ip m s" using None Some by (simp add: arp_add_def)
    have st: "arp_ok (arp_set i ip m s)"
      "arp_map (arp_set i ip m s) x = (if x = ip then Some m else if arp_is s x i then None else arp_map s x)" for x
      using arp_set_map [OF assms i(1), where ip = ip and m = m] absent(2) by simp_all
    have "\<not> arp_full s" using i by (auto simp: arp_full_def)
    moreover have "arp_map (arp_set i ip m s) x = ((arp_map s)(ip \<mapsto> m)) x" for x
      using st(2) [of x] absent(2) i(2) by (auto simp: arp_is_def)
    ultimately show ?thesis using st(1) absent(2) by (auto simp: e)
  next
    case none: None
    have z: "0 < ARP_CACHE" by (simp add: ARP_CACHE_def)
    have full: "arp_full s" using none by (simp add: first_from_None arp_full_def)
    have e: "arp_add ip m s = arp_set 0 ip m s" using None none by (simp add: arp_add_def)
    have st: "arp_ok (arp_set 0 ip m s)"
      "arp_map (arp_set 0 ip m s) x = (if x = ip then Some m else if arp_is s x 0 then None else arp_map s x)" for x
      using arp_set_map [OF assms z, where ip = ip and m = m] absent(2) by simp_all
    have "arp_is s x 0 \<longleftrightarrow> ae_ip (arp_cache s ! 0) = x" for x using full z by (simp add: arp_is_def arp_full_def)
    then have "arp_map (arp_set 0 ip m s) x = ((arp_map s)(ae_ip (arp_cache s ! 0) := None, ip \<mapsto> m)) x" for x
      using st(2) [of x] absent(2) by auto
    then show ?thesis using st(1) absent full by (auto simp: e)
  qed
qed

text \<open>A stack just started, and one whose sixteen entries are taken by the addresses 100 to 115.\<close>

definition demo_net :: net where
  "demo_net = e1000.extend demo_e1000
     \<lparr>net_ip = IP4 10 0 2 15, net_gw = IP4 10 0 2 2, net_mask = IP4 255 255 255 0, net_dns = 0,
      our_mac = [0x52, 0x54, 0, 0x12, 0x34, 0x56],
      arp_cache = replicate 16 \<lparr>ae_ip = 0, ae_mac = replicate 6 0, ae_valid = False\<rparr>, ip_id = 1, udp_binds = [], log_rx = False,
      dhcp_got_offer = False, dhcp_got_ack = False, dhcp_offered = 0, dhcp_server = 0, dhcp_gw = 0, dhcp_mask = 0,
      dhcp_dns = 0, dhcp_xid = 0x12345678\<rparr>"

definition full_net :: net where
  "full_net = demo_net\<lparr>arp_cache := map (\<lambda>i. \<lparr>ae_ip = of_nat (100 + i), ae_mac = replicate 6 (of_nat i), ae_valid = True\<rparr>) [0..<16]\<rparr>"

lemma of_nat_inj32: "i = j" if e: "(of_nat i :: u32) = of_nat j" and "i < 2 ^ 32" "j < 2 ^ 32"
proof -
  have "unat (of_nat n :: u32) = n" if "n < 2 ^ 32" for n using that by (simp add: unsigned_of_nat take_bit_nat_eq_self)
  then show ?thesis using that by metis
qed

lemma arp_add_map_witness:
  "arp_map (arp_add 7 [1, 2, 3, 4, 5, 6] full_net) 7 = Some [1, 2, 3, 4, 5, 6] \<and>
   arp_map (arp_add 7 [1, 2, 3, 4, 5, 6] full_net) 100 = None \<and>
   arp_map (arp_add 7 [1, 2, 3, 4, 5, 6] full_net) 101 = arp_map full_net 101"
proof -
  have inj: "i = j" if "(of_nat i :: u32) = of_nat j" "i < 1000" "j < 1000" for i j
    using of_nat_inj32 [OF that(1)] that(2,3) by simp
  have ok: "arp_ok full_net"
    unfolding arp_ok_def
  proof (intro conjI allI impI)
    show "length (arp_cache full_net) = ARP_CACHE" by (simp add: full_net_def ARP_CACHE_def)
    fix i j
    assume "i < ARP_CACHE" "j < ARP_CACHE" "ae_valid (arp_cache full_net ! i) \<and> ae_valid (arp_cache full_net ! j) \<and>
        ae_ip (arp_cache full_net ! i) = ae_ip (arp_cache full_net ! j)"
    then have "(of_nat (100 + i) :: u32) = of_nat (100 + j)" "i < 16" "j < 16"
      by (simp_all add: full_net_def ARP_CACHE_def)
    then show "i = j" using inj [of "100 + i" "100 + j"] by simp
  qed
  have "\<not> arp_is full_net 7 i" if "i < ARP_CACHE" for i
    using that inj [of 7 "100 + i"] by (auto simp: arp_is_def full_net_def ARP_CACHE_def)
  then have "arp_map full_net 7 = None" by (simp add: arp_map_None)
  moreover have "arp_full full_net" by (simp add: arp_full_def full_net_def ARP_CACHE_def)
  moreover have "ae_ip (arp_cache full_net ! 0) = 100" by (simp add: full_net_def)
  ultimately show ?thesis using arp_add_map [OF ok, of 7 "[1, 2, 3, 4, 5, 6]"] by simp
qed

section \<open>Packets on the wire\<close>

lemma ntohs_htons [simp]: "ntohs (htons x) = x"
  by (simp add: ntohs_def)

lemma get16_le16: "length a = k \<Longrightarrow> get16 ((!) (a @ le16 v @ b)) k = v"
  using split_half_bytes [of v] by (auto simp: get16_def le16_def nth_append)

lemma put_addr_four: "put_addr s = [ucast (drop_bit 24 s), ucast (drop_bit 16 s), ucast (drop_bit 8 s), ucast s]"
  by (simp add: put_addr_def upt_rec)

lemma get_addr_put: "length a = k \<Longrightarrow> get_addr ((!) (a @ put_addr v @ b)) k = v"
  using IP4_bytes [of v] by (auto simp: get_addr_def put_addr_four nth_append)

lemma ip4_header_length [simp]: "length (ip4_header tot ident proto csum src dst) = 20"
  by (simp add: ip4_header_def put_addr_four)

lemma ip4_header_sums:
  "net_checksum (ip4_header tot ident proto (net_checksum (ip4_header tot ident proto 0 src dst)) src dst) = 0"
proof -
  define a where "a = [0x45, 0] @ le16 (htons tot) @ le16 (htons ident) @ le16 0 @ [64, proto]"
  define b where "b = put_addr (htonl src) @ put_addr (htonl dst)"
  have h: "ip4_header tot ident proto c src dst = a @ le16 c @ b" for c
    by (simp add: ip4_header_def a_def b_def)
  have z: "le16 0 = [0, 0]" by (simp add: le16_def)
  have "length a = 10" "length b = 8" by (simp_all add: a_def b_def put_addr_four)
  then show ?thesis using checksum_verifies [of a b] by (simp add: h z)
qed

text \<open>
  Any packet the stack builds reads back as what it was built from: version 4, a header of 20
  bytes whose checksum verifies, its total length, its protocol, its payload unchanged. Its two
  addresses are on the wire with their bytes reversed: a receiver that reads them the way this
  stack reads the packets it gets sees \<^verbatim>\<open>htonl\<close> of the addresses meant.
\<close>

lemma ip4_wire:
  fixes ident :: u16 and proto :: u8 and src dst :: u32 and payload :: "u8 list"
  defines "pkt \<equiv> ip4_packet ident proto src dst payload"
  shows "pkt ! 0 = 0x45" "(pkt ! 0 AND 0xF) * 4 = 20" "ntohs (get16 ((!) pkt) 2) = of_nat (20 + length payload)"
    "ntohs (get16 ((!) pkt) 4) = ident" "pkt ! 9 = proto" "net_checksum (take 20 pkt) = 0"
    "get_addr ((!) pkt) 12 = htonl src" "get_addr ((!) pkt) 16 = htonl dst" "drop 20 pkt = payload"
proof -
  define tot :: u16 where "tot = of_nat (20 + length payload)"
  define c where "c = net_checksum (ip4_header tot ident proto 0 src dst)"
  have p: "pkt = ip4_header tot ident proto c src dst @ payload" by (simp add: pkt_def ip4_packet_def c_def tot_def Let_def)
  show "net_checksum (take 20 pkt) = 0" by (simp add: p c_def ip4_header_sums)
  show "drop 20 pkt = payload" by (simp add: p)
  show "pkt ! 0 = 0x45" "(pkt ! 0 AND 0xF) * 4 = 20" "pkt ! 9 = proto" by (simp_all add: p ip4_header_def le16_def)
  show "ntohs (get16 ((!) pkt) 2) = of_nat (20 + length payload)"
    unfolding p ip4_header_def append_assoc using get16_le16 [of "[0x45, 0]"] by (simp add: tot_def)
  show "ntohs (get16 ((!) pkt) 4) = ident"
    unfolding p ip4_header_def append_assoc using get16_le16 [of "[0x45, 0] @ le16 (htons tot)"] by simp
  show "get_addr ((!) pkt) 12 = htonl src"
    unfolding p ip4_header_def append_assoc
    using get_addr_put [of "[0x45, 0] @ le16 (htons tot) @ le16 (htons ident) @ le16 0 @ [64, proto] @ le16 c"] by simp
  show "get_addr ((!) pkt) 16 = htonl dst"
    unfolding p ip4_header_def append_assoc
    using get_addr_put [of "[0x45, 0] @ le16 (htons tot) @ le16 (htons ident) @ le16 0 @ [64, proto] @ le16 c @ put_addr (htonl src)"]
    by (simp add: put_addr_four)
qed

section \<open>Answering a ping\<close>

definition echo_reply :: "packet \<Rightarrow> nat \<Rightarrow> u8 list" where
  "echo_reply p n = (let r = (\<lambda>c. [ICMP_ECHO_REPLY, p 1] @ le16 c @ map p [4..<n]) in r (net_checksum (r 0)))"

lemma echo_reply_spec:
  assumes "8 \<le> n" and "n \<le> 512"
  shows "length (echo_reply p n) = n" "echo_reply p n ! 0 = ICMP_ECHO_REPLY" "echo_reply p n ! 1 = p 1"
    "4 \<le> i \<Longrightarrow> i < n \<Longrightarrow> echo_reply p n ! i = p i" "net_checksum (echo_reply p n) = 0"
proof -
  let ?d = "map p [4..<n]"
  have e: "echo_reply p n = [ICMP_ECHO_REPLY, p 1] @ le16 (net_checksum ([ICMP_ECHO_REPLY, p 1] @ [0, 0] @ ?d)) @ ?d"
    by (simp add: echo_reply_def le16_def)
  show "net_checksum (echo_reply p n) = 0" unfolding e by (rule checksum_verifies) (use assms in simp_all)
  show "length (echo_reply p n) = n" "echo_reply p n ! 0 = ICMP_ECHO_REPLY" "echo_reply p n ! 1 = p 1"
    using assms by (simp_all add: e)
  show "echo_reply p n ! i = p i" if "4 \<le> i" "i < n"
  proof -
    have "\<not> i - Suc (Suc 0) < 2" "i - 2 - 2 + 4 = i" using that(1) by simp_all
    then show ?thesis using that assms by (simp add: e nth_append nth_Cons')
  qed
qed

lemma unat_of_nat16: "n < 65536 \<Longrightarrow> unat (of_nat n :: u16) = n"
  by (simp add: unsigned_of_nat take_bit_nat_eq_self)

text \<open>A packet for a neighbour the ARP cache knows goes to the card in one frame.\<close>

lemma ip4_send_neighbour:
  assumes "20 + length payload \<le> ETH_FRAME_MAX"
    and "dst \<noteq> IP4_BCAST" and "dst \<noteq> (net_ip s OR NOT (net_mask s))" and "dst AND net_mask s = net_ip s AND net_mask s"
    and "arp_lookup dst s = Some dm"
  shows "ip4_send nic dst proto payload s =
    eth_send_raw nic dm ETHERTYPE_IP (ip4_packet (ip_id s) proto (net_ip s) dst payload) (s\<lparr>ip_id := ip_id s + 1\<rparr>)"
proof -
  have "unat (of_nat (20 + length payload) :: u16) = 20 + length payload"
    by (rule unat_of_nat16) (use assms(1) in \<open>simp add: ETH_FRAME_MAX_def\<close>)
  moreover have "arp_is (s\<lparr>ip_id := ip_id s + 1\<rparr>) = arp_is s" by (intro ext) (simp add: arp_is_def)
  then have "arp_lookup dst (s\<lparr>ip_id := ip_id s + 1\<rparr>) = Some dm" using assms(5) by (simp add: arp_lookup_def)
  ultimately show ?thesis using assms(1-4) by (simp add: ip4_send_def raw_ip4_send_def Let_def)
qed

lemma ip4_packet_length [simp]: "length (ip4_packet ident proto src dst payload) = 20 + length payload"
  by (simp add: ip4_packet_def Let_def)

lemma eth_frame_length [simp]: "length (eth_frame dst src et payload) = 14 + length payload"
  by (simp add: eth_frame_def)

text \<open>The state after a frame was queued at the descriptor \<open>t\<close> of the state \<open>s1\<close> the card left.\<close>

definition queued :: "u8 list \<Rightarrow> nat \<Rightarrow> net \<Rightarrow> net \<Rightarrow> bool" where
  "queued frame t s1 s' \<longleftrightarrow> (\<exists>stores. list_all (in_slot t) stores \<and>
     s' = s1\<lparr>tx_buf := (tx_buf s1)(t := (\<lambda>i. if i < length frame then frame ! i else tx_buf s1 t i)),
       tx_ring := (tx_ring s1)[t := (tx_ring s1 ! t)\<lparr>tx_length := of_nat (length frame), tx_cmd := 11, tx_status := 0\<rparr>],
       tx_tail := (t + 1) mod 8, trace := Mwr (mmio_base s1 + 0x3818) (of_nat ((t + 1) mod 8)) # stores @ trace s1\<rparr>)"

lemma eth_send_raw_queued:
  assumes "14 + length payload \<le> ETH_FRAME_MAX" and "e1000_ready s" and "poll 100000 (tx_done nic) s = (True, s1)"
    and "tx_tail s1 = t" and "t < length (tx_ring s1)"
  shows "queued (eth_frame dm (our_mac s) et payload) t s1 (eth_send_raw nic dm et payload s)"
proof -
  let ?len = "of_nat (14 + length payload) :: u16" and ?f = "eth_frame dm (our_mac s) et payload"
  have l: "unat ?len = 14 + length payload"
    by (rule unat_of_nat16) (use assms(1) in \<open>simp add: ETH_FRAME_MAX_def\<close>)
  have len: "unat ?len \<le> ETH_FRAME_MAX" using assms(1) l by simp
  have "list_all (in_slot t) (Store (Tx_status t) 0 # Store (Tx_cmd t) 11 # Store (Tx_length t) (ucast ?len) # byte_stores t ((!) ?f) (unat ?len))"
    using byte_stores_spec(2) by (auto simp: list_all_iff)
  moreover note e1000_send_queued [OF assms(2) len assms(3-5), where data = "(!) ?f"]
  ultimately show ?thesis
    using assms(1) unfolding queued_def eth_frame_length l
    by (intro exI [of _ "Store (Tx_status t) 0 # Store (Tx_cmd t) 11 # Store (Tx_length t) (ucast ?len) # byte_stores t ((!) ?f) (14 + length payload)"])
      (simp add: eth_send_raw_def Let_def del: of_nat_add of_nat_Suc)
qed

text \<open>The frame of an echo request: IPv4 without options, ICMP type 8.\<close>

definition ping_frame :: "packet \<Rightarrow> u16 \<Rightarrow> nat \<Rightarrow> bool" where
  "ping_frame f len n \<longleftrightarrow> 34 \<le> len \<and> ntohs (get16 f 12) = ETHERTYPE_IP \<and> f 14 = 0x45 \<and>
     unat (ntohs (get16 f 16)) = 20 + n \<and> 8 \<le> n \<and> n \<le> 512 \<and> f 23 = IP_PROTO_ICMP \<and> f 34 = ICMP_ECHO_REQUEST"

lemma ping_handled:
  assumes "ping_frame f len n" and "\<not> log_rx s"
  shows "eth_rx nic f len s = ip4_send nic (get_addr f 26) IP_PROTO_ICMP (echo_reply (\<lambda>i. f (34 + i)) n) s"
proof -
  let ?tot = "ntohs (get16 f 16)"
  have f: "34 \<le> len" "ntohs (get16 f 12) = ETHERTYPE_IP" "f 14 = 0x45" "unat ?tot = 20 + n" "8 \<le> n" "n \<le> 512"
    "f 23 = IP_PROTO_ICMP" "f 34 = ICMP_ECHO_REQUEST"
    using assms(1) by (auto simp: ping_frame_def)
  have n: "unat (?tot - 20) = n" using f(4) by (subst unat_sub_no_wrap) (simp_all add: word_le_nat_alt)
  have "\<not> len < 14" "\<not> len - 14 < 20"
    using f(1) unat_sub_no_wrap [of 14 len] by (auto simp: word_less_nat_alt word_le_nat_alt)
  moreover have "get16 (\<lambda>i. f (14 + i)) 2 = get16 f 16" "get_addr (\<lambda>i. f (14 + i)) 12 = get_addr f 26"
    by (simp_all add: get16_def get_addr_def)
  moreover have "\<not> ?tot < 20" "\<not> ?tot - 20 < 8" "\<not> 512 < ?tot - 20"
    using f(4-6) n by (simp_all add: word_less_nat_alt)
  moreover have "drop_bit 4 (0x45 :: u8) = 4" "(0x45 AND 0xF :: u8) * 4 = 20" by simp_all
  ultimately show ?thesis using f(2,3,7,8) assms(2)
    by (simp add: eth_rx_def ip4_handle_def icmp_handle_def Let_def echo_reply_def n ETHERTYPE_ARP_def ETHERTYPE_IP_def
        IP_PROTO_ICMP_def ICMP_ECHO_REQUEST_def)
qed

lemma eth_frame_parts:
  assumes "length payload = n"
  shows "take 6 (eth_frame dst src et payload) = mac6 dst" "take 6 (drop 6 (eth_frame dst src et payload)) = mac6 src"
    "ntohs (get16 ((!) (eth_frame dst src et payload)) 12) = et" "drop 14 (eth_frame dst src et payload) = payload"
    "eth_frame dst src et payload ! (14 + i) = payload ! i"
proof -
  have e: "eth_frame dst src et payload = (mac6 dst @ mac6 src) @ le16 (htons et) @ payload" by (simp add: eth_frame_def mac6_def)
  have m: "length (mac6 x) = 6" for x by (simp add: mac6_def)
  show "ntohs (get16 ((!) (eth_frame dst src et payload)) 12) = et" unfolding e by (subst get16_le16) (simp_all add: m)
  show "take 6 (eth_frame dst src et payload) = mac6 dst" "take 6 (drop 6 (eth_frame dst src et payload)) = mac6 src"
    "drop 14 (eth_frame dst src et payload) = payload"
    unfolding e by (simp_all add: m)
  have "length (mac6 dst @ mac6 src @ le16 (htons et)) = 14" by (simp add: m)
  then show "eth_frame dst src et payload ! (14 + i) = payload ! i"
    using nth_append_length_plus [of "mac6 dst @ mac6 src @ le16 (htons et)" payload i] by (simp add: e)
qed

text \<open>
  C13. A ping is answered. For a frame that holds an IPv4 echo request of \<open>n\<close> bytes from a neighbour in
  the ARP cache, when the card hands back the descriptor at the tail, the stack queues exactly one
  frame there, announces it, and changes nothing else: to the neighbour's hardware address, from our
  own, an IPv4 packet whose header checksum verifies, with the ICMP echo reply that has the request's
  code, identifier, sequence number and data, and a checksum that verifies. The addresses in its IP
  header are ours and the neighbour's, but with their four bytes in reversed order on the wire. The
  length \<open>n\<close> is the one the packet claims: the frame may be shorter, and the reply then carries what
  lay behind it in the receive ring.
\<close>

theorem ping_is_answered:
  assumes "ping_frame f len n" and "\<not> log_rx s" and src: "get_addr f 26 = src"
    and "src \<noteq> IP4_BCAST" and "src \<noteq> (net_ip s OR NOT (net_mask s))" and "src AND net_mask s = net_ip s AND net_mask s"
    and "arp_map s src = Some dm" and "e1000_ready s"
    and "poll 100000 (tx_done nic) (s\<lparr>ip_id := ip_id s + 1\<rparr>) = (True, s1)" and "tx_tail s1 = t" and "t < length (tx_ring s1)"
  shows "\<exists>frame. queued frame t s1 (eth_rx nic f len s) \<and> length frame = 34 + n \<and>
    take 6 frame = mac6 dm \<and> take 6 (drop 6 frame) = mac6 (our_mac s) \<and> ntohs (get16 ((!) frame) 12) = ETHERTYPE_IP \<and>
    frame ! 14 = 0x45 \<and> ntohs (get16 ((!) frame) 16) = of_nat (20 + n) \<and> frame ! 23 = IP_PROTO_ICMP \<and>
    net_checksum (take 20 (drop 14 frame)) = 0 \<and>
    get_addr ((!) frame) 26 = htonl (net_ip s) \<and> get_addr ((!) frame) 30 = htonl src \<and>
    frame ! 34 = ICMP_ECHO_REPLY \<and> frame ! 35 = f 35 \<and> (\<forall>i. 4 \<le> i \<and> i < n \<longrightarrow> frame ! (34 + i) = f (34 + i)) \<and>
    net_checksum (drop 34 frame) = 0"
proof -
  define r where "r = echo_reply (\<lambda>i. f (34 + i)) n"
  define pkt where "pkt = ip4_packet (ip_id s) IP_PROTO_ICMP (net_ip s) src r"
  define frame where "frame = eth_frame dm (our_mac s) ETHERTYPE_IP pkt"
  have n: "8 \<le> n" "n \<le> 512" using assms(1) by (simp_all add: ping_frame_def)
  note r = echo_reply_spec [OF n, where p = "\<lambda>i. f (34 + i)", folded r_def]
  have "eth_rx nic f len s = ip4_send nic src IP_PROTO_ICMP r s"
    using ping_handled [OF assms(1,2)] by (simp add: src r_def)
  also have "\<dots> = eth_send_raw nic dm ETHERTYPE_IP pkt (s\<lparr>ip_id := ip_id s + 1\<rparr>)"
    unfolding pkt_def
    by (rule ip4_send_neighbour) (use assms(4-7) r(1) n in \<open>simp_all add: ETH_FRAME_MAX_def arp_map_def\<close>)
  finally have e: "eth_rx nic f len s = \<dots>" .
  have "14 + length pkt \<le> ETH_FRAME_MAX" using r(1) n by (simp add: pkt_def ETH_FRAME_MAX_def)
  from eth_send_raw_queued [OF this _ assms(9-11), of dm ETHERTYPE_IP] assms(8)
  have q: "queued frame t s1 (eth_rx nic f len s)" unfolding e frame_def by simp
  have len: "length pkt = 20 + n" using r(1) by (simp add: pkt_def)
  note F = eth_frame_parts [OF len, of dm "our_mac s" ETHERTYPE_IP, folded frame_def]
  note W = ip4_wire [of "ip_id s" IP_PROTO_ICMP "net_ip s" src r, folded pkt_def]
  have at: "frame ! (34 + i) = r ! i" for i
  proof -
    have "pkt ! (20 + i) = r ! i" using W(9) nth_drop [of 20 pkt i] len by simp
    then show ?thesis using F(5) [of "20 + i"] by (simp add: add.assoc [symmetric])
  qed
  have g: "get16 ((!) frame) 16 = get16 ((!) pkt) 2" "get_addr ((!) frame) 26 = get_addr ((!) pkt) 12" "get_addr ((!) frame) 30 = get_addr ((!) pkt) 16"
    using F(5) [of 2] F(5) [of 3] F(5) [of 12] F(5) [of 13] F(5) [of 14] F(5) [of 15] F(5) [of 16] F(5) [of 17] F(5) [of 18] F(5) [of 19]
    by (simp_all add: get16_def get_addr_def)
  have d: "drop 34 frame = r" using F(4) W(9) drop_drop [of 20 14 frame] by simp
  have "frame ! 14 = 0x45" "frame ! 23 = IP_PROTO_ICMP" using F(5) [of 0] F(5) [of 9] W(1,5) by simp_all
  with q len F(1-4) W(3,6-8) g at [of 0] at [of 1] at r d show ?thesis
    by (intro exI [of _ frame]) (simp add: frame_def [symmetric], simp add: frame_def)
qed

text \<open>
  A request of 8 bytes in a frame of 42, whose header claims 12: the last four of the reply are
  those behind the frame.
\<close>

definition ping_bytes :: "u8 list" where
  "ping_bytes = [0, 0, 0, 0, 0, 0, 0, 0, 0, 0, 0, 0, 8, 0] @ [0x45, 0, 0, 32, 0, 0, 0, 0, 64, 1, 0, 0, 10, 0, 2, 9, 10, 0, 2, 15] @
     [8, 0, 0, 0, 1, 2, 0, 7]"

definition demo_ping :: packet where "demo_ping i = (if i < 42 then ping_bytes ! i else 0xAA)"

definition ping_net :: net where
  "ping_net = demo_net\<lparr>arp_cache := (arp_cache demo_net)[3 := \<lparr>ae_ip = IP4 10 0 2 9, ae_mac = [1, 2, 3, 4, 5, 6], ae_valid = True\<rparr>]\<rparr>"

lemma demo_ping_frame: "ping_frame demo_ping 42 12"
  by (simp add: ping_frame_def demo_ping_def ping_bytes_def get16_def ntohs_def htons_def ETHERTYPE_IP_def IP_PROTO_ICMP_def
      ICMP_ECHO_REQUEST_def)

lemma demo_ping_arp: "arp_map ping_net (IP4 10 0 2 9) = Some [1, 2, 3, 4, 5, 6]"
proof -
  have "\<not> arp_is ping_net (IP4 10 0 2 9) i" if "i < 3" for i
    using that by (auto simp: arp_is_def ping_net_def demo_net_def e1000.extend_def)
  then have "first_from (arp_is ping_net (IP4 10 0 2 9)) 0 ARP_CACHE = Some 3"
    by (simp add: first_from_Some ARP_CACHE_def arp_is_def ping_net_def demo_net_def e1000.extend_def)
  then show ?thesis by (simp add: arp_map_def arp_lookup_def ping_net_def demo_net_def e1000.extend_def)
qed

lemma ping_is_answered_witness:
  "\<exists>frame. length frame = 46 \<and> take 6 frame = [1, 2, 3, 4, 5, 6] \<and> frame ! 34 = 0 \<and> frame ! 39 = 2 \<and> frame ! 45 = 0xAA \<and>
     net_checksum (drop 34 frame) = 0 \<and> tx_tail (eth_rx id demo_ping 42 ping_net) = 0 \<and>
     tx_buf (eth_rx id demo_ping 42 ping_net) 7 39 = 2"
proof -
  let ?s = "ping_net\<lparr>ip_id := ip_id ping_net + 1\<rparr>"
  note d = ping_net_def demo_net_def e1000.extend_def demo_e1000_def
  have "tx_done id ?s = (True, ?s)" by (simp add: tx_done_def d zero_tx_def TDESC_STA_DD_def)
  then have p: "poll 100000 (tx_done id) ?s = (True, ?s)" by (rule poll_at_once) simp
  have src: "get_addr demo_ping 26 = IP4 10 0 2 9" by (simp add: get_addr_def demo_ping_def ping_bytes_def)
  have sub: "IP4 10 0 2 9 \<noteq> IP4_BCAST" "IP4 10 0 2 9 \<noteq> (net_ip ping_net OR NOT (net_mask ping_net))"
    "IP4 10 0 2 9 AND net_mask ping_net = net_ip ping_net AND net_mask ping_net"
    by (simp_all add: d IP4_def IP4_BCAST_def)
  have st: "\<not> log_rx ping_net" "e1000_ready ping_net" "tx_tail ?s = 7" "7 < length (tx_ring ?s)" by (simp_all add: d)
  from ping_is_answered [OF demo_ping_frame st(1) src sub demo_ping_arp st(2) p st(3,4)]
  obtain frame where fr: "queued frame 7 ?s (eth_rx id demo_ping 42 ping_net)" "length frame = 34 + 12"
    "take 6 frame = mac6 [1, 2, 3, 4, 5, 6]" "frame ! 34 = ICMP_ECHO_REPLY"
    "\<forall>i. 4 \<le> i \<and> i < 12 \<longrightarrow> frame ! (34 + i) = demo_ping (34 + i)" "net_checksum (drop 34 frame) = 0"
    by blast
  have "frame ! 39 = 2" "frame ! 45 = 0xAA"
    using fr(5) [rule_format, of 5] fr(5) [rule_format, of 11] by (simp_all add: demo_ping_def ping_bytes_def)
  moreover have "tx_tail (eth_rx id demo_ping 42 ping_net) = 0" "tx_buf (eth_rx id demo_ping 42 ping_net) 7 39 = frame ! 39"
    using fr(1,2) by (auto simp: queued_def)
  ultimately show ?thesis using fr(2,3,4,6) by (intro exI [of _ frame]) (simp add: ICMP_ECHO_REPLY_def mac6_def upt_rec)
qed

section \<open>The DHCP client\<close>

text \<open>An option is its tag and value; the tag 0 is padding and stands alone.\<close>

definition opt_bytes :: "u8 \<times> u8 list \<Rightarrow> u8 list" where
  "opt_bytes = (\<lambda>(t, v). if t = 0 then [0] else t # of_nat (length v) # v)"

definition opt_ok :: "u8 \<times> u8 list \<Rightarrow> bool" where
  "opt_ok = (\<lambda>(t, v). t \<noteq> 255 \<and> length v < 256 \<and> (t = 53 \<longrightarrow> v \<noteq> []))"

text \<open>What a server means with an option, for the type of the message and the client's state.\<close>

definition addr_of :: "u8 list \<Rightarrow> u32" where "addr_of v = IP4 (v ! 0) (v ! 1) (v ! 2) (v ! 3)"

definition opt_meaning :: "u8 \<times> u8 list \<Rightarrow> u8 \<times> net \<Rightarrow> u8 \<times> net" where
  "opt_meaning = (\<lambda>(t, v) (msg, s).
     if t = 53 then (hd v, serial_write (''[dhcp] opt53 msgtype='' @ sn_hex8 (hd v) @ ''\<newline>'') s)
     else if t = 1 \<and> length v = 4 then (msg, s\<lparr>dhcp_mask := addr_of v\<rparr>)
     else if t = 3 \<and> 4 \<le> length v then (msg, s\<lparr>dhcp_gw := addr_of v\<rparr>)
     else if t = 6 \<and> 4 \<le> length v then (msg, s\<lparr>dhcp_dns := addr_of v\<rparr>)
     else if t = 54 \<and> length v = 4 then (msg, s\<lparr>dhcp_server := addr_of v\<rparr>)
     else (msg, s))"

lemma unat_of_nat8: "n < 256 \<Longrightarrow> unat (of_nat n :: u8) = n"
  by (simp add: unsigned_of_nat take_bit_nat_eq_self)

lemma set_option_meaning:
  assumes ok: "opt_ok (t, v)" and at: "\<And>k. k < length v \<Longrightarrow> opts (i + k) = v ! k"
  shows "(if t = 53 then opts i else msg, set_option opts i t (of_nat (length v)) s) = opt_meaning (t, v) (msg, s)"
proof -
  have l: "unat (of_nat (length v) :: u8) = length v" using ok unat_of_nat8 by (simp add: opt_ok_def)
  then have four: "(of_nat (length v) :: u8) = 4 \<longleftrightarrow> length v = 4" "(4 :: u8) \<le> of_nat (length v) \<longleftrightarrow> 4 \<le> length v"
    by (auto simp: word_le_nat_alt word_unat_eq_iff)
  have a: "4 \<le> length v \<Longrightarrow> get_addr opts i = addr_of v"
    using at [of 0] at [of 1] at [of 2] at [of 3] by (cases "v = []") (simp_all add: get_addr_def addr_of_def)
  show ?thesis
  proof (cases "t = 53")
    case True
    then have "opts i = hd v" using ok at [of 0] by (simp add: opt_ok_def hd_conv_nth)
    with True show ?thesis by (simp add: set_option_def opt_meaning_def)
  next
    case False
    have b: "length v = 4 \<Longrightarrow> get_addr opts i = addr_of v" using a by simp
    consider "t = 1" | "t = 3" | "t = 6" | "t = 54" | "t \<notin> {1, 3, 6, 54}" by blast
    then show ?thesis
    proof cases
      case 1
      show ?thesis unfolding set_option_def opt_meaning_def four 1 using b by simp
    next
      case 2
      show ?thesis unfolding set_option_def opt_meaning_def four 2 using a by simp
    next
      case 3
      show ?thesis unfolding set_option_def opt_meaning_def four 3 using a by simp
    next
      case 4
      show ?thesis unfolding set_option_def opt_meaning_def four 4 using b by simp
    next
      case 5
      with False show ?thesis unfolding set_option_def opt_meaning_def four by simp
    qed
  qed
qed

text \<open>
  The options in the bytes behind the fixed part: the tag 255 ends them, and so does an option that
  is cut off. Of a message type without a value the code takes the byte behind it, \<open>z\<close> at the very end.
\<close>

fun read_opts :: "u8 \<Rightarrow> u8 list \<Rightarrow> (u8 \<times> u8 list) list" where
  "read_opts z [] = []"
| "read_opts z (t # bs) =
     (if t = 255 then []
      else if t = 0 then (0, []) # read_opts z bs
      else case bs of
        [] \<Rightarrow> []
      | l # r \<Rightarrow> if length r < unat l then []
                 else (t, if t = 53 \<and> l = 0 then [hd (r @ [z])] else take (unat l) r) # read_opts z (drop (unat l) r))"

lemma read_opts_written:
  "list_all opt_ok os \<Longrightarrow> read_opts z (concat (map opt_bytes os) @ 255 # r) = map (\<lambda>(t, v). (t, if t = 0 then [] else v)) os"
proof (induction os)
  case (Cons p os)
  obtain t v where p: "p = (t, v)" by (cases p)
  have v: "t \<noteq> 255" "unat (of_nat (length v) :: u8) = length v" "\<not> (t = 53 \<and> (of_nat (length v) :: u8) = 0)"
    using Cons.prems p unat_of_nat8 [of "length v"] by (auto simp: opt_ok_def)
  show ?case using Cons v by (cases "t = 53") (simp_all add: p opt_bytes_def split_beta)
qed simp

lemma parse_reads:
  "i \<le> len \<Longrightarrow> dhcp_parse_opts opts len i msg s = fold opt_meaning (read_opts (opts len) (map opts [i..<len])) (msg, s)"
proof (induction "len - i" arbitrary: i msg s rule: less_induct)
  case less
  show ?case
  proof (cases "i < len")
    case False
    with less.prems show ?thesis by (subst dhcp_parse_opts.simps) simp
  next
    case True
    then have m: "map opts [i..<len] = opts i # map opts [Suc i..<len]" by (simp add: upt_rec)
    consider "opts i = 255" | "opts i = 0" | "opts i \<noteq> 255" "opts i \<noteq> 0" "Suc i = len" | "opts i \<noteq> 255" "opts i \<noteq> 0" "Suc i < len"
      using True by linarith
    then show ?thesis
    proof cases
      case 1
      with True show ?thesis by (subst dhcp_parse_opts.simps) (simp add: m)
    next
      case 2
      have "dhcp_parse_opts opts len (Suc i) msg s = fold opt_meaning (read_opts (opts len) (map opts [Suc i..<len])) (msg, s)"
        using True by (intro less.hyps) simp_all
      with 2 True show ?thesis by (subst dhcp_parse_opts.simps) (simp add: m opt_meaning_def)
    next
      case 3
      with True show ?thesis by (subst dhcp_parse_opts.simps) (simp add: m)
    next
      case 4
      let ?j = "Suc (Suc i)" and ?l = "opts (Suc i)"
      have m2: "map opts [Suc i..<len] = ?l # map opts [?j..<len]" using 4 by (simp add: upt_rec)
      show ?thesis
      proof (cases "len < ?j + unat ?l")
        case c: True
        then have "len - ?j < unat ?l" "?l \<noteq> 0" using 4 by auto
        with 4 c True show ?thesis by (subst dhcp_parse_opts.simps) (simp add: m m2)
      next
        case False
        define v where "v = (if opts i = 53 \<and> ?l = 0 then [hd (map opts [?j..<len] @ [opts len])] else take (unat ?l) (map opts [?j..<len]))"
        have "read_opts (opts len) (map opts [i..<len]) = (opts i, v) # read_opts (opts len) (map opts [?j + unat ?l..<len])"
          using 4 False by (simp add: m m2 v_def drop_map)
        moreover have "dhcp_parse_opts opts len i msg s =
            dhcp_parse_opts opts len (?j + unat ?l) (if opts i = 53 then opts ?j else msg) (set_option opts ?j (opts i) ?l s)"
          using 4 False True by (subst dhcp_parse_opts.simps) (simp add: Let_def cong: if_cong)
        moreover have "\<dots> = fold opt_meaning (read_opts (opts len) (map opts [?j + unat ?l..<len]))
            (if opts i = 53 then opts ?j else msg, set_option opts ?j (opts i) ?l s)"
          using False True by (intro less.hyps) simp_all
        moreover have "(if opts i = 53 then opts ?j else msg, set_option opts ?j (opts i) ?l s) = opt_meaning (opts i, v) (msg, s)"
        proof (cases "opts i = 53 \<and> ?l = 0")
          case True
          have "hd (map opts [?j..<len] @ [opts len]) = opts ?j"
            using False by (cases "?j < len") (simp_all add: upt_rec, metis Suc_leI 4(3) le_neq_implies_less)
          with True show ?thesis by (simp add: v_def set_option_def opt_meaning_def)
        next
          case o: False
          then have v: "v = take (unat ?l) (map opts [?j..<len])" by (auto simp: v_def)
          then have lv: "length v = unat ?l" using False by simp
          then have l: "of_nat (length v) = ?l" by simp
          have "opt_ok (opts i, v)" using 4 o lv u8_lt [of ?l] by (auto simp: opt_ok_def unat_eq_0)
          moreover have "opts (?j + k) = v ! k" if "k < length v" for k using that lv False by (simp add: v)
          ultimately show ?thesis using set_option_meaning [of "opts i" v opts ?j msg s] unfolding l by blast
        qed
        ultimately show ?thesis by simp
      qed
    qed
  qed
qed

text \<open>A reply of a server as the client checks it, the options behind the fixed part.\<close>

definition dhcp_reply :: "packet \<Rightarrow> u16 \<Rightarrow> u32 \<Rightarrow> u32 \<Rightarrow> (u8 \<times> u8 list) list \<Rightarrow> bool" where
  "dhcp_reply data len xid yiaddr os \<longleftrightarrow>
     552 \<le> unat len \<and> data 0 = DHCP_OP_REPLY \<and> ntohl (get32 data 4) = xid \<and> ntohl (get32 data 16) = yiaddr \<and>
     ntohl (get32 data 236) = DHCP_MAGIC \<and> list_all opt_ok os \<and> 240 + length (concat (map opt_bytes os)) < unat len \<and>
     list_all (\<lambda>k. data (240 + k) = (concat (map opt_bytes os) @ [255]) ! k) [0..<Suc (length (concat (map opt_bytes os)))]"

text \<open>The text \<^verbatim>\<open>dhcp_rx\<close> logs before it looks at the options, and what it does with their outcome.\<close>

definition dhcp_logged :: "packet \<Rightarrow> u16 \<Rightarrow> net \<Rightarrow> net" where
  "dhcp_logged data len s =
     (let s = serial_write (''[dhcp] rx len='' @ sn_dec32 (ucast len) @ ''\<newline>'') s
      in serial_write (''[dhcp] op='' @ sn_hex8 (data 0) @ '' xid='' @ sn_hex32 (ntohl (get32 data 4)) @ '' our='' @
           sn_hex32 (dhcp_xid s) @ '' magic='' @ sn_hex32 (ntohl (get32 data 236)) @ '' yiaddr='' @
           sn_ip (ntohl (get32 data 16)) @ ''\<newline>'') s)"

definition dhcp_step :: "u32 \<Rightarrow> u8 \<times> net \<Rightarrow> net" where
  "dhcp_step yiaddr = (\<lambda>(msg, s).
     if msg = DHCP_OFFER \<and> \<not> dhcp_got_offer s
     then serial_write (''[dhcp] OFFER '' @ arrow_right @ '' '' @ sn_ip yiaddr @ ''\<newline>'')
            (s\<lparr>dhcp_offered := yiaddr, dhcp_got_offer := True\<rparr>)
     else if msg = DHCP_ACK \<and> dhcp_got_offer s
     then serial_write (''[dhcp] ACK '' @ arrow_right @ '' '' @ sn_ip yiaddr @ ''\<newline>'')
            (s\<lparr>dhcp_offered := yiaddr, dhcp_got_ack := True\<rparr>)
     else if msg = DHCP_NAK
     then (serial_write ''[dhcp] NAK\<newline>'' s)\<lparr>dhcp_got_offer := False, dhcp_offered := 0, dhcp_server := 0\<rparr>
     else s)"

lemma dhcp_xid_serial [simp]: "dhcp_xid (serial_write m s) = dhcp_xid s"
  by (simp add: serial_write_def)

definition dhcp_opts :: "packet \<Rightarrow> u16 \<Rightarrow> (u8 \<times> u8 list) list" where
  "dhcp_opts data len = read_opts (data (unat len)) (map data [240..<unat len])"

definition dhcp_accepts :: "packet \<Rightarrow> u16 \<Rightarrow> u32 \<Rightarrow> bool" where
  "dhcp_accepts data len xid \<longleftrightarrow>
     552 \<le> unat len \<and> data 0 = DHCP_OP_REPLY \<and> ntohl (get32 data 4) = xid \<and> ntohl (get32 data 236) = DHCP_MAGIC"

lemma dhcp_rx_accepted:
  assumes "dhcp_accepts data len (dhcp_xid s)"
  shows "dhcp_rx src sport data len s = dhcp_step (ntohl (get32 data 16)) (fold opt_meaning (dhcp_opts data len) (0, dhcp_logged data len s))"
proof -
  have r: "552 \<le> unat len" "data 0 = DHCP_OP_REPLY" "ntohl (get32 data 4) = dhcp_xid s" "ntohl (get32 data 236) = DHCP_MAGIC"
    using assms unfolding dhcp_accepts_def by blast+
  have "map (\<lambda>i. data (240 + i)) [0..<unat len - 240] = map data [240..<unat len]"
    using r(1) by (intro nth_equalityI) simp_all
  then have "dhcp_parse_opts (\<lambda>i. data (240 + i)) (unat len - 240) 0 0 s' = fold opt_meaning (dhcp_opts data len) (0, s')" for s'
    using r(1) parse_reads [of 0 "unat len - 240" "\<lambda>i. data (240 + i)" 0 s'] by (simp add: dhcp_opts_def)
  moreover have "\<not> unat len < dhcp_pkt_size" using r(1) by (simp add: dhcp_pkt_size_def)
  ultimately show ?thesis
    unfolding dhcp_rx_def dhcp_logged_def dhcp_step_def Let_def dhcp_options_at_def
    by (simp only: r(2-4) dhcp_xid_serial if_False if_True simp_thms split_beta)
qed

text \<open>A server's options are read as they were written.\<close>

lemma reply_read:
  assumes "dhcp_reply data len xid yiaddr os"
  shows "dhcp_opts data len = map (\<lambda>(t, v). (t, if t = 0 then [] else v)) os"
proof -
  let ?b = "concat (map opt_bytes os)"
  have r: "240 + length ?b < unat len" "list_all opt_ok os" "list_all (\<lambda>k. data (240 + k) = (?b @ [255]) ! k) [0..<Suc (length ?b)]"
    using assms unfolding dhcp_reply_def by blast+
  have at: "data (240 + k) = (?b @ [255]) ! k" if "k \<le> length ?b" for k using r(3) that by (simp add: list_all_iff less_Suc_eq_le del: upt_Suc)
  have "map data [240..<unat len] = map data [240..<240 + length ?b] @ data (240 + length ?b) # map data [Suc (240 + length ?b)..<unat len]"
    using r(1) using upt_add_eq_append [of 240 "240 + length ?b" "unat len - (240 + length ?b)"] by (simp add: upt_conv_Cons)
  also have "map data [240..<240 + length ?b] = ?b"
  proof (intro nth_equalityI)
    fix k assume "k < length (map data [240..<240 + length ?b])"
    then show "map data [240..<240 + length ?b] ! k = ?b ! k" using at [of k] by (simp add: nth_append)
  qed simp
  also have "data (240 + length ?b) = 255" using at [of "length ?b"] by simp
  finally show ?thesis using read_opts_written [OF r(2)] by (simp add: dhcp_opts_def)
qed

lemma dhcp_rx_reads:
  assumes "dhcp_reply data len (dhcp_xid s) yiaddr os"
  shows "dhcp_rx src sport data len s = dhcp_step yiaddr (fold opt_meaning os (0, dhcp_logged data len s))"
proof -
  have "dhcp_accepts data len (dhcp_xid s)" "ntohl (get32 data 16) = yiaddr"
    using assms unfolding dhcp_reply_def dhcp_accepts_def by blast+
  moreover have "opt_meaning \<circ> (\<lambda>(t, v). (t, if t = 0 then [] else v)) = opt_meaning" by (auto simp: opt_meaning_def fun_eq_iff)
  ultimately show ?thesis using dhcp_rx_accepted by (simp add: reply_read [OF assms] fold_map)
qed

lemma opt_meaning_keeps [simp]:
  "dhcp_got_offer (snd (opt_meaning p ms)) = dhcp_got_offer (snd ms)"
  "dhcp_got_ack (snd (opt_meaning p ms)) = dhcp_got_ack (snd ms)"
  "dhcp_offered (snd (opt_meaning p ms)) = dhcp_offered (snd ms)"
  by (cases p, cases ms, simp add: opt_meaning_def serial_write_def)+

text \<open>Every other message is only logged.\<close>

lemma dhcp_rx_ignores:
  assumes "\<not> dhcp_accepts data len (dhcp_xid s)"
  shows "\<exists>t. dhcp_rx src sport data len s = s\<lparr>slog := t\<rparr>"
proof (cases "unat len < 552")
  case True
  then show ?thesis by (auto simp: dhcp_rx_def dhcp_pkt_size_def serial_write_def Let_def)
next
  case False
  have w: "\<exists>t. serial_write m (s'\<lparr>slog := u\<rparr>) = s'\<lparr>slog := t\<rparr>" for m u and s' :: net by (auto simp: serial_write_def)
  have "\<exists>t. dhcp_logged data len s = s\<lparr>slog := t\<rparr>" by (auto simp: dhcp_logged_def serial_write_def Let_def)
  then obtain t where t: "dhcp_logged data len s = s\<lparr>slog := t\<rparr>" ..
  have "dhcp_rx src sport data len s =
    (if data 0 \<noteq> DHCP_OP_REPLY then serial_write ''[dhcp] not a reply\<newline>'' (dhcp_logged data len s)
     else if ntohl (get32 data 4) \<noteq> dhcp_xid s then serial_write ''[dhcp] xid mismatch\<newline>'' (dhcp_logged data len s)
     else serial_write ''[dhcp] bad magic\<newline>'' (dhcp_logged data len s))"
    using False assms
    unfolding dhcp_accepts_def dhcp_rx_def dhcp_logged_def Let_def dhcp_pkt_size_def
    by (simp only: dhcp_xid_serial if_False if_True simp_thms split: if_split) auto
  then show ?thesis unfolding t using w by (auto split: if_splits)
qed

text \<open>
  C29. What the DHCP client makes of any message, byte for byte. A message of at least 552 bytes that
  is a reply, for the client's transaction and with the magic number, acts on the client as the
  meaning of the options in its bytes, in their order, followed by one step of the protocol: an
  offer is taken when there is none yet, an acknowledgement only after an offer, a refusal withdraws
  the offer. The options are read from all bytes behind the fixed part, padding skipped, up to the
  end mark, to an option that is cut off, or to the end of the message, and the values a server
  wrote are read as it wrote them (lemma \<open>reply_read\<close>). Every other message, too short, not a
  reply, for another transaction or without the magic number, leaves all of the state as it was,
  its text on the serial line aside.
\<close>

theorem dhcp_message_meaning:
  "if dhcp_accepts data len (dhcp_xid s)
   then dhcp_rx src sport data len s =
     dhcp_step (ntohl (get32 data 16)) (fold opt_meaning (dhcp_opts data len) (0, dhcp_logged data len s))
   else \<exists>t. dhcp_rx src sport data len s = s\<lparr>slog := t\<rparr>"
  using dhcp_rx_accepted dhcp_rx_ignores by simp

text \<open>An acknowledgement with a lease, after the offer: the client takes over all of it.\<close>

definition lease_opts :: "(u8 \<times> u8 list) list" where
  "lease_opts = [(53, [5]), (0, []), (54, [10, 0, 2, 2]), (1, [255, 255, 255, 0]), (51, [0, 1, 81, 128]), (3, [10, 0, 2, 2]), (6, [10, 0, 2, 3])]"

definition lease_bytes :: "u8 list" where
  "lease_bytes = [53, 1, 5, 0, 54, 4, 10, 0, 2, 2, 1, 4, 255, 255, 255, 0, 51, 4, 0, 1, 81, 128, 3, 4, 10, 0, 2, 2, 6, 4, 10, 0, 2, 3, 255]"

definition lease_packet :: packet where
  "lease_packet i = (if i = 0 then 2 else if i < 4 then 0 else if i < 8 then [0x12, 0x34, 0x56, 0x78] ! (i - 4) else if i < 16 then 0
     else if i < 20 then [10, 0, 2, 15] ! (i - 16) else if i < 236 then 0 else if i < 240 then [0x63, 0x82, 0x53, 0x63] ! (i - 236)
     else if i < 275 then lease_bytes ! (i - 240) else 0)"

lemma lease_opts_bytes: "concat (map opt_bytes lease_opts) = butlast lease_bytes"
  by (simp add: lease_opts_def lease_bytes_def opt_bytes_def)

lemma lease_reply: "dhcp_reply lease_packet 552 0x12345678 (IP4 10 0 2 15) lease_opts"
proof -
  have "list_all opt_ok lease_opts" by (simp add: lease_opts_def opt_ok_def)
  moreover have "ntohl (get32 lease_packet 4) = 0x12345678" "ntohl (get32 lease_packet 16) = IP4 10 0 2 15"
    "ntohl (get32 lease_packet 236) = DHCP_MAGIC"
    by (simp_all add: ntohl_def htonl_def get32_def lease_packet_def IP4_def DHCP_MAGIC_def)
  moreover have "length (butlast lease_bytes) = 34" by (simp add: lease_bytes_def)
  moreover have "lease_packet (240 + k) = (butlast lease_bytes @ [255]) ! k" if "k < Suc 34" for k
  proof -
    have "butlast lease_bytes @ [255] = lease_bytes" by (simp add: lease_bytes_def)
    then show ?thesis using that by (simp add: lease_packet_def)
  qed
  ultimately show ?thesis
    by (simp add: dhcp_reply_def lease_opts_bytes list_all_iff lease_packet_def DHCP_OP_REPLY_def del: upt_Suc)
qed

lemma dhcp_message_meaning_witness:
  "\<exists>s' :: net. dhcp_rx 0 67 lease_packet 552 (demo_net\<lparr>dhcp_got_offer := True\<rparr>) = s' \<and> dhcp_got_ack s' \<and>
     net_ip (dhcp_configure s') = IP4 10 0 2 15 \<and> net_mask (dhcp_configure s') = IP4 255 255 255 0 \<and>
     net_gw (dhcp_configure s') = IP4 10 0 2 2 \<and> net_dns (dhcp_configure s') = IP4 10 0 2 3"
proof -
  let ?s = "demo_net\<lparr>dhcp_got_offer := True\<rparr>"
  have "dhcp_xid ?s = 0x12345678" by (simp add: demo_net_def e1000.extend_def)
  then have acc: "dhcp_accepts lease_packet 552 (dhcp_xid ?s)" and y: "ntohl (get32 lease_packet 16) = IP4 10 0 2 15"
    using lease_reply unfolding dhcp_reply_def dhcp_accepts_def by simp_all
  have "dhcp_opts lease_packet 552 = lease_opts" unfolding reply_read [OF lease_reply] by (simp add: lease_opts_def)
  with dhcp_message_meaning [of lease_packet 552 ?s 0 67] acc y
  have "dhcp_rx 0 67 lease_packet 552 ?s = dhcp_step (IP4 10 0 2 15) (fold opt_meaning lease_opts (0, dhcp_logged lease_packet 552 ?s))"
    by simp
  moreover have "IP4 10 0 2 2 \<noteq> 0" "IP4 10 0 2 3 \<noteq> 0" "IP4 255 255 255 0 \<noteq> 0" by (simp_all add: IP4_def)
  moreover have "dhcp_got_offer (dhcp_logged lease_packet 552 ?s)" by (simp add: dhcp_logged_def serial_write_def Let_def)
  ultimately show ?thesis
    by (simp add: lease_opts_def opt_meaning_def dhcp_step_def serial_write_def dhcp_configure_def addr_of_def DHCP_ACK_def
        DHCP_OFFER_def Let_def)
qed

text \<open>
  An acknowledgement and a refusal read in the same look at the card: the client has its
  acknowledgement, and the address 0.
\<close>

lemma ack_then_nak:
  assumes ack: "dhcp_reply d1 l1 (dhcp_xid s) y1 [(53, [5])]" and nak: "dhcp_reply d2 l2 (dhcp_xid s) y2 [(53, [6])]"
    and "dhcp_got_offer s" and s': "s' = dhcp_rx r2 p2 d2 l2 (dhcp_rx r1 p1 d1 l1 s)"
  shows "dhcp_got_ack s' \<and> net_ip (dhcp_configure s') = 0"
proof -
  have x: "dhcp_xid (dhcp_rx r1 p1 d1 l1 s) = dhcp_xid s" "dhcp_got_ack (dhcp_rx r1 p1 d1 l1 s)"
    using assms(3) by (simp_all add: dhcp_rx_reads [OF ack] opt_meaning_def dhcp_step_def serial_write_def dhcp_logged_def
        DHCP_ACK_def DHCP_OFFER_def Let_def)
  have "dhcp_got_ack s'" "dhcp_offered s' = 0"
    using x(2) unfolding s' dhcp_rx_reads [OF nak [folded x(1)]]
    by (simp_all add: opt_meaning_def dhcp_step_def serial_write_def dhcp_logged_def DHCP_ACK_def DHCP_OFFER_def DHCP_NAK_def Let_def)
  then show ?thesis by (simp add: dhcp_configure_def Let_def)
qed

end
