(* ===== verification/Drv_Ata.thy ===== *)
theory Drv_Ata
  imports Hw_Io Le_Bytes
begin

text \<open>
  The ATA driver, \<^verbatim>\<open>kernel/drivers/disk/ata.c\<close>: probing the four positions, and reading and writing
  sectors by programmed I/O. Every access to a port is an event and the drive behind the ports is
  the parameter \<open>dev\<close>. Buffers are lists of 16-bit words; a transfer that breaks off has filled the
  words it got to. The interrupt flag is part of the state.
\<close>

definition ATA_PRIMARY_BASE :: u16 where "ATA_PRIMARY_BASE = 0x1F0"
definition ATA_PRIMARY_CTRL :: u16 where "ATA_PRIMARY_CTRL = 0x3F6"
definition ATA_SECONDARY_BASE :: u16 where "ATA_SECONDARY_BASE = 0x170"
definition ATA_SECONDARY_CTRL :: u16 where "ATA_SECONDARY_CTRL = 0x376"
definition ATA_REG_DATA :: u8 where "ATA_REG_DATA = 0x00"
definition ATA_REG_SECCOUNT :: u8 where "ATA_REG_SECCOUNT = 0x02"
definition ATA_REG_LBA_LO :: u8 where "ATA_REG_LBA_LO = 0x03"
definition ATA_REG_LBA_MID :: u8 where "ATA_REG_LBA_MID = 0x04"
definition ATA_REG_LBA_HI :: u8 where "ATA_REG_LBA_HI = 0x05"
definition ATA_REG_DRIVE :: u8 where "ATA_REG_DRIVE = 0x06"
definition ATA_REG_STATUS :: u8 where "ATA_REG_STATUS = 0x07"
definition ATA_REG_CMD :: u8 where "ATA_REG_CMD = 0x07"
definition ATA_SR_BSY :: u8 where "ATA_SR_BSY = 0x80"
definition ATA_SR_DRQ :: u8 where "ATA_SR_DRQ = 0x08"
definition ATA_SR_ERR :: u8 where "ATA_SR_ERR = 0x01"
definition ATA_CMD_READ_PIO :: u8 where "ATA_CMD_READ_PIO = 0x20"
definition ATA_CMD_WRITE_PIO :: u8 where "ATA_CMD_WRITE_PIO = 0x30"
definition ATA_CMD_IDENTIFY :: u8 where "ATA_CMD_IDENTIFY = 0xEC"
definition ATA_CMD_FLUSH :: u8 where "ATA_CMD_FLUSH = 0xE7"
definition ATA_DRIVE_MASTER_CHS :: u8 where "ATA_DRIVE_MASTER_CHS = 0xA0"
definition ATA_DRIVE_SLAVE_CHS :: u8 where "ATA_DRIVE_SLAVE_CHS = 0xB0"
definition ATA_DRIVE_MASTER_LBA :: u8 where "ATA_DRIVE_MASTER_LBA = 0xE0"
definition ATA_DRIVE_SLAVE_LBA :: u8 where "ATA_DRIVE_SLAVE_LBA = 0xF0"
definition ATAPI_SIG_MID :: u8 where "ATAPI_SIG_MID = 0x14"
definition ATAPI_SIG_HI :: u8 where "ATAPI_SIG_HI = 0xEB"

lemmas ata_regs = ATA_REG_DATA_def ATA_REG_SECCOUNT_def ATA_REG_LBA_LO_def ATA_REG_LBA_MID_def ATA_REG_LBA_HI_def
  ATA_REG_DRIVE_def ATA_REG_STATUS_def ATA_REG_CMD_def

record ata = io +
  ata_present :: bool
  ata_base :: u16
  ata_ctrl :: u16
  drive_chs :: u8
  drive_lba :: u8
  ata_sectors :: u32
  ata_model :: string
  ata_position :: string
  int_flag :: bool

section \<open>Bus helpers\<close>

definition b_outb :: "u16 \<Rightarrow> u8 \<Rightarrow> u8 \<Rightarrow> 'a ata_scheme \<Rightarrow> 'a ata_scheme" where
  "b_outb base reg v s = outb (base + ucast reg) v s"

definition b_inb :: "device \<Rightarrow> u16 \<Rightarrow> u8 \<Rightarrow> 'a ata_scheme \<Rightarrow> u8 \<times> 'a ata_scheme" where
  "b_inb dev base reg s = inb dev (base + ucast reg) s"

definition b_inw :: "device \<Rightarrow> u16 \<Rightarrow> u8 \<Rightarrow> 'a ata_scheme \<Rightarrow> u16 \<times> 'a ata_scheme" where
  "b_inw dev base reg s = inw dev (base + ucast reg) s"

definition b_outw :: "u16 \<Rightarrow> u8 \<Rightarrow> u16 \<Rightarrow> 'a ata_scheme \<Rightarrow> 'a ata_scheme" where
  "b_outw base reg v s = outw (base + ucast reg) v s"

definition b_delay :: "device \<Rightarrow> u16 \<Rightarrow> 'a ata_scheme \<Rightarrow> 'a ata_scheme" where
  "b_delay dev ctrl s = for_loop 0 4 (\<lambda>_ s. snd (inb dev ctrl s)) s"

definition cli :: "'a ata_scheme \<Rightarrow> 'a ata_scheme" where "cli s = s\<lparr>int_flag := False\<rparr>"
definition sti :: "'a ata_scheme \<Rightarrow> 'a ata_scheme" where "sti s = s\<lparr>int_flag := True\<rparr>"

text \<open>One look at the status, for the loops that wait for the drive: is it no longer busy?\<close>

definition not_busy :: "device \<Rightarrow> u16 \<Rightarrow> 'a ata_scheme \<Rightarrow> bool \<times> 'a ata_scheme" where
  "not_busy dev base s = (let (st, s) = b_inb dev base ATA_REG_STATUS s in (st AND ATA_SR_BSY = 0, s))"

definition wait_bsy :: "device \<Rightarrow> u16 \<Rightarrow> 'a ata_scheme \<Rightarrow> bool \<times> 'a ata_scheme" where
  "wait_bsy dev base s = poll 100000 (not_busy dev base) s"

text \<open>Reading words into a buffer, and writing them from one.\<close>

fun read_words :: "device \<Rightarrow> u16 \<Rightarrow> nat \<Rightarrow> 'a ata_scheme \<Rightarrow> u16 list \<times> 'a ata_scheme" where
  "read_words dev base 0 s = ([], s)"
| "read_words dev base (Suc n) s =
     (let (w, s) = b_inw dev base ATA_REG_DATA s; (ws, s) = read_words dev base n s in (w # ws, s))"

fun write_words :: "u16 \<Rightarrow> u16 list \<Rightarrow> 'a ata_scheme \<Rightarrow> 'a ata_scheme" where
  "write_words base [] s = s"
| "write_words base (w # ws) s = write_words base ws (b_outw base ATA_REG_DATA w s)"

section \<open>Probing\<close>

text \<open>Waiting for data or an error: whether data came.\<close>

fun wait_data :: "device \<Rightarrow> u16 \<Rightarrow> nat \<Rightarrow> 'a ata_scheme \<Rightarrow> bool \<times> 'a ata_scheme" where
  "wait_data dev base 0 s = (False, s)"
| "wait_data dev base (Suc t) s =
     (let (st, s) = b_inb dev base ATA_REG_STATUS s
      in if st AND ATA_SR_ERR \<noteq> 0 then (False, s)
         else if st AND ATA_SR_DRQ \<noteq> 0 then (True, s)
         else wait_data dev base t s)"

text \<open>The model name: the bytes of words 27 to 46, high byte first, with trailing blanks cleared.\<close>

definition model_chars :: "u16 list \<Rightarrow> string" where
  "model_chars ident = concat (map (\<lambda>w. [char_of (unat (drop_bit 8 (ident ! w))), char_of (unat (ident ! w AND 0xFF))]) [27..<47])"

fun trim_blanks :: "nat \<Rightarrow> string \<Rightarrow> string" where
  "trim_blanks 0 m = m"
| "trim_blanks (Suc i) m = (if m ! i = CHR '' '' then trim_blanks i (m[i := CHR 0x00]) else m)"

definition no_drive :: "u8 \<Rightarrow> bool" where "no_drive st \<longleftrightarrow> st = 0x00 \<or> st = 0xFF"

text \<open>The answer to \<^verbatim>\<open>IDENTIFY\<close>, once the drive has it.\<close>

definition probe_identify :: "device \<Rightarrow> u16 \<Rightarrow> u16 \<Rightarrow> u8 \<Rightarrow> u8 \<Rightarrow> string \<Rightarrow> 'a ata_scheme \<Rightarrow> bool \<times> 'a ata_scheme" where
  "probe_identify dev base ctrl chs lba label s =
     (let (ident, s) = read_words dev base 256 s
      in if ident ! 0 AND 0x8000 \<noteq> 0 then (False, s)
         else (let sectors = push_bit 16 (ucast (ident ! 61)) OR ucast (ident ! 60)
               in if sectors = (0 :: u32) then (False, s)
                  else (True, s\<lparr>ata_present := True, ata_base := base, ata_ctrl := ctrl, drive_chs := chs, drive_lba := lba,
                           ata_sectors := sectors, ata_model := trim_blanks 40 (model_chars ident) @ [CHR 0x00],
                           ata_position := take 31 label\<rparr>)))"

definition probe :: "device \<Rightarrow> u16 \<Rightarrow> u16 \<Rightarrow> u8 \<Rightarrow> u8 \<Rightarrow> string \<Rightarrow> 'a ata_scheme \<Rightarrow> bool \<times> 'a ata_scheme" where
  "probe dev base ctrl chs lba label s =
     (let s = b_outb base ATA_REG_DRIVE chs s; s = b_delay dev ctrl s; (st, s) = b_inb dev base ATA_REG_STATUS s
      in if no_drive st then (False, s)
         else
           (let s = b_outb base ATA_REG_SECCOUNT 0 s; s = b_outb base ATA_REG_LBA_LO 0 s; s = b_outb base ATA_REG_LBA_MID 0 s;
                s = b_outb base ATA_REG_LBA_HI 0 s; s = b_outb base ATA_REG_CMD ATA_CMD_IDENTIFY s; s = b_delay dev ctrl s;
                (st, s) = b_inb dev base ATA_REG_STATUS s
            in if no_drive st then (False, s)
               else case wait_bsy dev base s of
                 (False, s) \<Rightarrow> (False, s)
               | (True, s) \<Rightarrow>
                   (let (mid, s) = b_inb dev base ATA_REG_LBA_MID s; (hi, s) = b_inb dev base ATA_REG_LBA_HI s
                    in if mid = ATAPI_SIG_MID \<and> hi = ATAPI_SIG_HI
                       then (False, serial_write (''[ata] '' @ label @ '': ATAPI skipped\<newline>'') s)
                       else if mid \<noteq> 0 \<or> hi \<noteq> 0 then (False, serial_write (''[ata] '' @ label @ '': non-ATA skipped\<newline>'') s)
                       else case wait_data dev base 100000 s of
                         (False, s) \<Rightarrow> (False, s)
                       | (True, s) \<Rightarrow> probe_identify dev base ctrl chs lba label s)))"

text \<open>The positions in the order they are tried: base, control port, the two drive bytes, label.\<close>

definition ata_positions :: "(u16 \<times> u16 \<times> u8 \<times> u8 \<times> string) list" where
  "ata_positions =
     [(ATA_PRIMARY_BASE, ATA_PRIMARY_CTRL, ATA_DRIVE_SLAVE_CHS, ATA_DRIVE_SLAVE_LBA, ''primary slave''),
      (ATA_PRIMARY_BASE, ATA_PRIMARY_CTRL, ATA_DRIVE_MASTER_CHS, ATA_DRIVE_MASTER_LBA, ''primary master''),
      (ATA_SECONDARY_BASE, ATA_SECONDARY_CTRL, ATA_DRIVE_MASTER_CHS, ATA_DRIVE_MASTER_LBA, ''secondary master''),
      (ATA_SECONDARY_BASE, ATA_SECONDARY_CTRL, ATA_DRIVE_SLAVE_CHS, ATA_DRIVE_SLAVE_LBA, ''secondary slave'')]"

fun probe_all :: "device \<Rightarrow> (u16 \<times> u16 \<times> u8 \<times> u8 \<times> string) list \<Rightarrow> 'a ata_scheme \<Rightarrow> bool \<times> 'a ata_scheme" where
  "probe_all dev [] s = (False, s)"
| "probe_all dev ((b, c, h, l, p) # ps) s =
     (case probe dev b c h l p s of (True, s) \<Rightarrow> (True, s) | (False, s) \<Rightarrow> probe_all dev ps s)"

definition ata_init :: "device \<Rightarrow> 'a ata_scheme \<Rightarrow> bool \<times> 'a ata_scheme" where
  "ata_init dev s =
     (let s = s\<lparr>ata_present := False\<rparr>; s = serial_write ''[ata] probing...\<newline>'' s
      in case probe_all dev ata_positions s of
        (False, s) \<Rightarrow> (False, serial_write ''[ata] no disk found\<newline>'' s)
      | (True, s) \<Rightarrow> (True, serial_write (''[ata] disk: '' @ ata_position s @ '' '' @ em_dash @ '' '' @
                       takeWhile (\<lambda>c. c \<noteq> CHR 0x00) (ata_model s) @ ''\<newline>'') s))"

section \<open>Transfers\<close>

definition ata_select :: "device \<Rightarrow> u32 \<Rightarrow> 'a ata_scheme \<Rightarrow> 'a ata_scheme" where
  "ata_select dev lba s =
     b_delay dev (ata_ctrl s) (b_outb (ata_base s) ATA_REG_DRIVE (drive_lba s OR (ucast (drop_bit 24 lba) AND 0x0F)) s)"

text \<open>\<open>False\<close> is the code's -1.\<close>

definition ata_poll :: "device \<Rightarrow> bool \<Rightarrow> 'a ata_scheme \<Rightarrow> bool \<times> 'a ata_scheme" where
  "ata_poll dev check_drq s =
     (case poll 100000 (not_busy dev (ata_base s)) s of
        (False, s) \<Rightarrow> (False, s)
      | (True, s) \<Rightarrow>
          (let (st, s) = b_inb dev (ata_base s) ATA_REG_STATUS s
           in if st AND ATA_SR_ERR \<noteq> 0 then (False, s)
              else if check_drq \<and> st AND ATA_SR_DRQ = 0 then (False, s)
              else (True, s)))"

text \<open>Selecting the drive and giving it a command for a range of sectors.\<close>

definition ata_command :: "device \<Rightarrow> u32 \<Rightarrow> u8 \<Rightarrow> u8 \<Rightarrow> 'a ata_scheme \<Rightarrow> 'a ata_scheme" where
  "ata_command dev lba count cmd s =
     (let s = ata_select dev lba s;
          s = b_outb (ata_base s) ATA_REG_SECCOUNT count s;
          s = b_outb (ata_base s) ATA_REG_LBA_LO (ucast (lba AND 0xFF)) s;
          s = b_outb (ata_base s) ATA_REG_LBA_MID (ucast (drop_bit 8 lba AND 0xFF)) s;
          s = b_outb (ata_base s) ATA_REG_LBA_HI (ucast (drop_bit 16 lba AND 0xFF)) s
      in b_outb (ata_base s) ATA_REG_CMD cmd s)"

fun read_sectors :: "device \<Rightarrow> nat \<Rightarrow> 'a ata_scheme \<Rightarrow> bool \<times> u16 list \<times> 'a ata_scheme" where
  "read_sectors dev 0 s = (True, [], s)"
| "read_sectors dev (Suc n) s =
     (case ata_poll dev True s of
        (False, s) \<Rightarrow> (False, [], s)
      | (True, s) \<Rightarrow>
          (let (ws, s) = read_words dev (ata_base s) 256 s;
               s = b_delay dev (ata_ctrl s) s;
               (r, rest, s) = read_sectors dev n s
           in (r, ws @ rest, s)))"

definition ata_read :: "device \<Rightarrow> u32 \<Rightarrow> u8 \<Rightarrow> 'a ata_scheme \<Rightarrow> bool \<times> u16 list \<times> 'a ata_scheme" where
  "ata_read dev lba count s =
     (if \<not> ata_present s \<or> count = 0 then (False, [], s)
      else (let (r, ws, s) = read_sectors dev (unat count) (ata_command dev lba count ATA_CMD_READ_PIO (cli s))
            in (r, ws, sti s)))"

fun write_sectors :: "device \<Rightarrow> nat \<Rightarrow> u16 list \<Rightarrow> 'a ata_scheme \<Rightarrow> bool \<times> 'a ata_scheme" where
  "write_sectors dev 0 ws s = (True, s)"
| "write_sectors dev (Suc n) ws s =
     (case ata_poll dev True s of
        (False, s) \<Rightarrow> (False, s)
      | (True, s) \<Rightarrow> write_sectors dev n (drop 256 ws) (b_delay dev (ata_ctrl s) (write_words (ata_base s) (take 256 ws) s)))"

definition flush_cache :: "device \<Rightarrow> 'a ata_scheme \<Rightarrow> 'a ata_scheme" where
  "flush_cache dev s =
     snd (ata_poll dev False (b_outb (ata_base s) ATA_REG_CMD ATA_CMD_FLUSH (b_outb (ata_base s) ATA_REG_DRIVE (drive_lba s) s)))"

definition ata_write :: "device \<Rightarrow> u32 \<Rightarrow> u8 \<Rightarrow> u16 list \<Rightarrow> 'a ata_scheme \<Rightarrow> bool \<times> 'a ata_scheme" where
  "ata_write dev lba count ws s =
     (if \<not> ata_present s \<or> count = 0 then (False, s)
      else (let (r, s) = write_sectors dev (unat count) ws (ata_command dev lba count ATA_CMD_WRITE_PIO (cli s));
                s = (if r then flush_cache dev s else s)
            in (r, sti s)))"

definition ata_flush :: "device \<Rightarrow> 'a ata_scheme \<Rightarrow> 'a ata_scheme" where
  "ata_flush dev s = (if \<not> ata_present s then s else sti (flush_cache dev (cli s)))"

end
