(* ===== verification/Ata_Refine.thy ===== *)
theory Ata_Refine
  imports Drv_Ata Fs_Disk
begin

text \<open>
  The ATA driver against the drive it talks to. A drive is described by what the ATA standard
  documents of programmed I/O: the task registers, the commands to read, write and flush, the
  busy, data request and error bits, the transfer of 256 words per sector, sectors it cannot
  transfer. The theorems assume of the device behind the ports that it answers like such a
  drive, however long it is busy after each command and sector, up to the driver's patience. They show that the
  driver then provides the disk of \<open>Fs_Disk\<close>, on which the file system is built.
\<close>

section \<open>A drive\<close>

datatype phase = Ph_idle | Ph_failed | Ph_sending u32 nat nat | Ph_receiving u32 nat "u16 list"

record drive =
  d_media :: "u32 \<Rightarrow> u16 list"
  d_bad :: "u32 \<Rightarrow> bool"
  r_count :: u8
  r_lo :: u8
  r_mid :: u8
  r_hi :: u8
  r_dev :: u8
  d_phase :: phase
  d_busy :: nat

definition d_status :: "drive \<Rightarrow> u8" where
  "d_status d = (if 0 < d_busy d then 0x80
     else case d_phase d of Ph_idle \<Rightarrow> 0x50 | Ph_failed \<Rightarrow> 0x51 | Ph_sending _ _ _ \<Rightarrow> 0x58 | Ph_receiving _ _ _ \<Rightarrow> 0x58)"

definition d_word :: "drive \<Rightarrow> u16" where
  "d_word d = (case d_phase d of Ph_sending l n k \<Rightarrow> d_media d l ! k | _ \<Rightarrow> 0)"

definition d_lba :: "drive \<Rightarrow> u32" where
  "d_lba d = push_bit 24 (ucast (r_dev d AND 0x0F)) OR push_bit 16 (ucast (r_hi d)) OR push_bit 8 (ucast (r_mid d)) OR ucast (r_lo d)"

text \<open>What the drive does next with \<open>n\<close> sectors from \<open>l\<close> on still to read or to write.\<close>

definition read_from :: "drive \<Rightarrow> u32 \<Rightarrow> nat \<Rightarrow> phase" where
  "read_from d l n = (if n = 0 then Ph_idle else if d_bad d l then Ph_failed else Ph_sending l n 0)"

definition write_from :: "u32 \<Rightarrow> nat \<Rightarrow> phase" where
  "write_from l n = (if n = 0 then Ph_idle else Ph_receiving l n [])"

definition d_command :: "u8 \<Rightarrow> nat \<Rightarrow> u8 \<Rightarrow> drive \<Rightarrow> drive" where
  "d_command unit lag c d =
     (if r_dev d AND 0xF0 \<noteq> unit then d
      else if c = 0x20 then d\<lparr>d_phase := read_from d (d_lba d) (unat (r_count d)), d_busy := lag\<rparr>
      else if c = 0x30 then d\<lparr>d_phase := write_from (d_lba d) (unat (r_count d)), d_busy := lag\<rparr>
      else if c = 0xE7 then d\<lparr>d_phase := Ph_idle, d_busy := lag\<rparr>
      else d)"

definition d_take_word :: "nat \<Rightarrow> drive \<Rightarrow> drive" where
  "d_take_word lag d =
     (case d_phase d of
        Ph_sending l n k \<Rightarrow>
          (if k + 1 < 256 then d\<lparr>d_phase := Ph_sending l n (k + 1)\<rparr>
           else d\<lparr>d_phase := read_from d (l + 1) (n - 1), d_busy := lag\<rparr>)
      | _ \<Rightarrow> d)"

definition d_give_word :: "nat \<Rightarrow> u16 \<Rightarrow> drive \<Rightarrow> drive" where
  "d_give_word lag w d =
     (case d_phase d of
        Ph_receiving l n ws \<Rightarrow>
          (if length ws + 1 < 256 then d\<lparr>d_phase := Ph_receiving l n (ws @ [w])\<rparr>
           else if d_bad d l then d\<lparr>d_phase := Ph_failed, d_busy := lag\<rparr>
           else d\<lparr>d_media := (d_media d)(l := ws @ [w]), d_phase := write_from (l + 1) (n - 1), d_busy := lag\<rparr>)
      | _ \<Rightarrow> d)"

text \<open>One access to the ports of a channel; \<open>lag\<close> is how often the status will show busy afterwards.\<close>

fun drive_step :: "u16 \<Rightarrow> u8 \<Rightarrow> nat \<Rightarrow> access \<Rightarrow> drive \<Rightarrow> drive" where
  "drive_step b unit lag (Outb p v) d =
     (if p = b + 2 then d\<lparr>r_count := v\<rparr> else if p = b + 3 then d\<lparr>r_lo := v\<rparr> else if p = b + 4 then d\<lparr>r_mid := v\<rparr>
      else if p = b + 5 then d\<lparr>r_hi := v\<rparr> else if p = b + 6 then d\<lparr>r_dev := v\<rparr>
      else if p = b + 7 then d_command unit lag v d else d)"
| "drive_step b unit lag (Inb p) d = (if p = b + 7 then d\<lparr>d_busy := d_busy d - 1\<rparr> else d)"
| "drive_step b unit lag (Inw p) d = (if p = b then d_take_word lag d else d)"
| "drive_step b unit lag (Outw p w) d = (if p = b then d_give_word lag w d else d)"
| "drive_step b unit lag a d = d"

fun replay :: "u16 \<Rightarrow> u8 \<Rightarrow> (access list \<Rightarrow> nat) \<Rightarrow> drive \<Rightarrow> access list \<Rightarrow> drive" where
  "replay b unit lag d0 [] = d0"
| "replay b unit lag d0 (a # tr) = drive_step b unit (lag tr) a (replay b unit lag d0 tr)"

text \<open>
  The device behaves like the drive \<open>d0\<close> on the channel at \<open>b\<close>, answering to the drive select byte
  \<open>unit\<close>: its status and data registers read as the drive's when it is selected, and it is never
  busy for as long as the driver waits. Nothing is asked of the device at other ports.
\<close>

definition follows_drive :: "device \<Rightarrow> u16 \<Rightarrow> u8 \<Rightarrow> (access list \<Rightarrow> nat) \<Rightarrow> drive \<Rightarrow> bool" where
  "follows_drive dev b unit lag d0 \<longleftrightarrow>
     (\<forall>tr. lag tr < 100000) \<and> d_busy d0 < 100000 \<and>
     (\<forall>tr. r_dev (replay b unit lag d0 tr) AND 0xF0 = unit \<longrightarrow>
        ucast (dev (Inb (b + 7) # tr)) = d_status (replay b unit lag d0 tr) \<and>
        ucast (dev (Inw b # tr)) = d_word (replay b unit lag d0 tr))"

section \<open>One access\<close>

lemma replay_busy:
  assumes "follows_drive dev b unit lag d0"
  shows "d_busy (replay b unit lag d0 tr) < 100000"
proof (induction tr)
  case Nil
  then show ?case using assms by (simp add: follows_drive_def)
next
  case (Cons a tr)
  have l: "lag tr < 100000" using assms by (simp add: follows_drive_def)
  show ?case
    using Cons l by (cases a) (auto simp: d_command_def d_take_word_def d_give_word_def split: phase.splits)
qed

lemma inb_status:
  assumes "follows_drive dev b unit lag d0" and "r_dev (replay b unit lag d0 (trace s)) AND 0xF0 = unit"
  shows "b_inb dev b ATA_REG_STATUS s = (d_status (replay b unit lag d0 (trace s)), s\<lparr>trace := Inb (b + 7) # trace s\<rparr>)"
  using assms by (simp add: b_inb_def inb_def access_def follows_drive_def ATA_REG_STATUS_def Let_def)

lemma inw_data:
  assumes "follows_drive dev b unit lag d0" and "r_dev (replay b unit lag d0 (trace s)) AND 0xF0 = unit"
  shows "b_inw dev b ATA_REG_DATA s = (d_word (replay b unit lag d0 (trace s)), s\<lparr>trace := Inw b # trace s\<rparr>)"
  using assms by (simp add: b_inw_def inw_def access_def follows_drive_def ATA_REG_DATA_def Let_def)

lemma b_delay_drive:
  assumes "c \<noteq> b + 7"
  shows "\<exists>tr. b_delay dev c s = s\<lparr>trace := tr\<rparr> \<and> replay b unit lag d0 tr = replay b unit lag d0 (trace s)"
  using assms by (simp add: b_delay_def for_loop_rec inb_def access_def Let_def)
     (intro exI [of _ "Inb c # Inb c # Inb c # Inb c # trace s"], simp)

definition d_ready :: "phase \<Rightarrow> bool" where
  "d_ready ph = (case ph of Ph_sending _ _ _ \<Rightarrow> True | Ph_receiving _ _ _ \<Rightarrow> True | _ \<Rightarrow> False)"

lemma status_bits:
  "d_status d AND ATA_SR_BSY = 0 \<longleftrightarrow> d_busy d = 0"
  "d_busy d = 0 \<Longrightarrow> d_status d AND ATA_SR_ERR = 0 \<longleftrightarrow> d_phase d \<noteq> Ph_failed"
  "d_busy d = 0 \<Longrightarrow> d_status d AND ATA_SR_DRQ = 0 \<longleftrightarrow> \<not> d_ready (d_phase d)"
  by (simp_all add: d_status_def d_ready_def ATA_SR_BSY_def ATA_SR_ERR_def ATA_SR_DRQ_def split: phase.splits)

section \<open>Waiting\<close>

lemma poll_not_busy:
  assumes F: "follows_drive dev b unit lag d0"
  shows "r_dev (replay b unit lag d0 (trace s)) AND 0xF0 = unit \<Longrightarrow> d_busy (replay b unit lag d0 (trace s)) < n \<Longrightarrow>
    \<exists>tr. poll n (not_busy dev b) s = (True, s\<lparr>trace := tr\<rparr>) \<and>
      replay b unit lag d0 tr = (replay b unit lag d0 (trace s))\<lparr>d_busy := 0\<rparr>"
proof (induction n arbitrary: s)
  case 0
  then show ?case by simp
next
  case (Suc n)
  let ?d = "replay b unit lag d0 (trace s)" and ?s = "s\<lparr>trace := Inb (b + 7) # trace s\<rparr>"
  have look: "not_busy dev b s = (d_busy ?d = 0, ?s)"
    by (simp add: not_busy_def inb_status [OF F Suc.prems(1)] status_bits)
  have step: "replay b unit lag d0 (trace ?s) = ?d\<lparr>d_busy := d_busy ?d - 1\<rparr>" by simp
  show ?case
  proof (cases "d_busy ?d = 0")
    case True
    with step look show ?thesis by (intro exI [of _ "Inb (b + 7) # trace s"]) simp
  next
    case False
    have "r_dev (replay b unit lag d0 (trace ?s)) AND 0xF0 = unit" using Suc.prems(1) by simp
    moreover have "d_busy (replay b unit lag d0 (trace ?s)) < n" using Suc.prems(2) False by simp
    ultimately obtain tr where "poll n (not_busy dev b) ?s = (True, ?s\<lparr>trace := tr\<rparr>)"
      "replay b unit lag d0 tr = (replay b unit lag d0 (trace ?s))\<lparr>d_busy := 0\<rparr>"
      using Suc.IH by blast
    with look False show ?thesis by (intro exI [of _ tr]) simp
  qed
qed

lemma ata_poll_drive:
  assumes F: "follows_drive dev b unit lag d0" and sel: "r_dev (replay b unit lag d0 (trace s)) AND 0xF0 = unit"
    and b: "ata_base s = b"
  shows "\<exists>tr. ata_poll dev drq s =
      (d_phase (replay b unit lag d0 (trace s)) \<noteq> Ph_failed \<and> (drq \<longrightarrow> d_ready (d_phase (replay b unit lag d0 (trace s)))),
       s\<lparr>trace := tr\<rparr>) \<and>
    replay b unit lag d0 tr = (replay b unit lag d0 (trace s))\<lparr>d_busy := 0\<rparr>"
proof -
  let ?d = "replay b unit lag d0 (trace s)"
  obtain tr where tr: "poll 100000 (not_busy dev b) s = (True, s\<lparr>trace := tr\<rparr>)"
    "replay b unit lag d0 tr = ?d\<lparr>d_busy := 0\<rparr>"
    using poll_not_busy [OF F sel replay_busy [OF F]] by blast
  let ?s = "s\<lparr>trace := tr\<rparr>"
  have "r_dev (replay b unit lag d0 (trace ?s)) AND 0xF0 = unit" using sel tr(2) by simp
  from inb_status [OF F this]
  have i: "b_inb dev b ATA_REG_STATUS ?s = (d_status (?d\<lparr>d_busy := 0\<rparr>), s\<lparr>trace := Inb (b + 7) # tr\<rparr>)"
    using tr(2) by simp
  have "d_busy (?d\<lparr>d_busy := 0\<rparr>) = 0" by simp
  note st = status_bits(2,3) [OF this]
  have "ata_poll dev drq s =
      (d_phase ?d \<noteq> Ph_failed \<and> (drq \<longrightarrow> d_ready (d_phase ?d)), s\<lparr>trace := Inb (b + 7) # tr\<rparr>)"
    using b by (simp add: ata_poll_def tr(1) i st)
  moreover have "replay b unit lag d0 (Inb (b + 7) # tr) = ?d\<lparr>d_busy := 0\<rparr>" using tr(2) by simp
  ultimately show ?thesis by blast
qed

section \<open>A command\<close>

lemma u28_zero: "unat (l :: u32) < 2 ^ 28 \<Longrightarrow> 28 \<le> n \<Longrightarrow> \<not> bit l n"
proof -
  assume l: "unat l < 2 ^ 28" and n: "28 \<le> n"
  have "take_bit 28 l = l" using l by (simp add: word_unat_eq_iff unsigned_take_bit_eq take_bit_nat_eq_self)
  then have "bit (take_bit 28 l) n = bit l n" by simp
  then show ?thesis using n by (simp add: bit_take_bit_iff)
qed

lemma d_lba_back:
  fixes unit :: u8
  assumes "unat l < 2 ^ 28" and unit: "unit AND 0x0F = 0"
  shows "push_bit 24 (ucast ((unit OR (ucast (drop_bit 24 l) AND 0x0F)) AND 0x0F :: u8)) OR push_bit 16 (ucast (ucast (drop_bit 16 l AND 0xFF) :: u8))
    OR push_bit 8 (ucast (ucast (drop_bit 8 l AND 0xFF) :: u8)) OR ucast (ucast (l AND 0xFF) :: u8) = (l :: u32)"
proof -
  have m: "(0x0F :: u8) = mask 4" "(0xFF :: u32) = mask 8" by (simp_all add: mask_eq_exp_minus_1)
  have u: "\<not> bit unit n" if "n < 4" for n
  proof -
    have "bit (unit AND 0x0F) n = bit unit n" using that unfolding m by (simp add: bit_simps)
    then show ?thesis using unit by simp
  qed
  have h: "n < 28" if "bit l n" for n using u28_zero [OF assms(1), of n] that by (cases "n < 28") auto
  show ?thesis
    unfolding m
  proof (rule bit_word_eqI)
    fix n
    assume "n < LENGTH(32)"
    then consider "n < 8" | "8 \<le> n" "n < 16" | "16 \<le> n" "n < 24" | "24 \<le> n" "n < 28" | "28 \<le> n" "n < 32" by fastforce
    then show "bit (push_bit 24 (ucast ((unit OR (ucast (drop_bit 24 l) AND mask 4)) AND mask 4)) OR
        push_bit 16 (ucast (ucast (drop_bit 16 l AND mask 8) :: u8)) OR push_bit 8 (ucast (ucast (drop_bit 8 l AND mask 8) :: u8)) OR
        ucast (ucast (l AND mask 8) :: u8) :: u32) n = bit l n"
    proof cases
      case 2
      then have "n - 8 < 8" by simp
      with 2 show ?thesis by (simp add: bit_simps)
    next
      case 3
      then have "n - 16 < 8" "\<not> n - 8 < 8" by simp_all
      with 3 show ?thesis by (simp add: bit_simps)
    next
      case 4
      then have "\<not> bit unit (n - 24)" "n - 24 < 4" "\<not> n - 16 < 8" "\<not> n - 8 < 8" using u by simp_all
      with 4 show ?thesis by (simp add: bit_simps)
    next
      case 5
      then have "\<not> bit l n" "\<not> n - 24 < 4" using h by fastforce+
      with 5 show ?thesis by (simp add: bit_simps)
    qed (simp_all add: bit_simps)
  qed
qed

definition same_disk :: "drive \<Rightarrow> drive \<Rightarrow> bool" where
  "same_disk d d' \<longleftrightarrow> d_media d = d_media d' \<and> d_bad d = d_bad d'"

text \<open>The driver is set up for the drive: its ports, the drive select byte, and the drive in LBA mode.\<close>

definition set_up :: "'a ata_scheme \<Rightarrow> u16 \<Rightarrow> u8 \<Rightarrow> bool" where
  "set_up s b unit \<longleftrightarrow> ata_present s \<and> ata_base s = b \<and> ata_ctrl s \<noteq> b + 7 \<and> drive_lba s = unit \<and> unit AND 0x0F = 0"

lemma unit_select:
  fixes unit v :: u8
  assumes "unit AND 0x0F = 0"
  shows "(unit OR (v AND 0x0F)) AND 0xF0 = unit"
proof -
  have m: "(0x0F :: u8) = mask 4" "(0xF0 :: u8) = NOT (mask 4)" by (simp_all add: mask_eq_exp_minus_1 not_eq_complement)
  have "\<not> bit unit n" if "n < 4" for n
  proof -
    have "bit (unit AND 0x0F) n = bit unit n" using that unfolding m by (simp add: bit_simps)
    then show ?thesis using assms by simp
  qed
  then show ?thesis
    unfolding m by (intro bit_word_eqI) (auto simp: bit_simps dest: bit_imp_le_length)
qed

lemma unit_select0:
  fixes unit :: u8
  shows "unit AND 0x0F = 0 \<Longrightarrow> unit AND 0xF0 = unit"
  using unit_select [of unit 0] by simp

lemma b_outb_eq: "b_outb b r v s = s\<lparr>trace := Outb (b + ucast r) v # trace s\<rparr>"
  by (simp add: b_outb_def outb_def access_def)

lemma ata_command_drive:
  assumes set: "set_up s b unit" and l: "unat l < 2 ^ 28" and c: "c = 0x20 \<or> c = 0x30"
  shows "\<exists>tr d. ata_command dev l count c s = s\<lparr>trace := tr\<rparr> \<and> replay b unit lag d0 tr = d \<and> r_dev d AND 0xF0 = unit \<and>
    same_disk d (replay b unit lag d0 (trace s)) \<and>
    d_phase d = (if c = 0x20 then read_from d l (unat count) else write_from l (unat count))"
proof -
  have u: "unit AND 0x0F = 0" "ata_base s = b" "ata_ctrl s \<noteq> b + 7" "drive_lba s = unit" using set by (simp_all add: set_up_def)
  define hi where "hi = unit OR (ucast (drop_bit 24 l) AND 0x0F)"
  let ?s1 = "s\<lparr>trace := Outb (b + 6) hi # trace s\<rparr>"
  obtain tr1 where tr1: "b_delay dev (ata_ctrl s) ?s1 = ?s1\<lparr>trace := tr1\<rparr>"
    "replay b unit lag d0 tr1 = replay b unit lag d0 (trace ?s1)"
    using b_delay_drive [OF u(3), of dev ?s1 unit lag d0] by blast
  have sel: "ata_select dev l s = s\<lparr>trace := tr1\<rparr>"
    using u tr1(1) by (simp add: ata_select_def b_outb_eq ATA_REG_DRIVE_def hi_def)
  define tr where "tr = Outb (b + 7) c # Outb (b + 5) (ucast (drop_bit 16 l AND 0xFF)) # Outb (b + 4) (ucast (drop_bit 8 l AND 0xFF)) #
    Outb (b + 3) (ucast (l AND 0xFF)) # Outb (b + 2) count # tr1"
  have e: "ata_command dev l count c s = s\<lparr>trace := tr\<rparr>"
    using u by (simp add: ata_command_def sel b_outb_eq ata_regs tr_def Let_def)
  define d1 where "d1 = (replay b unit lag d0 (trace s))\<lparr>r_dev := hi, r_count := count, r_lo := ucast (l AND 0xFF),
    r_mid := ucast (drop_bit 8 l AND 0xFF), r_hi := ucast (drop_bit 16 l AND 0xFF)\<rparr>"
  have d: "replay b unit lag d0 tr = d_command unit (lag (tl tr)) c d1"
    by (simp add: tr_def tr1(2) d1_def)
  have s: "r_dev d1 AND 0xF0 = unit" using unit_select [OF u(1)] by (simp add: d1_def hi_def)
  have lba: "d_lba d1 = l" unfolding d_lba_def d1_def hi_def using d_lba_back [OF l u(1)] by simp
  show ?thesis
  proof (intro exI conjI)
    show "ata_command dev l count c s = s\<lparr>trace := tr\<rparr>" by (rule e)
    show "replay b unit lag d0 tr = d_command unit (lag (tl tr)) c d1" by (rule d)
  qed (use c s lba in \<open>auto simp: d_command_def same_disk_def d1_def read_from_def\<close>)
qed

section \<open>Sectors\<close>

lemma read_words_drive:
  assumes F: "follows_drive dev b unit lag d0"
  shows "r_dev (replay b unit lag d0 (trace s)) AND 0xF0 = unit \<Longrightarrow> d_phase (replay b unit lag d0 (trace s)) = Ph_sending l m k \<Longrightarrow>
    k + n = 256 \<Longrightarrow> 0 < n \<Longrightarrow>
    \<exists>tr d. read_words dev b n s = (map (\<lambda>i. d_media (replay b unit lag d0 (trace s)) l ! i) [k..<256], s\<lparr>trace := tr\<rparr>) \<and>
      replay b unit lag d0 tr = d \<and> r_dev d AND 0xF0 = unit \<and> same_disk d (replay b unit lag d0 (trace s)) \<and>
      d_phase d = read_from d (l + 1) (m - 1)"
proof (induction n arbitrary: s k)
  case 0
  then show ?case by simp
next
  case (Suc n)
  let ?d = "replay b unit lag d0 (trace s)" and ?s = "s\<lparr>trace := Inw b # trace s\<rparr>"
  have w: "b_inw dev b ATA_REG_DATA s = (d_media ?d l ! k, ?s)"
    using inw_data [OF F Suc.prems(1)] Suc.prems(2) by (simp add: d_word_def)
  have k: "[k..<256] = k # [Suc k..<256]" using Suc.prems(3) by (simp add: upt_conv_Cons)
  show ?case
  proof (cases n)
    case 0
    then have "replay b unit lag d0 (trace ?s) = ?d\<lparr>d_phase := read_from ?d (l + 1) (m - 1), d_busy := lag (trace s)\<rparr>"
      using Suc.prems by (simp add: d_take_word_def)
    moreover have "[Suc k..<256] = []" using 0 Suc.prems(3) by simp
    ultimately show ?thesis using 0 Suc.prems(1) w
      by (intro exI [of _ "Inw b # trace s"]) (simp add: k same_disk_def read_from_def)
  next
    case (Suc n')
    then have st: "d_take_word (lag (trace s)) ?d = ?d\<lparr>d_phase := Ph_sending l m (Suc k)\<rparr>"
      using Suc.prems by (simp add: d_take_word_def)
    obtain tr d where "read_words dev b n ?s = (map (\<lambda>i. d_media (replay b unit lag d0 (trace ?s)) l ! i) [Suc k..<256], ?s\<lparr>trace := tr\<rparr>)"
      "replay b unit lag d0 tr = d" "r_dev d AND 0xF0 = unit" "same_disk d (replay b unit lag d0 (trace ?s))"
      "d_phase d = read_from d (l + 1) (m - 1)"
      using Suc.IH [of ?s "Suc k"] Suc.prems st Suc by auto
    then show ?thesis using w by (intro exI [of _ tr] exI [of _ d]) (simp add: k st same_disk_def)
  qed
qed

fun lbas :: "u32 \<Rightarrow> nat \<Rightarrow> u32 list" where
  "lbas l 0 = []"
| "lbas l (Suc n) = l # lbas (l + 1) n"

definition d_wf :: "drive \<Rightarrow> bool" where "d_wf d \<longleftrightarrow> (\<forall>l. length (d_media d l) = 256)"

lemma read_sectors_drive:
  assumes F: "follows_drive dev b unit lag d0"
  shows "set_up s b unit \<Longrightarrow> r_dev (replay b unit lag d0 (trace s)) AND 0xF0 = unit \<Longrightarrow> d_wf (replay b unit lag d0 (trace s)) \<Longrightarrow>
    d_phase (replay b unit lag d0 (trace s)) = read_from (replay b unit lag d0 (trace s)) l n \<Longrightarrow>
    \<exists>tr d. read_sectors dev n s =
        (list_all (\<lambda>x. \<not> d_bad (replay b unit lag d0 (trace s)) x) (lbas l n),
         concat (map (d_media (replay b unit lag d0 (trace s))) (takeWhile (\<lambda>x. \<not> d_bad (replay b unit lag d0 (trace s)) x) (lbas l n))),
         s\<lparr>trace := tr\<rparr>) \<and>
      replay b unit lag d0 tr = d \<and> same_disk d (replay b unit lag d0 (trace s))"
proof (induction n arbitrary: s l)
  case 0
  then show ?case by (intro exI [of _ "trace s"]) (simp add: same_disk_def)
next
  case (Suc n)
  let ?d = "replay b unit lag d0 (trace s)"
  have b: "ata_base s = b" "ata_ctrl s \<noteq> b + 7" using Suc.prems(1) by (simp_all add: set_up_def)
  obtain tr1 where p: "ata_poll dev True s = (d_phase ?d \<noteq> Ph_failed \<and> d_ready (d_phase ?d), s\<lparr>trace := tr1\<rparr>)"
    "replay b unit lag d0 tr1 = ?d\<lparr>d_busy := 0\<rparr>"
    using ata_poll_drive [OF F Suc.prems(2) b(1), of True] by auto
  show ?case
  proof (cases "d_bad ?d l")
    case True
    then have "d_phase ?d = Ph_failed" using Suc.prems(4) by (simp add: read_from_def)
    with p True show ?thesis by (intro exI [of _ tr1]) (simp add: same_disk_def)
  next
    case False
    then have ph: "d_phase ?d = Ph_sending l (Suc n) 0" using Suc.prems(4) by (simp add: read_from_def)
    let ?s1 = "s\<lparr>trace := tr1\<rparr>"
    have m: "map (\<lambda>i. d_media ?d l ! i) [0..<256] = d_media ?d l"
      using Suc.prems(3) map_nth [of "d_media ?d l"] by (simp add: d_wf_def)
    obtain tr2 d2 where w: "read_words dev b 256 ?s1 = (map (\<lambda>i. d_media (replay b unit lag d0 (trace ?s1)) l ! i) [0..<256], ?s1\<lparr>trace := tr2\<rparr>)"
      "replay b unit lag d0 tr2 = d2" "r_dev d2 AND 0xF0 = unit" "same_disk d2 (replay b unit lag d0 (trace ?s1))"
      "d_phase d2 = read_from d2 (l + 1) (Suc n - 1)"
      using read_words_drive [OF F, of ?s1 l "Suc n" 0 256] Suc.prems(2) p(2) ph by auto
    obtain tr3 where t3: "b_delay dev (ata_ctrl s) (s\<lparr>trace := tr2\<rparr>) = s\<lparr>trace := tr3\<rparr>" "replay b unit lag d0 tr3 = d2"
      using b_delay_drive [OF b(2), of dev "s\<lparr>trace := tr2\<rparr>" unit lag d0] w(2) by auto
    let ?s3 = "s\<lparr>trace := tr3\<rparr>"
    have sd: "d_media d2 = d_media ?d" "d_bad d2 = d_bad ?d" using w(4) p(2) by (simp_all add: same_disk_def)
    have pre: "set_up ?s3 b unit" "r_dev (replay b unit lag d0 (trace ?s3)) AND 0xF0 = unit" "d_wf (replay b unit lag d0 (trace ?s3))"
      "d_phase (replay b unit lag d0 (trace ?s3)) = read_from (replay b unit lag d0 (trace ?s3)) (l + 1) n"
      using Suc.prems(1,3) w(3,5) t3(2) sd by (simp_all add: set_up_def d_wf_def)
    obtain tr4 d4 where r: "read_sectors dev n ?s3 =
        (list_all (\<lambda>x. \<not> d_bad d2 x) (lbas (l + 1) n),
         concat (map (d_media d2) (takeWhile (\<lambda>x. \<not> d_bad d2 x) (lbas (l + 1) n))), ?s3\<lparr>trace := tr4\<rparr>)"
      "replay b unit lag d0 tr4 = d4" "same_disk d4 d2"
      using Suc.IH [OF pre] t3(2) by auto
    have "read_sectors dev (Suc n) s =
        (list_all (\<lambda>x. \<not> d_bad ?d x) (lbas l (Suc n)),
         concat (map (d_media ?d) (takeWhile (\<lambda>x. \<not> d_bad ?d x) (lbas l (Suc n)))), s\<lparr>trace := tr4\<rparr>)"
      using p ph w(1) t3(1) r(1) b m False by (simp add: d_ready_def sd)
    then show ?thesis using r(2,3) sd by (intro exI [of _ tr4] exI [of _ d4]) (simp add: same_disk_def)
  qed
qed

lemma b_outw_eq: "b_outw b ATA_REG_DATA v s = s\<lparr>trace := Outw b v # trace s\<rparr>"
  by (simp add: b_outw_def outw_def access_def ATA_REG_DATA_def)

lemma write_words_drive:
  shows "d_phase (replay b unit lag d0 (trace s)) = Ph_receiving l m acc \<Longrightarrow> length acc + length ws = 256 \<Longrightarrow> ws \<noteq> [] \<Longrightarrow>
    \<exists>tr d. write_words b ws s = s\<lparr>trace := tr\<rparr> \<and> replay b unit lag d0 tr = d \<and>
      r_dev d = r_dev (replay b unit lag d0 (trace s)) \<and> d_bad d = d_bad (replay b unit lag d0 (trace s)) \<and>
      (if d_bad d l then d_media d = d_media (replay b unit lag d0 (trace s)) \<and> d_phase d = Ph_failed
       else d_media d = (d_media (replay b unit lag d0 (trace s)))(l := acc @ ws) \<and> d_phase d = write_from (l + 1) (m - 1))"
proof (induction ws arbitrary: s acc)
  case Nil
  then show ?case by simp
next
  case (Cons w ws)
  let ?d = "replay b unit lag d0 (trace s)" and ?s = "s\<lparr>trace := Outw b w # trace s\<rparr>"
  show ?case
  proof (cases "ws = []")
    case True
    then have "\<not> length acc + 1 < 256" using Cons.prems(2) by simp
    then have "replay b unit lag d0 (trace ?s) =
        (if d_bad ?d l then ?d\<lparr>d_phase := Ph_failed, d_busy := lag (trace s)\<rparr>
         else ?d\<lparr>d_media := (d_media ?d)(l := acc @ [w]), d_phase := write_from (l + 1) (m - 1), d_busy := lag (trace s)\<rparr>)"
      using Cons.prems(1) by (simp add: d_give_word_def)
    with True show ?thesis by (intro exI [of _ "Outw b w # trace s"]) (simp add: b_outw_eq)
  next
    case False
    then have "length acc + 1 < 256" using Cons.prems(2) by (cases ws) auto
    then have st: "d_give_word (lag (trace s)) w ?d = ?d\<lparr>d_phase := Ph_receiving l m (acc @ [w])\<rparr>"
      using Cons.prems(1) by (simp add: d_give_word_def)
    have "length (acc @ [w]) + length ws = 256" using Cons.prems(2) by simp
    with Cons.IH [of ?s "acc @ [w]"] st False
    obtain tr d where "write_words b ws ?s = ?s\<lparr>trace := tr\<rparr>" "replay b unit lag d0 tr = d" "r_dev d = r_dev ?d" "d_bad d = d_bad ?d"
      "if d_bad d l then d_media d = d_media ?d \<and> d_phase d = Ph_failed
       else d_media d = (d_media ?d)(l := (acc @ [w]) @ ws) \<and> d_phase d = write_from (l + 1) (m - 1)"
      by auto
    then show ?thesis by (intro exI [of _ tr] exI [of _ d]) (simp add: b_outw_eq)
  qed
qed

text \<open>One sector on its way to the medium, up to the drive's answer.\<close>

lemma write_one_drive:
  assumes F: "follows_drive dev b unit lag d0" and set: "set_up s b unit"
    and sel: "r_dev (replay b unit lag d0 (trace s)) AND 0xF0 = unit"
    and ph: "d_phase (replay b unit lag d0 (trace s)) = write_from l (Suc n)" and ws: "256 \<le> length ws"
  shows "\<exists>tr d. write_sectors dev (Suc n) ws s = write_sectors dev n (drop 256 ws) (s\<lparr>trace := tr\<rparr>) \<and> replay b unit lag d0 tr = d \<and>
    r_dev d AND 0xF0 = unit \<and> d_bad d = d_bad (replay b unit lag d0 (trace s)) \<and>
    (if d_bad d l then d_media d = d_media (replay b unit lag d0 (trace s)) \<and> d_phase d = Ph_failed
     else d_media d = (d_media (replay b unit lag d0 (trace s)))(l := take 256 ws) \<and> d_phase d = write_from (l + 1) n)"
proof -
  let ?d = "replay b unit lag d0 (trace s)"
  have b: "ata_base s = b" "ata_ctrl s \<noteq> b + 7" using set by (simp_all add: set_up_def)
  have r: "d_phase ?d = Ph_receiving l (Suc n) []" using ph by (simp add: write_from_def)
  obtain tr1 where p: "ata_poll dev True s = (True, s\<lparr>trace := tr1\<rparr>)" "replay b unit lag d0 tr1 = ?d\<lparr>d_busy := 0\<rparr>"
    using ata_poll_drive [OF F sel b(1), of True] r by (auto simp: d_ready_def)
  let ?s1 = "s\<lparr>trace := tr1\<rparr>"
  have "d_phase (replay b unit lag d0 (trace ?s1)) = Ph_receiving l (Suc n) []" "length [] + length (take 256 ws) = 256" "take 256 ws \<noteq> []"
    using p(2) r ws by auto
  then obtain tr2 d where w: "write_words b (take 256 ws) ?s1 = ?s1\<lparr>trace := tr2\<rparr>" "replay b unit lag d0 tr2 = d"
    "r_dev d = r_dev (replay b unit lag d0 (trace ?s1))" "d_bad d = d_bad (replay b unit lag d0 (trace ?s1))"
    "if d_bad d l then d_media d = d_media (replay b unit lag d0 (trace ?s1)) \<and> d_phase d = Ph_failed
     else d_media d = (d_media (replay b unit lag d0 (trace ?s1)))(l := [] @ take 256 ws) \<and> d_phase d = write_from (l + 1) (Suc n - 1)"
    using write_words_drive [of b unit lag d0 ?s1 l "Suc n" "[]" "take 256 ws"] by blast
  obtain tr3 where t3: "b_delay dev (ata_ctrl s) (s\<lparr>trace := tr2\<rparr>) = s\<lparr>trace := tr3\<rparr>" "replay b unit lag d0 tr3 = d"
    using b_delay_drive [OF b(2), of dev "s\<lparr>trace := tr2\<rparr>" unit lag d0] w(2) by auto
  have "write_sectors dev (Suc n) ws s = write_sectors dev n (drop 256 ws) (s\<lparr>trace := tr3\<rparr>)"
    using p(1) w(1) t3(1) b by simp
  then show ?thesis using t3(2) w(3-5) p(2) sel by (intro exI [of _ tr3] exI [of _ d]) (simp split: if_splits)
qed

fun put_sectors :: "(u32 \<Rightarrow> u16 list) \<Rightarrow> u32 \<Rightarrow> nat \<Rightarrow> u16 list \<Rightarrow> u32 \<Rightarrow> u16 list" where
  "put_sectors m l 0 ws = m"
| "put_sectors m l (Suc n) ws = put_sectors (m(l := take 256 ws)) (l + 1) n (drop 256 ws)"

lemma write_sectors_drive:
  assumes F: "follows_drive dev b unit lag d0"
  shows "set_up s b unit \<Longrightarrow> r_dev (replay b unit lag d0 (trace s)) AND 0xF0 = unit \<Longrightarrow>
    d_phase (replay b unit lag d0 (trace s)) = write_from l n \<Longrightarrow> 256 * n \<le> length ws \<Longrightarrow>
    list_all (\<lambda>x. \<not> d_bad (replay b unit lag d0 (trace s)) x) (lbas l n) \<Longrightarrow>
    \<exists>tr d. write_sectors dev n ws s = (True, s\<lparr>trace := tr\<rparr>) \<and> replay b unit lag d0 tr = d \<and>
      d_bad d = d_bad (replay b unit lag d0 (trace s)) \<and> d_media d = put_sectors (d_media (replay b unit lag d0 (trace s))) l n ws"
proof (induction n arbitrary: s l ws)
  case 0
  then show ?case by (intro exI [of _ "trace s"]) simp
next
  case (Suc n)
  let ?d = "replay b unit lag d0 (trace s)"
  obtain tr d where o: "write_sectors dev (Suc n) ws s = write_sectors dev n (drop 256 ws) (s\<lparr>trace := tr\<rparr>)" "replay b unit lag d0 tr = d"
    "r_dev d AND 0xF0 = unit" "d_bad d = d_bad ?d" "d_media d = (d_media ?d)(l := take 256 ws)" "d_phase d = write_from (l + 1) n"
    using write_one_drive [OF F Suc.prems(1-3), of ws] Suc.prems(4,5) by auto
  let ?s = "s\<lparr>trace := tr\<rparr>"
  have pre: "set_up ?s b unit" "r_dev (replay b unit lag d0 (trace ?s)) AND 0xF0 = unit"
    "d_phase (replay b unit lag d0 (trace ?s)) = write_from (l + 1) n" "256 * n \<le> length (drop 256 ws)"
    "list_all (\<lambda>x. \<not> d_bad (replay b unit lag d0 (trace ?s)) x) (lbas (l + 1) n)"
    using Suc.prems(1,4,5) o by (simp_all add: set_up_def)
  obtain tr' d' where "write_sectors dev n (drop 256 ws) ?s = (True, ?s\<lparr>trace := tr'\<rparr>)" "replay b unit lag d0 tr' = d'"
    "d_bad d' = d_bad d" "d_media d' = put_sectors (d_media d) (l + 1) n (drop 256 ws)"
    using Suc.IH [OF pre] o(2) by auto
  with o show ?case by (intro exI [of _ tr'] exI [of _ d']) simp
qed

lemma flush_cache_drive:
  assumes F: "follows_drive dev b unit lag d0" and set: "set_up s b unit"
  shows "\<exists>tr. flush_cache dev s = s\<lparr>trace := tr\<rparr> \<and> same_disk (replay b unit lag d0 tr) (replay b unit lag d0 (trace s))"
proof -
  let ?d = "replay b unit lag d0 (trace s)"
  have u: "unit AND 0x0F = 0" "ata_base s = b" "drive_lba s = unit" using set by (simp_all add: set_up_def)
  let ?s = "s\<lparr>trace := Outb (b + 7) 0xE7 # Outb (b + 6) unit # trace s\<rparr>"
  have r: "replay b unit lag d0 (trace ?s) = ?d\<lparr>r_dev := unit, d_phase := Ph_idle, d_busy := lag (Outb (b + 6) unit # trace s)\<rparr>"
    using unit_select0 [OF u(1)] by (simp add: d_command_def)
  then have "r_dev (replay b unit lag d0 (trace ?s)) AND 0xF0 = unit" using unit_select0 [OF u(1)] by simp
  then obtain tr where tr: "snd (ata_poll dev False ?s) = ?s\<lparr>trace := tr\<rparr>"
    "replay b unit lag d0 tr = (replay b unit lag d0 (trace ?s))\<lparr>d_busy := 0\<rparr>"
    using ata_poll_drive [OF F, of ?s False] u(2) by auto
  have "flush_cache dev s = s\<lparr>trace := tr\<rparr>"
    using tr(1) u by (simp add: flush_cache_def b_outb_eq ata_regs ATA_CMD_FLUSH_def)
  moreover have "same_disk (replay b unit lag d0 tr) ?d" using tr(2) r by (simp add: same_disk_def)
  ultimately show ?thesis by blast
qed

section \<open>What the driver provides\<close>

lemma set_up_cli [simp]: "set_up (cli s) b unit = set_up s b unit"
  by (simp add: set_up_def cli_def)

lemma set_up_trace [simp]: "set_up (s\<lparr>trace := tr\<rparr>) b unit = set_up s b unit"
  by (simp add: set_up_def)

lemma ata_read_drive:
  assumes F: "follows_drive dev b unit lag d0" and set: "set_up s b unit" and l: "unat l < 2 ^ 28" and c: "0 < count"
    and wf: "d_wf (replay b unit lag d0 (trace s))"
  shows "\<exists>tr d. ata_read dev l count s =
      (list_all (\<lambda>x. \<not> d_bad (replay b unit lag d0 (trace s)) x) (lbas l (unat count)),
       concat (map (d_media (replay b unit lag d0 (trace s)))
         (takeWhile (\<lambda>x. \<not> d_bad (replay b unit lag d0 (trace s)) x) (lbas l (unat count)))),
       s\<lparr>trace := tr, int_flag := True\<rparr>) \<and>
    replay b unit lag d0 tr = d \<and> same_disk d (replay b unit lag d0 (trace s))"
proof -
  let ?d = "replay b unit lag d0 (trace s)"
  have "set_up (cli s) b unit" using set by simp
  from ata_command_drive [OF this l, where c = "0x20" and dev = dev and count = count and lag = lag and ?d0.0 = d0] obtain tr1 d1 where
    q: "ata_command dev l count 0x20 (cli s) = (cli s)\<lparr>trace := tr1\<rparr>" "replay b unit lag d0 tr1 = d1" "r_dev d1 AND 0xF0 = unit"
    "same_disk d1 ?d" "d_phase d1 = read_from d1 l (unat count)"
    by (auto simp: cli_def)
  let ?s1 = "(cli s)\<lparr>trace := tr1\<rparr>"
  have e: "d_media d1 = d_media ?d" "d_bad d1 = d_bad ?d" using q(4) by (simp_all add: same_disk_def)
  have pre: "set_up ?s1 b unit" "r_dev (replay b unit lag d0 (trace ?s1)) AND 0xF0 = unit" "d_wf (replay b unit lag d0 (trace ?s1))"
    "d_phase (replay b unit lag d0 (trace ?s1)) = read_from (replay b unit lag d0 (trace ?s1)) l (unat count)"
    using set q wf e by (simp_all add: d_wf_def)
  obtain tr2 d2 where r: "read_sectors dev (unat count) ?s1 =
      (list_all (\<lambda>x. \<not> d_bad ?d x) (lbas l (unat count)),
       concat (map (d_media ?d) (takeWhile (\<lambda>x. \<not> d_bad ?d x) (lbas l (unat count)))), ?s1\<lparr>trace := tr2\<rparr>)"
    "replay b unit lag d0 tr2 = d2" "same_disk d2 ?d"
    using read_sectors_drive [OF F pre] q(2) e by (auto simp: same_disk_def)
  have "ata_read dev l count s = (list_all (\<lambda>x. \<not> d_bad ?d x) (lbas l (unat count)),
       concat (map (d_media ?d) (takeWhile (\<lambda>x. \<not> d_bad ?d x) (lbas l (unat count)))), s\<lparr>trace := tr2, int_flag := True\<rparr>)"
    using set c q(1) r(1) by (simp add: ata_read_def ATA_CMD_READ_PIO_def sti_def cli_def set_up_def word_neq_0_conv)
  with r show ?thesis by blast
qed

lemma write_started:
  assumes "set_up s b unit" and "unat l < 2 ^ 28"
  shows "\<exists>tr1 d1. ata_command dev l count ATA_CMD_WRITE_PIO (cli s) = (cli s)\<lparr>trace := tr1\<rparr> \<and> replay b unit lag d0 tr1 = d1 \<and>
    r_dev d1 AND 0xF0 = unit \<and> same_disk d1 (replay b unit lag d0 (trace s)) \<and> d_phase d1 = write_from l (unat count)"
proof -
  have "set_up (cli s) b unit" using assms(1) by simp
  from ata_command_drive [OF this assms(2), where c = "0x30" and dev = dev and count = count and lag = lag and ?d0.0 = d0] show ?thesis
    by (auto simp: ATA_CMD_WRITE_PIO_def cli_def)
qed

lemma ata_write_drive:
  assumes F: "follows_drive dev b unit lag d0" and set: "set_up s b unit" and l: "unat l < 2 ^ 28" and c: "0 < count"
    and ws: "256 * unat count \<le> length ws"
    and good: "list_all (\<lambda>x. \<not> d_bad (replay b unit lag d0 (trace s)) x) (lbas l (unat count))"
  shows "\<exists>tr d. ata_write dev l count ws s = (True, s\<lparr>trace := tr, int_flag := True\<rparr>) \<and> replay b unit lag d0 tr = d \<and>
    d_bad d = d_bad (replay b unit lag d0 (trace s)) \<and>
    d_media d = put_sectors (d_media (replay b unit lag d0 (trace s))) l (unat count) ws"
proof -
  let ?d = "replay b unit lag d0 (trace s)"
  obtain tr1 d1 where q: "ata_command dev l count ATA_CMD_WRITE_PIO (cli s) = (cli s)\<lparr>trace := tr1\<rparr>" "replay b unit lag d0 tr1 = d1"
    "r_dev d1 AND 0xF0 = unit" "same_disk d1 ?d" "d_phase d1 = write_from l (unat count)"
    using write_started [OF set l] by blast
  let ?s1 = "(cli s)\<lparr>trace := tr1\<rparr>"
  have e: "d_media d1 = d_media ?d" "d_bad d1 = d_bad ?d" using q(4) by (simp_all add: same_disk_def)
  have pre: "set_up ?s1 b unit" "r_dev (replay b unit lag d0 (trace ?s1)) AND 0xF0 = unit"
    "d_phase (replay b unit lag d0 (trace ?s1)) = write_from l (unat count)"
    "list_all (\<lambda>x. \<not> d_bad (replay b unit lag d0 (trace ?s1)) x) (lbas l (unat count))"
    using set q e good by simp_all
  obtain tr2 d2 where w: "write_sectors dev (unat count) ws ?s1 = (True, ?s1\<lparr>trace := tr2\<rparr>)" "replay b unit lag d0 tr2 = d2"
    "d_bad d2 = d_bad ?d" "d_media d2 = put_sectors (d_media ?d) l (unat count) ws"
    using write_sectors_drive [OF F pre(1-3) ws pre(4)] q(2) e by auto
  have "set_up (?s1\<lparr>trace := tr2\<rparr>) b unit" using set by simp
  then obtain tr3 where f: "flush_cache dev (?s1\<lparr>trace := tr2\<rparr>) = ?s1\<lparr>trace := tr3\<rparr>" "same_disk (replay b unit lag d0 tr3) d2"
    using flush_cache_drive [OF F, of "?s1\<lparr>trace := tr2\<rparr>"] w(2) by auto
  have "ata_write dev l count ws s = (True, s\<lparr>trace := tr3, int_flag := True\<rparr>)"
    using set c q(1) w(1) f(1) by (simp add: ata_write_def sti_def cli_def set_up_def word_neq_0_conv)
  then show ?thesis using f(2) w(3,4) by (intro exI [of _ tr3]) (simp add: same_disk_def)
qed

text \<open>A single sector the drive cannot write.\<close>

lemma ata_write_bad:
  assumes F: "follows_drive dev b unit lag d0" and set: "set_up s b unit" and l: "unat l < 2 ^ 28"
    and ws: "length ws = 256" and bad: "d_bad (replay b unit lag d0 (trace s)) l"
  shows "\<exists>tr d. ata_write dev l 1 ws s = (True, s\<lparr>trace := tr, int_flag := True\<rparr>) \<and> replay b unit lag d0 tr = d \<and>
    same_disk d (replay b unit lag d0 (trace s))"
proof -
  let ?d = "replay b unit lag d0 (trace s)"
  obtain tr1 d1 where q: "ata_command dev l 1 ATA_CMD_WRITE_PIO (cli s) = (cli s)\<lparr>trace := tr1\<rparr>" "replay b unit lag d0 tr1 = d1"
    "r_dev d1 AND 0xF0 = unit" "same_disk d1 ?d" "d_phase d1 = write_from l (Suc 0)"
    using write_started [OF set l, where count = 1 and dev = dev and lag = lag and ?d0.0 = d0] by auto
  let ?s1 = "(cli s)\<lparr>trace := tr1\<rparr>"
  have e: "d_media d1 = d_media ?d" "d_bad d1 = d_bad ?d" using q(4) by (simp_all add: same_disk_def)
  have pre: "set_up ?s1 b unit" "r_dev (replay b unit lag d0 (trace ?s1)) AND 0xF0 = unit"
    "d_phase (replay b unit lag d0 (trace ?s1)) = write_from l (Suc 0)" "256 \<le> length ws"
    using set q ws by simp_all
  obtain tr2 d2 where w: "write_sectors dev (Suc 0) ws ?s1 = (True, ?s1\<lparr>trace := tr2\<rparr>)" "replay b unit lag d0 tr2 = d2" "same_disk d2 ?d"
    using write_one_drive [OF F pre] q(2) e bad by (auto simp: same_disk_def)
  have "set_up (?s1\<lparr>trace := tr2\<rparr>) b unit" using set by simp
  then obtain tr3 where f: "flush_cache dev (?s1\<lparr>trace := tr2\<rparr>) = ?s1\<lparr>trace := tr3\<rparr>" "same_disk (replay b unit lag d0 tr3) d2"
    using flush_cache_drive [OF F, of "?s1\<lparr>trace := tr2\<rparr>"] w(2) by auto
  have "ata_write dev l 1 ws s = (True, s\<lparr>trace := tr3, int_flag := True\<rparr>)"
    using set q(1) w(1) f(1) by (simp add: ata_write_def sti_def cli_def set_up_def)
  then show ?thesis using f(2) w(3) by (intro exI [of _ tr3]) (simp add: same_disk_def)
qed

definition sector_bytes :: "u16 list \<Rightarrow> u8 list" where "sector_bytes ws = concat (map le16 ws)"

text \<open>The disk of the file system that a drive is, with the number of sectors it reported.\<close>

definition drive_disk :: "u32 \<Rightarrow> drive \<Rightarrow> disk" where
  "drive_disk n d = \<lparr>disk_present = True, disk_sectors = n, media = (\<lambda>l. sector_bytes (d_media d l)), bad = d_bad d\<rparr>"

lemma drive_disk_same: "same_disk d d' \<Longrightarrow> drive_disk n d = drive_disk n d'"
  by (simp add: same_disk_def drive_disk_def)

text \<open>
  C7. On a drive that behaves as the standard says, the driver's one-sector transfers are the disk the
  file system is verified over, for every sector a 28-bit address reaches. A read returns that sector's
  bytes, or fails when the drive cannot read it, and changes nothing on the medium; a write reports
  success and puts its bytes there, and only there, or nowhere when the drive cannot write the
  sector. Both end with interrupts on.
\<close>

theorem ata_provides_disk:
  assumes F: "follows_drive dev b unit lag d0" and set: "set_up s b unit" and l: "unat l < 2 ^ 28"
    and wf: "d_wf (replay b unit lag d0 (trace s))" and ws: "length ws = 256"
  shows "(\<exists>r data tr. ata_read dev l 1 s = (r, data, s\<lparr>trace := tr, int_flag := True\<rparr>) \<and>
      (if r then Some (sector_bytes data) else None) = disk_read (drive_disk n (replay b unit lag d0 (trace s))) l \<and>
      drive_disk n (replay b unit lag d0 tr) = drive_disk n (replay b unit lag d0 (trace s))) \<and>
    (\<exists>r tr. ata_write dev l 1 ws s = (r, s\<lparr>trace := tr, int_flag := True\<rparr>) \<and>
      (r, drive_disk n (replay b unit lag d0 tr)) =
        disk_write l (sector_bytes ws) (drive_disk n (replay b unit lag d0 (trace s))))"
proof
  let ?d = "replay b unit lag d0 (trace s)"
  obtain tr where "ata_read dev l 1 s = (\<not> d_bad ?d l, if d_bad ?d l then [] else d_media ?d l, s\<lparr>trace := tr, int_flag := True\<rparr>)"
    "same_disk (replay b unit lag d0 tr) ?d"
    using ata_read_drive [OF F set l _ wf, of 1] by auto
  then show "\<exists>r data tr. ata_read dev l 1 s = (r, data, s\<lparr>trace := tr, int_flag := True\<rparr>) \<and>
      (if r then Some (sector_bytes data) else None) = disk_read (drive_disk n ?d) l \<and>
      drive_disk n (replay b unit lag d0 tr) = drive_disk n ?d"
    by (auto simp: disk_read_def drive_disk_def same_disk_def)
next
  let ?d = "replay b unit lag d0 (trace s)"
  show "\<exists>r tr. ata_write dev l 1 ws s = (r, s\<lparr>trace := tr, int_flag := True\<rparr>) \<and>
      (r, drive_disk n (replay b unit lag d0 tr)) = disk_write l (sector_bytes ws) (drive_disk n ?d)"
  proof (cases "d_bad ?d l")
    case True
    then obtain tr where "ata_write dev l 1 ws s = (True, s\<lparr>trace := tr, int_flag := True\<rparr>)"
      "drive_disk n (replay b unit lag d0 tr) = drive_disk n ?d"
      using ata_write_bad [OF F set l ws True] drive_disk_same by blast
    moreover have "disk_present (drive_disk n ?d)" "bad (drive_disk n ?d) l" using True by (simp_all add: drive_disk_def)
    ultimately show ?thesis by (intro exI [of _ True] exI [of _ tr]) (simp add: disk_write_def)
  next
    case False
    then obtain tr d where "ata_write dev l 1 ws s = (True, s\<lparr>trace := tr, int_flag := True\<rparr>)" "replay b unit lag d0 tr = d"
      "d_bad d = d_bad ?d" "d_media d = (d_media ?d)(l := ws)"
      using ata_write_drive [OF F set l, of 1 ws] ws by auto
    moreover have "drive_disk n d = (drive_disk n ?d)\<lparr>media := (media (drive_disk n ?d))(l := sector_bytes ws)\<rparr>"
      using calculation(3,4) by (auto simp: drive_disk_def)
    moreover have "disk_present (drive_disk n ?d)" "\<not> bad (drive_disk n ?d) l" using False by (simp_all add: drive_disk_def)
    ultimately show ?thesis by (intro exI [of _ True] exI [of _ tr]) (simp add: disk_write_def)
  qed
qed

text \<open>A drive of zero bytes that is busy for three looks after each command and sector, with one bad sector.\<close>

definition demo_drive :: drive where
  "demo_drive = \<lparr>d_media = (\<lambda>l. replicate 256 (ucast l)), d_bad = (\<lambda>l. l = 13), r_count = 0, r_lo = 0, r_mid = 0, r_hi = 0,
     r_dev = 0, d_phase = Ph_idle, d_busy = 0\<rparr>"

fun demo_dev :: device where
  "demo_dev (Inb p # tr) = (if p = 0x1F7 then ucast (d_status (replay 0x1F0 0xE0 (\<lambda>_. 3) demo_drive tr)) else 0)"
| "demo_dev (Inw p # tr) = ucast (d_word (replay 0x1F0 0xE0 (\<lambda>_. 3) demo_drive tr))"
| "demo_dev tr = 0"

definition demo_ata :: ata where
  "demo_ata = \<lparr>trace = [], slog = [], ata_present = True, ata_base = ATA_PRIMARY_BASE, ata_ctrl = ATA_PRIMARY_CTRL,
     drive_chs = ATA_DRIVE_MASTER_CHS, drive_lba = ATA_DRIVE_MASTER_LBA, ata_sectors = 2048, ata_model = [], ata_position = [],
     int_flag = False\<rparr>"

lemma ucast_back8: "ucast (ucast (x :: u8) :: u32) = x" and ucast_back16: "ucast (ucast (y :: u16) :: u32) = y"
  by (rule bit_word_eqI, simp add: bit_simps)+

lemma demo_follows: "follows_drive demo_dev 0x1F0 0xE0 (\<lambda>_. 3) demo_drive"
  by (simp add: follows_drive_def ucast_back8 ucast_back16 demo_drive_def)

lemma demo_set_up: "set_up demo_ata 0x1F0 0xE0"
  by (simp add: set_up_def demo_ata_def ATA_PRIMARY_BASE_def ATA_PRIMARY_CTRL_def ATA_DRIVE_MASTER_LBA_def)

lemma demo_wf: "d_wf demo_drive"
  by (simp add: d_wf_def demo_drive_def)

lemma ata_provides_disk_witness:
  "\<exists>data tr. ata_read demo_dev 7 1 demo_ata = (True, data, demo_ata\<lparr>trace := tr, int_flag := True\<rparr>) \<and>
     sector_bytes data = sector_bytes (replicate 256 7)"
proof -
  have "trace demo_ata = []" "d_wf (replay 0x1F0 0xE0 (\<lambda>_. 3) demo_drive (trace demo_ata))"
    using demo_wf by (simp_all add: demo_ata_def)
  from ata_provides_disk [OF demo_follows demo_set_up _ this(2), of 7 "replicate 256 0" 2048] this(1)
  obtain r data tr where "ata_read demo_dev 7 1 demo_ata = (r, data, demo_ata\<lparr>trace := tr, int_flag := True\<rparr>)"
    "(if r then Some (sector_bytes data) else None) = disk_read (drive_disk 2048 demo_drive) 7"
    by auto
  then show ?thesis by (auto simp: disk_read_def drive_disk_def demo_drive_def split: if_splits)
qed

section \<open>Several sectors\<close>

lemma lbas_set: "set (lbas l n) = (\<lambda>i. l + of_nat i) ` {..<n}"
proof (induction n arbitrary: l)
  case (Suc n)
  have "{..<Suc n} = insert 0 (Suc ` {..<n})" by (rule lessThan_Suc_eq_insert_0)
  then have "(\<lambda>i. l + of_nat i) ` {..<Suc n} = insert l ((\<lambda>i. l + 1 + of_nat i) ` {..<n})"
    by (simp add: image_image add.assoc add.commute [of 1])
  with Suc show ?case by simp
qed simp

lemma lbas_fresh: "n < 2 ^ 32 - 1 \<Longrightarrow> l \<notin> set (lbas (l + 1) n)"
proof
  assume n: "n < 2 ^ 32 - 1" and "l \<in> set (lbas (l + 1) n)"
  then obtain i where "i < n" "l = l + 1 + of_nat i" by (auto simp: lbas_set)
  then have "(of_nat (Suc i) :: u32) = 0" by (simp add: add.assoc add.commute)
  then have "unat (of_nat (Suc i) :: u32) = 0" by simp
  moreover have "unat (of_nat (Suc i) :: u32) = Suc i" using \<open>i < n\<close> n by (simp add: unsigned_of_nat take_bit_nat_eq_self del: of_nat_Suc)
  ultimately show False by simp
qed

lemma put_sectors_other: "x \<notin> set (lbas l n) \<Longrightarrow> put_sectors m l n ws x = m x"
  by (induction n arbitrary: m l ws) auto

lemma put_then_concat:
  "n < 2 ^ 32 - 1 \<Longrightarrow> length ws = 256 * n \<Longrightarrow> concat (map (put_sectors m l n ws) (lbas l n)) = ws"
proof (induction n arbitrary: m l ws)
  case (Suc n)
  have "put_sectors m l (Suc n) ws l = take 256 ws"
    using lbas_fresh [of n l] Suc.prems(1) by (simp add: put_sectors_other)
  moreover have "concat (map (put_sectors (m(l := take 256 ws)) (l + 1) n (drop 256 ws)) (lbas (l + 1) n)) = drop 256 ws"
    using Suc.prems by (intro Suc.IH) simp_all
  ultimately show ?case by simp
qed simp

lemma put_sectors_wf: "(\<forall>l. length (m l) = 256) \<Longrightarrow> 256 * n \<le> length ws \<Longrightarrow> length (put_sectors m l n ws x) = 256"
  by (induction n arbitrary: m l ws) auto

text \<open>
  What \<^verbatim>\<open>ata_write\<close> wrote to a range of up to 255 sectors that the drive can write, \<^verbatim>\<open>ata_read\<close>
  of the same range reads back, and sectors outside the range are as before.
\<close>

theorem ata_write_then_read:
  assumes F: "follows_drive dev b unit lag d0" and set: "set_up s b unit" and l: "unat l < 2 ^ 28" and c: "0 < count"
    and wf: "d_wf (replay b unit lag d0 (trace s))" and ws: "length ws = 256 * unat count"
    and good: "list_all (\<lambda>x. \<not> d_bad (replay b unit lag d0 (trace s)) x) (lbas l (unat count))"
  shows "\<exists>s1 s2. ata_write dev l count ws s = (True, s1) \<and> ata_read dev l count s1 = (True, ws, s2) \<and>
    (\<forall>x. x \<in> set (lbas l (unat count)) \<or>
       d_media (replay b unit lag d0 (trace s1)) x = d_media (replay b unit lag d0 (trace s)) x)"
proof -
  let ?d = "replay b unit lag d0 (trace s)" and ?n = "unat count"
  obtain tr d where w: "ata_write dev l count ws s = (True, s\<lparr>trace := tr, int_flag := True\<rparr>)" "replay b unit lag d0 tr = d"
    "d_bad d = d_bad ?d" "d_media d = put_sectors (d_media ?d) l ?n ws"
    using ata_write_drive [OF F set l c _ good, of ws] ws by auto
  let ?s = "s\<lparr>trace := tr, int_flag := True\<rparr>"
  have "set_up ?s b unit" using set by (simp add: set_up_def)
  moreover have "d_wf (replay b unit lag d0 (trace ?s))"
    using w wf ws by (simp add: d_wf_def put_sectors_wf)
  ultimately obtain tr' where r: "ata_read dev l count ?s =
      (list_all (\<lambda>x. \<not> d_bad d x) (lbas l ?n), concat (map (d_media d) (takeWhile (\<lambda>x. \<not> d_bad d x) (lbas l ?n))),
       ?s\<lparr>trace := tr', int_flag := True\<rparr>)"
    using ata_read_drive [OF F _ l c, of ?s] w(2) by auto
  have "takeWhile (\<lambda>x. \<not> d_bad d x) (lbas l ?n) = lbas l ?n" using good w(3) by (simp add: list_all_iff takeWhile_eq_all_conv)
  note all = this
  have "?n < 2 ^ LENGTH(8)" by (rule unsigned_less)
  then have "?n < 2 ^ 32 - 1" by simp
  then have "concat (map (d_media d) (lbas l ?n)) = ws" unfolding w(4) using ws by (rule put_then_concat)
  then have "ata_read dev l count ?s = (True, ws, ?s\<lparr>trace := tr', int_flag := True\<rparr>)" using r good w(3) unfolding all by simp
  moreover have "x \<in> set (lbas l ?n) \<or> d_media (replay b unit lag d0 (trace ?s)) x = d_media ?d x" for x
    using w(2,4) put_sectors_other [of x l ?n "d_media ?d" ws] by (cases "x \<in> set (lbas l ?n)") simp_all
  ultimately show ?thesis using w(1) by blast
qed

lemma ata_write_then_read_witness:
  "\<exists>s1 s2. ata_write demo_dev 7 2 (replicate 512 0xBEEF) demo_ata = (True, s1) \<and>
     ata_read demo_dev 7 2 s1 = (True, replicate 512 0xBEEF, s2)"
proof -
  have "trace demo_ata = []" "d_wf (replay 0x1F0 0xE0 (\<lambda>_. 3) demo_drive (trace demo_ata))"
    using demo_wf by (simp_all add: demo_ata_def)
  moreover have "lbas 7 2 = [7, 8]" unfolding numeral_2_eq_2 lbas.simps by simp
  then have "list_all (\<lambda>x. \<not> d_bad demo_drive x) (lbas 7 2)" by (simp add: demo_drive_def)
  ultimately show ?thesis
    using ata_write_then_read [OF demo_follows demo_set_up, of 7 2 "replicate 512 0xBEEF"] by auto
qed

text \<open>
  C30. A write error of the only, or last, sector is lost: the driver does not look at the status of the
  drive between the data and the flush command, which clears the error, and ignores the outcome of
  the flush. \<^verbatim>\<open>ata_write\<close> reports success and the medium has not changed.
\<close>

theorem ata_write_error_lost:
  assumes "follows_drive dev b unit lag d0" and "set_up s b unit" and "unat l < 2 ^ 28"
    and "length ws = 256" and "d_bad (replay b unit lag d0 (trace s)) l"
  shows "\<exists>s'. ata_write dev l 1 ws s = (True, s') \<and> same_disk (replay b unit lag d0 (trace s')) (replay b unit lag d0 (trace s))"
  using ata_write_bad [OF assms] by auto

lemma ata_write_error_lost_witness:
  "\<exists>s'. ata_write demo_dev 13 1 (replicate 256 0) demo_ata = (True, s') \<and>
     d_media (replay 0x1F0 0xE0 (\<lambda>_. 3) demo_drive (trace s')) 13 = replicate 256 13"
proof -
  have t: "replay 0x1F0 0xE0 (\<lambda>_. 3) demo_drive (trace demo_ata) = demo_drive" by (simp add: demo_ata_def)
  have "\<exists>s'. ata_write demo_dev 13 1 (replicate 256 0) demo_ata = (True, s') \<and>
      same_disk (replay 0x1F0 0xE0 (\<lambda>_. 3) demo_drive (trace s')) demo_drive"
    using ata_write_error_lost [OF demo_follows demo_set_up, of 13 "replicate 256 0"] unfolding t by (simp add: demo_drive_def)
  then show ?thesis by (auto simp: same_disk_def demo_drive_def)
qed

end
