(* ===== verification/Arch_Gdt.thy ===== *)
theory Arch_Gdt
  imports Prelude
begin

text \<open>
  The segment descriptors, \<^verbatim>\<open>kernel/arch/x86/gdt.c\<close>: packing base, limit and attributes into the
  processor's eight bytes, and the five segments of the kernel. How the processor reads a
  descriptor back is defined next to it, from the architecture's layout.
\<close>

definition GDT_PRESENT :: u8 where "GDT_PRESENT = 0x80"
definition GDT_RING0 :: u8 where "GDT_RING0 = 0x00"
definition GDT_RING3 :: u8 where "GDT_RING3 = 0x60"
definition GDT_DESCRIPTOR :: u8 where "GDT_DESCRIPTOR = 0x10"
definition GDT_EXECUTABLE :: u8 where "GDT_EXECUTABLE = 0x08"
definition GDT_READABLE :: u8 where "GDT_READABLE = 0x02"
definition GDT_GRANULARITY :: u8 where "GDT_GRANULARITY = 0x80"
definition GDT_32BIT :: u8 where "GDT_32BIT = 0x40"
definition GDT_ENTRIES :: nat where "GDT_ENTRIES = 5"

record gdt_entry =
  limit_low :: u16
  base_low :: u16
  base_mid :: u8
  access_byte :: u8
  flags_limit :: u8
  base_high :: u8

text \<open>The table, the value for the table register, and whether \<^verbatim>\<open>gdt_flush\<close> has loaded it.\<close>

record gdt =
  gdt_table :: "gdt_entry list"
  gdtr_limit :: u16
  gdtr_base :: u32
  gdt_loaded :: bool

definition gdt_set_entry :: "nat \<Rightarrow> u32 \<Rightarrow> u32 \<Rightarrow> u8 \<Rightarrow> u8 \<Rightarrow> gdt \<Rightarrow> gdt" where
  "gdt_set_entry idx base limit acc flags g = g\<lparr>gdt_table := (gdt_table g)[idx :=
     \<lparr>limit_low = ucast (limit AND 0xFFFF), base_low = ucast (base AND 0xFFFF), base_mid = ucast (drop_bit 16 base AND 0xFF),
      access_byte = acc, flags_limit = ucast (drop_bit 16 limit AND 0x0F) OR (flags AND 0xF0),
      base_high = ucast (drop_bit 24 base AND 0xFF)\<rparr>]\<rparr>"

text \<open>\<open>at\<close> is the address of the table.\<close>

definition gdt_init :: "u32 \<Rightarrow> gdt \<Rightarrow> gdt" where
  "gdt_init at g =
     (let g = g\<lparr>gdtr_limit := of_nat (8 * GDT_ENTRIES - 1), gdtr_base := at\<rparr>;
          g = gdt_set_entry 0 0 0 0 0 g;
          g = gdt_set_entry 1 0 0xFFFFF (GDT_PRESENT OR GDT_RING0 OR GDT_DESCRIPTOR OR GDT_EXECUTABLE OR GDT_READABLE)
                (GDT_GRANULARITY OR GDT_32BIT) g;
          g = gdt_set_entry 2 0 0xFFFFF (GDT_PRESENT OR GDT_RING0 OR GDT_DESCRIPTOR OR GDT_READABLE)
                (GDT_GRANULARITY OR GDT_32BIT) g;
          g = gdt_set_entry 3 0 0xFFFFF (GDT_PRESENT OR GDT_RING3 OR GDT_DESCRIPTOR OR GDT_EXECUTABLE OR GDT_READABLE)
                (GDT_GRANULARITY OR GDT_32BIT) g;
          g = gdt_set_entry 4 0 0xFFFFF (GDT_PRESENT OR GDT_RING3 OR GDT_DESCRIPTOR OR GDT_READABLE)
                (GDT_GRANULARITY OR GDT_32BIT) g
      in g\<lparr>gdt_loaded := True\<rparr>)"

section \<open>The processor's view\<close>

definition seg_base :: "gdt_entry \<Rightarrow> u32" where
  "seg_base e = push_bit 24 (ucast (base_high e)) OR push_bit 16 (ucast (base_mid e)) OR ucast (base_low e)"

definition seg_limit :: "gdt_entry \<Rightarrow> u32" where
  "seg_limit e = push_bit 16 (ucast (flags_limit e AND 0x0F)) OR ucast (limit_low e)"

text \<open>The last byte of the segment: with the granularity bit the limit counts pages.\<close>

definition seg_last :: "gdt_entry \<Rightarrow> u32" where
  "seg_last e = (if bit (flags_limit e) 7 then push_bit 12 (seg_limit e) OR 0xFFF else seg_limit e)"

definition seg_dpl :: "gdt_entry \<Rightarrow> u8" where "seg_dpl e = drop_bit 5 (access_byte e) AND 3"
definition seg_present :: "gdt_entry \<Rightarrow> bool" where "seg_present e \<longleftrightarrow> bit (access_byte e) 7"
definition seg_code :: "gdt_entry \<Rightarrow> bool" where "seg_code e \<longleftrightarrow> bit (access_byte e) 4 \<and> bit (access_byte e) 3"
definition seg_data :: "gdt_entry \<Rightarrow> bool" where "seg_data e \<longleftrightarrow> bit (access_byte e) 4 \<and> \<not> bit (access_byte e) 3"

text \<open>
  Every base comes back whole and every limit with its low twenty bits, and the attributes are the
  ones given.
\<close>

lemma gdt_entry_roundtrip:
  assumes "idx < length (gdt_table g)" and "e = gdt_table (gdt_set_entry idx base limit acc flags g) ! idx"
  shows "seg_base e = base" "seg_limit e = limit AND 0xFFFFF" "access_byte e = acc" "flags_limit e AND 0xF0 = flags AND 0xF0"
proof -
  have m: "(0xFFFF :: u32) = mask 16" "(0xFF :: u32) = mask 8" "(0x0F :: u32) = mask 4" "(0xFFFFF :: u32) = mask 20"
    "(0x0F :: u8) = mask 4" "(0xF0 :: u8) = NOT (mask 4)"
    by (simp_all add: mask_eq_exp_minus_1 not_eq_complement)
  have e: "e = \<lparr>limit_low = ucast (limit AND 0xFFFF), base_low = ucast (base AND 0xFFFF), base_mid = ucast (drop_bit 16 base AND 0xFF),
      access_byte = acc, flags_limit = ucast (drop_bit 16 limit AND 0x0F) OR (flags AND 0xF0),
      base_high = ucast (drop_bit 24 base AND 0xFF)\<rparr>"
    using assms by (simp add: gdt_set_entry_def)
  show "access_byte e = acc" by (simp add: e)
  show "seg_base e = base"
  proof (rule bit_word_eqI)
    fix n assume "n < LENGTH(32)"
    then consider "n < 16" | "16 \<le> n" "n - 16 < 8" "n < 24" | "24 \<le> n" "n - 24 < 8" "\<not> n - 16 < 8" "n < 32" by fastforce
    then show "bit (seg_base e) n = bit base n"
      unfolding seg_base_def e gdt_entry.simps m by cases (simp_all add: bit_simps)
  qed
  show "seg_limit e = limit AND 0xFFFFF"
  proof (rule bit_word_eqI)
    fix n assume "n < LENGTH(32)"
    then consider "n < 16" | "16 \<le> n" "n - 16 < 4" "n < 20" | "20 \<le> n" "\<not> n - 16 < 4" by fastforce
    then show "bit (seg_limit e) n = bit (limit AND 0xFFFFF) n"
      unfolding seg_limit_def e gdt_entry.simps m by cases (auto simp: bit_simps)
  qed
  show "flags_limit e AND 0xF0 = flags AND 0xF0"
    unfolding e gdt_entry.simps m by (rule bit_word_eqI) (auto simp: bit_simps)
qed

definition flat :: "gdt_entry \<Rightarrow> bool" where
  "flat e \<longleftrightarrow> seg_present e \<and> seg_base e = 0 \<and> seg_last e = 0xFFFFFFFF"

text \<open>
  The kernel's segments as the processor reads them: the first descriptor is the null descriptor,
  the others are present and span all four gigabytes, code and data for privilege level 0 and
  then for level 3, at the selectors 0x08, 0x10, 0x18 and 0x20; and the table's limit is its size
  less one.
\<close>

theorem gdt_flat_segments:
  assumes "length (gdt_table g) = GDT_ENTRIES"
  shows "\<exists>c0 d0 c3 d3. gdt_table (gdt_init at g) =
      [\<lparr>limit_low = 0, base_low = 0, base_mid = 0, access_byte = 0, flags_limit = 0, base_high = 0\<rparr>, c0, d0, c3, d3] \<and>
    flat c0 \<and> seg_code c0 \<and> seg_dpl c0 = 0 \<and> flat d0 \<and> seg_data d0 \<and> seg_dpl d0 = 0 \<and>
    flat c3 \<and> seg_code c3 \<and> seg_dpl c3 = 3 \<and> flat d3 \<and> seg_data d3 \<and> seg_dpl d3 = 3 \<and>
    gdtr_base (gdt_init at g) = at \<and> unat (gdtr_limit (gdt_init at g)) = 39 \<and> gdt_loaded (gdt_init at g)"
proof -
  obtain a b c d e where "gdt_table g = [a, b, c, d, e]"
    using assms by (auto simp: GDT_ENTRIES_def length_Suc_conv eval_nat_numeral)
  then show ?thesis
    by (simp add: gdt_init_def gdt_set_entry_def flat_def seg_base_def seg_last_def seg_limit_def seg_dpl_def seg_present_def
        seg_code_def seg_data_def GDT_PRESENT_def GDT_RING0_def GDT_RING3_def GDT_DESCRIPTOR_def GDT_EXECUTABLE_def
        GDT_READABLE_def GDT_GRANULARITY_def GDT_32BIT_def GDT_ENTRIES_def bit_iff_odd Let_def)
qed

definition blank_gdt :: gdt where
  "blank_gdt = \<lparr>gdt_table = replicate 5 \<lparr>limit_low = 0, base_low = 0, base_mid = 0, access_byte = 0, flags_limit = 0, base_high = 0\<rparr>,
     gdtr_limit = 0, gdtr_base = 0, gdt_loaded = False\<rparr>"

lemma gdt_flat_segments_witness: "unat (gdtr_limit (gdt_init 0x100000 blank_gdt)) = 39"
  using gdt_flat_segments [of blank_gdt "0x100000"] by (auto simp: blank_gdt_def GDT_ENTRIES_def)

end
