(* ===== verification/Arch_Idt.thy ===== *)
theory Arch_Idt
  imports Hw_Io
begin

text \<open>
  Interrupts, \<^verbatim>\<open>kernel/arch/x86/idt.c\<close>: the gates, the remapping of the two interrupt controllers,
  and the dispatch of exceptions and hardware interrupts. The addresses of the assembly stubs are a
  parameter. Handlers are values of a type of their own, and what running one does is a parameter.
\<close>

definition IDT_ENTRIES :: nat where "IDT_ENTRIES = 256"
definition IDT_INTERRUPT_GATE :: u8 where "IDT_INTERRUPT_GATE = 0x8E"
definition PIC1_CMD :: u16 where "PIC1_CMD = 0x20"
definition PIC1_DATA :: u16 where "PIC1_DATA = 0x21"
definition PIC2_CMD :: u16 where "PIC2_CMD = 0xA0"
definition PIC2_DATA :: u16 where "PIC2_DATA = 0xA1"
definition PIC_EOI :: u8 where "PIC_EOI = 0x20"

text \<open>The registers the stubs push, as \<^verbatim>\<open>registers_t\<close> lays them out.\<close>

record registers =
  r_ds :: u32
  r_edi :: u32
  r_esi :: u32
  r_ebp :: u32
  r_esp_dummy :: u32
  r_ebx :: u32
  r_edx :: u32
  r_ecx :: u32
  r_eax :: u32
  int_no :: u32
  err_code :: u32
  r_eip :: u32
  r_cs :: u32
  r_eflags :: u32
  useresp :: u32
  r_ss :: u32

record idt_entry =
  offset_low :: u16
  selector :: u16
  zero_byte :: u8
  type_attr :: u8
  offset_high :: u16

record 'h idt = io +
  idt_table :: "idt_entry list"
  idtr_limit :: u16
  idtr_base :: u32
  idt_loaded :: bool
  irq_table :: "'h option list"

datatype stub = Isr nat | Irq nat

definition idt_set_gate :: "u8 \<Rightarrow> u32 \<Rightarrow> u16 \<Rightarrow> u8 \<Rightarrow> ('h, 'a) idt_scheme \<Rightarrow> ('h, 'a) idt_scheme" where
  "idt_set_gate idx handler sel flags s = s\<lparr>idt_table := (idt_table s)[unat idx :=
     \<lparr>offset_low = ucast (handler AND 0xFFFF), selector = sel, zero_byte = 0, type_attr = flags,
      offset_high = ucast (drop_bit 16 handler AND 0xFFFF)\<rparr>]\<rparr>"

definition io_wait :: "'a io_scheme \<Rightarrow> 'a io_scheme" where "io_wait s = outb 0x80 0 s"

definition pic_remap :: "device \<Rightarrow> 'a io_scheme \<Rightarrow> 'a io_scheme" where
  "pic_remap dev s =
     (let (m1, s) = inb dev PIC1_DATA s; (m2, s) = inb dev PIC2_DATA s;
          s = io_wait (outb PIC1_CMD 0x11 s);
          s = io_wait (outb PIC2_CMD 0x11 s);
          s = io_wait (outb PIC1_DATA 0x20 s);
          s = io_wait (outb PIC2_DATA 0x28 s);
          s = io_wait (outb PIC1_DATA 0x04 s);
          s = io_wait (outb PIC2_DATA 0x02 s);
          s = io_wait (outb PIC1_DATA 0x01 s);
          s = io_wait (outb PIC2_DATA 0x01 s);
          s = outb PIC1_DATA m1 s
      in outb PIC2_DATA m2 s)"

definition exception_names :: "string list" where
  "exception_names =
     [''Division By Zero'', ''Debug'', ''Non-Maskable Interrupt'', ''Breakpoint'', ''Overflow'', ''Bound Range Exceeded'',
      ''Invalid Opcode'', ''Device Not Available'', ''Double Fault'', ''Coprocessor Segment Overrun'', ''Invalid TSS'',
      ''Segment Not Present'', ''Stack Fault'', ''General Protection Fault'', ''Page Fault'', ''Reserved'', ''x87 FPU Error'',
      ''Alignment Check'', ''Machine Check'', ''SIMD Floating-Point Exception'']"

text \<open>The array has sixteen slots; an index outside would be written next to it (\<open>None\<close>).\<close>

definition irq_register_handler :: "int \<Rightarrow> 'h \<Rightarrow> ('h, 'a) idt_scheme \<Rightarrow> ('h, 'a) idt_scheme option" where
  "irq_register_handler irq h s =
     (if 0 \<le> irq \<and> irq < 16 then Some (s\<lparr>irq_table := (irq_table s)[nat irq := Some h]\<rparr>) else None)"

text \<open>What an exception prints before the machine stops for good.\<close>

definition isr_handler :: "registers \<Rightarrow> string" where
  "isr_handler regs =
     ''\<newline>[KERNEL PANIC] Exception: '' @
     (if int_no regs < 20 then exception_names ! unat (int_no regs) else ''Unknown exception'') @ ''\<newline>''"

definition irq_handler ::
    "('h \<Rightarrow> ('h, 'a) idt_scheme \<Rightarrow> ('h, 'a) idt_scheme) \<Rightarrow> registers \<Rightarrow> ('h, 'a) idt_scheme \<Rightarrow> ('h, 'a) idt_scheme" where
  "irq_handler run regs s =
     (let irq = ucast (int_no regs - 32) :: u8;
          s = (if irq < 16 then case irq_table s ! unat irq of Some h \<Rightarrow> run h s | None \<Rightarrow> s else s);
          s = (if 8 \<le> irq then outb PIC2_CMD PIC_EOI s else s)
      in outb PIC1_CMD PIC_EOI s)"

definition idt_init :: "device \<Rightarrow> (stub \<Rightarrow> u32) \<Rightarrow> u32 \<Rightarrow> ('h, 'a) idt_scheme \<Rightarrow> ('h, 'a) idt_scheme" where
  "idt_init dev stubs at s =
     (let s = s\<lparr>idtr_limit := of_nat (8 * IDT_ENTRIES - 1), idtr_base := at\<rparr>;
          s = for_loop 0 32 (\<lambda>i. idt_set_gate (of_nat i) (stubs (Isr i)) 0x08 IDT_INTERRUPT_GATE) s;
          s = pic_remap dev s;
          s = for_loop 32 48 (\<lambda>i. idt_set_gate (of_nat i) (stubs (Irq (i - 32))) 0x08 IDT_INTERRUPT_GATE) s;
          s = idt_set_gate 128 (stubs (Isr 128)) 0x08 0xEE s
      in s\<lparr>idt_loaded := True\<rparr>)"

section \<open>The gates\<close>

text \<open>The processor's reading of a gate.\<close>

definition gate_handler :: "idt_entry \<Rightarrow> u32" where
  "gate_handler e = push_bit 16 (ucast (offset_high e)) OR ucast (offset_low e)"

definition gate_dpl :: "idt_entry \<Rightarrow> u8" where "gate_dpl e = drop_bit 5 (type_attr e) AND 3"
definition gate_present :: "idt_entry \<Rightarrow> bool" where "gate_present e \<longleftrightarrow> bit (type_attr e) 7"
definition interrupt_gate :: "idt_entry \<Rightarrow> bool" where "interrupt_gate e \<longleftrightarrow> type_attr e AND 0x1F = 0x0E"

lemma gate_handler_back:
  "gate_handler \<lparr>offset_low = ucast (h AND 0xFFFF), selector = sel, zero_byte = z, type_attr = t,
     offset_high = ucast (drop_bit 16 h AND 0xFFFF)\<rparr> = h"
proof (rule bit_word_eqI)
  fix n assume "n < LENGTH(32)"
  then consider "n < 16" | "16 \<le> n" "n - 16 < 16" "n < 32" by fastforce
  moreover have m: "(0xFFFF :: u32) = mask 16" by (simp add: mask_eq_exp_minus_1)
  ultimately show "bit (gate_handler \<lparr>offset_low = ucast (h AND 0xFFFF), selector = sel, zero_byte = z, type_attr = t,
     offset_high = ucast (drop_bit 16 h AND 0xFFFF)\<rparr>) n = bit h n"
    unfolding gate_handler_def idt_entry.simps m by cases (simp_all add: bit_simps)
qed

text \<open>What \<^verbatim>\<open>idt_init\<close> puts at a vector, on top of what was there.\<close>

definition vector_stub :: "nat \<Rightarrow> stub option" where
  "vector_stub v = (if v < 32 \<or> v = 128 then Some (Isr v) else if v < 48 then Some (Irq (v - 32)) else None)"

definition gate_of :: "(stub \<Rightarrow> u32) \<Rightarrow> nat \<Rightarrow> stub \<Rightarrow> idt_entry" where
  "gate_of stubs v st = \<lparr>offset_low = ucast (stubs st AND 0xFFFF), selector = 0x08, zero_byte = 0,
     type_attr = (if v = 128 then 0xEE else IDT_INTERRUPT_GATE), offset_high = ucast (drop_bit 16 (stubs st) AND 0xFFFF)\<rparr>"

lemma outb_idt [simp]: "idt_table (outb p v s) = idt_table s" "idtr_limit (outb p v s) = idtr_limit s"
  "idtr_base (outb p v s) = idtr_base s" "irq_table (outb p v s) = irq_table s"
  by (simp_all add: outb_def access_def)

lemma inb_idt [simp]: "idt_table (snd (inb dev p s)) = idt_table s" "idtr_limit (snd (inb dev p s)) = idtr_limit s"
  "idtr_base (snd (inb dev p s)) = idtr_base s" "irq_table (snd (inb dev p s)) = irq_table s"
  by (simp_all add: inb_def access_def Let_def)

lemma pic_remap_table [simp]:
  "idt_table (pic_remap dev s) = idt_table s" "idtr_limit (pic_remap dev s) = idtr_limit s"
  "idtr_base (pic_remap dev s) = idtr_base s" "irq_table (pic_remap dev s) = irq_table s"
  by (simp_all add: pic_remap_def io_wait_def split_beta Let_def)

lemma set_gates:
  assumes "b \<le> 256" and "length (idt_table s) = 256" and "a \<le> b"
    and e: "\<And>i. e i = \<lparr>offset_low = ucast (f i AND 0xFFFF), selector = sel, zero_byte = 0, type_attr = fl,
       offset_high = ucast (drop_bit 16 (f i) AND 0xFFFF)\<rparr>"
  shows "\<exists>t. for_loop a b (\<lambda>i. idt_set_gate (of_nat i) (f i) sel fl) s = s\<lparr>idt_table := t\<rparr> \<and> length t = 256 \<and>
    (\<forall>v. t ! v = (if a \<le> v \<and> v < b then e v else idt_table s ! v))"
  using assms(3,1)
proof (induction b rule: dec_induct)
  case base
  then show ?case using assms(2) by (intro exI [of _ "idt_table s"]) auto
next
  case (step b)
  have "b \<le> 256" using step.prems by simp
  from step.IH [OF this] obtain t where t: "for_loop a b (\<lambda>i. idt_set_gate (of_nat i) (f i) sel fl) s = s\<lparr>idt_table := t\<rparr>"
    "length t = 256" "\<forall>v. t ! v = (if a \<le> v \<and> v < b then e v else idt_table s ! v)"
    by blast
  have "unat (of_nat b :: u8) = b" using step.prems by (simp add: unsigned_of_nat take_bit_nat_eq_self)
  then have "for_loop a (Suc b) (\<lambda>i. idt_set_gate (of_nat i) (f i) sel fl) s = s\<lparr>idt_table := t[b := e b]\<rparr>"
    using step.hyps t(1) by (simp add: for_loop_Suc idt_set_gate_def e)
  moreover have "t[b := e b] ! v = (if a \<le> v \<and> v < Suc b then e v else idt_table s ! v)" for v
  proof (cases "v = b")
    case True
    then show ?thesis using step t(2) by simp
  next
    case False
    then have "v < Suc b \<longleftrightarrow> v < b" by auto
    with False t(3) show ?thesis by simp
  qed
  ultimately show ?case using t(2) by (intro exI [of _ "t[b := e b]"]) simp
qed

text \<open>
  After \<^verbatim>\<open>idt_init\<close> every exception (vectors 0 to 31) and every hardware interrupt (32 to 47) enters the
  kernel through an interrupt gate for privilege level 0 to its own stub, and the system call
  vector, alone, through one that level 3 may use; all gates switch to the kernel's code segment,
  and no other vector has been touched.
\<close>

theorem idt_vectors:
  assumes "length (idt_table s) = IDT_ENTRIES" and "v < 256"
  shows "let e = idt_table (idt_init dev stubs at s) ! v in case vector_stub v of
      None \<Rightarrow> e = idt_table s ! v
    | Some st \<Rightarrow> gate_handler e = stubs st \<and> gate_present e \<and> interrupt_gate e \<and> selector e = 0x08 \<and>
        gate_dpl e = (if v = 128 then 3 else 0)"
proof -
  let ?g = "\<lambda>st ta. \<lparr>offset_low = ucast (stubs st AND 0xFFFF), selector = 0x08, zero_byte = 0, type_attr = ta,
     offset_high = ucast (drop_bit 16 (stubs st) AND 0xFFFF)\<rparr>"
  let ?s0 = "s\<lparr>idtr_limit := of_nat (8 * IDT_ENTRIES - 1), idtr_base := at\<rparr>"
  have l0: "length (idt_table ?s0) = 256" using assms(1) by (simp add: IDT_ENTRIES_def)
  obtain t1 where t1: "for_loop 0 32 (\<lambda>i. idt_set_gate (of_nat i) (stubs (Isr i)) 0x08 IDT_INTERRUPT_GATE) ?s0 = ?s0\<lparr>idt_table := t1\<rparr>"
    "length t1 = 256" "\<forall>v. t1 ! v = (if 0 \<le> v \<and> v < 32 then ?g (Isr v) IDT_INTERRUPT_GATE else idt_table ?s0 ! v)"
    using set_gates [OF _ l0, of 32 0 "\<lambda>v. ?g (Isr v) IDT_INTERRUPT_GATE" "\<lambda>i. stubs (Isr i)" "0x08" IDT_INTERRUPT_GATE] by auto
  let ?s1 = "pic_remap dev (?s0\<lparr>idt_table := t1\<rparr>)"
  have l1: "length (idt_table ?s1) = 256" using t1(2) by simp
  obtain t2 where t2: "for_loop 32 48 (\<lambda>i. idt_set_gate (of_nat i) (stubs (Irq (i - 32))) 0x08 IDT_INTERRUPT_GATE) ?s1 = ?s1\<lparr>idt_table := t2\<rparr>"
    "length t2 = 256" "\<forall>v. t2 ! v = (if 32 \<le> v \<and> v < 48 then ?g (Irq (v - 32)) IDT_INTERRUPT_GATE else idt_table ?s1 ! v)"
    using set_gates [OF _ l1, of 48 32 "\<lambda>v. ?g (Irq (v - 32)) IDT_INTERRUPT_GATE" "\<lambda>i. stubs (Irq (i - 32))" "0x08" IDT_INTERRUPT_GATE] by auto
  have table: "idt_table (idt_init dev stubs at s) = t2[128 := ?g (Isr 128) 0xEE]"
    by (simp only: idt_init_def Let_def t1(1) t2(1)) (simp add: idt_set_gate_def)
  define e where "e = idt_table (idt_init dev stubs at s) ! v"
  have e: "e = (if v = 128 then ?g (Isr 128) 0xEE else if 32 \<le> v \<and> v < 48 then ?g (Irq (v - 32)) IDT_INTERRUPT_GATE
      else if v < 32 then ?g (Isr v) IDT_INTERRUPT_GATE else idt_table s ! v)"
    using table t2(2,3) t1(3) by (auto simp: e_def)
  have g: "gate_handler (?g st ta) = stubs st" "gate_present (?g st 0x8E)" "gate_present (?g st 0xEE)"
    "interrupt_gate (?g st 0x8E)" "interrupt_gate (?g st 0xEE)" "gate_dpl (?g st 0x8E) = 0" "gate_dpl (?g st 0xEE) = 3" for st ta
    by (simp_all add: gate_handler_back gate_present_def interrupt_gate_def gate_dpl_def bit_iff_odd)
  consider "v = 128" | "v < 32" | "32 \<le> v" "v < 48" | "48 \<le> v" "v \<noteq> 128" by linarith
  then show ?thesis
    unfolding e_def [symmetric] Let_def by cases (simp_all add: vector_stub_def e g IDT_INTERRUPT_GATE_def)
qed

text \<open>A machine whose two controllers mask everything, before and after.\<close>

definition blank_idt :: "nat idt" where
  "blank_idt = \<lparr>trace = [], slog = [], idt_table = replicate 256 \<lparr>offset_low = 0, selector = 0, zero_byte = 0, type_attr = 0, offset_high = 0\<rparr>,
     idtr_limit = 0, idtr_base = 0, idt_loaded = False, irq_table = replicate 16 None\<rparr>"

lemma idt_vectors_witness:
  "gate_handler (idt_table (idt_init (\<lambda>_. 0xFF) (\<lambda>st. case st of Isr i \<Rightarrow> 0x101000 + of_nat i | Irq i \<Rightarrow> 0x102000 + of_nat i) 0x105000 blank_idt) ! 33)
     = 0x102001"
  using idt_vectors [of blank_idt 33 "\<lambda>_. 0xFF" "\<lambda>st. case st of Isr i \<Rightarrow> 0x101000 + of_nat i | Irq i \<Rightarrow> 0x102000 + of_nat i" "0x105000"]
  by (simp add: blank_idt_def IDT_ENTRIES_def vector_stub_def Let_def)

section \<open>The interrupt controllers\<close>

text \<open>
  An 8259 as its data sheet describes it: after the first initialisation word it takes three more on
  its data port (vector offset, cascading, mode), and otherwise data writes set the mask.
\<close>

record pic =
  pic_expects :: nat
  pic_offset :: u8
  pic_cascade :: u8
  pic_mode :: u8
  pic_mask :: u8
  pic_eois :: nat

definition pic_cmd :: "u8 \<Rightarrow> pic \<Rightarrow> pic" where
  "pic_cmd v p = (if bit v 4 then p\<lparr>pic_expects := 2, pic_mask := 0\<rparr>
     else if v AND 0xE0 = 0x20 then p\<lparr>pic_eois := pic_eois p + 1\<rparr> else p)"

definition pic_data :: "u8 \<Rightarrow> pic \<Rightarrow> pic" where
  "pic_data v p =
     (if pic_expects p = 2 then p\<lparr>pic_offset := v, pic_expects := 3\<rparr>
      else if pic_expects p = 3 then p\<lparr>pic_cascade := v, pic_expects := 4\<rparr>
      else if pic_expects p = 4 then p\<lparr>pic_mode := v, pic_expects := 0\<rparr>
      else p\<lparr>pic_mask := v\<rparr>)"

text \<open>The pair at their ports after a history of accesses.\<close>

fun pics :: "pic \<times> pic \<Rightarrow> access list \<Rightarrow> pic \<times> pic" where
  "pics P [] = P"
| "pics P (Outb p v # tr) =
     (let (a, b) = pics P tr
      in (if p = PIC1_CMD then pic_cmd v a else if p = PIC1_DATA then pic_data v a else a,
          if p = PIC2_CMD then pic_cmd v b else if p = PIC2_DATA then pic_data v b else b))"
| "pics P (_ # tr) = pics P tr"

text \<open>
  Whatever state the interrupt controllers were in, \<^verbatim>\<open>pic_remap\<close> leaves them initialised in 8086 mode
  with the first at vectors 32 to 39, the second at 40 to 47, cascaded over line 2, their masks
  the ones it read before, and no interrupt acknowledged.
\<close>

theorem pic_remap_vectors:
  "\<exists>m1 m2 tr. pic_remap dev s = s\<lparr>trace := tr\<rparr> \<and>
    m1 = ucast (dev (Inb PIC1_DATA # trace s)) \<and> m2 = ucast (dev (Inb PIC2_DATA # Inb PIC1_DATA # trace s)) \<and>
    pics P tr = (\<lparr>pic_expects = 0, pic_offset = 32, pic_cascade = 4, pic_mode = 1, pic_mask = m1, pic_eois = pic_eois (fst (pics P (trace s)))\<rparr>,
                 \<lparr>pic_expects = 0, pic_offset = 40, pic_cascade = 2, pic_mode = 1, pic_mask = m2, pic_eois = pic_eois (snd (pics P (trace s)))\<rparr>)"
proof -
  obtain a b where ab: "pics P (trace s) = (a, b)" by fastforce
  let ?t0 = "Inb PIC2_DATA # Inb PIC1_DATA # trace s"
  define m1 :: u8 where "m1 = ucast (dev (Inb PIC1_DATA # trace s))"
  define m2 :: u8 where "m2 = ucast (dev ?t0)"
  define tr where "tr = Outb PIC2_DATA m2 # Outb PIC1_DATA m1 # Outb 0x80 0 # Outb PIC2_DATA 0x01 # Outb 0x80 0 # Outb PIC1_DATA 0x01 #
    Outb 0x80 0 # Outb PIC2_DATA 0x02 # Outb 0x80 0 # Outb PIC1_DATA 0x04 # Outb 0x80 0 # Outb PIC2_DATA 0x28 # Outb 0x80 0 #
    Outb PIC1_DATA 0x20 # Outb 0x80 0 # Outb PIC2_CMD 0x11 # Outb 0x80 0 # Outb PIC1_CMD 0x11 # ?t0"
  have out: "outb p v (s\<lparr>trace := t\<rparr>) = s\<lparr>trace := Outb p v # t\<rparr>" for p v t
    by (simp add: outb_def access_def)
  have "inb dev PIC1_DATA s = (m1, s\<lparr>trace := Inb PIC1_DATA # trace s\<rparr>)"
    "inb dev PIC2_DATA (s\<lparr>trace := Inb PIC1_DATA # trace s\<rparr>) = (m2, s\<lparr>trace := ?t0\<rparr>)"
    by (simp_all add: inb_def access_def m1_def m2_def Let_def)
  then have "pic_remap dev s = s\<lparr>trace := tr\<rparr>"
    unfolding pic_remap_def io_wait_def tr_def Let_def by (simp only: prod.case out)
  moreover have "pics P tr = (\<lparr>pic_expects = 0, pic_offset = 32, pic_cascade = 4, pic_mode = 1, pic_mask = m1, pic_eois = pic_eois a\<rparr>,
      \<lparr>pic_expects = 0, pic_offset = 40, pic_cascade = 2, pic_mode = 1, pic_mask = m2, pic_eois = pic_eois b\<rparr>)"
    by (simp add: tr_def ab PIC1_CMD_def PIC1_DATA_def PIC2_CMD_def PIC2_DATA_def pic_cmd_def pic_data_def bit_iff_odd)
  ultimately show ?thesis unfolding m1_def m2_def ab by (simp only: fst_conv snd_conv) blast
qed

text \<open>After an interrupt the first controller gets one end-of-interrupt command, the second one for its own lines only.\<close>

lemma irq_acknowledged:
  fixes s :: "'h idt"
  assumes irq_def: "irq = (ucast (int_no regs - 32) :: u8)"
    and s1: "s1 = (if irq < 16 then case irq_table s ! unat irq of Some h \<Rightarrow> run h s | None \<Rightarrow> s else s)"
    and ab: "pics P (trace s1) = (a, b)"
  shows "pics P (trace (irq_handler run regs s)) =
    (a\<lparr>pic_eois := pic_eois a + 1\<rparr>, if 8 \<le> irq then b\<lparr>pic_eois := pic_eois b + 1\<rparr> else b)"
proof -
  have "irq_handler run regs s = outb PIC1_CMD PIC_EOI (if 8 \<le> irq then outb PIC2_CMD PIC_EOI s1 else s1)"
    unfolding irq_handler_def Let_def irq_def [symmetric] s1 ..
  then show ?thesis
    by (simp add: outb_def access_def ab PIC1_CMD_def PIC1_DATA_def PIC2_CMD_def PIC2_DATA_def pic_cmd_def PIC_EOI_def bit_iff_odd)
qed

end
