(* ===== verification/Drv_Timer.thy ===== *)
theory Drv_Timer
  imports Hw_Io
begin

text \<open>
  The timer, \<^verbatim>\<open>kernel/drivers/timer.c\<close>, and the serial port, \<^verbatim>\<open>kernel/drivers/serial.c\<close>. Sleeping waits
  for interrupts: which of the interrupts to come are the timer's is the parameter \<open>irqs\<close>, and the
  wait is given a number of interrupts it may take. Waiting for the serial port may not end, so it
  is a partial function.
\<close>

section \<open>The timer\<close>

definition PIT_CHANNEL0 :: u16 where "PIT_CHANNEL0 = 0x40"
definition PIT_CMD :: u16 where "PIT_CMD = 0x43"
definition PIT_BASE_HZ :: u32 where "PIT_BASE_HZ = 1193182"

record timer = io +
  tick_count :: u64
  ticks_per_ms :: u32

definition timer_irq_handler :: "'a timer_scheme \<Rightarrow> 'a timer_scheme" where
  "timer_irq_handler s = s\<lparr>tick_count := tick_count s + 1\<rparr>"

text \<open>For \<open>hz\<close> above 0; the registration of the handler is the caller's table (\<open>Arch_Idt\<close>).\<close>

definition timer_init :: "u32 \<Rightarrow> 'a timer_scheme \<Rightarrow> 'a timer_scheme" where
  "timer_init hz s =
     (let s = s\<lparr>ticks_per_ms := hz div 1000\<rparr>;
          s = (if ticks_per_ms s = 0 then s\<lparr>ticks_per_ms := 1\<rparr> else s);
          divisor = PIT_BASE_HZ div hz;
          s = outb PIT_CMD 0x36 s;
          s = outb PIT_CHANNEL0 (ucast (divisor AND 0xFF)) s
      in outb PIT_CHANNEL0 (ucast (drop_bit 8 divisor AND 0xFF)) s)"

definition timer_ticks :: "'a timer_scheme \<Rightarrow> u64" where "timer_ticks s = tick_count s"

fun timer_wait :: "nat \<Rightarrow> (nat \<Rightarrow> bool) \<Rightarrow> u64 \<Rightarrow> 'a timer_scheme \<Rightarrow> 'a timer_scheme option" where
  "timer_wait 0 irqs target s = None"
| "timer_wait (Suc n) irqs target s =
     (if tick_count s < target
      then timer_wait n (\<lambda>k. irqs (Suc k)) target (if irqs 0 then timer_irq_handler s else s)
      else Some s)"

definition timer_sleep :: "nat \<Rightarrow> (nat \<Rightarrow> bool) \<Rightarrow> u32 \<Rightarrow> 'a timer_scheme \<Rightarrow> 'a timer_scheme option" where
  "timer_sleep n irqs ms s = timer_wait n irqs (tick_count s + ucast (ms * ticks_per_ms s)) s"

lemma timer_wait_more: "timer_wait n irqs target s = Some s' \<Longrightarrow> n \<le> m \<Longrightarrow> timer_wait m irqs target s = Some s'"
proof (induction n arbitrary: irqs s m)
  case (Suc n)
  then show ?case by (cases m) (auto split: if_splits)
qed simp

text \<open>Interrupts that are not the timer's only pass the time.\<close>

lemma timer_wait_skip:
  "(\<And>i. i < j \<Longrightarrow> \<not> irqs i) \<Longrightarrow> tick_count s < target \<Longrightarrow>
   timer_wait (j + n) irqs target s = timer_wait n (\<lambda>k. irqs (j + k)) target s"
proof (induction j arbitrary: irqs)
  case (Suc j)
  have "timer_wait (Suc j + n) irqs target s = timer_wait (j + n) (\<lambda>k. irqs (Suc k)) target s"
    using Suc.prems(1) [of 0] Suc.prems(2) by simp
  also have "\<dots> = timer_wait n (\<lambda>k. irqs (Suc (j + k))) target s"
    using Suc.IH [of "\<lambda>k. irqs (Suc k)"] Suc.prems by simp
  finally show ?case by simp
qed simp

text \<open>
  C31. Sleeping ends: as long as the timer keeps interrupting, \<^verbatim>\<open>timer_sleep\<close> returns, and when it
  does the count has advanced by exactly the 32-bit product of the milliseconds and the ticks per
  millisecond. At every rate below 1000 Hz that factor is 1: at the kernel's 100 Hz a sleep takes
  ten times as long as asked.
\<close>

theorem timer_sleep_returns:
  assumes "\<forall>k. \<exists>j. k \<le> j \<and> irqs j" and "unat (tick_count s) + unat (ms * ticks_per_ms s) < 2 ^ 64"
  shows "\<exists>n s'. timer_sleep n irqs ms s = Some s' \<and>
    unat (tick_count s') = unat (tick_count s) + unat (ms * ticks_per_ms s) \<and> ticks_per_ms s' = ticks_per_ms s"
proof -
  define t :: u64 where "t = tick_count s + ucast (ms * ticks_per_ms s)"
  have u: "unat (ucast (ms * ticks_per_ms s) :: u64) = unat (ms * ticks_per_ms s)"
  proof -
    have "unat (ms * ticks_per_ms s) < 2 ^ LENGTH(32)" by (rule unsigned_less)
    moreover have "(2 :: nat) ^ LENGTH(32) < 2 ^ 64" by simp
    ultimately have "unat (ms * ticks_per_ms s) < 2 ^ 64" by (rule less_trans)
    then have "take_bit 64 (unat (ms * ticks_per_ms s)) = unat (ms * ticks_per_ms s)" by (rule take_bit_nat_eq_self)
    then show ?thesis by (simp add: unsigned_ucast_eq)
  qed
  have t: "unat t = unat (tick_count s) + unat (ms * ticks_per_ms s)"
    using assms(2) u by (simp add: t_def unat_add_no_wrap)
  have "\<exists>n s'. timer_wait n irqs t s = Some s' \<and> tick_count s' = t \<and> ticks_per_ms s' = ticks_per_ms s"
    if "unat t - unat (tick_count s) = d" "tick_count s \<le> t" "\<forall>k. \<exists>j. k \<le> j \<and> irqs j" for d irqs and s :: "'a timer_scheme"
    using that
  proof (induction d arbitrary: s irqs)
    case 0
    then have "tick_count s = t" by (simp add: word_le_nat_alt word_unat_eq_iff)
    then have "timer_wait (Suc 0) irqs t s = Some s" by simp
    with \<open>tick_count s = t\<close> show ?case by blast
  next
    case (Suc d)
    then have less: "tick_count s < t" by (simp add: word_less_nat_alt)
    obtain j where "irqs j" using Suc.prems(3) by blast
    define i where "i = (LEAST j. irqs j)"
    have i: "irqs i" "\<And>k. k < i \<Longrightarrow> \<not> irqs k"
      unfolding i_def by (rule LeastI [of irqs, OF \<open>irqs j\<close>]) (use not_less_Least in blast)
    let ?s = "timer_irq_handler s" and ?irqs = "\<lambda>k. irqs (i + Suc k)"
    have w: "timer_wait (i + Suc n) irqs t s = timer_wait n ?irqs t ?s" for n
      using timer_wait_skip [where j = i and irqs = irqs and n = "Suc n", OF i(2) less] less i(1) by simp
    have "unat t < 2 ^ LENGTH(64)" by (rule unsigned_less)
    then have c: "unat (tick_count ?s) = Suc (unat (tick_count s))"
      using less by (simp add: timer_irq_handler_def unat_add_no_wrap word_less_nat_alt)
    have "\<forall>k. \<exists>j. k \<le> j \<and> ?irqs j"
    proof
      fix k
      obtain j where "i + Suc k \<le> j" "irqs j" using Suc.prems(3) by blast
      then show "\<exists>j. k \<le> j \<and> ?irqs j" by (intro exI [of _ "j - Suc i"]) simp
    qed
    moreover have "unat t - unat (tick_count ?s) = d" "tick_count ?s \<le> t"
      using Suc.prems(1) less c by (simp_all add: word_le_nat_alt word_less_nat_alt)
    ultimately have "\<exists>n s'. timer_wait n ?irqs t ?s = Some s' \<and> tick_count s' = t \<and> ticks_per_ms s' = ticks_per_ms ?s"
      by (intro Suc.IH)
    then obtain n s' where "timer_wait n ?irqs t ?s = Some s'" "tick_count s' = t" "ticks_per_ms s' = ticks_per_ms ?s"
      by (elim exE conjE)
    then show ?case using w by (intro exI [of _ "i + Suc n"] exI [of _ s']) (simp add: timer_irq_handler_def)
  qed
  moreover have "tick_count s \<le> t" using t by (simp add: word_le_nat_alt)
  ultimately obtain n s' where "timer_wait n irqs t s = Some s'" "tick_count s' = t" "ticks_per_ms s' = ticks_per_ms s"
    using assms(1) by blast
  then show ?thesis using t unfolding timer_sleep_def t_def [symmetric] by (intro exI [of _ n] exI [of _ s']) simp
qed

text \<open>Every third interrupt is the timer's.\<close>

definition demo_timer :: timer where
  "demo_timer = \<lparr>trace = [], slog = [], tick_count = 41, ticks_per_ms = 0\<rparr>"

lemma timer_100hz: "ticks_per_ms (timer_init 100 s) = 1" "tick_count (timer_init 100 s) = tick_count s"
  by (simp_all add: timer_init_def outb_def access_def Let_def)

lemma timer_sleep_returns_witness:
  "\<exists>n s'. timer_sleep n (\<lambda>k. k mod 3 = 0) 5 (timer_init 100 demo_timer) = Some s' \<and> unat (tick_count s') = 46"
proof -
  have "\<forall>k. \<exists>j. k \<le> j \<and> j mod 3 = (0 :: nat)"
  proof
    fix k :: nat
    show "\<exists>j. k \<le> j \<and> j mod 3 = 0" by (intro exI [of _ "3 * k"]) simp
  qed
  moreover have "tick_count (timer_init 100 demo_timer) = 41" "ticks_per_ms (timer_init 100 demo_timer) = 1"
    by (simp_all add: timer_100hz) (simp add: demo_timer_def)
  ultimately show ?thesis using timer_sleep_returns [of "\<lambda>k. k mod 3 = 0" "timer_init 100 demo_timer" 5] by auto
qed

text \<open>From 19 Hz on the reload value fits its two bytes: low byte, then high byte.\<close>

lemma timer_init_reload:
  assumes "19 \<le> unat hz"
  shows "\<exists>lo hi tr. trace (timer_init hz s) = Outb PIT_CHANNEL0 hi # Outb PIT_CHANNEL0 lo # Outb PIT_CMD 0x36 # trace s \<and>
    unat lo + 256 * unat hi = 1193182 div unat hz"
proof -
  define d where "d = PIT_BASE_HZ div hz"
  have m: "(0xFF :: u32) = mask 8" by (simp add: mask_eq_exp_minus_1)
  have d: "unat d = 1193182 div unat hz" by (simp add: d_def PIT_BASE_HZ_def unat_div)
  also have "\<dots> \<le> 1193182 div 19" by (rule div_le_mono2) (use assms in simp_all)
  finally have "unat d < 65536" by simp
  have "unat (ucast (d AND 0xFF) :: u8) = unat d mod 256"
    unfolding m by (simp add: unsigned_ucast_eq take_bit_eq_mod flip: take_bit_eq_mask) (simp add: unat_mod)
  moreover have "unat (ucast (drop_bit 8 d AND 0xFF) :: u8) = unat d div 256"
  proof -
    have "unat (drop_bit 8 d) = unat d div 256" by (simp add: drop_bit_eq_div unat_div)
    moreover have "unat d div 256 < 256" using \<open>unat d < 65536\<close> by (simp add: div_less_iff_less_mult)
    ultimately show ?thesis
      unfolding m by (simp add: unsigned_ucast_eq take_bit_eq_mod flip: take_bit_eq_mask) (simp add: unat_mod)
  qed
  ultimately have "unat (ucast (d AND 0xFF) :: u8) + 256 * unat (ucast (drop_bit 8 d AND 0xFF) :: u8) = 1193182 div unat hz"
    using d by simp
  moreover have "trace (timer_init hz s) =
      Outb PIT_CHANNEL0 (ucast (drop_bit 8 d AND 0xFF)) # Outb PIT_CHANNEL0 (ucast (d AND 0xFF)) # Outb PIT_CMD 0x36 # trace s"
    by (simp add: timer_init_def outb_def access_def d_def Let_def)
  ultimately show ?thesis by blast
qed

section \<open>The serial port\<close>

definition COM1 :: u16 where "COM1 = 0x3F8"

definition serial_init :: "'a io_scheme \<Rightarrow> 'a io_scheme" where
  "serial_init s =
     (let s = outb (COM1 + 1) 0x00 s; s = outb (COM1 + 3) 0x80 s; s = outb (COM1 + 0) 0x03 s; s = outb (COM1 + 1) 0x00 s;
          s = outb (COM1 + 3) 0x03 s; s = outb (COM1 + 2) 0xC7 s
      in outb (COM1 + 4) 0x0B s)"

partial_function (option) serial_wait :: "device \<Rightarrow> 'a io_scheme \<Rightarrow> 'a io_scheme option" where
  "serial_wait dev s =
     (let (v, s) = inb dev (COM1 + 5) s in if v AND 0x20 \<noteq> 0 then Some s else serial_wait dev s)"

definition serial_putchar :: "device \<Rightarrow> char \<Rightarrow> 'a io_scheme \<Rightarrow> 'a io_scheme option" where
  "serial_putchar dev c s = map_option (outb COM1 (of_char c)) (serial_wait dev s)"

text \<open>\<^verbatim>\<open>serial_write\<close> at the port; elsewhere its text is collected in \<open>slog\<close>.\<close>

fun serial_puts :: "device \<Rightarrow> string \<Rightarrow> 'a io_scheme \<Rightarrow> 'a io_scheme option" where
  "serial_puts dev [] s = Some s"
| "serial_puts dev (c # cs) s = (case serial_putchar dev c s of None \<Rightarrow> None | Some s \<Rightarrow> serial_puts dev cs s)"

text \<open>The bytes given to the port, oldest first.\<close>

definition sent :: "access list \<Rightarrow> u8 list" where
  "sent tr = concat (map (\<lambda>a. case a of Outb p v \<Rightarrow> if p = COM1 then [v] else [] | _ \<Rightarrow> []) (rev tr))"

text \<open>The line keeps sending: after any history some later look at the status finds it ready.\<close>

definition line_alive :: "device \<Rightarrow> bool" where
  "line_alive dev \<longleftrightarrow> (\<forall>tr. \<exists>k. ucast (dev (replicate (Suc k) (Inb (COM1 + 5)) @ tr)) AND (0x20 :: u8) \<noteq> 0)"

lemma serial_wait_ends:
  "ucast (dev (replicate (Suc k) (Inb (COM1 + 5)) @ trace s)) AND (0x20 :: u8) \<noteq> 0 \<Longrightarrow>
   \<exists>n. serial_wait dev s = Some (s\<lparr>trace := replicate n (Inb (COM1 + 5)) @ trace s\<rparr>)"
proof (induction k arbitrary: s)
  case 0
  then have "serial_wait dev s = Some (s\<lparr>trace := replicate 1 (Inb (COM1 + 5)) @ trace s\<rparr>)"
    by (subst serial_wait.simps) (simp add: inb_def access_def Let_def)
  then show ?case ..
next
  case (Suc k)
  let ?s = "s\<lparr>trace := Inb (COM1 + 5) # trace s\<rparr>"
  have e: "serial_wait dev s = (if ucast (dev (trace ?s)) AND (0x20 :: u8) \<noteq> 0 then Some ?s else serial_wait dev ?s)"
    by (subst serial_wait.simps) (simp add: inb_def access_def Let_def)
  have r: "replicate k x @ x # t = x # replicate k x @ t" for k and x :: access and t
    by (induction k) simp_all
  have "replicate (Suc k) (Inb (COM1 + 5)) @ trace ?s = replicate (Suc (Suc k)) (Inb (COM1 + 5)) @ trace s"
    by (simp add: r)
  then obtain n where n: "serial_wait dev ?s = Some (?s\<lparr>trace := replicate n (Inb (COM1 + 5)) @ trace ?s\<rparr>)"
    using Suc.IH [of ?s] Suc.prems by (auto simp: r)
  show ?case
  proof (cases "ucast (dev (trace ?s)) AND (0x20 :: u8) \<noteq> 0")
    case True
    then have "serial_wait dev s = Some (s\<lparr>trace := replicate 1 (Inb (COM1 + 5)) @ trace s\<rparr>)" using e by simp
    then show ?thesis ..
  next
    case False
    then have "serial_wait dev s = Some (s\<lparr>trace := replicate (Suc n) (Inb (COM1 + 5)) @ trace s\<rparr>)"
      using e n by (simp add: r)
    then show ?thesis ..
  qed
qed

text \<open>
  As long as the line keeps sending, writing a text to it ends, and the bytes given to the port are
  those of the text, in order, each when the port was ready.
\<close>

theorem serial_text_sent:
  assumes "line_alive dev"
  shows "\<exists>s'. serial_puts dev t s = Some s' \<and> sent (trace s') = sent (trace s) @ map of_char t"
proof (induction t arbitrary: s)
  case Nil
  then show ?case by simp
next
  case (Cons c t)
  obtain k where "ucast (dev (replicate (Suc k) (Inb (COM1 + 5)) @ trace s)) AND (0x20 :: u8) \<noteq> 0"
    using assms by (auto simp: line_alive_def)
  then obtain n where n: "serial_wait dev s = Some (s\<lparr>trace := replicate n (Inb (COM1 + 5)) @ trace s\<rparr>)"
    using serial_wait_ends by blast
  let ?s = "outb COM1 (of_char c) (s\<lparr>trace := replicate n (Inb (COM1 + 5)) @ trace s\<rparr>)"
  have "concat (map (\<lambda>a. case a of Outb p v \<Rightarrow> if p = COM1 then [v] else [] | _ \<Rightarrow> []) (replicate n (Inb (COM1 + 5)))) = []"
    by (induction n) simp_all
  then have "sent (trace ?s) = sent (trace s) @ [of_char c]"
    by (simp add: sent_def outb_def access_def)
  with Cons [of ?s] n show ?case by (auto simp: serial_putchar_def)
qed

lemma serial_text_sent_witness:
  "\<exists>s'. serial_puts (\<lambda>tr. if length tr mod 3 = 0 then 0x20 else 0) ''ok'' \<lparr>trace = [], slog = []\<rparr> = Some s' \<and>
     sent (trace s') = [0x6F, 0x6B]"
proof -
  have "line_alive (\<lambda>tr. if length tr mod 3 = 0 then 0x20 else 0)"
    unfolding line_alive_def
  proof
    fix tr :: "access list"
    have "length (replicate (Suc (2 + 2 * length tr)) (Inb (COM1 + 5)) @ tr) = 3 * (1 + length tr)" by simp
    then have "length (replicate (Suc (2 + 2 * length tr)) (Inb (COM1 + 5)) @ tr) mod 3 = 0" by (simp only: mod_mult_self1_is_0)
    then show "\<exists>k. ucast (if length (replicate (Suc k) (Inb (COM1 + 5)) @ tr) mod 3 = 0 then 0x20 else 0 :: u32) AND (0x20 :: u8) \<noteq> 0"
      by (intro exI [of _ "2 + 2 * length tr"]) simp
  qed
  from serial_text_sent [OF this, of "''ok''" "\<lparr>trace = [], slog = []\<rparr>"] show ?thesis by (auto simp: sent_def)
qed

end
