(* ===== verification/Gui_Fb.thy ===== *)
theory Gui_Fb
  imports Hw_Io Lib_Kprintf
begin

text \<open>
  The framebuffer driver, \<^verbatim>\<open>kernel/gui/fb.c\<close> and \<^verbatim>\<open>kernel/gui/fb.h\<close>. Drawing goes to the back
  buffer, an array of pixels by index, and a flush copies it to the card's memory, an array of
  bytes; both are functions on the integers, so that an access outside the buffer is visible as
  one. Without a back buffer (direct mode) pixels are the card's words. \<open>fb_set\<close> is that
  \<^verbatim>\<open>fb.pixels\<close> is not null. Coordinates are integers: the code's are 32-bit, which no picture of the
  kernel comes near. The record extends the one of port I/O, and \<^verbatim>\<open>fbterm\<close> and the console extend it.
\<close>

record fb = io +
  fb_set :: bool
  fb_back :: "int \<Rightarrow> u32"
  fb_hw :: "int \<Rightarrow> u8"
  fb_direct :: bool
  fb_width :: u32
  fb_height :: u32
  fb_pitch :: u32
  fb_bpp :: u8
  clip_x :: int
  clip_y :: int
  clip_w :: int
  clip_h :: int

definition RGB :: "u8 \<Rightarrow> u8 \<Rightarrow> u8 \<Rightarrow> u32" where
  "RGB r g b = push_bit 16 (ucast r) OR push_bit 8 (ucast g) OR ucast b"

text \<open>The screen's size as the code's signed integers.\<close>

definition sw :: "'a fb_scheme \<Rightarrow> int" where "sw s = sint (fb_width s)"
definition sh :: "'a fb_scheme \<Rightarrow> int" where "sh s = sint (fb_height s)"

section \<open>Memory\<close>

definition hw_word :: "int \<Rightarrow> u32 \<Rightarrow> 'a fb_scheme \<Rightarrow> 'a fb_scheme" where
  "hw_word a c s = s\<lparr>fb_hw := (fb_hw s)(a := ucast c, a + 1 := ucast (drop_bit 8 c), a + 2 := ucast (drop_bit 16 c),
     a + 3 := ucast (drop_bit 24 c))\<rparr>"

definition put_px :: "int \<Rightarrow> u32 \<Rightarrow> 'a fb_scheme \<Rightarrow> 'a fb_scheme" where
  "put_px i c s = (if fb_direct s then hw_word (4 * i) c s else s\<lparr>fb_back := (fb_back s)(i := c)\<rparr>)"

definition get_px :: "int \<Rightarrow> 'a fb_scheme \<Rightarrow> u32" where
  "get_px i s =
     (if fb_direct s
      then ucast (fb_hw s (4 * i)) OR push_bit 8 (ucast (fb_hw s (4 * i + 1))) OR push_bit 16 (ucast (fb_hw s (4 * i + 2))) OR
        push_bit 24 (ucast (fb_hw s (4 * i + 3)))
      else fb_back s i)"

definition fast_fill32 :: "int \<Rightarrow> u32 \<Rightarrow> nat \<Rightarrow> 'a fb_scheme \<Rightarrow> 'a fb_scheme" where
  "fast_fill32 dst val n s = for_loop 0 n (\<lambda>k. put_px (dst + int k) val) s"

text \<open>Copying words of the back buffer to the card, from a byte address on.\<close>

definition fast_copy32 :: "int \<Rightarrow> int \<Rightarrow> nat \<Rightarrow> 'a fb_scheme \<Rightarrow> 'a fb_scheme" where
  "fast_copy32 dst src n s = for_loop 0 n (\<lambda>k s. hw_word (dst + 4 * int k) (fb_back s (src + int k)) s) s"

section \<open>Setting up\<close>

definition fb_set_clip :: "int \<Rightarrow> int \<Rightarrow> int \<Rightarrow> int \<Rightarrow> 'a fb_scheme \<Rightarrow> 'a fb_scheme" where
  "fb_set_clip x y w h s = s\<lparr>clip_x := x, clip_y := y, clip_w := w, clip_h := h\<rparr>"

definition fb_reset_clip :: "'a fb_scheme \<Rightarrow> 'a fb_scheme" where
  "fb_reset_clip s = s\<lparr>clip_x := 0, clip_y := 0, clip_w := sw s, clip_h := sh s\<rparr>"

text \<open>
  \<open>grant\<close> is whether the heap has room for the back buffer. The result is whether it succeeded and
  the texts of the messages, which the caller prints: the terminal is built on this driver.
\<close>

definition fb_init :: "bool \<Rightarrow> u32 \<Rightarrow> u32 \<Rightarrow> u32 \<Rightarrow> u32 \<Rightarrow> u8 \<Rightarrow> 'a fb_scheme \<Rightarrow> bool \<times> u8 list \<times> 'a fb_scheme" where
  "fb_init grant addr width height pitch bpp s =
     (if addr = 0 \<or> width = 0 \<or> height = 0
      then (False, the (kprintf (lit ''[fb] ERROR: invalid framebuffer parameters'' @ [10]) []), s)
      else
        (let s = s\<lparr>fb_width := width, fb_height := height, fb_pitch := pitch, fb_bpp := bpp\<rparr>;
             (m, s) =
               (if \<not> grant
                then (the (kprintf (lit ''[fb] WARNING: back-buffer alloc failed '' @ lit em_dash @ lit '' direct mode'' @ [10]) []),
                      s\<lparr>fb_set := True, fb_direct := True\<rparr>)
                else ([], fast_fill32 0 0 (unat (width * height)) (s\<lparr>fb_set := True, fb_direct := False\<rparr>)));
             s = fb_reset_clip s
         in (True, m @ the (kprintf (lit ''[fb] %ux%u %ubpp at 0x%x'' @ [10]) [KInt width, KInt height, KInt (ucast bpp), KInt addr]), s)))"

section \<open>Flushing\<close>

definition fb_flush :: "'a fb_scheme \<Rightarrow> 'a fb_scheme" where
  "fb_flush s =
     (if fb_direct s then s
      else if fb_pitch s = fb_width s * 4 then fast_copy32 0 0 (unat (fb_width s * fb_height s)) s
      else for_loop 0 (unat (fb_height s))
             (\<lambda>y s. fast_copy32 (uint (of_nat y * fb_pitch s)) (uint (of_nat y * fb_width s)) (unat (fb_width s)) s) s)"

text \<open>One row of the rectangle, in either pixel format.\<close>

definition flush_row :: "int \<Rightarrow> int \<Rightarrow> int \<Rightarrow> 'a fb_scheme \<Rightarrow> 'a fb_scheme" where
  "flush_row x w row s =
     (let src = row * sw s + x
      in if fb_bpp s = 32 then fast_copy32 (row * uint (fb_pitch s) + 4 * x) src (nat w) s
         else if fb_bpp s = 24 then
           (let dst8 = row * uint (fb_pitch s) + x * 3
            in for_loop 0 (nat w) (\<lambda>k s. let c = fb_back s (src + int k)
                 in s\<lparr>fb_hw := (fb_hw s)(dst8 + int k * 3 := ucast (c AND 0xFF), dst8 + int k * 3 + 1 := ucast (drop_bit 8 c AND 0xFF),
                      dst8 + int k * 3 + 2 := ucast (drop_bit 16 c AND 0xFF))\<rparr>) s)
         else s)"

definition fb_flush_rect :: "int \<Rightarrow> int \<Rightarrow> int \<Rightarrow> int \<Rightarrow> 'a fb_scheme \<Rightarrow> 'a fb_scheme" where
  "fb_flush_rect x y w h s =
     (if fb_direct s then s
      else
        (let (x, w) = (if x < 0 then (0, w + x) else (x, w));
             (y, h) = (if y < 0 then (0, h + y) else (y, h));
             w = (if sw s < x + w then sw s - x else w);
             h = (if sh s < y + h then sh s - y else h)
         in if w \<le> 0 \<or> h \<le> 0 then s
            else for_loop 0 (nat h) (\<lambda>k. flush_row x w (y + int k)) s))"

section \<open>Drawing\<close>

definition fb_pixel :: "int \<Rightarrow> int \<Rightarrow> u32 \<Rightarrow> 'a fb_scheme \<Rightarrow> 'a fb_scheme" where
  "fb_pixel x y col s =
     (if x < clip_x s \<or> y < clip_y s \<or> clip_x s + clip_w s \<le> x \<or> clip_y s + clip_h s \<le> y then s
      else if x < 0 \<or> y < 0 \<or> uint (fb_width s) \<le> x \<or> uint (fb_height s) \<le> y then s
      else put_px (uint (of_int y * fb_width s + of_int x)) col s)"

definition fb_fill :: "u32 \<Rightarrow> 'a fb_scheme \<Rightarrow> 'a fb_scheme" where
  "fb_fill col s = fast_fill32 0 col (unat (fb_width s * fb_height s)) s"

definition fb_rect :: "int \<Rightarrow> int \<Rightarrow> int \<Rightarrow> int \<Rightarrow> u32 \<Rightarrow> 'a fb_scheme \<Rightarrow> 'a fb_scheme" where
  "fb_rect x y w h col s =
     (let x0 = x; y0 = y; x1 = x + w; y1 = y + h;
          x0 = (if x0 < clip_x s then clip_x s else x0);
          y0 = (if y0 < clip_y s then clip_y s else y0);
          x1 = (if clip_x s + clip_w s < x1 then clip_x s + clip_w s else x1);
          y1 = (if clip_y s + clip_h s < y1 then clip_y s + clip_h s else y1)
      in if x1 \<le> x0 \<or> y1 \<le> y0 then s
         else for_loop 0 (nat (y1 - y0)) (\<lambda>k s. fast_fill32 ((y0 + int k) * sw s + x0) col (nat (x1 - x0)) s) s)"

definition fb_hline :: "int \<Rightarrow> int \<Rightarrow> int \<Rightarrow> u32 \<Rightarrow> 'a fb_scheme \<Rightarrow> 'a fb_scheme" where
  "fb_hline x y w col s = fb_rect x y w 1 col s"

definition fb_vline :: "int \<Rightarrow> int \<Rightarrow> int \<Rightarrow> u32 \<Rightarrow> 'a fb_scheme \<Rightarrow> 'a fb_scheme" where
  "fb_vline x y h col s = fb_rect x y 1 h col s"

definition fb_rect_outline :: "int \<Rightarrow> int \<Rightarrow> int \<Rightarrow> int \<Rightarrow> u32 \<Rightarrow> int \<Rightarrow> 'a fb_scheme \<Rightarrow> 'a fb_scheme" where
  "fb_rect_outline x y w h col thick s =
     (let s = fb_rect x y w thick col s;
          s = fb_rect x (y + h - thick) w thick col s;
          s = fb_rect x y thick h col s
      in fb_rect (x + w - thick) y thick h col s)"

text \<open>The four mirrored pixels of a rounded corner.\<close>

definition corner_pixels :: "int \<Rightarrow> int \<Rightarrow> int \<Rightarrow> int \<Rightarrow> int \<Rightarrow> int \<Rightarrow> u32 \<Rightarrow> 'a fb_scheme \<Rightarrow> 'a fb_scheme" where
  "corner_pixels x y w h dx dy col s =
     fb_pixel (x + w - 1 - dx) (y + h - 1 - dy) col
       (fb_pixel (x + dx) (y + h - 1 - dy) col
         (fb_pixel (x + w - 1 - dx) (y + dy) col (fb_pixel (x + dx) (y + dy) col s)))"

definition fb_rect_round :: "int \<Rightarrow> int \<Rightarrow> int \<Rightarrow> int \<Rightarrow> int \<Rightarrow> u32 \<Rightarrow> 'a fb_scheme \<Rightarrow> 'a fb_scheme" where
  "fb_rect_round x y w h r col s =
     (if r \<le> 0 then fb_rect x y w h col s
      else
        (let s = fb_rect (x + r) y (w - 2 * r) h col s;
             s = fb_rect x (y + r) w (h - 2 * r) col s
         in for_loop 0 (nat r) (\<lambda>dy s. for_loop 0 (nat r) (\<lambda>dx s.
              if (int dx - r) * (int dx - r) + (int dy - r) * (int dy - r) \<le> r * r
              then corner_pixels x y w h (int dx) (int dy) col s else s) s) s))"

definition fb_rect_round_outline :: "int \<Rightarrow> int \<Rightarrow> int \<Rightarrow> int \<Rightarrow> int \<Rightarrow> u32 \<Rightarrow> int \<Rightarrow> 'a fb_scheme \<Rightarrow> 'a fb_scheme" where
  "fb_rect_round_outline x y w h r col thick s =
     (let s = fb_hline (x + r) y (w - 2 * r) col s;
          s = fb_hline (x + r) (y + h - 1) (w - 2 * r) col s;
          s = fb_vline x (y + r) (h - 2 * r) col s;
          s = fb_vline (x + w - 1) (y + r) (h - 2 * r) col s
      in for_loop 0 (nat r) (\<lambda>dy s. for_loop 0 (nat r) (\<lambda>dx s.
           let d2 = (int dx - r) * (int dx - r) + (int dy - r) * (int dy - r)
           in if d2 \<le> r * r \<and> (r - 2) * (r - 2) \<le> d2 then corner_pixels x y w h (int dx) (int dy) col s else s) s) s)"

text \<open>The loop of the line, for at most \<open>n\<close> pixels; \<open>None\<close> when it has not reached the end by then.\<close>

fun line_loop :: "nat \<Rightarrow> int \<Rightarrow> int \<Rightarrow> int \<Rightarrow> int \<Rightarrow> int \<Rightarrow> int \<Rightarrow> int \<Rightarrow> int \<Rightarrow> int \<Rightarrow> u32 \<Rightarrow> 'a fb_scheme \<Rightarrow> 'a fb_scheme option" where
  "line_loop 0 x0 y0 x1 y1 dx dy sx sy err col s = None"
| "line_loop (Suc n) x0 y0 x1 y1 dx dy sx sy err col s =
     (let s = fb_pixel x0 y0 col s
      in if x0 = x1 \<and> y0 = y1 then Some s
         else (let e2 = 2 * err;
                   (err, x0) = (if dy \<le> e2 then (err + dy, x0 + sx) else (err, x0));
                   (err, y0) = (if e2 \<le> dx then (err + dx, y0 + sy) else (err, y0))
               in line_loop n x0 y0 x1 y1 dx dy sx sy err col s))"

definition fb_line :: "nat \<Rightarrow> int \<Rightarrow> int \<Rightarrow> int \<Rightarrow> int \<Rightarrow> u32 \<Rightarrow> 'a fb_scheme \<Rightarrow> 'a fb_scheme option" where
  "fb_line n x0 y0 x1 y1 col s =
     (let dx = (if x0 < x1 then x1 - x0 else x0 - x1);
          dy = - (if y0 < y1 then y1 - y0 else y0 - y1);
          sx = (if x0 < x1 then 1 else - 1);
          sy = (if y0 < y1 then 1 else - 1)
      in line_loop n x0 y0 x1 y1 dx dy sx sy (dx + dy) col s)"

definition circle_points :: "int \<Rightarrow> int \<Rightarrow> int \<Rightarrow> int \<Rightarrow> u32 \<Rightarrow> bool \<Rightarrow> 'a fb_scheme \<Rightarrow> 'a fb_scheme" where
  "circle_points cx cy x y col filled s =
     (if filled
      then fb_hline (cx - y) (cy + x) (2 * y + 1) col (fb_hline (cx - y) (cy - x) (2 * y + 1) col
             (fb_hline (cx - x) (cy + y) (2 * x + 1) col (fb_hline (cx - x) (cy - y) (2 * x + 1) col s)))
      else fb_pixel (cx - y) (cy - x) col (fb_pixel (cx + y) (cy - x) col (fb_pixel (cx - y) (cy + x) col (fb_pixel (cx + y) (cy + x) col
             (fb_pixel (cx - x) (cy - y) col (fb_pixel (cx + x) (cy - y) col (fb_pixel (cx - x) (cy + y) col
               (fb_pixel (cx + x) (cy + y) col s))))))))"

function circle_loop :: "int \<Rightarrow> int \<Rightarrow> int \<Rightarrow> int \<Rightarrow> int \<Rightarrow> u32 \<Rightarrow> bool \<Rightarrow> 'a fb_scheme \<Rightarrow> 'a fb_scheme" where
  "circle_loop cx cy x y d col filled s =
     (if x \<le> y
      then (let s = circle_points cx cy x y col filled s
            in if d < 0 then circle_loop cx cy (x + 1) y (d + 4 * x + 6) col filled s
               else circle_loop cx cy (x + 1) (y - 1) (d + 4 * (x - y) + 10) col filled s)
      else s)"
  by pat_completeness auto
termination
  by (relation "measure (\<lambda>(cx, cy, x, y, d, col, filled, s). nat (y - x + 1))") auto

declare circle_loop.simps [simp del]

definition fb_circle :: "int \<Rightarrow> int \<Rightarrow> int \<Rightarrow> u32 \<Rightarrow> bool \<Rightarrow> 'a fb_scheme \<Rightarrow> 'a fb_scheme" where
  "fb_circle cx cy radius col filled s = circle_loop cx cy 0 radius (3 - 2 * radius) col filled s"

definition blend :: "u32 \<Rightarrow> u8 \<Rightarrow> u32 \<Rightarrow> u32" where
  "blend col alpha dst =
     (let sr = drop_bit 16 col AND 0xFF; sg = drop_bit 8 col AND 0xFF; sb = col AND 0xFF;
          dr = drop_bit 16 dst AND 0xFF; dg = drop_bit 8 dst AND 0xFF; db = dst AND 0xFF;
          a = ucast alpha; b = 255 - a
      in push_bit 16 (drop_bit 8 (sr * a + dr * b)) OR push_bit 8 (drop_bit 8 (sg * a + dg * b)) OR drop_bit 8 (sb * a + db * b))"

definition fb_rect_alpha :: "int \<Rightarrow> int \<Rightarrow> int \<Rightarrow> int \<Rightarrow> u32 \<Rightarrow> u8 \<Rightarrow> 'a fb_scheme \<Rightarrow> 'a fb_scheme" where
  "fb_rect_alpha x y w h col alpha s =
     (let x1 = x + w; y1 = y + h;
          x = (if x < clip_x s then clip_x s else x);
          y = (if y < clip_y s then clip_y s else y);
          x1 = (if clip_x s + clip_w s < x1 then clip_x s + clip_w s else x1);
          y1 = (if clip_y s + clip_h s < y1 then clip_y s + clip_h s else y1)
      in for_loop 0 (nat (y1 - y)) (\<lambda>r s. for_loop 0 (nat (x1 - x)) (\<lambda>c s.
           let i = (y + int r) * sw s + x + int c in put_px i (blend col alpha (get_px i s)) s) s) s)"

section \<open>Painting\<close>

text \<open>A step that changes pixels and nothing else: the back buffer, or in direct mode the card's memory.\<close>

definition paints :: "'a fb_scheme \<Rightarrow> 'a fb_scheme \<Rightarrow> bool" where
  "paints s s' \<longleftrightarrow> (if fb_direct s then \<exists>h. s' = s\<lparr>fb_hw := h\<rparr> else \<exists>b. s' = s\<lparr>fb_back := b\<rparr>)"

lemma paints_refl [simp]: "paints s s"
proof -
  have "s = s\<lparr>fb_hw := fb_hw s\<rparr>" "s = s\<lparr>fb_back := fb_back s\<rparr>" by simp_all
  then show ?thesis unfolding paints_def using exI [where P = "\<lambda>h. s = s\<lparr>fb_hw := h\<rparr>"] exI [where P = "\<lambda>b. s = s\<lparr>fb_back := b\<rparr>"]
    by (cases "fb_direct s") (simp_all only: if_True if_False)
qed

lemma paints_trans:
  assumes "paints s t" and "paints t u"
  shows "paints s u"
proof (cases "fb_direct s")
  case True
  then obtain h where h: "t = s\<lparr>fb_hw := h\<rparr>" using assms(1) by (auto simp: paints_def)
  then obtain h' where "u = t\<lparr>fb_hw := h'\<rparr>" using assms(2) True by (auto simp: paints_def)
  with h have "u = s\<lparr>fb_hw := h'\<rparr>" by simp
  with True show ?thesis unfolding paints_def by auto
next
  case False
  then obtain b where b: "t = s\<lparr>fb_back := b\<rparr>" using assms(1) by (auto simp: paints_def)
  then obtain b' where "u = t\<lparr>fb_back := b'\<rparr>" using assms(2) False by (auto simp: paints_def)
  with b have "u = s\<lparr>fb_back := b'\<rparr>" by simp
  with False show ?thesis unfolding paints_def by auto
qed

lemma paintsD:
  assumes "paints s t"
  shows "fb_set t = fb_set s" "fb_direct t = fb_direct s" "fb_width t = fb_width s" "fb_height t = fb_height s"
    "fb_pitch t = fb_pitch s" "fb_bpp t = fb_bpp s" "clip_x t = clip_x s" "clip_y t = clip_y s" "clip_w t = clip_w s"
    "clip_h t = clip_h s" "fb.more t = fb.more s" "trace t = trace s" "slog t = slog s" "sw t = sw s" "sh t = sh s"
    "\<not> fb_direct s \<Longrightarrow> fb_hw t = fb_hw s"
  using assms by (auto simp: paints_def sw_def sh_def split: if_splits)

text \<open>Painting the pixels of a map from indices to colours.\<close>

definition draws :: "(int \<Rightarrow> u32 option) \<Rightarrow> 'a fb_scheme \<Rightarrow> 'a fb_scheme \<Rightarrow> bool" where
  "draws m s s' \<longleftrightarrow> paints s s' \<and> (\<forall>j. get_px j s' = (case m j of None \<Rightarrow> get_px j s | Some c \<Rightarrow> c))"

lemma draws_paints: "draws m s t \<Longrightarrow> paints s t" by (simp add: draws_def)

lemma draws_get: "draws m s t \<Longrightarrow> get_px j t = (case m j of None \<Rightarrow> get_px j s | Some c \<Rightarrow> c)"
  by (simp add: draws_def)

lemma draws_refl: "draws Map.empty s s" by (simp add: draws_def)

lemma draws_trans: "draws m s t \<Longrightarrow> draws n t u \<Longrightarrow> draws (m ++ n) s u"
  by (auto simp: draws_def map_add_def split: option.split intro: paints_trans)

lemma draws_cong: "draws m s t \<Longrightarrow> (\<And>j. m j = n j) \<Longrightarrow> draws n s t"
  by (simp add: draws_def)

lemma word_of_bytes:
  "ucast (ucast (c :: u32) :: u8) OR push_bit 8 (ucast (ucast (drop_bit 8 c) :: u8)) OR push_bit 16 (ucast (ucast (drop_bit 16 c) :: u8)) OR
     push_bit 24 (ucast (ucast (drop_bit 24 c) :: u8)) = c"
proof (rule bit_word_eqI)
  fix n assume n: "n < LENGTH(32)"
  then consider "n < 8" | "8 \<le> n" "n < 16" "n - 8 < 8" | "16 \<le> n" "n < 24" "n - 16 < 8" | "24 \<le> n" "n < 32" "n - 24 < 8"
    by fastforce
  then show "bit (ucast (ucast c :: u8) OR push_bit 8 (ucast (ucast (drop_bit 8 c) :: u8)) OR push_bit 16 (ucast (ucast (drop_bit 16 c) :: u8)) OR
     push_bit 24 (ucast (ucast (drop_bit 24 c) :: u8)) :: u32) n = bit c n"
  proof cases
    case 1
    then show ?thesis by (simp add: bit_simps)
  next
    case 2
    then show ?thesis by (simp add: bit_simps)
  next
    case 3
    then have "\<not> n - 8 < 8" by arith
    with 3 show ?thesis by (simp add: bit_simps)
  next
    case 4
    then have "\<not> n - 8 < 8" "\<not> n - 16 < 8" by arith+
    with 4 show ?thesis by (simp add: bit_simps)
  qed
qed

lemma get_put_px: "get_px j (put_px i c s) = (if j = i then c else get_px j s)"
proof (cases "fb_direct s")
  case True
  have "4 * j \<noteq> 4 * i + 1 \<and> 4 * j \<noteq> 4 * i + 2 \<and> 4 * j \<noteq> 4 * i + 3 \<and> 4 * j + 1 \<noteq> 4 * i \<and> 4 * j + 1 \<noteq> 4 * i + 2 \<and>
     4 * j + 1 \<noteq> 4 * i + 3 \<and> 4 * j + 2 \<noteq> 4 * i \<and> 4 * j + 2 \<noteq> 4 * i + 1 \<and> 4 * j + 2 \<noteq> 4 * i + 3 \<and> 4 * j + 3 \<noteq> 4 * i \<and>
     4 * j + 3 \<noteq> 4 * i + 1 \<and> 4 * j + 3 \<noteq> 4 * i + 2"
    by presburger
  with True show ?thesis by (simp add: get_px_def put_px_def hw_word_def word_of_bytes)
next
  case False
  then show ?thesis by (simp add: get_px_def put_px_def)
qed

lemma put_px_paints: "paints s (put_px i c s)"
  unfolding paints_def put_px_def hw_word_def by auto

lemma put_px_draws: "draws [i \<mapsto> c] s (put_px i c s)"
  by (simp add: draws_def put_px_paints get_put_px)

text \<open>A loop whose passes paint one after the other what a map gives up to each pass.\<close>

lemma draws_loop:
  assumes "a \<le> b" and "\<And>j. m a j = None"
    and "\<And>i t. a \<le> i \<Longrightarrow> i < b \<Longrightarrow> paints s t \<Longrightarrow> \<exists>n. draws n t (f i t) \<and> (\<forall>j. m (Suc i) j = (m i ++ n) j)"
  shows "draws (m b) s (for_loop a b f s)"
proof (rule for_loop_invariant [where P = "\<lambda>i t. draws (m i) s t"])
  show "draws (m a) s s" by (rule draws_cong [OF draws_refl]) (simp add: assms(2))
  fix i t assume i: "a \<le> i" "i < b" and d: "draws (m i) s t"
  obtain n where n: "draws n t (f i t)" "\<forall>j. m (Suc i) j = (m i ++ n) j"
    using assms(3) [OF i draws_paints [OF d]] by blast
  show "draws (m (Suc i)) s (f i t)"
    by (rule draws_cong [OF draws_trans [OF d n(1)]]) (simp add: n(2))
qed (rule assms(1))

text \<open>The same colour everywhere: the regions of the passes add up.\<close>

definition paint_map :: "(int \<Rightarrow> bool) \<Rightarrow> u32 \<Rightarrow> int \<Rightarrow> u32 option" where
  "paint_map A c j = (if A j then Some c else None)"

lemma paint_map_none [simp]: "paint_map (\<lambda>j. False) c = Map.empty" by (rule ext) (simp add: paint_map_def)

text \<open>The passes of a loop paint their regions of one picture.\<close>

lemma draws_pieces:
  assumes "\<And>i t. a \<le> i \<Longrightarrow> i < b \<Longrightarrow> paints s t \<Longrightarrow> draws (\<lambda>j. if A i j then g j else None) t (f i t)"
  shows "draws (\<lambda>j. if \<exists>i. a \<le> i \<and> i < b \<and> A i j then g j else None) s (for_loop a b f s)"
proof (cases "a \<le> b")
  case True
  show ?thesis
  proof (rule draws_loop [where m = "\<lambda>k j. if \<exists>i. a \<le> i \<and> i < k \<and> A i j then g j else None", OF True])
    fix i t assume i: "a \<le> i" "i < b" and t: "paints s t"
    have "(\<exists>k. a \<le> k \<and> k < Suc i \<and> A k j) \<longleftrightarrow> (\<exists>k. a \<le> k \<and> k < i \<and> A k j) \<or> A i j" for j
      using i by (auto simp: less_Suc_eq)
    then have "(if \<exists>k. a \<le> k \<and> k < Suc i \<and> A k j then g j else None) =
        ((\<lambda>j. if \<exists>k. a \<le> k \<and> k < i \<and> A k j then g j else None) ++ (\<lambda>j. if A i j then g j else None)) j" for j
      by (cases "A i j"; cases "g j") (simp_all add: map_add_def)
    with assms [OF i t] show "\<exists>n. draws n t (f i t) \<and> (\<forall>j. (if \<exists>k. a \<le> k \<and> k < Suc i \<and> A k j then g j else None) =
        ((\<lambda>j. if \<exists>k. a \<le> k \<and> k < i \<and> A k j then g j else None) ++ n) j)"
      by blast
  qed auto
next
  case False
  then have e: "for_loop a b f s = s" "\<And>j. \<not> (\<exists>i. a \<le> i \<and> i < b \<and> A i j)" by auto
  show ?thesis unfolding e(1) by (rule draws_cong [OF draws_refl]) (use e(2) in auto)
qed

lemma draws_region_loop:
  assumes "\<And>i t. a \<le> i \<Longrightarrow> i < b \<Longrightarrow> paints s t \<Longrightarrow> draws (paint_map (A i) c) t (f i t)"
  shows "draws (paint_map (\<lambda>j. \<exists>i. a \<le> i \<and> i < b \<and> A i j) c) s (for_loop a b f s)"
  using draws_pieces [where g = "\<lambda>_. Some c", of a b s A f] assms unfolding paint_map_def by blast

lemma fast_fill32_draws: "draws (paint_map (\<lambda>j. dst \<le> j \<and> j < dst + int n) c) s (fast_fill32 dst c n s)"
proof -
  have "draws (paint_map (\<lambda>j. \<exists>k. 0 \<le> k \<and> k < n \<and> j = dst + int k) c) s (fast_fill32 dst c n s)"
    unfolding fast_fill32_def
  proof (rule draws_region_loop)
    fix k and t :: "'a fb_scheme"
    show "draws (paint_map (\<lambda>j. j = dst + int k) c) t (put_px (dst + int k) c t)"
      by (rule draws_cong [OF put_px_draws]) (simp add: paint_map_def)
  qed
  moreover have "(\<exists>k. 0 \<le> k \<and> k < n \<and> j = dst + int k) \<longleftrightarrow> dst \<le> j \<and> j < dst + int n" for j
    by (auto intro: exI [of _ "nat (j - dst)"])
  ultimately show ?thesis by (auto intro: draws_cong simp: paint_map_def)
qed

section \<open>Drawing stays inside the clip\<close>

text \<open>
  A screen whose size fits the machine and whose clip lies inside it, as \<^verbatim>\<open>fb_reset_clip\<close> leaves
  it. \<^verbatim>\<open>fb_set_clip\<close> does not check its arguments.
\<close>

definition fb_ok :: "'a fb_scheme \<Rightarrow> bool" where
  "fb_ok s \<longleftrightarrow> 0 < sw s \<and> 0 < sh s \<and> sw s * sh s < 2 ^ 32 \<and> 0 \<le> clip_x s \<and> 0 \<le> clip_y s \<and>
     clip_x s + clip_w s \<le> sw s \<and> clip_y s + clip_h s \<le> sh s"

definition in_clip :: "'a fb_scheme \<Rightarrow> int \<Rightarrow> int \<Rightarrow> bool" where
  "in_clip s px py \<longleftrightarrow> clip_x s \<le> px \<and> px < clip_x s + clip_w s \<and> clip_y s \<le> py \<and> py < clip_y s + clip_h s"

lemma fb_ok_paints: "paints s t \<Longrightarrow> fb_ok t = fb_ok s" by (simp add: fb_ok_def paintsD)

lemma in_clip_paints: "paints s t \<Longrightarrow> in_clip t = in_clip s" by (intro ext) (simp add: in_clip_def paintsD)

lemma div_mod_row: "0 < (w :: int) \<Longrightarrow> 0 \<le> px \<Longrightarrow> px < w \<Longrightarrow> (py * w + px) div w = py \<and> (py * w + px) mod w = px"
  by simp

lemma pixel_index: "0 < (w :: int) \<Longrightarrow> 0 \<le> px \<Longrightarrow> px < w \<Longrightarrow> j = py * w + px \<longleftrightarrow> j div w = py \<and> j mod w = px"
  using div_mod_row [of w px py] div_mult_mod_eq [of j w] by metis

lemma row_span:
  assumes "0 < (w :: int)" "0 \<le> a" "b \<le> w"
  shows "r * w + a \<le> j \<and> j < r * w + b \<longleftrightarrow> j div w = r \<and> a \<le> j mod w \<and> j mod w < b"
proof
  assume j: "r * w + a \<le> j \<and> j < r * w + b"
  then have "(r * w + (j - r * w)) div w = r \<and> (r * w + (j - r * w)) mod w = j - r * w"
    using assms by (intro div_mod_row) auto
  with j show "j div w = r \<and> a \<le> j mod w \<and> j mod w < b" by auto
next
  assume j: "j div w = r \<and> a \<le> j mod w \<and> j mod w < b"
  then have "j = r * w + j mod w" by (metis div_mult_mod_eq)
  with j show "r * w + a \<le> j \<and> j < r * w + b" by linarith
qed

text \<open>The pixels of a rectangle, by their index.\<close>

definition rect_at :: "int \<Rightarrow> int \<Rightarrow> int \<Rightarrow> int \<Rightarrow> int \<Rightarrow> int \<Rightarrow> bool" where
  "rect_at w x0 y0 x1 y1 j \<longleftrightarrow> x0 \<le> j mod w \<and> j mod w < x1 \<and> y0 \<le> j div w \<and> j div w < y1"

lemma fill_rows_draws:
  assumes "0 < sw s" "0 \<le> x0" "x1 \<le> sw s"
  shows "draws (paint_map (rect_at (sw s) x0 y0 x1 y1) c) s
    (for_loop 0 (nat (y1 - y0)) (\<lambda>k s. fast_fill32 ((y0 + int k) * sw s + x0) c (nat (x1 - x0)) s) s)"
proof -
  let ?A = "\<lambda>k j. j div sw s = y0 + int k \<and> x0 \<le> j mod sw s \<and> j mod sw s < x1"
  have "draws (paint_map (\<lambda>j. \<exists>k. 0 \<le> k \<and> k < nat (y1 - y0) \<and> ?A k j) c) s
    (for_loop 0 (nat (y1 - y0)) (\<lambda>k s. fast_fill32 ((y0 + int k) * sw s + x0) c (nat (x1 - x0)) s) s)"
  proof (rule draws_region_loop)
    fix k t assume t: "paints s t"
    have "(y0 + int k) * sw s + x0 \<le> j \<and> j < (y0 + int k) * sw s + x0 + int (nat (x1 - x0)) \<longleftrightarrow> ?A k j" for j
      using row_span [OF assms, of "y0 + int k" j] by auto
    then show "draws (paint_map (?A k) c) t (fast_fill32 ((y0 + int k) * sw t + x0) c (nat (x1 - x0)) t)"
      unfolding paintsD(14) [OF t] by (intro draws_cong [OF fast_fill32_draws]) (auto simp: paint_map_def)
  qed
  moreover have "(\<exists>k. 0 \<le> k \<and> k < nat (y1 - y0) \<and> ?A k j) \<longleftrightarrow> rect_at (sw s) x0 y0 x1 y1 j" for j
    by (auto simp: rect_at_def intro: exI [of _ "nat (j div sw s - y0)"])
  ultimately show ?thesis by (auto intro: draws_cong simp: paint_map_def)
qed

lemma fb_rect_draws:
  assumes "fb_ok s"
  shows "draws (paint_map (\<lambda>j. rect_at (sw s) x y (x + w) (y + h) j \<and> in_clip s (j mod sw s) (j div sw s)) col) s
    (fb_rect x y w h col s)"
proof -
  define x0 where "x0 = max x (clip_x s)"
  define y0 where "y0 = max y (clip_y s)"
  define x1 where "x1 = min (x + w) (clip_x s + clip_w s)"
  define y1 where "y1 = min (y + h) (clip_y s + clip_h s)"
  have r: "fb_rect x y w h col s = (if x1 \<le> x0 \<or> y1 \<le> y0 then s
      else for_loop 0 (nat (y1 - y0)) (\<lambda>k s. fast_fill32 ((y0 + int k) * sw s + x0) col (nat (x1 - x0)) s) s)"
    unfolding fb_rect_def x0_def y0_def x1_def y1_def by (simp add: Let_def max_def min_def)
  have A: "rect_at (sw s) x y (x + w) (y + h) j \<and> in_clip s (j mod sw s) (j div sw s) \<longleftrightarrow> rect_at (sw s) x0 y0 x1 y1 j" for j
    unfolding rect_at_def in_clip_def x0_def y0_def x1_def y1_def by auto
  show ?thesis
  proof (cases "x1 \<le> x0 \<or> y1 \<le> y0")
    case True
    then have "\<not> rect_at (sw s) x0 y0 x1 y1 j" for j by (auto simp: rect_at_def)
    with True show ?thesis unfolding A r by (simp add: draws_refl)
  next
    case False
    have "0 < sw s" "0 \<le> x0" "x1 \<le> sw s" using assms by (auto simp: fb_ok_def x0_def x1_def)
    then show ?thesis unfolding A r if_not_P [OF False] by (rule fill_rows_draws)
  qed
qed

lemma sint_positive: "0 < sint (w :: u32) \<Longrightarrow> uint w = sint w"
proof -
  assume "0 < sint w"
  moreover have "uint w < 2 ^ LENGTH(32)" by (rule unsigned_less)
  ultimately show ?thesis by (simp add: sint_cases split: if_splits)
qed

lemma fb_pixel_draws:
  assumes "fb_ok s"
  shows "draws (paint_map (\<lambda>j. j = y * sw s + x \<and> in_clip s x y) col) s (fb_pixel x y col s)"
proof (cases "in_clip s x y")
  case True
  have ok: "0 < sw s" "0 < sh s" "sw s * sh s < 2 ^ 32" "0 \<le> x" "x < sw s" "0 \<le> y" "y < sh s"
    using assms True by (auto simp: fb_ok_def in_clip_def)
  have w: "uint (fb_width s) = sw s" "uint (fb_height s) = sh s"
    using sint_positive ok(1, 2) unfolding sw_def sh_def by blast+
  have b: "y * sw s + x < 2 ^ 32"
  proof -
    have "y * sw s + x < (y + 1) * sw s" using ok(5) by (simp add: distrib_right)
    also have "\<dots> \<le> sh s * sw s" using ok(1, 7) by (intro mult_right_mono) simp_all
    finally show ?thesis using ok(3) by (simp add: mult.commute)
  qed
  have "fb_width s = word_of_int (sw s)" using w(1) by (metis word_of_int_uint)
  then have k: "of_int y * fb_width s + of_int x = word_of_int (y * sw s + x)" by simp
  have "take_bit 32 (y * sw s + x) = y * sw s + x" using ok b by (intro take_bit_int_eq_self) simp_all
  then have "uint (of_int y * fb_width s + of_int x) = y * sw s + x" unfolding k uint_word_of_int_eq by simp
  then have "fb_pixel x y col s = put_px (y * sw s + x) col s"
    using True ok w by (simp add: fb_pixel_def in_clip_def)
  then show ?thesis using put_px_draws [of "y * sw s + x" col s] True
    by (auto intro: draws_cong simp: paint_map_def)
next
  case False
  then have "fb_pixel x y col s = s" by (auto simp: fb_pixel_def in_clip_def)
  with False show ?thesis using draws_refl [of s] by (simp add: paint_map_def)
qed

text \<open>
  A filled rectangle paints exactly its pixels that lie in the clip: on a screen whose clip is
  inside it, the pixel at \<open>(px, py)\<close> has the colour if it is in the rectangle and in the clip, and
  is unchanged otherwise. \<open>py\<close> is any integer, so every index of the buffer is covered, and
  nothing outside the screen is written.
\<close>

theorem fb_rect_paints:
  assumes "fb_ok s" and "0 \<le> px" and "px < sw s"
  shows "get_px (py * sw s + px) (fb_rect x y w h col s) =
    (if x \<le> px \<and> px < x + w \<and> y \<le> py \<and> py < y + h \<and> in_clip s px py then col else get_px (py * sw s + px) s)"
proof -
  have "0 < sw s" using assms(1) by (simp add: fb_ok_def)
  from div_mod_row [OF this assms(2, 3), of py] show ?thesis
    using draws_get [OF fb_rect_draws [OF assms(1), of x y w h col], of "py * sw s + px"]
    by (simp add: paint_map_def rect_at_def)
qed

text \<open>A small screen.\<close>

definition small_fb :: fb where
  "small_fb = \<lparr>trace = [], slog = [], fb_set = True, fb_back = (\<lambda>_. 0), fb_hw = (\<lambda>_. 0), fb_direct = False, fb_width = 64,
     fb_height = 48, fb_pitch = 256, fb_bpp = 32, clip_x = 0, clip_y = 0, clip_w = 64, clip_h = 48\<rparr>"

lemma small_fb_simps:
  "fb_ok small_fb" "sw small_fb = 64" "sh small_fb = 48" "fb_direct small_fb = False" "fb_bpp small_fb = 32" "fb_pitch small_fb = 256"
  by (simp_all add: fb_ok_def small_fb_def sw_def sh_def sint_cases)

lemma fb_rect_paints_witness:
  "get_px (- 1) (fb_rect (- 5) (- 5) 20 20 7 small_fb) = 0 \<and> get_px (3 * 64 + 4) (fb_rect (- 5) (- 5) 20 20 7 small_fb) = 7"
proof -
  have c: "in_clip small_fb 4 3" "\<not> in_clip small_fb 63 (- 1)" by (simp_all add: in_clip_def small_fb_def)
  have z: "get_px j small_fb = 0" for j by (simp add: get_px_def small_fb_def)
  show ?thesis
    using fb_rect_paints [OF small_fb_simps(1), of 63 "- 1" "- 5" "- 5" 20 20 7]
      fb_rect_paints [OF small_fb_simps(1), of 4 3 "- 5" "- 5" 20 20 7] c z small_fb_simps(2)
    by simp
qed

section \<open>Lines\<close>

definition between :: "int \<Rightarrow> int \<Rightarrow> int \<Rightarrow> bool" where
  "between a b z \<longleftrightarrow> min a b \<le> z \<and> z \<le> max a b"

text \<open>A part of a line from one point to another: only pixels of their box, both ends if visible.\<close>

definition line_map :: "'a fb_scheme \<Rightarrow> int \<Rightarrow> int \<Rightarrow> int \<Rightarrow> int \<Rightarrow> (int \<Rightarrow> bool) \<Rightarrow> bool" where
  "line_map s xa ya xb yb B \<longleftrightarrow>
     (\<forall>j. B j \<longrightarrow> (\<exists>px py. j = py * sw s + px \<and> in_clip s px py \<and> between xa xb px \<and> between ya yb py)) \<and>
     (in_clip s xa ya \<longrightarrow> B (ya * sw s + xa)) \<and> (in_clip s xb yb \<longrightarrow> B (yb * sw s + xb))"

lemma line_map_point: "line_map s xa ya xa ya (\<lambda>j. j = ya * sw s + xa \<and> in_clip s xa ya)"
  by (auto simp: line_map_def between_def)

lemma line_map_step:
  assumes "line_map s x' y' xb yb B" and "between xa xb x'" and "between ya yb y'"
  shows "line_map s xa ya xb yb (\<lambda>j. B j \<or> j = ya * sw s + xa \<and> in_clip s xa ya)"
proof -
  have b: "between xa xb px" if "between x' xb px" for px using that assms(2) by (auto simp: between_def)
  have c: "between ya yb py" if "between y' yb py" for py using that assms(3) by (auto simp: between_def)
  have d: "between xa xb xa" "between ya yb ya" by (simp_all add: between_def)
  from assms(1) show ?thesis unfolding line_map_def using b c d by blast
qed

lemma line_map_paints: "paints s t \<Longrightarrow> line_map t = line_map s"
  by (intro ext) (simp add: line_map_def paintsD in_clip_paints)

lemma sign_between:
  assumes "s = 1 \<or> s = - 1" "0 \<le> i" "i \<le> i'" "i' \<le> d"
  shows "between (x + s * i) (x + s * d) (x + s * (i' :: int))"
  using assms by (auto simp: between_def)

text \<open>
  The error term after \<open>i\<close> steps along x and \<open>j\<close> along y is \<open>(1 + j) * dx - (1 + i) * dy\<close>: so
  neither coordinate passes its end, and every pass makes a step.
\<close>

lemma line_step_bounds:
  assumes "0 \<le> i" "i \<le> dx" "0 \<le> j" "j \<le> ady" "\<not> (i = dx \<and> j = ady)" "err = (1 + j) * dx - (1 + i) * (ady :: int)"
  shows "- ady \<le> 2 * err \<longrightarrow> i < dx" and "2 * err \<le> dx \<longrightarrow> j < ady" and "- ady \<le> 2 * err \<or> 2 * err \<le> dx"
proof -
  show "- ady \<le> 2 * err \<longrightarrow> i < dx"
  proof (rule impI, rule ccontr)
    assume e: "- ady \<le> 2 * err" and "\<not> i < dx"
    with assms have i: "i = dx" "1 + j \<le> ady" by auto
    have "(1 + j) * dx \<le> ady * dx" using i assms by (intro mult_right_mono) auto
    moreover have "(1 + i) * ady = ady + ady * dx" using i(1) by (simp add: algebra_simps)
    ultimately have "err \<le> - ady" using assms(6) by linarith
    with e i assms show False by linarith
  qed
  show "2 * err \<le> dx \<longrightarrow> j < ady"
  proof (rule impI, rule ccontr)
    assume e: "2 * err \<le> dx" and "\<not> j < ady"
    with assms have j: "j = ady" "1 + i \<le> dx" by auto
    have "(1 + i) * ady \<le> dx * ady" using j assms by (intro mult_right_mono) auto
    moreover have "(1 + j) * dx = dx + dx * ady" using j(1) by (simp add: algebra_simps)
    ultimately have "dx \<le> err" using assms(6) by linarith
    with e j assms show False by linarith
  qed
  show "- ady \<le> 2 * err \<or> 2 * err \<le> dx" using assms by linarith
qed

lemma line_loop_ends:
  assumes "fb_ok s" "0 \<le> i" "i \<le> dx" "0 \<le> j" "j \<le> ady" "sx = 1 \<or> sx = - 1" "sy = 1 \<or> sy = - 1"
    and "nat (dx - i + (ady - j)) < n"
  shows "\<exists>s' B. line_loop n (x + sx * i) (y + sy * j) (x + sx * dx) (y + sy * ady) dx (- ady) sx sy ((1 + j) * dx - (1 + i) * ady) col s = Some s' \<and>
    draws (paint_map B col) s s' \<and> line_map s (x + sx * i) (y + sy * j) (x + sx * dx) (y + sy * ady) B"
  using assms
proof (induction n arbitrary: i j s)
  case 0
  then show ?case by simp
next
  case (Suc n)
  let ?t = "fb_pixel (x + sx * i) (y + sy * j) col s"
  let ?P = "\<lambda>k. k = (y + sy * j) * sw s + (x + sx * i) \<and> in_clip s (x + sx * i) (y + sy * j)"
  have d: "draws (paint_map ?P col) s ?t" using Suc.prems(1) by (rule fb_pixel_draws)
  have e: "x + sx * i = x + sx * dx \<and> y + sy * j = y + sy * ady \<longleftrightarrow> i = dx \<and> j = ady" using Suc.prems(6, 7) by auto
  show ?case
  proof (cases "i = dx \<and> j = ady")
    case True
    then have "line_map s (x + sx * i) (y + sy * j) (x + sx * dx) (y + sy * ady) ?P" using line_map_point by auto
    moreover have "line_loop (Suc n) (x + sx * i) (y + sy * j) (x + sx * dx) (y + sy * ady) dx (- ady) sx sy ((1 + j) * dx - (1 + i) * ady) col s = Some ?t"
      using True by simp
    ultimately show ?thesis using d by blast
  next
    case False
    define err where "err = (1 + j) * dx - (1 + i) * ady"
    define i' where "i' = (if - ady \<le> 2 * err then i + 1 else i)"
    define j' where "j' = (if 2 * err \<le> dx then j + 1 else j)"
    note b = line_step_bounds [OF Suc.prems(2-5) False err_def]
    have ij: "0 \<le> i'" "i \<le> i'" "i' \<le> dx" "0 \<le> j'" "j \<le> j'" "j' \<le> ady" "i + j < i' + j'"
      using b Suc.prems by (auto simp: i'_def j'_def)
    have st: "line_loop (Suc n) (x + sx * i) (y + sy * j) (x + sx * dx) (y + sy * ady) dx (- ady) sx sy err col s =
        line_loop n (x + sx * i') (y + sy * j') (x + sx * dx) (y + sy * ady) dx (- ady) sx sy ((1 + j') * dx - (1 + i') * ady) col ?t"
    proof -
      have xs: "x + sx * i' = (if - ady \<le> 2 * err then x + sx * i + sx else x + sx * i)"
        "y + sy * j' = (if 2 * err \<le> dx then y + sy * j + sy else y + sy * j)"
        by (simp_all add: i'_def j'_def distrib_left)
      have "(1 + j') * dx - (1 + i') * ady = err + (i' - i) * - ady + (j' - j) * dx" by (simp add: err_def algebra_simps)
      then have es: "(1 + j') * dx - (1 + i') * ady =
          (if 2 * err \<le> dx then (if - ady \<le> 2 * err then err + - ady else err) + dx else if - ady \<le> 2 * err then err + - ady else err)"
        by (simp add: i'_def j'_def)
      show ?thesis unfolding line_loop.simps(2) Let_def e xs es using False
        by (cases "- ady \<le> 2 * err"; cases "2 * err \<le> dx") (simp_all only: if_True if_False case_prod_conv)
    qed
    have ok: "fb_ok ?t" using Suc.prems(1) fb_ok_paints [OF draws_paints [OF d]] by simp
    have n: "nat (dx - i' + (ady - j')) < n" using Suc.prems ij by linarith
    obtain s' B where r: "line_loop n (x + sx * i') (y + sy * j') (x + sx * dx) (y + sy * ady) dx (- ady) sx sy ((1 + j') * dx - (1 + i') * ady) col ?t = Some s'"
      "draws (paint_map B col) ?t s'" "line_map ?t (x + sx * i') (y + sy * j') (x + sx * dx) (y + sy * ady) B"
      using Suc.IH [OF ok ij(1, 3, 4, 6) Suc.prems(6, 7) n] by blast
    have "draws (paint_map (\<lambda>k. B k \<or> ?P k) col) s s'"
      by (rule draws_cong [OF draws_trans [OF d r(2)]]) (auto simp: paint_map_def map_add_def)
    moreover have "line_map s (x + sx * i) (y + sy * j) (x + sx * dx) (y + sy * ady) (\<lambda>k. B k \<or> ?P k)"
      using line_map_step [of s "x + sx * i'" "y + sy * j'" "x + sx * dx" "y + sy * ady" B "x + sx * i" "y + sy * j"]
        r(3) sign_between Suc.prems ij unfolding line_map_paints [OF draws_paints [OF d]] by blast
    ultimately show ?thesis using st r(1) unfolding err_def by auto
  qed
qed

text \<open>
  Drawing a line ends: \<open>|x1 - x0| + |y1 - y0| + 1\<close> passes are enough, whatever the ends. What it
  has painted then are pixels of the box between the ends that lie in the clip, both ends among them
  when they do.
\<close>

theorem fb_line_ends:
  assumes "fb_ok s" and "nat (\<bar>x1 - x0\<bar> + \<bar>y1 - y0\<bar>) < n"
  shows "\<exists>s' B. fb_line n x0 y0 x1 y1 col s = Some s' \<and> draws (paint_map B col) s s' \<and> line_map s x0 y0 x1 y1 B"
proof -
  let ?dx = "if x0 < x1 then x1 - x0 else x0 - x1" and ?dy = "if y0 < y1 then y1 - y0 else y0 - y1"
  let ?sx = "if x0 < x1 then 1 else - 1 :: int" and ?sy = "if y0 < y1 then 1 else - 1 :: int"
  have "?dx = \<bar>x1 - x0\<bar>" "?dy = \<bar>y1 - y0\<bar>" by simp_all
  then have "nat (?dx - 0 + (?dy - 0)) < n" using assms(2) by (simp only: diff_zero)
  moreover have "x0 + ?sx * ?dx = x1" "y0 + ?sy * ?dy = y1" by simp_all
  ultimately show ?thesis
    using line_loop_ends [OF assms(1), where i = 0 and j = 0 and dx = ?dx and ady = ?dy and sx = ?sx and sy = ?sy and n = n and x = x0 and y = y0 and col = col]
    by (simp add: fb_line_def Let_def split del: if_split) (simp split: if_splits)
qed

lemma fb_line_ends_witness:
  "\<exists>s' B. fb_line 100 3 40 60 2 7 small_fb = Some s' \<and> draws (paint_map B 7) small_fb s' \<and> line_map small_fb 3 40 60 2 B"
  by (rule fb_line_ends) (simp_all add: small_fb_simps)

section \<open>Flushing a rectangle\<close>

lemma hw_word_read:
  assumes "a mod 4 = (b :: int) mod 4 \<or> a + 4 \<le> b \<or> b + 4 \<le> a"
  shows "ucast (fb_hw (hw_word b c s) a) OR push_bit 8 (ucast (fb_hw (hw_word b c s) (a + 1))) OR
      push_bit 16 (ucast (fb_hw (hw_word b c s) (a + 2))) OR push_bit 24 (ucast (fb_hw (hw_word b c s) (a + 3))) =
    (if a = b then c else ucast (fb_hw s a) OR push_bit 8 (ucast (fb_hw s (a + 1))) OR
      push_bit 16 (ucast (fb_hw s (a + 2))) OR push_bit 24 (ucast (fb_hw s (a + 3))))"
proof (cases "a = b")
  case True
  then show ?thesis by (simp add: hw_word_def word_of_bytes)
next
  case False
  then have "a + 4 \<le> b \<or> b + 4 \<le> a" using assms by presburger
  then have "a + i \<noteq> b + j" if "0 \<le> i" "i < 4" "0 \<le> j" "j < 4" for i j using that by arith
  from this [of 0 0] this [of 1 0] this [of 2 0] this [of 3 0] this [of 0 1] this [of 1 1] this [of 2 1] this [of 3 1]
    this [of 0 2] this [of 1 2] this [of 2 2] this [of 3 2] this [of 0 3] this [of 1 3] this [of 2 3] this [of 3 3] False
  show ?thesis by (simp add: hw_word_def)
qed

text \<open>The word at a byte address of the card.\<close>

definition hw_at :: "'a fb_scheme \<Rightarrow> int \<Rightarrow> u32" where
  "hw_at s a = ucast (fb_hw s a) OR push_bit 8 (ucast (fb_hw s (a + 1))) OR push_bit 16 (ucast (fb_hw s (a + 2))) OR
     push_bit 24 (ucast (fb_hw s (a + 3)))"

text \<open>The pixel the card shows at \<open>(px, py)\<close>, in the format of 32 bits.\<close>

definition shown :: "'a fb_scheme \<Rightarrow> int \<Rightarrow> int \<Rightarrow> u32" where
  "shown s px py = hw_at s (py * uint (fb_pitch s) + 4 * px)"

lemma hw_at_hw_word:
  "a mod 4 = b mod 4 \<or> a + 4 \<le> b \<or> b + 4 \<le> a \<Longrightarrow> hw_at (hw_word b c s) a = (if a = b then c else hw_at s a)"
  unfolding hw_at_def by (rule hw_word_read)

lemma hw_word_same [simp]: "fb_back (hw_word a c s) = fb_back s" by (simp add: hw_word_def)

text \<open>Copying changes the card's memory only.\<close>

definition copies :: "'a fb_scheme \<Rightarrow> 'a fb_scheme \<Rightarrow> bool" where
  "copies s s' \<longleftrightarrow> (\<exists>h. s' = s\<lparr>fb_hw := h\<rparr>)"

lemma copies_refl: "copies s s"
  unfolding copies_def by (rule exI [of _ "fb_hw s"]) simp

lemma copies_trans: "copies s t \<Longrightarrow> copies t u \<Longrightarrow> copies s u" by (auto simp: copies_def)

lemma copies_word: "copies s (hw_word a c s)" by (auto simp: copies_def hw_word_def)

lemma copiesD:
  assumes "copies s t"
  shows "fb_set t = fb_set s" "fb_direct t = fb_direct s" "fb_width t = fb_width s" "fb_height t = fb_height s"
    "fb_pitch t = fb_pitch s" "fb_bpp t = fb_bpp s" "clip_x t = clip_x s" "clip_y t = clip_y s" "clip_w t = clip_w s"
    "clip_h t = clip_h s" "fb.more t = fb.more s" "trace t = trace s" "slog t = slog s" "sw t = sw s" "sh t = sh s" "fb_back t = fb_back s"
  using assms by (auto simp: copies_def sw_def sh_def)

lemma for_loop_copies:
  assumes "\<And>i t. copies s t \<Longrightarrow> copies t (f i t)"
  shows "copies s (for_loop a b f s)"
  by (rule for_loop_keeps [where P = "copies s"]) (auto intro: copies_refl copies_trans assms)

lemma fast_copy32_copies: "copies s (fast_copy32 dst src n s)"
  unfolding fast_copy32_def by (rule for_loop_copies) (rule copies_word)

text \<open>A burst is read back at its addresses; an address in another row, or beside it, is unchanged.\<close>

lemma fast_copy32_reads:
  assumes "a mod 4 = dst mod 4 \<or> a + 4 \<le> dst \<or> dst + 4 * int n \<le> a"
  shows "hw_at (fast_copy32 dst src n s) a =
    (if a mod 4 = dst mod 4 \<and> dst \<le> a \<and> a < dst + 4 * int n then fb_back s (src + (a - dst) div 4) else hw_at s a)"
proof -
  let ?C = "\<lambda>k. a mod 4 = dst mod 4 \<and> dst \<le> a \<and> a < dst + 4 * int k"
  have "copies s (fast_copy32 dst src n s) \<and> hw_at (fast_copy32 dst src n s) a = (if ?C n then fb_back s (src + (a - dst) div 4) else hw_at s a)"
    unfolding fast_copy32_def
  proof (rule for_loop_invariant [where P = "\<lambda>k t. copies s t \<and> hw_at t a = (if ?C k then fb_back s (src + (a - dst) div 4) else hw_at s a)"])
    fix k t assume k: "k < n" and t: "copies s t \<and> hw_at t a = (if ?C k then fb_back s (src + (a - dst) div 4) else hw_at s a)"
    let ?b = "dst + 4 * int k"
    have "a mod 4 = ?b mod 4 \<or> a + 4 \<le> ?b \<or> ?b + 4 \<le> a" using assms k by auto
    then have h: "hw_at (hw_word ?b (fb_back t (src + int k)) t) a = (if a = ?b then fb_back s (src + int k) else hw_at t a)"
      using t copiesD(16) [of s t] by (simp add: hw_at_hw_word)
    have "copies s (hw_word ?b (fb_back t (src + int k)) t)" using t copies_trans copies_word by blast
    moreover have "hw_at (hw_word ?b (fb_back t (src + int k)) t) a = (if ?C (Suc k) then fb_back s (src + (a - dst) div 4) else hw_at s a)"
    proof (cases "a = ?b")
      case True
      then have "?C (Suc k)" "(a - dst) div 4 = int k" by auto
      with h True show ?thesis by simp
    next
      case False
      then have "?C (Suc k) = ?C k" by auto presburger
      with h t False show ?thesis by simp
    qed
    ultimately show "copies s (hw_word ?b (fb_back t (src + int k)) t) \<and>
        hw_at (hw_word ?b (fb_back t (src + int k)) t) a = (if ?C (Suc k) then fb_back s (src + (a - dst) div 4) else hw_at s a)"
      by blast
  qed (auto simp: copies_refl)
  then show ?thesis by blast
qed

lemma row_apart:
  assumes "4 * w \<le> (p :: int)" "0 \<le> px" "px < w" "0 \<le> x" "x + n \<le> w" "0 \<le> n" "py \<noteq> row"
  shows "py * p + 4 * px + 4 \<le> row * p + 4 * x \<or> row * p + 4 * x + 4 * n \<le> py * p + 4 * px"
proof (cases "py < row")
  case True
  then have "(py + 1) * p \<le> row * p" using assms by (intro mult_right_mono) auto
  then have "py * p + p \<le> row * p" by (simp add: distrib_right)
  with assms show ?thesis by linarith
next
  case False
  then have "(row + 1) * p \<le> py * p" using assms by (intro mult_right_mono) auto
  then have "row * p + p \<le> py * p" by (simp add: distrib_right)
  with assms show ?thesis by linarith
qed

lemma flush_row_shows:
  assumes "fb_bpp s = 32" "4 * sw s \<le> uint (fb_pitch s)" "0 \<le> px" "px < sw s" "0 \<le> x" "x + w \<le> sw s" "0 \<le> w"
  shows "copies s (flush_row x w row s) \<and>
    shown (flush_row x w row s) px py = (if py = row \<and> x \<le> px \<and> px < x + w then fb_back s (py * sw s + px) else shown s px py)"
proof -
  let ?p = "uint (fb_pitch s)" and ?dst = "row * uint (fb_pitch s) + 4 * x" and ?a = "py * uint (fb_pitch s) + 4 * px"
  have r: "flush_row x w row s = fast_copy32 ?dst (row * sw s + x) (nat w) s" using assms(1) by (simp add: flush_row_def Let_def)
  have c: "copies s (flush_row x w row s)" unfolding r by (rule fast_copy32_copies)
  have sh: "shown (flush_row x w row s) px py = hw_at (flush_row x w row s) ?a" using copiesD(5) [OF c] by (simp add: shown_def)
  show ?thesis
  proof (cases "py = row")
    case True
    have "?a mod 4 = ?dst mod 4" unfolding True by presburger
    moreover have "(?a - ?dst) div 4 = px - x" unfolding True by simp
    ultimately show ?thesis using c True assms(5-7) unfolding sh
      by (simp add: r fast_copy32_reads shown_def algebra_simps)
  next
    case False
    from row_apart [OF assms(2-6) assms(7) this]
    have "?a + 4 \<le> ?dst \<or> ?dst + 4 * int (nat w) \<le> ?a" using assms(7) by simp
    moreover from this have "\<not> (?dst \<le> ?a \<and> ?a < ?dst + 4 * int (nat w))" by linarith
    ultimately show ?thesis using c False unfolding sh by (auto simp: r fast_copy32_reads shown_def)
  qed
qed

lemma fb_flush_rect_copies_shows:
  assumes "\<not> fb_direct s" "fb_bpp s = 32" "4 * sw s \<le> uint (fb_pitch s)" "0 \<le> px" "px < sw s"
  shows "copies s (fb_flush_rect x y w h s) \<and> shown (fb_flush_rect x y w h s) px py =
    (if x \<le> px \<and> px < x + w \<and> y \<le> py \<and> py < y + h \<and> 0 \<le> py \<and> py < sh s then fb_back s (py * sw s + px) else shown s px py)"
proof -
  define x' where "x' = max x 0"
  define y' where "y' = max y 0"
  define w' where "w' = min (x + w) (sw s) - x'"
  define h' where "h' = min (y + h) (sh s) - y'"
  have r: "fb_flush_rect x y w h s = (if w' \<le> 0 \<or> h' \<le> 0 then s else for_loop 0 (nat h') (\<lambda>k. flush_row x' w' (y' + int k)) s)"
    using assms(1) by (simp add: fb_flush_rect_def Let_def x'_def y'_def w'_def h'_def max_def min_def add.commute)
  have in_rect: "x \<le> px \<and> px < x + w \<and> y \<le> py \<and> py < y + h \<and> 0 \<le> py \<and> py < sh s \<longleftrightarrow>
      x' \<le> px \<and> px < x' + w' \<and> y' \<le> py \<and> py < y' + h'"
    using assms(4, 5) by (auto simp: x'_def y'_def w'_def h'_def)
  show ?thesis
  proof (cases "w' \<le> 0 \<or> h' \<le> 0")
    case True
    then show ?thesis unfolding in_rect r by (auto simp: copies_refl)
  next
    case False
    have x': "0 \<le> x'" "x' + w' \<le> sw s" "0 \<le> w'" using False by (auto simp: x'_def w'_def)
    let ?Q = "\<lambda>k t. copies s t \<and> shown t px py =
        (if x' \<le> px \<and> px < x' + w' \<and> y' \<le> py \<and> py < y' + int k then fb_back s (py * sw s + px) else shown s px py)"
    have "?Q (nat h') (for_loop 0 (nat h') (\<lambda>k. flush_row x' w' (y' + int k)) s)"
    proof (rule for_loop_invariant [where P = ?Q])
      fix k t assume q: "?Q k t"
      then have t: "copies s t" by blast
      have "copies t (flush_row x' w' (y' + int k) t) \<and> shown (flush_row x' w' (y' + int k) t) px py =
          (if py = y' + int k \<and> x' \<le> px \<and> px < x' + w' then fb_back t (py * sw t + px) else shown t px py)"
        using assms x' by (intro flush_row_shows) (simp_all add: copiesD [OF t])
      then show "?Q (Suc k) (flush_row x' w' (y' + int k) t)"
        using q copies_trans [OF t] by (auto simp: copiesD [OF t])
    qed (auto simp: copies_refl)
    then show ?thesis unfolding in_rect r using False by simp
  qed
qed

text \<open>
  Flushing a rectangle brings exactly that part of the back buffer to the card: on a card of 32
  bits whose rows hold a screen line, the pixel shown at \<open>(px, py)\<close> is the back buffer's if it is in
  the rectangle and on the screen, and the one shown before otherwise. Nothing but the card's memory
  changes. \<open>py\<close> is any integer: no row outside the screen is written.
\<close>

theorem fb_flush_rect_shows:
  assumes "\<not> fb_direct s" and "fb_bpp s = 32" and "4 * sw s \<le> uint (fb_pitch s)" and "0 \<le> px" and "px < sw s"
  shows "copies s (fb_flush_rect x y w h s) \<and> shown (fb_flush_rect x y w h s) px py =
    (if x \<le> px \<and> px < x + w \<and> y \<le> py \<and> py < y + h \<and> 0 \<le> py \<and> py < sh s then fb_back s (py * sw s + px) else shown s px py)"
  using assms by (rule fb_flush_rect_copies_shows)

lemma fb_flush_rect_shows_witness:
  "shown (fb_flush_rect 8 8 8 16 (small_fb\<lparr>fb_back := (\<lambda>j. of_int j)\<rparr>)) 9 10 = 649"
proof -
  let ?s = "small_fb\<lparr>fb_back := (\<lambda>j. of_int j)\<rparr>"
  have s: "sw ?s = 64" "sh ?s = 48" by (simp_all add: sw_def sh_def small_fb_def sint_cases)
  have "\<not> fb_direct ?s" "fb_bpp ?s = 32" "4 * sw ?s \<le> uint (fb_pitch ?s)" "0 \<le> (9 :: int)" "9 < sw ?s"
    using s by (simp_all add: small_fb_def)
  from fb_flush_rect_shows [OF this, of 8 8 8 16 10] s show ?thesis by simp
qed

text \<open>
  The flush of the whole screen does not look at the format: with 24 bits per pixel it still copies
  words, where the flush of a rectangle packs bytes.
\<close>

lemma for_loop_commute: "(\<And>i t. f i (g t) = g (f i t)) \<Longrightarrow> for_loop a b f (g s) = g (for_loop a b f s)"
proof (induction "b - a" arbitrary: a s)
  case (Suc d)
  then have "a < b" "d = b - Suc a" by simp_all
  with Suc show ?case by (simp add: for_loop_rec)
qed simp

lemma fb_flush_ignores_format: "fb_flush (s\<lparr>fb_bpp := b\<rparr>) = (fb_flush s)\<lparr>fb_bpp := b\<rparr>"
proof -
  have c: "fast_copy32 d r n (t\<lparr>fb_bpp := b\<rparr>) = (fast_copy32 d r n t)\<lparr>fb_bpp := b\<rparr>" for d r n and t :: "'a fb_scheme"
    unfolding fast_copy32_def by (rule for_loop_commute) (simp add: hw_word_def)
  show ?thesis
    unfolding fb_flush_def by (simp add: c for_loop_commute [where g = "\<lambda>t. t\<lparr>fb_bpp := b\<rparr>"])
qed

text \<open>
  A clip that reaches beyond the screen lets a rectangle write beyond the buffer: here the byte range
  behind it.
\<close>

lemma fb_rect_writes_behind: "fb_back (fb_rect 0 48 1 1 7 (fb_set_clip 0 0 64 49 small_fb)) (64 * 48) = 7"
  by (simp add: fb_rect_def fb_set_clip_def small_fb_def for_loop_def fast_fill32_def put_px_def sw_def sint_cases Let_def)

end
