(* ===== verification/Gui_Font.thy ===== *)
theory Gui_Font
  imports Gui_Fb
begin

text \<open>
  The bitmap font, \<^verbatim>\<open>kernel/gui/font.c\<close>: the glyphs of the first 127 characters, drawing a character and
  a string. The array of the source has 256 rows of which the last 129 are zero.
\<close>

definition FONT_W :: int where "FONT_W = 8"
definition FONT_H :: int where "FONT_H = 16"

definition glyphs :: "u8 list list" where
  "glyphs = [
     replicate 16 0,
     [0, 0, 0x7E, 0xC3, 0x99, 0xBD, 0xBD, 0x99, 0xC3, 0x7E, 0, 0, 0, 0, 0, 0],
     [0, 0, 0x7E, 0xFF, 0xDB, 0xC3, 0xC3, 0xDB, 0xFF, 0x7E, 0, 0, 0, 0, 0, 0],
     [0, 0, 0, 0x6C, 0xFE, 0xFE, 0xFE, 0x7C, 0x38, 0x10, 0, 0, 0, 0, 0, 0],
     [0, 0, 0, 0x10, 0x38, 0x7C, 0xFE, 0x7C, 0x38, 0x10, 0, 0, 0, 0, 0, 0],
     [0, 0, 0x18, 0x3C, 0x3C, 0xE7, 0xE7, 0x3C, 0x18, 0x18, 0x3C, 0, 0, 0, 0, 0],
     [0, 0, 0x18, 0x3C, 0x7E, 0xFF, 0xFF, 0x7E, 0x18, 0x18, 0x3C, 0, 0, 0, 0, 0],
     [0, 0, 0, 0, 0, 0x18, 0x3C, 0x3C, 0x18, 0, 0, 0, 0, 0, 0, 0],
     [0xFF, 0xFF, 0xFF, 0xFF, 0xFF, 0xE7, 0xC3, 0xC3, 0xE7, 0xFF, 0xFF, 0xFF, 0xFF, 0xFF, 0xFF, 0xFF],
     [0, 0, 0, 0, 0x3C, 0x66, 0x42, 0x42, 0x66, 0x3C, 0, 0, 0, 0, 0, 0],
     [0xFF, 0xFF, 0xFF, 0xFF, 0xC3, 0x99, 0xBD, 0xBD, 0x99, 0xC3, 0xFF, 0xFF, 0xFF, 0xFF, 0xFF, 0xFF],
     [0, 0, 0x1E, 0x0E, 0x1A, 0x32, 0x78, 0xCC, 0xCC, 0xCC, 0xCC, 0x78, 0, 0, 0, 0],
     [0, 0, 0x3C, 0x66, 0x66, 0x66, 0x3C, 0x18, 0x7E, 0x18, 0x18, 0x18, 0, 0, 0, 0],
     [0, 0, 0x3F, 0x33, 0x3F, 0x30, 0x30, 0x30, 0x70, 0xF0, 0xE0, 0, 0, 0, 0, 0],
     [0, 0, 0x7F, 0x63, 0x7F, 0x63, 0x63, 0x63, 0x67, 0xE7, 0xE6, 0xC0, 0, 0, 0, 0],
     [0, 0, 0, 0x18, 0xDB, 0x3C, 0xE7, 0xE7, 0x3C, 0xDB, 0x18, 0, 0, 0, 0, 0],
     [0, 0, 0, 0x80, 0xE0, 0xF8, 0xFE, 0xF8, 0xE0, 0x80, 0, 0, 0, 0, 0, 0],
     [0, 0, 0, 2, 0x0E, 0x3E, 0xFE, 0x3E, 0x0E, 2, 0, 0, 0, 0, 0, 0],
     [0, 0, 0x18, 0x3C, 0x7E, 0x18, 0x18, 0x7E, 0x3C, 0x18, 0, 0, 0, 0, 0, 0],
     [0, 0, 0x66, 0x66, 0x66, 0x66, 0x66, 0, 0x66, 0x66, 0, 0, 0, 0, 0, 0],
     [0, 0, 0x7F, 0xDB, 0xDB, 0xDB, 0x7B, 0x1B, 0x1B, 0x1B, 0, 0, 0, 0, 0, 0],
     [0, 0x7C, 0xC6, 0x60, 0x38, 0x6C, 0xC6, 0xC6, 0x6C, 0x38, 0x0C, 0xC6, 0x7C, 0, 0, 0],
     [0, 0, 0, 0, 0, 0, 0, 0, 0xFF, 0xFF, 0xFF, 0, 0, 0, 0, 0],
     [0, 0, 0x18, 0x3C, 0x7E, 0x18, 0x18, 0x7E, 0x3C, 0x18, 0x7E, 0, 0, 0, 0, 0],
     [0, 0, 0x18, 0x3C, 0x7E, 0x18, 0x18, 0x18, 0x18, 0x18, 0, 0, 0, 0, 0, 0],
     [0, 0, 0x18, 0x18, 0x18, 0x18, 0x18, 0x7E, 0x3C, 0x18, 0, 0, 0, 0, 0, 0],
     [0, 0, 0, 0x18, 0x0C, 0xFE, 0x0C, 0x18, 0, 0, 0, 0, 0, 0, 0, 0],
     [0, 0, 0, 0x30, 0x60, 0xFE, 0x60, 0x30, 0, 0, 0, 0, 0, 0, 0, 0],
     [0, 0, 0, 0, 0x80, 0x80, 0x80, 0xFE, 0, 0, 0, 0, 0, 0, 0, 0],
     [0, 0, 0, 0x24, 0x66, 0xFF, 0x66, 0x24, 0, 0, 0, 0, 0, 0, 0, 0],
     [0, 0, 0, 0x10, 0x38, 0x7C, 0xFE, 0xFE, 0, 0, 0, 0, 0, 0, 0, 0],
     [0, 0, 0, 0xFE, 0xFE, 0x7C, 0x38, 0x10, 0, 0, 0, 0, 0, 0, 0, 0],
     replicate 16 0,
     [0, 0, 0x18, 0x3C, 0x3C, 0x3C, 0x18, 0x18, 0, 0x18, 0x18, 0, 0, 0, 0, 0],
     [0, 0x66, 0x66, 0x66, 0x24, 0, 0, 0, 0, 0, 0, 0, 0, 0, 0, 0],
     [0, 0, 0, 0x6C, 0x6C, 0xFE, 0x6C, 0x6C, 0xFE, 0x6C, 0x6C, 0, 0, 0, 0, 0],
     [0x18, 0x18, 0x7C, 0xC6, 0xC2, 0xC0, 0x7C, 6, 0x86, 0xC6, 0x7C, 0x18, 0x18, 0, 0, 0],
     [0, 0, 0, 0, 0xC2, 0xC6, 0x0C, 0x18, 0x30, 0x60, 0xC6, 0x86, 0, 0, 0, 0],
     [0, 0, 0x38, 0x6C, 0x6C, 0x38, 0x76, 0xDC, 0xCC, 0xCC, 0xCC, 0x76, 0, 0, 0, 0],
     [0, 0, 0x30, 0x30, 0x30, 0x60, 0, 0, 0, 0, 0, 0, 0, 0, 0, 0],
     [0, 0, 0x0C, 0x18, 0x30, 0x30, 0x30, 0x30, 0x30, 0x18, 0x0C, 0, 0, 0, 0, 0],
     [0, 0, 0x30, 0x18, 0x0C, 0x0C, 0x0C, 0x0C, 0x0C, 0x18, 0x30, 0, 0, 0, 0, 0],
     [0, 0, 0, 0, 0, 0x66, 0x3C, 0xFF, 0x3C, 0x66, 0, 0, 0, 0, 0, 0],
     [0, 0, 0, 0, 0x18, 0x18, 0x7E, 0x18, 0x18, 0, 0, 0, 0, 0, 0, 0],
     [0, 0, 0, 0, 0, 0, 0, 0, 0, 0x38, 0x38, 0x70, 0, 0, 0, 0],
     [0, 0, 0, 0, 0, 0x7E, 0, 0, 0, 0, 0, 0, 0, 0, 0, 0],
     [0, 0, 0, 0, 0, 0, 0, 0, 0, 0x38, 0x38, 0, 0, 0, 0, 0],
     [0, 0, 3, 6, 0x0C, 0x18, 0x30, 0x60, 0xC0, 0, 0, 0, 0, 0, 0, 0],
     [0, 0, 0x7C, 0xC6, 0xCE, 0xDE, 0xF6, 0xE6, 0xC6, 0xC6, 0x7C, 0, 0, 0, 0, 0],
     [0, 0, 0x18, 0x38, 0x78, 0x18, 0x18, 0x18, 0x18, 0x18, 0x7E, 0, 0, 0, 0, 0],
     [0, 0, 0x7C, 0xC6, 6, 0x0C, 0x18, 0x30, 0x60, 0xC6, 0xFE, 0, 0, 0, 0, 0],
     [0, 0, 0x7C, 0xC6, 6, 6, 0x3C, 6, 6, 0xC6, 0x7C, 0, 0, 0, 0, 0],
     [0, 0, 0x0C, 0x1C, 0x3C, 0x6C, 0xCC, 0xFE, 0x0C, 0x0C, 0x1E, 0, 0, 0, 0, 0],
     [0, 0, 0xFE, 0xC0, 0xC0, 0xC0, 0xFC, 6, 6, 0xC6, 0x7C, 0, 0, 0, 0, 0],
     [0, 0, 0x38, 0x60, 0xC0, 0xC0, 0xFC, 0xC6, 0xC6, 0xC6, 0x7C, 0, 0, 0, 0, 0],
     [0, 0, 0xFE, 0xC6, 6, 6, 0x0C, 0x18, 0x30, 0x30, 0x30, 0, 0, 0, 0, 0],
     [0, 0, 0x7C, 0xC6, 0xC6, 0xC6, 0x7C, 0xC6, 0xC6, 0xC6, 0x7C, 0, 0, 0, 0, 0],
     [0, 0, 0x7C, 0xC6, 0xC6, 0xC6, 0x7E, 6, 6, 0x0C, 0x78, 0, 0, 0, 0, 0],
     [0, 0, 0, 0, 0x18, 0x18, 0, 0, 0x18, 0x18, 0, 0, 0, 0, 0, 0],
     [0, 0, 0, 0, 0x18, 0x18, 0, 0, 0x18, 0x18, 0x30, 0, 0, 0, 0, 0],
     [0, 0, 6, 0x0C, 0x18, 0x30, 0x60, 0x30, 0x18, 0x0C, 6, 0, 0, 0, 0, 0],
     [0, 0, 0, 0, 0, 0x7E, 0, 0x7E, 0, 0, 0, 0, 0, 0, 0, 0],
     [0, 0, 0x60, 0x30, 0x18, 0x0C, 6, 0x0C, 0x18, 0x30, 0x60, 0, 0, 0, 0, 0],
     [0, 0, 0x7C, 0xC6, 0xC6, 0x0C, 0x18, 0x18, 0, 0x18, 0x18, 0, 0, 0, 0, 0],
     [0, 0, 0x7C, 0xC6, 0xC6, 0xDE, 0xDE, 0xDE, 0xDC, 0xC0, 0x7C, 0, 0, 0, 0, 0],
     [0, 0, 0x10, 0x38, 0x6C, 0xC6, 0xC6, 0xFE, 0xC6, 0xC6, 0xC6, 0, 0, 0, 0, 0],
     [0, 0, 0xFC, 0x66, 0x66, 0x66, 0x7C, 0x66, 0x66, 0x66, 0xFC, 0, 0, 0, 0, 0],
     [0, 0, 0x3C, 0x66, 0xC2, 0xC0, 0xC0, 0xC0, 0xC2, 0x66, 0x3C, 0, 0, 0, 0, 0],
     [0, 0, 0xF8, 0x6C, 0x66, 0x66, 0x66, 0x66, 0x66, 0x6C, 0xF8, 0, 0, 0, 0, 0],
     [0, 0, 0xFE, 0x62, 0x60, 0x64, 0x7C, 0x64, 0x60, 0x62, 0xFE, 0, 0, 0, 0, 0],
     [0, 0, 0xFE, 0x66, 0x62, 0x68, 0x78, 0x68, 0x60, 0x60, 0xF0, 0, 0, 0, 0, 0],
     [0, 0, 0x3C, 0x66, 0xC2, 0xC0, 0xDE, 0xC6, 0xC6, 0x66, 0x3A, 0, 0, 0, 0, 0],
     [0, 0, 0xC6, 0xC6, 0xC6, 0xC6, 0xFE, 0xC6, 0xC6, 0xC6, 0xC6, 0, 0, 0, 0, 0],
     [0, 0, 0x3C, 0x18, 0x18, 0x18, 0x18, 0x18, 0x18, 0x18, 0x3C, 0, 0, 0, 0, 0],
     [0, 0, 0x1E, 0x0C, 0x0C, 0x0C, 0x0C, 0xCC, 0xCC, 0xCC, 0x78, 0, 0, 0, 0, 0],
     [0, 0, 0xE6, 0x66, 0x6C, 0x6C, 0x78, 0x6C, 0x6C, 0x66, 0xE6, 0, 0, 0, 0, 0],
     [0, 0, 0xF0, 0x60, 0x60, 0x60, 0x60, 0x62, 0x66, 0x66, 0xFE, 0, 0, 0, 0, 0],
     [0, 0, 0xC6, 0xEE, 0xFE, 0xFE, 0xD6, 0xC6, 0xC6, 0xC6, 0xC6, 0, 0, 0, 0, 0],
     [0, 0, 0xC6, 0xE6, 0xF6, 0xFE, 0xDE, 0xCE, 0xC6, 0xC6, 0xC6, 0, 0, 0, 0, 0],
     [0, 0, 0x7C, 0xC6, 0xC6, 0xC6, 0xC6, 0xC6, 0xC6, 0xC6, 0x7C, 0, 0, 0, 0, 0],
     [0, 0, 0xFC, 0x66, 0x66, 0x66, 0x7C, 0x60, 0x60, 0x60, 0xF0, 0, 0, 0, 0, 0],
     [0, 0, 0x7C, 0xC6, 0xC6, 0xC6, 0xC6, 0xC6, 0xC6, 0xCE, 0x7C, 0x0E, 0, 0, 0, 0],
     [0, 0, 0xFC, 0x66, 0x66, 0x66, 0x7C, 0x6C, 0x66, 0x66, 0xE6, 0, 0, 0, 0, 0],
     [0, 0, 0x7C, 0xC6, 0xC6, 0x60, 0x38, 0x0C, 0xC6, 0xC6, 0x7C, 0, 0, 0, 0, 0],
     [0, 0, 0x7E, 0x7E, 0x5A, 0x18, 0x18, 0x18, 0x18, 0x18, 0x3C, 0, 0, 0, 0, 0],
     [0, 0, 0xC6, 0xC6, 0xC6, 0xC6, 0xC6, 0xC6, 0xC6, 0xC6, 0x7C, 0, 0, 0, 0, 0],
     [0, 0, 0xC6, 0xC6, 0xC6, 0xC6, 0xC6, 0xC6, 0x6C, 0x38, 0x10, 0, 0, 0, 0, 0],
     [0, 0, 0xC6, 0xC6, 0xC6, 0xC6, 0xD6, 0xD6, 0xFE, 0xEE, 0xC6, 0, 0, 0, 0, 0],
     [0, 0, 0xC6, 0xC6, 0x6C, 0x6C, 0x38, 0x6C, 0x6C, 0xC6, 0xC6, 0, 0, 0, 0, 0],
     [0, 0, 0x66, 0x66, 0x66, 0x66, 0x3C, 0x18, 0x18, 0x18, 0x3C, 0, 0, 0, 0, 0],
     [0, 0, 0xFE, 0xC6, 0x86, 0x0C, 0x18, 0x30, 0x60, 0xC2, 0xFE, 0, 0, 0, 0, 0],
     [0, 0, 0x3C, 0x30, 0x30, 0x30, 0x30, 0x30, 0x30, 0x30, 0x3C, 0, 0, 0, 0, 0],
     [0, 0, 0x80, 0xC0, 0x60, 0x30, 0x18, 0x0C, 6, 3, 0, 0, 0, 0, 0, 0],
     [0, 0, 0x3C, 0x0C, 0x0C, 0x0C, 0x0C, 0x0C, 0x0C, 0x0C, 0x3C, 0, 0, 0, 0, 0],
     [0x10, 0x38, 0x6C, 0xC6, 0, 0, 0, 0, 0, 0, 0, 0, 0, 0, 0, 0],
     [0, 0, 0, 0, 0, 0, 0, 0, 0, 0, 0, 0xFF, 0, 0, 0, 0],
     [0, 0x30, 0x18, 0x0C, 0, 0, 0, 0, 0, 0, 0, 0, 0, 0, 0, 0],
     [0, 0, 0, 0, 0, 0x78, 0x0C, 0x7C, 0xCC, 0xCC, 0x76, 0, 0, 0, 0, 0],
     [0, 0, 0xE0, 0x60, 0x60, 0x78, 0x6C, 0x66, 0x66, 0x66, 0x7C, 0, 0, 0, 0, 0],
     [0, 0, 0, 0, 0, 0x7C, 0xC6, 0xC0, 0xC0, 0xC6, 0x7C, 0, 0, 0, 0, 0],
     [0, 0, 0x1C, 0x0C, 0x0C, 0x3C, 0x6C, 0xCC, 0xCC, 0xCC, 0x76, 0, 0, 0, 0, 0],
     [0, 0, 0, 0, 0, 0x7C, 0xC6, 0xFE, 0xC0, 0xC6, 0x7C, 0, 0, 0, 0, 0],
     [0, 0, 0x1C, 0x36, 0x32, 0x30, 0x7C, 0x30, 0x30, 0x30, 0x78, 0, 0, 0, 0, 0],
     [0, 0, 0, 0, 0, 0x76, 0xCC, 0xCC, 0xCC, 0x7C, 0x0C, 0xCC, 0x78, 0, 0, 0],
     [0, 0, 0xE0, 0x60, 0x60, 0x6C, 0x76, 0x66, 0x66, 0x66, 0xE6, 0, 0, 0, 0, 0],
     [0, 0, 0x18, 0x18, 0, 0x38, 0x18, 0x18, 0x18, 0x18, 0x3C, 0, 0, 0, 0, 0],
     [0, 0, 6, 6, 0, 0x0E, 6, 6, 6, 0x66, 0x66, 0x3C, 0, 0, 0, 0],
     [0, 0, 0xE0, 0x60, 0x66, 0x6C, 0x78, 0x78, 0x6C, 0x66, 0xE6, 0, 0, 0, 0, 0],
     [0, 0, 0x38, 0x18, 0x18, 0x18, 0x18, 0x18, 0x18, 0x18, 0x3C, 0, 0, 0, 0, 0],
     [0, 0, 0, 0, 0, 0xEC, 0xFE, 0xD6, 0xD6, 0xD6, 0xC6, 0, 0, 0, 0, 0],
     [0, 0, 0, 0, 0, 0xDC, 0x66, 0x66, 0x66, 0x66, 0x66, 0, 0, 0, 0, 0],
     [0, 0, 0, 0, 0, 0x7C, 0xC6, 0xC6, 0xC6, 0xC6, 0x7C, 0, 0, 0, 0, 0],
     [0, 0, 0, 0, 0, 0xDC, 0x66, 0x66, 0x66, 0x7C, 0x60, 0x60, 0xF0, 0, 0, 0],
     [0, 0, 0, 0, 0, 0x76, 0xCC, 0xCC, 0xCC, 0x7C, 0x0C, 0x0C, 0x1E, 0, 0, 0],
     [0, 0, 0, 0, 0, 0xDC, 0x76, 0x66, 0x60, 0x60, 0xF0, 0, 0, 0, 0, 0],
     [0, 0, 0, 0, 0, 0x7C, 0xC6, 0x70, 0x1C, 0xC6, 0x7C, 0, 0, 0, 0, 0],
     [0, 0, 0x10, 0x30, 0x30, 0xFC, 0x30, 0x30, 0x30, 0x36, 0x1C, 0, 0, 0, 0, 0],
     [0, 0, 0, 0, 0, 0xCC, 0xCC, 0xCC, 0xCC, 0xCC, 0x76, 0, 0, 0, 0, 0],
     [0, 0, 0, 0, 0, 0xC6, 0xC6, 0xC6, 0xC6, 0x6C, 0x38, 0, 0, 0, 0, 0],
     [0, 0, 0, 0, 0, 0xC6, 0xC6, 0xD6, 0xD6, 0xFE, 0x6C, 0, 0, 0, 0, 0],
     [0, 0, 0, 0, 0, 0xC6, 0x6C, 0x38, 0x38, 0x6C, 0xC6, 0, 0, 0, 0, 0],
     [0, 0, 0, 0, 0, 0x66, 0x66, 0x66, 0x66, 0x3C, 0x0C, 0x18, 0xF0, 0, 0, 0],
     [0, 0, 0, 0, 0, 0xFE, 0xCC, 0x18, 0x30, 0x66, 0xFE, 0, 0, 0, 0, 0],
     [0, 0, 0x0E, 0x18, 0x18, 0x18, 0x70, 0x18, 0x18, 0x18, 0x0E, 0, 0, 0, 0, 0],
     [0, 0, 0x18, 0x18, 0x18, 0x18, 0, 0x18, 0x18, 0x18, 0x18, 0, 0, 0, 0, 0],
     [0, 0, 0x70, 0x18, 0x18, 0x18, 0x0E, 0x18, 0x18, 0x18, 0x70, 0, 0, 0, 0, 0],
     [0, 0, 0x76, 0xDC, 0, 0, 0, 0, 0, 0, 0, 0, 0, 0, 0, 0]
     ]"

definition font_data :: "u8 \<Rightarrow> u8 list" where
  "font_data idx = (if unat idx < 127 then glyphs ! unat idx else replicate 16 0)"

text \<open>\<^verbatim>\<open>bits & (0x80 >> col)\<close>\<close>

definition glyph_bit :: "u8 \<Rightarrow> nat \<Rightarrow> bool" where
  "glyph_bit bits col \<longleftrightarrow> bits AND drop_bit col 0x80 \<noteq> 0"

definition font_drawchar :: "int \<Rightarrow> int \<Rightarrow> u8 \<Rightarrow> u32 \<Rightarrow> u32 \<Rightarrow> bool \<Rightarrow> 'a fb_scheme \<Rightarrow> 'a fb_scheme" where
  "font_drawchar x y c fg bg transparent s =
     (let glyph = font_data c
      in for_loop 0 16 (\<lambda>row s. let bits = glyph ! row
           in for_loop 0 8 (\<lambda>col s.
                if glyph_bit bits col then fb_pixel (x + int col) (y + int row) fg s
                else if \<not> transparent then fb_pixel (x + int col) (y + int row) bg s else s) s) s)"

text \<open>The text ends at its first zero byte; \<open>cx\<close> and \<open>y\<close> are the pen, \<open>x\<close> the left margin.\<close>

fun drawstr_from :: "int \<Rightarrow> int \<Rightarrow> int \<Rightarrow> u8 list \<Rightarrow> u32 \<Rightarrow> u32 \<Rightarrow> bool \<Rightarrow> 'a fb_scheme \<Rightarrow> int \<times> 'a fb_scheme" where
  "drawstr_from x cx y [] fg bg transparent s = (cx, s)"
| "drawstr_from x cx y (c # cs) fg bg transparent s =
     (if c = 0 then (cx, s)
      else if c = 10 then drawstr_from x x (y + FONT_H) cs fg bg transparent s
      else drawstr_from x (cx + FONT_W) y cs fg bg transparent (font_drawchar cx y c fg bg transparent s))"

definition font_drawstr :: "int \<Rightarrow> int \<Rightarrow> u8 list \<Rightarrow> u32 \<Rightarrow> u32 \<Rightarrow> bool \<Rightarrow> 'a fb_scheme \<Rightarrow> int \<times> 'a fb_scheme" where
  "font_drawstr x y str fg bg transparent s = drawstr_from x x y str fg bg transparent s"

definition drawchar_scaled :: "int \<Rightarrow> int \<Rightarrow> u8 \<Rightarrow> u32 \<Rightarrow> u32 \<Rightarrow> bool \<Rightarrow> int \<Rightarrow> 'a fb_scheme \<Rightarrow> 'a fb_scheme" where
  "drawchar_scaled cx y c fg bg transparent scale s =
     (let glyph = font_data c
      in for_loop 0 16 (\<lambda>row s. let bits = glyph ! row
           in for_loop 0 8 (\<lambda>col s.
                let col_val = (if glyph_bit bits col then fg else bg)
                in if glyph_bit bits col \<or> \<not> transparent
                   then fb_rect (cx + int col * scale) (y + int row * scale) scale scale col_val s else s) s) s)"

fun drawstr_scaled_from :: "int \<Rightarrow> int \<Rightarrow> int \<Rightarrow> u8 list \<Rightarrow> u32 \<Rightarrow> u32 \<Rightarrow> bool \<Rightarrow> int \<Rightarrow> 'a fb_scheme \<Rightarrow> int \<times> 'a fb_scheme" where
  "drawstr_scaled_from x cx y [] fg bg transparent scale s = (cx, s)"
| "drawstr_scaled_from x cx y (c # cs) fg bg transparent scale s =
     (if c = 0 then (cx, s)
      else if c = 10 then drawstr_scaled_from x x (y + FONT_H * scale) cs fg bg transparent scale s
      else drawstr_scaled_from x (cx + FONT_W * scale) y cs fg bg transparent scale (drawchar_scaled cx y c fg bg transparent scale s))"

definition font_drawstr_scaled ::
    "int \<Rightarrow> int \<Rightarrow> u8 list \<Rightarrow> u32 \<Rightarrow> u32 \<Rightarrow> bool \<Rightarrow> int \<Rightarrow> 'a fb_scheme \<Rightarrow> int \<times> 'a fb_scheme" where
  "font_drawstr_scaled x y str fg bg transparent scale s =
     (if scale \<le> 1 then font_drawstr x y str fg bg transparent s else drawstr_scaled_from x x y str fg bg transparent scale s)"

section \<open>What a character looks like\<close>

text \<open>The colour of a point of a character's cell.\<close>

definition glyph_px :: "u8 \<Rightarrow> u32 \<Rightarrow> u32 \<Rightarrow> nat \<Rightarrow> nat \<Rightarrow> u32" where
  "glyph_px c fg bg row col = (if glyph_bit (font_data c ! row) col then fg else bg)"

lemma glyph_blank: "row < 16 \<Longrightarrow> glyph_px 32 fg bg row col = bg"
  by (simp add: glyph_px_def font_data_def glyphs_def glyph_bit_def)

text \<open>A grid of single pixels, given by their colours.\<close>

lemma pixel_draws:
  assumes "fb_ok s" and "paints s t"
  shows "draws (\<lambda>j. if j div sw s = y \<and> j mod sw s = x \<and> in_clip s x y then g (j mod sw s) (j div sw s) else None) t
    (case g x y of None \<Rightarrow> t | Some c \<Rightarrow> fb_pixel x y c t)"
proof -
  have i: "j = y * sw s + x \<and> in_clip s x y \<longleftrightarrow> j div sw s = y \<and> j mod sw s = x \<and> in_clip s x y" for j
  proof (cases "in_clip s x y")
    case True
    then have "0 < sw s" "0 \<le> x" "x < sw s" using assms(1) by (auto simp: fb_ok_def in_clip_def)
    then show ?thesis using pixel_index [of "sw s" x j y] by blast
  qed simp
  have "fb_ok t" using assms fb_ok_paints by blast
  show ?thesis
  proof (cases "g x y")
    case None
    then have "(if j div sw s = y \<and> j mod sw s = x \<and> in_clip s x y then g (j mod sw s) (j div sw s) else None) = None" for j by auto
    with None show ?thesis by (simp add: draws_refl)
  next
    case (Some c)
    have "draws (paint_map (\<lambda>j. j div sw s = y \<and> j mod sw s = x \<and> in_clip s x y) c) t (fb_pixel x y c t)"
      using fb_pixel_draws [OF \<open>fb_ok t\<close>, of y x c] unfolding paintsD(14) [OF assms(2)] in_clip_paints [OF assms(2)] i .
    then show ?thesis unfolding Some option.case by (rule draws_cong) (auto simp: paint_map_def Some)
  qed
qed

lemma pixel_grid_draws:
  assumes "fb_ok s" and "paints s t"
  shows "draws (\<lambda>j. if \<exists>k. 0 \<le> k \<and> k < h \<and> (\<exists>i. 0 \<le> i \<and> i < w \<and> j div sw s = y + int k \<and> j mod sw s = x + int i \<and> in_clip s (x + int i) (y + int k))
      then g (j mod sw s) (j div sw s) else None) t
    (for_loop 0 h (\<lambda>row. for_loop 0 w (\<lambda>col s. case g (x + int col) (y + int row) of None \<Rightarrow> s | Some c \<Rightarrow> fb_pixel (x + int col) (y + int row) c s)) t)"
proof (rule draws_pieces)
  fix k u assume "paints t u"
  then have u: "paints s u" using assms(2) paints_trans by blast
  show "draws (\<lambda>j. if \<exists>i. 0 \<le> i \<and> i < w \<and> j div sw s = y + int k \<and> j mod sw s = x + int i \<and> in_clip s (x + int i) (y + int k)
      then g (j mod sw s) (j div sw s) else None) u
    (for_loop 0 w (\<lambda>col s. case g (x + int col) (y + int k) of None \<Rightarrow> s | Some c \<Rightarrow> fb_pixel (x + int col) (y + int k) c s) u)"
  proof (rule draws_pieces)
    fix i v assume "paints u v"
    then have "paints s v" using u paints_trans by blast
    from pixel_draws [OF assms(1) this, of "y + int k" "x + int i" g]
    show "draws (\<lambda>j. if j div sw s = y + int k \<and> j mod sw s = x + int i \<and> in_clip s (x + int i) (y + int k)
        then g (j mod sw s) (j div sw s) else None) v
      (case g (x + int i) (y + int k) of None \<Rightarrow> v | Some c \<Rightarrow> fb_pixel (x + int i) (y + int k) c v)" .
  qed
qed

text \<open>The points of a character's cell.\<close>

definition cell_at :: "int \<Rightarrow> int \<Rightarrow> int \<Rightarrow> int \<Rightarrow> bool" where
  "cell_at x y px py \<longleftrightarrow> x \<le> px \<and> px < x + 8 \<and> y \<le> py \<and> py < y + 16"

lemma font_drawchar_draws:
  assumes "fb_ok s"
  shows "draws (\<lambda>j. if cell_at x y (j mod sw s) (j div sw s) \<and> in_clip s (j mod sw s) (j div sw s)
      then Some (glyph_px c fg bg (nat (j div sw s - y)) (nat (j mod sw s - x))) else None) s
    (font_drawchar x y c fg bg False s)"
proof -
  let ?g = "\<lambda>px py. Some (glyph_px c fg bg (nat (py - y)) (nat (px - x)))"
  have e: "font_drawchar x y c fg bg False s =
      for_loop 0 16 (\<lambda>row. for_loop 0 8 (\<lambda>col s. case ?g (x + int col) (y + int row) of None \<Rightarrow> s
        | Some c \<Rightarrow> fb_pixel (x + int col) (y + int row) c s)) s"
    unfolding font_drawchar_def Let_def
    by (intro for_loop_cong) (auto intro!: for_loop_cong simp: glyph_px_def)
  have c: "(\<exists>k. 0 \<le> k \<and> k < 16 \<and> (\<exists>i. 0 \<le> i \<and> i < 8 \<and> j div sw s = y + int k \<and> j mod sw s = x + int i \<and> in_clip s (x + int i) (y + int k))) \<longleftrightarrow>
      cell_at x y (j mod sw s) (j div sw s) \<and> in_clip s (j mod sw s) (j div sw s)" (is "?L \<longleftrightarrow> ?R") for j
  proof
    assume ?R
    then have "0 \<le> nat (j div sw s - y) \<and> nat (j div sw s - y) < 16 \<and> 0 \<le> nat (j mod sw s - x) \<and> nat (j mod sw s - x) < 8 \<and>
      j div sw s = y + int (nat (j div sw s - y)) \<and> j mod sw s = x + int (nat (j mod sw s - x)) \<and>
      in_clip s (x + int (nat (j mod sw s - x))) (y + int (nat (j div sw s - y)))" by (auto simp: cell_at_def)
    then show ?L by blast
  qed (auto simp: cell_at_def)
  show ?thesis using pixel_grid_draws [OF assms paints_refl, where h = 16 and w = 8 and y = y and x = x and g = ?g]
    unfolding e c .
qed

text \<open>
  A character drawn at \<open>(x, y)\<close> is its glyph: the points of its cell of 8 by 16 have the
  foreground where the bit of the font's row is set, the most significant bit on the left, and the
  background elsewhere; only points in the clip are painted, and every other pixel keeps its colour.
\<close>

theorem font_drawchar_glyph:
  assumes "fb_ok s" and "0 \<le> px" and "px < sw s"
  shows "get_px (py * sw s + px) (font_drawchar x y c fg bg False s) =
    (if x \<le> px \<and> px < x + 8 \<and> y \<le> py \<and> py < y + 16 \<and> in_clip s px py
     then if glyph_bit (font_data c ! nat (py - y)) (nat (px - x)) then fg else bg
     else get_px (py * sw s + px) s)"
proof -
  have "0 < sw s" using assms(1) by (simp add: fb_ok_def)
  from div_mod_row [OF this assms(2, 3), of py]
  have "(py * sw s + px) div sw s = py" "(py * sw s + px) mod sw s = px" by blast+
  then show ?thesis
    using draws_get [OF font_drawchar_draws [OF assms(1), of x y c fg bg], of "py * sw s + px"]
    by (simp only: glyph_px_def cell_at_def) (simp split: if_split)
qed

lemma font_drawchar_glyph_witness:
  "get_px (4 * 64 + 5) (font_drawchar 2 1 0x41 7 9 False small_fb) = 7 \<and> get_px (4 * 64 + 3) (font_drawchar 2 1 0x41 7 9 False small_fb) = 9"
proof -
  have c: "in_clip small_fb 5 4" "in_clip small_fb 3 4" by (simp_all add: in_clip_def small_fb_def)
  have g: "font_data 0x41 ! 3 = 0x38" by (simp add: font_data_def glyphs_def)
  have "(0x38 :: u8) AND drop_bit 3 0x80 \<noteq> 0" "(0x38 :: u8) AND drop_bit 1 0x80 = 0" by (simp_all add: drop_bit_eq_div)
  then show ?thesis
    using font_drawchar_glyph [OF small_fb_simps(1), of 5 4 2 1 "0x41" 7 9] font_drawchar_glyph [OF small_fb_simps(1), of 3 4 2 1 "0x41" 7 9] c g
    by (simp add: small_fb_simps glyph_bit_def)
qed

end
