(* ===== verification/Gui_Fbterm.thy ===== *)
theory Gui_Fbterm
  imports Gui_Font
begin

text \<open>
  The framebuffer terminal, \<^verbatim>\<open>kernel/gui/fbterm.c\<close>: a cursor and two colours over the framebuffer.
  It is proved to display a grid of character cells, the abstract terminal, with every operation
  flushed to the card.
\<close>

definition FBT_MARGIN_TOP :: int where "FBT_MARGIN_TOP = 40"
definition FBT_MARGIN_BOTTOM :: int where "FBT_MARGIN_BOTTOM = 40"
definition FBT_MARGIN_LEFT :: int where "FBT_MARGIN_LEFT = 12"
definition FBT_MARGIN_RIGHT :: int where "FBT_MARGIN_RIGHT = 12"

lemmas margins = FBT_MARGIN_TOP_def FBT_MARGIN_BOTTOM_def FBT_MARGIN_LEFT_def FBT_MARGIN_RIGHT_def FONT_W_def FONT_H_def

record fbterm = fb +
  fbt_on :: bool
  fbt_col :: int
  fbt_row :: int
  fbt_cols :: int
  fbt_rows :: int
  fbt_fg :: u32
  fbt_bg :: u32

text \<open>Division of C, towards zero.\<close>

definition cdiv :: "int \<Rightarrow> int \<Rightarrow> int" where
  "cdiv a b = (if a < 0 then - (- a div b) else a div b)"

definition scroll_row :: "int \<Rightarrow> nat \<Rightarrow> int \<Rightarrow> 'a fb_scheme \<Rightarrow> 'a fb_scheme" where
  "scroll_row x0 w y s =
     (let dst = y * sw s + x0; src = (y + FONT_H) * sw s + x0
      in for_loop 0 w (\<lambda>x s. put_px (dst + int x) (get_px (src + int x) s) s) s)"

definition fbt_scroll :: "'a fbterm_scheme \<Rightarrow> 'a fbterm_scheme" where
  "fbt_scroll s =
     (let x0 = FBT_MARGIN_LEFT; y0 = FBT_MARGIN_TOP; w = fbt_cols s * FONT_W; h = (fbt_rows s - 1) * FONT_H;
          s = for_loop 0 (nat h) (\<lambda>k. scroll_row x0 (nat w) (y0 + int k)) s;
          s = fb_rect x0 (y0 + h) w FONT_H (fbt_bg s) s;
          s = s\<lparr>fbt_row := fbt_rows s - 1\<rparr>
      in fb_flush_rect x0 y0 w (h + FONT_H) s)"

definition fbt_erase :: "'a fbterm_scheme \<Rightarrow> 'a fbterm_scheme" where
  "fbt_erase s =
     fb_flush_rect FBT_MARGIN_LEFT FBT_MARGIN_TOP (fbt_cols s * FONT_W) (fbt_rows s * FONT_H)
       (fb_rect FBT_MARGIN_LEFT FBT_MARGIN_TOP (fbt_cols s * FONT_W) (fbt_rows s * FONT_H) (fbt_bg s) s)"

definition fbterm_init :: "'a fbterm_scheme \<Rightarrow> 'a fbterm_scheme" where
  "fbterm_init s =
     (if \<not> fb_set s \<or> fb_width s = 0 then s
      else fbt_erase (s\<lparr>fbt_on := True, fbt_cols := cdiv (sw s - FBT_MARGIN_LEFT - FBT_MARGIN_RIGHT) FONT_W,
             fbt_rows := cdiv (sh s - FBT_MARGIN_TOP - FBT_MARGIN_BOTTOM) FONT_H, fbt_col := 0, fbt_row := 0\<rparr>))"

definition fbterm_active :: "'a fbterm_scheme \<Rightarrow> bool" where "fbterm_active s = fbt_on s"

definition fbterm_flush :: "'a fbterm_scheme \<Rightarrow> 'a fbterm_scheme" where "fbterm_flush s = s"

definition fbterm_setcolor :: "u32 \<Rightarrow> u32 \<Rightarrow> 'a fbterm_scheme \<Rightarrow> 'a fbterm_scheme" where
  "fbterm_setcolor fg bg s = s\<lparr>fbt_fg := fg, fbt_bg := bg\<rparr>"

definition fbterm_clear :: "'a fbterm_scheme \<Rightarrow> 'a fbterm_scheme" where
  "fbterm_clear s = (if \<not> fbt_on s then s else (fbt_erase s)\<lparr>fbt_col := 0, fbt_row := 0\<rparr>)"

definition fbt_newline :: "'a fbterm_scheme \<Rightarrow> 'a fbterm_scheme" where
  "fbt_newline s =
     (let s = s\<lparr>fbt_col := 0, fbt_row := fbt_row s + 1\<rparr> in if fbt_rows s \<le> fbt_row s then fbt_scroll s else s)"

text \<open>The end of \<^verbatim>\<open>fbterm_putchar\<close>, for every character that is not a control character.\<close>

definition fbt_plain :: "u8 \<Rightarrow> 'a fbterm_scheme \<Rightarrow> 'a fbterm_scheme" where
  "fbt_plain c s =
     (let px = FBT_MARGIN_LEFT + fbt_col s * FONT_W; py = FBT_MARGIN_TOP + fbt_row s * FONT_H;
          s = font_drawchar px py c (fbt_fg s) (fbt_bg s) False s;
          s = fb_flush_rect px py FONT_W FONT_H s;
          s = s\<lparr>fbt_col := fbt_col s + 1\<rparr>
      in if fbt_cols s \<le> fbt_col s then fbt_newline s else s)"

definition fbterm_putchar :: "u8 \<Rightarrow> 'a fbterm_scheme \<Rightarrow> 'a fbterm_scheme" where
  "fbterm_putchar c s =
     (if \<not> fbt_on s then s
      else if c = 10 then fbt_newline s
      else if c = 13 then s\<lparr>fbt_col := 0\<rparr>
      else if c = 9 then for_loop 0 (nat (8 - fbt_col s mod 8)) (\<lambda>_. fbt_plain 32) s
      else if c = 8 then
        (if 0 < fbt_col s then
           (let s = s\<lparr>fbt_col := fbt_col s - 1\<rparr>;
                px = FBT_MARGIN_LEFT + fbt_col s * FONT_W; py = FBT_MARGIN_TOP + fbt_row s * FONT_H
            in fb_flush_rect px py FONT_W FONT_H (fb_rect px py FONT_W FONT_H (fbt_bg s) s))
         else s)
      else fbt_plain c s)"

text \<open>Up to the zero byte.\<close>

fun fbterm_write :: "u8 list \<Rightarrow> 'a fbterm_scheme \<Rightarrow> 'a fbterm_scheme" where
  "fbterm_write [] s = s"
| "fbterm_write (c # cs) s = (if c = 0 then s else fbterm_write cs (fbterm_putchar c s))"

definition fbterm_writeline :: "u8 list \<Rightarrow> 'a fbterm_scheme \<Rightarrow> 'a fbterm_scheme" where
  "fbterm_writeline str s = fbterm_putchar 10 (fbterm_write str s)"

section \<open>The abstract terminal\<close>

text \<open>A grid of cells, each a character with its colours, and a cursor.\<close>

type_synonym cell = "u8 \<times> u32 \<times> u32"

record grid =
  g_cols :: int
  g_rows :: int
  g_col :: int
  g_row :: int
  g_fg :: u32
  g_bg :: u32
  cells :: "int \<Rightarrow> int \<Rightarrow> cell"

definition g_blank :: "grid \<Rightarrow> cell" where "g_blank g = (32, g_fg g, g_bg g)"

definition g_newline :: "grid \<Rightarrow> grid" where
  "g_newline g =
     (if g_row g + 1 < g_rows g then g\<lparr>g_col := 0, g_row := g_row g + 1\<rparr>
      else g\<lparr>g_col := 0, g_row := g_rows g - 1,
             cells := (\<lambda>r. if r = g_rows g - 1 then (\<lambda>c. g_blank g) else cells g (r + 1))\<rparr>)"

definition g_set :: "int \<Rightarrow> int \<Rightarrow> cell \<Rightarrow> grid \<Rightarrow> grid" where
  "g_set r c x g = g\<lparr>cells := (cells g)(r := (cells g r)(c := x))\<rparr>"

definition g_plain :: "u8 \<Rightarrow> grid \<Rightarrow> grid" where
  "g_plain k g =
     (let g = g_set (g_row g) (g_col g) (k, g_fg g, g_bg g) g
      in if g_col g + 1 < g_cols g then g\<lparr>g_col := g_col g + 1\<rparr> else g_newline g)"

definition g_putchar :: "u8 \<Rightarrow> grid \<Rightarrow> grid" where
  "g_putchar c g =
     (if c = 10 then g_newline g
      else if c = 13 then g\<lparr>g_col := 0\<rparr>
      else if c = 9 then (g_plain 32 ^^ nat (8 - g_col g mod 8)) g
      else if c = 8 then
        (if 0 < g_col g then g_set (g_row g) (g_col g - 1) (g_blank g) (g\<lparr>g_col := g_col g - 1\<rparr>) else g)
      else g_plain c g)"

definition g_cursor_ok :: "grid \<Rightarrow> bool" where
  "g_cursor_ok g \<longleftrightarrow> 0 \<le> g_col g \<and> g_col g < g_cols g \<and> 0 \<le> g_row g \<and> g_row g < g_rows g"

section \<open>The screen shows the grid\<close>

text \<open>
  The text area lies on the screen, the clip is the whole screen as \<^verbatim>\<open>fb_init\<close> leaves it, and
  drawing goes through the back buffer to a card of 32 bits per pixel.
\<close>

definition term_geo :: "'a fbterm_scheme \<Rightarrow> bool" where
  "term_geo s \<longleftrightarrow> fbt_on s \<and> fb_ok s \<and> clip_x s = 0 \<and> clip_y s = 0 \<and> clip_w s = sw s \<and> clip_h s = sh s \<and>
     \<not> fb_direct s \<and> fb_bpp s = 32 \<and> 4 * sw s \<le> uint (fb_pitch s) \<and> 0 < fbt_cols s \<and> 12 + 8 * fbt_cols s \<le> sw s \<and>
     0 < fbt_rows s \<and> 40 + 16 * fbt_rows s \<le> sh s"

definition text_area :: "'a fbterm_scheme \<Rightarrow> int \<Rightarrow> int \<Rightarrow> bool" where
  "text_area s px py \<longleftrightarrow> 12 \<le> px \<and> px < 12 + 8 * fbt_cols s \<and> 40 \<le> py \<and> py < 40 + 16 * fbt_rows s"

abbreviation back_px :: "'a fb_scheme \<Rightarrow> int \<Rightarrow> int \<Rightarrow> u32" where
  "back_px s px py \<equiv> get_px (py * sw s + px) s"

definition cell_px :: "cell \<Rightarrow> nat \<Rightarrow> nat \<Rightarrow> u32" where
  "cell_px x row col = (case x of (c, fg, bg) \<Rightarrow> glyph_px c fg bg row col)"

text \<open>
  \<open>displays s g\<close>: cursor and colours are the grid's, the back buffer has the picture of every cell,
  and the card shows it.
\<close>

definition displays :: "'a fbterm_scheme \<Rightarrow> grid \<Rightarrow> bool" where
  "displays s g \<longleftrightarrow> term_geo s \<and>
     (fbt_cols s, fbt_rows s, fbt_col s, fbt_row s, fbt_fg s, fbt_bg s) = (g_cols g, g_rows g, g_col g, g_row g, g_fg g, g_bg g) \<and>
     (\<forall>px py. text_area s px py \<longrightarrow> shown s px py = back_px s px py) \<and>
     (\<forall>r c i j. 0 \<le> r \<and> r < g_rows g \<and> 0 \<le> c \<and> c < g_cols g \<and> i < 16 \<and> j < 8 \<longrightarrow>
        back_px s (12 + 8 * c + int j) (40 + 16 * r + int i) = cell_px (cells g r c) i j)"

definition keeps_outside :: "'a fbterm_scheme \<Rightarrow> 'a fbterm_scheme \<Rightarrow> bool" where
  "keeps_outside s t \<longleftrightarrow> sw t = sw s \<and> fbt_cols t = fbt_cols s \<and> fbt_rows t = fbt_rows s \<and> (\<forall>px py. 0 \<le> px \<and> px < sw s \<and> \<not> text_area s px py \<longrightarrow>
     back_px t px py = back_px s px py \<and> shown t px py = shown s px py)"

lemma keeps_outside_refl: "keeps_outside s s" by (simp add: keeps_outside_def)

lemma keeps_outside_trans: "keeps_outside s t \<Longrightarrow> keeps_outside t u \<Longrightarrow> keeps_outside s u"
  by (auto simp: keeps_outside_def text_area_def)

text \<open>The terminal's fields are behind the framebuffer's.\<close>

lemma fbterm_fields_more:
  assumes "fb.more (t :: 'a fbterm_scheme) = fb.more s"
  shows "fbt_on t = fbt_on s" "fbt_col t = fbt_col s" "fbt_row t = fbt_row s" "fbt_cols t = fbt_cols s" "fbt_rows t = fbt_rows s"
    "fbt_fg t = fbt_fg s" "fbt_bg t = fbt_bg s" "fbterm.more t = fbterm.more s"
  using assms by (cases s, cases t, simp)+

lemma term_geo_same:
  assumes "fb.more (t :: 'a fbterm_scheme) = fb.more s" "fb_direct t = fb_direct s" "sw t = sw s" "sh t = sh s" "fb_pitch t = fb_pitch s"
    "fb_bpp t = fb_bpp s" "clip_x t = clip_x s" "clip_y t = clip_y s" "clip_w t = clip_w s" "clip_h t = clip_h s"
  shows "term_geo t = term_geo s" "text_area t = text_area s"
  using assms fbterm_fields_more [OF assms(1)] by (auto simp: term_geo_def fb_ok_def text_area_def fun_eq_iff)

lemma back_px_copies: "copies s t \<Longrightarrow> \<not> fb_direct s \<Longrightarrow> get_px j t = get_px j s"
  by (simp add: get_px_def copiesD)

lemma shown_paints: "paints s t \<Longrightarrow> \<not> fb_direct s \<Longrightarrow> shown t px py = shown s px py"
  by (simp add: shown_def hw_at_def paintsD)

text \<open>Painting inside a rectangle of the text area and flushing that rectangle.\<close>

lemma paint_and_flush:
  assumes geo: "term_geo s" and m: "draws m s t"
    and rect: "12 \<le> x" "x + w \<le> 12 + 8 * fbt_cols s" "40 \<le> y" "y + h \<le> 40 + 16 * fbt_rows s"
    and m_in: "\<And>j. m j \<noteq> None \<Longrightarrow> rect_at (sw s) x y (x + w) (y + h) j"
    and agree: "\<And>px py. text_area s px py \<Longrightarrow> \<not> (x \<le> px \<and> px < x + w \<and> y \<le> py \<and> py < y + h) \<Longrightarrow> shown s px py = back_px s px py"
  shows "term_geo (fb_flush_rect x y w h t)" and "fb.more (fb_flush_rect x y w h t) = fb.more s"
    and "sw (fb_flush_rect x y w h t) = sw s"
    and "get_px j (fb_flush_rect x y w h t) = (case m j of None \<Rightarrow> get_px j s | Some c \<Rightarrow> c)"
    and "text_area s px py \<Longrightarrow> shown (fb_flush_rect x y w h t) px py = back_px (fb_flush_rect x y w h t) px py"
    and "keeps_outside s (fb_flush_rect x y w h t)"
proof -
  let ?u = "fb_flush_rect x y w h t"
  have p: "paints s t" using m by (rule draws_paints)
  note d = geo [unfolded term_geo_def fb_ok_def]
  have t: "\<not> fb_direct t" "fb_bpp t = 32" "4 * sw t \<le> uint (fb_pitch t)" using d by (simp_all add: paintsD [OF p])
  have f: "copies t ?u \<and> shown ?u px py = (if x \<le> px \<and> px < x + w \<and> y \<le> py \<and> py < y + h \<and> 0 \<le> py \<and> py < sh s
      then fb_back t (py * sw s + px) else shown t px py)" if "0 \<le> px" "px < sw s" for px py
    using fb_flush_rect_copies_shows [OF t, of px x y w h py] that by (simp add: paintsD [OF p])
  have c: "copies t ?u" using f [of 0 0] d by simp
  have sw: "sw ?u = sw s" using copiesD(14) [OF c] paintsD(14) [OF p] by simp
  have g: "get_px j ?u = (case m j of None \<Rightarrow> get_px j s | Some c \<Rightarrow> c)" for j
    using back_px_copies [OF c t(1)] draws_get [OF m] by simp
  have more: "fb.more ?u = fb.more s" using copiesD(11) [OF c] paintsD(11) [OF p] by simp
  show "term_geo ?u"
    using term_geo_same(1) [OF more] geo by (simp add: copiesD [OF c] paintsD [OF p])
  show "fb.more ?u = fb.more s" by (rule more)
  show "sw ?u = sw s" by (rule sw)
  show "get_px j ?u = (case m j of None \<Rightarrow> get_px j s | Some c \<Rightarrow> c)" by (rule g)
  have out: "back_px ?u px py = back_px s px py \<and> shown ?u px py = shown s px py"
    if px: "0 \<le> px" "px < sw s" and n: "\<not> (x \<le> px \<and> px < x + w \<and> y \<le> py \<and> py < y + h)" for px py
  proof -
    have "\<not> rect_at (sw s) x y (x + w) (y + h) (py * sw s + px)" using n d px by (auto simp: rect_at_def)
    then have "m (py * sw s + px) = None" using m_in by (cases "m (py * sw s + px)") auto
    then have "back_px ?u px py = back_px s px py" by (simp add: g sw)
    moreover have "shown ?u px py = shown s px py" using f [OF px, of py] n shown_paints [OF p] d by auto
    ultimately show ?thesis by blast
  qed
  show "shown ?u px py = back_px ?u px py" if a: "text_area s px py" for px py
  proof -
    have px: "0 \<le> px" "px < sw s" "0 \<le> py" "py < sh s" using a d by (auto simp: text_area_def)
    show ?thesis
    proof (cases "x \<le> px \<and> px < x + w \<and> y \<le> py \<and> py < y + h")
      case True
      then have "shown ?u px py = fb_back t (py * sw s + px)" using f [OF px(1, 2), of py] px by simp
      also have "\<dots> = get_px (py * sw s + px) t" using t(1) by (simp add: get_px_def)
      also have "\<dots> = back_px ?u px py" using back_px_copies [OF c t(1)] sw by simp
      finally show ?thesis .
    next
      case False
      then show ?thesis using out [OF px(1, 2) False] agree [OF a False] by simp
    qed
  qed
  show "keeps_outside s ?u"
    unfolding keeps_outside_def using out rect sw fbterm_fields_more [OF more] by (auto simp: text_area_def)
qed

section \<open>The operations are the grid's\<close>

lemma px_fields [simp]:
  "get_px k (s\<lparr>fbt_col := a\<rparr>) = get_px k s" "get_px k (s\<lparr>fbt_row := a\<rparr>) = get_px k s" "get_px k (s\<lparr>fbt_fg := w\<rparr>) = get_px k s"
  "get_px k (s\<lparr>fbt_bg := w\<rparr>) = get_px k s"
  "shown (s\<lparr>fbt_col := a\<rparr>) = shown s" "shown (s\<lparr>fbt_row := a\<rparr>) = shown s" "shown (s\<lparr>fbt_fg := w\<rparr>) = shown s"
  "shown (s\<lparr>fbt_bg := w\<rparr>) = shown s"
  "sw (s\<lparr>fbt_col := a\<rparr>) = sw s" "sw (s\<lparr>fbt_row := a\<rparr>) = sw s" "sw (s\<lparr>fbt_fg := w\<rparr>) = sw s" "sw (s\<lparr>fbt_bg := w\<rparr>) = sw s"
  "sh (s\<lparr>fbt_col := a\<rparr>) = sh s" "sh (s\<lparr>fbt_row := a\<rparr>) = sh s" "sh (s\<lparr>fbt_fg := w\<rparr>) = sh s" "sh (s\<lparr>fbt_bg := w\<rparr>) = sh s"
  by (simp_all add: get_px_def shown_def hw_at_def sw_def sh_def fun_eq_iff)

lemma displays_col: "displays s g \<Longrightarrow> displays (s\<lparr>fbt_col := a\<rparr>) (g\<lparr>g_col := a\<rparr>)"
  by (simp add: displays_def term_geo_def fb_ok_def text_area_def)

lemma displays_row: "displays s g \<Longrightarrow> displays (s\<lparr>fbt_row := a\<rparr>) (g\<lparr>g_row := a\<rparr>)"
  by (simp add: displays_def term_geo_def fb_ok_def text_area_def)

lemma displays_fg: "displays s g \<Longrightarrow> displays (s\<lparr>fbt_fg := a\<rparr>) (g\<lparr>g_fg := a\<rparr>)"
  by (simp add: displays_def term_geo_def fb_ok_def text_area_def)

lemma displays_bg: "displays s g \<Longrightarrow> displays (s\<lparr>fbt_bg := a\<rparr>) (g\<lparr>g_bg := a\<rparr>)"
  by (simp add: displays_def term_geo_def fb_ok_def text_area_def)

lemmas displays_fields = displays_col displays_row displays_fg displays_bg

lemma keeps_fields [simp]:
  "keeps_outside s (t\<lparr>fbt_col := a\<rparr>) = keeps_outside s t" "keeps_outside s (t\<lparr>fbt_row := a\<rparr>) = keeps_outside s t"
  "keeps_outside (s\<lparr>fbt_col := a\<rparr>) t = keeps_outside s t" "keeps_outside (s\<lparr>fbt_row := a\<rparr>) t = keeps_outside s t"
  "keeps_outside s (t\<lparr>fbt_fg := w\<rparr>) = keeps_outside s t" "keeps_outside s (t\<lparr>fbt_bg := w\<rparr>) = keeps_outside s t"
  by (simp_all add: keeps_outside_def text_area_def)

lemma draws_row: "draws m s t \<Longrightarrow> draws m (s\<lparr>fbt_row := a\<rparr>) (t\<lparr>fbt_row := a\<rparr>)"
proof -
  assume d: "draws m s t"
  then have p: "paints s t" by (rule draws_paints)
  have "paints (s\<lparr>fbt_row := a\<rparr>) (t\<lparr>fbt_row := a\<rparr>)"
  proof (cases "fb_direct s")
    case True
    then obtain h where "t = s\<lparr>fb_hw := h\<rparr>" using p by (auto simp: paints_def)
    then have "t\<lparr>fbt_row := a\<rparr> = s\<lparr>fbt_row := a, fb_hw := h\<rparr>" by simp
    with True show ?thesis unfolding paints_def by auto
  next
    case False
    then obtain b where "t = s\<lparr>fb_back := b\<rparr>" using p by (auto simp: paints_def)
    then have "t\<lparr>fbt_row := a\<rparr> = s\<lparr>fbt_row := a, fb_back := b\<rparr>" by simp
    with False show ?thesis unfolding paints_def by auto
  qed
  with d show ?thesis by (simp add: draws_def split: option.split)
qed

text \<open>The point of a cell, as an index.\<close>

lemma cell_point:
  assumes "term_geo s" "0 \<le> r" "r < fbt_rows s" "0 \<le> c" "c < fbt_cols s" "i < 16" "j < 8"
  shows "((40 + 16 * r + int i) * sw s + (12 + 8 * c + int j)) div sw s = 40 + 16 * r + int i \<and>
    ((40 + 16 * r + int i) * sw s + (12 + 8 * c + int j)) mod sw s = 12 + 8 * c + int j \<and>
    in_clip s (12 + 8 * c + int j) (40 + 16 * r + int i)"
proof -
  note d = assms(1) [unfolded term_geo_def fb_ok_def]
  have px: "0 \<le> 12 + 8 * c + int j" "12 + 8 * c + int j < sw s" "0 \<le> 40 + 16 * r + int i" "40 + 16 * r + int i < sh s"
    using assms d by linarith+
  then have "in_clip s (12 + 8 * c + int j) (40 + 16 * r + int i)" using d by (simp add: in_clip_def)
  moreover have "0 < sw s" using d by blast
  from div_mod_row [OF this px(1, 2), of "40 + 16 * r + int i"] show ?thesis using calculation by blast
qed

text \<open>Repainting a rectangle with the pictures of new cells.\<close>

lemma displays_repaint:
  assumes s: "displays s g" and m: "draws m s t"
    and rect: "12 \<le> x" "x + w \<le> 12 + 8 * fbt_cols s" "40 \<le> y" "y + h \<le> 40 + 16 * fbt_rows s"
    and m_in: "\<And>j. m j \<noteq> None \<Longrightarrow> rect_at (sw s) x y (x + w) (y + h) j"
    and new: "\<And>r c i j. 0 \<le> r \<Longrightarrow> r < g_rows g \<Longrightarrow> 0 \<le> c \<Longrightarrow> c < g_cols g \<Longrightarrow> i < 16 \<Longrightarrow> j < 8 \<Longrightarrow>
      (case m ((40 + 16 * r + int i) * sw s + (12 + 8 * c + int j)) of None \<Rightarrow> cell_px (cells g r c) i j | Some k \<Rightarrow> k) = cell_px (f r c) i j"
  shows "displays (fb_flush_rect x y w h t) (g\<lparr>cells := f\<rparr>) \<and> keeps_outside s (fb_flush_rect x y w h t)"
proof -
  let ?u = "fb_flush_rect x y w h t"
  note ds = s [unfolded displays_def]
  have agree: "shown s px py = back_px s px py"
    if "text_area s px py" "\<not> (x \<le> px \<and> px < x + w \<and> y \<le> py \<and> py < y + h)" for px py
    using ds that by blast
  have geo: "term_geo s" using ds by blast
  note pf = paint_and_flush [OF geo m rect m_in agree]
  have more: "fb.more ?u = fb.more s" by (rule pf(2))
  have sw': "sw ?u = sw s" by (rule pf(3))
  have gp: "get_px k ?u = (case m k of None \<Rightarrow> get_px k s | Some c \<Rightarrow> c)" for k by (rule pf(4))
  note fm = fbterm_fields_more [OF more]
  have "text_area ?u = text_area s" by (simp add: text_area_def fm fun_eq_iff)
  then have a: "shown ?u px py = back_px ?u px py" if "text_area ?u px py" for px py using pf(5) that by simp
  have b: "back_px ?u (12 + 8 * c + int j) (40 + 16 * r + int i) = cell_px (f r c) i j"
    if "0 \<le> r" "r < g_rows g" "0 \<le> c" "c < g_cols g" "i < 16" "j < 8" for r c i j
  proof -
    have "back_px s (12 + 8 * c + int j) (40 + 16 * r + int i) = cell_px (cells g r c) i j" using ds that by blast
    then have "(case m ((40 + 16 * r + int i) * sw s + (12 + 8 * c + int j)) of
        None \<Rightarrow> back_px s (12 + 8 * c + int j) (40 + 16 * r + int i) | Some k \<Rightarrow> k) = cell_px (f r c) i j"
      using new [OF that] by (simp only:)
    moreover have "back_px ?u (12 + 8 * c + int j) (40 + 16 * r + int i) =
      (case m ((40 + 16 * r + int i) * sw s + (12 + 8 * c + int j)) of
        None \<Rightarrow> back_px s (12 + 8 * c + int j) (40 + 16 * r + int i) | Some k \<Rightarrow> k)"
      unfolding sw' by (rule gp)
    ultimately show ?thesis by (rule trans [rotated])
  qed
  show ?thesis using a b pf(1, 6) ds unfolding displays_def by (auto simp: fm)
qed

lemma displays_rows: "displays s g \<Longrightarrow> fbt_rows s = g_rows g \<and> fbt_cols s = g_cols g \<and> fbt_col s = g_col g \<and> fbt_row s = g_row g \<and>
    fbt_fg s = g_fg g \<and> fbt_bg s = g_bg g \<and> term_geo s"
  by (simp add: displays_def)

text \<open>One cell, painted as a character.\<close>

lemma cell_unique: "i < 16 \<Longrightarrow> j < 8 \<Longrightarrow> cell_at (12 + 8 * c) (40 + 16 * r) (12 + 8 * c' + int j) (40 + 16 * r' + int i) \<longleftrightarrow> r' = r \<and> c' = c"
  by (auto simp: cell_at_def)

lemma cell_span:
  assumes "term_geo s" "0 \<le> r" "r < fbt_rows s" "0 \<le> c" "c < fbt_cols s"
  shows "12 \<le> 12 + 8 * c \<and> 12 + 8 * c + 8 \<le> 12 + 8 * fbt_cols s \<and> 40 \<le> 40 + 16 * r \<and> 40 + 16 * r + 16 \<le> 40 + 16 * fbt_rows s"
  using assms by auto

lemma char_displays:
  assumes s: "displays s g" and rc: "0 \<le> r" "r < g_rows g" "0 \<le> c" "c < g_cols g"
  shows "displays (fb_flush_rect (12 + 8 * c) (40 + 16 * r) 8 16 (font_drawchar (12 + 8 * c) (40 + 16 * r) k fg bg False s)) (g_set r c (k, fg, bg) g) \<and>
    keeps_outside s (fb_flush_rect (12 + 8 * c) (40 + 16 * r) 8 16 (font_drawchar (12 + 8 * c) (40 + 16 * r) k fg bg False s))"
proof -
  note dr = displays_rows [OF s]
  then have geo: "term_geo s" and ok: "fb_ok s" by (simp_all add: term_geo_def)
  note sp = cell_span [OF geo, of r c]
  let ?m = "\<lambda>j. if cell_at (12 + 8 * c) (40 + 16 * r) (j mod sw s) (j div sw s) \<and> in_clip s (j mod sw s) (j div sw s)
      then Some (glyph_px k fg bg (nat (j div sw s - (40 + 16 * r))) (nat (j mod sw s - (12 + 8 * c)))) else None"
  have "displays (fb_flush_rect (12 + 8 * c) (40 + 16 * r) 8 16 (font_drawchar (12 + 8 * c) (40 + 16 * r) k fg bg False s))
      (g\<lparr>cells := (cells g)(r := (cells g r)(c := (k, fg, bg)))\<rparr>) \<and>
    keeps_outside s (fb_flush_rect (12 + 8 * c) (40 + 16 * r) 8 16 (font_drawchar (12 + 8 * c) (40 + 16 * r) k fg bg False s))"
  proof (rule displays_repaint [OF s font_drawchar_draws [OF ok]])
    fix j assume "?m j \<noteq> None"
    then show "rect_at (sw s) (12 + 8 * c) (40 + 16 * r) (12 + 8 * c + 8) (40 + 16 * r + 16) j"
      by (auto simp: rect_at_def cell_at_def split: if_splits)
  next
    fix r' c' i j assume h: "0 \<le> r'" "r' < g_rows g" "0 \<le> c'" "c' < g_cols g" "i < (16 :: nat)" "j < (8 :: nat)"
    let ?k = "(40 + 16 * r' + int i) * sw s + (12 + 8 * c' + int j)"
    have p: "?k div sw s = 40 + 16 * r' + int i" "?k mod sw s = 12 + 8 * c' + int j" "in_clip s (12 + 8 * c' + int j) (40 + 16 * r' + int i)"
      using cell_point [OF geo, of r' c' i j] h dr by auto
    show "(case ?m ?k of None \<Rightarrow> cell_px (cells g r' c') i j | Some k \<Rightarrow> k) = cell_px (((cells g)(r := (cells g r)(c := (k, fg, bg)))) r' c') i j"
      unfolding p cell_unique [OF h(5, 6)] using p(3) by (simp add: cell_px_def)
  qed (use sp rc dr in auto)
  then show ?thesis by (simp add: g_set_def)
qed

text \<open>A rectangle of cells, painted in the background: blank cells.\<close>

lemma rect_displays:
  assumes s: "displays s g" and rc: "0 \<le> r" "r + n \<le> g_rows g" "0 \<le> c" "c + k \<le> g_cols g"
  shows "displays (fb_flush_rect (12 + 8 * c) (40 + 16 * r) (8 * k) (16 * n) (fb_rect (12 + 8 * c) (40 + 16 * r) (8 * k) (16 * n) (fbt_bg s) s))
      (g\<lparr>cells := (\<lambda>r' c'. if r \<le> r' \<and> r' < r + n \<and> c \<le> c' \<and> c' < c + k then g_blank g else cells g r' c')\<rparr>) \<and>
    keeps_outside s (fb_flush_rect (12 + 8 * c) (40 + 16 * r) (8 * k) (16 * n) (fb_rect (12 + 8 * c) (40 + 16 * r) (8 * k) (16 * n) (fbt_bg s) s))"
proof -
  note dr = displays_rows [OF s]
  then have geo: "term_geo s" and ok: "fb_ok s" by (simp_all add: term_geo_def)
  let ?A = "\<lambda>j. rect_at (sw s) (12 + 8 * c) (40 + 16 * r) (12 + 8 * c + 8 * k) (40 + 16 * r + 16 * n) j \<and> in_clip s (j mod sw s) (j div sw s)"
  show ?thesis
  proof (rule displays_repaint [OF s fb_rect_draws [OF ok]])
    fix j assume "paint_map ?A (fbt_bg s) j \<noteq> None"
    then show "rect_at (sw s) (12 + 8 * c) (40 + 16 * r) (12 + 8 * c + 8 * k) (40 + 16 * r + 16 * n) j"
      by (auto simp: paint_map_def split: if_splits)
  next
    fix r' c' i j assume h: "0 \<le> r'" "r' < g_rows g" "0 \<le> c'" "c' < g_cols g" "i < (16 :: nat)" "j < (8 :: nat)"
    let ?k = "(40 + 16 * r' + int i) * sw s + (12 + 8 * c' + int j)"
    have p: "?k div sw s = 40 + 16 * r' + int i" "?k mod sw s = 12 + 8 * c' + int j" "in_clip s (12 + 8 * c' + int j) (40 + 16 * r' + int i)"
      using cell_point [OF geo, of r' c' i j] h dr by auto
    have A: "?A ?k \<longleftrightarrow> r \<le> r' \<and> r' < r + n \<and> c \<le> c' \<and> c' < c + k"
      unfolding rect_at_def p using p(3) h(5, 6) by auto
    show "(case paint_map ?A (fbt_bg s) ?k of None \<Rightarrow> cell_px (cells g r' c') i j | Some k \<Rightarrow> k) =
        cell_px (if r \<le> r' \<and> r' < r + n \<and> c \<le> c' \<and> c' < c + k then g_blank g else cells g r' c') i j"
      unfolding paint_map_def A using dr h(5) by (simp add: cell_px_def g_blank_def glyph_blank)
  qed (use rc dr in auto)
qed

section \<open>Scrolling\<close>

lemma scroll_row_draws:
  assumes "0 < sw s" "0 \<le> x0" "x0 + int w \<le> sw s"
  shows "draws (\<lambda>j. if j div sw s = y \<and> x0 \<le> j mod sw s \<and> j mod sw s < x0 + int w then Some (get_px (j + 16 * sw s) s) else None) s
    (scroll_row x0 w y s)"
proof -
  let ?d = "y * sw s + x0"
  have "draws (\<lambda>j. if ?d \<le> j \<and> j < ?d + int w then Some (get_px (j + 16 * sw s) s) else None) s (scroll_row x0 w y s)"
    unfolding scroll_row_def Let_def FONT_H_def
  proof (rule for_loop_invariant [where P = "\<lambda>k t. draws (\<lambda>j. if ?d \<le> j \<and> j < ?d + int k then Some (get_px (j + 16 * sw s) s) else None) s t"])
    show "draws (\<lambda>j. if ?d \<le> j \<and> j < ?d + int 0 then Some (get_px (j + 16 * sw s) s) else None) s s"
      by (rule draws_cong [OF draws_refl]) simp
    fix k t assume k: "k < w" and t: "draws (\<lambda>j. if ?d \<le> j \<and> j < ?d + int k then Some (get_px (j + 16 * sw s) s) else None) s t"
    have src: "(y + 16) * sw s + x0 + int k = ?d + int k + 16 * sw s" by (simp add: distrib_right)
    have "\<not> (?d + int k + 16 * sw s < ?d + int k)" using assms(1) by simp
    then have g: "get_px ((y + 16) * sw s + x0 + int k) t = get_px (?d + int k + 16 * sw s) s"
      unfolding draws_get [OF t] src by simp
    show "draws (\<lambda>j. if ?d \<le> j \<and> j < ?d + int (Suc k) then Some (get_px (j + 16 * sw s) s) else None) s
        (put_px (?d + int k) (get_px ((y + 16) * sw s + x0 + int k) t) t)"
      unfolding g by (rule draws_cong [OF draws_trans [OF t put_px_draws]]) (auto simp: map_add_def)
  qed simp
  moreover have "?d \<le> j \<and> j < ?d + int w \<longleftrightarrow> j div sw s = y \<and> x0 \<le> j mod sw s \<and> j mod sw s < x0 + int w" for j
    using row_span [OF assms(1, 2), of "x0 + int w" y j] assms(3) by (simp add: add.assoc)
  ultimately show ?thesis by simp
qed

lemma scroll_rows_draws:
  assumes "0 < sw s" "0 \<le> x0" "x0 + int w \<le> sw s"
  shows "draws (\<lambda>j. if y0 \<le> j div sw s \<and> j div sw s < y0 + int n \<and> x0 \<le> j mod sw s \<and> j mod sw s < x0 + int w
      then Some (get_px (j + 16 * sw s) s) else None) s
    (for_loop 0 n (\<lambda>k. scroll_row x0 w (y0 + int k)) s)"
proof (rule for_loop_invariant [where P = "\<lambda>k t. draws (\<lambda>j. if y0 \<le> j div sw s \<and> j div sw s < y0 + int k \<and> x0 \<le> j mod sw s \<and> j mod sw s < x0 + int w
      then Some (get_px (j + 16 * sw s) s) else None) s t"])
  show "draws (\<lambda>j. if y0 \<le> j div sw s \<and> j div sw s < y0 + int 0 \<and> x0 \<le> j mod sw s \<and> j mod sw s < x0 + int w
      then Some (get_px (j + 16 * sw s) s) else None) s s"
    by (rule draws_cong [OF draws_refl]) auto
  fix k t
  let ?m = "\<lambda>k j. if y0 \<le> j div sw s \<and> j div sw s < y0 + int k \<and> x0 \<le> j mod sw s \<and> j mod sw s < x0 + int w
      then Some (get_px (j + 16 * sw s) s) else None"
  assume t: "draws (?m k) s t"
  note p = draws_paints [OF t]
  have up: "(j + 16 * sw s) div sw s = j div sw s + 16" for j using assms(1) by simp
  have n: "draws (\<lambda>j. if j div sw s = y0 + int k \<and> x0 \<le> j mod sw s \<and> j mod sw s < x0 + int w then Some (get_px (j + 16 * sw s) t) else None) t
      (scroll_row x0 w (y0 + int k) t)"
    using scroll_row_draws [of t x0 w "y0 + int k"] assms unfolding paintsD(14) [OF p] .
  have g: "get_px (j + 16 * sw s) t = get_px (j + 16 * sw s) s" if "j div sw s = y0 + int k" for j
    unfolding draws_get [OF t] up using that by simp
  show "draws (?m (Suc k)) s (scroll_row x0 w (y0 + int k) t)"
    by (rule draws_cong [OF draws_trans [OF t n]]) (auto simp: map_add_def g)
qed simp

lemma fbt_scroll_displays:
  assumes s: "displays s g"
  shows "displays (fbt_scroll s) (g\<lparr>g_row := g_rows g - 1, cells := (\<lambda>r. if r = g_rows g - 1 then (\<lambda>c. g_blank g) else cells g (r + 1))\<rparr>) \<and>
    keeps_outside s (fbt_scroll s)"
proof -
  note dr = displays_rows [OF s]
  then have geo: "term_geo s" and ok: "fb_ok s" by (simp_all add: term_geo_def)
  note d = geo [unfolded term_geo_def fb_ok_def]
  define w where "w = 8 * fbt_cols s"
  define n where "n = nat (16 * (fbt_rows s - 1))"
  have n: "int n = 16 * (fbt_rows s - 1)" using d by (simp add: n_def)
  have w: "0 < sw s" "12 + int (nat w) \<le> sw s" "int (nat w) = w" using d by (auto simp: w_def)
  define s1 where "s1 = for_loop 0 n (\<lambda>k. scroll_row 12 (nat w) (40 + int k)) s"
  define s2 where "s2 = fb_rect 12 (40 + int n) w 16 (fbt_bg s) s1"
  let ?s = "s\<lparr>fbt_row := fbt_rows s - 1\<rparr>" and ?t = "s2\<lparr>fbt_row := fbt_rows s - 1\<rparr>"
  let ?m1 = "\<lambda>j. if 40 \<le> j div sw s \<and> j div sw s < 40 + int n \<and> 12 \<le> j mod sw s \<and> j mod sw s < 12 + int (nat w)
      then Some (get_px (j + 16 * sw s) s) else None"
  let ?A = "\<lambda>j. rect_at (sw s) 12 (40 + int n) (12 + w) (40 + int n + 16) j \<and> in_clip s (j mod sw s) (j div sw s)"
  have d1: "draws ?m1 s s1" unfolding s1_def by (rule scroll_rows_draws [OF w(1) _ w(2)]) simp
  note p1 = draws_paints [OF d1]
  have "fb_ok s1" using ok fb_ok_paints [OF p1] by simp
  from fb_rect_draws [OF this, of 12 "40 + int n" w 16 "fbt_bg s"]
  have d2: "draws (paint_map ?A (fbt_bg s)) s1 s2" unfolding s2_def paintsD(14) [OF p1] in_clip_paints [OF p1] .
  have dt: "draws (?m1 ++ paint_map ?A (fbt_bg s)) ?s ?t" by (rule draws_row [OF draws_trans [OF d1 d2]])
  note p2 = paints_trans [OF p1 draws_paints [OF d2]]
  have f1: "fbt_bg s1 = fbt_bg s" using fbterm_fields_more [OF paintsD(11) [OF p1]] by simp
  have f2: "fbt_rows s2 = fbt_rows s" using fbterm_fields_more [OF paintsD(11) [OF p2]] by simp
  have e: "fbt_scroll s = fb_flush_rect 12 40 w (16 * fbt_rows s) ?t"
  proof -
    have a: "fbt_cols s * 8 = w" "(fbt_rows s - 1) * 16 = int n" "int n + 16 = 16 * fbt_rows s" by (simp_all add: w_def n)
    show ?thesis
      by (simp only: fbt_scroll_def Let_def margins a nat_int s1_def [symmetric] f1 s2_def [symmetric] f2)
  qed
  have "displays (fb_flush_rect 12 40 w (16 * fbt_rows s) ?t)
      (g\<lparr>g_row := fbt_rows s - 1, cells := (\<lambda>r. if r = g_rows g - 1 then (\<lambda>c. g_blank g) else cells g (r + 1))\<rparr>) \<and>
    keeps_outside ?s (fb_flush_rect 12 40 w (16 * fbt_rows s) ?t)"
  proof (rule displays_repaint [OF displays_row [OF s] dt])
    fix j assume "(?m1 ++ paint_map ?A (fbt_bg s)) j \<noteq> None"
    then show "rect_at (sw ?s) 12 40 (12 + w) (40 + 16 * fbt_rows s) j"
      using d n w(3) by (auto simp: rect_at_def paint_map_def map_add_def split: if_splits)
  next
    fix r c i j assume h: "0 \<le> r" "r < g_rows (g\<lparr>g_row := fbt_rows s - 1\<rparr>)" "0 \<le> c" "c < g_cols (g\<lparr>g_row := fbt_rows s - 1\<rparr>)" "i < (16 :: nat)" "j < (8 :: nat)"
    let ?k = "(40 + 16 * r + int i) * sw s + (12 + 8 * c + int j)"
    have p: "?k div sw s = 40 + 16 * r + int i" "?k mod sw s = 12 + 8 * c + int j" "in_clip s (12 + 8 * c + int j) (40 + 16 * r + int i)"
      using cell_point [OF geo, of r c i j] h dr by auto
    have A: "?A ?k \<longleftrightarrow> r = g_rows g - 1"
      unfolding rect_at_def p using p(3) h dr n by (auto simp: w_def)
    have B: "(40 \<le> ?k div sw s \<and> ?k div sw s < 40 + int n \<and> 12 \<le> ?k mod sw s \<and> ?k mod sw s < 12 + int (nat w)) \<longleftrightarrow> r \<noteq> g_rows g - 1"
      unfolding p using h dr n w(3) by (auto simp: w_def)
    have up: "get_px (?k + 16 * sw s) s = cell_px (cells g (r + 1) c) i j" if "r \<noteq> g_rows g - 1"
    proof -
      have "?k + 16 * sw s = (40 + 16 * (r + 1) + int i) * sw s + (12 + 8 * c + int j)" by (simp add: algebra_simps)
      moreover have "0 \<le> r + 1 \<and> r + 1 < g_rows g \<and> 0 \<le> c \<and> c < g_cols g \<and> i < 16 \<and> j < 8" using h that by auto
      then have "back_px s (12 + 8 * c + int j) (40 + 16 * (r + 1) + int i) = cell_px (cells g (r + 1) c) i j"
        using s unfolding displays_def by blast
      ultimately show ?thesis by (simp only:)
    qed
    have "(?m1 ++ paint_map ?A (fbt_bg s)) ?k = Some (if r = g_rows g - 1 then fbt_bg s else cell_px (cells g (r + 1) c) i j)"
      unfolding map_add_def paint_map_def A B using up by simp
    then show "(case (?m1 ++ paint_map ?A (fbt_bg s)) ((40 + 16 * r + int i) * sw ?s + (12 + 8 * c + int j)) of
          None \<Rightarrow> cell_px (cells (g\<lparr>g_row := fbt_rows s - 1\<rparr>) r c) i j | Some k \<Rightarrow> k) =
        cell_px ((if r = g_rows g - 1 then (\<lambda>c. g_blank g) else cells g (r + 1)) c) i j"
      using dr h(5) by (simp add: cell_px_def g_blank_def glyph_blank)
  qed (simp_all add: w_def)
  then show ?thesis unfolding e using dr by simp
qed

text \<open>What an operation of the terminal does to its grid.\<close>

definition simulates :: "('a fbterm_scheme \<Rightarrow> 'a fbterm_scheme) \<Rightarrow> (grid \<Rightarrow> grid) \<Rightarrow> bool" where
  "simulates f h \<longleftrightarrow> (\<forall>s g. displays s g \<and> g_cursor_ok g \<longrightarrow> displays (f s) (h g) \<and> g_cursor_ok (h g) \<and> keeps_outside s (f s))"

lemma simulatesI:
  "(\<And>s g. displays s g \<Longrightarrow> g_cursor_ok g \<Longrightarrow> displays (f s) (h g) \<and> g_cursor_ok (h g) \<and> keeps_outside s (f s)) \<Longrightarrow> simulates f h"
  unfolding simulates_def by blast

lemma simulatesD:
  "simulates f h \<Longrightarrow> displays s g \<Longrightarrow> g_cursor_ok g \<Longrightarrow> displays (f s) (h g) \<and> g_cursor_ok (h g) \<and> keeps_outside s (f s)"
  by (simp add: simulates_def)

lemma simulates_comp: "simulates f h \<Longrightarrow> simulates f' h' \<Longrightarrow> simulates (\<lambda>s. f' (f s)) (\<lambda>g. h' (h g))"
  unfolding simulates_def using keeps_outside_trans by blast

lemma simulates_iterate: "simulates f h \<Longrightarrow> simulates (for_loop 0 n (\<lambda>_. f)) (h ^^ n)"
proof (induction n)
  case 0
  then show ?case by (simp add: simulates_def keeps_outside_refl)
next
  case (Suc n)
  then have "simulates (\<lambda>s. f (for_loop 0 n (\<lambda>_. f) s)) (\<lambda>g. h ((h ^^ n) g))" using simulates_comp by blast
  moreover have "(\<lambda>s. f (for_loop 0 n (\<lambda>_. f) s)) = for_loop 0 (Suc n) (\<lambda>_. f)" by (simp add: fun_eq_iff for_loop_Suc)
  moreover have "(\<lambda>g. h ((h ^^ n) g)) = h ^^ Suc n" by (simp add: fun_eq_iff)
  ultimately show ?case by simp
qed

lemma newline_simulates: "simulates fbt_newline g_newline"
proof (rule simulatesI)
  fix s :: "'a fbterm_scheme" and g assume s: "displays s g" and g: "g_cursor_ok g"
  let ?s = "s\<lparr>fbt_col := 0, fbt_row := fbt_row s + 1\<rparr>" and ?g = "g\<lparr>g_col := 0, g_row := g_row g + 1\<rparr>"
  note dr = displays_rows [OF s]
  have m: "displays ?s ?g" using displays_row [OF displays_col [OF s]] dr by simp
  have k: "keeps_outside s ?s" by (simp add: keeps_outside_refl)
  show "displays (fbt_newline s) (g_newline g) \<and> g_cursor_ok (g_newline g) \<and> keeps_outside s (fbt_newline s)"
  proof (cases "g_row g + 1 < g_rows g")
    case True
    then show ?thesis using m k dr g by (simp add: fbt_newline_def g_newline_def g_cursor_ok_def Let_def)
  next
    case False
    then have e: "fbt_newline s = fbt_scroll ?s" using dr by (simp add: fbt_newline_def Let_def)
    have gb: "g_blank ?g = g_blank g" "cells ?g = cells g" by (simp_all add: g_blank_def)
    from fbt_scroll_displays [OF m, unfolded gb] False g show ?thesis
      unfolding e by (simp add: g_newline_def g_cursor_ok_def)
  qed
qed

lemma plain_simulates: "simulates (fbt_plain c) (g_plain c)"
proof (rule simulatesI)
  fix s :: "'a fbterm_scheme" and g assume s: "displays s g" and g: "g_cursor_ok g"
  note dr = displays_rows [OF s]
  have rc: "0 \<le> g_row g" "g_row g < g_rows g" "0 \<le> g_col g" "g_col g < g_cols g" using g by (auto simp: g_cursor_ok_def)
  define t where "t = fb_flush_rect (12 + 8 * g_col g) (40 + 16 * g_row g) 8 16
      (font_drawchar (12 + 8 * g_col g) (40 + 16 * g_row g) c (g_fg g) (g_bg g) False s)"
  let ?g = "g_set (g_row g) (g_col g) (c, g_fg g, g_bg g) g"
  have t: "displays t ?g" "keeps_outside s t" using char_displays [OF s rc, of c "g_fg g" "g_bg g"] by (simp_all add: t_def)
  note dt = displays_rows [OF t(1)]
  have gf: "g_cols ?g = g_cols g" "g_rows ?g = g_rows g" "g_col ?g = g_col g" "g_row ?g = g_row g" by (simp_all add: g_set_def)
  have e: "fbt_plain c s = (if fbt_cols t \<le> fbt_col t + 1 then fbt_newline (t\<lparr>fbt_col := fbt_col t + 1\<rparr>) else t\<lparr>fbt_col := fbt_col t + 1\<rparr>)"
    using dr by (simp add: fbt_plain_def Let_def margins t_def mult.commute)
  have c1: "displays (t\<lparr>fbt_col := fbt_col t + 1\<rparr>) (?g\<lparr>g_col := g_col ?g + 1\<rparr>)"
    using displays_col [OF t(1)] dt by simp
  show "displays (fbt_plain c s) (g_plain c g) \<and> g_cursor_ok (g_plain c g) \<and> keeps_outside s (fbt_plain c s)"
  proof (cases "g_col g + 1 < g_cols g")
    case True
    then have "fbt_plain c s = t\<lparr>fbt_col := fbt_col t + 1\<rparr>" "g_plain c g = ?g\<lparr>g_col := g_col ?g + 1\<rparr>"
      using e dt gf by (simp_all add: g_plain_def Let_def)
    with c1 t(2) True rc gf show ?thesis by (simp add: g_cursor_ok_def)
  next
    case False
    then have e1: "fbt_plain c s = fbt_newline (t\<lparr>fbt_col := fbt_col t + 1\<rparr>)" "g_plain c g = g_newline ?g"
      using e dt gf by (simp_all add: g_plain_def Let_def)
    have "fbt_newline (t\<lparr>fbt_col := fbt_col t + 1\<rparr>) = fbt_newline t" by (simp add: fbt_newline_def)
    moreover have "g_cursor_ok ?g" using g gf by (simp add: g_cursor_ok_def)
    ultimately show ?thesis
      using simulatesD [OF newline_simulates t(1)] keeps_outside_trans [OF t(2)] unfolding e1 by simp
  qed
qed

lemma backspace_displays:
  assumes s: "displays s g" and g: "g_cursor_ok g" and c: "0 < g_col g"
  shows "displays (fbterm_putchar 8 s) (g_putchar 8 g) \<and> keeps_outside s (fbterm_putchar 8 s)"
proof -
  let ?s = "s\<lparr>fbt_col := fbt_col s - 1\<rparr>" and ?g = "g\<lparr>g_col := g_col g - 1\<rparr>"
  note dr = displays_rows [OF s]
  have s': "displays ?s ?g" using displays_col [OF s] dr by simp
  have rc: "0 \<le> g_row g" "g_row g + 1 \<le> g_rows ?g" "0 \<le> g_col g - 1" "g_col g - 1 + 1 \<le> g_cols ?g"
    using g c by (auto simp: g_cursor_ok_def)
  have gp: "g_putchar 8 g = ?g\<lparr>cells := (\<lambda>r' c'. if g_row g \<le> r' \<and> r' < g_row g + 1 \<and> g_col g - 1 \<le> c' \<and> c' < g_col g - 1 + 1
      then g_blank ?g else cells ?g r' c')\<rparr>"
  proof -
    have "(cells g)(g_row g := (cells g (g_row g))(g_col g - 1 := g_blank g)) = (\<lambda>r' c'. if g_row g \<le> r' \<and> r' < g_row g + 1 \<and>
        g_col g - 1 \<le> c' \<and> c' < g_col g - 1 + 1 then g_blank ?g else cells ?g r' c')"
      by (intro ext) (auto simp: g_blank_def)
    then show ?thesis using c by (simp only: g_putchar_def g_set_def) simp
  qed
  have on: "fbt_on s" using dr by (simp add: term_geo_def)
  have sp: "fbterm_putchar 8 s = fb_flush_rect (12 + 8 * (g_col g - 1)) (40 + 16 * g_row g) (8 * 1) (16 * 1)
      (fb_rect (12 + 8 * (g_col g - 1)) (40 + 16 * g_row g) (8 * 1) (16 * 1) (fbt_bg ?s) ?s)"
    using on c dr by (simp add: fbterm_putchar_def Let_def margins mult.commute)
  show ?thesis unfolding gp sp using rect_displays [OF s' rc(1, 2, 3, 4)] by simp
qed

lemma putchar_simulates: "simulates (fbterm_putchar c) (g_putchar c)"
proof (rule simulatesI)
  fix s :: "'a fbterm_scheme" and g assume s: "displays s g" and g: "g_cursor_ok g"
  note dr = displays_rows [OF s]
  have on: "fbt_on s" using dr by (simp add: term_geo_def)
  consider "c = 10" | "c = 13" | "c = 9" | "c = 8" "0 < g_col g" | "c = 8" "\<not> 0 < g_col g" | "c \<noteq> 10" "c \<noteq> 13" "c \<noteq> 9" "c \<noteq> 8"
    by blast
  then show "displays (fbterm_putchar c s) (g_putchar c g) \<and> g_cursor_ok (g_putchar c g) \<and> keeps_outside s (fbterm_putchar c s)"
  proof cases
    case 1
    then show ?thesis using simulatesD [OF newline_simulates s g] on by (simp add: fbterm_putchar_def g_putchar_def)
  next
    case 2
    then show ?thesis using displays_col [OF s, of 0] on g
      by (simp add: fbterm_putchar_def g_putchar_def keeps_outside_refl g_cursor_ok_def)
  next
    case 3
    then show ?thesis using simulatesD [OF simulates_iterate [OF plain_simulates] s g] on dr
      by (simp add: fbterm_putchar_def g_putchar_def)
  next
    case 4
    have "g_cursor_ok (g_putchar 8 g)" using g 4 by (simp add: g_putchar_def g_set_def g_cursor_ok_def)
    then show ?thesis using backspace_displays [OF s g 4(2)] 4(1) by simp
  next
    case 5
    then show ?thesis using s g on dr by (simp add: fbterm_putchar_def g_putchar_def keeps_outside_refl)
  next
    case 6
    then show ?thesis using simulatesD [OF plain_simulates s g] on by (simp add: fbterm_putchar_def g_putchar_def)
  qed
qed

fun g_write :: "u8 list \<Rightarrow> grid \<Rightarrow> grid" where
  "g_write [] g = g"
| "g_write (c # cs) g = (if c = 0 then g else g_write cs (g_putchar c g))"

lemma write_simulates: "simulates (fbterm_write str) (g_write str)"
proof (induction str)
  case Nil
  then show ?case by (simp add: simulates_def keeps_outside_refl)
next
  case (Cons c str)
  show ?case
  proof (cases "c = 0")
    case True
    then show ?thesis by (simp add: simulates_def keeps_outside_refl)
  next
    case False
    then show ?thesis using simulates_comp [OF putchar_simulates [of c] Cons.IH] by simp
  qed
qed

definition g_clear :: "grid \<Rightarrow> grid" where
  "g_clear g = g\<lparr>g_col := 0, g_row := 0, cells := (\<lambda>_ _. g_blank g)\<rparr>"

text \<open>Cells outside the grid do not count.\<close>

lemma displays_cells_cong:
  assumes "displays s g" and "\<And>r c. 0 \<le> r \<Longrightarrow> r < g_rows g \<Longrightarrow> 0 \<le> c \<Longrightarrow> c < g_cols g \<Longrightarrow> f r c = cells g r c"
  shows "displays s (g\<lparr>cells := f\<rparr>)"
  using assms by (simp add: displays_def)

lemma erase_displays:
  assumes s: "displays s g"
  shows "displays (fbt_erase s) (g\<lparr>cells := (\<lambda>_ _. g_blank g)\<rparr>) \<and> keeps_outside s (fbt_erase s)"
proof -
  note dr = displays_rows [OF s]
  let ?f = "\<lambda>r' c'. if 0 \<le> r' \<and> r' < 0 + g_rows g \<and> 0 \<le> c' \<and> c' < 0 + g_cols g then g_blank g else cells g r' c'"
  have "fbt_erase s = fb_flush_rect (12 + 8 * 0) (40 + 16 * 0) (8 * g_cols g) (16 * g_rows g)
      (fb_rect (12 + 8 * 0) (40 + 16 * 0) (8 * g_cols g) (16 * g_rows g) (fbt_bg s) s)"
    using dr by (simp add: fbt_erase_def margins mult.commute)
  then have "displays (fbt_erase s) (g\<lparr>cells := ?f\<rparr>) \<and> keeps_outside s (fbt_erase s)"
    using rect_displays [OF s, of 0 "g_rows g" 0 "g_cols g"] by simp
  moreover have "displays (fbt_erase s) (g\<lparr>cells := ?f\<rparr>) \<Longrightarrow> displays (fbt_erase s) ((g\<lparr>cells := ?f\<rparr>)\<lparr>cells := (\<lambda>_ _. g_blank g)\<rparr>)"
    by (rule displays_cells_cong) auto
  ultimately show ?thesis by simp
qed

lemma clear_simulates: "simulates fbterm_clear g_clear"
proof (rule simulatesI)
  fix s :: "'a fbterm_scheme" and g assume s: "displays s g" and g: "g_cursor_ok g"
  have on: "fbt_on s" using displays_rows [OF s] by (simp add: term_geo_def)
  have "displays ((fbt_erase s)\<lparr>fbt_col := 0, fbt_row := 0\<rparr>) ((g\<lparr>cells := (\<lambda>_ _. g_blank g)\<rparr>)\<lparr>g_col := 0, g_row := 0\<rparr>)"
    using displays_row [OF displays_col] erase_displays [OF s] by blast
  then show "displays (fbterm_clear s) (g_clear g) \<and> g_cursor_ok (g_clear g) \<and> keeps_outside s (fbterm_clear s)"
  proof -
    have "(g\<lparr>cells := (\<lambda>_ _. g_blank g)\<rparr>)\<lparr>g_col := 0, g_row := 0\<rparr> = g_clear g" by (simp add: g_clear_def)
    moreover have "g_cursor_ok (g_clear g)" using g by (auto simp: g_clear_def g_cursor_ok_def)
    moreover assume "displays ((fbt_erase s)\<lparr>fbt_col := 0, fbt_row := 0\<rparr>) ((g\<lparr>cells := (\<lambda>_ _. g_blank g)\<rparr>)\<lparr>g_col := 0, g_row := 0\<rparr>)"
    ultimately show ?thesis using on erase_displays [OF s] by (simp add: fbterm_clear_def)
  qed
qed

lemma setcolor_simulates: "simulates (fbterm_setcolor fg bg) (\<lambda>g. g\<lparr>g_fg := fg, g_bg := bg\<rparr>)"
  by (rule simulatesI) (simp add: fbterm_setcolor_def displays_fields keeps_outside_refl g_cursor_ok_def)

section \<open>From the first clear on\<close>

text \<open>A framebuffer on which \<^verbatim>\<open>fbterm_init\<close> finds room for a text area.\<close>

definition text_screen :: "'a fb_scheme \<Rightarrow> bool" where
  "text_screen s \<longleftrightarrow> fb_set s \<and> \<not> fb_direct s \<and> fb_bpp s = 32 \<and> 4 * sw s \<le> uint (fb_pitch s) \<and> clip_x s = 0 \<and> clip_y s = 0 \<and>
     clip_w s = sw s \<and> clip_h s = sh s \<and> 32 \<le> sw s \<and> 96 \<le> sh s \<and> sw s * sh s < 2 ^ 32"

definition g_start :: "'a fbterm_scheme \<Rightarrow> grid" where
  "g_start s = \<lparr>g_cols = (sw s - 24) div 8, g_rows = (sh s - 80) div 16, g_col = 0, g_row = 0, g_fg = fbt_fg s, g_bg = fbt_bg s,
     cells = (\<lambda>_ _. (32, fbt_fg s, fbt_bg s))\<rparr>"

lemma init_displays:
  assumes s: "text_screen s"
  shows "displays (fbterm_init s) (g_start s) \<and> g_cursor_ok (g_start s)"
proof -
  note d = s [unfolded text_screen_def]
  let ?cols = "(sw s - 24) div 8" and ?rows = "(sh s - 80) div 16"
  let ?s = "s\<lparr>fbt_on := True, fbt_cols := ?cols, fbt_rows := ?rows, fbt_col := 0, fbt_row := 0\<rparr>"
  have sz: "sw ?s = sw s" "sh ?s = sh s" by (simp_all add: sw_def sh_def)
  have "fb_width s \<noteq> 0" using d by (auto simp: sw_def)
  then have e: "fbterm_init s = fb_flush_rect 12 40 (8 * ?cols) (16 * ?rows) (fb_rect 12 40 (8 * ?cols) (16 * ?rows) (fbt_bg s) ?s)"
    using d by (simp add: fbterm_init_def fbt_erase_def margins cdiv_def mult.commute)
  have cr: "0 < ?cols" "12 + 8 * ?cols \<le> sw s" "0 < ?rows" "40 + 16 * ?rows \<le> sh s" using d by auto
  have geo: "term_geo ?s" using d cr sz by (simp add: term_geo_def fb_ok_def)
  then have ok: "fb_ok ?s" by (simp add: term_geo_def)
  let ?A = "\<lambda>j. rect_at (sw ?s) 12 40 (12 + 8 * ?cols) (40 + 16 * ?rows) j \<and> in_clip ?s (j mod sw ?s) (j div sw ?s)"
  have m_in: "rect_at (sw ?s) 12 40 (12 + 8 * ?cols) (40 + 16 * ?rows) j" if "paint_map ?A (fbt_bg s) j \<noteq> None" for j
    using that by (auto simp: paint_map_def split: if_splits)
  have agree: "shown ?s px py = back_px ?s px py"
    if "text_area ?s px py" "\<not> (12 \<le> px \<and> px < 12 + 8 * ?cols \<and> 40 \<le> py \<and> py < 40 + 16 * ?rows)" for px py
    using that by (simp add: text_area_def)
  let ?u = "fb_flush_rect 12 40 (8 * ?cols) (16 * ?rows) (fb_rect 12 40 (8 * ?cols) (16 * ?rows) (fbt_bg s) ?s)"
  note pf = paint_and_flush [OF geo fb_rect_draws [OF ok, of 12 40 "8 * ?cols" "16 * ?rows" "fbt_bg s"], of 12 "8 * ?cols" 40 "16 * ?rows", OF _ _ _ _ m_in agree]
  have more: "fb.more ?u = fb.more ?s" by (rule pf(2)) simp_all
  have sw': "sw ?u = sw ?s" by (rule pf(3)) simp_all
  have gp: "get_px k ?u = (case paint_map ?A (fbt_bg s) k of None \<Rightarrow> get_px k ?s | Some c \<Rightarrow> c)" for k by (rule pf(4)) simp_all
  have geo': "term_geo ?u" by (rule pf(1)) simp_all
  note fm = fbterm_fields_more [OF more]
  have ta: "text_area ?u = text_area ?s" by (simp add: text_area_def fm fun_eq_iff)
  have a: "shown ?u px py = back_px ?u px py" if "text_area ?u px py" for px py by (rule pf(5)) (use that in \<open>simp_all add: ta\<close>)
  have b: "back_px ?u (12 + 8 * c + int j) (40 + 16 * r + int i) = cell_px (32, fbt_fg s, fbt_bg s) i j"
    if h: "0 \<le> r" "r < ?rows" "0 \<le> c" "c < ?cols" "i < 16" "j < 8" for r c i j
  proof -
    let ?k = "(40 + 16 * r + int i) * sw ?s + (12 + 8 * c + int j)"
    have p: "?k div sw ?s = 40 + 16 * r + int i" "?k mod sw ?s = 12 + 8 * c + int j" "in_clip ?s (12 + 8 * c + int j) (40 + 16 * r + int i)"
      using cell_point [OF geo, of r c i j] h by simp_all
    have "?A ?k" unfolding rect_at_def p using p(3) h by auto
    then show ?thesis unfolding sw' gp by (simp add: paint_map_def cell_px_def glyph_blank [OF h(5)])
  qed
  have "displays (fbterm_init s) (g_start s)"
    unfolding e displays_def g_start_def using a b geo' by (simp add: fm)
  moreover have "g_cursor_ok (g_start s)" using cr by (simp add: g_cursor_ok_def g_start_def)
  ultimately show ?thesis by blast
qed

text \<open>
  C14. Text on the screen: after \<^verbatim>\<open>fbterm_init\<close> and any text, control characters and scrolling
  included, the pixels the card shows in the text area are exactly the pictures of the cells of the
  abstract terminal that was given the same text from empty; the cursor is the same and stays in the
  grid. Nothing outside the text area has been touched since \<^verbatim>\<open>fbterm_init\<close>.
\<close>

theorem fbterm_shows_text:
  assumes "text_screen s"
  shows "displays (fbterm_write str (fbterm_init s)) (g_write str (g_start s)) \<and> g_cursor_ok (g_write str (g_start s)) \<and>
    keeps_outside (fbterm_init s) (fbterm_write str (fbterm_init s))"
  using init_displays [OF assms] simulatesD [OF write_simulates] by blast

definition small_term :: fbterm where
  "small_term = fb.extend small_fb \<lparr>fbt_on = False, fbt_col = 0, fbt_row = 0, fbt_cols = 0, fbt_rows = 0, fbt_fg = 0xE8E8E8, fbt_bg = 0x1A1A24\<rparr>
     \<lparr>fb_height := 128, clip_h := 128\<rparr>"

lemma fbterm_shows_text_witness:
  "displays (fbterm_write (lit ''ab'' @ [10] @ lit ''c'') (fbterm_init small_term)) (g_write (lit ''ab'' @ [10] @ lit ''c'') (g_start small_term))"
proof -
  have "text_screen small_term"
    by (simp add: text_screen_def small_term_def small_fb_def fb.defs sw_def sh_def sint_cases)
  from fbterm_shows_text [OF this] show ?thesis by blast
qed

text \<open>On the grid: text that fits on the line is the row of its characters.\<close>

lemma g_write_plain:
  "(\<And>c. c \<in> set str \<Longrightarrow> 32 \<le> c) \<Longrightarrow> g_col g + int (length str) < g_cols g \<Longrightarrow>
   g_write str g = g\<lparr>g_col := g_col g + int (length str), cells := (cells g)(g_row g := (\<lambda>c.
     if g_col g \<le> c \<and> c < g_col g + int (length str) then (str ! nat (c - g_col g), g_fg g, g_bg g) else cells g (g_row g) c))\<rparr>"
proof (induction str arbitrary: g)
  case Nil
  have "(\<lambda>c. if g_col g \<le> c \<and> c < g_col g + int (length []) then ([] ! nat (c - g_col g), g_fg g, g_bg g) else cells g (g_row g) c) = cells g (g_row g)"
    by (intro ext) auto
  then show ?case by (simp only: g_write.simps) simp
next
  case (Cons c str)
  let ?g = "(g_set (g_row g) (g_col g) (c, g_fg g, g_bg g) g)\<lparr>g_col := g_col g + 1\<rparr>"
  have c: "32 \<le> c" using Cons.prems(1) by simp
  then have "c \<noteq> 0" "c \<noteq> 8" "c \<noteq> 9" "c \<noteq> 10" "c \<noteq> 13" by auto
  then have "g_write (c # str) g = g_write str ?g"
    using Cons.prems(2) by (simp add: g_putchar_def g_plain_def g_set_def Let_def)
  also have "\<dots> = ?g\<lparr>g_col := g_col ?g + int (length str), cells := (cells ?g)(g_row ?g := (\<lambda>c.
     if g_col ?g \<le> c \<and> c < g_col ?g + int (length str) then (str ! nat (c - g_col ?g), g_fg ?g, g_bg ?g) else cells ?g (g_row ?g) c))\<rparr>"
    using Cons.prems by (intro Cons.IH) (simp_all add: g_set_def)
  also have "(\<lambda>k. if g_col ?g \<le> k \<and> k < g_col ?g + int (length str) then (str ! nat (k - g_col ?g), g_fg ?g, g_bg ?g) else cells ?g (g_row ?g) k) =
      (\<lambda>k. if g_col g \<le> k \<and> k < g_col g + int (length (c # str)) then ((c # str) ! nat (k - g_col g), g_fg g, g_bg g) else cells g (g_row g) k)"
  proof
    fix k
    have "nat (k - g_col g) = Suc (nat (k - (g_col g + 1)))" if "g_col g < k" using that by simp
    then show "(if g_col ?g \<le> k \<and> k < g_col ?g + int (length str) then (str ! nat (k - g_col ?g), g_fg ?g, g_bg ?g) else cells ?g (g_row ?g) k) =
      (if g_col g \<le> k \<and> k < g_col g + int (length (c # str)) then ((c # str) ! nat (k - g_col g), g_fg g, g_bg g) else cells g (g_row g) k)"
      by (cases "k = g_col g"; cases "g_col g < k") (simp_all add: g_set_def)
  qed
  finally show ?case by (simp add: g_set_def algebra_simps cong: if_cong)
qed

end
