(* ===== verification/Drv_Vga.thy ===== *)
theory Drv_Vga
  imports Gui_Fbterm
begin

text \<open>
  The console, \<^verbatim>\<open>kernel/drivers/vga.c\<close>: the text mode of 80 by 25 cells at \<^verbatim>\<open>0xB8000\<close>, and the routing
  of every operation to the framebuffer terminal once that is active. The record extends the
  terminal's, so that one state holds both screens. The text memory is indexed from its start; the
  cursor position goes to the card's ports.
\<close>

definition VGA_WIDTH :: u32 where "VGA_WIDTH = 80"
definition VGA_HEIGHT :: u32 where "VGA_HEIGHT = 25"

record console = fbterm +
  vga_mem :: "nat \<Rightarrow> u16"
  vrow :: u32
  vcol :: u32
  vcolor :: u8

text \<open>The colours of \<^verbatim>\<open>vga_color_t\<close>; values beyond the enumeration reach the code from the shell.\<close>

type_synonym vga_color = u32

definition VGA_COLOR_BLACK :: vga_color where "VGA_COLOR_BLACK = 0"
definition VGA_COLOR_BLUE :: vga_color where "VGA_COLOR_BLUE = 1"
definition VGA_COLOR_LIGHT_GREY :: vga_color where "VGA_COLOR_LIGHT_GREY = 7"
definition VGA_COLOR_LIGHT_BLUE :: vga_color where "VGA_COLOR_LIGHT_BLUE = 9"
definition VGA_COLOR_LIGHT_GREEN :: vga_color where "VGA_COLOR_LIGHT_GREEN = 10"
definition VGA_COLOR_LIGHT_CYAN :: vga_color where "VGA_COLOR_LIGHT_CYAN = 11"
definition VGA_COLOR_LIGHT_RED :: vga_color where "VGA_COLOR_LIGHT_RED = 12"
definition VGA_COLOR_LIGHT_MAGENTA :: vga_color where "VGA_COLOR_LIGHT_MAGENTA = 13"
definition VGA_COLOR_LIGHT_BROWN :: vga_color where "VGA_COLOR_LIGHT_BROWN = 14"
definition VGA_COLOR_WHITE :: vga_color where "VGA_COLOR_WHITE = 15"

definition mkcolor :: "vga_color \<Rightarrow> vga_color \<Rightarrow> u8" where
  "mkcolor fg bg = ucast (fg OR push_bit 4 bg)"

definition mkentry :: "u8 \<Rightarrow> u8 \<Rightarrow> u16" where
  "mkentry c col = ucast c OR push_bit 8 (ucast col)"

definition vga_put :: "u32 \<Rightarrow> u16 \<Rightarrow> 'a console_scheme \<Rightarrow> 'a console_scheme" where
  "vga_put i e s = s\<lparr>vga_mem := (vga_mem s)(unat i := e)\<rparr>"

definition update_cursor :: "'a console_scheme \<Rightarrow> 'a console_scheme" where
  "update_cursor s =
     (let pos = (ucast (vrow s * VGA_WIDTH + vcol s) :: u16);
          s = outb 0x3D4 0x0F s;
          s = outb 0x3D5 (ucast (pos AND 0xFF)) s;
          s = outb 0x3D4 0x0E s
      in outb 0x3D5 (ucast (drop_bit 8 pos AND 0xFF)) s)"

definition terminal_clear :: "'a console_scheme \<Rightarrow> 'a console_scheme" where
  "terminal_clear s =
     (if fbterm_active s then fbterm_clear s
      else (let s = for_loop 0 (unat VGA_HEIGHT) (\<lambda>y. for_loop 0 (unat VGA_WIDTH)
                      (\<lambda>x s. vga_put (of_nat y * VGA_WIDTH + of_nat x) (mkentry 32 (vcolor s)) s)) s
            in update_cursor (s\<lparr>vrow := 0, vcol := 0\<rparr>)))"

definition terminal_init :: "'a console_scheme \<Rightarrow> 'a console_scheme" where
  "terminal_init s = terminal_clear (s\<lparr>vrow := 0, vcol := 0, vcolor := mkcolor VGA_COLOR_WHITE VGA_COLOR_BLACK\<rparr>)"

definition vga_rgb :: "u32 list" where
  "vga_rgb =
    [0x0E0E12, 0x185AB4, 0x10A020, 0x10A0A0,
     0xC02020, 0xA020A0, 0xA05010, 0xD0D0D0,
     0x505060, 0x4A9EFF, 0x40C070, 0x40C0C0,
     0xFF4A4A, 0xFF40FF, 0xFFB030, 0xF0F0F0]"

definition terminal_setcolor :: "vga_color \<Rightarrow> vga_color \<Rightarrow> 'a console_scheme \<Rightarrow> 'a console_scheme" where
  "terminal_setcolor fg bg s =
     (if fbterm_active s then fbterm_setcolor (vga_rgb ! unat (fg AND 0xF)) (vga_rgb ! unat (bg AND 0xF)) s
      else s\<lparr>vcolor := mkcolor fg bg\<rparr>)"

definition vga_scroll :: "'a console_scheme \<Rightarrow> 'a console_scheme" where
  "vga_scroll s =
     (let s = for_loop 0 (unat (VGA_HEIGHT - 1)) (\<lambda>y. for_loop 0 (unat VGA_WIDTH) (\<lambda>x s.
                vga_put (of_nat y * VGA_WIDTH + of_nat x) (vga_mem s (unat ((of_nat y + 1) * VGA_WIDTH + of_nat x))) s)) s;
          s = for_loop 0 (unat VGA_WIDTH) (\<lambda>x s. vga_put ((VGA_HEIGHT - 1) * VGA_WIDTH + of_nat x) (mkentry 32 (vcolor s)) s) s
      in s\<lparr>vrow := VGA_HEIGHT - 1\<rparr>)"

text \<open>\<^verbatim>\<open>col = 0; if (++row == VGA_HEIGHT) vga_scroll();\<close>\<close>

definition vga_newline :: "'a console_scheme \<Rightarrow> 'a console_scheme" where
  "vga_newline s =
     (let s = s\<lparr>vcol := 0, vrow := vrow s + 1\<rparr> in if vrow s = VGA_HEIGHT then vga_scroll s else s)"

definition terminal_putchar :: "u8 \<Rightarrow> 'a console_scheme \<Rightarrow> 'a console_scheme" where
  "terminal_putchar c s =
     (if fbterm_active s then fbterm_putchar c s
      else update_cursor
        (if c = 10 then vga_newline s
         else if c = 13 then s\<lparr>vcol := 0\<rparr>
         else if c = 9 then
           (let s = s\<lparr>vcol := (vcol s + 8) AND NOT 7\<rparr> in if VGA_WIDTH \<le> vcol s then vga_newline s else s)
         else if c = 8 then
           (if 0 < vcol s then
              (let s = s\<lparr>vcol := vcol s - 1\<rparr> in vga_put (vrow s * VGA_WIDTH + vcol s) (mkentry 32 (vcolor s)) s)
            else s)
         else
           (let s = vga_put (vrow s * VGA_WIDTH + vcol s) (mkentry c (vcolor s)) s;
                s = s\<lparr>vcol := vcol s + 1\<rparr>
            in if vcol s = VGA_WIDTH then vga_newline s else s)))"

fun terminal_write :: "u8 list \<Rightarrow> 'a console_scheme \<Rightarrow> 'a console_scheme" where
  "terminal_write [] s = s"
| "terminal_write (c # cs) s = (if c = 0 then s else terminal_write cs (terminal_putchar c s))"

definition terminal_writeline :: "u8 list \<Rightarrow> 'a console_scheme \<Rightarrow> 'a console_scheme" where
  "terminal_writeline str s = terminal_putchar 10 (terminal_write str s)"

section \<open>The text screen\<close>

text \<open>The screen as rows and columns of entries, with its cursor.\<close>

record vscreen =
  v_cells :: "nat \<Rightarrow> nat \<Rightarrow> u16"
  v_row :: nat
  v_col :: nat

definition v_newline :: "u8 \<Rightarrow> vscreen \<Rightarrow> vscreen" where
  "v_newline attr v =
     (if v_row v < 24 then v\<lparr>v_row := v_row v + 1, v_col := 0\<rparr>
      else v\<lparr>v_cells := (\<lambda>r c. if 25 \<le> r \<or> 80 \<le> c then 0 else if r = 24 then mkentry 32 attr else v_cells v (r + 1) c), v_col := 0\<rparr>)"

definition v_set :: "nat \<Rightarrow> nat \<Rightarrow> u16 \<Rightarrow> vscreen \<Rightarrow> vscreen" where
  "v_set r c e v = v\<lparr>v_cells := (v_cells v)(r := (v_cells v r)(c := e))\<rparr>"

definition v_putchar :: "u8 \<Rightarrow> u8 \<Rightarrow> vscreen \<Rightarrow> vscreen" where
  "v_putchar attr c v =
     (if c = 10 then v_newline attr v
      else if c = 13 then v\<lparr>v_col := 0\<rparr>
      else if c = 9 then
        (let t = 8 * (v_col v div 8 + 1) in if t < 80 then v\<lparr>v_col := t\<rparr> else v_newline attr v)
      else if c = 8 then
        (if 0 < v_col v then v_set (v_row v) (v_col v - 1) (mkentry 32 attr) (v\<lparr>v_col := v_col v - 1\<rparr>) else v)
      else
        (let v = v_set (v_row v) (v_col v) (mkentry c attr) v
         in if v_col v < 79 then v\<lparr>v_col := v_col v + 1\<rparr> else v_newline attr v))"

text \<open>The cursor is on the screen; with that all accesses are inside the text memory.\<close>

definition vga_ok :: "'a console_scheme \<Rightarrow> bool" where
  "vga_ok s \<longleftrightarrow> vrow s < 25 \<and> vcol s < 80"

definition cells_of :: "(nat \<Rightarrow> u16) \<Rightarrow> nat \<Rightarrow> nat \<Rightarrow> u16" where
  "cells_of m = (\<lambda>r c. if r < 25 \<and> c < 80 then m (80 * r + c) else 0)"

definition vga_view :: "'a console_scheme \<Rightarrow> vscreen" where
  "vga_view s = \<lparr>v_cells = cells_of (vga_mem s), v_row = unat (vrow s), v_col = unat (vcol s)\<rparr>"

lemma vga_index:
  assumes "y \<le> 25" "x < 80"
  shows "unat (of_nat y * VGA_WIDTH + of_nat x) = 80 * y + x"
proof -
  have "(of_nat y * VGA_WIDTH + of_nat x :: u32) = of_nat (80 * y + x)" by (simp add: VGA_WIDTH_def)
  moreover have "80 * y + x < 2 ^ LENGTH(32)" using assms by simp
  ultimately show ?thesis by (simp only: unat_of_nat_small)
qed

lemma cursor_index:
  assumes "vga_ok s"
  shows "unat (vrow s * VGA_WIDTH + vcol s) = 80 * unat (vrow s) + unat (vcol s)"
  using vga_index [of "unat (vrow s)" "unat (vcol s)"] assms by (simp add: vga_ok_def word_less_nat_alt)

text \<open>Filling one row.\<close>

lemma vga_row_loop:
  assumes y: "y < 25" and n: "n \<le> 80"
    and g: "\<And>x m. x < 80 \<Longrightarrow> (\<And>i. 80 * y + 80 \<le> i \<Longrightarrow> m i = vga_mem s i) \<Longrightarrow> g x (s\<lparr>vga_mem := m\<rparr>) = h x"
  shows "for_loop 0 n (\<lambda>x s. vga_put (of_nat y * VGA_WIDTH + of_nat x) (g x s) s) s =
    s\<lparr>vga_mem := (\<lambda>i. if 80 * y \<le> i \<and> i < 80 * y + n then h (i - 80 * y) else vga_mem s i)\<rparr>"
proof (rule for_loop_invariant [where P = "\<lambda>k t. t = s\<lparr>vga_mem := (\<lambda>i. if 80 * y \<le> i \<and> i < 80 * y + k then h (i - 80 * y) else vga_mem s i)\<rparr>"])
  have "(\<lambda>i. if 80 * y \<le> i \<and> i < 80 * y + 0 then h (i - 80 * y) else vga_mem s i) = vga_mem s" by (intro ext) auto
  then show "s = s\<lparr>vga_mem := (\<lambda>i. if 80 * y \<le> i \<and> i < 80 * y + 0 then h (i - 80 * y) else vga_mem s i)\<rparr>" by simp
  fix k t assume k: "k < n" and t: "t = s\<lparr>vga_mem := (\<lambda>i. if 80 * y \<le> i \<and> i < 80 * y + k then h (i - 80 * y) else vga_mem s i)\<rparr>"
  have gk: "g k t = h k" unfolding t by (rule g) (use k n in auto)
  have i: "unat (of_nat y * VGA_WIDTH + of_nat k) = 80 * y + k" using y k n by (intro vga_index) auto
  have "(\<lambda>i. if 80 * y \<le> i \<and> i < 80 * y + k then h (i - 80 * y) else vga_mem s i)(80 * y + k := h k) =
      (\<lambda>i. if 80 * y \<le> i \<and> i < 80 * y + Suc k then h (i - 80 * y) else vga_mem s i)"
    by (intro ext) auto
  then show "vga_put (of_nat y * VGA_WIDTH + of_nat k) (g k t) t =
      s\<lparr>vga_mem := (\<lambda>i. if 80 * y \<le> i \<and> i < 80 * y + Suc k then h (i - 80 * y) else vga_mem s i)\<rparr>"
    unfolding vga_put_def gk i by (simp add: t)
qed simp

lemma vga_scroll_eq:
  "vga_scroll s = s\<lparr>vga_mem := (\<lambda>i. if i < 1920 then vga_mem s (i + 80) else if i < 2000 then mkentry 32 (vcolor s) else vga_mem s i), vrow := 24\<rparr>"
proof -
  let ?m = "\<lambda>k i. if i < 80 * k then vga_mem s (i + 80) else vga_mem s i"
  let ?f = "\<lambda>y. for_loop 0 80 (\<lambda>x s. vga_put (of_nat y * VGA_WIDTH + of_nat x) (vga_mem s (unat ((of_nat y + 1) * VGA_WIDTH + of_nat x))) s)"
  have a: "for_loop 0 24 ?f s = s\<lparr>vga_mem := ?m 24\<rparr>"
  proof (rule for_loop_invariant [where P = "\<lambda>k t. t = s\<lparr>vga_mem := ?m k\<rparr>"])
    fix y t assume y: "y < 24" and t: "t = s\<lparr>vga_mem := ?m y\<rparr>"
    have i: "unat ((of_nat y + 1) * VGA_WIDTH + of_nat x) = 80 * (y + 1) + x" if "x < 80" for x
      using vga_index [of "y + 1" x] y that by (simp add: add.commute)
    have "?f y t = t\<lparr>vga_mem := (\<lambda>i. if 80 * y \<le> i \<and> i < 80 * y + 80 then vga_mem t (80 * (y + 1) + (i - 80 * y)) else vga_mem t i)\<rparr>"
      by (rule vga_row_loop [where h = "\<lambda>x. vga_mem t (80 * (y + 1) + x)"]) (use y i in simp_all)
    moreover have "(\<lambda>i. if 80 * y \<le> i \<and> i < 80 * y + 80 then vga_mem t (80 * (y + 1) + (i - 80 * y)) else vga_mem t i) = ?m (Suc y)"
      by (intro ext) (auto simp: t add.commute)
    ultimately show "?f y t = s\<lparr>vga_mem := ?m (Suc y)\<rparr>" by (simp add: t)
  qed simp_all
  have b: "for_loop 0 80 (\<lambda>x s. vga_put ((VGA_HEIGHT - 1) * VGA_WIDTH + of_nat x) (mkentry 32 (vcolor s)) s) t =
      t\<lparr>vga_mem := (\<lambda>i. if 80 * 24 \<le> i \<and> i < 80 * 24 + 80 then mkentry 32 (vcolor t) else vga_mem t i)\<rparr>" for t :: "'a console_scheme"
    using vga_row_loop [where y = 24 and n = 80 and s = t and g = "\<lambda>x s. mkentry 32 (vcolor s)" and h = "\<lambda>x. mkentry 32 (vcolor t)"]
    by (simp add: VGA_HEIGHT_def)
  have n: "unat (VGA_HEIGHT - 1) = 24" "unat VGA_WIDTH = 80" by (simp_all add: VGA_HEIGHT_def VGA_WIDTH_def)
  have "(\<lambda>i. if 80 * 24 \<le> i \<and> i < 80 * 24 + 80 then mkentry 32 (vcolor s) else ?m 24 i) =
      (\<lambda>i. if i < 1920 then vga_mem s (i + 80) else if i < 2000 then mkentry 32 (vcolor s) else vga_mem s i)"
    by (intro ext) auto
  moreover have "vcolor (s\<lparr>vga_mem := m\<rparr>) = vcolor s" "vga_mem (s\<lparr>vga_mem := m\<rparr>) = m" for m by simp_all
  ultimately show ?thesis
    unfolding vga_scroll_def Let_def n a b by (simp only: VGA_HEIGHT_def) simp
qed

section \<open>The console shows what is written\<close>

text \<open>The memory behind the screen is never written; the colour stays.\<close>

definition vga_frame :: "'a console_scheme \<Rightarrow> 'a console_scheme \<Rightarrow> bool" where
  "vga_frame s t \<longleftrightarrow> fbt_on t = fbt_on s \<and> vcolor t = vcolor s \<and> (\<forall>i \<ge> 2000. vga_mem t i = vga_mem s i)"

lemma update_cursor_fields [simp]:
  "vga_mem (update_cursor s) = vga_mem s" "vrow (update_cursor s) = vrow s" "vcol (update_cursor s) = vcol s"
  "vcolor (update_cursor s) = vcolor s" "fbt_on (update_cursor s) = fbt_on s"
  by (simp_all add: update_cursor_def Let_def outb_def access_def)

lemma vga_view_same:
  "vga_mem t = vga_mem s \<Longrightarrow> vrow t = vrow s \<Longrightarrow> vcol t = vcol s \<Longrightarrow> vga_view t = vga_view s"
  by (simp add: vga_view_def)

lemma u32_cursor:
  "x < 25 \<Longrightarrow> unat (x :: u32) < 25" "x < 80 \<Longrightarrow> unat (x :: u32) < 80"
  by (simp_all add: word_less_nat_alt)

lemma vga_newline_view:
  assumes "vrow s < 25"
  shows "vga_ok (vga_newline s) \<and> vga_frame s (vga_newline s) \<and> vga_view (vga_newline s) = v_newline (vcolor s) (vga_view s)"
proof -
  have r: "unat (vrow s) < 25" using assms by (rule u32_cursor)
  then have r1: "unat (vrow s + 1) = unat (vrow s) + 1" by (simp add: unat_add_no_wrap)
  show ?thesis
  proof (cases "unat (vrow s) < 24")
    case True
    then have "vrow s + 1 \<noteq> VGA_HEIGHT" using r1 by (auto simp: VGA_HEIGHT_def word_unat_eq_iff)
    then have e: "vga_newline s = s\<lparr>vcol := 0, vrow := vrow s + 1\<rparr>" by (simp add: vga_newline_def Let_def)
    show ?thesis unfolding e using True r1
      by (simp add: vga_ok_def vga_frame_def vga_view_def v_newline_def word_less_nat_alt)
  next
    case False
    then have "unat (vrow s) = 24" using r by simp
    then have v: "vrow s = 24" by (simp add: word_unat_eq_iff)
    then have e: "vga_newline s = vga_scroll (s\<lparr>vcol := 0, vrow := 25\<rparr>)" by (simp add: vga_newline_def Let_def VGA_HEIGHT_def)
    have c: "cells_of (\<lambda>i. if i < 1920 then vga_mem s (i + 80) else if i < 2000 then mkentry 32 (vcolor s) else vga_mem s i) =
        (\<lambda>r c. if 25 \<le> r \<or> 80 \<le> c then 0 else if r = 24 then mkentry 32 (vcolor s) else cells_of (vga_mem s) (r + 1) c)"
      by (auto simp: cells_of_def fun_eq_iff algebra_simps)
    have w: "(24 :: u32) < 25" "(0 :: u32) < 80" "unat (24 :: u32) = 24" by simp_all
    show ?thesis unfolding e vga_scroll_eq
      using w by (simp add: vga_ok_def vga_frame_def vga_view_def c [simplified] v_newline_def v cong: if_cong)
  qed
qed

lemma row_col_unique: "(c' :: nat) < 80 \<Longrightarrow> c < 80 \<Longrightarrow> 80 * r' + c' = 80 * r + c \<Longrightarrow> r' = r \<and> c' = c"
proof -
  assume c: "c' < 80" "c < 80" and e: "80 * r' + c' = 80 * r + c"
  from arg_cong [OF e, of "\<lambda>k. k div 80"] c have "r' = r" by simp
  with e show ?thesis by simp
qed

lemma vga_set_view:
  assumes "r < 25" "c < 80" "i = 80 * r + c"
  shows "vga_view (s\<lparr>vga_mem := (vga_mem s)(i := e)\<rparr>) = v_set r c e (vga_view s)"
proof -
  have "80 * r' + c' = i \<longleftrightarrow> r' = r \<and> c' = c" if "c' < 80" for r' c'
    using assms that row_col_unique [of c' c r' r] by auto
  then show ?thesis using assms by (auto simp: vga_view_def cells_of_def v_set_def fun_eq_iff)
qed

lemma tab_stop: "unat (x :: u32) < 80 \<Longrightarrow> unat ((x + 8) AND NOT 7) = 8 * (unat x div 8 + 1)"
proof -
  assume x: "unat x < 80"
  have m: "(7 :: u32) = mask 3" by (simp add: mask_eq_exp_minus_1)
  have "unat (x + 8) = unat x + 8" using x by (simp add: unat_add_no_wrap)
  moreover have "(x + 8) AND NOT 7 = push_bit 3 (drop_bit 3 (x + 8))"
    unfolding m by (rule bit_word_eqI) (auto simp: bit_simps)
  then have "unat ((x + 8) AND NOT 7) = take_bit LENGTH(32) (push_bit 3 (drop_bit 3 (take_bit LENGTH(32) (unat (x + 8)))))"
    by (simp only: unsigned_push_bit_eq unsigned_drop_bit_eq)
  then have "unat ((x + 8) AND NOT 7) = 8 * (unat (x + 8) mod 4294967296 div 8) mod 4294967296"
    by (simp add: push_bit_eq_mult drop_bit_eq_div take_bit_eq_mod mult.commute)
  ultimately show ?thesis using x by (simp add: div_add1_eq)
qed

lemma terminal_putchar_step:
  assumes off: "\<not> fbt_on s" and ok: "vga_ok s"
  shows "vga_ok (terminal_putchar c s) \<and> vga_frame s (terminal_putchar c s) \<and>
    vga_view (terminal_putchar c s) = v_putchar (vcolor s) c (vga_view s)"
proof -
  have rc: "vrow s < 25" "vcol s < 80" "unat (vrow s) < 25" "unat (vcol s) < 80"
    using ok u32_cursor by (auto simp: vga_ok_def)
  have up: "vga_ok (update_cursor t) = vga_ok t" "vga_frame s (update_cursor t) = vga_frame s t" "vga_view (update_cursor t) = vga_view t" for t :: "'a console_scheme"
    by (simp_all add: vga_ok_def vga_frame_def vga_view_def)
  note put = terminal_putchar_def fbterm_active_def if_not_P [OF off]
  consider "c = 10" | "c = 13" | "c = 9" | "c = 8" | "c \<noteq> 10" "c \<noteq> 13" "c \<noteq> 9" "c \<noteq> 8" by blast
  then show ?thesis
  proof cases
    case 1
    then show ?thesis using vga_newline_view [OF rc(1)] by (simp add: put up v_putchar_def)
  next
    case 2
    then show ?thesis using rc by (simp add: put up v_putchar_def) (simp add: vga_ok_def vga_frame_def vga_view_def)
  next
    case 3
    let ?s = "s\<lparr>vcol := (vcol s + 8) AND NOT 7\<rparr>"
    have t: "unat (vcol ?s) = 8 * (unat (vcol s) div 8 + 1)" using tab_stop [OF rc(4)] by simp
    have n: "vga_newline ?s = vga_newline s" by (simp add: vga_newline_def)
    show ?thesis
    proof (cases "8 * (unat (vcol s) div 8 + 1) < 80")
      case True
      then have "\<not> VGA_WIDTH \<le> vcol ?s" using t by (simp add: VGA_WIDTH_def word_le_nat_alt)
      then show ?thesis using 3 rc t True
        by (simp add: put up v_putchar_def Let_def) (simp add: vga_ok_def vga_frame_def vga_view_def word_less_nat_alt)
    next
      case False
      then have "VGA_WIDTH \<le> vcol ?s" using t by (simp add: VGA_WIDTH_def word_le_nat_alt)
      then show ?thesis using 3 False vga_newline_view [OF rc(1)] n
        by (simp add: put up v_putchar_def Let_def) (simp add: vga_view_def)
    qed
  next
    case 4
    show ?thesis
    proof (cases "0 < vcol s")
      case True
      let ?s = "s\<lparr>vcol := vcol s - 1\<rparr>"
      have u: "unat (vcol s - 1) = unat (vcol s) - 1" "0 < unat (vcol s)" using True by (simp_all add: unat_sub_no_wrap word_less_nat_alt)
      then have ok1: "vga_ok ?s" using rc by (simp add: vga_ok_def word_less_nat_alt)
      have i: "unat (vrow ?s * VGA_WIDTH + vcol ?s) = 80 * unat (vrow s) + (unat (vcol s) - 1)" using cursor_index [OF ok1] u by simp
      have e: "terminal_putchar c s = update_cursor (vga_put (vrow ?s * VGA_WIDTH + vcol ?s) (mkentry 32 (vcolor s)) ?s)"
        using 4 True by (simp add: put Let_def)
      have v: "vga_view (vga_put (vrow ?s * VGA_WIDTH + vcol ?s) (mkentry 32 (vcolor s)) ?s) =
          v_set (unat (vrow s)) (unat (vcol s) - 1) (mkentry 32 (vcolor s)) (vga_view ?s)"
        unfolding vga_put_def i by (rule vga_set_view) (use rc in auto)
      have "vga_view ?s = (vga_view s)\<lparr>v_col := unat (vcol s) - 1\<rparr>" using u by (simp add: vga_view_def)
      then show ?thesis unfolding e up v using 4 u rc ok1 i
        by (auto simp: v_putchar_def vga_view_def vga_put_def vga_ok_def vga_frame_def)
    next
      case False
      then have "vcol s = 0" by (simp add: word_gt_0)
      then have "terminal_putchar c s = update_cursor s" "v_putchar (vcolor s) c (vga_view s) = vga_view s"
        using 4 by (simp_all add: put v_putchar_def vga_view_def)
      then show ?thesis using ok by (simp add: up vga_frame_def)
    qed
  next
    case 5
    let ?s = "vga_put (vrow s * VGA_WIDTH + vcol s) (mkentry c (vcolor s)) s"
    let ?t = "?s\<lparr>vcol := vcol s + 1\<rparr>"
    have e: "terminal_putchar c s = update_cursor (if vcol s + 1 = VGA_WIDTH then vga_newline ?t else ?t)"
      using 5 by (simp add: put Let_def vga_put_def)
    have v: "vga_view ?s = v_set (unat (vrow s)) (unat (vcol s)) (mkentry c (vcolor s)) (vga_view s)"
      unfolding vga_put_def cursor_index [OF ok] by (rule vga_set_view) (use rc in auto)
    have f: "vga_frame s ?s" "vrow ?s = vrow s" "vcol ?s = vcol s" "vcolor ?s = vcolor s"
      using cursor_index [OF ok] rc by (auto simp: vga_frame_def vga_put_def)
    have c1: "unat (vcol s + 1) = unat (vcol s) + 1" using rc by (simp add: unat_add_no_wrap)
    have w: "vcol s + 1 = VGA_WIDTH \<longleftrightarrow> \<not> unat (vcol s) < 79" using c1 rc by (auto simp: VGA_WIDTH_def word_unat_eq_iff)
    have a: "v_putchar (vcolor s) c (vga_view s) =
        (if unat (vcol s) < 79 then (vga_view ?s)\<lparr>v_col := unat (vcol s) + 1\<rparr> else v_newline (vcolor s) (vga_view ?s))"
      using 5 unfolding v by (simp add: v_putchar_def Let_def v_set_def vga_view_def)
    show ?thesis
    proof (cases "unat (vcol s) < 79")
      case True
      have "vga_view ?t = (vga_view ?s)\<lparr>v_col := unat (vcol s) + 1\<rparr>" using c1 by (simp add: vga_view_def)
      moreover have "vga_ok ?t" using rc True c1 f by (simp add: vga_ok_def word_less_nat_alt)
      moreover have "vga_frame s ?t" using f(1) by (simp add: vga_frame_def)
      ultimately show ?thesis using True w a by (simp add: e up)
    next
      case False
      have "vga_newline ?t = vga_newline ?s" by (simp add: vga_newline_def)
      moreover have "vrow ?s < 25" using f rc by simp
      note nv = vga_newline_view [OF this]
      ultimately show ?thesis using False w a f nv by (auto simp: e up vga_frame_def)
    qed
  qed
qed

fun v_write :: "u8 \<Rightarrow> u8 list \<Rightarrow> vscreen \<Rightarrow> vscreen" where
  "v_write attr [] v = v"
| "v_write attr (c # cs) v = (if c = 0 then v else v_write attr cs (v_putchar attr c v))"

lemma vga_frame_refl: "vga_frame s s" by (simp add: vga_frame_def)

lemma vga_frame_trans: "vga_frame s t \<Longrightarrow> vga_frame t u \<Longrightarrow> vga_frame s u" by (simp add: vga_frame_def)

lemma terminal_write_steps:
  "\<not> fbt_on s \<Longrightarrow> vga_ok s \<Longrightarrow> vga_ok (terminal_write str s) \<and> vga_frame s (terminal_write str s) \<and>
    vga_view (terminal_write str s) = v_write (vcolor s) str (vga_view s)"
proof (induction str arbitrary: s)
  case Nil
  then show ?case by (simp add: vga_frame_refl)
next
  case (Cons c str)
  note st = terminal_putchar_step [OF Cons.prems, of c]
  then have f: "fbt_on (terminal_putchar c s) = fbt_on s" "vcolor (terminal_putchar c s) = vcolor s" by (simp_all add: vga_frame_def)
  show ?case
  proof (cases "c = 0")
    case True
    then show ?thesis using Cons.prems by (simp add: vga_frame_refl)
  next
    case False
    then show ?thesis using Cons.IH [of "terminal_putchar c s"] Cons.prems st f vga_frame_trans by auto
  qed
qed

definition v_blank :: "u8 \<Rightarrow> vscreen" where
  "v_blank attr = \<lparr>v_cells = cells_of (\<lambda>_. mkentry 32 attr), v_row = 0, v_col = 0\<rparr>"

lemma vga_fill_eq:
  "for_loop 0 25 (\<lambda>y. for_loop 0 80 (\<lambda>x s. vga_put (of_nat y * VGA_WIDTH + of_nat x) (mkentry 32 (vcolor s)) s)) s =
    s\<lparr>vga_mem := (\<lambda>i. if i < 2000 then mkentry 32 (vcolor s) else vga_mem s i)\<rparr>"
proof -
  let ?m = "\<lambda>k i. if i < 80 * k then mkentry 32 (vcolor s) else vga_mem s i"
  let ?f = "\<lambda>y. for_loop 0 80 (\<lambda>x s. vga_put (of_nat y * VGA_WIDTH + of_nat x) (mkentry 32 (vcolor s)) s)"
  have "for_loop 0 25 ?f s = s\<lparr>vga_mem := ?m 25\<rparr>"
  proof (rule for_loop_invariant [where P = "\<lambda>k t. t = s\<lparr>vga_mem := ?m k\<rparr>"])
    fix y t assume y: "y < 25" and t: "t = s\<lparr>vga_mem := ?m y\<rparr>"
    have "?f y t = t\<lparr>vga_mem := (\<lambda>i. if 80 * y \<le> i \<and> i < 80 * y + 80 then mkentry 32 (vcolor t) else vga_mem t i)\<rparr>"
      by (rule vga_row_loop [where h = "\<lambda>x. mkentry 32 (vcolor t)"]) (use y in simp_all)
    moreover have "(\<lambda>i. if 80 * y \<le> i \<and> i < 80 * y + 80 then mkentry 32 (vcolor t) else vga_mem t i) = ?m (Suc y)"
      by (intro ext) (auto simp: t)
    ultimately show "?f y t = s\<lparr>vga_mem := ?m (Suc y)\<rparr>" by (simp add: t)
  qed simp_all
  then show ?thesis by simp
qed

lemma terminal_clear_text:
  assumes "\<not> fbt_on s"
  shows "vga_ok (terminal_clear s) \<and> vga_frame s (terminal_clear s) \<and> vga_view (terminal_clear s) = v_blank (vcolor s)"
proof -
  have n: "unat VGA_HEIGHT = 25" "unat VGA_WIDTH = 80" by (simp_all add: VGA_HEIGHT_def VGA_WIDTH_def)
  have "terminal_clear s = update_cursor ((s\<lparr>vga_mem := (\<lambda>i. if i < 2000 then mkentry 32 (vcolor s) else vga_mem s i)\<rparr>)\<lparr>vrow := 0, vcol := 0\<rparr>)"
    using assms by (simp only: terminal_clear_def fbterm_active_def if_False Let_def n vga_fill_eq)
  moreover have "cells_of (\<lambda>i. if i < 2000 then mkentry 32 (vcolor s) else vga_mem s i) = cells_of (\<lambda>_. mkentry 32 (vcolor s))"
    by (auto simp: cells_of_def fun_eq_iff)
  ultimately show ?thesis by (simp add: vga_ok_def vga_frame_def vga_view_def v_blank_def)
qed

text \<open>
  C32. Text mode: after \<^verbatim>\<open>terminal_init\<close> and any text the memory of the card, read as 25 rows of 80,
  is the screen that the text gives from blank: control characters, tabs to the next multiple of
  eight, wrapping and scrolling included. The cursor stays on the screen, and no memory behind the
  screen is ever written.
\<close>

theorem terminal_shows_text:
  assumes "\<not> fbt_on s"
  shows "vga_ok (terminal_write str (terminal_init s)) \<and>
    vga_view (terminal_write str (terminal_init s)) = v_write (mkcolor VGA_COLOR_WHITE VGA_COLOR_BLACK) str (v_blank (mkcolor VGA_COLOR_WHITE VGA_COLOR_BLACK)) \<and>
    vga_frame (terminal_init s) (terminal_write str (terminal_init s))"
proof -
  let ?s = "s\<lparr>vrow := 0, vcol := 0, vcolor := mkcolor VGA_COLOR_WHITE VGA_COLOR_BLACK\<rparr>"
  have i: "terminal_init s = terminal_clear ?s" by (simp add: terminal_init_def)
  have c: "vga_ok (terminal_clear ?s) \<and> vga_frame ?s (terminal_clear ?s) \<and> vga_view (terminal_clear ?s) = v_blank (vcolor ?s)"
    using assms by (intro terminal_clear_text) simp
  then have "\<not> fbt_on (terminal_clear ?s)" "vcolor (terminal_clear ?s) = vcolor ?s" using assms by (simp_all add: vga_frame_def)
  then show ?thesis using terminal_write_steps [of "terminal_clear ?s" str] c unfolding i by simp
qed

definition small_console :: console where
  "small_console = fbterm.extend small_term \<lparr>vga_mem = (\<lambda>_. 0), vrow = 7, vcol = 7, vcolor = 0\<rparr>"

lemma terminal_shows_text_witness:
  "vga_view (terminal_write (lit ''hi'') (terminal_init small_console)) =
     v_write (mkcolor VGA_COLOR_WHITE VGA_COLOR_BLACK) (lit ''hi'') (v_blank (mkcolor VGA_COLOR_WHITE VGA_COLOR_BLACK))"
proof -
  have "\<not> fbt_on small_console" by (simp add: small_console_def small_term_def small_fb_def fbterm.defs fb.defs)
  from terminal_shows_text [OF this] show ?thesis by blast
qed

section \<open>Both screens\<close>

text \<open>
  The console is well formed: in graphics mode its picture is that of a grid with its cursor inside,
  in text mode the cursor is on the screen.
\<close>

definition console_ok :: "'a console_scheme \<Rightarrow> bool" where
  "console_ok s \<longleftrightarrow> (if fbt_on s then \<exists>g. displays s g \<and> g_cursor_ok g else vga_ok s)"

lemma displays_on: "displays s g \<Longrightarrow> fbt_on s" by (simp add: displays_def term_geo_def)

lemma console_ok_graphics:
  assumes "simulates f h" and "displays s g" and "g_cursor_ok g"
  shows "console_ok (f (s :: 'a console_scheme))"
proof -
  from simulatesD [OF assms] have "displays (f s) (h g)" "g_cursor_ok (h g)" by blast+
  then show ?thesis using displays_on unfolding console_ok_def by auto
qed

lemma putchar_console_ok:
  assumes "console_ok s"
  shows "console_ok (terminal_putchar c s)"
proof (cases "fbt_on s")
  case True
  then obtain g where "displays s g" "g_cursor_ok g" using assms by (auto simp: console_ok_def)
  then show ?thesis using console_ok_graphics [OF putchar_simulates] True by (simp add: terminal_putchar_def fbterm_active_def)
next
  case False
  then show ?thesis using terminal_putchar_step [of s c] assms by (simp add: console_ok_def vga_frame_def)
qed

lemma write_console_ok: "console_ok s \<Longrightarrow> console_ok (terminal_write str s)"
  by (induction str arbitrary: s) (simp_all add: putchar_console_ok)

lemma clear_console_ok:
  assumes "console_ok s"
  shows "console_ok (terminal_clear s)"
proof (cases "fbt_on s")
  case True
  then obtain g where "displays s g" "g_cursor_ok g" using assms by (auto simp: console_ok_def)
  then show ?thesis using console_ok_graphics [OF clear_simulates] True by (simp add: terminal_clear_def fbterm_active_def)
next
  case False
  then show ?thesis using terminal_clear_text [of s] by (simp add: console_ok_def vga_frame_def)
qed

lemma setcolor_console_ok:
  assumes "console_ok s"
  shows "console_ok (terminal_setcolor fg bg s)"
proof (cases "fbt_on s")
  case True
  then obtain g where "displays s g" "g_cursor_ok g" using assms by (auto simp: console_ok_def)
  then show ?thesis using console_ok_graphics [OF setcolor_simulates] True by (simp add: terminal_setcolor_def fbterm_active_def)
next
  case False
  then show ?thesis using assms by (simp add: console_ok_def terminal_setcolor_def fbterm_active_def vga_ok_def)
qed

text \<open>The calls the rest of the kernel makes, and a run of them.\<close>

datatype termop = Put u8 | Color vga_color vga_color | Cls

fun term_do :: "termop \<Rightarrow> 'a console_scheme \<Rightarrow> 'a console_scheme" where
  "term_do (Put c) s = terminal_putchar c s"
| "term_do (Color fg bg) s = terminal_setcolor fg bg s"
| "term_do Cls s = terminal_clear s"

definition term_run :: "termop list \<Rightarrow> 'a console_scheme \<Rightarrow> 'a console_scheme" where
  "term_run ops s = fold term_do ops s"

text \<open>Printing a text whose length is known, and \<^verbatim>\<open>kprintf\<close>.\<close>

definition term_chars :: "u8 list \<Rightarrow> 'a console_scheme \<Rightarrow> 'a console_scheme" where
  "term_chars cs s = fold terminal_putchar cs s"

definition kprint :: "u8 list \<Rightarrow> karg list \<Rightarrow> 'a console_scheme \<Rightarrow> 'a console_scheme" where
  "kprint fmt args s = (case kprintf fmt args of Some out \<Rightarrow> term_chars out s | None \<Rightarrow> s)"

text \<open>
  C33. Whatever the kernel does with its terminal, in text mode or on the framebuffer, the console
  stays well formed: any sequence of characters, colour changes and clears leaves the cursor on the
  screen, and in graphics mode the picture that of a grid of cells.
\<close>

theorem console_stays_ok:
  assumes "console_ok s"
  shows "console_ok (term_run ops s)"
  using assms
proof (induction ops arbitrary: s)
  case Nil
  then show ?case by (simp add: term_run_def)
next
  case (Cons op ops)
  have "console_ok (term_do op s)"
    using Cons.prems putchar_console_ok clear_console_ok setcolor_console_ok by (cases op) auto
  then show ?case using Cons.IH by (simp add: term_run_def)
qed

lemma console_stays_ok_witness:
  "console_ok (term_run [Color 12 0, Put 65, Put 10, Cls, Put 9] (terminal_init small_console))"
proof -
  have off: "\<not> fbt_on small_console" by (simp add: small_console_def small_term_def small_fb_def fbterm.defs fb.defs)
  let ?s = "small_console\<lparr>vrow := 0, vcol := 0, vcolor := mkcolor VGA_COLOR_WHITE VGA_COLOR_BLACK\<rparr>"
  have "vga_ok ?s" by (simp add: vga_ok_def)
  then have "console_ok ?s" using off by (simp add: console_ok_def)
  then have "console_ok (terminal_init small_console)" unfolding terminal_init_def by (rule clear_console_ok)
  then show ?thesis by (rule console_stays_ok)
qed

end
