(* ===== verification/Sys_Call.thy ===== *)
theory Sys_Call
  imports Proc_Sched Arch_Idt Drv_Keyboard Drv_Vga
begin

text \<open>
  The system calls, \<^verbatim>\<open>kernel/syscall/syscall.c\<close>: the dispatcher that the stub of vector 128 enters,
  over the state of the components it calls. The caller's memory is the parameter of the buffers, as
  bytes by address; \<open>pool\<close> is the address of the static array that \<^verbatim>\<open>sbrk\<close> hands out. \<open>irqs n\<close> are the
  interrupts that end the halts of the \<open>n\<close>th wait for a key; the stub runs the dispatcher with
  interrupts off, so on the machine they are none. \<open>None\<close> is a call that waits for ever.
\<close>

definition FD_STDIN :: u32 where "FD_STDIN = 0"
definition FD_STDOUT :: u32 where "FD_STDOUT = 1"
definition FD_STDERR :: u32 where "FD_STDERR = 2"

definition SYSCALL_VECTOR :: u32 where "SYSCALL_VECTOR = 0x80"
definition SYS_EXIT :: u32 where "SYS_EXIT = 0"
definition SYS_WRITE :: u32 where "SYS_WRITE = 1"
definition SYS_READ :: u32 where "SYS_READ = 2"
definition SYS_GETPID :: u32 where "SYS_GETPID = 3"
definition SYS_SLEEP :: u32 where "SYS_SLEEP = 4"
definition SYS_YIELD :: u32 where "SYS_YIELD = 5"
definition SYS_SBRK :: u32 where "SYS_SBRK = 6"

lemmas sys_numbers = SYS_EXIT_def SYS_WRITE_def SYS_READ_def SYS_GETPID_def SYS_SLEEP_def SYS_YIELD_def SYS_SBRK_def

text \<open>\<^verbatim>\<open>sizeof(sbrk_pool)\<close>\<close>

definition POOL_SIZE :: u32 where "POOL_SIZE = 512 * 1024"

record sysc =
  sc_procs :: procs
  sc_kbd :: kbd
  sc_con :: console
  sbrk_ptr :: u32
  umem :: "u32 \<Rightarrow> u8"

definition sys_exit :: "u64 \<Rightarrow> u32 \<Rightarrow> sysc \<Rightarrow> sysc option" where
  "sys_exit now code s =
     (let p = proc_table (sc_procs s) (proc_current (sc_procs s));
          con = kprint (lit ''[proc] PID %u '' @ [39] @ lit ''%s'' @ [39] @ lit '' exited with code %d'' @ [10])
                  [KInt (pid p), KStr (Some (lit (name p))), KInt code] (sc_con s)
      in do { ps \<leftarrow> proc_exit now code (sc_procs s); Some (s\<lparr>sc_procs := ps, sc_con := con\<rparr>) })"

definition sys_write :: "u32 \<Rightarrow> u32 \<Rightarrow> u32 \<Rightarrow> sysc \<Rightarrow> u32 \<times> sysc" where
  "sys_write fd addr len s =
     (if addr = 0 then (- 1, s)
      else if fd = FD_STDOUT \<or> fd = FD_STDERR then
        (len, s\<lparr>sc_con := for_loop 0 (unat len) (\<lambda>i. terminal_putchar (umem s (addr + of_nat i))) (sc_con s)\<rparr>)
      else (- 1, s))"

text \<open>The loop from \<open>i\<close> on, \<open>n\<close> characters still to read.\<close>

fun read_chars :: "(nat \<Rightarrow> (kbd \<Rightarrow> kbd) list) \<Rightarrow> u32 \<Rightarrow> nat \<Rightarrow> nat \<Rightarrow> sysc \<Rightarrow> (u32 \<times> sysc) option" where
  "read_chars irqs addr i 0 s = Some (of_nat i, s)"
| "read_chars irqs addr i (Suc n) s =
     do { (c, k) \<leftarrow> keyboard_getchar (irqs i) (sc_kbd s);
          let s = s\<lparr>sc_kbd := k, umem := (umem s)(addr + of_nat i := c)\<rparr>;
          if c = 10 then Some (of_nat (i + 1), s) else read_chars irqs addr (i + 1) n s }"

definition sys_read :: "(nat \<Rightarrow> (kbd \<Rightarrow> kbd) list) \<Rightarrow> u32 \<Rightarrow> u32 \<Rightarrow> u32 \<Rightarrow> sysc \<Rightarrow> (u32 \<times> sysc) option" where
  "sys_read irqs fd addr len s =
     (if addr = 0 \<or> len = 0 then Some (- 1, s)
      else if fd = FD_STDIN then read_chars irqs addr 0 (unat len) s
      else Some (- 1, s))"

definition sys_getpid :: "sysc \<Rightarrow> u32" where
  "sys_getpid s = pid (proc_table (sc_procs s) (proc_current (sc_procs s)))"

definition sys_sleep :: "u64 \<Rightarrow> u32 \<Rightarrow> sysc \<Rightarrow> (u32 \<times> sysc) option" where
  "sys_sleep now ms s = do { ps \<leftarrow> proc_sleep now now ms (sc_procs s); Some (0, s\<lparr>sc_procs := ps\<rparr>) }"

definition sys_yield :: "u64 \<Rightarrow> sysc \<Rightarrow> (u32 \<times> sysc) option" where
  "sys_yield now s = do { ps \<leftarrow> proc_yield now (sc_procs s); Some (0, s\<lparr>sc_procs := ps\<rparr>) }"

definition sys_sbrk :: "u32 \<Rightarrow> u32 \<Rightarrow> sysc \<Rightarrow> u32 \<times> sysc" where
  "sys_sbrk pool inc s =
     (let old = sbrk_ptr s
      in if sint inc < 0 then
           (if sbrk_ptr s < - inc then (- 1, s) else (pool + old, s\<lparr>sbrk_ptr := sbrk_ptr s - (- inc)\<rparr>))
         else
           (if POOL_SIZE < sbrk_ptr s + inc then (- 1, s) else (pool + old, s\<lparr>sbrk_ptr := sbrk_ptr s + inc\<rparr>)))"

text \<open>
  What the dispatcher leaves in the caller's frame, written when the caller runs again: the result
  in \<open>eax\<close>. \<open>Gone\<close> is an exit, after which it does not. \<open>now\<close> is the tick count.
\<close>

datatype sysret = Back registers | Gone

definition returned :: "registers \<Rightarrow> u32 \<Rightarrow> sysret" where
  "returned r ret = Back (r\<lparr>r_eax := ret\<rparr>)"

definition syscall_dispatch ::
    "u64 \<Rightarrow> (nat \<Rightarrow> (kbd \<Rightarrow> kbd) list) \<Rightarrow> u32 \<Rightarrow> registers \<Rightarrow> sysc \<Rightarrow> (sysret \<times> sysc) option" where
  "syscall_dispatch now irqs pool r s =
     (if r_eax r = SYS_EXIT then do { s \<leftarrow> sys_exit now (r_ebx r) s; Some (Gone, s) }
      else if r_eax r = SYS_WRITE then (case sys_write (r_ebx r) (r_ecx r) (r_edx r) s of (ret, s) \<Rightarrow> Some (returned r ret, s))
      else if r_eax r = SYS_READ then do { (ret, s) \<leftarrow> sys_read irqs (r_ebx r) (r_ecx r) (r_edx r) s; Some (returned r ret, s) }
      else if r_eax r = SYS_GETPID then Some (returned r (sys_getpid s), s)
      else if r_eax r = SYS_SLEEP then do { (ret, s) \<leftarrow> sys_sleep now (r_ebx r) s; Some (returned r ret, s) }
      else if r_eax r = SYS_YIELD then do { (ret, s) \<leftarrow> sys_yield now s; Some (returned r ret, s) }
      else if r_eax r = SYS_SBRK then (case sys_sbrk pool (r_ebx r) s of (ret, s) \<Rightarrow> Some (returned r ret, s))
      else Some (returned r (- 1), s\<lparr>sc_con := kprint (lit ''[syscall] unknown %u from PID %u'' @ [10]) [KInt (r_eax r), KInt (sys_getpid s)] (sc_con s)\<rparr>))"

definition syscall_init :: "sysc \<Rightarrow> sysc" where
  "syscall_init s = s\<lparr>sc_con := kprint (lit ''[syscall] StackOS syscall interface ready (int 0x%x)'' @ [10]) [KInt SYSCALL_VECTOR] (sc_con s)\<rparr>"

section \<open>The break\<close>

text \<open>
  C34. \<^verbatim>\<open>sbrk\<close> moves the break of the static pool by the signed increment: it succeeds exactly when
  the new break lies in the pool, then returns the old break's address and moves it; otherwise it
  returns \<open>-1\<close> and changes nothing. No increment, the most negative one included, leaves the pool.
\<close>

theorem sbrk_moves_break:
  assumes "sbrk_ptr s \<le> POOL_SIZE"
  shows "sys_sbrk pool inc s =
      (if 0 \<le> uint (sbrk_ptr s) + sint inc \<and> uint (sbrk_ptr s) + sint inc \<le> 524288
       then (pool + sbrk_ptr s, s\<lparr>sbrk_ptr := word_of_int (uint (sbrk_ptr s) + sint inc)\<rparr>) else (- 1, s)) \<and>
    sbrk_ptr (snd (sys_sbrk pool inc s)) \<le> POOL_SIZE"
proof -
  have p: "uint (sbrk_ptr s) \<le> 524288" "0 \<le> uint (sbrk_ptr s)" using assms by (simp_all add: POOL_SIZE_def word_le_def)
  have i: "uint inc < 2 ^ LENGTH(32)" "0 \<le> uint inc" by (rule unsigned_less) simp
  have w: "(word_of_int (uint (sbrk_ptr s) + sint inc) :: u32) = sbrk_ptr s + inc" by simp
  show ?thesis
  proof (cases "sint inc < 0")
    case True
    have m: "uint (- inc) = - sint inc" by (rule uint_minus_negative [OF True])
    then have "sbrk_ptr s < - inc \<longleftrightarrow> uint (sbrk_ptr s) + sint inc < 0" by (auto simp: word_less_def)
    moreover have "sbrk_ptr s - (- inc) = sbrk_ptr s + inc" by simp
    moreover have "uint (sbrk_ptr s + inc) = uint (sbrk_ptr s) + sint inc" if "0 \<le> uint (sbrk_ptr s) + sint inc"
    proof -
      have "uint (word_of_int (uint (sbrk_ptr s) + sint inc) :: u32) = take_bit LENGTH(32) (uint (sbrk_ptr s) + sint inc)"
        by (rule uint_word_of_int_eq)
      also have "\<dots> = uint (sbrk_ptr s) + sint inc" using that p True by (intro take_bit_int_eq_self) auto
      finally show ?thesis unfolding w .
    qed
    ultimately show ?thesis using True p w by (auto simp: sys_sbrk_def Let_def POOL_SIZE_def word_le_def)
  next
    case False
    then have n: "sint inc = uint inc" "uint inc < 2 ^ 31" using i by (simp_all add: sint_cases split: if_splits)
    have "uint (word_of_int (uint (sbrk_ptr s) + sint inc) :: u32) = take_bit LENGTH(32) (uint (sbrk_ptr s) + sint inc)"
      by (rule uint_word_of_int_eq)
    also have "\<dots> = uint (sbrk_ptr s) + sint inc" using n p i by (intro take_bit_int_eq_self) auto
    finally have "uint (sbrk_ptr s + inc) = uint (sbrk_ptr s) + sint inc" unfolding w .
    then have "POOL_SIZE < sbrk_ptr s + inc \<longleftrightarrow> 524288 < uint (sbrk_ptr s) + sint inc" by (simp add: POOL_SIZE_def word_less_def)
    then show ?thesis using False n p i w assms by (auto simp: sys_sbrk_def Let_def not_less)
  qed
qed

section \<open>Reading\<close>

text \<open>What a read of at most \<open>n\<close> characters takes from a queue: up to the first newline.\<close>

fun line_of :: "nat \<Rightarrow> u8 list \<Rightarrow> u8 list" where
  "line_of (Suc n) (c # cs) = c # (if c = 10 then [] else line_of n cs)"
| "line_of _ _ = []"

definition line_ready :: "nat \<Rightarrow> u8 list \<Rightarrow> bool" where
  "line_ready n cs \<longleftrightarrow> n \<le> length cs \<or> 10 \<in> set cs"

text \<open>Bytes in the caller's memory.\<close>

definition stored :: "u32 \<Rightarrow> nat \<Rightarrow> u8 list \<Rightarrow> (u32 \<Rightarrow> u8) \<Rightarrow> u32 \<Rightarrow> u8" where
  "stored addr i cs m = fold (\<lambda>(k, c) m. m(addr + of_nat k := c)) (zip [i..<i + length cs] cs) m"

lemma stored_simps:
  "stored addr i [] m = m" "stored addr i (c # cs) m = stored addr (Suc i) cs (m(addr + of_nat i := c))"
  by (simp_all add: stored_def upt_conv_Cons del: upt_Suc)

lemma read_chars_buffered:
  assumes "ring_ok (sc_kbd s)" and "0 \<notin> set (ring_items (sc_kbd s))"
  shows "(if line_ready n (ring_items (sc_kbd s)) \<or> n = 0
     then \<exists>k. read_chars (\<lambda>_. []) addr i n s = Some (of_nat (i + length (line_of n (ring_items (sc_kbd s)))),
              s\<lparr>sc_kbd := k, umem := stored addr i (line_of n (ring_items (sc_kbd s))) (umem s)\<rparr>) \<and>
            ring_ok k \<and> ring_items (sc_kbd s) = line_of n (ring_items (sc_kbd s)) @ ring_items k
     else read_chars (\<lambda>_. []) addr i n s = None)"
  using assms
proof (induction n arbitrary: i s)
  case 0
  have "s = s\<lparr>sc_kbd := sc_kbd s, umem := umem s\<rparr>" by simp
  with 0 show ?case by (auto simp: stored_simps intro: exI [of _ "sc_kbd s"])
next
  case (Suc n)
  show ?case
  proof (cases "ring_items (sc_kbd s)")
    case Nil
    then have "read_chars (\<lambda>_. []) addr i (Suc n) s = None" using poll_empty [OF Suc.prems(1)] by simp
    then show ?thesis using Nil by (simp add: line_ready_def)
  next
    case (Cons c cs)
    obtain k where k: "keyboard_poll (sc_kbd s) = (c, k)" "ring_ok k" "ring_items k = cs"
      using poll_items [OF Suc.prems(1) Cons] by blast
    have c: "c \<noteq> 0" using Suc.prems(2) Cons by auto
    let ?s = "s\<lparr>sc_kbd := k, umem := (umem s)(addr + of_nat i := c)\<rparr>"
    have g: "keyboard_getchar [] (sc_kbd s) = Some (c, k)" using k(1) c by simp
    have r: "read_chars (\<lambda>_. []) addr i (Suc n) s = (if c = 10 then Some (of_nat (i + 1), ?s) else read_chars (\<lambda>_. []) addr (i + 1) n ?s)"
      using g by (simp del: keyboard_getchar.simps)
    show ?thesis
    proof (cases "c = 10")
      case True
      then show ?thesis unfolding r using k Cons
        by (auto simp: line_ready_def stored_simps intro: exI [of _ k])
    next
      case False
      have "0 \<notin> set (ring_items (sc_kbd ?s))" using Suc.prems(2) Cons k(3) by simp
      note IH = Suc.IH [of ?s "i + 1", OF _ this]
      have l: "line_ready (Suc n) (c # cs) \<longleftrightarrow> line_ready n cs \<or> n = 0" using False by (auto simp: line_ready_def)
      show ?thesis
      proof (cases "line_ready n cs \<or> n = 0")
        case True
        then obtain k' where k': "read_chars (\<lambda>_. []) addr (i + 1) n ?s = Some (of_nat (i + 1 + length (line_of n cs)),
              ?s\<lparr>sc_kbd := k', umem := stored addr (i + 1) (line_of n cs) (umem ?s)\<rparr>)" "ring_ok k'" "cs = line_of n cs @ ring_items k'"
          using IH k by auto
        then show ?thesis unfolding r using True False l Cons
          by (intro if_P [THEN iffD2] exI [of _ k']) (simp_all add: stored_simps)
      next
        case False
        then have "read_chars (\<lambda>_. []) addr (i + 1) n ?s = None" using IH k by auto
        then show ?thesis unfolding r using False l \<open>c \<noteq> 10\<close> Cons by simp
      qed
    qed
  qed
qed

text \<open>
  C35. The read call, run as the stub runs it with interrupts off: when the keyboard's ring holds a
  newline, or as many characters as were asked for, it stores the characters up to there in the
  caller's buffer, takes them from the ring, and returns their number. When it does not, the call
  never returns: the wait for a key halts a processor that no interrupt can wake.
\<close>

theorem read_call_takes_line:
  assumes "r_eax r = SYS_READ" and "r_ebx r = FD_STDIN" and "r_ecx r \<noteq> 0" and "r_edx r \<noteq> 0"
    and "ring_ok (sc_kbd s)" and "0 \<notin> set (ring_items (sc_kbd s))"
  shows "if line_ready (unat (r_edx r)) (ring_items (sc_kbd s))
    then \<exists>k l. l = line_of (unat (r_edx r)) (ring_items (sc_kbd s)) \<and> ring_items (sc_kbd s) = l @ ring_items k \<and> ring_ok k \<and>
      syscall_dispatch now (\<lambda>_. []) pool r s =
        Some (Back (r\<lparr>r_eax := of_nat (length l)\<rparr>), s\<lparr>sc_kbd := k, umem := stored (r_ecx r) 0 l (umem s)\<rparr>)
    else syscall_dispatch now (\<lambda>_. []) pool r s = None"
proof -
  have n: "unat (r_edx r) \<noteq> 0" using assms(4) by (simp add: unat_eq_0)
  have d: "syscall_dispatch now (\<lambda>_. []) pool r s =
      Option.bind (read_chars (\<lambda>_. []) (r_ecx r) 0 (unat (r_edx r)) s) (\<lambda>(ret, s). Some (returned r ret, s))"
    using assms(1-4) by (simp add: syscall_dispatch_def sys_read_def sys_numbers)
  from read_chars_buffered [OF assms(5, 6), of "unat (r_edx r)" "r_ecx r" 0] n show ?thesis
    unfolding d by (auto simp: returned_def split: if_splits)
qed

definition key_ring :: "u8 list \<Rightarrow> kbd" where
  "key_ring cs = \<lparr>trace = [], slog = [], buf = (\<lambda>i. if i < length cs then cs ! i else 0), rp = 0, wp = of_nat (length cs), shift = False, ctrl = False,
     alt = False, caps = False, num = False, scroll = False, extended = False\<rparr>"

definition small_sysc :: "u8 list \<Rightarrow> sysc" where
  "small_sysc cs = \<lparr>sc_procs = demo_procs, sc_kbd = key_ring cs, sc_con = small_console, sbrk_ptr = 524000, umem = (\<lambda>_. 0)\<rparr>"

definition call_regs :: "u32 \<Rightarrow> u32 \<Rightarrow> u32 \<Rightarrow> u32 \<Rightarrow> registers" where
  "call_regs n a b c = \<lparr>r_ds = 0, r_edi = 0, r_esi = 0, r_ebp = 0, r_esp_dummy = 0, r_ebx = a, r_edx = c, r_ecx = b, r_eax = n, int_no = 128,
     err_code = 0, r_eip = 0, r_cs = 8, r_eflags = 0, useresp = 0, r_ss = 0\<rparr>"

lemma read_call_takes_line_witness:
  "\<exists>k. syscall_dispatch 0 (\<lambda>_. []) 0 (call_regs 2 0 0x1000 80) (small_sysc [108, 115, 10, 120]) =
     Some (Back ((call_regs 2 0 0x1000 80)\<lparr>r_eax := 3\<rparr>), (small_sysc [108, 115, 10, 120])\<lparr>sc_kbd := k, umem := stored 0x1000 0 [108, 115, 10] (\<lambda>_. 0)\<rparr>)"
proof -
  let ?s = "small_sysc [108, 115, 10, 120]"
  have i: "ring_items (sc_kbd ?s) = [108, 115, 10, 120]"
  proof -
    have "ring_count (sc_kbd ?s) = 4" by (simp add: small_sysc_def key_ring_def ring_count_def)
    moreover have "[0..<4] = [0, 1, 2, 3 :: nat]" by (simp add: upt_rec)
    ultimately show ?thesis by (simp add: ring_items_def) (simp add: small_sysc_def key_ring_def)
  qed
  have ok: "ring_ok (sc_kbd ?s)" by (simp add: small_sysc_def key_ring_def ring_ok_def KB_BUF_def)
  have n: "(80 :: nat) = Suc (Suc (Suc 77))" by simp
  have "line_of (Suc (Suc (Suc m))) [108, 115, 10, 120] = [108, 115, 10]" for m by simp
  from this [of 77] have l: "line_of 80 [108, 115, 10, 120] = [108, 115, 10]" "line_ready 80 [108, 115, 10, 120]"
    unfolding n [symmetric] by (simp_all add: line_ready_def)
  have r: "r_eax (call_regs 2 0 0x1000 80) = SYS_READ" "r_ebx (call_regs 2 0 0x1000 80) = FD_STDIN"
    "r_ecx (call_regs 2 0 0x1000 80) \<noteq> 0" "r_edx (call_regs 2 0 0x1000 80) \<noteq> 0" "unat (r_edx (call_regs 2 0 0x1000 80)) = 80"
    "r_ecx (call_regs 2 0 0x1000 80) = 0x1000"
    by (simp_all add: call_regs_def sys_numbers FD_STDIN_def)
  have "0 \<notin> set (ring_items (sc_kbd ?s))" unfolding i by simp
  note read = read_call_takes_line [OF r(1-4) ok this, of 0 0, unfolded i r(5, 6) l(1), unfolded if_P [OF l(2)]]
  have "umem ?s = (\<lambda>_. 0)" by (simp add: small_sysc_def)
  moreover have "(of_nat (length [108, 115, 10 :: u8]) :: u32) = 3" by simp
  ultimately show ?thesis using read by metis
qed

lemma sbrk_moves_break_witness:
  "sys_sbrk 0x200000 1000 (small_sysc []) = (- 1, small_sysc []) \<and>
   sys_sbrk 0x200000 (- 4000) (small_sysc []) = (0x27FEE0, (small_sysc [])\<lparr>sbrk_ptr := 520000\<rparr>)"
proof -
  have p: "sbrk_ptr (small_sysc []) \<le> POOL_SIZE" "sbrk_ptr (small_sysc []) = 524000" by (simp_all add: small_sysc_def POOL_SIZE_def)
  have i: "sint (1000 :: u32) = 1000" "sint (- 4000 :: u32) = - 4000" by simp_all
  show ?thesis
    using sbrk_moves_break [OF p(1), of "0x200000" 1000] sbrk_moves_break [OF p(1), of "0x200000" "- 4000"]
    unfolding p(2) i by simp
qed

section \<open>The dispatcher\<close>

text \<open>Writing prints the bytes of the buffer; an unknown call returns \<open>-1\<close>; only \<open>eax\<close> changes.\<close>

lemma write_call_prints:
  assumes "r_eax r = SYS_WRITE" "r_ebx r = FD_STDOUT \<or> r_ebx r = FD_STDERR" "r_ecx r \<noteq> 0"
  shows "syscall_dispatch now irqs pool r s = Some (Back (r\<lparr>r_eax := r_edx r\<rparr>),
    s\<lparr>sc_con := term_chars (map (\<lambda>i. umem s (r_ecx r + of_nat i)) [0..<unat (r_edx r)]) (sc_con s)\<rparr>)"
proof -
  have "fold (\<lambda>i. terminal_putchar (umem s (a + of_nat i))) xs con = fold terminal_putchar (map (\<lambda>i. umem s (a + of_nat i)) xs) con"
    for a xs and con :: console
    by (induction xs arbitrary: con) simp_all
  then show ?thesis using assms by (auto simp: syscall_dispatch_def sys_write_def sys_numbers returned_def term_chars_def for_loop_def)
qed

lemma call_changes_eax_only:
  assumes "syscall_dispatch now irqs pool r s = Some (Back r', s')"
  shows "\<exists>ret. r' = r\<lparr>r_eax := ret\<rparr>"
  using assms
  by (auto simp: syscall_dispatch_def returned_def bind_eq_Some_conv split: if_splits prod.splits)

end
