(* ===== verification/Sh_Base.thy ===== *)
theory Sh_Base
  imports Usr_Accounts Drv_Keyboard Proc_Sched Net_Stack Drv_Ata Mm_Pmm Drv_Vga
begin

text \<open>
  The shell's state and its helpers, \<^verbatim>\<open>kernel/shell.c\<close> up to the prompt. The state holds that of the
  components the shell calls; what it does with the terminal is the list of its calls, which the
  console (\<^verbatim>\<open>Drv_Vga\<close>) runs, and the messages of the file system and the accounts are moved there
  as they appear. A command is a partial function of the state: \<open>None\<close> is one that never ends, or
  one whose behaviour C leaves undefined. The line editor works on the line's contents, which the
  code keeps with a zero byte behind.
\<close>

definition CMD_BUF :: nat where "CMD_BUF = 512"
definition MAX_ARGS :: nat where "MAX_ARGS = 32"
definition HISTORY_MAX :: int where "HISTORY_MAX = 50"
definition VERSION :: "u8 list" where "VERSION = lit ''1.0.0''"
definition OS_NAME :: "u8 list" where "OS_NAME = lit ''StackOS''"

record shell =
  sh_out :: "termop list"
  sh_kbd :: kbd
  sh_waits :: nat
  sh_acc :: accounts
  sh_procs :: procs
  sh_net :: net
  sh_ata :: ata
  sh_pmm :: pmm
  sh_ticks :: u64
  cwd :: "u8 list"
  history :: "u8 list list"
  hist_count :: int
  hist_pos :: int
  quote_at :: u32

text \<open>
  The world around the shell: the interrupts during its \<open>n\<close>th wait and how many ticks pass in it, the
  network card, the timer interrupts when the \<open>n\<close>th wait is a busy one, whether they come at all while
  the DHCP client waits for a tick, what the other processes do
  until the shell runs again, the memory \<^verbatim>\<open>stackfs_mount\<close> reads when a sector fails, and the registers
  the diagnostic commands print. Timer interrupts outside a wait are left out.
\<close>

record world =
  key_irqs :: "nat \<Rightarrow> (kbd \<Rightarrow> kbd) list"
  wait_ticks :: "nat \<Rightarrow> u64"
  net_dev :: device
  net_card :: "net \<Rightarrow> net"
  tick_irqs :: "nat \<Rightarrow> bool list"
  timer_runs :: bool
  other_procs :: "procs \<Rightarrow> procs option"
  stack_junk :: "u8 list"
  cpu_esp :: u32
  cpu_eflags :: u32
  cpu_cr0 :: u32
  cpu_cr3 :: u32

section \<open>The terminal\<close>

definition term1 :: "termop \<Rightarrow> shell \<Rightarrow> shell" where
  "term1 op s = s\<lparr>sh_out := sh_out s @ [op]\<rparr>"

definition putc :: "u8 \<Rightarrow> shell \<Rightarrow> shell" where "putc c s = term1 (Put c) s"

definition puts :: "u8 list \<Rightarrow> shell \<Rightarrow> shell" where
  "puts cs s = s\<lparr>sh_out := sh_out s @ map Put (cstr cs)\<rparr>"

definition line :: "u8 list \<Rightarrow> shell \<Rightarrow> shell" where "line cs s = putc 10 (puts cs s)"

definition color :: "vga_color \<Rightarrow> shell \<Rightarrow> shell" where "color fg s = term1 (Color fg VGA_COLOR_BLACK) s"

definition kp :: "u8 list \<Rightarrow> karg list \<Rightarrow> shell \<Rightarrow> shell option" where
  "kp fmt args s = map_option (\<lambda>out. s\<lparr>sh_out := sh_out s @ map Put out\<rparr>) (kprintf fmt args)"

text \<open>An operation of the accounts or of the file system, and its messages.\<close>

definition drain :: "shell \<Rightarrow> shell" where
  "drain s = (let k = afs (sh_acc s) in s\<lparr>sh_out := sh_out s @ map Put (vout k), sh_acc := (sh_acc s)\<lparr>afs := k\<lparr>vout := []\<rparr>\<rparr>\<rparr>)"

definition on_acc :: "(accounts \<Rightarrow> ('r \<times> accounts) option) \<Rightarrow> shell \<Rightarrow> ('r \<times> shell) option" where
  "on_acc f s = map_option (\<lambda>(r, a). (r, drain (s\<lparr>sh_acc := a\<rparr>))) (f (sh_acc s))"

definition on_vfs :: "(vfs \<Rightarrow> ('r \<times> vfs) option) \<Rightarrow> shell \<Rightarrow> ('r \<times> shell) option" where
  "on_vfs f = on_acc (\<lambda>a. map_option (\<lambda>(r, k). (r, a\<lparr>afs := k\<rparr>)) (f (afs a)))"

section \<open>Strings and paths\<close>

text \<open>\<^verbatim>\<open>katoi\<close>: the leading decimal digits, in 32 bits.\<close>

fun katoi_from :: "u32 \<Rightarrow> u8 list \<Rightarrow> u32" where
  "katoi_from n [] = n"
| "katoi_from n (c # cs) = (if 0x30 \<le> c \<and> c \<le> 0x39 then katoi_from (n * 10 + ucast (c - 0x30)) cs else n)"

definition katoi :: "u8 list \<Rightarrow> u32" where "katoi s = katoi_from 0 s"

text \<open>
  The path \<^verbatim>\<open>dir/path\<close> in a buffer of 512 bytes that holds \<open>dir\<close>; \<open>None\<close> where the code writes behind
  the buffer or before it.
\<close>

definition join_path :: "u8 list \<Rightarrow> u8 list \<Rightarrow> u8 list option" where
  "join_path dir path =
     (let cl = str_len dir
      in if cl = 0 then None
         else if ch dir (cl - 1) \<noteq> 0x2F \<and> VFS_PATH_MAX \<le> cl + 1 then None
         else
           (let (full, cl) = (if ch dir (cl - 1) \<noteq> 0x2F then (dir[cl := 0x2F, cl + 1 := 0], cl + 1) else (dir, cl))
            in Some (take cl full @ str_copy (drop cl full) path (VFS_PATH_MAX - cl))))"

definition resolve :: "u8 list \<Rightarrow> shell \<Rightarrow> (nref option \<times> shell) option" where
  "resolve path s =
     (if ch path 0 = 0 then on_vfs (vfs_open (cwd s)) s
      else if ch path 0 = 0x2F then on_vfs (vfs_open path) s
      else do { full \<leftarrow> join_path (str_copy (replicate VFS_PATH_MAX 0) (cwd s) VFS_PATH_MAX) path;
                on_vfs (vfs_open full) s })"

definition last_slash :: "u8 list \<Rightarrow> nat option" where
  "last_slash p = for_loop 0 (length p) (\<lambda>i r. if p ! i = 0x2F then Some i else r) None"

text \<open>The directory of the result and the name in it.\<close>

definition resolve_dir_and_name :: "u8 list \<Rightarrow> shell \<Rightarrow> (nref option \<times> u8 list \<times> shell) option" where
  "resolve_dir_and_name path s =
     (let path = cstr path
      in if path = [] then Some (None, [], s)
         else case last_slash path of
           None \<Rightarrow> map_option (\<lambda>(d, s). (d, path, s)) (on_vfs (vfs_open (cwd s)) s)
         | Some i \<Rightarrow>
             (if i = 0 then map_option (\<lambda>(d, s). (d, drop 1 path, s)) (on_vfs (vfs_open (lit ''/'')) s)
              else (let dl = (if VFS_PATH_MAX \<le> i then VFS_PATH_MAX - 1 else i)
                    in map_option (\<lambda>(d, s). (d, drop (i + 1) path, s)) (on_vfs (vfs_open (take dl path)) s))))"

definition vnode_free :: "nref option \<Rightarrow> shell \<Rightarrow> shell" where
  "vnode_free n s =
     (case n of
        None \<Rightarrow> s
      | Some r \<Rightarrow>
          if vfs_node_is_mount_root n (afs (sh_acc s)) then s
          else s\<lparr>sh_acc := (sh_acc s)\<lparr>afs := kfree_node r (afs (sh_acc s))\<rparr>\<rparr>)"

text \<open>The node behind a pointer; \<open>None\<close> for one that was freed.\<close>

definition vnode_at :: "nref \<Rightarrow> shell \<Rightarrow> vnode option" where
  "vnode_at r s = node_at (afs (sh_acc s)) r"

definition is_root :: "shell \<Rightarrow> bool" where "is_root s = user_is_root (sh_acc s)"

text \<open>\<^verbatim>\<open>NEED_ROOT\<close>: the message, or the rest of the command.\<close>

definition need_root :: "(shell \<Rightarrow> shell option) \<Rightarrow> shell \<Rightarrow> shell option" where
  "need_root cmd s =
     (if \<not> is_root s
      then Some (color VGA_COLOR_WHITE (line (lit ''Permission denied. Run '' @ [39] @ lit ''elevate'' @ [39] @ lit '' first.'') (color VGA_COLOR_LIGHT_RED s)))
      else cmd s)"

section \<open>History\<close>

definition hist_at :: "int \<Rightarrow> shell \<Rightarrow> u8 list" where
  "hist_at i s = history s ! nat (i mod HISTORY_MAX)"

definition hist_push :: "u8 list \<Rightarrow> shell \<Rightarrow> shell" where
  "hist_push ln s =
     (if ch ln 0 = 0 then s
      else if 0 < hist_count s \<and> str_cmp (hist_at (hist_count s - 1) s) ln = 0 then s
      else
        (let i = nat (hist_count s mod HISTORY_MAX);
             s = s\<lparr>history := (history s)[i := str_copy (history s ! i) ln CMD_BUF]\<rparr>
         in s\<lparr>hist_count := hist_count s + 1, hist_pos := hist_count s + 1\<rparr>))"

section \<open>Keys and lines\<close>

definition KEY_UP :: int where "KEY_UP = 0x100"
definition KEY_DOWN :: int where "KEY_DOWN = 0x101"

definition getchar :: "world \<Rightarrow> shell \<Rightarrow> (u8 \<times> shell) option" where
  "getchar w s =
     map_option (\<lambda>(c, k). (c, s\<lparr>sh_kbd := k, sh_waits := sh_waits s + 1, sh_ticks := sh_ticks s + wait_ticks w (sh_waits s)\<rparr>))
       (keyboard_getchar (key_irqs w (sh_waits s)) (sh_kbd s))"

definition extended_key :: "u8 \<Rightarrow> int" where
  "extended_key c =
     (if c = 0x48 then KEY_UP else if c = 0x50 then KEY_DOWN
      else if c = 0x4B then 0x102 else if c = 0x4D then 0x103
      else if c = 0x49 then 0x104 else if c = 0x51 then 0x105
      else if c = 0x47 then 0x106 else if c = 0x4F then 0x107
      else if c = 0x53 then 0x108
      else 0)"

definition read_key :: "world \<Rightarrow> shell \<Rightarrow> (int \<times> shell) option" where
  "read_key w s =
     do { (c, s) \<leftarrow> getchar w s;
          if c = 0xE0 then do { (c2, s) \<leftarrow> getchar w s; Some (extended_key c2, s) }
          else Some (uint c, s) }"

definition clear_input_line :: "nat \<Rightarrow> shell \<Rightarrow> shell" where
  "clear_input_line pos s =
     for_loop 0 pos (\<lambda>_. putc 8) (for_loop 0 pos (\<lambda>_. putc 32) (for_loop 0 pos (\<lambda>_. putc 8) s))"

text \<open>
  What a key does to the line \<open>ln\<close>: it is returned, or edited further.
\<close>

datatype edit = Line "u8 list" | More "u8 list"

definition edit_line :: "nat \<Rightarrow> int \<Rightarrow> u8 list \<Rightarrow> shell \<Rightarrow> edit \<times> shell" where
  "edit_line lim k ln s =
     (let pos = length ln
      in if k = 10 \<or> k = 13 then (Line ln, putc 10 s)
         else if k = 0x0C then (Line [], term1 Cls s)
         else if k = 0x03 then (Line [], putc 10 (putc 0x43 (putc 0x5E s)))
         else if k = 8 then (if 0 < pos then (More (butlast ln), putc 8 s) else (More ln, s))
         else if k = KEY_UP then
           (if 0 < hist_pos s \<and> 0 < hist_count s then
              (let s = clear_input_line pos (s\<lparr>hist_pos := hist_pos s - 1\<rparr>);
                   ln = take (lim - 1) (cstr (hist_at (hist_pos s) s))
               in (More ln, puts ln s))
            else (More ln, s))
         else if k = KEY_DOWN then
           (if hist_pos s < hist_count s then
              (let s = clear_input_line pos (s\<lparr>hist_pos := hist_pos s + 1\<rparr>)
               in if hist_pos s = hist_count s then (More [], s)
                  else (let ln = take (lim - 1) (cstr (hist_at (hist_pos s) s)) in (More ln, puts ln s)))
            else (More ln, s))
         else if 0 < k \<and> k < 256 \<and> pos < lim - 1 then (More (ln @ [word_of_int k]), putc (word_of_int k) s)
         else (More ln, s))"

partial_function (option) read_line_loop :: "world \<Rightarrow> nat \<Rightarrow> u8 list \<Rightarrow> shell \<Rightarrow> (u8 list \<times> shell) option" where
  "read_line_loop w lim ln s =
     do { (k, s) \<leftarrow> read_key w s;
          case edit_line lim k ln s of
            (Line r, s) \<Rightarrow> Some (r, s)
          | (More ln, s) \<Rightarrow> read_line_loop w lim ln s }"

definition read_line :: "world \<Rightarrow> nat \<Rightarrow> shell \<Rightarrow> (u8 list \<times> shell) option" where
  "read_line w lim s = read_line_loop w lim [] (s\<lparr>hist_pos := hist_count s\<rparr>)"

partial_function (option) read_pass_loop :: "world \<Rightarrow> nat \<Rightarrow> u8 list \<Rightarrow> shell \<Rightarrow> (u8 list \<times> shell) option" where
  "read_pass_loop w lim ln s =
     do { (c, s) \<leftarrow> getchar w s;
          if c = 10 \<or> c = 13 then Some (ln, putc 10 s)
          else if c = 8 then read_pass_loop w lim (if 0 < length ln then butlast ln else ln) s
          else if length ln < lim - 1 then read_pass_loop w lim (ln @ [c]) s
          else read_pass_loop w lim ln s }"

definition read_pass :: "world \<Rightarrow> nat \<Rightarrow> shell \<Rightarrow> (u8 list \<times> shell) option" where
  "read_pass w lim s = read_pass_loop w lim [] s"

definition is_blank :: "u8 \<Rightarrow> bool" where "is_blank c \<longleftrightarrow> c = 32 \<or> c = 9"

text \<open>The arguments the code's pointers show after it has put zero bytes behind them.\<close>

function tokenise :: "nat \<Rightarrow> u8 list \<Rightarrow> u8 list list" where
  "tokenise n p =
     (let p = dropWhile is_blank p
      in if p = [] \<or> n = 0 then []
         else takeWhile (\<lambda>c. \<not> is_blank c) p # tokenise (n - 1) (drop 1 (dropWhile (\<lambda>c. \<not> is_blank c) p)))"
  by pat_completeness auto
termination
  by (relation "measure (\<lambda>(n, p). n)") auto

declare tokenise.simps [simp del]

definition print_prompt :: "shell \<Rightarrow> shell" where
  "print_prompt s =
     (let u = user_current (sh_acc s);
          s = (if is_root s then color VGA_COLOR_LIGHT_RED s else color VGA_COLOR_LIGHT_CYAN s);
          s = puts (case u of Some u \<Rightarrow> u_name u | None \<Rightarrow> lit ''guest'') s;
          s = puts (lit ''@stackos:'') (color VGA_COLOR_LIGHT_GREY s);
          s = puts (cwd s) (color VGA_COLOR_LIGHT_BLUE s);
          s = color (if is_root s then VGA_COLOR_LIGHT_RED else VGA_COLOR_WHITE) s
      in puts (if is_root s then lit ''# '' else lit ''$ '') s)"

end
