(* ===== verification/Sh_Text.thy ===== *)
theory Sh_Text
  imports Sh_Base "HOL-Library.Signed_Division"
begin

text \<open>
  The commands of \<^verbatim>\<open>kernel/shell.c\<close> that only print: information about the system, and the words
  and numbers of the command line. \<open>argv\<close> is the list of its words, the command's name first.
\<close>

text \<open>Printing in a colour, and white again after it.\<close>

definition white :: "shell \<Rightarrow> shell" where "white s = color VGA_COLOR_WHITE s"

definition cmd_sysinfo :: "shell \<Rightarrow> shell option" where
  "cmd_sysinfo s =
     do { s \<leftarrow> kp (lit ''%s %s  arch=x86-32  kernel=monolithic'' @ [10]) [KStr (Some OS_NAME), KStr (Some VERSION)]
                 (color VGA_COLOR_LIGHT_CYAN s);
          Some (white s) }"

definition cmd_ver :: "shell \<Rightarrow> shell option" where
  "cmd_ver s = kp (lit ''StackOS %s'' @ [10]) [KStr (Some VERSION)] s"

definition cmd_runtime :: "shell \<Rightarrow> shell option" where
  "cmd_runtime s =
     (let t = sh_ticks s; sec = ucast (t div 100) :: u32; m = sec div 60; sec = sec mod 60; h = m div 60; m = m mod 60
      in kp (lit ''Runtime: %02u:%02u:%02u'' @ [10]) [KInt h, KInt m, KInt sec] s)"

definition cmd_ram :: "shell \<Rightarrow> shell option" where
  "cmd_ram s =
     (let fk = pmm_free_frames (sh_pmm s) * 4
      in do { s \<leftarrow> kp (lit ''Free: %u KiB  %u MiB'' @ [10]) [KInt fk, KInt (fk div 1024)] (color VGA_COLOR_LIGHT_GREEN s);
              Some (white s) })"

definition cmd_cpu :: "shell \<Rightarrow> shell" where
  "cmd_cpu s = line (lit ''CPU: x86 32-bit protected mode  Timer: PIT @ 100Hz'') s"

definition cmd_arch :: "shell \<Rightarrow> shell" where "cmd_arch s = line (lit ''x86  32-bit  little-endian'') s"

definition cmd_ticks :: "shell \<Rightarrow> shell option" where
  "cmd_ticks s = kp (lit ''%u ticks'' @ [10]) [KInt (ucast (sh_ticks s))] s"

definition cmd_cls :: "shell \<Rightarrow> shell" where "cmd_cls s = term1 Cls s"

text \<open>The letters of the banner, with \<^verbatim>\<open>#\<close> for a backslash.\<close>

definition art :: "string \<Rightarrow> u8 list" where
  "art str = map (\<lambda>c. if c = 0x23 then 0x5C else c) (lit str)"

definition banner :: "shell \<Rightarrow> shell" where
  "banner s =
     (let s = color VGA_COLOR_LIGHT_CYAN s;
          s = line (art ''  _____ _             _     ___  ____'') s;
          s = line (art '' / ____| |           | |   / _ #/ ___|'') s;
          s = line (art ''| (___ | |_ __ _  ___| | _| | | #___ #'') s;
          s = line (art '' #___ #| __/ _` |/ __| |/ / | | |___) |'') s;
          s = line (art '' ____) | || (_| | (__|   <| |_| |___/ /'') s
      in line (art ''|_____/ #__#__,_|#___|_|#_##___/|____/'') s)"

definition cmd_banner :: "shell \<Rightarrow> shell" where "cmd_banner s = white (banner s)"

definition cmd_color :: "u8 list list \<Rightarrow> shell \<Rightarrow> shell" where
  "cmd_color argv s = (if length argv < 3 then s else term1 (Color (katoi (argv ! 1)) (katoi (argv ! 2))) s)"

definition rainbow_colors :: "vga_color list" where
  "rainbow_colors =
     [VGA_COLOR_LIGHT_RED, VGA_COLOR_LIGHT_BROWN, VGA_COLOR_LIGHT_GREEN,
      VGA_COLOR_LIGHT_CYAN, VGA_COLOR_LIGHT_BLUE, VGA_COLOR_LIGHT_MAGENTA]"

definition cmd_rainbow :: "shell \<Rightarrow> shell" where
  "cmd_rainbow s =
     (let msg = lit ''  S T A C K O S  '';
          s = for_loop 0 (length msg) (\<lambda>i s. putc (msg ! i) (color (rainbow_colors ! (i mod 6)) s)) s
      in white (putc 10 s))"

text \<open>The words from the \<open>n\<close>th on, each through \<open>f\<close>, with blanks between them and a newline.\<close>

definition print_words :: "nat \<Rightarrow> (u8 \<Rightarrow> u8) \<Rightarrow> u8 list list \<Rightarrow> shell \<Rightarrow> shell" where
  "print_words n f argv s =
     putc 10 (for_loop n (length argv)
       (\<lambda>i s. let s = puts (map f (argv ! i)) s in if i < length argv - 1 then putc 32 s else s) s)"

definition cmd_print :: "u8 list list \<Rightarrow> shell \<Rightarrow> shell" where "cmd_print argv s = print_words 1 id argv s"

definition cmd_say :: "u8 list list \<Rightarrow> shell \<Rightarrow> shell" where
  "cmd_say argv s = white (cmd_print argv (color VGA_COLOR_LIGHT_CYAN s))"

definition to_upper :: "u8 \<Rightarrow> u8" where "to_upper c = (if 0x61 \<le> c \<and> c \<le> 0x7A then c - 32 else c)"
definition to_lower :: "u8 \<Rightarrow> u8" where "to_lower c = (if 0x41 \<le> c \<and> c \<le> 0x5A then c + 32 else c)"

definition cmd_shout :: "u8 list list \<Rightarrow> shell \<Rightarrow> shell" where
  "cmd_shout argv s = white (print_words 1 to_upper argv (color VGA_COLOR_LIGHT_RED s))"

definition cmd_repeat :: "u8 list list \<Rightarrow> shell \<Rightarrow> shell" where
  "cmd_repeat argv s =
     (if length argv < 3 then s
      else (let n = katoi (argv ! 1); n = (if 100 < n then 100 else n)
            in for_loop 0 (unat n) (\<lambda>_. print_words 2 id argv) s))"

text \<open>\<^verbatim>\<open>for(int32_t i=a;i<=b;i++)\<close>; the counter wraps, so that with the greatest \<open>b\<close> it does not end.\<close>

partial_function (option) count_loop :: "u32 \<Rightarrow> u32 \<Rightarrow> shell \<Rightarrow> shell option" where
  "count_loop i b s =
     (if sint i \<le> sint b then do { s \<leftarrow> kp (lit ''%d '') [KInt i] s; count_loop (i + 1) b s } else Some s)"

definition cmd_count :: "u8 list list \<Rightarrow> shell \<Rightarrow> shell option" where
  "cmd_count argv s =
     (if length argv < 3 then Some s
      else do { s \<leftarrow> count_loop (katoi (argv ! 1)) (katoi (argv ! 2)) s; Some (putc 10 s) })"

text \<open>The quotient truncates; the one that does not fit stops the processor. Sums and products wrap.\<close>

definition calc_div :: "u32 \<Rightarrow> u32 \<Rightarrow> u32 option" where
  "calc_div a b = (if a = 0x80000000 \<and> b = - 1 then None else Some (word_of_int (sint a sdiv sint b)))"

definition cmd_calc :: "u8 list list \<Rightarrow> shell \<Rightarrow> shell option" where
  "cmd_calc argv s =
     (if length argv < 4 then Some s
      else
        (let a = katoi (argv ! 1); b = katoi (argv ! 3); op = ch (argv ! 2) 0;
             answer = (\<lambda>r. kp (lit ''%d %c %d = %d'' @ [10]) [KInt a, KInt (ucast op), KInt b, KInt r] s)
         in if op = 0x2B then answer (a + b)
            else if op = 0x2D then answer (a - b)
            else if op = 0x2A then answer (a * b)
            else if op = 0x2F then
              (if b = 0 then Some (line (lit ''div by zero'') s) else do { r \<leftarrow> calc_div a b; answer r })
            else Some (line (lit ''ops: + - * /'') s)))"

definition cmd_hex :: "u8 list list \<Rightarrow> shell \<Rightarrow> shell option" where
  "cmd_hex argv s = (if length argv < 2 then Some s else kp (lit ''0x%x'' @ [10]) [KInt (katoi (argv ! 1))] s)"

fun hex_value :: "u32 \<Rightarrow> u8 list \<Rightarrow> u32" where
  "hex_value v [] = v"
| "hex_value v (c # cs) =
     (let v = push_bit 4 v;
          v = (if 0x30 \<le> c \<and> c \<le> 0x39 then v OR ucast (c - 0x30)
               else if 0x61 \<le> c \<and> c \<le> 0x66 then v OR ucast (c - 0x61 + 10)
               else if 0x41 \<le> c \<and> c \<le> 0x46 then v OR ucast (c - 0x41 + 10)
               else v)
      in hex_value v cs)"

definition cmd_dec :: "u8 list list \<Rightarrow> shell \<Rightarrow> shell option" where
  "cmd_dec argv s =
     (if length argv < 2 then Some s
      else
        (let str = argv ! 1;
             str = (if ch str 0 = 0x30 \<and> (ch str 1 = 0x78 \<or> ch str 1 = 0x58) then drop 2 str else str)
         in kp (lit ''%u'' @ [10]) [KInt (hex_value 0 str)] s))"

definition cmd_flip :: "u8 list list \<Rightarrow> shell \<Rightarrow> shell" where
  "cmd_flip argv s = putc 10 (for_loop 1 (length argv) (\<lambda>i s. putc 32 (puts (rev (argv ! i)) s)) s)"

definition cmd_upper :: "u8 list list \<Rightarrow> shell \<Rightarrow> shell" where "cmd_upper argv s = print_words 1 to_upper argv s"
definition cmd_lower :: "u8 list list \<Rightarrow> shell \<Rightarrow> shell" where "cmd_lower argv s = print_words 1 to_lower argv s"

end
