(* ===== verification/Sh_Files.thy ===== *)
theory Sh_Files
  imports Sh_Base
begin

text \<open>
  The file commands of \<^verbatim>\<open>kernel/shell.c\<close>. A pointer to a node is an \<open>nref\<close>; following one to a released
  node is undefined (\<open>None\<close>), and so is a loop over a file or directory that does not end. The local
  buffers are only read as far as the call before has filled them.
\<close>

text \<open>\<^verbatim>\<open>d&&(d->flags&VFS_DIR)\<close> and \<^verbatim>\<open>f&&!(f->flags&VFS_DIR)\<close>\<close>

definition dir_at :: "nref option \<Rightarrow> shell \<Rightarrow> bool option" where
  "dir_at n s = (case n of None \<Rightarrow> Some False | Some r \<Rightarrow> map_option (\<lambda>v. v_flags v AND VFS_DIR \<noteq> 0) (vnode_at r s))"

definition file_at :: "nref option \<Rightarrow> shell \<Rightarrow> bool option" where
  "file_at n s = (case n of None \<Rightarrow> Some False | Some r \<Rightarrow> map_option (\<lambda>v. v_flags v AND VFS_DIR = 0) (vnode_at r s))"

text \<open>\<^verbatim>\<open>d&&d->ops&&d->ops->create\<close>; the file system that has one of \<^verbatim>\<open>create\<close>, \<^verbatim>\<open>mkdir\<close> and \<^verbatim>\<open>unlink\<close> has all.\<close>

definition can_make :: "nref option \<Rightarrow> shell \<Rightarrow> bool option" where
  "can_make n s = has_make n (afs (sh_acc s))"

text \<open>A call through the operations of a node.\<close>

definition dir_op :: "(vnode \<Rightarrow> sfs \<Rightarrow> bool \<times> sfs) \<Rightarrow> nref option \<Rightarrow> shell \<Rightarrow> (bool \<times> shell) option" where
  "dir_op f n s =
     do { r \<leftarrow> n;
          v \<leftarrow> vnode_at r s;
          on_vfs (\<lambda>k. case f v (sfs_st k) of (ok, st) \<Rightarrow> Some (ok, k\<lparr>sfs_st := st\<rparr>)) s }"

text \<open>The name of an entry, copied to a buffer of its own.\<close>

definition entry_name :: "dirent \<Rightarrow> u8 list" where
  "entry_name de = str_copy (replicate VFS_NAME_MAX 0) (de_name de) VFS_NAME_MAX"

definition path_arg :: "u8 list list \<Rightarrow> u8 list \<Rightarrow> u8 list" where
  "path_arg argv dflt = (if 2 \<le> length argv then argv ! 1 else dflt)"

section \<open>Directories\<close>

definition ls_entry :: "u8 list \<Rightarrow> nref option \<Rightarrow> u32 \<Rightarrow> u32 \<Rightarrow> shell \<Rightarrow> (u32 \<times> u32 \<times> shell) option" where
  "ls_entry nc child files dirs s =
     do { isdir \<leftarrow> dir_at child s;
          if isdir then do { s \<leftarrow> kp (lit ''  [DIR]  %s/'' @ [10]) [KStr (Some nc)] (color VGA_COLOR_LIGHT_BLUE s);
                             Some (files, dirs + 1, s) }
          else do { s \<leftarrow> kp (lit ''  [FILE] %s'') [KStr (Some nc)] (color VGA_COLOR_WHITE s);
                    s \<leftarrow> (case child of None \<Rightarrow> Some s
                            | Some r \<Rightarrow> do { v \<leftarrow> vnode_at r s; kp (lit ''  (%u B)'') [KInt (v_size v)] s });
                    Some (files + 1, dirs, putc 10 s) } }"

partial_function (option) ls_loop :: "nref option \<Rightarrow> u32 \<Rightarrow> u32 \<Rightarrow> u32 \<Rightarrow> shell \<Rightarrow> (u32 \<times> u32 \<times> shell) option" where
  "ls_loop d idx files dirs s =
     do { (de, s) \<leftarrow> on_vfs (vfs_readdir d idx) s;
          case de of
            None \<Rightarrow> Some (files, dirs, s)
          | Some de \<Rightarrow>
              do { (child, s) \<leftarrow> on_vfs (vfs_finddir d (entry_name de)) s;
                   (files, dirs, s) \<leftarrow> ls_entry (entry_name de) child files dirs s;
                   ls_loop d (idx + 1) files dirs (vnode_free child s) } }"

definition cmd_ls :: "u8 list list \<Rightarrow> shell \<Rightarrow> shell option" where
  "cmd_ls argv s =
     (let path = path_arg argv (cwd s)
      in do { (d, s) \<leftarrow> resolve path s;
              isdir \<leftarrow> dir_at d s;
              if \<not> isdir then do { s \<leftarrow> kp (lit ''ls: '' @ [39] @ lit ''%s'' @ [39] @ lit '': not a directory'' @ [10]) [KStr (Some path)] s;
                                   Some (vnode_free d s) }
              else do { (files, dirs, s) \<leftarrow> ls_loop d 0 0 0 s;
                        s \<leftarrow> kp (lit ''  %u file(s)  %u dir(s)'' @ [10]) [KInt files, KInt dirs] (color VGA_COLOR_LIGHT_GREY s);
                        Some (vnode_free d (color VGA_COLOR_WHITE s)) } })"

partial_function (option) tree_loop :: "nref option \<Rightarrow> u32 \<Rightarrow> shell \<Rightarrow> shell option" where
  "tree_loop d idx s =
     do { (de, s) \<leftarrow> on_vfs (vfs_readdir d idx) s;
          case de of
            None \<Rightarrow> Some s
          | Some de \<Rightarrow>
              do { (child, s) \<leftarrow> on_vfs (vfs_finddir d (entry_name de)) s;
                   isdir \<leftarrow> dir_at child s;
                   s \<leftarrow> (if isdir then kp (lit ''  +-- %s/'' @ [10]) [KStr (Some (entry_name de))] (color VGA_COLOR_LIGHT_BLUE s)
                         else kp (lit ''  |-- %s'' @ [10]) [KStr (Some (entry_name de))] (color VGA_COLOR_WHITE s));
                   tree_loop d (idx + 1) (vnode_free child s) } }"

definition cmd_tree :: "u8 list list \<Rightarrow> shell \<Rightarrow> shell option" where
  "cmd_tree argv s =
     (let path = path_arg argv (cwd s)
      in do { (d, s) \<leftarrow> resolve path s;
              isdir \<leftarrow> dir_at d s;
              if \<not> isdir then do { s \<leftarrow> kp (lit ''tree: not a dir'' @ [10]) [] s; Some (vnode_free d s) }
              else do { s \<leftarrow> kp (lit ''%s'' @ [10]) [KStr (Some path)] s;
                        s \<leftarrow> tree_loop d 0 s;
                        Some (vnode_free d (color VGA_COLOR_WHITE s)) } })"

definition strip_end_slash :: "u8 list \<Rightarrow> u8 list" where
  "strip_end_slash p = (let len = str_len p in if 1 < len \<and> ch p (len - 1) = 0x2F then p[len - 1 := 0] else p)"

definition cmd_cd :: "u8 list list \<Rightarrow> shell \<Rightarrow> shell option" where
  "cmd_cd argv s =
     (let path = path_arg argv (lit ''/'')
      in do { (d, s) \<leftarrow> resolve path s;
              isdir \<leftarrow> dir_at d s;
              if \<not> isdir then do { s \<leftarrow> kp (lit ''cd: '' @ [39] @ lit ''%s'' @ [39] @ lit '': not found'' @ [10]) [KStr (Some path)] s;
                                   Some (vnode_free d s) }
              else do { let s = vnode_free d s;
                        p \<leftarrow> (if ch path 0 = 0x2F then Some (str_copy (cwd s) path VFS_PATH_MAX) else join_path (cwd s) path);
                        Some (s\<lparr>cwd := strip_end_slash p\<rparr>) } })"

definition cmd_pwd :: "shell \<Rightarrow> shell option" where "cmd_pwd s = kp (lit ''%s'' @ [10]) [KStr (Some (cwd s))] s"

text \<open>\<^verbatim>\<open>for(size_t i=l-1;i>0;i--)if(cwd[i]=='/')...break\<close>\<close>

fun slash_down :: "u8 list \<Rightarrow> nat \<Rightarrow> nat option" where
  "slash_down p 0 = None"
| "slash_down p (Suc i) = (if p ! Suc i = 0x2F then Some (Suc i) else slash_down p i)"

definition cmd_back :: "shell \<Rightarrow> shell" where
  "cmd_back s =
     (let l = str_len (cwd s)
      in if l \<le> 1 then s
         else
           (let p = (case slash_down (cwd s) (l - 1) of Some i \<Rightarrow> (cwd s)[i := 0] | None \<Rightarrow> cwd s);
                p = (if str_len p = 0 then p[0 := 0x2F, 1 := 0] else p)
            in s\<lparr>cwd := p\<rparr>))"

definition cmd_stat :: "u8 list list \<Rightarrow> shell \<Rightarrow> shell option" where
  "cmd_stat argv s =
     (if length argv < 2 then Some s
      else do { (n, s) \<leftarrow> resolve (argv ! 1) s;
                case n of
                  None \<Rightarrow> kp (lit ''stat: '' @ [39] @ lit ''%s'' @ [39] @ lit '': not found'' @ [10]) [KStr (Some (argv ! 1))] s
                | Some r \<Rightarrow>
                    do { v \<leftarrow> vnode_at r s;
                         s \<leftarrow> kp (lit ''Name: %s'' @ [10] @ lit ''Type: %s'' @ [10] @ lit ''Size: %u bytes'' @ [10] @ lit ''Inode: %u'' @ [10])
                               [KStr (Some (v_name v)), KStr (Some (if v_flags v AND VFS_DIR \<noteq> 0 then lit ''directory'' else lit ''file'')),
                                KInt (v_size v), KInt (v_inode v)] s;
                         Some (vnode_free n s) } })"

section \<open>Making and removing\<close>

definition cmd_touch :: "u8 list list \<Rightarrow> shell \<Rightarrow> shell option" where
  "cmd_touch argv s =
     (if length argv < 2 then Some s
      else do { (d, name, s) \<leftarrow> resolve_dir_and_name (argv ! 1) s;
                isdir \<leftarrow> dir_at d s;
                able \<leftarrow> can_make d s;
                if \<not> isdir then do { s \<leftarrow> kp (lit ''touch: dir not found'' @ [10]) [] s; Some (vnode_free d s) }
                else if \<not> able then Some (vnode_free d (line (lit ''read-only'') s))
                else do { (ok, s) \<leftarrow> dir_op (\<lambda>v. bfs_create v name 0) d s;
                          s \<leftarrow> (if ok then kp (lit ''created: %s'' @ [10]) [KStr (Some (argv ! 1))] s else Some s);
                          Some (vnode_free d s) } })"

definition cmd_mkdir :: "u8 list list \<Rightarrow> shell \<Rightarrow> shell option" where
  "cmd_mkdir argv s =
     (if length argv < 2 then Some s
      else do { (d, name, s) \<leftarrow> resolve_dir_and_name (argv ! 1) s;
                isdir \<leftarrow> dir_at d s;
                able \<leftarrow> can_make d s;
                if \<not> isdir then do { s \<leftarrow> kp (lit ''mkdir: dir not found'' @ [10]) [] s; Some (vnode_free d s) }
                else if \<not> able then Some (vnode_free d (line (lit ''read-only'') s))
                else do { (ok, s) \<leftarrow> dir_op (\<lambda>v. bfs_mkdir v name) d s;
                          s \<leftarrow> (if ok then kp (lit ''created: %s/'' @ [10]) [KStr (Some (argv ! 1))] s else Some s);
                          Some (vnode_free d s) } })"

definition cmd_rm :: "u8 list list \<Rightarrow> shell \<Rightarrow> shell option" where
  "cmd_rm argv s =
     (if length argv < 2 then Some s
      else do { (d, name, s) \<leftarrow> resolve_dir_and_name (argv ! 1) s;
                able \<leftarrow> can_make d s;
                if \<not> able then Some (vnode_free d (line (lit ''rm: not found'') s))
                else do { (ok, s) \<leftarrow> dir_op (\<lambda>v. bfs_unlink v name) d s;
                          s \<leftarrow> (if ok then kp (lit ''deleted: %s'' @ [10]) [KStr (Some (argv ! 1))] s
                                else kp (lit ''rm: '' @ [39] @ lit ''%s'' @ [39] @ lit '' not found'' @ [10]) [KStr (Some (argv ! 1))] s);
                          Some (vnode_free d s) } })"

section \<open>Reading\<close>

text \<open>\<^verbatim>\<open>vfs_read(f,off,n,buf)\<close> with a local buffer: the count, the bytes it has put there, and the state.\<close>

definition read_local :: "nref option \<Rightarrow> u32 \<Rightarrow> nat \<Rightarrow> shell \<Rightarrow> (u32 \<times> u8 list \<times> shell) option" where
  "read_local f off n s =
     map_option (\<lambda>((nr, b), s). (nr, take (unat nr) b, s))
       (on_vfs (\<lambda>k. map_option (\<lambda>(nr, b, k). ((nr, b), k)) (vfs_read f off (of_nat n) (replicate n 0) k)) s)"

partial_function (option) cat_loop :: "nref option \<Rightarrow> u32 \<Rightarrow> shell \<Rightarrow> shell option" where
  "cat_loop f off s =
     do { (nr, b, s) \<leftarrow> read_local f off 128 s;
          if 0 < sint nr then cat_loop f (off + nr) (fold putc b s) else Some s }"

definition cmd_cat :: "u8 list list \<Rightarrow> shell \<Rightarrow> shell option" where
  "cmd_cat argv s =
     (if length argv < 2 then Some s
      else do { (f, s) \<leftarrow> resolve (argv ! 1) s;
                isfile \<leftarrow> file_at f s;
                if \<not> isfile then do { s \<leftarrow> kp (lit ''cat: '' @ [39] @ lit ''%s'' @ [39] @ lit '': not a file'' @ [10]) [KStr (Some (argv ! 1))] s;
                                      Some (vnode_free f s) }
                else do { s \<leftarrow> cat_loop f 0 s; Some (vnode_free f (putc 10 s)) } })"

record counts =
  c_ch :: u32
  c_words :: u32
  c_lines :: u32
  c_in :: bool

definition wc_step :: "u8 \<Rightarrow> counts \<Rightarrow> counts" where
  "wc_step c n =
     (let n = n\<lparr>c_ch := c_ch n + 1\<rparr>;
          n = (if c = 10 then n\<lparr>c_lines := c_lines n + 1\<rparr> else n)
      in if c = 32 \<or> c = 10 \<or> c = 9 then n\<lparr>c_in := False\<rparr>
         else if \<not> c_in n then n\<lparr>c_words := c_words n + 1, c_in := True\<rparr>
         else n)"

partial_function (option) wc_loop :: "nref option \<Rightarrow> u32 \<Rightarrow> counts \<Rightarrow> shell \<Rightarrow> (counts \<times> shell) option" where
  "wc_loop f off n s =
     do { (nr, b, s) \<leftarrow> read_local f off 128 s;
          if 0 < sint nr then wc_loop f (off + nr) (fold wc_step b n) s else Some (n, s) }"

definition cmd_wc :: "u8 list list \<Rightarrow> shell \<Rightarrow> shell option" where
  "cmd_wc argv s =
     (if length argv < 2 then Some s
      else do { (f, s) \<leftarrow> resolve (argv ! 1) s;
                isfile \<leftarrow> file_at f s;
                if \<not> isfile then Some (vnode_free f s)
                else do { (n, s) \<leftarrow> wc_loop f 0 \<lparr>c_ch = 0, c_words = 0, c_lines = 0, c_in = False\<rparr> s;
                          s \<leftarrow> kp (lit ''lines=%u words=%u chars=%u'' @ [10]) [KInt (c_lines n), KInt (c_words n), KInt (c_ch n)] s;
                          Some (vnode_free f s) } })"

text \<open>The bytes up to the end of line number \<open>lim\<close>.\<close>

definition head_step :: "u32 \<Rightarrow> u8 \<Rightarrow> u32 \<times> shell \<Rightarrow> u32 \<times> shell" where
  "head_step lim c = (\<lambda>(ln, s). if ln < lim then (if c = 10 then ln + 1 else ln, putc c s) else (ln, s))"

partial_function (option) head_loop :: "nref option \<Rightarrow> u32 \<Rightarrow> u32 \<Rightarrow> u32 \<Rightarrow> shell \<Rightarrow> shell option" where
  "head_loop f lim off ln s =
     do { (nr, b, s) \<leftarrow> read_local f off 128 s;
          if 0 < sint nr \<and> ln < lim
          then (case fold (head_step lim) b (ln, s) of (ln, s) \<Rightarrow> head_loop f lim (off + nr) ln s)
          else Some s }"

definition cmd_head :: "u8 list list \<Rightarrow> shell \<Rightarrow> shell option" where
  "cmd_head argv s =
     (if length argv < 2 then Some s
      else do { (f, s) \<leftarrow> resolve (argv ! 1) s;
                isfile \<leftarrow> file_at f s;
                if \<not> isfile then Some (vnode_free f s)
                else do { s \<leftarrow> head_loop f (if 3 \<le> length argv then katoi (argv ! 2) else 5) 0 0 s;
                          Some (vnode_free f s) } })"

section \<open>Writing\<close>

text \<open>The words from the third on, with blanks between them, as far as 510 bytes hold them, and a newline.\<close>

definition words_text :: "u8 list list \<Rightarrow> u8 list" where
  "words_text argv =
     for_loop 2 (length argv)
       (\<lambda>i b. if length b < 510
              then (let b = b @ take (510 - length b) (argv ! i) in if i < length argv - 1 \<and> length b < 510 then b @ [32] else b)
              else b) [] @ [10]"

text \<open>
  The first block of \<^verbatim>\<open>cmd_write\<close> and \<^verbatim>\<open>cmd_append\<close>: the file is made if it is not there. \<open>False\<close> is the
  early return; \<open>no_dir\<close> and \<open>no_create\<close> are the messages of the two commands.
\<close>

definition ensure_file :: "(shell \<Rightarrow> shell option) \<Rightarrow> (shell \<Rightarrow> shell) \<Rightarrow> u8 list \<Rightarrow> shell \<Rightarrow> (bool \<times> shell) option" where
  "ensure_file no_dir no_create path s =
     do { (d, name, s) \<leftarrow> resolve_dir_and_name path s;
          isdir \<leftarrow> dir_at d s;
          if \<not> isdir then do { s \<leftarrow> no_dir s; Some (False, vnode_free d s) }
          else do { (ex, s) \<leftarrow> on_vfs (vfs_finddir d name) s;
                    if ex = None then do { able \<leftarrow> can_make d s;
                                           if \<not> able then Some (False, vnode_free d (no_create s))
                                           else do { (ok, s) \<leftarrow> dir_op (\<lambda>v. bfs_create v name 0) d s; Some (True, vnode_free d s) } }
                    else Some (True, vnode_free d (vnode_free ex s)) } }"

text \<open>The file is looked up again; \<open>None\<close> is the early return.\<close>

definition find_file :: "u8 list \<Rightarrow> shell \<Rightarrow> (nref option \<times> shell) option" where
  "find_file path s =
     do { (d, name, s) \<leftarrow> resolve_dir_and_name path s;
          if d = None then Some (None, s)
          else do { (f, s) \<leftarrow> on_vfs (vfs_finddir d name) s; Some (f, vnode_free d s) } }"

definition cmd_write :: "u8 list list \<Rightarrow> shell \<Rightarrow> shell option" where
  "cmd_write argv s =
     (if length argv < 3 then Some s
      else do { (go, s) \<leftarrow> ensure_file (kp (lit ''write: dir not found'' @ [10]) []) (line (lit ''read-only'')) (argv ! 1) s;
                if \<not> go then Some s
                else do { (f, s) \<leftarrow> find_file (argv ! 1) s;
                          if f = None then Some s
                          else do { let b = words_text argv;
                                    (wr, s) \<leftarrow> on_vfs (vfs_write f 0 (of_nat (length b)) b) s;
                                    s \<leftarrow> (if 0 < sint wr then kp (lit ''written %u bytes to %s'' @ [10]) [KInt wr, KStr (Some (argv ! 1))] s
                                          else Some s);
                                    Some (vnode_free f s) } } })"

definition cmd_append :: "u8 list list \<Rightarrow> shell \<Rightarrow> shell option" where
  "cmd_append argv s =
     (if length argv < 3 then Some s
      else do { (go, s) \<leftarrow> ensure_file Some id (argv ! 1) s;
                if \<not> go then Some s
                else do { (f, s) \<leftarrow> find_file (argv ! 1) s;
                          case f of
                            None \<Rightarrow> Some s
                          | Some r \<Rightarrow>
                              do { v \<leftarrow> vnode_at r s;
                                   let b = words_text argv;
                                   (wr, s) \<leftarrow> on_vfs (vfs_write f (v_size v) (of_nat (length b)) b) s;
                                   s \<leftarrow> kp (lit ''appended %u bytes'' @ [10]) [KInt (of_nat (length b))] s;
                                   Some (vnode_free f s) } } })"

text \<open>The first 4096 bytes of a file.\<close>

partial_function (option) cp_loop :: "nref option \<Rightarrow> u8 list \<Rightarrow> shell \<Rightarrow> (u8 list \<times> shell) option" where
  "cp_loop f cb s =
     do { (nr, b, s) \<leftarrow> read_local f (of_nat (length cb)) 512 s;
          if 0 < sint nr
          then (let cb = cb @ take (4096 - length cb) b in if 4096 \<le> length cb then Some (cb, s) else cp_loop f cb s)
          else Some (cb, s) }"

definition cmd_cp :: "u8 list list \<Rightarrow> shell \<Rightarrow> shell option" where
  "cmd_cp argv s =
     (if length argv < 3 then Some s
      else do { (src, s) \<leftarrow> resolve (argv ! 1) s;
                isfile \<leftarrow> file_at src s;
                if \<not> isfile then do { s \<leftarrow> kp (lit ''cp: '' @ [39] @ lit ''%s'' @ [39] @ lit '' not found'' @ [10]) [KStr (Some (argv ! 1))] s;
                                      Some (vnode_free src s) }
                else do { (cb, s) \<leftarrow> cp_loop src [] s;
                          (d, dn, s) \<leftarrow> resolve_dir_and_name (argv ! 2) (vnode_free src s);
                          able \<leftarrow> can_make d s;
                          if \<not> able then Some (vnode_free d s)
                          else do { (ok, s) \<leftarrow> dir_op (\<lambda>v. bfs_create v dn 0) d s;
                                    (dst, s) \<leftarrow> find_file (argv ! 2) (vnode_free d s);
                                    if dst = None then Some s
                                    else do { (wr, s) \<leftarrow> on_vfs (vfs_write dst 0 (of_nat (length cb)) cb) s;
                                              s \<leftarrow> kp (lit ''copied %u bytes'' @ [10]) [KInt (of_nat (length cb))] s;
                                              Some (vnode_free dst s) } } } })"

end
