(* ===== verification/Sh_Sys.thy ===== *)
theory Sh_Sys
  imports Sh_Base
begin

text \<open>
  The commands of \<^verbatim>\<open>kernel/shell.c\<close> on processes, users, the disk and the network. A command that halts
  or restarts the machine does not return: \<open>None\<close>.
\<close>

section \<open>Processes\<close>

text \<open>
  \<^verbatim>\<open>proc_list\<close>. The directives with widths are copied to the output and take no argument, so that the
  string directive reads the process number as a pointer.
\<close>

definition proc_line :: "process \<Rightarrow> shell \<Rightarrow> shell option" where
  "proc_line p s =
     (if pid p = 0 \<and> state p = PROC_ZOMBIE then Some s
      else kp (lit ''%-4u %-16s %s  0x%x'' @ [10])
             [KInt (pid p), KStr (Some (lit (name p))), KStr (Some (lit (state_name (state p)))), KInt (kstack_top p)] s)"

fun proc_lines :: "(nat \<Rightarrow> process) \<Rightarrow> nat list \<Rightarrow> shell \<Rightarrow> shell option" where
  "proc_lines t [] s = Some s"
| "proc_lines t (i # is) s = do { s \<leftarrow> proc_line (t i) s; proc_lines t is s }"

definition proc_list :: "shell \<Rightarrow> shell option" where
  "proc_list s =
     (let s = line (lit ''PID  NAME             STATE    KSTACK'') (color VGA_COLOR_LIGHT_CYAN s)
      in proc_lines (proc_table (sh_procs s)) [0..<MAX_PROCS] (color VGA_COLOR_WHITE s))"

definition cmd_ps :: "shell \<Rightarrow> shell option" where "cmd_ps s = proc_list s"

text \<open>A call of the scheduler: the shell goes on once it is the current process again.\<close>

definition on_procs :: "world \<Rightarrow> (procs \<Rightarrow> procs option) \<Rightarrow> shell \<Rightarrow> shell option" where
  "on_procs w f s =
     do { p \<leftarrow> f (sh_procs s);
          p \<leftarrow> (if current p = current (sh_procs s) then Some p else other_procs w p);
          Some (s\<lparr>sh_procs := p\<rparr>) }"

definition cmd_sleep :: "world \<Rightarrow> u8 list list \<Rightarrow> shell \<Rightarrow> shell option" where
  "cmd_sleep w argv s =
     (if length argv < 2 then Some s
      else do { s \<leftarrow> on_procs w (proc_sleep (sh_ticks s) (sh_ticks s) (katoi (argv ! 1))) s; Some (line (lit ''done.'') s) })"

definition cmd_yield :: "world \<Rightarrow> shell \<Rightarrow> shell option" where
  "cmd_yield w s = on_procs w (proc_yield (sh_ticks s)) s"

section \<open>Users\<close>

definition log_in :: "u8 list \<Rightarrow> u8 list \<Rightarrow> shell \<Rightarrow> bool \<times> shell" where
  "log_in nm pass s = (case user_login nm pass (sh_acc s) of (ok, a) \<Rightarrow> (ok, s\<lparr>sh_acc := a\<rparr>))"

definition cmd_whoami :: "shell \<Rightarrow> shell option" where
  "cmd_whoami s =
     (case user_current (sh_acc s) of
        None \<Rightarrow> Some (line (lit ''not logged in'') s)
      | Some u \<Rightarrow> kp (lit ''%s  [%s]'' @ [10])
          [KStr (Some (u_name u)), KStr (Some (if u_priv u = PRIV_ROOT then lit ''root/admin'' else lit ''user''))] s)"

definition cmd_elevate :: "world \<Rightarrow> shell \<Rightarrow> shell option" where
  "cmd_elevate w s =
     do { (pass, s) \<leftarrow> read_pass w USER_PASS_MAX (puts (lit ''root password: '') s);
          case log_in (lit ''root'') pass s of (ok, s) \<Rightarrow>
            Some (color VGA_COLOR_WHITE
              (line (if ok then lit ''Elevated to root mode.'' else lit ''Wrong password.'') (color VGA_COLOR_LIGHT_RED s))) }"

definition cmd_frostdown :: "shell \<Rightarrow> shell" where
  "cmd_frostdown s = line (lit ''Back to normal user.'') (snd (log_in (lit ''stack'') (lit ''stack'') s))"

definition cmd_login :: "world \<Rightarrow> shell \<Rightarrow> shell option" where
  "cmd_login w s =
     do { (name, s) \<leftarrow> read_line w USER_NAME_MAX (puts (lit ''username: '') s);
          (pass, s) \<leftarrow> read_pass w USER_PASS_MAX (puts (lit ''password: '') s);
          case log_in name pass s of (ok, s) \<Rightarrow>
            if ok then do { s \<leftarrow> kp (lit ''Welcome, %s!'' @ [10]) [KStr (Some name)] (color VGA_COLOR_LIGHT_GREEN s);
                            Some (color VGA_COLOR_WHITE s) }
            else Some (color VGA_COLOR_WHITE (line (lit ''Login failed.'') (color VGA_COLOR_LIGHT_RED s))) }"

definition cmd_logout :: "shell \<Rightarrow> shell" where
  "cmd_logout s = line (lit ''Logged out.'') (s\<lparr>sh_acc := user_logout (sh_acc s)\<rparr>)"

text \<open>The listing without its colours, as \<open>user_list\<close> has it.\<close>

definition cmd_users :: "shell \<Rightarrow> shell" where "cmd_users s = drain (s\<lparr>sh_acc := user_list (sh_acc s)\<rparr>)"

definition cmd_useradd :: "u8 list list \<Rightarrow> shell \<Rightarrow> shell option" where
  "cmd_useradd argv = need_root (\<lambda>s.
     if length argv < 3 then Some (line (lit ''usage: useradd <name> <pass>'') s)
     else do { (ok, s) \<leftarrow> on_acc (user_add (argv ! 1) (argv ! 2) PRIV_USER) s;
               if ok then kp (lit ''user '' @ [39] @ lit ''%s'' @ [39] @ lit '' created.'' @ [10]) [KStr (Some (argv ! 1))] s
               else Some (line (lit ''failed.'') s) })"

definition cmd_userdel :: "u8 list list \<Rightarrow> shell \<Rightarrow> shell option" where
  "cmd_userdel argv = need_root (\<lambda>s.
     if length argv < 2 then Some s
     else if str_cmp (argv ! 1) (lit ''root'') = 0 \<or> str_cmp (argv ! 1) (lit ''stack'') = 0
     then Some (line (lit ''Cannot delete built-in accounts.'') s)
     else do { (ok, s) \<leftarrow> on_acc (user_del (argv ! 1)) s;
               if ok then kp (lit ''user '' @ [39] @ lit ''%s'' @ [39] @ lit '' deleted.'' @ [10]) [KStr (Some (argv ! 1))] s
               else kp (lit ''userdel: '' @ [39] @ lit ''%s'' @ [39] @ lit '' not found'' @ [10]) [KStr (Some (argv ! 1))] s })"

definition cmd_passwd :: "u8 list list \<Rightarrow> shell \<Rightarrow> shell option" where
  "cmd_passwd argv = need_root (\<lambda>s.
     if length argv < 3 then Some s
     else do { (ok, s) \<leftarrow> on_acc (user_chpass (argv ! 1) (argv ! 2)) s;
               if ok then kp (lit ''password changed for '' @ [39] @ lit ''%s'' @ [39] @ lit ''.'' @ [10]) [KStr (Some (argv ! 1))] s
               else kp (lit ''passwd: '' @ [39] @ lit ''%s'' @ [39] @ lit '' not found'' @ [10]) [KStr (Some (argv ! 1))] s })"

section \<open>Power and diagnostics\<close>

text \<open>
  The ends of the commands that do not come back: the processor halted with interrupts off, and, for
  \<^verbatim>\<open>reboot\<close>, a far jump to a selector outside the descriptor table.
\<close>

definition halt_forever :: "shell \<Rightarrow> shell option" where "halt_forever s = None"
definition far_jump :: "shell \<Rightarrow> shell option" where "far_jump s = None"

definition cmd_shutdown :: "shell \<Rightarrow> shell option" where
  "cmd_shutdown = need_root (\<lambda>s. halt_forever (line (lit ''System halted.'') s))"

definition cmd_reboot :: "shell \<Rightarrow> shell option" where
  "cmd_reboot = need_root (\<lambda>s. far_jump (line (lit ''Rebooting...'') s))"

definition cmd_panic_test :: "shell \<Rightarrow> shell option" where
  "cmd_panic_test = need_root (\<lambda>s.
     halt_forever (line (lit ''  *** StackOS KERNEL PANIC (user-triggered) ***'')
       (term1 Cls (term1 (Color VGA_COLOR_WHITE VGA_COLOR_BLUE) s))))"

definition cmd_stack_reg :: "world \<Rightarrow> shell \<Rightarrow> shell option" where
  "cmd_stack_reg w s = kp (lit ''ESP: 0x%x'' @ [10]) [KInt (cpu_esp w)] s"

definition cmd_eflags :: "world \<Rightarrow> shell \<Rightarrow> shell option" where
  "cmd_eflags w s = kp (lit ''EFLAGS: 0x%x'' @ [10]) [KInt (cpu_eflags w)] s"

definition cmd_cr0 :: "world \<Rightarrow> shell \<Rightarrow> shell option" where
  "cmd_cr0 w = need_root (kp (lit ''CR0=0x%x'' @ [10]) [KInt (cpu_cr0 w)])"

definition cmd_cr3 :: "world \<Rightarrow> shell \<Rightarrow> shell option" where
  "cmd_cr3 w = need_root (kp (lit ''CR3=0x%x'' @ [10]) [KInt (cpu_cr3 w)])"

fun history_lines :: "int list \<Rightarrow> shell \<Rightarrow> shell option" where
  "history_lines [] s = Some s"
| "history_lines (i # is) s =
     do { s \<leftarrow> kp (lit ''  %3d  %s'' @ [10]) [KInt (word_of_int (i + 1)), KStr (Some (hist_at i s))] s; history_lines is s }"

definition cmd_history :: "shell \<Rightarrow> shell option" where
  "cmd_history s =
     (if hist_count s = 0 then Some (line (lit ''No history.'') s)
      else history_lines [(if HISTORY_MAX < hist_count s then hist_count s - HISTORY_MAX else 0)..hist_count s - 1] s)"

section \<open>Messages\<close>

definition cmd_hi :: "shell \<Rightarrow> shell option" where
  "cmd_hi s = kp (lit ''Hello, %s!'' @ [10])
     [KStr (Some (case user_current (sh_acc s) of Some u \<Rightarrow> u_name u | None \<Rightarrow> lit ''stranger''))] s"

definition cmd_os :: "shell \<Rightarrow> shell" where
  "cmd_os s = color VGA_COLOR_WHITE (line (lit ''StackOS - built 100% from scratch.'') (color VGA_COLOR_LIGHT_CYAN s))"

definition cmd_credits :: "shell \<Rightarrow> shell" where
  "cmd_credits s = line (lit (''  StackOS '' @ em_dash @ '' built by Jahanzaib'')) s"

definition quotes :: "u8 list list" where
  "quotes =
     [lit ''In ring 0, no one can hear you segfault.'',
      lit ''No glibc. No mercy.'',
      lit ''Real OSes write their own kmalloc.'',
      lit ''A triple fault is just the CPU saying hello.'',
      lit ''0xB8000: where your text lives.'',
      lit ''StackOS: because someone had to build it.'']"

definition cmd_stackquote :: "shell \<Rightarrow> shell option" where
  "cmd_stackquote s =
     kp ([0x22] @ lit ''%s'' @ [0x22] @ [10]) [KStr (Some (quotes ! unat (quote_at s mod 6)))] (s\<lparr>quote_at := quote_at s + 1\<rparr>)"

section \<open>The disk\<close>

text \<open>\<^verbatim>\<open>stackfs_mount\<close> on the file system, with the node in the block it was given.\<close>

definition mount_disk :: "u8 list \<Rightarrow> vfs \<Rightarrow> (nref option \<times> vfs) option" where
  "mount_disk junk k = Some (new_node (stackfs_mount (room k) junk (sfs_st k)) k)"

definition mount_at_disk :: "nref \<Rightarrow> shell \<Rightarrow> (bool \<times> shell) option" where
  "mount_at_disk r s = on_vfs (\<lambda>k. Some (vfs_mount (lit ''/disk'') r k)) s"

definition fs_detected :: "shell \<Rightarrow> bool" where "fs_detected s = stackfs_detect (sfs_st (afs (sh_acc s)))"

definition cmd_drives :: "shell \<Rightarrow> shell option" where
  "cmd_drives s =
     (let a = sh_ata s
      in if \<not> ata_present a then Some (line (lit ''No disk.'') s)
         else do { s \<leftarrow> kp (lit ''Model  : %s'' @ [10] @ lit ''Pos    : %s'' @ [10] @ lit ''Sectors: %u (%u MiB)'' @ [10] @ lit ''StackFS: %s'' @ [10])
                         [KStr (Some (lit (ata_model a))), KStr (Some (lit (ata_position a))), KInt (ata_sectors a),
                          KInt (ata_sectors a div 2 div 1024),
                          KStr (Some (if fs_detected s then lit ''detected'' else lit ''not formatted''))]
                         (color VGA_COLOR_LIGHT_CYAN s);
                   Some (color VGA_COLOR_WHITE s) })"

definition cmd_format :: "world \<Rightarrow> shell \<Rightarrow> shell option" where
  "cmd_format w = need_root (\<lambda>s.
     if \<not> ata_present (sh_ata s) then Some (line (lit ''No disk.'') s)
     else do { (ln, s) \<leftarrow> read_line w 16 (puts (lit ''Format disk? All data lost. (yes/no): '') s);
               if str_cmp ln (lit ''yes'') \<noteq> 0 then Some (line (lit ''Cancelled.'') s)
               else do { (ok, s) \<leftarrow> on_vfs (\<lambda>k. case stackfs_format (Some (lit ''StackOS'')) (sfs_st k) of (ok, st) \<Rightarrow> Some (ok, k\<lparr>sfs_st := st\<rparr>)) s;
                         if \<not> ok then Some (line (lit ''Format failed.'') s)
                         else do { (r, s) \<leftarrow> on_vfs (mount_disk (stack_junk w)) s;
                                   case r of
                                     None \<Rightarrow> Some s
                                   | Some r \<Rightarrow> do { (b, s) \<leftarrow> mount_at_disk r s; Some (line (lit ''Formatted and mounted.'') s) } } } })"

definition cmd_mount :: "world \<Rightarrow> shell \<Rightarrow> shell option" where
  "cmd_mount w s =
     (if \<not> ata_present (sh_ata s) then Some (line (lit ''No disk.'') s)
      else if \<not> fs_detected s then Some (line (lit ''No StackFS. Run '' @ [39] @ lit ''format'' @ [39] @ lit '' first.'') s)
      else do { (r, s) \<leftarrow> on_vfs (mount_disk (stack_junk w)) s;
                case r of
                  None \<Rightarrow> Some (line (lit ''Mount failed.'') s)
                | Some r \<Rightarrow> do { (b, s) \<leftarrow> mount_at_disk r s; Some (line (lit ''Mounted at /disk.'') s) } })"

section \<open>The network\<close>

definition ip_args :: "u32 \<Rightarrow> karg list" where
  "ip_args a = [KInt (drop_bit 24 a AND 0xFF), KInt (drop_bit 16 a AND 0xFF), KInt (drop_bit 8 a AND 0xFF), KInt (a AND 0xFF)]"

definition cmd_netinfo :: "shell \<Rightarrow> shell option" where
  "cmd_netinfo s =
     (let n = sh_net s; mac = e1000_get_mac n
      in do { s \<leftarrow> kp (lit ''IP  : %u.%u.%u.%u'' @ [10]) (ip_args (net_ip n)) (color VGA_COLOR_LIGHT_CYAN s);
              s \<leftarrow> kp (lit ''GW  : %u.%u.%u.%u'' @ [10]) (ip_args (net_gw n)) s;
              s \<leftarrow> kp (lit ''Mask: %u.%u.%u.%u'' @ [10]) (ip_args (net_mask n)) s;
              s \<leftarrow> kp (lit ''DNS : %u.%u.%u.%u'' @ [10]) (ip_args (net_dns n)) s;
              s \<leftarrow> kp (lit ''MAC : %02x:%02x:%02x:%02x:%02x:%02x'' @ [10]) (map (\<lambda>b. KInt (ucast b)) mac) s;
              Some (color VGA_COLOR_WHITE s) })"

text \<open>The four numbers of an address, \<^verbatim>\<open>part\<close> the one that is read; other characters are passed over.\<close>

fun parse_ip :: "u8 list \<Rightarrow> nat \<Rightarrow> u32 list \<Rightarrow> u32 list" where
  "parse_ip [] part p = p"
| "parse_ip (c # cs) part p =
     (if 4 \<le> part then p
      else if c = 0x2E then parse_ip cs (part + 1) p
      else parse_ip cs part (if 0x30 \<le> c \<and> c \<le> 0x39 then p[part := p ! part * 10 + ucast (c - 0x30)] else p))"

text \<open>The macro \<^verbatim>\<open>IP4\<close> on numbers that may exceed a byte.\<close>

definition ip4_of :: "u32 \<Rightarrow> u32 \<Rightarrow> u32 \<Rightarrow> u32 \<Rightarrow> u32" where
  "ip4_of a b c d = push_bit 24 a OR push_bit 16 b OR push_bit 8 c OR d"

text \<open>\<^verbatim>\<open>while(timer_ticks()-st<20);\<close>\<close>

fun spin20 :: "bool list \<Rightarrow> u64 \<Rightarrow> u64 \<Rightarrow> u64 option" where
  "spin20 irqs st now =
     (if now - st < 20 then (case irqs of [] \<Rightarrow> None | b # irqs \<Rightarrow> spin20 irqs st (if b then now + 1 else now)) else Some now)"

fun pings :: "world \<Rightarrow> u32 \<Rightarrow> u16 list \<Rightarrow> shell \<Rightarrow> shell option" where
  "pings w dst [] s = Some s"
| "pings w dst (i # is) s =
     do { let s = s\<lparr>sh_net := icmp_send_ping (net_card w) dst 0x5374 i (sh_net s)\<rparr>;
          now \<leftarrow> spin20 (tick_irqs w (sh_waits s)) (sh_ticks s) (sh_ticks s);
          pings w dst is (s\<lparr>sh_ticks := now, sh_waits := sh_waits s + 1\<rparr>) }"

definition cmd_ping :: "world \<Rightarrow> u8 list list \<Rightarrow> shell \<Rightarrow> shell option" where
  "cmd_ping w argv s =
     (if length argv < 2 then Some (line (lit ''usage: ping <ip>'') s)
      else
        (let p = parse_ip (argv ! 1) 0 [0, 0, 0, 0]
         in do { s \<leftarrow> kp (lit ''PING %u.%u.%u.%u'' @ [10]) (map KInt p) s;
                 s \<leftarrow> pings w (ip4_of (p ! 0) (p ! 1) (p ! 2) (p ! 3)) [1, 2, 3, 4] s;
                 Some (line (lit ''Done. Check serial for pong replies.'') s) }))"

definition cmd_dhcp :: "world \<Rightarrow> shell \<Rightarrow> shell option" where
  "cmd_dhcp w s =
     do { s \<leftarrow> kp (lit ''Requesting IP via DHCP...'' @ [10]) [] s;
          (ok, n) \<leftarrow> dhcp_request (timer_runs w) (net_dev w) (net_card w) (sh_net s);
          let s = s\<lparr>sh_net := n\<rparr>;
          if ok then kp (lit ''Done. IP: %u.%u.%u.%u'' @ [10]) (ip_args (net_ip n)) s
          else kp (lit ''DHCP failed.'' @ [10]) [] s }"

section \<open>Help\<close>

definition help_section :: "string \<Rightarrow> string list \<Rightarrow> shell \<Rightarrow> shell" where
  "help_section title lines s =
     fold (\<lambda>l. line (lit l)) lines (color VGA_COLOR_WHITE (line (lit title) (color VGA_COLOR_LIGHT_BROWN s)))"

definition cmd_help :: "shell \<Rightarrow> shell" where
  "cmd_help s =
     (let s = line (lit ''=== StackOS Commands ==='') (color VGA_COLOR_LIGHT_CYAN s);
          s = help_section ''-- SYSTEM --'' [''  sysinfo  ver  runtime  ram  cpu  arch  ticks  cls  banner  color''] s;
          s = help_section ''-- FILES --''
                [''  ls  cat  write  append  touch  mkdir  rm  cp  wc  head'', ''  cd  pwd  back  stat  tree''] s;
          s = help_section ''-- NETWORK --'' [''  netinfo  ping <ip>  dhcp''] s;
          s = help_section ''-- DISK --'' [''  drives  format  mount''] s;
          s = help_section ''-- USERS --''
                [''  whoami  login  logout  users  useradd  userdel  passwd'', ''  elevate  lower''] s;
          s = help_section ''-- SHELL --''
                [''  history  echo  say  shout  repeat  count  calc  hex  dec'',
                 ''  flip  upper  lower  rainbow  hi  os  credits  stackquote''] s;
          s = help_section ''-- POWER/DIAG [root] --'' [''  shutdown  reboot  panic  stack  eflags  cr0  cr3  ps  sleep''] s;
          s = line ([10] @ lit ''Up/Down=history  Ctrl+L=clear  Ctrl+C=cancel'') (color VGA_COLOR_LIGHT_GREY s)
      in color VGA_COLOR_WHITE s)"

end
