(* ===== verification/Sh_Main.thy ===== *)
theory Sh_Main
  imports Sh_Text Sh_Files Sh_Sys
begin

text \<open>
  The interpreter of \<^verbatim>\<open>kernel/shell.c\<close>: the choice of the command, and the loop that prompts, reads a
  line, records it and runs it. The loop never returns; \<open>shell_turn\<close> is one round of it.
\<close>

definition is_cmd :: "u8 list \<Rightarrow> string \<Rightarrow> bool" where "is_cmd c str \<longleftrightarrow> str_cmp c (lit str) = 0"

definition unknown_command :: "u8 list \<Rightarrow> shell \<Rightarrow> shell option" where
  "unknown_command c s =
     do { s \<leftarrow> kp (lit ''unknown command: %s  (type '' @ [39] @ lit ''help'' @ [39] @ lit '')'' @ [10]) [KStr (Some c)] (color VGA_COLOR_LIGHT_RED s);
          Some (color VGA_COLOR_WHITE s) }"

definition dispatch :: "world \<Rightarrow> u8 list list \<Rightarrow> shell \<Rightarrow> shell option" where
  "dispatch w argv s =
     (let c = argv ! 0
      in if is_cmd c ''sysinfo'' \<or> is_cmd c ''uname'' then cmd_sysinfo s
         else if is_cmd c ''ver'' then cmd_ver s
         else if is_cmd c ''runtime'' \<or> is_cmd c ''uptime'' then cmd_runtime s
         else if is_cmd c ''ram'' \<or> is_cmd c ''mem'' then cmd_ram s
         else if is_cmd c ''cpu'' then Some (cmd_cpu s)
         else if is_cmd c ''arch'' then Some (cmd_arch s)
         else if is_cmd c ''ticks'' then cmd_ticks s
         else if is_cmd c ''cls'' \<or> is_cmd c ''clear'' then Some (cmd_cls s)
         else if is_cmd c ''banner'' then Some (cmd_banner s)
         else if is_cmd c ''color'' then Some (cmd_color argv s)
         else if is_cmd c ''rainbow'' then Some (cmd_rainbow s)
         else if is_cmd c ''echo'' \<or> is_cmd c ''print'' then Some (cmd_print argv s)
         else if is_cmd c ''say'' then Some (cmd_say argv s)
         else if is_cmd c ''shout'' then Some (cmd_shout argv s)
         else if is_cmd c ''repeat'' then Some (cmd_repeat argv s)
         else if is_cmd c ''count'' then cmd_count argv s
         else if is_cmd c ''calc'' then cmd_calc argv s
         else if is_cmd c ''hex'' then cmd_hex argv s
         else if is_cmd c ''dec'' then cmd_dec argv s
         else if is_cmd c ''flip'' then Some (cmd_flip argv s)
         else if is_cmd c ''upper'' then Some (cmd_upper argv s)
         else if is_cmd c ''lower2'' \<or> is_cmd c ''tolower'' then Some (cmd_lower argv s)
         else if is_cmd c ''ls'' \<or> is_cmd c ''dir'' then cmd_ls argv s
         else if is_cmd c ''cat'' \<or> is_cmd c ''read'' then cmd_cat argv s
         else if is_cmd c ''cd'' \<or> is_cmd c ''goto'' then cmd_cd argv s
         else if is_cmd c ''pwd'' \<or> is_cmd c ''where'' then cmd_pwd s
         else if is_cmd c ''back'' then Some (cmd_back s)
         else if is_cmd c ''stat'' \<or> is_cmd c ''info'' then cmd_stat argv s
         else if is_cmd c ''tree'' then cmd_tree argv s
         else if is_cmd c ''touch'' then cmd_touch argv s
         else if is_cmd c ''mkdir'' then cmd_mkdir argv s
         else if is_cmd c ''rm'' \<or> is_cmd c ''del'' then cmd_rm argv s
         else if is_cmd c ''write'' then cmd_write argv s
         else if is_cmd c ''append'' then cmd_append argv s
         else if is_cmd c ''cp'' then cmd_cp argv s
         else if is_cmd c ''wc'' then cmd_wc argv s
         else if is_cmd c ''head'' then cmd_head argv s
         else if is_cmd c ''ps'' \<or> is_cmd c ''procs'' then cmd_ps s
         else if is_cmd c ''sleep'' \<or> is_cmd c ''wait'' then cmd_sleep w argv s
         else if is_cmd c ''yield'' \<or> is_cmd c ''give'' then cmd_yield w s
         else if is_cmd c ''whoami'' then cmd_whoami s
         else if is_cmd c ''login'' then cmd_login w s
         else if is_cmd c ''logout'' then Some (cmd_logout s)
         else if is_cmd c ''users'' then Some (cmd_users s)
         else if is_cmd c ''useradd'' then cmd_useradd argv s
         else if is_cmd c ''userdel'' then cmd_userdel argv s
         else if is_cmd c ''passwd'' then cmd_passwd argv s
         else if is_cmd c ''elevate'' then cmd_elevate w s
         else if is_cmd c ''lower'' then Some (cmd_frostdown s)
         else if is_cmd c ''shutdown'' \<or> is_cmd c ''halt'' then cmd_shutdown s
         else if is_cmd c ''reboot'' \<or> is_cmd c ''restart'' then cmd_reboot s
         else if is_cmd c ''panic'' then cmd_panic_test s
         else if is_cmd c ''stack'' then cmd_stack_reg w s
         else if is_cmd c ''eflags'' then cmd_eflags w s
         else if is_cmd c ''cr0'' then cmd_cr0 w s
         else if is_cmd c ''cr3'' then cmd_cr3 w s
         else if is_cmd c ''history'' then cmd_history s
         else if is_cmd c ''hi'' then cmd_hi s
         else if is_cmd c ''os'' then Some (cmd_os s)
         else if is_cmd c ''credits'' then Some (cmd_credits s)
         else if is_cmd c ''stackquote'' then cmd_stackquote s
         else if is_cmd c ''drives'' then cmd_drives s
         else if is_cmd c ''format'' then cmd_format w s
         else if is_cmd c ''mount'' then cmd_mount w s
         else if is_cmd c ''netinfo'' then cmd_netinfo s
         else if is_cmd c ''ping'' then cmd_ping w argv s
         else if is_cmd c ''dhcp'' then cmd_dhcp w s
         else if is_cmd c ''help'' then Some (cmd_help s)
         else unknown_command c s)"

definition show_banner :: "shell \<Rightarrow> shell option" where
  "show_banner s =
     do { let s = color VGA_COLOR_WHITE (putc 10 (banner s));
          s \<leftarrow> kp (lit ''  StackOS %s  |  type '' @ [39] @ lit ''help'' @ [39] @ [10]) [KStr (Some VERSION)] s;
          let s = color VGA_COLOR_LIGHT_GREY s;
          s \<leftarrow> (if ata_present (sh_ata s) then kp (lit ''  Disk: /disk (%s)'' @ [10]) [KStr (Some (lit (ata_position (sh_ata s))))] s
                else Some s);
          Some (color VGA_COLOR_WHITE (putc 10 s)) }"

text \<open>Before the loop: the banner and the first session.\<close>

definition shell_start :: "shell \<Rightarrow> shell option" where
  "shell_start s = do { s \<leftarrow> show_banner s; Some (snd (log_in (lit ''stack'') (lit ''stack'') s)) }"

text \<open>What is done with a line.\<close>

definition run_line :: "world \<Rightarrow> u8 list \<Rightarrow> shell \<Rightarrow> shell option" where
  "run_line w ln s =
     (if ln = [] then Some s
      else (let s = hist_push ln s; argv = tokenise MAX_ARGS ln
            in if argv = [] then Some s else dispatch w argv s))"

definition shell_turn :: "world \<Rightarrow> shell \<Rightarrow> shell option" where
  "shell_turn w s = do { (ln, s) \<leftarrow> read_line w CMD_BUF (print_prompt s); run_line w ln s }"

text \<open>The states at the prompt.\<close>

inductive prompt_reach :: "world \<Rightarrow> shell \<Rightarrow> shell \<Rightarrow> bool" for w s0 where
  start: "shell_start s0 = Some s \<Longrightarrow> prompt_reach w s0 s"
| turn: "prompt_reach w s0 s \<Longrightarrow> shell_turn w s = Some t \<Longrightarrow> prompt_reach w s0 t"

inductive_cases prompt_reachE: "prompt_reach w s0 s"

end
