(* ===== verification/Sh_Props.thy ===== *)
theory Sh_Props
  imports Sh_Main Net_Props Ata_Refine
begin

text \<open>
  What the shell guarantees: who may change the accounts and the session, where the working directory
  is, what the line editor returns, and which lines the history recalls.
\<close>

section \<open>What the commands leave alone\<close>

text \<open>The accounts, the session, the working directory and the history.\<close>

definition obs :: "shell \<Rightarrow> (user list \<times> nat \<times> nat option) \<times> u8 list \<times> u8 list list \<times> int" where
  "obs s = ((users (sh_acc s), user_count (sh_acc s), current_user (sh_acc s)), cwd s, history s, hist_count s)"

named_theorems obs_kept and obs_dest

lemma obs_ops [simp]:
  "obs (term1 op s) = obs s" "obs (putc c s) = obs s" "obs (puts cs s) = obs s" "obs (line cs s) = obs s"
  "obs (color fg s) = obs s" "obs (white s) = obs s" "obs (drain s) = obs s" "obs (vnode_free n s) = obs s"
  "obs (s\<lparr>sh_kbd := k\<rparr>) = obs s" "obs (s\<lparr>sh_waits := nw\<rparr>) = obs s" "obs (s\<lparr>sh_procs := p\<rparr>) = obs s" "obs (s\<lparr>sh_net := e\<rparr>) = obs s"
  "obs (s\<lparr>sh_ticks := t\<rparr>) = obs s" "obs (s\<lparr>quote_at := q\<rparr>) = obs s" "obs (s\<lparr>hist_pos := i\<rparr>) = obs s"
  by (auto simp: obs_def term1_def putc_def puts_def line_def color_def white_def drain_def vnode_free_def Let_def split: option.splits)

lemma for_loop_obs: "(\<And>i s. obs (f i s) = obs s) \<Longrightarrow> obs (for_loop a n f s) = obs s"
  by (rule for_loop_keeps) simp_all

lemma fold_obs: "(\<And>x s. obs (f x s) = obs s) \<Longrightarrow> obs (fold f xs s) = obs s"
  by (induction xs arbitrary: s) simp_all

lemma kp_obs [obs_dest]: "kp fmt args s = Some t \<Longrightarrow> obs t = obs s"
  by (auto simp: kp_def obs_def)

lemma on_vfs_obs [obs_dest]: "on_vfs f s = Some (r, t) \<Longrightarrow> obs t = obs s"
  by (auto simp: on_vfs_def on_acc_def) (simp add: obs_def)

lemma getchar_obs [obs_dest]: "getchar w s = Some (c, t) \<Longrightarrow> obs t = obs s"
  by (auto simp: getchar_def)

lemma bindE: "Option.bind r f = Some t \<Longrightarrow> (\<And>x. r = Some x \<Longrightarrow> f x = Some t \<Longrightarrow> P) \<Longrightarrow> P"
  by (cases r) auto

lemmas obs_steps = bind_eq_Some_conv Let_def split_beta

lemma resolve_obs [obs_dest]: "resolve p s = Some (r, t) \<Longrightarrow> obs t = obs s"
  by (auto simp: resolve_def obs_steps split: if_splits dest!: obs_dest)

lemma resolve_dir_and_name_obs [obs_dest]: "resolve_dir_and_name p s = Some (d, nm, t) \<Longrightarrow> obs t = obs s"
  by (auto simp: resolve_dir_and_name_def obs_steps split: if_splits option.splits dest!: obs_dest)

lemma dir_op_obs [obs_dest]: "dir_op f n s = Some (r, t) \<Longrightarrow> obs t = obs s"
  by (auto simp: dir_op_def obs_steps dest!: obs_dest)

lemma read_local_obs [obs_dest]: "read_local f off n s = Some (nr, b, t) \<Longrightarrow> obs t = obs s"
  by (auto simp: read_local_def obs_steps dest!: obs_dest)

lemma read_key_obs [obs_dest]: "read_key w s = Some (k, t) \<Longrightarrow> obs t = obs s"
  by (auto simp: read_key_def obs_steps split: if_splits dest!: obs_dest)

text \<open>The partial loops.\<close>

lemma edit_line_obs: "edit_line lim k ln s = (r, t) \<Longrightarrow> obs t = obs s"
  by (auto simp: edit_line_def clear_input_line_def Let_def for_loop_obs split: if_splits)

declare edit_line_obs [obs_dest]

lemma read_line_loop_obs':
  assumes "read_line_loop w lim ln s = Some y"
  shows "obs (snd y) = obs s"
proof (rule read_line_loop.raw_induct [where P = "\<lambda>w lim ln s y. obs (snd y) = obs s", OF _ assms], goal_cases)
  case (1 f w lim ln s y)
  from 1(2) obtain k s1 where k: "read_key w s = Some (k, s1)" by (auto simp: bind_eq_Some_conv)
  obtain e s2 where e: "edit_line lim k ln s1 = (e, s2)" by fastforce
  have "obs s2 = obs s" using k e by (auto dest!: obs_dest)
  then show ?case using 1(2) k e 1(1) by (cases e) (auto dest: 1(1))
qed

lemma read_pass_loop_obs':
  assumes "read_pass_loop w lim ln s = Some y"
  shows "obs (snd y) = obs s"
proof (rule read_pass_loop.raw_induct [where P = "\<lambda>w lim ln s y. obs (snd y) = obs s", OF _ assms], goal_cases)
  case (1 f w lim ln s y)
  from 1(2) show ?case by (auto simp: obs_steps split: if_splits option.splits prod.splits edit.splits dest!: 1(1) obs_dest)
qed

lemma count_loop_obs':
  assumes "count_loop i b s = Some y"
  shows "obs (y) = obs s"
proof (rule count_loop.raw_induct [where P = "\<lambda>i b s y. obs (y) = obs s", OF _ assms], goal_cases)
  case (1 f i b s y)
  from 1(2) show ?case by (auto simp: obs_steps split: if_splits option.splits prod.splits edit.splits dest!: 1(1) obs_dest)
qed

lemma ls_entry_obs [obs_dest]: "ls_entry nc child files dirs s = Some (a, b, t) \<Longrightarrow> obs t = obs s"
  by (auto simp: ls_entry_def obs_steps split: if_splits option.splits dest!: obs_dest)

lemma ls_loop_obs':
  assumes "ls_loop d idx files dirs s = Some y"
  shows "obs (snd (snd y)) = obs s"
proof (rule ls_loop.raw_induct [where P = "\<lambda>d idx files dirs s y. obs (snd (snd y)) = obs s", OF _ assms], goal_cases)
  case (1 f d idx files dirs s y)
  from 1(2) show ?case by (auto simp: obs_steps split: if_splits option.splits prod.splits edit.splits dest!: 1(1) obs_dest)
qed

lemma tree_loop_obs':
  assumes "tree_loop d idx s = Some y"
  shows "obs (y) = obs s"
proof (rule tree_loop.raw_induct [where P = "\<lambda>d idx s y. obs (y) = obs s", OF _ assms], goal_cases)
  case (1 f d idx s y)
  from 1(2) show ?case by (auto simp: obs_steps split: if_splits option.splits prod.splits edit.splits dest!: 1(1) obs_dest)
qed

lemma cat_loop_obs':
  assumes "cat_loop f off s = Some y"
  shows "obs (y) = obs s"
proof (rule cat_loop.raw_induct [where P = "\<lambda>f off s y. obs (y) = obs s", OF _ assms], goal_cases)
  case (1 g f off s y)
  from 1(2) show ?case by (auto simp: obs_steps fold_obs split: if_splits option.splits prod.splits edit.splits dest!: 1(1) obs_dest)
qed

lemma wc_loop_obs':
  assumes "wc_loop f off n s = Some y"
  shows "obs (snd y) = obs s"
proof (rule wc_loop.raw_induct [where P = "\<lambda>f off n s y. obs (snd y) = obs s", OF _ assms], goal_cases)
  case (1 g f off n s y)
  from 1(2) show ?case by (auto simp: obs_steps split: if_splits option.splits prod.splits edit.splits dest!: 1(1) obs_dest)
qed

lemma head_fold_obs: "obs (snd (fold (head_step lim) b (ln, s))) = obs s"
  by (induction b arbitrary: ln s) (simp_all add: head_step_def)

lemma head_loop_obs':
  assumes "head_loop f lim off ln s = Some y"
  shows "obs (y) = obs s"
proof (rule head_loop.raw_induct [where P = "\<lambda>f lim off ln s y. obs (y) = obs s", OF _ assms], goal_cases)
  case (1 g f lim off ln s y)
  from 1(2) show ?case by (auto simp: obs_steps head_fold_obs split: if_splits option.splits prod.splits edit.splits dest!: 1(1) obs_dest)
qed

lemma cp_loop_obs':
  assumes "cp_loop f cb s = Some y"
  shows "obs (snd y) = obs s"
proof (rule cp_loop.raw_induct [where P = "\<lambda>f cb s y. obs (snd y) = obs s", OF _ assms], goal_cases)
  case (1 g f cb s y)
  from 1(2) show ?case by (auto simp: obs_steps split: if_splits option.splits prod.splits edit.splits dest!: 1(1) obs_dest)
qed

lemmas loop_obs = read_line_loop_obs' read_pass_loop_obs' count_loop_obs' ls_loop_obs' tree_loop_obs' cat_loop_obs' wc_loop_obs'
  head_loop_obs' cp_loop_obs'

lemma read_line_obs [obs_dest]: "read_line w lim s = Some (ln, t) \<Longrightarrow> obs t = obs s"
  using loop_obs(1) by (fastforce simp: read_line_def)

lemma read_pass_obs [obs_dest]: "read_pass w lim s = Some (ln, t) \<Longrightarrow> obs t = obs s"
  using loop_obs(2) by (fastforce simp: read_pass_def)

lemma ensure_file_obs:
  assumes "ensure_file f g p s = Some (b, t)" and "\<And>s t. f s = Some t \<Longrightarrow> obs t = obs s" and "\<And>s. obs (g s) = obs s"
  shows "obs t = obs s"
  using assms(1) by (auto simp: ensure_file_def obs_steps assms(3) split: if_splits prod.splits dest!: obs_dest assms(2))

lemma find_file_obs [obs_dest]: "find_file p s = Some (f, t) \<Longrightarrow> obs t = obs s"
  by (auto simp: find_file_def obs_steps split: if_splits prod.splits dest!: obs_dest)

section \<open>The commands that leave them alone\<close>

lemma print_words_obs [simp]: "obs (print_words n f argv s) = obs s"
  by (simp add: print_words_def Let_def for_loop_obs)

lemma proc_lines_obs [obs_dest]: "proc_lines t is s = Some s' \<Longrightarrow> obs s' = obs s"
  by (induction "is" arbitrary: s) (auto simp: obs_steps proc_line_def split: if_splits dest!: obs_dest)

lemma history_lines_obs [obs_dest]: "history_lines is s = Some s' \<Longrightarrow> obs s' = obs s"
  by (induction "is" arbitrary: s) (auto simp: obs_steps split: if_splits dest!: obs_dest)

lemma pings_obs [obs_dest]: "pings w dst is s = Some s' \<Longrightarrow> obs s' = obs s"
  by (induction "is" arbitrary: s) (auto simp: obs_steps split: if_splits dest!: obs_dest)

lemma on_procs_obs [obs_dest]: "on_procs w f s = Some t \<Longrightarrow> obs t = obs s"
  by (auto simp: on_procs_def obs_steps)

lemma need_root_obs:
  "need_root f s = Some t \<Longrightarrow> (\<And>s t. f s = Some t \<Longrightarrow> obs t = obs s) \<Longrightarrow> obs t = obs s"
  by (auto simp: need_root_def split: if_splits)

lemma need_root_denied:
  "need_root f s = Some t \<Longrightarrow> \<not> is_root s \<Longrightarrow> obs t = obs s"
  by (auto simp: need_root_def)

text \<open>Commands that only print.\<close>

lemma text_cmds_obs:
  "cmd_sysinfo s = Some t \<Longrightarrow> obs t = obs s" "cmd_ver s = Some t \<Longrightarrow> obs t = obs s" "cmd_runtime s = Some t \<Longrightarrow> obs t = obs s"
  "cmd_ram s = Some t \<Longrightarrow> obs t = obs s" "cmd_ticks s = Some t \<Longrightarrow> obs t = obs s" "cmd_count argv s = Some t \<Longrightarrow> obs t = obs s"
  "cmd_calc argv s = Some t \<Longrightarrow> obs t = obs s" "cmd_hex argv s = Some t \<Longrightarrow> obs t = obs s" "cmd_dec argv s = Some t \<Longrightarrow> obs t = obs s"
  "obs (cmd_cpu s) = obs s" "obs (cmd_arch s) = obs s" "obs (cmd_cls s) = obs s" "obs (cmd_banner s) = obs s"
  "obs (cmd_color argv s) = obs s" "obs (cmd_rainbow s) = obs s" "obs (cmd_print argv s) = obs s" "obs (cmd_say argv s) = obs s"
  "obs (cmd_shout argv s) = obs s" "obs (cmd_repeat argv s) = obs s" "obs (cmd_flip argv s) = obs s" "obs (cmd_upper argv s) = obs s"
  "obs (cmd_lower argv s) = obs s"
  by (auto simp: cmd_sysinfo_def cmd_ver_def cmd_runtime_def cmd_ram_def cmd_ticks_def cmd_count_def cmd_calc_def cmd_hex_def
      cmd_dec_def cmd_cpu_def cmd_arch_def cmd_cls_def cmd_banner_def banner_def cmd_color_def cmd_rainbow_def cmd_print_def
      cmd_say_def cmd_shout_def cmd_repeat_def cmd_flip_def cmd_upper_def cmd_lower_def obs_steps for_loop_obs
      split: if_splits dest!: obs_dest loop_obs)

lemma file_cmds_obs:
  "cmd_ls argv s = Some t \<Longrightarrow> obs t = obs s" "cmd_tree argv s = Some t \<Longrightarrow> obs t = obs s" "cmd_pwd s = Some t \<Longrightarrow> obs t = obs s"
  "cmd_stat argv s = Some t \<Longrightarrow> obs t = obs s" "cmd_touch argv s = Some t \<Longrightarrow> obs t = obs s" "cmd_mkdir argv s = Some t \<Longrightarrow> obs t = obs s"
  "cmd_rm argv s = Some t \<Longrightarrow> obs t = obs s" "cmd_cat argv s = Some t \<Longrightarrow> obs t = obs s" "cmd_wc argv s = Some t \<Longrightarrow> obs t = obs s"
  "cmd_head argv s = Some t \<Longrightarrow> obs t = obs s"
  by (auto simp: cmd_ls_def cmd_tree_def cmd_pwd_def cmd_stat_def cmd_touch_def cmd_mkdir_def cmd_rm_def cmd_cat_def cmd_wc_def
      cmd_head_def obs_steps split: if_splits option.splits prod.splits dest!: obs_dest loop_obs)

lemma ensure_obs [obs_dest]:
  "ensure_file (kp fmt args) (line m) p s = Some (b, t) \<Longrightarrow> obs t = obs s"
  "ensure_file Some id p s = Some (b, t) \<Longrightarrow> obs t = obs s"
  by (erule ensure_file_obs; auto dest!: obs_dest)+

lemma cmd_write_obs: "cmd_write argv s = Some t \<Longrightarrow> obs t = obs s"
  by (auto simp: cmd_write_def Let_def split: if_splits prod.splits elim!: bindE dest!: obs_dest)

lemma cmd_append_obs: "cmd_append argv s = Some t \<Longrightarrow> obs t = obs s"
  by (auto simp: cmd_append_def Let_def split: if_splits prod.splits option.splits elim!: bindE dest!: obs_dest)

lemma cmd_cp_obs: "cmd_cp argv s = Some t \<Longrightarrow> obs t = obs s"
  by (auto simp: cmd_cp_def Let_def split: if_splits prod.splits elim!: bindE dest!: obs_dest loop_obs)

lemmas write_cmds_obs = cmd_write_obs cmd_append_obs cmd_cp_obs

lemma sys_cmds_obs:
  "cmd_ps s = Some t \<Longrightarrow> obs t = obs s" "cmd_sleep w argv s = Some t \<Longrightarrow> obs t = obs s" "cmd_yield w s = Some t \<Longrightarrow> obs t = obs s"
  "cmd_whoami s = Some t \<Longrightarrow> obs t = obs s" "cmd_stack_reg w s = Some t \<Longrightarrow> obs t = obs s" "cmd_eflags w s = Some t \<Longrightarrow> obs t = obs s"
  "cmd_history s = Some t \<Longrightarrow> obs t = obs s" "cmd_hi s = Some t \<Longrightarrow> obs t = obs s" "cmd_stackquote s = Some t \<Longrightarrow> obs t = obs s"
  "cmd_drives s = Some t \<Longrightarrow> obs t = obs s" "cmd_mount w s = Some t \<Longrightarrow> obs t = obs s" "cmd_netinfo s = Some t \<Longrightarrow> obs t = obs s"
  "cmd_ping w argv s = Some t \<Longrightarrow> obs t = obs s" "cmd_dhcp w s = Some t \<Longrightarrow> obs t = obs s"
  "obs (cmd_os s) = obs s" "obs (cmd_credits s) = obs s" "obs (cmd_help s) = obs s"
  by (auto simp: cmd_ps_def proc_list_def cmd_sleep_def cmd_yield_def cmd_whoami_def cmd_stack_reg_def cmd_eflags_def
      cmd_history_def cmd_hi_def cmd_stackquote_def cmd_drives_def cmd_mount_def mount_at_disk_def cmd_netinfo_def cmd_ping_def cmd_dhcp_def
      cmd_os_def cmd_credits_def cmd_help_def help_section_def fold_obs Let_def
      split: if_splits option.splits prod.splits elim!: bindE dest!: obs_dest)

lemma root_cmds_obs:
  "cmd_cr0 w s = Some t \<Longrightarrow> obs t = obs s" "cmd_cr3 w s = Some t \<Longrightarrow> obs t = obs s"
  "cmd_shutdown s = Some t \<Longrightarrow> obs t = obs s" "cmd_reboot s = Some t \<Longrightarrow> obs t = obs s" "cmd_panic_test s = Some t \<Longrightarrow> obs t = obs s"
  "cmd_format w s = Some t \<Longrightarrow> obs t = obs s"
  by (auto simp: cmd_cr0_def cmd_cr3_def cmd_shutdown_def cmd_reboot_def cmd_panic_test_def halt_forever_def far_jump_def cmd_format_def mount_at_disk_def obs_steps
      split: if_splits option.splits prod.splits elim!: need_root_obs dest!: obs_dest)

section \<open>Who changes what\<close>

lemma if_SomeE: "(if c then a else b) = Some t \<Longrightarrow> (c \<Longrightarrow> a = Some t \<Longrightarrow> P) \<Longrightarrow> (\<not> c \<Longrightarrow> b = Some t \<Longrightarrow> P) \<Longrightarrow> P"
  by (cases c) auto

lemma injective: "Some a = Some t \<Longrightarrow> t = a" by simp

lemma some_obs: "Some a = Some t \<Longrightarrow> obs a = obs s \<Longrightarrow> obs t = obs s" by simp

lemma unknown_obs: "unknown_command c s = Some t \<Longrightarrow> obs t = obs s"
  by (auto simp: unknown_command_def elim!: bindE dest!: obs_dest)

lemmas quiet_cmds = text_cmds_obs file_cmds_obs write_cmds_obs sys_cmds_obs root_cmds_obs unknown_obs
lemmas total_cmds = text_cmds_obs(10-22) sys_cmds_obs(15-17)

text \<open>The commands that touch the accounts, the session or the directory are the ones listed here.\<close>

lemma dispatch_cases:
  assumes "dispatch w argv s = Some t"
  obtains (quiet) "obs t = obs s"
  | (cd) "cmd_cd argv s = Some t"
  | (up) "t = cmd_back s"
  | (login) "is_cmd (argv ! 0) ''login''" "cmd_login w s = Some t"
  | (logout) "t = cmd_logout s"
  | (users) "t = cmd_users s"
  | (useradd) "cmd_useradd argv s = Some t"
  | (userdel) "cmd_userdel argv s = Some t"
  | (passwd) "cmd_passwd argv s = Some t"
  | (elevate) "is_cmd (argv ! 0) ''elevate''" "cmd_elevate w s = Some t"
  | (lower) "is_cmd (argv ! 0) ''lower''" "t = cmd_frostdown s"
proof -
  show thesis
    using assms unfolding dispatch_def Let_def
    apply (elim if_SomeE)
    apply ((rule that(1), erule quiet_cmds) | (rule that(1), erule some_obs, rule total_cmds) 
      | (drule injective, erule that(11), assumption) | (drule injective, erule that(2-10)) | (erule that(4,10), assumption) | erule that(2-9))+
    done
qed

lemma drain_acc [simp]:
  "users (sh_acc (drain s)) = users (sh_acc s)" "user_count (sh_acc (drain s)) = user_count (sh_acc s)"
  "current_user (sh_acc (drain s)) = current_user (sh_acc s)"
  by (simp_all add: drain_def Let_def)

lemma vnode_free_acc [simp]:
  "users (sh_acc (vnode_free n s)) = users (sh_acc s)" "user_count (sh_acc (vnode_free n s)) = user_count (sh_acc s)"
  "current_user (sh_acc (vnode_free n s)) = current_user (sh_acc s)"
  by (simp_all add: vnode_free_def split: option.splits)

text \<open>Changing directory leaves everything else, and a change of the session leaves the rest.\<close>

lemma cmd_cd_spec:
  assumes "cmd_cd argv s = Some t"
  obtains "obs t = obs s" | p where "obs t = obs (s\<lparr>cwd := strip_end_slash p\<rparr>)"
    "p = str_copy (cwd s) (path_arg argv (lit ''/'')) VFS_PATH_MAX \<and> ch (path_arg argv (lit ''/'')) 0 = 0x2F \<or>
     join_path (cwd s) (path_arg argv (lit ''/'')) = Some p"
proof -
  let ?path = "path_arg argv (lit ''/'')"
  obtain d s1 where r: "resolve ?path s = Some (d, s1)" using assms by (auto simp: cmd_cd_def Let_def elim!: bindE)
  then have o1: "obs s1 = obs s" by (rule resolve_obs)
  obtain b where b: "dir_at d s1 = Some b" using assms r by (auto simp: cmd_cd_def Let_def elim!: bindE)
  show thesis
  proof (cases b)
    case False
    then have "obs t = obs s" using assms r b o1 by (auto simp: cmd_cd_def Let_def elim!: bindE dest!: obs_dest)
    then show ?thesis by (rule that(1))
  next
    case True
    have c: "cwd (vnode_free d s1) = cwd s" using o1 by (metis obs_def obs_ops(8) prod.inject)
    let ?c = "cwd (vnode_free d s1)"
    from True obtain p where p: "(if ch ?path 0 = 0x2F then Some (str_copy ?c ?path VFS_PATH_MAX) else join_path ?c ?path) = Some p"
      and t: "t = vnode_free d s1\<lparr>cwd := strip_end_slash p\<rparr>"
      using assms r b by (auto simp: cmd_cd_def Let_def elim!: bindE)
    have "obs t = obs (s\<lparr>cwd := strip_end_slash p\<rparr>)"
      using o1 obs_ops(8) [of d s1] unfolding t by (simp add: obs_def)
    then show ?thesis by (rule that(2)) (use p [unfolded c] in \<open>auto split: if_splits\<close>)
  qed
qed

lemma cmd_back_obs: "obs (cmd_back s) = obs (s\<lparr>cwd := cwd (cmd_back s)\<rparr>)"
  by (simp add: cmd_back_def Let_def obs_def)

text \<open>The privileges and the table do not depend on the session's other parts.\<close>

definition account_table :: "shell \<Rightarrow> user list \<times> nat" where
  "account_table s = (users (sh_acc s), user_count (sh_acc s))"

definition session :: "shell \<Rightarrow> nat option" where "session s = current_user (sh_acc s)"

lemma obs_views: "account_table s = (fst (fst (obs s)), fst (snd (fst (obs s))))" "session s = snd (snd (fst (obs s)))"
  by (simp_all add: obs_def account_table_def session_def)

lemma hist_push_acc [simp]: "sh_acc (hist_push ln s) = sh_acc s" "cwd (hist_push ln s) = cwd s"
  by (simp_all add: hist_push_def Let_def)

lemma log_in_table [simp]: "account_table (snd (log_in nm pass s)) = account_table s"
  by (simp add: log_in_def user_login_def account_table_def split: option.splits prod.splits)

lemma log_in_session:
  "session (snd (log_in nm pass s)) = session s \<or>
   (\<exists>i < user_count (sh_acc s). session (snd (log_in nm pass s)) = Some i \<and> matches nm pass (users (sh_acc s) ! i))"
  by (auto simp: log_in_def user_login_def session_def matches_def str_eq_iff first_from_Some split: option.splits prod.splits)

lemma cmd_login_session:
  assumes "cmd_login w s = Some t"
  obtains nm pass s1 where "obs s1 = obs s" "obs t = obs (snd (log_in nm pass s1))"
    "do { (name, s) \<leftarrow> read_line w USER_NAME_MAX (puts (lit ''username: '') s);
          (pass, s) \<leftarrow> read_pass w USER_PASS_MAX (puts (lit ''password: '') s); Some (name, pass) } = Some (nm, pass)"
proof -
  obtain nm s1 where 1: "read_line w USER_NAME_MAX (puts (lit ''username: '') s) = Some (nm, s1)"
    using assms by (auto simp: cmd_login_def elim!: bindE)
  obtain pass s2 where 2: "read_pass w USER_PASS_MAX (puts (lit ''password: '') s1) = Some (pass, s2)"
    using assms 1 by (auto simp: cmd_login_def elim!: bindE)
  have "obs s2 = obs s" using 1 2 by (auto dest!: obs_dest)
  moreover obtain ok s3 where 3: "log_in nm pass s2 = (ok, s3)" by fastforce
  moreover have "obs t = obs s3"
    using assms 1 2 3 by (auto simp: cmd_login_def split: if_splits elim!: bindE dest!: obs_dest)
  ultimately show ?thesis using 1 2 by (intro that [of s2 nm pass]) simp_all
qed

lemma cmd_elevate_session:
  assumes "cmd_elevate w s = Some t"
  obtains pass s1 where "obs s1 = obs s" "obs t = obs (snd (log_in (lit ''root'') pass s1))"
    "map_option fst (read_pass w USER_PASS_MAX (puts (lit ''root password: '') s)) = Some pass"
proof -
  obtain pass s1 where 1: "read_pass w USER_PASS_MAX (puts (lit ''root password: '') s) = Some (pass, s1)"
    using assms by (auto simp: cmd_elevate_def elim!: bindE)
  obtain ok s2 where 2: "log_in (lit ''root'') pass s1 = (ok, s2)" by fastforce
  have "obs s1 = obs s" using 1 by (auto dest!: obs_dest)
  moreover have "obs t = obs s2" using assms 1 2 by (auto simp: cmd_elevate_def elim!: bindE)
  ultimately show ?thesis using 1 2 by (intro that [of s1 pass]) simp_all
qed

lemma is_root_iff: "is_root s \<longleftrightarrow> (case session s of None \<Rightarrow> False | Some i \<Rightarrow> PRIV_ROOT \<le> u_priv (fst (account_table s) ! i))"
  by (simp add: is_root_def user_is_root_def session_def account_table_def split: option.splits)

lemma is_root_push [simp]: "is_root (hist_push ln s) = is_root s" by (simp add: is_root_def)

lemma obs_table: "obs t = obs s \<Longrightarrow> account_table t = account_table s" by (simp add: obs_views)

lemma obs_session: "obs t = obs s \<Longrightarrow> session t = session s" by (simp add: obs_views)

lemma cwd_views [simp]: "account_table (s\<lparr>cwd := p\<rparr>) = account_table s" "session (s\<lparr>cwd := p\<rparr>) = session s"
  by (simp_all add: account_table_def session_def)

lemma users_table [simp]: "account_table (cmd_users s) = account_table s" "session (cmd_users s) = session s"
  by (simp_all add: cmd_users_def account_table_def session_def user_list_def)

lemma logout_table [simp]: "account_table (cmd_logout s) = account_table s" "session (cmd_logout s) = None"
  by (simp_all add: cmd_logout_def account_table_def session_def user_logout_def line_def putc_def term1_def puts_def)

lemma frostdown_views:
  "account_table (cmd_frostdown s) = account_table s" "session (cmd_frostdown s) = session (snd (log_in (lit ''stack'') (lit ''stack'') s))"
proof -
  have "obs (cmd_frostdown s) = obs (snd (log_in (lit ''stack'') (lit ''stack'') s))" by (simp add: cmd_frostdown_def)
  note obs_table [OF this] obs_session [OF this]
  then show "account_table (cmd_frostdown s) = account_table s" "session (cmd_frostdown s) = session (snd (log_in (lit ''stack'') (lit ''stack'') s))"
    by simp_all
qed

lemma run_line_dispatch:
  assumes "run_line w ln s = Some t"
  obtains "t = s" | "t = hist_push ln s" | "tokenise MAX_ARGS ln \<noteq> []" "dispatch w (tokenise MAX_ARGS ln) (hist_push ln s) = Some t"
  using assms by (auto simp: run_line_def Let_def split: if_splits)

lemma need_root_table: "need_root f s = Some t \<Longrightarrow> \<not> is_root s \<Longrightarrow> account_table t = account_table s"
  by (rule obs_table) (rule need_root_denied)

lemma cd_table: "cmd_cd argv s = Some t \<Longrightarrow> account_table t = account_table s \<and> session t = session s"
proof (erule cmd_cd_spec)
  assume "obs t = obs s"
  then show ?thesis by (blast intro: obs_table obs_session)
next
  fix p assume "obs t = obs (s\<lparr>cwd := strip_end_slash p\<rparr>)"
  note obs_table [OF this] obs_session [OF this]
  then show ?thesis by simp
qed

lemma back_table: "account_table (cmd_back s) = account_table s \<and> session (cmd_back s) = session s"
  using obs_table [OF cmd_back_obs [of s]] obs_session [OF cmd_back_obs [of s]] by simp

lemma hist_push_views [simp]: "account_table (hist_push ln s) = account_table s" "session (hist_push ln s) = session s"
  by (simp_all add: account_table_def session_def)

lemma dispatch_table:
  assumes "dispatch w argv s = Some t" "\<not> is_root s"
  shows "account_table t = account_table s"
  using assms(1)
proof (cases rule: dispatch_cases)
  case login
  from login(2) obtain nm pass s1 where "obs s1 = obs s" "obs t = obs (snd (log_in nm pass s1))" by (rule cmd_login_session)
  then show ?thesis by (metis obs_table log_in_table)
next
  case elevate
  from elevate(2) obtain pass s1 where "obs s1 = obs s" "obs t = obs (snd (log_in (lit ''root'') pass s1))" by (rule cmd_elevate_session)
  then show ?thesis by (metis obs_table log_in_table)
next
  case useradd
  then show ?thesis using assms(2) by (simp add: cmd_useradd_def need_root_table)
next
  case userdel
  then show ?thesis using assms(2) by (simp add: cmd_userdel_def need_root_table)
next
  case passwd
  then show ?thesis using assms(2) by (simp add: cmd_passwd_def need_root_table)
next
  case quiet
  then show ?thesis by (rule obs_table)
qed (use cd_table back_table frostdown_views in simp_all)

text \<open>The state of a session of the user \<^verbatim>\<open>stack\<close>.\<close>

definition demo_acc :: accounts where
  "demo_acc = \<lparr>users = demo_users @ replicate 12 blank_user, user_count = 4, current_user = Some 1, afs = vfs_ready demo_fs (\<lambda>_ _. True)\<rparr>"

definition demo_shell :: shell where
  "demo_shell = \<lparr>sh_out = [], sh_kbd = kb_start, sh_waits = 0, sh_acc = demo_acc, sh_procs = demo_procs, sh_net = demo_net,
     sh_ata = demo_ata, sh_pmm = pmm_bss, sh_ticks = 0, cwd = 0x2F # replicate 511 0, history = replicate 50 (replicate CMD_BUF 0),
     hist_count = 0, hist_pos = 0, quote_at = 0\<rparr>"

definition demo_world :: world where
  "demo_world = \<lparr>key_irqs = (\<lambda>_. []), wait_ticks = (\<lambda>_. 0), net_dev = (\<lambda>_. 0), net_card = id, tick_irqs = (\<lambda>_. []), timer_runs = True,
     other_procs = Some, stack_junk = [], cpu_esp = 0, cpu_eflags = 0, cpu_cr0 = 0, cpu_cr3 = 0\<rparr>"

lemma is_cmd_lit: "0 \<notin> set (lit str) \<Longrightarrow> is_cmd c str \<longleftrightarrow> cstr c = lit str"
  by (simp add: is_cmd_def str_cmp_eq cstr_id)

lemma lit_simps: "lit [] = []" "lit (c # cs) = of_nat (of_char c) # lit cs"
  by (simp_all add: lit_def)

lemma demo_not_root: "\<not> is_root demo_shell"
  by (simp add: is_root_def user_is_root_def demo_shell_def demo_acc_def demo_users_def mk_user_def PRIV_ROOT_def word_le_nat_alt)

text \<open>
  C3. A user without root rights cannot change the accounts: whatever line is run, if the command
  returns then the table of users, with their names, passwords and privileges, is as before.
\<close>

theorem nonroot_keeps_accounts:
  assumes "run_line w ln s = Some t" "\<not> is_root s"
  shows "account_table t = account_table s"
  using assms(1)
proof (cases rule: run_line_dispatch)
  case 3
  then show ?thesis using dispatch_table [OF 3(2)] assms(2) by simp
qed simp_all

lemma run_cls: "run_line w (lit ''cls'') s = Some (cmd_cls (hist_push (lit ''cls'') s))"
proof -
  have "tokenise MAX_ARGS (lit ''cls'') = [lit ''cls'']"
    by (simp add: tokenise.simps lit_simps is_blank_def MAX_ARGS_def)
  then show ?thesis by (simp add: run_line_def dispatch_def is_cmd_lit lit_simps)
qed

lemma nonroot_keeps_accounts_witness:
  "account_table (cmd_cls (hist_push (lit ''cls'') demo_shell)) = account_table demo_shell"
  by (rule nonroot_keeps_accounts [OF run_cls demo_not_root])

text \<open>Changes of the accounts leave the session.\<close>

lemma users_save_current: "users_save a = Some b \<Longrightarrow> current_user b = current_user a"
  by (auto simp: users_save_def Let_def split: if_splits elim!: bindE)

lemma user_ops_current:
  "user_add nm pass priv a = Some (r, b) \<Longrightarrow> current_user b = current_user a"
  "user_del nm a = Some (r, b) \<Longrightarrow> current_user b = current_user a"
  "user_chpass nm pass a = Some (r, b) \<Longrightarrow> current_user b = current_user a"
  by (auto simp: user_add_def user_del_def user_chpass_def set_user_def Let_def split: if_splits option.splits dest!: users_save_current)

lemma on_acc_session:
  assumes "on_acc f s = Some (r, t)" "\<And>r b. f (sh_acc s) = Some (r, b) \<Longrightarrow> current_user b = current_user (sh_acc s)"
  shows "session t = session s"
  using assms by (auto simp: on_acc_def session_def)

lemma user_ops_session:
  "on_acc (user_add nm pass priv) s = Some (r, t) \<Longrightarrow> session t = session s"
  "on_acc (user_del nm) s = Some (r, t) \<Longrightarrow> session t = session s"
  "on_acc (user_chpass nm pass) s = Some (r, t) \<Longrightarrow> session t = session s"
  by (rule on_acc_session, assumption, rule user_ops_current, assumption)+

lemma user_cmds_session:
  "cmd_useradd argv s = Some t \<Longrightarrow> session t = session s"
  "cmd_userdel argv s = Some t \<Longrightarrow> session t = session s"
  "cmd_passwd argv s = Some t \<Longrightarrow> session t = session s"
  unfolding cmd_useradd_def cmd_userdel_def cmd_passwd_def need_root_def
  by (auto split: if_splits elim!: bindE dest!: kp_obs obs_session user_ops_session simp: obs_session [OF obs_ops(4)] obs_session [OF obs_ops(5)])

definition given :: "world \<Rightarrow> u8 list \<Rightarrow> shell \<Rightarrow> (u8 list \<times> u8 list) option" where
  "given w c s =
     (if is_cmd c ''login'' then
        do { (name, s) \<leftarrow> read_line w USER_NAME_MAX (puts (lit ''username: '') s);
             (pass, s) \<leftarrow> read_pass w USER_PASS_MAX (puts (lit ''password: '') s); Some (name, pass) }
      else if is_cmd c ''elevate'' then map_option (\<lambda>r. (lit ''root'', fst r)) (read_pass w USER_PASS_MAX (puts (lit ''root password: '') s))
      else if is_cmd c ''lower'' then Some (lit ''stack'', lit ''stack'')
      else None)"

lemma log_in_given:
  assumes "given w c s = Some (nm, pass)" "obs s1 = obs s" "obs t = obs (snd (log_in nm pass s1))" "session t \<noteq> session s"
  shows "\<exists>nm pass i. given w c s = Some (nm, pass) \<and> i < snd (account_table s) \<and> session t = Some i \<and> matches nm pass (fst (account_table s) ! i)"
proof -
  note tt = obs_table [OF assms(2)] obs_session [OF assms(2)] obs_session [OF assms(3)]
  with log_in_session [of nm pass s1] assms(1,4) show ?thesis by (auto simp: account_table_def)
qed

text \<open>
  C15. Sessions need credentials: if running a line leaves another user logged in than before, then the
  command was \<^verbatim>\<open>login\<close>, \<^verbatim>\<open>elevate\<close> or \<^verbatim>\<open>lower\<close>, and the new session is that of an active account whose
  name and password are those given: typed for \<^verbatim>\<open>login\<close>, \<^verbatim>\<open>root\<close> and the typed password for \<^verbatim>\<open>elevate\<close>,
  and \<^verbatim>\<open>stack\<close> twice for \<^verbatim>\<open>lower\<close>.
\<close>

theorem session_needs_credentials:
  assumes "run_line w ln s = Some t" "session t \<noteq> session s" "session t \<noteq> None"
  shows "\<exists>nm pass i. given w (tokenise MAX_ARGS ln ! 0) (hist_push ln s) = Some (nm, pass) \<and>
    i < snd (account_table s) \<and> session t = Some i \<and> matches nm pass (fst (account_table s) ! i)"
  using assms(1)
proof (cases rule: run_line_dispatch)
  case 3
  let ?s = "hist_push ln s" and ?c = "tokenise MAX_ARGS ln ! 0"
  have ne: "session t \<noteq> session ?s" using assms(2) by simp
  have given_case: ?thesis if "given w ?c ?s = Some (nm, pass)" "obs s1 = obs ?s" "obs t = obs (snd (log_in nm pass s1))" for nm pass s1
    using log_in_given [OF that ne] by simp
  from 3(2) show ?thesis
  proof (cases rule: dispatch_cases)
    case login
    from login(2) show ?thesis
      by (rule cmd_login_session) (rule given_case, use login(1) in \<open>simp_all add: given_def\<close>)
  next
    case elevate
    have n: "\<not> is_cmd ?c ''login''" using elevate(1) by (simp add: is_cmd_lit lit_simps)
    from elevate(2) show ?thesis
      by (rule cmd_elevate_session) (rule given_case, use elevate(1) n in \<open>auto simp: given_def\<close>)
  next
    case lower
    have n: "\<not> is_cmd ?c ''login''" "\<not> is_cmd ?c ''elevate''" using lower(1) by (simp_all add: is_cmd_lit lit_simps)
    show ?thesis
      by (rule given_case [of "lit ''stack''" "lit ''stack''" ?s]) (use lower n in \<open>simp_all add: given_def cmd_frostdown_def\<close>)
  next
    case quiet
    then show ?thesis using ne obs_session by blast
  qed (use ne assms(3) cd_table back_table user_cmds_session in auto)
qed (use assms in simp_all)

definition guest_shell :: shell where "guest_shell = demo_shell\<lparr>sh_acc := demo_acc\<lparr>current_user := None\<rparr>\<rparr>"

lemma run_lower: "run_line w (lit ''lower'') s = Some (cmd_frostdown (hist_push (lit ''lower'') s))"
proof -
  have "tokenise MAX_ARGS (lit ''lower'') = [lit ''lower'']"
    by (simp add: tokenise.simps lit_simps is_blank_def MAX_ARGS_def)
  then show ?thesis by (simp add: run_line_def dispatch_def is_cmd_lit lit_simps)
qed

lemma demo_log_in: "session (snd (log_in (lit ''stack'') (lit ''stack'') (guest_shell\<lparr>hist_count := n, hist_pos := i, history := h\<rparr>))) = Some 1"
proof -
  let ?P = "\<lambda>i. u_active (users demo_acc ! i) \<and> str_eq (u_name (users demo_acc ! i)) (lit ''stack'') \<and>
    str_eq (u_pass (users demo_acc ! i)) (lit ''stack'')"
  have "\<not> ?P 0" "?P 1"
    by (simp_all add: demo_acc_def demo_users_def str_eq_iff mk_user_fields lit_simps)
  then have "first_from ?P 0 4 = Some 1" by (auto simp: first_from_Some less_Suc_eq)
  then show ?thesis by (simp add: log_in_def user_login_def guest_shell_def session_def demo_acc_def)
qed

lemma session_needs_credentials_witness:
  "\<exists>nm pass i. given demo_world (tokenise MAX_ARGS (lit ''lower'') ! 0) (hist_push (lit ''lower'') guest_shell) = Some (nm, pass) \<and>
     i < snd (account_table guest_shell) \<and> session (cmd_frostdown (hist_push (lit ''lower'') guest_shell)) = Some i \<and>
     matches nm pass (fst (account_table guest_shell) ! i)"
proof -
  obtain h n i where p: "hist_push (lit ''lower'') guest_shell = guest_shell\<lparr>hist_count := n, hist_pos := i, history := h\<rparr>"
    by (simp add: hist_push_def Let_def lit_simps guest_shell_def demo_shell_def)
  have "session (cmd_frostdown (hist_push (lit ''lower'') guest_shell)) = Some 1"
    unfolding frostdown_views p by (rule demo_log_in)
  moreover have "session guest_shell = None" by (simp add: session_def guest_shell_def)
  ultimately show ?thesis using session_needs_credentials [OF run_lower, of guest_shell demo_world] by simp
qed

section \<open>The working directory\<close>

text \<open>The directory's buffer holds an absolute path.\<close>

definition cwd_ok :: "u8 list \<Rightarrow> bool" where
  "cwd_ok c \<longleftrightarrow> length c = VFS_PATH_MAX \<and> length (cstr c) < VFS_PATH_MAX \<and> (\<exists>p. cstr c = 0x2F # p)"

lemma cstr_prefix: "0 \<notin> set a \<Longrightarrow> cstr (a @ b) = a @ cstr b"
  by (induction a) auto

lemma take_cstr: "take (length (cstr c)) c = cstr c"
  by (induction c) auto

lemma cstr_cut: "k \<le> length (cstr c) \<Longrightarrow> k < length c \<Longrightarrow> cstr (c[k := 0]) = take k (cstr c)"
proof (induction c arbitrary: k)
  case (Cons x c)
  then show ?case by (cases k) (auto split: if_splits)
qed simp

lemma str_copy_cwd: "length d = VFS_PATH_MAX \<Longrightarrow> ch path 0 = 0x2F \<Longrightarrow> cwd_ok (str_copy d path VFS_PATH_MAX)"
  using str_copy_props [of VFS_PATH_MAX d path] by (cases path) (auto simp: cwd_ok_def VFS_PATH_MAX_def)

lemma strip_cwd: "cwd_ok p \<Longrightarrow> cwd_ok (strip_end_slash p)"
proof -
  assume p: "cwd_ok p"
  then obtain q where q: "cstr p = 0x2F # q" by (auto simp: cwd_ok_def)
  show ?thesis
  proof (cases "1 < str_len p \<and> ch p (str_len p - 1) = 0x2F")
    case True
    then have "cstr (p[str_len p - 1 := 0]) = take (str_len p - 1) (cstr p)"
      using p by (intro cstr_cut) (auto simp: str_len_eq cwd_ok_def)
    with True p q show ?thesis by (cases "length q") (auto simp: strip_end_slash_def cwd_ok_def str_len_eq)
  qed (use p in \<open>auto simp: strip_end_slash_def\<close>)
qed

text \<open>Joining a relative path overruns the buffer exactly when the directory fills it without a final slash.\<close>

lemma join_path_overrun:
  assumes "cwd_ok c"
  shows "join_path c path = None \<longleftrightarrow> length (cstr c) = VFS_PATH_MAX - 1 \<and> last (cstr c) \<noteq> 0x2F"
proof -
  obtain q where q: "cstr c = 0x2F # q" and l: "length c = 512" "length (cstr c) < 512" using assms by (auto simp: cwd_ok_def VFS_PATH_MAX_def)
  have "ch c (length (cstr c) - 1) = last (cstr c)"
  proof -
    have "c ! (length (cstr c) - 1) = take (length (cstr c)) c ! (length (cstr c) - 1)" using q by simp
    also have "\<dots> = last (cstr c)" unfolding take_cstr using q by (simp add: last_conv_nth)
    finally show ?thesis using l less_imp_diff_less by (simp add: ch_def)
  qed
  then show ?thesis using q l by (auto simp: join_path_def str_len_eq Let_def VFS_PATH_MAX_def split: prod.split)
qed

lemma join_path_cwd:
  assumes c: "cwd_ok c" and j: "join_path c path = Some p"
  shows "cwd_ok p"
proof -
  define cl where "cl = length (cstr c)"
  have len: "length c = 512" "cl < 512" and z: "0 \<notin> set (cstr c)" using c cstr_no_nul by (auto simp: cwd_ok_def cl_def VFS_PATH_MAX_def)
  obtain q where q: "cstr c = 0x2F # q" using c by (auto simp: cwd_ok_def)
  have t: "take cl c = cstr c" by (simp add: cl_def take_cstr)
  obtain a d where p: "p = a @ str_copy d path (512 - length a)" and a: "a = cstr c \<or> a = cstr c @ [0x2F]"
    and d: "length d = 512 - length a" "length a < 512"
  proof (cases "ch c (cl - 1) \<noteq> 0x2F")
    case True
    then have cl1: "cl + 1 < 512" using j by (auto simp: join_path_def Let_def str_len_eq cl_def VFS_PATH_MAX_def split: if_splits)
    have "take (cl + 1) (c[cl := 0x2F, cl + 1 := 0]) = cstr c @ [0x2F]"
    proof -
      have "take (cl + 1) (c[cl := 0x2F, cl + 1 := 0]) = take cl c @ [c[cl := 0x2F, cl + 1 := 0] ! cl]"
        using take_Suc_conv_app_nth [of cl "c[cl := 0x2F, cl + 1 := 0]"] len cl1 by simp
      then show ?thesis using t len cl1 by simp
    qed
    then have "p = (cstr c @ [0x2F]) @ str_copy (drop (cl + 1) (c[cl := 0x2F, cl + 1 := 0])) path (512 - (cl + 1))"
      using j True cl1 by (auto simp: join_path_def Let_def str_len_eq cl_def VFS_PATH_MAX_def split: if_splits)
    moreover have "length (drop (cl + 1) (c[cl := 0x2F, cl + 1 := 0])) = 512 - (cl + 1)" using len by simp
    ultimately show ?thesis
      by (intro that [of "cstr c @ [0x2F]" "drop (cl + 1) (c[cl := 0x2F, cl + 1 := 0])"]) (use cl1 in \<open>auto simp: cl_def [symmetric]\<close>)
  next
    case False
    then have "p = cstr c @ str_copy (drop cl c) path (512 - cl)"
      using j t by (auto simp: join_path_def Let_def str_len_eq cl_def VFS_PATH_MAX_def split: if_splits)
    then show ?thesis by (intro that [of "cstr c" "drop cl c"]) (use len in \<open>auto simp: cl_def [symmetric]\<close>)
  qed
  have "0 \<notin> set a" using a z by auto
  then have "cstr p = a @ take (512 - length a - 1) (cstr path)"
    unfolding p using d by (simp add: cstr_prefix str_copy_props)
  moreover have "length p = 512" unfolding p using d by (simp add: str_copy_props)
  ultimately show ?thesis using a q d by (auto simp: cwd_ok_def VFS_PATH_MAX_def)
qed

lemma slash_down_Some: "slash_down p n = Some i \<Longrightarrow> 0 < i \<and> i \<le> n \<and> p ! i = 0x2F"
  by (induction n) (auto split: if_splits)

lemma back_cwd: "cwd_ok (cwd s) \<Longrightarrow> cwd_ok (cwd (cmd_back s))"
proof -
  assume c: "cwd_ok (cwd s)"
  then obtain q where q: "cstr (cwd s) = 0x2F # q" by (auto simp: cwd_ok_def)
  show ?thesis
  proof (cases "slash_down (cwd s) (str_len (cwd s) - 1)")
    case None
    then show ?thesis using c q by (auto simp: cmd_back_def Let_def str_len_eq)
  next
    case (Some i)
    then have i: "0 < i" "i < length (cstr (cwd s))" using slash_down_Some [OF Some] q by (auto simp: str_len_eq)
    then have k: "cstr ((cwd s)[i := 0]) = take i (cstr (cwd s))"
      using c by (intro cstr_cut) (auto simp: cwd_ok_def)
    then show ?thesis using Some c q i by (cases i) (auto simp: cmd_back_def Let_def str_len_eq cwd_ok_def)
  qed
qed

lemma obs_cwd: "obs t = obs s \<Longrightarrow> cwd t = cwd s" by (simp add: obs_def)

lemma on_acc_cwd: "on_acc f s = Some (r, t) \<Longrightarrow> cwd t = cwd s"
  by (auto simp: on_acc_def drain_def Let_def)

lemma log_in_cwd [simp]: "cwd (snd (log_in nm pass s)) = cwd s" by (simp add: log_in_def split: prod.splits)

lemma user_cmds_cwd:
  "cmd_useradd argv s = Some t \<Longrightarrow> cwd t = cwd s"
  "cmd_userdel argv s = Some t \<Longrightarrow> cwd t = cwd s"
  "cmd_passwd argv s = Some t \<Longrightarrow> cwd t = cwd s"
  unfolding cmd_useradd_def cmd_userdel_def cmd_passwd_def need_root_def
  by (auto split: if_splits elim!: bindE dest!: kp_obs obs_cwd on_acc_cwd simp: obs_cwd [OF obs_ops(4)] obs_cwd [OF obs_ops(5)])

lemma acc_cmds_cwd: "cwd (cmd_logout s) = cwd s" "cwd (cmd_users s) = cwd s" "cwd (cmd_frostdown s) = cwd s"
  by (simp_all add: cmd_logout_def cmd_users_def cmd_frostdown_def obs_cwd [OF obs_ops(4)] obs_cwd [OF obs_ops(7)])

lemma dispatch_cwd:
  assumes "dispatch w argv s = Some t" "cwd_ok (cwd s)"
  shows "cwd_ok (cwd t)"
  using assms(1)
proof (cases rule: dispatch_cases)
  case quiet
  then show ?thesis using assms(2) obs_cwd by metis
next
  case cd
  then show ?thesis
  proof (cases rule: cmd_cd_spec)
    case 1
    then show ?thesis using assms(2) obs_cwd by metis
  next
    case (2 p)
    have "length (cwd s) = VFS_PATH_MAX" using assms(2) by (simp add: cwd_ok_def)
    with 2(2) have "cwd_ok p" using join_path_cwd [OF assms(2)] by (auto intro: str_copy_cwd)
    then show ?thesis using strip_cwd obs_cwd [OF 2(1)] by simp
  qed
next
  case login
  from login(2) obtain nm pass s1 where "obs s1 = obs s" "obs t = obs (snd (log_in nm pass s1))" by (rule cmd_login_session)
  then show ?thesis using assms(2) by (metis obs_cwd log_in_cwd)
next
  case elevate
  from elevate(2) obtain pass s1 where "obs s1 = obs s" "obs t = obs (snd (log_in (lit ''root'') pass s1))" by (rule cmd_elevate_session)
  then show ?thesis using assms(2) by (metis obs_cwd log_in_cwd)
qed (use assms(2) back_cwd user_cmds_cwd acc_cmds_cwd in auto)

lemma print_prompt_obs [simp]: "obs (print_prompt s) = obs s"
  by (simp add: print_prompt_def Let_def)

lemma show_banner_obs [obs_dest]: "show_banner s = Some t \<Longrightarrow> obs t = obs s"
  by (auto simp: show_banner_def banner_def Let_def split: if_splits elim!: bindE dest!: obs_dest)

lemma run_line_cwd:
  assumes "run_line w ln s = Some t" "cwd_ok (cwd s)"
  shows "cwd_ok (cwd t)"
  using assms(1)
proof (cases rule: run_line_dispatch)
  case 3
  then show ?thesis using dispatch_cwd [OF 3(2)] assms(2) by simp
qed (use assms(2) in simp_all)

lemma reach_cwd:
  assumes "prompt_reach w s0 s" "cwd_ok (cwd s0)"
  shows "cwd_ok (cwd s)"
  using assms
proof (induction rule: prompt_reach.induct)
  case (start s)
  then obtain s1 where "show_banner s0 = Some s1" "s = snd (log_in (lit ''stack'') (lit ''stack'') s1)"
    by (auto simp: shell_start_def elim!: bindE)
  then have "cwd s = cwd s0" using obs_cwd [OF show_banner_obs] by simp
  then show ?case using start(2) by simp
next
  case (turn s t)
  from turn(2) obtain ln s1 where r: "read_line w CMD_BUF (print_prompt s) = Some (ln, s1)" "run_line w ln s1 = Some t"
    by (auto simp: shell_turn_def elim!: bindE)
  have "cwd s1 = cwd s" using obs_cwd [OF read_line_obs [OF r(1)]] obs_cwd [OF print_prompt_obs] by simp
  then show ?case using run_line_cwd [OF r(2)] turn by simp
qed

text \<open>
  C36. The working directory is the absolute path of a terminated string, up to the first overrun of a
  path buffer, and the one way to such an overrun. Whatever is typed, in every state at the prompt
  that is reached without one, the buffer \<^verbatim>\<open>cwd\<close> is 512 bytes long, holds its terminator, and its string
  begins with a slash (so \<^verbatim>\<open>kstrlen(cwd)\<close> stays in the buffer); and joining a path to it, in \<^verbatim>\<open>cd\<close> and
  \<^verbatim>\<open>resolve\<close>, overruns the buffer exactly when the directory has 511 characters and does not end in a
  slash. There the code writes behind the buffer, which nothing here describes: the model ends.
\<close>

theorem cwd_stays_absolute:
  assumes "prompt_reach w s0 s" "cwd_ok (cwd s0)"
  shows "cwd_ok (cwd s) \<and> (join_path (cwd s) path = None \<longleftrightarrow> length (cstr (cwd s)) = 511 \<and> last (cstr (cwd s)) \<noteq> 0x2F)"
proof -
  have "cwd_ok (cwd s)" using reach_cwd [OF assms] .
  then show ?thesis using join_path_overrun by (simp add: VFS_PATH_MAX_def)
qed

lemma cstr_zeros [simp]: "cstr (replicate n 0) = []" by (cases n) auto

lemma kp_total: "kprintf fmt args \<noteq> None \<Longrightarrow> \<exists>t. kp fmt args s = Some t" by (auto simp: kp_def)

lemma demo_start: "\<exists>s. shell_start demo_shell = Some s"
proof -
  have k1: "kprintf (lit ''  StackOS %s  |  type '' @ [39] @ lit ''help'' @ [39] @ [10]) [KStr (Some VERSION)] \<noteq> None"
    and k2: "kprintf (lit ''  Disk: /disk (%s)'' @ [10]) [KStr (Some v)] \<noteq> None" for v
    by (simp_all add: lit_simps)
  obtain s1 where s1: "kp (lit ''  StackOS %s  |  type '' @ [39] @ lit ''help'' @ [39] @ [10]) [KStr (Some VERSION)]
      (color VGA_COLOR_WHITE (putc 10 (banner demo_shell))) = Some s1" using kp_total [OF k1] by blast
  obtain s2 where s2: "kp (lit ''  Disk: /disk (%s)'' @ [10]) [KStr (Some (lit (ata_position (sh_ata (color VGA_COLOR_LIGHT_GREY s1)))))]
      (color VGA_COLOR_LIGHT_GREY s1) = Some s2" using kp_total [OF k2] by blast
  show ?thesis unfolding shell_start_def show_banner_def Let_def s1 s2 bind.bind_lunit by simp
qed

lemma cwd_stays_absolute_witness: "\<exists>s. prompt_reach demo_world demo_shell s \<and> cwd_ok (cwd s)"
proof -
  obtain s where "shell_start demo_shell = Some s" using demo_start by blast
  then have "prompt_reach demo_world demo_shell s" by (rule prompt_reach.start)
  moreover have "cwd_ok (cwd demo_shell)" by (simp add: cwd_ok_def demo_shell_def VFS_PATH_MAX_def)
  ultimately show ?thesis using cwd_stays_absolute by blast
qed

end
