(* ===== verification/Sh_Edit.thy ===== *)
theory Sh_Edit
  imports Sh_Props
begin

text \<open>
  The line editor, the history and the command line: what is typed is the line that is read, the up
  key recalls the lines before, and the words of the line reach the command.
\<close>

section \<open>Editing\<close>

text \<open>Keys that are stored or delete the character before, and the line and the echo they give.\<close>

definition plain :: "u8 \<Rightarrow> bool" where "plain c \<longleftrightarrow> c \<notin> {0, 10, 13, 0x0C, 3, 0xE0}"

fun edited :: "nat \<Rightarrow> u8 list \<Rightarrow> u8 list \<Rightarrow> u8 list" where
  "edited lim ln [] = ln"
| "edited lim ln (c # cs) =
     edited lim (if c = 8 then butlast ln else if length ln < lim - 1 then ln @ [c] else ln) cs"

fun echoed :: "nat \<Rightarrow> u8 list \<Rightarrow> u8 list \<Rightarrow> u8 list" where
  "echoed lim ln [] = []"
| "echoed lim ln (c # cs) =
     (if c = 8 then (if ln = [] then [] else [8]) @ echoed lim (butlast ln) cs
      else if length ln < lim - 1 then c # echoed lim (ln @ [c]) cs else echoed lim ln cs)"

lemma uint_u8_eq: "uint (c :: u8) = uint d \<longleftrightarrow> c = d" by (simp add: word_uint_eq_iff)

lemma edit_line_plain:
  assumes "plain c"
  shows "edit_line lim (uint c) ln s =
    (if c = 8 then (if ln = [] then (More ln, s) else (More (butlast ln), putc 8 s))
     else if length ln < lim - 1 then (More (ln @ [c]), putc c s) else (More ln, s))"
proof -
  have ne: "uint c = n \<longleftrightarrow> c = word_of_int n" if "0 \<le> n" "n < 256" for n
  proof
    assume "uint c = n"
    then have "word_of_int (uint c) = (word_of_int n :: u8)" by (rule arg_cong)
    then show "c = word_of_int n" by simp
  next
    assume "c = word_of_int n"
    then show "uint c = n" using that by (simp add: uint_word_of_int)
  qed
  have "uint c < 256" using uint_lt2p [of c] by simp
  moreover have "uint c \<noteq> 0" using assms ne [of 0] by (simp add: plain_def)
  then have "0 < uint c" using uint_ge_0 [of c] by linarith
  ultimately show ?thesis using assms ne [of 10] ne [of 13] ne [of 12] ne [of 3] ne [of 8]
    by (auto simp: edit_line_def plain_def KEY_UP_def KEY_DOWN_def)
qed

lemma getchar_ring:
  assumes "ring_ok (sh_kbd s)" "ring_items (sh_kbd s) = c # cs" "c \<noteq> 0"
  obtains k where "getchar w s = Some (c, s\<lparr>sh_kbd := k, sh_waits := sh_waits s + 1, sh_ticks := sh_ticks s + wait_ticks w (sh_waits s)\<rparr>)"
    "ring_ok k" "ring_items k = cs"
proof -
  obtain k where k: "keyboard_poll (sh_kbd s) = (c, k)" "ring_ok k" "ring_items k = cs" using poll_items [OF assms(1,2)] by blast
  then have "keyboard_getchar irqs (sh_kbd s) = Some (c, k)" for irqs using assms(3) by simp
  then show ?thesis using k that by (simp add: getchar_def)
qed

text \<open>A key that is read: the state is as before but for the keyboard and the time.\<close>

definition same_text :: "shell \<Rightarrow> shell \<Rightarrow> bool" where
  "same_text s t \<longleftrightarrow> obs t = obs s \<and> sh_out t = sh_out s \<and> hist_pos t = hist_pos s"

lemma read_key_ring:
  assumes "ring_ok (sh_kbd s)" "ring_items (sh_kbd s) = c # cs" "c \<noteq> 0" "c \<noteq> 0xE0"
  obtains t where "read_key w s = Some (uint c, t)" "ring_ok (sh_kbd t)" "ring_items (sh_kbd t) = cs" "same_text s t"
proof -
  from getchar_ring [OF assms(1-3)] obtain k where
    "getchar w s = Some (c, s\<lparr>sh_kbd := k, sh_waits := sh_waits s + 1, sh_ticks := sh_ticks s + wait_ticks w (sh_waits s)\<rparr>)"
    "ring_ok k" "ring_items k = cs" .
  with assms(4) show ?thesis
    by (intro that [of "s\<lparr>sh_kbd := k, sh_waits := sh_waits s + 1, sh_ticks := sh_ticks s + wait_ticks w (sh_waits s)\<rparr>"])
      (simp_all add: read_key_def same_text_def)
qed

lemma read_key_up:
  assumes "ring_ok (sh_kbd s)" "ring_items (sh_kbd s) = 0xE0 # 0x48 # cs"
  obtains t where "read_key w s = Some (KEY_UP, t)" "ring_ok (sh_kbd t)" "ring_items (sh_kbd t) = cs" "same_text s t"
proof -
  from getchar_ring [OF assms] obtain k where
    1: "getchar w s = Some (0xE0, s\<lparr>sh_kbd := k, sh_waits := sh_waits s + 1, sh_ticks := sh_ticks s + wait_ticks w (sh_waits s)\<rparr>)" (is "_ = Some (_, ?s1)")
    "ring_ok k" "ring_items k = 0x48 # cs" by auto
  from 1 have "ring_ok (sh_kbd ?s1)" "ring_items (sh_kbd ?s1) = 0x48 # cs" by simp_all
  from getchar_ring [OF this] obtain k2 where
    2: "getchar w ?s1 = Some (0x48, ?s1\<lparr>sh_kbd := k2, sh_waits := sh_waits ?s1 + 1, sh_ticks := sh_ticks ?s1 + wait_ticks w (sh_waits ?s1)\<rparr>)" (is "_ = Some (_, ?s2)")
    "ring_ok k2" "ring_items k2 = cs" by auto
  have "read_key w s = Some (KEY_UP, ?s2)" using 1(1) 2(1) by (simp add: read_key_def extended_key_def)
  moreover have "same_text s ?s2" by (simp add: same_text_def)
  ultimately show ?thesis using 2 by (intro that [of ?s2]) simp_all
qed

lemma same_text_kbd:
  "same_text s t \<Longrightarrow> sh_out t = sh_out s" "same_text s t \<Longrightarrow> obs t = obs s" "same_text s t \<Longrightarrow> hist_pos t = hist_pos s"
  by (simp_all add: same_text_def)

lemma putc_fields [simp]: "sh_out (putc c s) = sh_out s @ [Put c]" "sh_kbd (putc c s) = sh_kbd s" "hist_pos (putc c s) = hist_pos s"
  by (simp_all add: putc_def term1_def)

lemma enter_key: "edit_line lim (uint (10 :: u8)) ln s = (Line ln, putc 10 s)"
  by (simp add: edit_line_def)

lemma read_line_loop_plain:
  assumes "ring_ok (sh_kbd s)" "ring_items (sh_kbd s) = ks @ 10 # cs" "\<forall>c \<in> set ks. plain c"
  shows "\<exists>t. read_line_loop w lim ln s = Some (edited lim ln ks, t) \<and> sh_out t = sh_out s @ map Put (echoed lim ln ks @ [10]) \<and>
    ring_ok (sh_kbd t) \<and> ring_items (sh_kbd t) = cs"
  using assms
proof (induction ks arbitrary: ln s)
  case Nil
  obtain t where t: "read_key w s = Some (uint (10 :: u8), t)" "ring_ok (sh_kbd t)" "ring_items (sh_kbd t) = cs" "same_text s t"
    using read_key_ring [of s 10 cs] Nil by auto
  have "read_line_loop w lim ln s = Some (ln, putc 10 t)"
    unfolding read_line_loop.simps [of w lim ln s] t(1) enter_key [of lim ln t] bind.bind_lunit prod.case edit.case ..
  then show ?case using t by (simp add: same_text_def)
next
  case (Cons c ks)
  have p: "plain c" and "c \<noteq> 0" "c \<noteq> 0xE0" using Cons.prems(3) by (auto simp: plain_def)
  then obtain t where t: "read_key w s = Some (uint c, t)" "ring_ok (sh_kbd t)" "ring_items (sh_kbd t) = ks @ 10 # cs" "same_text s t"
    using read_key_ring [of s c "ks @ 10 # cs"] Cons.prems by auto
  obtain ln' t' where e: "edit_line lim (uint c) ln t = (More ln', t')" and
    r: "sh_kbd t' = sh_kbd t" "edited lim ln (c # ks) = edited lim ln' ks" "sh_out t' @ map Put (echoed lim ln' ks @ [10]) = sh_out t @ map Put (echoed lim ln (c # ks) @ [10])"
    using edit_line_plain [OF p, of lim ln t] by (auto split: if_splits)
  have "read_line_loop w lim ln s = read_line_loop w lim ln' t'"
    unfolding read_line_loop.simps [of w lim ln s] t(1) bind.bind_lunit prod.case e edit.case ..
  moreover have "\<exists>u. read_line_loop w lim ln' t' = Some (edited lim ln' ks, u) \<and> sh_out u = sh_out t' @ map Put (echoed lim ln' ks @ [10]) \<and>
      ring_ok (sh_kbd u) \<and> ring_items (sh_kbd u) = cs"
    by (rule Cons.IH) (use t r Cons.prems(3) in auto)
  ultimately show ?case using r t(4) by (auto simp: same_text_def)
qed

text \<open>
  C38. The line editor returns what was typed. For any keys other than the editing keys beside
  backspace, the line that \<^verbatim>\<open>read_line\<close> returns is the keys in order, with each backspace deleting the
  character before it and no more than \<^verbatim>\<open>max-1\<close> characters kept; the terminal has got the stored
  characters, the deletions and the newline, and the keys behind the line are left for the next one.
\<close>

theorem read_line_edits:
  assumes "ring_ok (sh_kbd s)" "ring_items (sh_kbd s) = ks @ 10 # cs" "\<forall>c \<in> set ks. plain c"
  shows "\<exists>t. read_line w lim s = Some (edited lim [] ks, t) \<and> sh_out t = sh_out s @ map Put (echoed lim [] ks @ [10]) \<and>
    ring_ok (sh_kbd t) \<and> ring_items (sh_kbd t) = cs"
  using read_line_loop_plain [of "s\<lparr>hist_pos := hist_count s\<rparr>" ks cs w lim "[]"] assms by (simp add: read_line_def)

text \<open>A text without backspaces that fits is the line and its echo.\<close>

lemma edited_text:
  "8 \<notin> set ks \<Longrightarrow> length ln + length ks < lim \<Longrightarrow> edited lim ln ks = ln @ ks \<and> echoed lim ln ks = ks"
  by (induction ks arbitrary: ln) auto

section \<open>The words of a line\<close>

text \<open>The pieces between the blanks, the empty ones included.\<close>

fun pieces :: "u8 list \<Rightarrow> u8 list list" where
  "pieces [] = [[]]"
| "pieces (c # cs) = (if is_blank c then [] # pieces cs else (case pieces cs of w # ws \<Rightarrow> (c # w) # ws | [] \<Rightarrow> [[c]]))"

lemma pieces_ne: "pieces p \<noteq> []"
  by (cases p) (auto split: list.splits)

lemma pieces_hd: "pieces p = takeWhile (\<lambda>c. \<not> is_blank c) p # tl (pieces p)"
  by (induction p) (auto split: list.splits simp: pieces_ne)

lemma pieces_tl: "tl (pieces p) = (if dropWhile (\<lambda>c. \<not> is_blank c) p = [] then [] else pieces (drop 1 (dropWhile (\<lambda>c. \<not> is_blank c) p)))"
  by (induction p) (auto split: list.splits simp: pieces_ne)

lemma pieces_blank: "filter (\<lambda>w. w \<noteq> []) (pieces (dropWhile is_blank p)) = filter (\<lambda>w. w \<noteq> []) (pieces p)"
  by (induction p) auto

lemma tokenise_split: "tokenise n p = take n (filter (\<lambda>w. w \<noteq> []) (pieces p))"
proof (induction n p rule: tokenise.induct)
  case (1 n p)
  define q where "q = dropWhile is_blank p"
  have e: "filter (\<lambda>w. w \<noteq> []) (pieces p) = filter (\<lambda>w. w \<noteq> []) (pieces q)" by (simp add: q_def pieces_blank)
  show ?case
  proof (cases "q = [] \<or> n = 0")
    case True
    then show ?thesis unfolding e by (subst tokenise.simps) (auto simp: q_def [symmetric])
  next
    case False
    let ?w = "takeWhile (\<lambda>c. \<not> is_blank c) q" and ?r = "drop 1 (dropWhile (\<lambda>c. \<not> is_blank c) q)"
    have "\<not> is_blank (hd q)" using False hd_dropWhile q_def by metis
    then have w: "?w \<noteq> []" using False by (cases q) auto
    have "filter (\<lambda>w. w \<noteq> []) (tl (pieces q)) = filter (\<lambda>w. w \<noteq> []) (pieces ?r)"
      by (cases "dropWhile (\<lambda>c. \<not> is_blank c) q = []") (simp_all add: pieces_tl del: dropWhile_eq_Nil_conv)
    then have "filter (\<lambda>w. w \<noteq> []) (pieces q) = ?w # filter (\<lambda>w. w \<noteq> []) (pieces ?r)"
      using w by (subst pieces_hd) simp
    moreover have "tokenise n p = ?w # tokenise (n - 1) ?r"
      using False by (subst tokenise.simps) (simp add: q_def [symmetric])
    moreover have "tokenise (n - 1) ?r = take (n - 1) (filter (\<lambda>w. w \<noteq> []) (pieces ?r))" using 1 False by (simp add: q_def)
    ultimately show ?thesis using False unfolding e by (cases n) simp_all
  qed
qed

text \<open>
  \<^verbatim>\<open>tokenise\<close> splits at blanks: its result is the nonempty pieces of the line between blanks and
  tabs, in order, up to the given number of them.
\<close>

theorem tokenise_pieces: "tokenise n p = take n (filter (\<lambda>w. w \<noteq> []) (pieces p))"
  by (rule tokenise_split)

fun unwords :: "u8 list list \<Rightarrow> u8 list" where
  "unwords [] = []"
| "unwords [w] = w"
| "unwords (w # ws) = w @ 32 # unwords ws"

definition is_word :: "u8 list \<Rightarrow> bool" where "is_word w \<longleftrightarrow> w \<noteq> [] \<and> (\<forall>c \<in> set w. \<not> is_blank c)"

lemma pieces_word: "\<forall>c \<in> set w. \<not> is_blank c \<Longrightarrow> pieces w = [w]"
  by (induction w) auto

lemma pieces_word_blank: "\<forall>c \<in> set w. \<not> is_blank c \<Longrightarrow> pieces (w @ 32 # r) = w # pieces r"
  by (induction w) (auto simp: is_blank_def)

lemma pieces_unwords: "\<forall>w \<in> set ws. is_word w \<Longrightarrow> filter (\<lambda>w. w \<noteq> []) (pieces (unwords ws)) = ws"
  by (induction ws rule: unwords.induct) (auto simp: is_word_def pieces_word pieces_word_blank)

lemma tokenise_unwords: "\<forall>w \<in> set ws. is_word w \<Longrightarrow> tokenise n (unwords ws) = take n ws"
  by (simp add: tokenise_split pieces_unwords)

lemma puts_out [simp]: "sh_out (puts cs s) = sh_out s @ map Put (cstr cs)" "sh_kbd (puts cs s) = sh_kbd s"
  by (simp_all add: puts_def)

lemma print_words_out:
  assumes "n \<le> length argv" "\<forall>w \<in> set argv. 0 \<notin> set w"
  shows "sh_out (print_words n id argv s) = sh_out s @ map Put (unwords (drop n argv) @ [10]) \<and> sh_kbd (print_words n id argv s) = sh_kbd s"
proof -
  define F where "F = (\<lambda>i s. let s = puts (map id (argv ! i)) s in if i < length argv - 1 then putc 32 s else s)"
  have "sh_out (for_loop n (length argv) F s) = sh_out s @ map Put (unwords (drop n argv)) \<and> sh_kbd (for_loop n (length argv) F s) = sh_kbd s"
    using assms(1)
  proof (induction "length argv - n" arbitrary: n s)
    case 0
    then show ?case by simp
  next
    case (Suc m)
    then have n: "n < length argv" by simp
    have z: "cstr (argv ! n) = argv ! n" using assms(2) n by (intro cstr_id) simp
    have d: "drop n argv = argv ! n # drop (Suc n) argv" using n by (simp add: Cons_nth_drop_Suc)
    have f: "sh_out (F n s) = sh_out s @ map Put (argv ! n @ (if n < length argv - 1 then [32] else []))" "sh_kbd (F n s) = sh_kbd s"
      using z by (simp_all add: F_def Let_def)
    have "unwords (drop n argv) = argv ! n @ (if n < length argv - 1 then [32] else []) @ unwords (drop (Suc n) argv)"
    proof (cases "n < length argv - 1")
      case True
      then have "drop (Suc n) argv = argv ! Suc n # drop (Suc (Suc n)) argv" by (simp add: Cons_nth_drop_Suc)
      with True show ?thesis by (simp add: d)
    qed (use n d in simp)
    moreover have "sh_out (for_loop (Suc n) (length argv) F (F n s)) = sh_out (F n s) @ map Put (unwords (drop (Suc n) argv)) \<and>
        sh_kbd (for_loop (Suc n) (length argv) F (F n s)) = sh_kbd (F n s)"
      by (rule Suc.hyps(1)) (use Suc n in auto)
    ultimately show ?case using f for_loop_rec [OF n, of F s] by simp
  qed
  then show ?thesis by (simp add: print_words_def F_def)
qed

section \<open>A command that is typed\<close>

lemma hist_push_io [simp]: "sh_out (hist_push ln s) = sh_out s" "sh_kbd (hist_push ln s) = sh_kbd s"
  by (simp_all add: hist_push_def Let_def)

lemma print_prompt_kbd: "sh_kbd (print_prompt s) = sh_kbd s"
  by (simp add: print_prompt_def Let_def color_def term1_def)

lemma run_echo: "dispatch w (lit ''echo'' # ws) s = Some (cmd_print (lit ''echo'' # ws) s)"
proof -
  let ?c = "lit ''echo''"
  have e: "is_cmd ?c ''sysinfo'' = False" "is_cmd ?c ''uname'' = False" "is_cmd ?c ''ver'' = False" "is_cmd ?c ''runtime'' = False" "is_cmd ?c ''uptime'' = False"
    "is_cmd ?c ''ram'' = False" "is_cmd ?c ''mem'' = False" "is_cmd ?c ''cpu'' = False" "is_cmd ?c ''arch'' = False" "is_cmd ?c ''ticks'' = False"
    "is_cmd ?c ''cls'' = False" "is_cmd ?c ''clear'' = False" "is_cmd ?c ''banner'' = False" "is_cmd ?c ''color'' = False" "is_cmd ?c ''rainbow'' = False"
    "is_cmd ?c ''echo'' = True"
    by (simp_all add: is_cmd_lit lit_simps)
  show ?thesis unfolding dispatch_def Let_def nth_Cons_0 by (simp only: e simp_thms if_False if_True)
qed

lemma set_unwords: "set (unwords ws) \<subseteq> insert 32 (\<Union> (set ` set ws))"
  by (induction ws rule: unwords.induct) auto

text \<open>
  C37. A typed command is carried out: when the keys waiting at the prompt are the word \<^verbatim>\<open>echo\<close> and at
  most 31 further words of plain characters, a blank between any two and Enter, in all at most 511
  characters before Enter, then one round of the
  shell shows, after the prompt, the typed line and below it exactly those words, and returns to the
  prompt with the later keys still waiting.
\<close>

theorem echo_command:
  assumes "ring_ok (sh_kbd s)" "ring_items (sh_kbd s) = unwords (lit ''echo'' # ws) @ 10 # cs"
    and "\<forall>w \<in> set ws. is_word w \<and> (\<forall>c \<in> set w. plain c \<and> c \<noteq> 8)" "length ws \<le> 31"
    and "length (unwords (lit ''echo'' # ws)) \<le> 511"
  shows "\<exists>t. shell_turn w s = Some t \<and> ring_items (sh_kbd t) = cs \<and>
    sh_out t = sh_out (print_prompt s) @ map Put (unwords (lit ''echo'' # ws) @ [10] @ unwords ws @ [10])"
proof -
  let ?line = "unwords (lit ''echo'' # ws)" and ?ws = "lit ''echo'' # ws"
  have all: "\<forall>w \<in> set ?ws. is_word w \<and> (\<forall>c \<in> set w. plain c \<and> c \<noteq> 8)"
    using assms(3) by (auto simp: lit_simps is_word_def is_blank_def plain_def)
  have "plain 32" by (simp add: plain_def)
  then have pl: "\<forall>c \<in> set ?line. plain c \<and> c \<noteq> 8" using all set_unwords [of ?ws] by fastforce
  have ed: "edited CMD_BUF [] ?line = ?line \<and> echoed CMD_BUF [] ?line = ?line"
    using edited_text [of ?line "[]" CMD_BUF] pl assms(5) by (auto simp: CMD_BUF_def)
  from read_line_loop_plain [of "print_prompt s\<lparr>hist_pos := hist_count (print_prompt s)\<rparr>" ?line cs w CMD_BUF "[]"] assms(1,2) pl ed
  obtain t where r: "read_line w CMD_BUF (print_prompt s) = Some (?line, t)" "sh_out t = sh_out (print_prompt s) @ map Put (?line @ [10])"
    "ring_items (sh_kbd t) = cs"
    by (auto simp: read_line_def print_prompt_kbd)
  have tk: "tokenise MAX_ARGS ?line = ?ws"
    using tokenise_unwords [of ?ws MAX_ARGS] all assms(4) by (simp add: MAX_ARGS_def)
  have ne: "?line \<noteq> []" by (cases ws) (auto simp: lit_simps)
  have "shell_turn w s = Some (cmd_print ?ws (hist_push ?line t))"
    using r(1) ne tk run_echo [of w ws] by (simp add: shell_turn_def run_line_def)
  moreover have "\<forall>w \<in> set ?ws. 0 \<notin> set w" using all by (auto simp: plain_def)
  then have "sh_out (cmd_print ?ws (hist_push ?line t)) = sh_out t @ map Put (unwords ws @ [10]) \<and> sh_kbd (cmd_print ?ws (hist_push ?line t)) = sh_kbd t"
    using print_words_out [of 1 ?ws "hist_push ?line t"] by (simp add: cmd_print_def)
  ultimately show ?thesis using r by auto
qed

section \<open>History\<close>

text \<open>The lines pushed so far, and what the table holds of them.\<close>

definition recorded :: "shell \<Rightarrow> u8 list list \<Rightarrow> bool" where
  "recorded s ls \<longleftrightarrow> hist_count s = int (length ls) \<and> length (history s) = 50 \<and> (\<forall>r \<in> set (history s). length r = CMD_BUF) \<and>
     (\<forall>i < length ls. length ls \<le> i + 50 \<longrightarrow> cstr (history s ! (i mod 50)) = ls ! i)"

definition push_line :: "u8 list \<Rightarrow> u8 list list \<Rightarrow> u8 list list" where
  "push_line ln ls = (if ln = [] \<or> ls \<noteq> [] \<and> last ls = ln then ls else ls @ [ln])"

definition line_ok :: "u8 list \<Rightarrow> bool" where "line_ok ln \<longleftrightarrow> 0 \<notin> set ln \<and> length ln \<le> 511"

lemma hist_at_nat: "hist_at (int i) s = history s ! (i mod 50)"
proof -
  have "int i mod 50 = int (i mod 50)" by (simp add: zmod_int)
  then show ?thesis by (simp add: hist_at_def HISTORY_MAX_def)
qed

lemma recorded_at: "recorded s ls \<Longrightarrow> i < length ls \<Longrightarrow> length ls \<le> i + 50 \<Longrightarrow> cstr (hist_at (int i) s) = ls ! i"
  by (simp add: recorded_def hist_at_nat)

text \<open>The number of the line that the row of number \<open>p\<close> holds, after \<open>n\<close> lines.\<close>

definition shown :: "nat \<Rightarrow> nat \<Rightarrow> nat" where "shown n p = n - 1 - (n - 1 - p) mod 50"

lemma recorded_shown:
  assumes "recorded s ls" "p < length ls"
  shows "cstr (hist_at (int p) s) = ls ! shown (length ls) p"
proof -
  let ?n = "length ls" and ?r = "(length ls - 1 - p) mod 50"
  have r: "?r \<le> ?n - 1 - p" "?r < 50" by simp_all
  then have j: "shown ?n p < ?n" "?n \<le> shown ?n p + 50" using assms(2) by (simp_all add: shown_def)
  have "?n - 1 - p = ?r + 50 * ((?n - 1 - p) div 50)" by simp
  then have "shown ?n p = p + 50 * ((?n - 1 - p) div 50)" using r assms(2) unfolding shown_def by linarith
  then have "shown ?n p mod 50 = p mod 50" by simp
  then show ?thesis using recorded_at [OF assms(1) j] by (simp add: hist_at_nat)
qed

lemma mod_window: "i < n \<Longrightarrow> n < i + 50 \<Longrightarrow> i mod 50 \<noteq> n mod (50 :: nat)"
proof
  assume i: "i < n" "n < i + 50" and "i mod 50 = n mod 50"
  then have "50 dvd n - i" by (metis less_imp_le mod_eq_dvd_iff_nat)
  then show False using i by (auto dest: dvd_imp_le)
qed

text \<open>
  The history is the list of the lines entered: pushing a line appends it to the abstract list
  unless it is empty or repeats the last one, and the table of 50 rows then holds the last 50 lines of
  that list, each in the row of its number modulo 50.
\<close>

theorem hist_push_records:
  assumes "recorded s ls" "line_ok ln"
  shows "recorded (hist_push ln s) (push_line ln ls)"
proof -
  have c: "cstr ln = ln" using assms(2) by (simp add: line_ok_def cstr_id)
  have e: "ch ln 0 = 0 \<longleftrightarrow> ln = []" using assms(2) by (cases ln) (auto simp: line_ok_def)
  have l: "0 < hist_count s \<and> str_cmp (hist_at (hist_count s - 1) s) ln = 0 \<longleftrightarrow> ls \<noteq> [] \<and> last ls = ln"
  proof (cases "ls = []")
    case False
    then have i: "hist_count s - 1 = int (length ls - 1)" using assms(1) by (simp add: recorded_def of_nat_diff Suc_le_eq)
    show ?thesis unfolding i using False recorded_at [OF assms(1), of "length ls - 1"] assms(1)
      by (simp add: str_cmp_eq c last_conv_nth recorded_def)
  qed (use assms(1) in \<open>simp add: recorded_def\<close>)
  show ?thesis
  proof (cases "ln = [] \<or> ls \<noteq> [] \<and> last ls = ln")
    case True
    then have "hist_push ln s = s" using e l by (auto simp: hist_push_def)
    with True assms(1) show ?thesis by (auto simp: push_line_def)
  next
    case False
    let ?i = "length ls mod 50"
    have n: "nat (hist_count s mod HISTORY_MAX) = ?i"
    proof -
      have "int (length ls) mod 50 = int ?i" by (simp add: zmod_int)
      then show ?thesis using assms(1) by (simp add: recorded_def HISTORY_MAX_def)
    qed
    have h: "history (hist_push ln s) = (history s)[?i := str_copy (history s ! ?i) ln CMD_BUF]" "hist_count (hist_push ln s) = hist_count s + 1"
      using False e l n by (auto simp: hist_push_def Let_def)
    have len: "length (history s) = 50" "length (history s ! ?i) = CMD_BUF" using assms(1) by (auto simp: recorded_def)
    then have row: "cstr (str_copy (history s ! ?i) ln CMD_BUF) = ln" "length (str_copy (history s ! ?i) ln CMD_BUF) = CMD_BUF"
      using str_copy_props [of CMD_BUF "history s ! ?i" ln] assms(2) c by (simp_all add: CMD_BUF_def line_ok_def)
    have "cstr (history (hist_push ln s) ! (i mod 50)) = (ls @ [ln]) ! i" if "i < Suc (length ls)" "Suc (length ls) \<le> i + 50" for i
    proof (cases "i = length ls")
      case True
      then show ?thesis using h len row by simp
    next
      case False
      then have lt: "i < length ls" using that by simp
      have "i mod 50 \<noteq> ?i" by (rule mod_window) (use lt that in auto)
      then have "history (hist_push ln s) ! (i mod 50) = history s ! (i mod 50)" unfolding h by simp
      moreover have "cstr (history s ! (i mod 50)) = ls ! i" using assms(1) lt that by (simp add: recorded_def)
      ultimately show ?thesis using lt by (simp add: nth_append)
    qed
    moreover have "\<forall>r \<in> set (history (hist_push ln s)). length r = CMD_BUF"
      using set_update_subset_insert [of "history s" ?i "str_copy (history s ! ?i) ln CMD_BUF"] row assms(1)
      unfolding h(1) by (auto simp: recorded_def)
    moreover have "push_line ln ls = ls @ [ln]" using False by (simp only: push_line_def if_False)
    ultimately show ?thesis using h len assms(1) by (simp add: recorded_def)
  qed
qed

lemma obs_recorded: "obs t = obs s \<Longrightarrow> recorded t ls \<longleftrightarrow> recorded s ls"
  by (simp add: obs_def recorded_def)

lemma puts_pos [simp]: "hist_pos (puts cs s) = hist_pos s" by (simp add: puts_def)

lemma clear_input_fields:
  "sh_kbd (clear_input_line n s) = sh_kbd s \<and> hist_pos (clear_input_line n s) = hist_pos s \<and> obs (clear_input_line n s) = obs s"
proof -
  have "sh_kbd (for_loop 0 n (\<lambda>_. putc c) t) = sh_kbd t \<and> hist_pos (for_loop 0 n (\<lambda>_. putc c) t) = hist_pos t \<and>
      obs (for_loop 0 n (\<lambda>_. putc c) t) = obs t" for c t
    by (rule for_loop_keeps [where P = "\<lambda>u. sh_kbd u = sh_kbd t \<and> hist_pos u = hist_pos t \<and> obs u = obs t"]) simp_all
  then show ?thesis by (simp add: clear_input_line_def)
qed

text \<open>The up key shows the row before the one the position stands at, and nothing new at the first.\<close>

lemma edit_line_up:
  assumes "recorded s ls" "hist_pos s = int p" "0 < p" "p \<le> length ls" "\<forall>l \<in> set ls. line_ok l"
  obtains t where "edit_line CMD_BUF KEY_UP ln s = (More (ls ! shown (length ls) (p - 1)), t)" "sh_kbd t = sh_kbd s" "recorded t ls"
    "hist_pos t = int (p - 1)"
proof -
  let ?s = "clear_input_line (length ln) (s\<lparr>hist_pos := hist_pos s - 1\<rparr>)" and ?l = "ls ! shown (length ls) (p - 1)"
  have f: "sh_kbd ?s = sh_kbd s" "hist_pos ?s = int (p - 1)" "obs ?s = obs s"
    using clear_input_fields [of "length ln" "s\<lparr>hist_pos := hist_pos s - 1\<rparr>"] assms(2,3) by (simp_all add: of_nat_diff Suc_le_eq)
  have r: "recorded ?s ls" using obs_recorded [OF f(3)] assms(1) by simp
  then have "cstr (hist_at (hist_pos ?s) ?s) = ?l"
    unfolding f(2) using assms(3,4) by (intro recorded_shown) auto
  moreover have "shown (length ls) (p - 1) < length ls" using assms(3,4) by (simp add: shown_def)
  then have "line_ok ?l" using assms(5) by simp
  ultimately have l: "take (CMD_BUF - 1) (cstr (hist_at (hist_pos ?s) ?s)) = ?l"
    by (simp add: line_ok_def CMD_BUF_def)
  have c: "0 < hist_pos s \<and> 0 < hist_count s" using assms(1-4) by (auto simp: recorded_def)
  have "edit_line CMD_BUF KEY_UP ln s = (More ?l, puts ?l ?s)"
    using c l by (simp add: edit_line_def KEY_UP_def Let_def)
  moreover have "recorded (puts ?l ?s) ls" using obs_recorded [OF obs_ops(3)] r by blast
  ultimately show ?thesis using f by (intro that [of "puts ?l ?s"]) simp_all
qed

lemma edit_line_first: "hist_pos s = 0 \<Longrightarrow> edit_line lim KEY_UP ln s = (More ln, s)"
  by (simp add: edit_line_def KEY_UP_def)

lemma read_line_loop_up:
  assumes "ring_ok (sh_kbd s)" "ring_items (sh_kbd s) = concat (replicate k [0xE0, 0x48]) @ 10 # cs" "recorded s ls"
    and "hist_pos s = int p" "p \<le> length ls" "\<forall>l \<in> set ls. line_ok l"
  shows "\<exists>t. read_line_loop w CMD_BUF ln s = Some (if min k p = 0 then ln else ls ! shown (length ls) (p - min k p), t)"
  using assms
proof (induction k arbitrary: ln s p)
  case 0
  obtain t where t: "read_key w s = Some (uint (10 :: u8), t)" "ring_ok (sh_kbd t)" "ring_items (sh_kbd t) = cs" "same_text s t"
    using read_key_ring [of s 10 cs] 0(1,2) by auto
  have "read_line_loop w CMD_BUF ln s = Some (ln, putc 10 t)"
    unfolding read_line_loop.simps [of w CMD_BUF ln s] t(1) enter_key [of CMD_BUF ln t] bind.bind_lunit prod.case edit.case ..
  then show ?case by simp
next
  case (Suc k)
  obtain t where t: "read_key w s = Some (KEY_UP, t)" "ring_ok (sh_kbd t)" "ring_items (sh_kbd t) = concat (replicate k [0xE0, 0x48]) @ 10 # cs"
    "same_text s t"
    using read_key_up [of s "concat (replicate k [0xE0, 0x48]) @ 10 # cs"] Suc.prems(1,2) by auto
  have r: "recorded t ls" "hist_pos t = int p"
    using obs_recorded [OF same_text_kbd(2) [OF t(4)]] same_text_kbd(3) [OF t(4)] Suc.prems(3,4) by simp_all
  show ?case
  proof (cases "p = 0")
    case True
    then have "edit_line CMD_BUF KEY_UP ln t = (More ln, t)" using r(2) by (simp add: edit_line_first)
    then have "read_line_loop w CMD_BUF ln s = read_line_loop w CMD_BUF ln t"
      unfolding read_line_loop.simps [of w CMD_BUF ln s] t(1) bind.bind_lunit prod.case by (simp only: prod.case edit.case)
    then show ?thesis using Suc.IH [OF t(2,3) r Suc.prems(5,6), of ln] True by simp
  next
    case False
    from r obtain u where u: "edit_line CMD_BUF KEY_UP ln t = (More (ls ! shown (length ls) (p - 1)), u)" "sh_kbd u = sh_kbd t" "recorded u ls"
        "hist_pos u = int (p - 1)"
      by (rule edit_line_up) (use Suc.prems False in auto)
    have "read_line_loop w CMD_BUF ln s = read_line_loop w CMD_BUF (ls ! shown (length ls) (p - 1)) u"
      unfolding read_line_loop.simps [of w CMD_BUF ln s] t(1) u(1) bind.bind_lunit prod.case edit.case ..
    moreover have "\<exists>v. read_line_loop w CMD_BUF (ls ! shown (length ls) (p - 1)) u =
        Some (if min k (p - 1) = 0 then ls ! shown (length ls) (p - 1) else ls ! shown (length ls) (p - 1 - min k (p - 1)), v)"
      by (rule Suc.IH) (use Suc.prems t(2,3) u in auto)
    moreover have "p - min (Suc k) p = p - 1 - min k (p - 1)" using False by (simp add: min_def)
    moreover have "min (Suc k) p \<noteq> 0" using False by simp
    ultimately show ?thesis unfolding if_not_P [OF \<open>min (Suc k) p \<noteq> 0\<close>]
      by (cases "min k (p - 1) = 0") (simp_all only: if_True if_False diff_zero simp_thms)
  qed
qed

text \<open>
  C39. The up key recalls the history: pressing it \<open>k\<close> times and then Enter returns the \<open>k\<close>th line from
  the end of the lines recorded, for \<open>k\<close> up to the 50 the table holds. Further presses begin again
  with the newest line, since the position is taken modulo 50, until as many were pressed as there are
  lines recorded, however long ago; from then on the key does nothing. The lines recorded are those
  entered, without empty ones and without repetitions of the line before (lemma \<open>hist_push_records\<close>).
\<close>

theorem history_recall:
  assumes "recorded s ls" "\<forall>l \<in> set ls. line_ok l" "ls \<noteq> []" "0 < k"
    and "ring_ok (sh_kbd s)" "ring_items (sh_kbd s) = concat (replicate k [0xE0, 0x48]) @ 10 # cs"
  shows "\<exists>t. read_line w CMD_BUF s = Some (ls ! (length ls - 1 - (min k (length ls) - 1) mod 50), t)"
proof -
  let ?s = "s\<lparr>hist_pos := hist_count s\<rparr>" and ?k = "min k (length ls)"
  have "recorded ?s ls" "hist_pos ?s = int (length ls)" using assms(1) by (simp_all add: recorded_def)
  moreover have "ring_ok (sh_kbd ?s)" "ring_items (sh_kbd ?s) = concat (replicate k [0xE0, 0x48]) @ 10 # cs"
    using assms(5,6) by simp_all
  ultimately have "\<exists>t. read_line_loop w CMD_BUF [] ?s = Some (if ?k = 0 then [] else ls ! shown (length ls) (length ls - ?k), t)"
    using assms(2) by (intro read_line_loop_up) auto
  moreover have "0 < ?k" "?k \<le> length ls" using assms(3,4) by simp_all
  then have "length ls - 1 - (length ls - ?k) = ?k - 1" by linarith
  ultimately show ?thesis using \<open>0 < ?k\<close> by (simp add: read_line_def shown_def)
qed

section \<open>Concrete keys\<close>

definition typed_kbd :: "u8 list \<Rightarrow> kbd" where
  "typed_kbd cs = kb_start\<lparr>buf := (\<lambda>i. if i < length cs then cs ! i else 0), wp := of_nat (length cs)\<rparr>"

lemma typed_kbd_ring: "length cs < 512 \<Longrightarrow> ring_ok (typed_kbd cs) \<and> ring_items (typed_kbd cs) = cs"
proof -
  assume l: "length cs < 512"
  then have w: "unat (of_nat (length cs) :: u32) = length cs" by (simp add: unsigned_of_nat take_bit_nat_eq_self)
  then have c: "ring_count (typed_kbd cs) = length cs" using l by (simp add: ring_count_def typed_kbd_def kb_start_def)
  have "ring_items (typed_kbd cs) = map (\<lambda>i. cs ! i) [0..<length cs]"
    unfolding ring_items_def c using l by (intro map_cong) (auto simp: typed_kbd_def kb_start_def)
  moreover have "ring_ok (typed_kbd cs)" using l w by (simp add: ring_ok_def typed_kbd_def kb_start_def KB_BUF_def word_less_nat_alt)
  ultimately show ?thesis by (simp add: map_nth)
qed

lemma read_line_edits_witness:
  "\<exists>t. read_line demo_world 16 (demo_shell\<lparr>sh_kbd := typed_kbd (lit ''ax'' @ 8 # lit ''b'' @ 10 # lit ''c'')\<rparr>) = Some (lit ''ab'', t) \<and>
     sh_out t = map Put (lit ''ax'' @ 8 # lit ''b'' @ [10]) \<and> ring_ok (sh_kbd t) \<and> ring_items (sh_kbd t) = lit ''c''"
proof -
  let ?k = "lit ''ax'' @ 8 # lit ''b''" and ?s = "demo_shell\<lparr>sh_kbd := typed_kbd (lit ''ax'' @ 8 # lit ''b'' @ 10 # lit ''c'')\<rparr>"
  have "ring_ok (sh_kbd ?s)" "ring_items (sh_kbd ?s) = ?k @ 10 # lit ''c''"
    using typed_kbd_ring [of "lit ''ax'' @ 8 # lit ''b'' @ 10 # lit ''c''"] by (simp_all add: lit_simps)
  moreover have "\<forall>c \<in> set ?k. plain c" by (simp add: lit_simps plain_def)
  moreover have "edited 16 [] ?k = lit ''ab''" "echoed 16 [] ?k = ?k" "sh_out ?s = []" by (simp_all add: lit_simps demo_shell_def)
  ultimately show ?thesis using read_line_edits [of ?s ?k "lit ''c''" demo_world 16] by simp
qed

lemma echo_command_witness:
  "\<exists>t. shell_turn demo_world (demo_shell\<lparr>sh_kbd := typed_kbd (lit ''echo hi'' @ [10])\<rparr>) = Some t \<and> ring_items (sh_kbd t) = [] \<and>
     sh_out t = sh_out (print_prompt (demo_shell\<lparr>sh_kbd := typed_kbd (lit ''echo hi'' @ [10])\<rparr>)) @ map Put (lit ''echo hi'' @ [10] @ lit ''hi'' @ [10])"
proof -
  let ?s = "demo_shell\<lparr>sh_kbd := typed_kbd (lit ''echo hi'' @ [10])\<rparr>"
  have u: "unwords (lit ''echo'' # [lit ''hi'']) = lit ''echo hi''" by (simp add: lit_simps)
  have "ring_ok (sh_kbd ?s)" "ring_items (sh_kbd ?s) = unwords (lit ''echo'' # [lit ''hi'']) @ 10 # []"
    unfolding u using typed_kbd_ring [of "lit ''echo hi'' @ [10]"] by (simp_all add: lit_simps)
  moreover have "\<forall>w \<in> set [lit ''hi'']. is_word w \<and> (\<forall>c \<in> set w. plain c \<and> c \<noteq> 8)"
    by (simp add: lit_simps is_word_def is_blank_def plain_def)
  moreover have "length (unwords (lit ''echo'' # [lit ''hi''])) \<le> 511" unfolding u by (simp add: lit_simps)
  ultimately show ?thesis using echo_command [of ?s "[lit ''hi'']" "[]" demo_world] unfolding u by simp
qed

lemma demo_recorded: "recorded demo_shell []"
  by (simp add: recorded_def demo_shell_def)

lemma hist_push_records_witness: "recorded (hist_push (lit ''cls'') demo_shell) [lit ''cls'']"
  using hist_push_records [OF demo_recorded, of "lit ''cls''"] by (simp add: push_line_def line_ok_def lit_simps)

text \<open>A shell after the lines \<^verbatim>\<open>ls\<close> and \<^verbatim>\<open>pwd\<close>, with the up key pressed twice.\<close>

definition two_lines :: shell where
  "two_lines = demo_shell\<lparr>history := (lit ''ls'' @ replicate 510 0) # (lit ''pwd'' @ replicate 509 0) # replicate 48 (replicate 512 0),
     hist_count := 2, sh_kbd := typed_kbd [0xE0, 0x48, 0xE0, 0x48, 10]\<rparr>"

lemma two_lines_recorded: "recorded two_lines [lit ''ls'', lit ''pwd'']"
proof -
  have c: "cstr (lit ''ls'' @ replicate 510 0) = lit ''ls''" "cstr (lit ''pwd'' @ replicate 509 0) = lit ''pwd''"
    by (simp_all add: lit_simps)
  have "cstr (history two_lines ! (i mod 50)) = [lit ''ls'', lit ''pwd''] ! i" if "i < 2" for i
  proof -
    have "i = 0 \<or> i = 1" using that by auto
    then show ?thesis using c by (auto simp: two_lines_def)
  qed
  moreover have l: "length (lit ''ls'') = 2" "length (lit ''pwd'') = 3" by (simp_all add: lit_def)
  moreover from l have "\<forall>r \<in> set (history two_lines). length r = CMD_BUF"
    by (simp add: two_lines_def CMD_BUF_def)
  moreover have "length (history two_lines) = 50" "hist_count two_lines = 2" by (simp_all add: two_lines_def)
  ultimately show ?thesis unfolding recorded_def by simp
qed

lemma history_recall_witness: "\<exists>t. read_line demo_world CMD_BUF two_lines = Some (lit ''ls'', t)"
proof -
  have "ring_ok (sh_kbd two_lines)" "ring_items (sh_kbd two_lines) = concat (replicate 2 [0xE0, 0x48]) @ 10 # []"
    using typed_kbd_ring [of "[0xE0, 0x48, 0xE0, 0x48, 10]"] by (simp_all add: two_lines_def numeral_2_eq_2)
  moreover have "\<forall>l \<in> set [lit ''ls'', lit ''pwd'']. line_ok l" by (simp add: line_ok_def lit_simps)
  ultimately show ?thesis using history_recall [OF two_lines_recorded, of 2 "[]" demo_world] by simp
qed

end
