(* ===== verification/Kernel_Main.thy ===== *)
theory Kernel_Main
  imports Sh_Main Sys_Call Arch_Gdt Drv_Timer Mm_Paging
begin

text \<open>
  The start of the kernel, \<^verbatim>\<open>kernel/kernel.c\<close>: every component is brought up in the order of the source,
  over the product of their states, up to the call of the shell. A machine is what the boot loader,
  the linker and the hardware decide. \<open>None\<close> is a boot that does not get to the shell: the wrong boot
  loader, a serial line that stops sending, a timer that is waited for and does not interrupt, a key
  that never comes, or a store behind a table of the kernel.
\<close>

section \<open>The state of the whole kernel\<close>

datatype irq_client = Timer_irq | Keyboard_irq | E1000_irq

text \<open>
  The serial port is \<open>None\<close> once the kernel waits for the line for ever; \<open>kn_uart\<close> is the device behind it.
  The processor's interrupt flag is \<open>kn_if\<close>.
\<close>

record kernel =
  kn_com :: "io option"
  kn_uart :: device
  kn_if :: bool
  kn_sys :: sysc
  kn_gdt :: gdt
  kn_idt :: "irq_client idt"
  kn_paging :: paging
  kn_timer :: timer
  kn_acc :: accounts
  kn_ata :: ata
  kn_net :: net
  kn_waits :: nat

text \<open>The members of the boot loader's table that the kernel reads.\<close>

record multiboot_info =
  mb_flags :: u32
  mem_lower :: u32
  mem_upper :: u32
  mb_fb_addr :: u64
  mb_fb_pitch :: u32
  mb_fb_width :: u32
  mb_fb_height :: u32
  mb_fb_bpp :: u8

text \<open>
  The machine, beside the shell's world: where the linker puts the kernel's tables and code, the devices
  behind the ports, the network card's rings, what \<open>pci_find_device\<close> leaves in the local variable of its
  caller, and whether the frame buffer's shadow gets a block of the heap.
\<close>

record machine = world +
  kernel_end :: u32
  gdt_at :: u32
  idt_at :: u32
  stubs_at :: "stub \<Rightarrow> u32"
  heap_region :: u32
  paging_at :: paging_image
  code_at :: proc_image
  heartbeat_at :: u32
  pic_dev :: device
  ata_dev :: device
  nic_memory :: e1000_memory
  nic_junk :: pci_device
  shadow_granted :: bool

definition MULTIBOOT_MAGIC_EXPECTED :: u32 where "MULTIBOOT_MAGIC_EXPECTED = 0x2BADB002"
definition MB_FLAG_FB :: u32 where "MB_FLAG_FB = push_bit 12 1"
definition KERNEL_HEAP_SIZE :: u32 where "KERNEL_HEAP_SIZE = 4 * 1024 * 1024"

section \<open>Messages\<close>

text \<open>
  Writing to the serial line waits for it before each character; what would follow a wait that does not
  end is computed, and dropped at the end of \<open>kernel_main\<close>.
\<close>

definition on_com :: "(io \<Rightarrow> io option) \<Rightarrow> kernel \<Rightarrow> kernel" where "on_com f k = k\<lparr>kn_com := Option.bind (kn_com k) f\<rparr>"

definition com_write :: "string \<Rightarrow> kernel \<Rightarrow> kernel" where
  "com_write t k = on_com (serial_puts (kn_uart k) t) k"

definition klog :: "string \<Rightarrow> kernel \<Rightarrow> kernel" where
  "klog m k = com_write (m @ ''\<newline>'') k"

text \<open>The drivers' messages, which their models collect, go to the same line.\<close>

definition net_says :: "net \<Rightarrow> kernel \<Rightarrow> kernel" where
  "net_says n k = com_write (drop (length (slog (kn_net k))) (slog n)) (k\<lparr>kn_net := n\<rparr>)"

definition ata_says :: "ata \<Rightarrow> kernel \<Rightarrow> kernel" where
  "ata_says a k = com_write (drop (length (slog (kn_ata k))) (slog a)) (k\<lparr>kn_ata := a\<rparr>)"

definition serial_hex :: "u32 \<Rightarrow> string" where
  "serial_hex v = ''0x'' @ map (\<lambda>i. hexdig True (ucast (drop_bit (28 - 4 * i) v AND 0xF))) [0..<8]"

definition on_con :: "(console \<Rightarrow> console) \<Rightarrow> kernel \<Rightarrow> kernel" where
  "on_con f k = k\<lparr>kn_sys := (kn_sys k)\<lparr>sc_con := f (sc_con (kn_sys k))\<rparr>\<rparr>"

text \<open>An operation of the accounts or of the file system; its messages go to the console.\<close>

definition show_vout :: "kernel \<Rightarrow> kernel" where
  "show_vout k =
     (let v = afs (kn_acc k)
      in on_con (term_chars (vout v)) (k\<lparr>kn_acc := (kn_acc k)\<lparr>afs := v\<lparr>vout := []\<rparr>\<rparr>\<rparr>))"

definition boot_acc :: "(accounts \<Rightarrow> accounts option) \<Rightarrow> kernel \<Rightarrow> kernel option" where
  "boot_acc f k = map_option (\<lambda>a. show_vout (k\<lparr>kn_acc := a\<rparr>)) (f (kn_acc k))"

definition boot_fs :: "(vfs \<Rightarrow> vfs option) \<Rightarrow> kernel \<Rightarrow> kernel option" where
  "boot_fs f = boot_acc (\<lambda>a. map_option (\<lambda>v. a\<lparr>afs := v\<rparr>) (f (afs a)))"

section \<open>The processor, memory and interrupts\<close>

text \<open>From the first line to the system calls; \<^verbatim>\<open>serial_init\<close> is the first call of all.\<close>

definition boot_greet :: "kernel \<Rightarrow> kernel" where
  "boot_greet k = klog ''STEP1  terminals'' (on_con terminal_init (klog ''=== StackOS booting ==='' (on_com (\<lambda>s. Some (serial_init s)) k)))"

definition boot_memory :: "machine \<Rightarrow> multiboot_info \<Rightarrow> kernel \<Rightarrow> kernel" where
  "boot_memory m mb k =
     (let k = klog ''STEP3  GDT'' (k\<lparr>kn_gdt := gdt_init (gdt_at m) (kn_gdt k)\<rparr>);
          k = klog ''STEP4  IDT'' (k\<lparr>kn_idt := idt_init (pic_dev m) (stubs_at m) (idt_at m) (kn_idt k)\<rparr>);
          total_kb = mem_lower mb + mem_upper mb;
          p = kn_paging k;
          k = klog ''STEP5  PMM'' (k\<lparr>kn_paging := p\<lparr>frames := pmm_init total_kb (kernel_end m) (frames p)\<rparr>\<rparr>);
          ps = sc_procs (kn_sys k);
          k = klog ''STEP6  heap'' (k\<lparr>kn_sys := (kn_sys k)\<lparr>sc_procs := ps\<lparr>kheap_of := heap_init (heap_region m) KERNEL_HEAP_SIZE (kheap_of ps)\<rparr>\<rparr>\<rparr>)
      in klog ''STEP7  paging'' (k\<lparr>kn_paging := paging_init (paging_at m) (kn_paging k)\<rparr>))"

definition irq_client_init :: "int \<Rightarrow> irq_client \<Rightarrow> kernel \<Rightarrow> kernel option" where
  "irq_client_init irqno c k = map_option (\<lambda>i. k\<lparr>kn_idt := i\<rparr>) (irq_register_handler irqno c (kn_idt k))"

definition boot_core :: "machine \<Rightarrow> multiboot_info \<Rightarrow> kernel \<Rightarrow> kernel option" where
  "boot_core m mb k =
     do { let k = boot_memory m mb k;
          k \<leftarrow> irq_client_init 0 Timer_irq (k\<lparr>kn_timer := timer_init 100 (kn_timer k)\<rparr>);
          let k = klog ''STEP8  timer'' k;
          k \<leftarrow> irq_client_init 1 Keyboard_irq (k\<lparr>kn_sys := (kn_sys k)\<lparr>sc_kbd := keyboard_init (sc_kbd (kn_sys k))\<rparr>\<rparr>);
          let k = klog ''STEP9  keyboard'' k;
          ps \<leftarrow> proc_init (code_at m) (sc_procs (kn_sys k));
          let k = klog ''STEP10 proc'' (k\<lparr>kn_sys := (kn_sys k)\<lparr>sc_procs := ps\<rparr>\<rparr>);
          Some (klog ''STEP11 syscall'' (k\<lparr>kn_sys := syscall_init (kn_sys k)\<rparr>)) }"

section \<open>Storage\<close>

text \<open>The file system's disk is the one the probe found.\<close>

definition attach_disk :: "ata \<Rightarrow> vfs \<Rightarrow> vfs" where
  "attach_disk a v =
     v\<lparr>sfs_st := (sfs_st v)\<lparr>dsk := (dsk (sfs_st v))\<lparr>disk_present := ata_present a, disk_sectors := ata_sectors a\<rparr>\<rparr>\<rparr>"

text \<open>A file of \<^verbatim>\<open>/disk/etc\<close>, made and filled.\<close>

definition seed_file :: "u8 list \<Rightarrow> u8 list \<Rightarrow> vfs \<Rightarrow> vfs option" where
  "seed_file nm text v =
     do { (etc, v) \<leftarrow> vfs_open (lit ''/disk/etc'') v;
          able \<leftarrow> has_make etc v;
          if \<not> able then Some v
          else do { v \<leftarrow> op_create etc nm v;
                    (etc, v) \<leftarrow> vfs_open (lit ''/disk/etc'') v;
                    if etc = None then Some v
                    else do { (f, v) \<leftarrow> vfs_finddir etc nm v;
                              case f of
                                None \<Rightarrow> Some v
                              | Some r \<Rightarrow> do { (n, v) \<leftarrow> vfs_write f 0 (of_nat (length text)) text v; Some (kfree_node r v) } } } }"

definition seed_dirs :: "nref option \<Rightarrow> vfs \<Rightarrow> vfs option" where
  "seed_dirs disk v =
     do { v \<leftarrow> op_mkdir disk (lit ''etc'') v;
          v \<leftarrow> op_mkdir disk (lit ''home'') v;
          v \<leftarrow> op_mkdir disk (lit ''tmp'') v;
          op_mkdir disk (lit ''var'') v }"

definition seed_tree :: "vfs \<Rightarrow> (bool \<times> vfs) option" where
  "seed_tree v =
     do { (disk, v) \<leftarrow> vfs_open (lit ''/disk'') v;
          able \<leftarrow> has_make disk v;
          v \<leftarrow> (if able then seed_dirs disk v else Some v);
          v \<leftarrow> seed_file (lit ''passwd'') (lit ''root:admin:2'' @ [10] @ lit ''stack:stack:1'' @ [10]) v;
          v \<leftarrow> seed_file (lit ''motd'') (lit ''Welcome to StackOS.'' @ [10] @ lit ''Type '' @ [39] @ lit ''help'' @ [39] @ lit '' for commands.'' @ [10]) v;
          Some (able, v) }"

text \<open>\<^verbatim>\<open>stackfs_mount\<close> and the mount at \<^verbatim>\<open>/disk\<close>, and what is logged of it.\<close>

definition mount_root :: "u8 list \<Rightarrow> vfs \<Rightarrow> (bool \<times> vfs) option" where
  "mount_root junk v =
     do { (r, v) \<leftarrow> mount_disk junk v;
          case r of None \<Rightarrow> Some (False, v) | Some r \<Rightarrow> Some (True, snd (vfs_mount (lit ''/disk'') r v)) }"

definition first_boot_fs :: "u8 list \<Rightarrow> vfs \<Rightarrow> (string \<times> vfs) option" where
  "first_boot_fs junk v =
     (case stackfs_format (Some (lit ''StackOS'')) (sfs_st v) of (ok, st) \<Rightarrow>
        let v = v\<lparr>sfs_st := st\<rparr>
        in if \<not> ok then Some (''[disk] format FAILED\<newline>'', v)
           else do { (ok, v) \<leftarrow> mount_root junk v;
                     if \<not> ok then Some (''[disk] mount FAILED\<newline>'', v)
                     else do { (able, v) \<leftarrow> seed_tree v;
                               Some (''[disk] mounted at /disk\<newline>'' @
                                     (if able then ''[disk] created /disk/{etc,home,tmp,var}\<newline>'' else []) @
                                     ''[disk] first boot complete\<newline>'', v) } })"

text \<open>The whole of the disk's start, with its log.\<close>

definition disk_start :: "u8 list \<Rightarrow> vfs \<Rightarrow> (string \<times> vfs) option" where
  "disk_start junk v =
     (if stackfs_detect (sfs_st v)
      then do { (ok, v) \<leftarrow> mount_root junk v;
                Some (''STEP14b StackFS found '' @ em_dash @ '' mounting\<newline>'' @
                      (if ok then ''STEP14c /disk mounted\<newline>'' else ''STEP14c mount FAILED\<newline>''), v) }
      else do { (l, v) \<leftarrow> first_boot_fs junk v;
                Some (''STEP14b first boot '' @ em_dash @ '' auto-format\<newline>'' @
                      ''[disk] first boot '' @ em_dash @ '' formatting StackFS\<newline>'' @ l, v) })"

text \<open>The first transfer, in \<^verbatim>\<open>stackfs_detect\<close>, ends with \<^verbatim>\<open>sti\<close>: interrupts are on from there.\<close>

definition boot_disk :: "machine \<Rightarrow> kernel \<Rightarrow> kernel option" where
  "boot_disk m k =
     (case ata_init (ata_dev m) (kn_ata k) of (found, a) \<Rightarrow>
        let k = (ata_says a k)\<lparr>kn_acc := (kn_acc k)\<lparr>afs := attach_disk a (afs (kn_acc k))\<rparr>\<rparr>
        in if \<not> found then Some (klog ''STEP14 no ATA disk'' k)
           else do { let k = (klog ''STEP14a ATA disk found'' k)\<lparr>kn_if := True\<rparr>;
                     (l, v) \<leftarrow> disk_start (stack_junk m) (afs (kn_acc k));
                     Some (show_vout (com_write l (k\<lparr>kn_acc := (kn_acc k)\<lparr>afs := v\<rparr>\<rparr>))) })"

definition boot_files :: "machine \<Rightarrow> kernel \<Rightarrow> kernel option" where
  "boot_files m k =
     do { k \<leftarrow> boot_fs (\<lambda>v. Some (vfs_init v)) k;
          k \<leftarrow> boot_fs initrd_init (klog ''STEP12 vfs'' k);
          k \<leftarrow> boot_disk m (klog ''STEP13 initrd'' k);
          k \<leftarrow> boot_acc user_init k;
          k \<leftarrow> boot_acc users_save (klog ''STEP15 users'' k);
          Some (klog ''STEP15a users saved'' k) }"

section \<open>The network\<close>

text \<open>What is new at the head of a list, oldest first; the driver's new pages go to the kernel's directory.\<close>

definition fresh :: "'x list \<Rightarrow> 'x list \<Rightarrow> 'x list" where
  "fresh old now = rev (take (length now - length old) now)"

definition map_pages :: "paging_image \<Rightarrow> (u32 \<times> u32 \<times> u32) list \<Rightarrow> paging \<Rightarrow> paging" where
  "map_pages img ps p = fold (\<lambda>(v, ph, fl). paging_map_page (paging_kernel_directory img) v ph fl) ps p"

fun take_lines :: "u8 list \<Rightarrow> kernel \<Rightarrow> kernel option" where
  "take_lines [] k = Some k"
| "take_lines (l # ls) k = do { k \<leftarrow> irq_client_init (uint l) E1000_irq k; take_lines ls k }"

definition net_fallback :: "net \<Rightarrow> net" where
  "net_fallback n = n\<lparr>net_ip := IP4 10 0 2 15, net_gw := IP4 10 0 2 2, net_mask := IP4 255 255 255 0, net_dns := IP4 10 0 2 3\<rparr>"

definition boot_net :: "machine \<Rightarrow> kernel \<Rightarrow> kernel option" where
  "boot_net m k =
     (let k = klog ''STEP16 PCI'' k;
          k = klog ''STEP16a PCI done'' (net_says (pci_init (net_dev m) (kn_net k)) k);
          k = klog ''STEP17 E1000'' k;
          n0 = kn_net k
      in case e1000_init (net_dev m) (nic_memory m) (nic_junk m) n0 of (found, n) \<Rightarrow>
        do { let k = (net_says n k)\<lparr>kn_paging := map_pages (paging_at m) (fresh (pages_mapped n0) (pages_mapped n)) (kn_paging k)\<rparr>;
             k \<leftarrow> take_lines (fresh (irq_handlers n0) (irq_handlers n)) k;
             if \<not> found then Some (klog ''STEP17 no E1000'' k)
             else
               (let k = klog ''STEP17a E1000 found'' k;
                    k = klog ''STEP17c DHCP request...'' (klog ''STEP17b network stack ready'' (net_says (net_init (kn_net k)) k))
                in do { (ok, n) \<leftarrow> dhcp_request (kn_if k \<and> timer_runs m) (net_dev m) (net_card m) (kn_net k);
                        let k = net_says n k;
                        Some (if ok then klog ''STEP17d DHCP success'' k
                              else (klog (''STEP17d DHCP failed '' @ em_dash @ '' fallback to 10.0.2.15'') k)\<lparr>kn_net := net_fallback n\<rparr>) }) })"

section \<open>The screen\<close>

definition COL_WHITE :: u32 where "COL_WHITE = RGB 0xF0 0xF0 0xF0"
definition COL_STACK :: u32 where "COL_STACK = RGB 0x4A 0x9E 0xFF"
definition COL_SURFACE :: u32 where "COL_SURFACE = RGB 0x26 0x26 0x36"
definition COL_PANEL :: u32 where "COL_PANEL = RGB 0x1C 0x1C 0x2C"
definition COL_TEXT :: u32 where "COL_TEXT = RGB 0xE8 0xE8 0xE8"
definition COL_TEXT_DIM :: u32 where "COL_TEXT_DIM = RGB 0x88 0x88 0xA0"
definition COL_BORDER :: u32 where "COL_BORDER = RGB 0x3A 0x3A 0x5A"
definition COL_TITLEBAR_A :: u32 where "COL_TITLEBAR_A = RGB 0x2A 0x5A 0xA0"
definition COL_DESKTOP :: u32 where "COL_DESKTOP = RGB 0x10 0x14 0x24"

definition map_framebuffer :: "paging_image \<Rightarrow> u32 \<Rightarrow> u32 \<Rightarrow> paging \<Rightarrow> paging" where
  "map_framebuffer img fb_phys size_bytes p =
     (let pages = (size_bytes + 4095) div 4096;
          dir = paging_kernel_directory img
      in for_loop 0 (unat pages)
           (\<lambda>i. let addr = fb_phys + of_nat i * 4096 in paging_map_page dir addr addr (PAGE_PRESENT OR PAGE_WRITE)) p)"

definition splash_text :: "int \<Rightarrow> int \<Rightarrow> string \<Rightarrow> u32 \<Rightarrow> 'a fb_scheme \<Rightarrow> 'a fb_scheme" where
  "splash_text x y str col s = snd (font_drawstr x y (lit str) col 0 True s)"

definition splash_lines :: "(int \<times> string) list" where
  "splash_lines =
     [(0, ''Kernel:   x86-32  monolithic  protected mode''),
      (22, ''Heap:     4 MiB  kmalloc / kfree''),
      (44, ''Video:    VESA linear framebuffer 1024x768x32''),
      (66, ''Storage:  StackFS  persistent ATA disk''),
      (88, ''Network:  E1000  ARP  IPv4  ICMP  UDP  DHCP''),
      (110, ''Users:    root (admin)  /  stack (normal)'')]"

definition draw_splash :: "'a fb_scheme \<Rightarrow> 'a fb_scheme" where
  "draw_splash s =
     (let s = fb_fill COL_DESKTOP s;
          s = fb_rect 0 0 (sw s) 32 COL_PANEL s;
          s = fb_hline 0 32 (sw s) COL_BORDER s;
          s = splash_text 12 10 ''StackOS  v1.0.0  |  100% from scratch'' COL_STACK s;
          tby = sh s - 36;
          s = fb_rect 0 tby (sw s) 36 COL_PANEL s;
          s = fb_hline 0 tby (sw s) COL_BORDER s;
          s = splash_text 12 (tby + 11) ''StackOS'' COL_STACK s;
          cw = 500; ch = 300; cx = cdiv (sw s - cw) 2; cy = cdiv (sh s - ch) 2;
          s = fb_rect_round cx cy cw ch 10 COL_SURFACE s;
          s = fb_rect_round_outline cx cy cw ch 10 COL_BORDER 1 s;
          s = fb_rect cx cy cw 34 COL_TITLEBAR_A s;
          s = splash_text (cx + 14) (cy + 10) ''Welcome to StackOS'' COL_WHITE s;
          tx = cx + 24; ty = cy + 56;
          s = fold (\<lambda>(dy, str). splash_text tx (ty + dy) str COL_TEXT) splash_lines s;
          s = splash_text (cx + 14) (cy + ch - 24) ''Press any key to continue...'' COL_TEXT_DIM s
      in fb_flush s)"

text \<open>The frame buffer: whether the kernel ends up in graphics mode.\<close>

definition wait_for_key :: "machine \<Rightarrow> kernel \<Rightarrow> kernel option" where
  "wait_for_key m k =
     do { (c, b) \<leftarrow> keyboard_getchar (key_irqs m (kn_waits k)) (sc_kbd (kn_sys k));
          Some (k\<lparr>kn_sys := (kn_sys k)\<lparr>sc_kbd := b\<rparr>, kn_waits := kn_waits k + 1\<rparr>) }"

definition fb_start :: "bool \<Rightarrow> u32 \<Rightarrow> u32 \<Rightarrow> u32 \<Rightarrow> u32 \<Rightarrow> u8 \<Rightarrow> console \<Rightarrow> bool \<times> console" where
  "fb_start grant addr w h p bpp c = (case fb_init grant addr w h p bpp c of (ok, msg, c) \<Rightarrow> (ok, term_chars msg c))"

definition show_splash :: "machine \<Rightarrow> kernel \<Rightarrow> kernel option" where
  "show_splash m k =
     do { let k = klog ''STEP19b waiting for key'' (on_con draw_splash (klog ''STEP19a fb_init OK'' k));
          k \<leftarrow> wait_for_key m k;
          Some (klog ''STEP19c fbterm ready'' (on_con fbterm_init k)) }"

definition fb_addr_of :: "multiboot_info \<Rightarrow> u32" where "fb_addr_of mb = ucast (mb_fb_addr mb AND 0xFFFFFFFF)"

definition fb_banner :: "multiboot_info \<Rightarrow> string" where
  "fb_banner mb = ''[fb] addr='' @ serial_hex (fb_addr_of mb) @ '' w='' @ serial_hex (mb_fb_width mb) @
     '' h='' @ serial_hex (mb_fb_height mb) @ '' bpp='' @ serial_hex (ucast (mb_fb_bpp mb)) @ ''\<newline>''"

definition boot_graphics :: "machine \<Rightarrow> multiboot_info \<Rightarrow> kernel \<Rightarrow> (bool \<times> kernel) option" where
  "boot_graphics m mb k =
     (let fba = fb_addr_of mb; fbw = mb_fb_width mb; fbh = mb_fb_height mb; fbp = mb_fb_pitch mb;
          k = com_write (fb_banner mb) (klog ''STEP19 fb present'' k)
      in if fba = 0 \<or> fbw = 0 \<or> fbh = 0 then Some (False, klog ''STEP19 fb dims zero'' k)
         else
           (let k = klog ''[fb] pages mapped'' (k\<lparr>kn_paging := map_framebuffer (paging_at m) fba (fbp * fbh + fbp) (kn_paging k)\<rparr>)
            in case fb_start (shadow_granted m) fba fbw fbh fbp (mb_fb_bpp mb) (sc_con (kn_sys k)) of (ok, c) \<Rightarrow>
                 let k = on_con (\<lambda>_. c) k
                 in if \<not> ok then Some (False, k) else map_option (Pair True) (show_splash m k)))"

definition text_mode :: "console \<Rightarrow> console" where
  "text_mode c =
     terminal_setcolor VGA_COLOR_WHITE VGA_COLOR_BLACK
       (terminal_writeline (lit (''StackOS '' @ em_dash @ '' text mode''))
         (terminal_setcolor VGA_COLOR_LIGHT_BROWN VGA_COLOR_BLACK c))"

definition boot_screen :: "machine \<Rightarrow> multiboot_info \<Rightarrow> kernel \<Rightarrow> kernel option" where
  "boot_screen m mb k =
     do { let k = klog ''STEP18 interrupts ON'' (k\<lparr>kn_if := True\<rparr>);
          let k = com_write (''[mb] flags='' @ serial_hex (mb_flags mb) @ ''\<newline>'') k;
          (gui_ok, k) \<leftarrow> (if mb_flags mb AND MB_FLAG_FB \<noteq> 0 then boot_graphics m mb k
                          else Some (False, klog (''STEP19 no fb '' @ em_dash @ '' text mode'') k));
          Some (if gui_ok then k else on_con text_mode k) }"

section \<open>The whole start\<close>

text \<open>One round of \<^verbatim>\<open>heartbeat_task\<close>, a process that only sleeps.\<close>

definition heartbeat_task :: "u64 \<Rightarrow> u64 \<Rightarrow> u64 \<Rightarrow> procs \<Rightarrow> procs option" where
  "heartbeat_task start now later s = do { s \<leftarrow> proc_sleep start now 10000 s; proc_yield later s }"

definition start_heartbeat :: "machine \<Rightarrow> kernel \<Rightarrow> kernel option" where
  "start_heartbeat m k =
     do { (p, ps) \<leftarrow> proc_create_kernel (code_at m) ''heartbeat'' (heartbeat_at m) (sc_procs (kn_sys k));
          Some (k\<lparr>kn_sys := (kn_sys k)\<lparr>sc_procs := ps\<rparr>\<rparr>) }"

text \<open>\<^verbatim>\<open>kernel_main\<close> up to the call of \<^verbatim>\<open>shell_run\<close>; with another boot loader it halts for ever.\<close>

definition boot_stages :: "machine \<Rightarrow> u32 \<Rightarrow> multiboot_info \<Rightarrow> kernel \<Rightarrow> kernel option" where
  "boot_stages m mb_magic mb k =
     (if mb_magic \<noteq> MULTIBOOT_MAGIC_EXPECTED then None
      else do { k \<leftarrow> boot_core m mb (klog ''STEP2  multiboot OK'' (boot_greet k));
                k \<leftarrow> boot_files m k;
                k \<leftarrow> boot_net m k;
                k \<leftarrow> boot_screen m mb k;
                start_heartbeat m (klog ''STEP20 entering shell'' k) })"

definition kernel_main :: "machine \<Rightarrow> u32 \<Rightarrow> multiboot_info \<Rightarrow> kernel \<Rightarrow> kernel option" where
  "kernel_main m mb_magic mb k =
     do { k \<leftarrow> boot_stages m mb_magic mb k; case kn_com k of None \<Rightarrow> None | Some _ \<Rightarrow> Some k }"

text \<open>What the shell finds; its own variables have their initial values.\<close>

definition enter_shell :: "kernel \<Rightarrow> shell" where
  "enter_shell k =
     \<lparr>sh_out = [], sh_kbd = sc_kbd (kn_sys k), sh_waits = kn_waits k, sh_acc = kn_acc k, sh_procs = sc_procs (kn_sys k),
      sh_net = kn_net k, sh_ata = kn_ata k, sh_pmm = frames (kn_paging k), sh_ticks = tick_count (kn_timer k),
      cwd = 0x2F # replicate (VFS_PATH_MAX - 1) 0, history = replicate (nat HISTORY_MAX) (replicate CMD_BUF 0),
      hist_count = 0, hist_pos = 0, quote_at = 0\<rparr>"

text \<open>The states of the running system at the shell's prompt.\<close>

definition boot_shell :: "machine \<Rightarrow> u32 \<Rightarrow> multiboot_info \<Rightarrow> kernel \<Rightarrow> shell option" where
  "boot_shell m mb_magic mb k = do { k \<leftarrow> kernel_main m mb_magic mb k; shell_start (enter_shell k) }"

end
