(* ===== verification/Fs_Live.thy ===== *)
theory Fs_Live
  imports Usr_Accounts
begin

text \<open>
  The file operations of the running kernel never use a released node or the operations of the wrong
  file system: they keep an invariant of the tree under which all of them end with a result, whatever
  is on the disk, whichever sectors fail and whichever allocations are refused.
\<close>

text \<open>A pointer into the initrd's pool points at one of its nodes; a block holds a node of StackFS.\<close>

definition ref_typed :: "nref \<Rightarrow> bool" where
  "ref_typed r \<longleftrightarrow> (case r of Pool i \<Rightarrow> i < 6 | Kmem a \<Rightarrow> True)"

text \<open>The kernel mounts at the root and at \<^verbatim>\<open>/disk\<close> only.\<close>

definition entry_ok :: "mount_entry \<Rightarrow> bool" where
  "entry_ok e \<longleftrightarrow> length (m_path e) = VFS_PATH_MAX \<and> (m_used e \<longrightarrow> cstr (m_path e) \<in> {lit ''/'', lit ''/disk''})"

definition fs_live :: "vfs \<Rightarrow> bool" where
  "fs_live k \<longleftrightarrow> vfs_ok k \<and> ird k = initrd_ready \<and> (\<forall>a v. knodes k a = Some v \<longrightarrow> v_ops v = Ops_stackfs) \<and>
     (\<forall>r. permanent k r \<longrightarrow> ref_typed r) \<and> length (mounts k) = MAX_MOUNTS \<and> (\<forall>e \<in> set (mounts k). entry_ok e)"

text \<open>A node a caller holds: there, and of a kind.\<close>

definition held :: "vfs \<Rightarrow> nref option \<Rightarrow> bool" where
  "held k n \<longleftrightarrow> (case n of None \<Rightarrow> True | Some r \<Rightarrow> node_at k r \<noteq> None \<and> ref_typed r)"

text \<open>A node the caller may release: none, of the pool, or a block that no mount holds.\<close>

definition owned :: "vfs \<Rightarrow> nref option \<Rightarrow> bool" where
  "owned k n \<longleftrightarrow> held k n \<and> (\<forall>a. n = Some (Kmem a) \<longrightarrow> \<not> permanent k (Kmem a))"

definition typed :: "vfs \<Rightarrow> bool" where
  "typed k \<longleftrightarrow> ird k = initrd_ready \<and> (\<forall>a v. knodes k a = Some v \<longrightarrow> v_ops v = Ops_stackfs) \<and>
     (\<forall>r. permanent k r \<longrightarrow> ref_typed r) \<and> length (mounts k) = MAX_MOUNTS \<and> (\<forall>e \<in> set (mounts k). entry_ok e)"

lemma fs_live_iff: "fs_live k \<longleftrightarrow> vfs_ok k \<and> typed k" by (auto simp: fs_live_def typed_def)

lemma pool_kinds:
  assumes "i < 6"
  shows "v_ops (node_pool initrd_ready ! i) = Ops_initrd_dir \<or> v_ops (node_pool initrd_ready ! i) = Ops_initrd_file"
proof -
  from assms consider "i = 0" | "i = 1" | "i = 2" | "i = 3" | "i = 4" | "i = 5" by linarith
  then show ?thesis by cases (simp_all only: pool_ready, simp_all add: dir_node_def file_node_def)
qed

lemma pool_finddir_typed:
  assumes "i < 6" "v_ops (node_pool initrd_ready ! i) \<noteq> Ops_initrd_file"
    "initrd_finddir initrd_ready (node_pool initrd_ready ! i) nm = Some j"
  shows "j < 6"
proof -
  have bin: "initrd_finddir initrd_ready (dir_node ''bin'' 5 2) nm = None"
    by (simp add: initrd_finddir_def dir_node_def dirs_ready dir_of_def child_named_def first_from.simps [of _ 0 0])
  from assms(1) consider "i = 0" | "i = 1" | "i = 2" | "i = 3" | "i = 4" | "i = 5" by linarith
  then show ?thesis
    using assms(2,3) bin by cases (auto simp: pool_ready pool_ready(2) [unfolded One_nat_def] ready_finddir ready_finddir(2) [unfolded One_nat_def] file_node_def split: if_splits)
qed

lemma made_ops: "bfs_finddir rm v nm s = (Some w, s') \<Longrightarrow> v_ops w = Ops_stackfs"
  by (auto simp: bfs_finddir_def Let_def split: if_splits prod.splits option.splits)

lemma mount_ops: "stackfs_mount rm junk s = (Some w, s') \<Longrightarrow> v_ops w = Ops_stackfs"
  by (auto simp: stackfs_mount_def Let_def split: if_splits option.splits)

lemma write_ops: "v_ops (fst (snd (bfs_write v off sz bs s))) = v_ops v"
  by (auto simp: bfs_write_def Let_def split: prod.splits)

lemma typed_new: "typed k \<Longrightarrow> v_ops v = Ops_stackfs \<Longrightarrow> typed (k\<lparr>sfs_st := s, knodes := (knodes k)(a \<mapsto> v), knext := n\<rparr>)"
  by (auto simp: typed_def permanent_def)

lemma typed_simps [simp]:
  "typed (k\<lparr>sfs_st := s\<rparr>) = typed k" "typed (vprint m k) = typed k"
  by (simp_all add: typed_def permanent_def vprint_def)

lemma typed_release: "typed k \<Longrightarrow> typed (kfree_node r k)" "typed k \<Longrightarrow> typed (free_unless m r k)"
  by (auto simp: typed_def permanent_def kfree_node_def free_unless_def split: nref.splits if_splits)

lemma node_pool_ops: "typed k \<Longrightarrow> i < 6 \<Longrightarrow> node_at k (Pool i) = Some v \<Longrightarrow> v_ops v = v_ops (node_pool initrd_ready ! i)"
  by (auto simp: node_at_def typed_def vnode.truncate_def)

lemma finddir_typed:
  assumes "typed k" "ref_typed r" "vfs_finddir (Some r) c k = Some (child, k')"
  shows "typed k' \<and> (\<forall>x. child = Some x \<longrightarrow> ref_typed x) \<and> mounts k' = mounts k \<and> fs_root k' = fs_root k \<and> knext k \<le> knext k' \<and>
    (\<forall>a. child = Some (Kmem a) \<longrightarrow> knext k \<le> a)"
proof -
  from assms(3) obtain v where v: "node_at k r = Some v" by (cases "node_at k r") (auto simp: vfs_finddir_def)
  show ?thesis
  proof (cases r)
    case (Pool i)
    with assms v node_pool_ops [of k i v] pool_finddir_typed [of i c] show ?thesis
      by (auto simp: vfs_finddir_def ref_typed_def typed_def split: if_splits)
  next
    case (Kmem a)
    obtain w s where w: "bfs_finddir (room k) v c (sfs_st k) = (w, s)" by fastforce
    have "ref_typed (Kmem x)" for x by (simp add: ref_typed_def)
    with assms v w Kmem show ?thesis
      by (auto simp: vfs_finddir_def new_node_def dest: made_ops intro: typed_new split: if_splits option.splits)
  qed
qed

lemma walk_typed:
  assumes "walk_names cs w cur m k = Some (n, k')" and "typed k" and "\<forall>r. cur = Some r \<longrightarrow> ref_typed r"
  shows "typed k' \<and> (\<forall>r. n = Some r \<longrightarrow> ref_typed r) \<and>
    (cs \<noteq> [] \<and> mount_at (foldl extend_path w cs) k = None \<longrightarrow> (\<forall>a. n = Some (Kmem a) \<longrightarrow> knext k \<le> a))"
  using assms
proof (induction cs w cur m k rule: walk_names.induct)
  case (1 w cur m k)
  then show ?case by auto
next
  case (2 c cs w m k)
  then show ?case by auto
next
  case (3 c cs w r m k)
  have next_free: "knext (free_unless m r k) = knext k" for k by (simp add: free_unless_def kfree_node_def)
  show ?case
  proof (cases "VFS_NAME_MAX \<le> length c")
    case True
    with 3 show ?thesis by (auto intro: typed_release)
  next
    case short: False
    show ?thesis
    proof (cases "mount_at (extend_path w c) k")
      case (Some mp)
      have "ref_typed mp" using mount_at_permanent [OF Some] "3.prems"(2) by (simp add: typed_def)
      moreover have "typed (free_unless m r k)" using "3.prems"(2) by (rule typed_release)
      ultimately show ?thesis using "3.IH"(2) [OF short Some] "3.prems"(1) short Some next_free by (cases cs) auto
    next
      case None
      from "3.prems"(1) short None obtain v where v: "node_at k r = Some v" by (auto split: option.splits)
      show ?thesis
      proof (cases "v_flags v AND VFS_DIR = 0")
        case True
        with 3 short None v show ?thesis by (auto intro: typed_release)
      next
        case dir: False
        from "3.prems"(1) short None v dir obtain child k1 where f: "vfs_finddir (Some r) c k = Some (child, k1)"
          "walk_names cs (extend_path w c) child False (free_unless m r k1) = Some (n, k')"
          by (auto simp: bind_eq_Some_conv split: if_splits)
        note t = finddir_typed [OF "3.prems"(2) _ f(1)]
        from "3.prems"(3) have rt: "ref_typed r" by simp
        have "typed (free_unless m r k1)" using t [OF rt] typed_release by blast
        moreover have "mount_at P (free_unless m r k1) = mount_at P k" for P using t [OF rt] by (simp add: mount_at_def)
        ultimately show ?thesis
          using "3.IH"(1) [OF short None v dir f(1) refl f(2)] t [OF rt] f(2) next_free [of k1]
          by (cases cs) (auto intro: order_trans)
      qed
    qed
  qed
qed

section \<open>Opening, finding and releasing\<close>

lemma vfs_ok_simps [simp]: "vfs_ok (k\<lparr>sfs_st := s\<rparr>) = vfs_ok k" "vfs_ok (vprint m k) = vfs_ok k"
  by (simp_all add: vfs_ok_def permanent_def vprint_def cong: nref.case_cong)

lemma mount_paths:
  assumes "typed k" "mount_at P k = Some r"
  shows "P = lit ''/'' \<or> P = lit ''/disk''"
proof -
  from assms(2) obtain i where i: "i < MAX_MOUNTS" "m_used (mounts k ! i)" "cstr (m_path (mounts k ! i)) = P"
    by (auto simp: mount_at_def first_from_Some)
  with assms(1) have "entry_ok (mounts k ! i)" by (simp add: typed_def)
  with i show ?thesis by (auto simp: entry_ok_def)
qed

lemma walk_live:
  assumes "vfs_ok k" "walk_inv k n m k'"
  shows "vfs_ok k'" "permanent k' = permanent k" "knext k \<le> knext k'" "\<forall>r. n = Some r \<longrightarrow> node_at k' r \<noteq> None"
proof -
  show p: "permanent k' = permanent k" using assms(2) by (simp add: walk_inv_def permanent_def fun_eq_iff)
  show le: "knext k \<le> knext k'" using assms(2) by (simp add: walk_inv_def)
  have "a < knext k' \<and> knodes k' a \<noteq> None" if "permanent k (Kmem a)" for a
  proof -
    have "a < knext k" "knodes k a \<noteq> None" using assms(1) that by (auto simp: vfs_ok_def)
    with le assms(2) show ?thesis by (simp add: walk_inv_def)
  qed
  with p assms(2) show "vfs_ok k'" by (auto simp: vfs_ok_def walk_inv_def split: nref.split)
  show "\<forall>r. n = Some r \<longrightarrow> node_at k' r \<noteq> None" using walk_inv_live assms by blast
qed

lemma open_live:
  assumes "fs_live k"
  obtains n k' where "vfs_open path k = Some (n, k')" "fs_live k'" "held k' n"
proof -
  have ok: "vfs_ok k" and t: "typed k" using assms by (simp_all add: fs_live_iff)
  obtain n k' m where o: "vfs_open path k = Some (n, k')" "walk_inv k n m k'" using vfs_open_inv [OF ok, of path] by blast
  have "typed k' \<and> (\<forall>r. n = Some r \<longrightarrow> ref_typed r)"
  proof (cases rule: vfs_open_cases [of k path])
    case (root r)
    with o t show ?thesis by (simp add: typed_def permanent_def)
  next
    case (mount r)
    then have "n = Some r" "k' = k" "ref_typed r" using o(1) t mount_at_permanent [OF mount(1)] by (auto simp: typed_def)
    with t show ?thesis by simp
  next
    case (walk r)
    have "ref_typed r" using t walk(1) by (simp add: typed_def permanent_def)
    with walk_typed [OF _ t] walk(4) o(1) show ?thesis by (metis option.inject)
  qed (use o t in simp)
  with walk_live [OF ok o(2)] o(1) that show thesis by (auto simp: fs_live_iff held_def split: option.split)
qed

text \<open>A path whose end is no mount point opens to a node of the caller's.\<close>

lemma open_owned:
  assumes "fs_live k" and "vfs_open path k = Some (n, k')"
    and P: "P = strip_slash (take (VFS_PATH_MAX - 1) (cstr path))" "P \<noteq> lit ''/''" "P \<noteq> lit ''/disk''" "names P \<noteq> []"
      "foldl extend_path [0x2F] (names P) \<notin> {lit ''/'', lit ''/disk''}"
  shows "owned k' n"
proof -
  have ok: "vfs_ok k" and t: "typed k" using assms(1) by (simp_all add: fs_live_iff)
  obtain m where o: "walk_inv k n m k'" using vfs_open_inv [OF ok, of path] assms(2) by auto
  have h: "held k' n" using open_live [OF assms(1), of path] assms(2) by (metis Pair_inject option.inject)
  have fresh: "\<forall>a. n = Some (Kmem a) \<longrightarrow> knext k \<le> a"
  proof (cases rule: vfs_open_cases [of k path])
    case (root r)
    with P(1,2) show ?thesis by (simp add: lit_def)
  next
    case (mount r)
    with mount_paths [OF t, of P] P(1-3) show ?thesis by auto
  next
    case (walk r)
    have "mount_at (foldl extend_path [0x2F] (names P)) k = None"
      using mount_paths [OF t] P(5) by (cases "mount_at (foldl extend_path [0x2F] (names P)) k") auto
    moreover have "ref_typed r" using t walk(1) by (simp add: typed_def permanent_def)
    ultimately show ?thesis using walk_typed [OF _ t, of "names P" "[0x2F]" "Some r" True n k'] walk(4) assms(2) P(1,4) by auto
  qed (use assms(2) in simp)
  have "\<not> permanent k' (Kmem a)" if "n = Some (Kmem a)" for a
    using that fresh ok walk_live(2) [OF ok o] by (auto simp: vfs_ok_def)
  with h show ?thesis by (simp add: owned_def)
qed

lemma finddir_live:
  assumes "fs_live k" "held k n"
  obtains n' k' where "vfs_finddir n c k = Some (n', k')" "fs_live k'" "owned k' n'"
proof (cases n)
  case None
  with assms that show thesis by (simp add: vfs_finddir_def owned_def held_def)
next
  case (Some r)
  have ok: "vfs_ok k" and t: "typed k" using assms(1) by (simp_all add: fs_live_iff)
  from Some assms(2) have r: "node_at k r \<noteq> None" "ref_typed r" by (simp_all add: held_def)
  then have "vfs_finddir (Some r) c k \<noteq> None" by (auto simp: vfs_finddir_def)
  then obtain n' k' where f: "vfs_finddir (Some r) c k = Some (n', k')" by fastforce
  note ft = finddir_typed [OF t r(2) f]
  from f have "vfs_ok k' \<and> (\<forall>x. n' = Some x \<longrightarrow> node_at k' x \<noteq> None)"
  proof (cases rule: finddir_cases)
    case pool
    with ok show ?thesis by (auto simp: node_at_def)
  next
    case (none s)
    with ok show ?thesis by simp
  next
    case (made s v)
    with ok show ?thesis by (fastforce simp: vfs_ok_def permanent_def node_at_def split: nref.splits)
  qed
  moreover have "\<not> permanent k' (Kmem a)" if "n' = Some (Kmem a)" for a
  proof -
    have "permanent k' = permanent k" using ft by (simp add: permanent_def fun_eq_iff)
    with ft that ok show ?thesis by (auto simp: vfs_ok_def)
  qed
  ultimately show thesis using f ft that Some by (auto simp: fs_live_iff owned_def held_def split: option.split)
qed

lemma release_live:
  assumes "fs_live k" "owned k (Some r)"
  shows "fs_live (kfree_node r k)"
proof -
  have ok: "vfs_ok k" using assms(1) by (simp add: fs_live_iff)
  have p: "permanent (kfree_node r k) = permanent k" by (simp add: permanent_def kfree_node_def fun_eq_iff)
  have "vfs_ok (kfree_node r k)"
    using ok assms(2) by (auto simp: vfs_ok_def p) (auto simp: kfree_node_def owned_def split: nref.splits)
  with assms(1) typed_release(1) show ?thesis by (simp add: fs_live_iff)
qed

section \<open>Total correctness\<close>

text \<open>The operation ends, and its result satisfies \<open>P\<close>.\<close>

definition gives :: "'r option \<Rightarrow> ('r \<Rightarrow> bool) \<Rightarrow> bool" where
  "gives x P \<longleftrightarrow> (\<exists>y. x = Some y \<and> P y)"

lemma gives_Some [simp]: "gives (Some y) P = P y" by (simp add: gives_def)

lemma gives_bind: "gives x P \<Longrightarrow> (\<And>y. P y \<Longrightarrow> gives (f y) Q) \<Longrightarrow> gives (Option.bind x f) Q"
  by (auto simp: gives_def)

lemma gives_weaken: "gives x P \<Longrightarrow> (\<And>y. P y \<Longrightarrow> Q y) \<Longrightarrow> gives x Q"
  by (auto simp: gives_def)

lemma gives_map: "gives (map_option f x) P \<longleftrightarrow> gives x (P \<circ> f)"
  by (cases x) (simp_all add: gives_def)

lemma gives_open: "fs_live k \<Longrightarrow> gives (vfs_open path k) (\<lambda>(n, k). fs_live k \<and> held k n)"
  by (rule open_live [of k path]) (auto simp: gives_def)

lemma finddir_held:
  assumes "vfs_finddir n c k = Some (n', k')" "held k e"
  shows "held k' e"
proof (cases n)
  case None
  with assms show ?thesis by (simp add: vfs_finddir_def)
next
  case (Some r)
  with assms(1) have "vfs_finddir (Some r) c k = Some (n', k')" by simp
  then show ?thesis
  proof (cases rule: finddir_cases)
    case pool
    with assms(2) show ?thesis by simp
  next
    case (none s)
    have "node_at k' x = node_at k x" for x by (simp add: none(1) node_at_def split: nref.split)
    with assms(2) show ?thesis by (simp add: held_def split: option.splits)
  next
    case (made s v)
    have "node_at k x \<noteq> None \<Longrightarrow> node_at k' x \<noteq> None" for x by (simp add: made(1) node_at_def split: nref.splits)
    with assms(2) show ?thesis by (auto simp: held_def split: option.splits)
  qed
qed

lemma gives_finddir:
  "fs_live k \<Longrightarrow> held k n \<Longrightarrow> gives (vfs_finddir n c k) (\<lambda>(m, k'). fs_live k' \<and> owned k' m \<and> (\<forall>e. held k e \<longrightarrow> held k' e))"
  by (rule finddir_live [of k n c]) (auto simp: gives_def intro: finddir_held)

lemma gives_has_make: "held k n \<Longrightarrow> gives (has_make n k) (\<lambda>b. b \<longrightarrow> n \<noteq> None)"
  by (auto simp: gives_def has_make_def held_def split: option.splits)

lemma sfs_live [simp]:
  "fs_live (k\<lparr>sfs_st := s\<rparr>) = fs_live k" "held (k\<lparr>sfs_st := s\<rparr>) n = held k n" "owned (k\<lparr>sfs_st := s\<rparr>) n = owned k n"
proof -
  have n: "node_at (k\<lparr>sfs_st := s\<rparr>) r = node_at k r" for r by (simp add: node_at_def split: nref.split)
  then show "held (k\<lparr>sfs_st := s\<rparr>) n = held k n" by (simp add: held_def cong: option.case_cong)
  with n show "owned (k\<lparr>sfs_st := s\<rparr>) n = owned k n" by (simp add: owned_def permanent_def)
qed (simp add: fs_live_iff)

lemma print_live [simp]: "fs_live (vprint m k) = fs_live k" "fs_live (say fmt args k) = fs_live k"
  by (simp_all add: fs_live_iff say_def split: option.split)

lemma gives_make:
  assumes "fs_live k" "held k n" "n \<noteq> None"
  shows "gives (op_mkdir n nm k) (\<lambda>k. fs_live k \<and> held k n)" "gives (op_create n nm k) (\<lambda>k. fs_live k \<and> held k n)"
proof -
  from assms obtain r v where "n = Some r" "node_at k r = Some v" by (auto simp: held_def)
  with assms show "gives (op_mkdir n nm k) (\<lambda>k. fs_live k \<and> held k n)" "gives (op_create n nm k) (\<lambda>k. fs_live k \<and> held k n)"
    by (simp_all add: op_mkdir_def op_create_def)
qed

lemma gives_write:
  assumes "fs_live k" "owned k n"
  shows "gives (vfs_write n off sz bs k) (\<lambda>(c, k). fs_live k \<and> owned k n)"
proof (cases n)
  case None
  with assms show ?thesis by (simp add: vfs_write_def)
next
  case (Some r)
  have t: "typed k" and ok: "vfs_ok k" using assms(1) by (simp_all add: fs_live_iff)
  obtain v where v: "node_at k r = Some v" "ref_typed r" using assms(2) Some by (auto simp: owned_def held_def)
  show ?thesis
  proof (cases r)
    case (Pool i)
    with v node_pool_ops [OF t, of i v] pool_kinds [of i] Some assms show ?thesis by (auto simp: vfs_write_def ref_typed_def)
  next
    case (Kmem a)
    then have o: "v_ops v = Ops_stackfs" "knodes k a = Some v" using v t by (simp_all add: node_at_def typed_def)
    obtain c w s where w: "bfs_write v off sz bs (sfs_st k) = (c, w, s)" by (metis surj_pair)
    let ?k = "k\<lparr>sfs_st := s, knodes := (knodes k)(a \<mapsto> w)\<rparr>"
    have "v_ops w = Ops_stackfs" using write_ops [of v off sz bs "sfs_st k"] w o by simp
    then have "typed ?k" using t by (auto simp: typed_def permanent_def)
    moreover have "vfs_ok ?k" using ok o(2) by (auto simp: vfs_ok_def permanent_def split: nref.splits)
    moreover have "owned ?k n" using assms(2) Some Kmem by (simp add: owned_def held_def node_at_def permanent_def ref_typed_def)
    ultimately show ?thesis using Some Kmem v o w by (simp add: vfs_write_def fs_live_iff)
  qed
qed

lemma gives_read:
  assumes "fs_live k" "held k n"
  shows "gives (vfs_read n off sz bs k) (\<lambda>(c, b, k'). fs_live k' \<and> (\<forall>n. owned k n \<longrightarrow> owned k' n))"
proof (cases n)
  case None
  with assms show ?thesis by (simp add: vfs_read_def)
next
  case (Some r)
  have t: "typed k" using assms(1) by (simp add: fs_live_iff)
  obtain v where v: "node_at k r = Some v" "ref_typed r" using assms(2) Some by (auto simp: held_def)
  obtain c b s where w: "bfs_read v off sz bs (sfs_st k) = (c, b, s)" by (metis surj_pair)
  show ?thesis
  proof (cases r)
    case (Pool i)
    with v node_pool_ops [OF t, of i v] pool_kinds [of i] Some assms show ?thesis
      by (auto simp: vfs_read_def ref_typed_def split: prod.split)
  next
    case (Kmem a)
    then have "v_ops v = Ops_stackfs" using v t by (simp add: node_at_def typed_def)
    then show ?thesis using Some v w assms by (simp add: vfs_read_def)
  qed
qed

lemma gives_node: "held k (Some r) \<Longrightarrow> gives (node_at k r) (\<lambda>_. True)"
  by (auto simp: gives_def held_def)

lemma owned_held: "owned k n \<Longrightarrow> held k n" by (simp add: owned_def)

section \<open>The accounts\<close>

lemma gives_open_passwd_path:
  assumes "fs_live k"
  shows "gives (vfs_open (lit ''/disk/etc/passwd'') k) (\<lambda>(n, k). fs_live k \<and> owned k n)"
proof -
  obtain n k' where o: "vfs_open (lit ''/disk/etc/passwd'') k = Some (n, k')" "fs_live k'" using open_live [OF assms] by metis
  have "owned k' n"
    by (rule open_owned [OF assms o(1) refl]) (simp_all add: lit_def strip_slash_def VFS_PATH_MAX_def extend_path_def)
  with o show ?thesis by simp
qed

lemma held_None [simp]: "held k None" "owned k None" by (simp_all add: held_def owned_def)

lemma gives_open_etc: "fs_live k \<Longrightarrow> gives (open_etc k) (\<lambda>(n, k). fs_live k \<and> held k n)"
  unfolding open_etc_def
  by (rule gives_bind [OF gives_open])
     (auto intro!: gives_bind [OF gives_open] gives_bind [OF gives_has_make] gives_bind [OF gives_make(1)] gives_open split: if_splits)

lemma gives_open_passwd:
  "fs_live k \<Longrightarrow> held k etc \<Longrightarrow> gives (open_passwd etc k) (\<lambda>(go, f, k). fs_live k \<and> owned k f)"
  unfolding open_passwd_def
  by (rule gives_bind [OF gives_finddir])
     (auto intro!: gives_bind [OF gives_open] gives_bind [OF gives_has_make] gives_bind [OF gives_make(2)] gives_bind [OF gives_finddir]
       intro: owned_held split: if_splits)

text \<open>What saving leaves alone.\<close>

definition same_table :: "accounts \<Rightarrow> accounts \<Rightarrow> bool" where
  "same_table a b \<longleftrightarrow> users b = users a \<and> user_count b = user_count a \<and> current_user b = current_user a"

lemma gives_users_save: "fs_live (afs a) \<Longrightarrow> gives (users_save a) (\<lambda>b. fs_live (afs b) \<and> same_table a b)"
  unfolding users_save_def Let_def same_table_def
  by (auto intro!: gives_bind [OF gives_open_etc] gives_bind [OF gives_open_passwd] gives_bind [OF gives_write] release_live)

lemma gives_users_load:
  "fs_live (afs a) \<Longrightarrow> gives (users_load a) (\<lambda>(n, b). fs_live (afs b) \<and> current_user b = current_user a \<and> (0 < n \<longrightarrow> user_count b = n))"
  unfolding users_load_def Let_def
  by (auto intro!: gives_bind [OF gives_open_passwd_path] gives_bind [OF gives_node] gives_bind [OF gives_read] release_live
      simp: owned_held split: option.split prod.split)

lemma gives_user_init: "fs_live (afs a) \<Longrightarrow> gives (user_init a) (\<lambda>b. fs_live (afs b) \<and> current_user b = None \<and> 0 < user_count b)"
  unfolding user_init_def Let_def
  by (auto intro!: gives_bind [OF gives_users_load] simp: set_user_def split: if_splits)

section \<open>Mounting\<close>

lemma mount_live:
  assumes "fs_live k" "held k (Some r)" "path \<in> {lit ''/'', lit ''/disk''}"
  shows "fs_live (snd (vfs_mount path r k))"
proof (cases "first_from (\<lambda>i. \<not> m_used (mounts k ! i)) 0 MAX_MOUNTS")
  case None
  with assms(1) show ?thesis by (simp add: vfs_mount_def)
next
  case (Some i)
  have ok: "vfs_ok k" and t: "typed k" using assms(1) by (simp_all add: fs_live_iff)
  define e where "e = (mounts k ! i)\<lparr>m_path := str_copy (m_path (mounts k ! i)) path VFS_PATH_MAX, m_node := r, m_used := True\<rparr>"
  define k1 where "k1 = k\<lparr>mounts := (mounts k)[i := e], fs_root := (if str_cmp path (lit ''/'') = 0 then Some r else fs_root k)\<rparr>"
  have i: "i < MAX_MOUNTS" using Some by (auto simp: first_from_Some)
  have m: "fs_live (snd (vfs_mount path r k)) = fs_live k1"
    using Some by (simp add: vfs_mount_def Let_def e_def k1_def)
  have "entry_ok (mounts k ! i)" using t i by (simp add: typed_def)
  then have l: "length (m_path (mounts k ! i)) = VFS_PATH_MAX" by (simp add: entry_ok_def)
  have "cstr path = path" "length path \<le> 5" using assms(3) by (auto simp: lit_def)
  then have "entry_ok e"
    using l assms(3) str_copy_props [of VFS_PATH_MAX "m_path (mounts k ! i)" path] by (auto simp: entry_ok_def e_def VFS_PATH_MAX_def)
  then have entries: "\<forall>x \<in> set (mounts k1). entry_ok x"
    using t by (auto simp: k1_def typed_def dest: set_update_subset_insert [THEN subsetD])
  have p: "permanent k1 x \<Longrightarrow> permanent k x \<or> x = r" for x
    using i t by (auto simp: permanent_def k1_def e_def nth_list_update typed_def split: if_splits)
  have "permanent k1 x \<longrightarrow> ref_typed x" for x using p [of x] t assms(2) by (auto simp: typed_def held_def)
  moreover have "ird k1 = ird k" "knodes k1 = knodes k" "length (mounts k1) = length (mounts k)" by (simp_all add: k1_def)
  ultimately have "typed k1" using t entries by (simp add: typed_def)
  moreover have "vfs_ok k1"
    unfolding vfs_ok_def
  proof (intro conjI allI impI)
    fix x
    assume "permanent k1 x"
    then consider "permanent k x" | "x = r" using p by blast
    then have "case x of Pool _ \<Rightarrow> True | Kmem a \<Rightarrow> a < knext k \<and> knodes k a \<noteq> None"
    proof cases
      case 1
      with ok show ?thesis by (simp add: vfs_ok_def)
    next
      case 2
      have "a < knext k" if "knodes k a = Some v" for a v
        using ok that by (cases "a < knext k") (simp_all add: vfs_ok_def not_less)
      with 2 assms(2) show ?thesis by (auto simp: held_def node_at_def split: nref.splits)
    qed
    then show "case x of Pool _ \<Rightarrow> True | Kmem a \<Rightarrow> a < knext k1 \<and> knodes k1 a \<noteq> None"
      by (simp add: k1_def cong: nref.case_cong)
  qed (use ok in \<open>simp add: vfs_ok_def k1_def\<close>)
  ultimately show ?thesis unfolding m by (simp add: fs_live_iff)
qed

text \<open>Booting: the tree of the initrd, at the root.\<close>

lemma boot_live: "gives (initrd_init (vfs_boot s g)) (\<lambda>k. fs_live k \<and> sfs_st k = s)"
proof -
  let ?k = "(vfs_boot s g)\<lparr>ird := initrd_ready\<rparr>"
  have "entry_ok no_mount" by (simp add: entry_ok_def no_mount_def)
  then have "fs_live ?k"
    by (auto simp: fs_live_def vfs_ok_def permanent_def vfs_boot_def no_mount_def)
  moreover have "held ?k (Some (Pool 0))" by (simp add: held_def ref_typed_def node_at_def)
  ultimately have "fs_live (snd (vfs_mount (lit ''/'') (Pool 0) ?k))" by (intro mount_live) simp_all
  moreover have "sfs_st (snd (vfs_mount path r k)) = sfs_st k" for path r k
    by (simp add: vfs_mount_def Let_def vprint_def split: option.split)
  moreover have "initrd_init (vfs_boot s g) = Some (snd (vfs_mount (lit ''/'') (Pool 0) ?k))"
    by (simp add: initrd_init_def initrd_built vfs_boot_def)
  ultimately show ?thesis by (simp add: vfs_boot_def)
qed

end
