(* ===== verification/Nic_Start.thy ===== *)
theory Nic_Start
  imports Drv_E1000
begin

text \<open>
  What the network card's start asks of the rest of the kernel: the pages it maps, each to itself, and the
  one interrupt line it takes, whatever the bus and the card answer.
\<close>

definition asks :: "'a e1000_scheme \<Rightarrow> (u32 \<times> u32 \<times> u32) list \<times> u8 list" where
  "asks s = (pages_mapped s, irq_handlers s)"

text \<open>Port, register and ring accesses, and the messages, ask for nothing.\<close>

lemma asks_io [simp]:
  "asks (access a s) = asks s" "asks (serial_write m s) = asks s" "asks (outl p v s) = asks s" "asks (snd (inl dev p s)) = asks s"
  "asks (e_wr r x s) = asks s" "asks (snd (e_rd dev r s)) = asks s" "asks (put_tx t c f w s) = asks s" "asks (put_rx t c g w s) = asks s"
  by (simp_all add: put_tx_def put_rx_def asks_def access_def serial_write_def outl_def inl_def e_wr_def e_rd_def mwr_def mrd_def Let_def)

lemma asks_snd:
  "inl dev p s = (x, t) \<Longrightarrow> asks t = asks s" "e_rd dev r s = (y, t) \<Longrightarrow> asks t = asks s"
  using asks_io(4) [of dev p s] asks_io(6) [of dev r s] by simp_all

lemma asks_pci [simp]:
  "asks (snd (pci_read32 dev b sl f off s)) = asks s" "asks (snd (pci_read16 dev b sl f off s)) = asks s"
  "asks (snd (pci_read8 dev b sl f off s)) = asks s" "asks (pci_write16 dev b sl f off v s) = asks s"
  by (simp_all add: pci_read32_def pci_read16_def pci_read8_def pci_write16_def Let_def split_beta)

lemma asks_bars [simp]: "asks (snd (decode_bars dev b sl f d s)) = asks s"
  unfolding decode_bars_def
  by (rule for_loop_keeps [where P = "\<lambda>ds. asks (snd ds) = asks s"]) (auto simp: split_beta)

lemma asks_scan [simp]:
  fixes s :: "'a e1000_scheme"
  shows "asks (snd (pci_scan dev vendor device slot d s)) = asks s"
proof (induction "32 - slot" arbitrary: slot s rule: less_induct)
  case less
  have "asks (snd (pci_scan dev vendor device (Suc slot) d t)) = asks t" if "slot < 32" for t :: "'a e1000_scheme"
    using less [of "Suc slot" t] that by simp
  then show ?case by (subst pci_scan.simps) (auto simp: Let_def split_beta)
qed

lemma asks_enable [simp]: "asks (pci_enable_device dev d s) = asks s"
  by (simp add: pci_enable_device_def Let_def split_beta)

lemma asks_pci_init [simp]: "asks (pci_init dev s) = asks s"
  unfolding pci_init_def Let_def asks_io
  by (rule for_loop_keeps [where P = "\<lambda>t. asks t = asks s"]) (auto simp: Let_def split_beta)

lemma asks_poll:
  assumes "\<And>s. asks (snd (ready s)) = asks s"
  shows "asks (snd (poll n ready s)) = asks s"
proof (induction n arbitrary: s)
  case (Suc n)
  obtain b t where r: "ready s = (b, t)" by fastforce
  then have "asks t = asks s" using assms [of s] by simp
  with r Suc show ?case by (cases b) simp_all
qed simp

lemma asks_eeprom [simp]: "asks (snd (eeprom_poll dev t s)) = asks s"
proof (induction t arbitrary: s rule: less_induct)
  case (less t)
  show ?case
    by (subst eeprom_poll.simps) (use less in \<open>auto simp: Let_def split_beta\<close>)
qed

lemma asks_mac [simp]: "asks (read_mac dev s) = asks s"
proof -
  have "asks (snd (eeprom_read dev a s)) = asks s" for a and s :: "'a e1000_scheme"
    by (simp add: eeprom_read_def Let_def split_beta)
  moreover have "asks (s\<lparr>nic_mac := m\<rparr>) = asks s" for m and s :: "'a e1000_scheme" by (simp add: asks_def)
  ultimately show ?thesis by (simp add: read_mac_def Let_def split_beta)
qed

lemma asks_rings [simp]:
  "asks (s\<lparr>tx_ring := a\<rparr>) = asks s" "asks (s\<lparr>rx_ring := b\<rparr>) = asks s" "asks (s\<lparr>tx_tail := n\<rparr>) = asks s" "asks (s\<lparr>rx_tail := n\<rparr>) = asks s"
  "asks (s\<lparr>mmio_base := x\<rparr>) = asks s" "asks (s\<lparr>e1000_ready := g\<rparr>) = asks s"
  by (simp_all add: asks_def)

lemma asks_loop: "(\<And>i s. asks (f i s) = asks s) \<Longrightarrow> asks (for_loop a b f s) = asks s"
  by (rule for_loop_keeps [where P = "\<lambda>t. asks t = asks s"]) simp_all

lemma asks_init [simp]: "asks (init_tx r b s) = asks s" "asks (init_rx r b s) = asks s"
  by (simp_all add: init_tx_def init_rx_def Let_def asks_loop)

text \<open>The outcome: new pages, all mapped to themselves as present and writable, and at most one line.\<close>

definition asked :: "'a e1000_scheme \<Rightarrow> 'a e1000_scheme \<Rightarrow> bool" where
  "asked s t \<longleftrightarrow> (\<exists>ps ls. pages_mapped t = ps @ pages_mapped s \<and> irq_handlers t = ls @ irq_handlers s \<and>
     (\<forall>(v, ph, fl) \<in> set ps. ph = v \<and> fl = 3) \<and> length ls \<le> 1)"

lemma asked_nothing: "asks t = asks s \<Longrightarrow> asked s t"
  by (simp add: asks_def asked_def)

lemma asked_after: "asks u = asks t \<Longrightarrow> asked s t \<Longrightarrow> asked s u" by (simp add: asks_def asked_def)

lemma asked_from: "asks t = asks s \<Longrightarrow> asked t u \<Longrightarrow> asked s u" by (simp add: asks_def asked_def)

lemma reset_asks [simp]: "asks (snd (poll n (reset_done dev) s)) = asks s"
  by (rule asks_poll) (simp add: reset_done_def Let_def split_beta)

lemma start_asked:
  fixes s :: "'a e1000_scheme"
  shows "asked s (snd (e1000_start dev mem l mmio s))"
proof -
  define map1 where "map1 = (\<lambda>i (s :: 'a e1000_scheme). let a = mmio + of_nat i * 4096 in s\<lparr>pages_mapped := (a, a, 0x3) # pages_mapped s\<rparr>)"
  define s1 where "s1 = serial_write (''[e1000] MMIO mapped at '' @ e_hex32 mmio @ ''\<newline>'') (s\<lparr>mmio_base := mmio\<rparr>)"
  have a1: "asks s1 = asks s" by (simp add: s1_def)
  define s2 where "s2 = for_loop 0 32 map1 s1"
  have "irq_handlers s2 = irq_handlers s1 \<and> (\<exists>ps. pages_mapped s2 = ps @ pages_mapped s1 \<and> (\<forall>(v, ph, fl) \<in> set ps. ph = v \<and> fl = 3))"
    unfolding s2_def
  proof (rule for_loop_keeps)
    fix i and t :: "'a e1000_scheme"
    assume "irq_handlers t = irq_handlers s1 \<and> (\<exists>ps. pages_mapped t = ps @ pages_mapped s1 \<and> (\<forall>(v, ph, fl) \<in> set ps. ph = v \<and> fl = 3))"
    then obtain ps where "irq_handlers t = irq_handlers s1" "pages_mapped t = ps @ pages_mapped s1" "\<forall>(v, ph, fl) \<in> set ps. ph = v \<and> fl = 3" by blast
    then show "irq_handlers (map1 i t) = irq_handlers s1 \<and>
        (\<exists>ps. pages_mapped (map1 i t) = ps @ pages_mapped s1 \<and> (\<forall>(v, ph, fl) \<in> set ps. ph = v \<and> fl = 3))"
      by (auto simp: map1_def Let_def)
  qed simp
  then obtain ps where 2: "irq_handlers s2 = irq_handlers s" "pages_mapped s2 = ps @ pages_mapped s" "\<forall>(v, ph, fl) \<in> set ps. ph = v \<and> fl = 3"
    using a1 by (auto simp: asks_def)
  then have k2: "asked s s2" by (auto simp: asked_def)
  obtain v s3 where r: "e_rd dev E1000_CTRL (serial_write ''[e1000] MMIO pages mapped\<newline>'' s2) = (v, s3)" by fastforce
  obtain ok s4 where p: "poll 100000 (reset_done dev) (e_wr E1000_CTRL (v OR CTRL_RST) s3) = (ok, s4)" by fastforce
  have a4: "asks s4 = asks s2"
    using asks_snd(2) [OF r] reset_asks [of 100000 dev "e_wr E1000_CTRL (v OR CTRL_RST) s3"] p by simp
  have line: "asked s (t\<lparr>irq_handlers := l # irq_handlers t, e1000_ready := True\<rparr>)" if "asks t = asks s2" for t :: "'a e1000_scheme"
    using 2 that by (auto simp: asked_def asks_def intro: exI [of _ "[l]"])
  note e = e1000_start_def Let_def s1_def [symmetric] map1_def [unfolded Let_def, symmetric] s2_def [symmetric] r p prod.case
  show ?thesis
  proof (cases ok)
    case False
    then show ?thesis unfolding e using a4 k2 by (auto intro: asked_after)
  next
    case True
    obtain w s5 where r5: "e_rd dev E1000_CTRL (serial_write ''[e1000] reset OK\<newline>'' s4) = (w, s5)" by fastforce
    have a5: "asks s5 = asks s2" using asks_snd(2) [OF r5] a4 by simp
    then show ?thesis unfolding e using True k2
      by (auto simp: r5 a5 intro!: asked_after [OF asks_io(2)] line intro: asked_after)
  qed
qed

lemma init_asked:
  fixes s :: "'a e1000_scheme"
  shows "asked s (snd (e1000_init dev mem d s))"
proof -
  obtain x s1 where f: "pci_find_device dev E1000_VENDOR E1000_DEVICE d s = (x, s1)" by fastforce
  then have "s1 = snd (pci_scan dev E1000_VENDOR E1000_DEVICE 0 d s)" by (simp add: pci_find_device_def)
  then have a1: "asks s1 = asks s" by simp
  show ?thesis
  proof (cases x)
    case None
    with f a1 show ?thesis by (simp add: e1000_init_def asked_nothing)
  next
    case (Some d')
    with f a1 show ?thesis
      by (auto simp: e1000_init_def Let_def split_beta intro!: asked_nothing asked_from [OF _ start_asked])
  qed
qed

end
