(* ===== verification/Kernel_Boot.thy ===== *)
theory Kernel_Boot
  imports Kernel_Main Fs_Live Nic_Start Sh_Props
begin

text \<open>
  What the start of the kernel establishes, and that it ends. The lemmas follow its stages: memory and
  the processor's tables, the processes, storage and accounts, the network and the screen.
\<close>

section \<open>The kernel's address space\<close>

text \<open>
  The directory is well formed, its tables are not among the free frames, and the first 8 MiB, where
  the kernel, its heap and its tables are, translate to themselves.
\<close>

definition low_identity :: "u32 \<Rightarrow> paging \<Rightarrow> bool" where
  "low_identity dir p \<longleftrightarrow> dir_ok p dir \<and> (\<forall>v < 0x800000. paging_virt_to_phys (pmem p) dir v = v)"

text \<open>What the linker decides: the kernel's image ends in the first 8 MiB, and its tables and its heap are in it.\<close>

definition image_placed :: "machine \<Rightarrow> bool" where
  "image_placed m \<longleftrightarrow> image_ok (paging_at m) \<and> kernel_end m \<le> 0x800000 \<and>
     (\<forall>t \<in> {kernel_dir (paging_at m), table0 (paging_at m), table1 (paging_at m), high_table0 (paging_at m), high_table1 (paging_at m)}.
        t < kernel_end m) \<and>
     heap_region m \<noteq> 0 \<and> unat (heap_region m) + unat KERNEL_HEAP_SIZE \<le> unat (kernel_end m)"

lemma image_not_free:
  assumes "image_placed m" "page_aligned t" "t < kernel_end m"
  shows "t \<notin> free_pages (pmm_init kb (kernel_end m) f)"
proof
  assume "t \<in> free_pages (pmm_init kb (kernel_end m) f)"
  then obtain n where n: "t = page_of n" "init_first (kernel_end m) \<le> n" "n < init_total kb"
    by (auto simp: free_pages_def pmm_init_abs)
  have e: "unat (kernel_end m) \<le> 8388608" using assms(1) by (simp add: image_placed_def word_le_nat_alt)
  have "kernel_end m + PAGE_SIZE - 1 = kernel_end m + 4095" by (simp add: PAGE_SIZE_def)
  moreover have "unat (kernel_end m + 4095) = unat (kernel_end m) + 4095"
    using e by (subst unat_add_no_wrap) simp_all
  ultimately have s: "unat (kernel_end m + PAGE_SIZE - 1) = unat (kernel_end m) + 4095" by (simp only:)
  then have "init_first (kernel_end m) = (unat (kernel_end m) + 4095) div 4096"
    by (simp add: init_first_def unat_div PAGE_SIZE_def)
  moreover have "unat t = n * 4096" using n init_total_le [of kb] unat_page [of n] by (simp add: page_of_def)
  moreover have "unat t < unat (kernel_end m)" using assms(3) by (simp add: word_less_nat_alt)
  ultimately show False using n(2) by linarith
qed

lemma same_page_identity:
  assumes "drop_bit 12 v = drop_bit 12 a"
  shows "frame_of a + page_off v = v"
proof -
  have "frame_of a = frame_of v"
  proof (rule bit_word_eqI)
    fix n
    assume "n < LENGTH(32)"
    have "bit (drop_bit 12 v) (n - 12) = bit (drop_bit 12 a) (n - 12)" by (simp add: assms)
    then show "bit (frame_of a) n = bit (frame_of v) n" by (auto simp: frame_of_bit bit_drop_bit_eq)
  qed
  moreover have "frame_of v + page_off v = v" using frame_off_sum [of "frame_of v" v] frame_plus_off [of v] by simp
  ultimately show ?thesis by simp
qed

text \<open>Mapping a page to itself.\<close>

lemma map_full:
  assumes "pmm_inv (frames p)" "\<not> present (get_entry (pmem p) dir (dir_idx a))" "free_pages (frames p) = {}"
  shows "paging_map_page dir a b fl p = p"
  using assms alloc_table_spec [OF assms(1)] by (simp add: paging_map_page_def present_def)

lemma map_identity:
  assumes "low_identity dir p" "frame_of fl = 0"
  shows "low_identity dir (paging_map_page dir a a fl p)"
proof (cases "present (get_entry (pmem p) dir (dir_idx a)) \<or> free_pages (frames p) \<noteq> {}")
  case True
  have ok: "dir_ok p dir" using assms(1) by (simp add: low_identity_def)
  show ?thesis
    using map_page_spec [OF ok assms(2) True, of a] assms(1) same_page_identity by (auto simp: low_identity_def Let_def)
next
  case False
  then have "paging_map_page dir a a fl p = p" using assms(1) by (intro map_full) (simp_all add: low_identity_def dir_ok_def)
  with assms(1) show ?thesis by simp
qed

lemma paging_init_low:
  assumes "image_placed m" "frames p = pmm_init kb (kernel_end m) f"
  shows "low_identity (kernel_dir (paging_at m)) (paging_init (paging_at m) p)"
proof -
  let ?k = "paging_at m" and ?p = "paging_init (paging_at m) p"
  have k: "image_ok ?k" using assms(1) by (simp add: image_placed_def)
  have fr: "frames ?p = pmm_init kb (kernel_end m) f" by (simp add: paging_init_def Let_def assms(2))
  have t: "page_aligned x \<and> x \<notin> free_pages (frames ?p)"
    if "x \<in> {kernel_dir ?k, table0 ?k, table1 ?k, high_table0 ?k, high_table1 ?k}" for x
    using image_not_free [OF assms(1), of x kb f] that assms(1) k unfolding fr by (auto simp: image_placed_def image_ok_def)
  have e: "table_of (pmem ?p) (kernel_dir ?k) j = (if j = 0 then table0 ?k else if j = 1 then table1 ?k
      else if j = 768 then high_table0 ?k else if j = 769 then high_table1 ?k else 0)"
    "present (get_entry (pmem ?p) (kernel_dir ?k) j) \<longleftrightarrow> j \<in> {0, 1, 768, 769}" if "j < 1024" for j
    using init_entries(5) [OF k that, of p] t rw_entry by (auto simp: table_of_def frame_of_def)
  have d: "distinct [kernel_dir ?k, table0 ?k, table1 ?k, high_table0 ?k, high_table1 ?k]" using k by (simp add: image_ok_def)
  have "dir_ok ?p (kernel_dir ?k)"
    unfolding dir_ok_def
  proof (intro conjI allI impI)
    show "pmm_inv (frames ?p)" by (simp add: fr pmm_init_abs)
  next
    fix i
    assume i: "i < 1024" "present (get_entry (pmem ?p) (kernel_dir ?k) i)"
    then show "table_of (pmem ?p) (kernel_dir ?k) i \<noteq> kernel_dir ?k" "table_of (pmem ?p) (kernel_dir ?k) i \<notin> free_pages (frames ?p)"
      using e d t by auto
    fix j
    assume "j < 1024" "present (get_entry (pmem ?p) (kernel_dir ?k) j)"
      "table_of (pmem ?p) (kernel_dir ?k) i = table_of (pmem ?p) (kernel_dir ?k) j"
    then show "i = j" using i e d by auto
  qed (use t in simp_all)
  moreover have "paging_virt_to_phys (pmem ?p) (kernel_dir ?k) v = v" if "v < 0x800000" for v
    using paging_init_identity_map [OF k, of p v] that by simp
  ultimately show ?thesis by (simp add: low_identity_def)
qed

lemma finite_free_pages [simp]: "finite (free_pages f)" by (simp add: free_pages_def)

lemma map_page_frames:
  assumes "pmm_inv (frames p)"
  shows "card (free_pages (frames p)) \<le> Suc (card (free_pages (frames (paging_map_page dir a b fl p))))"
proof (cases "present (get_entry (pmem p) dir (dir_idx a))")
  case True
  then show ?thesis by (simp add: paging_map_page_def present_def paging_invalidate_def)
next
  case False
  show ?thesis
  proof (cases "free_pages (frames p) = {}")
    case False
    with alloc_table_spec [OF assms] obtain t f where t: "t \<in> free_pages (frames p)" "t \<noteq> 0" "free_pages f = free_pages (frames p) - {t}"
      "alloc_table p = (t, p\<lparr>frames := f, pmem := for_loop 0 1024 (\<lambda>i. set_entry t i 0) (pmem p)\<rparr>)" by auto
    with \<open>\<not> present _\<close> show ?thesis by (simp add: paging_map_page_def present_def Let_def paging_invalidate_def)
  qed simp
qed

lemma in_page:
  fixes a :: u32
  assumes "page_aligned a" "r < 4096"
  shows "drop_bit 12 (a + of_nat r) = drop_bit 12 a"
proof -
  obtain q where q: "unat a = 4096 * q" using assms(1) by (auto simp: page_aligned_nat)
  have "unat (a + of_nat r) = unat a + r"
    using page_fits [OF assms(1)] assms(2) by (subst unat_add_no_wrap) (simp_all add: unsigned_of_nat take_bit_nat_eq_self)
  then have "unat (a + of_nat r) div 4096 = unat a div 4096" using assms(2) by (simp add: q)
  then show ?thesis by (simp add: word_unat_eq_iff drop_bit_eq_div unat_div)
qed

lemma pages_aligned: "page_aligned (a :: u32) \<Longrightarrow> page_aligned (a + of_nat i * 4096)"
proof -
  assume "page_aligned a"
  then obtain q where "unat a = 4096 * q" by (auto simp: page_aligned_nat)
  then have "of_nat (unat a) = (of_nat (4096 * q) :: u32)" by (rule arg_cong)
  then have "a = of_nat (4096 * q)" by simp
  then have e: "a + of_nat i * 4096 = (of_nat (4096 * (q + i)) :: u32)" by (simp add: algebra_simps)
  have "unat (of_nat (4096 * (q + i)) :: u32) mod 4096 = 0" unfolding unat_of_nat by (simp add: mod_mod_cancel)
  then show ?thesis unfolding e by (simp only: page_aligned_nat)
qed

lemma byte_in_pages:
  fixes fb sz :: u32
  assumes "page_aligned fb" "unat sz + 4095 < 2 ^ 32" "j < unat sz"
  shows "\<exists>i < unat ((sz + 4095) div 4096). drop_bit 12 (fb + of_nat j) = drop_bit 12 (fb + of_nat i * 4096)"
proof (intro exI conjI)
  have "unat (sz + 4095) = unat sz + 4095" using assms(2) by (subst unat_add_no_wrap) simp_all
  then have "unat ((sz + 4095) div 4096) = (unat sz + 4095) div 4096" by (simp add: unat_div)
  moreover have "Suc (j div 4096) = (j + 4096) div 4096" by simp
  moreover have "(j + 4096) div 4096 \<le> (unat sz + 4095) div 4096" by (rule div_le_mono) (use assms(3) in simp)
  ultimately show "j div 4096 < unat ((sz + 4095) div 4096)" by linarith
  have "(of_nat j :: u32) = of_nat (j div 4096) * 4096 + of_nat (j mod 4096)"
    by (metis div_mult_mod_eq of_nat_add of_nat_mult of_nat_numeral)
  then show "drop_bit 12 (fb + of_nat j) = drop_bit 12 (fb + of_nat (j div 4096) * 4096)"
    using in_page [OF pages_aligned [OF assms(1), of "j div 4096"], of "j mod 4096"] by (simp add: add.assoc)
qed

text \<open>
  C40. The pages that \<^verbatim>\<open>map_framebuffer\<close> counts, as many as the size needs, from the page of the address
  on, are mapped to themselves: as long as there are as many free frames as pages, every byte of
  every such page translates to itself afterwards, no other page's translation has changed, and the
  address space of the kernel stays well formed. A frame buffer that begins on a page, and whose size does
  not wrap when it is rounded up, is thereby mapped to itself to its last byte. (Of one that begins inside a page the
  last page may be left out.)
\<close>

theorem map_framebuffer_identity:
  assumes "low_identity (kernel_dir img) p" and "n = unat ((size_bytes + 4095) div 4096)" and "n \<le> card (free_pages (frames p))"
  shows "let p' = map_framebuffer img fb size_bytes p; touched = (\<lambda>v. \<exists>i < n. drop_bit 12 v = drop_bit 12 (fb + of_nat i * 4096)) in
    low_identity (kernel_dir img) p' \<and>
    (\<forall>v. paging_virt_to_phys (pmem p') (kernel_dir img) v =
       (if touched v then v else paging_virt_to_phys (pmem p) (kernel_dir img) v)) \<and>
    (page_aligned fb \<and> unat size_bytes + 4095 < 2 ^ 32 \<longrightarrow>
       (\<forall>j < unat size_bytes. paging_virt_to_phys (pmem p') (kernel_dir img) (fb + of_nat j) = fb + of_nat j))"
proof -
  let ?dir = "kernel_dir img"
  define f where "f = (\<lambda>i. paging_map_page ?dir (fb + of_nat i * 4096) (fb + of_nat i * 4096) (PAGE_PRESENT OR PAGE_WRITE))"
  define P where "P = (\<lambda>k q. low_identity ?dir q \<and> card (free_pages (frames p)) \<le> k + card (free_pages (frames q)) \<and>
     (\<forall>v. paging_virt_to_phys (pmem q) ?dir v =
       (if \<exists>i < k. drop_bit 12 v = drop_bit 12 (fb + of_nat i * 4096) then v else paging_virt_to_phys (pmem p) ?dir v)))"
  have fl: "frame_of (PAGE_PRESENT OR PAGE_WRITE) = 0" by (simp add: frame_of_def PAGE_PRESENT_def PAGE_WRITE_def)
  have "P n (for_loop 0 n f p)"
  proof (rule for_loop_invariant)
    show "P 0 p" using assms(1) by (simp add: P_def)
  next
    fix i q
    assume i: "i < n" and q: "P i q"
    let ?a = "fb + of_nat i * 4096"
    have ok: "dir_ok q ?dir" "pmm_inv (frames q)" using q by (simp_all add: P_def low_identity_def dir_ok_def)
    have "free_pages (frames q) \<noteq> {}" using q i assms(3) by (auto simp: P_def)
    then have m: "\<forall>v. paging_virt_to_phys (pmem (f i q)) ?dir v = (if drop_bit 12 v = drop_bit 12 ?a then v else paging_virt_to_phys (pmem q) ?dir v)"
      using map_page_spec [OF ok(1) fl, of ?a ?a] same_page_identity unfolding f_def by (auto simp: Let_def)
    show "P (Suc i) (f i q)"
      unfolding P_def
    proof (intro conjI allI)
      show "low_identity ?dir (f i q)" using map_identity [OF _ fl] q by (simp add: P_def f_def)
      show "card (free_pages (frames p)) \<le> Suc i + card (free_pages (frames (f i q)))"
        using map_page_frames [OF ok(2), of ?dir ?a ?a "PAGE_PRESENT OR PAGE_WRITE"] q by (simp add: P_def f_def)
      fix v
      show "paging_virt_to_phys (pmem (f i q)) ?dir v =
        (if \<exists>j < Suc i. drop_bit 12 v = drop_bit 12 (fb + of_nat j * 4096) then v else paging_virt_to_phys (pmem p) ?dir v)"
        using m q by (auto simp: P_def less_Suc_eq)
    qed
  qed simp
  then have "P n (map_framebuffer img fb size_bytes p)"
    by (simp add: map_framebuffer_def Let_def assms(2) paging_kernel_directory_def f_def)
  moreover have "\<exists>i < n. drop_bit 12 (fb + of_nat j) = drop_bit 12 (fb + of_nat i * 4096)"
    if "page_aligned fb" "unat size_bytes + 4095 < 2 ^ 32" "j < unat size_bytes" for j
    using byte_in_pages [OF that] assms(2) by simp
  ultimately show ?thesis unfolding P_def Let_def by simp
qed

section \<open>The processor, the interrupts and the processes\<close>

definition segments_ready :: "u32 \<Rightarrow> gdt \<Rightarrow> bool" where
  "segments_ready at g \<longleftrightarrow> gdt_loaded g \<and> gdtr_base g = at \<and>
     (\<exists>n c0 d0 c3 d3. gdt_table g = [n, c0, d0, c3, d3] \<and>
       flat c0 \<and> seg_code c0 \<and> seg_dpl c0 = 0 \<and> flat d0 \<and> seg_data d0 \<and> seg_dpl d0 = 0 \<and>
       flat c3 \<and> seg_code c3 \<and> seg_dpl c3 = 3 \<and> flat d3 \<and> seg_data d3 \<and> seg_dpl d3 = 3)"

definition gates_ready :: "(stub \<Rightarrow> u32) \<Rightarrow> 'h idt \<Rightarrow> bool" where
  "gates_ready stubs s \<longleftrightarrow> idt_loaded s \<and>
     (\<forall>v < 256. case vector_stub v of None \<Rightarrow> True
        | Some st \<Rightarrow> let e = idt_table s ! v in gate_handler e = stubs st \<and> gate_present e \<and> interrupt_gate e \<and>
            selector e = 0x08 \<and> gate_dpl e = (if v = 128 then 3 else 0))"

text \<open>Who is called for the hardware interrupt \<open>l\<close>, when the network card took the lines \<open>nic\<close>.\<close>

definition client_at :: "u8 set \<Rightarrow> nat \<Rightarrow> irq_client option" where
  "client_at nic l =
     (if of_nat l \<in> nic then Some E1000_irq else if l = 0 then Some Timer_irq else if l = 1 then Some Keyboard_irq else None)"

definition clients :: "u8 set \<Rightarrow> irq_client idt \<Rightarrow> bool" where
  "clients nic s \<longleftrightarrow> length (irq_table s) = 16 \<and> (\<forall>l < 16. irq_table s ! l = client_at nic l)"

lemma segments_init: "length (gdt_table g) = GDT_ENTRIES \<Longrightarrow> segments_ready at (gdt_init at g)"
  using gdt_flat_segments [of g at] unfolding segments_ready_def by blast

lemma gates_ready_irqs [simp]: "gates_ready stubs (s\<lparr>irq_table := t\<rparr>) = gates_ready stubs s"
  by (simp add: gates_ready_def cong: option.case_cong)

lemma set_gate_clients [simp]: "irq_table (idt_set_gate i h sel fl s) = irq_table s"
  by (simp add: idt_set_gate_def)

lemma gates_init:
  fixes s :: "'h idt"
  assumes "length (idt_table s) = IDT_ENTRIES"
  shows "gates_ready stubs (idt_init dev stubs at s)" "irq_table (idt_init dev stubs at s) = irq_table s"
proof -
  have loops: "irq_table (for_loop a b (\<lambda>i. idt_set_gate (F i) (G i) sel fl) x) = irq_table x" for a b F G sel fl and x :: "'h idt"
    by (rule for_loop_keeps [where P = "\<lambda>y. irq_table y = irq_table x"]) simp_all
  show "irq_table (idt_init dev stubs at s) = irq_table s" by (simp add: idt_init_def Let_def loops)
  have "idt_loaded (idt_init dev stubs at s)" by (simp add: idt_init_def Let_def)
  moreover have "case vector_stub v of None \<Rightarrow> True
      | Some st \<Rightarrow> let e = idt_table (idt_init dev stubs at s) ! v in gate_handler e = stubs st \<and> gate_present e \<and> interrupt_gate e \<and>
          selector e = 0x08 \<and> gate_dpl e = (if v = 128 then 3 else 0)" if "v < 256" for v
    using idt_vectors [OF assms that, of dev stubs at] by (cases "vector_stub v") (simp_all only: Let_def option.case)
  ultimately show "gates_ready stubs (idt_init dev stubs at s)" by (simp only: gates_ready_def) blast
qed

lemma small_line: "k < 16 \<Longrightarrow> (of_nat k :: u8) = l \<longleftrightarrow> k = unat l"
  by (auto simp: unat_of_nat)

lemma take_client:
  assumes "clients nic s" "l < 16"
  shows "gives (irq_register_handler (uint l) E1000_irq s) (clients (insert l nic))"
proof -
  have u: "uint l = int (unat l)" by simp
  have "unat l < unat (16 :: u8)" using assms(2) by (simp only: word_less_nat_alt)
  then have "unat l < 16" by simp
  then have l: "unat l < 16" "nat (uint l) = unat l" "0 \<le> uint l" "uint l < 16" using u by linarith+
  have r: "irq_register_handler (uint l) E1000_irq s = Some (s\<lparr>irq_table := (irq_table s)[unat l := Some E1000_irq]\<rparr>)"
    using l by (simp add: irq_register_handler_def)
  have "(irq_table s)[unat l := Some E1000_irq] ! k = client_at (insert l nic) k" if "k < 16" for k
    using assms(1) that small_line [OF that, of l] by (cases "k = unat l") (auto simp: clients_def client_at_def)
  with assms(1) show ?thesis by (simp add: r clients_def)
qed

text \<open>The table of processes after the start of the scheduler: slot 0 runs, the others are free.\<close>

lemma init_slots:
  assumes "proc_init img s = Some s'"
  shows "0 < i \<Longrightarrow> i < MAX_PROCS \<Longrightarrow> pid (proc_table s' i) = 0" "kmalloc KERNEL_STACK_SZ (kheap_of s) = Some (stk, h) \<Longrightarrow> kheap_of s' = h"
proof -
  define g where "g = (\<lambda>i. upd i (\<lambda>p. p\<lparr>pid := 0, state := PROC_ZOMBIE, next_p := None\<rparr>))"
  define s1 where "s1 = for_loop 0 MAX_PROCS g s"
  have h: "kheap_of s1 = kheap_of s" unfolding s1_def by (rule for_loop_keeps) (simp_all add: g_def upd_def)
  have p: "\<forall>i < MAX_PROCS. pid (proc_table s1 i) = 0"
    unfolding s1_def
    by (rule for_loop_invariant [where P = "\<lambda>n s1. \<forall>i < n. pid (proc_table s1 i) = 0"]) (auto simp: g_def upd_def less_Suc_eq)
  obtain stk' h' where k: "kmalloc KERNEL_STACK_SZ (kheap_of s) = Some (stk', h')"
    using assms h unfolding proc_init_def g_def [symmetric] s1_def [symmetric]
    by (cases "kmalloc KERNEL_STACK_SZ (kheap_of s)") (auto simp: Let_def upd_def)
  show "0 < i \<Longrightarrow> i < MAX_PROCS \<Longrightarrow> pid (proc_table s' i) = 0"
    using assms h k p unfolding proc_init_def g_def [symmetric] s1_def [symmetric] by (auto simp: Let_def upd_def)
  show "kmalloc KERNEL_STACK_SZ (kheap_of s) = Some (stk, h) \<Longrightarrow> kheap_of s' = h"
    using assms h k unfolding proc_init_def g_def [symmetric] s1_def [symmetric] by (auto simp: Let_def upd_def)
qed

text \<open>The heap gives the idle process its stack, and has one more to give.\<close>

lemma two_stacks:
  assumes "image_placed m"
  shows "gives (kmalloc KERNEL_STACK_SZ (heap_init (heap_region m) KERNEL_HEAP_SIZE h))
    (\<lambda>(stk, h'). stk \<noteq> 0 \<and> kmalloc KERNEL_STACK_SZ h' \<noteq> None)"
proof -
  let ?h = "heap_init (heap_region m) KERNEL_HEAP_SIZE h" and ?a = "ALIGN8 KERNEL_STACK_SZ"
  have sz: "unat KERNEL_HEAP_SIZE = 4194304" by (simp add: KERNEL_HEAP_SIZE_def)
  have lt: "unat (heap_region m) + 4194304 < 2 ^ 32" "heap_region m \<noteq> 0"
    using assms sz by (auto simp: image_placed_def word_le_nat_alt)
  define bs where "bs = [(KERNEL_HEAP_SIZE - HDR, True)]"
  have rep: "heap_rep ?h bs" "heap_head ?h = heap_region m"
    using heap_init_rep [of "heap_region m" KERNEL_HEAP_SIZE h] lt sz by (simp_all add: bs_def)
  have a: "?a = 8192" by (simp add: ALIGN8_def KERNEL_STACK_SZ_def)
  define bs' where "bs' = [(8192 :: u32, False), (KERNEL_HEAP_SIZE - HDR - 8192 - HDR, True)]"
  have al: "alloc_list ?a bs = Some (0, bs')" "roomy ?a bs" "roomy ?a bs'"
    by (simp_all add: a bs_def bs'_def fits_def carve_def roomy_def HDR_def KERNEL_HEAP_SIZE_def word_le_nat_alt)
  from kmalloc_alloc_list [OF rep(1) _ al(2)] al(1) obtain h' where
    k: "kmalloc KERNEL_STACK_SZ ?h = Some (heap_region m + HDR, h')" "heap_rep h' bs'"
    by (auto simp: KERNEL_STACK_SZ_def rep(2))
  have "unat (heap_region m + HDR) = unat (heap_region m) + 20" using lt by (subst unat_add_no_wrap) simp_all
  then have "heap_region m + HDR \<noteq> 0" by (metis add_is_0 unsigned_0 numeral_neq_zero)
  moreover have "kmalloc KERNEL_STACK_SZ h' \<noteq> None"
    using kmalloc_alloc_list [OF k(2) _ al(3)] by (auto simp: KERNEL_STACK_SZ_def split: option.splits)
  ultimately show ?thesis by (simp add: k(1))
qed

text \<open>
  The state of the machine when the boot loader jumps to the kernel: static data as the loader leaves it,
  interrupts off, and nothing written to the serial line yet.
\<close>

definition powered_on :: "kernel \<Rightarrow> bool" where
  "powered_on k \<longleftrightarrow> length (gdt_table (kn_gdt k)) = GDT_ENTRIES \<and> length (idt_table (kn_idt k)) = IDT_ENTRIES \<and>
     irq_table (kn_idt k) = replicate 16 None \<and> run_queue (sc_procs (kn_sys k)) = None \<and> kn_com k \<noteq> None \<and> \<not> kn_if k \<and>
     (\<exists>s g. afs (kn_acc k) = vfs_boot s g)"

definition tables_ready :: "machine \<Rightarrow> u8 set \<Rightarrow> kernel \<Rightarrow> bool" where
  "tables_ready m nic k \<longleftrightarrow> segments_ready (gdt_at m) (kn_gdt k) \<and> gates_ready (stubs_at m) (kn_idt k) \<and> clients nic (kn_idt k) \<and>
     paging_on (kn_paging k) \<and> cr3 (kn_paging k) = kernel_dir (paging_at m) \<and> low_identity (kernel_dir (paging_at m)) (kn_paging k)"

definition idle_only :: "procs \<Rightarrow> bool" where
  "idle_only ps \<longleftrightarrow> sched_ok ps \<and> run_list ps = [] \<and> current ps = 0 \<and>
     state_of ps 0 = PROC_READY \<and> (\<forall>i. 0 < i \<and> i < MAX_PROCS \<longrightarrow> state_of ps i = PROC_ZOMBIE \<and> pid (proc_table ps i) = 0) \<and>
     kmalloc KERNEL_STACK_SZ (kheap_of ps) \<noteq> None"

lemma idle_started:
  assumes "run_queue ps = None" "gives (kmalloc KERNEL_STACK_SZ (kheap_of ps)) (\<lambda>(stk, h'). stk \<noteq> 0 \<and> kmalloc KERNEL_STACK_SZ h' \<noteq> None)"
  shows "gives (proc_init img ps) idle_only"
proof -
  from assms(2) obtain stk h where h: "kmalloc KERNEL_STACK_SZ (kheap_of ps) = Some (stk, h)" "kmalloc KERNEL_STACK_SZ h \<noteq> None"
    by (auto simp: gives_def)
  from init_spec [OF assms(1) h(1), of img] obtain ps' where
    p: "proc_init img ps = Some ps'" "sched_ok ps'" "run_list ps' = []" "current ps' = 0"
      "state_of ps' = (\<lambda>i. if i = 0 then PROC_READY else if i < MAX_PROCS then PROC_ZOMBIE else state_of ps i)" by blast
  with init_slots [OF p(1)] h show ?thesis by (simp add: idle_only_def)
qed

text \<open>What a stage leaves alone.\<close>

definition same_rest :: "kernel \<Rightarrow> kernel \<Rightarrow> bool" where
  "same_rest k k' \<longleftrightarrow> kn_acc k' = kn_acc k \<and> kn_net k' = kn_net k \<and> kn_waits k' = kn_waits k \<and> kn_ata k' = kn_ata k \<and> kn_if k' = kn_if k"

lemma on_com_fields [simp]:
  "kn_sys (on_com f k) = kn_sys k" "kn_gdt (on_com f k) = kn_gdt k" "kn_idt (on_com f k) = kn_idt k" "kn_paging (on_com f k) = kn_paging k"
  "kn_timer (on_com f k) = kn_timer k" "kn_acc (on_com f k) = kn_acc k" "kn_ata (on_com f k) = kn_ata k" "kn_net (on_com f k) = kn_net k"
  "kn_waits (on_com f k) = kn_waits k" "kn_if (on_com f k) = kn_if k" "kn_uart (on_com f k) = kn_uart k"
  by (simp_all add: on_com_def)

lemma write_fields [simp]:
  "kn_sys (com_write t k) = kn_sys k" "kn_gdt (com_write t k) = kn_gdt k" "kn_idt (com_write t k) = kn_idt k" "kn_paging (com_write t k) = kn_paging k"
  "kn_timer (com_write t k) = kn_timer k" "kn_acc (com_write t k) = kn_acc k" "kn_ata (com_write t k) = kn_ata k" "kn_net (com_write t k) = kn_net k"
  "kn_waits (com_write t k) = kn_waits k" "kn_if (com_write t k) = kn_if k" "kn_uart (com_write t k) = kn_uart k"
  by (simp_all add: com_write_def)

lemma klog_fields [simp]:
  "kn_sys (klog t k) = kn_sys k" "kn_gdt (klog t k) = kn_gdt k" "kn_idt (klog t k) = kn_idt k" "kn_paging (klog t k) = kn_paging k"
  "kn_timer (klog t k) = kn_timer k" "kn_acc (klog t k) = kn_acc k" "kn_ata (klog t k) = kn_ata k" "kn_net (klog t k) = kn_net k"
  "kn_waits (klog t k) = kn_waits k" "kn_if (klog t k) = kn_if k"
  by (simp_all add: klog_def)

lemma driver_says_fields [simp]:
  "kn_sys (net_says n k) = kn_sys k" "kn_gdt (net_says n k) = kn_gdt k" "kn_idt (net_says n k) = kn_idt k" "kn_paging (net_says n k) = kn_paging k"
  "kn_acc (net_says n k) = kn_acc k" "kn_net (net_says n k) = n" "kn_waits (net_says n k) = kn_waits k" "kn_if (net_says n k) = kn_if k"
  "kn_sys (ata_says a k) = kn_sys k" "kn_gdt (ata_says a k) = kn_gdt k" "kn_idt (ata_says a k) = kn_idt k" "kn_paging (ata_says a k) = kn_paging k"
  "kn_acc (ata_says a k) = kn_acc k" "kn_net (ata_says a k) = kn_net k" "kn_waits (ata_says a k) = kn_waits k" "kn_if (ata_says a k) = kn_if k"
  by (simp_all add: net_says_def ata_says_def)

text \<open>The line is alive and the kernel is not stuck at it; messages keep that, and their absence.\<close>

definition line_ok :: "kernel \<Rightarrow> bool" where "line_ok k \<longleftrightarrow> kn_com k \<noteq> None \<and> line_alive (kn_uart k)"

lemma line_ok_on_com: "(\<And>s. f s \<noteq> None) \<Longrightarrow> line_ok (on_com f k) = line_ok k"
  by (cases "kn_com k") (simp_all add: line_ok_def on_com_def)

lemma line_ok_write [simp]: "line_ok (com_write t k) = line_ok k"
proof (cases "line_alive (kn_uart k)")
  case True
  then have "serial_puts (kn_uart k) t s \<noteq> None" for s :: io using serial_text_sent [OF True, of t s] by auto
  then show ?thesis unfolding com_write_def by (rule line_ok_on_com)
qed (simp add: line_ok_def)

lemma line_ok_steps [simp]:
  "line_ok (k\<lparr>kn_sys := a\<rparr>) = line_ok k" "line_ok (k\<lparr>kn_gdt := b\<rparr>) = line_ok k" "line_ok (k\<lparr>kn_idt := c\<rparr>) = line_ok k"
  "line_ok (k\<lparr>kn_paging := d\<rparr>) = line_ok k" "line_ok (k\<lparr>kn_timer := e\<rparr>) = line_ok k" "line_ok (k\<lparr>kn_acc := f\<rparr>) = line_ok k"
  "line_ok (k\<lparr>kn_ata := g\<rparr>) = line_ok k" "line_ok (k\<lparr>kn_net := h\<rparr>) = line_ok k" "line_ok (k\<lparr>kn_waits := i\<rparr>) = line_ok k"
  "line_ok (k\<lparr>kn_if := j\<rparr>) = line_ok k"
  by (simp_all add: line_ok_def)

lemma line_ok_stages [simp]:
  "line_ok (klog t k) = line_ok k" "line_ok (on_con q k) = line_ok k" "line_ok (net_says h k) = line_ok k" "line_ok (ata_says g k) = line_ok k"
  "line_ok (show_vout k) = line_ok k" "line_ok (boot_greet k) = line_ok k" "line_ok (boot_memory m mb k) = line_ok k"
  by (simp_all add: klog_def net_says_def ata_says_def on_con_def show_vout_def boot_greet_def boot_memory_def Let_def line_ok_on_com)

lemma boot_core_ready:
  assumes "image_placed m" "length (gdt_table (kn_gdt k)) = GDT_ENTRIES" "length (idt_table (kn_idt k)) = IDT_ENTRIES"
    "irq_table (kn_idt k) = replicate 16 None" "run_queue (sc_procs (kn_sys k)) = None"
  shows "gives (boot_core m mb k) (\<lambda>k'. tables_ready m {} k' \<and> idle_only (sc_procs (kn_sys k')) \<and> same_rest k k' \<and>
    sc_kbd (kn_sys k') = keyboard_init (sc_kbd (kn_sys k)))"
proof -
  define k1 where "k1 = boot_memory m mb k"
  let ?ps = "sc_procs (kn_sys k)"
  have k1: "kn_gdt k1 = gdt_init (gdt_at m) (kn_gdt k)" "kn_idt k1 = idt_init (pic_dev m) (stubs_at m) (idt_at m) (kn_idt k)"
    "kn_paging k1 = paging_init (paging_at m) ((kn_paging k)\<lparr>frames := pmm_init (mem_lower mb + mem_upper mb) (kernel_end m) (frames (kn_paging k))\<rparr>)"
    "sc_procs (kn_sys k1) = ?ps\<lparr>kheap_of := heap_init (heap_region m) KERNEL_HEAP_SIZE (kheap_of ?ps)\<rparr>"
    "sc_kbd (kn_sys k1) = sc_kbd (kn_sys k)" "same_rest k k1"
    by (simp_all add: k1_def boot_memory_def Let_def same_rest_def)
  have gi: "gates_ready (stubs_at m) (kn_idt k1)" "irq_table (kn_idt k1) = replicate 16 None"
    using assms(3,4) gates_init [of "kn_idt k"] by (simp_all add: k1(2))
  define i2 where "i2 = (kn_idt k1)\<lparr>irq_table := (replicate 16 None)[0 := Some Timer_irq, 1 := Some Keyboard_irq]\<rparr>"
  have i2: "gates_ready (stubs_at m) i2" "clients {} i2"
    using gi by (simp_all add: i2_def clients_def client_at_def nth_list_update)
  have low: "low_identity (kernel_dir (paging_at m)) (kn_paging k1)" "paging_on (kn_paging k1)" "cr3 (kn_paging k1) = kernel_dir (paging_at m)"
    unfolding k1(3) by (rule paging_init_low [OF assms(1)]) (simp_all add: paging_init_def Let_def)
  have seg: "segments_ready (gdt_at m) (kn_gdt k1)" using assms(2) by (simp add: k1(1) segments_init)
  have "gives (proc_init (code_at m) (sc_procs (kn_sys k1))) idle_only"
    using assms(5) two_stacks [OF assms(1)] by (intro idle_started) (simp_all add: k1(4))
  then obtain ps where ps: "proc_init (code_at m) (sc_procs (kn_sys k1)) = Some ps" "idle_only ps" by (auto simp: gives_def)
  show ?thesis
    using gi(2) ps low seg i2 k1(5,6)
    by (simp add: boot_core_def k1_def [symmetric] irq_client_init_def irq_register_handler_def Let_def tables_ready_def same_rest_def
        i2_def syscall_init_def)
qed

section \<open>Storage and the accounts\<close>

lemma vout_live [simp]: "fs_live (v\<lparr>vout := t\<rparr>) = fs_live v"
  by (simp add: fs_live_def vfs_ok_def permanent_def cong: nref.case_cong)

lemma gives_mount_root: "fs_live v \<Longrightarrow> gives (mount_root junk v) (\<lambda>(ok, v). fs_live v)"
proof -
  assume live: "fs_live v"
  obtain w s where w: "stackfs_mount (room v) junk (sfs_st v) = (w, s)" by fastforce
  show ?thesis
  proof (cases w)
    case None
    with w live show ?thesis by (simp add: mount_root_def mount_disk_def new_node_def)
  next
    case (Some x)
    let ?v = "v\<lparr>sfs_st := s, knodes := (knodes v)(knext v \<mapsto> x), knext := knext v + 1\<rparr>"
    have "v_ops x = Ops_stackfs" using w Some mount_ops by blast
    with live have "typed ?v" "vfs_ok ?v"
      by (auto simp: fs_live_iff typed_new) (fastforce simp: vfs_ok_def permanent_def split: nref.splits)
    moreover have "held ?v (Some (Kmem (knext v)))" by (simp add: held_def node_at_def ref_typed_def)
    ultimately have "fs_live (snd (vfs_mount (lit ''/disk'') (Kmem (knext v)) ?v))" by (intro mount_live) (simp_all add: fs_live_iff)
    with w Some show ?thesis by (simp add: mount_root_def mount_disk_def new_node_def)
  qed
qed

lemma gives_seed_file: "fs_live v \<Longrightarrow> gives (seed_file nm text v) fs_live"
  unfolding seed_file_def
  by (rule gives_bind [OF gives_open])
     (auto intro!: gives_bind [OF gives_open] gives_bind [OF gives_has_make] gives_bind [OF gives_make(2)] gives_bind [OF gives_finddir]
        gives_bind [OF gives_write] release_live split: option.split)

lemma gives_seed_dirs: "fs_live v \<Longrightarrow> held v n \<Longrightarrow> n \<noteq> None \<Longrightarrow> gives (seed_dirs n v) fs_live"
  unfolding seed_dirs_def
  by (auto intro!: gives_bind [OF gives_make(1)] gives_weaken [OF gives_make(1)])

lemma gives_seed_tree: "fs_live v \<Longrightarrow> gives (seed_tree v) (\<lambda>(able, v). fs_live v)"
  unfolding seed_tree_def
  by (rule gives_bind [OF gives_open])
     (auto intro!: gives_bind [OF gives_has_make] gives_bind [OF gives_seed_dirs] gives_bind [OF gives_seed_file])

lemma gives_disk_start: "fs_live v \<Longrightarrow> gives (disk_start junk v) (\<lambda>(l, v). fs_live v)"
  unfolding disk_start_def first_boot_fs_def Let_def
  by (auto intro!: gives_bind [OF gives_mount_root] gives_bind [OF gives_seed_tree] split: prod.split)

text \<open>The same at the level of the kernel.\<close>

definition same_core :: "kernel \<Rightarrow> kernel \<Rightarrow> bool" where
  "same_core k k' \<longleftrightarrow> kn_gdt k' = kn_gdt k \<and> kn_idt k' = kn_idt k \<and> kn_paging k' = kn_paging k \<and> kn_net k' = kn_net k \<and>
     kn_waits k' = kn_waits k \<and> sc_procs (kn_sys k') = sc_procs (kn_sys k) \<and> sc_kbd (kn_sys k') = sc_kbd (kn_sys k)"

definition accounts_ready :: "accounts \<Rightarrow> bool" where
  "accounts_ready a \<longleftrightarrow> fs_live (afs a) \<and> current_user a = None \<and> 0 < user_count a"

lemma show_vout_fields [simp]:
  "same_core k (show_vout k)" "users (kn_acc (show_vout k)) = users (kn_acc k)" "user_count (kn_acc (show_vout k)) = user_count (kn_acc k)"
  "current_user (kn_acc (show_vout k)) = current_user (kn_acc k)" "afs (kn_acc (show_vout k)) = (afs (kn_acc k))\<lparr>vout := []\<rparr>"
  by (simp_all add: show_vout_def on_con_def same_core_def Let_def)

lemma same_core_trans: "same_core k k' \<Longrightarrow> same_core k' k'' \<Longrightarrow> same_core k k''" by (simp add: same_core_def)

lemma same_core_simps [simp]:
  "same_core k k" "same_core k (klog msg k') = same_core k k'" "same_core (klog msg k) k' = same_core k k'"
  "same_core k (k'\<lparr>kn_acc := a\<rparr>) = same_core k k'" "same_core k (ata_says d k') = same_core k k'" "same_core k (com_write t k') = same_core k k'"
  "same_core k (k'\<lparr>kn_if := b\<rparr>) = same_core k k'"
  by (simp_all add: same_core_def)

lemma gives_boot_acc:
  assumes "gives (f (kn_acc k)) (\<lambda>a. P (afs a) \<and> Q (users a) (user_count a) (current_user a))" and "\<And>v. P v \<Longrightarrow> P (v\<lparr>vout := []\<rparr>)"
  shows "gives (boot_acc f k) (\<lambda>k'. same_core k k' \<and> P (afs (kn_acc k')) \<and>
    Q (users (kn_acc k')) (user_count (kn_acc k')) (current_user (kn_acc k')))"
proof -
  from assms(1) obtain a where a: "f (kn_acc k) = Some a" "P (afs a)" "Q (users a) (user_count a) (current_user a)" by (auto simp: gives_def)
  have "same_core (k\<lparr>kn_acc := a\<rparr>) (show_vout (k\<lparr>kn_acc := a\<rparr>))" by (rule show_vout_fields)
  then have "same_core k (show_vout (k\<lparr>kn_acc := a\<rparr>))" by (simp add: same_core_def)
  with a assms(2) show ?thesis by (simp add: boot_acc_def)
qed

lemma attach_live [simp]: "fs_live (attach_disk a v) = fs_live v" by (simp add: attach_disk_def)

lemma boot_fs_acc:
  assumes "gives (f (afs (kn_acc k))) P" and "\<And>v. P v \<Longrightarrow> P (v\<lparr>vout := []\<rparr>)"
  shows "gives (boot_fs f k) (\<lambda>k'. same_core k k' \<and> P (afs (kn_acc k')))"
proof -
  have "gives (map_option (\<lambda>v. (kn_acc k)\<lparr>afs := v\<rparr>) (f (afs (kn_acc k)))) (\<lambda>a. P (afs a) \<and> True)"
    using assms(1) by (simp add: gives_map comp_def)
  from gives_boot_acc [where f = "\<lambda>a. map_option (\<lambda>v. a\<lparr>afs := v\<rparr>) (f (afs a))" and Q = "\<lambda>_ _ _. True", OF this assms(2)]
  show ?thesis by (simp add: boot_fs_def)
qed

lemma gives_boot_disk:
  assumes "fs_live (afs (kn_acc k))"
  shows "gives (boot_disk m k) (\<lambda>k'. same_core k k' \<and> fs_live (afs (kn_acc k')))"
proof -
  obtain found a where a: "ata_init (ata_dev m) (kn_ata k) = (found, a)" by fastforce
  define k1 where "k1 = (ata_says a k)\<lparr>kn_acc := (kn_acc k)\<lparr>afs := attach_disk a (afs (kn_acc k))\<rparr>\<rparr>"
  have k1: "same_core k k1" "fs_live (afs (kn_acc k1))" using assms by (simp_all add: k1_def)
  from gives_disk_start [OF k1(2), of "stack_junk m"] obtain l v where d: "disk_start (stack_junk m) (afs (kn_acc k1)) = Some (l, v)" "fs_live v"
    by (auto simp: gives_def)
  define k2 where "k2 = com_write l ((klog ''STEP14a ATA disk found'' k1)\<lparr>kn_if := True, kn_acc := (kn_acc k1)\<lparr>afs := v\<rparr>\<rparr>)"
  have k2: "same_core k k2" "afs (kn_acc k2) = v" using k1(1) by (simp_all add: k2_def)
  have s2: "same_core k (show_vout k2)" using k2(1) by (rule same_core_trans) simp
  show ?thesis
    using k1 d k2 s2 by (simp add: boot_disk_def a Let_def k1_def [symmetric] k2_def [symmetric])
qed

lemma gives_boot_files:
  assumes "afs (kn_acc k) = vfs_boot s g"
  shows "gives (boot_files m k) (\<lambda>k'. same_core k k' \<and> accounts_ready (kn_acc k'))"
proof -
  have "gives (boot_fs (\<lambda>v. Some (vfs_init v)) k) (\<lambda>k'. same_core k k' \<and> (afs (kn_acc k'))\<lparr>vout := []\<rparr> = vfs_boot s g)"
    by (rule boot_fs_acc) (simp add: assms vfs_init_boot, simp_all add: vprint_def vfs_boot_def)
  then obtain k1 where k1: "boot_fs (\<lambda>v. Some (vfs_init v)) k = Some k1" "same_core k k1" "(afs (kn_acc k1))\<lparr>vout := []\<rparr> = vfs_boot s g"
    by (auto simp: gives_def)
  have "vout (afs (kn_acc k1)) = []" using k1(1) by (auto simp: boot_fs_def boot_acc_def)
  then have v1: "afs (kn_acc k1) = vfs_boot s g" using k1(3) by (metis vfs.surjective vfs.update_convs(9))
  have "gives (boot_fs initrd_init (klog ''STEP12 vfs'' k1)) (\<lambda>k'. same_core (klog ''STEP12 vfs'' k1) k' \<and> fs_live (afs (kn_acc k')))"
    by (rule boot_fs_acc) (use boot_live [of s g] v1 in \<open>auto intro: gives_weaken\<close>)
  then obtain k2 where k2: "boot_fs initrd_init (klog ''STEP12 vfs'' k1) = Some k2" "same_core k1 k2" "fs_live (afs (kn_acc k2))"
    by (auto simp: gives_def)
  from gives_boot_disk [of "klog ''STEP13 initrd'' k2" m] k2(3) obtain k3 where
    k3: "boot_disk m (klog ''STEP13 initrd'' k2) = Some k3" "same_core k2 k3" "fs_live (afs (kn_acc k3))" by (auto simp: gives_def)
  have "gives (boot_acc user_init k3) (\<lambda>k'. same_core k3 k' \<and> fs_live (afs (kn_acc k')) \<and> current_user (kn_acc k') = None \<and> 0 < user_count (kn_acc k'))"
    by (rule gives_boot_acc [where Q = "\<lambda>_ n c. c = None \<and> 0 < n"]) (use gives_user_init [OF k3(3)] in \<open>simp_all add: conj_ac\<close>)
  then obtain k4 where k4: "boot_acc user_init k3 = Some k4" "same_core k3 k4" "accounts_ready (kn_acc k4)"
    by (auto simp: gives_def accounts_ready_def)
  have "gives (boot_acc users_save (klog ''STEP15 users'' k4)) (\<lambda>k'. same_core (klog ''STEP15 users'' k4) k' \<and> fs_live (afs (kn_acc k')) \<and>
      current_user (kn_acc k') = None \<and> 0 < user_count (kn_acc k'))"
  proof (rule gives_boot_acc [where Q = "\<lambda>_ n c. c = None \<and> 0 < n"])
    show "gives (users_save (kn_acc (klog ''STEP15 users'' k4))) (\<lambda>a. fs_live (afs a) \<and> current_user a = None \<and> 0 < user_count a)"
      using gives_users_save [of "kn_acc k4"] k4(3) by (auto simp: accounts_ready_def same_table_def intro: gives_weaken)
  qed simp
  then obtain k5 where k5: "boot_acc users_save (klog ''STEP15 users'' k4) = Some k5" "same_core k4 k5" "accounts_ready (kn_acc k5)"
    by (auto simp: gives_def accounts_ready_def)
  have "same_core k k5" using k1(2) k2(2) k3(2) k4(2) k5(2) same_core_trans by blast
  with k1(1) k2(1) k3(1) k4(1) k5 show ?thesis by (simp add: boot_files_def)
qed

section \<open>The network and the screen\<close>

text \<open>The interrupt lines the network card's start takes: none, or the one its configuration names.\<close>

definition nic_line :: "machine \<Rightarrow> net \<Rightarrow> u8 list" where
  "nic_line m n =
     (let n0 = pci_init (net_dev m) n
      in fresh (irq_handlers n0) (irq_handlers (snd (e1000_init (net_dev m) (nic_memory m) (nic_junk m) n0))))"

lemma fresh_append [simp]: "fresh xs (ys @ xs) = rev ys" by (simp add: fresh_def)

lemma tables_ready_simps [simp]:
  "tables_ready m nic (klog msg k) = tables_ready m nic k" "tables_ready m nic (k\<lparr>kn_net := n\<rparr>) = tables_ready m nic k"
  "tables_ready m nic (com_write t k) = tables_ready m nic k" "tables_ready m nic (on_con g k) = tables_ready m nic k"
  "tables_ready m nic (net_says n k) = tables_ready m nic k" "tables_ready m nic (k\<lparr>kn_if := b\<rparr>) = tables_ready m nic k"
  "tables_ready m nic (k\<lparr>kn_sys := s\<rparr>) = tables_ready m nic k" "tables_ready m nic (k\<lparr>kn_waits := w\<rparr>) = tables_ready m nic k"
  by (simp_all add: tables_ready_def on_con_def)

lemma map_page_keeps [simp]:
  "cr3 (paging_map_page dir a b fl p) = cr3 p" "paging_on (paging_map_page dir a b fl p) = paging_on p"
  by (simp_all add: paging_map_page_def Let_def paging_invalidate_def alloc_table_def split: prod.split)

lemma tables_ready_paging:
  assumes "tables_ready m nic k" "low_identity (kernel_dir (paging_at m)) p" "cr3 p = cr3 (kn_paging k)" "paging_on p = paging_on (kn_paging k)"
  shows "tables_ready m nic (k\<lparr>kn_paging := p\<rparr>)"
  using assms by (simp add: tables_ready_def)

lemma map_pages_low:
  assumes "low_identity (kernel_dir img) p" "\<forall>(v, ph, fl) \<in> set ps. ph = v \<and> fl = 3"
  shows "low_identity (kernel_dir img) (map_pages img ps p) \<and> cr3 (map_pages img ps p) = cr3 p \<and> paging_on (map_pages img ps p) = paging_on p"
  using assms
proof (induction ps arbitrary: p)
  case Nil
  then show ?case by (simp add: map_pages_def)
next
  case (Cons x ps)
  then obtain v where x: "x = (v, v, 3)" by (cases x) auto
  have "frame_of 3 = 0" by (simp add: frame_of_def)
  with Cons x map_identity [of "kernel_dir img" p 3 v] show ?case by (simp add: map_pages_def paging_kernel_directory_def)
qed

lemma take_lines_ready:
  assumes "tables_ready m nic k" "\<forall>l \<in> set ls. l < 16"
  shows "gives (take_lines ls k) (\<lambda>k'. tables_ready m (nic \<union> set ls) k' \<and> kn_sys k' = kn_sys k \<and> kn_acc k' = kn_acc k \<and>
    kn_waits k' = kn_waits k \<and> kn_net k' = kn_net k)"
  using assms
proof (induction ls arbitrary: nic k)
  case (Cons l ls)
  from take_client [of nic "kn_idt k" l] Cons.prems obtain i where
    i: "irq_register_handler (uint l) E1000_irq (kn_idt k) = Some i" "clients (insert l nic) i" by (auto simp: gives_def tables_ready_def)
  then have "gates_ready (stubs_at m) i = gates_ready (stubs_at m) (kn_idt k)"
    by (auto simp: irq_register_handler_def split: if_splits)
  with i Cons.prems have "tables_ready m (insert l nic) (k\<lparr>kn_idt := i\<rparr>)" by (simp add: tables_ready_def)
  with Cons.IH [OF this] Cons.prems i show ?case by (simp add: irq_client_init_def insert_commute Un_commute)
qed simp

lemma take_lines_none: "\<not> (\<forall>l \<in> set ls. l < 16) \<Longrightarrow> take_lines ls k = None"
proof (induction ls arbitrary: k)
  case (Cons l ls)
  show ?case
  proof (cases "l < 16")
    case True
    with Cons show ?thesis by (cases "irq_client_init (uint l) E1000_irq k") simp_all
  next
    case False
    then have "\<not> uint l < 16" by (simp add: word_less_def)
    then show ?thesis by (simp add: irq_client_init_def irq_register_handler_def)
  qed
qed simp

lemma on_fields [simp]:
  "kn_waits (on_con g k) = kn_waits k" "sc_kbd (kn_sys (on_con g k)) = sc_kbd (kn_sys k)" "sc_procs (kn_sys (on_con g k)) = sc_procs (kn_sys k)"
  "kn_acc (on_con g k) = kn_acc k"
  by (simp_all add: on_con_def)

definition same_files :: "kernel \<Rightarrow> kernel \<Rightarrow> bool" where
  "same_files k k' \<longleftrightarrow> kn_acc k' = kn_acc k \<and> sc_procs (kn_sys k') = sc_procs (kn_sys k)"

lemma same_files_simps [simp]:
  "same_files k (klog msg k') = same_files k k'" "same_files k (on_con f k') = same_files k k'" "same_files k (com_write t k') = same_files k k'"
  "same_files k k" "same_files k (k'\<lparr>kn_paging := p\<rparr>) = same_files k k'" "same_files k (k'\<lparr>kn_if := b\<rparr>) = same_files k k'"
  by (simp_all add: same_files_def on_con_def)

text \<open>Whether the start of the network card succeeds, so that the kernel asks for a lease.\<close>

definition nic_starts :: "machine \<Rightarrow> net \<Rightarrow> bool" where
  "nic_starts m n \<longleftrightarrow> fst (e1000_init (net_dev m) (nic_memory m) (nic_junk m) (pci_init (net_dev m) n))"

text \<open>The network stage up to the request, and from there.\<close>

definition ask_lease :: "machine \<Rightarrow> kernel \<Rightarrow> kernel option" where
  "ask_lease m k =
     (let k = klog ''STEP17c DHCP request...'' (klog ''STEP17b network stack ready'' (net_says (net_init (kn_net k)) (klog ''STEP17a E1000 found'' k)))
      in do { (ok, n) \<leftarrow> dhcp_request (kn_if k \<and> timer_runs m) (net_dev m) (net_card m) (kn_net k);
              let k = net_says n k;
              Some (if ok then klog ''STEP17d DHCP success'' k
                    else (klog (''STEP17d DHCP failed '' @ em_dash @ '' fallback to 10.0.2.15'') k)\<lparr>kn_net := net_fallback n\<rparr>) })"

lemma ask_lease_keeps:
  assumes "ask_lease m k = Some k'"
  shows "tables_ready m nic k' = tables_ready m nic k" "kn_acc k' = kn_acc k" "kn_sys k' = kn_sys k" "kn_waits k' = kn_waits k" "line_ok k' = line_ok k"
proof -
  from assms obtain ok n where "k' = (let k = net_says n (klog ''STEP17c DHCP request...'' (klog ''STEP17b network stack ready''
      (net_says (net_init (kn_net k)) (klog ''STEP17a E1000 found'' k)))) in
    if ok then klog ''STEP17d DHCP success'' k
    else (klog (''STEP17d DHCP failed '' @ em_dash @ '' fallback to 10.0.2.15'') k)\<lparr>kn_net := net_fallback n\<rparr>)"
    by (auto simp: ask_lease_def Let_def elim!: bindE)
  then show "tables_ready m nic k' = tables_ready m nic k" "kn_acc k' = kn_acc k" "kn_sys k' = kn_sys k" "kn_waits k' = kn_waits k" "line_ok k' = line_ok k"
    by (cases ok, simp_all add: Let_def)+
qed

lemma ask_lease_ends: "card_writes (net_card m) \<Longrightarrow> ask_lease m k \<noteq> None \<longleftrightarrow> kn_if k \<and> timer_runs m"
  using dhcp_request_ends [of "net_card m" "kn_if k \<and> timer_runs m" "net_dev m" "net_init (kn_net k)"]
  by (auto simp: ask_lease_def Let_def elim!: bindE)

lemma boot_net_stages:
  assumes "tables_ready m {} k"
  defines "ls \<equiv> nic_line m (kn_net k)"
  obtains k2 where "boot_net m k = do { x \<leftarrow> take_lines ls k2; if \<not> nic_starts m (kn_net k) then Some (klog ''STEP17 no E1000'' x) else ask_lease m x }"
    "tables_ready m {} k2" "kn_acc k2 = kn_acc k" "kn_sys k2 = kn_sys k" "kn_waits k2 = kn_waits k" "kn_if k2 = kn_if k" "line_ok k2 = line_ok k"
proof -
  define n0 where "n0 = pci_init (net_dev m) (kn_net k)"
  obtain found n where e: "e1000_init (net_dev m) (nic_memory m) (nic_junk m) n0 = (found, n)" by fastforce
  have "asked n0 n" using init_asked [of n0 "net_dev m" "nic_memory m" "nic_junk m"] e by simp
  then obtain ps where ps: "pages_mapped n = ps @ pages_mapped n0" "\<forall>(v, ph, fl) \<in> set ps. ph = v \<and> fl = 3" by (auto simp: asked_def)
  have ls: "ls = fresh (irq_handlers n0) (irq_handlers n)" by (simp add: ls_def nic_line_def n0_def [symmetric] e)
  have f: "nic_starts m (kn_net k) = found" by (simp add: nic_starts_def n0_def [symmetric] e)
  define k1 where "k1 = klog ''STEP17 E1000'' (klog ''STEP16a PCI done'' (net_says n0 (klog ''STEP16 PCI'' k)))"
  define k2 where "k2 = (net_says n k1)\<lparr>kn_paging := map_pages (paging_at m) (fresh (pages_mapped n0) (pages_mapped n)) (kn_paging k1)\<rparr>"
  have k1: "kn_paging k1 = kn_paging k" "tables_ready m {} (net_says n k1)" "kn_net k1 = n0"
    using assms(1) by (simp_all add: k1_def)
  have mp: "low_identity (kernel_dir (paging_at m)) (kn_paging k2) \<and> cr3 (kn_paging k2) = cr3 (kn_paging k) \<and> paging_on (kn_paging k2) = paging_on (kn_paging k)"
    unfolding k2_def using map_pages_low [of "paging_at m" "kn_paging k" "rev ps"] ps assms(1) k1(1) by (auto simp: tables_ready_def)
  have "tables_ready m {} ((net_says n k1)\<lparr>kn_paging := kn_paging k2\<rparr>)" by (rule tables_ready_paging) (use k1 mp in simp_all)
  then have r2: "tables_ready m {} k2" by (simp add: k2_def)
  have "boot_net m k = do { k \<leftarrow> take_lines ls k2; if \<not> found then Some (klog ''STEP17 no E1000'' k) else ask_lease m k }"
    unfolding boot_net_def Let_def n0_def [symmetric] klog_fields e prod.case ls ask_lease_def k2_def k1_def driver_says_fields ..
  then show thesis unfolding f [symmetric] by (rule that) (use r2 in \<open>auto simp: k2_def k1_def\<close>)
qed

lemma take_lines_keeps: "take_lines ls k = Some k' \<Longrightarrow> kn_if k' = kn_if k \<and> line_ok k' = line_ok k"
proof (induction ls arbitrary: k)
  case (Cons l ls)
  then obtain i where "take_lines ls (k\<lparr>kn_idt := i\<rparr>) = Some k'" by (auto simp: irq_client_init_def elim!: bindE)
  from Cons.IH [OF this] show ?case by simp
qed simp

text \<open>When the stage ends, and what it leaves.\<close>

lemma boot_net_ready:
  assumes "tables_ready m {} k" "boot_net m k = Some k'"
  shows "tables_ready m (set (nic_line m (kn_net k))) k' \<and> kn_acc k' = kn_acc k \<and> kn_sys k' = kn_sys k \<and> kn_waits k' = kn_waits k \<and>
    line_ok k' = line_ok k \<and> (\<forall>l \<in> set (nic_line m (kn_net k)). l < 16)"
proof -
  let ?ls = "nic_line m (kn_net k)"
  obtain k2 where b: "boot_net m k = do { x \<leftarrow> take_lines ?ls k2; if \<not> nic_starts m (kn_net k) then Some (klog ''STEP17 no E1000'' x) else ask_lease m x }"
    and k2: "tables_ready m {} k2" "kn_acc k2 = kn_acc k" "kn_sys k2 = kn_sys k" "kn_waits k2 = kn_waits k" "kn_if k2 = kn_if k" "line_ok k2 = line_ok k"
    using boot_net_stages [OF assms(1)] by blast
  have l: "\<forall>l \<in> set ?ls. l < 16" using take_lines_none [of ?ls k2] assms(2) by (cases "\<forall>l \<in> set ?ls. l < 16") (simp_all add: b)
  from take_lines_ready [OF k2(1) l] obtain k3 where
    k3: "take_lines ?ls k2 = Some k3" "tables_ready m (set ?ls) k3" "kn_sys k3 = kn_sys k" "kn_acc k3 = kn_acc k" "kn_waits k3 = kn_waits k"
    using k2 by (auto simp: gives_def)
  have "line_ok k3 = line_ok k" using take_lines_keeps [OF k3(1)] k2 by simp
  with assms(2) k3 l show ?thesis using ask_lease_keeps [of m k3 k'] by (auto simp: b split: if_splits)
qed

lemma boot_net_ends:
  assumes "tables_ready m {} k" "card_writes (net_card m)"
  shows "boot_net m k \<noteq> None \<longleftrightarrow> (\<forall>l \<in> set (nic_line m (kn_net k)). l < 16) \<and> (nic_starts m (kn_net k) \<longrightarrow> kn_if k \<and> timer_runs m)"
proof -
  let ?ls = "nic_line m (kn_net k)"
  obtain k2 where b: "boot_net m k = do { x \<leftarrow> take_lines ?ls k2; if \<not> nic_starts m (kn_net k) then Some (klog ''STEP17 no E1000'' x) else ask_lease m x }"
    and k2: "tables_ready m {} k2" "kn_if k2 = kn_if k"
    using boot_net_stages [OF assms(1)] by blast
  show ?thesis
  proof (cases "\<forall>l \<in> set ?ls. l < 16")
    case True
    from take_lines_ready [OF k2(1) this] obtain k3 where k3: "take_lines ?ls k2 = Some k3" by (auto simp: gives_def)
    then have "kn_if k3 = kn_if k" using take_lines_keeps [OF k3] k2 by simp
    then show ?thesis using True k3 ask_lease_ends [OF assms(2), of k3] by (simp add: b)
  next
    case False
    then show ?thesis using take_lines_none [of ?ls k2] by (simp add: b)
  qed
qed

text \<open>Whether the boot loader gave a frame buffer, so that the kernel waits for a key.\<close>

definition wants_graphics :: "multiboot_info \<Rightarrow> bool" where
  "wants_graphics mb \<longleftrightarrow> mb_flags mb AND MB_FLAG_FB \<noteq> 0 \<and> fb_addr_of mb \<noteq> 0 \<and>
     mb_fb_width mb \<noteq> 0 \<and> mb_fb_height mb \<noteq> 0"

definition key_comes :: "machine \<Rightarrow> nat \<Rightarrow> kbd \<Rightarrow> bool" where
  "key_comes m w b \<longleftrightarrow> keyboard_getchar (key_irqs m w) b \<noteq> None"

lemma fb_start_ok: "a \<noteq> 0 \<Longrightarrow> w \<noteq> 0 \<Longrightarrow> h \<noteq> 0 \<Longrightarrow> fst (fb_start gr a w h p bpp c)"
  by (simp add: fb_start_def fb_init_def Let_def)

lemma map_framebuffer_low:
  assumes "tables_ready m nic k"
  shows "tables_ready m nic (k\<lparr>kn_paging := map_framebuffer (paging_at m) fb sz (kn_paging k)\<rparr>)"
proof -
  have fl: "frame_of (PAGE_PRESENT OR PAGE_WRITE) = 0" by (simp add: frame_of_def PAGE_PRESENT_def PAGE_WRITE_def)
  have "low_identity (kernel_dir (paging_at m)) q \<and> cr3 q = cr3 (kn_paging k) \<and> paging_on q = paging_on (kn_paging k)"
    if "q = map_framebuffer (paging_at m) fb sz (kn_paging k)" for q
    unfolding that map_framebuffer_def Let_def
    by (rule for_loop_keeps) (use assms map_identity [OF _ fl] in \<open>auto simp: tables_ready_def paging_kernel_directory_def\<close>)
  then show ?thesis using assms by (intro tables_ready_paging) auto
qed

lemma splash_fields:
  assumes "key_comes m (kn_waits k) (sc_kbd (kn_sys k))" "tables_ready m nic k" "same_files k0 k"
  shows "gives (show_splash m k) (\<lambda>k'. tables_ready m nic k' \<and> same_files k0 k')"
proof -
  obtain c b where key: "keyboard_getchar (key_irqs m (kn_waits k)) (sc_kbd (kn_sys k)) = Some (c, b)"
    using assms(1) by (auto simp: key_comes_def)
  then have w: "wait_for_key m (klog ''STEP19b waiting for key'' (on_con draw_splash (klog ''STEP19a fb_init OK'' k))) =
      Some ((klog ''STEP19b waiting for key'' (on_con draw_splash (klog ''STEP19a fb_init OK'' k)))
        \<lparr>kn_sys := (kn_sys (on_con draw_splash (klog ''STEP19a fb_init OK'' k)))\<lparr>sc_kbd := b\<rparr>, kn_waits := kn_waits k + 1\<rparr>)"
    by (simp add: wait_for_key_def key del: keyboard_getchar.simps)
  show ?thesis using assms(2,3) by (simp add: show_splash_def w Let_def) (simp add: same_files_def on_con_def)
qed

lemma splash_none: "\<not> key_comes m (kn_waits k) (sc_kbd (kn_sys k)) \<Longrightarrow> show_splash m k = None"
proof -
  assume "\<not> key_comes m (kn_waits k) (sc_kbd (kn_sys k))"
  then have "keyboard_getchar (key_irqs m (kn_waits k)) (sc_kbd (kn_sys k)) = None" unfolding key_comes_def by blast
  then show ?thesis by (simp add: show_splash_def wait_for_key_def Let_def del: keyboard_getchar.simps)
qed

lemma boot_screen_none:
  assumes "wants_graphics mb" "\<not> key_comes m (kn_waits k) (sc_kbd (kn_sys k))"
  shows "boot_screen m mb k = None"
proof -
  have "boot_graphics m mb k1 = None" if "kn_waits k1 = kn_waits k" "sc_kbd (kn_sys k1) = sc_kbd (kn_sys k)" for k1
  proof -
    have "show_splash m x = None" if "kn_waits x = kn_waits k1" "sc_kbd (kn_sys x) = sc_kbd (kn_sys k1)" for x
      using assms(2) that \<open>kn_waits k1 = kn_waits k\<close> \<open>sc_kbd (kn_sys k1) = _\<close> by (intro splash_none) simp
    moreover obtain c where "fb_start (shadow_granted m) (fb_addr_of mb) (mb_fb_width mb) (mb_fb_height mb) (mb_fb_pitch mb) (mb_fb_bpp mb)
        (sc_con (kn_sys k1)) = (True, c)"
      using fb_start_ok [of "fb_addr_of mb" "mb_fb_width mb" "mb_fb_height mb"] assms(1) unfolding wants_graphics_def by (metis (full_types) prod.collapse)
    ultimately show ?thesis
      using assms(1) by (simp add: boot_graphics_def wants_graphics_def Let_def)
  qed
  then show ?thesis using assms(1) by (simp add: boot_screen_def wants_graphics_def)
qed

lemma boot_screen_ready:
  assumes "tables_ready m nic k" "wants_graphics mb \<Longrightarrow> key_comes m (kn_waits k) (sc_kbd (kn_sys k))"
  shows "gives (boot_screen m mb k) (\<lambda>k'. tables_ready m nic k' \<and> same_files k k')"
proof -
  have g: "gives (boot_graphics m mb k1) (\<lambda>(ok, k'). tables_ready m nic k' \<and> same_files k k')"
    if k1: "tables_ready m nic k1" "same_files k k1" "kn_waits k1 = kn_waits k" "sc_kbd (kn_sys k1) = sc_kbd (kn_sys k)"
      "mb_flags mb AND MB_FLAG_FB \<noteq> 0" for k1
  proof (cases "wants_graphics mb")
    case False
    with k1 show ?thesis by (simp add: boot_graphics_def wants_graphics_def Let_def)
  next
    case True
    define k2 where "k2 = klog ''[fb] pages mapped'' ((com_write (fb_banner mb) (klog ''STEP19 fb present'' k1))
      \<lparr>kn_paging := map_framebuffer (paging_at m) (fb_addr_of mb) (mb_fb_pitch mb * mb_fb_height mb + mb_fb_pitch mb) (kn_paging k1)\<rparr>)"
    have "tables_ready m nic (com_write (fb_banner mb) (klog ''STEP19 fb present'' k1))" using k1 by simp
    from map_framebuffer_low [OF this] have k2: "tables_ready m nic k2" "same_files k k2" "kn_waits k2 = kn_waits k" "sc_kbd (kn_sys k2) = sc_kbd (kn_sys k)"
      using k1 by (simp_all add: k2_def)
    obtain c where c: "fb_start (shadow_granted m) (fb_addr_of mb) (mb_fb_width mb) (mb_fb_height mb) (mb_fb_pitch mb) (mb_fb_bpp mb)
        (sc_con (kn_sys k2)) = (True, c)"
      using fb_start_ok [of "fb_addr_of mb" "mb_fb_width mb" "mb_fb_height mb"] True unfolding wants_graphics_def by (metis (full_types) prod.collapse)
    have "gives (show_splash m (on_con (\<lambda>_. c) k2)) (\<lambda>k'. tables_ready m nic k' \<and> same_files k k')"
      using k2 assms(2) [OF True] by (intro splash_fields) simp_all
    moreover have "boot_graphics m mb k1 = map_option (Pair True) (show_splash m (on_con (\<lambda>_. c) k2))"
      using True c by (simp add: boot_graphics_def wants_graphics_def Let_def k2_def)
    ultimately show ?thesis by (simp add: gives_map comp_def)
  qed
  have t: "gives (Some (if ok then k' else on_con text_mode k')) (\<lambda>k'. tables_ready m nic k' \<and> same_files k k')"
    if "tables_ready m nic k' \<and> same_files k k'" for ok k' using that by simp
  show ?thesis
    using assms(1) t by (auto simp: boot_screen_def Let_def intro!: gives_bind [OF g])
qed

section \<open>The whole start\<close>

definition heartbeat_ready :: "machine \<Rightarrow> procs \<Rightarrow> bool" where
  "heartbeat_ready m ps \<longleftrightarrow> sched_ok ps \<and> current ps = 0 \<and> state_of ps 0 = PROC_READY \<and> run_list ps = [1] \<and> state_of ps 1 = PROC_READY \<and>
     eip (cpu (proc_table ps 1)) = heartbeat_at m"

lemma heartbeat_started:
  assumes "idle_only (sc_procs (kn_sys k))"
  shows "gives (start_heartbeat m k) (\<lambda>k'. heartbeat_ready m (sc_procs (kn_sys k')) \<and> kn_acc k' = kn_acc k \<and>
    (\<forall>nic. tables_ready m nic k' = tables_ready m nic k))"
proof -
  let ?ps = "sc_procs (kn_sys k)"
  have "alloc_proc ?ps = Some 1"
    using assms by (auto simp: alloc_proc_def idle_only_def first_from_Some state_of_def MAX_PROCS_def)
  moreover obtain stk h where "kmalloc KERNEL_STACK_SZ (kheap_of ?ps) = Some (stk, h)" using assms by (auto simp: idle_only_def)
  ultimately obtain ps where ps: "proc_create_kernel (code_at m) ''heartbeat'' (heartbeat_at m) ?ps = Some (Some 1, ps)" "sched_ok ps"
    "run_list ps = [1]" "current ps = 0" "state_of ps = (state_of ?ps)(1 := PROC_READY)" "eip (cpu (proc_table ps 1)) = heartbeat_at m"
    using create_spec [of ?ps 1 stk h "code_at m" "''heartbeat''" "heartbeat_at m"] assms by (auto simp: idle_only_def)
  with assms show ?thesis by (simp add: start_heartbeat_def heartbeat_ready_def idle_only_def)
qed

text \<open>What the stages make of the serial line and of the interrupt flag.\<close>

definition disk_found :: "machine \<Rightarrow> kernel \<Rightarrow> bool" where "disk_found m k \<longleftrightarrow> fst (ata_init (ata_dev m) (kn_ata k))"

lemma irq_client_keeps: "irq_client_init n c k = Some k' \<Longrightarrow> line_ok k' = line_ok k"
  by (auto simp: irq_client_init_def)

lemma boot_core_keeps: "boot_core m mb k = Some k' \<Longrightarrow> line_ok k' = line_ok k"
  by (auto simp: boot_core_def Let_def elim!: bindE dest!: irq_client_keeps)

lemma show_vout_if [simp]: "kn_if (show_vout k) = kn_if k" "kn_ata (show_vout k) = kn_ata k"
  by (simp_all add: show_vout_def on_con_def Let_def)

lemma boot_acc_keeps: "boot_acc f k = Some k' \<Longrightarrow> line_ok k' = line_ok k \<and> kn_if k' = kn_if k \<and> kn_ata k' = kn_ata k"
  by (auto simp: boot_acc_def)

lemma boot_disk_keeps: "boot_disk m k = Some k' \<Longrightarrow> line_ok k' = line_ok k \<and> kn_if k' = (kn_if k \<or> disk_found m k)"
  by (auto simp: boot_disk_def disk_found_def Let_def split: prod.splits if_splits elim!: bindE)

lemma boot_files_keeps:
  assumes "boot_files m k = Some k'"
  shows "line_ok k' = line_ok k \<and> kn_if k' = (kn_if k \<or> disk_found m k)"
proof -
  from assms obtain k1 k2 k3 k4 k5 where s: "boot_fs (\<lambda>v. Some (vfs_init v)) k = Some k1" "boot_fs initrd_init (klog ''STEP12 vfs'' k1) = Some k2"
      "boot_disk m (klog ''STEP13 initrd'' k2) = Some k3" "boot_acc user_init k3 = Some k4" "boot_acc users_save (klog ''STEP15 users'' k4) = Some k5"
      "k' = klog ''STEP15a users saved'' k5"
    unfolding boot_files_def by (elim bindE) blast
  note d = s(1,2) [unfolded boot_fs_def, THEN boot_acc_keeps] s(4,5) [THEN boot_acc_keeps] s(3) [THEN boot_disk_keeps]
  then show ?thesis by (simp add: s(6) disk_found_def)
qed

lemma boot_screen_keeps: "boot_screen m mb k = Some k' \<Longrightarrow> line_ok k' = line_ok k"
  unfolding boot_screen_def boot_graphics_def show_splash_def wait_for_key_def
  by (auto simp: Let_def simp del: keyboard_getchar.simps split: prod.splits if_splits elim!: bindE)

lemma start_heartbeat_keeps: "start_heartbeat m k = Some k' \<Longrightarrow> line_ok k' = line_ok k"
  by (auto simp: start_heartbeat_def elim!: bindE)

text \<open>The stages up to the network.\<close>

lemma boot_upto_net:
  assumes "image_placed m" "powered_on k"
  obtains k2 where "boot_stages m MULTIBOOT_MAGIC_EXPECTED mb k =
      do { k \<leftarrow> boot_net m k2; k \<leftarrow> boot_screen m mb k; start_heartbeat m (klog ''STEP20 entering shell'' k) }"
    "tables_ready m {} k2" "idle_only (sc_procs (kn_sys k2))" "accounts_ready (kn_acc k2)" "kn_net k2 = kn_net k" "kn_waits k2 = kn_waits k"
    "sc_kbd (kn_sys k2) = keyboard_init (sc_kbd (kn_sys k))" "kn_if k2 = disk_found m k" "line_ok k2 = line_ok k"
proof -
  define k0 where "k0 = klog ''STEP2  multiboot OK'' (boot_greet k)"
  have g: "kn_gdt k0 = kn_gdt k" "kn_idt k0 = kn_idt k" "sc_procs (kn_sys k0) = sc_procs (kn_sys k)" "sc_kbd (kn_sys k0) = sc_kbd (kn_sys k)"
    "kn_acc k0 = kn_acc k" "kn_net k0 = kn_net k" "kn_waits k0 = kn_waits k" "kn_ata k0 = kn_ata k" "kn_if k0 = kn_if k" "line_ok k0 = line_ok k"
    by (simp_all add: k0_def) (simp_all add: boot_greet_def on_con_def)
  obtain s gr where fs: "afs (kn_acc k) = vfs_boot s gr" using assms(2) by (auto simp: powered_on_def)
  have pw: "length (gdt_table (kn_gdt k0)) = GDT_ENTRIES" "length (idt_table (kn_idt k0)) = IDT_ENTRIES"
    "irq_table (kn_idt k0) = replicate 16 None" "run_queue (sc_procs (kn_sys k0)) = None" "\<not> kn_if k"
    using assms(2) g by (simp_all add: powered_on_def)
  from boot_core_ready [OF assms(1) pw(1-4), of mb] obtain k1 where
    k1: "boot_core m mb k0 = Some k1" "tables_ready m {} k1" "idle_only (sc_procs (kn_sys k1))" "kn_acc k1 = kn_acc k"
      "kn_net k1 = kn_net k" "kn_waits k1 = kn_waits k" "sc_kbd (kn_sys k1) = keyboard_init (sc_kbd (kn_sys k))" "kn_ata k1 = kn_ata k" "kn_if k1 = kn_if k"
    using g by (auto simp: gives_def same_rest_def)
  have l1: "line_ok k1 = line_ok k" using boot_core_keeps [OF k1(1)] g by simp
  have "afs (kn_acc k1) = vfs_boot s gr" using fs k1(4) by simp
  from gives_boot_files [OF this, of m] obtain k2 where k2: "boot_files m k1 = Some k2" "same_core k1 k2" "accounts_ready (kn_acc k2)"
    by (auto simp: gives_def)
  have s2: "tables_ready m {} k2" "idle_only (sc_procs (kn_sys k2))" "kn_net k2 = kn_net k" "kn_waits k2 = kn_waits k"
    "sc_kbd (kn_sys k2) = keyboard_init (sc_kbd (kn_sys k))"
    using k1 k2(2) by (simp_all add: same_core_def tables_ready_def)
  have i2: "kn_if k2 = disk_found m k" "line_ok k2 = line_ok k"
    using boot_files_keeps [OF k2(1)] k1(8,9) l1 pw(5) by (simp_all add: disk_found_def)
  have "boot_stages m MULTIBOOT_MAGIC_EXPECTED mb k =
      do { k \<leftarrow> boot_net m k2; k \<leftarrow> boot_screen m mb k; start_heartbeat m (klog ''STEP20 entering shell'' k) }"
    using k1(1) k2(1) by (simp add: boot_stages_def k0_def)
  then show thesis by (rule that) (use s2 k2(3) i2 in simp_all)
qed

lemma boot_screen_ends: "tables_ready m nic k \<Longrightarrow>
  boot_screen m mb k \<noteq> None \<longleftrightarrow> (wants_graphics mb \<longrightarrow> key_comes m (kn_waits k) (sc_kbd (kn_sys k)))"
  using boot_screen_ready [of m nic k mb] boot_screen_none [of mb m k]
  by (cases "wants_graphics mb \<longrightarrow> key_comes m (kn_waits k) (sc_kbd (kn_sys k))") (auto simp: gives_def)

lemma boot_stages_ready:
  assumes "image_placed m" "powered_on k" "boot_stages m mb_magic mb k = Some k'"
  shows "tables_ready m (set (nic_line m (kn_net k))) k' \<and> heartbeat_ready m (sc_procs (kn_sys k')) \<and> accounts_ready (kn_acc k') \<and>
    line_ok k' = line_ok k"
proof -
  let ?nic = "set (nic_line m (kn_net k))"
  have magic: "mb_magic = MULTIBOOT_MAGIC_EXPECTED" using assms(3) by (auto simp: boot_stages_def split: if_splits)
  obtain k2 where b: "boot_stages m MULTIBOOT_MAGIC_EXPECTED mb k =
      do { k \<leftarrow> boot_net m k2; k \<leftarrow> boot_screen m mb k; start_heartbeat m (klog ''STEP20 entering shell'' k) }"
    and k2: "tables_ready m {} k2" "idle_only (sc_procs (kn_sys k2))" "accounts_ready (kn_acc k2)" "kn_net k2 = kn_net k" "line_ok k2 = line_ok k"
    using boot_upto_net [OF assms(1,2)] by blast
  from assms(3) obtain k3 k4 where k3: "boot_net m k2 = Some k3" and k4: "boot_screen m mb k3 = Some k4"
    and k5: "start_heartbeat m (klog ''STEP20 entering shell'' k4) = Some k'"
    unfolding magic b by (auto elim!: bindE)
  have n: "tables_ready m ?nic k3" "kn_acc k3 = kn_acc k2" "kn_sys k3 = kn_sys k2" "line_ok k3 = line_ok k"
    using boot_net_ready [OF k2(1) k3] k2 by simp_all
  have "wants_graphics mb \<Longrightarrow> key_comes m (kn_waits k3) (sc_kbd (kn_sys k3))" using boot_screen_ends [OF n(1), of mb] k4 by simp
  from boot_screen_ready [where mb = mb, OF n(1) this] k4 have s: "tables_ready m ?nic k4" "same_files k3 k4" by (auto simp: gives_def)
  have i: "idle_only (sc_procs (kn_sys (klog ''STEP20 entering shell'' k4)))" using s n k2 by (simp add: same_files_def)
  have "line_ok k' = line_ok k" using start_heartbeat_keeps [OF k5] boot_screen_keeps [OF k4] n by simp
  with heartbeat_started [OF i, of m] k5 s n k2 show ?thesis by (simp add: gives_def same_files_def)
qed

lemma boot_stages_ends:
  assumes "image_placed m" "powered_on k" "card_writes (net_card m)"
  shows "boot_stages m mb_magic mb k \<noteq> None \<longleftrightarrow> mb_magic = MULTIBOOT_MAGIC_EXPECTED \<and> (\<forall>l \<in> set (nic_line m (kn_net k)). l < 16) \<and>
    (nic_starts m (kn_net k) \<longrightarrow> disk_found m k \<and> timer_runs m) \<and>
    (wants_graphics mb \<longrightarrow> key_comes m (kn_waits k) (keyboard_init (sc_kbd (kn_sys k))))"
proof (cases "mb_magic = MULTIBOOT_MAGIC_EXPECTED")
  case magic: True
  obtain k2 where b: "boot_stages m MULTIBOOT_MAGIC_EXPECTED mb k =
      do { k \<leftarrow> boot_net m k2; k \<leftarrow> boot_screen m mb k; start_heartbeat m (klog ''STEP20 entering shell'' k) }"
    and k2: "tables_ready m {} k2" "idle_only (sc_procs (kn_sys k2))" "kn_net k2 = kn_net k" "kn_waits k2 = kn_waits k"
      "sc_kbd (kn_sys k2) = keyboard_init (sc_kbd (kn_sys k))" "kn_if k2 = disk_found m k"
    using boot_upto_net [OF assms(1,2)] by blast
  show ?thesis
  proof (cases "boot_net m k2")
    case None
    then have "\<not> ((\<forall>l \<in> set (nic_line m (kn_net k)). l < 16) \<and> (nic_starts m (kn_net k) \<longrightarrow> disk_found m k \<and> timer_runs m))"
      using boot_net_ends [OF k2(1) assms(3)] k2 by simp
    moreover have "boot_stages m mb_magic mb k = None" unfolding magic b using None by simp
    ultimately show ?thesis by blast
  next
    case (Some k3)
    have n: "tables_ready m (set (nic_line m (kn_net k))) k3" "kn_sys k3 = kn_sys k2" "kn_waits k3 = kn_waits k"
      using boot_net_ready [OF k2(1) Some] k2 by simp_all
    have e: "boot_screen m mb k3 \<noteq> None \<longleftrightarrow> (wants_graphics mb \<longrightarrow> key_comes m (kn_waits k) (keyboard_init (sc_kbd (kn_sys k))))"
      using boot_screen_ends [OF n(1), of mb] n k2 by simp
    have h: "start_heartbeat m (klog ''STEP20 entering shell'' k4) \<noteq> None" if "boot_screen m mb k3 = Some k4" for k4
    proof -
      have "same_files k3 k4" using boot_screen_ready [where mb = mb, OF n(1)] boot_screen_ends [OF n(1), of mb] that by (auto simp: gives_def)
      then have "idle_only (sc_procs (kn_sys (klog ''STEP20 entering shell'' k4)))" using n k2 by (simp add: same_files_def)
      from heartbeat_started [OF this, of m] show ?thesis by (auto simp: gives_def)
    qed
    have "boot_stages m mb_magic mb k \<noteq> None \<longleftrightarrow> boot_screen m mb k3 \<noteq> None"
      using Some h unfolding magic b by (cases "boot_screen m mb k3") simp_all
    then show ?thesis using boot_net_ends [OF k2(1) assms(3)] Some k2 magic e by simp
  qed
qed (simp add: boot_stages_def)

lemma kernel_main_Some: "kernel_main m mb_magic mb k = Some k' \<longleftrightarrow> boot_stages m mb_magic mb k = Some k' \<and> kn_com k' \<noteq> None"
  by (auto simp: kernel_main_def elim!: bindE split: option.splits)


text \<open>
  C12. What the shell can rely on when it is called: the flat segments and the gates are loaded, each gate
  leads to its stub, the timer, the keyboard and the network card own their lines and nobody owns the
  others; paging is on in the kernel's directory, which is well formed and translates the first 8 MiB
  to themselves, through every mapping the drivers made; the scheduler's queue holds just the
  heartbeat process, ready at its entry; the mounted tree is sound, there is at least one account and
  nobody is logged in.
\<close>

theorem boot_leaves_ready:
  assumes "image_placed m" "powered_on k" "kernel_main m mb_magic mb k = Some k'"
  shows "tables_ready m (set (nic_line m (kn_net k))) k' \<and> heartbeat_ready m (sc_procs (kn_sys k')) \<and> accounts_ready (kn_acc k')"
  using boot_stages_ready [OF assms(1,2), of mb_magic mb k'] assms(3) by (simp add: kernel_main_Some)

section \<open>A machine\<close>

text \<open>
  A PC with an empty PCI bus and a frame buffer of 1024 by 768 pixels, whose user presses the space bar while
  the splash screen waits, and the state of the kernel's data when it is started there.
\<close>

definition demo_machine :: machine where
  "demo_machine = \<lparr>key_irqs = (\<lambda>_. [push 0x20]), wait_ticks = (\<lambda>_. 0), net_dev = (\<lambda>_. 0xFFFFFFFF), net_card = id, tick_irqs = (\<lambda>_. []), timer_runs = True,
     other_procs = Some, stack_junk = [], cpu_esp = 0, cpu_eflags = 0, cpu_cr0 = 0, cpu_cr3 = 0,
     kernel_end = 0x700000, gdt_at = 0x6000, idt_at = 0x6100, stubs_at = (\<lambda>st. case st of Isr i \<Rightarrow> 0x101000 + of_nat i | Irq i \<Rightarrow> 0x102000 + of_nat i),
     heap_region = 0x200000,
     paging_at = \<lparr>kernel_dir = 0x610000, table0 = 0x611000, table1 = 0x612000, high_table0 = 0x613000, high_table1 = 0x614000\<rparr>,
     code_at = \<lparr>idle_task = 0x103000, proc_exit_addr = 0x104000, kernel_directory = 0x610000\<rparr>, heartbeat_at = 0x105000,
     pic_dev = (\<lambda>_. 0xFF), ata_dev = (\<lambda>_. 0xFF), nic_memory = \<lparr>tx_ring_at = 0, rx_ring_at = 0, tx_buf_at = 0, rx_buf_at = 0\<rparr>,
     nic_junk = \<lparr>p_bus = 0, p_slot = 0, p_func = 0, vendor_id = 0, device_id = 0, class_code = 0, sub_class = 0, irq = 0, bar = [], bar_is_mmio = []\<rparr>,
     shadow_granted = True\<rparr>"

definition demo_multiboot :: multiboot_info where
  "demo_multiboot = \<lparr>mb_flags = 0x1000, mem_lower = 640, mem_upper = 130048, mb_fb_addr = 0xFD000000, mb_fb_pitch = 4096,
     mb_fb_width = 1024, mb_fb_height = 768, mb_fb_bpp = 32\<rparr>"

definition demo_kernel :: kernel where
  "demo_kernel = \<lparr>kn_com = Some \<lparr>trace = [], slog = []\<rparr>, kn_uart = (\<lambda>_. 0x20), kn_if = False, kn_sys = (small_sysc [])\<lparr>sc_procs := demo_procs\<lparr>run_queue := None\<rparr>, sc_kbd := kb_start\<rparr>,
     kn_gdt = blank_gdt,
     kn_idt = \<lparr>trace = [], slog = [], idt_table = idt_table blank_idt, idtr_limit = 0, idtr_base = 0, idt_loaded = False, irq_table = replicate 16 None\<rparr>,
     kn_paging = \<lparr>pmem = \<lambda>_. 0, frames = pmm_bss, cr3 = 0, paging_on = False, invalidated = []\<rparr>, kn_timer = demo_timer,
     kn_acc = \<lparr>users = replicate USER_MAX blank_user, user_count = 0, current_user = None, afs = vfs_boot demo_fs (\<lambda>_ _. True)\<rparr>,
     kn_ata = demo_ata, kn_net = demo_net, kn_waits = 0\<rparr>"

lemma demo_placed: "image_placed demo_machine"
  by (simp add: image_placed_def image_ok_def page_aligned_def page_off_def demo_machine_def KERNEL_HEAP_SIZE_def)

lemma demo_powered: "powered_on demo_kernel"
  by (auto simp: powered_on_def demo_kernel_def blank_gdt_def blank_idt_def GDT_ENTRIES_def IDT_ENTRIES_def)

lemma empty_bus: "pci_scan (\<lambda>_. 0xFFFFFFFF) vendor device slot d s = (x, t) \<Longrightarrow> x = None"
proof (induction "32 - slot" arbitrary: slot s rule: less_induct)
  case less
  show ?case
  proof (cases "slot < 32")
    case True
    have "pci_scan (\<lambda>_. 0xFFFFFFFF) vendor device slot d s =
        pci_scan (\<lambda>_. 0xFFFFFFFF) vendor device (Suc slot) d (snd (pci_read32 (\<lambda>_. 0xFFFFFFFF) 0 (of_nat slot) 0 PCI_VENDOR_ID s))"
      using True by (subst pci_scan.simps) (simp add: Let_def split_beta pci_read32_def inl_def)
    with less.hyps [of "Suc slot"] less.prems True show ?thesis by simp
  next
    case False
    with less.prems show ?thesis by (subst (asm) pci_scan.simps) simp
  qed
qed

lemma demo_no_nic: "nic_line demo_machine (kn_net demo_kernel) = []" "\<not> nic_starts demo_machine (kn_net demo_kernel)"
proof -
  define n0 where "n0 = pci_init (net_dev demo_machine) (kn_net demo_kernel)"
  obtain x t where f: "pci_find_device (net_dev demo_machine) E1000_VENDOR E1000_DEVICE (nic_junk demo_machine) n0 = (x, t)" by fastforce
  then have s: "pci_scan (net_dev demo_machine) E1000_VENDOR E1000_DEVICE 0 (nic_junk demo_machine) n0 = (x, t)" by (simp add: pci_find_device_def)
  have dev: "net_dev demo_machine = (\<lambda>_. 0xFFFFFFFF)" by (simp add: demo_machine_def)
  have "x = None" using empty_bus s unfolding dev by blast
  moreover have "asks t = asks n0" using asks_scan [of "net_dev demo_machine" E1000_VENDOR E1000_DEVICE 0 "nic_junk demo_machine" n0] unfolding s by simp
  ultimately show "nic_line demo_machine (kn_net demo_kernel) = []" "\<not> nic_starts demo_machine (kn_net demo_kernel)"
    using f by (simp_all add: nic_line_def nic_starts_def n0_def [symmetric] e1000_init_def fresh_def asks_def serial_write_def Let_def)
qed

lemma demo_wires: "line_alive (kn_uart demo_kernel)" "card_writes (net_card demo_machine)"
proof -
  show "line_alive (kn_uart demo_kernel)" by (simp add: line_alive_def demo_kernel_def)
  have "\<exists>a b c d. s = s\<lparr>tx_ring := a, rx_ring := b, tx_buf := c, rx_buf := d\<rparr>" for s :: net
    by (intro exI [of _ "tx_ring s"] exI [of _ "rx_ring s"] exI [of _ "tx_buf s"] exI [of _ "rx_buf s"]) simp
  then show "card_writes (net_card demo_machine)" by (simp add: card_writes_def demo_machine_def)
qed

lemma demo_key: "key_comes demo_machine (kn_waits demo_kernel) (keyboard_init (sc_kbd (kn_sys demo_kernel)))"
  by (simp add: key_comes_def demo_machine_def demo_kernel_def keyboard_init_def keyboard_poll_def push_def kb_start_def KB_BUF_def)


lemma boot_leaves_ready_witness:
  "\<exists>k'. kernel_main demo_machine 0x2BADB002 demo_multiboot demo_kernel = Some k' \<and> heartbeat_ready demo_machine (sc_procs (kn_sys k'))"
proof -
  have "boot_stages demo_machine 0x2BADB002 demo_multiboot demo_kernel \<noteq> None"
    using boot_stages_ends [OF demo_placed demo_powered demo_wires(2), of "0x2BADB002" demo_multiboot] demo_no_nic demo_key
    by (simp add: MULTIBOOT_MAGIC_EXPECTED_def)
  then obtain k' where k': "boot_stages demo_machine 0x2BADB002 demo_multiboot demo_kernel = Some k'" by blast
  have "line_ok demo_kernel" using demo_powered demo_wires by (simp add: line_ok_def powered_on_def)
  then have "kernel_main demo_machine 0x2BADB002 demo_multiboot demo_kernel = Some k'"
    using boot_stages_ready [OF demo_placed demo_powered k'] k' by (simp add: kernel_main_Some line_ok_def)
  with boot_leaves_ready [OF demo_placed demo_powered this] show ?thesis by blast
qed

lemma map_framebuffer_identity_witness:
  "\<exists>p. low_identity 0x610000 p \<and> paging_virt_to_phys (pmem p) 0x610000 0xFD123456 = 0xFD123456"
proof -
  define q where "q = (kn_paging demo_kernel)\<lparr>frames := pmm_init 130688 0x700000 pmm_bss\<rparr>"
  define p where "p = paging_init (paging_at demo_machine) q"
  have d: "kernel_dir (paging_at demo_machine) = 0x610000" "kernel_end demo_machine = 0x700000" by (simp_all add: demo_machine_def)
  have p: "low_identity (kernel_dir (paging_at demo_machine)) p"
    unfolding p_def by (rule paging_init_low [OF demo_placed]) (simp add: q_def d(2))
  have "frames p = pmm_init 130688 0x700000 pmm_bss" by (simp add: p_def q_def paging_init_def Let_def)
  moreover have "init_first 0x700000 = 1792" "init_total 130688 = 32672" by (simp_all add: init_first_def init_total_def PAGE_SIZE_def)
  ultimately have "free_pages (frames p) = page_of ` {1792 ..< 32672}" by (simp add: free_pages_def pmm_init_abs(1))
  moreover have "inj_on page_of {1792 ..< 32672}"
    by (rule inj_onI) (rule page_of_inj, auto simp: FRAMES_MAX_def)
  ultimately have c: "769 \<le> card (free_pages (frames p))" by (simp add: card_image)
  note r = map_framebuffer_identity [OF p refl, of "4096 * 768 + 4096" "0xFD000000"]
  define p' where "p' = map_framebuffer (paging_at demo_machine) 0xFD000000 (4096 * 768 + 4096) p"
  have "\<exists>i < 769. drop_bit 12 (0xFD123456 :: u32) = drop_bit 12 (0xFD000000 + of_nat i * 4096)" by (intro exI [of _ "291"]) simp
  then have "low_identity 0x610000 p' \<and> paging_virt_to_phys (pmem p') 0x610000 0xFD123456 = 0xFD123456"
    using r c by (simp add: p'_def d(1) Let_def)
  then show ?thesis by blast
qed

end
