(* ===== verification/Kernel_Restart.thy ===== *)
theory Kernel_Restart
  imports Kernel_Main Fs_Live Fs_Create
begin

text \<open>
  The accounts and the disk together: what \<open>users_save\<close> writes through the virtual file system and StackFS is what
  \<open>user_init\<close> reads after the machine was restarted, and what the first start makes of an empty disk.
\<close>

section \<open>Entries of directories\<close>

text \<open>The inode a directory has under a name.\<close>

definition entry :: "sfs \<Rightarrow> u32 \<Rightarrow> u8 list \<Rightarrow> u32 option" where
  "entry s d nm = checked (map_of (live s (unat d)) (cstr nm))"

text \<open>An inode as a node, but for its name.\<close>

definition node_for :: "sfs \<Rightarrow> u32 \<Rightarrow> vnode \<Rightarrow> bool" where
  "node_for s e v \<longleftrightarrow> v_inode v = e \<and> v_ops v = Ops_stackfs \<and> v_size v = i_size (inodes s ! unat e) \<and>
     v_flags v = (if i_type (inodes s ! unat e) = SFS_TYPE_DIR then VFS_DIR else VFS_FILE)"

lemma bfs_finddir_entry:
  assumes "own s" and "is_dir s v" and "cstr nm \<noteq> []"
  shows "\<exists>b w. length b = 4096 \<and> bfs_finddir True v nm s = (case entry s (v_inode v) nm of None \<Rightarrow> None | Some e \<Rightarrow> Some (w e), s\<lparr>buf_find := b\<rparr>) \<and>
    (\<forall>e. node_for s e (w e))"
proof -
  have d: "unat (v_inode v) < 128" using assms(2) by (simp add: is_dir_def valid_ino_iff)
  from finddir_loop_spec [OF assms(1) d assms(3), of 0] obtain b where
    b: "finddir_loop (inodes s ! unat (v_inode v)) nm 0 s = (map_of (live s (unat (v_inode v))) (cstr nm), s\<lparr>buf_find := b\<rparr>)" "length b = 4096"
    by (auto simp: live_def)
  define w where "w = (\<lambda>ci. \<lparr>v_name = str_copy (replicate VFS_NAME_MAX 0) (i_name (inodes s ! unat ci)) VFS_NAME_MAX,
    v_flags = (if i_type (inodes s ! unat ci) = SFS_TYPE_DIR then VFS_DIR else VFS_FILE), v_inode = ci,
    v_size = i_size (inodes s ! unat ci), v_ops = Ops_stackfs\<rparr>)"
  have "\<forall>e. node_for s e (w e)" by (simp add: node_for_def w_def)
  moreover have "bfs_finddir True v nm s = (case entry s (v_inode v) nm of None \<Rightarrow> None | Some e \<Rightarrow> Some (w e), s\<lparr>buf_find := b\<rparr>)"
    using assms(2) by (auto simp: bfs_finddir_def Let_def is_dir_def b(1) entry_def checked_def w_def split: option.split)
  ultimately show ?thesis using b(2) by blast
qed

section \<open>The mounted disk\<close>

text \<open>The node mounted at \<^verbatim>\<open>/disk\<close> is the root directory of StackFS, and every allocation succeeds.\<close>

definition disk_at :: "nat \<Rightarrow> vnode \<Rightarrow> vfs \<Rightarrow> bool" where
  "disk_at a v k \<longleftrightarrow> fs_live k \<and> fs_root k \<noteq> None \<and> kgrant k = (\<lambda>_ _. True) \<and> mount_at (lit ''/disk'') k = Some (Kmem a) \<and>
     knodes k a = Some v \<and> v_flags v = VFS_DIR \<and> v_inode v = root_inode (sb (sfs_st k))"

text \<open>A file system in which everything is consistent, and memory and disk agree.\<close>

definition sound :: "sfs \<Rightarrow> bool" where
  "sound s \<longleftrightarrow> fs_ok s \<and> coherent s \<and> s_magic (sb s) = STACKFS_MAGIC \<and> valid_ino (root_inode (sb s)) \<and>
     i_type (inodes s ! unat (root_inode (sb s))) = SFS_TYPE_DIR"

lemma soundD:
  assumes "sound s"
  shows "fs_ok s" "own s" "marked s 0" "coherent s" "s_magic (sb s) = STACKFS_MAGIC" "v_inode v = root_inode (sb s) \<Longrightarrow> is_dir s v"
  using assms by (simp_all add: sound_def fs_ok_def is_dir_def)

text \<open>Reading a directory changes its buffer only.\<close>

definition peek :: "u8 list \<Rightarrow> vfs \<Rightarrow> vfs" where "peek b k = k\<lparr>sfs_st := (sfs_st k)\<lparr>buf_find := b\<rparr>\<rparr>"

definition take_node :: "vnode \<Rightarrow> vfs \<Rightarrow> vfs" where
  "take_node w k = k\<lparr>knodes := (knodes k)(knext k \<mapsto> w), knext := knext k + 1\<rparr>"

lemma find_simps [simp]:
  fixes s :: sfs
  shows "fbyte (s\<lparr>buf_find := b\<rparr>) i j = fbyte s i j" "live (s\<lparr>buf_find := b\<rparr>) d = live s d"
    "coherent (s\<lparr>buf_find := b\<rparr>) = coherent s" "marked (s\<lparr>buf_find := b\<rparr>) c = marked s c" "free_blks (s\<lparr>buf_find := b\<rparr>) = free_blks s"
    "iblk (s\<lparr>buf_find := b\<rparr>) i p = iblk s i p" "entry (s\<lparr>buf_find := b\<rparr>) e nm = entry s e nm" "node_for (s\<lparr>buf_find := b\<rparr>) e v = node_for s e v"
    "is_dir (s\<lparr>buf_find := b\<rparr>) v = is_dir s v" "dir_ok (s\<lparr>buf_find := b\<rparr>) d = dir_ok s d"
proof -
  show f: "fbyte (s\<lparr>buf_find := b\<rparr>) i j = fbyte s i j" "iblk (s\<lparr>buf_find := b\<rparr>) i p = iblk s i p"
    "marked (s\<lparr>buf_find := b\<rparr>) c = marked s c" for i j p c
    by (simp_all add: fbyte_def iblk_def ptr_def marked_def)
  then show l: "live (s\<lparr>buf_find := b\<rparr>) d = live s d" for d
    unfolding live_def by (intro dir_live_cong) simp
  then show "entry (s\<lparr>buf_find := b\<rparr>) e nm = entry s e nm" by (simp add: entry_def)
  show "free_blks (s\<lparr>buf_find := b\<rparr>) = free_blks s" by (simp add: free_blks_def total_def f)
  show "dir_ok (s\<lparr>buf_find := b\<rparr>) d = dir_ok s d" by (intro dir_ok_cong f)
qed (simp_all add: coherent_def sb_saved_def inodes_saved_def bmap_saved_def node_for_def is_dir_def)

lemma find_own: "own s \<Longrightarrow> length b = 4096 \<Longrightarrow> own (s\<lparr>buf_find := b\<rparr>)"
  by (rule own_cong [where s = s]) (auto simp: geometry_def dest: ownD)

lemma find_sound: "sound s \<Longrightarrow> length b = 4096 \<Longrightarrow> sound (s\<lparr>buf_find := b\<rparr>)"
  by (simp add: sound_def fs_ok_def find_own)

section \<open>Opening a path below the mount point\<close>

lemma finddir_disk:
  assumes "own (sfs_st k)" "is_dir (sfs_st k) v" "knodes k a = Some v" "v_ops v = Ops_stackfs" "v_flags v = VFS_DIR"
    "kgrant k = (\<lambda>_ _. True)" "cstr nm \<noteq> []"
  obtains b w where "length b = 4096" "\<forall>e. node_for (sfs_st k) e (w e)"
    "vfs_finddir (Some (Kmem a)) nm k = Some (case entry (sfs_st k) (v_inode v) nm of
       None \<Rightarrow> (None, peek b k) | Some e \<Rightarrow> (Some (Kmem (knext k)), take_node (w e) (peek b k)))"
proof -
  from bfs_finddir_entry [OF assms(1,2,7)] obtain b w where b: "length b = 4096" "\<forall>e. node_for (sfs_st k) e (w e)"
    "bfs_finddir True v nm (sfs_st k) = (case entry (sfs_st k) (v_inode v) nm of None \<Rightarrow> None | Some e \<Rightarrow> Some (w e), (sfs_st k)\<lparr>buf_find := b\<rparr>)"
    by blast
  have "v_flags v AND VFS_DIR \<noteq> 0" using assms(5) by (simp add: VFS_DIR_def)
  with assms(3,4,6) b(3) have "vfs_finddir (Some (Kmem a)) nm k = Some (case entry (sfs_st k) (v_inode v) nm of
       None \<Rightarrow> (None, peek b k) | Some e \<Rightarrow> (Some (Kmem (knext k)), take_node (w e) (peek b k)))"
    by (simp add: vfs_finddir_def node_at_def room_def new_node_def peek_def take_node_def split: option.split)
  with that b show thesis by blast
qed

lemma disk_atD:
  assumes "disk_at a v k"
  shows "fs_live k" "typed k" "vfs_ok k" "kgrant k = (\<lambda>_ _. True)" "mount_at (lit ''/disk'') k = Some (Kmem a)" "knodes k a = Some v"
    "v_flags v = VFS_DIR" "v_inode v = root_inode (sb (sfs_st k))" "v_ops v = Ops_stackfs" "permanent k (Kmem a)"
    "P \<noteq> lit ''/'' \<Longrightarrow> P \<noteq> lit ''/disk'' \<Longrightarrow> mount_at P k = None"
proof -
  show "fs_live k" "kgrant k = (\<lambda>_ _. True)" "knodes k a = Some v" and m: "mount_at (lit ''/disk'') k = Some (Kmem a)" and
    "v_flags v = VFS_DIR" "v_inode v = root_inode (sb (sfs_st k))"
    using assms by (simp_all add: disk_at_def)
  then show t: "typed k" "vfs_ok k" by (simp_all add: fs_live_iff)
  then show "v_ops v = Ops_stackfs" using \<open>knodes k a = Some v\<close> by (simp add: typed_def)
  show "permanent k (Kmem a)" by (rule mount_at_permanent [OF m])
  show "P \<noteq> lit ''/'' \<Longrightarrow> P \<noteq> lit ''/disk'' \<Longrightarrow> mount_at P k = None"
    using mount_paths [OF t(1), of P] by (cases "mount_at P k") auto
qed

lemma open_below_disk:
  assumes "disk_at a v k"
  shows "vfs_open (lit ''/disk'') k = Some (Some (Kmem a), k)"
    "vfs_open (lit ''/disk/etc'') k = vfs_finddir (Some (Kmem a)) (lit ''etc'') k"
    "vfs_open (lit ''/disk/etc/passwd'') k =
       Option.bind (vfs_finddir (Some (Kmem a)) (lit ''etc'') k) (\<lambda>(child, k). walk_names [lit ''passwd''] (lit ''/disk/etc'') child False k)"
proof -
  note D = disk_atD [OF assms]
  obtain r where r: "fs_root k = Some r" using assms by (auto simp: disk_at_def)
  have m: "mount_at (lit ''/disk/etc'') k = None" "mount_at (lit ''/disk/etc/passwd'') k = None"
    by (rule D(11); simp add: lit_def)+
  have f: "v_flags v AND VFS_DIR \<noteq> 0" "node_at k (Kmem a) = Some v" using D(6,7) by (simp_all add: VFS_DIR_def node_at_def)
  note ev = vfs_open_eq r strip_slash_def VFS_PATH_MAX_def VFS_NAME_MAX_def extend_path_def free_unless_def
  show "vfs_open (lit ''/disk'') k = Some (Some (Kmem a), k)"
    using D(5) by (simp add: ev lit_def)
  show "vfs_open (lit ''/disk/etc'') k = vfs_finddir (Some (Kmem a)) (lit ''etc'') k"
    using D(5) m(1) f by (cases "vfs_finddir (Some (Kmem a)) (lit ''etc'') k") (auto simp: ev lit_def)
  show "vfs_open (lit ''/disk/etc/passwd'') k =
       Option.bind (vfs_finddir (Some (Kmem a)) (lit ''etc'') k) (\<lambda>(child, k). walk_names [lit ''passwd''] (lit ''/disk/etc'') child False k)"
    using D(5) m f by (simp add: ev lit_def)
qed

section \<open>A new entry\<close>

text \<open>Whether a name is in a directory; room in it for another entry; the inodes to be had.\<close>

definition listed :: "sfs \<Rightarrow> u32 \<Rightarrow> u8 list \<Rightarrow> bool" where
  "listed s d nm \<longleftrightarrow> cstr nm \<in> fst ` set (live s (unat d))"

definition free_slots :: "sfs \<Rightarrow> u32 \<Rightarrow> nat set" where
  "free_slots s d = {p. p < 12 \<and> iblk s (unat d) p = None}"

definition has_slot :: "sfs \<Rightarrow> u32 \<Rightarrow> bool" where
  "has_slot s d \<longleftrightarrow> (\<exists>p < 12. iblk s (unat d) p = None)"

lemma has_slot_card: "0 < card (free_slots s d) \<Longrightarrow> has_slot s d"
  by (auto simp: has_slot_def free_slots_def card_gt_0_iff)

definition free_inodes_of :: "sfs \<Rightarrow> nat set" where
  "free_inodes_of s = {i. 1 \<le> i \<and> i < 128 \<and> i_type (inodes s ! i) = SFS_TYPE_FREE}"

lemma free_inodes_finite [simp]: "finite (free_inodes_of s)"
  by (rule finite_subset [of _ "{..<128}"]) (auto simp: free_inodes_of_def)

lemma not_listed: "\<not> listed s d nm \<Longrightarrow> entry s d nm = None"
  by (auto simp: listed_def entry_def checked_def map_of_eq_None_iff [symmetric])

lemma find_simps2 [simp]:
  fixes s :: sfs
  shows "listed (s\<lparr>buf_find := b\<rparr>) d nm = listed s d nm" "has_slot (s\<lparr>buf_find := b\<rparr>) d = has_slot s d"
    "free_inodes_of (s\<lparr>buf_find := b\<rparr>) = free_inodes_of s"
  by (simp_all add: listed_def has_slot_def free_inodes_of_def)

lemma new_entry:
  assumes "sound s" and "is_dir s dir" and "cstr nm \<noteq> []" and "length (cstr nm) \<le> 55" and "\<not> listed s (v_inode dir) nm"
    and "free_inodes_of s \<noteq> {}" and "free_blks s \<noteq> {}" and "has_slot s (v_inode dir)" and ty: "ty = SFS_TYPE_FILE \<or> ty = SFS_TYPE_DIR"
  obtains ni s' where "bfs_new ty perm dir nm s = (True, s')" "sound s'" "root_inode (sb s') = root_inode (sb s)" "valid_ino ni"
    "\<forall>j < 128. i_type (inodes s' ! j) = (if j = unat ni then ty else i_type (inodes s ! j))"
    "i_size (inodes s' ! unat ni) = 0" "unat ni \<in> free_inodes_of s" "\<forall>x. \<not> listed s' ni x" "has_slot s' ni"
    "card (free_blks s) \<le> Suc (card (free_blks s'))"
    "\<forall>e x. unat e < 128 \<and> cstr x \<noteq> [] \<longrightarrow> entry s' e x = (if e = v_inode dir \<and> cstr x = cstr nm then Some ni else entry s e x)"
    "\<forall>x. listed s' (v_inode dir) x \<longleftrightarrow> cstr x = cstr nm \<or> listed s (v_inode dir) x"
    "card (free_slots s (v_inode dir)) \<le> Suc (card (free_slots s' (v_inode dir)))" "free_inodes_of s' = free_inodes_of s - {unat ni}"
proof -
  let ?d = "unat (v_inode dir)"
  have o: "own s" and dt: "i_type (inodes s ! ?d) = SFS_TYPE_DIR" "valid_ino (v_inode dir)" using assms(1,2) by (simp_all add: soundD is_dir_def)
  have "\<exists>i. 1 \<le> i \<and> i < 128 \<and> i_type (inodes s ! i) = SFS_TYPE_FREE" using assms(6) by (auto simp: free_inodes_of_def)
  then obtain ni s1 where a: "alloc_inode s = (Some ni, s1)" by (rule alloc_inode_some [OF o])
  have dd: "?d < 128" using dt(2) by (simp add: valid_ino_iff)
  from bfs_new_spec [OF soundD(1) [OF assms(1)] dt(2,1) a ty refl, of perm nm] obtain s2 s' where N:
    "bfs_new ty perm dir nm s = (True, s')" "s' = stackfs_sync s2" "coherent s2" "own s2" "own s'"
    "s_magic (sb s') = s_magic (sb s)" "root_inode (sb s') = root_inode (sb s)" "card (free_blks s) \<le> Suc (card (free_blks s'))" "fs_ok s'"
    "1 \<le> ni" "ni < 128" "ni \<noteq> ?d" "created s s' ?d ni ty perm nm" "added s s' ?d 0 nm (of_nat ni) \<or> free_blks s = {} \<or> (\<forall>p < 12. iblk s ?d p \<noteq> None)"
    "\<exists>q. \<forall>p < 12. p \<noteq> q \<longrightarrow> ptr s' ?d p = ptr s ?d p"
    using soundD(4) [OF assms(1)] by auto
  have ad: "added s s' ?d 0 nm (of_nat ni)" using N(14) assms(7,8) by (auto simp: has_slot_def)
  have u: "unat (of_nat ni :: u32) = ni" using N(11) by (simp add: unat_of_nat_small)
  have v: "valid_ino (of_nat ni)" using N(10,11) by (simp add: valid_ino_iff u)
  have "coherent s'" using sync_spec [OF ownD(1) [OF N(4)] _ N(3)] ownD(2) [OF N(4)] unfolding N(2) by (simp add: Let_def geometry_def coherent_def)
  have ty': "i_type (inodes s' ! j) = (if j = ni then ty else i_type (inodes s ! j))" if "j < 128" for j
    using N(13) that rest_of_simps [of "inodes s' ! j" "inodes s ! j"] by (auto simp: created_def)
  have "valid_ino (root_inode (sb s))" "i_type (inodes s ! unat (root_inode (sb s))) = SFS_TYPE_DIR" using assms(1) by (simp_all add: sound_def)
  moreover have "i_type (inodes s ! ni) = SFS_TYPE_FREE" using N(13) by (simp add: created_def)
  moreover have "SFS_TYPE_FREE \<noteq> SFS_TYPE_DIR" by (simp add: SFS_TYPE_FREE_def SFS_TYPE_DIR_def)
  ultimately have "valid_ino (root_inode (sb s'))" "i_type (inodes s' ! unat (root_inode (sb s'))) = SFS_TYPE_DIR"
    using ty' [of "unat (root_inode (sb s))"] by (auto simp: N(7) valid_ino_iff)
  with N(6,9) \<open>coherent s'\<close> assms(1) have snd: "sound s'" by (simp add: sound_def)
  have e: "\<And>k. fbyte s' ni k = None" using N(13) by (simp add: created_def)
  note E = dir_ok_empty(2) [OF e]
  have nl: "\<not> listed s' (of_nat ni) x" for x by (simp add: listed_def u E)
  have r: "has_slot s' (of_nat ni)"
    using e [of 0] by (auto simp: has_slot_def u fbyte_def iblk_def intro!: exI [of _ 0] split: if_splits)
  have ent: "entry s' e x = (if e = v_inode dir \<and> cstr x = cstr nm then Some (of_nat ni) else entry s e x)" if x: "unat e < 128" "cstr x \<noteq> []" for e x
  proof (cases "unat e = ?d")
    case True
    then have e: "e = v_inode dir" by (simp add: word_unat_eq_iff)
    have d': "is_dir s' dir" by (rule created_is_dir [OF assms(2) N(13,12)])
    have "cstr nm \<notin> fst ` set (live s ?d)" using assms(5) by (simp add: listed_def)
    from new_found [OF o N(5) assms(2) d' ad assms(4) this N(10,11) x(2)] show ?thesis
      unfolding found_eq [OF o assms(2) x(2)] found_eq [OF N(5) d' x(2)] by (simp add: entry_def e)
  next
    case False
    then have "live s' (unat e) = live s (unat e)"
      using N(13) x(1) by (intro live_cong(1) [OF o N(5)]) (simp add: created_def)
    with False show ?thesis by (auto simp: entry_def)
  qed
  have li: "\<forall>x. listed s' (v_inode dir) x \<longleftrightarrow> cstr x = cstr nm \<or> listed s (v_inode dir) x"
    using ad assms(4) by (auto simp: added_def listed_def live_def)
  from N(15) obtain q where "\<forall>p < 12. p \<noteq> q \<longrightarrow> ptr s' ?d p = ptr s ?d p" by blast
  then have "free_slots s (v_inode dir) - {q} \<subseteq> free_slots s' (v_inode dir)" by (auto simp: free_slots_def iblk_def split: if_splits)
  then have "card (free_slots s (v_inode dir) - {q}) \<le> card (free_slots s' (v_inode dir))" by (intro card_mono) (simp_all add: free_slots_def)
  then have fs: "card (free_slots s (v_inode dir)) \<le> Suc (card (free_slots s' (v_inode dir)))"
    by (simp add: card_Diff_singleton_if split: if_splits)
  have "ty \<noteq> SFS_TYPE_FREE" using ty by (auto simp: SFS_TYPE_FREE_def SFS_TYPE_FILE_def SFS_TYPE_DIR_def)
  then have fi: "free_inodes_of s' = free_inodes_of s - {ni}" using ty' by (auto simp: free_inodes_of_def split: if_splits)
  show thesis
    by (rule that [OF N(1) snd N(7) v _ _ _ _ r N(8) _ li fs]) (use ty' N(10,11,13) nl ent fi in \<open>auto simp: u created_def free_inodes_of_def\<close>)
qed

section \<open>Opening the password file\<close>

text \<open>A node the caller alone holds.\<close>

definition mine :: "vfs \<Rightarrow> nat \<Rightarrow> vnode \<Rightarrow> bool" where
  "mine k r w \<longleftrightarrow> knodes k r = Some w \<and> \<not> permanent k (Kmem r)"

lemma fs_simps [simp]:
  "sfs_st (peek b k) = (sfs_st k)\<lparr>buf_find := b\<rparr>" "sfs_st (take_node w k) = sfs_st k" "knext (peek b k) = knext k" "kgrant (peek b k) = kgrant k"
  "kgrant (take_node w k) = kgrant k"
  "disk_at a v (peek b k) = disk_at a v k" "mine (peek b k) = mine k" "fs_live (peek b k) = fs_live k"
  by (simp_all add: peek_def take_node_def disk_at_def mine_def mount_at_def permanent_def fun_eq_iff)

lemma disk_at_sfs: "disk_at a v k \<Longrightarrow> root_inode (sb s') = root_inode (sb (sfs_st k)) \<Longrightarrow> disk_at a v (k\<lparr>sfs_st := s'\<rparr>)"
  by (simp add: disk_at_def mount_at_def)

lemma mine_sfs [simp]: "mine (k\<lparr>sfs_st := s'\<rparr>) = mine k"
  by (simp add: mine_def permanent_def fun_eq_iff)



text \<open>Looking a name up in the directory of a node the caller or the mount table holds.\<close>

lemma look_up:
  assumes "disk_at a v k" "sound (sfs_st k)" "knodes k r = Some w" "v_ops w = Ops_stackfs" "v_flags w = VFS_DIR" "is_dir (sfs_st k) w"
    "cstr nm \<noteq> []"
  obtains b x where "length b = 4096" "\<forall>e. node_for (sfs_st k) e (x e)"
    "vfs_finddir (Some (Kmem r)) nm k = Some (case entry (sfs_st k) (v_inode w) nm of
       None \<Rightarrow> (None, peek b k) | Some e \<Rightarrow> (Some (Kmem (knext k)), take_node (x e) (peek b k)))"
  using finddir_disk [OF soundD(2) [OF assms(2)] assms(6,3,4,5) disk_atD(4) [OF assms(1)] assms(7)] by blast

lemma root_is_dir: "disk_at a v k \<Longrightarrow> sound (sfs_st k) \<Longrightarrow> is_dir (sfs_st k) v"
  using disk_atD(8) soundD(6) by blast


text \<open>
  What saving needs of the disk: room for what is not there yet, and that what is there has the right type.
\<close>

definition etc_fit :: "sfs \<Rightarrow> bool" where
  "etc_fit s \<longleftrightarrow> (let r = root_inode (sb s) in
     if listed s r (lit ''etc'') then \<exists>e. entry s r (lit ''etc'') = Some e \<and> i_type (inodes s ! unat e) = SFS_TYPE_DIR
     else has_slot s r \<and> free_inodes_of s \<noteq> {} \<and> free_blks s \<noteq> {})"

lemma etc_lit: "cstr (lit ''etc'') = lit ''etc''" "cstr (lit ''passwd'') = lit ''passwd''" "lit ''etc'' \<noteq> []" "lit ''passwd'' \<noteq> []"
  "length (lit ''etc'') \<le> 55" "length (lit ''passwd'') \<le> 55" "length (lit ''passwd'') < VFS_NAME_MAX"
  by (simp_all add: lit_def VFS_NAME_MAX_def)



section \<open>Saving the accounts\<close>

definition passwd_fit :: "sfs \<Rightarrow> nat \<Rightarrow> bool" where
  "passwd_fit s n \<longleftrightarrow> etc_fit s \<and> 3 \<le> card (free_blks s) \<and> 2 \<le> card (free_inodes_of s) \<and>
     (\<forall>e. entry s (root_inode (sb s)) (lit ''etc'') = Some e \<longrightarrow>
        (if listed s e (lit ''passwd'')
         then \<exists>p. entry s e (lit ''passwd'') = Some p \<and> i_type (inodes s ! unat p) = SFS_TYPE_FILE \<and> unat (i_size (inodes s ! unat p)) < n
         else has_slot s e))"


definition on_disk :: "sfs \<Rightarrow> bool" where
  "on_disk s \<longleftrightarrow> disk_ok (dsk s) \<and> mem_wf s \<and> s_magic (sb s) = STACKFS_MAGIC \<and> sb_saved s \<and> inodes_saved s \<and> bmap_saved s"



lemma say_sfs [simp]: "sfs_st (say fmt args k) = sfs_st k" "sfs_st (kfree_node r k) = sfs_st k"
  by (simp_all add: say_def vprint_def kfree_node_def split: option.split)


section \<open>Loading them\<close>



section \<open>The next start\<close>


definition mountable :: "vfs \<Rightarrow> bool" where
  "mountable k \<longleftrightarrow> fs_live k \<and> fs_root k \<noteq> None \<and> kgrant k = (\<lambda>_ _. True) \<and> mount_at (lit ''/disk'') k = None \<and>
     (\<exists>i < MAX_MOUNTS. \<not> m_used (mounts k ! i))"

lemma first_from_least: "P i \<Longrightarrow> a \<le> i \<Longrightarrow> i < b \<Longrightarrow> (\<And>j. a \<le> j \<Longrightarrow> j < i \<Longrightarrow> \<not> P j) \<Longrightarrow> first_from P a b = Some i"
  by (simp add: first_from_Some)

lemma mount_root_spec:
  assumes M: "mountable k" and t: "stackfs_mount True junk (sfs_st k) = (Some node, t)" "v_flags node = VFS_DIR" "v_inode node = root_inode (sb t)"
  obtains k' where "mount_root junk k = Some (True, k')" "disk_at (knext k) node k'" "sfs_st k' = t"
proof -
  have L: "fs_live k" "fs_root k \<noteq> None" "kgrant k = (\<lambda>_ _. True)" and none: "mount_at (lit ''/disk'') k = None" using M by (simp_all add: mountable_def)
  have L2: "vfs_ok k" "typed k" using L(1) by (simp_all add: fs_live_iff)
  have op: "v_ops node = Ops_stackfs" using mount_ops [OF t(1)] .
  define k1 where "k1 = k\<lparr>sfs_st := t, knodes := (knodes k)(knext k \<mapsto> node), knext := knext k + 1\<rparr>"
  have m1: "mounts k1 = mounts k" "fs_root k1 = fs_root k" "permanent k1 = permanent k" by (simp_all add: k1_def permanent_def fun_eq_iff)
  have "vfs_ok k1" using L2(1) by (auto simp: vfs_ok_def m1(3)) (auto simp: k1_def split: nref.splits)
  moreover have "typed k1" unfolding k1_def by (rule typed_new [OF L2(2) op])
  ultimately have live1: "fs_live k1" by (simp add: fs_live_iff)
  have held1: "held k1 (Some (Kmem (knext k)))" by (simp add: held_def node_at_def k1_def ref_typed_def)
  define k2 where "k2 = snd (vfs_mount (lit ''/disk'') (Kmem (knext k)) k1)"
  have live2: "fs_live k2" unfolding k2_def by (rule mount_live [OF live1 held1]) simp
  have r: "mount_root junk k = Some (True, k2)"
    using t(1) L(3) by (simp add: mount_root_def mount_disk_def room_def new_node_def k1_def k2_def)
  obtain i where i: "first_from (\<lambda>i. \<not> m_used (mounts k ! i)) 0 MAX_MOUNTS = Some i"
    using M by (cases "first_from (\<lambda>i. \<not> m_used (mounts k ! i)) 0 MAX_MOUNTS") (auto simp: mountable_def first_from_None)
  then have i16: "i < MAX_MOUNTS" by (simp add: first_from_Some)
  define e where "e = (mounts k ! i)\<lparr>m_path := str_copy (m_path (mounts k ! i)) (lit ''/disk'') VFS_PATH_MAX, m_node := Kmem (knext k), m_used := True\<rparr>"
  have lm: "length (mounts k) = MAX_MOUNTS" "length (m_path (mounts k ! i)) = VFS_PATH_MAX" using L2(2) i16 by (simp_all add: typed_def entry_ok_def)
  have pe: "cstr (m_path e) = lit ''/disk''"
    using str_copy_props(2) [of VFS_PATH_MAX "m_path (mounts k ! i)" "lit ''/disk''"] lm(2) by (simp add: e_def VFS_PATH_MAX_def lit_def)
  have nr: "str_cmp (lit ''/disk'') (lit ''/'') \<noteq> 0" by (simp add: str_cmp_eq lit_def)
  have k2: "mounts k2 = (mounts k)[i := e]" "sfs_st k2 = t" "knodes k2 = knodes k1" "kgrant k2 = kgrant k" "fs_root k2 = fs_root k"
    using i nr by (simp_all add: k2_def vfs_mount_def m1 Let_def vprint_def e_def k1_def)
  have "\<not> (m_used (mounts k ! j) \<and> cstr (m_path (mounts k ! j)) = lit ''/disk'')" if "j < MAX_MOUNTS" for j
    using none that by (auto simp: mount_at_def first_from_None)
  then have "first_from (\<lambda>j. m_used (mounts k2 ! j) \<and> cstr (m_path (mounts k2 ! j)) = lit ''/disk'') 0 MAX_MOUNTS = Some i"
    using i16 pe lm(1) by (intro first_from_least) (auto simp: k2(1) e_def)
  then have "mount_at (lit ''/disk'') k2 = Some (Kmem (knext k))" using i16 lm(1) by (simp add: mount_at_def k2(1) e_def)
  then have "disk_at (knext k) node k2" using live2 L(2,3) t(2,3) k2 by (simp add: disk_at_def k1_def)
  with that r k2(2) show thesis by blast
qed



lemma vfs_ready_mountable: "mountable (vfs_ready s (\<lambda>_ _. True))"
proof -
  let ?k = "vfs_ready s (\<lambda>_ _. True)"
  note V = vfs_ready_state [of s "\<lambda>_ _. True"]
  have e: "entry_ok no_mount" "entry_ok root_mount"
    using str_copy_props [of VFS_PATH_MAX "replicate VFS_PATH_MAX 0" "lit ''/''"]
    by (simp_all add: entry_ok_def no_mount_def root_mount_def VFS_PATH_MAX_def lit_def)
  have "fs_live ?k"
    unfolding fs_live_def using V vfs_ready_ok [of s "\<lambda>_ _. True"] e
    by (auto simp: permanent_def ref_typed_def nth_list_update no_mount_def root_mount_def dest: set_update_subset_insert [THEN subsetD] split: if_splits)
  moreover have "mount_at (lit ''/disk'') ?k = None" by (simp add: vfs_ready_mounts lit_def)
  moreover have "\<not> m_used (mounts ?k ! 1)" using V by (simp add: MAX_MOUNTS_def no_mount_def)
  then have "\<exists>i < MAX_MOUNTS. \<not> m_used (mounts ?k ! i)" by (intro exI [of _ 1]) (simp add: MAX_MOUNTS_def)
  ultimately show ?thesis using V by (simp add: mountable_def)
qed



section \<open>The first start\<close>

text \<open>A file system without any block in use.\<close>

definition bare :: "sfs \<Rightarrow> bool" where
  "bare s \<longleftrightarrow> own s \<and> on_disk s \<and> (\<forall>i < 128. \<forall>q < 12. ptr s i q = 0) \<and> valid_ino (root_inode (sb s)) \<and>
     i_type (inodes s ! unat (root_inode (sb s))) = SFS_TYPE_DIR"

lemma bare_empty:
  assumes "bare s" "i < 128"
  shows "fbyte s i j = None" "live s i = []" "dir_ok s i"
proof -
  have p: "ptr s i q = 0" if "q < 12" for q using assms that by (simp add: bare_def)
  show f: "fbyte s i j = None" for j by (auto simp: fbyte_def p div_less_iff_less_mult)
  show "live s i = []" "dir_ok s i" using dir_ok_empty [OF f] by simp_all
qed

lemma bare_dir:
  assumes "bare s" "unat d < 128"
  shows "\<not> listed s d x" "free_slots s d = {..<12}"
proof -
  show "\<not> listed s d x" by (simp add: listed_def bare_empty(2) [OF assms])
  show "free_slots s d = {..<12}" using assms by (auto simp: free_slots_def iblk_def bare_def)
qed

lemma bare_sound: "bare s \<Longrightarrow> marked s 0 \<Longrightarrow> sound s"
  using bare_empty(1,3) [of s] by (simp add: sound_def fs_ok_def bare_def on_disk_def coherent_def)

lemma format_state:
  assumes d: "disk_ok (dsk s)" "103 \<le> unat (disk_sectors (dsk s))" "unat (disk_sectors (dsk s)) < 1048647"
    and b: "length (buf_rw s) = 4096" "length (buf_dir s) = 4096" "length (buf_find s) = 4096"
  obtains s' where "stackfs_format lbl s = (True, s')" "bare s'" "free_blks s' = {..<(unat (disk_sectors (dsk s)) - 63) div 8}"
    "root_inode (sb s') = 1" "\<forall>i < 128. i_type (inodes s' ! i) = (if i = 1 then SFS_TYPE_DIR else SFS_TYPE_FREE)"
    "length (buf_rw s') = 4096" "length (buf_dir s') = 4096" "length (buf_find s') = 4096"
proof -
  from format_spec [OF d(1), of lbl] obtain s' s1 where F: "stackfs_format lbl s = (True, s')" "disk_ok (dsk s')" "mem_wf s'"
    "sb_saved s'" "inodes_saved s'" "bmap_saved s'" "s_magic (sb s') = STACKFS_MAGIC" "root_inode (sb s') = 1"
    "total_blocks (sb s') = (disk_sectors (dsk s) - 63) div 8" "free_blocks (sb s') = total_blocks (sb s')"
    "inodes s' = (replicate STACKFS_MAX_INODES zero_inode)[1 := fresh_root]" "bmap s' = replicate BITMAP_BYTES 0"
    "s' = stackfs_sync s1" "mem_wf s1" "dsk s1 = dsk s" "buf_rw s1 = buf_rw s" "buf_dir s1 = buf_dir s" "buf_find s1 = buf_find s" by blast
  have L: "disk_sectors (dsk s') = disk_sectors (dsk s)" "buf_rw s' = buf_rw s" "buf_dir s' = buf_dir s" "buf_find s' = buf_find s"
    using sync_low [OF F(14)] F(13,15-18) by (simp_all add: low_change_def)
  define n where "n = (unat (disk_sectors (dsk s)) - 63) div 8"
  have "unat (disk_sectors (dsk s) - 63) = unat (disk_sectors (dsk s)) - 63" using d(2) by (subst unat_sub) (simp_all add: word_le_nat_alt)
  then have t: "total s' = n" by (simp add: total_def F(9) unat_div n_def)
  have "8 * n \<le> unat (disk_sectors (dsk s)) - 63" by (simp add: n_def)
  then have n: "63 + 8 * n \<le> unat (disk_sectors (dsk s))" "n \<le> 131072" using d(2,3) by (simp_all add: n_def)
  have m: "\<not> marked s' c" if "c < 131072" for c using that by (simp add: marked_def F(12) BITMAP_BYTES_def sfs_consts div_less_iff_less_mult)
  then have fr: "free_blks s' = {..<n}" using n(2) by (auto simp: free_blks_def t)
  have "geometry s'" using F(2) n t by (simp add: geometry_def L(1) total_def)
  moreover have p: "ptr s' i q = 0" if "i < 128" "q < 12" for i q
    using that by (simp add: ptr_def F(11) nth_list_update sfs_consts fresh_root_def zero_inode_def)
  moreover have "unat (free_blocks (sb s')) = card (free_blks s')" using t by (simp add: F(10) fr total_def)
  ultimately have "own s'" using F(3) L(2-4) b unfolding own_def by simp
  moreover have ty: "\<forall>i < 128. i_type (inodes s' ! i) = (if i = 1 then SFS_TYPE_DIR else SFS_TYPE_FREE)"
    by (simp add: F(11) nth_list_update sfs_consts fresh_root_def zero_inode_def SFS_TYPE_FREE_def)
  moreover have "valid_ino 1" by (simp add: valid_ino_iff)
  ultimately have "bare s'" using F(2-8) p ty by (simp add: bare_def on_disk_def)
  with that F(1,8) fr ty L(2-4) b show thesis by (simp add: n_def)
qed

text \<open>The first directory is made into block 0: it is not entered anywhere.\<close>

lemma first_mkdir:
  assumes B: "bare s" and m: "\<not> marked s 0" "0 < total s" and v: "v_inode v = root_inode (sb s)" and f: "free_inodes_of s \<noteq> {}"
  obtains s' where "bfs_mkdir v nm s = (True, s')" "bare s'" "marked s' 0" "root_inode (sb s') = root_inode (sb s)"
    "free_blks s' = free_blks s - {0}" "card (free_inodes_of s) \<le> Suc (card (free_inodes_of s'))"
proof -
  let ?r = "root_inode (sb s)"
  have R: "own s" "is_dir s v" "unat ?r < 128" using B v by (simp_all add: bare_def is_dir_def valid_ino_iff)
  have z: "\<forall>p < 12. ptr s (unat (v_inode v)) p = 0" using B R(3) by (simp add: bare_def v)
  have fr: "\<exists>i. 1 \<le> i \<and> i < 128 \<and> i_type (inodes s ! i) = SFS_TYPE_FREE" using f by (auto simp: free_inodes_of_def)
  obtain ni s' where N: "bfs_new SFS_TYPE_DIR 0x1ED v nm s = (True, s')" "own s'" "marked s' 0" "disk_ok (dsk s')" "sb_saved s'" "inodes_saved s'"
    "bmap_saved s'" "s_magic (sb s') = s_magic (sb s)" "root_inode (sb s') = ?r" "\<forall>i < 128. \<forall>q < 12. ptr s' i q = ptr s i q"
    "free_blks s' = free_blks s - {0}" "i_type (inodes s ! ni) = SFS_TYPE_FREE" "i_type (inodes s' ! ni) = SFS_TYPE_DIR"
    "\<forall>j. j \<noteq> ni \<longrightarrow> rest_of (inodes s' ! j) = rest_of (inodes s ! j)"
    by (rule first_new_lost [OF R(1,2) m z fr disjI2 [OF refl], of "0x1ED" nm]) blast
  have ty: "j \<noteq> ni \<Longrightarrow> i_type (inodes s' ! j) = i_type (inodes s ! j)" for j using N(14) rest_of_simps by metis
  have d: "SFS_TYPE_DIR \<noteq> SFS_TYPE_FREE" by (simp add: SFS_TYPE_FREE_def SFS_TYPE_DIR_def)
  have "i_type (inodes s' ! unat ?r) = SFS_TYPE_DIR" using B ty [of "unat ?r"] N(12,13) by (cases "unat ?r = ni") (simp_all add: bare_def)
  then have "bare s'" using B N(2,4-10) ownD(1) [OF N(2)] by (simp add: bare_def on_disk_def)
  moreover have "free_inodes_of s' = free_inodes_of s - {ni}" using ty N(13) d by (auto simp: free_inodes_of_def) metis
  then have "card (free_inodes_of s) \<le> Suc (card (free_inodes_of s'))" by (simp add: card_Diff_singleton_if) arith
  ultimately show thesis using that N(1,3,9,11) by (simp add: bfs_mkdir_def)
qed

text \<open>What a directory needs of the disk for its next entries, and what is left after one.\<close>

definition space :: "nat \<Rightarrow> sfs \<Rightarrow> bool" where
  "space n s \<longleftrightarrow> n \<le> card (free_blks s) \<and> n \<le> card (free_inodes_of s) \<and> n \<le> card (free_slots s (root_inode (sb s)))"

definition root_lists :: "sfs \<Rightarrow> u8 list set \<Rightarrow> bool" where
  "root_lists s A \<longleftrightarrow> (\<forall>x. listed s (root_inode (sb s)) x \<longleftrightarrow> cstr x \<in> A)"

lemma seed_step:
  assumes D: "disk_at a v k" and S: "sound (sfs_st k)" and sp: "space (Suc n) (sfs_st k)" and A: "root_lists (sfs_st k) A"
    and nm: "cstr nm = nm" "nm \<noteq> []" "length nm \<le> 55" "nm \<notin> A"
  obtains k' where "op_mkdir (Some (Kmem a)) nm k = Some k'" "disk_at a v k'" "sound (sfs_st k')" "space n (sfs_st k')"
    "root_lists (sfs_st k') (insert nm A)"
proof -
  let ?s = "sfs_st k"
  note DD = disk_atD [OF D]
  have R: "is_dir ?s v" using root_is_dir [OF D S] .
  have c: "0 < card (free_blks ?s)" "0 < card (free_inodes_of ?s)" "0 < card (free_slots ?s (v_inode v))"
    using sp DD(8) by (simp_all add: space_def)
  have ne: "free_inodes_of ?s \<noteq> {}" "free_blks ?s \<noteq> {}" using c(1,2) unfolding card_gt_0_iff by blast+
  have nl: "\<not> listed ?s (v_inode v) nm" using spec [OF A [unfolded root_lists_def], of nm] nm(4) unfolding nm(1) DD(8) by blast
  have cn: "cstr nm \<noteq> []" "length (cstr nm) \<le> 55" unfolding nm(1) by (rule nm(2), rule nm(3))
  note pre = cn nl ne has_slot_card [OF c(3)]
  obtain ni s' where N: "bfs_new SFS_TYPE_DIR 0x1ED v nm ?s = (True, s')" "sound s'" "root_inode (sb s') = root_inode (sb ?s)" "valid_ino ni"
    "\<forall>j < 128. i_type (inodes s' ! j) = (if j = unat ni then SFS_TYPE_DIR else i_type (inodes ?s ! j))"
    "i_size (inodes s' ! unat ni) = 0" "unat ni \<in> free_inodes_of ?s" "\<forall>x. \<not> listed s' ni x" "has_slot s' ni"
    "card (free_blks ?s) \<le> Suc (card (free_blks s'))"
    "\<forall>e x. unat e < 128 \<and> cstr x \<noteq> [] \<longrightarrow> entry s' e x = (if e = v_inode v \<and> cstr x = cstr nm then Some ni else entry ?s e x)"
    "\<forall>x. listed s' (v_inode v) x \<longleftrightarrow> cstr x = cstr nm \<or> listed ?s (v_inode v) x"
    "card (free_slots ?s (v_inode v)) \<le> Suc (card (free_slots s' (v_inode v)))" "free_inodes_of s' = free_inodes_of ?s - {unat ni}"
    by (rule new_entry [OF S R pre disjI2 [OF refl], of "0x1ED"])
  have "op_mkdir (Some (Kmem a)) nm k = Some (k\<lparr>sfs_st := s'\<rparr>)"
    using N(1) DD(6) by (simp add: op_mkdir_def node_at_def bfs_mkdir_def)
  moreover have "disk_at a v (k\<lparr>sfs_st := s'\<rparr>)" by (rule disk_at_sfs [OF D N(3)])
  moreover have "card (free_inodes_of ?s) = Suc (card (free_inodes_of s'))" unfolding N(14) by (rule card.remove [OF free_inodes_finite N(7)])
  then have "space n s'" using sp N(10,13) DD(8) by (simp add: space_def N(3))
  moreover have "root_lists s' (insert nm A)" using A N(12) by (simp only: root_lists_def N(3) DD(8) nm(1)) auto
  ultimately show thesis using N(2) by (intro that [of "k\<lparr>sfs_st := s'\<rparr>"]) simp_all
qed

lemma seed_file_lost:
  assumes D: "disk_at a v k" and S: "sound (sfs_st k)" and A: "root_lists (sfs_st k) A" and e: "lit ''etc'' \<notin> A"
  obtains b where "length b = 4096" "seed_file nm str k = Some (peek b k)"
proof -
  note DD = disk_atD [OF D]
  have "entry (sfs_st k) (v_inode v) (lit ''etc'') = None"
    using A e etc_lit(1) by (intro not_listed) (simp add: root_lists_def DD(8))
  then obtain b where "length b = 4096" "vfs_finddir (Some (Kmem a)) (lit ''etc'') k = Some (None, peek b k)"
    using look_up [OF D S DD(6,9,7) root_is_dir [OF D S], of "lit ''etc''"] etc_lit by auto
  with that show thesis by (simp add: seed_file_def open_below_disk(2) [OF D] has_make_def)
qed

lemma seed_names: "cstr (lit ''home'') = lit ''home''" "cstr (lit ''tmp'') = lit ''tmp''" "cstr (lit ''var'') = lit ''var''"
  "lit ''home'' \<noteq> []" "lit ''tmp'' \<noteq> []" "lit ''var'' \<noteq> []" "length (lit ''home'') \<le> 55" "length (lit ''tmp'') \<le> 55" "length (lit ''var'') \<le> 55"
  "lit ''home'' \<notin> {}" "lit ''tmp'' \<notin> {lit ''home''}" "lit ''var'' \<notin> {lit ''tmp'', lit ''home''}" "lit ''etc'' \<notin> {lit ''var'', lit ''tmp'', lit ''home''}"
  by (simp_all add: lit_def)

lemma find_space [simp]:
  fixes s :: sfs
  shows "free_slots (s\<lparr>buf_find := b\<rparr>) d = free_slots s d" "space n (s\<lparr>buf_find := b\<rparr>) = space n s" "root_lists (s\<lparr>buf_find := b\<rparr>) A = root_lists s A"
  by (simp_all add: free_slots_def space_def root_lists_def)

text \<open>The tree is seeded on a file system that was just formatted.\<close>

lemma seed_tree_spec:
  assumes D: "disk_at a v k" and B: "bare (sfs_st k)" and m: "\<not> marked (sfs_st k) 0"
    and sp: "7 \<le> card (free_blks (sfs_st k))" "7 \<le> card (free_inodes_of (sfs_st k))"
  obtains k' where "seed_tree k = Some (True, k')" "disk_at a v k'" "sound (sfs_st k')" "space 3 (sfs_st k')"
    "root_lists (sfs_st k') {lit ''var'', lit ''tmp'', lit ''home''}"
proof -
  let ?s = "sfs_st k"
  note DD = disk_atD [OF D]
  have t: "0 < total ?s"
  proof (rule ccontr)
    assume "\<not> 0 < total ?s"
    then have "free_blks ?s = {}" by (simp add: free_blks_def)
    with sp(1) show False by simp
  qed
  have ne: "free_inodes_of ?s \<noteq> {}" using sp(2) by auto
  obtain s1 where M: "bfs_mkdir v (lit ''etc'') ?s = (True, s1)" "bare s1" "marked s1 0" "root_inode (sb s1) = root_inode (sb ?s)"
    "free_blks s1 = free_blks ?s - {0}" "card (free_inodes_of ?s) \<le> Suc (card (free_inodes_of s1))"
    by (rule first_mkdir [OF B m t DD(8) ne])
  define k1 where "k1 = k\<lparr>sfs_st := s1\<rparr>"
  have 1: "op_mkdir (Some (Kmem a)) (lit ''etc'') k = Some k1" using M(1) DD(6) by (simp add: op_mkdir_def node_at_def k1_def)
  have D1: "disk_at a v k1" unfolding k1_def by (rule disk_at_sfs [OF D M(4)])
  have S1: "sound (sfs_st k1)" using bare_sound [OF M(2,3)] by (simp add: k1_def)
  have rt: "unat (root_inode (sb s1)) < 128" using M(2) by (simp add: bare_def valid_ino_iff)
  have "6 \<le> card (free_blks s1)" using sp(1) by (auto simp: M(5) card_Diff_singleton_if)
  moreover have "6 \<le> card (free_inodes_of s1)" using sp(2) M(6) by simp
  ultimately have sp1: "space (Suc (Suc (Suc 3))) (sfs_st k1)" using bare_dir(2) [OF M(2) rt] by (simp add: space_def k1_def)
  have A1: "root_lists (sfs_st k1) {}" using bare_dir(1) [OF M(2) rt] by (simp add: root_lists_def k1_def)
  obtain k2 where 2: "op_mkdir (Some (Kmem a)) (lit ''home'') k1 = Some k2" "disk_at a v k2" "sound (sfs_st k2)" "space (Suc (Suc 3)) (sfs_st k2)"
    "root_lists (sfs_st k2) {lit ''home''}" by (rule seed_step [OF D1 S1 sp1 A1 seed_names(1,4,7,10)])
  obtain k3 where 3: "op_mkdir (Some (Kmem a)) (lit ''tmp'') k2 = Some k3" "disk_at a v k3" "sound (sfs_st k3)" "space (Suc 3) (sfs_st k3)"
    "root_lists (sfs_st k3) {lit ''tmp'', lit ''home''}" by (rule seed_step [OF 2(2-5) seed_names(2,5,8,11)])
  obtain k4 where 4: "op_mkdir (Some (Kmem a)) (lit ''var'') k3 = Some k4" "disk_at a v k4" "sound (sfs_st k4)" "space 3 (sfs_st k4)"
    "root_lists (sfs_st k4) {lit ''var'', lit ''tmp'', lit ''home''}" by (rule seed_step [OF 3(2-5) seed_names(3,6,9,12)])
  define motd where "motd = lit ''Welcome to StackOS.'' @ [10] @ lit ''Type '' @ [39] @ lit ''help'' @ [39] @ lit '' for commands.'' @ [10]"
  define pw where "pw = lit ''root:admin:2'' @ [10] @ lit ''stack:stack:1'' @ [10]"
  obtain b where b: "length b = 4096" "seed_file (lit ''passwd'') pw k4 = Some (peek b k4)"
    by (rule seed_file_lost [OF 4(2,3,5) seed_names(13)])
  have 5: "disk_at a v (peek b k4)" "sound (sfs_st (peek b k4))" "root_lists (sfs_st (peek b k4)) {lit ''var'', lit ''tmp'', lit ''home''}"
    using 4(2,5) find_sound [OF 4(3) b(1)] by simp_all
  obtain c where c: "length c = 4096" "seed_file (lit ''motd'') motd (peek b k4) = Some (peek c (peek b k4))"
    by (rule seed_file_lost [OF 5 seed_names(13)])
  have hm: "has_make (Some (Kmem a)) k = Some True" using DD(6,9) by (simp add: has_make_def node_at_def)
  have "seed_tree k = Some (True, peek c (peek b k4))"
    by (simp add: seed_tree_def open_below_disk(1) [OF D] hm seed_dirs_def 1 2(1) 3(1) 4(1) pw_def [symmetric] motd_def [symmetric] b(2) c(2) del: append_Cons append.simps append_assoc)
  moreover have "sound (sfs_st (peek c (peek b k4)))" using find_sound [OF 5(2) c(1)] by simp
  ultimately show thesis using that [of "peek c (peek b k4)"] 5(1) 4(4,5) by simp
qed

lemma first_boot_spec:
  assumes M: "mountable k" and d: "disk_ok (dsk (sfs_st k))" "119 \<le> unat (disk_sectors (dsk (sfs_st k)))" "unat (disk_sectors (dsk (sfs_st k))) < 1048647"
    and b: "length (buf_rw (sfs_st k)) = 4096" "length (buf_dir (sfs_st k)) = 4096" "length (buf_find (sfs_st k)) = 4096"
  obtains v k' where "first_boot_fs junk k = Some (''[disk] mounted at /disk\<newline>'' @ ''[disk] created /disk/{etc,home,tmp,var}\<newline>'' @ ''[disk] first boot complete\<newline>'', k')"
    "disk_at (knext k) v k'" "sound (sfs_st k')" "space 3 (sfs_st k')" "root_lists (sfs_st k') {lit ''var'', lit ''tmp'', lit ''home''}"
proof -
  have "103 \<le> unat (disk_sectors (dsk (sfs_st k)))" using d(2) by simp
  then obtain s where F: "stackfs_format (Some (lit ''StackOS'')) (sfs_st k) = (True, s)" "bare s"
    "free_blks s = {..<(unat (disk_sectors (dsk (sfs_st k))) - 63) div 8}" "root_inode (sb s) = 1"
    "\<forall>i < 128. i_type (inodes s ! i) = (if i = 1 then SFS_TYPE_DIR else SFS_TYPE_FREE)"
    "length (buf_rw s) = 4096" "length (buf_dir s) = 4096" "length (buf_find s) = 4096"
    by (rule format_state [OF d(1) _ d(3) b])
  define k1 where "k1 = k\<lparr>sfs_st := s\<rparr>"
  have M1: "mountable k1" using M by (simp add: mountable_def k1_def mount_at_def)
  have O: "own s" "on_disk s" using F(2) by (simp_all add: bare_def)
  have ms: "mem_wf s" "disk_ok (dsk s)" "sb_saved s" "inodes_saved s" "bmap_saved s" "s_magic (sb s) = STACKFS_MAGIC" using O(2) by (simp_all add: on_disk_def)
  from mount_spec [OF ms(1,2,1) refl ms(3-6) refl, of junk] obtain node t where T: "stackfs_mount True junk s = (Some node, t)"
    "v_inode node = root_inode (sb s)" "v_flags node = VFS_DIR" "sb t = sb s" "inodes t = inodes s" "bmap t = bmap s" "dsk t = dsk s"
    "buf_rw t = buf_rw s" "buf_dir t = buf_dir s" "buf_find t = buf_find s" by auto
  have T1: "stackfs_mount True junk (sfs_st k1) = (Some node, t)" "v_inode node = root_inode (sb t)" using T(1,2,4) by (simp_all add: k1_def)
  obtain k2 where K: "mount_root junk k1 = Some (True, k2)" "disk_at (knext k1) node k2" "sfs_st k2 = t"
    by (rule mount_root_spec [OF M1 T1(1) T(3) T1(2)])
  have ot: "own t" using mount_own(1) [OF O(1) T(7,4,5,6)] T(8-10) F(6-8) by simp
  have wt: "mem_wf t" using ot by (rule ownD(1))
  have B: "bare t" using F(2) ot wt T(4-7)
    by (simp add: bare_def on_disk_def ptr_def sb_saved_def inodes_saved_def bmap_saved_def)
  have fb: "free_blks t = free_blks s" using T(4,6) by (simp add: free_blks_def marked_def total_def)
  have n: "7 \<le> (unat (disk_sectors (dsk (sfs_st k))) - 63) div 8" using d(2) by arith
  have "0 \<in> free_blks t" "7 \<le> card (free_blks t)" unfolding fb F(3) using n by simp_all
  then have u: "\<not> marked (sfs_st k2) 0" "7 \<le> card (free_blks (sfs_st k2))" unfolding K(3) by (simp_all add: free_blks_def)
  have "SFS_TYPE_DIR \<noteq> SFS_TYPE_FREE" by (simp add: SFS_TYPE_FREE_def SFS_TYPE_DIR_def)
  then have "{2..<128} \<subseteq> free_inodes_of t" using F(5) T(5) by (auto simp: free_inodes_of_def)
  from card_mono [OF free_inodes_finite this] have i: "7 \<le> card (free_inodes_of (sfs_st k2))" by (simp add: K(3))
  have B2: "bare (sfs_st k2)" using B by (simp add: K(3))
  obtain k' where S: "seed_tree k2 = Some (True, k')" "disk_at (knext k1) node k'" "sound (sfs_st k')" "space 3 (sfs_st k')"
    "root_lists (sfs_st k') {lit ''var'', lit ''tmp'', lit ''home''}"
    by (rule seed_tree_spec [OF K(2) B2 u i])
  have r: "first_boot_fs junk k = Some (''[disk] mounted at /disk\<newline>'' @ ''[disk] created /disk/{etc,home,tmp,var}\<newline>'' @ ''[disk] first boot complete\<newline>'', k')"
    using K(1) S(1) by (simp add: first_boot_fs_def F(1) k1_def [symmetric])
  show thesis using S(2-5) by (intro that [OF r]) (simp_all add: k1_def)
qed

lemma no_etc_fits:
  assumes "sound s" and "space 3 s" and A: "root_lists s A" "lit ''etc'' \<notin> A"
  shows "entry s (root_inode (sb s)) (lit ''etc'') = None" "passwd_fit s n"
proof -
  have c: "0 < card (free_blks s)" "0 < card (free_inodes_of s)" "0 < card (free_slots s (root_inode (sb s)))"
    using assms(2) by (simp_all add: space_def)
  have ne: "free_inodes_of s \<noteq> {}" "free_blks s \<noteq> {}" using c(1,2) unfolding card_gt_0_iff by blast+
  have l: "\<not> listed s (root_inode (sb s)) (lit ''etc'')"
    using spec [OF A(1) [unfolded root_lists_def], of "lit ''etc''"] A(2) unfolding etc_lit(1) by blast
  then show e: "entry s (root_inode (sb s)) (lit ''etc'') = None" by (rule not_listed)
  show "passwd_fit s n" using assms(2) by (simp add: passwd_fit_def etc_fit_def l e ne has_slot_card [OF c(3)] space_def)
qed

text \<open>
  C10. The first start does not make what it says it made. On any healthy disk of at least 119 sectors without a
  file system, whatever memory holds, the start of the disk logs that \<^verbatim>\<open>/disk/etc\<close> was created and that the first boot
  is complete, but the root directory has \<^verbatim>\<open>home\<close>, \<^verbatim>\<open>tmp\<close> and \<^verbatim>\<open>var\<close> only: opening \<^verbatim>\<open>/disk/etc\<close> finds nothing, so neither
  the password file nor the message of the day was written. What is there is a sound file system on which the accounts
  can be saved.
\<close>

theorem first_boot_loses_etc:
  assumes "disk_ok (dsk s0)" and "119 \<le> unat (disk_sectors (dsk s0))" and "unat (disk_sectors (dsk s0)) < 1048647"
    and "length (buf_rw s0) = 4096" and "length (buf_dir s0) = 4096" and "length (buf_find s0) = 4096" and "\<not> stackfs_detect s0"
  shows "\<exists>k k' v. initrd_init (vfs_init (vfs_boot s0 (\<lambda>_ _. True))) = Some k \<and>
    disk_start junk k = Some (''STEP14b first boot '' @ em_dash @ '' auto-format\<newline>'' @
      ''[disk] first boot '' @ em_dash @ '' formatting StackFS\<newline>'' @ ''[disk] mounted at /disk\<newline>'' @
      ''[disk] created /disk/{etc,home,tmp,var}\<newline>'' @ ''[disk] first boot complete\<newline>'', k') \<and>
    disk_at (knext k) v k' \<and> sound (sfs_st k') \<and> root_lists (sfs_st k') {lit ''home'', lit ''tmp'', lit ''var''} \<and>
    (\<exists>k2. vfs_open (lit ''/disk/etc'') k' = Some (None, k2)) \<and> (\<forall>n. passwd_fit (sfs_st k') n)"
proof -
  let ?k = "vfs_ready s0 (\<lambda>_ _. True)"
  note V = vfs_ready_state [of s0 "\<lambda>_ _. True"]
  have s: "sfs_st ?k = s0" using V by simp
  obtain v k' where F: "first_boot_fs junk ?k = Some (''[disk] mounted at /disk\<newline>'' @ ''[disk] created /disk/{etc,home,tmp,var}\<newline>'' @ ''[disk] first boot complete\<newline>'', k')"
    "disk_at (knext ?k) v k'" "sound (sfs_st k')" "space 3 (sfs_st k')" "root_lists (sfs_st k') {lit ''var'', lit ''tmp'', lit ''home''}"
    using assms(1-6) by (rule_tac first_boot_spec [OF vfs_ready_mountable, of s0 junk]) (simp_all only: s)
  note E = no_etc_fits [OF F(3-5) seed_names(13)]
  note DD = disk_atD [OF F(2)]
  obtain b where "vfs_finddir (Some (Kmem (knext ?k))) (lit ''etc'') k' = Some (None, peek b k')"
    using look_up [OF F(2,3) DD(6,9,7) root_is_dir [OF F(2,3)], of "lit ''etc''"] E(1) etc_lit DD(8) by auto
  then have "vfs_open (lit ''/disk/etc'') k' = Some (None, peek b k')" by (simp add: open_below_disk(2) [OF F(2)])
  moreover have "{lit ''home'', lit ''tmp'', lit ''var''} = {lit ''var'', lit ''tmp'', lit ''home''}" by blast
  ultimately show ?thesis using V F(1-3,5) E(2) assms(7) s by (intro exI [of _ ?k] exI [of _ k'] exI [of _ v]) (simp add: disk_start_def)
qed

lemma demo_not_detected: "\<not> stackfs_detect demo_fs"
proof -
  have "s_magic (dec_super (replicate 512 0)) = 0" by (simp add: dec_super_def de32_def ch_def)
  then show ?thesis
    using read_meta [of demo_fs 0] demo_fs_ok(1,4) by (simp add: stackfs_detect_def demo_disk_def sfs_consts STACKFS_MAGIC_def)
qed

lemma first_boot_loses_etc_witness:
  "\<exists>k k' l. initrd_init (vfs_init (vfs_boot demo_fs (\<lambda>_ _. True))) = Some k \<and> disk_start [] k = Some (l, k') \<and>
     root_lists (sfs_st k') {lit ''home'', lit ''tmp'', lit ''var''}"
proof -
  have "disk_ok (dsk demo_fs)" "119 \<le> unat (disk_sectors (dsk demo_fs))" "unat (disk_sectors (dsk demo_fs)) < 1048647"
    "length (buf_rw demo_fs) = 4096" "length (buf_dir demo_fs) = 4096" "length (buf_find demo_fs) = 4096"
    using demo_fs_ok(1) by (simp_all add: demo_fs_ok(4) demo_disk_def) (simp_all add: demo_fs_def)
  from first_boot_loses_etc [OF this demo_not_detected, of "[]"] show ?thesis by blast
qed


end
