(* ===== verification/Spec2Isabelle.thy ===== *)
theory Spec2Isabelle
  imports Mm_Pmm Mm_Heap Mm_Paging Proc_Sched Fs_Create Usr_Accounts Drv_Pci Drv_Keyboard Net_Props Ata_Refine Arch_Gdt Arch_Idt Drv_Timer Sys_Call Sh_Edit Kernel_Boot Kernel_Restart
begin

text \<open>
  StackOS is a small 32-bit operating system for the PC, some six thousand lines of C. This library models all of its C
  code as functions of explicit states and proves what the parts promise each other and the user.
  File names below are relative to \<^verbatim>\<open>src/kernel\<close>; definitions keep the names of the C functions.

  \<^bold>\<open>How the program is put together.\<close> The boot loader enters \<^verbatim>\<open>kernel_main\<close> (\<^verbatim>\<open>kernel.c\<close>), which brings
  up, in this order: the serial line and the console, the segment and interrupt tables, the frame
  allocator, the heap and paging, the timer, the keyboard, processes and system calls, the virtual
  file system with its initrd, the disk and StackFS, the user accounts, PCI, the network card and the
  network stack, and the framebuffer; then it calls the shell, which never returns. Everything runs in
  one address space and, apart from interrupts, in one flow of control: the shell calls the other parts
  directly, and processes are switched only when one of them yields, sleeps, waits or exits.

  \<^bold>\<open>Conventions.\<close>
  \<^item> Integers of the C types are words of their width, so wrap-around is the program's. A structure is
    a record; a component's state is the record of its static variables, passed and returned.
  \<^item> A pointer is what it can point at: a 32-bit address where the code computes with it (\<^verbatim>\<open>Mm_Heap\<close>,
    \<^verbatim>\<open>Mm_Paging\<close>), a slot of a table (\<^verbatim>\<open>Proc_Sched\<close>), a node of the pool or of the heap (\<^verbatim>\<open>Fs_Vfs\<close>).
  \<^item> \<open>None\<close> stands for a call that has no defined result: it never returns, halts the machine, or does what
    C leaves undefined, such as following a pointer to a released node. So every statement of the form
    \<open>f s = Some t\<close> says that the call ends. Failures the code reports are ordinary results; where a small
    helper returns a pointer or an index, its NULL or -1 is the \<open>None\<close> inside the result.
  \<^item> Loops are \<open>for_loop\<close>, \<open>first_from\<close> (a search), \<open>poll\<close> (bounded waiting, with the bounds of the source, such
    as the 100000 looks at the status of the disk), recursive functions with a termination proof, or
    \<open>partial_function\<close> where the loop may run for ever. Two waits without a bound in the source are kept as
    such: for the serial line before each character (\<open>serial_wait\<close>), which every message of \<^verbatim>\<open>kernel_main\<close> goes
    through, and for the next tick in \<^verbatim>\<open>dhcp_request\<close> (\<open>wait_tick\<close>), which ends exactly if the timer's interrupts
    come; at boot they do only once a disk transfer has switched interrupts on (\<open>kn_if\<close>). The receive
    handler's loop is bounded by the 16 descriptors of the ring: after one round all are cleared,
    and the card writes nothing while a batch is handled. The only fuel is that of the line drawing loop,
    \<open>|dx| + |dy| + 1\<close> steps, one more than the number of its points, and the number of interrupts
    \<open>timer_sleep\<close> may take, for which \<open>timer_sleep_returns\<close> gives the number that is enough.
  \<^item> Hardware is a parameter: a device answers an access from the history of all accesses (\<^verbatim>\<open>Hw_Io\<close>), so
    any deterministic device is one. The driver's stores to the rings and buffers it shares with the network card
    are in that history too, so their order with the accesses to its registers is part of the model. What a device is assumed to do is a hypothesis of the theorems
    that need it (a PCI bus in \<^verbatim>\<open>Drv_Pci\<close>, a drive in \<^verbatim>\<open>Ata_Refine\<close>, the status of the card in
    \<^verbatim>\<open>Drv_E1000\<close>), and every such theorem has a witness with a concrete device. What the network card
    writes to memory, which interrupts come while a call waits, and whether an allocation of a node
    succeeds are parameters too.

  \<^bold>\<open>The theories, from the bottom.\<close>
  \<^item> \<^verbatim>\<open>Prelude\<close>, \<^verbatim>\<open>Mem_Bytes\<close>, \<^verbatim>\<open>Le_Bytes\<close>, \<^verbatim>\<open>Lib_CString\<close>: words, loops, bytes in memory, C strings.
    \<^verbatim>\<open>Fifo\<close> is the contract of a queue, which the run queue and the keyboard ring provide, and the
    locale in \<^verbatim>\<open>Mm_Pmm\<close> that of a frame allocator, on which paging rests.
  \<^item> \<^verbatim>\<open>Mm_Pmm\<close> (\<^verbatim>\<open>mm/pmm.c\<close>), \<^verbatim>\<open>Mm_Heap\<close> (\<^verbatim>\<open>mm/heap.c\<close>), \<^verbatim>\<open>Mm_Paging\<close> (\<^verbatim>\<open>mm/paging.c\<close>): the set of free frames,
    the list of heap blocks and the translation of addresses as abstractions of the bitmap, the headers
    in the heap region and the page tables; invariants of all reachable states; blocks handed out are
    fresh and disjoint, releasing undoes allocating, mapping a page changes the translation of that page only.
  \<^item> \<^verbatim>\<open>Proc_Sched\<close> (\<^verbatim>\<open>proc/process.c\<close>, \<^verbatim>\<open>proc/switch.asm\<close>): the run queue as a list; no ready process is lost,
    everyone's turn comes.
  \<^item> \<^verbatim>\<open>Arch_Gdt\<close>, \<^verbatim>\<open>Arch_Idt\<close> (\<^verbatim>\<open>arch/x86\<close>), \<^verbatim>\<open>Drv_Timer\<close> (with \<^verbatim>\<open>serial.c\<close>), \<^verbatim>\<open>Drv_Keyboard\<close>, \<^verbatim>\<open>Drv_Pci\<close>, \<^verbatim>\<open>Drv_Ata\<close>,
    \<^verbatim>\<open>Drv_E1000\<close>, \<^verbatim>\<open>Drv_Vga\<close> (\<^verbatim>\<open>drivers\<close>): the drivers at the level of port and register accesses.
    \<^verbatim>\<open>Ata_Refine\<close> shows that a drive behind the ports provides the array of sectors the file system is
    built on, and where it does not (a write error that is lost).
  \<^item> \<^verbatim>\<open>Gui_Fb\<close>, \<^verbatim>\<open>Gui_Font\<close>, \<^verbatim>\<open>Gui_Fbterm\<close> (\<^verbatim>\<open>gui\<close>) and \<^verbatim>\<open>Drv_Vga\<close>: both consoles refine a grid of character cells.
  \<^item> \<^verbatim>\<open>Fs_Layout\<close>, \<^verbatim>\<open>Fs_Disk\<close>, \<^verbatim>\<open>Fs_StackFS\<close> (\<^verbatim>\<open>fs/stackfs.c\<close>) are the file system; \<^verbatim>\<open>Fs_Persist\<close>, \<^verbatim>\<open>Fs_Blocks\<close>,
    \<^verbatim>\<open>Fs_Files\<close>, \<^verbatim>\<open>Fs_Rw\<close>, \<^verbatim>\<open>Fs_Dirs\<close>, \<^verbatim>\<open>Fs_Create\<close> its abstractions: files are partial functions from offsets to
    bytes, directories association lists, blocks have one owner, and all of it outlives a reboot.
    \<^verbatim>\<open>Fs_Initrd\<close>, \<^verbatim>\<open>Fs_Vnode\<close>, \<^verbatim>\<open>Fs_Vfs\<close> (\<^verbatim>\<open>fs/initrd.c\<close>, \<^verbatim>\<open>fs/vfs.c\<close>): the tree, path resolution and
    the ownership of nodes. \<^verbatim>\<open>Fs_Live\<close>: no operation of the running kernel uses a released node.
  \<^item> \<^verbatim>\<open>Usr_Accounts\<close> (\<^verbatim>\<open>user.c\<close>): the table, its file and the session.
  \<^item> \<^verbatim>\<open>Net_Wire\<close>, \<^verbatim>\<open>Net_Stack\<close>, \<^verbatim>\<open>Net_Props\<close> (\<^verbatim>\<open>net/net.c\<close>): packets as lists of bytes, the ARP cache as a map,
    the echo reply, and the DHCP client as a protocol step on the meaning of a message.
  \<^item> \<^verbatim>\<open>Lib_Kprintf\<close> (\<^verbatim>\<open>kprintf.c\<close>) and \<^verbatim>\<open>Sys_Call\<close> (\<^verbatim>\<open>syscall/syscall.c\<close>).
  \<^item> \<^verbatim>\<open>Sh_Base\<close>, \<^verbatim>\<open>Sh_Text\<close>, \<^verbatim>\<open>Sh_Files\<close>, \<^verbatim>\<open>Sh_Sys\<close>, \<^verbatim>\<open>Sh_Main\<close> (\<^verbatim>\<open>shell.c\<close>): every command, the line editor and the loop,
    over the states of all the parts it calls. \<^verbatim>\<open>Sh_Props\<close>: who can change the accounts and how a session
    begins; \<^verbatim>\<open>Sh_Edit\<close>: what is typed is what is run.
  \<^item> \<^verbatim>\<open>Kernel_Main\<close> (\<^verbatim>\<open>kernel.c\<close>): the product of all states and the start. \<^verbatim>\<open>Nic_Start\<close> and \<^verbatim>\<open>Kernel_Boot\<close>: exactly
    when the start reaches the shell, and what the shell then finds. \<^verbatim>\<open>Kernel_Restart\<close>: what is saved of the accounts
    is what the next start reads, and what the first start makes of an empty disk.

  \<^bold>\<open>Composition.\<close> The parts are joined where the code joins them: paging calls the frame allocator,
  the scheduler the heap, StackFS the disk, the VFS both file systems, the accounts the VFS, the network stack the
  card's driver, the shell nearly all of them, and the state of \<^verbatim>\<open>kernel_main\<close> holds each exactly once.
  Three joints are by a contract instead of a call: the disk of \<^verbatim>\<open>Fs_Disk\<close> stands for the driver,
  the success it reports for a write to a bad sector included (\<open>ata_provides_disk\<close>); whether the heap has room for a node is an arbitrary function of the
  allocations so far (\<open>kgrant\<close>); and what the shell prints is the list of calls of the console, which
  \<^verbatim>\<open>Drv_Vga\<close> runs.

  \<^bold>\<open>Not modelled.\<close>
  \<^item> Assembly: the entry of the kernel, the interrupt stubs and the loading of the tables appear as
    addresses or flags; only the transfer of registers in \<^verbatim>\<open>switch.asm\<close> is modelled. The linker script and the
    build decide addresses, which are hypotheses (\<open>image_placed\<close>).
  \<^item> Interrupts run where the code waits for them (keys, timer ticks) and not between any two
    instructions, so races of the handlers with the code they interrupt are outside the model.
  \<^item> The serial messages of the drivers and of the network stack are texts in their own states. \<^verbatim>\<open>kernel_main\<close> sends them,
    and its own, over the line, stage by stage; while the shell runs they stay texts, as on a line that takes
    every character. The colours of \<^verbatim>\<open>user_list\<close> are left out.
  \<^item> Processes other than the shell and the heartbeat do not exist in the sources; what others would do
    between two turns of the shell is a parameter of the shell's world (\<open>other_procs\<close>).
  \<^item> The blocks of the heap that file nodes and the frame buffer's shadow take do not reduce the heap the
    processes' stacks come from: whether those allocations succeed is a parameter (\<open>kgrant\<close>, \<open>shadow_granted\<close>).
  \<^item> Page tables are read and written at their physical addresses, as before paging is on. Afterwards the
    code can reach only those in the first 8 MiB, where the frames are that are given out first.
  \<^item> What the code does after it has written behind a buffer or a table: the model ends there, with \<open>None\<close>.
  \<^item> An interrupt between the test and the halt of \<^verbatim>\<open>timer_sleep\<close>, which would let it sleep one interrupt longer.
  \<^item> Members of the boot loader's table that the kernel never reads, and those of a node that are
    only ever zero.
\<close>

end
